(* ===== verification/Prelude.thy ===== *)
theory Prelude
  imports Main "HOL-Library.Multiset" "HOL-Library.Word"
begin

text \<open>
  Shared vocabulary of the development.

  Go's \<open>byte\<close> is HOL's \<open>char\<close> (eight bits), so a Go \<open>string\<close>, a \<open>[]byte\<close> and the
  contents of a file are all char lists. \<open>encoding/binary\<close> with \<open>binary.LittleEndian\<close>
  is \<open>le_bytes\<close>/\<open>le_nat\<close>; \<open>io.ReadFull\<close> is \<open>readFull\<close>. \<open>sort.Slice\<close> is
  \<open>sortSlice\<close>: the clients only use the two laws of the locale \<open>slice_sorter\<close>
  (the result is a permutation, and it is ordered when the comparison is a strict weak
  order), never the order of ties, which Go leaves open.
\<close>

section \<open>Collections of rewrite rules\<close>

named_theorems codec \<open>lengths and round trips of the binary encodings\<close>
named_theorems fltcmp \<open>definitions of the floating point comparisons\<close>

section \<open>Bytes and little-endian integers\<close>

type_synonym byte = char
type_synonym bytes = "char list"

fun le_bytes :: "nat \<Rightarrow> nat \<Rightarrow> bytes" where
  "le_bytes 0 n = []"
| "le_bytes (Suc k) n = char_of (n mod 256) # le_bytes k (n div 256)"

fun le_nat :: "bytes \<Rightarrow> nat" where
  "le_nat [] = 0"
| "le_nat (b # bs) = of_char b + 256 * le_nat bs"

text \<open>\<open>io.ReadFull\<close>: the first \<open>n\<close> bytes and the rest, or an error when there are fewer.\<close>

definition readFull :: "nat \<Rightarrow> bytes \<Rightarrow> (bytes \<times> bytes) option" where
  "readFull n bs = (if n \<le> length bs then Some (take n bs, drop n bs) else None)"

text \<open>Two's complement reading of a 64-bit and a 32-bit pattern.\<close>

definition int64_of :: "nat \<Rightarrow> int" where
  "int64_of n = (if n mod 2 ^ 64 < 2 ^ 63 then int (n mod 2 ^ 64) else int (n mod 2 ^ 64) - 2 ^ 64)"

definition int32_of :: "nat \<Rightarrow> int" where
  "int32_of n = (if n mod 2 ^ 32 < 2 ^ 31 then int (n mod 2 ^ 32) else int (n mod 2 ^ 32) - 2 ^ 32)"

section \<open>Sorting a slice with a comparison\<close>

fun insertSlice :: "('a \<Rightarrow> 'a \<Rightarrow> bool) \<Rightarrow> 'a \<Rightarrow> 'a list \<Rightarrow> 'a list" where
  "insertSlice lt x [] = [x]"
| "insertSlice lt x (y # ys) = (if lt x y then x # y # ys else y # insertSlice lt x ys)"

definition sortSlice :: "('a \<Rightarrow> 'a \<Rightarrow> bool) \<Rightarrow> 'a list \<Rightarrow> 'a list" where
  "sortSlice lt xs = foldl (\<lambda>acc x. insertSlice lt x acc) [] xs"

definition swo_on :: "'a set \<Rightarrow> ('a \<Rightarrow> 'a \<Rightarrow> bool) \<Rightarrow> bool" where
  "swo_on S lt \<longleftrightarrow>
     (\<forall>x\<in>S. \<not> lt x x) \<and>
     (\<forall>x\<in>S. \<forall>y\<in>S. \<forall>z\<in>S. lt x y \<longrightarrow> lt y z \<longrightarrow> lt x z) \<and>
     (\<forall>x\<in>S. \<forall>y\<in>S. \<forall>z\<in>S. \<not> lt x y \<longrightarrow> \<not> lt y z \<longrightarrow> \<not> lt x z)"

section \<open>Lemmas\<close>

subsection \<open>Little-endian encoding\<close>

lemma length_le_bytes [simp, codec]: "length (le_bytes k n) = k"
  by (induction k arbitrary: n) auto

lemma le_nat_less: "le_nat bs < 256 ^ length bs"
proof (induction bs)
  case Nil
  then show ?case by simp
next
  case (Cons b bs)
  have "(of_char b :: nat) < 256" by (rule nat_of_char_less_256)
  moreover have "256 * le_nat bs + 256 \<le> 256 * 256 ^ length bs"
    using Cons.IH by simp
  ultimately have "of_char b + 256 * le_nat bs < 256 * 256 ^ length bs" by linarith
  then show ?case by simp
qed

lemma le_nat_le_bytes [codec]: "le_nat (le_bytes k n) = n mod 256 ^ k"
  by (induction k arbitrary: n) (simp_all add: mod_mult2_eq)

lemma le_nat_le_bytes_id: "n < 256 ^ k \<Longrightarrow> le_nat (le_bytes k n) = n"
  by (simp add: codec)

lemma le_bytes_le_nat [codec]: "le_bytes (length bs) (le_nat bs) = bs"
proof (induction bs)
  case Nil
  then show ?case by simp
next
  case (Cons b bs)
  have less256: "(of_char b :: nat) < 256" by (rule nat_of_char_less_256)
  then have "(of_char b + 256 * le_nat bs) mod 256 = of_char b"
    and "(of_char b + 256 * le_nat bs) div 256 = le_nat bs"
    by auto
  with Cons.IH show ?case by simp
qed

lemma le_bytes_inj: "le_bytes k m = le_bytes k n \<Longrightarrow> m < 256 ^ k \<Longrightarrow> n < 256 ^ k \<Longrightarrow> m = n"
  by (metis le_nat_le_bytes_id)

lemma le_nat_append: "le_nat (as @ bs) = le_nat as + 256 ^ length as * le_nat bs"
  by (induction as) (simp_all add: algebra_simps)

lemma take_le_bytes: "j \<le> k \<Longrightarrow> take j (le_bytes k n) = le_bytes j n"
proof (induction j arbitrary: k n)
  case 0
  then show ?case by simp
next
  case (Suc j)
  then obtain k' where "k = Suc k'" by (cases k) auto
  with Suc show ?case by simp
qed

lemma char_of_mod_eq [simp]: "of_char (char_of (n::nat)) = n mod 256"
  by simp

subsection \<open>Reading\<close>

lemma readFull_append [simp]: "readFull (length xs) (xs @ ys) = Some (xs, ys)"
  by (simp add: readFull_def)

lemma readFull_le_bytes [simp]: "readFull k (le_bytes k n @ ys) = Some (le_bytes k n, ys)"
  by (simp add: readFull_def)

lemma readFull_append': "length xs = n \<Longrightarrow> readFull n (xs @ ys) = Some (xs, ys)"
  by (simp add: readFull_def)

lemma readFull_SomeD:
  "readFull n bs = Some (xs, ys) \<Longrightarrow> bs = xs @ ys \<and> length xs = n"
  by (auto simp: readFull_def split: if_splits)

lemma readFull_NoneD: "readFull n bs = None \<Longrightarrow> length bs < n"
  by (auto simp: readFull_def split: if_splits)

lemma readFull_eq_None_iff: "readFull n bs = None \<longleftrightarrow> length bs < n"
  by (auto simp: readFull_def)

lemma int64_of_small: "n < 2 ^ 63 \<Longrightarrow> int64_of n = int n"
  by (simp add: int64_of_def)

lemma int32_of_small: "n < 2 ^ 31 \<Longrightarrow> int32_of n = int n"
  by (simp add: int32_of_def)

lemma int64_of_range: "- (2 ^ 63) \<le> int64_of n \<and> int64_of n < 2 ^ 63"
proof -
  have "n mod 2 ^ 64 < (2 ^ 64 :: nat)" by simp
  then have "int (n mod 2 ^ 64) < int (2 ^ 64)" by (simp only: of_nat_less_iff)
  then have "int (n mod 2 ^ 64) < 2 ^ 64" by simp
  then show ?thesis
    by (auto simp: int64_of_def)
qed

subsection \<open>Sorting\<close>

locale slice_sorter =
  fixes sorter :: "('a \<Rightarrow> 'a \<Rightarrow> bool) \<Rightarrow> 'a list \<Rightarrow> 'a list"
  assumes sorter_mset: "mset (sorter lt xs) = mset xs"
    and sorter_sorted: "swo_on (set xs) lt \<Longrightarrow> sorted_wrt (\<lambda>x y. \<not> lt y x) (sorter lt xs)"
begin

lemma sorter_set: "set (sorter lt xs) = set xs"
  by (metis set_mset_mset sorter_mset)

lemma sorter_length: "length (sorter lt xs) = length xs"
  by (metis size_mset sorter_mset)

lemma sorter_distinct_map:
  "distinct (map f (sorter lt xs)) \<longleftrightarrow> distinct (map f xs)"
proof -
  have "mset (map f (sorter lt xs)) = mset (map f xs)"
    by (simp add: sorter_mset)
  then show ?thesis by (rule mset_eq_imp_distinct_iff)
qed

lemma take_sorter_sorted:
  "swo_on (set xs) lt \<Longrightarrow> sorted_wrt (\<lambda>x y. \<not> lt y x) (take k (sorter lt xs))"
  by (rule sorted_wrt_take [OF sorter_sorted])

text \<open>The first \<open>k\<close> are the best: nothing that was cut off precedes something kept.\<close>

lemma take_sorter_best:
  assumes "swo_on (set xs) lt"
    and "x \<in> set (take k (sorter lt xs))" and "y \<in> set (drop k (sorter lt xs))"
  shows "\<not> lt y x"
proof -
  have "sorted_wrt (\<lambda>x y. \<not> lt y x) (take k (sorter lt xs) @ drop k (sorter lt xs))"
    using sorter_sorted [OF assms(1)] by simp
  with assms(2,3) show ?thesis
    by (simp only: sorted_wrt_append) blast
qed

end

lemma mset_insertSlice: "mset (insertSlice lt x ys) = add_mset x (mset ys)"
  by (induction ys) auto

lemma set_insertSlice [simp]: "set (insertSlice lt x ys) = insert x (set ys)"
  by (induction ys) auto

lemma mset_foldl_insertSlice:
  "mset (foldl (\<lambda>acc x. insertSlice lt x acc) acc xs) = mset acc + mset xs"
  by (induction xs arbitrary: acc) (simp_all add: mset_insertSlice)

lemma sorted_insertSlice:
  assumes "swo_on S lt" "set ys \<subseteq> S" "x \<in> S" "sorted_wrt (\<lambda>x y. \<not> lt y x) ys"
  shows "sorted_wrt (\<lambda>x y. \<not> lt y x) (insertSlice lt x ys)"
  using assms(2,4)
proof (induction ys)
  case Nil
  then show ?case by simp
next
  case (Cons y ys)
  have S: "\<And>u. \<not> lt u u \<or> u \<notin> S"
    "\<And>u v w. u \<in> S \<Longrightarrow> v \<in> S \<Longrightarrow> w \<in> S \<Longrightarrow> lt u v \<Longrightarrow> lt v w \<Longrightarrow> lt u w"
    "\<And>u v w. u \<in> S \<Longrightarrow> v \<in> S \<Longrightarrow> w \<in> S \<Longrightarrow> \<not> lt u v \<Longrightarrow> \<not> lt v w \<Longrightarrow> \<not> lt u w"
    using assms(1) unfolding swo_on_def by blast+
  show ?case
  proof (cases "lt x y")
    case True
    have "\<not> lt z x" if "z \<in> set (y # ys)" for z
    proof (cases "z = y")
      case True
      then show ?thesis using S(1) S(2)[of x y x] \<open>lt x y\<close> assms(3) Cons.prems(1) by auto
    next
      case False
      with that Cons.prems have "\<not> lt z y" "z \<in> S" "y \<in> S" by auto
      then show ?thesis using S(2)[of z x y] \<open>lt x y\<close> assms(3) by blast
    qed
    with True Cons.prems show ?thesis by simp
  next
    case False
    then have "\<forall>z\<in>set (insertSlice lt x ys). \<not> lt z y"
      using Cons.prems by auto
    with False Cons show ?thesis by simp
  qed
qed

lemma sorted_foldl_insertSlice:
  assumes "swo_on S lt"
  shows "set acc \<subseteq> S \<Longrightarrow> set xs \<subseteq> S \<Longrightarrow> sorted_wrt (\<lambda>x y. \<not> lt y x) acc \<Longrightarrow>
    sorted_wrt (\<lambda>x y. \<not> lt y x) (foldl (\<lambda>acc x. insertSlice lt x acc) acc xs)"
  by (induction xs arbitrary: acc) (simp_all add: sorted_insertSlice [OF assms])

interpretation goSort: slice_sorter sortSlice
proof
  show "mset (sortSlice lt xs) = mset xs" for lt :: "'a \<Rightarrow> 'a \<Rightarrow> bool" and xs
    by (simp add: sortSlice_def mset_foldl_insertSlice)
  show "sorted_wrt (\<lambda>x y. \<not> lt y x) (sortSlice lt xs)"
    if "swo_on (set xs) lt" for lt :: "'a \<Rightarrow> 'a \<Rightarrow> bool" and xs
    unfolding sortSlice_def
    by (rule sorted_foldl_insertSlice [OF that]) auto
qed

lemma swo_on_key:
  fixes key :: "'a \<Rightarrow> 'b::linorder"
  assumes "\<And>x y. x \<in> S \<Longrightarrow> y \<in> S \<Longrightarrow> lt x y \<longleftrightarrow> key x < key y"
  shows "swo_on S lt"
  using assms unfolding swo_on_def by (auto dest: less_trans)

subsection \<open>Lists\<close>

lemma take_append_cases:
  "take n (xs @ ys) = (if n \<le> length xs then take n xs else xs @ take (n - length xs) ys)"
  by auto

lemma concat_map_snoc [simp]: "concat (map f (xs @ [x])) = concat (map f xs) @ f x"
  by simp

end
