(* ===== verification/Float_Bits.thy ===== *)
theory Float_Bits
  imports Prelude "HOL-Library.Log_Nat"
begin

text \<open>
  Go's \<open>float32\<close> and \<open>float64\<close>. A \<open>float32\<close> is its IEEE 754 bit pattern (a 32-bit
  word), as \<open>math.Float32bits\<close> gives it: it is what the arena and the log store.
  Comparisons are false when an operand is NaN, and otherwise compare sign and magnitude
  (so the two zeros are equal). Arithmetic is exact on unpacked values followed by one
  rounding to nearest, ties to even, in the format of the operation. \<open>float64\<close> values
  occur only as intermediate results, so they stay unpacked.
\<close>

type_synonym float32 = "32 word"
type_synonym vec = "float32 list"

section \<open>Fields, classes and comparisons of float32\<close>

definition f32_neg :: "float32 \<Rightarrow> bool" where
  "f32_neg w = (2 ^ 31 \<le> uint w)"

definition f32_exp :: "float32 \<Rightarrow> int" where
  "f32_exp w = uint w div 2 ^ 23 mod 2 ^ 8"

definition f32_frac :: "float32 \<Rightarrow> int" where
  "f32_frac w = uint w mod 2 ^ 23"

definition f32_isNaN :: "float32 \<Rightarrow> bool" where
  "f32_isNaN w = (f32_exp w = 255 \<and> f32_frac w \<noteq> 0)"

definition f32_isInf :: "float32 \<Rightarrow> bool" where
  "f32_isInf w = (f32_exp w = 255 \<and> f32_frac w = 0)"

text \<open>Sign and magnitude as one integer: the order of the non-NaN values.\<close>

definition f32_key :: "float32 \<Rightarrow> int" where
  "f32_key w = (if f32_neg w then - (uint w mod 2 ^ 31) else uint w mod 2 ^ 31)"

definition f32_lt :: "float32 \<Rightarrow> float32 \<Rightarrow> bool" where
  "f32_lt a b = (\<not> f32_isNaN a \<and> \<not> f32_isNaN b \<and> f32_key a < f32_key b)"

definition f32_le :: "float32 \<Rightarrow> float32 \<Rightarrow> bool" where
  "f32_le a b = (\<not> f32_isNaN a \<and> \<not> f32_isNaN b \<and> f32_key a \<le> f32_key b)"

definition f32_gt :: "float32 \<Rightarrow> float32 \<Rightarrow> bool" where
  "f32_gt a b = f32_lt b a"

definition f32_ge :: "float32 \<Rightarrow> float32 \<Rightarrow> bool" where
  "f32_ge a b = f32_le b a"

section \<open>Unpacked values and rounding\<close>

datatype flt = FNaN | FInf bool | FFin bool int int

text \<open>A format: precision, least and greatest exponent of an integer significand.\<close>

datatype fmt = Fmt int int int

definition binary32 :: fmt where "binary32 = Fmt 24 (-149) 104"
definition binary64 :: fmt where "binary64 = Fmt 53 (-1074) 971"

definition rne :: "int \<Rightarrow> nat \<Rightarrow> int" where
  "rne m k = (let q = m div 2 ^ k; r = m mod 2 ^ k; half = 2 ^ (k - 1) in
     if k = 0 then m else if r < half \<or> (r = half \<and> even q) then q else q + 1)"

fun round_flt :: "fmt \<Rightarrow> bool \<Rightarrow> int \<Rightarrow> int \<Rightarrow> flt" where
  "round_flt (Fmt p emin emax) s m e =
     (if m = 0 then FFin s 0 0
      else
        let e1 = max (e + bitlen m - p) emin;
            m1 = (if e1 \<le> e then m * 2 ^ nat (e - e1) else rne m (nat (e1 - e)));
            e2 = (if m1 = 2 ^ nat p then e1 + 1 else e1);
            m2 = (if m1 = 2 ^ nat p then 2 ^ nat (p - 1) else m1)
        in if emax < e2 then FInf s else FFin s m2 e2)"

fun flt_neg :: "flt \<Rightarrow> flt" where
  "flt_neg FNaN = FNaN"
| "flt_neg (FInf s) = FInf (\<not> s)"
| "flt_neg (FFin s m e) = FFin (\<not> s) m e"

fun flt_abs :: "flt \<Rightarrow> flt" where
  "flt_abs FNaN = FNaN"
| "flt_abs (FInf s) = FInf False"
| "flt_abs (FFin s m e) = FFin False m e"

definition signed :: "bool \<Rightarrow> int \<Rightarrow> int" where
  "signed s m = (if s then - m else m)"

fun flt_add :: "fmt \<Rightarrow> flt \<Rightarrow> flt \<Rightarrow> flt" where
  "flt_add f (FFin s1 m1 e1) (FFin s2 m2 e2) =
     (let e = min e1 e2;
          t = signed s1 m1 * 2 ^ nat (e1 - e) + signed s2 m2 * 2 ^ nat (e2 - e)
      in if t = 0 then FFin (s1 \<and> s2 \<and> m1 = 0 \<and> m2 = 0) 0 0 else round_flt f (t < 0) \<bar>t\<bar> e)"
| "flt_add f (FInf s1) (FInf s2) = (if s1 = s2 then FInf s1 else FNaN)"
| "flt_add f (FInf s1) (FFin s2 m2 e2) = FInf s1"
| "flt_add f (FFin s1 m1 e1) (FInf s2) = FInf s2"
| "flt_add f FNaN y = FNaN"
| "flt_add f x FNaN = FNaN"

definition flt_sub :: "fmt \<Rightarrow> flt \<Rightarrow> flt \<Rightarrow> flt" where
  "flt_sub f x y = flt_add f x (flt_neg y)"

fun flt_mul :: "fmt \<Rightarrow> flt \<Rightarrow> flt \<Rightarrow> flt" where
  "flt_mul f (FFin s1 m1 e1) (FFin s2 m2 e2) = round_flt f (s1 \<noteq> s2) (m1 * m2) (e1 + e2)"
| "flt_mul f (FInf s1) (FInf s2) = FInf (s1 \<noteq> s2)"
| "flt_mul f (FInf s1) (FFin s2 m2 e2) = (if m2 = 0 then FNaN else FInf (s1 \<noteq> s2))"
| "flt_mul f (FFin s1 m1 e1) (FInf s2) = (if m1 = 0 then FNaN else FInf (s1 \<noteq> s2))"
| "flt_mul f FNaN y = FNaN"
| "flt_mul f x FNaN = FNaN"

text \<open>
  Quotient and square root are computed to more bits than the format keeps, with the
  remainder folded into a sticky last bit, so that the single rounding is correct.
\<close>

fun flt_div :: "fmt \<Rightarrow> flt \<Rightarrow> flt \<Rightarrow> flt" where
  "flt_div (Fmt p a b) (FFin s1 m1 e1) (FFin s2 m2 e2) =
     (if m2 = 0 then (if m1 = 0 then FNaN else FInf (s1 \<noteq> s2))
      else
        let k = p + 3 + bitlen m2;
            n = m1 * 2 ^ nat k;
            q = 2 * (n div m2) + (if n mod m2 = 0 then 0 else 1)
        in round_flt (Fmt p a b) (s1 \<noteq> s2) q (e1 - e2 - k - 1))"
| "flt_div f (FInf s1) (FInf s2) = FNaN"
| "flt_div f (FInf s1) (FFin s2 m2 e2) = FInf (s1 \<noteq> s2)"
| "flt_div f (FFin s1 m1 e1) (FInf s2) = FFin (s1 \<noteq> s2) 0 0"
| "flt_div f FNaN y = FNaN"
| "flt_div f x FNaN = FNaN"

fun isqrt_bits :: "nat \<Rightarrow> int \<Rightarrow> int \<Rightarrow> int" where
  "isqrt_bits 0 n r = r"
| "isqrt_bits (Suc b) n r =
     isqrt_bits b n (if (r + 2 ^ b) * (r + 2 ^ b) \<le> n then r + 2 ^ b else r)"

fun flt_sqrt :: "fmt \<Rightarrow> flt \<Rightarrow> flt" where
  "flt_sqrt (Fmt p a b) (FFin s m e) =
     (if m = 0 then FFin s 0 0
      else if s then FNaN
      else
        let k0 = 2 * p + 4; k = (if even (e - k0) then k0 else k0 + 1);
            n = m * 2 ^ nat k;
            r = isqrt_bits (nat (bitlen n)) n 0;
            q = 2 * r + (if r * r = n then 0 else 1)
        in round_flt (Fmt p a b) False q ((e - k) div 2 - 1))"
| "flt_sqrt f (FInf s) = (if s then FNaN else FInf False)"
| "flt_sqrt f FNaN = FNaN"

fun flt_lt :: "flt \<Rightarrow> flt \<Rightarrow> bool" where
  "flt_lt (FFin s1 m1 e1) (FFin s2 m2 e2) =
     (signed s1 m1 * 2 ^ nat (e1 - min e1 e2) < signed s2 m2 * 2 ^ nat (e2 - min e1 e2))"
| "flt_lt (FInf s1) (FInf s2) = (s1 \<and> \<not> s2)"
| "flt_lt (FInf s1) (FFin s2 m2 e2) = s1"
| "flt_lt (FFin s1 m1 e1) (FInf s2) = (\<not> s2)"
| "flt_lt FNaN y = False"
| "flt_lt x FNaN = False"

section \<open>Packing\<close>

definition f32_unpack :: "float32 \<Rightarrow> flt" where
  "f32_unpack w =
     (if f32_exp w = 255 then (if f32_frac w = 0 then FInf (f32_neg w) else FNaN)
      else if f32_exp w = 0 then FFin (f32_neg w) (f32_frac w) (-149)
      else FFin (f32_neg w) (2 ^ 23 + f32_frac w) (f32_exp w - 150))"

text \<open>The inverse on values rounded to \<open>binary32\<close>; a NaN packs to the quiet NaN.\<close>

fun f32_pack :: "flt \<Rightarrow> float32" where
  "f32_pack FNaN = 0x7FC00000"
| "f32_pack (FInf s) = (if s then 0xFF800000 else 0x7F800000)"
| "f32_pack (FFin s m e) =
     word_of_int ((if s then 2 ^ 31 else 0) +
       (if m < 2 ^ 23 then m else (e + 149) * 2 ^ 23 + m))"

definition f32_round :: "flt \<Rightarrow> float32" where
  "f32_round x = (case x of FFin s m e \<Rightarrow> f32_pack (round_flt binary32 s m e) | _ \<Rightarrow> f32_pack x)"

definition f32_mul :: "float32 \<Rightarrow> float32 \<Rightarrow> float32" where
  "f32_mul a b = f32_pack (flt_mul binary32 (f32_unpack a) (f32_unpack b))"

definition f32_add :: "float32 \<Rightarrow> float32 \<Rightarrow> float32" where
  "f32_add a b = f32_pack (flt_add binary32 (f32_unpack a) (f32_unpack b))"

definition f32_sub :: "float32 \<Rightarrow> float32 \<Rightarrow> float32" where
  "f32_sub a b = f32_pack (flt_sub binary32 (f32_unpack a) (f32_unpack b))"

definition f32_one :: float32 where "f32_one = 0x3F800000"

definition flt_one :: flt where "flt_one = FFin False 1 0"

definition f32_finite :: "float32 \<Rightarrow> bool" where
  "f32_finite w = (\<not> f32_isNaN w \<and> \<not> f32_isInf w)"

section \<open>Lemmas\<close>

lemmas f32_cmp_defs [fltcmp] = f32_lt_def f32_le_def f32_gt_def f32_ge_def

lemma f32_lt_irrefl [simp]: "\<not> f32_lt a a"
  by (simp add: fltcmp)

lemma f32_lt_trans: "f32_lt a b \<Longrightarrow> f32_lt b c \<Longrightarrow> f32_lt a c"
  by (auto simp: fltcmp)

lemma f32_le_trans: "f32_le a b \<Longrightarrow> f32_le b c \<Longrightarrow> f32_le a c"
  by (auto simp: fltcmp)

lemma f32_lt_le_trans: "f32_lt a b \<Longrightarrow> f32_le b c \<Longrightarrow> f32_lt a c"
  by (auto simp: fltcmp)

lemma f32_lt_imp_le: "f32_lt a b \<Longrightarrow> f32_le a b"
  by (auto simp: fltcmp)

lemma f32_le_refl: "\<not> f32_isNaN a \<Longrightarrow> f32_le a a"
  by (simp add: fltcmp)

lemma f32_le_total: "\<not> f32_isNaN a \<Longrightarrow> \<not> f32_isNaN b \<Longrightarrow> f32_le a b \<or> f32_le b a"
  by (auto simp: fltcmp)

lemma f32_not_lt: "\<not> f32_isNaN a \<Longrightarrow> \<not> f32_isNaN b \<Longrightarrow> \<not> f32_lt a b \<longleftrightarrow> f32_le b a"
  by (auto simp: fltcmp)

lemma swo_on_f32_gt:
  assumes "\<And>x. x \<in> S \<Longrightarrow> \<not> f32_isNaN (key x)"
  shows "swo_on S (\<lambda>x y. f32_gt (key x) (key y))"
  by (rule swo_on_key [where key = "\<lambda>x. - f32_key (key x)"]) (use assms in \<open>auto simp: fltcmp\<close>)

text \<open>Rounding to nearest is within half a unit, and the integer root is the floor.\<close>

lemma rne_error: "2 * \<bar>rne m k * 2 ^ k - m\<bar> \<le> 2 ^ k"
proof (cases k)
  case 0
  then show ?thesis by (simp add: rne_def)
next
  case (Suc j)
  define q r where "q = m div 2 ^ k" and "r = m mod 2 ^ k"
  have m: "m = q * 2 ^ k + r" unfolding q_def r_def by (rule div_mult_mod_eq [symmetric])
  have r: "0 \<le> r" "r < 2 ^ k" unfolding r_def by simp_all
  have half: "2 * 2 ^ (k - 1) = (2 ^ k :: int)" using Suc by simp
  have "rne m k = (if r < 2 ^ (k - 1) \<or> (r = 2 ^ (k - 1) \<and> even q) then q else q + 1)"
    using Suc by (simp add: rne_def q_def r_def Let_def)
  moreover have "q * 2 ^ k - m = - r" "(q + 1) * 2 ^ k - m = 2 ^ k - r"
    using m by (simp_all add: algebra_simps)
  ultimately show ?thesis using r half by auto
qed

lemma isqrt_bits_floor:
  assumes "0 \<le> r" "r * r \<le> n" "n < (r + 2 ^ b) * (r + 2 ^ b)"
  shows "isqrt_bits b n r * isqrt_bits b n r \<le> n \<and>
    n < (isqrt_bits b n r + 1) * (isqrt_bits b n r + 1)"
  using assms
proof (induction b arbitrary: r)
  case 0
  then show ?case by simp
next
  case (Suc b)
  show ?case
  proof (cases "(r + 2 ^ b) * (r + 2 ^ b) \<le> n")
    case True
    have "r + 2 ^ Suc b = (r + 2 ^ b) + 2 ^ b" by simp
    with Suc.prems True show ?thesis using Suc.IH [of "r + 2 ^ b"] by (simp add: add.assoc)
  next
    case False
    with Suc.prems show ?thesis using Suc.IH [of r] by simp
  qed
qed

end
