(* ===== verification/Arena.thy ===== *)
theory Arena
  imports Float_Bits
begin

text \<open>
  \<open>internal/store/arena.go\<close>: the paged pool of fixed-dimension vectors. A page is the
  contents of its float32 slots (slot \<open>k\<close> of the page is at byte offset \<open>4 * k\<close>);
  offsets are counted in slots. \<open>Add\<close> normalizes the caller's slice in place, so it
  returns that slice too. The index of a vector and the number of vectors are \<open>uint32\<close>.
  The abstraction \<open>arena_vecs\<close> is the list of the stored vectors by index: \<open>Add\<close>
  appends to it and the reads index it.
\<close>

section \<open>State\<close>

definition PageSizeBytes :: nat where
  "PageSizeBytes = 4 * 1024 * 1024"

type_synonym page = "nat \<Rightarrow> float32"

record VectorArena =
  arDim :: nat
  arPages :: "page list"
  arCurrentPageIdx :: nat
  arCurrentVecIdx :: nat
  arVectorsPerPage :: nat
  arTotalVectors :: nat

datatype arena_error = ArenaDimMismatch | ArenaNonFinite | ArenaOutOfBounds

definition NewVectorArena :: "nat \<Rightarrow> VectorArena" where
  "NewVectorArena dm =
     \<lparr>arDim = dm, arPages = [], arCurrentPageIdx = 0, arCurrentVecIdx = 0,
      arVectorsPerPage = PageSizeBytes div (dm * 4), arTotalVectors = 0\<rparr>"

section \<open>Normalization\<close>

text \<open>The loop over the components: the squared norm in float64, or the NaN/Inf error.\<close>

fun arena_mag2 :: "flt \<Rightarrow> vec \<Rightarrow> flt option" where
  "arena_mag2 mag2 [] = Some mag2"
| "arena_mag2 mag2 (v # vs) =
     (if f32_isNaN v \<or> f32_isInf v then None
      else arena_mag2
        (flt_add binary64 mag2 (flt_mul binary64 (f32_unpack v) (f32_unpack v))) vs)"

text \<open>The constant \<open>1e-6\<close> as a float64.\<close>

definition arena_epsilon :: flt where
  "arena_epsilon = FFin False 4722366482869645 (-72)"

definition arena_scale :: "flt \<Rightarrow> vec \<Rightarrow> vec" where
  "arena_scale mag2 vector =
     (if flt_lt (FFin False 0 0) mag2 \<and> flt_lt arena_epsilon (flt_abs (flt_sub binary64 mag2 flt_one))
      then
        let invNorm = f32_round (flt_div binary64 flt_one (flt_sqrt binary64 mag2)) in
        map (\<lambda>x. f32_mul x invNorm) vector
      else vector)"

text \<open>What \<open>Add\<close> makes of a vector whose components are all finite.\<close>

definition arena_normalize :: "vec \<Rightarrow> vec" where
  "arena_normalize vector =
     (case arena_mag2 (FFin False 0 0) vector of None \<Rightarrow> vector | Some mag2 \<Rightarrow> arena_scale mag2 vector)"

section \<open>Operations\<close>

definition write_slot :: "page \<Rightarrow> nat \<Rightarrow> vec \<Rightarrow> page" where
  "write_slot pg off v = (\<lambda>k. if off \<le> k \<and> k < off + length v then v ! (k - off) else pg k)"

definition read_slot :: "page \<Rightarrow> nat \<Rightarrow> nat \<Rightarrow> vec" where
  "read_slot pg off n = map pg [off..<off + n]"

definition arena_grow :: "VectorArena \<Rightarrow> VectorArena" where
  "arena_grow a =
     (if arVectorsPerPage a \<le> arCurrentVecIdx a \<or> length (arPages a) = 0
      then a\<lparr>arPages := arPages a @ [\<lambda>k. 0],
             arCurrentPageIdx := (if 1 < length (arPages a) + 1 then arCurrentPageIdx a + 1
                                  else arCurrentPageIdx a),
             arCurrentVecIdx := 0\<rparr>
      else a)"

definition arena_store :: "VectorArena \<Rightarrow> vec \<Rightarrow> nat \<times> VectorArena" where
  "arena_store a vector =
     (let offset = arCurrentVecIdx a * arDim a;
          last_page = length (arPages a) - 1;
          globalId = (last_page * arVectorsPerPage a + arCurrentVecIdx a) mod 2 ^ 32
      in (globalId,
          a\<lparr>arPages := (arPages a)[last_page := write_slot (arPages a ! last_page) offset vector],
            arCurrentVecIdx := arCurrentVecIdx a + 1,
            arTotalVectors := (arTotalVectors a + 1) mod 2 ^ 32\<rparr>))"

definition VectorArena_Add :: "VectorArena \<Rightarrow> vec \<Rightarrow> arena_error + (nat \<times> vec \<times> VectorArena)" where
  "VectorArena_Add a vector =
     (if length vector \<noteq> arDim a then Inl ArenaDimMismatch
      else case arena_mag2 (FFin False 0 0) vector of
        None \<Rightarrow> Inl ArenaNonFinite
      | Some mag2 \<Rightarrow>
          let v = arena_scale mag2 vector; (idx, a') = arena_store (arena_grow a) v
          in Inr (idx, v, a'))"

definition VectorArena_Get :: "VectorArena \<Rightarrow> nat \<Rightarrow> arena_error + vec" where
  "VectorArena_Get a index =
     (if arTotalVectors a \<le> index then Inl ArenaOutOfBounds
      else
        let pageIdx = index div arVectorsPerPage a;
            vecIdxInPage = index mod arVectorsPerPage a;
            offset = vecIdxInPage * arDim a
        in Inr (read_slot (arPages a ! pageIdx) offset (arDim a)))"

text \<open>
  The zero-copy read is the same read without the copy; an error of
  \<open>getUnsafeNoLock\<close> is what \<open>vecNoLock\<close> turns into nil.
\<close>

definition VectorArena_getUnsafeNoLock :: "VectorArena \<Rightarrow> nat \<Rightarrow> vec option" where
  "VectorArena_getUnsafeNoLock a index =
     (if arTotalVectors a \<le> index then None
      else
        let pageIdx = index div arVectorsPerPage a;
            vecIdxInPage = index mod arVectorsPerPage a;
            offset = vecIdxInPage * arDim a
        in Some (read_slot (arPages a ! pageIdx) offset (arDim a)))"

text \<open>\<open>GetNoLock\<close> checks the page bounds only: a page holds \<open>dim * vectorsPerPage\<close> slots.\<close>

definition VectorArena_GetNoLock :: "VectorArena \<Rightarrow> nat \<Rightarrow> vec option" where
  "VectorArena_GetNoLock a index =
     (let pageIdx = index div arVectorsPerPage a;
          vecIdxInPage = index mod arVectorsPerPage a;
          offset = vecIdxInPage * arDim a
      in if length (arPages a) \<le> pageIdx then None
         else if arDim a * arVectorsPerPage a < offset + arDim a then None
         else Some (read_slot (arPages a ! pageIdx) offset (arDim a)))"

definition VectorArena_Size :: "VectorArena \<Rightarrow> nat" where
  "VectorArena_Size a = arTotalVectors a"

section \<open>Invariant and abstraction\<close>

definition arena_inv :: "VectorArena \<Rightarrow> bool" where
  "arena_inv a \<longleftrightarrow>
     0 < arDim a \<and> 0 < arVectorsPerPage a \<and> arCurrentVecIdx a \<le> arVectorsPerPage a \<and>
     arTotalVectors a < 2 ^ 32 \<and>
     (if arPages a = [] then arTotalVectors a = 0 \<and> arCurrentVecIdx a = 0
      else 0 < arCurrentVecIdx a \<and>
           arTotalVectors a = (length (arPages a) - 1) * arVectorsPerPage a + arCurrentVecIdx a)"

definition arena_slot :: "VectorArena \<Rightarrow> nat \<Rightarrow> vec" where
  "arena_slot a i =
     read_slot (arPages a ! (i div arVectorsPerPage a)) (i mod arVectorsPerPage a * arDim a) (arDim a)"

definition arena_vecs :: "VectorArena \<Rightarrow> vec list" where
  "arena_vecs a = map (arena_slot a) [0..<arTotalVectors a]"

section \<open>Lemmas\<close>

lemma length_arena_scale [simp]: "length (arena_scale m v) = length v"
  by (simp add: arena_scale_def Let_def)

lemma length_arena_normalize [simp]: "length (arena_normalize v) = length v"
  by (simp add: arena_normalize_def split: option.split)

lemma arena_mag2_None_iff: "arena_mag2 m v = None \<longleftrightarrow> (\<exists>x\<in>set v. \<not> f32_finite x)"
  by (induction v arbitrary: m) (auto simp: f32_finite_def)

lemma length_read_slot [simp]: "length (read_slot pg off n) = n"
  by (simp add: read_slot_def)

lemma read_write_slot: "read_slot (write_slot pg off v) off (length v) = v"
  by (rule nth_equalityI) (auto simp: read_slot_def write_slot_def)

lemma read_write_slot_other:
  "off + n \<le> off' \<or> off' + length v \<le> off \<Longrightarrow> read_slot (write_slot pg off' v) off n = read_slot pg off n"
  by (auto simp: read_slot_def write_slot_def)

lemma length_arena_vecs [simp]: "length (arena_vecs a) = arTotalVectors a"
  by (simp add: arena_vecs_def)

lemma nth_arena_vecs: "i < arTotalVectors a \<Longrightarrow> arena_vecs a ! i = arena_slot a i"
  by (simp add: arena_vecs_def)

lemma arena_inv_new: "0 < dm \<Longrightarrow> dm \<le> 65536 \<Longrightarrow> arena_inv (NewVectorArena dm)"
proof -
  assume d: "0 < dm" "dm \<le> 65536"
  then have "PageSizeBytes div (65536 * 4) \<le> PageSizeBytes div (dm * 4)"
    by (intro div_le_mono2) auto
  then show ?thesis using d by (simp add: arena_inv_def NewVectorArena_def PageSizeBytes_def)
qed

lemma arena_vecs_new [simp]: "arena_vecs (NewVectorArena dm) = []"
  by (simp add: arena_vecs_def NewVectorArena_def)

text \<open>Growing leaves every stored vector where it is and makes room on the last page.\<close>

lemma arena_grow_room:
  assumes "arena_inv a"
  shows "arPages (arena_grow a) \<noteq> []" "arCurrentVecIdx (arena_grow a) < arVectorsPerPage a"
    "arTotalVectors a = (length (arPages (arena_grow a)) - 1) * arVectorsPerPage a + arCurrentVecIdx (arena_grow a)"
  using assms by (auto simp: arena_grow_def arena_inv_def mult_eq_if split: if_splits)

lemma arena_grow_frame [simp]:
  "arDim (arena_grow a) = arDim a" "arVectorsPerPage (arena_grow a) = arVectorsPerPage a"
  "arTotalVectors (arena_grow a) = arTotalVectors a"
  by (auto simp: arena_grow_def)

lemma page_in_range:
  assumes "arena_inv a" "i < arTotalVectors a"
  shows "i div arVectorsPerPage a < length (arPages a)"
proof -
  have ne: "arPages a \<noteq> []" and vpp: "0 < arVectorsPerPage a"
    and tot: "arTotalVectors a = (length (arPages a) - 1) * arVectorsPerPage a + arCurrentVecIdx a"
    and cur: "arCurrentVecIdx a \<le> arVectorsPerPage a"
    using assms by (auto simp: arena_inv_def split: if_splits)
  have "i < length (arPages a) * arVectorsPerPage a"
    using assms(2) tot cur ne by (cases "length (arPages a)") auto
  then show ?thesis using vpp by (simp add: less_mult_imp_div_less)
qed

lemma arena_slot_grow:
  assumes "arena_inv a" "i < arTotalVectors a"
  shows "arena_slot (arena_grow a) i = arena_slot a i"
  using page_in_range [OF assms] by (auto simp: arena_slot_def arena_grow_def nth_append)

lemma slot_order:
  fixes i j :: nat
  assumes "i < j" "i div n = j div n"
  shows "i mod n * k + k \<le> j mod n * k"
proof -
  have "i mod n < j mod n"
    using assms by (metis add_less_cancel_left div_mult_mod_eq)
  then have "Suc (i mod n) * k \<le> j mod n * k" by (intro mult_le_mono1) simp
  then show ?thesis by simp
qed

text \<open>Storing puts the vector at the next index and changes no other.\<close>

lemma arena_store_slots:
  assumes inv: "arena_inv a" and len: "length v = arDim a" and room: "Suc (arTotalVectors a) < 2 ^ 32"
    and st: "arena_store (arena_grow a) v = (idx, a')"
  shows "idx = arTotalVectors a" "arTotalVectors a' = Suc (arTotalVectors a)"
    "arDim a' = arDim a" "arena_inv a'"
    "i < arTotalVectors a \<Longrightarrow> arena_slot a' i = arena_slot a i" "arena_slot a' idx = v"
proof -
  let ?g = "arena_grow a" and ?vpp = "arVectorsPerPage a"
  let ?lp = "length (arPages ?g) - 1"
  note room' = arena_grow_room [OF inv]
  have a': "a' = ?g\<lparr>arPages := (arPages ?g)[?lp := write_slot (arPages ?g ! ?lp) (arCurrentVecIdx ?g * arDim a) v],
      arCurrentVecIdx := arCurrentVecIdx ?g + 1, arTotalVectors := (arTotalVectors a + 1) mod 2 ^ 32\<rparr>"
    and idx: "idx = (?lp * ?vpp + arCurrentVecIdx ?g) mod 2 ^ 32"
    using st by (auto simp: arena_store_def Let_def)
  show idx': "idx = arTotalVectors a"
    using idx room room'(3) by simp
  show tot: "arTotalVectors a' = Suc (arTotalVectors a)" and dm: "arDim a' = arDim a"
    using room by (simp_all add: a')
  show "arena_inv a'"
    using inv room room' by (auto simp: arena_inv_def a' split: if_splits)
  have vpp: "0 < ?vpp" using inv by (simp add: arena_inv_def)
  have at: "arTotalVectors a div ?vpp = ?lp" "arTotalVectors a mod ?vpp = arCurrentVecIdx ?g"
    using room'(2) vpp by (simp_all only: room'(3)) simp_all
  show "arena_slot a' idx = v"
    using room'(1) len at idx' by (simp add: arena_slot_def a' read_write_slot flip: len)
  show "arena_slot a' i = arena_slot a i" if i: "i < arTotalVectors a" for i
  proof (cases "i div ?vpp = ?lp")
    case True
    then have "i mod ?vpp * arDim a + arDim a \<le> arCurrentVecIdx ?g * arDim a"
      using slot_order [OF i, of ?vpp "arDim a"] at by simp
    then have "arena_slot a' i = arena_slot ?g i"
      using True room'(1) by (simp add: arena_slot_def a' read_write_slot_other)
    then show ?thesis using arena_slot_grow [OF inv i] by simp
  next
    case False
    then have "arena_slot a' i = arena_slot ?g i"
      by (simp add: arena_slot_def a')
    then show ?thesis using arena_slot_grow [OF inv i] by simp
  qed
qed

lemma VectorArena_Add_refines:
  assumes inv: "arena_inv a" and room: "Suc (arTotalVectors a) < 2 ^ 32"
    and add: "VectorArena_Add a v = Inr (idx, v', a')"
  shows "idx = arTotalVectors a" "v' = arena_normalize v" "arena_inv a'"
    "arena_vecs a' = arena_vecs a @ [v']" "arDim a' = arDim a" "length v' = arDim a"
proof -
  obtain m where len: "length v = arDim a" and m: "arena_mag2 (FFin False 0 0) v = Some m"
    and v': "v' = arena_scale m v" and st: "arena_store (arena_grow a) v' = (idx, a')"
    using add by (auto simp: VectorArena_Add_def Let_def split: if_splits option.splits prod.splits)
  have len': "length v' = arDim a" using len v' by simp
  note slots = arena_store_slots [OF inv len' room st]
  show "idx = arTotalVectors a" "arena_inv a'" "arDim a' = arDim a" by (fact slots)+
  show "length v' = arDim a" by (fact len')
  show "v' = arena_normalize v" using m v' by (simp add: arena_normalize_def)
  show "arena_vecs a' = arena_vecs a @ [v']"
    using slots by (auto simp: arena_vecs_def)
qed

lemma VectorArena_Add_total:
  "length v = arDim a \<Longrightarrow> \<forall>x\<in>set v. f32_finite x \<Longrightarrow> \<exists>r. VectorArena_Add a v = Inr r"
  using arena_mag2_None_iff [of "FFin False 0 0" v]
  by (auto simp: VectorArena_Add_def Let_def split: option.splits prod.splits)

lemma VectorArena_Get_refines:
  "arena_inv a \<Longrightarrow> VectorArena_Get a i = (if i < arTotalVectors a then Inr (arena_vecs a ! i) else Inl ArenaOutOfBounds)"
  by (auto simp: VectorArena_Get_def nth_arena_vecs arena_slot_def Let_def)

lemma VectorArena_getUnsafeNoLock_refines:
  "VectorArena_getUnsafeNoLock a i = (if i < arTotalVectors a then Some (arena_vecs a ! i) else None)"
  by (auto simp: VectorArena_getUnsafeNoLock_def nth_arena_vecs arena_slot_def Let_def)

end
