(* ===== verification/Heap.thy ===== *)
theory Heap
  imports Float_Bits
begin

text \<open>
  \<open>internal/store/heap.go\<close>: the four slice-based binary heaps (\<open>MinHeap\<close>, \<open>MaxHeap\<close>,
  \<open>srMinHeap\<close>, \<open>srMaxHeap\<close>). Their loops are the same up to the comparison, which is
  an argument of \<open>heap_up\<close> and \<open>heap_down\<close>; each heap of the source is an instance of
  the locale \<open>heap_order\<close>, where the heap property, the contents and the least element
  are proved once. An operation that panics on an empty heap returns \<open>None\<close>.
  The order laws hold on scores that are not NaN.
\<close>

section \<open>The loops\<close>

definition swap :: "'a list \<Rightarrow> nat \<Rightarrow> nat \<Rightarrow> 'a list" where
  "swap h i j = h[i := h ! j, j := h ! i]"

text \<open>
  \<open>up\<close>: \<open>stop x p\<close> is the test that ends the loop for an element and its parent. Go's
  \<open>(j - 1) / 2\<close> truncates towards zero, so the parent of 0 is 0.
\<close>

function heap_up :: "('a \<Rightarrow> 'a \<Rightarrow> bool) \<Rightarrow> 'a list \<Rightarrow> nat \<Rightarrow> 'a list" where
  "heap_up stop h j =
     (let i = (j - 1) div 2 in
      if i = j \<or> stop (h ! j) (h ! i) then h else heap_up stop (swap h i j) i)"
  by pat_completeness auto
termination
  by (relation "measure (\<lambda>(stop, h, j). j)") auto

text \<open>
  \<open>down\<close>: \<open>better c d\<close> chooses the second child \<open>c\<close> over the first \<open>d\<close>, \<open>stop x c\<close>
  ends the loop. (The source's test \<open>j1 < 0\<close> guards an overflow of \<open>int\<close>, which no
  slice is long enough to cause.)
\<close>

function heap_down ::
  "('a \<Rightarrow> 'a \<Rightarrow> bool) \<Rightarrow> ('a \<Rightarrow> 'a \<Rightarrow> bool) \<Rightarrow> 'a list \<Rightarrow> nat \<Rightarrow> nat \<Rightarrow> 'a list" where
  "heap_down better stop h i n =
     (let j1 = 2 * i + 1 in
      if n \<le> j1 then h
      else
        let j = (if j1 + 1 < n \<and> better (h ! (j1 + 1)) (h ! j1) then j1 + 1 else j1) in
        if stop (h ! i) (h ! j) then h else heap_down better stop (swap h i j) j n)"
  by pat_completeness auto
termination
  by (relation "measure (\<lambda>(better, stop, h, i, n). n - i)") (auto split: if_splits)

declare heap_up.simps [simp del] heap_down.simps [simp del]

definition heap_push :: "('a \<Rightarrow> 'a \<Rightarrow> bool) \<Rightarrow> 'a list \<Rightarrow> 'a \<Rightarrow> 'a list" where
  "heap_push stop h m = heap_up stop (h @ [m]) (length h)"

definition heap_pop ::
  "('a \<Rightarrow> 'a \<Rightarrow> bool) \<Rightarrow> ('a \<Rightarrow> 'a \<Rightarrow> bool) \<Rightarrow> 'a list \<Rightarrow> ('a \<times> 'a list) option" where
  "heap_pop better stop old =
     (let n = length old in
      if n = 0 then None
      else
        let tp = old ! 0; h = take (n - 1) (old[0 := old ! (n - 1)]) in
        Some (tp, if 0 < length h then heap_down better stop h 0 (length h) else h))"

definition heap_peek :: "'a list \<Rightarrow> 'a option" where
  "heap_peek h = (if h = [] then None else Some (h ! 0))"

definition heap_replace ::
  "('a \<Rightarrow> 'a \<Rightarrow> bool) \<Rightarrow> ('a \<Rightarrow> 'a \<Rightarrow> bool) \<Rightarrow> 'a list \<Rightarrow> 'a \<Rightarrow> 'a list option" where
  "heap_replace better stop h m =
     (if h = [] then None else Some (heap_down better stop (h[0 := m]) 0 (length h)))"

section \<open>The heaps of the source\<close>

record Match =
  mIndex :: nat
  mScore :: float32

definition MinHeap_Push :: "Match list \<Rightarrow> Match \<Rightarrow> Match list" where
  "MinHeap_Push = heap_push (\<lambda>x p. f32_ge (mScore x) (mScore p))"

definition MinHeap_Pop :: "Match list \<Rightarrow> (Match \<times> Match list) option" where
  "MinHeap_Pop = heap_pop (\<lambda>c d. f32_lt (mScore c) (mScore d)) (\<lambda>x c. f32_le (mScore x) (mScore c))"

definition MinHeap_Peek :: "Match list \<Rightarrow> Match option" where
  "MinHeap_Peek = heap_peek"

definition MinHeap_Replace :: "Match list \<Rightarrow> Match \<Rightarrow> Match list option" where
  "MinHeap_Replace =
     heap_replace (\<lambda>c d. f32_lt (mScore c) (mScore d)) (\<lambda>x c. f32_le (mScore x) (mScore c))"

definition MaxHeap_Push :: "Match list \<Rightarrow> Match \<Rightarrow> Match list" where
  "MaxHeap_Push = heap_push (\<lambda>x p. f32_le (mScore x) (mScore p))"

definition MaxHeap_Pop :: "Match list \<Rightarrow> (Match \<times> Match list) option" where
  "MaxHeap_Pop = heap_pop (\<lambda>c d. f32_gt (mScore c) (mScore d)) (\<lambda>x c. f32_ge (mScore x) (mScore c))"

definition MaxHeap_Peek :: "Match list \<Rightarrow> Match option" where
  "MaxHeap_Peek = heap_peek"

definition MaxHeap_Replace :: "Match list \<Rightarrow> Match \<Rightarrow> Match list option" where
  "MaxHeap_Replace =
     heap_replace (\<lambda>c d. f32_gt (mScore c) (mScore d)) (\<lambda>x c. f32_ge (mScore x) (mScore c))"

text \<open>
  \<open>searchResult\<close>: a node pointer (a position in the node store of the index) and its
  precomputed distance.
\<close>

record searchResult =
  srNode :: nat
  srD :: float32

definition srMinHeap_Push :: "searchResult list \<Rightarrow> searchResult \<Rightarrow> searchResult list" where
  "srMinHeap_Push = heap_push (\<lambda>x p. f32_ge (srD x) (srD p))"

definition srMinHeap_Pop :: "searchResult list \<Rightarrow> (searchResult \<times> searchResult list) option" where
  "srMinHeap_Pop = heap_pop (\<lambda>c e. f32_lt (srD c) (srD e)) (\<lambda>x c. f32_le (srD x) (srD c))"

definition srMinHeap_Peek :: "searchResult list \<Rightarrow> searchResult option" where
  "srMinHeap_Peek = heap_peek"

definition srMaxHeap_Push :: "searchResult list \<Rightarrow> searchResult \<Rightarrow> searchResult list" where
  "srMaxHeap_Push = heap_push (\<lambda>x p. f32_le (srD x) (srD p))"

definition srMaxHeap_Pop :: "searchResult list \<Rightarrow> (searchResult \<times> searchResult list) option" where
  "srMaxHeap_Pop = heap_pop (\<lambda>c e. f32_gt (srD c) (srD e)) (\<lambda>x c. f32_ge (srD x) (srD c))"

definition srMaxHeap_Peek :: "searchResult list \<Rightarrow> searchResult option" where
  "srMaxHeap_Peek = heap_peek"

definition srMaxHeap_Replace :: "searchResult list \<Rightarrow> searchResult \<Rightarrow> searchResult list option" where
  "srMaxHeap_Replace = heap_replace (\<lambda>c e. f32_gt (srD c) (srD e)) (\<lambda>x c. f32_ge (srD x) (srD c))"

section \<open>The heap property\<close>

definition parent :: "nat \<Rightarrow> nat" where
  "parent j = (j - 1) div 2"

definition is_heap :: "('a \<Rightarrow> 'a \<Rightarrow> bool) \<Rightarrow> ('a \<Rightarrow> bool) \<Rightarrow> 'a list \<Rightarrow> bool" where
  "is_heap le ok h \<longleftrightarrow> (\<forall>x\<in>set h. ok x) \<and>
     (\<forall>k. 0 < k \<longrightarrow> k < length h \<longrightarrow> le (h ! parent k) (h ! k))"

text \<open>The property while \<open>up\<close> (\<open>down\<close>) still has to place the element at one index.\<close>

definition heap_but_up :: "('a \<Rightarrow> 'a \<Rightarrow> bool) \<Rightarrow> ('a \<Rightarrow> bool) \<Rightarrow> 'a list \<Rightarrow> nat \<Rightarrow> bool" where
  "heap_but_up le ok h j \<longleftrightarrow> (\<forall>x\<in>set h. ok x) \<and>
     (\<forall>k. 0 < k \<longrightarrow> k < length h \<longrightarrow> k \<noteq> j \<longrightarrow> le (h ! parent k) (h ! k)) \<and>
     (\<forall>k. 0 < j \<longrightarrow> 0 < k \<longrightarrow> k < length h \<longrightarrow> parent k = j \<longrightarrow> le (h ! parent j) (h ! k))"

definition heap_but_down :: "('a \<Rightarrow> 'a \<Rightarrow> bool) \<Rightarrow> ('a \<Rightarrow> bool) \<Rightarrow> 'a list \<Rightarrow> nat \<Rightarrow> bool" where
  "heap_but_down le ok h i \<longleftrightarrow> (\<forall>x\<in>set h. ok x) \<and>
     (\<forall>k. 0 < k \<longrightarrow> k < length h \<longrightarrow> parent k \<noteq> i \<longrightarrow> le (h ! parent k) (h ! k)) \<and>
     (\<forall>k. 0 < i \<longrightarrow> 0 < k \<longrightarrow> k < length h \<longrightarrow> parent k = i \<longrightarrow> le (h ! parent i) (h ! k))"

section \<open>Lengths and contents, for any comparison\<close>

lemma parent_less: "0 < k \<Longrightarrow> parent k < k"
  by (simp add: parent_def)

lemma parent_eq_iff: "0 < k \<Longrightarrow> parent k = i \<longleftrightarrow> k = 2 * i + 1 \<or> k = 2 * i + 2"
  by (simp add: parent_def) linarith

lemma length_swap [simp]: "length (swap h i j) = length h"
  by (simp add: swap_def)

lemma mset_swap_list: "i < length h \<Longrightarrow> j < length h \<Longrightarrow> mset (swap h i j) = mset h"
  by (simp add: swap_def mset_swap)

lemma nth_swap: "i < length h \<Longrightarrow> j < length h \<Longrightarrow>
  swap h i j ! k = (if k = j then h ! i else if k = i then h ! j else h ! k)"
  by (cases "k < length h") (auto simp: swap_def nth_list_update)

lemma length_heap_up [simp]: "length (heap_up stop h j) = length h"
proof (induction stop h j rule: heap_up.induct)
  case (1 stop h j)
  then show ?case by (subst heap_up.simps) (auto simp: Let_def)
qed

lemma length_heap_down [simp]: "length (heap_down better stop h i n) = length h"
proof (induction better stop h i n rule: heap_down.induct)
  case (1 better stop h i n)
  then show ?case by (subst heap_down.simps) (auto simp: Let_def)
qed

lemma mset_heap_up: "j < length h \<Longrightarrow> mset (heap_up stop h j) = mset h"
proof (induction stop h j rule: heap_up.induct)
  case (1 stop h j)
  then show ?case by (subst heap_up.simps) (auto simp: Let_def mset_swap_list)
qed

lemma mset_heap_down: "n \<le> length h \<Longrightarrow> i < length h \<Longrightarrow> mset (heap_down better stop h i n) = mset h"
proof (induction better stop h i n rule: heap_down.induct)
  case (1 better stop h i n)
  then show ?case by (subst heap_down.simps) (auto simp: Let_def mset_swap_list)
qed

text \<open>What the operations do to the contents, whatever the comparisons answer.\<close>

lemma heap_push_mset: "mset (heap_push stop h m) = add_mset m (mset h)"
  by (simp add: heap_push_def mset_heap_up)

lemma heap_replace_mset:
  "heap_replace better stop h m = Some h' \<Longrightarrow> add_mset (h ! 0) (mset h') = add_mset m (mset h)"
  by (auto simp: heap_replace_def mset_heap_down mset_update split: if_splits)

lemma heap_pop_mset:
  assumes "heap_pop better stop h = Some (m, h')"
  shows "mset h = add_mset m (mset h')"
proof -
  let ?g = "take (length h - 1) (h[0 := h ! (length h - 1)])"
  have ne: "h \<noteq> []" and m: "m = h ! 0"
    and h': "h' = (if 0 < length ?g then heap_down better stop ?g 0 (length ?g) else ?g)"
    using assms by (auto simp: heap_pop_def Let_def split: if_splits)
  have "mset h' = mset ?g"
    unfolding h' by (auto intro: mset_heap_down)
  moreover have "mset h = add_mset (h ! 0) (mset ?g)"
  proof (cases h)
    case Nil
    with ne show ?thesis by simp
  next
    case (Cons x xs)
    then show ?thesis
    proof (cases xs rule: rev_cases)
      case Nil
      with Cons show ?thesis by simp
    next
      case (snoc ys y)
      with Cons show ?thesis by (simp add: nth_append)
    qed
  qed
  ultimately show ?thesis by (simp add: m)
qed

lemma heap_pop_length: "heap_pop better stop h = Some (m, h') \<Longrightarrow> Suc (length h') = length h"
  by (drule heap_pop_mset, drule arg_cong [where f = size]) simp

lemma heap_pop_eq_None_iff: "heap_pop better stop h = None \<longleftrightarrow> h = []"
  by (auto simp: heap_pop_def Let_def)

lemma set_swap_list: "i < length h \<Longrightarrow> j < length h \<Longrightarrow> set (swap h i j) = set h"
  by (metis mset_swap_list set_mset_mset)

section \<open>Correctness, once for every comparison\<close>

locale heap_order =
  fixes le :: "'a \<Rightarrow> 'a \<Rightarrow> bool"
    and lt :: "'a \<Rightarrow> 'a \<Rightarrow> bool"
    and ge :: "'a \<Rightarrow> 'a \<Rightarrow> bool"
    and ok :: "'a \<Rightarrow> bool"
  assumes le_refl: "ok x \<Longrightarrow> le x x"
    and le_trans: "le x y \<Longrightarrow> le y z \<Longrightarrow> le x z"
    and le_total: "ok x \<Longrightarrow> ok y \<Longrightarrow> le x y \<or> le y x"
    and lt_iff: "ok x \<Longrightarrow> ok y \<Longrightarrow> lt x y \<longleftrightarrow> \<not> le y x"
    and ge_iff: "ge x y \<longleftrightarrow> le y x"
begin

lemma swap_up:
  assumes h: "heap_but_up le ok h j" and j: "0 < j" "j < length h"
    and up: "le (h ! j) (h ! parent j)"
  shows "heap_but_up le ok (swap h (parent j) j) (parent j)"
proof -
  let ?i = "parent j"
  have i: "?i < j" using j(1) by (rule parent_less)
  have nth: "swap h ?i j ! k = (if k = j then h ! ?i else if k = ?i then h ! j else h ! k)" for k
    using i j by (simp add: nth_swap)
  from h have ok: "\<forall>x\<in>set h. ok x"
    and ord: "\<And>k. 0 < k \<Longrightarrow> k < length h \<Longrightarrow> k \<noteq> j \<Longrightarrow> le (h ! parent k) (h ! k)"
    and gp: "\<And>k. 0 < k \<Longrightarrow> k < length h \<Longrightarrow> parent k = j \<Longrightarrow> le (h ! ?i) (h ! k)"
    using j(1) unfolding heap_but_up_def by blast+
  have 1: "le (swap h ?i j ! parent k) (swap h ?i j ! k)"
    if k: "0 < k" "k < length h" "k \<noteq> ?i" for k
  proof (cases "k = j")
    case True
    then show ?thesis using up i by (simp add: nth)
  next
    case False
    then show ?thesis
      using k gp ord [of k] le_trans [OF up, of "h ! k"] by (auto simp: nth)
  qed
  have 2: "le (swap h ?i j ! parent ?i) (swap h ?i j ! k)"
    if k: "0 < ?i" "0 < k" "k < length h" "parent k = ?i" for k
  proof -
    have pi: "parent ?i < ?i" using k(1) by (rule parent_less)
    have "le (h ! parent ?i) (h ! ?i)" using ord [of ?i] i j k by simp
    moreover have "k \<noteq> ?i" using k(2,4) parent_less [of k] by auto
    ultimately show ?thesis
      using pi i k ord [of k] le_trans by (auto simp: nth)
  qed
  show ?thesis
    unfolding heap_but_up_def using ok 1 2 i j by (auto simp: set_swap_list)
qed

lemma heap_up_is_heap:
  "j < length h \<Longrightarrow> heap_but_up le ok h j \<Longrightarrow> is_heap le ok (heap_up ge h j)"
proof (induction j arbitrary: h rule: less_induct)
  case (less j)
  let ?i = "parent j"
  have eq: "heap_up ge h j = (if ?i = j \<or> ge (h ! j) (h ! ?i) then h else heap_up ge (swap h ?i j) ?i)"
    by (simp add: heap_up.simps [of ge h j] parent_def Let_def)
  show ?case
  proof (cases "?i = j \<or> ge (h ! j) (h ! ?i)")
    case True
    then have "j = 0 \<or> le (h ! ?i) (h ! j)"
      using parent_less [of j] by (cases "j = 0") (auto simp: ge_iff)
    then have "is_heap le ok h"
      using less.prems(2) unfolding heap_but_up_def is_heap_def by (metis neq0_conv)
    then show ?thesis using True eq by simp
  next
    case False
    then have j: "0 < j" by (cases j) (auto simp: parent_def)
    have i: "?i < j" using j by (rule parent_less)
    have "ok (h ! j)" "ok (h ! ?i)"
      using less.prems i unfolding heap_but_up_def by auto
    then have up: "le (h ! j) (h ! ?i)"
      using False le_total by (auto simp: ge_iff)
    have "is_heap le ok (heap_up ge (swap h ?i j) ?i)"
      using swap_up [OF less.prems(2) j less.prems(1) up] i less.prems(1)
      by (intro less.IH) auto
    then show ?thesis using False eq by simp
  qed
qed

lemma swap_down:
  assumes h: "heap_but_down le ok h i" and j: "parent j = i" "0 < j" "j < length h"
    and down: "le (h ! j) (h ! i)"
    and least: "\<And>k. 0 < k \<Longrightarrow> k < length h \<Longrightarrow> parent k = i \<Longrightarrow> le (h ! j) (h ! k)"
  shows "heap_but_down le ok (swap h i j) j"
proof -
  have i: "i < j" using j parent_less by blast
  have nth: "swap h i j ! k = (if k = j then h ! i else if k = i then h ! j else h ! k)" for k
    using i j by (simp add: nth_swap)
  from h have ok: "\<forall>x\<in>set h. ok x"
    and ord: "\<And>k. 0 < k \<Longrightarrow> k < length h \<Longrightarrow> parent k \<noteq> i \<Longrightarrow> le (h ! parent k) (h ! k)"
    and gp: "\<And>k. 0 < i \<Longrightarrow> 0 < k \<Longrightarrow> k < length h \<Longrightarrow> parent k = i \<Longrightarrow> le (h ! parent i) (h ! k)"
    unfolding heap_but_down_def by blast+
  have 1: "le (swap h i j ! parent k) (swap h i j ! k)"
    if k: "0 < k" "k < length h" "parent k \<noteq> j" for k
  proof (cases "k = i")
    case True
    then have "parent i < i" using k(1) parent_less by simp
    then show ?thesis using True k gp [of j] j i by (auto simp: nth)
  next
    case False
    then show ?thesis
      using k j i down least [of k] ord [of k] by (auto simp: nth)
  qed
  have 2: "le (swap h i j ! parent j) (swap h i j ! k)"
    if k: "0 < k" "k < length h" "parent k = j" for k
  proof -
    have "j < k" using k(1,3) parent_less by blast
    then show ?thesis using k j i ord [of k] by (auto simp: nth)
  qed
  show ?thesis
    unfolding heap_but_down_def using ok 1 2 i j by (auto simp: set_swap_list)
qed

lemma heap_down_is_heap:
  "heap_but_down le ok h i \<Longrightarrow> is_heap le ok (heap_down lt le h i (length h))"
proof (induction "length h - i" arbitrary: h i rule: less_induct)
  case less
  let ?n = "length h" and ?j1 = "2 * i + 1"
  define j where "j = (if ?j1 + 1 < ?n \<and> lt (h ! (?j1 + 1)) (h ! ?j1) then ?j1 + 1 else ?j1)"
  have eq: "heap_down lt le h i ?n =
      (if ?n \<le> ?j1 then h else if le (h ! i) (h ! j) then h else heap_down lt le (swap h i j) j ?n)"
    by (simp add: heap_down.simps [of lt le h i] j_def Let_def)
  have hd: "\<forall>x\<in>set h. ok x"
    "\<And>k. 0 < k \<Longrightarrow> k < ?n \<Longrightarrow> parent k \<noteq> i \<Longrightarrow> le (h ! parent k) (h ! k)"
    using less.prems unfolding heap_but_down_def by blast+
  show ?case
  proof (cases "?n \<le> ?j1")
    case True
    then have "is_heap le ok h"
      unfolding is_heap_def using hd by (auto simp: parent_eq_iff)
    with True eq show ?thesis by simp
  next
    case False
    have j: "parent j = i" "0 < j" "j < ?n" "i < j"
      using False by (auto simp: j_def parent_def split: if_splits)
    have least: "le (h ! j) (h ! k)" if "0 < k" "k < ?n" "parent k = i" for k
    proof -
      have k: "k = ?j1 \<or> k = ?j1 + 1" using that by (auto simp: parent_eq_iff)
      have ok: "m < ?n \<Longrightarrow> ok (h ! m)" for m using hd(1) by simp
      have "le (h ! ?j1) (h ! (?j1 + 1))" if "?j1 + 1 < ?n" "\<not> lt (h ! (?j1 + 1)) (h ! ?j1)"
        using that ok lt_iff [of "h ! (?j1 + 1)" "h ! ?j1"] by auto
      moreover have "le (h ! (?j1 + 1)) (h ! ?j1)" if "?j1 + 1 < ?n" "lt (h ! (?j1 + 1)) (h ! ?j1)"
        using that ok lt_iff [of "h ! (?j1 + 1)" "h ! ?j1"] le_total [of "h ! (?j1 + 1)" "h ! ?j1"] by auto
      ultimately show ?thesis
        using k \<open>k < ?n\<close> ok [of k] le_refl by (auto simp: j_def)
    qed
    show ?thesis
    proof (cases "le (h ! i) (h ! j)")
      case True
      have "is_heap le ok h"
        unfolding is_heap_def using hd least le_trans [OF True] by blast
      with True False eq show ?thesis by simp
    next
      case stuck: False
      have "ok (h ! i)" "ok (h ! j)" using j hd(1) by auto
      then have down: "le (h ! j) (h ! i)" using stuck le_total by blast
      have but: "heap_but_down le ok (swap h i j) j"
        by (rule swap_down [OF less.prems j(1,2,3) down]) (rule least)
      have "is_heap le ok (heap_down lt le (swap h i j) j (length (swap h i j)))"
        by (rule less.hyps [OF _ but]) (use j in simp)
      with stuck False eq show ?thesis by simp
    qed
  qed
qed

lemma heap_least: "is_heap le ok h \<Longrightarrow> k < length h \<Longrightarrow> le (h ! 0) (h ! k)"
proof (induction k rule: less_induct)
  case (less k)
  show ?case
  proof (cases "k = 0")
    case True
    with less.prems show ?thesis by (auto simp: is_heap_def intro: le_refl)
  next
    case False
    then have "parent k < k" by (intro parent_less) simp
    with False less have "le (h ! 0) (h ! parent k)" "le (h ! parent k) (h ! k)"
      by (auto simp: is_heap_def)
    then show ?thesis by (rule le_trans)
  qed
qed

lemma push_is_heap:
  assumes "is_heap le ok h" "ok m"
  shows "is_heap le ok (heap_push ge h m)"
proof -
  have "heap_but_up le ok (h @ [m]) (length h)"
    using assms parent_less
    by (auto simp: heap_but_up_def is_heap_def nth_append) (metis less_trans less_Suc_eq not_less_iff_gr_or_eq)+
  then show ?thesis
    unfolding heap_push_def by (intro heap_up_is_heap) auto
qed

lemma push_mset: "mset (heap_push ge h m) = add_mset m (mset h)"
  by (rule heap_push_mset)

lemma root_but_down:
  assumes "is_heap le ok h" "\<forall>x\<in>set h'. ok x" "length h' \<le> length h"
    and "\<And>k. 0 < k \<Longrightarrow> k < length h' \<Longrightarrow> h' ! k = h ! k"
  shows "heap_but_down le ok h' 0"
proof -
  have "le (h' ! parent k) (h' ! k)" if k: "0 < k" "k < length h'" "parent k \<noteq> 0" for k
  proof -
    have "parent k < k" using k(1) by (rule parent_less)
    then have "h' ! parent k = h ! parent k" using k by (intro assms(4)) auto
    moreover have "h' ! k = h ! k" using k(1,2) by (rule assms(4))
    moreover have "le (h ! parent k) (h ! k)"
      using assms(1,3) k unfolding is_heap_def by simp
    ultimately show ?thesis by simp
  qed
  then show ?thesis using assms(2) by (simp add: heap_but_down_def)
qed

lemma replace_correct:
  assumes "is_heap le ok h" "ok m" "heap_replace lt le h m = Some h'"
  shows "is_heap le ok h'" "add_mset (h ! 0) (mset h') = add_mset m (mset h)"
proof -
  have ne: "h \<noteq> []" and h': "h' = heap_down lt le (h[0 := m]) 0 (length (h[0 := m]))"
    using assms(3) by (auto simp: heap_replace_def split: if_splits)
  have "heap_but_down le ok (h[0 := m]) 0"
    using assms(1,2) ne
    by (intro root_but_down [OF assms(1)]) (auto simp: is_heap_def dest: set_update_subset_insert [THEN subsetD])
  then show "is_heap le ok h'" unfolding h' by (rule heap_down_is_heap)
  show "add_mset (h ! 0) (mset h') = add_mset m (mset h)" by (rule heap_replace_mset [OF assms(3)])
qed

lemma pop_correct:
  assumes "is_heap le ok h" "heap_pop lt le h = Some (m, h')"
  shows "is_heap le ok h'" "mset h = add_mset m (mset h')" "\<forall>x\<in>set h. le m x"
proof -
  let ?n = "length h" and ?g = "take (length h - 1) (h[0 := h ! (length h - 1)])"
  have ne: "h \<noteq> []" and m: "m = h ! 0"
    and h': "h' = (if 0 < length ?g then heap_down lt le ?g 0 (length ?g) else ?g)"
    using assms(2) by (auto simp: heap_pop_def Let_def split: if_splits)
  have "set ?g \<subseteq> set h"
    using ne by (auto dest!: in_set_takeD set_update_subset_insert [THEN subsetD])
  then have "heap_but_down le ok ?g 0"
    using assms(1) ne by (intro root_but_down [OF assms(1)]) (auto simp: is_heap_def)
  then show "is_heap le ok h'"
    using heap_down_is_heap [of ?g 0] h' by (auto simp: is_heap_def)
  show "mset h = add_mset m (mset h')" by (rule heap_pop_mset [OF assms(2)])
  show "\<forall>x\<in>set h. le m x"
    using heap_least [OF assms(1)] by (auto simp: m in_set_conv_nth)
qed

lemma peek_least: "is_heap le ok h \<Longrightarrow> heap_peek h = Some m \<Longrightarrow> m \<in> set h \<and> (\<forall>x\<in>set h. le m x)"
  using heap_least [of h] by (auto simp: heap_peek_def in_set_conv_nth split: if_splits)

lemma pop_None_iff: "heap_pop lt le h = None \<longleftrightarrow> h = []"
  by (auto simp: heap_pop_def Let_def)

end

section \<open>The four instances\<close>

lemma f32_heap_order:
  fixes key :: "'a \<Rightarrow> float32"
  shows "heap_order (\<lambda>x y. f32_le (key x) (key y)) (\<lambda>x y. f32_lt (key x) (key y))
    (\<lambda>x y. f32_ge (key x) (key y)) (\<lambda>x. \<not> f32_isNaN (key x))"
    and "heap_order (\<lambda>x y. f32_ge (key x) (key y)) (\<lambda>x y. f32_gt (key x) (key y))
    (\<lambda>x y. f32_le (key x) (key y)) (\<lambda>x. \<not> f32_isNaN (key x))"
  by (unfold_locales; auto simp: fltcmp)+

interpretation MinHeap: heap_order
  "\<lambda>x y. f32_le (mScore x) (mScore y)" "\<lambda>x y. f32_lt (mScore x) (mScore y)"
  "\<lambda>x y. f32_ge (mScore x) (mScore y)" "\<lambda>x. \<not> f32_isNaN (mScore x)"
  by (rule f32_heap_order)

interpretation MaxHeap: heap_order
  "\<lambda>x y. f32_ge (mScore x) (mScore y)" "\<lambda>x y. f32_gt (mScore x) (mScore y)"
  "\<lambda>x y. f32_le (mScore x) (mScore y)" "\<lambda>x. \<not> f32_isNaN (mScore x)"
  by (rule f32_heap_order)

interpretation srMinHeap: heap_order
  "\<lambda>x y. f32_le (srD x) (srD y)" "\<lambda>x y. f32_lt (srD x) (srD y)"
  "\<lambda>x y. f32_ge (srD x) (srD y)" "\<lambda>x. \<not> f32_isNaN (srD x)"
  by (rule f32_heap_order)

interpretation srMaxHeap: heap_order
  "\<lambda>x y. f32_ge (srD x) (srD y)" "\<lambda>x y. f32_gt (srD x) (srD y)"
  "\<lambda>x y. f32_le (srD x) (srD y)" "\<lambda>x. \<not> f32_isNaN (srD x)"
  by (rule f32_heap_order)

end
