(* ===== verification/HNSW.thy ===== *)
theory HNSW
  imports Arena Heap
begin

text \<open>
  \<open>internal/store/hnsw.go\<close>: the navigable small-world graph over the vectors of an arena.

  Nodes are shared through pointers (the map \<open>Nodes\<close>, the slice \<open>nodesByIdx\<close>, search
  results), so they live in an explicit store \<open>hObjs\<close> and a pointer is a position in it.
  The arena belongs to the caller: the functions take the vector lookup \<open>getVec\<close>, as the
  source's do. \<open>vek32.Dot\<close> is third-party code and a parameter (\<open>dot\<close>); the level of a
  new node, which the source draws at random, is an argument of \<open>Add\<close>.
  Float32 arithmetic is not fused (as on amd64).
\<close>

section \<open>Data\<close>

record HNSWConfig =
  cfgM :: nat
  cfgM0 :: nat
  cfgEfSearchMult :: nat
  cfgEfSearchMin :: nat

definition DefaultHNSWConfig :: HNSWConfig where
  "DefaultHNSWConfig = \<lparr>cfgM = 16, cfgM0 = 32, cfgEfSearchMult = 6, cfgEfSearchMin = 48\<rparr>"

record HNSWNode =
  nID :: string
  nLayer :: nat
  nConnections :: "nat list list"
  nArenaOffset :: nat

record HNSWIndex =
  hEntryNodeID :: string
  hNodes :: "string \<rightharpoonup> nat"
  hNodesByIdx :: "nat option list"
  hMaxLayer :: int
  hCfg :: HNSWConfig
  hDeleted :: "nat set"
  hObjs :: "HNSWNode list"

record VectroRecord =
  vrID :: string
  vrScore :: float32
  vrData :: bytes

type_synonym dot_fn = "vec \<Rightarrow> vec \<Rightarrow> float32"
type_synonym vec_fn = "nat \<Rightarrow> vec option"

definition NewHNSWIndex :: "HNSWConfig \<Rightarrow> HNSWIndex" where
  "NewHNSWIndex cfg =
     \<lparr>hEntryNodeID = [], hNodes = Map.empty, hNodesByIdx = [], hMaxLayer = -1, hCfg = cfg,
      hDeleted = {}, hObjs = []\<rparr>"

section \<open>Vectors\<close>

fun normalizeVec_mag2 :: "float32 \<Rightarrow> vec \<Rightarrow> float32" where
  "normalizeVec_mag2 mag2 [] = mag2"
| "normalizeVec_mag2 mag2 (x # xs) = normalizeVec_mag2 (f32_add mag2 (f32_mul x x)) xs"

text \<open>\<open>0x3F7FBE77\<close> and \<open>0x3F8020C5\<close> are the float32 constants 0.999 and 1.001.\<close>

definition normalizeVec :: "vec \<Rightarrow> vec" where
  "normalizeVec v =
     (let mag2 = normalizeVec_mag2 0 v in
      if \<not> f32_isNaN mag2 \<and> f32_key mag2 = 0 \<or> f32_gt mag2 0x3F7FBE77 \<and> f32_lt mag2 0x3F8020C5 then v
      else
        let inv = f32_round (flt_div binary64 flt_one (flt_sqrt binary64 (f32_unpack mag2)))
        in map (\<lambda>x. f32_mul x inv) v)"

definition dist :: "dot_fn \<Rightarrow> vec \<Rightarrow> vec \<Rightarrow> float32" where
  "dist dot v1 v2 = f32_sub f32_one (dot v1 v2)"

text \<open>The scalar loop the source keeps beside it: four partial sums, then the rest.\<close>

fun distScalar_loop :: "float32 \<Rightarrow> float32 \<Rightarrow> float32 \<Rightarrow> float32 \<Rightarrow> (float32 \<times> float32) list \<Rightarrow> float32" where
  "distScalar_loop d0 d1 d2 d3 ((a0, b0) # (a1, b1) # (a2, b2) # (a3, b3) # ps) =
     distScalar_loop (f32_add d0 (f32_mul a0 b0)) (f32_add d1 (f32_mul a1 b1))
       (f32_add d2 (f32_mul a2 b2)) (f32_add d3 (f32_mul a3 b3)) ps"
| "distScalar_loop d0 d1 d2 d3 ps =
     f32_add (f32_add (f32_add (foldl (\<lambda>d (a, b). f32_add d (f32_mul a b)) d0 ps) d1) d2) d3"

definition distScalar :: "vec \<Rightarrow> vec \<Rightarrow> float32" where
  "distScalar v1 v2 = f32_sub f32_one (distScalar_loop 0 0 0 0 (zip v1 v2))"

section \<open>Nodes\<close>

definition nodeByOffset :: "HNSWIndex \<Rightarrow> nat \<Rightarrow> nat option" where
  "nodeByOffset h offset = (if offset < length (hNodesByIdx h) then hNodesByIdx h ! offset else None)"

definition obj :: "HNSWIndex \<Rightarrow> nat \<Rightarrow> HNSWNode" where
  "obj h p = hObjs h ! p"

definition registerNode :: "HNSWIndex \<Rightarrow> nat \<Rightarrow> HNSWIndex" where
  "registerNode h p =
     (let idx = nArenaOffset (obj h p);
          slice = (if length (hNodesByIdx h) \<le> idx
                   then hNodesByIdx h @ replicate (idx + 1024 - length (hNodesByIdx h)) None
                   else hNodesByIdx h)
      in h\<lparr>hNodesByIdx := slice[idx := Some p]\<rparr>)"

definition MarkDeleted :: "HNSWIndex \<Rightarrow> nat \<Rightarrow> HNSWIndex" where
  "MarkDeleted h arenaOffset = h\<lparr>hDeleted := insert arenaOffset (hDeleted h)\<rparr>"

definition isDeleted :: "HNSWIndex \<Rightarrow> nat \<Rightarrow> bool" where
  "isDeleted h arenaOffset \<longleftrightarrow> arenaOffset \<in> hDeleted h"

fun refresh_scan :: "HNSWIndex \<Rightarrow> nat option \<Rightarrow> nat option list \<Rightarrow> nat option" where
  "refresh_scan h entry [] = entry"
| "refresh_scan h entry (None # ns) = refresh_scan h entry ns"
| "refresh_scan h entry (Some p # ns) =
     (if isDeleted h (nArenaOffset (obj h p)) then refresh_scan h entry ns
      else case entry of
        None \<Rightarrow> refresh_scan h (Some p) ns
      | Some e \<Rightarrow> refresh_scan h (if nLayer (obj h e) < nLayer (obj h p) then Some p else entry) ns)"

definition refreshEntryNodeLocked :: "HNSWIndex \<Rightarrow> HNSWIndex" where
  "refreshEntryNodeLocked h =
     (case refresh_scan h None (hNodesByIdx h) of
        None \<Rightarrow> h\<lparr>hEntryNodeID := [], hMaxLayer := -1\<rparr>
      | Some e \<Rightarrow> h\<lparr>hEntryNodeID := nID (obj h e), hMaxLayer := int (nLayer (obj h e))\<rparr>)"

definition friends_of :: "HNSWIndex \<Rightarrow> nat \<Rightarrow> nat \<Rightarrow> nat list" where
  "friends_of h layer p =
     (if layer < length (nConnections (obj h p)) then nConnections (obj h p) ! layer else [])"

section \<open>Greedy search in a layer\<close>

fun searchLayer_friends ::
  "dot_fn \<Rightarrow> vec_fn \<Rightarrow> HNSWIndex \<Rightarrow> vec \<Rightarrow> nat list \<Rightarrow> nat \<times> float32 \<times> bool \<Rightarrow> nat \<times> float32 \<times> bool" where
  "searchLayer_friends dot getVec h query [] st = st"
| "searchLayer_friends dot getVec h query (fOffset # fs) (cur, minDist, changed) =
     (case nodeByOffset h fOffset of
        None \<Rightarrow> searchLayer_friends dot getVec h query fs (cur, minDist, changed)
      | Some friend \<Rightarrow>
          (case getVec (nArenaOffset (obj h friend)) of
             None \<Rightarrow> searchLayer_friends dot getVec h query fs (cur, minDist, changed)
           | Some fVec \<Rightarrow>
               let d = dist dot query fVec in
               searchLayer_friends dot getVec h query fs
                 (if f32_lt d minDist then (friend, d, True) else (cur, minDist, changed))))"

lemma searchLayer_friends_less:
  "searchLayer_friends dot getVec h q fs (c, d, ch) = (c', d', ch') \<Longrightarrow>
   (ch' \<longrightarrow> ch \<or> f32_lt d' d) \<and> (d' = d \<or> f32_lt d' d)"
proof (induction fs arbitrary: c d ch)
  case (Cons f fs)
  consider "searchLayer_friends dot getVec h q fs (c, d, ch) = (c', d', ch')"
    | p e where "f32_lt e d" "searchLayer_friends dot getVec h q fs (p, e, True) = (c', d', ch')"
    using Cons.prems by (auto simp: Let_def split: option.splits if_splits)
  then show ?case using Cons.IH f32_lt_trans by cases blast+
qed simp

lemma card_f32_below: "f32_lt d' d \<Longrightarrow> card {w. f32_lt w d'} < card {w. f32_lt w d}"
proof (rule psubset_card_mono)
  assume less: "f32_lt d' d"
  then have "d' \<in> {w. f32_lt w d}" "d' \<notin> {w. f32_lt w d'}" by simp_all
  then show "{w. f32_lt w d'} \<subset> {w. f32_lt w d}" using less f32_lt_trans by blast
qed simp

function searchLayer_loop ::
  "dot_fn \<Rightarrow> vec_fn \<Rightarrow> HNSWIndex \<Rightarrow> vec \<Rightarrow> nat \<Rightarrow> nat \<Rightarrow> float32 \<Rightarrow> nat" where
  "searchLayer_loop dot getVec h query layer cur minDist =
     (case searchLayer_friends dot getVec h query (friends_of h layer cur) (cur, minDist, False) of
        (cur', minDist', changed) \<Rightarrow>
          if changed then searchLayer_loop dot getVec h query layer cur' minDist' else cur')"
  by pat_completeness auto
termination
  by (relation "measure (\<lambda>(dot, getVec, h, q, l, c, d). card {w. f32_lt w d})")
    (auto intro!: card_f32_below dest: sym [THEN searchLayer_friends_less])

declare searchLayer_loop.simps [simp del]

definition searchLayer :: "dot_fn \<Rightarrow> vec_fn \<Rightarrow> HNSWIndex \<Rightarrow> vec \<Rightarrow> nat \<Rightarrow> nat \<Rightarrow> nat" where
  "searchLayer dot getVec h query entryPoint layer =
     (case getVec (nArenaOffset (obj h entryPoint)) of
        None \<Rightarrow> entryPoint
      | Some currVec \<Rightarrow> searchLayer_loop dot getVec h query layer entryPoint (dist dot query currVec))"

section \<open>Beam search in a layer\<close>

type_synonym beam = "nat set \<times> searchResult list \<times> searchResult list"

text \<open>
  One candidate's neighbours. The results are never empty here, so that \<open>Peek\<close> and
  \<open>Replace\<close> have an element (\<open>tk_friends_ok\<close> below).
\<close>

fun tk_friend :: "dot_fn \<Rightarrow> vec_fn \<Rightarrow> HNSWIndex \<Rightarrow> vec \<Rightarrow> nat \<Rightarrow> nat \<Rightarrow> beam \<Rightarrow> beam" where
  "tk_friend dot getVec h query ef fOffset (visited, candidates, results) =
     (if fOffset \<in> visited then (visited, candidates, results)
      else
        let visited' = insert fOffset visited in
        case nodeByOffset h fOffset of
          None \<Rightarrow> (visited', candidates, results)
        | Some fNode \<Rightarrow>
            (case getVec (nArenaOffset (obj h fNode)) of
               None \<Rightarrow> (visited', candidates, results)
             | Some fVec \<Rightarrow>
                 let s = \<lparr>srNode = fNode, srD = dist dot query fVec\<rparr> in
                 if length results < ef
                 then (visited', srMinHeap_Push candidates s, srMaxHeap_Push results s)
                 else case srMaxHeap_Peek results of
                   None \<Rightarrow> (visited', candidates, results)
                 | Some worst \<Rightarrow>
                     if f32_lt (srD s) (srD worst)
                     then (visited', srMinHeap_Push candidates s, the (srMaxHeap_Replace results s))
                     else (visited', candidates, results)))"

definition tk_friends :: "dot_fn \<Rightarrow> vec_fn \<Rightarrow> HNSWIndex \<Rightarrow> vec \<Rightarrow> nat \<Rightarrow> nat list \<Rightarrow> beam \<Rightarrow> beam" where
  "tk_friends dot getVec h query ef fs st = fold (tk_friend dot getVec h query ef) fs st"

text \<open>What one neighbour can do: nothing new, visited only, or pushed (with or without a replacement).\<close>

lemma tk_friend_cases:
  assumes "tk_friend dot getVec h q ef f (vis, cand, res) = (vis', cand', res')"
  obtains (seen) "f \<in> vis" "vis' = vis" "cand' = cand" "res' = res"
    | (skip) "f \<notin> vis" "vis' = insert f vis" "cand' = cand" "res' = res"
        "nodeByOffset h f = None \<or> (\<exists>p. nodeByOffset h f = Some p \<and>
           (getVec (nArenaOffset (obj h p)) = None \<or> ef \<le> length res))"
    | (push) p v where "f \<notin> vis" "vis' = insert f vis" "nodeByOffset h f = Some p"
        "getVec (nArenaOffset (obj h p)) = Some v"
        "cand' = srMinHeap_Push cand \<lparr>srNode = p, srD = dist dot q v\<rparr>"
        "length res < ef" "res' = srMaxHeap_Push res \<lparr>srNode = p, srD = dist dot q v\<rparr>"
    | (repl) p v w where "f \<notin> vis" "vis' = insert f vis" "nodeByOffset h f = Some p"
        "getVec (nArenaOffset (obj h p)) = Some v"
        "cand' = srMinHeap_Push cand \<lparr>srNode = p, srD = dist dot q v\<rparr>"
        "ef \<le> length res" "srMaxHeap_Peek res = Some w" "f32_lt (dist dot q v) (srD w)"
        "srMaxHeap_Replace res \<lparr>srNode = p, srD = dist dot q v\<rparr> = Some res'"
proof -
  have r: "srMaxHeap_Peek res = Some w \<Longrightarrow> srMaxHeap_Replace res s = Some (the (srMaxHeap_Replace res s))" for w s
    by (auto simp: srMaxHeap_Peek_def heap_peek_def srMaxHeap_Replace_def heap_replace_def split: if_splits)
  show thesis
    using assms
    by (simp add: Let_def split: if_splits option.splits) (auto dest: r intro: that)
qed

definition unvisited :: "HNSWIndex \<Rightarrow> nat set \<Rightarrow> nat set" where
  "unvisited h visited = {..<length (hNodesByIdx h)} - visited"

lemma unvisited_insert: "nodeByOffset h off = Some p \<Longrightarrow> off \<notin> vis \<Longrightarrow>
  Suc (card (unvisited h (insert off vis))) = card (unvisited h vis)"
proof -
  assume "nodeByOffset h off = Some p" "off \<notin> vis"
  then have "unvisited h vis = insert off (unvisited h (insert off vis))" "off \<notin> unvisited h (insert off vis)"
    by (auto simp: unvisited_def nodeByOffset_def split: if_splits)
  moreover have "finite (unvisited h (insert off vis))" by (simp add: unvisited_def)
  ultimately show ?thesis by (metis card_insert_disjoint)
qed

lemma unvisited_insert_le: "card (unvisited h (insert off vis)) \<le> card (unvisited h vis)"
  by (rule card_mono) (auto simp: unvisited_def)

lemma length_srMinHeap_Push [simp]: "length (srMinHeap_Push h s) = Suc (length h)"
  by (simp add: srMinHeap_Push_def heap_push_def)

lemma tk_friend_measure:
  assumes "tk_friend dot getVec h q ef f (vis, cand, res) = (vis', cand', res')"
  shows "card (unvisited h vis') + length cand' \<le> card (unvisited h vis) + length cand"
  using assms
proof (cases rule: tk_friend_cases)
  case skip
  then show ?thesis using unvisited_insert_le by simp
next
  case push
  then show ?thesis using unvisited_insert [of h f] by simp
next
  case repl
  then show ?thesis using unvisited_insert [of h f] by simp
qed simp

lemma tk_friends_measure:
  "tk_friends dot getVec h q ef fs (vis, cand, res) = (vis', cand', res') \<Longrightarrow>
   card (unvisited h vis') + length cand' \<le> card (unvisited h vis) + length cand"
proof (induction fs arbitrary: vis cand res)
  case (Cons f fs)
  obtain v1 c1 r1 where st: "tk_friend dot getVec h q ef f (vis, cand, res) = (v1, c1, r1)"
    using prod_cases3 by blast
  then show ?case
    using Cons.IH [of v1 c1 r1] Cons.prems tk_friend_measure [OF st] by (simp add: tk_friends_def)
qed (simp add: tk_friends_def)

lemma length_srMinHeap_Pop: "srMinHeap_Pop h = Some (m, h') \<Longrightarrow> Suc (length h') = length h"
  unfolding srMinHeap_Pop_def by (rule heap_pop_length)

function tk_loop ::
  "dot_fn \<Rightarrow> vec_fn \<Rightarrow> HNSWIndex \<Rightarrow> vec \<Rightarrow> nat \<Rightarrow> nat \<Rightarrow> nat set \<Rightarrow> searchResult list \<Rightarrow> searchResult list \<Rightarrow> searchResult list" where
  "tk_loop dot getVec h query layer ef visited candidates results =
     (case srMinHeap_Pop candidates of
        None \<Rightarrow> results
      | Some (best, candidates') \<Rightarrow>
          if ef \<le> length results \<and> f32_gt (srD best) (srD (the (srMaxHeap_Peek results))) then results
          else
            case tk_friends dot getVec h query ef (friends_of h layer (srNode best)) (visited, candidates', results) of
              (visited', candidates'', results') \<Rightarrow>
                tk_loop dot getVec h query layer ef visited' candidates'' results')"
  by pat_completeness auto
termination
  apply (relation "measure (\<lambda>(dot, getVec, h, q, l, ef, vis, cand, res). card (unvisited h vis) + length cand)")
   apply simp
  apply clarify
  apply (drule sym [THEN tk_friends_measure])
  apply (drule length_srMinHeap_Pop)
  apply simp
  done
declare tk_loop.simps [simp del]

text \<open>\<open>out\<close> is filled from its end with what \<open>Pop\<close> returns.\<close>

lemma length_srMaxHeap_Pop: "srMaxHeap_Pop h = Some (m, h') \<Longrightarrow> Suc (length h') = length h"
  unfolding srMaxHeap_Pop_def by (rule heap_pop_length)

function drain :: "searchResult list \<Rightarrow> searchResult list" where
  "drain results = (case srMaxHeap_Pop results of None \<Rightarrow> [] | Some (m, results') \<Rightarrow> drain results' @ [m])"
  by pat_completeness auto
termination
  by (relation "measure length") (auto dest!: length_srMaxHeap_Pop)

declare drain.simps [simp del]

definition searchLayerTopK ::
  "dot_fn \<Rightarrow> vec_fn \<Rightarrow> HNSWIndex \<Rightarrow> vec \<Rightarrow> nat \<Rightarrow> nat \<Rightarrow> nat \<Rightarrow> searchResult list" where
  "searchLayerTopK dot getVec h query entry layer ef =
     (case getVec (nArenaOffset (obj h entry)) of
        None \<Rightarrow> []
      | Some entryVec \<Rightarrow>
          let s = \<lparr>srNode = entry, srD = dist dot query entryVec\<rparr> in
          drain (tk_loop dot getVec h query layer ef {nArenaOffset (obj h entry)} [s] [s]))"

section \<open>Insertion\<close>

definition upd_node :: "HNSWIndex \<Rightarrow> nat \<Rightarrow> (HNSWNode \<Rightarrow> HNSWNode) \<Rightarrow> HNSWIndex" where
  "upd_node h p f = h\<lparr>hObjs := (hObjs h)[p := f (hObjs h ! p)]\<rparr>"

definition set_conns :: "nat \<Rightarrow> nat list \<Rightarrow> HNSWNode \<Rightarrow> HNSWNode" where
  "set_conns l xs n = n\<lparr>nConnections := (nConnections n)[l := xs]\<rparr>"

text \<open>The insertion sort of \<open>pruneConnections\<close> moves an item left past the strictly greater ones.\<close>

fun insert_left :: "(nat \<times> float32) \<Rightarrow> (nat \<times> float32) list \<Rightarrow> (nat \<times> float32) list" where
  "insert_left key [] = [key]"
| "insert_left key (x # rev_items) =
     (if f32_gt (snd x) (snd key) then x # insert_left key rev_items else key # x # rev_items)"

definition prune_sort :: "(nat \<times> float32) list \<Rightarrow> (nat \<times> float32) list" where
  "prune_sort items = rev (foldl (\<lambda>acc key. insert_left key acc) [] items)"

definition prune_items :: "dot_fn \<Rightarrow> vec_fn \<Rightarrow> HNSWIndex \<Rightarrow> vec \<Rightarrow> nat list \<Rightarrow> (nat \<times> float32) list" where
  "prune_items dot getVec h nodeVec conns =
     List.map_filter (\<lambda>offset. case nodeByOffset h offset of
         None \<Rightarrow> None
       | Some cn \<Rightarrow> (case getVec (nArenaOffset (obj h cn)) of
            None \<Rightarrow> None
          | Some cnVec \<Rightarrow> Some (offset, dist dot nodeVec cnVec))) conns"

definition pruneConnections :: "dot_fn \<Rightarrow> vec_fn \<Rightarrow> HNSWIndex \<Rightarrow> nat \<Rightarrow> nat \<Rightarrow> nat \<Rightarrow> HNSWIndex" where
  "pruneConnections dot getVec h p layer maxConn =
     (let conns = nConnections (obj h p) ! layer in
      if length conns \<le> maxConn then h
      else case getVec (nArenaOffset (obj h p)) of
        None \<Rightarrow> h
      | Some nodeVec \<Rightarrow>
          let items = prune_items dot getVec h nodeVec conns in
          if length items \<le> maxConn then upd_node h p (set_conns layer (map fst items))
          else upd_node h p (set_conns layer (map fst (take maxConn (prune_sort items)))))"

definition Add_link ::
  "dot_fn \<Rightarrow> vec_fn \<Rightarrow> nat \<Rightarrow> nat \<Rightarrow> nat \<Rightarrow> nat \<Rightarrow> searchResult \<Rightarrow> HNSWIndex \<Rightarrow> HNSWIndex" where
  "Add_link dot getVec maxConn l newNode idx sr h =
     (let p = srNode sr in
      if length (nConnections (obj h p)) \<le> l then h
      else
        let h1 = upd_node h newNode (\<lambda>n. set_conns l (nConnections n ! l @ [nArenaOffset (obj h p)]) n);
            h2 = upd_node h1 p (\<lambda>n. set_conns l (nConnections n ! l @ [idx]) n)
        in if maxConn < length (nConnections (obj h2 p) ! l)
           then pruneConnections dot getVec h2 p l maxConn else h2)"

definition max_conn :: "HNSWIndex \<Rightarrow> nat \<Rightarrow> nat" where
  "max_conn h l = (if l = 0 then cfgM0 (hCfg h) else cfgM (hCfg h))"

definition Add_layer ::
  "dot_fn \<Rightarrow> vec_fn \<Rightarrow> vec \<Rightarrow> nat \<Rightarrow> nat \<Rightarrow> nat \<Rightarrow> HNSWIndex \<times> nat \<Rightarrow> HNSWIndex \<times> nat" where
  "Add_layer dot getVec vector newNode idx l st =
     (case st of (h, cur) \<Rightarrow>
        let maxConn = max_conn h l;
            neighbors = searchLayerTopK dot getVec h vector cur l maxConn
        in (fold (Add_link dot getVec maxConn l newNode idx) neighbors h,
            case neighbors of [] \<Rightarrow> cur | sr # _ \<Rightarrow> srNode sr))"

text \<open>\<open>delete(h.Nodes, id)\<close> for a tombstoned node of the same id.\<close>

definition Add_unlink :: "HNSWIndex \<Rightarrow> string \<Rightarrow> HNSWIndex" where
  "Add_unlink h i =
     (case hNodes h i of
        None \<Rightarrow> h
      | Some _ \<Rightarrow>
          let h1 = h\<lparr>hNodes := (hNodes h)(i := None)\<rparr> in
          if hEntryNodeID h = i then refreshEntryNodeLocked h1 else h1)"

definition Add_register :: "HNSWIndex \<Rightarrow> string \<Rightarrow> nat \<Rightarrow> nat \<Rightarrow> HNSWIndex" where
  "Add_register h i idx level =
     (let newNode = length (hObjs h);
          node = \<lparr>nID = i, nLayer = level, nConnections = replicate (level + 1) [], nArenaOffset = idx\<rparr>
      in registerNode (h\<lparr>hObjs := hObjs h @ [node], hNodes := (hNodes h)(i \<mapsto> newNode)\<rparr>) newNode)"

definition Add_connect ::
  "dot_fn \<Rightarrow> vec_fn \<Rightarrow> vec \<Rightarrow> nat \<Rightarrow> nat \<Rightarrow> nat \<Rightarrow> int \<Rightarrow> nat \<Rightarrow> HNSWIndex \<Rightarrow> HNSWIndex" where
  "Add_connect dot getVec vector newNode idx level maxLayer cur h =
     (case getVec (nArenaOffset (obj h cur)) of
        None \<Rightarrow> h
      | Some _ \<Rightarrow>
          let cur1 = foldl (\<lambda>c l. searchLayer dot getVec h vector c l) cur (rev [level + 1..<nat (maxLayer + 1)]);
              startLayer = (if maxLayer < int level then maxLayer else int level)
          in fst (fold (Add_layer dot getVec vector newNode idx) (rev [0..<nat (startLayer + 1)]) (h, cur1)))"

definition HNSW_Add :: "dot_fn \<Rightarrow> vec_fn \<Rightarrow> nat \<Rightarrow> HNSWIndex \<Rightarrow> vec \<Rightarrow> string \<Rightarrow> nat \<Rightarrow> HNSWIndex" where
  "HNSW_Add dot getVec level h vector i idx =
     (if (case hNodes h i of None \<Rightarrow> False | Some p \<Rightarrow> \<not> isDeleted h (nArenaOffset (obj h p))) then h
      else
        let h1 = Add_unlink h i; newNode = length (hObjs h1) in
        if hEntryNodeID h1 = []
        then (Add_register h1 i idx level)\<lparr>hEntryNodeID := i, hMaxLayer := int level\<rparr>
        else
          let h2 = Add_register h1 i idx level in
          case hNodes h1 (hEntryNodeID h1) of
            None \<Rightarrow> h2
          | Some cur \<Rightarrow>
              let h3 = Add_connect dot getVec vector newNode idx level (hMaxLayer h1) cur h2
              in if hMaxLayer h3 < int level then h3\<lparr>hMaxLayer := int level, hEntryNodeID := i\<rparr> else h3)"

section \<open>Search\<close>

definition HNSW_Search :: "dot_fn \<Rightarrow> vec_fn \<Rightarrow> HNSWIndex \<Rightarrow> vec \<Rightarrow> nat \<Rightarrow> VectroRecord list" where
  "HNSW_Search dot getVec h query k =
     (if length query = 0 then []
      else if hEntryNodeID h = [] then []
      else
        let normQ = normalizeVec query;
            efSearch = max (k * cfgEfSearchMult (hCfg h)) (cfgEfSearchMin (hCfg h))
        in case hNodes h (hEntryNodeID h) of
          None \<Rightarrow> []
        | Some entry \<Rightarrow>
            let cur = foldl (\<lambda>c l. searchLayer dot getVec h normQ c l) entry (rev [1..<nat (hMaxLayer h + 1)]);
                topResults = take k (searchLayerTopK dot getVec h normQ cur 0 efSearch)
            in map (\<lambda>sr. \<lparr>vrID = nID (obj h (srNode sr)), vrScore = f32_sub f32_one (srD sr), vrData = ''{}''\<rparr>)
                 (filter (\<lambda>sr. \<not> isDeleted h (nArenaOffset (obj h (srNode sr)))) topResults))"

end
