(* ===== verification/HNSW_Search.thy ===== *)
theory HNSW_Search
  imports HNSW
begin

text \<open>
  What the searches of \<open>internal/store/hnsw.go\<close> return: the invariant of the node store
  (\<open>hnsw_base\<close>), soundness of the greedy and the beam search, the order of the beam
  search's output, and its completeness when the beam is at least as wide as the graph.
\<close>

section \<open>The invariant of the node store\<close>

text \<open>\<open>n\<close> is the number of vectors in the arena.\<close>

definition hnsw_store :: "nat \<Rightarrow> HNSWIndex \<Rightarrow> bool" where
  "hnsw_store n h \<longleftrightarrow>
     (\<forall>i p. nodeByOffset h i = Some p \<longrightarrow> p < length (hObjs h) \<and> nArenaOffset (obj h p) = i) \<and>
     (\<forall>i p. hNodes h i = Some p \<longrightarrow> p < length (hObjs h) \<and> nID (obj h p) = i) \<and>
     (\<forall>p<length (hObjs h). nodeByOffset h (nArenaOffset (obj h p)) = Some p \<and> nArenaOffset (obj h p) < n \<and>
        nID (obj h p) \<noteq> [] \<and> length (nConnections (obj h p)) = nLayer (obj h p) + 1 \<and>
        (\<not> isDeleted h (nArenaOffset (obj h p)) \<longrightarrow> hNodes h (nID (obj h p)) = Some p))"

text \<open>The entry node is registered and on the top layer; without one every node is a tombstone.\<close>

definition hnsw_entry :: "HNSWIndex \<Rightarrow> bool" where
  "hnsw_entry h \<longleftrightarrow>
     (if hEntryNodeID h = []
      then hMaxLayer h = -1 \<and> (\<forall>p<length (hObjs h). isDeleted h (nArenaOffset (obj h p)))
      else \<exists>p. hNodes h (hEntryNodeID h) = Some p \<and> hMaxLayer h = int (nLayer (obj h p)))"

definition hnsw_base :: "nat \<Rightarrow> HNSWIndex \<Rightarrow> bool" where
  "hnsw_base n h \<longleftrightarrow> hnsw_store n h \<and> hnsw_entry h"

definition vec_ok :: "nat \<Rightarrow> vec_fn \<Rightarrow> bool" where
  "vec_ok n getVec \<longleftrightarrow> (\<forall>i. getVec i \<noteq> None \<longleftrightarrow> i < n)"

lemma hnsw_base_registered:
  assumes "hnsw_base n h" "nodeByOffset h i = Some p"
  shows "p < length (hObjs h)" "nArenaOffset (obj h p) = i" "i < n"
  using assms unfolding hnsw_base_def hnsw_store_def by blast+

lemma hnsw_base_obj:
  assumes "hnsw_base n h" "p < length (hObjs h)"
  shows "nodeByOffset h (nArenaOffset (obj h p)) = Some p" "nArenaOffset (obj h p) < n"
    "nID (obj h p) \<noteq> []" "length (nConnections (obj h p)) = nLayer (obj h p) + 1"
    "\<not> isDeleted h (nArenaOffset (obj h p)) \<Longrightarrow> hNodes h (nID (obj h p)) = Some p"
  using assms unfolding hnsw_base_def hnsw_store_def by blast+

lemma hnsw_base_nodes:
  "hnsw_base n h \<Longrightarrow> hNodes h i = Some p \<Longrightarrow> p < length (hObjs h) \<and> nID (obj h p) = i"
  unfolding hnsw_base_def hnsw_store_def by blast

lemma hnsw_base_entry:
  "hnsw_base n h \<Longrightarrow> hEntryNodeID h \<noteq> [] \<Longrightarrow>
   \<exists>p. hNodes h (hEntryNodeID h) = Some p \<and> p < length (hObjs h) \<and> hMaxLayer h = int (nLayer (obj h p))"
  using hnsw_base_nodes [of n h "hEntryNodeID h"] unfolding hnsw_base_def hnsw_entry_def by auto

text \<open>A set of nodes that the links of a layer do not leave.\<close>

definition layer_closed :: "HNSWIndex \<Rightarrow> nat \<Rightarrow> nat set \<Rightarrow> bool" where
  "layer_closed h layer S \<longleftrightarrow> S \<subseteq> {..<length (hObjs h)} \<and>
     (\<forall>p\<in>S. \<forall>f\<in>set (friends_of h layer p). \<forall>q. nodeByOffset h f = Some q \<longrightarrow> q \<in> S)"

lemma layer_closed_all: "hnsw_base n h \<Longrightarrow> layer_closed h layer {..<length (hObjs h)}"
  by (auto simp: layer_closed_def dest: hnsw_base_registered)

section \<open>The greedy search\<close>

lemma searchLayer_friends_in:
  assumes "\<forall>f\<in>set fs. \<forall>q. nodeByOffset h f = Some q \<longrightarrow> q \<in> S" "c \<in> S"
    "searchLayer_friends dot getVec h q fs (c, d, ch) = (c', d', ch')"
  shows "c' \<in> S"
  using assms
proof (induction fs arbitrary: c d ch)
  case (Cons f fs)
  consider "searchLayer_friends dot getVec h q fs (c, d, ch) = (c', d', ch')"
    | p e where "nodeByOffset h f = Some p" "searchLayer_friends dot getVec h q fs (p, e, True) = (c', d', ch')"
    using Cons.prems(3) by (auto simp: Let_def split: option.splits if_splits)
  then show ?case using Cons by cases auto
qed simp

lemma searchLayer_loop_in:
  "layer_closed h layer S \<Longrightarrow> c \<in> S \<Longrightarrow> searchLayer_loop dot getVec h q layer c d \<in> S"
proof (induction dot getVec h q layer c d rule: searchLayer_loop.induct)
  case (1 dot getVec h q layer c d)
  obtain c' d' ch where st: "searchLayer_friends dot getVec h q (friends_of h layer c) (c, d, False) = (c', d', ch)"
    using prod_cases3 by blast
  have "c' \<in> S"
    using searchLayer_friends_in [OF _ "1.prems"(2) st] "1.prems" by (auto simp: layer_closed_def)
  with "1.IH" [OF st [symmetric] refl] "1.prems" st show ?case
    by (subst searchLayer_loop.simps) simp
qed

lemma searchLayer_in: "layer_closed h layer S \<Longrightarrow> c \<in> S \<Longrightarrow> searchLayer dot getVec h q c layer \<in> S"
  by (auto simp: searchLayer_def intro: searchLayer_loop_in split: option.split)

lemma descend_in:
  assumes "\<forall>l\<in>set ls. layer_closed h l S" "c \<in> S"
  shows "foldl (\<lambda>c l. searchLayer dot getVec h q c l) c ls \<in> S"
  using assms by (induction ls arbitrary: c) (auto simp: searchLayer_in)

section \<open>The beam search\<close>

definition scored :: "dot_fn \<Rightarrow> vec_fn \<Rightarrow> HNSWIndex \<Rightarrow> vec \<Rightarrow> searchResult \<Rightarrow> bool" where
  "scored dot getVec h q s \<longleftrightarrow>
     (\<exists>v. getVec (nArenaOffset (obj h (srNode s))) = Some v \<and> srD s = dist dot q v)"

definition tk_ok :: "dot_fn \<Rightarrow> vec_fn \<Rightarrow> HNSWIndex \<Rightarrow> vec \<Rightarrow> nat \<Rightarrow> nat set \<Rightarrow> beam \<Rightarrow> bool" where
  "tk_ok dot getVec h q ef S st \<longleftrightarrow>
     (case st of (vis, cand, res) \<Rightarrow>
       (\<forall>s\<in>set cand \<union> set res. srNode s \<in> S \<and> nArenaOffset (obj h (srNode s)) \<in> vis \<and> scored dot getVec h q s) \<and>
       distinct (map srNode res) \<and> res \<noteq> [] \<and> length res \<le> max 1 ef)"

lemma mset_srMinHeap_Push [simp]: "mset (srMinHeap_Push h s) = add_mset s (mset h)"
  by (simp add: srMinHeap_Push_def heap_push_mset)

lemma mset_srMaxHeap_Push [simp]: "mset (srMaxHeap_Push h s) = add_mset s (mset h)"
  by (simp add: srMaxHeap_Push_def heap_push_mset)

lemma set_srHeap_Push [simp]:
  "set (srMinHeap_Push h s) = insert s (set h)" "set (srMaxHeap_Push h s) = insert s (set h)"
  by (metis mset_srMinHeap_Push set_mset_add_mset_insert set_mset_mset,
      metis mset_srMaxHeap_Push set_mset_add_mset_insert set_mset_mset)

lemma distinct_map_mset: "mset xs = mset ys \<Longrightarrow> distinct (map f xs) \<longleftrightarrow> distinct (map f ys)"
  by (metis mset_eq_imp_distinct_iff mset_map)

lemma length_srMaxHeap_Push [simp]: "length (srMaxHeap_Push h s) = Suc (length h)"
  by (metis mset_srMaxHeap_Push size_add_mset size_mset)

text \<open>A replacement drops one element for the new one.\<close>

lemma srMaxHeap_Replace_contents:
  assumes "srMaxHeap_Replace res s = Some res'"
  shows "\<exists>w rest. mset res = add_mset w rest \<and> mset res' = add_mset s rest"
proof -
  have "add_mset (res ! 0) (mset res') = add_mset s (mset res)" and "res \<noteq> []"
    using assms unfolding srMaxHeap_Replace_def
    by (rule heap_replace_mset) (use assms in \<open>auto simp: srMaxHeap_Replace_def heap_replace_def\<close>)
  moreover from this(2) obtain rest where "mset res = add_mset (res ! 0) rest"
    by (metis multi_member_split nth_mem length_greater_0_conv set_mset_mset)
  ultimately show ?thesis by (metis add_mset_commute add_mset_add_mset_same_iff)
qed

lemma tk_ok_push:
  assumes ok: "tk_ok dot getVec h q ef S (vis, cand, res)" and base: "hnsw_base n h"
    and f: "f \<notin> vis" "nodeByOffset h f = Some p" "p \<in> S" and v: "getVec (nArenaOffset (obj h p)) = Some v"
    and s: "s = \<lparr>srNode = p, srD = dist dot q v\<rparr>"
    and res': "mset res' = add_mset s rest" "rest \<subseteq># mset res" "length res' \<le> max 1 ef"
  shows "tk_ok dot getVec h q ef S (insert f vis, srMinHeap_Push cand s, res')"
proof -
  have off: "nArenaOffset (obj h p) = f" using hnsw_base_registered [OF base f(2)] by simp
  have sub: "set res' \<subseteq> insert s (set res)"
    using res'(1,2) by (metis insert_mono set_mset_add_mset_insert set_mset_mset set_mset_mono)
  have new: "srNode s \<notin> srNode ` set res" using ok off f(1) s by (auto simp: tk_ok_def)
  obtain xs where xs: "mset xs = rest" by (metis ex_mset)
  have "distinct (map srNode res)" using ok by (simp add: tk_ok_def)
  then have d: "distinct (map srNode xs)"
    using res'(2) xs by (metis distinct_map_mset mset_subset_eq_exists_conv mset_append map_append distinct_append ex_mset)
  have "set xs \<subseteq> set res" using res'(2) xs by (metis set_mset_mset set_mset_mono)
  then have "distinct (map srNode (s # xs))" using new d by auto
  moreover have "mset res' = mset (s # xs)" using res'(1) xs by simp
  ultimately have "distinct (map srNode res')" using distinct_map_mset by blast
  moreover have "res' \<noteq> []" using res'(1) by auto
  moreover have "scored dot getVec h q s" using v s by (simp add: scored_def)
  ultimately show ?thesis
    using ok sub s f(3) off res'(3) by (auto simp: tk_ok_def dest!: subsetD)
qed

lemma tk_friend_ok:
  assumes ok: "tk_ok dot getVec h q ef S (vis, cand, res)" and base: "hnsw_base n h"
    and S: "\<forall>p. nodeByOffset h f = Some p \<longrightarrow> p \<in> S"
    and st: "tk_friend dot getVec h q ef f (vis, cand, res) = (vis', cand', res')"
  shows "tk_ok dot getVec h q ef S (vis', cand', res')"
  using st
proof (cases rule: tk_friend_cases)
  case seen
  then show ?thesis using ok by simp
next
  case skip
  then show ?thesis using ok by (auto simp: tk_ok_def)
next
  case (push p v)
  let ?s = "\<lparr>srNode = p, srD = dist dot q v\<rparr>"
  have "tk_ok dot getVec h q ef S (insert f vis, srMinHeap_Push cand ?s, srMaxHeap_Push res ?s)"
    using S push by (intro tk_ok_push [OF ok base, where rest = "mset res"]) auto
  then show ?thesis using push by simp
next
  case (repl p v w)
  let ?s = "\<lparr>srNode = p, srD = dist dot q v\<rparr>"
  obtain w' rest where r: "mset res = add_mset w' rest" "mset res' = add_mset ?s rest"
    using srMaxHeap_Replace_contents [OF repl(9)] by blast
  then have "length res' = length res" by (metis size_add_mset size_mset)
  then have "tk_ok dot getVec h q ef S (insert f vis, srMinHeap_Push cand ?s, res')"
    using S repl r ok by (intro tk_ok_push [OF ok base, where rest = rest]) (auto simp: tk_ok_def)
  then show ?thesis using repl by simp
qed

lemma tk_friends_ok:
  assumes "hnsw_base n h"
  shows "tk_ok dot getVec h q ef S st \<Longrightarrow> \<forall>f\<in>set fs. \<forall>p. nodeByOffset h f = Some p \<longrightarrow> p \<in> S \<Longrightarrow>
    tk_ok dot getVec h q ef S (tk_friends dot getVec h q ef fs st)"
proof (induction fs arbitrary: st)
  case (Cons f fs)
  obtain v c r where st: "st = (v, c, r)" using prod_cases3 by blast
  obtain v' c' r' where st': "tk_friend dot getVec h q ef f (v, c, r) = (v', c', r')" using prod_cases3 by blast
  have "tk_ok dot getVec h q ef S (v', c', r')"
    using Cons.prems st by (intro tk_friend_ok [OF _ assms _ st']) auto
  then show ?case using Cons.IH [of "(v', c', r')"] Cons.prems st st' by (simp add: tk_friends_def)
qed (simp add: tk_friends_def)

lemma set_srMinHeap_Pop: "srMinHeap_Pop cand = Some (b, cand') \<Longrightarrow> set cand = insert b (set cand')"
  unfolding srMinHeap_Pop_def by (drule heap_pop_mset) (metis set_mset_add_mset_insert set_mset_mset)

text \<open>The state of the loop after one candidate was expanded.\<close>

lemma tk_step_ok:
  assumes base: "hnsw_base n h" and S: "layer_closed h layer S" and ok: "tk_ok dot getVec h q ef S (vis, cand, res)"
    and pop: "srMinHeap_Pop cand = Some (b, cand')"
    and fr: "tk_friends dot getVec h q ef (friends_of h layer (srNode b)) (vis, cand', res) = (vis2, cand2, res2)"
  shows "tk_ok dot getVec h q ef S (vis2, cand2, res2)"
proof -
  have "tk_ok dot getVec h q ef S (vis, cand', res)" and b: "srNode b \<in> S"
    using ok set_srMinHeap_Pop [OF pop] by (auto simp: tk_ok_def)
  then show ?thesis
    using tk_friends_ok [OF base, of dot getVec q ef S "(vis, cand', res)" "friends_of h layer (srNode b)"] S fr
    by (auto simp: layer_closed_def)
qed

text \<open>The loop rule: what every expansion keeps holds at the end, where no candidate is left or the break was taken.\<close>

definition tk_break :: "nat \<Rightarrow> searchResult \<Rightarrow> searchResult list \<Rightarrow> bool" where
  "tk_break ef b res \<longleftrightarrow> ef \<le> length res \<and> f32_gt (srD b) (srD (the (srMaxHeap_Peek res)))"

lemma tk_loop_unfold:
  "tk_loop dot getVec h q layer ef vis cand res =
     (case srMinHeap_Pop cand of
        None \<Rightarrow> res
      | Some (b, cand') \<Rightarrow>
          if tk_break ef b res then res
          else case tk_friends dot getVec h q ef (friends_of h layer (srNode b)) (vis, cand', res) of
            (vis2, cand2, res2) \<Rightarrow> tk_loop dot getVec h q layer ef vis2 cand2 res2)"
  unfolding tk_break_def by (rule tk_loop.simps)

lemma tk_loop_rule:
  assumes "I (vis, cand, res)"
    and step: "\<And>vis cand res b cand'. I (vis, cand, res) \<Longrightarrow> srMinHeap_Pop cand = Some (b, cand') \<Longrightarrow> \<not> tk_break ef b res \<Longrightarrow>
      I (tk_friends dot getVec h q ef (friends_of h layer (srNode b)) (vis, cand', res))"
  shows "\<exists>vis' cand'. I (vis', cand', tk_loop dot getVec h q layer ef vis cand res) \<and>
    (cand' = [] \<or> ef \<le> length (tk_loop dot getVec h q layer ef vis cand res))"
  using assms(1)
proof (induction dot\<equiv>dot getVec\<equiv>getVec h\<equiv>h q\<equiv>q layer\<equiv>layer ef\<equiv>ef vis cand res rule: tk_loop.induct)
  case (1 vis cand res)
  show ?case
  proof (cases "srMinHeap_Pop cand")
    case None
    then have "cand = []" by (simp add: srMinHeap_Pop_def heap_pop_eq_None_iff)
    then show ?thesis using None "1.prems" by (subst (1 2) tk_loop_unfold) auto
  next
    case (Some x)
    then obtain b cand' where pop: "srMinHeap_Pop cand = Some (b, cand')" by (cases x) auto
    obtain v2 c2 r2 where fr: "tk_friends dot getVec h q ef (friends_of h layer (srNode b)) (vis, cand', res) = (v2, c2, r2)"
      using prod_cases3 by blast
    show ?thesis
    proof (cases "tk_break ef b res")
      case True
      then have "tk_loop dot getVec h q layer ef vis cand res = res" by (subst tk_loop_unfold) (simp add: pop)
      then show ?thesis using "1.prems" True by (auto simp: tk_break_def)
    next
      case False
      have eq: "tk_loop dot getVec h q layer ef vis cand res = tk_loop dot getVec h q layer ef v2 c2 r2"
        using False fr by (subst tk_loop_unfold) (simp add: pop)
      have "I (v2, c2, r2)" using step [OF "1.prems" pop False] fr by simp
      then show ?thesis
        unfolding eq using "1.hyps" [OF pop refl _ fr [symmetric] refl] False by (simp add: tk_break_def)
    qed
  qed
qed

lemma tk_loop_ok:
  assumes "hnsw_base n h" "layer_closed h layer S" "tk_ok dot getVec h q ef S (vis, cand, res)"
  shows "\<exists>vis' cand'. tk_ok dot getVec h q ef S (vis', cand', tk_loop dot getVec h q layer ef vis cand res)"
proof -
  have "\<exists>vis' cand'. tk_ok dot getVec h q ef S (vis', cand', tk_loop dot getVec h q layer ef vis cand res) \<and>
      (cand' = [] \<or> ef \<le> length (tk_loop dot getVec h q layer ef vis cand res))"
    using assms(3) by (rule tk_loop_rule) (metis tk_step_ok [OF assms(1,2)] prod_cases3)
  then show ?thesis by blast
qed

lemma mset_drain: "mset (drain res) = mset res"
proof (induction res rule: drain.induct)
  case (1 res)
  show ?case
  proof (cases "srMaxHeap_Pop res")
    case None
    then have "res = []" by (simp add: srMaxHeap_Pop_def heap_pop_eq_None_iff)
    then show ?thesis using None by (subst drain.simps) simp
  next
    case (Some x)
    then obtain m res' where pop: "srMaxHeap_Pop res = Some (m, res')" by (cases x) auto
    then have "mset res = add_mset m (mset res')" unfolding srMaxHeap_Pop_def by (rule heap_pop_mset)
    then show ?thesis using pop "1.IH" [OF pop refl] by (subst drain.simps) simp
  qed
qed

lemma set_drain: "set (drain res) = set res"
  by (metis mset_drain set_mset_mset)

lemma searchLayerTopK_sound:
  assumes base: "hnsw_base n h" and S: "layer_closed h layer S" and e: "entry \<in> S"
  shows "\<forall>s\<in>set (searchLayerTopK dot getVec h q entry layer ef). srNode s \<in> S \<and> scored dot getVec h q s"
    "distinct (map srNode (searchLayerTopK dot getVec h q entry layer ef))"
    "length (searchLayerTopK dot getVec h q entry layer ef) \<le> max 1 ef"
proof -
  let ?out = "searchLayerTopK dot getVec h q entry layer ef"
  have "(\<forall>s\<in>set ?out. srNode s \<in> S \<and> scored dot getVec h q s) \<and> distinct (map srNode ?out) \<and> length ?out \<le> max 1 ef"
  proof (cases "getVec (nArenaOffset (obj h entry))")
    case None
    then show ?thesis by (simp add: searchLayerTopK_def)
  next
    case (Some v)
    let ?s = "\<lparr>srNode = entry, srD = dist dot q v\<rparr>"
    let ?res = "tk_loop dot getVec h q layer ef {nArenaOffset (obj h entry)} [?s] [?s]"
    have "tk_ok dot getVec h q ef S ({nArenaOffset (obj h entry)}, [?s], [?s])"
      using e Some by (simp add: tk_ok_def scored_def)
    from tk_loop_ok [OF base S this] obtain vis' cand' where "tk_ok dot getVec h q ef S (vis', cand', ?res)" by blast
    moreover have "?out = drain ?res" using Some by (simp add: searchLayerTopK_def Let_def)
    ultimately show ?thesis
      using distinct_map_mset [OF mset_drain [of ?res]] mset_drain [of ?res]
      by (auto simp: tk_ok_def set_drain dest: mset_eq_length)
  qed
  then show "\<forall>s\<in>set ?out. srNode s \<in> S \<and> scored dot getVec h q s" "distinct (map srNode ?out)" "length ?out \<le> max 1 ef"
    by blast+
qed

section \<open>The order of the results\<close>

text \<open>The distances a search in \<open>S\<close> can meet are numbers.\<close>

definition numeric :: "dot_fn \<Rightarrow> vec_fn \<Rightarrow> HNSWIndex \<Rightarrow> vec \<Rightarrow> nat set \<Rightarrow> bool" where
  "numeric dot getVec h q S \<longleftrightarrow>
     (\<forall>p\<in>S. \<forall>v. getVec (nArenaOffset (obj h p)) = Some v \<longrightarrow> \<not> f32_isNaN (dist dot q v))"

abbreviation max_heap :: "searchResult list \<Rightarrow> bool" where
  "max_heap \<equiv> is_heap (\<lambda>x y. f32_ge (srD x) (srD y)) (\<lambda>x. \<not> f32_isNaN (srD x))"

lemma tk_friend_max_heap:
  assumes st: "tk_friend dot getVec h q ef f (vis, cand, res) = (vis', cand', res')" and heap: "max_heap res"
    and nan: "numeric dot getVec h q S" and S: "\<forall>p. nodeByOffset h f = Some p \<longrightarrow> p \<in> S"
  shows "max_heap res'"
  using st
proof (cases rule: tk_friend_cases)
  case (push p v)
  then have "\<not> f32_isNaN (dist dot q v)" using nan S by (auto simp: numeric_def)
  then show ?thesis
    using push srMaxHeap.push_is_heap [OF heap, of "\<lparr>srNode = p, srD = dist dot q v\<rparr>"] by (simp add: srMaxHeap_Push_def)
next
  case (repl p v w)
  then have "\<not> f32_isNaN (dist dot q v)" using nan S by (auto simp: numeric_def)
  then show ?thesis
    using repl srMaxHeap.replace_correct(1) [OF heap, of "\<lparr>srNode = p, srD = dist dot q v\<rparr>" res']
    by (simp add: srMaxHeap_Replace_def)
qed (use heap in simp_all)

lemma tk_friends_max_heap:
  assumes "numeric dot getVec h q S"
  shows "max_heap res \<Longrightarrow> \<forall>f\<in>set fs. \<forall>p. nodeByOffset h f = Some p \<longrightarrow> p \<in> S \<Longrightarrow>
    tk_friends dot getVec h q ef fs (vis, cand, res) = (vis', cand', res') \<Longrightarrow> max_heap res'"
proof (induction fs arbitrary: vis cand res)
  case (Cons f fs)
  obtain v1 c1 r1 where st: "tk_friend dot getVec h q ef f (vis, cand, res) = (v1, c1, r1)"
    using prod_cases3 by blast
  have "max_heap r1" using Cons.prems by (intro tk_friend_max_heap [OF st _ assms]) auto
  then show ?case using Cons.IH [of r1 v1 c1] Cons.prems st by (simp add: tk_friends_def)
qed (simp add: tk_friends_def)

lemma tk_loop_max_heap:
  assumes "hnsw_base n h" "layer_closed h layer S" "tk_ok dot getVec h q ef S (vis, cand, res)"
    and nan: "numeric dot getVec h q S" and "max_heap res"
  shows "max_heap (tk_loop dot getVec h q layer ef vis cand res)"
proof -
  let ?I = "\<lambda>st. tk_ok dot getVec h q ef S st \<and> max_heap (snd (snd st))"
  have "\<exists>vis' cand'. ?I (vis', cand', tk_loop dot getVec h q layer ef vis cand res) \<and>
      (cand' = [] \<or> ef \<le> length (tk_loop dot getVec h q layer ef vis cand res))"
  proof (rule tk_loop_rule)
    fix vis cand res b cand'
    assume I: "?I (vis, cand, res)" and pop: "srMinHeap_Pop cand = Some (b, cand')"
    obtain v2 c2 r2 where fr: "tk_friends dot getVec h q ef (friends_of h layer (srNode b)) (vis, cand', res) = (v2, c2, r2)"
      using prod_cases3 by blast
    have "srNode b \<in> S" using I set_srMinHeap_Pop [OF pop] by (auto simp: tk_ok_def)
    then have "max_heap r2"
      using assms(2) I by (intro tk_friends_max_heap [OF nan _ _ fr]) (auto simp: layer_closed_def)
    then show "?I (tk_friends dot getVec h q ef (friends_of h layer (srNode b)) (vis, cand', res))"
      using I tk_step_ok [OF assms(1,2) _ pop fr] fr by simp
  qed (use assms in simp)
  then show ?thesis by auto
qed

lemma drain_sorted: "max_heap res \<Longrightarrow> sorted_wrt (\<lambda>x y. f32_le (srD x) (srD y)) (drain res)"
proof (induction res rule: drain.induct)
  case (1 res)
  show ?case
  proof (cases "srMaxHeap_Pop res")
    case None
    then show ?thesis by (subst drain.simps) simp
  next
    case (Some x)
    then obtain m res' where pop: "srMaxHeap_Pop res = Some (m, res')" by (cases x) auto
    note pc = srMaxHeap.pop_correct [OF "1.prems" pop [unfolded srMaxHeap_Pop_def]]
    have "set res' \<subseteq> set res" using pc(2) by (metis set_mset_add_mset_insert set_mset_mset subset_insertI)
    then have "\<forall>x\<in>set (drain res'). f32_le (srD x) (srD m)"
      using pc(3) by (auto simp: set_drain fltcmp)
    then show ?thesis using pop "1.IH" [OF pop refl pc(1)] by (subst drain.simps) (simp add: sorted_wrt_append)
  qed
qed

lemma searchLayerTopK_sorted:
  assumes base: "hnsw_base n h" and S: "layer_closed h layer S" and e: "entry \<in> S" and nan: "numeric dot getVec h q S"
  shows "sorted_wrt (\<lambda>x y. f32_le (srD x) (srD y)) (searchLayerTopK dot getVec h q entry layer ef)"
proof (cases "getVec (nArenaOffset (obj h entry))")
  case None
  then show ?thesis by (simp add: searchLayerTopK_def)
next
  case (Some v)
  let ?s = "\<lparr>srNode = entry, srD = dist dot q v\<rparr>"
  have ok: "tk_ok dot getVec h q ef S ({nArenaOffset (obj h entry)}, [?s], [?s])"
    using e Some by (simp add: tk_ok_def scored_def)
  have "max_heap [?s]" using e Some nan by (auto simp: is_heap_def numeric_def)
  from drain_sorted [OF tk_loop_max_heap [OF base S ok nan this]] Some show ?thesis
    by (simp add: searchLayerTopK_def Let_def)
qed

section \<open>A beam as wide as the graph misses nothing\<close>

text \<open>
  With \<open>length (hObjs h) \<le> ef\<close> no result is ever replaced: every visited node is a
  result, and every result has been expanded or still is a candidate (\<open>b\<close> is being expanded).
\<close>

definition tk_full :: "HNSWIndex \<Rightarrow> nat \<Rightarrow> searchResult option \<Rightarrow> beam \<Rightarrow> bool" where
  "tk_full h layer b st \<longleftrightarrow>
     (case st of (vis, cand, res) \<Rightarrow>
       (\<forall>f\<in>vis. \<forall>p. nodeByOffset h f = Some p \<longrightarrow> p \<in> srNode ` set res) \<and>
       (\<forall>s\<in>set res. s \<in> set cand \<or> b = Some s \<or> set (friends_of h layer (srNode s)) \<subseteq> vis))"

lemma tk_room:
  assumes "tk_ok dot getVec h q ef S (vis, cand, res)" "S \<subseteq> {..<length (hObjs h)}" "length (hObjs h) \<le> ef" "ef \<le> length res"
  shows "srNode ` set res = {..<length (hObjs h)}"
proof (rule card_subset_eq)
  show sub: "srNode ` set res \<subseteq> {..<length (hObjs h)}" using assms(1,2) by (auto simp: tk_ok_def)
  have "card (srNode ` set res) = length res"
    using assms(1) distinct_card [of "map srNode res"] by (simp add: tk_ok_def)
  moreover have "card (srNode ` set res) \<le> length (hObjs h)" using card_mono [OF _ sub] by simp
  ultimately show "card (srNode ` set res) = card {..<length (hObjs h)}" using assms(3,4) by simp
qed simp

lemma tk_full_closed:
  assumes "tk_full h layer None (vis, [], res)" "srNode ` set res \<subseteq> {..<length (hObjs h)}"
  shows "layer_closed h layer (srNode ` set res)"
  unfolding layer_closed_def
proof (intro conjI ballI allI impI)
  fix p f q
  assume "p \<in> srNode ` set res" "f \<in> set (friends_of h layer p)" "nodeByOffset h f = Some q"
  then have "f \<in> vis" using assms(1) by (auto simp: tk_full_def)
  then show "q \<in> srNode ` set res" using assms(1) \<open>nodeByOffset h f = Some q\<close> by (simp add: tk_full_def)
qed (rule assms(2))

lemma tk_friend_full:
  assumes ok: "tk_ok dot getVec h q ef S (vis, cand, res)" and S: "S \<subseteq> {..<length (hObjs h)}"
    and base: "hnsw_base n h" and vec: "vec_ok n getVec" and wide: "length (hObjs h) \<le> ef"
    and full: "tk_full h layer b (vis, cand, res)"
    and st: "tk_friend dot getVec h q ef f (vis, cand, res) = (vis', cand', res')"
  shows "tk_full h layer b (vis', cand', res')" "insert f vis \<subseteq> vis'"
proof -
  have known: "p \<notin> srNode ` set res" if "f \<notin> vis" "nodeByOffset h f = Some p" for p
    using ok hnsw_base_registered [OF base that(2)] that(1) by (auto simp: tk_ok_def)
  have room: "length res < ef" if "f \<notin> vis" "nodeByOffset h f = Some p" for p
    using tk_room [OF ok S wide] known [OF that] hnsw_base_registered(1) [OF base that(2)] by force
  have some: "getVec (nArenaOffset (obj h p)) \<noteq> None" if "nodeByOffset h f = Some p" for p
    using vec hnsw_base_registered [OF base that] by (simp add: vec_ok_def)
  show "tk_full h layer b (vis', cand', res')"
    using st
  proof (cases rule: tk_friend_cases)
    case seen
    then show ?thesis using full by simp
  next
    case skip
    then have "nodeByOffset h f = None" using room some by fastforce
    with skip full show ?thesis by (auto simp: tk_full_def)
  next
    case (push p v)
    then show ?thesis using full by (auto simp: tk_full_def)
  next
    case (repl p v w)
    then show ?thesis using room by fastforce
  qed
  show "insert f vis \<subseteq> vis'" using st by (cases rule: tk_friend_cases) auto
qed

lemma tk_friends_full:
  assumes base: "hnsw_base n h" and vec: "vec_ok n getVec" and wide: "length (hObjs h) \<le> ef"
    and S: "S \<subseteq> {..<length (hObjs h)}"
  shows "tk_ok dot getVec h q ef S (vis, cand, res) \<Longrightarrow> tk_full h layer b (vis, cand, res) \<Longrightarrow>
    \<forall>f\<in>set fs. \<forall>p. nodeByOffset h f = Some p \<longrightarrow> p \<in> S \<Longrightarrow>
    tk_friends dot getVec h q ef fs (vis, cand, res) = (vis', cand', res') \<Longrightarrow>
    tk_full h layer b (vis', cand', res') \<and> vis \<union> set fs \<subseteq> vis'"
proof (induction fs arbitrary: vis cand res)
  case (Cons f fs)
  obtain v1 c1 r1 where st: "tk_friend dot getVec h q ef f (vis, cand, res) = (v1, c1, r1)"
    using prod_cases3 by blast
  have "tk_ok dot getVec h q ef S (v1, c1, r1)"
    using Cons.prems by (intro tk_friend_ok [OF _ base _ st]) auto
  then show ?case
    using Cons.IH [of v1 c1 r1] Cons.prems st tk_friend_full [OF Cons.prems(1) S base vec wide Cons.prems(2) st]
    by (auto simp: tk_friends_def)
qed (simp add: tk_friends_def)

lemma searchLayerTopK_complete:
  assumes base: "hnsw_base n h" and vec: "vec_ok n getVec" and wide: "length (hObjs h) \<le> ef"
    and e: "entry < length (hObjs h)"
  shows "entry \<in> srNode ` set (searchLayerTopK dot getVec h q entry layer ef)"
    "layer_closed h layer (srNode ` set (searchLayerTopK dot getVec h q entry layer ef))"
proof -
  let ?S = "{..<length (hObjs h)}" and ?off = "nArenaOffset (obj h entry)"
  obtain v where v: "getVec ?off = Some v" using vec hnsw_base_obj(2) [OF base e] by (auto simp: vec_ok_def)
  let ?s = "\<lparr>srNode = entry, srD = dist dot q v\<rparr>"
  let ?I = "\<lambda>st. tk_ok dot getVec h q ef ?S st \<and> tk_full h layer None st \<and> ?off \<in> fst st"
  let ?res = "tk_loop dot getVec h q layer ef {?off} [?s] [?s]"
  note S = layer_closed_all [OF base, of layer]
  have "\<exists>vis' cand'. ?I (vis', cand', ?res) \<and> (cand' = [] \<or> ef \<le> length ?res)"
  proof (rule tk_loop_rule)
    show "?I ({?off}, [?s], [?s])"
      using e v hnsw_base_obj(1) [OF base e] by (simp add: tk_ok_def tk_full_def scored_def)
    fix vis cand res b cand'
    assume I: "?I (vis, cand, res)" and pop: "srMinHeap_Pop cand = Some (b, cand')"
    obtain v2 c2 r2 where fr: "tk_friends dot getVec h q ef (friends_of h layer (srNode b)) (vis, cand', res) = (v2, c2, r2)"
      using prod_cases3 by blast
    have "tk_ok dot getVec h q ef ?S (vis, cand', res)" "tk_full h layer (Some b) (vis, cand', res)"
      using I set_srMinHeap_Pop [OF pop] by (auto simp: tk_ok_def tk_full_def)
    then have "tk_full h layer (Some b) (v2, c2, r2) \<and> vis \<union> set (friends_of h layer (srNode b)) \<subseteq> v2"
      using tk_friends_full [OF base vec wide order_refl _ _ _ fr] hnsw_base_registered(1) [OF base] by blast
    moreover have "tk_ok dot getVec h q ef ?S (v2, c2, r2)" using I tk_step_ok [OF base S _ pop fr] by simp
    ultimately show "?I (tk_friends dot getVec h q ef (friends_of h layer (srNode b)) (vis, cand', res))"
      using I fr by (auto simp: tk_full_def)
  qed
  then obtain vis' cand' where I: "?I (vis', cand', ?res)" and fin: "cand' = [] \<or> ef \<le> length ?res" by blast
  have out: "srNode ` set (searchLayerTopK dot getVec h q entry layer ef) = srNode ` set ?res"
    using v by (simp add: searchLayerTopK_def Let_def set_drain)
  show "entry \<in> srNode ` set (searchLayerTopK dot getVec h q entry layer ef)"
    unfolding out using I hnsw_base_obj(1) [OF base e] by (auto simp: tk_full_def)
  show "layer_closed h layer (srNode ` set (searchLayerTopK dot getVec h q entry layer ef))"
  proof (cases "cand' = []")
    case True
    then show ?thesis unfolding out using I by (intro tk_full_closed [of h layer vis']) (auto simp: tk_ok_def)
  next
    case False
    with fin have "srNode ` set ?res = ?S" using I wide by (intro tk_room) auto
    then show ?thesis unfolding out using S by simp
  qed
qed

end
