(* ===== verification/HNSW_Graph.thy ===== *)
theory HNSW_Graph
  imports HNSW_Search
begin

text \<open>
  Construction of the graph of \<open>internal/store/hnsw.go\<close>: \<open>Add\<close> and \<open>MarkDeleted\<close> keep
  the node store consistent, links point to registered nodes, no node has more links on a
  layer than configured, and what \<open>Search\<close> returns are live nodes with their distances.
\<close>

section \<open>Updates that change links only\<close>

definition conns :: "HNSWIndex \<Rightarrow> nat \<Rightarrow> nat list list" where
  "conns h p = nConnections (obj h p)"

definition same_nodes :: "HNSWIndex \<Rightarrow> HNSWIndex \<Rightarrow> bool" where
  "same_nodes h h' \<longleftrightarrow>
     hEntryNodeID h' = hEntryNodeID h \<and> hNodes h' = hNodes h \<and> hNodesByIdx h' = hNodesByIdx h \<and>
     hMaxLayer h' = hMaxLayer h \<and> hCfg h' = hCfg h \<and> hDeleted h' = hDeleted h \<and>
     length (hObjs h') = length (hObjs h) \<and>
     (\<forall>p. nID (obj h' p) = nID (obj h p) \<and> nLayer (obj h' p) = nLayer (obj h p) \<and>
        nArenaOffset (obj h' p) = nArenaOffset (obj h p) \<and> length (conns h' p) = length (conns h p))"

lemma same_nodes_refl [simp]: "same_nodes h h"
  by (simp add: same_nodes_def)

lemma same_nodes_trans: "same_nodes a b \<Longrightarrow> same_nodes b c \<Longrightarrow> same_nodes a c"
  by (simp add: same_nodes_def)

lemma same_nodes_frame:
  assumes "same_nodes h h'"
  shows "hEntryNodeID h' = hEntryNodeID h" "hNodes h' = hNodes h" "nodeByOffset h' = nodeByOffset h"
    "hMaxLayer h' = hMaxLayer h" "hCfg h' = hCfg h" "hDeleted h' = hDeleted h" "isDeleted h' = isDeleted h"
    "length (hObjs h') = length (hObjs h)" "nArenaOffset (obj h' p) = nArenaOffset (obj h p)"
    "nID (obj h' p) = nID (obj h p)" "nLayer (obj h' p) = nLayer (obj h p)" "length (conns h' p) = length (conns h p)"
    "max_conn h' = max_conn h"
  using assms by (auto simp: same_nodes_def fun_eq_iff nodeByOffset_def isDeleted_def max_conn_def)

lemma same_nodes_base: "same_nodes h h' \<Longrightarrow> hnsw_base n h' \<longleftrightarrow> hnsw_base n h"
  using same_nodes_frame [of h h']
  by (simp add: hnsw_base_def hnsw_store_def hnsw_entry_def conns_def)

lemma obj_upd_node:
  "p < length (hObjs h) \<Longrightarrow> obj (upd_node h p f) q = (if q = p then f (obj h p) else obj h q)"
  by (simp add: upd_node_def obj_def nth_list_update)

lemma set_conns_frame [simp]:
  "nID (set_conns l xs m) = nID m" "nLayer (set_conns l xs m) = nLayer m"
  "nArenaOffset (set_conns l xs m) = nArenaOffset m"
  "nConnections (set_conns l xs m) = (nConnections m)[l := xs]"
  by (simp_all add: set_conns_def)

text \<open>Setting the links of node \<open>p\<close> on layer \<open>l\<close>.\<close>

lemma upd_links:
  assumes "p < length (hObjs h)" "h' = upd_node h p (\<lambda>m. set_conns l (F m) m)" "xs = F (obj h p)"
  shows "same_nodes h h'" "conns h' q = (if q = p then (conns h p)[l := xs] else conns h q)"
proof -
  have o: "obj h' q = (if q = p then set_conns l xs (obj h p) else obj h q)" for q
    using obj_upd_node [OF assms(1)] assms(2,3) by simp
  have "hEntryNodeID h' = hEntryNodeID h" "hNodes h' = hNodes h" "hNodesByIdx h' = hNodesByIdx h"
    "hMaxLayer h' = hMaxLayer h" "hCfg h' = hCfg h" "hDeleted h' = hDeleted h" "length (hObjs h') = length (hObjs h)"
    by (simp_all add: assms(2) upd_node_def)
  then show "same_nodes h h'" by (simp add: same_nodes_def conns_def o)
  show "conns h' q = (if q = p then (conns h p)[l := xs] else conns h q)" by (simp add: conns_def o)
qed

lemma set_insert_left: "set (insert_left k xs) = insert k (set xs)"
  by (induction xs) auto

lemma length_insert_left: "length (insert_left k xs) = Suc (length xs)"
  by (induction xs) auto

lemma set_prune_sort: "set (prune_sort xs) = set xs"
proof -
  have "set (foldl (\<lambda>acc k. insert_left k acc) acc xs) = set acc \<union> set xs" for acc
    by (induction xs arbitrary: acc) (auto simp: set_insert_left)
  then show ?thesis by (simp add: prune_sort_def)
qed

lemma prune_items_subset: "fst ` set (prune_items dot getVec h v cs) \<subseteq> set cs"
  by (auto simp: prune_items_def List.map_filter_def split: option.splits if_splits)

lemma pruneConnections_effect:
  assumes "maxConn < length (conns h p ! l)" "getVec (nArenaOffset (obj h p)) = Some v"
  shows "\<exists>xs. pruneConnections dot getVec h p l maxConn = upd_node h p (set_conns l xs) \<and>
    set xs \<subseteq> set (conns h p ! l) \<and> length xs \<le> maxConn"
proof -
  let ?items = "prune_items dot getVec h v (conns h p ! l)"
  define xs where "xs = (if length ?items \<le> maxConn then map fst ?items else map fst (take maxConn (prune_sort ?items)))"
  have "set xs \<subseteq> fst ` set ?items"
    using set_prune_sort [of ?items] set_take_subset [of maxConn "prune_sort ?items"] by (auto simp: xs_def)
  then have "set xs \<subseteq> set (conns h p ! l)" using prune_items_subset by fastforce
  moreover have "length xs \<le> maxConn" by (simp add: xs_def)
  moreover have "pruneConnections dot getVec h p l maxConn = upd_node h p (set_conns l xs)"
    using assms by (simp add: pruneConnections_def Let_def xs_def conns_def)
  ultimately show ?thesis by blast
qed

section \<open>One link\<close>

lemma Add_link_skip:
  "length (conns h (srNode sr)) \<le> l \<Longrightarrow> Add_link dot getVec mc l nn idx sr h = h"
  by (simp add: Add_link_def conns_def)

lemma Add_link_effect:
  assumes base: "hnsw_base n h" and vec: "vec_ok n getVec" and p: "p = srNode sr" "p < length (hObjs h)" "p \<noteq> nn"
    and nn: "nn < length (hObjs h)" "l < length (conns h nn)" and l: "l < length (conns h p)"
    and add: "h' = Add_link dot getVec mc l nn idx sr h"
  shows "same_nodes h h'" "\<And>q l'. l' \<noteq> l \<or> q \<noteq> p \<and> q \<noteq> nn \<Longrightarrow> conns h' q ! l' = conns h q ! l'"
    "conns h' nn ! l = conns h nn ! l @ [nArenaOffset (obj h p)]"
    "set (conns h' p ! l) \<subseteq> insert idx (set (conns h p ! l))" "length (conns h' p ! l) \<le> mc"
    "length (conns h p ! l) < mc \<Longrightarrow> conns h' p ! l = conns h p ! l @ [idx]"
proof -
  define h1 where "h1 = upd_node h nn (\<lambda>m. set_conns l (nConnections m ! l @ [nArenaOffset (obj h p)]) m)"
  define h2 where "h2 = upd_node h1 p (\<lambda>m. set_conns l (nConnections m ! l @ [idx]) m)"
  note u1 = upd_links [OF nn(1) h1_def refl]
  have p1: "p < length (hObjs h1)" using p(2) same_nodes_frame(8) [OF u1(1)] by simp
  note u2 = upd_links [OF p1 h2_def refl]
  have same2: "same_nodes h h2" using u1(1) u2(1) by (rule same_nodes_trans)
  have c1: "conns h1 p = conns h p" using p(3) u1(2) by simp
  have cp: "conns h2 p ! l = conns h p ! l @ [idx]" using u2(2) [of p] c1 l by (simp add: conns_def)
  have cn: "conns h2 nn ! l = conns h nn ! l @ [nArenaOffset (obj h p)]"
    using u2(2) [of nn] u1(2) [of nn] p(3) nn(2) by (simp add: conns_def)
  have co: "conns h2 q ! l' = conns h q ! l'" if "l' \<noteq> l \<or> q \<noteq> p \<and> q \<noteq> nn" for q l'
    using that u2(2) [of q] u1(2) [of q] p(3) c1 by (auto simp: conns_def)
  have h': "h' = (if mc < length (conns h2 p ! l) then pruneConnections dot getVec h2 p l mc else h2)"
    using l unfolding add Add_link_def Let_def p(1) [symmetric] h1_def [symmetric] h2_def [symmetric] conns_def
    by simp
  obtain v where v: "getVec (nArenaOffset (obj h2 p)) = Some v"
    using vec hnsw_base_obj(2) [OF base p(2)] same_nodes_frame(9) [OF same2, of p] by (auto simp: vec_ok_def)
  have p2: "p < length (hObjs h2)" using p(2) same_nodes_frame(8) [OF same2] by simp
  have l2: "l < length (conns h2 p)" using l same_nodes_frame(12) [OF same2, of p] by simp
  have "same_nodes h h' \<and> (\<forall>q l'. l' \<noteq> l \<or> q \<noteq> p \<longrightarrow> conns h' q ! l' = conns h2 q ! l') \<and>
      set (conns h' p ! l) \<subseteq> set (conns h2 p ! l) \<and> length (conns h' p ! l) \<le> mc \<and>
      (length (conns h2 p ! l) \<le> mc \<longrightarrow> conns h' p ! l = conns h2 p ! l)"
  proof (cases "mc < length (conns h2 p ! l)")
    case True
    from pruneConnections_effect [of mc h2 p l getVec v dot, OF True v] obtain xs where xs: "h' = upd_node h2 p (\<lambda>m. set_conns l xs m)"
      "set xs \<subseteq> set (conns h2 p ! l)" "length xs \<le> mc"
      using True h' by auto
    note u3 = upd_links [OF p2 xs(1) refl]
    show ?thesis using True xs u3 same_nodes_trans [OF same2 u3(1)] l2 by (auto simp: u3(2))
  next
    case False
    then show ?thesis using h' same2 by simp
  qed
  then show "same_nodes h h'" "\<And>q l'. l' \<noteq> l \<or> q \<noteq> p \<and> q \<noteq> nn \<Longrightarrow> conns h' q ! l' = conns h q ! l'"
    "conns h' nn ! l = conns h nn ! l @ [nArenaOffset (obj h p)]"
    "set (conns h' p ! l) \<subseteq> insert idx (set (conns h p ! l))" "length (conns h' p ! l) \<le> mc"
    "length (conns h p ! l) < mc \<Longrightarrow> conns h' p ! l = conns h p ! l @ [idx]"
    using co cn cp p(3) by (auto; metis)+
qed

section \<open>The links of a layer\<close>

definition hnsw_edges :: "HNSWIndex \<Rightarrow> bool" where
  "hnsw_edges h \<longleftrightarrow>
     (\<forall>p<length (hObjs h). \<forall>l<length (conns h p).
        (\<forall>f\<in>set (conns h p ! l). nodeByOffset h f \<noteq> None) \<and> length (conns h p ! l) \<le> max 1 (max_conn h l))"

definition hnsw_inv :: "nat \<Rightarrow> HNSWIndex \<Rightarrow> bool" where
  "hnsw_inv n h \<longleftrightarrow> hnsw_base n h \<and> hnsw_edges h"

text \<open>
  While layer \<open>l\<close> is linked: \<open>h0\<close> is the graph before, at most \<open>k\<close> links were given to the
  new node, and the other layers are as they were.
\<close>

definition linking :: "HNSWIndex \<Rightarrow> nat \<Rightarrow> nat \<Rightarrow> nat \<Rightarrow> HNSWIndex \<Rightarrow> bool" where
  "linking h0 l nn k h \<longleftrightarrow>
     same_nodes h0 h \<and> (\<forall>q l'. l' \<noteq> l \<longrightarrow> conns h q ! l' = conns h0 q ! l') \<and>
     (\<forall>p<length (hObjs h0). l < length (conns h0 p) \<longrightarrow>
        (\<forall>f\<in>set (conns h p ! l). nodeByOffset h0 f \<noteq> None) \<and>
        (if p = nn then length (conns h p ! l) \<le> k else length (conns h p ! l) \<le> max 1 (max_conn h0 l)))"

lemma linking_link:
  assumes st: "linking h0 l nn k h" and base: "hnsw_base n h0" and vec: "vec_ok n getVec"
    and nn: "nn < length (hObjs h0)" "l < length (conns h0 nn)" "nodeByOffset h0 idx = Some nn"
    and sr: "srNode sr < length (hObjs h0)" "srNode sr \<noteq> nn"
  shows "linking h0 l nn (Suc k) (Add_link dot getVec (max_conn h0 l) l nn idx sr h)"
proof -
  let ?p = "srNode sr" and ?h = "Add_link dot getVec (max_conn h0 l) l nn idx sr h"
  have same: "same_nodes h0 h" using st by (simp add: linking_def)
  note fr = same_nodes_frame [OF same]
  show ?thesis
  proof (cases "l < length (conns h ?p)")
    case False
    then show ?thesis using st by (auto simp: Add_link_skip linking_def)
  next
    case True
    have base': "hnsw_base n h" using base same_nodes_base [OF same] by simp
    have pre: "srNode sr < length (hObjs h)" "nn < length (hObjs h)" "l < length (conns h nn)"
      using sr nn fr by simp_all
    note ef = Add_link_effect [OF base' vec refl pre(1) sr(2) pre(2,3) True refl, where dot = dot and mc = "max_conn h0 l" and idx = idx]
    have "same_nodes h0 ?h" using same ef(1) by (rule same_nodes_trans)
    moreover have "\<forall>q l'. l' \<noteq> l \<longrightarrow> conns ?h q ! l' = conns h0 q ! l'"
      using ef(2) st by (simp add: linking_def)
    moreover have "(\<forall>f\<in>set (conns ?h p ! l). nodeByOffset h0 f \<noteq> None) \<and>
        (if p = nn then length (conns ?h p ! l) \<le> Suc k else length (conns ?h p ! l) \<le> max 1 (max_conn h0 l))"
      if p: "p < length (hObjs h0)" "l < length (conns h0 p)" for p
    proof -
      have old: "(\<forall>f\<in>set (conns h p ! l). nodeByOffset h0 f \<noteq> None)"
        "if p = nn then length (conns h p ! l) \<le> k else length (conns h p ! l) \<le> max 1 (max_conn h0 l)"
        using st p unfolding linking_def by blast+
      consider "p = ?p" | "p = nn" | "p \<noteq> ?p" "p \<noteq> nn" by blast
      then show ?thesis
      proof cases
        case 1
        then show ?thesis using ef(4,5) old nn(3) sr(2) by fastforce
      next
        case 2
        have "nodeByOffset h0 (nArenaOffset (obj h ?p)) \<noteq> None"
          using hnsw_base_obj(1) [OF base sr(1)] fr(9) by simp
        then show ?thesis using 2 ef(3) old by auto
      next
        case 3
        then show ?thesis using ef(2) [of l p] old by simp
      qed
    qed
    ultimately show ?thesis unfolding linking_def by blast
  qed
qed

lemma linking_fold:
  assumes "hnsw_base n h0" "vec_ok n getVec" "nn < length (hObjs h0)" "l < length (conns h0 nn)" "nodeByOffset h0 idx = Some nn"
  shows "linking h0 l nn k h \<Longrightarrow> \<forall>s\<in>set ns. srNode s < length (hObjs h0) \<and> srNode s \<noteq> nn \<Longrightarrow>
    linking h0 l nn (k + length ns) (fold (Add_link dot getVec (max_conn h0 l) l nn idx) ns h)"
proof (induction ns arbitrary: h k)
  case (Cons s ns)
  have "linking h0 l nn (Suc k) (Add_link dot getVec (max_conn h0 l) l nn idx s h)"
    using Cons.prems by (intro linking_link [OF _ assms]) auto
  then show ?case using Cons.IH [of "Suc k"] Cons.prems by simp
qed simp

text \<open>The new node before the layers below \<open>k\<close> are linked: no links there, in either direction.\<close>

definition unlinked :: "nat \<Rightarrow> nat \<Rightarrow> nat \<Rightarrow> HNSWIndex \<Rightarrow> bool" where
  "unlinked nn idx k h \<longleftrightarrow> nn < length (hObjs h) \<and> nodeByOffset h idx = Some nn \<and>
     (\<forall>l<k. l < length (conns h nn) \<and> conns h nn ! l = [] \<and>
        (\<forall>q<length (hObjs h). l < length (conns h q) \<longrightarrow> idx \<notin> set (conns h q ! l)))"

lemma unlinked_closed:
  assumes "hnsw_base n h" "unlinked nn idx k h" "l < k"
  shows "layer_closed h l ({..<length (hObjs h)} - {nn})"
  unfolding layer_closed_def
proof (intro conjI ballI allI impI)
  fix p f q
  assume p: "p \<in> {..<length (hObjs h)} - {nn}" and f: "f \<in> set (friends_of h l p)" and q: "nodeByOffset h f = Some q"
  have "l < length (conns h p)" "f \<in> set (conns h p ! l)" using f by (auto simp: friends_of_def conns_def split: if_splits)
  then have "f \<noteq> idx" using assms(2,3) p by (auto simp: unlinked_def)
  moreover have "f = idx" if "q = nn"
    using hnsw_base_registered(2) [OF assms(1) q] hnsw_base_registered(2) [OF assms(1), of idx nn] assms(2) that
    by (simp add: unlinked_def)
  ultimately show "q \<in> {..<length (hObjs h)} - {nn}" using hnsw_base_registered(1) [OF assms(1) q] by auto
qed auto

lemma Add_layer_inv:
  assumes inv: "hnsw_inv n h" and vec: "vec_ok n getVec" and u: "unlinked nn idx (Suc l) h"
    and c: "c < length (hObjs h)" "c \<noteq> nn"
    and st: "Add_layer dot getVec v nn idx l (h, c) = (h', c')"
  shows "hnsw_inv n h'" "unlinked nn idx l h'" "c' < length (hObjs h')" "c' \<noteq> nn" "same_nodes h h'"
proof -
  let ?S = "{..<length (hObjs h)} - {nn}"
  let ?ns = "searchLayerTopK dot getVec h v c l (max_conn h l)"
  have base: "hnsw_base n h" and edges: "hnsw_edges h" using inv by (simp_all add: hnsw_inv_def)
  have cS: "c \<in> ?S" using c by simp
  note sound = searchLayerTopK_sound [OF base unlinked_closed [OF base u lessI] cS, of dot getVec v "max_conn h l"]
  have h': "h' = fold (Add_link dot getVec (max_conn h l) l nn idx) ?ns h"
    and c': "c' = (case ?ns of [] \<Rightarrow> c | s # _ \<Rightarrow> srNode s)"
    using st by (auto simp: Add_layer_def Let_def)
  have nn: "nn < length (hObjs h)" "l < length (conns h nn)" "nodeByOffset h idx = Some nn" "conns h nn ! l = []"
    using u by (simp_all add: unlinked_def)
  have "linking h l nn 0 h" using edges nn(4) by (simp add: linking_def hnsw_edges_def)
  then have link: "linking h l nn (length ?ns) h'"
    unfolding h' using linking_fold [OF base vec nn(1-3), of 0 h ?ns dot] sound(1) by fastforce
  show same: "same_nodes h h'" using link by (simp add: linking_def)
  note fr = same_nodes_frame [OF same]
  have other: "conns h' q ! l' = conns h q ! l'" if "l' \<noteq> l" for q l' using link that by (simp add: linking_def)
  have "hnsw_edges h'"
    unfolding hnsw_edges_def
  proof (intro allI impI)
    fix p l'
    assume p: "p < length (hObjs h')" "l' < length (conns h' p)"
    show "(\<forall>f\<in>set (conns h' p ! l'). nodeByOffset h' f \<noteq> None) \<and> length (conns h' p ! l') \<le> max 1 (max_conn h' l')"
    proof (cases "l' = l")
      case True
      then show ?thesis using link p fr sound(3) by (auto simp: linking_def split: if_splits)
    next
      case False
      then show ?thesis using edges p fr other [OF False, of p] by (simp add: hnsw_edges_def)
    qed
  qed
  then show "hnsw_inv n h'" using base same_nodes_base [OF same] by (simp add: hnsw_inv_def)
  show "unlinked nn idx l h'" using u fr other by (simp add: unlinked_def)
  have "c' \<in> ?S" unfolding c' using cS sound(1) by (cases ?ns) auto
  then show "c' < length (hObjs h')" "c' \<noteq> nn" using fr by auto
qed

lemma Add_layers_inv:
  assumes "vec_ok n getVec"
  shows "hnsw_inv n h \<Longrightarrow> unlinked nn idx k h \<Longrightarrow> c < length (hObjs h) \<Longrightarrow> c \<noteq> nn \<Longrightarrow>
    fold (Add_layer dot getVec v nn idx) (rev [0..<k]) (h, c) = (h', c') \<Longrightarrow> hnsw_inv n h' \<and> same_nodes h h'"
proof (induction k arbitrary: h c)
  case (Suc k)
  obtain h1 c1 where st: "Add_layer dot getVec v nn idx k (h, c) = (h1, c1)" by fastforce
  note a = Add_layer_inv [OF Suc.prems(1) assms Suc.prems(2,3,4) st]
  show ?case
    using Suc.IH [OF a(1-4)] Suc.prems(5) st same_nodes_trans [OF a(5)] by simp
qed simp

section \<open>Registration and removal\<close>

lemma nodeByOffset_register:
  assumes "nArenaOffset (obj h p) = idx"
  shows "nodeByOffset (registerNode h p) i = (if i = idx then Some p else nodeByOffset h i)"
  using assms
  by (auto simp: nodeByOffset_def registerNode_def Let_def nth_append nth_list_update)

lemma registerNode_frame [simp]:
  "hEntryNodeID (registerNode h p) = hEntryNodeID h" "hNodes (registerNode h p) = hNodes h"
  "hMaxLayer (registerNode h p) = hMaxLayer h" "hCfg (registerNode h p) = hCfg h"
  "hDeleted (registerNode h p) = hDeleted h" "hObjs (registerNode h p) = hObjs h"
  by (simp_all add: registerNode_def Let_def)

definition new_node :: "string \<Rightarrow> nat \<Rightarrow> nat \<Rightarrow> HNSWNode" where
  "new_node i idx level = \<lparr>nID = i, nLayer = level, nConnections = replicate (level + 1) [], nArenaOffset = idx\<rparr>"

lemma Add_register_frame:
  shows "hEntryNodeID (Add_register h i idx level) = hEntryNodeID h" "hMaxLayer (Add_register h i idx level) = hMaxLayer h"
    "hCfg (Add_register h i idx level) = hCfg h" "hDeleted (Add_register h i idx level) = hDeleted h"
    "hNodes (Add_register h i idx level) = (hNodes h)(i \<mapsto> length (hObjs h))"
    "length (hObjs (Add_register h i idx level)) = Suc (length (hObjs h))"
    "p \<le> length (hObjs h) \<Longrightarrow>
       obj (Add_register h i idx level) p = (if p = length (hObjs h) then new_node i idx level else obj h p)"
    "nodeByOffset (Add_register h i idx level) j = (if j = idx then Some (length (hObjs h)) else nodeByOffset h j)"
proof -
  let ?node = "new_node i idx level" and ?nn = "length (hObjs h)"
  let ?h1 = "h\<lparr>hObjs := hObjs h @ [?node], hNodes := (hNodes h)(i \<mapsto> ?nn)\<rparr>"
  have eq: "Add_register h i idx level = registerNode ?h1 ?nn" by (simp add: Add_register_def new_node_def Let_def)
  have off: "nArenaOffset (obj ?h1 ?nn) = idx" by (simp add: obj_def new_node_def)
  show "hEntryNodeID (Add_register h i idx level) = hEntryNodeID h" "hMaxLayer (Add_register h i idx level) = hMaxLayer h"
    "hCfg (Add_register h i idx level) = hCfg h" "hDeleted (Add_register h i idx level) = hDeleted h"
    "hNodes (Add_register h i idx level) = (hNodes h)(i \<mapsto> length (hObjs h))"
    "length (hObjs (Add_register h i idx level)) = Suc (length (hObjs h))"
    by (simp_all add: eq)
  show "obj (Add_register h i idx level) p = (if p = length (hObjs h) then new_node i idx level else obj h p)"
    if "p \<le> length (hObjs h)" using that by (auto simp: eq obj_def nth_append)
  show "nodeByOffset (Add_register h i idx level) j = (if j = idx then Some (length (hObjs h)) else nodeByOffset h j)"
    unfolding eq nodeByOffset_register [OF off] by (simp add: nodeByOffset_def)
qed

lemma Add_register_store:
  assumes st: "hnsw_store n h" and new: "hNodes h i = None" "nodeByOffset h idx = None" "i \<noteq> []" "idx < n"
  shows "hnsw_store n (Add_register h i idx level)"
proof -
  let ?h = "Add_register h i idx level" and ?nn = "length (hObjs h)"
  note fr = Add_register_frame [where h = h and i = i and idx = idx and level = level]
  have dl: "isDeleted ?h = isDeleted h" by (simp add: fun_eq_iff isDeleted_def fr(4))
  have old: "p < ?nn \<Longrightarrow> nodeByOffset h (nArenaOffset (obj h p)) = Some p \<and> nArenaOffset (obj h p) < n \<and>
        nID (obj h p) \<noteq> [] \<and> length (nConnections (obj h p)) = nLayer (obj h p) + 1 \<and>
        (\<not> isDeleted h (nArenaOffset (obj h p)) \<longrightarrow> hNodes h (nID (obj h p)) = Some p)"
    "nodeByOffset h j = Some p \<Longrightarrow> p < ?nn \<and> nArenaOffset (obj h p) = j"
    "hNodes h k = Some p \<Longrightarrow> p < ?nn \<and> nID (obj h p) = k" for p j k
    using st unfolding hnsw_store_def by blast+
  show ?thesis
    unfolding hnsw_store_def
  proof (intro conjI allI impI)
    fix j p
    assume "nodeByOffset ?h j = Some p"
    then show "p < length (hObjs ?h)" "nArenaOffset (obj ?h p) = j"
      using old(2) [of j p] by (auto simp: fr new_node_def split: if_splits)
  next
    fix k p
    assume "hNodes ?h k = Some p"
    then show "p < length (hObjs ?h)" "nID (obj ?h p) = k"
      using old(3) [of k p] by (auto simp: fr new_node_def split: if_splits)
  next
    fix p
    assume "p < length (hObjs ?h)"
    then have p: "p = ?nn \<or> p < ?nn" by (auto simp: fr)
    then have o: "obj ?h p = (if p = ?nn then new_node i idx level else obj h p)" by (auto simp: fr(7))
    show "nodeByOffset ?h (nArenaOffset (obj ?h p)) = Some p" "nArenaOffset (obj ?h p) < n" "nID (obj ?h p) \<noteq> []"
      "length (nConnections (obj ?h p)) = nLayer (obj ?h p) + 1"
      using p old(1) [of p] new by (auto simp: o fr(8) new_node_def)
    show "hNodes ?h (nID (obj ?h p)) = Some p" if "\<not> isDeleted ?h (nArenaOffset (obj ?h p))"
      using p old(1) [of p] new that by (auto simp: o fr(5) dl new_node_def split: if_splits)
  qed
qed

lemma refresh_scan_result:
  "refresh_scan h e ns = r \<Longrightarrow>
   (r = None \<longrightarrow> e = None \<and> (\<forall>p. Some p \<in> set ns \<longrightarrow> isDeleted h (nArenaOffset (obj h p)))) \<and>
   (\<forall>p. r = Some p \<longrightarrow> e = Some p \<or> Some p \<in> set ns \<and> \<not> isDeleted h (nArenaOffset (obj h p)))"
proof (induction ns arbitrary: e)
  case (Cons x ns)
  show ?case
  proof (cases x)
    case None
    then show ?thesis using Cons.IH [of e] Cons.prems by auto
  next
    case (Some p)
    let ?e = "case e of None \<Rightarrow> Some p | Some e' \<Rightarrow> if nLayer (obj h e') < nLayer (obj h p) then Some p else e"
    show ?thesis
    proof (cases "isDeleted h (nArenaOffset (obj h p))")
      case True
      then show ?thesis using Cons.IH [of e] Cons.prems Some by auto
    next
      case False
      then have "refresh_scan h ?e ns = r" using Cons.prems Some by (cases e) auto
      moreover have "?e = Some p \<or> ?e = e \<and> e \<noteq> None" by (simp split: option.split)
      ultimately show ?thesis using Cons.IH [of ?e] False Some by auto
    qed
  qed
qed simp

lemma nodeByOffset_in_set: "nodeByOffset h i = Some p \<Longrightarrow> Some p \<in> set (hNodesByIdx h)"
  by (auto simp: nodeByOffset_def split: if_splits) (metis nth_mem)

lemma set_nodeByOffset: "Some p \<in> set (hNodesByIdx h) \<Longrightarrow> \<exists>i. nodeByOffset h i = Some p"
  by (metis in_set_conv_nth nodeByOffset_def)

lemma refresh_entry:
  assumes st: "hnsw_store n h"
  shows "hnsw_store n (refreshEntryNodeLocked h)" "hnsw_entry (refreshEntryNodeLocked h)"
    "hNodes (refreshEntryNodeLocked h) = hNodes h" "hObjs (refreshEntryNodeLocked h) = hObjs h"
    "nodeByOffset (refreshEntryNodeLocked h) = nodeByOffset h" "hCfg (refreshEntryNodeLocked h) = hCfg h"
    "hDeleted (refreshEntryNodeLocked h) = hDeleted h"
proof -
  let ?h = "refreshEntryNodeLocked h"
  show fr: "hNodes ?h = hNodes h" "hObjs ?h = hObjs h" "nodeByOffset ?h = nodeByOffset h" "hCfg ?h = hCfg h"
    "hDeleted ?h = hDeleted h"
    by (auto simp: refreshEntryNodeLocked_def nodeByOffset_def fun_eq_iff split: option.split)
  have o: "obj ?h = obj h" "isDeleted ?h = isDeleted h" by (auto simp: obj_def isDeleted_def fun_eq_iff fr)
  show "hnsw_store n ?h" using st by (simp add: hnsw_store_def fr o)
  show "hnsw_entry ?h"
  proof (cases "refresh_scan h None (hNodesByIdx h)")
    case None
    have "isDeleted h (nArenaOffset (obj h p))" if "p < length (hObjs h)" for p
      using refresh_scan_result [OF None] nodeByOffset_in_set that st unfolding hnsw_store_def by blast
    then show ?thesis using None by (simp add: hnsw_entry_def fr o) (simp add: refreshEntryNodeLocked_def)
  next
    case (Some e)
    have e: "Some e \<in> set (hNodesByIdx h)" "\<not> isDeleted h (nArenaOffset (obj h e))"
      using refresh_scan_result [OF Some] by auto
    obtain i where "nodeByOffset h i = Some e" using set_nodeByOffset [OF e(1)] by blast
    then have "e < length (hObjs h)" using st unfolding hnsw_store_def by blast
    then have "hNodes h (nID (obj h e)) = Some e" "nID (obj h e) \<noteq> []"
      using st e(2) unfolding hnsw_store_def by blast+
    then show ?thesis using Some by (simp add: hnsw_entry_def fr o) (simp add: refreshEntryNodeLocked_def)
  qed
qed

lemma Add_unlink_inv:
  assumes inv: "hnsw_inv n h" and dead: "\<forall>p. hNodes h i = Some p \<longrightarrow> isDeleted h (nArenaOffset (obj h p))"
  shows "hnsw_inv n (Add_unlink h i)" "hNodes (Add_unlink h i) i = None" "nodeByOffset (Add_unlink h i) = nodeByOffset h"
    "hObjs (Add_unlink h i) = hObjs h" "hDeleted (Add_unlink h i) = hDeleted h"
proof -
  let ?h = "Add_unlink h i" and ?h1 = "h\<lparr>hNodes := (hNodes h)(i := None)\<rparr>"
  have st: "hnsw_store n h" and en: "hnsw_entry h" and ed: "hnsw_edges h"
    using inv by (simp_all add: hnsw_inv_def hnsw_base_def)
  have fr1: "obj ?h1 = obj h" "nodeByOffset ?h1 = nodeByOffset h" "isDeleted ?h1 = isDeleted h"
    by (simp_all add: fun_eq_iff obj_def nodeByOffset_def isDeleted_def)
  have alive: "\<not> isDeleted h (nArenaOffset (obj h p)) \<Longrightarrow> p < length (hObjs h) \<Longrightarrow> nID (obj h p) \<noteq> i" for p
    using st dead unfolding hnsw_store_def by blast
  have st1: "hnsw_store n ?h1"
    using st alive unfolding hnsw_store_def by (simp add: fr1)
  note rf = refresh_entry [OF st1]
  show nb: "nodeByOffset ?h = nodeByOffset h" and ob: "hObjs ?h = hObjs h" and "hDeleted ?h = hDeleted h"
    using rf fr1 by (simp_all add: Add_unlink_def Let_def split: option.split)
  show "hNodes ?h i = None" using rf(3) by (simp add: Add_unlink_def Let_def split: option.split)
  have base: "hnsw_base n ?h"
  proof (cases "hNodes h i = None \<or> hEntryNodeID h = i")
    case True
    then show ?thesis using st en rf(1,2) by (auto simp: Add_unlink_def hnsw_base_def split: option.split)
  next
    case False
    then have "?h = ?h1" by (auto simp: Add_unlink_def Let_def)
    moreover have "hnsw_entry ?h1" using en False by (simp add: hnsw_entry_def fr1)
    ultimately show ?thesis using st1 by (simp add: hnsw_base_def)
  qed
  have "hCfg ?h = hCfg h" using rf(6) by (simp add: Add_unlink_def Let_def split: option.split)
  then have "max_conn ?h = max_conn h" "conns ?h = conns h"
    using ob by (simp_all add: fun_eq_iff max_conn_def conns_def obj_def)
  then have "hnsw_edges ?h" using ed by (simp add: hnsw_edges_def nb ob)
  then show "hnsw_inv n ?h" using base by (simp add: hnsw_inv_def)
qed

lemma conns_register:
  "p \<le> length (hObjs h) \<Longrightarrow>
   conns (Add_register h i idx level) p = (if p = length (hObjs h) then replicate (level + 1) [] else conns h p)"
  by (simp add: conns_def Add_register_frame new_node_def)

lemma conns_register_new:
  "length (conns (Add_register h i idx level) (length (hObjs h))) = level + 1"
  "l < level + 1 \<Longrightarrow> conns (Add_register h i idx level) (length (hObjs h)) ! l = []"
  unfolding conns_register [OF order_refl] by (simp_all del: replicate.simps)

lemma conns_register_old:
  "p < length (hObjs h) \<Longrightarrow> conns (Add_register h i idx level) p = conns h p"
  by (simp add: conns_register)

lemma Add_register_edges:
  assumes "hnsw_edges h"
  shows "hnsw_edges (Add_register h i idx level)"
  unfolding hnsw_edges_def
proof (intro allI impI)
  let ?h = "Add_register h i idx level"
  fix p l
  assume p: "p < length (hObjs ?h)" and l: "l < length (conns ?h p)"
  have m: "max_conn ?h l = max_conn h l" by (simp add: max_conn_def Add_register_frame)
  show "(\<forall>f\<in>set (conns ?h p ! l). nodeByOffset ?h f \<noteq> None) \<and> length (conns ?h p ! l) \<le> max 1 (max_conn ?h l)"
  proof (cases "p = length (hObjs h)")
    case True
    then have "conns ?h p ! l = []" using l conns_register_new by simp
    then show ?thesis by simp
  next
    case False
    then have "conns ?h p = conns h p" "p < length (hObjs h)"
      using p by (simp_all add: Add_register_frame conns_register_old)
    then show ?thesis using assms l m by (auto simp: hnsw_edges_def Add_register_frame)
  qed
qed

lemma Add_register_unlinked:
  assumes "hnsw_edges h" "nodeByOffset h idx = None" "k \<le> level + 1"
  shows "unlinked (length (hObjs h)) idx k (Add_register h i idx level)"
proof -
  have "idx \<notin> set (conns (Add_register h i idx level) q ! l)"
    if "q \<le> length (hObjs h)" "l < length (conns (Add_register h i idx level) q)" for q l
  proof (cases "q = length (hObjs h)")
    case True
    then show ?thesis using that conns_register_new by simp
  next
    case False
    then have "conns (Add_register h i idx level) q = conns h q" "q < length (hObjs h)"
      using that by (simp_all add: conns_register_old)
    then show ?thesis using that assms(1,2) unfolding hnsw_edges_def by metis
  qed
  then show ?thesis
    using assms(3) by (simp add: unlinked_def Add_register_frame conns_register_new)
qed

lemma Add_connect_inv:
  assumes inv: "hnsw_inv n h" and vec: "vec_ok n getVec" and u: "unlinked nn idx (level + 1) h"
    and c: "c < length (hObjs h)" "c \<noteq> nn"
    and top: "\<forall>l. \<forall>q<length (hObjs h). level < l \<longrightarrow> l < length (conns h q) \<longrightarrow> idx \<notin> set (conns h q ! l)"
  shows "hnsw_inv n (Add_connect dot getVec v nn idx level mx c h)" "same_nodes h (Add_connect dot getVec v nn idx level mx c h)"
proof -
  let ?S = "{..<length (hObjs h)} - {nn}" and ?h = "Add_connect dot getVec v nn idx level mx c h"
  have base: "hnsw_base n h" using inv by (simp add: hnsw_inv_def)
  have u': "unlinked nn idx k h" if "k \<le> level + 1" for k using u that by (simp add: unlinked_def)
  have cl: "layer_closed h l ?S" if "level < l" for l
    unfolding layer_closed_def
  proof (intro conjI ballI allI impI)
    fix p f q
    assume p: "p \<in> ?S" and f: "f \<in> set (friends_of h l p)" and q: "nodeByOffset h f = Some q"
    have "f \<noteq> idx" using f p top that by (auto simp: friends_of_def conns_def split: if_splits)
    moreover have "f = idx" if "q = nn"
      using hnsw_base_registered(2) [OF base q] hnsw_base_registered(2) [OF base, of idx nn] u that
      by (simp add: unlinked_def)
    ultimately show "q \<in> ?S" using hnsw_base_registered(1) [OF base q] by auto
  qed auto
  let ?c = "foldl (\<lambda>c l. searchLayer dot getVec h v c l) c (rev [level + 1..<nat (mx + 1)])"
  have c1: "?c \<in> ?S" using c cl by (intro descend_in) auto
  define k where "k = nat ((if mx < int level then mx else int level) + 1)"
  have k: "k \<le> level + 1" by (auto simp: k_def)
  obtain h' c' where st: "fold (Add_layer dot getVec v nn idx) (rev [0..<k]) (h, ?c) = (h', c')" by fastforce
  have r: "hnsw_inv n h' \<and> same_nodes h h'"
    using Add_layers_inv [OF vec inv u' [OF k] _ _ st] c1 by simp
  have "?h = (case getVec (nArenaOffset (obj h c)) of None \<Rightarrow> h | Some _ \<Rightarrow>
      fst (fold (Add_layer dot getVec v nn idx) (rev [0..<k]) (h, ?c)))"
    unfolding Add_connect_def Let_def k_def ..
  then have "?h = h \<or> ?h = h'" by (simp only: st fst_conv split: option.split) blast
  then show "hnsw_inv n ?h" "same_nodes h ?h" using r inv by auto
qed

section \<open>The operations keep the invariant\<close>

lemma hnsw_inv_new: "hnsw_inv n (NewHNSWIndex cfg)"
  by (simp add: hnsw_inv_def hnsw_base_def hnsw_store_def hnsw_entry_def hnsw_edges_def NewHNSWIndex_def nodeByOffset_def)

lemma hnsw_inv_mono: "hnsw_inv n h \<Longrightarrow> n \<le> n' \<Longrightarrow> hnsw_inv n' h"
  unfolding hnsw_inv_def hnsw_base_def hnsw_store_def by (meson order_less_le_trans)

lemma MarkDeleted_inv: "hnsw_inv n h \<Longrightarrow> hnsw_inv n (MarkDeleted h off)"
proof -
  assume inv: "hnsw_inv n h"
  let ?h = "MarkDeleted h off"
  have fr: "nodeByOffset ?h = nodeByOffset h" "obj ?h = obj h" "hObjs ?h = hObjs h" "hNodes ?h = hNodes h"
    "hEntryNodeID ?h = hEntryNodeID h" "hMaxLayer ?h = hMaxLayer h" "conns ?h = conns h" "max_conn ?h = max_conn h"
    by (simp_all add: fun_eq_iff MarkDeleted_def nodeByOffset_def obj_def conns_def max_conn_def)
  have d: "isDeleted h x \<Longrightarrow> isDeleted ?h x" for x by (simp add: isDeleted_def MarkDeleted_def)
  have "hnsw_store n ?h" using inv d unfolding hnsw_inv_def hnsw_base_def hnsw_store_def fr by meson
  moreover have "hnsw_entry ?h"
    using inv d unfolding hnsw_inv_def hnsw_base_def hnsw_entry_def fr by (auto split: if_splits)
  moreover have "hnsw_edges ?h" using inv by (simp add: hnsw_inv_def hnsw_edges_def fr)
  ultimately show ?thesis by (simp add: hnsw_inv_def hnsw_base_def)
qed

lemma hnsw_inv_promote:
  assumes "hnsw_store n h" "hnsw_edges h" "hNodes h i = Some p" "nLayer (obj h p) = level" "i \<noteq> []"
  shows "hnsw_inv n (h\<lparr>hMaxLayer := int level, hEntryNodeID := i\<rparr>)"
proof -
  let ?h = "h\<lparr>hMaxLayer := int level, hEntryNodeID := i\<rparr>"
  have "nodeByOffset ?h = nodeByOffset h" "obj ?h = obj h" "isDeleted ?h = isDeleted h" "conns ?h = conns h" "max_conn ?h = max_conn h"
    by (simp_all add: fun_eq_iff nodeByOffset_def obj_def isDeleted_def conns_def max_conn_def)
  with assms show ?thesis by (simp add: hnsw_inv_def hnsw_base_def hnsw_store_def hnsw_entry_def hnsw_edges_def)
qed

definition hnsw_live :: "HNSWIndex \<Rightarrow> string \<Rightarrow> bool" where
  "hnsw_live h i \<longleftrightarrow> (\<exists>p. hNodes h i = Some p \<and> \<not> isDeleted h (nArenaOffset (obj h p)))"

lemma HNSW_Add_live: "hnsw_live h i \<Longrightarrow> HNSW_Add dot getVec level h v i idx = h"
  by (auto simp: HNSW_Add_def hnsw_live_def)

text \<open>
  What \<open>Add\<close> does to the registered nodes: there is one new node, the others keep offset
  and id, and only links, the entry and the top layer change besides.
\<close>

definition registered_as :: "HNSWIndex \<Rightarrow> string \<Rightarrow> nat \<Rightarrow> nat \<Rightarrow> HNSWIndex \<Rightarrow> bool" where
  "registered_as h i idx level h' \<longleftrightarrow>
     hNodes h' = (hNodes h)(i \<mapsto> length (hObjs h)) \<and> length (hObjs h') = Suc (length (hObjs h)) \<and>
     hDeleted h' = hDeleted h \<and>
     (\<forall>j. nodeByOffset h' j = (if j = idx then Some (length (hObjs h)) else nodeByOffset h j)) \<and>
     (\<forall>p<length (hObjs h). nID (obj h' p) = nID (obj h p) \<and> nArenaOffset (obj h' p) = nArenaOffset (obj h p)) \<and>
     nID (obj h' (length (hObjs h))) = i \<and> nArenaOffset (obj h' (length (hObjs h))) = idx"

lemma registered_as_register: "registered_as h i idx level (Add_register h i idx level)"
  by (simp add: registered_as_def Add_register_frame new_node_def)

lemma registered_as_same: "registered_as h i idx level h1 \<Longrightarrow> same_nodes h1 h2 \<Longrightarrow> registered_as h i idx level h2"
  using same_nodes_frame [of h1 h2] by (simp add: registered_as_def)

lemma registered_as_promote:
  "registered_as h i idx level h1 \<Longrightarrow> registered_as h i idx level (h1\<lparr>hMaxLayer := m, hEntryNodeID := e\<rparr>)"
proof -
  let ?h = "h1\<lparr>hMaxLayer := m, hEntryNodeID := e\<rparr>"
  have "nodeByOffset ?h = nodeByOffset h1" "obj ?h = obj h1" by (simp_all add: fun_eq_iff nodeByOffset_def obj_def)
  then show "registered_as h i idx level h1 \<Longrightarrow> registered_as h i idx level ?h" by (simp add: registered_as_def)
qed

lemma HNSW_Add_new:
  assumes inv: "hnsw_inv n h" and vec: "vec_ok n getVec" and new: "nodeByOffset h idx = None" "i \<noteq> []" "idx < n"
    and False: "\<not> hnsw_live h i"
  shows "hnsw_inv n (HNSW_Add dot getVec level h v i idx)"
    "registered_as h i idx level (HNSW_Add dot getVec level h v i idx)"
proof -
  let ?h1 = "Add_unlink h i"
  let ?h2 = "Add_register ?h1 i idx level"
  note un = Add_unlink_inv [OF inv, of i]
  have dead: "\<forall>p. hNodes h i = Some p \<longrightarrow> isDeleted h (nArenaOffset (obj h p))" using False by (auto simp: hnsw_live_def)
  have inv1: "hnsw_inv n ?h1" and none: "hNodes ?h1 i = None" "nodeByOffset ?h1 idx = None"
    using un [OF dead] new by simp_all
  have st1: "hnsw_store n ?h1" and en1: "hnsw_entry ?h1" and ed1: "hnsw_edges ?h1"
    using inv1 by (simp_all add: hnsw_inv_def hnsw_base_def)
  have st2: "hnsw_store n ?h2" using st1 none new(2,3) by (rule Add_register_store)
  have ed2: "hnsw_edges ?h2" using ed1 by (rule Add_register_edges)
  have add: "HNSW_Add dot getVec level h v i idx =
      (if hEntryNodeID ?h1 = [] then ?h2\<lparr>hEntryNodeID := i, hMaxLayer := int level\<rparr>
       else case hNodes ?h1 (hEntryNodeID ?h1) of None \<Rightarrow> ?h2
         | Some c \<Rightarrow>
            let h3 = Add_connect dot getVec v (length (hObjs ?h1)) idx level (hMaxLayer ?h1) c ?h2
            in if hMaxLayer h3 < int level then h3\<lparr>hMaxLayer := int level, hEntryNodeID := i\<rparr> else h3)"
    using False unfolding HNSW_Add_def hnsw_live_def by (auto simp: Let_def split: option.split)
  have reg: "registered_as h i idx level h'" if "registered_as ?h1 i idx level h'" for h'
  proof -
    have "obj ?h1 = obj h" using un(4) [OF dead] by (simp add: fun_eq_iff obj_def)
    moreover have "(hNodes ?h1)(i \<mapsto> x) = (hNodes h)(i \<mapsto> x)" for x
      using refresh_entry(3) [of n "h\<lparr>hNodes := (hNodes h)(i := None)\<rparr>"]
      by (auto simp: Add_unlink_def Let_def refreshEntryNodeLocked_def split: option.split)
    ultimately show ?thesis using that un(3-5) [OF dead] by (simp add: registered_as_def)
  qed
  have nn: "hNodes ?h2 i = Some (length (hObjs ?h1))" "nLayer (obj ?h2 (length (hObjs ?h1))) = level"
    by (simp_all add: Add_register_frame new_node_def)
  have "hnsw_inv n (HNSW_Add dot getVec level h v i idx) \<and> registered_as ?h1 i idx level (HNSW_Add dot getVec level h v i idx)"
  proof (cases "hEntryNodeID ?h1 = []")
    case True
    have "?h2\<lparr>hEntryNodeID := i, hMaxLayer := int level\<rparr> = ?h2\<lparr>hMaxLayer := int level, hEntryNodeID := i\<rparr>" by simp
    then show ?thesis
      using True add hnsw_inv_promote [OF st2 ed2 nn new(2)] registered_as_promote [OF registered_as_register]
      by (simp only: if_True simp_thms)
  next
    case False
    then obtain c where c: "hNodes ?h1 (hEntryNodeID ?h1) = Some c" "hMaxLayer ?h1 = int (nLayer (obj ?h1 c))"
      using en1 by (auto simp: hnsw_entry_def)
    have c_in: "c < length (hObjs ?h1)" using hnsw_base_nodes c(1) inv1 by (auto simp: hnsw_inv_def)
    have "hEntryNodeID ?h1 \<noteq> i" using c(1) none by auto
    then have "hnsw_entry ?h2" using False c c_in by (simp add: hnsw_entry_def Add_register_frame)
    then have inv2: "hnsw_inv n ?h2" using st2 ed2 by (simp add: hnsw_inv_def hnsw_base_def)
    have u: "unlinked (length (hObjs ?h1)) idx k ?h2" if "k \<le> level + 1" for k
      using Add_register_unlinked [OF ed1 none(2) that] .
    let ?h3 = "Add_connect dot getVec v (length (hObjs ?h1)) idx level (hMaxLayer ?h1) c ?h2"
    have top: "\<forall>l. \<forall>q<length (hObjs ?h2). level < l \<longrightarrow> l < length (conns ?h2 q) \<longrightarrow> idx \<notin> set (conns ?h2 q ! l)"
    proof (intro allI impI)
      fix l q
      assume q: "q < length (hObjs ?h2)" "level < l" "l < length (conns ?h2 q)"
      then have "q \<noteq> length (hObjs ?h1)" using conns_register_new(1) by auto
      then have "q < length (hObjs ?h1)" "conns ?h2 q = conns ?h1 q"
        using q by (simp_all add: Add_register_frame conns_register_old)
      then show "idx \<notin> set (conns ?h2 q ! l)" using ed1 none(2) q(3) unfolding hnsw_edges_def by metis
    qed
    have c2: "c < length (hObjs ?h2)" "c \<noteq> length (hObjs ?h1)" using c_in by (simp_all add: Add_register_frame)
    note con = Add_connect_inv [OF inv2 vec u [OF order_refl] c2 top, of dot v "hMaxLayer ?h1"]
    have "hNodes ?h3 i = Some (length (hObjs ?h1))" "nLayer (obj ?h3 (length (hObjs ?h1))) = level"
      using nn same_nodes_frame [OF con(2)] by simp_all
    then have "hnsw_inv n (?h3\<lparr>hMaxLayer := int level, hEntryNodeID := i\<rparr>)"
      using con(1) new(2) by (intro hnsw_inv_promote) (auto simp: hnsw_inv_def hnsw_base_def)
    moreover have "registered_as ?h1 i idx level ?h3" using registered_as_register con(2) by (rule registered_as_same)
    ultimately show ?thesis using add False c(1) con(1) registered_as_promote by (simp add: Let_def)
  qed
  then show "hnsw_inv n (HNSW_Add dot getVec level h v i idx)"
    "registered_as h i idx level (HNSW_Add dot getVec level h v i idx)" using reg by blast+
qed

lemma HNSW_Add_inv:
  "hnsw_inv n h \<Longrightarrow> vec_ok n getVec \<Longrightarrow> nodeByOffset h idx = None \<Longrightarrow> i \<noteq> [] \<Longrightarrow> idx < n \<Longrightarrow>
   hnsw_inv n (HNSW_Add dot getVec level h v i idx)"
  using HNSW_Add_new(1) HNSW_Add_live by (cases "hnsw_live h i") auto

section \<open>What a search returns\<close>

text \<open>The beam that \<open>Search\<close> starts on layer 0, before it is cut to \<open>k\<close> and filtered.\<close>

definition search_beam :: "dot_fn \<Rightarrow> vec_fn \<Rightarrow> HNSWIndex \<Rightarrow> vec \<Rightarrow> nat \<Rightarrow> nat \<Rightarrow> searchResult list" where
  "search_beam dot getVec h query k entry =
     searchLayerTopK dot getVec h (normalizeVec query)
       (foldl (\<lambda>c l. searchLayer dot getVec h (normalizeVec query) c l) entry (rev [1..<nat (hMaxLayer h + 1)])) 0
       (max (k * cfgEfSearchMult (hCfg h)) (cfgEfSearchMin (hCfg h)))"

definition record_of :: "HNSWIndex \<Rightarrow> searchResult \<Rightarrow> VectroRecord" where
  "record_of h sr = \<lparr>vrID = nID (obj h (srNode sr)), vrScore = f32_sub f32_one (srD sr), vrData = ''{}''\<rparr>"

lemma HNSW_Search_eq:
  assumes "query \<noteq> []" "hEntryNodeID h \<noteq> []" "hNodes h (hEntryNodeID h) = Some entry"
  shows "HNSW_Search dot getVec h query k =
    map (record_of h) (filter (\<lambda>sr. \<not> isDeleted h (nArenaOffset (obj h (srNode sr)))) (take k (search_beam dot getVec h query k entry)))"
  using assms by (simp add: HNSW_Search_def search_beam_def record_of_def [abs_def] Let_def)

lemma HNSW_Search_cases:
  assumes "hnsw_inv n h"
  obtains "HNSW_Search dot getVec h query k = []"
    | entry where "hNodes h (hEntryNodeID h) = Some entry" "entry < length (hObjs h)"
      "HNSW_Search dot getVec h query k = map (record_of h)
         (filter (\<lambda>sr. \<not> isDeleted h (nArenaOffset (obj h (srNode sr)))) (take k (search_beam dot getVec h query k entry)))"
proof (cases "query = [] \<or> hEntryNodeID h = []")
  case True
  then show thesis using that(1) by (auto simp: HNSW_Search_def)
next
  case False
  then obtain e where "hNodes h (hEntryNodeID h) = Some e" "e < length (hObjs h)"
    using hnsw_base_entry assms by (auto simp: hnsw_inv_def)
  then show thesis using that(2) HNSW_Search_eq False by blast
qed

lemma search_beam_sound:
  assumes inv: "hnsw_inv n h" and e: "entry < length (hObjs h)"
  shows "\<forall>s\<in>set (search_beam dot getVec h query k entry). srNode s < length (hObjs h) \<and> scored dot getVec h (normalizeVec query) s"
    "distinct (map srNode (search_beam dot getVec h query k entry))"
proof -
  have base: "hnsw_base n h" using inv by (simp add: hnsw_inv_def)
  let ?c = "foldl (\<lambda>c l. searchLayer dot getVec h (normalizeVec query) c l) entry (rev [1..<nat (hMaxLayer h + 1)])"
  have "?c \<in> {..<length (hObjs h)}" using e layer_closed_all [OF base] by (intro descend_in) auto
  from searchLayerTopK_sound [OF base layer_closed_all [OF base] this, of dot getVec "normalizeVec query"]
  show "\<forall>s\<in>set (search_beam dot getVec h query k entry). srNode s < length (hObjs h) \<and> scored dot getVec h (normalizeVec query) s"
    "distinct (map srNode (search_beam dot getVec h query k entry))"
    by (simp_all add: search_beam_def)
qed

lemma HNSW_Search_sound:
  assumes inv: "hnsw_inv n h"
  shows "length (HNSW_Search dot getVec h query k) \<le> k" "distinct (map vrID (HNSW_Search dot getVec h query k))"
    "\<forall>r\<in>set (HNSW_Search dot getVec h query k). \<exists>p v. hNodes h (vrID r) = Some p \<and>
       \<not> isDeleted h (nArenaOffset (obj h p)) \<and> getVec (nArenaOffset (obj h p)) = Some v \<and>
       vrScore r = f32_sub f32_one (dist dot (normalizeVec query) v) \<and> vrData r = ''{}''"
proof -
  let ?live = "\<lambda>sr. \<not> isDeleted h (nArenaOffset (obj h (srNode sr)))"
  have base: "hnsw_base n h" using inv by (simp add: hnsw_inv_def)
  have "length (HNSW_Search dot getVec h query k) \<le> k \<and> distinct (map vrID (HNSW_Search dot getVec h query k)) \<and>
    (\<forall>r\<in>set (HNSW_Search dot getVec h query k). \<exists>p v. hNodes h (vrID r) = Some p \<and>
       \<not> isDeleted h (nArenaOffset (obj h p)) \<and> getVec (nArenaOffset (obj h p)) = Some v \<and>
       vrScore r = f32_sub f32_one (dist dot (normalizeVec query) v) \<and> vrData r = ''{}'')"
    using inv
  proof (cases rule: HNSW_Search_cases [where dot = dot and getVec = getVec and query = query and k = k])
    case (2 entry)
    let ?out = "filter ?live (take k (search_beam dot getVec h query k entry))"
    note sound = search_beam_sound [OF inv 2(2), of dot getVec query k]
    have ptr: "srNode s < length (hObjs h) \<and> scored dot getVec h (normalizeVec query) s \<and> hNodes h (nID (obj h (srNode s))) = Some (srNode s)"
      if "s \<in> set ?out" for s
      using that sound(1) hnsw_base_obj(5) [OF base, of "srNode s"] by (auto dest: in_set_takeD)
    have len: "length ?out \<le> k" using length_filter_le [of ?live "take k (search_beam dot getVec h query k entry)"] by simp
    have "distinct (map srNode (take k (search_beam dot getVec h query k entry)))"
      using sound(2) distinct_take [of "map srNode (search_beam dot getVec h query k entry)" k] by (simp add: take_map)
    then have "distinct (map srNode ?out)" by (rule distinct_map_filter)
    then have "distinct (map (\<lambda>s. nID (obj h (srNode s))) ?out)"
      using ptr unfolding distinct_map by (metis (mono_tags, lifting) inj_on_def option.inject)
    then have dist: "distinct (map vrID (HNSW_Search dot getVec h query k))"
      using 2(3) by (simp add: record_of_def comp_def)
    have "\<exists>p v. hNodes h (vrID r) = Some p \<and> \<not> isDeleted h (nArenaOffset (obj h p)) \<and>
       getVec (nArenaOffset (obj h p)) = Some v \<and>
       vrScore r = f32_sub f32_one (dist dot (normalizeVec query) v) \<and> vrData r = ''{}''"
      if "r \<in> set (HNSW_Search dot getVec h query k)" for r
    proof -
      have "r \<in> record_of h ` set ?out" using that 2(3) by simp
      then obtain s where s: "s \<in> set ?out" "r = record_of h s" by blast
      then have "?live s" by simp
      then show ?thesis using ptr [OF s(1)] s(2) by (auto simp: record_of_def scored_def)
    qed
    then show ?thesis using len dist 2(3) by simp
  qed simp
  then show "length (HNSW_Search dot getVec h query k) \<le> k" "distinct (map vrID (HNSW_Search dot getVec h query k))"
    "\<forall>r\<in>set (HNSW_Search dot getVec h query k). \<exists>p v. hNodes h (vrID r) = Some p \<and>
       \<not> isDeleted h (nArenaOffset (obj h p)) \<and> getVec (nArenaOffset (obj h p)) = Some v \<and>
       vrScore r = f32_sub f32_one (dist dot (normalizeVec query) v) \<and> vrData r = ''{}''"
    by blast+
qed

end
