(* ===== verification/Disk.thy ===== *)
theory Disk
  imports Prelude
begin

text \<open>
  \<open>internal/store/disk.go\<close>: the append-only metadata file. The file is opened with
  \<open>O_APPEND\<close>, so a write always lands at its end, while the location that is returned
  comes from the field \<open>pos\<close>. The operating system's answer to a write is an argument:
  \<open>DiskOk\<close>, or \<open>DiskShort n\<close> when only the first \<open>n\<close> bytes were written and an error
  was returned. Locations are the source's \<open>int64\<close>/\<open>int32\<close> pair.
\<close>

section \<open>State and operations\<close>

record FileLocation =
  flOffset :: int
  flLength :: int

definition noLocation :: FileLocation where
  "noLocation = \<lparr>flOffset = 0, flLength = 0\<rparr>"

record DiskStore =
  dsFile :: bytes
  dsPos :: nat

datatype disk_io = DiskOk | DiskShort nat

datatype disk_error = DiskWriteError | DiskInvalidLocation | DiskReadError

definition NewDiskStore :: "bytes \<Rightarrow> DiskStore" where
  "NewDiskStore contents = \<lparr>dsFile = contents, dsPos = length contents\<rparr>"

definition DiskStore_Write :: "disk_io \<Rightarrow> DiskStore \<Rightarrow> bytes \<Rightarrow> (disk_error + FileLocation) \<times> DiskStore" where
  "DiskStore_Write io ds data =
     (let loc = \<lparr>flOffset = int (dsPos ds), flLength = int32_of (length data)\<rparr> in
      case io of
        DiskShort n \<Rightarrow> (Inl DiskWriteError, ds\<lparr>dsFile := dsFile ds @ take n data\<rparr>)
      | DiskOk \<Rightarrow> (Inr loc, ds\<lparr>dsFile := dsFile ds @ data, dsPos := dsPos ds + length data\<rparr>))"

definition DiskStore_Read :: "DiskStore \<Rightarrow> FileLocation \<Rightarrow> disk_error + bytes" where
  "DiskStore_Read ds loc =
     (if flLength loc \<le> 0 \<or> flOffset loc < 0 then Inl DiskInvalidLocation
      else if length (dsFile ds) < nat (flOffset loc) + nat (flLength loc) then Inl DiskReadError
      else Inr (take (nat (flLength loc)) (drop (nat (flOffset loc)) (dsFile ds))))"

definition DiskStore_Truncate :: "DiskStore \<Rightarrow> DiskStore" where
  "DiskStore_Truncate ds = ds\<lparr>dsFile := [], dsPos := 0\<rparr>"

section \<open>Invariant and lemmas\<close>

text \<open>The position is the end of the file: true as long as no write was cut short.\<close>

definition disk_inv :: "DiskStore \<Rightarrow> bool" where
  "disk_inv ds \<longleftrightarrow> dsPos ds = length (dsFile ds)"

text \<open>What a reader gets at a location: nothing for the empty record.\<close>

definition disk_holds :: "DiskStore \<Rightarrow> FileLocation \<Rightarrow> bytes \<Rightarrow> bool" where
  "disk_holds ds loc data \<longleftrightarrow>
     0 \<le> flOffset loc \<and> flLength loc = int (length data) \<and>
     nat (flOffset loc) + length data \<le> length (dsFile ds) \<and>
     take (length data) (drop (nat (flOffset loc)) (dsFile ds)) = data"

lemma disk_inv_new [simp]: "disk_inv (NewDiskStore contents)"
  by (simp add: disk_inv_def NewDiskStore_def)

lemma disk_inv_truncate [simp]: "disk_inv (DiskStore_Truncate ds)"
  by (simp add: disk_inv_def DiskStore_Truncate_def)

lemma disk_write_ok:
  assumes "disk_inv ds" "length data < 2 ^ 31" "DiskStore_Write io ds data = (Inr loc, ds')"
  shows "disk_inv ds'" "disk_holds ds' loc data"
  using assms by (auto simp: DiskStore_Write_def disk_inv_def disk_holds_def int32_of_small
      Let_def split: disk_io.splits)

text \<open>Appending never disturbs what is already there, whether or not the write succeeds.\<close>

lemma disk_write_holds:
  "disk_holds ds loc data \<Longrightarrow> DiskStore_Write io ds data' = (r, ds') \<Longrightarrow> disk_holds ds' loc data"
  by (auto simp: DiskStore_Write_def disk_holds_def Let_def split: disk_io.splits)

lemma disk_read_holds:
  "disk_holds ds loc data \<Longrightarrow>
   DiskStore_Read ds loc = (if data = [] then Inl DiskInvalidLocation else Inr data)"
  by (auto simp: DiskStore_Read_def disk_holds_def)

end
