(* ===== verification/WAL_Format.thy ===== *)
theory WAL_Format
  imports Float_Bits Disk "HOL-Library.Monad_Syntax"
begin

text \<open>
  \<open>internal/store/wal.go\<close> (the record format, the writer \<open>writeWALEntryTo\<close> and the
  replay loop \<open>recoverInternal\<close>) and \<open>internal/store/wal_validate.go\<close> (the record
  validation, the strict walk, and the startup repair of a torn tail).

  A log is a byte list. The replay loop returns the list of the entries it passes to its
  callback; the loop's \<open>break\<close> is the end of that list. The strict walk threads the state
  of its callback. \<open>ctx.Err()\<close> is an argument, asked at each frame. Lengths of
  in-memory slices are natural numbers; the conversions to \<open>uint32\<close> of the writer are the
  truncation in \<open>le_bytes 4\<close>.
\<close>

section \<open>Records\<close>

definition OpInsert :: nat where "OpInsert = 1"
definition OpDelete :: nat where "OpDelete = 2"

record WALRecord =
  wOp :: nat
  wID :: string
  wVec :: vec
  wMeta :: bytes
  wLoc :: FileLocation

record SnapshotRecord =
  snID :: string
  snVector :: vec
  snData :: bytes

datatype wal_error =
    WalFieldLimits | WalInvalidRecord | WalNonFinite
  | WalStrictLimits | WalCancelled | WalIncompleteHeader | WalFrameLimits | WalIncompleteFrame
  | WalUnknownOp | WalBadID | WalBadVector | WalBadMetadata | WalBadLocation
  | WalBadDimension | WalBadPartialHeader | WalBadPartialSize | WalBadPartialLength | WalBadPartialField
  | WalVisitor | WalClosed | WalIOError

text \<open>\<open>1 << 20\<close>, the limit of an identifier and of a metadata record.\<close>

definition mib :: nat where "mib = 2 ^ 20"

definition validateWALRecord ::
  "nat \<Rightarrow> string \<Rightarrow> vec \<Rightarrow> bytes \<Rightarrow> FileLocation \<Rightarrow> wal_error option" where
  "validateWALRecord opc rid vector metadata loc =
     (if length rid = 0 \<or> mib < length rid \<or> mib < length metadata then Some WalFieldLimits
      else if opc \<noteq> OpInsert \<and> opc \<noteq> OpDelete
        \<or> opc = OpInsert \<and> (length vector = 0 \<or> 65536 < length vector)
        \<or> opc = OpDelete \<and> (length vector \<noteq> 0 \<or> length metadata \<noteq> 0)
        \<or> flOffset loc < 0 then Some WalInvalidRecord
      else if \<exists>v\<in>set vector. f32_isNaN v \<or> f32_isInf v then Some WalNonFinite
      else None)"

section \<open>Writing\<close>

definition vec_bytes :: "vec \<Rightarrow> bytes" where
  "vec_bytes v = concat (map (\<lambda>w. le_bytes 4 (unat w)) v)"

definition field_bytes :: "bytes \<Rightarrow> bytes" where
  "field_bytes bs = le_bytes 4 (length bs) @ bs"

definition loc_bytes :: "FileLocation \<Rightarrow> bytes" where
  "loc_bytes loc = le_bytes 8 (nat (flOffset loc mod 2 ^ 64)) @ le_bytes 4 (nat (flLength loc mod 2 ^ 32))"

text \<open>The payload of a frame, after its size header.\<close>

definition frame_body :: "nat \<Rightarrow> string \<Rightarrow> vec \<Rightarrow> bytes \<Rightarrow> FileLocation \<Rightarrow> bytes" where
  "frame_body opc rid vector metadata loc =
     char_of (opc mod 256) # field_bytes rid @ field_bytes (vec_bytes vector) @ field_bytes metadata @ loc_bytes loc"

definition frame_bytes :: "nat \<Rightarrow> string \<Rightarrow> vec \<Rightarrow> bytes \<Rightarrow> FileLocation \<Rightarrow> bytes" where
  "frame_bytes opc rid vector metadata loc =
     le_bytes 4 (1 + 4 + length rid + 4 + 4 * length vector + 4 + length metadata + 8 + 4)
     @ frame_body opc rid vector metadata loc"

definition writeWALEntryTo ::
  "nat \<Rightarrow> string \<Rightarrow> vec \<Rightarrow> bytes \<Rightarrow> FileLocation \<Rightarrow> wal_error + bytes" where
  "writeWALEntryTo opc rid vector metadata loc =
     (case validateWALRecord opc rid vector metadata loc of
        Some err \<Rightarrow> Inl err
      | None \<Rightarrow> Inr (frame_bytes opc rid vector metadata loc))"

section \<open>Replay\<close>

text \<open>Four bytes to a float, as the unsafe cast does; a remainder below four bytes is dropped.\<close>

fun bytes_vec :: "bytes \<Rightarrow> vec" where
  "bytes_vec (b0 # b1 # b2 # b3 # bs) = word_of_nat (le_nat [b0, b1, b2, b3]) # bytes_vec bs"
| "bytes_vec bs = []"

definition recover_entry :: "bytes \<Rightarrow> (WALRecord \<times> bytes) option" where
  "recover_entry bs = do {
     (szb, r) \<leftarrow> readFull 4 bs;
     let size = le_nat szb;
     (opb, r) \<leftarrow> readFull 1 r;
     (nb, r) \<leftarrow> readFull 4 r;
     let idLen = le_nat nb;
     if size < idLen \<or> mib < idLen then None else do {
     (rid, r) \<leftarrow> readFull idLen r;
     (nb, r) \<leftarrow> readFull 4 r;
     let vecLen = le_nat nb;
     if size < vecLen \<or> 2 ^ 26 < vecLen then None else do {
     (vb, r) \<leftarrow> readFull vecLen r;
     (nb, r) \<leftarrow> readFull 4 r;
     let metaLen = le_nat nb;
     if size < metaLen \<or> mib < metaLen then None else do {
     (meta, r) \<leftarrow> readFull metaLen r;
     (offb, r) \<leftarrow> readFull 8 r;
     (lenb, r) \<leftarrow> readFull 4 r;
     Some (\<lparr>wOp = of_char (opb ! 0), wID = rid, wVec = bytes_vec vb, wMeta = meta,
            wLoc = \<lparr>flOffset = int64_of (le_nat offb), flLength = int32_of (le_nat lenb)\<rparr>\<rparr>, r)
     }}}}"

lemma recover_entry_shorter: "recover_entry bs = Some (rec, r) \<Longrightarrow> length r < length bs"
  by (auto simp: recover_entry_def Let_def bind_eq_Some_conv split: if_splits dest!: readFull_SomeD)

function recoverInternal :: "bytes \<Rightarrow> WALRecord list" where
  "recoverInternal bs =
     (case recover_entry bs of None \<Rightarrow> [] | Some (rec, r) \<Rightarrow> rec # recoverInternal r)"
  by pat_completeness auto
termination
  by (relation "measure length") (auto dest: recover_entry_shorter)

declare recoverInternal.simps [simp del]

definition WAL_RecoverEx :: "bytes \<Rightarrow> WALRecord list" where
  "WAL_RecoverEx bs = recoverInternal bs"

definition WAL_Recover :: "bytes \<Rightarrow> WALRecord list" where
  "WAL_Recover bs = filter (\<lambda>rec. wOp rec = OpInsert) (recoverInternal bs)"

section \<open>The strict walk\<close>

definition readField :: "nat \<Rightarrow> bytes \<Rightarrow> (bytes \<times> bytes) option" where
  "readField limit buf = do {
     (nb, r) \<leftarrow> readFull 4 buf;
     let n = le_nat nb;
     if limit < n \<or> length r < n then None else readFull n r
   }"

text \<open>The decoding of one complete frame body.\<close>

definition strict_frame :: "nat \<Rightarrow> bytes \<Rightarrow> wal_error + (nat \<times> SnapshotRecord)" where
  "strict_frame dimension body =
     (case readFull 1 body of None \<Rightarrow> Inl WalUnknownOp | Some (opb, buf) \<Rightarrow>
      let opc = of_char (opb ! 0) in
      if opc \<noteq> OpInsert \<and> opc \<noteq> OpDelete then Inl WalUnknownOp
      else case readField mib buf of None \<Rightarrow> Inl WalBadID | Some (rid, buf) \<Rightarrow>
      if length rid = 0 then Inl WalBadID
      else case readField (dimension * 4) buf of None \<Rightarrow> Inl WalBadVector | Some (vector, buf) \<Rightarrow>
      if opc = OpInsert \<and> length vector \<noteq> dimension * 4 \<or> opc = OpDelete \<and> length vector \<noteq> 0
      then Inl WalBadVector
      else case readField mib buf of None \<Rightarrow> Inl WalBadMetadata | Some (metadata, buf) \<Rightarrow>
      if opc = OpDelete \<and> length metadata \<noteq> 0 then Inl WalBadMetadata
      else case readFull 8 buf of None \<Rightarrow> Inl WalBadLocation | Some (offb, buf) \<Rightarrow>
      case readFull 4 buf of None \<Rightarrow> Inl WalBadLocation | Some (lenb, buf) \<Rightarrow>
      if int64_of (le_nat offb) < 0 \<or> length buf \<noteq> 0 then Inl WalBadLocation
      else if \<exists>v\<in>set (bytes_vec vector). f32_isNaN v \<or> f32_isInf v then Inl WalNonFinite
      else Inr (opc, \<lparr>snID = rid, snVector = bytes_vec vector, snData = metadata\<rparr>))"

text \<open>One frame: its header, the limits, its body; the bytes it takes and what it holds.\<close>

definition strict_step ::
  "nat \<Rightarrow> int \<Rightarrow> int \<Rightarrow> bytes \<Rightarrow> wal_error + (nat \<times> nat \<times> SnapshotRecord \<times> bytes)" where
  "strict_step dimension maxBytes consumed bs =
     (case readFull 4 bs of None \<Rightarrow> Inl WalIncompleteHeader | Some (hb, r) \<Rightarrow>
      let size = le_nat hb in
      if size < 26 \<or> 25 + 2 * mib + dimension * 4 < size \<or> maxBytes < consumed + 4 + int size
      then Inl WalFrameLimits
      else case readFull size r of None \<Rightarrow> Inl WalIncompleteFrame | Some (body, r') \<Rightarrow>
      case strict_frame dimension body of Inl e \<Rightarrow> Inl e | Inr (opc, rec) \<Rightarrow> Inr (4 + size, opc, rec, r'))"

lemma strict_step_shorter: "strict_step dm mx c bs = Inr (n, opc, rec, r) \<Longrightarrow> length r < length bs"
  by (auto simp: strict_step_def Let_def split: if_splits sum.splits option.splits dest!: readFull_SomeD)

function walk_strict ::
  "(int \<Rightarrow> bool) \<Rightarrow> ('s \<Rightarrow> nat \<Rightarrow> SnapshotRecord \<Rightarrow> wal_error + 's) \<Rightarrow> nat \<Rightarrow> int \<Rightarrow> int \<Rightarrow> 's \<Rightarrow> bytes \<Rightarrow> wal_error + 's" where
  "walk_strict ctxErr visit dimension maxBytes consumed s bs =
     (if ctxErr consumed then Inl WalCancelled
      else if bs = [] then Inr s
      else case strict_step dimension maxBytes consumed bs of
        Inl e \<Rightarrow> Inl e
      | Inr (n, opc, rec, r) \<Rightarrow>
          (case visit s opc rec of
             Inl e \<Rightarrow> Inl e
           | Inr s' \<Rightarrow> walk_strict ctxErr visit dimension maxBytes (consumed + int n) s' r))"
  by pat_completeness auto
termination
  by (relation "measure (\<lambda>(ctxErr, visit, dm, mx, c, s, bs). length bs)") (auto dest: strict_step_shorter)

declare walk_strict.simps [simp del]

definition WalkWALStrict ::
  "(int \<Rightarrow> bool) \<Rightarrow> bytes \<Rightarrow> int \<Rightarrow> int \<Rightarrow> ('s \<Rightarrow> nat \<Rightarrow> SnapshotRecord \<Rightarrow> wal_error + 's) \<Rightarrow> 's \<Rightarrow> wal_error + 's" where
  "WalkWALStrict ctxErr bs dimension maxBytes visit s =
     (if dimension < 1 \<or> 65536 < dimension \<or> maxBytes < 0 then Inl WalStrictLimits
      else walk_strict ctxErr visit (nat dimension) maxBytes 0 s bs)"

section \<open>The startup repair\<close>

definition partialWALLength :: "bytes \<Rightarrow> nat \<Rightarrow> nat \<Rightarrow> bool" where
  "partialWALLength body minimum maximum =
     (if maximum < minimum then False
      else
        let low = le_nat body; step = 2 ^ (8 * length body);
            low' = (if low < minimum then low + (minimum - low + step - 1) div step * step else low)
        in low' \<le> maximum)"

text \<open>
  One turn of the loop over the three length-prefixed fields of a short final frame:
  \<open>Inl\<close> is a \<open>return\<close> (\<open>None\<close> for nil), \<open>Inr\<close> goes on with the rest of the body.
\<close>

definition incomplete_short :: "nat \<Rightarrow> nat \<Rightarrow> nat \<Rightarrow> int \<Rightarrow> int \<Rightarrow> nat \<Rightarrow> bytes \<Rightarrow> wal_error option" where
  "incomplete_short field opc dimension declared fieldBytes limit body =
     (let check = (\<lambda>minimum maximum. if partialWALLength body minimum maximum then None else Some WalBadPartialLength) in
      if field = 0 then
        let space = (if opc = OpInsert then declared - 25 - int dimension * 4 else declared - 25) in
        if space < 1 then Some WalBadPartialSize
        else
          let maximum = (if space < int limit then nat space else limit) in
          if opc = OpDelete then
            (if int limit < space then Some WalBadPartialSize else check (nat space) (nat space))
          else if 1 < space - int mib then check (nat (space - int mib)) maximum
          else check 1 maximum
      else if field = 1 then
        (let lim = (if opc = OpDelete then 0 else limit) in check lim lim)
      else
        let space = declared - 25 - fieldBytes in
        if space < 0 \<or> int limit < space \<or> opc = OpDelete \<and> space \<noteq> 0 then Some WalBadPartialSize
        else check (nat space) (nat space))"

definition incomplete_field ::
  "nat \<Rightarrow> nat \<Rightarrow> nat \<Rightarrow> int \<Rightarrow> int \<Rightarrow> nat \<Rightarrow> bytes \<Rightarrow> wal_error option + (int \<times> bytes)" where
  "incomplete_field field opc dimension declared fieldBytes limit body =
     (if length body < 4 then Inl (incomplete_short field opc dimension declared fieldBytes limit body)
      else
        let n = le_nat (take 4 body); body' = drop 4 body in
        if limit < n \<or> field = 0 \<and> n = 0
          \<or> field = 1 \<and> (opc = OpInsert \<and> n \<noteq> dimension * 4 \<or> opc = OpDelete \<and> n \<noteq> 0)
          \<or> field = 2 \<and> opc = OpDelete \<and> n \<noteq> 0 then Inl (Some WalBadPartialField)
        else
          let fieldBytes' = fieldBytes + int n;
              minimum = 25 + fieldBytes' + (if field = 0 \<and> opc = OpInsert then int dimension * 4 else 0);
              maximum = (if opc = OpInsert \<and> field < 2 then minimum + int mib else minimum)
          in if declared < minimum \<or> maximum < declared then Inl (Some WalBadPartialSize)
             else if field = 1 \<and> (\<exists>v\<in>set (bytes_vec (take n body')). f32_isNaN v \<or> f32_isInf v)
             then Inl (Some WalNonFinite)
             else if length body' < n then Inl None
             else Inr (fieldBytes', drop n body'))"

fun incomplete_fields ::
  "(nat \<times> nat) list \<Rightarrow> nat \<Rightarrow> nat \<Rightarrow> int \<Rightarrow> int \<Rightarrow> bytes \<Rightarrow> wal_error option" where
  "incomplete_fields [] opc dimension declared fieldBytes body =
     (if 8 \<le> length body \<and> int64_of (le_nat (take 8 body)) < 0 then Some WalBadLocation else None)"
| "incomplete_fields ((field, limit) # fs) opc dimension declared fieldBytes body =
     (case incomplete_field field opc dimension declared fieldBytes limit body of
        Inl r \<Rightarrow> r
      | Inr (fieldBytes', body') \<Rightarrow> incomplete_fields fs opc dimension declared fieldBytes' body')"

definition validateIncompleteWALFrame :: "bytes \<Rightarrow> int \<Rightarrow> nat \<Rightarrow> wal_error option" where
  "validateIncompleteWALFrame body declared dimension =
     (case body of
        [] \<Rightarrow> None
      | b # body' \<Rightarrow>
          let opc = of_char b in
          if opc \<noteq> OpInsert \<and> opc \<noteq> OpDelete then Some WalUnknownOp
          else incomplete_fields [(0, mib), (1, dimension * 4), (2, mib)] opc dimension declared 0 body')"

text \<open>
  The loop over the frames from \<open>completeEnd\<close>: how many bytes of complete frames follow.
  What is left after them is cut off by \<open>repair\<close>.
\<close>

function complete_end :: "nat \<Rightarrow> nat \<Rightarrow> bytes \<Rightarrow> wal_error + nat" where
  "complete_end dimension completeEnd bs =
     (if bs = [] then Inr completeEnd
      else
        let maxFrame = 25 + 2 * mib + dimension * 4 in
        if length bs < 4 then
          (if \<not> partialWALLength bs 26 maxFrame then Inl WalBadPartialHeader else Inr completeEnd)
        else
          let size = le_nat (take 4 bs) in
          if size < 26 \<or> maxFrame < size then Inl WalFrameLimits
          else if length bs - 4 < size then
            (case validateIncompleteWALFrame (drop 4 bs) (int size) dimension of
               Some e \<Rightarrow> Inl e | None \<Rightarrow> Inr completeEnd)
          else
            case WalkWALStrict (\<lambda>_. False) (take (4 + size) bs) (int dimension) (4 + int size)
                   (\<lambda>s opc rec. Inr s) () of
              Inl e \<Rightarrow> Inl e
            | Inr _ \<Rightarrow> complete_end dimension (completeEnd + (4 + size)) (drop (4 + size) bs))"
  by pat_completeness auto
termination
  by (relation "measure (\<lambda>(dm, c, bs). length bs)") auto

declare complete_end.simps [simp del]

definition WAL_prepareRecovery :: "int \<Rightarrow> bytes \<Rightarrow> wal_error + bytes" where
  "WAL_prepareRecovery dimension file =
     (if dimension < 1 \<or> 65536 < dimension then Inl WalBadDimension
      else case complete_end (nat dimension) 0 file of
        Inl e \<Rightarrow> Inl e
      | Inr completeEnd \<Rightarrow> Inr (take completeEnd file))"

end
