(* ===== verification/WAL_Recovery.thy ===== *)
theory WAL_Recovery
  imports WAL_Format "HOL-Library.Sublist"
begin

text \<open>
  What the log format guarantees. A log is a concatenation of frames of valid records
  (\<open>wal_log\<close>). Replay returns exactly the records written, bit for bit
  (\<open>recover_log\<close>); the strict walk accepts exactly such logs and decodes the same
  records; and the startup repair turns every prefix of a log, however the last write was
  torn, into the frames that were complete.
\<close>

section \<open>Valid records and logs\<close>

definition wal_valid :: "WALRecord \<Rightarrow> bool" where
  "wal_valid rec \<longleftrightarrow>
     validateWALRecord (wOp rec) (wID rec) (wVec rec) (wMeta rec) (wLoc rec) = None \<and>
     flOffset (wLoc rec) < 2 ^ 63 \<and> - (2 ^ 31) \<le> flLength (wLoc rec) \<and> flLength (wLoc rec) < 2 ^ 31"

text \<open>The record also has the dimension of the store that reads the log.\<close>

definition wal_fits :: "nat \<Rightarrow> WALRecord \<Rightarrow> bool" where
  "wal_fits dm rec \<longleftrightarrow> wal_valid rec \<and> (wOp rec = OpInsert \<longrightarrow> length (wVec rec) = dm)"

definition body_of :: "WALRecord \<Rightarrow> bytes" where
  "body_of rec = frame_body (wOp rec) (wID rec) (wVec rec) (wMeta rec) (wLoc rec)"

definition frame_of :: "WALRecord \<Rightarrow> bytes" where
  "frame_of rec = frame_bytes (wOp rec) (wID rec) (wVec rec) (wMeta rec) (wLoc rec)"

definition wal_log :: "WALRecord list \<Rightarrow> bytes" where
  "wal_log recs = concat (map frame_of recs)"

definition snapshot_of :: "WALRecord \<Rightarrow> SnapshotRecord" where
  "snapshot_of rec = \<lparr>snID = wID rec, snVector = wVec rec, snData = wMeta rec\<rparr>"

section \<open>Encodings\<close>

lemma length_vec_bytes [simp, codec]: "length (vec_bytes v) = 4 * length v"
  by (induction v) (auto simp: vec_bytes_def)

lemma vec_bytes_Cons: "vec_bytes (w # v) = le_bytes 4 (unat w) @ vec_bytes v"
  by (simp add: vec_bytes_def)

lemma le_bytes_4: "le_bytes 4 n = [char_of (n mod 256), char_of (n div 256 mod 256),
    char_of (n div 256 div 256 mod 256), char_of (n div 256 div 256 div 256 mod 256)]"
proof -
  have "4 = Suc (Suc (Suc (Suc 0)))" by simp
  then show ?thesis by (simp only: le_bytes.simps)
qed

lemma unat_less_32: "unat (w :: 32 word) < 256 ^ 4"
  using unsigned_less [of w] by simp

lemma bytes_vec_le_bytes: "bytes_vec (le_bytes 4 (unat w) @ bs) = w # bytes_vec bs"
proof -
  have "le_nat (le_bytes 4 (unat w)) = unat w"
    using unat_less_32 by (rule le_nat_le_bytes_id)
  then show ?thesis unfolding le_bytes_4 by simp
qed

lemma bytes_vec_vec_bytes [codec]: "bytes_vec (vec_bytes v) = v"
  by (induction v) (simp_all add: vec_bytes_Cons bytes_vec_le_bytes vec_bytes_def)

lemma length_bytes_vec: "length (bytes_vec bs) = length bs div 4"
  by (induction bs rule: bytes_vec.induct) auto

lemma set_bytes_vec_take_vec_bytes: "set (bytes_vec (take n (vec_bytes v))) \<subseteq> set v"
proof (induction v arbitrary: n)
  case Nil
  then show ?case by (simp add: vec_bytes_def)
next
  case (Cons w v)
  show ?case
  proof (cases "4 \<le> n")
    case True
    then have "take n (vec_bytes (w # v)) = le_bytes 4 (unat w) @ take (n - 4) (vec_bytes v)"
      by (simp add: vec_bytes_Cons)
    then show ?thesis using Cons.IH [of "n - 4"] by (auto simp: bytes_vec_le_bytes)
  next
    case False
    then have "length (bytes_vec (take n (vec_bytes (w # v)))) = 0"
      by (simp add: length_bytes_vec)
    then show ?thesis by simp
  qed
qed

lemma length_field_bytes [simp, codec]: "length (field_bytes bs) = 4 + length bs"
  by (simp add: field_bytes_def)

lemma length_loc_bytes [simp, codec]: "length (loc_bytes loc) = 12"
  by (simp add: loc_bytes_def)

lemma length_frame_body: "length (frame_body opc rid v m loc) = 25 + length rid + 4 * length v + length m"
  by (simp add: frame_body_def)

lemma length_body_of: "length (body_of rec) = 25 + length (wID rec) + 4 * length (wVec rec) + length (wMeta rec)"
  by (simp add: body_of_def length_frame_body)

lemma frame_of_eq: "frame_of rec = le_bytes 4 (length (body_of rec)) @ body_of rec"
  by (simp add: frame_of_def frame_bytes_def body_of_def length_frame_body algebra_simps)

lemma length_frame_of: "length (frame_of rec) = 4 + length (body_of rec)"
  by (simp add: frame_of_eq)

lemma frame_of_neq_Nil [simp]: "frame_of rec \<noteq> []"
proof
  assume "frame_of rec = []"
  then show False using length_frame_of [of rec] by simp
qed

lemma wal_log_Nil [simp]: "wal_log [] = []"
  by (simp add: wal_log_def)

lemma wal_log_Cons [simp]: "wal_log (rec # recs) = frame_of rec @ wal_log recs"
  by (simp add: wal_log_def)

lemma wal_log_append [simp]: "wal_log (recs @ recs') = wal_log recs @ wal_log recs'"
  by (simp add: wal_log_def)

lemma wal_validD:
  assumes "wal_valid rec"
  shows "0 < length (wID rec)" "length (wID rec) \<le> mib" "length (wMeta rec) \<le> mib"
    "wOp rec = OpInsert \<or> wOp rec = OpDelete"
    "wOp rec = OpDelete \<Longrightarrow> wVec rec = [] \<and> wMeta rec = []"
    "length (wVec rec) \<le> 65536" "0 \<le> flOffset (wLoc rec)"
    "\<forall>v\<in>set (wVec rec). \<not> f32_isNaN v \<and> \<not> f32_isInf v"
  using assms
  by (auto simp: wal_valid_def validateWALRecord_def split: if_splits)

lemma wal_valid_field_sizes:
  assumes "wal_valid rec"
  shows "length (wID rec) < 256 ^ 4" "4 * length (wVec rec) < 256 ^ 4" "length (wMeta rec) < 256 ^ 4"
    "length (body_of rec) < 256 ^ 4"
  using wal_validD [OF assms] by (auto simp: mib_def length_body_of)

lemma int64_of_mod: "0 \<le> z \<Longrightarrow> z < 2 ^ 63 \<Longrightarrow> int64_of (nat (z mod 2 ^ 64)) = z"
  by (simp add: int64_of_def)

lemma int32_of_mod:
  assumes "- (2 ^ 31) \<le> z" "z < 2 ^ 31"
  shows "int32_of (nat (z mod 2 ^ 32)) = z"
proof (cases "0 \<le> z")
  case True
  then show ?thesis using assms by (simp add: int32_of_def)
next
  case False
  have "z mod 2 ^ 32 = (z + 2 ^ 32) mod 2 ^ 32" by simp
  also have "\<dots> = z + 2 ^ 32" using assms False by (intro mod_pos_pos_trivial) auto
  finally have "z mod 2 ^ 32 = z + 2 ^ 32" .
  then show ?thesis using assms False by (simp add: int32_of_def)
qed

section \<open>Replay returns what was written\<close>

text \<open>Any framing with consistent lengths is read back field by field.\<close>

lemma recover_entry_fields:
  assumes "sz < 256 ^ 4" "length a \<le> sz" "length v \<le> sz" "length m \<le> sz"
    and "length a \<le> mib" "length v \<le> 2 ^ 26" "length m \<le> mib" "length x = 8" "length y = 4"
  shows "recover_entry (le_bytes 4 sz @ [c] @ field_bytes a @ field_bytes v @ field_bytes m @ x @ y @ rest) =
    Some (\<lparr>wOp = of_char c, wID = a, wVec = bytes_vec v, wMeta = m,
           wLoc = \<lparr>flOffset = int64_of (le_nat x), flLength = int32_of (le_nat y)\<rparr>\<rparr>, rest)"
proof -
  have r1: "readFull (Suc 0) (c # xs) = Some ([c], xs)" for xs
    by (simp add: readFull_def)
  have "le_nat (le_bytes 4 sz) = sz" "le_nat (le_bytes 4 (length a)) = length a"
    "le_nat (le_bytes 4 (length v)) = length v" "le_nat (le_bytes 4 (length m)) = length m"
    using assms by (auto intro!: le_nat_le_bytes_id)
  then show ?thesis
    unfolding recover_entry_def field_bytes_def
    using assms(2-) by (simp add: readFull_append' r1)
qed

lemma recover_entry_frame:
  assumes "wal_valid rec"
  shows "recover_entry (frame_of rec @ rest) = Some (rec, rest)"
proof -
  note sizes = wal_valid_field_sizes [OF assms] and valid = wal_validD [OF assms]
  let ?off = "nat (flOffset (wLoc rec) mod 2 ^ 64)" and ?len = "nat (flLength (wLoc rec) mod 2 ^ 32)"
  have "?off < 256 ^ 8" "?len < 256 ^ 4" by (simp_all add: nat_less_iff)
  then have loc: "int64_of (le_nat (le_bytes 8 ?off)) = flOffset (wLoc rec)"
    "int32_of (le_nat (le_bytes 4 ?len)) = flLength (wLoc rec)"
    using valid(7) assms by (simp_all only: le_nat_le_bytes_id int64_of_mod int32_of_mod wal_valid_def)
  have opc: "of_char (char_of (wOp rec mod 256)) = wOp rec"
    using valid(4) by (auto simp: OpInsert_def OpDelete_def)
  have frame: "frame_of rec @ rest = le_bytes 4 (length (body_of rec)) @ [char_of (wOp rec mod 256)] @
      field_bytes (wID rec) @ field_bytes (vec_bytes (wVec rec)) @ field_bytes (wMeta rec) @
      le_bytes 8 ?off @ le_bytes 4 ?len @ rest"
    by (simp add: frame_of_eq body_of_def frame_body_def loc_bytes_def)
  have "recover_entry (frame_of rec @ rest) =
      Some (\<lparr>wOp = of_char (char_of (wOp rec mod 256)), wID = wID rec,
        wVec = bytes_vec (vec_bytes (wVec rec)), wMeta = wMeta rec,
        wLoc = \<lparr>flOffset = int64_of (le_nat (le_bytes 8 ?off)), flLength = int32_of (le_nat (le_bytes 4 ?len))\<rparr>\<rparr>, rest)"
    unfolding frame
    by (rule recover_entry_fields) (use sizes valid in \<open>simp_all add: length_body_of\<close>)
  then show ?thesis by (simp only: loc opc bytes_vec_vec_bytes) simp
qed

lemma recover_log_append: "\<forall>rec\<in>set recs. wal_valid rec \<Longrightarrow>
  recoverInternal (wal_log recs @ rest) = recs @ recoverInternal rest"
  by (induction recs) (simp_all add: recoverInternal.simps [of "_ @ _"] recover_entry_frame)

lemma recover_log: "\<forall>rec\<in>set recs. wal_valid rec \<Longrightarrow> recoverInternal (wal_log recs) = recs"
  using recover_log_append [of recs "[]"] by (simp add: recoverInternal.simps [of "[]"] recover_entry_def readFull_def)

section \<open>The strict walk accepts exactly the logs\<close>

lemma readField_field_bytes:
  "length a \<le> limit \<Longrightarrow> length a < 256 ^ 4 \<Longrightarrow> readField limit (field_bytes a @ rest) = Some (a, rest)"
  by (simp add: readField_def field_bytes_def le_nat_le_bytes_id readFull_append')

lemma readField_SomeD:
  assumes "readField limit buf = Some (a, rest)"
  shows "buf = field_bytes a @ rest" "length a \<le> limit"
proof -
  obtain nb r where nb: "readFull 4 buf = Some (nb, r)" and n: "le_nat nb \<le> limit"
    and a: "readFull (le_nat nb) r = Some (a, rest)"
    using assms by (auto simp: readField_def bind_eq_Some_conv Let_def split: if_splits)
  have "nb = le_bytes 4 (length a)"
    using readFull_SomeD [OF nb] readFull_SomeD [OF a] by (metis le_bytes_le_nat)
  then show "buf = field_bytes a @ rest" "length a \<le> limit"
    using readFull_SomeD [OF nb] readFull_SomeD [OF a] n by (auto simp: field_bytes_def)
qed

lemma vec_bytes_bytes_vec: "length bs = 4 * n \<Longrightarrow> vec_bytes (bytes_vec bs) = bs"
proof (induction bs arbitrary: n rule: bytes_vec.induct)
  case (1 b0 b1 b2 b3 bs)
  have less: "le_nat [b0, b1, b2, b3] < 2 ^ 32"
    using le_nat_less [of "[b0, b1, b2, b3]"] by simp
  have "unat (word_of_nat (le_nat [b0, b1, b2, b3]) :: 32 word) = le_nat [b0, b1, b2, b3]"
    using less by (simp only: unsigned_of_nat) (simp add: take_bit_nat_eq_self)
  moreover have "length [b0, b1, b2, b3] = 4" by simp
  then have "le_bytes 4 (le_nat [b0, b1, b2, b3]) = [b0, b1, b2, b3]"
    by (metis le_bytes_le_nat)
  moreover have "vec_bytes (bytes_vec bs) = bs"
    using "1.IH" [of "n - 1"] "1.prems" by simp
  ultimately show ?case by (simp only: vec_bytes_Cons bytes_vec.simps append.simps)
qed (auto simp: vec_bytes_def, presburger+)

lemma strict_frame_body_of:
  assumes "wal_fits dm rec" "dm \<le> 65536"
  shows "strict_frame dm (body_of rec) = Inr (wOp rec, snapshot_of rec)"
proof -
  have v: "wal_valid rec" and dim: "wOp rec = OpInsert \<Longrightarrow> length (wVec rec) = dm"
    using assms by (auto simp: wal_fits_def)
  note valid = wal_validD [OF v] and sizes = wal_valid_field_sizes [OF v]
  let ?off = "nat (flOffset (wLoc rec) mod 2 ^ 64)" and ?len = "nat (flLength (wLoc rec) mod 2 ^ 32)"
  have "?off < 256 ^ 8" by (simp add: nat_less_iff)
  then have off: "int64_of (le_nat (le_bytes 8 ?off)) = flOffset (wLoc rec)"
    using valid(7) v by (simp only: le_nat_le_bytes_id int64_of_mod wal_valid_def)
  have opc: "of_char (char_of (wOp rec mod 256)) = wOp rec"
    using valid(4) by (auto simp: OpInsert_def OpDelete_def)
  have r1: "readFull 1 (c # xs) = Some ([c], xs)" for c :: char and xs
    by (simp add: readFull_def)
  have f1: "readField mib (field_bytes (wID rec) @ r) = Some (wID rec, r)" for r
    using valid sizes by (intro readField_field_bytes)
  have f2: "readField (dm * 4) (field_bytes (vec_bytes (wVec rec)) @ r) = Some (vec_bytes (wVec rec), r)" for r
    using valid sizes dim by (intro readField_field_bytes) auto
  have f3: "readField mib (field_bytes (wMeta rec) @ r) = Some (wMeta rec, r)" for r
    using valid sizes by (intro readField_field_bytes)
  have f4: "readFull 8 (le_bytes 8 ?off @ r) = Some (le_bytes 8 ?off, r)"
    "readFull 4 (le_bytes 4 ?len) = Some (le_bytes 4 ?len, [])" for r
    by (simp_all add: readFull_def)
  have ins: "wOp rec = OpInsert \<or> wOp rec = OpDelete" by (fact valid(4))
  have ne: "OpInsert \<noteq> OpDelete" by (simp add: OpInsert_def OpDelete_def)
  show ?thesis
    unfolding strict_frame_def body_of_def frame_body_def loc_bytes_def r1 option.case prod.case
      nth_Cons_0 opc f1 f2 f3 f4 Let_def off bytes_vec_vec_bytes
    using valid dim ne ins by (auto simp: snapshot_of_def)
qed

text \<open>Conversely: what the walk accepts is the frame of a valid record.\<close>

lemma int64_of_bytes: "n < 2 ^ 64 \<Longrightarrow> nat (int64_of n mod 2 ^ 64) = n"
  by (simp add: int64_of_def nat_mod_as_int flip: nat_mod_distrib)

lemma int32_of_bytes: "n < 2 ^ 32 \<Longrightarrow> nat (int32_of n mod 2 ^ 32) = n"
  by (simp add: int32_of_def nat_mod_as_int flip: nat_mod_distrib)

lemma strict_frame_sound:
  assumes "strict_frame dm body = Inr (opc, sn)" "1 \<le> dm" "dm \<le> 65536"
  shows "\<exists>rec. body = body_of rec \<and> wal_fits dm rec \<and> wOp rec = opc \<and> snapshot_of rec = sn"
proof -
  obtain b buf1 where b: "body = b # buf1"
    using assms(1) by (cases body) (auto simp: strict_frame_def readFull_def)
  have r1: "readFull 1 (b # buf1) = Some ([b], buf1)" by (simp add: readFull_def)
  note E = assms(1) [unfolded b strict_frame_def r1 option.case prod.case nth_Cons_0 Let_def]
  have opc: "opc = of_char b" "opc = OpInsert \<or> opc = OpDelete"
    using E by (auto split: option.splits if_splits)
  obtain rid buf2 where f1: "readField mib buf1 = Some (rid, buf2)" "rid \<noteq> []"
    using E by (fastforce split: option.splits if_splits)
  obtain vb buf3 where f2: "readField (dm * 4) buf2 = Some (vb, buf3)"
    using E f1 by (fastforce split: option.splits if_splits)
  obtain m buf4 where f3: "readField mib buf3 = Some (m, buf4)"
    using E f1 f2 by (fastforce split: option.splits if_splits)
  obtain offb buf5 where f4: "readFull 8 buf4 = Some (offb, buf5)"
    using E f1 f2 f3 by (fastforce split: option.splits if_splits)
  obtain lenb where f5: "readFull 4 buf5 = Some (lenb, [])"
    using E f1 f2 f3 f4 by (fastforce split: option.splits if_splits)
  note E' = E [unfolded f1 f2 f3 f4 f5 option.case prod.case]
  have vb: "opc = OpInsert \<Longrightarrow> length vb = dm * 4" "opc = OpDelete \<Longrightarrow> vb = []"
    and m: "opc = OpDelete \<Longrightarrow> m = []" and off: "0 \<le> int64_of (le_nat offb)"
    and fin: "\<forall>v\<in>set (bytes_vec vb). \<not> f32_isNaN v \<and> \<not> f32_isInf v"
    and sn: "sn = \<lparr>snID = rid, snVector = bytes_vec vb, snData = m\<rparr>"
    using E' f1(2) opc(1) by (auto split: if_splits)
  define loc where "loc = \<lparr>flOffset = int64_of (le_nat offb), flLength = int32_of (le_nat lenb)\<rparr>"
  define rec where "rec = \<lparr>wOp = opc, wID = rid, wVec = bytes_vec vb, wMeta = m, wLoc = loc\<rparr>"
  have len: "length offb = 8" "length lenb = 4" "buf4 = offb @ lenb"
    using readFull_SomeD [OF f4] readFull_SomeD [OF f5] by auto
  have "le_nat offb < 2 ^ 64" "le_nat lenb < 2 ^ 32"
    using le_nat_less [of offb] le_nat_less [of lenb] len by simp_all
  then have locb: "loc_bytes loc = offb @ lenb"
    unfolding loc_bytes_def loc_def
    using le_bytes_le_nat [of offb] le_bytes_le_nat [of lenb] len
    by (simp only: FileLocation.simps int64_of_bytes int32_of_bytes)
  have vlen: "length vb = 4 * length (bytes_vec vb)"
    using vb opc(2) by (auto simp: length_bytes_vec)
  then have vecb: "vec_bytes (bytes_vec vb) = vb" by (rule vec_bytes_bytes_vec)
  have "of_char b mod (256::nat) = of_char b" by (simp add: nat_of_char_less_256)
  then have "body = body_of rec"
    using readField_SomeD [OF f1(1)] readField_SomeD [OF f2] readField_SomeD [OF f3] len
    by (simp add: b body_of_def frame_body_def rec_def vecb locb opc(1))
  moreover have "wal_fits dm rec"
  proof -
    have lrange: "- (2 ^ 31) \<le> flLength loc" "flLength loc < 2 ^ 31"
      using \<open>le_nat lenb < 2 ^ 32\<close> by (auto simp: loc_def int32_of_def)
    have orange: "0 \<le> flOffset loc" "flOffset loc < 2 ^ 63"
      using off int64_of_range by (auto simp: loc_def)
    have v: "length (bytes_vec vb) = (if opc = OpInsert then dm else 0)"
      using vb opc(2) by (auto simp: length_bytes_vec)
    have ne: "OpInsert \<noteq> OpDelete" by (simp add: OpInsert_def OpDelete_def)
    show ?thesis
      using readField_SomeD(2) [OF f1(1)] readField_SomeD(2) [OF f3] f1(2) opc(2) m fin lrange orange v ne assms(2,3)
      by (auto simp: wal_fits_def wal_valid_def validateWALRecord_def rec_def split: if_splits)
  qed
  ultimately show ?thesis
    by (intro exI [of _ rec]) (simp add: rec_def snapshot_of_def sn)
qed

lemma strict_step_frame:
  assumes "wal_fits dm rec" "1 \<le> dm" "dm \<le> 65536" "c + int (length (frame_of rec)) \<le> mx"
  shows "strict_step dm mx c (frame_of rec @ rest) =
    Inr (length (frame_of rec), wOp rec, snapshot_of rec, rest)"
proof -
  have v: "wal_valid rec" and dim: "length (wVec rec) \<le> dm"
    using assms(1) wal_validD [of rec] by (auto simp: wal_fits_def)
  note valid = wal_validD [OF v] and sizes = wal_valid_field_sizes [OF v]
  have hd: "readFull 4 (frame_of rec @ rest) = Some (le_bytes 4 (length (body_of rec)), body_of rec @ rest)"
    by (simp add: frame_of_eq)
  have n: "le_nat (le_bytes 4 (length (body_of rec))) = length (body_of rec)"
    using sizes(4) by (rule le_nat_le_bytes_id)
  have lims: "\<not> length (body_of rec) < 26" "\<not> 25 + 2 * mib + dm * 4 < length (body_of rec)"
    using valid(1,2,3) dim by (auto simp: length_body_of)
  show ?thesis
    using lims assms(4) strict_frame_body_of [OF assms(1,3)]
    by (simp add: strict_step_def hd n length_frame_of)
qed

lemma strict_step_sound:
  assumes "strict_step dm mx c bs = Inr (n, opc, sn, rest)" "1 \<le> dm" "dm \<le> 65536"
  shows "\<exists>rec. bs = frame_of rec @ rest \<and> n = length (frame_of rec) \<and> wal_fits dm rec \<and>
    wOp rec = opc \<and> snapshot_of rec = sn"
proof -
  obtain hb r body where r: "readFull 4 bs = Some (hb, r)" "readFull (le_nat hb) r = Some (body, rest)"
    "strict_frame dm body = Inr (opc, sn)" "n = 4 + le_nat hb"
    using assms(1) by (auto simp: strict_step_def Let_def split: option.splits if_splits sum.splits)
  obtain rec where rec: "body = body_of rec" "wal_fits dm rec" "wOp rec = opc" "snapshot_of rec = sn"
    using strict_frame_sound [OF r(3) assms(2,3)] by blast
  have "length hb = 4" "le_nat hb = length body" "bs = hb @ body @ rest"
    using readFull_SomeD [OF r(1)] readFull_SomeD [OF r(2)] by auto
  then have "hb = le_bytes 4 (length body)" by (metis le_bytes_le_nat)
  with \<open>bs = hb @ body @ rest\<close> \<open>le_nat hb = length body\<close> rec r(4) show ?thesis
    by (intro exI [of _ rec]) (simp add: frame_of_eq)
qed

section \<open>A torn tail is recognised and cut off\<close>

lemma partialWALLength_prefix:
  assumes "minimum \<le> n" "n \<le> maximum" "j \<le> 4"
  shows "partialWALLength (take j (le_bytes 4 n)) minimum maximum"
proof -
  let ?step = "2 ^ (8 * j) :: nat"
  have step: "256 ^ j = ?step" by (simp add: power_mult)
  have low: "le_nat (take j (le_bytes 4 n)) = n mod ?step"
    using assms(3) by (simp add: take_le_bytes le_nat_le_bytes step)
  have "n mod ?step + (minimum - n mod ?step + ?step - 1) div ?step * ?step \<le> n"
    if "n mod ?step < minimum"
  proof -
    have n: "n = n mod ?step + n div ?step * ?step" by (rule mod_div_mult_eq [symmetric])
    have "0 < ?step" by simp
    then have "minimum - n mod ?step + ?step - 1 < n div ?step * ?step + ?step"
      using assms(1) that n by linarith
    then have "minimum - n mod ?step + ?step - 1 < (n div ?step + 1) * ?step" by simp
    then have "(minimum - n mod ?step + ?step - 1) div ?step < n div ?step + 1"
      by (rule less_mult_imp_div_less)
    then have "(minimum - n mod ?step + ?step - 1) div ?step * ?step \<le> n div ?step * ?step"
      by (intro mult_le_mono1) simp
    with n show ?thesis by linarith
  qed
  moreover have "n mod ?step \<le> maximum"
    using mod_less_eq_dividend assms(2) by (rule order_trans)
  ultimately show ?thesis
    using assms low by (auto simp: partialWALLength_def Let_def min_def)
qed

text \<open>
  One field of a frame cut off after \<open>k\<close> bytes: the check either stops without an error
  inside the field or goes on behind it.
\<close>

definition field_ok :: "nat \<Rightarrow> nat \<Rightarrow> nat \<Rightarrow> int \<Rightarrow> int \<Rightarrow> nat \<Rightarrow> bytes \<Rightarrow> bool" where
  "field_ok field opc dm declared fb limit a \<longleftrightarrow>
     length a < 256 ^ 4 \<and> length a \<le> limit \<and>
     (\<forall>j<4. incomplete_short field opc dm declared fb limit (take j (le_bytes 4 (length a))) = None) \<and>
     \<not> (field = 0 \<and> length a = 0
        \<or> field = 1 \<and> (opc = OpInsert \<and> length a \<noteq> dm * 4 \<or> opc = OpDelete \<and> length a \<noteq> 0)
        \<or> field = 2 \<and> opc = OpDelete \<and> length a \<noteq> 0) \<and>
     (let minimum = 25 + (fb + int (length a)) + (if field = 0 \<and> opc = OpInsert then int dm * 4 else 0)
      in minimum \<le> declared \<and>
         declared \<le> (if opc = OpInsert \<and> field < 2 then minimum + int mib else minimum)) \<and>
     (field = 1 \<longrightarrow> (\<forall>k. \<forall>v\<in>set (bytes_vec (take k a)). \<not> f32_isNaN v \<and> \<not> f32_isInf v))"

lemma incomplete_field_prefix:
  assumes ok: "field_ok field opc dm declared fb limit a"
  shows "incomplete_field field opc dm declared fb limit (take k (field_bytes a @ rest)) =
    (if k < 4 + length a then Inl None else Inr (fb + int (length a), take (k - (4 + length a)) rest))"
proof (cases "k < 4")
  case True
  then have t: "take k (field_bytes a @ rest) = take k (le_bytes 4 (length a))"
    by (simp add: field_bytes_def)
  show ?thesis using ok True unfolding t incomplete_field_def by (simp add: field_ok_def)
next
  case False
  define p where "p = take (k - 4) (a @ rest)"
  have t: "take k (field_bytes a @ rest) = le_bytes 4 (length a) @ p"
    using False by (simp add: field_bytes_def p_def)
  have n: "le_nat (le_bytes 4 (length a)) = length a"
    using ok by (intro le_nat_le_bytes_id) (simp add: field_ok_def)
  have "take (length a) p = take (k - 4) a" by (simp add: p_def take_append min_def)
  moreover have "length p < length a \<longleftrightarrow> k < 4 + length a" using False by (auto simp: p_def min_def)
  moreover have "drop (length a) p = take (k - (4 + length a)) rest"
    unfolding p_def drop_take by simp
  ultimately have tp: "take (length a) p = take (k - 4) a" "length p < length a \<longleftrightarrow> k < 4 + length a"
    "drop (length a) p = take (k - (4 + length a)) rest" by blast+
  have hd: "take 4 (le_bytes 4 (length a) @ p) = le_bytes 4 (length a)" "drop 4 (le_bytes 4 (length a) @ p) = p"
    "(length (le_bytes 4 (length a) @ p) < 4) = False" by simp_all
  have c1: "(limit < length a \<or> field = 0 \<and> length a = 0
      \<or> field = 1 \<and> (opc = OpInsert \<and> length a \<noteq> dm * 4 \<or> opc = OpDelete \<and> length a \<noteq> 0)
      \<or> field = 2 \<and> opc = OpDelete \<and> length a \<noteq> 0) = False"
    using ok unfolding field_ok_def by (meson not_le)
  let ?min = "25 + (fb + int (length a)) + (if field = 0 \<and> opc = OpInsert then int dm * 4 else 0)"
  have c2: "(declared < ?min \<or> (if opc = OpInsert \<and> field < 2 then ?min + int mib else ?min) < declared) = False"
    using ok unfolding field_ok_def Let_def by (meson not_le)
  have c3: "(field = 1 \<and> (\<exists>v\<in>set (bytes_vec (take (k - 4) a)). f32_isNaN v \<or> f32_isInf v)) = False"
    using ok unfolding field_ok_def by blast
  show ?thesis
    unfolding t incomplete_field_def Let_def hd n tp c1 c2 c3 if_False ..
qed

lemma OpInsert_neq_OpDelete [simp]: "OpInsert \<noteq> OpDelete" "OpDelete \<noteq> OpInsert"
  by (simp_all add: OpInsert_def OpDelete_def)

text \<open>A length field of which fewer than four bytes arrived, for each field and operation.\<close>

lemma short_id_insert:
  assumes "1 \<le> a" "a \<le> mib" "m \<le> mib" "j \<le> 4" "declared = 25 + int a + 4 * int dm + int m"
  shows "incomplete_short 0 OpInsert dm declared fb mib (take j (le_bytes 4 a)) = None"
proof -
  have "declared - 25 - int dm * 4 = int (a + m)" using assms(5) by simp
  then show ?thesis
    using assms(1-4) by (auto simp: incomplete_short_def Let_def intro!: partialWALLength_prefix)
qed

lemma short_id_delete:
  assumes "1 \<le> a" "a \<le> mib" "j \<le> 4" "declared = 25 + int a"
  shows "incomplete_short 0 OpDelete dm declared fb mib (take j (le_bytes 4 a)) = None"
proof -
  have "declared - 25 = int a" using assms(4) by simp
  then show ?thesis
    using assms(1-3) by (auto simp: incomplete_short_def Let_def intro!: partialWALLength_prefix)
qed

lemma short_vec:
  "j \<le> 4 \<Longrightarrow> n = (if opc = OpDelete then 0 else limit) \<Longrightarrow>
   incomplete_short 1 opc dm declared fb limit (take j (le_bytes 4 n)) = None"
  by (auto simp: incomplete_short_def Let_def intro!: partialWALLength_prefix)

lemma short_meta:
  assumes "j \<le> 4" "m \<le> mib" "opc = OpDelete \<Longrightarrow> m = 0" "declared = 25 + fb + int m"
  shows "incomplete_short 2 opc dm declared fb mib (take j (le_bytes 4 m)) = None"
proof -
  have "declared - 25 - fb = int m" using assms(4) by simp
  then show ?thesis
    using assms(1-3) by (auto simp: incomplete_short_def Let_def intro!: partialWALLength_prefix)
qed

lemma fields_ok:
  assumes fits: "wal_fits dm rec" and dm: "dm \<le> 65536"
  defines "declared \<equiv> int (length (body_of rec))"
  shows "field_ok 0 (wOp rec) dm declared 0 mib (wID rec)"
    "field_ok 1 (wOp rec) dm declared (int (length (wID rec))) (dm * 4) (vec_bytes (wVec rec))"
    "field_ok 2 (wOp rec) dm declared (int (length (wID rec)) + int (length (vec_bytes (wVec rec)))) mib (wMeta rec)"
proof -
  have v: "wal_valid rec" and dim: "wOp rec = OpInsert \<Longrightarrow> length (wVec rec) = dm"
    using fits by (auto simp: wal_fits_def)
  note valid = wal_validD [OF v] and sizes = wal_valid_field_sizes [OF v]
  have decl: "declared = 25 + int (length (wID rec)) + 4 * int (length (wVec rec)) + int (length (wMeta rec))"
    by (simp add: declared_def length_body_of)
  have id1: "1 \<le> length (wID rec)" using valid(1) by linarith
  have fin: "\<forall>k. \<forall>x\<in>set (bytes_vec (take k (vec_bytes (wVec rec)))). \<not> f32_isNaN x \<and> \<not> f32_isInf x"
    using valid(8) set_bytes_vec_take_vec_bytes by blast
  consider (ins) "wOp rec = OpInsert" "length (wVec rec) = dm"
    | (del) "wOp rec = OpDelete" "wVec rec = []" "wMeta rec = []"
    using valid(4,5) dim by blast
  then have "field_ok 0 (wOp rec) dm declared 0 mib (wID rec) \<and>
    field_ok 1 (wOp rec) dm declared (int (length (wID rec))) (dm * 4) (vec_bytes (wVec rec)) \<and>
    field_ok 2 (wOp rec) dm declared (int (length (wID rec)) + int (length (vec_bytes (wVec rec)))) mib (wMeta rec)"
  proof cases
    case ins
    have "incomplete_short 0 OpInsert dm declared 0 mib (take j (le_bytes 4 (length (wID rec)))) = None"
      if "j < 4" for j
      using that id1 valid(2,3) decl ins(2) by (intro short_id_insert [of _ "length (wMeta rec)"]) auto
    then have "field_ok 0 OpInsert dm declared 0 mib (wID rec)"
      using sizes(1) valid(1,2,3) decl ins(2) by (simp add: field_ok_def Let_def)
    moreover have "field_ok 1 OpInsert dm declared (int (length (wID rec))) (dm * 4) (vec_bytes (wVec rec))"
      using sizes(2) valid(3) decl ins(2) fin by (simp add: field_ok_def Let_def short_vec [where n = "4 * dm", simplified])
    moreover have "incomplete_short 2 OpInsert dm declared (int (length (wID rec)) + int (4 * length (wVec rec))) mib
        (take j (le_bytes 4 (length (wMeta rec)))) = None" if "j < 4" for j
      using that valid(3) decl by (intro short_meta) auto
    then have "field_ok 2 OpInsert dm declared (int (length (wID rec)) + int (length (vec_bytes (wVec rec)))) mib (wMeta rec)"
      using sizes(3) valid(3) decl by (simp add: field_ok_def Let_def)
    ultimately show ?thesis using ins(1) by simp
  next
    case del
    have decl': "declared = 25 + int (length (wID rec))" using decl del by simp
    have "incomplete_short 0 OpDelete dm declared 0 mib (take j (le_bytes 4 (length (wID rec)))) = None"
      if "j < 4" for j
      using that id1 valid(2) decl' by (intro short_id_delete) auto
    then have "field_ok 0 OpDelete dm declared 0 mib (wID rec)"
      using sizes(1) valid(1,2) decl' by (simp add: field_ok_def Let_def)
    moreover have "field_ok 1 OpDelete dm declared (int (length (wID rec))) (dm * 4) []"
      using decl' by (simp add: field_ok_def Let_def short_vec [where n = 0, simplified])
    moreover have "incomplete_short 2 OpDelete dm declared (int (length (wID rec))) mib (take j (le_bytes 4 0)) = None"
      if "j < 4" for j
      using that decl' by (intro short_meta) auto
    then have "field_ok 2 OpDelete dm declared (int (length (wID rec))) mib []"
      using decl' by (simp add: field_ok_def Let_def)
    ultimately show ?thesis using del by (simp add: vec_bytes_def)
  qed
  then show "field_ok 0 (wOp rec) dm declared 0 mib (wID rec)"
    "field_ok 1 (wOp rec) dm declared (int (length (wID rec))) (dm * 4) (vec_bytes (wVec rec))"
    "field_ok 2 (wOp rec) dm declared (int (length (wID rec)) + int (length (vec_bytes (wVec rec)))) mib (wMeta rec)"
    by blast+
qed

lemma validateIncomplete_prefix:
  assumes fits: "wal_fits dm rec" and dm: "dm \<le> 65536"
  shows "validateIncompleteWALFrame (take k (body_of rec)) (int (length (body_of rec))) dm = None"
proof (cases k)
  case 0
  then show ?thesis by (simp add: validateIncompleteWALFrame_def)
next
  case (Suc j)
  have v: "wal_valid rec" using fits by (auto simp: wal_fits_def)
  note valid = wal_validD [OF v] and ok = fields_ok [OF fits dm]
  let ?tail = "loc_bytes (wLoc rec)"
  let ?off = "nat (flOffset (wLoc rec) mod 2 ^ 64)"
  have "?off < 256 ^ 8" by (simp add: nat_less_iff)
  then have off: "int64_of (le_nat (le_bytes 8 ?off)) = flOffset (wLoc rec)"
    using valid(7) v by (simp only: le_nat_le_bytes_id int64_of_mod wal_valid_def)
  have tail: "\<not> (8 \<le> length (take i ?tail) \<and> int64_of (le_nat (take 8 (take i ?tail))) < 0)" for i
    using valid(7) off by (auto simp: loc_bytes_def min_def)
  have opc: "of_char (char_of (wOp rec mod 256)) = wOp rec"
    using valid(4) by (auto simp: OpInsert_def OpDelete_def)
  have body: "take k (body_of rec) = char_of (wOp rec mod 256) #
      take j (field_bytes (wID rec) @ field_bytes (vec_bytes (wVec rec)) @ field_bytes (wMeta rec) @ ?tail)"
    by (simp add: body_of_def frame_body_def Suc)
  have "incomplete_fields [(0, mib), (1, dm * 4), (2, mib)] (wOp rec) dm (int (length (body_of rec))) 0
      (take j (field_bytes (wID rec) @ field_bytes (vec_bytes (wVec rec)) @ field_bytes (wMeta rec) @ ?tail)) = None"
    using tail
    by (simp only: incomplete_fields.simps incomplete_field_prefix [OF ok(1)] incomplete_field_prefix [OF ok(2)]
        incomplete_field_prefix [OF ok(3)] add_0 sum.case prod.case if_False split: if_split) simp
  then show ?thesis
    unfolding validateIncompleteWALFrame_def body list.case Let_def opc
    using valid(4) by auto
qed

lemma walk_one_frame:
  assumes "wal_fits dm rec" "1 \<le> dm" "dm \<le> 65536"
  shows "WalkWALStrict (\<lambda>_. False) (frame_of rec) (int dm) (int (length (frame_of rec))) (\<lambda>s opc r. Inr s) () = Inr ()"
proof -
  have "strict_step dm (int (length (frame_of rec))) 0 (frame_of rec @ []) =
      Inr (length (frame_of rec), wOp rec, snapshot_of rec, [])"
    by (rule strict_step_frame [OF assms]) simp
  then show ?thesis
    using assms(2,3)
    by (simp add: WalkWALStrict_def walk_strict.simps [of _ _ _ _ _ _ "frame_of rec"]
        walk_strict.simps [of _ _ _ _ _ _ "[]"])
qed

lemma walk_one_frame_sound:
  assumes "WalkWALStrict (\<lambda>_. False) bs (int dm) (int (length bs)) (\<lambda>s opc r. Inr s) () = Inr ()"
    and "bs \<noteq> []" "4 + le_nat (take 4 bs) = length bs"
  shows "\<exists>rec. wal_fits dm rec \<and> bs = frame_of rec"
proof -
  have dm: "1 \<le> dm" "dm \<le> 65536" using assms(1) by (auto simp: WalkWALStrict_def split: if_splits)
  obtain n opc sn r where st: "strict_step dm (int (length bs)) 0 bs = Inr (n, opc, sn, r)"
    using assms(1,2)
    by (auto simp: WalkWALStrict_def walk_strict.simps [of _ _ _ _ _ _ bs] split: if_splits sum.splits)
  obtain rec where rec: "bs = frame_of rec @ r" "n = length (frame_of rec)" "wal_fits dm rec"
    using strict_step_sound [OF st dm] by blast
  have "take 4 bs = le_bytes 4 (length (body_of rec))" by (simp add: rec(1) frame_of_eq)
  then have "le_nat (take 4 bs) = length (body_of rec)"
    using rec(3) wal_valid_field_sizes(4) by (simp only: wal_fits_def le_nat_le_bytes_id)
  then have "length (frame_of rec @ r) = length (frame_of rec)"
    using assms(3) rec(1) by (simp add: length_frame_of)
  then show ?thesis using rec by auto
qed

lemma frame_of_head:
  assumes "wal_fits dm rec" "dm \<le> 65536"
  shows "le_nat (take 4 (frame_of rec @ rest)) = length (body_of rec)"
    "\<not> (length (body_of rec) < 26 \<or> 25 + 2 * mib + dm * 4 < length (body_of rec))"
proof -
  have v: "wal_valid rec" and dim: "length (wVec rec) \<le> dm"
    using assms(1) wal_validD [of rec] by (auto simp: wal_fits_def)
  show "le_nat (take 4 (frame_of rec @ rest)) = length (body_of rec)"
    using wal_valid_field_sizes(4) [OF v] by (simp add: frame_of_eq le_nat_le_bytes_id)
  show "\<not> (length (body_of rec) < 26 \<or> 25 + 2 * mib + dm * 4 < length (body_of rec))"
    using wal_validD(1,2,3) [OF v] dim by (auto simp: length_body_of)
qed

lemma complete_end_frame:
  assumes "wal_fits dm rec" "1 \<le> dm" "dm \<le> 65536"
  shows "complete_end dm c (frame_of rec @ rest) = complete_end dm (c + length (frame_of rec)) rest"
proof -
  have ne: "frame_of rec @ rest \<noteq> []" "\<not> length (frame_of rec @ rest) < 4"
    "\<not> length (frame_of rec @ rest) - 4 < length (body_of rec)"
    by (simp_all add: length_frame_of)
  have t: "take (4 + length (body_of rec)) (frame_of rec @ rest) = frame_of rec"
    "drop (4 + length (body_of rec)) (frame_of rec @ rest) = rest"
    by (simp_all add: length_frame_of)
  have m: "4 + int (length (body_of rec)) = int (length (frame_of rec))"
    by (simp add: length_frame_of)
  show ?thesis
    using ne frame_of_head(2) [OF assms(1,3)]
    by (subst complete_end.simps)
      (simp only: Let_def frame_of_head(1) [OF assms(1,3)] if_False t m walk_one_frame [OF assms] sum.case,
       simp only: length_frame_of)
qed

lemma complete_end_log:
  assumes "\<forall>rec\<in>set recs. wal_fits dm rec" "1 \<le> dm" "dm \<le> 65536"
  shows "complete_end dm c (wal_log recs @ rest) = complete_end dm (c + length (wal_log recs)) rest"
  using assms by (induction recs arbitrary: c) (simp_all add: complete_end_frame add.assoc)

lemma complete_end_torn:
  assumes "wal_fits dm rec" "dm \<le> 65536" "k < length (frame_of rec)"
  shows "complete_end dm c (take k (frame_of rec)) = Inr c"
proof (cases "k < 4")
  case True
  then have t: "take k (frame_of rec) = take k (le_bytes 4 (length (body_of rec)))"
    by (simp add: frame_of_eq)
  have "partialWALLength (take k (le_bytes 4 (length (body_of rec)))) 26 (25 + 2 * mib + dm * 4)"
    using frame_of_head(2) [OF assms(1,2)] True by (intro partialWALLength_prefix) auto
  with True show ?thesis unfolding t by (subst complete_end.simps) (simp add: Let_def)
next
  case False
  let ?bs = "take k (frame_of rec)"
  have t: "drop 4 ?bs = take (k - 4) (body_of rec)" using False by (simp add: frame_of_eq drop_take)
  have h: "le_nat (take 4 ?bs) = length (body_of rec)"
    using frame_of_head(1) [OF assms(1,2), of "[]"] False by simp
  have s: "?bs \<noteq> []" "\<not> length ?bs < 4" "length ?bs - 4 < length (body_of rec)"
    using False assms(3) by (auto simp: length_frame_of)
  show ?thesis
    using s frame_of_head(2) [OF assms(1,2)] validateIncomplete_prefix [OF assms(1,2), of "k - 4"]
    by (subst complete_end.simps) (simp only: Let_def h t if_False if_True option.case)
qed

text \<open>The records whose frames end within the first \<open>k\<close> bytes of the log.\<close>

fun complete_frames :: "nat \<Rightarrow> WALRecord list \<Rightarrow> WALRecord list" where
  "complete_frames k [] = []"
| "complete_frames k (rec # recs) =
     (if length (frame_of rec) \<le> k then rec # complete_frames (k - length (frame_of rec)) recs else [])"

lemma set_complete_frames: "set (complete_frames k recs) \<subseteq> set recs"
  by (induction k recs rule: complete_frames.induct) auto

lemma complete_frames_length: "length (wal_log (complete_frames k recs)) \<le> k"
  by (induction k recs rule: complete_frames.induct) auto

lemma complete_frames_append:
  "length (wal_log recs) \<le> k \<Longrightarrow> complete_frames k (recs @ recs') = recs @ complete_frames (k - length (wal_log recs)) recs'"
  by (induction recs arbitrary: k) auto

lemma prefix_complete_frames: "prefix (complete_frames k recs) recs"
  by (induction k recs rule: complete_frames.induct) auto

lemma complete_end_prefix:
  assumes "\<forall>rec\<in>set recs. wal_fits dm rec" "1 \<le> dm" "dm \<le> 65536"
  shows "complete_end dm c (take k (wal_log recs)) = Inr (c + length (wal_log (complete_frames k recs)))"
  using assms(1)
proof (induction recs arbitrary: c k)
  case Nil
  then show ?case by (subst complete_end.simps) simp
next
  case (Cons rec recs)
  show ?case
  proof (cases "length (frame_of rec) \<le> k")
    case True
    have "wal_fits dm rec" using Cons.prems by simp
    from complete_end_frame [OF this assms(2,3)] True show ?thesis using Cons by (simp add: add.assoc)
  next
    case False
    then show ?thesis using Cons.prems complete_end_torn [OF _ assms(3), of rec k c] by simp
  qed
qed

lemma take_complete_frames: "take (length (wal_log (complete_frames k recs))) (wal_log recs) = wal_log (complete_frames k recs)"
  by (induction k recs rule: complete_frames.induct) auto

lemma prepareRecovery_prefix:
  assumes "\<forall>rec\<in>set recs. wal_fits dm rec" "1 \<le> dm" "dm \<le> 65536"
  shows "WAL_prepareRecovery (int dm) (take k (wal_log recs)) = Inr (wal_log (complete_frames k recs))"
  using assms complete_end_prefix [OF assms, of 0 k]
  by (simp add: WAL_prepareRecovery_def complete_frames_length take_complete_frames min_absorb1)

lemma complete_end_sound:
  assumes "complete_end dm c bs = Inr c'"
  shows "\<exists>recs rest. bs = wal_log recs @ rest \<and> (\<forall>rec\<in>set recs. wal_fits dm rec) \<and> c' = c + length (wal_log recs)"
  using assms
proof (induction dm c bs rule: complete_end.induct)
  case (1 dm c bs)
  let ?size = "le_nat (take 4 bs)"
  let ?walk = "WalkWALStrict (\<lambda>_. False) (take (4 + ?size) bs) (int dm) (4 + int ?size) (\<lambda>s opc rec. Inr s) ()"
  show ?case
  proof (cases "c' = c")
    case True
    then show ?thesis by (intro exI [of _ "[]"] exI [of _ bs]) simp
  next
    case False
    then have step: "bs \<noteq> []" "\<not> length bs < 4" "\<not> (?size < 26 \<or> 25 + 2 * mib + dm * 4 < ?size)"
      "\<not> length bs - 4 < ?size" "?walk = Inr ()"
      and go: "complete_end dm (c + (4 + ?size)) (drop (4 + ?size) bs) = Inr c'"
      using "1.prems" by (subst (asm) complete_end.simps; auto simp: Let_def split: if_splits option.splits sum.splits)+
    obtain recs rest where ih: "drop (4 + ?size) bs = wal_log recs @ rest" "\<forall>rec\<in>set recs. wal_fits dm rec"
      "c' = c + (4 + ?size) + length (wal_log recs)"
      using "1.IH" [OF step(1) refl step(2) refl step(3,4,5) go] by blast
    have len: "length (take (4 + ?size) bs) = 4 + ?size" using step(2,4) by auto
    obtain rec where rec: "wal_fits dm rec" "take (4 + ?size) bs = frame_of rec"
      using walk_one_frame_sound [of "take (4 + ?size) bs" dm] step len by auto
    have "bs = wal_log (rec # recs) @ rest" using ih(1) rec(2) by (metis append_take_drop_id wal_log_Cons append.assoc)
    moreover have "c' = c + length (wal_log (rec # recs))" using ih(3) rec(2) len by simp
    ultimately show ?thesis using ih(2) rec(1) by (intro exI [of _ "rec # recs"] exI [of _ rest]) simp
  qed
qed

lemma prepareRecovery_sound:
  assumes "WAL_prepareRecovery dm file = Inr logb"
  shows "\<exists>recs. logb = wal_log recs \<and> prefix logb file \<and> (\<forall>rec\<in>set recs. wal_fits (nat dm) rec) \<and>
    recoverInternal logb = recs"
proof -
  obtain c where c: "complete_end (nat dm) 0 file = Inr c" "logb = take c file"
    using assms by (auto simp: WAL_prepareRecovery_def split: if_splits sum.splits)
  obtain recs rest where recs: "file = wal_log recs @ rest" "\<forall>rec\<in>set recs. wal_fits (nat dm) rec"
    "c = length (wal_log recs)"
    using complete_end_sound [OF c(1)] by auto
  then have "recoverInternal (wal_log recs) = recs" by (intro recover_log) (auto simp: wal_fits_def)
  with recs c show ?thesis by (intro exI [of _ recs]) auto
qed

section \<open>The strict walk on a whole log\<close>

text \<open>The callback applied to the records in order, until it returns an error.\<close>

fun visit_all :: "('s \<Rightarrow> nat \<Rightarrow> SnapshotRecord \<Rightarrow> wal_error + 's) \<Rightarrow> 's \<Rightarrow> WALRecord list \<Rightarrow> wal_error + 's" where
  "visit_all visit s [] = Inr s"
| "visit_all visit s (rec # recs) =
     (case visit s (wOp rec) (snapshot_of rec) of Inl e \<Rightarrow> Inl e | Inr s' \<Rightarrow> visit_all visit s' recs)"

lemma walk_strict_log:
  assumes "\<forall>rec\<in>set recs. wal_fits dm rec" "1 \<le> dm" "dm \<le> 65536" "c + int (length (wal_log recs)) \<le> mx"
  shows "walk_strict (\<lambda>_. False) visit dm mx c s (wal_log recs) = visit_all visit s recs"
  using assms(1,4)
proof (induction recs arbitrary: c s)
  case Nil
  then show ?case by (simp add: walk_strict.simps)
next
  case (Cons rec recs)
  have "strict_step dm mx c (frame_of rec @ wal_log recs) =
      Inr (length (frame_of rec), wOp rec, snapshot_of rec, wal_log recs)"
    using Cons.prems assms(2,3) by (intro strict_step_frame) auto
  then show ?case
    using Cons by (simp add: walk_strict.simps [of _ _ _ _ _ _ "frame_of rec @ wal_log recs"] split: sum.split)
qed

lemma walk_strict_sound:
  assumes "walk_strict (\<lambda>_. False) visit dm mx c s bs = Inr s'" "1 \<le> dm" "dm \<le> 65536" "c \<le> mx"
  shows "\<exists>recs. bs = wal_log recs \<and> (\<forall>rec\<in>set recs. wal_fits dm rec) \<and>
    c + int (length bs) \<le> mx \<and> visit_all visit s recs = Inr s'"
  using assms
proof (induction "\<lambda>_::int. False" visit dm mx c s bs rule: walk_strict.induct)
  case (1 visit dm mx c s bs)
  show ?case
  proof (cases "bs = []")
    case True
    then show ?thesis using "1.prems" by (intro exI [of _ "[]"]) (simp add: walk_strict.simps)
  next
    case False
    then obtain n opc sn r s1 where st: "strict_step dm mx c bs = Inr (n, opc, sn, r)" "visit s opc sn = Inr s1"
      and go: "walk_strict (\<lambda>_. False) visit dm mx (c + int n) s1 r = Inr s'"
      using "1.prems"(1) by (subst (asm) walk_strict.simps) (auto split: sum.splits)
    obtain rec where rec: "bs = frame_of rec @ r" "n = length (frame_of rec)" "wal_fits dm rec"
      "wOp rec = opc" "snapshot_of rec = sn"
      using strict_step_sound [OF st(1) "1.prems"(2,3)] by blast
    have "c + int n \<le> mx"
      using st(1) by (auto simp: strict_step_def Let_def split: option.splits if_splits sum.splits)
    then obtain recs where "r = wal_log recs" "\<forall>rec\<in>set recs. wal_fits dm rec"
      "c + int n + int (length r) \<le> mx" "visit_all visit s1 recs = Inr s'"
      using "1.hyps" [OF _ False st(1) refl refl refl st(2) go "1.prems"(2,3)] by blast
    with rec st show ?thesis by (intro exI [of _ "rec # recs"]) auto
  qed
qed

end
