(* ===== verification/WAL.thy ===== *)
theory WAL
  imports WAL_Recovery
begin

text \<open>
  The write-ahead log object of \<open>internal/store/wal.go\<close>: buffered writes, the flush with
  its \<open>fsync\<close>, the publication of a compacted file, and the group commit between the
  callers of \<open>FlushAsync\<close> and the \<open>fsyncLoop\<close> goroutine.

  \<open>walLog\<close> is the sequence of bytes the buffered writer accepted, in the order it passes
  them to the file; \<open>walSynced\<close> is the length of the prefix a successful \<open>fsync\<close> covered.
  A crash leaves the file with some prefix that is at least that long
  (\<open>WAL_crash_files\<close>). \<open>walErr\<close> is the sticky error of \<open>bufio.Writer\<close>. \<open>walPrev\<close> are the
  files a crash can still bring back after a rename whose directory was not yet synced.
  Outcomes of the file system are arguments.
\<close>

section \<open>The log object\<close>

record WAL =
  walLog :: bytes
  walSynced :: nat
  walErr :: bool
  walClosed :: bool
  walFileClosed :: bool
  walSyncCount :: "64 word"
  walPrev :: "(bytes \<times> nat) list"

datatype write_io = WriteOk | WriteFail nat
datatype flush_io = FlushOk | FlushFail | SyncFail

text \<open>The file as it was found, of which the first \<open>durable\<close> bytes are known to be on disk.\<close>

definition OpenWal :: "bytes \<Rightarrow> nat \<Rightarrow> WAL" where
  "OpenWal file durable =
     \<lparr>walLog = file, walSynced = min durable (length file), walErr = False, walClosed = False,
      walFileClosed = False, walSyncCount = 0, walPrev = []\<rparr>"

text \<open>
  A write error leaves a proper prefix of the frame in the buffer or the file and makes
  the writer refuse everything that follows.
\<close>

definition WAL_writeEntryLocked ::
  "write_io \<Rightarrow> nat \<Rightarrow> string \<Rightarrow> vec \<Rightarrow> bytes \<Rightarrow> FileLocation \<Rightarrow> WAL \<Rightarrow> wal_error option \<times> WAL" where
  "WAL_writeEntryLocked io opc rid vector metadata loc wal =
     (case writeWALEntryTo opc rid vector metadata loc of
        Inl e \<Rightarrow> (Some e, wal)
      | Inr frame \<Rightarrow>
          if walErr wal then (Some WalIOError, wal)
          else case io of
            WriteOk \<Rightarrow> (None, wal\<lparr>walLog := walLog wal @ frame\<rparr>)
          | WriteFail n \<Rightarrow>
              (Some WalIOError,
               wal\<lparr>walLog := walLog wal @ take (min n (length frame - 1)) frame, walErr := True\<rparr>))"

definition WAL_WriteEntryNoFlush ::
  "write_io \<Rightarrow> nat \<Rightarrow> string \<Rightarrow> vec \<Rightarrow> bytes \<Rightarrow> FileLocation \<Rightarrow> WAL \<Rightarrow> wal_error option \<times> WAL" where
  "WAL_WriteEntryNoFlush io opc rid vector metadata loc wal =
     WAL_writeEntryLocked io opc rid vector metadata loc wal"

definition WAL_flushSync :: "flush_io \<Rightarrow> WAL \<Rightarrow> wal_error option \<times> WAL" where
  "WAL_flushSync io wal =
     (let wal1 = wal\<lparr>walSyncCount := walSyncCount wal + 1\<rparr> in
      if walErr wal \<or> walFileClosed wal then (Some WalIOError, wal1)
      else case io of
        FlushFail \<Rightarrow> (Some WalIOError, wal1\<lparr>walErr := True\<rparr>)
      | SyncFail \<Rightarrow> (Some WalIOError, wal1)
      | FlushOk \<Rightarrow> (None, wal1\<lparr>walSynced := length (walLog wal)\<rparr>))"

definition WAL_WriteEntry ::
  "write_io \<Rightarrow> flush_io \<Rightarrow> nat \<Rightarrow> string \<Rightarrow> vec \<Rightarrow> bytes \<Rightarrow> FileLocation \<Rightarrow> WAL \<Rightarrow> wal_error option \<times> WAL" where
  "WAL_WriteEntry wio fio opc rid vector metadata loc wal =
     (case WAL_writeEntryLocked wio opc rid vector metadata loc wal of
        (Some e, wal') \<Rightarrow> (Some e, wal')
      | (None, wal') \<Rightarrow> WAL_flushSync fio wal')"

definition WAL_Flush :: "flush_io \<Rightarrow> WAL \<Rightarrow> wal_error option \<times> WAL" where
  "WAL_Flush io wal = WAL_flushSync io wal"

definition WAL_SyncCount :: "WAL \<Rightarrow> 64 word" where
  "WAL_SyncCount wal = walSyncCount wal"

text \<open>The caller has flushed and synced \<open>file\<close>; until the directory is synced a crash may bring back the old one.\<close>

definition WAL_replaceFile :: "bool \<Rightarrow> bytes \<Rightarrow> WAL \<Rightarrow> wal_error option \<times> WAL" where
  "WAL_replaceFile renamed file wal =
     (if walClosed wal then (Some WalClosed, wal)
      else if \<not> renamed then (Some WalIOError, wal)
      else (None, wal\<lparr>walLog := file, walSynced := length file, walErr := False,
                      walPrev := (walLog wal, walSynced wal) # walPrev wal\<rparr>))"

definition WAL_dirSync :: "WAL \<Rightarrow> WAL" where
  "WAL_dirSync wal = wal\<lparr>walPrev := []\<rparr>"

text \<open>The end of \<open>Close\<close>, once the loop has drained the pending flushes.\<close>

definition WAL_Close :: "flush_io \<Rightarrow> WAL \<Rightarrow> wal_error option \<times> WAL" where
  "WAL_Close io wal =
     (let wal1 = wal\<lparr>walClosed := True, walFileClosed := True\<rparr> in
      if walErr wal \<or> walFileClosed wal then (Some WalIOError, wal1)
      else case io of
        FlushFail \<Rightarrow> (Some WalIOError, wal1\<lparr>walErr := True\<rparr>)
      | SyncFail \<Rightarrow> (Some WalIOError, wal1)
      | FlushOk \<Rightarrow> (None, wal1\<lparr>walSynced := length (walLog wal)\<rparr>))"

definition WAL_crash_files :: "WAL \<Rightarrow> bytes set" where
  "WAL_crash_files wal =
     {take k b | k b s. (b, s) \<in> set ((walLog wal, walSynced wal) # walPrev wal) \<and> s \<le> k}"

section \<open>What the log holds\<close>

text \<open>
  \<open>recs\<close> are the records written; after a write error a cut frame follows them.
\<close>

definition wal_holds :: "nat \<Rightarrow> WALRecord list \<Rightarrow> bytes \<Rightarrow> bool \<Rightarrow> bool" where
  "wal_holds dm recs b err \<longleftrightarrow>
     (\<forall>rec\<in>set recs. wal_fits dm rec) \<and>
     (\<exists>rec n. wal_fits dm rec \<and> n < length (frame_of rec) \<and> (\<not> err \<longrightarrow> n = 0) \<and>
        b = wal_log recs @ take n (frame_of rec))"

definition wal_inv :: "nat \<Rightarrow> WALRecord list \<Rightarrow> WAL \<Rightarrow> bool" where
  "wal_inv dm recs wal \<longleftrightarrow> wal_holds dm recs (walLog wal) (walErr wal) \<and> walSynced wal \<le> length (walLog wal)"

text \<open>A record that fits every dimension of at least one, to name the empty tail.\<close>

definition tail_record :: WALRecord where
  "tail_record = \<lparr>wOp = OpDelete, wID = ''x'', wVec = [], wMeta = [], wLoc = noLocation\<rparr>"

lemma wal_fits_tail: "wal_fits dm tail_record"
  by (simp add: wal_fits_def wal_valid_def tail_record_def validateWALRecord_def mib_def noLocation_def)

lemma wal_holds_noerr: "wal_holds dm recs b False \<longleftrightarrow> (\<forall>rec\<in>set recs. wal_fits dm rec) \<and> b = wal_log recs"
proof -
  have "0 < length (frame_of tail_record)" by simp
  then show ?thesis using wal_fits_tail [of dm] by (auto simp: wal_holds_def)
qed

lemma wal_holds_err: "wal_holds dm recs b e \<Longrightarrow> wal_holds dm recs b True"
  by (auto simp: wal_holds_def)

lemma wal_inv_OpenWal: "\<forall>rec\<in>set recs. wal_fits dm rec \<Longrightarrow> wal_inv dm recs (OpenWal (wal_log recs) d)"
  by (simp add: wal_inv_def OpenWal_def wal_holds_noerr)

lemma writeWALEntryTo_eq:
  "writeWALEntryTo (wOp rec) (wID rec) (wVec rec) (wMeta rec) (wLoc rec) =
     (case validateWALRecord (wOp rec) (wID rec) (wVec rec) (wMeta rec) (wLoc rec) of
        Some e \<Rightarrow> Inl e | None \<Rightarrow> Inr (frame_of rec))"
  by (simp add: writeWALEntryTo_def frame_of_def split: option.split)

lemma writeEntry_inv:
  assumes inv: "wal_inv dm recs wal" and fits: "wal_fits dm rec"
    and w: "WAL_WriteEntryNoFlush io (wOp rec) (wID rec) (wVec rec) (wMeta rec) (wLoc rec) wal = (r, wal')"
  shows "wal_inv dm (if r = None then recs @ [rec] else recs) wal'" "walSynced wal' = walSynced wal"
    "walPrev wal' = walPrev wal" "prefix (walLog wal) (walLog wal')"
    "r = None \<Longrightarrow> \<not> walErr wal \<and> walLog wal' = walLog wal @ frame_of rec"
    "r = None \<or> walErr wal'"
proof -
  have v: "validateWALRecord (wOp rec) (wID rec) (wVec rec) (wMeta rec) (wLoc rec) = None"
    using fits by (simp add: wal_fits_def wal_valid_def)
  have cut: "min n (length (frame_of rec) - 1) < length (frame_of rec)" for n
    by (simp add: min_less_iff_disj)
  consider (sticky) "walErr wal" "r = Some WalIOError" "wal' = wal"
    | (ok) "\<not> walErr wal" "r = None" "wal' = wal\<lparr>walLog := walLog wal @ frame_of rec\<rparr>"
    | (torn) n where "\<not> walErr wal" "r = Some WalIOError"
        "wal' = wal\<lparr>walLog := walLog wal @ take (min n (length (frame_of rec) - 1)) (frame_of rec), walErr := True\<rparr>"
    using w by (cases io)
      (auto simp: WAL_WriteEntryNoFlush_def WAL_writeEntryLocked_def writeWALEntryTo_eq v split: if_splits)
  then show "wal_inv dm (if r = None then recs @ [rec] else recs) wal'"
  proof cases
    case torn
    have "wal_holds dm recs (wal_log recs @ take (min n (length (frame_of rec) - 1)) (frame_of rec)) True"
      using inv torn(1) fits cut by (auto simp: wal_inv_def wal_holds_noerr wal_holds_def)
    then show ?thesis using inv torn by (auto simp: wal_inv_def wal_holds_noerr)
  qed (use inv fits in \<open>auto simp: wal_inv_def wal_holds_noerr\<close>)
  show "walSynced wal' = walSynced wal" "walPrev wal' = walPrev wal" "prefix (walLog wal) (walLog wal')"
    "r = None \<Longrightarrow> \<not> walErr wal \<and> walLog wal' = walLog wal @ frame_of rec" "r = None \<or> walErr wal'"
    using w by (cases io;
      force simp: WAL_WriteEntryNoFlush_def WAL_writeEntryLocked_def writeWALEntryTo_eq v split: if_splits)+
qed

lemma flushSync_inv:
  assumes "wal_inv dm recs wal" "WAL_flushSync io wal = (r, wal')"
  shows "wal_inv dm recs wal'" "walLog wal' = walLog wal" "walSynced wal \<le> walSynced wal'" "walPrev wal' = walPrev wal"
    "r = None \<Longrightarrow> walSynced wal' = length (walLog wal') \<and> \<not> walErr wal'"
  using assms
  by (auto simp: WAL_flushSync_def Let_def wal_inv_def dest: wal_holds_err split: if_splits flush_io.splits)

lemma replaceFile_inv:
  assumes "\<forall>rec\<in>set recs. wal_fits dm rec" "WAL_replaceFile renamed (wal_log recs) wal = (None, wal')"
  shows "wal_inv dm recs wal'" "walSynced wal' = length (walLog wal')"
  using assms by (auto simp: WAL_replaceFile_def wal_inv_def wal_holds_noerr split: if_splits)

section \<open>A crash keeps every synced record and nothing that was not written\<close>

lemma complete_frames_take:
  "complete_frames k (recs @ recs') = complete_frames k recs \<or>
   (\<exists>k'. complete_frames k (recs @ recs') = recs @ complete_frames k' recs')"
  by (induction recs arbitrary: k) auto

lemma wal_holds_crash:
  assumes "wal_holds dm recs b e" "1 \<le> dm" "dm \<le> 65536"
  shows "\<exists>recs'. WAL_prepareRecovery (int dm) (take k b) = Inr (wal_log recs') \<and> prefix recs' recs \<and>
    (\<forall>early later. recs = early @ later \<longrightarrow> length (wal_log early) \<le> k \<longrightarrow> prefix early recs')"
proof -
  obtain rec n where recs: "\<forall>rec\<in>set recs. wal_fits dm rec" and rec: "wal_fits dm rec" "n < length (frame_of rec)"
    and b: "b = wal_log recs @ take n (frame_of rec)"
    using assms(1) by (auto simp: wal_holds_def)
  let ?all = "recs @ [rec]"
  define k' where "k' = min k (length (wal_log recs) + n)"
  have "b = take (length (wal_log recs) + n) (wal_log ?all)" by (simp add: b)
  then have "take k b = take k' (wal_log ?all)" by (simp only: take_take k'_def)
  moreover have "\<forall>rec\<in>set ?all. wal_fits dm rec" using recs rec by simp
  ultimately have prep: "WAL_prepareRecovery (int dm) (take k b) = Inr (wal_log (complete_frames k' ?all))"
    using prepareRecovery_prefix [of ?all dm k'] assms(2,3) by simp
  have "prefix (complete_frames k' ?all) recs"
  proof -
    have "length (wal_log (complete_frames k' ?all)) < length (wal_log ?all)"
      using complete_frames_length [of k' ?all] rec(2) by (simp add: k'_def)
    then have "complete_frames k' ?all \<noteq> ?all" by auto
    with prefix_complete_frames [of k' ?all] show ?thesis by simp
  qed
  moreover have "prefix early (complete_frames k' ?all)"
    if "recs = early @ later" "length (wal_log early) \<le> k" for early later
    using that complete_frames_append [of early k' "later @ [rec]"] by (simp add: k'_def)
  ultimately show ?thesis using prep by blast
qed

end
