(* ===== verification/Levara.thy ===== *)
theory Levara
  imports HNSW_Graph WAL
begin

text \<open>
  \<open>internal/store/db.go\<close>: the storage engine. The state is the struct \<open>Levara\<close>; an
  operation takes the outcomes of its system calls, the random levels of the graph nodes and
  the iteration order of a map as arguments and returns its error and the new state.

  An operation is written in the phases the source has: what it does before it takes
  \<open>db.mu\<close>, what it does under it, and the flush after it. A phase is atomic; the engine's
  steps in \<open>Levara_Steps\<close> interleave them. \<open>json.Marshal\<close> is an argument (\<open>marshal\<close>),
  because it depends on the Go type of the value. \<open>sort.Slice\<close> is \<open>sortSlice\<close>, which keeps
  the order of equal elements.
\<close>

section \<open>State\<close>

record pendingItem =
  piVector :: vec
  piID :: string
  piIdx :: nat

record Levara =
  dbIndex :: "string \<rightharpoonup> nat"
  dbRevIndex :: "string list"
  dbArena :: VectorArena
  dbMetaLocs :: "nat \<rightharpoonup> FileLocation"
  dbDisk :: DiskStore
  dbDim :: nat
  dbWal :: WAL
  dbBaseline :: int
  dbHnsw :: HNSWIndex
  dbHnswCfg :: HNSWConfig
  dbPending :: "pendingItem list"

datatype lv_error =
    LvMarshal | LvDim | LvRecord wal_error | LvDisk | LvArena arena_error | LvWal wal_error
  | LvFlush wal_error | LvNotFound | LvSnapshotVector | LvSnapshotLocation | LvSnapshotRead
  | LvDuplicateID | LvFile | LvPublished | LvRecovery wal_error

datatype 'v insert_data = DRaw bytes | DString string | DValue 'v

record 'v BatchItem =
  bID :: string
  bVector :: vec
  bData :: 'v

abbreviation lv_vec :: "Levara \<Rightarrow> vec_fn" where
  "lv_vec db \<equiv> VectorArena_getUnsafeNoLock (dbArena db)"

section \<open>The pending queue\<close>

fun removePendingItem :: "pendingItem list \<Rightarrow> pendingItem \<Rightarrow> pendingItem list" where
  "removePendingItem [] p = []"
| "removePendingItem (x # xs) p =
     (if piID x = piID p \<and> piIdx x = piIdx p then xs else x # removePendingItem xs p)"

definition removePendingItemsByID :: "pendingItem list \<Rightarrow> string \<Rightarrow> pendingItem list" where
  "removePendingItemsByID items i = filter (\<lambda>p. piID p \<noteq> i) items"

definition removePendingByID :: "Levara \<Rightarrow> string \<Rightarrow> Levara" where
  "removePendingByID db i = db\<lparr>dbPending := removePendingItemsByID (dbPending db) i\<rparr>"

text \<open>The indexer: it captures the first item, publishes it in the graph, then unlinks it.\<close>

definition indexer_take :: "Levara \<Rightarrow> pendingItem option" where
  "indexer_take db = (case dbPending db of [] \<Rightarrow> None | p # _ \<Rightarrow> Some p)"

definition indexer_add :: "dot_fn \<Rightarrow> nat \<Rightarrow> pendingItem \<Rightarrow> Levara \<Rightarrow> Levara" where
  "indexer_add dot level p db =
     db\<lparr>dbHnsw := HNSW_Add dot (lv_vec db) level (dbHnsw db) (piVector p) (piID p) (piIdx p)\<rparr>"

definition indexer_unlink :: "pendingItem \<Rightarrow> Levara \<Rightarrow> Levara" where
  "indexer_unlink p db = db\<lparr>dbPending := removePendingItem (dbPending db) p\<rparr>"

section \<open>The maps\<close>

definition clear_rev :: "nat \<Rightarrow> string list \<Rightarrow> string list" where
  "clear_rev idx rev_ix = (if idx < length rev_ix then rev_ix[idx := []] else rev_ix)"

definition replaceExistingLocked :: "Levara \<Rightarrow> string \<Rightarrow> Levara" where
  "replaceExistingLocked db i =
     (case dbIndex db i of
        None \<Rightarrow> db
      | Some oldIdx \<Rightarrow>
          removePendingByID
            (db\<lparr>dbRevIndex := clear_rev oldIdx (dbRevIndex db),
                dbMetaLocs := (dbMetaLocs db)(oldIdx := None),
                dbHnsw := MarkDeleted (dbHnsw db) oldIdx\<rparr>) i)"

definition grow_rev :: "nat \<Rightarrow> string list \<Rightarrow> string list" where
  "grow_rev idx rev_ix =
     (if length rev_ix \<le> idx then rev_ix @ replicate (idx + 1024 - length rev_ix) [] else rev_ix)"

definition store_maps :: "string \<Rightarrow> nat \<Rightarrow> FileLocation \<Rightarrow> Levara \<Rightarrow> Levara" where
  "store_maps i idx loc db =
     db\<lparr>dbIndex := (dbIndex db)(i \<mapsto> idx), dbRevIndex := (grow_rev idx (dbRevIndex db))[idx := i],
        dbMetaLocs := (dbMetaLocs db)(idx \<mapsto> loc)\<rparr>"

section \<open>Insert\<close>

definition insert_bytes :: "('v insert_data \<Rightarrow> bytes option) \<Rightarrow> 'v insert_data \<Rightarrow> bytes option" where
  "insert_bytes marshal data =
     (case data of
        DRaw b \<Rightarrow> Some b
      | DString s \<Rightarrow> (if 0 < length s \<and> (s ! 0 = CHR ''{'' \<or> s ! 0 = CHR ''['') then Some s else marshal data)
      | DValue _ \<Rightarrow> marshal data)"

definition Insert_check :: "Levara \<Rightarrow> string \<Rightarrow> vec \<Rightarrow> bytes \<Rightarrow> lv_error option" where
  "Insert_check db i vector b =
     (if length vector \<noteq> dbDim db then Some LvDim
      else case validateWALRecord OpInsert i vector b noLocation of
        Some e \<Rightarrow> Some (LvRecord e) | None \<Rightarrow> None)"

text \<open>The phase under \<open>db.mu\<close>: arena, log, maps, queue.\<close>

definition Insert_locked ::
  "write_io \<Rightarrow> string \<Rightarrow> vec \<Rightarrow> bytes \<Rightarrow> FileLocation \<Rightarrow> Levara \<Rightarrow> lv_error option \<times> Levara" where
  "Insert_locked wio i vector b loc db =
     (case VectorArena_Add (dbArena db) vector of
        Inl e \<Rightarrow> (Some (LvArena e), db)
      | Inr (idx, vector', arena') \<Rightarrow>
          (case WAL_WriteEntryNoFlush wio OpInsert i vector' b loc (dbWal db) of
             (Some e, wal') \<Rightarrow> (Some (LvWal e), db\<lparr>dbArena := arena', dbWal := wal'\<rparr>)
           | (None, wal') \<Rightarrow>
               let db1 = store_maps i idx loc (replaceExistingLocked (db\<lparr>dbArena := arena', dbWal := wal'\<rparr>) i)
               in (None, db1\<lparr>dbPending := dbPending db1 @ [\<lparr>piVector = vector', piID = i, piIdx = idx\<rparr>]\<rparr>)))"

definition FlushAsync :: "flush_io \<Rightarrow> Levara \<Rightarrow> wal_error option \<times> Levara" where
  "FlushAsync fio db =
     (if walClosed (dbWal db) then (Some WalClosed, db)
      else case WAL_flushSync fio (dbWal db) of (e, wal') \<Rightarrow> (e, db\<lparr>dbWal := wal'\<rparr>))"

definition Insert ::
  "('v insert_data \<Rightarrow> bytes option) \<Rightarrow> disk_io \<Rightarrow> write_io \<Rightarrow> flush_io \<Rightarrow> Levara \<Rightarrow> string \<Rightarrow> vec \<Rightarrow> 'v insert_data \<Rightarrow>
   lv_error option \<times> Levara" where
  "Insert marshal dio wio fio db i vector data =
     (case insert_bytes marshal data of
        None \<Rightarrow> (Some LvMarshal, db)
      | Some b \<Rightarrow>
          (case Insert_check db i vector b of
             Some e \<Rightarrow> (Some e, db)
           | None \<Rightarrow>
               (case DiskStore_Write dio (dbDisk db) b of
                  (Inl _, disk') \<Rightarrow> (Some LvDisk, db\<lparr>dbDisk := disk'\<rparr>)
                | (Inr loc, disk') \<Rightarrow>
                    (case Insert_locked wio i vector b loc (db\<lparr>dbDisk := disk'\<rparr>) of
                       (Some e, db1) \<Rightarrow> (Some e, db1)
                     | (None, db1) \<Rightarrow>
                         (case FlushAsync fio db1 of
                            (Some e, db2) \<Rightarrow> (Some (LvFlush e), db2)
                          | (None, db2) \<Rightarrow> (None, db2))))))"

definition insertInMemory ::
  "dot_fn \<Rightarrow> nat \<Rightarrow> Levara \<Rightarrow> string \<Rightarrow> vec \<Rightarrow> FileLocation \<Rightarrow> lv_error + Levara" where
  "insertInMemory dot level db i vector loc =
     (case VectorArena_Add (dbArena db) vector of
        Inl e \<Rightarrow> Inl (LvArena e)
      | Inr (idx, vector', arena') \<Rightarrow>
          let db1 = store_maps i idx loc (replaceExistingLocked (db\<lparr>dbArena := arena'\<rparr>) i)
          in Inr (db1\<lparr>dbHnsw := HNSW_Add dot (lv_vec db1) level (dbHnsw db1) vector' i idx\<rparr>))"

section \<open>BatchInsert\<close>

type_synonym batch_errors = "(nat \<times> string \<times> lv_error) list"

fun batch_prepare ::
  "('v \<Rightarrow> bytes option) \<Rightarrow> Levara \<Rightarrow> nat \<Rightarrow> 'v BatchItem list \<Rightarrow> (nat \<times> string \<times> vec \<times> bytes) list \<times> batch_errors" where
  "batch_prepare marshal db k [] = ([], [])"
| "batch_prepare marshal db k (rec # recs) =
     (case batch_prepare marshal db (k + 1) recs of (prepped, errs) \<Rightarrow>
        case marshal (bData rec) of
          None \<Rightarrow> (prepped, (k, bID rec, LvMarshal) # errs)
        | Some b \<Rightarrow>
            (case Insert_check db (bID rec) (bVector rec) b of
               Some e \<Rightarrow> (prepped, (k, bID rec, e) # errs)
             | None \<Rightarrow> ((k, bID rec, bVector rec, b) # prepped, errs)))"

fun batch_disk ::
  "(nat \<Rightarrow> disk_io) \<Rightarrow> DiskStore \<Rightarrow> (nat \<times> string \<times> vec \<times> bytes) list \<Rightarrow>
   (nat \<times> string \<times> vec \<times> bytes \<times> FileLocation) list \<times> batch_errors \<times> DiskStore" where
  "batch_disk dio disk [] = ([], [], disk)"
| "batch_disk dio disk ((k, i, v, b) # ps) =
     (case DiskStore_Write (dio k) disk b of
        (Inl _, disk') \<Rightarrow> (case batch_disk dio disk' ps of (ds, errs, disk'') \<Rightarrow> (ds, (k, i, LvDisk) # errs, disk''))
      | (Inr loc, disk') \<Rightarrow> (case batch_disk dio disk' ps of (ds, errs, disk'') \<Rightarrow> ((k, i, v, b, loc) # ds, errs, disk'')))"

text \<open>The loop under \<open>db.mu\<close>; \<open>toIndex\<close> is appended to the queue at its end.\<close>

fun batch_commit ::
  "(nat \<Rightarrow> write_io) \<Rightarrow> (nat \<times> string \<times> vec \<times> bytes \<times> FileLocation) list \<Rightarrow> pendingItem list \<Rightarrow> Levara \<Rightarrow>
   (nat \<times> string) list \<times> batch_errors \<times> pendingItem list \<times> Levara" where
  "batch_commit wio [] toIndex db = ([], [], toIndex, db)"
| "batch_commit wio ((k, i, v, b, loc) # ds) toIndex db =
     (case VectorArena_Add (dbArena db) v of
        Inl e \<Rightarrow>
          (case batch_commit wio ds toIndex db of (done, errs, toIndex', db') \<Rightarrow> (done, (k, i, LvArena e) # errs, toIndex', db'))
      | Inr (idx, v', arena') \<Rightarrow>
          (case WAL_WriteEntryNoFlush (wio k) OpInsert i v' b loc (dbWal db) of
             (Some e, wal') \<Rightarrow>
               (case batch_commit wio ds toIndex (db\<lparr>dbArena := arena', dbWal := wal'\<rparr>) of
                  (done, errs, toIndex', db') \<Rightarrow> (done, (k, i, LvWal e) # errs, toIndex', db'))
           | (None, wal') \<Rightarrow>
               (case batch_commit wio ds
                       (removePendingItemsByID toIndex i @ [\<lparr>piVector = v', piID = i, piIdx = idx\<rparr>])
                       (store_maps i idx loc (replaceExistingLocked (db\<lparr>dbArena := arena', dbWal := wal'\<rparr>) i)) of
                  (done, errs, toIndex', db') \<Rightarrow> ((k, i) # done, errs, toIndex', db'))))"

definition BatchInsert_locked ::
  "(nat \<Rightarrow> write_io) \<Rightarrow> (nat \<times> string \<times> vec \<times> bytes \<times> FileLocation) list \<Rightarrow> Levara \<Rightarrow>
   (nat \<times> string) list \<times> batch_errors \<times> Levara" where
  "BatchInsert_locked wio ds db =
     (case batch_commit wio ds [] db of
        (done, errs, toIndex, db') \<Rightarrow> (done, errs, db'\<lparr>dbPending := dbPending db' @ toIndex\<rparr>))"

definition BatchInsert ::
  "('v \<Rightarrow> bytes option) \<Rightarrow> (nat \<Rightarrow> disk_io) \<Rightarrow> (nat \<Rightarrow> write_io) \<Rightarrow> flush_io \<Rightarrow> Levara \<Rightarrow> 'v BatchItem list \<Rightarrow>
   batch_errors \<times> Levara" where
  "BatchInsert marshal dio wio fio db records =
     (case batch_prepare marshal db 0 records of (prepped, errs0) \<Rightarrow>
      case batch_disk dio (dbDisk db) prepped of (diskPrepped, errs1, disk') \<Rightarrow>
      case BatchInsert_locked wio diskPrepped (db\<lparr>dbDisk := disk'\<rparr>) of (done, errs2, db1) \<Rightarrow>
      case FlushAsync fio db1 of
        (None, db2) \<Rightarrow> (errs0 @ errs1 @ errs2, db2)
      | (Some e, db2) \<Rightarrow> (errs0 @ errs1 @ errs2 @ map (\<lambda>(k, i). (k, i, LvFlush e)) done, db2))"

section \<open>Get\<close>

definition Get :: "Levara \<Rightarrow> string \<Rightarrow> (vec option \<times> bytes option) option" where
  "Get db i =
     (case dbIndex db i of
        None \<Rightarrow> None
      | Some idx \<Rightarrow>
          let vec = (case VectorArena_Get (dbArena db) idx of Inl _ \<Rightarrow> None | Inr v \<Rightarrow> Some v);
              metaLoc = (case dbMetaLocs db idx of None \<Rightarrow> noLocation | Some l \<Rightarrow> l)
          in case DiskStore_Read (dbDisk db) metaLoc of
               Inl _ \<Rightarrow> Some (vec, None) | Inr m \<Rightarrow> Some (vec, Some m))"

section \<open>Search\<close>

definition worst_index :: "VectroRecord list \<Rightarrow> nat" where
  "worst_index best =
     foldl (\<lambda>worst k. if f32_lt (vrScore (best ! k)) (vrScore (best ! worst)) then k else worst) 0 [1..<length best]"

definition offer :: "nat \<Rightarrow> VectroRecord \<Rightarrow> VectroRecord list \<Rightarrow> VectroRecord list" where
  "offer topK candidate best =
     (if length best < topK then best @ [candidate]
      else
        let worst = worst_index best in
        if f32_gt (vrScore candidate) (vrScore (best ! worst)) then best[worst := candidate] else best)"

fun best_pending ::
  "dot_fn \<Rightarrow> vec \<Rightarrow> nat \<Rightarrow> pendingItem list \<Rightarrow> string set \<Rightarrow> VectroRecord list \<Rightarrow> VectroRecord list" where
  "best_pending dot normQ topK [] seen best = best"
| "best_pending dot normQ topK (p # ps) seen best =
     (if piID p \<in> seen then best_pending dot normQ topK ps seen best
      else best_pending dot normQ topK ps (insert (piID p) seen)
             (offer topK \<lparr>vrID = piID p, vrScore = f32_sub f32_one (dist dot normQ (piVector p)), vrData = ''{}''\<rparr> best))"

text \<open>The ranking, from one snapshot of the graph and the queue.\<close>

definition Search_rank :: "dot_fn \<Rightarrow> Levara \<Rightarrow> vec \<Rightarrow> nat \<Rightarrow> VectroRecord list" where
  "Search_rank dot db query topK =
     (let normQ = normalizeVec query;
          records = HNSW_Search dot (lv_vec db) (dbHnsw db) normQ topK
      in if dbPending db = [] then records
         else
           let best = best_pending dot normQ topK (dbPending db) (vrID ` set records) []
           in take topK (sortSlice (\<lambda>x y. f32_gt (vrScore x) (vrScore y)) (records @ best)))"

definition enrich :: "Levara \<Rightarrow> VectroRecord \<Rightarrow> VectroRecord" where
  "enrich db rec =
     (case dbIndex db (vrID rec) of
        None \<Rightarrow> rec
      | Some idx \<Rightarrow>
          (case dbMetaLocs db idx of
             None \<Rightarrow> rec
           | Some loc \<Rightarrow>
               (case DiskStore_Read (dbDisk db) loc of Inl _ \<Rightarrow> rec | Inr m \<Rightarrow> rec\<lparr>vrData := m\<rparr>)))"

definition Search :: "dot_fn \<Rightarrow> Levara \<Rightarrow> vec \<Rightarrow> int \<Rightarrow> VectroRecord list" where
  "Search dot db query topK =
     (if length query \<noteq> dbDim db \<or> topK \<le> 0 then []
      else map (enrich db) (Search_rank dot db query (nat topK)))"

section \<open>Delete\<close>

definition deleteLocked :: "write_io \<Rightarrow> Levara \<Rightarrow> string \<Rightarrow> lv_error option \<times> Levara" where
  "deleteLocked wio db i =
     (case dbIndex db i of
        None \<Rightarrow> (Some LvNotFound, db)
      | Some idx \<Rightarrow>
          (case WAL_WriteEntryNoFlush wio OpDelete i [] [] noLocation (dbWal db) of
             (Some e, wal') \<Rightarrow> (Some (LvWal e), db\<lparr>dbWal := wal'\<rparr>)
           | (None, wal') \<Rightarrow>
               (None,
                removePendingByID
                  (db\<lparr>dbWal := wal', dbIndex := (dbIndex db)(i := None),
                      dbRevIndex := clear_rev idx (dbRevIndex db),
                      dbMetaLocs := (dbMetaLocs db)(idx := None),
                      dbHnsw := MarkDeleted (dbHnsw db) idx\<rparr>) i)))"

definition Delete :: "write_io \<Rightarrow> flush_io \<Rightarrow> Levara \<Rightarrow> string \<Rightarrow> lv_error option \<times> Levara" where
  "Delete wio fio db i =
     (case deleteLocked wio db i of
        (Some e, db1) \<Rightarrow> (Some e, db1)
      | (None, db1) \<Rightarrow>
          (case FlushAsync fio db1 of
             (Some e, db2) \<Rightarrow> (Some (LvFlush e), db2)
           | (None, db2) \<Rightarrow> (None, db2)))"

fun batch_delete ::
  "(nat \<Rightarrow> write_io) \<Rightarrow> nat \<Rightarrow> string list \<Rightarrow> Levara \<Rightarrow> batch_errors \<times> (nat \<times> string) list \<times> Levara" where
  "batch_delete wio k [] db = ([], [], db)"
| "batch_delete wio k (i # is) db =
     (case deleteLocked (wio k) db i of
        (Some e, db1) \<Rightarrow> (case batch_delete wio (k + 1) is db1 of (errs, del, db2) \<Rightarrow> ((k, i, e) # errs, del, db2))
      | (None, db1) \<Rightarrow> (case batch_delete wio (k + 1) is db1 of (errs, del, db2) \<Rightarrow> (errs, (k, i) # del, db2)))"

definition BatchDelete :: "(nat \<Rightarrow> write_io) \<Rightarrow> flush_io \<Rightarrow> Levara \<Rightarrow> string list \<Rightarrow> batch_errors \<times> Levara" where
  "BatchDelete wio fio db is =
     (case batch_delete wio 0 is db of (errs, deleted, db1) \<Rightarrow>
        if deleted = [] then (errs, db1)
        else case FlushAsync fio db1 of
          (None, db2) \<Rightarrow> (errs, db2)
        | (Some e, db2) \<Rightarrow> (errs @ map (\<lambda>(k, i). (k, i, LvFlush e)) deleted, db2))"

section \<open>Inventory\<close>

text \<open>\<open>order\<close> is the order in which the map is iterated.\<close>

definition map_order :: "(string \<rightharpoonup> nat) \<Rightarrow> string list \<Rightarrow> bool" where
  "map_order m order \<longleftrightarrow> distinct order \<and> set order = dom m"

definition AllIDs :: "string list \<Rightarrow> Levara \<Rightarrow> string list" where
  "AllIDs order db = filter (\<lambda>i. dbIndex db i \<noteq> None) order"

definition Count :: "Levara \<Rightarrow> nat" where
  "Count db = card (dom (dbIndex db))"

definition snapshot_record :: "Levara \<Rightarrow> string \<Rightarrow> lv_error + SnapshotRecord" where
  "snapshot_record db i =
     (case dbIndex db i of
        None \<Rightarrow> Inl LvNotFound
      | Some idx \<Rightarrow>
          (case VectorArena_Get (dbArena db) idx of
             Inl _ \<Rightarrow> Inl LvSnapshotVector
           | Inr vec \<Rightarrow>
               (case dbMetaLocs db idx of
                  None \<Rightarrow> Inl LvSnapshotLocation
                | Some loc \<Rightarrow>
                    if flOffset loc < 0 \<or> flLength loc < 0 then Inl LvSnapshotLocation
                    else if flLength loc \<le> 0 then Inr \<lparr>snID = i, snVector = vec, snData = []\<rparr>
                    else case DiskStore_Read (dbDisk db) loc of
                      Inl _ \<Rightarrow> Inl LvSnapshotRead
                    | Inr m \<Rightarrow> Inr \<lparr>snID = i, snVector = vec, snData = m\<rparr>)))"

fun allRecordsLocked :: "string list \<Rightarrow> Levara \<Rightarrow> lv_error + SnapshotRecord list" where
  "allRecordsLocked [] db = Inr []"
| "allRecordsLocked (i # order) db =
     (case snapshot_record db i of
        Inl e \<Rightarrow> Inl e
      | Inr r \<Rightarrow> (case allRecordsLocked order db of Inl e \<Rightarrow> Inl e | Inr rs \<Rightarrow> Inr (r # rs)))"

definition AllRecordsChecked :: "string list \<Rightarrow> Levara \<Rightarrow> lv_error + SnapshotRecord list" where
  "AllRecordsChecked order db = allRecordsLocked order db"

definition AllRecords :: "string list \<Rightarrow> Levara \<Rightarrow> SnapshotRecord list" where
  "AllRecords order db = (case AllRecordsChecked order db of Inl _ \<Rightarrow> [] | Inr rs \<Rightarrow> rs)"

section \<open>Publication of a new log: RestoreSnapshot and Checkpoint\<close>

text \<open>What the file system answers, in the order of the calls.\<close>

record publish_io =
  pioCreate :: bool
  pioFlush :: bool
  pioSync :: bool
  pioRename :: bool
  pioDir :: bool
  pioStat :: bool

fun restore_check :: "nat \<Rightarrow> string list \<Rightarrow> SnapshotRecord list \<Rightarrow> lv_error option" where
  "restore_check dm seen [] = None"
| "restore_check dm seen (r # rs) =
     (if length (snVector r) \<noteq> dm then Some LvDim
      else case validateWALRecord OpInsert (snID r) (snVector r) (snData r) noLocation of
        Some e \<Rightarrow> Some (LvRecord e)
      | None \<Rightarrow> if snID r \<in> set seen then Some LvDuplicateID else restore_check dm (snID r # seen) rs)"

text \<open>The fresh in-memory state that is staged, with the log written beside it.\<close>

definition fresh_state :: "Levara \<Rightarrow> Levara" where
  "fresh_state db =
     db\<lparr>dbIndex := Map.empty, dbRevIndex := [], dbMetaLocs := Map.empty,
        dbArena := NewVectorArena (dbDim db), dbHnsw := NewHNSWIndex (dbHnswCfg db), dbPending := []\<rparr>"

text \<open>One record staged; an error comes with the state, whose disk may have grown.\<close>

definition restore_record ::
  "dot_fn \<Rightarrow> nat \<Rightarrow> disk_io \<Rightarrow> SnapshotRecord \<Rightarrow> Levara \<times> bytes \<Rightarrow> (lv_error \<times> DiskStore) + (Levara \<times> bytes)" where
  "restore_record dot level dio r st =
     (case st of (db, out) \<Rightarrow>
        case VectorArena_Add (dbArena db) (snVector r) of
          Inl e \<Rightarrow> Inl (LvArena e, dbDisk db)
        | Inr (idx, v, arena') \<Rightarrow>
            (case DiskStore_Write dio (dbDisk db) (snData r) of
               (Inl _, disk') \<Rightarrow> Inl (LvDisk, disk')
             | (Inr loc, disk') \<Rightarrow>
                 (case writeWALEntryTo OpInsert (snID r) v (snData r) loc of
                    Inl e \<Rightarrow> Inl (LvRecord e, disk')
                  | Inr frame \<Rightarrow>
                      let db1 = db\<lparr>dbArena := arena', dbDisk := disk', dbIndex := (dbIndex db)(snID r \<mapsto> idx),
                                   dbRevIndex := dbRevIndex db @ [snID r],
                                   dbMetaLocs := (dbMetaLocs db)(idx \<mapsto> loc)\<rparr>
                      in Inr (db1\<lparr>dbHnsw := HNSW_Add dot (lv_vec db1) level (dbHnsw db1) v (snID r) idx\<rparr>, out @ frame))))"

fun restore_records ::
  "dot_fn \<Rightarrow> (nat \<Rightarrow> nat) \<Rightarrow> (nat \<Rightarrow> disk_io) \<Rightarrow> nat \<Rightarrow> SnapshotRecord list \<Rightarrow> Levara \<times> bytes \<Rightarrow>
   (lv_error \<times> DiskStore) + (Levara \<times> bytes)" where
  "restore_records dot levels dio k [] st = Inr st"
| "restore_records dot levels dio k (r # rs) st =
     (case restore_record dot (levels k) (dio k) r st of
        Inl e \<Rightarrow> Inl e
      | Inr st' \<Rightarrow> restore_records dot levels dio (k + 1) rs st')"

definition RestoreSnapshot ::
  "dot_fn \<Rightarrow> (nat \<Rightarrow> nat) \<Rightarrow> (nat \<Rightarrow> disk_io) \<Rightarrow> publish_io \<Rightarrow> Levara \<Rightarrow> SnapshotRecord list \<Rightarrow> lv_error option \<times> Levara" where
  "RestoreSnapshot dot levels dio pio db records =
     (case restore_check (dbDim db) [] records of
        Some e \<Rightarrow> (Some e, db)
      | None \<Rightarrow>
          if \<not> pioCreate pio then (Some LvFile, db)
          else case restore_records dot levels dio 0 records (fresh_state db, []) of
            Inl (e, disk') \<Rightarrow> (Some e, db\<lparr>dbDisk := disk'\<rparr>)
          | Inr (db1, file) \<Rightarrow>
              let failed = db\<lparr>dbDisk := dbDisk db1\<rparr> in
              if \<not> pioFlush pio \<or> \<not> pioSync pio then (Some LvFile, failed)
              else case WAL_replaceFile (pioRename pio) file (dbWal db) of
                (Some e, _) \<Rightarrow> (Some (LvWal e), failed)
              | (None, wal') \<Rightarrow>
                  if \<not> pioDir pio then (Some LvPublished, db1\<lparr>dbWal := wal'\<rparr>)
                  else (None, db1\<lparr>dbWal := WAL_dirSync wal'\<rparr>))"

definition Clear :: "Levara \<Rightarrow> Levara" where
  "Clear db = fresh_state db"

fun checkpoint_frames :: "Levara \<Rightarrow> SnapshotRecord list \<Rightarrow> lv_error + bytes" where
  "checkpoint_frames db [] = Inr []"
| "checkpoint_frames db (r # rs) =
     (let metaLoc = (case dbIndex db (snID r) of
            None \<Rightarrow> (case dbMetaLocs db 0 of None \<Rightarrow> noLocation | Some l \<Rightarrow> l)
          | Some idx \<Rightarrow> (case dbMetaLocs db idx of None \<Rightarrow> noLocation | Some l \<Rightarrow> l)) in
      case writeWALEntryTo OpInsert (snID r) (snVector r) (snData r) metaLoc of
        Inl e \<Rightarrow> Inl (LvRecord e)
      | Inr frame \<Rightarrow> (case checkpoint_frames db rs of Inl e \<Rightarrow> Inl e | Inr out \<Rightarrow> Inr (frame @ out)))"

definition checkpointLocked :: "string list \<Rightarrow> publish_io \<Rightarrow> Levara \<Rightarrow> lv_error option \<times> Levara" where
  "checkpointLocked order pio db =
     (case allRecordsLocked order db of
        Inl e \<Rightarrow> (Some e, db)
      | Inr records \<Rightarrow>
          if \<not> pioCreate pio then (Some LvFile, db)
          else case checkpoint_frames db records of
            Inl e \<Rightarrow> (Some e, db)
          | Inr file \<Rightarrow>
              if \<not> pioFlush pio \<or> \<not> pioSync pio then (Some LvFile, db)
              else case WAL_replaceFile (pioRename pio) file (dbWal db) of
                (Some e, _) \<Rightarrow> (Some (LvWal e), db)
              | (None, wal') \<Rightarrow>
                  if \<not> pioDir pio then (Some LvPublished, db\<lparr>dbWal := wal'\<rparr>)
                  else if \<not> pioStat pio then (Some LvPublished, db\<lparr>dbWal := WAL_dirSync wal'\<rparr>)
                  else (None, db\<lparr>dbWal := WAL_dirSync wal', dbBaseline := int (length file)\<rparr>))"

definition Checkpoint :: "string list \<Rightarrow> publish_io \<Rightarrow> Levara \<Rightarrow> lv_error option \<times> Levara" where
  "Checkpoint order pio db = checkpointLocked order pio db"

text \<open>\<open>stat\<close> is the size of the log file, which the buffer may still have to reach.\<close>

definition checkpointIfWALGrewBy ::
  "string list \<Rightarrow> publish_io \<Rightarrow> int option \<Rightarrow> int \<Rightarrow> Levara \<Rightarrow> (lv_error + bool) \<times> Levara" where
  "checkpointIfWALGrewBy order pio stat threshold db =
     (case stat of
        None \<Rightarrow> (Inl LvFile, db)
      | Some fileSize \<Rightarrow>
          if fileSize < dbBaseline db then (Inr False, db\<lparr>dbBaseline := fileSize\<rparr>)
          else if fileSize - dbBaseline db \<le> threshold then (Inr False, db)
          else case checkpointLocked order pio db of
            (Some e, db1) \<Rightarrow> (Inl e, db1)
          | (None, db1) \<Rightarrow> (Inr True, db1))"

section \<open>Opening\<close>

definition replay_entry ::
  "dot_fn \<Rightarrow> nat \<Rightarrow> disk_io \<Rightarrow> WALRecord \<Rightarrow> Levara \<Rightarrow> lv_error + Levara" where
  "replay_entry dot level dio rec db =
     (if wOp rec = OpInsert then
        (if length (wVec rec) \<noteq> dbDim db then Inl LvDim
         else case DiskStore_Write dio (dbDisk db) (wMeta rec) of
           (Inl _, disk') \<Rightarrow> Inl LvDisk
         | (Inr newLoc, disk') \<Rightarrow> insertInMemory dot level (db\<lparr>dbDisk := disk'\<rparr>) (wID rec) (wVec rec) newLoc)
      else if wOp rec = OpDelete then
        (case dbIndex db (wID rec) of
           None \<Rightarrow> Inr db
         | Some idx \<Rightarrow>
             Inr (db\<lparr>dbIndex := (dbIndex db)(wID rec := None), dbRevIndex := clear_rev idx (dbRevIndex db),
                     dbMetaLocs := (dbMetaLocs db)(idx := None), dbHnsw := MarkDeleted (dbHnsw db) idx\<rparr>))
      else Inr db)"

fun replay_log ::
  "dot_fn \<Rightarrow> (nat \<Rightarrow> nat) \<Rightarrow> (nat \<Rightarrow> disk_io) \<Rightarrow> nat \<Rightarrow> WALRecord list \<Rightarrow> Levara \<Rightarrow> lv_error + Levara" where
  "replay_log dot levels dio k [] db = Inr db"
| "replay_log dot levels dio k (rec # recs) db =
     (case replay_entry dot (levels k) (dio k) rec db of
        Inl e \<Rightarrow> Inl e
      | Inr db' \<Rightarrow> replay_log dot levels dio (k + 1) recs db')"

text \<open>\<open>durable\<close> bytes of the log are known to be on disk; \<open>truncOk\<close> answers the truncation of \<open>meta.bin\<close>.\<close>

definition NewLevara ::
  "dot_fn \<Rightarrow> (nat \<Rightarrow> nat) \<Rightarrow> (nat \<Rightarrow> disk_io) \<Rightarrow> bool \<Rightarrow> nat \<Rightarrow> nat \<Rightarrow> HNSWConfig \<Rightarrow> bytes \<Rightarrow> bytes \<Rightarrow> lv_error + Levara" where
  "NewLevara dot levels dio truncOk durable dm cfg walFile metaFile =
     (case WAL_prepareRecovery (int dm) walFile of
        Inl e \<Rightarrow> Inl (LvRecovery e)
      | Inr logged \<Rightarrow>
          if \<not> truncOk then Inl LvDisk
          else
            let db = \<lparr>dbIndex = Map.empty, dbRevIndex = [], dbArena = NewVectorArena dm, dbMetaLocs = Map.empty,
                      dbDisk = DiskStore_Truncate (NewDiskStore metaFile), dbDim = dm,
                      dbWal = OpenWal logged durable, dbBaseline = 0,
                      dbHnsw = NewHNSWIndex cfg, dbHnswCfg = cfg, dbPending = []\<rparr>
            in case replay_log dot levels dio 0 (WAL_RecoverEx logged) db of
                 Inl e \<Rightarrow> Inl e
               | Inr db' \<Rightarrow> Inr (db'\<lparr>dbBaseline := int (length logged)\<rparr>))"

definition Close :: "flush_io \<Rightarrow> Levara \<Rightarrow> lv_error option \<times> Levara" where
  "Close fio db =
     (case WAL_Close fio (dbWal db) of
        (Some e, wal') \<Rightarrow> (Some (LvWal e), db\<lparr>dbWal := wal'\<rparr>)
      | (None, wal') \<Rightarrow> (None, db\<lparr>dbWal := wal'\<rparr>))"

end
