(* ===== verification/Levara_Inv.thy ===== *)
theory Levara_Inv
  imports Levara
begin

text \<open>
  The invariant of the storage engine and what every phase of an operation does to it and to
  its contents. \<open>lv_abs\<close> is the map from record ids to vectors and metadata that a client
  sees; \<open>log_map\<close> is the map a log stands for.
\<close>

section \<open>Contents\<close>

definition disk_bytes :: "DiskStore \<Rightarrow> FileLocation \<Rightarrow> bytes" where
  "disk_bytes ds loc = take (nat (flLength loc)) (drop (nat (flOffset loc)) (dsFile ds))"

definition lv_abs :: "Levara \<Rightarrow> string \<rightharpoonup> (vec \<times> bytes)" where
  "lv_abs db = (\<lambda>i. case dbIndex db i of
      None \<Rightarrow> None
    | Some idx \<Rightarrow> Some (arena_vecs (dbArena db) ! idx, disk_bytes (dbDisk db) (the (dbMetaLocs db idx))))"

definition log_step :: "(string \<rightharpoonup> (vec \<times> bytes)) \<Rightarrow> WALRecord \<Rightarrow> string \<rightharpoonup> (vec \<times> bytes)" where
  "log_step m rec =
     (if wOp rec = OpInsert then m(wID rec \<mapsto> (wVec rec, wMeta rec))
      else if wOp rec = OpDelete then m(wID rec := None) else m)"

definition log_map :: "WALRecord list \<Rightarrow> string \<rightharpoonup> (vec \<times> bytes)" where
  "log_map recs = foldl log_step Map.empty recs"

text \<open>A record in memory has the metadata of the log and its vector, or that vector normalized once more.\<close>

definition stored_as :: "vec \<times> bytes \<Rightarrow> vec \<times> bytes \<Rightarrow> bool" where
  "stored_as x y \<longleftrightarrow> snd x = snd y \<and> (fst x = fst y \<or> fst x = arena_normalize (fst y))"

definition lv_logged :: "Levara \<Rightarrow> WALRecord list \<Rightarrow> bool" where
  "lv_logged db recs \<longleftrightarrow> (\<forall>i. rel_option stored_as (lv_abs db i) (log_map recs i))"

section \<open>The invariant\<close>

definition loc_ok :: "DiskStore \<Rightarrow> FileLocation \<Rightarrow> bool" where
  "loc_ok ds loc \<longleftrightarrow>
     0 \<le> flOffset loc \<and> flOffset loc < 2 ^ 63 \<and> 0 \<le> flLength loc \<and> flLength loc \<le> int mib \<and>
     nat (flOffset loc) + nat (flLength loc) \<le> length (dsFile ds)"

definition lv_static :: "Levara \<Rightarrow> bool" where
  "lv_static db \<longleftrightarrow>
     arena_inv (dbArena db) \<and> arDim (dbArena db) = dbDim db \<and> 1 \<le> dbDim db \<and> dbDim db \<le> 65536 \<and> disk_inv (dbDisk db)"

definition lv_index :: "Levara \<Rightarrow> bool" where
  "lv_index db \<longleftrightarrow>
     (\<forall>i idx. dbIndex db i = Some idx \<longrightarrow>
        i \<noteq> [] \<and> idx < arTotalVectors (dbArena db) \<and> idx < length (dbRevIndex db) \<and> dbRevIndex db ! idx = i \<and>
        (\<exists>loc. dbMetaLocs db idx = Some loc \<and> loc_ok (dbDisk db) loc)) \<and>
     (\<forall>idx<length (dbRevIndex db). dbRevIndex db ! idx \<noteq> [] \<longrightarrow> dbIndex db (dbRevIndex db ! idx) = Some idx) \<and>
     (\<forall>idx. dbMetaLocs db idx \<noteq> None \<longrightarrow> (\<exists>i. dbIndex db i = Some idx))"

text \<open>The graph and the queue: \<open>ps\<close> are the items waiting, \<open>pub\<close> the one that is published but still linked.\<close>

definition lv_graph :: "nat option \<Rightarrow> pendingItem list \<Rightarrow> Levara \<Rightarrow> bool" where
  "lv_graph pub ps db \<longleftrightarrow>
     hnsw_inv (arTotalVectors (dbArena db)) (dbHnsw db) \<and>
     (\<forall>off\<in>hDeleted (dbHnsw db). off < arTotalVectors (dbArena db)) \<and>
     (\<forall>p<length (hObjs (dbHnsw db)). \<not> isDeleted (dbHnsw db) (nArenaOffset (obj (dbHnsw db) p)) \<longrightarrow>
        dbIndex db (nID (obj (dbHnsw db) p)) = Some (nArenaOffset (obj (dbHnsw db) p))) \<and>
     (\<forall>i idx. dbIndex db i = Some idx \<longrightarrow>
        \<not> isDeleted (dbHnsw db) idx \<and> (nodeByOffset (dbHnsw db) idx \<noteq> None \<or> idx \<in> piIdx ` set ps)) \<and>
     (\<forall>p\<in>set ps. dbIndex db (piID p) = Some (piIdx p) \<and> piVector p = arena_vecs (dbArena db) ! piIdx p \<and>
        (nodeByOffset (dbHnsw db) (piIdx p) = None \<or> pub = Some (piIdx p))) \<and>
     distinct (map piIdx ps)"

definition lv_mem :: "nat option \<Rightarrow> Levara \<Rightarrow> bool" where
  "lv_mem pub db \<longleftrightarrow> lv_static db \<and> lv_index db \<and> lv_graph pub (dbPending db) db"

text \<open>Room for one more vector and one more metadata record.\<close>

definition lv_room :: "Levara \<Rightarrow> bool" where
  "lv_room db \<longleftrightarrow> Suc (arTotalVectors (dbArena db)) < 2 ^ 32 \<and> dsPos (dbDisk db) < 2 ^ 63"

section \<open>Disk locations\<close>

lemma loc_ok_holds: "loc_ok ds loc \<Longrightarrow> disk_holds ds loc (disk_bytes ds loc)"
  by (auto simp: loc_ok_def disk_holds_def disk_bytes_def min_def)

lemma disk_holds_bytes: "disk_holds ds loc b \<Longrightarrow> disk_bytes ds loc = b"
  by (simp add: disk_holds_def disk_bytes_def)

lemma disk_write_bytes:
  assumes "loc_ok ds loc" "DiskStore_Write io ds data = (r, ds')"
  shows "loc_ok ds' loc" "disk_bytes ds' loc = disk_bytes ds loc"
proof -
  have "length (dsFile ds) \<le> length (dsFile ds')"
    using assms(2) by (auto simp: DiskStore_Write_def Let_def split: disk_io.splits)
  then show "loc_ok ds' loc" using assms(1) by (auto simp: loc_ok_def)
  show "disk_bytes ds' loc = disk_bytes ds loc"
    using disk_write_holds [OF loc_ok_holds [OF assms(1)] assms(2)] by (rule disk_holds_bytes)
qed

lemma disk_write_loc:
  assumes "disk_inv ds" "length data \<le> mib" "dsPos ds < 2 ^ 63" "DiskStore_Write io ds data = (Inr loc, ds')"
  shows "disk_inv ds'" "loc_ok ds' loc" "disk_bytes ds' loc = data"
proof -
  have "length data < 2 ^ 31" using assms(2) by (simp add: mib_def)
  note w = disk_write_ok [OF assms(1) this assms(4)]
  show "disk_inv ds'" by (fact w(1))
  show "disk_bytes ds' loc = data" using w(2) by (rule disk_holds_bytes)
  have "flOffset loc = int (dsPos ds)"
    using assms(4) by (auto simp: DiskStore_Write_def Let_def split: disk_io.splits)
  then show "loc_ok ds' loc" using w(2) assms(2,3) by (auto simp: loc_ok_def disk_holds_def)
qed

section \<open>Storing a record under the lock\<close>

text \<open>The state after the arena, the log and the maps were written.\<close>

definition lv_put :: "VectorArena \<Rightarrow> WAL \<Rightarrow> string \<Rightarrow> nat \<Rightarrow> FileLocation \<Rightarrow> Levara \<Rightarrow> Levara" where
  "lv_put arena' wal' i idx loc db =
     store_maps i idx loc (replaceExistingLocked (db\<lparr>dbArena := arena', dbWal := wal'\<rparr>) i)"

lemma lv_put_frame:
  "dbArena (lv_put a w i idx loc db) = a" "dbWal (lv_put a w i idx loc db) = w"
  "dbDisk (lv_put a w i idx loc db) = dbDisk db" "dbDim (lv_put a w i idx loc db) = dbDim db"
  "dbHnswCfg (lv_put a w i idx loc db) = dbHnswCfg db"
  "dbIndex (lv_put a w i idx loc db) = (dbIndex db)(i \<mapsto> idx)"
  "dbHnsw (lv_put a w i idx loc db) =
     (case dbIndex db i of None \<Rightarrow> dbHnsw db | Some j \<Rightarrow> MarkDeleted (dbHnsw db) j)"
  "dbMetaLocs (lv_put a w i idx loc db) =
     (case dbIndex db i of None \<Rightarrow> dbMetaLocs db | Some j \<Rightarrow> (dbMetaLocs db)(j := None))(idx \<mapsto> loc)"
  "dbPending (lv_put a w i idx loc db) =
     (case dbIndex db i of None \<Rightarrow> dbPending db | Some _ \<Rightarrow> removePendingItemsByID (dbPending db) i)"
  "dbRevIndex (lv_put a w i idx loc db) =
     (grow_rev idx (case dbIndex db i of None \<Rightarrow> dbRevIndex db | Some j \<Rightarrow> clear_rev j (dbRevIndex db)))[idx := i]"
  by (auto simp: lv_put_def store_maps_def replaceExistingLocked_def removePendingByID_def split: option.split)

lemma length_grow_rev: "idx < length (grow_rev idx r)" "length r \<le> length (grow_rev idx r)"
  by (auto simp: grow_rev_def)

lemma nth_grow_rev: "k < length (grow_rev idx r) \<Longrightarrow> grow_rev idx r ! k = (if k < length r then r ! k else [])"
  by (auto simp: grow_rev_def nth_append)

lemma clear_rev_nth: "length (clear_rev j r) = length r"
  "k < length r \<Longrightarrow> clear_rev j r ! k = (if k = j then [] else r ! k)"
  by (auto simp: clear_rev_def nth_list_update)

lemma lv_index_inj: "lv_index db \<Longrightarrow> dbIndex db i = Some x \<Longrightarrow> dbIndex db j = Some x \<Longrightarrow> i = j"
  unfolding lv_index_def by metis

lemma arena_add_facts:
  assumes "lv_static db" "lv_room db" "VectorArena_Add (dbArena db) v = Inr (idx, v', a')"
  shows "idx = arTotalVectors (dbArena db)" "arTotalVectors a' = Suc idx" "arena_inv a'" "arDim a' = dbDim db"
    "v' = arena_normalize v" "arena_vecs a' ! idx = v'" "length v' = dbDim db"
    "k < idx \<Longrightarrow> arena_vecs a' ! k = arena_vecs (dbArena db) ! k"
proof -
  have inv: "arena_inv (dbArena db)" and d: "arDim (dbArena db) = dbDim db" and room: "Suc (arTotalVectors (dbArena db)) < 2 ^ 32"
    using assms(1,2) by (auto simp: lv_static_def lv_room_def)
  note r = VectorArena_Add_refines [OF inv room assms(3)]
  show "idx = arTotalVectors (dbArena db)" "arena_inv a'" "v' = arena_normalize v" by (fact r)+
  have "length (arena_vecs a') = Suc (length (arena_vecs (dbArena db)))" by (simp add: r(4))
  then show "arTotalVectors a' = Suc idx" by (simp add: r(1))
  show "arDim a' = dbDim db" "length v' = dbDim db" using r d by simp_all
  show "arena_vecs a' ! idx = v'" by (simp add: r(4) r(1) nth_append)
  show "arena_vecs a' ! k = arena_vecs (dbArena db) ! k" if "k < idx" using that by (simp add: r(4) r(1) nth_append)
qed

lemma lv_put_index:
  assumes ix: "lv_index db" and st: "lv_static db" "lv_room db" and add: "VectorArena_Add (dbArena db) v = Inr (idx, v', a')"
    and i: "i \<noteq> []" and loc: "loc_ok (dbDisk db) loc"
  shows "lv_index (lv_put a' w i idx loc db)"
proof -
  note af = arena_add_facts [OF st add]
  let ?db = "lv_put a' w i idx loc db"
  let ?rev = "case dbIndex db i of None \<Rightarrow> dbRevIndex db | Some j \<Rightarrow> clear_rev j (dbRevIndex db)"
  have len: "length ?rev = length (dbRevIndex db)" by (simp add: clear_rev_nth split: option.split)
  have rnth: "?rev ! k = (if dbIndex db i = Some k then [] else dbRevIndex db ! k)" if "k < length (dbRevIndex db)" for k
    using that by (auto simp: clear_rev_nth split: option.split)
  have rev': "dbRevIndex ?db ! k = (if k = idx then i else if k < length (dbRevIndex db) then ?rev ! k else [])"
    if "k < length (dbRevIndex ?db)" for k
    using that len by (simp add: lv_put_frame nth_list_update nth_grow_rev)
  have I: "\<And>i idx. dbIndex db i = Some idx \<Longrightarrow> i \<noteq> [] \<and> idx < arTotalVectors (dbArena db) \<and> idx < length (dbRevIndex db) \<and>
        dbRevIndex db ! idx = i \<and> (\<exists>loc. dbMetaLocs db idx = Some loc \<and> loc_ok (dbDisk db) loc)"
    and R: "\<And>idx. idx < length (dbRevIndex db) \<Longrightarrow> dbRevIndex db ! idx \<noteq> [] \<Longrightarrow> dbIndex db (dbRevIndex db ! idx) = Some idx"
    and M: "\<And>idx. dbMetaLocs db idx \<noteq> None \<Longrightarrow> \<exists>i. dbIndex db i = Some idx"
    using ix unfolding lv_index_def by blast+
  show ?thesis
    unfolding lv_index_def
  proof (intro conjI allI impI)
    fix j k
    assume jk: "dbIndex ?db j = Some k"
    show "j \<noteq> []" "k < arTotalVectors (dbArena ?db)"
      using jk I [of j k] i af by (auto simp: lv_put_frame split: if_splits)
    have kl: "k < length (dbRevIndex db)" if "j \<noteq> i" using jk I [of j k] that by (simp add: lv_put_frame)
    have gl: "length (dbRevIndex db) \<le> length (dbRevIndex ?db)" "idx < length (dbRevIndex ?db)"
      using length_grow_rev len by (simp_all add: lv_put_frame) (metis length_grow_rev(2) len)
    show k': "k < length (dbRevIndex ?db)"
      using jk kl gl by (cases "j = i") (auto simp: lv_put_frame)
    show "dbRevIndex ?db ! k = j"
    proof (cases "j = i")
      case True
      then show ?thesis using jk rev' [OF k'] by (simp add: lv_put_frame)
    next
      case False
      then have j: "dbIndex db j = Some k" using jk by (simp add: lv_put_frame)
      have "k \<noteq> idx" using I [OF j] af(1) by simp
      moreover have "dbIndex db i \<noteq> Some k" using lv_index_inj [OF ix j, of i] False by auto
      ultimately show ?thesis using rev' [OF k'] rnth kl [OF False] I [OF j] by simp
    qed
    show "\<exists>loc. dbMetaLocs ?db k = Some loc \<and> loc_ok (dbDisk ?db) loc"
    proof (cases "j = i")
      case True
      then show ?thesis using jk loc by (auto simp: lv_put_frame)
    next
      case False
      then have j: "dbIndex db j = Some k" using jk by (simp add: lv_put_frame)
      have "k \<noteq> idx" using I [OF j] af(1) by simp
      moreover have "dbIndex db i \<noteq> Some k" using lv_index_inj [OF ix j, of i] False by auto
      ultimately show ?thesis using I [OF j] by (auto simp: lv_put_frame split: option.split)
    qed
  next
    fix k
    assume k: "k < length (dbRevIndex ?db)" "dbRevIndex ?db ! k \<noteq> []"
    show "dbIndex ?db (dbRevIndex ?db ! k) = Some k"
    proof (cases "k = idx")
      case True
      then show ?thesis using rev' [OF k(1)] by (simp add: lv_put_frame(6))
    next
      case False
      then have kk: "k < length (dbRevIndex db)" "dbIndex db i \<noteq> Some k" "dbRevIndex ?db ! k = dbRevIndex db ! k"
        using rev' [OF k(1)] rnth [of k] k(2) by (auto split: if_splits)
      then have "dbIndex db (dbRevIndex db ! k) = Some k" using R k(2) by simp
      moreover from this have "dbRevIndex db ! k \<noteq> i" using kk(2) by auto
      ultimately show ?thesis using kk(3) by (simp add: lv_put_frame(6))
    qed
  next
    fix k
    assume "dbMetaLocs ?db k \<noteq> None"
    then have "k = idx \<or> dbMetaLocs db k \<noteq> None \<and> dbIndex db i \<noteq> Some k"
      by (auto simp: lv_put_frame split: option.splits if_splits)
    then show "\<exists>j. dbIndex ?db j = Some k"
      using M [of k] by (metis fun_upd_apply lv_put_frame(6))
  qed
qed

lemma removeByID_noop:
  "\<forall>p\<in>set ps. dbIndex db (piID p) = Some (piIdx p) \<Longrightarrow> dbIndex db i = None \<Longrightarrow> removePendingItemsByID ps i = ps"
  by (auto simp: removePendingItemsByID_def filter_id_conv)

lemma lv_put_pending:
  assumes "lv_graph pub (dbPending db @ X) db"
  shows "dbPending (lv_put a w i idx loc db) = removePendingItemsByID (dbPending db) i"
  using assms removeByID_noop [of "dbPending db" db i]
  by (auto simp: lv_put_frame lv_graph_def split: option.split)

lemma lv_put_deleted:
  "isDeleted (dbHnsw (lv_put a w i idx loc db)) k \<longleftrightarrow> isDeleted (dbHnsw db) k \<or> dbIndex db i = Some k"
  by (auto simp: lv_put_frame isDeleted_def MarkDeleted_def split: option.split)

lemma MarkDeleted_frame [simp]:
  "nodeByOffset (MarkDeleted h k) = nodeByOffset h" "obj (MarkDeleted h k) = obj h" "hObjs (MarkDeleted h k) = hObjs h"
  "hNodes (MarkDeleted h k) = hNodes h"
  by (simp_all add: fun_eq_iff MarkDeleted_def nodeByOffset_def obj_def)

lemma lv_put_nodes:
  "nodeByOffset (dbHnsw (lv_put a w i idx loc db)) = nodeByOffset (dbHnsw db)"
  "obj (dbHnsw (lv_put a w i idx loc db)) = obj (dbHnsw db)" "hObjs (dbHnsw (lv_put a w i idx loc db)) = hObjs (dbHnsw db)"
  by (simp_all add: lv_put_frame split: option.split)

lemma lv_put_graph:
  assumes ix: "lv_index db" and g: "lv_graph pub ps db"
    and st: "lv_static db" "lv_room db" and add: "VectorArena_Add (dbArena db) v = Inr (idx, v', a')"
  shows "lv_graph pub (removePendingItemsByID ps i @ [\<lparr>piVector = v', piID = i, piIdx = idx\<rparr>]) (lv_put a' w i idx loc db)"
proof -
  note af = arena_add_facts [OF st add]
  let ?db = "lv_put a' w i idx loc db" and ?h = "dbHnsw db" and ?n = "arTotalVectors (dbArena db)"
  let ?ps = "removePendingItemsByID ps i @ [\<lparr>piVector = v', piID = i, piIdx = idx\<rparr>]"
  have I: "\<And>j k. dbIndex db j = Some k \<Longrightarrow> k < ?n" using ix unfolding lv_index_def by blast
  have inv: "hnsw_inv ?n ?h" and del: "\<And>off. isDeleted ?h off \<Longrightarrow> off < ?n"
    and live: "\<And>p. p < length (hObjs ?h) \<Longrightarrow> \<not> isDeleted ?h (nArenaOffset (obj ?h p)) \<Longrightarrow>
        dbIndex db (nID (obj ?h p)) = Some (nArenaOffset (obj ?h p))"
    and vis: "\<And>j k. dbIndex db j = Some k \<Longrightarrow> \<not> isDeleted ?h k \<and> (nodeByOffset ?h k \<noteq> None \<or> k \<in> piIdx ` set ps)"
    and pend: "\<And>p. p \<in> set ps \<Longrightarrow> dbIndex db (piID p) = Some (piIdx p) \<and> piVector p = arena_vecs (dbArena db) ! piIdx p \<and>
        (nodeByOffset ?h (piIdx p) = None \<or> pub = Some (piIdx p))"
    and dist: "distinct (map piIdx ps)"
    using g unfolding lv_graph_def isDeleted_def by blast+
  have fresh: "nodeByOffset ?h idx = None"
    using hnsw_base_registered(3) [of ?n ?h idx] inv af(1) by (cases "nodeByOffset ?h idx") (auto simp: hnsw_inv_def)
  have psx: "p \<in> set ps \<and> piID p \<noteq> i \<or> p = \<lparr>piVector = v', piID = i, piIdx = idx\<rparr>" if "p \<in> set ?ps" for p
    using that by (auto simp: removePendingItemsByID_def)
  show ?thesis
    unfolding lv_graph_def lv_put_frame(1,6) lv_put_nodes lv_put_deleted
  proof (intro conjI allI ballI impI)
    have "hnsw_inv (Suc idx) ?h" using hnsw_inv_mono [OF inv] af(1) by simp
    then show "hnsw_inv (arTotalVectors a') (dbHnsw ?db)"
      using MarkDeleted_inv by (auto simp: lv_put_frame af(2) split: option.split)
  next
    fix off
    assume "off \<in> hDeleted (dbHnsw ?db)"
    then have "isDeleted ?h off \<or> dbIndex db i = Some off"
      using lv_put_deleted [of a' w i idx loc db off] by (simp add: isDeleted_def)
    then show "off < arTotalVectors a'" using del I af by fastforce
  next
    fix p
    assume p: "p < length (hObjs ?h)" "\<not> (isDeleted ?h (nArenaOffset (obj ?h p)) \<or> dbIndex db i = Some (nArenaOffset (obj ?h p)))"
    then have "dbIndex db (nID (obj ?h p)) = Some (nArenaOffset (obj ?h p))" using live by blast
    then show "((dbIndex db)(i \<mapsto> idx)) (nID (obj ?h p)) = Some (nArenaOffset (obj ?h p))" using p by auto
  next
    fix j k
    assume jk: "((dbIndex db)(i \<mapsto> idx)) j = Some k"
    show "\<not> (isDeleted ?h k \<or> dbIndex db i = Some k)"
    proof (cases "j = i")
      case True
      then show ?thesis using jk del [of k] I [of i k] af(1) by auto
    next
      case False
      then have "dbIndex db j = Some k" using jk by simp
      then show ?thesis using vis [of j k] lv_index_inj [OF ix, of j k i] False by auto
    qed
    show "nodeByOffset ?h k \<noteq> None \<or> k \<in> piIdx ` set ?ps"
    proof (cases "j = i")
      case True
      then show ?thesis using jk by simp
    next
      case False
      then have j: "dbIndex db j = Some k" using jk by simp
      show ?thesis
      proof (cases "nodeByOffset ?h k")
        case None
        then obtain p where p: "p \<in> set ps" "piIdx p = k" using vis [OF j] by auto
        then have "piID p = j" using pend [OF p(1)] lv_index_inj [OF ix _ j] by blast
        then have "p \<in> set ?ps" using False p(1) by (simp add: removePendingItemsByID_def)
        then show ?thesis using p(2) by blast
      qed simp
    qed
  next
    fix p
    assume p: "p \<in> set ?ps"
    from psx [OF p] show "((dbIndex db)(i \<mapsto> idx)) (piID p) = Some (piIdx p)" using pend by auto
    from psx [OF p] show "piVector p = arena_vecs a' ! piIdx p"
    proof
      assume "p \<in> set ps \<and> piID p \<noteq> i"
      then show ?thesis using pend [of p] I [of "piID p" "piIdx p"] af(8) [of "piIdx p"] af(1) by simp
    qed (simp add: af(6))
    from psx [OF p] show "nodeByOffset ?h (piIdx p) = None \<or> pub = Some (piIdx p)" using pend fresh by auto
  next
    have "distinct (map piIdx (removePendingItemsByID ps i))"
      using dist by (simp add: removePendingItemsByID_def distinct_map_filter)
    moreover have "idx \<notin> piIdx ` set ps" using pend I af(1) by fastforce
    ultimately show "distinct (map piIdx ?ps)" by (auto simp: removePendingItemsByID_def)
  qed
qed

lemma lv_put_abs:
  assumes ix: "lv_index db" and st: "lv_static db" "lv_room db" and add: "VectorArena_Add (dbArena db) v = Inr (idx, v', a')"
  shows "lv_abs (lv_put a' w i idx loc db) = (lv_abs db)(i \<mapsto> (v', disk_bytes (dbDisk db) loc))"
proof
  fix j
  note af = arena_add_facts [OF st add]
  let ?db = "lv_put a' w i idx loc db"
  show "lv_abs ?db j = ((lv_abs db)(i \<mapsto> (v', disk_bytes (dbDisk db) loc))) j"
  proof (cases "j = i")
    case True
    then show ?thesis by (simp add: lv_abs_def lv_put_frame(1,3,6,8) af(6))
  next
    case False
    show ?thesis
    proof (cases "dbIndex db j")
      case None
      then show ?thesis using False by (simp add: lv_abs_def lv_put_frame(6))
    next
      case (Some k)
      then have "k < idx" using ix af(1) unfolding lv_index_def by blast
      moreover have "dbIndex db i \<noteq> Some k" using lv_index_inj [OF ix Some, of i] False by auto
      ultimately show ?thesis
        using False Some af(8) by (auto simp: lv_abs_def lv_put_frame(1,3,6,8) split: option.split)
    qed
  qed
qed

lemma lv_put_static:
  assumes "lv_static db" "lv_room db" "VectorArena_Add (dbArena db) v = Inr (idx, v', a')"
  shows "lv_static (lv_put a' w i idx loc db)"
  using arena_add_facts [OF assms] assms(1) by (simp add: lv_static_def lv_put_frame)

section \<open>Insert\<close>

lemma lv_mem_arena:
  assumes mem: "lv_mem pub db" and room: "lv_room db" and add: "VectorArena_Add (dbArena db) v = Inr (idx, v', a')"
  shows "lv_mem pub (db\<lparr>dbArena := a', dbWal := w\<rparr>)" "lv_abs (db\<lparr>dbArena := a', dbWal := w\<rparr>) = lv_abs db"
proof -
  have st: "lv_static db" and ix: "lv_index db" and g: "lv_graph pub (dbPending db) db" using mem by (simp_all add: lv_mem_def)
  note af = arena_add_facts [OF st room add]
  have I: "\<And>j k. dbIndex db j = Some k \<Longrightarrow> k < idx" using ix af(1) unfolding lv_index_def by blast
  show "lv_abs (db\<lparr>dbArena := a', dbWal := w\<rparr>) = lv_abs db"
    using I af(8) by (auto simp: lv_abs_def fun_eq_iff split: option.split)
  have "lv_static (db\<lparr>dbArena := a', dbWal := w\<rparr>)" using st af by (simp add: lv_static_def)
  moreover have "lv_index (db\<lparr>dbArena := a', dbWal := w\<rparr>)" using ix I af(2) unfolding lv_index_def by fastforce
  moreover have "lv_graph pub (dbPending db) (db\<lparr>dbArena := a', dbWal := w\<rparr>)"
  proof -
    have "hnsw_inv (Suc idx) (dbHnsw db)" using g hnsw_inv_mono af(1) by (auto simp: lv_graph_def)
    moreover have "\<forall>off\<in>hDeleted (dbHnsw db). off < Suc idx" using g af(1) unfolding lv_graph_def by fastforce
    moreover have "piVector p = arena_vecs a' ! piIdx p" if "p \<in> set (dbPending db)" for p
      using g that I af(8) unfolding lv_graph_def by metis
    ultimately show ?thesis using g af(2) by (simp add: lv_graph_def)
  qed
  ultimately show "lv_mem pub (db\<lparr>dbArena := a', dbWal := w\<rparr>)" by (simp add: lv_mem_def)
qed

lemma lv_mem_pending:
  "lv_static db \<Longrightarrow> lv_index db \<Longrightarrow> lv_graph pub (dbPending db @ ps) db \<Longrightarrow>
   lv_mem pub (db\<lparr>dbPending := dbPending db @ ps\<rparr>)"
  by (simp add: lv_mem_def lv_static_def lv_index_def lv_graph_def)

lemma lv_abs_pending [simp]: "lv_abs (db\<lparr>dbPending := ps\<rparr>) = lv_abs db"
  by (auto simp: lv_abs_def fun_eq_iff split: option.split)

lemma Insert_locked_mem:
  assumes mem: "lv_mem pub db" and room: "lv_room db" and i: "i \<noteq> []" and loc: "loc_ok (dbDisk db) loc"
    and run: "Insert_locked wio i v b loc db = (r, db')"
  shows "lv_mem pub db'"
    "lv_abs db' = (if r = None then (lv_abs db)(i \<mapsto> (arena_normalize v, disk_bytes (dbDisk db) loc)) else lv_abs db)"
    "dbDisk db' = dbDisk db" "dbDim db' = dbDim db"
proof -
  have st: "lv_static db" and ix: "lv_index db" and g: "lv_graph pub (dbPending db) db" using mem by (simp_all add: lv_mem_def)
  consider (arena) e where "VectorArena_Add (dbArena db) v = Inl e" "r = Some (LvArena e)" "db' = db"
    | (wal) idx v' a' e w where "VectorArena_Add (dbArena db) v = Inr (idx, v', a')" "r = Some (LvWal e)"
        "db' = db\<lparr>dbArena := a', dbWal := w\<rparr>"
    | (ok) idx v' a' w where "VectorArena_Add (dbArena db) v = Inr (idx, v', a')" "r = None"
        "db' = (lv_put a' w i idx loc db)\<lparr>dbPending := dbPending (lv_put a' w i idx loc db) @
                 [\<lparr>piVector = v', piID = i, piIdx = idx\<rparr>]\<rparr>"
    using run by (auto simp: Insert_locked_def lv_put_def Let_def split: sum.splits prod.splits option.splits)
  then have "lv_mem pub db' \<and> dbDisk db' = dbDisk db \<and> dbDim db' = dbDim db \<and>
    lv_abs db' = (if r = None then (lv_abs db)(i \<mapsto> (arena_normalize v, disk_bytes (dbDisk db) loc)) else lv_abs db)"
  proof cases
    case arena
    then show ?thesis using mem by simp
  next
    case wal
    then show ?thesis using lv_mem_arena [OF mem room wal(1)] by simp
  next
    case ok
    let ?p = "lv_put a' w i idx loc db"
    have pend: "dbPending ?p = removePendingItemsByID (dbPending db) i" using lv_put_pending [of pub db "[]"] g by simp
    have "lv_mem pub db'"
      unfolding ok(3) using lv_put_graph [OF ix g st room ok(1), of i w loc] lv_put_static [OF st room ok(1)]
        lv_put_index [OF ix st room ok(1) i loc]
      by (intro lv_mem_pending) (simp_all add: pend)
    moreover have "lv_abs db' = (lv_abs db)(i \<mapsto> (v', disk_bytes (dbDisk db) loc))"
      unfolding ok(3) lv_abs_pending by (rule lv_put_abs [OF ix st room ok(1)])
    ultimately show ?thesis using ok arena_add_facts(5) [OF st room ok(1)] by (simp add: lv_put_frame)
  qed
  then show "lv_mem pub db'"
    "lv_abs db' = (if r = None then (lv_abs db)(i \<mapsto> (arena_normalize v, disk_bytes (dbDisk db) loc)) else lv_abs db)"
    "dbDisk db' = dbDisk db" "dbDim db' = dbDim db" by blast+
qed

end
