(* ===== verification/Levara_Ops.thy ===== *)
theory Levara_Ops
  imports Levara_Inv
begin

text \<open>
  The engine's phases keep its invariant together with the log: \<open>lv_inv pub recs db\<close> says
  that the memory state is consistent, that the log holds the records \<open>recs\<close>, and that
  their replay is what the engine contains.
\<close>

section \<open>The log side\<close>

definition lv_inv :: "nat option \<Rightarrow> WALRecord list \<Rightarrow> Levara \<Rightarrow> bool" where
  "lv_inv pub recs db \<longleftrightarrow> lv_mem pub db \<and> wal_inv (dbDim db) recs (dbWal db) \<and> lv_logged db recs"

lemma log_map_snoc: "log_map (recs @ [rec]) = log_step (log_map recs) rec"
  by (simp add: log_map_def)

lemma log_map_Nil [simp]: "log_map [] = Map.empty"
  by (simp add: log_map_def)

definition insert_record :: "string \<Rightarrow> vec \<Rightarrow> bytes \<Rightarrow> FileLocation \<Rightarrow> WALRecord" where
  "insert_record i v b loc = \<lparr>wOp = OpInsert, wID = i, wVec = v, wMeta = b, wLoc = loc\<rparr>"

definition delete_record :: "string \<Rightarrow> WALRecord" where
  "delete_record i = \<lparr>wOp = OpDelete, wID = i, wVec = [], wMeta = [], wLoc = noLocation\<rparr>"

lemma log_step_insert [simp]: "log_step m (insert_record i v b loc) = m(i \<mapsto> (v, b))"
  by (simp add: log_step_def insert_record_def)

lemma log_step_delete [simp]: "log_step m (delete_record i) = m(i := None)"
  by (simp add: log_step_def delete_record_def)

lemma stored_as_refl [simp]: "stored_as x x"
  by (simp add: stored_as_def)

text \<open>What a write leaves in the log, whether it is refused, torn or accepted.\<close>

definition wal_wrote :: "nat \<Rightarrow> WALRecord list \<Rightarrow> WALRecord \<Rightarrow> WAL \<Rightarrow> wal_error option \<Rightarrow> WAL \<Rightarrow> bool" where
  "wal_wrote dm recs rec wal r wal' \<longleftrightarrow>
     wal_inv dm (if r = None then recs @ [rec] else recs) wal' \<and> walSynced wal' = walSynced wal \<and>
     walPrev wal' = walPrev wal \<and> prefix (walLog wal) (walLog wal')"

lemma wal_wrote_insert:
  assumes inv: "wal_inv dm recs wal" and v: "length v = dm" and loc: "loc_ok ds loc"
    and run: "WAL_WriteEntryNoFlush io OpInsert i v b loc wal = (r, wal')"
  shows "wal_wrote dm recs (insert_record i v b loc) wal r wal'"
proof (cases "validateWALRecord OpInsert i v b loc")
  case None
  have "wal_fits dm (insert_record i v b loc)"
    using None v loc by (auto simp: wal_fits_def wal_valid_def insert_record_def loc_ok_def mib_def)
  from writeEntry_inv [OF inv this, of io r wal'] run show ?thesis
    by (auto simp: wal_wrote_def insert_record_def)
next
  case (Some e)
  then have "r = Some e" "wal' = wal"
    using run by (auto simp: WAL_WriteEntryNoFlush_def WAL_writeEntryLocked_def writeWALEntryTo_def)
  then show ?thesis using inv by (simp add: wal_wrote_def)
qed

lemma wal_wrote_delete:
  assumes inv: "wal_inv dm recs wal"
    and run: "WAL_WriteEntryNoFlush io OpDelete i [] [] noLocation wal = (r, wal')"
  shows "wal_wrote dm recs (delete_record i) wal r wal'"
proof (cases "validateWALRecord OpDelete i [] [] noLocation")
  case None
  have "wal_fits dm (delete_record i)"
    using None by (auto simp: wal_fits_def wal_valid_def delete_record_def noLocation_def)
  from writeEntry_inv [OF inv this, of io r wal'] run show ?thesis
    by (auto simp: wal_wrote_def delete_record_def)
next
  case (Some e)
  then have "r = Some e" "wal' = wal"
    using run by (auto simp: WAL_WriteEntryNoFlush_def WAL_writeEntryLocked_def writeWALEntryTo_def)
  then show ?thesis using inv by (simp add: wal_wrote_def)
qed

section \<open>Insert\<close>

lemma Insert_locked_cases:
  assumes "Insert_locked wio i v b loc db = (r, db')"
  obtains (arena) e where "VectorArena_Add (dbArena db) v = Inl e" "r = Some (LvArena e)" "db' = db"
    | (wal) idx v' a' e w where "VectorArena_Add (dbArena db) v = Inr (idx, v', a')" "r = Some (LvWal e)"
        "WAL_WriteEntryNoFlush wio OpInsert i v' b loc (dbWal db) = (Some e, w)" "dbWal db' = w"
    | (ok) idx v' a' w where "VectorArena_Add (dbArena db) v = Inr (idx, v', a')" "r = None"
        "WAL_WriteEntryNoFlush wio OpInsert i v' b loc (dbWal db) = (None, w)" "dbWal db' = w"
  using assms
  by (auto simp: Insert_locked_def lv_put_def [symmetric] lv_put_frame Let_def split: sum.splits prod.splits option.splits)

lemma Insert_locked_inv:
  assumes inv: "lv_inv pub recs db" and room: "lv_room db" and i: "i \<noteq> []" and loc: "loc_ok (dbDisk db) loc"
    and run: "Insert_locked wio i v b loc db = (r, db')" and b: "disk_bytes (dbDisk db) loc = b"
  shows "lv_inv pub (if r = None then recs @ [insert_record i (arena_normalize v) b loc] else recs) db'"
    "lv_abs db' = (if r = None then (lv_abs db)(i \<mapsto> (arena_normalize v, b)) else lv_abs db)"
    "walSynced (dbWal db') = walSynced (dbWal db)" "prefix (walLog (dbWal db)) (walLog (dbWal db'))"
proof -
  let ?rec = "insert_record i (arena_normalize v) b loc" and ?dm = "dbDim db"
  have mem: "lv_mem pub db" and w: "wal_inv ?dm recs (dbWal db)" and lg: "lv_logged db recs"
    using inv by (simp_all add: lv_inv_def)
  have st: "lv_static db" using mem by (simp add: lv_mem_def)
  note m = Insert_locked_mem [OF mem room i loc run]
  show abs: "lv_abs db' = (if r = None then (lv_abs db)(i \<mapsto> (arena_normalize v, b)) else lv_abs db)"
    using m(2) b by simp
  have wrote: "wal_wrote ?dm recs ?rec (dbWal db) (if r = None then None else Some WalIOError) (dbWal db')"
    using run
  proof (cases rule: Insert_locked_cases)
    case arena
    then show ?thesis using w by (simp add: wal_wrote_def)
  next
    case (wal idx v' a' e wl)
    note af = arena_add_facts [OF st room wal(1)]
    from wal_wrote_insert [OF w af(7) loc wal(3)] wal show ?thesis by (simp add: wal_wrote_def)
  next
    case (ok idx v' a' wl)
    note af = arena_add_facts [OF st room ok(1)]
    from wal_wrote_insert [OF w af(7) loc ok(3)] ok af(5) show ?thesis by (simp add: wal_wrote_def)
  qed
  then show "walSynced (dbWal db') = walSynced (dbWal db)" "prefix (walLog (dbWal db)) (walLog (dbWal db'))"
    by (simp_all add: wal_wrote_def)
  have "lv_logged db' (if r = None then recs @ [?rec] else recs)"
    using lg unfolding lv_logged_def abs by (simp add: log_map_snoc)
  then show "lv_inv pub (if r = None then recs @ [?rec] else recs) db'"
    using m wrote by (simp add: lv_inv_def wal_wrote_def split: if_splits)
qed

text \<open>Writing metadata touches nothing the engine already refers to.\<close>

lemma lv_mem_disk:
  assumes mem: "lv_mem pub db" and w: "DiskStore_Write io (dbDisk db) data = (r, ds')" and d: "disk_inv ds'"
  shows "lv_mem pub (db\<lparr>dbDisk := ds'\<rparr>)" "lv_abs (db\<lparr>dbDisk := ds'\<rparr>) = lv_abs db"
proof -
  have ix: "lv_index db" using mem by (simp add: lv_mem_def)
  have L: "\<exists>loc. dbMetaLocs db k = Some loc \<and> loc_ok (dbDisk db) loc" if "dbIndex db j = Some k" for j k
    using ix that unfolding lv_index_def by blast
  show "lv_abs (db\<lparr>dbDisk := ds'\<rparr>) = lv_abs db"
  proof
    fix j
    show "lv_abs (db\<lparr>dbDisk := ds'\<rparr>) j = lv_abs db j"
    proof (cases "dbIndex db j")
      case (Some k)
      then obtain loc where "dbMetaLocs db k = Some loc" "loc_ok (dbDisk db) loc" using L by blast
      then show ?thesis using Some disk_write_bytes(2) [OF _ w] by (simp add: lv_abs_def)
    qed (simp add: lv_abs_def)
  qed
  have lo: "\<And>loc. loc_ok (dbDisk db) loc \<Longrightarrow> loc_ok ds' loc" using disk_write_bytes(1) [OF _ w] .
  have fr: "dbIndex (db\<lparr>dbDisk := ds'\<rparr>) = dbIndex db" "dbRevIndex (db\<lparr>dbDisk := ds'\<rparr>) = dbRevIndex db"
    "dbMetaLocs (db\<lparr>dbDisk := ds'\<rparr>) = dbMetaLocs db" "dbArena (db\<lparr>dbDisk := ds'\<rparr>) = dbArena db" "dbDisk (db\<lparr>dbDisk := ds'\<rparr>) = ds'"
    by simp_all
  have "lv_index (db\<lparr>dbDisk := ds'\<rparr>)" unfolding lv_index_def fr using ix lo unfolding lv_index_def by blast
  then show "lv_mem pub (db\<lparr>dbDisk := ds'\<rparr>)" using mem d by (simp add: lv_mem_def lv_static_def lv_graph_def)
qed

lemma lv_inv_disk:
  assumes "lv_inv pub recs db" "DiskStore_Write io (dbDisk db) data = (r, ds')" "disk_inv ds'"
  shows "lv_inv pub recs (db\<lparr>dbDisk := ds'\<rparr>)"
proof -
  have "lv_mem pub db" using assms(1) by (simp add: lv_inv_def)
  from lv_mem_disk [OF this assms(2,3)] assms(1) show ?thesis by (simp add: lv_inv_def lv_logged_def)
qed

lemma FlushAsync_inv:
  assumes "lv_inv pub recs db" "FlushAsync fio db = (r, db')"
  shows "lv_inv pub recs db'" "lv_abs db' = lv_abs db" "walLog (dbWal db') = walLog (dbWal db)"
    "walSynced (dbWal db) \<le> walSynced (dbWal db')" "r = None \<Longrightarrow> walSynced (dbWal db') = length (walLog (dbWal db'))"
proof -
  have w: "wal_inv (dbDim db) recs (dbWal db)" using assms(1) by (simp add: lv_inv_def)
  obtain e wal' where fl: "WAL_flushSync fio (dbWal db) = (e, wal')" by (cases "WAL_flushSync fio (dbWal db)")
  note f = flushSync_inv [OF w fl]
  have eq: "db' = db \<and> r \<noteq> None \<or> db' = db\<lparr>dbWal := wal'\<rparr> \<and> r = e"
    using assms(2) fl by (auto simp: FlushAsync_def split: if_splits)
  have m: "lv_mem pub (db\<lparr>dbWal := wal'\<rparr>) = lv_mem pub db" "lv_abs (db\<lparr>dbWal := wal'\<rparr>) = lv_abs db"
    by (auto simp: lv_mem_def lv_static_def lv_index_def lv_graph_def lv_abs_def fun_eq_iff split: option.split)
  show "lv_inv pub recs db'" "lv_abs db' = lv_abs db" "walLog (dbWal db') = walLog (dbWal db)"
    "walSynced (dbWal db) \<le> walSynced (dbWal db')" "r = None \<Longrightarrow> walSynced (dbWal db') = length (walLog (dbWal db'))"
    using eq f assms(1) m by (auto simp: lv_inv_def lv_logged_def)
qed

section \<open>Delete\<close>

lemma lv_delete_mem:
  assumes mem: "lv_mem pub db" and idx: "dbIndex db i = Some idx"
    and db': "db' = removePendingByID
    (db\<lparr>dbWal := w, dbIndex := (dbIndex db)(i := None), dbRevIndex := clear_rev idx (dbRevIndex db),
        dbMetaLocs := (dbMetaLocs db)(idx := None), dbHnsw := MarkDeleted (dbHnsw db) idx\<rparr>) i"
  shows "lv_mem pub db'" "lv_abs db' = (lv_abs db)(i := None)"
proof -
  let ?h = "dbHnsw db"
  have st: "lv_static db" and ix: "lv_index db" and g: "lv_graph pub (dbPending db) db" using mem by (simp_all add: lv_mem_def)
  have fr: "dbIndex db' = (dbIndex db)(i := None)" "dbRevIndex db' = clear_rev idx (dbRevIndex db)"
    "dbMetaLocs db' = (dbMetaLocs db)(idx := None)" "dbHnsw db' = MarkDeleted ?h idx" "dbArena db' = dbArena db"
    "dbDisk db' = dbDisk db" "dbDim db' = dbDim db" "dbPending db' = removePendingItemsByID (dbPending db) i"
    by (simp_all add: db' removePendingByID_def)
  have other: "k \<noteq> idx" if "dbIndex db j = Some k" "j \<noteq> i" for j k
    using lv_index_inj [OF ix that(1), of i] idx that(2) by auto
  show "lv_abs db' = (lv_abs db)(i := None)"
    using other by (auto simp: lv_abs_def fr fun_eq_iff split: option.split)
  have "lv_static db'" using st by (simp add: lv_static_def fr)
  moreover have "lv_index db'"
  proof -
    have I: "\<And>i idx. dbIndex db i = Some idx \<Longrightarrow> i \<noteq> [] \<and> idx < arTotalVectors (dbArena db) \<and> idx < length (dbRevIndex db) \<and>
          dbRevIndex db ! idx = i \<and> (\<exists>loc. dbMetaLocs db idx = Some loc \<and> loc_ok (dbDisk db) loc)"
      and R: "\<And>idx. idx < length (dbRevIndex db) \<Longrightarrow> dbRevIndex db ! idx \<noteq> [] \<Longrightarrow> dbIndex db (dbRevIndex db ! idx) = Some idx"
      and M: "\<And>idx. dbMetaLocs db idx \<noteq> None \<Longrightarrow> \<exists>i. dbIndex db i = Some idx"
      using ix unfolding lv_index_def by blast+
    show ?thesis
      unfolding lv_index_def fr
    proof (intro conjI allI impI)
      fix j k
      assume "((dbIndex db)(i := None)) j = Some k"
      then have j: "dbIndex db j = Some k" "j \<noteq> i" by (auto split: if_splits)
      show "j \<noteq> []" "k < arTotalVectors (dbArena db)" "k < length (clear_rev idx (dbRevIndex db))"
        using I [OF j(1)] by (simp_all add: clear_rev_nth)
      show "clear_rev idx (dbRevIndex db) ! k = j" "\<exists>loc. ((dbMetaLocs db)(idx := None)) k = Some loc \<and> loc_ok (dbDisk db) loc"
        using I [OF j(1)] other [OF j] by (simp_all add: clear_rev_nth)
    next
      fix k
      assume k: "k < length (clear_rev idx (dbRevIndex db))" "clear_rev idx (dbRevIndex db) ! k \<noteq> []"
      then have kk: "k < length (dbRevIndex db)" "k \<noteq> idx" "clear_rev idx (dbRevIndex db) ! k = dbRevIndex db ! k"
        by (auto simp: clear_rev_nth split: if_splits)
      then have "dbIndex db (dbRevIndex db ! k) = Some k" using R k(2) by simp
      then show "((dbIndex db)(i := None)) (clear_rev idx (dbRevIndex db) ! k) = Some k" using kk idx by auto
    next
      fix k
      assume "((dbMetaLocs db)(idx := None)) k \<noteq> None"
      then have "dbMetaLocs db k \<noteq> None" "k \<noteq> idx" by (auto split: if_splits)
      then obtain j where "dbIndex db j = Some k" using M by blast
      then show "\<exists>j. ((dbIndex db)(i := None)) j = Some k" using \<open>k \<noteq> idx\<close> idx by (intro exI [of _ j]) auto
    qed
  qed
  moreover have "lv_graph pub (dbPending db') db'"
  proof -
    have del: "isDeleted (MarkDeleted ?h idx) k \<longleftrightarrow> isDeleted ?h k \<or> k = idx" for k
      by (auto simp: isDeleted_def MarkDeleted_def)
    have lt: "idx < arTotalVectors (dbArena db)" using ix idx unfolding lv_index_def by blast
    have hinv: "hnsw_inv (arTotalVectors (dbArena db)) (MarkDeleted ?h idx)"
      using g MarkDeleted_inv by (simp add: lv_graph_def)
    have dl: "\<forall>off\<in>hDeleted (MarkDeleted ?h idx). off < arTotalVectors (dbArena db)"
      using g lt by (auto simp: lv_graph_def MarkDeleted_def)
    have live: "dbIndex db (nID (obj ?h p)) = Some (nArenaOffset (obj ?h p))"
      if "p < length (hObjs ?h)" "\<not> isDeleted ?h (nArenaOffset (obj ?h p))" for p
      using g that unfolding lv_graph_def by blast
    have vis: "\<not> isDeleted ?h k \<and> (nodeByOffset ?h k \<noteq> None \<or> k \<in> piIdx ` set (removePendingItemsByID (dbPending db) i))"
      if "dbIndex db j = Some k" "j \<noteq> i" for j k
    proof -
      have v: "\<not> isDeleted ?h k \<and> (nodeByOffset ?h k \<noteq> None \<or> k \<in> piIdx ` set (dbPending db))"
        using g that(1) unfolding lv_graph_def by blast
      have "k \<in> piIdx ` set (removePendingItemsByID (dbPending db) i)" if k: "k \<in> piIdx ` set (dbPending db)"
      proof -
        obtain p where p: "p \<in> set (dbPending db)" "piIdx p = k" using k by blast
        then have "dbIndex db (piID p) = Some k" using g unfolding lv_graph_def by blast
        then have "piID p \<noteq> i" using idx other [of j k] \<open>dbIndex db j = Some k\<close> \<open>j \<noteq> i\<close> by auto
        then show ?thesis using p by (auto simp: removePendingItemsByID_def)
      qed
      then show ?thesis using v by blast
    qed
    have pend: "dbIndex db (piID p) = Some (piIdx p) \<and> piVector p = arena_vecs (dbArena db) ! piIdx p \<and>
        (nodeByOffset ?h (piIdx p) = None \<or> pub = Some (piIdx p)) \<and> piID p \<noteq> i"
      if "p \<in> set (removePendingItemsByID (dbPending db) i)" for p
      using g that unfolding lv_graph_def by (auto simp: removePendingItemsByID_def)
    have "distinct (map piIdx (removePendingItemsByID (dbPending db) i))"
      using g by (simp add: lv_graph_def removePendingItemsByID_def distinct_map_filter)
    then have dist: "distinct (map piIdx (removePendingItemsByID (dbPending db) i))" .
    show ?thesis
      unfolding lv_graph_def fr del MarkDeleted_frame
    proof (intro conjI allI ballI impI)
      fix p
      assume "p < length (hObjs ?h)" "\<not> (isDeleted ?h (nArenaOffset (obj ?h p)) \<or> nArenaOffset (obj ?h p) = idx)"
      then show "((dbIndex db)(i := None)) (nID (obj ?h p)) = Some (nArenaOffset (obj ?h p))"
        using live [of p] idx by auto
    next
      fix j k
      assume "((dbIndex db)(i := None)) j = Some k"
      then have j: "dbIndex db j = Some k" "j \<noteq> i" by (auto split: if_splits)
      show "\<not> (isDeleted ?h k \<or> k = idx)" "nodeByOffset ?h k \<noteq> None \<or> k \<in> piIdx ` set (removePendingItemsByID (dbPending db) i)"
        using vis [OF j] other [OF j] by blast+
    next
      fix p
      assume "p \<in> set (removePendingItemsByID (dbPending db) i)"
      from pend [OF this] show "((dbIndex db)(i := None)) (piID p) = Some (piIdx p)"
        "piVector p = arena_vecs (dbArena db) ! piIdx p" "nodeByOffset ?h (piIdx p) = None \<or> pub = Some (piIdx p)"
        by simp_all
    qed (use hinv dl dist in blast)+
  qed
  ultimately show "lv_mem pub db'" by (simp add: lv_mem_def)
qed

lemma deleteLocked_inv:
  assumes inv: "lv_inv pub recs db" and run: "deleteLocked wio db i = (r, db')"
  shows "lv_inv pub (if r = None then recs @ [delete_record i] else recs) db'"
    "lv_abs db' = (if r = None then (lv_abs db)(i := None) else lv_abs db)"
    "walSynced (dbWal db') = walSynced (dbWal db)" "prefix (walLog (dbWal db)) (walLog (dbWal db'))"
proof -
  have mem: "lv_mem pub db" and w: "wal_inv (dbDim db) recs (dbWal db)" and lg: "lv_logged db recs"
    using inv by (simp_all add: lv_inv_def)
  have wm: "lv_mem pub (db\<lparr>dbWal := x\<rparr>) = lv_mem pub db" "lv_abs (db\<lparr>dbWal := x\<rparr>) = lv_abs db" for x
    by (auto simp: lv_mem_def lv_static_def lv_index_def lv_graph_def lv_abs_def fun_eq_iff split: option.split)
  have "lv_inv pub (if r = None then recs @ [delete_record i] else recs) db' \<and>
    lv_abs db' = (if r = None then (lv_abs db)(i := None) else lv_abs db) \<and>
    walSynced (dbWal db') = walSynced (dbWal db) \<and> prefix (walLog (dbWal db)) (walLog (dbWal db'))"
  proof (cases "dbIndex db i")
    case None
    then have "r = Some LvNotFound" "db' = db" using run by (simp_all add: deleteLocked_def)
    then show ?thesis using inv by simp
  next
    case (Some idx)
    obtain e wal' where wr: "WAL_WriteEntryNoFlush wio OpDelete i [] [] noLocation (dbWal db) = (e, wal')"
      by (cases "WAL_WriteEntryNoFlush wio OpDelete i [] [] noLocation (dbWal db)")
    note wd = wal_wrote_delete [OF w wr]
    show ?thesis
    proof (cases e)
      case None
      let ?db = "removePendingByID (db\<lparr>dbWal := wal', dbIndex := (dbIndex db)(i := None), dbRevIndex := clear_rev idx (dbRevIndex db),
        dbMetaLocs := (dbMetaLocs db)(idx := None), dbHnsw := MarkDeleted (dbHnsw db) idx\<rparr>) i"
      have r: "r = None" "db' = ?db" using run Some wr None by (simp_all add: deleteLocked_def)
      note d = lv_delete_mem [OF mem Some r(2)]
      have "dbWal db' = wal'" "dbDim db' = dbDim db" by (simp_all add: r(2) removePendingByID_def)
      moreover have "lv_logged db' (recs @ [delete_record i])"
        using lg unfolding lv_logged_def d(2) by (simp add: log_map_snoc)
      ultimately show ?thesis using wd None r(1) d by (simp add: lv_inv_def wal_wrote_def)
    next
      case (Some x)
      then have "r = Some (LvWal x)" "db' = db\<lparr>dbWal := wal'\<rparr>" using run wr \<open>dbIndex db i = Some idx\<close> by (simp_all add: deleteLocked_def)
      then show ?thesis using wd Some mem lg wm by (simp add: lv_inv_def wal_wrote_def lv_logged_def)
    qed
  qed
  then show "lv_inv pub (if r = None then recs @ [delete_record i] else recs) db'"
    "lv_abs db' = (if r = None then (lv_abs db)(i := None) else lv_abs db)"
    "walSynced (dbWal db') = walSynced (dbWal db)" "prefix (walLog (dbWal db)) (walLog (dbWal db'))" by blast+
qed

section \<open>The indexer\<close>

lemma vec_ok_arena: "vec_ok (arTotalVectors a) (VectorArena_getUnsafeNoLock a)"
  by (simp add: vec_ok_def VectorArena_getUnsafeNoLock_refines)

text \<open>Publishing an item that is not registered yet; it stays in the queue, or was tombstoned meanwhile.\<close>

lemma indexer_add_graph:
  assumes g: "lv_graph None ps db" and fresh: "nodeByOffset (dbHnsw db) (piIdx p) = None"
    and p: "piID p \<noteq> []" "piIdx p < arTotalVectors (dbArena db)"
    and q: "p \<in> set ps \<or> isDeleted (dbHnsw db) (piIdx p)"
  shows "lv_graph (Some (piIdx p)) ps (indexer_add dot level p db)"
proof (cases "hnsw_live (dbHnsw db) (piID p)")
  case True
  then have "indexer_add dot level p db = db" by (simp add: indexer_add_def HNSW_Add_live)
  then show ?thesis using g by (auto simp: lv_graph_def)
next
  case False
  let ?h = "dbHnsw db" and ?h' = "dbHnsw (indexer_add dot level p db)" and ?nn = "length (hObjs (dbHnsw db))"
  have hinv: "hnsw_inv (arTotalVectors (dbArena db)) ?h" using g by (simp add: lv_graph_def)
  have new: "hnsw_inv (arTotalVectors (dbArena db)) ?h'" "registered_as ?h (piID p) (piIdx p) level ?h'"
    using HNSW_Add_new [OF hinv vec_ok_arena fresh p False] by (simp_all add: indexer_add_def)
  have fr: "dbIndex (indexer_add dot level p db) = dbIndex db" "dbArena (indexer_add dot level p db) = dbArena db"
    by (simp_all add: indexer_add_def)
  have del: "isDeleted ?h' = isDeleted ?h" "hDeleted ?h' = hDeleted ?h" using new(2) by (auto simp: registered_as_def isDeleted_def fun_eq_iff)
  have nb: "nodeByOffset ?h' j = (if j = piIdx p then Some ?nn else nodeByOffset ?h j)" for j
    using new(2) by (simp add: registered_as_def)
  have pend: "\<And>q. q \<in> set ps \<Longrightarrow> dbIndex db (piID q) = Some (piIdx q) \<and> piVector q = arena_vecs (dbArena db) ! piIdx q \<and>
      nodeByOffset ?h (piIdx q) = None"
    and vis: "\<And>j k. dbIndex db j = Some k \<Longrightarrow> \<not> isDeleted ?h k \<and> (nodeByOffset ?h k \<noteq> None \<or> k \<in> piIdx ` set ps)"
    and live: "\<And>o'. o' < ?nn \<Longrightarrow> \<not> isDeleted ?h (nArenaOffset (obj ?h o')) \<Longrightarrow> dbIndex db (nID (obj ?h o')) = Some (nArenaOffset (obj ?h o'))"
    and rest: "\<forall>off\<in>hDeleted ?h. off < arTotalVectors (dbArena db)" "distinct (map piIdx ps)"
    using g unfolding lv_graph_def by blast+
  show ?thesis
    unfolding lv_graph_def fr del nb
  proof (intro conjI allI ballI impI)
    fix o'
    assume o': "o' < length (hObjs ?h')" "\<not> isDeleted ?h (nArenaOffset (obj ?h' o'))"
    show "dbIndex db (nID (obj ?h' o')) = Some (nArenaOffset (obj ?h' o'))"
    proof (cases "o' = ?nn")
      case True
      then have "nID (obj ?h' o') = piID p" "nArenaOffset (obj ?h' o') = piIdx p" using new(2) by (simp_all add: registered_as_def)
      then show ?thesis using o'(2) q pend by auto
    next
      case False
      then have "o' < ?nn" using o'(1) new(2) by (simp add: registered_as_def)
      then show ?thesis using live [of o'] o'(2) new(2) by (simp add: registered_as_def)
    qed
  next
    fix j k
    assume "dbIndex db j = Some k"
    from vis [OF this] show "\<not> isDeleted ?h k" "(if k = piIdx p then Some ?nn else nodeByOffset ?h k) \<noteq> None \<or> k \<in> piIdx ` set ps"
      by auto
  next
    fix r
    assume "r \<in> set ps"
    from pend [OF this] show "dbIndex db (piID r) = Some (piIdx r)" "piVector r = arena_vecs (dbArena db) ! piIdx r"
      "(if piIdx r = piIdx p then Some ?nn else nodeByOffset ?h (piIdx r)) = None \<or> Some (piIdx p) = Some (piIdx r)"
      by auto
  qed (use new(1) rest in blast)+
qed

lemma set_removePendingItem:
  assumes "distinct (map piIdx ps)"
  shows "x \<in> set (removePendingItem ps p) \<longleftrightarrow> x \<in> set ps \<and> \<not> (piID x = piID p \<and> piIdx x = piIdx p)"
  using assms by (induction ps) (auto simp: rev_image_eqI)

lemma distinct_removePendingItem: "distinct (map piIdx ps) \<Longrightarrow> distinct (map piIdx (removePendingItem ps p))"
  by (induction ps) (auto simp: set_removePendingItem)

text \<open>Unlinking the published item.\<close>

lemma indexer_unlink_graph:
  assumes g: "lv_graph (Some (piIdx p)) ps db"
    and q: "p \<in> set ps \<and> nodeByOffset (dbHnsw db) (piIdx p) \<noteq> None \<or> isDeleted (dbHnsw db) (piIdx p)"
  shows "lv_graph None (removePendingItem ps p) db"
proof -
  have dist: "distinct (map piIdx ps)" using g by (simp add: lv_graph_def)
  have pend: "\<And>r. r \<in> set ps \<Longrightarrow> dbIndex db (piID r) = Some (piIdx r) \<and> piVector r = arena_vecs (dbArena db) ! piIdx r \<and>
      (nodeByOffset (dbHnsw db) (piIdx r) = None \<or> piIdx p = piIdx r)"
    and vis: "\<And>j k. dbIndex db j = Some k \<Longrightarrow> \<not> isDeleted (dbHnsw db) k \<and> (nodeByOffset (dbHnsw db) k \<noteq> None \<or> k \<in> piIdx ` set ps)"
    using g unfolding lv_graph_def by blast+
  have no: "piIdx p \<notin> piIdx ` set (removePendingItem ps p)"
  proof
    assume "piIdx p \<in> piIdx ` set (removePendingItem ps p)"
    then obtain r where r: "r \<in> set ps" "piIdx r = piIdx p" "piID r \<noteq> piID p"
      by (auto simp: set_removePendingItem [OF dist])
    have "\<not> isDeleted (dbHnsw db) (piIdx p)" using pend [OF r(1)] vis r(2) by fastforce
    then have "p \<in> set ps" using q by blast
    then have "r = p" using r dist by (auto simp: distinct_map inj_on_def)
    with r(3) show False by simp
  qed
  have keep: "k \<in> piIdx ` set (removePendingItem ps p)" if "k \<in> piIdx ` set ps" "k \<noteq> piIdx p" for k
    using that by (auto simp: set_removePendingItem [OF dist])
  have vis': "nodeByOffset (dbHnsw db) k \<noteq> None \<or> k \<in> piIdx ` set (removePendingItem ps p)" if "dbIndex db j = Some k" for j k
    using vis [OF that] q keep by (cases "k = piIdx p") auto
  have sub: "set (removePendingItem ps p) \<subseteq> set ps" by (auto simp: set_removePendingItem [OF dist])
  have pend': "nodeByOffset (dbHnsw db) (piIdx r) = None" if "r \<in> set (removePendingItem ps p)" for r
    using pend [of r] that sub no by force
  show ?thesis
    using g vis' pend' sub distinct_removePendingItem [OF dist] unfolding lv_graph_def by blast
qed

end
