(* ===== verification/Levara_Recovery.thy ===== *)
theory Levara_Recovery
  imports Levara_Ops
begin

text \<open>
  Inventory, checkpoint and restart. A checkpoint writes a log whose replay is what the
  engine contains; opening a log that was cut anywhere yields the records whose frames were
  complete, with the vectors normalized once more.
\<close>

section \<open>The inventory\<close>

lemma lv_mem_lookup:
  assumes "lv_mem pub db" "dbIndex db i = Some idx"
  shows "VectorArena_Get (dbArena db) idx = Inr (arena_vecs (dbArena db) ! idx)"
    "\<exists>loc. dbMetaLocs db idx = Some loc \<and> loc_ok (dbDisk db) loc \<and>
       lv_abs db i = Some (arena_vecs (dbArena db) ! idx, disk_bytes (dbDisk db) loc)"
    "length (arena_vecs (dbArena db) ! idx) = dbDim db"
proof -
  have st: "lv_static db" and ix: "lv_index db" using assms(1) by (simp_all add: lv_mem_def)
  have lt: "idx < arTotalVectors (dbArena db)" and loc: "\<exists>loc. dbMetaLocs db idx = Some loc \<and> loc_ok (dbDisk db) loc"
    using ix assms(2) unfolding lv_index_def by blast+
  show "VectorArena_Get (dbArena db) idx = Inr (arena_vecs (dbArena db) ! idx)"
    using st lt by (simp add: VectorArena_Get_refines lv_static_def)
  show "\<exists>loc. dbMetaLocs db idx = Some loc \<and> loc_ok (dbDisk db) loc \<and>
       lv_abs db i = Some (arena_vecs (dbArena db) ! idx, disk_bytes (dbDisk db) loc)"
    using loc assms(2) by (auto simp: lv_abs_def)
  show "length (arena_vecs (dbArena db) ! idx) = dbDim db"
    using st lt by (simp add: nth_arena_vecs arena_slot_def lv_static_def)
qed

lemma read_bytes:
  assumes "loc_ok ds loc"
  shows "DiskStore_Read ds loc = (if disk_bytes ds loc = [] then Inl DiskInvalidLocation else Inr (disk_bytes ds loc))"
  by (rule disk_read_holds [OF loc_ok_holds [OF assms]])

lemma bytes_empty: "loc_ok ds loc \<Longrightarrow> disk_bytes ds loc = [] \<longleftrightarrow> flLength loc = 0"
  using loc_ok_holds [of ds loc] by (auto simp: disk_holds_def loc_ok_def)

lemma snapshot_record_ok:
  assumes "lv_mem pub db" "dbIndex db i = Some idx"
  shows "\<exists>v m. snapshot_record db i = Inr \<lparr>snID = i, snVector = v, snData = m\<rparr> \<and> lv_abs db i = Some (v, m) \<and> length v = dbDim db"
proof -
  note look = lv_mem_lookup [OF assms]
  obtain loc where loc: "dbMetaLocs db idx = Some loc" "loc_ok (dbDisk db) loc"
    "lv_abs db i = Some (arena_vecs (dbArena db) ! idx, disk_bytes (dbDisk db) loc)"
    using look(2) by blast
  have "snapshot_record db i = Inr \<lparr>snID = i, snVector = arena_vecs (dbArena db) ! idx, snData = disk_bytes (dbDisk db) loc\<rparr>"
    using assms(2) look(1) loc(1,2) bytes_empty [OF loc(2)] read_bytes [OF loc(2)]
    by (auto simp: snapshot_record_def loc_ok_def)
  then show ?thesis using loc(3) look(3) by auto
qed

definition snapshot_matches :: "Levara \<Rightarrow> SnapshotRecord \<Rightarrow> bool" where
  "snapshot_matches db r \<longleftrightarrow> lv_abs db (snID r) = Some (snVector r, snData r) \<and> length (snVector r) = dbDim db"

lemma allRecordsLocked_ok:
  assumes mem: "lv_mem pub db"
  shows "set order \<subseteq> dom (dbIndex db) \<Longrightarrow>
    \<exists>rs. allRecordsLocked order db = Inr rs \<and> map snID rs = order \<and> (\<forall>r\<in>set rs. snapshot_matches db r)"
proof (induction order)
  case (Cons i order)
  obtain idx where "dbIndex db i = Some idx" using Cons.prems by auto
  from snapshot_record_ok [OF mem this] obtain v m where
    r: "snapshot_record db i = Inr \<lparr>snID = i, snVector = v, snData = m\<rparr>" "lv_abs db i = Some (v, m)" "length v = dbDim db"
    by blast
  then show ?case using Cons by (auto simp: snapshot_matches_def)
qed simp

section \<open>A log of a snapshot\<close>

lemma log_map_inserts:
  assumes "\<forall>r\<in>set rs. wOp (f r) = OpInsert \<and> wID (f r) = snID r \<and> wVec (f r) = snVector r \<and> wMeta (f r) = snData r"
    and "distinct (map snID rs)"
  shows "foldl log_step m (map f rs) = m ++ map_of (map (\<lambda>r. (snID r, (snVector r, snData r))) rs)"
  using assms
proof (induction rs arbitrary: m)
  case (Cons r rs)
  have "foldl log_step (m(snID r \<mapsto> (snVector r, snData r))) (map f rs) =
      (m(snID r \<mapsto> (snVector r, snData r))) ++ map_of (map (\<lambda>r. (snID r, (snVector r, snData r))) rs)"
    using Cons by simp
  moreover have "snID r \<notin> dom (map_of (map (\<lambda>r. (snID r, (snVector r, snData r))) rs))"
    using Cons.prems(2) by (auto simp: dom_map_of_conv_image_fst image_image)
  moreover have "log_step m (f r) = m(snID r \<mapsto> (snVector r, snData r))" using Cons.prems(1) by (simp add: log_step_def)
  moreover have "(m(a \<mapsto> x)) ++ M = m ++ M(a \<mapsto> x)" if "a \<notin> dom M" for a x M
    using that by (auto simp: map_add_def fun_eq_iff split: option.split)
  ultimately show ?case by (simp only: list.map foldl.simps map_of.simps fst_conv snd_conv)
qed simp

lemma map_of_snapshot:
  assumes "\<forall>r\<in>set rs. m (snID r) = Some (snVector r, snData r)" "set (map snID rs) = dom m"
  shows "map_of (map (\<lambda>r. (snID r, (snVector r, snData r))) rs) = m"
proof
  fix i
  show "map_of (map (\<lambda>r. (snID r, (snVector r, snData r))) rs) i = m i"
  proof (cases "i \<in> dom m")
    case True
    then obtain r where r: "r \<in> set rs" "snID r = i" using assms(2) by (metis imageE set_map)
    have "map_of (map (\<lambda>r. (snID r, (snVector r, snData r))) rs) i \<noteq> None"
      using r by (simp add: map_of_eq_None_iff) force
    then obtain x where x: "map_of (map (\<lambda>r. (snID r, (snVector r, snData r))) rs) i = Some x" by blast
    then obtain r' where "r' \<in> set rs" "snID r' = i" "x = (snVector r', snData r')"
      by (auto dest!: map_of_SomeD)
    then show ?thesis using x assms(1) by auto
  next
    case False
    then have "i \<notin> set (map snID rs)" using assms(2) by simp
    then have "map_of (map (\<lambda>r. (snID r, (snVector r, snData r))) rs) i = None" by (auto simp: map_of_eq_None_iff)
    then show ?thesis using False by (metis domIff)
  qed
qed

section \<open>Checkpoint\<close>

definition checkpoint_record :: "Levara \<Rightarrow> SnapshotRecord \<Rightarrow> WALRecord" where
  "checkpoint_record db r =
     insert_record (snID r) (snVector r) (snData r)
       (case dbIndex db (snID r) of
          None \<Rightarrow> (case dbMetaLocs db 0 of None \<Rightarrow> noLocation | Some l \<Rightarrow> l)
        | Some idx \<Rightarrow> (case dbMetaLocs db idx of None \<Rightarrow> noLocation | Some l \<Rightarrow> l))"

lemma checkpoint_frames_log:
  assumes mem: "lv_mem pub db"
  shows "\<forall>r\<in>set rs. snapshot_matches db r \<Longrightarrow> checkpoint_frames db rs = Inr fileb \<Longrightarrow>
    fileb = wal_log (map (checkpoint_record db) rs) \<and> (\<forall>r\<in>set rs. wal_fits (dbDim db) (checkpoint_record db r))"
proof (induction rs arbitrary: fileb)
  case (Cons r rs)
  let ?rec = "checkpoint_record db r"
  have m: "snapshot_matches db r" using Cons.prems(1) by simp
  then obtain idx where idx: "dbIndex db (snID r) = Some idx"
    by (auto simp: snapshot_matches_def lv_abs_def split: option.splits)
  obtain loc where loc: "dbMetaLocs db idx = Some loc" "loc_ok (dbDisk db) loc" using lv_mem_lookup(2) [OF mem idx] by blast
  have rec: "?rec = insert_record (snID r) (snVector r) (snData r) loc" using idx loc by (simp add: checkpoint_record_def)
  obtain frame out where f: "writeWALEntryTo OpInsert (snID r) (snVector r) (snData r) loc = Inr frame"
    "checkpoint_frames db rs = Inr out" "fileb = frame @ out"
    using Cons.prems(2) idx loc by (auto simp: Let_def split: sum.splits)
  have "validateWALRecord OpInsert (snID r) (snVector r) (snData r) loc = None" "frame = frame_of ?rec"
    using f(1) by (auto simp: writeWALEntryTo_def rec frame_of_def insert_record_def split: option.splits)
  moreover from this(1) have "wal_fits (dbDim db) ?rec"
    using m loc(2) by (auto simp: rec wal_fits_def wal_valid_def insert_record_def loc_ok_def mib_def snapshot_matches_def)
  ultimately show ?case using Cons.IH [OF _ f(2)] Cons.prems(1) f(3) by simp
qed simp

lemma lv_mem_wal:
  "lv_mem pub (db\<lparr>dbWal := w\<rparr>) = lv_mem pub db" "lv_abs (db\<lparr>dbWal := w\<rparr>) = lv_abs db"
  "lv_mem pub (db\<lparr>dbWal := w, dbBaseline := z\<rparr>) = lv_mem pub db" "lv_abs (db\<lparr>dbWal := w, dbBaseline := z\<rparr>) = lv_abs db"
  by (auto simp: lv_mem_def lv_static_def lv_index_def lv_graph_def lv_abs_def fun_eq_iff split: option.split)

lemma checkpoint_inv:
  assumes inv: "lv_inv pub recs db" and ord: "map_order (dbIndex db) order"
    and run: "checkpointLocked order pio db = (r, db')"
  shows "\<exists>recs'. lv_inv pub recs' db' \<and> (recs' = recs \<and> r \<noteq> None \<or> log_map recs' = lv_abs db \<and> length recs' = Count db)" "lv_abs db' = lv_abs db"
    "dbPending db' = dbPending db" "dbHnsw db' = dbHnsw db" "dbArena db' = dbArena db" "dbDisk db' = dbDisk db"
    "r = None \<Longrightarrow> walSynced (dbWal db') = length (walLog (dbWal db')) \<and> walPrev (dbWal db') = []"
proof -
  have mem: "lv_mem pub db" using inv by (simp add: lv_inv_def)
  have dom: "dom (lv_abs db) = dom (dbIndex db)" by (auto simp: lv_abs_def split: option.splits)
  obtain rs where rs: "allRecordsLocked order db = Inr rs" "map snID rs = order" "\<forall>r\<in>set rs. snapshot_matches db r"
    using allRecordsLocked_ok [OF mem, of order] ord by (auto simp: map_order_def)
  have step: "db' = db \<and> r \<noteq> None \<or>
      (\<exists>fileb wal' z. checkpoint_frames db rs = Inr fileb \<and> WAL_replaceFile True fileb (dbWal db) = (None, wal') \<and>
         (db' = db\<lparr>dbWal := wal'\<rparr> \<and> r \<noteq> None \<or> db' = db\<lparr>dbWal := WAL_dirSync wal'\<rparr> \<and> r \<noteq> None \<or>
          db' = db\<lparr>dbWal := WAL_dirSync wal', dbBaseline := z\<rparr>))"
    using run rs(1) by (auto simp: checkpointLocked_def Let_def WAL_replaceFile_def split: sum.splits if_splits prod.splits option.splits)
  have fields: "lv_abs db' = lv_abs db \<and> dbPending db' = dbPending db \<and> dbHnsw db' = dbHnsw db \<and> dbArena db' = dbArena db \<and> dbDisk db' = dbDisk db"
    using step lv_mem_wal by auto
  then show "lv_abs db' = lv_abs db" "dbPending db' = dbPending db" "dbHnsw db' = dbHnsw db" "dbArena db' = dbArena db"
    "dbDisk db' = dbDisk db" by blast+
  have "(\<exists>recs'. lv_inv pub recs' db' \<and> (recs' = recs \<and> r \<noteq> None \<or> log_map recs' = lv_abs db \<and> length recs' = Count db)) \<and>
    (r = None \<longrightarrow> walSynced (dbWal db') = length (walLog (dbWal db')) \<and> walPrev (dbWal db') = [])"
  proof (cases "db' = db \<and> r \<noteq> None")
    case True
    then show ?thesis using inv by blast
  next
    case False
    then obtain fileb wal' z where f: "checkpoint_frames db rs = Inr fileb" "WAL_replaceFile True fileb (dbWal db) = (None, wal')"
      and d: "db' = db\<lparr>dbWal := wal'\<rparr> \<and> r \<noteq> None \<or> db' = db\<lparr>dbWal := WAL_dirSync wal'\<rparr> \<and> r \<noteq> None \<or>
          db' = db\<lparr>dbWal := WAL_dirSync wal', dbBaseline := z\<rparr>"
      using step by blast
    let ?recs = "map (checkpoint_record db) rs"
    have fileb: "fileb = wal_log ?recs" "\<forall>rec\<in>set ?recs. wal_fits (dbDim db) rec"
      using checkpoint_frames_log [OF mem rs(3) f(1)] by auto
    have w: "wal_inv (dbDim db) ?recs wal'" "walSynced wal' = length (walLog wal')"
      using replaceFile_inv [OF fileb(2), of True "dbWal db" wal'] f(2) fileb(1) by simp_all
    then have w': "wal_inv (dbDim db) ?recs (WAL_dirSync wal')" by (simp add: WAL_dirSync_def wal_inv_def)
    have "log_map ?recs = Map.empty ++ map_of (map (\<lambda>r. (snID r, (snVector r, snData r))) rs)"
      unfolding log_map_def using ord rs(2)
      by (intro log_map_inserts) (auto simp: checkpoint_record_def insert_record_def map_order_def)
    moreover have "map_of (map (\<lambda>r. (snID r, (snVector r, snData r))) rs) = lv_abs db"
      using rs ord dom by (intro map_of_snapshot) (auto simp: snapshot_matches_def map_order_def)
    ultimately have log: "log_map ?recs = lv_abs db" by simp
    then have "lv_logged db ?recs" by (simp add: lv_logged_def option.rel_refl)
    then have "lv_inv pub ?recs db'"
      using d w w' mem lv_mem_wal by (auto simp: lv_inv_def lv_logged_def)
    moreover have "length ?recs = Count db"
      using rs(2) ord distinct_card [of order] by (auto simp: Count_def map_order_def dest: arg_cong [where f = length])
    ultimately show ?thesis using log d w(2) by (intro conjI exI [of _ ?recs]) (auto simp: WAL_dirSync_def)
  qed
  then show "\<exists>recs'. lv_inv pub recs' db' \<and> (recs' = recs \<and> r \<noteq> None \<or> log_map recs' = lv_abs db \<and> length recs' = Count db)"
    "r = None \<Longrightarrow> walSynced (dbWal db') = length (walLog (dbWal db')) \<and> walPrev (dbWal db') = []" by blast+
qed

section \<open>Opening a log\<close>

text \<open>The first state of \<open>NewLevara\<close>.\<close>

definition empty_db :: "nat \<Rightarrow> HNSWConfig \<Rightarrow> WAL \<Rightarrow> bytes \<Rightarrow> Levara" where
  "empty_db dm cfg wal metaFile =
     \<lparr>dbIndex = Map.empty, dbRevIndex = [], dbArena = NewVectorArena dm, dbMetaLocs = Map.empty,
      dbDisk = DiskStore_Truncate (NewDiskStore metaFile), dbDim = dm, dbWal = wal, dbBaseline = 0,
      dbHnsw = NewHNSWIndex cfg, dbHnswCfg = cfg, dbPending = []\<rparr>"

lemma empty_db_mem:
  assumes "1 \<le> dm" "dm \<le> 65536"
  shows "lv_mem None (empty_db dm cfg wal metaFile)"
  using assms arena_inv_new [of dm] hnsw_inv_new
  by (simp add: lv_mem_def lv_static_def lv_index_def lv_graph_def empty_db_def NewVectorArena_def) (simp add: NewHNSWIndex_def)

text \<open>
  Replay as far as \<open>done\<close>: what the log stands for, normalized; at most one vector and one
  MiB of metadata for each record.
\<close>

definition replayed :: "WALRecord list \<Rightarrow> Levara \<Rightarrow> bool" where
  "replayed done db \<longleftrightarrow>
     lv_mem None db \<and> dbPending db = [] \<and>
     (\<forall>i. lv_abs db i = map_option (\<lambda>(v, m). (arena_normalize v, m)) (log_map done i)) \<and>
     arTotalVectors (dbArena db) \<le> length done \<and> dsPos (dbDisk db) \<le> length done * mib"

lemma replayed_room: "replayed done db \<Longrightarrow> Suc (length done) < 2 ^ 32 \<Longrightarrow> lv_room db"
proof -
  assume r: "replayed done db" and l: "Suc (length done) < 2 ^ 32"
  have "length done * mib \<le> 2 ^ 32 * mib" using l by (intro mult_le_mono1) simp
  then show ?thesis using r l by (simp add: replayed_def lv_room_def mib_def)
qed

lemma insertInMemory_mem:
  assumes mem: "lv_mem None db" and room: "lv_room db" and i: "i \<noteq> []" and loc: "loc_ok (dbDisk db) loc" and pend: "dbPending db = []"
    and run: "insertInMemory dot level db i v loc = Inr db'"
  shows "lv_mem None db'" "lv_abs db' = (lv_abs db)(i \<mapsto> (arena_normalize v, disk_bytes (dbDisk db) loc))"
    "dbPending db' = []" "dbDisk db' = dbDisk db" "arTotalVectors (dbArena db') = Suc (arTotalVectors (dbArena db))"
    "dbDim db' = dbDim db" "dbWal db' = dbWal db"
proof -
  have st: "lv_static db" and ix: "lv_index db" and g: "lv_graph None (dbPending db) db" using mem by (simp_all add: lv_mem_def)
  obtain idx v' a' where add: "VectorArena_Add (dbArena db) v = Inr (idx, v', a')"
    and db': "db' = (let db1 = lv_put a' (dbWal db) i idx loc db
      in db1\<lparr>dbHnsw := HNSW_Add dot (lv_vec db1) level (dbHnsw db1) v' i idx\<rparr>)"
    using run by (auto simp: insertInMemory_def lv_put_def Let_def split: sum.splits)
  let ?p = "lv_put a' (dbWal db) i idx loc db" and ?it = "\<lparr>piVector = v', piID = i, piIdx = idx\<rparr>"
  have eq: "db' = indexer_add dot level ?it ?p" using db' by (simp add: indexer_add_def Let_def)
  note af = arena_add_facts [OF st room add]
  have pend1: "dbPending ?p = []" using pend by (simp add: lv_put_frame removePendingItemsByID_def split: option.split)
  have g1: "lv_graph None [?it] ?p" using lv_put_graph [OF ix g st room add, of i "dbWal db" loc] pend by (simp add: removePendingItemsByID_def)
  have fresh: "nodeByOffset (dbHnsw ?p) idx = None" using g1 unfolding lv_graph_def by simp
  have g2: "lv_graph (Some idx) [?it] db'"
    unfolding eq using indexer_add_graph [OF g1, of ?it dot level] fresh i af by (simp add: lv_put_frame(1))
  have notlive: "\<not> hnsw_live (dbHnsw ?p) i"
  proof
    assume "hnsw_live (dbHnsw ?p) i"
    then obtain o' where o': "hNodes (dbHnsw ?p) i = Some o'" "\<not> isDeleted (dbHnsw ?p) (nArenaOffset (obj (dbHnsw ?p) o'))"
      by (auto simp: hnsw_live_def)
    have base: "hnsw_base (arTotalVectors (dbArena ?p)) (dbHnsw ?p)" using g1 by (simp add: lv_graph_def hnsw_inv_def)
    note ob = hnsw_base_nodes [OF base o'(1)]
    have "dbIndex ?p i = Some (nArenaOffset (obj (dbHnsw ?p) o'))" using g1 o'(2) ob unfolding lv_graph_def by auto
    then have off: "nArenaOffset (obj (dbHnsw ?p) o') = idx" by (simp add: lv_put_frame(6))
    have "nodeByOffset (dbHnsw ?p) idx = Some o'" using hnsw_base_obj(1) [OF base, of o'] ob unfolding off by blast
    then show False using fresh by simp
  qed
  have reg: "nodeByOffset (dbHnsw db') idx \<noteq> None"
  proof -
    have hinv: "hnsw_inv (arTotalVectors (dbArena ?p)) (dbHnsw ?p)" using g1 by (simp add: lv_graph_def)
    have "registered_as (dbHnsw ?p) i idx level (dbHnsw db')"
      using HNSW_Add_new(2) [OF hinv vec_ok_arena fresh i _ notlive] af by (simp add: eq indexer_add_def lv_put_frame(1))
    then show ?thesis by (simp add: registered_as_def)
  qed
  have "lv_graph None (removePendingItem [?it] ?it) db'" using g2 reg by (intro indexer_unlink_graph) simp_all
  moreover have fr: "dbPending db' = dbPending ?p" "dbIndex db' = dbIndex ?p" "dbRevIndex db' = dbRevIndex ?p"
    "dbMetaLocs db' = dbMetaLocs ?p" "dbArena db' = dbArena ?p" "dbDisk db' = dbDisk ?p" "dbDim db' = dbDim ?p" "dbWal db' = dbWal ?p"
    by (simp_all add: eq indexer_add_def)
  moreover have "lv_static db'" using lv_put_static [OF st room add] by (simp add: lv_static_def fr)
  moreover have "lv_index db'" using lv_put_index [OF ix st room add i loc] by (simp add: lv_index_def fr)
  ultimately show "lv_mem None db'" using pend1 by (simp add: lv_mem_def)
  show "lv_abs db' = (lv_abs db)(i \<mapsto> (arena_normalize v, disk_bytes (dbDisk db) loc))"
  proof -
    have "lv_abs db' = lv_abs ?p" unfolding lv_abs_def fr ..
    then show ?thesis using lv_put_abs [OF ix st room add, of "dbWal db" i loc] af(5) by simp
  qed
  show "dbPending db' = []" "dbDisk db' = dbDisk db" "arTotalVectors (dbArena db') = Suc (arTotalVectors (dbArena db))"
    "dbDim db' = dbDim db" "dbWal db' = dbWal db"
    using fr pend1 af by (simp_all add: lv_put_frame)
qed

lemma replay_delete_mem:
  assumes mem: "lv_mem None db" and pend: "dbPending db = []" and idx: "dbIndex db i = Some idx"
    and db': "db' = db\<lparr>dbIndex := (dbIndex db)(i := None), dbRevIndex := clear_rev idx (dbRevIndex db),
        dbMetaLocs := (dbMetaLocs db)(idx := None), dbHnsw := MarkDeleted (dbHnsw db) idx\<rparr>"
  shows "lv_mem None db'" "lv_abs db' = (lv_abs db)(i := None)"
proof -
  have "db' = removePendingByID (db\<lparr>dbWal := dbWal db, dbIndex := (dbIndex db)(i := None), dbRevIndex := clear_rev idx (dbRevIndex db),
        dbMetaLocs := (dbMetaLocs db)(idx := None), dbHnsw := MarkDeleted (dbHnsw db) idx\<rparr>) i"
    using pend by (simp add: db' removePendingByID_def removePendingItemsByID_def)
  from lv_delete_mem [OF mem idx this] show "lv_mem None db'" "lv_abs db' = (lv_abs db)(i := None)" by blast+
qed

lemma wal_fits_insert:
  assumes "wal_fits dm rec" "wOp rec = OpInsert"
  shows "wID rec \<noteq> []" "length (wVec rec) = dm" "length (wMeta rec) \<le> mib" "\<forall>x\<in>set (wVec rec). f32_finite x"
  using assms wal_validD [of rec] by (auto simp: wal_fits_def f32_finite_def)

lemma replay_entry_ok:
  assumes r: "replayed done db" and room: "Suc (length done) < 2 ^ 32" and fits: "wal_fits (dbDim db) rec"
  shows "\<exists>db'. replay_entry dot level DiskOk rec db = Inr db' \<and> replayed (done @ [rec]) db' \<and>
    dbDim db' = dbDim db \<and> dbWal db' = dbWal db"
proof -
  have mem: "lv_mem None db" and pend: "dbPending db = []" and abs: "\<And>i. lv_abs db i = map_option (\<lambda>(v, m). (arena_normalize v, m)) (log_map done i)"
    and n: "arTotalVectors (dbArena db) \<le> length done" "dsPos (dbDisk db) \<le> length done * mib"
    using r by (simp_all add: replayed_def)
  have st: "lv_static db" using mem by (simp add: lv_mem_def)
  note lroom = replayed_room [OF r room]
  consider (ins) "wOp rec = OpInsert" | (del) "wOp rec = OpDelete" "wOp rec \<noteq> OpInsert"
    using fits wal_validD(4) [of rec] by (auto simp: wal_fits_def)
  then show ?thesis
  proof cases
    case ins
    note f = wal_fits_insert [OF fits ins]
    obtain loc ds' where w: "DiskStore_Write DiskOk (dbDisk db) (wMeta rec) = (Inr loc, ds')"
      by (simp add: DiskStore_Write_def Let_def)
    have pos: "dsPos ds' = dsPos (dbDisk db) + length (wMeta rec)" using w by (auto simp: DiskStore_Write_def Let_def)
    have dinv: "disk_inv (dbDisk db)" using st by (simp add: lv_static_def)
    have dpos: "dsPos (dbDisk db) < 2 ^ 63" using lroom by (simp add: lv_room_def)
    note wl = disk_write_loc [OF dinv f(3) dpos w]
    let ?db = "db\<lparr>dbDisk := ds'\<rparr>"
    note md = lv_mem_disk [OF mem w wl(1)]
    have "length done * mib \<le> 2 ^ 32 * mib" using room by (intro mult_le_mono1) simp
    then have room': "lv_room ?db" using lroom pos n(2) f(3) by (simp add: lv_room_def mib_def)
    have "\<exists>x. VectorArena_Add (dbArena ?db) (wVec rec) = Inr x"
      using f(2,4) st by (intro VectorArena_Add_total) (simp_all add: lv_static_def)
    then obtain db' where run: "insertInMemory dot level ?db (wID rec) (wVec rec) loc = Inr db'"
      by (auto simp: insertInMemory_def Let_def)
    have loc': "loc_ok (dbDisk ?db) loc" using wl(2) by simp
    have pend': "dbPending ?db = []" using pend by simp
    note im = insertInMemory_mem [OF md(1) room' f(1) loc' pend' run]
    have "replay_entry dot level DiskOk rec db = Inr db'" using ins f(2) w run by (simp add: replay_entry_def)
    moreover have "lv_abs db' i = map_option (\<lambda>(v, m). (arena_normalize v, m)) (log_map (done @ [rec]) i)" for i
      using im(2) md(2) abs wl(3) ins by (simp add: log_map_snoc log_step_def)
    moreover have "dsPos (dbDisk db') \<le> length (done @ [rec]) * mib" using im(4) pos n(2) f(3) by simp
    ultimately show ?thesis using im n(1) by (simp add: replayed_def)
  next
    case del
    have lm: "log_map (done @ [rec]) = (log_map done)(wID rec := None)" using del by (simp add: log_map_snoc log_step_def)
    show ?thesis
    proof (cases "dbIndex db (wID rec)")
      case None
      then have "lv_abs db (wID rec) = None" by (simp add: lv_abs_def)
      then have "lv_abs db i = map_option (\<lambda>(v, m). (arena_normalize v, m)) (log_map (done @ [rec]) i)" for i
        using abs by (simp add: lm)
      then have "replayed (done @ [rec]) db" using mem pend n by (simp add: replayed_def)
      then show ?thesis using del None by (simp add: replay_entry_def)
    next
      case (Some idx)
      let ?db = "db\<lparr>dbIndex := (dbIndex db)(wID rec := None), dbRevIndex := clear_rev idx (dbRevIndex db),
        dbMetaLocs := (dbMetaLocs db)(idx := None), dbHnsw := MarkDeleted (dbHnsw db) idx\<rparr>"
      note rd = replay_delete_mem [OF mem pend Some refl]
      have "lv_abs ?db i = map_option (\<lambda>(v, m). (arena_normalize v, m)) (log_map (done @ [rec]) i)" for i
        unfolding rd(2) using abs by (simp add: lm)
      then have "replayed (done @ [rec]) ?db" using rd(1) pend n by (simp add: replayed_def)
      then show ?thesis using del Some by (simp add: replay_entry_def)
    qed
  qed
qed

lemma replay_log_ok:
  assumes "\<forall>k. dio k = DiskOk"
  shows "replayed done db \<Longrightarrow> Suc (length done + length recs) < 2 ^ 32 \<Longrightarrow> \<forall>rec\<in>set recs. wal_fits (dbDim db) rec \<Longrightarrow>
    \<exists>db'. replay_log dot levels dio k recs db = Inr db' \<and> replayed (done @ recs) db' \<and> dbDim db' = dbDim db \<and> dbWal db' = dbWal db"
proof (induction recs arbitrary: "done" db k)
  case (Cons rec recs)
  obtain db1 where s1: "replay_entry dot (levels k) (dio k) rec db = Inr db1" "replayed (done @ [rec]) db1"
    "dbDim db1 = dbDim db" "dbWal db1 = dbWal db"
    using replay_entry_ok [OF Cons.prems(1), of rec dot "levels k"] Cons.prems assms by auto
  from Cons.IH [OF s1(2), of "k + 1"] Cons.prems s1 show ?case by auto
qed simp

lemma NewLevara_log:
  assumes "WAL_prepareRecovery (int dm) walFile = Inr (wal_log recs)" "\<forall>rec\<in>set recs. wal_fits dm rec"
    and "1 \<le> dm" "dm \<le> 65536" "Suc (length recs) < 2 ^ 32" "\<forall>k. dio k = DiskOk"
  shows "\<exists>db. NewLevara dot levels dio True durable dm cfg walFile metaFile = Inr db \<and> lv_inv None recs db \<and>
    (\<forall>i. lv_abs db i = map_option (\<lambda>(v, m). (arena_normalize v, m)) (log_map recs i)) \<and> walLog (dbWal db) = wal_log recs"
proof -
  let ?db0 = "empty_db dm cfg (OpenWal (wal_log recs) durable) metaFile"
  have rec: "WAL_RecoverEx (wal_log recs) = recs"
    unfolding WAL_RecoverEx_def using assms(2) by (intro recover_log) (auto simp: wal_fits_def)
  have "lv_abs ?db0 i = None" for i by (simp add: lv_abs_def empty_db_def)
  moreover have "arTotalVectors (dbArena ?db0) = 0" "dsPos (dbDisk ?db0) = 0" "dbPending ?db0 = []"
    by (simp_all add: empty_db_def NewVectorArena_def DiskStore_Truncate_def)
  ultimately have "replayed [] ?db0" using empty_db_mem [OF assms(3,4)] by (simp add: replayed_def)
  from replay_log_ok [OF assms(6) this, of recs dot levels 0] assms(2,5) obtain db' where
    db': "replay_log dot levels dio 0 recs ?db0 = Inr db'" "replayed recs db'" "dbDim db' = dm" "dbWal db' = OpenWal (wal_log recs) durable"
    by (auto simp: empty_db_def)
  let ?db = "db'\<lparr>dbBaseline := int (length (wal_log recs))\<rparr>"
  have new: "NewLevara dot levels dio True durable dm cfg walFile metaFile = Inr ?db"
    using assms(1) db'(1) rec by (simp add: NewLevara_def empty_db_def)
  have m: "lv_mem None ?db = lv_mem None db'" "lv_abs ?db = lv_abs db'"
    by (auto simp: lv_mem_def lv_static_def lv_index_def lv_graph_def lv_abs_def fun_eq_iff split: option.split)
  have abs: "lv_abs ?db i = map_option (\<lambda>(v, m). (arena_normalize v, m)) (log_map recs i)" for i
    using db'(2) m by (simp add: replayed_def)
  have "lv_logged ?db recs"
    unfolding lv_logged_def abs by (auto simp: stored_as_def option.rel_map intro!: option.rel_refl_strong)
  moreover have "wal_inv dm recs (OpenWal (wal_log recs) durable)" using assms(2) by (rule wal_inv_OpenWal)
  ultimately have "lv_inv None recs ?db" using db' m by (simp add: lv_inv_def replayed_def)
  moreover have "walLog (dbWal ?db) = wal_log recs" using db'(4) by (simp add: OpenWal_def)
  ultimately show ?thesis using new abs by blast
qed

text \<open>A frame has at least 29 bytes, so the length of a log bounds the number of its records.\<close>

lemma length_wal_log_ge: "29 * length recs \<le> length (wal_log recs)"
  by (induction recs) (simp_all add: wal_log_def length_frame_of length_body_of)

lemma wal_holds_length: "wal_holds dm recs b err \<Longrightarrow> 29 * length recs \<le> length b"
  using length_wal_log_ge [of recs] by (auto simp: wal_holds_def)

text \<open>
  A crash that leaves the first \<open>k\<close> bytes of the log: the engine opens with a prefix of the
  records written, which has every record whose frame was synced.
\<close>

lemma crash_recovery:
  assumes inv: "lv_inv pub recs db" and k: "walSynced (dbWal db) \<le> k" and n: "Suc (length recs) < 2 ^ 32" and io: "\<forall>j. dio j = DiskOk"
  shows "\<exists>recs' db'. NewLevara dot levels dio True durable (dbDim db) cfg (take k (walLog (dbWal db))) metaFile = Inr db' \<and>
    prefix recs' recs \<and> lv_inv None recs' db' \<and>
    (\<forall>i. lv_abs db' i = map_option (\<lambda>(v, m). (arena_normalize v, m)) (log_map recs' i)) \<and>
    (\<forall>early later. recs = early @ later \<longrightarrow> length (wal_log early) \<le> walSynced (dbWal db) \<longrightarrow> prefix early recs')"
proof -
  have w: "wal_holds (dbDim db) recs (walLog (dbWal db)) (walErr (dbWal db))" and st: "lv_static db"
    using inv by (simp_all add: lv_inv_def wal_inv_def lv_mem_def)
  have dm: "1 \<le> dbDim db" "dbDim db \<le> 65536" using st by (simp_all add: lv_static_def)
  obtain recs' where recs': "WAL_prepareRecovery (int (dbDim db)) (take k (walLog (dbWal db))) = Inr (wal_log recs')"
    "prefix recs' recs" and early: "\<forall>early later. recs = early @ later \<longrightarrow> length (wal_log early) \<le> k \<longrightarrow> prefix early recs'"
    using wal_holds_crash [OF w dm, of k] by blast
  have "set recs' \<subseteq> set recs" using recs'(2) by (rule set_mono_prefix)
  then have fits: "\<forall>rec\<in>set recs'. wal_fits (dbDim db) rec" using w by (auto simp: wal_holds_def)
  have "Suc (length recs') < 2 ^ 32" using n prefix_length_le [OF recs'(2)] by simp
  from NewLevara_log [OF recs'(1) fits dm this io] recs'(2) early k show ?thesis by (meson order_trans)
qed

end
