(* ===== verification/Levara_Steps.thy ===== *)
theory Levara_Steps
  imports Levara_Recovery
begin

text \<open>
  The engine as a concurrent system. The phases of \<open>Insert\<close> and \<open>Delete\<close> of any number of
  callers, the flushes, checkpoints, and the three phases of the indexer goroutine
  (capture the first item and the graph, publish the item, unlink it) interleave freely; a
  phase is what happens under one hold of a lock.
\<close>

section \<open>State and steps\<close>

text \<open>The flag of a captured item: the graph it was captured with is still the engine's.\<close>

datatype indexer_phase = IxIdle | IxTaken pendingItem bool | IxPublished pendingItem bool

record LvState =
  lsDb :: Levara
  lsFlight :: "(string \<times> vec \<times> bytes \<times> FileLocation) list"
  lsIx :: indexer_phase

text \<open>A metadata write that succeeds or writes nothing.\<close>

fun whole_write :: "disk_io \<Rightarrow> bool" where
  "whole_write DiskOk = True"
| "whole_write (DiskShort n) = (n = 0)"

inductive lv_step :: "LvState \<Rightarrow> LvState \<Rightarrow> bool" where
  meta_ok: "Insert_check (lsDb s) i v b = None \<Longrightarrow> whole_write dio \<Longrightarrow> dsPos (dbDisk (lsDb s)) < 2 ^ 63 \<Longrightarrow>
    DiskStore_Write dio (dbDisk (lsDb s)) b = (Inr loc, ds') \<Longrightarrow>
    lv_step s (s\<lparr>lsDb := (lsDb s)\<lparr>dbDisk := ds'\<rparr>, lsFlight := lsFlight s @ [(i, v, b, loc)]\<rparr>)"
| meta_fail: "whole_write dio \<Longrightarrow> DiskStore_Write dio (dbDisk (lsDb s)) b = (Inl e, ds') \<Longrightarrow>
    lv_step s (s\<lparr>lsDb := (lsDb s)\<lparr>dbDisk := ds'\<rparr>\<rparr>)"
| commit: "lsFlight s = xs @ (i, v, b, loc) # ys \<Longrightarrow> Suc (arTotalVectors (dbArena (lsDb s))) < 2 ^ 32 \<Longrightarrow>
    dsPos (dbDisk (lsDb s)) < 2 ^ 63 \<Longrightarrow> Insert_locked wio i v b loc (lsDb s) = (r, db') \<Longrightarrow>
    lv_step s (s\<lparr>lsDb := db', lsFlight := xs @ ys\<rparr>)"
| delete: "deleteLocked wio (lsDb s) i = (r, db') \<Longrightarrow> lv_step s (s\<lparr>lsDb := db'\<rparr>)"
| flush: "FlushAsync fio (lsDb s) = (r, db') \<Longrightarrow> lv_step s (s\<lparr>lsDb := db'\<rparr>)"
| checkpoint: "map_order (dbIndex (lsDb s)) order \<Longrightarrow> Checkpoint order pio (lsDb s) = (r, db') \<Longrightarrow>
    lv_step s (s\<lparr>lsDb := db'\<rparr>)"
| take_item: "lsIx s = IxIdle \<Longrightarrow> indexer_take (lsDb s) = Some p \<Longrightarrow> lv_step s (s\<lparr>lsIx := IxTaken p True\<rparr>)"
| publish: "lsIx s = IxTaken p current \<Longrightarrow>
    lv_step s (s\<lparr>lsDb := (if current then indexer_add dot level p (lsDb s) else lsDb s), lsIx := IxPublished p current\<rparr>)"
| unlink: "lsIx s = IxPublished p current \<Longrightarrow>
    lv_step s (s\<lparr>lsDb := indexer_unlink p (lsDb s), lsIx := IxIdle\<rparr>)"

inductive_cases lv_stepE: "lv_step s s'"

section \<open>Invariant\<close>

definition ix_pub :: "indexer_phase \<Rightarrow> nat option" where
  "ix_pub ph = (case ph of IxPublished p _ \<Rightarrow> Some (piIdx p) | _ \<Rightarrow> None)"

definition ix_ok :: "Levara \<Rightarrow> indexer_phase \<Rightarrow> bool" where
  "ix_ok db ph \<longleftrightarrow>
     (case ph of
        IxIdle \<Rightarrow> True
      | IxTaken p current \<Rightarrow> current \<and> piID p \<noteq> [] \<and> piIdx p < arTotalVectors (dbArena db) \<and>
          nodeByOffset (dbHnsw db) (piIdx p) = None \<and> (p \<in> set (dbPending db) \<or> isDeleted (dbHnsw db) (piIdx p))
      | IxPublished p current \<Rightarrow> current \<and> piIdx p < arTotalVectors (dbArena db) \<and>
          (p \<in> set (dbPending db) \<and> nodeByOffset (dbHnsw db) (piIdx p) \<noteq> None \<or> isDeleted (dbHnsw db) (piIdx p)))"

definition flight_ok :: "Levara \<Rightarrow> (string \<times> vec \<times> bytes \<times> FileLocation) \<Rightarrow> bool" where
  "flight_ok db x \<longleftrightarrow> (case x of (i, v, b, loc) \<Rightarrow> i \<noteq> [] \<and> loc_ok (dbDisk db) loc \<and> disk_bytes (dbDisk db) loc = b)"

definition ls_inv :: "WALRecord list \<Rightarrow> LvState \<Rightarrow> bool" where
  "ls_inv recs s \<longleftrightarrow>
     lv_inv (ix_pub (lsIx s)) recs (lsDb s) \<and> ix_ok (lsDb s) (lsIx s) \<and> (\<forall>x\<in>set (lsFlight s). flight_ok (lsDb s) x)"

lemma whole_write_inv: "whole_write io \<Longrightarrow> disk_inv ds \<Longrightarrow> DiskStore_Write io ds data = (r, ds') \<Longrightarrow> disk_inv ds'"
  by (cases io) (auto simp: DiskStore_Write_def disk_inv_def Let_def)

lemma ix_ok_same:
  "dbArena db' = dbArena db \<Longrightarrow> dbHnsw db' = dbHnsw db \<Longrightarrow> dbPending db' = dbPending db \<Longrightarrow> ix_ok db' ph = ix_ok db ph"
  by (simp add: ix_ok_def split: indexer_phase.split)

lemma flight_ok_disk:
  "flight_ok db x \<Longrightarrow> DiskStore_Write io (dbDisk db) data = (r, ds') \<Longrightarrow> flight_ok (db\<lparr>dbDisk := ds'\<rparr>) x"
  using disk_write_bytes by (auto simp: flight_ok_def)

text \<open>The captured item survives what the other phases do: it stays queued or is tombstoned.\<close>

lemma ix_ok_move:
  assumes ok: "ix_ok db ph" and n: "arTotalVectors (dbArena db) \<le> arTotalVectors (dbArena db')"
    and nb: "nodeByOffset (dbHnsw db') = nodeByOffset (dbHnsw db)"
    and del: "\<And>k. isDeleted (dbHnsw db) k \<Longrightarrow> isDeleted (dbHnsw db') k"
    and q: "\<And>p. p \<in> set (dbPending db) \<Longrightarrow> p \<in> set (dbPending db') \<or> isDeleted (dbHnsw db') (piIdx p)"
  shows "ix_ok db' ph"
  using assms by (cases ph) (auto simp: ix_ok_def)

lemma commit_ix:
  assumes inv: "lv_mem pub db" and room: "lv_room db" and run: "Insert_locked wio i v b loc db = (r, db')" and ok: "ix_ok db ph"
  shows "ix_ok db' ph"
proof -
  have st: "lv_static db" and g: "lv_graph pub (dbPending db) db" using inv by (simp_all add: lv_mem_def)
  have pend: "dbIndex db (piID p) = Some (piIdx p)" if "p \<in> set (dbPending db)" for p
    using g that unfolding lv_graph_def by blast
  consider "db' = db"
    | idx v' a' w where "VectorArena_Add (dbArena db) v = Inr (idx, v', a')" "db' = db\<lparr>dbArena := a', dbWal := w\<rparr>"
    | idx v' a' w where "VectorArena_Add (dbArena db) v = Inr (idx, v', a')"
        "db' = (lv_put a' w i idx loc db)\<lparr>dbPending := dbPending (lv_put a' w i idx loc db) @
                 [\<lparr>piVector = v', piID = i, piIdx = idx\<rparr>]\<rparr>"
    using run by (auto simp: Insert_locked_def lv_put_def Let_def split: sum.splits prod.splits option.splits)
  then show ?thesis
  proof cases
    case 1
    then show ?thesis using ok by simp
  next
    case 2
    then show ?thesis using arena_add_facts(1,2) [OF st room 2(1)] by (intro ix_ok_move [OF ok]) auto
  next
    case 3
    note af = arena_add_facts(1,2) [OF st room 3(1)]
    have pn: "dbPending (lv_put a' w i idx loc db) = removePendingItemsByID (dbPending db) i"
      using lv_put_pending [of pub db "[]"] g by simp
    show ?thesis
    proof (rule ix_ok_move [OF ok])
      show "arTotalVectors (dbArena db) \<le> arTotalVectors (dbArena db')" using 3(2) af by (simp add: lv_put_frame(1))
      show "nodeByOffset (dbHnsw db') = nodeByOffset (dbHnsw db)" using 3(2) by (simp add: lv_put_nodes)
      show "isDeleted (dbHnsw db) k \<Longrightarrow> isDeleted (dbHnsw db') k" for k using 3(2) by (simp add: lv_put_deleted)
      show "p \<in> set (dbPending db') \<or> isDeleted (dbHnsw db') (piIdx p)" if "p \<in> set (dbPending db)" for p
        using that pend [OF that] 3(2) pn by (auto simp: lv_put_deleted removePendingItemsByID_def)
    qed
  qed
qed

lemma delete_ix:
  assumes inv: "lv_mem pub db" and run: "deleteLocked wio db i = (r, db')" and ok: "ix_ok db ph"
  shows "ix_ok db' ph" "dbDisk db' = dbDisk db"
proof -
  have pend: "dbIndex db (piID p) = Some (piIdx p)" if "p \<in> set (dbPending db)" for p
    using inv that unfolding lv_mem_def lv_graph_def by blast
  consider w where "db' = db\<lparr>dbWal := w\<rparr>"
    | idx w where "dbIndex db i = Some idx" "db' = removePendingByID
        (db\<lparr>dbWal := w, dbIndex := (dbIndex db)(i := None), dbRevIndex := clear_rev idx (dbRevIndex db),
            dbMetaLocs := (dbMetaLocs db)(idx := None), dbHnsw := MarkDeleted (dbHnsw db) idx\<rparr>) i"
    using run
  proof (cases "dbIndex db i")
    case None
    then have "db' = db\<lparr>dbWal := dbWal db\<rparr>" using run by (simp add: deleteLocked_def)
    then show thesis by (rule that(1))
  next
    case (Some idx)
    then show thesis using run that by (auto simp: deleteLocked_def split: prod.splits option.splits)
  qed
  then have "ix_ok db' ph \<and> dbDisk db' = dbDisk db"
  proof cases
    case 1
    then show ?thesis using ok ix_ok_same [of db' db ph] by simp
  next
    case 2
    have "ix_ok db' ph"
    proof (rule ix_ok_move [OF ok])
      show "isDeleted (dbHnsw db) k \<Longrightarrow> isDeleted (dbHnsw db') k" for k
        using 2(2) by (simp add: removePendingByID_def isDeleted_def MarkDeleted_def)
      show "p \<in> set (dbPending db') \<or> isDeleted (dbHnsw db') (piIdx p)" if "p \<in> set (dbPending db)" for p
        using that pend [OF that] 2
        by (auto simp: removePendingByID_def removePendingItemsByID_def isDeleted_def MarkDeleted_def)
    qed (simp_all add: 2(2) removePendingByID_def)
    then show ?thesis using 2(2) by (simp add: removePendingByID_def)
  qed
  then show "ix_ok db' ph" "dbDisk db' = dbDisk db" by blast+
qed

text \<open>An item of the queue is never live in the graph under another offset.\<close>

lemma pending_not_live:
  assumes g: "lv_graph pub ps db" and p: "p \<in> set ps" and fresh: "nodeByOffset (dbHnsw db) (piIdx p) = None"
  shows "\<not> hnsw_live (dbHnsw db) (piID p)"
proof
  let ?h = "dbHnsw db"
  assume "hnsw_live ?h (piID p)"
  then obtain o' where o': "hNodes ?h (piID p) = Some o'" "\<not> isDeleted ?h (nArenaOffset (obj ?h o'))"
    by (auto simp: hnsw_live_def)
  have base: "hnsw_base (arTotalVectors (dbArena db)) ?h" using g by (simp add: lv_graph_def hnsw_inv_def)
  note ob = hnsw_base_nodes [OF base o'(1)]
  have "dbIndex db (piID p) = Some (nArenaOffset (obj ?h o'))" using g o'(2) ob unfolding lv_graph_def by metis
  moreover have "dbIndex db (piID p) = Some (piIdx p)" using g p unfolding lv_graph_def by blast
  ultimately show False using hnsw_base_obj(1) [OF base, of o'] ob fresh by simp
qed

lemma publish_inv:
  assumes inv: "lv_inv None recs db" and ok: "ix_ok db (IxTaken p True)"
  shows "lv_inv (Some (piIdx p)) recs (indexer_add dot level p db)" "ix_ok (indexer_add dot level p db) (IxPublished p True)"
    "dbDisk (indexer_add dot level p db) = dbDisk db"
proof -
  let ?db = "indexer_add dot level p db"
  have mem: "lv_mem None db" and g: "lv_graph None (dbPending db) db" using inv by (simp_all add: lv_inv_def lv_mem_def)
  have o: "piID p \<noteq> []" "piIdx p < arTotalVectors (dbArena db)" "nodeByOffset (dbHnsw db) (piIdx p) = None"
    "p \<in> set (dbPending db) \<or> isDeleted (dbHnsw db) (piIdx p)" using ok by (simp_all add: ix_ok_def)
  have fr: "dbIndex ?db = dbIndex db" "dbRevIndex ?db = dbRevIndex db" "dbArena ?db = dbArena db" "dbMetaLocs ?db = dbMetaLocs db"
    "dbDisk ?db = dbDisk db" "dbDim ?db = dbDim db" "dbWal ?db = dbWal db" "dbPending ?db = dbPending db"
    by (simp_all add: indexer_add_def)
  show "dbDisk ?db = dbDisk db" by (fact fr)
  have "lv_graph (Some (piIdx p)) (dbPending db) ?db" using indexer_add_graph [OF g o(3,1,2,4)] .
  moreover have abs: "lv_abs ?db = lv_abs db" unfolding lv_abs_def fr ..
  moreover have "lv_static ?db" "lv_index ?db" using mem unfolding lv_mem_def lv_static_def lv_index_def fr by blast+
  ultimately show "lv_inv (Some (piIdx p)) recs ?db"
    using inv by (simp add: lv_inv_def lv_mem_def lv_logged_def fr)
  have hinv: "hnsw_inv (arTotalVectors (dbArena db)) (dbHnsw db)" using g by (simp add: lv_graph_def)
  have del: "isDeleted (dbHnsw ?db) = isDeleted (dbHnsw db)"
  proof (cases "hnsw_live (dbHnsw db) (piID p)")
    case True
    then show ?thesis by (simp add: indexer_add_def HNSW_Add_live)
  next
    case False
    from HNSW_Add_new(2) [OF hinv vec_ok_arena o(3,1,2) False, where dot = dot and level = level and v = "piVector p"] show ?thesis
      by (simp add: indexer_add_def registered_as_def isDeleted_def fun_eq_iff)
  qed
  show "ix_ok ?db (IxPublished p True)"
  proof (cases "p \<in> set (dbPending db)")
    case True
    from HNSW_Add_new(2) [OF hinv vec_ok_arena o(3,1,2) pending_not_live [OF g True o(3)], where dot = dot and level = level and v = "piVector p"]
    have "nodeByOffset (dbHnsw ?db) (piIdx p) \<noteq> None" by (simp add: indexer_add_def registered_as_def)
    then show ?thesis using True o(2) by (simp add: ix_ok_def fr)
  next
    case False
    then show ?thesis using o by (simp add: ix_ok_def fr del)
  qed
qed

lemma unlink_inv:
  assumes inv: "lv_inv (Some (piIdx p)) recs db" and ok: "ix_ok db (IxPublished p True)"
  shows "lv_inv None recs (indexer_unlink p db)"
proof -
  have g: "lv_graph (Some (piIdx p)) (dbPending db) db" using inv by (simp add: lv_inv_def lv_mem_def)
  have "lv_graph None (removePendingItem (dbPending db) p) db"
    using g ok by (intro indexer_unlink_graph) (auto simp: ix_ok_def)
  then have "lv_graph None (removePendingItem (dbPending db) p) (indexer_unlink p db)"
    by (simp add: lv_graph_def indexer_unlink_def)
  then show ?thesis
    using inv by (simp add: lv_inv_def lv_mem_def lv_static_def lv_index_def lv_logged_def indexer_unlink_def)
qed

lemma meta_check_id: "Insert_check db i v b = None \<Longrightarrow> i \<noteq> [] \<and> length b \<le> mib"
  by (auto simp: Insert_check_def validateWALRecord_def split: if_splits option.splits)

lemma ls_inv_step:
  assumes "lv_step s s'" "ls_inv recs s"
  shows "\<exists>recs'. ls_inv recs' s'"
  using assms
proof (induction rule: lv_step.induct)
  case (meta_ok s i v b dio loc ds')
  have inv: "lv_inv (ix_pub (lsIx s)) recs (lsDb s)" using meta_ok by (simp add: ls_inv_def)
  then have d: "disk_inv (dbDisk (lsDb s))" by (simp add: lv_inv_def lv_mem_def lv_static_def)
  note c = meta_check_id [OF meta_ok(1)]
  note w = disk_write_loc [OF d _ meta_ok(3,4)]
  have "ls_inv recs (s\<lparr>lsDb := (lsDb s)\<lparr>dbDisk := ds'\<rparr>, lsFlight := lsFlight s @ [(i, v, b, loc)]\<rparr>)"
    using meta_ok c w lv_inv_disk [OF inv meta_ok(4)] ix_ok_same [of "(lsDb s)\<lparr>dbDisk := ds'\<rparr>" "lsDb s"]
    by (auto simp: ls_inv_def flight_ok_disk flight_ok_def [of _ "(i, v, b, loc)"])
  then show ?case ..
next
  case (meta_fail dio s b e ds')
  have inv: "lv_inv (ix_pub (lsIx s)) recs (lsDb s)" using meta_fail by (simp add: ls_inv_def)
  then have "disk_inv (dbDisk (lsDb s))" by (simp add: lv_inv_def lv_mem_def lv_static_def)
  then have "disk_inv ds'" using whole_write_inv meta_fail(1,2) by blast
  then have "ls_inv recs (s\<lparr>lsDb := (lsDb s)\<lparr>dbDisk := ds'\<rparr>\<rparr>)"
    using meta_fail lv_inv_disk [OF inv meta_fail(2)] ix_ok_same [of "(lsDb s)\<lparr>dbDisk := ds'\<rparr>" "lsDb s"]
    by (auto simp: ls_inv_def flight_ok_disk)
  then show ?case ..
next
  case (commit s xs i v b loc ys wio r db')
  have inv: "lv_inv (ix_pub (lsIx s)) recs (lsDb s)" and ix: "ix_ok (lsDb s) (lsIx s)"
    and f: "i \<noteq> []" "loc_ok (dbDisk (lsDb s)) loc" "disk_bytes (dbDisk (lsDb s)) loc = b"
    and fl: "\<forall>x\<in>set (xs @ ys). flight_ok (lsDb s) x"
    using commit by (auto simp: ls_inv_def flight_ok_def)
  have room: "lv_room (lsDb s)" using commit by (simp add: lv_room_def)
  have mem: "lv_mem (ix_pub (lsIx s)) (lsDb s)" using inv by (simp add: lv_inv_def)
  have "dbDisk db' = dbDisk (lsDb s)" using Insert_locked_mem(3) [OF mem room f(1,2) commit(4)] .
  then have "\<forall>x\<in>set (xs @ ys). flight_ok db' x" using fl by (simp add: flight_ok_def)
  then show ?case
    using Insert_locked_inv(1) [OF inv room f(1,2) commit(4) f(3)] commit_ix [OF mem room commit(4) ix]
    by (auto simp: ls_inv_def)
next
  case (delete wio s i r db')
  have inv: "lv_inv (ix_pub (lsIx s)) recs (lsDb s)" and ix: "ix_ok (lsDb s) (lsIx s)" and fl: "\<forall>x\<in>set (lsFlight s). flight_ok (lsDb s) x"
    using delete by (auto simp: ls_inv_def)
  have mem: "lv_mem (ix_pub (lsIx s)) (lsDb s)" using inv by (simp add: lv_inv_def)
  show ?case
    using deleteLocked_inv(1) [OF inv delete(1)] delete_ix [OF mem delete(1) ix] fl by (auto simp: ls_inv_def flight_ok_def)
next
  case (flush fio s r db')
  have "dbArena db' = dbArena (lsDb s)" "dbHnsw db' = dbHnsw (lsDb s)" "dbPending db' = dbPending (lsDb s)" "dbDisk db' = dbDisk (lsDb s)"
    using flush(1) by (auto simp: FlushAsync_def split: if_splits prod.splits)
  moreover have "lv_inv (ix_pub (lsIx s)) recs db'" using flush FlushAsync_inv(1) [OF _ flush(1)] by (simp add: ls_inv_def)
  ultimately have "ls_inv recs (s\<lparr>lsDb := db'\<rparr>)"
    using flush(2) ix_ok_same [of db' "lsDb s" "lsIx s"] by (simp add: ls_inv_def flight_ok_def)
  then show ?case ..
next
  case (checkpoint s order pio r db')
  have inv: "lv_inv (ix_pub (lsIx s)) recs (lsDb s)" using checkpoint by (simp add: ls_inv_def)
  note ck = checkpoint_inv [OF inv checkpoint(1) checkpoint(2) [unfolded Checkpoint_def]]
  then show ?case using checkpoint ix_ok_same [of db' "lsDb s" "lsIx s"] by (auto simp: ls_inv_def flight_ok_def)
next
  case (take_item s p)
  have g: "lv_graph None (dbPending (lsDb s)) (lsDb s)" and ixx: "lv_index (lsDb s)"
    using take_item by (simp_all add: ls_inv_def lv_inv_def lv_mem_def ix_pub_def)
  have p: "p \<in> set (dbPending (lsDb s))" using take_item(2) by (auto simp: indexer_take_def split: list.splits)
  then have ip: "dbIndex (lsDb s) (piID p) = Some (piIdx p)" and nb: "nodeByOffset (dbHnsw (lsDb s)) (piIdx p) = None"
    using g unfolding lv_graph_def by auto
  have "piID p \<noteq> []" "piIdx p < arTotalVectors (dbArena (lsDb s))" using ip ixx unfolding lv_index_def by blast+
  then show ?case using take_item p nb by (intro exI [of _ recs]) (simp add: ls_inv_def ix_pub_def ix_ok_def)
next
  case (publish s p current dot level)
  then have c: current "lv_inv None recs (lsDb s)" "ix_ok (lsDb s) (IxTaken p True)"
    by (auto simp: ls_inv_def ix_pub_def ix_ok_def)
  note pb = publish_inv [OF c(2,3), of dot level]
  then show ?case using publish c(1) by (intro exI [of _ recs]) (simp add: ls_inv_def ix_pub_def flight_ok_def)
next
  case (unlink s p current)
  then have c: current "lv_inv (Some (piIdx p)) recs (lsDb s)" "ix_ok (lsDb s) (IxPublished p True)"
    by (auto simp: ls_inv_def ix_pub_def ix_ok_def)
  note ul = unlink_inv [OF c(2,3)]
  then show ?case
    using unlink by (intro exI [of _ recs]) (auto simp: ls_inv_def ix_pub_def ix_ok_def flight_ok_def indexer_unlink_def)
qed

definition lv_run :: "LvState \<Rightarrow> LvState \<Rightarrow> bool" where
  "lv_run = lv_step\<^sup>*\<^sup>*"

definition ls_start :: "Levara \<Rightarrow> LvState" where
  "ls_start db = \<lparr>lsDb = db, lsFlight = [], lsIx = IxIdle\<rparr>"

lemma ls_inv_start: "lv_inv None recs db \<Longrightarrow> ls_inv recs (ls_start db)"
  by (simp add: ls_inv_def ls_start_def ix_pub_def ix_ok_def)

lemma ls_inv_run: "lv_run s s' \<Longrightarrow> \<exists>recs. ls_inv recs s \<Longrightarrow> \<exists>recs. ls_inv recs s'"
  unfolding lv_run_def by (induction rule: rtranclp_induct) (auto dest: ls_inv_step)

section \<open>Visibility\<close>

text \<open>A record is visible to a search when its slot is a live node of the graph or waits in the queue.\<close>

definition visible :: "Levara \<Rightarrow> string \<Rightarrow> bool" where
  "visible db i \<longleftrightarrow>
     (\<exists>p<length (hObjs (dbHnsw db)). nID (obj (dbHnsw db) p) = i \<and> hNodes (dbHnsw db) i = Some p \<and>
        \<not> isDeleted (dbHnsw db) (nArenaOffset (obj (dbHnsw db) p))) \<or> i \<in> piID ` set (dbPending db)"

lemma lv_mem_visible:
  assumes mem: "lv_mem pub db" and i: "dbIndex db i = Some idx"
  shows "visible db i"
proof -
  let ?h = "dbHnsw db"
  have g: "lv_graph pub (dbPending db) db" and ix: "lv_index db" using mem by (simp_all add: lv_mem_def)
  have nd: "\<not> isDeleted ?h idx" and v: "nodeByOffset ?h idx \<noteq> None \<or> idx \<in> piIdx ` set (dbPending db)"
    using g i unfolding lv_graph_def by blast+
  have base: "hnsw_base (arTotalVectors (dbArena db)) ?h" using g by (simp add: lv_graph_def hnsw_inv_def)
  from v show ?thesis
  proof
    assume "nodeByOffset ?h idx \<noteq> None"
    then obtain p where p: "nodeByOffset ?h idx = Some p" by blast
    note r = hnsw_base_registered [OF base p]
    have "dbIndex db (nID (obj ?h p)) = Some idx" using g r nd unfolding lv_graph_def by metis
    then have "nID (obj ?h p) = i" using lv_index_inj [OF ix _ i] by blast
    then show ?thesis using r nd hnsw_base_obj(5) [OF base r(1)] by (auto simp: visible_def)
  next
    assume "idx \<in> piIdx ` set (dbPending db)"
    then obtain q where q: "q \<in> set (dbPending db)" "piIdx q = idx" by blast
    then have "dbIndex db (piID q) = Some idx" using g unfolding lv_graph_def by blast
    then have "piID q = i" using lv_index_inj [OF ix _ i] by blast
    then show ?thesis using q(1) by (auto simp: visible_def)
  qed
qed

lemma lv_mem_invisible:
  assumes mem: "lv_mem pub db" and i: "dbIndex db i = None"
  shows "\<not> visible db i"
  using mem i unfolding lv_mem_def lv_graph_def visible_def by fastforce

end
