(* ===== verification/Levara_Search.thy ===== *)
theory Levara_Search
  imports Levara_Steps
begin

text \<open>
  \<open>Levara.Search\<close>: the scan of the queue keeps the best \<open>topK\<close> unseen items, the merged
  result has no duplicates, only stored records, their metadata and their scores, and nothing
  that was left out beats what was returned.
\<close>

section \<open>The scan of the queue\<close>

definition numeric_scores :: "VectroRecord list \<Rightarrow> bool" where
  "numeric_scores rs \<longleftrightarrow> (\<forall>r\<in>set rs. \<not> f32_isNaN (vrScore r))"

lemma worst_fold:
  assumes "w < length best" "\<forall>k\<in>set ks. k < length best"
  shows "foldl (\<lambda>worst k. if f32_lt (vrScore (best ! k)) (vrScore (best ! worst)) then k else worst) w ks < length best"
  using assms by (induction ks arbitrary: w) auto

lemma worst_index_lt: "best \<noteq> [] \<Longrightarrow> worst_index best < length best"
  unfolding worst_index_def by (intro worst_fold) auto

lemma worst_fold_min:
  assumes num: "numeric_scores best" and "w < length best" "\<forall>k\<in>set ks. k < length best"
  shows "\<forall>k\<in>insert w (set ks). f32_le
    (vrScore (best ! (foldl (\<lambda>worst k. if f32_lt (vrScore (best ! k)) (vrScore (best ! worst)) then k else worst) w ks)))
    (vrScore (best ! k))"
  using assms(2,3)
proof (induction ks arbitrary: w)
  case Nil
  then show ?case using num by (auto simp: numeric_scores_def intro!: f32_le_refl)
next
  case (Cons j ks)
  have nn: "\<not> f32_isNaN (vrScore (best ! k))" if "k < length best" for k using num that by (auto simp: numeric_scores_def)
  let ?w = "if f32_lt (vrScore (best ! j)) (vrScore (best ! w)) then j else w"
  have "?w < length best" using Cons.prems by simp
  from Cons.IH [OF this] Cons.prems
  have ih: "\<forall>k\<in>insert ?w (set ks). f32_le
      (vrScore (best ! (foldl (\<lambda>worst k. if f32_lt (vrScore (best ! k)) (vrScore (best ! worst)) then k else worst) ?w ks)))
      (vrScore (best ! k))" by simp
  have "f32_le (vrScore (best ! ?w)) (vrScore (best ! w))" "f32_le (vrScore (best ! ?w)) (vrScore (best ! j))"
    using nn [of j] nn [of w] Cons.prems f32_not_lt f32_le_refl by (auto intro: f32_lt_imp_le)
  moreover have "f32_le (vrScore (best ! (foldl (\<lambda>worst k. if f32_lt (vrScore (best ! k)) (vrScore (best ! worst)) then k else worst) ?w ks)))
      (vrScore (best ! ?w))" using ih by blast
  ultimately have "f32_le (vrScore (best ! (foldl (\<lambda>worst k. if f32_lt (vrScore (best ! k)) (vrScore (best ! worst)) then k else worst) ?w ks)))
      (vrScore (best ! k))" if "k = w \<or> k = j" for k using f32_le_trans that by blast
  then show ?case using ih by simp
qed

lemma worst_index_min:
  assumes "numeric_scores best" "x \<in> set best"
  shows "f32_le (vrScore (best ! worst_index best)) (vrScore x)"
proof -
  have ne: "best \<noteq> []" using assms(2) by auto
  obtain k where k: "k < length best" "x = best ! k" using assms(2) by (auto simp: in_set_conv_nth)
  have "k \<in> insert 0 (set [1..<length best])" using k by auto
  then show ?thesis
    using worst_fold_min [OF assms(1), of 0 "[1..<length best]"] ne k(2) unfolding worst_index_def by auto
qed

text \<open>\<open>best\<close> is full when something was dropped, and nothing dropped beats what is kept.\<close>

definition best_of :: "nat \<Rightarrow> VectroRecord set \<Rightarrow> VectroRecord list \<Rightarrow> bool" where
  "best_of topK all best \<longleftrightarrow> set best \<subseteq> all \<and> length best \<le> topK \<and>
     (\<forall>r\<in>all - set best. length best = topK \<and> (\<forall>x\<in>set best. f32_le (vrScore r) (vrScore x)))"

lemma offer_best:
  assumes b: "best_of topK all best" and num: "\<forall>r\<in>insert c all. \<not> f32_isNaN (vrScore r)" and k: "0 < topK" and d: "distinct best"
  shows "best_of topK (insert c all) (offer topK c best)"
proof (cases "length best < topK")
  case True
  then have "all = set best" using b by (auto simp: best_of_def)
  then show ?thesis using True by (auto simp: best_of_def offer_def)
next
  case False
  then have len: "length best = topK" and ne: "best \<noteq> []" using b k by (auto simp: best_of_def)
  have nb: "numeric_scores best" using b num by (auto simp: best_of_def numeric_scores_def)
  let ?w = "worst_index best"
  have wl: "?w < length best" by (rule worst_index_lt [OF ne])
  have sub: "set best \<subseteq> all" using b by (simp add: best_of_def)
  have wmin: "f32_le (vrScore (best ! ?w)) (vrScore x)" if "x \<in> set best" for x using worst_index_min [OF nb that] .
  have nw: "\<not> f32_isNaN (vrScore (best ! ?w))" "\<not> f32_isNaN (vrScore c)" using num sub wl by (auto dest: nth_mem)
  have drop: "f32_le (vrScore r) (vrScore x)" if "r \<in> all - set best" "x \<in> set best" for r x
    using b that by (auto simp: best_of_def)
  show ?thesis
  proof (cases "f32_gt (vrScore c) (vrScore (best ! ?w))")
    case True
    then have off: "offer topK c best = best[?w := c]" using False by (simp add: offer_def Let_def)
    have wc: "f32_le (vrScore (best ! ?w)) (vrScore c)" using True by (auto simp: fltcmp)
    have set': "set (best[?w := c]) = insert c (set best - {best ! ?w})" using d wl by (simp add: set_update_distinct)
    have "f32_le (vrScore r) (vrScore x)" if r: "r \<in> insert c all - set (best[?w := c])" and x: "x \<in> set (best[?w := c])" for r x
    proof (cases "r = best ! ?w")
      case True
      then show ?thesis using x wmin wc by (auto simp: set')
    next
      case False
      then have "r \<in> all - set best" using r by (auto simp: set')
      then show ?thesis using x drop [of r] f32_le_trans [OF drop [of r "best ! ?w"] wc] wl by (auto simp: set')
    qed
    then show ?thesis using sub len by (auto simp: best_of_def off set')
  next
    case False
    then have off: "offer topK c best = best" using \<open>\<not> length best < topK\<close> by (simp add: offer_def Let_def)
    have "f32_le (vrScore c) (vrScore (best ! ?w))" using False nw by (auto simp: fltcmp)
    then have "f32_le (vrScore c) (vrScore x)" if "x \<in> set best" for x using wmin [OF that] f32_le_trans by blast
    then show ?thesis using b len by (auto simp: best_of_def off)
  qed
qed

lemma offer_ids:
  assumes "distinct (map vrID best)" "vrID c \<notin> vrID ` set best" "0 < topK"
  shows "distinct (map vrID (offer topK c best))" "set (offer topK c best) \<subseteq> insert c (set best)"
    "length best \<le> topK \<Longrightarrow> length (offer topK c best) \<le> topK"
proof -
  have "distinct (map vrID (best[w := c]))" if "w < length best" for w
  proof -
    have "map vrID (best[w := c]) = (map vrID best)[w := vrID c]" by (simp add: map_update)
    then show ?thesis using assms(1,2) that by (simp add: distinct_list_update)
  qed
  moreover have "worst_index best < length best" if "\<not> length best < topK"
  proof (rule worst_index_lt)
    show "best \<noteq> []" using that assms(3) by auto
  qed
  ultimately have full: "distinct (map vrID (best[worst_index best := c]))" if "\<not> length best < topK" using that by blast
  show "distinct (map vrID (offer topK c best))"
  proof (cases "length best < topK")
    case True
    then show ?thesis using assms(1,2) by (simp add: offer_def)
  next
    case False
    then show ?thesis using full [OF False] assms(1) by (simp add: offer_def Let_def)
  qed
  show "set (offer topK c best) \<subseteq> insert c (set best)"
    by (auto simp: offer_def Let_def dest: set_update_subset_insert [THEN subsetD])
  show "length best \<le> topK \<Longrightarrow> length (offer topK c best) \<le> topK" by (auto simp: offer_def Let_def)
qed

definition pending_record :: "dot_fn \<Rightarrow> vec \<Rightarrow> pendingItem \<Rightarrow> VectroRecord" where
  "pending_record dot normQ p =
     \<lparr>vrID = piID p, vrScore = f32_sub f32_one (dist dot normQ (piVector p)), vrData = ''{}''\<rparr>"

lemma pending_record_id [simp]: "vrID (pending_record dot normQ p) = piID p"
  by (simp add: pending_record_def)

lemma best_pending_Cons:
  "best_pending dot normQ topK (p # ps) seen best =
     (if piID p \<in> seen then best_pending dot normQ topK ps seen best
      else best_pending dot normQ topK ps (insert (piID p) seen) (offer topK (pending_record dot normQ p) best))"
  by (simp add: pending_record_def)

lemma best_pending_ids:
  assumes "0 < topK" "distinct (map vrID best)" "vrID ` set best \<subseteq> seen" "length best \<le> topK"
  shows "distinct (map vrID (best_pending dot normQ topK ps seen best)) \<and>
    set (best_pending dot normQ topK ps seen best) \<subseteq>
      set best \<union> {pending_record dot normQ p | p. p \<in> set ps \<and> piID p \<notin> seen} \<and>
    length (best_pending dot normQ topK ps seen best) \<le> topK"
  using assms(2-)
proof (induction ps arbitrary: seen best)
  case (Cons p ps)
  show ?case
  proof (cases "piID p \<in> seen")
    case True
    then show ?thesis using Cons.IH [OF Cons.prems] unfolding best_pending_Cons by (simp add: subset_iff) blast
  next
    case False
    let ?c = "pending_record dot normQ p" and ?b = "offer topK (pending_record dot normQ p) best"
    have new: "vrID ?c \<notin> vrID ` set best" using False Cons.prems(2) by auto
    note o = offer_ids [OF Cons.prems(1) new assms(1)]
    have "vrID ` set ?b \<subseteq> insert (piID p) seen" using o(2) Cons.prems(2) by fastforce
    from Cons.IH [OF o(1) this o(3) [OF Cons.prems(3)]] o(2) False show ?thesis
      unfolding best_pending_Cons by (simp add: subset_iff) blast
  qed
qed simp

text \<open>With distinct ids in the queue, the scan is the best \<open>topK\<close> of the unseen items.\<close>

lemma best_pending_best:
  assumes k: "0 < topK"
  shows "best_of topK all best \<Longrightarrow> distinct (map vrID best) \<Longrightarrow> vrID ` set best \<subseteq> seen \<Longrightarrow> distinct (map piID ps) \<Longrightarrow>
    \<forall>r\<in>all \<union> {pending_record dot normQ p | p. p \<in> set ps \<and> piID p \<notin> seen}. \<not> f32_isNaN (vrScore r) \<Longrightarrow>
    best_of topK (all \<union> {pending_record dot normQ p | p. p \<in> set ps \<and> piID p \<notin> seen}) (best_pending dot normQ topK ps seen best)"
proof (induction ps arbitrary: seen best all)
  case (Cons p ps)
  show ?case
  proof (cases "piID p \<in> seen")
    case True
    have "{pending_record dot normQ q | q. q \<in> set (p # ps) \<and> piID q \<notin> seen} =
        {pending_record dot normQ q | q. q \<in> set ps \<and> piID q \<notin> seen}" using True by auto
    then show ?thesis using Cons True unfolding best_pending_Cons by simp
  next
    case False
    let ?c = "pending_record dot normQ p" and ?b = "offer topK (pending_record dot normQ p) best" and ?s = "insert (piID p) seen"
    have new: "vrID ?c \<notin> vrID ` set best" using False Cons.prems(3) by auto
    note o = offer_ids [OF Cons.prems(2) new k]
    have ne: "piID q \<noteq> piID p" if "q \<in> set ps" for q
      using Cons.prems(4) that by (auto simp: image_iff)
    have split: "{pending_record dot normQ q | q. q \<in> set (p # ps) \<and> piID q \<notin> seen} =
        insert ?c {pending_record dot normQ q | q. q \<in> set ps \<and> piID q \<notin> ?s}"
      using False ne by auto
    have num: "\<forall>r\<in>insert ?c all. \<not> f32_isNaN (vrScore r)" using Cons.prems(5) unfolding split by blast
    have "best_of topK (insert ?c all) ?b"
      using Cons.prems(1,2) num by (intro offer_best k) (auto simp: distinct_map)
    moreover have "vrID ` set ?b \<subseteq> ?s" using o(2) Cons.prems(3) by fastforce
    moreover have "\<forall>r\<in>insert ?c all \<union> {pending_record dot normQ q | q. q \<in> set ps \<and> piID q \<notin> ?s}. \<not> f32_isNaN (vrScore r)"
      using Cons.prems(5) unfolding split by blast
    ultimately have "best_of topK (insert ?c all \<union> {pending_record dot normQ q | q. q \<in> set ps \<and> piID q \<notin> ?s})
        (best_pending dot normQ topK ps ?s ?b)"
      using Cons.IH [of "insert ?c all" ?b ?s] o(1) Cons.prems(4) by simp
    then show ?thesis unfolding split best_pending_Cons using False by simp
  qed
qed simp

section \<open>The ranking\<close>

lemma pending_ids_distinct:
  assumes g: "lv_graph pub ps db"
  shows "distinct (map piID ps)"
proof -
  have "\<forall>p\<in>set ps. dbIndex db (piID p) = Some (piIdx p)" "distinct (map piIdx ps)" using g by (auto simp: lv_graph_def)
  then show ?thesis unfolding distinct_map inj_on_def by (metis option.inject)
qed

text \<open>What the ranking chooses from: the graph's answer and every queued item the graph did not return.\<close>

definition search_pool :: "dot_fn \<Rightarrow> Levara \<Rightarrow> vec \<Rightarrow> nat \<Rightarrow> VectroRecord set" where
  "search_pool dot db query topK =
     (let records = set (HNSW_Search dot (lv_vec db) (dbHnsw db) (normalizeVec query) topK)
      in records \<union> {pending_record dot (normalizeVec query) p | p. p \<in> set (dbPending db) \<and> piID p \<notin> vrID ` records})"

lemma Search_rank_parts:
  assumes mem: "lv_mem pub db" and k: "0 < topK"
    and rc: "records = HNSW_Search dot (lv_vec db) (dbHnsw db) (normalizeVec query) topK"
    and bs: "best = best_pending dot (normalizeVec query) topK (dbPending db) (vrID ` set records) []"
  shows "dbPending db = [] \<Longrightarrow> Search_rank dot db query topK = records"
    "dbPending db \<noteq> [] \<Longrightarrow> Search_rank dot db query topK =
       take topK (sortSlice (\<lambda>x y. f32_gt (vrScore x) (vrScore y)) (records @ best))"
    "distinct (map vrID (records @ best))" "set (records @ best) \<subseteq> search_pool dot db query topK"
    "length best \<le> topK" "length records \<le> topK"
proof -
  let ?q = "normalizeVec query"
  have hinv: "hnsw_inv (arTotalVectors (dbArena db)) (dbHnsw db)" using mem by (simp add: lv_mem_def lv_graph_def)
  note hs = HNSW_Search_sound [OF hinv, of dot "lv_vec db" ?q topK, folded rc]
  have bp: "distinct (map vrID best)"
    "set best \<subseteq> {pending_record dot ?q p | p. p \<in> set (dbPending db) \<and> piID p \<notin> vrID ` set records}" "length best \<le> topK"
    using best_pending_ids [OF k, of "[]" "vrID ` set records" dot ?q "dbPending db"] unfolding bs by auto
  have new: "vrID r \<notin> vrID ` set records" if r: "r \<in> set best" for r
  proof -
    obtain p where "r = pending_record dot ?q p" "piID p \<notin> vrID ` set records" using bp(2) r by blast
    then show ?thesis by simp
  qed
  have "vrID ` set records \<inter> vrID ` set best = {}"
  proof (rule equals0I, elim IntE)
    fix i assume i: "i \<in> vrID ` set records" "i \<in> vrID ` set best"
    from i(2) obtain r where "r \<in> set best" "i = vrID r" by (rule imageE)
    with new [of r] i(1) show False by simp
  qed
  then show "distinct (map vrID (records @ best))" using hs(2) bp(1) by simp
  show "set (records @ best) \<subseteq> search_pool dot db query topK" using bp(2) by (auto simp: search_pool_def Let_def rc)
  show "dbPending db = [] \<Longrightarrow> Search_rank dot db query topK = records"
    "dbPending db \<noteq> [] \<Longrightarrow> Search_rank dot db query topK =
       take topK (sortSlice (\<lambda>x y. f32_gt (vrScore x) (vrScore y)) (records @ best))"
    by (simp_all add: Search_rank_def Let_def rc bs)
  show "length best \<le> topK" "length records \<le> topK" using bp(3) hs(1) by auto
qed

lemma Search_rank_ids:
  assumes mem: "lv_mem pub db" and k: "0 < topK"
  shows "length (Search_rank dot db query topK) \<le> topK" "distinct (map vrID (Search_rank dot db query topK))"
    "set (Search_rank dot db query topK) \<subseteq> search_pool dot db query topK"
proof -
  define records where "records = HNSW_Search dot (lv_vec db) (dbHnsw db) (normalizeVec query) topK"
  define best where "best = best_pending dot (normalizeVec query) topK (dbPending db) (vrID ` set records) []"
  note p = Search_rank_parts [OF mem k records_def best_def]
  let ?all = "sortSlice (\<lambda>x y. f32_gt (vrScore x) (vrScore y)) (records @ best)"
  have "distinct (map vrID ?all)" using p(3) goSort.sorter_distinct_map by blast
  then have "distinct (map vrID (take topK ?all))" by (metis distinct_take take_map)
  moreover have "set (take topK ?all) \<subseteq> set (records @ best)" using goSort.sorter_set set_take_subset by metis
  ultimately have "length (Search_rank dot db query topK) \<le> topK \<and> distinct (map vrID (Search_rank dot db query topK)) \<and>
    set (Search_rank dot db query topK) \<subseteq> search_pool dot db query topK"
  proof (cases "dbPending db = []")
    case True
    then show ?thesis using p(1,3,4,6) by simp
  next
    case False
    have "set (take topK ?all) \<subseteq> search_pool dot db query topK"
      using \<open>set (take topK ?all) \<subseteq> set (records @ best)\<close> p(4) by blast
    then show ?thesis using \<open>distinct (map vrID (take topK ?all))\<close> unfolding p(2) [OF False] by simp
  qed
  then show "length (Search_rank dot db query topK) \<le> topK" "distinct (map vrID (Search_rank dot db query topK))"
    "set (Search_rank dot db query topK) \<subseteq> search_pool dot db query topK" by blast+
qed

lemma search_pool_records:
  assumes mem: "lv_mem pub db" and r: "r \<in> search_pool dot db query topK"
  shows "\<exists>v m q. lv_abs db (vrID r) = Some (v, m) \<and> q \<in> {normalizeVec query, normalizeVec (normalizeVec query)} \<and>
    vrScore r = f32_sub f32_one (dist dot q v) \<and> vrData r = ''{}''"
proof -
  let ?h = "dbHnsw db" and ?q = "normalizeVec query"
  let ?records = "HNSW_Search dot (lv_vec db) ?h ?q topK"
  have g: "lv_graph pub (dbPending db) db" using mem by (simp add: lv_mem_def)
  have hinv: "hnsw_inv (arTotalVectors (dbArena db)) ?h" using g by (simp add: lv_graph_def)
  have base: "hnsw_base (arTotalVectors (dbArena db)) ?h" using hinv by (simp add: hnsw_inv_def)
  from r consider "r \<in> set ?records" | p where "p \<in> set (dbPending db)" "r = pending_record dot ?q p"
    by (auto simp: search_pool_def Let_def)
  then show ?thesis
  proof cases
    case 1
    then obtain p v where p: "hNodes ?h (vrID r) = Some p" "\<not> isDeleted ?h (nArenaOffset (obj ?h p))"
      "lv_vec db (nArenaOffset (obj ?h p)) = Some v" "vrScore r = f32_sub f32_one (dist dot (normalizeVec ?q) v)" "vrData r = ''{}''"
      using HNSW_Search_sound(3) [OF hinv, of dot "lv_vec db" ?q topK] by blast
    note ob = hnsw_base_nodes [OF base p(1)]
    have "dbIndex db (vrID r) = Some (nArenaOffset (obj ?h p))" using g p(2) ob unfolding lv_graph_def by metis
    moreover have "v = arena_vecs (dbArena db) ! nArenaOffset (obj ?h p)"
      using p(3) by (simp add: VectorArena_getUnsafeNoLock_refines split: if_splits)
    ultimately show ?thesis using p(4,5)
      by (intro exI [of _ v] exI exI [of _ "normalizeVec ?q"]) (auto simp: lv_abs_def)
  next
    case 2
    then have "dbIndex db (piID p) = Some (piIdx p)" "piVector p = arena_vecs (dbArena db) ! piIdx p"
      using g unfolding lv_graph_def by blast+
    then show ?thesis using 2(2) by (intro exI [of _ "piVector p"] exI exI [of _ ?q]) (simp add: lv_abs_def pending_record_def)
  qed
qed

lemma Search_rank_best:
  assumes mem: "lv_mem pub db" and k: "0 < topK" and pend: "dbPending db \<noteq> []"
    and num: "\<forall>r\<in>search_pool dot db query topK. \<not> f32_isNaN (vrScore r)"
  shows "sorted_wrt (\<lambda>x y. f32_ge (vrScore x) (vrScore y)) (Search_rank dot db query topK)"
    "\<forall>c\<in>search_pool dot db query topK - set (Search_rank dot db query topK).
       length (Search_rank dot db query topK) = topK \<and> (\<forall>x\<in>set (Search_rank dot db query topK). f32_le (vrScore c) (vrScore x))"
proof -
  let ?q = "normalizeVec query" and ?gt = "\<lambda>x y. f32_gt (vrScore x) (vrScore y)"
  define records where rc: "records = HNSW_Search dot (lv_vec db) (dbHnsw db) ?q topK"
  define best where bs: "best = best_pending dot ?q topK (dbPending db) (vrID ` set records) []"
  note parts = Search_rank_parts [OF mem k rc bs]
  note out = parts(2) [OF pend] and d = parts(3) and sub = parts(4) and lb = parts(5)
  let ?all = "sortSlice ?gt (records @ best)"
  have swo: "swo_on (set (records @ best)) ?gt" using num sub by (intro swo_on_f32_gt) auto
  have nn: "\<not> f32_isNaN (vrScore x)" if "x \<in> set (records @ best)" for x using num sub that by blast
  have "sorted_wrt (\<lambda>x y. \<not> ?gt y x) (take topK ?all)" using goSort.take_sorter_sorted [OF swo] .
  moreover have tk: "set (take topK ?all) \<subseteq> set (records @ best)" using goSort.sorter_set set_take_subset by metis
  ultimately show "sorted_wrt (\<lambda>x y. f32_ge (vrScore x) (vrScore y)) (Search_rank dot db query topK)"
    unfolding out by (rule_tac sorted_wrt_mono_rel [of _ "\<lambda>x y. \<not> ?gt y x"]) (use nn tk in \<open>fastforce simp: fltcmp\<close>)
  have cut: "f32_le (vrScore y) (vrScore x)" if "x \<in> set (take topK ?all)" "y \<in> set (drop topK ?all)" for x y
  proof -
    have "y \<in> set (records @ best)" using that(2) goSort.sorter_set by (metis in_set_dropD)
    then show ?thesis using goSort.take_sorter_best [OF swo that] nn [of x] nn [of y] that(1) tk by (auto simp: fltcmp)
  qed
  have len: "length ?all = length records + length best" using goSort.sorter_length [of ?gt "records @ best"] by simp
  have bo: "best_of topK {pending_record dot ?q p | p. p \<in> set (dbPending db) \<and> piID p \<notin> vrID ` set records} best"
  proof -
    have "distinct (map piID (dbPending db))" using mem pending_ids_distinct by (auto simp: lv_mem_def)
    moreover have "\<forall>r\<in>{pending_record dot ?q p | p. p \<in> set (dbPending db) \<and> piID p \<notin> vrID ` set records}. \<not> f32_isNaN (vrScore r)"
      using num by (auto simp: search_pool_def Let_def rc)
    ultimately show ?thesis
      using best_pending_best [OF k, of "{}" "[]" "vrID ` set records" "dbPending db" dot ?q] unfolding bs by (simp add: best_of_def)
  qed
  show "\<forall>c\<in>search_pool dot db query topK - set (Search_rank dot db query topK).
       length (Search_rank dot db query topK) = topK \<and> (\<forall>x\<in>set (Search_rank dot db query topK). f32_le (vrScore c) (vrScore x))"
  proof
    fix c
    assume c: "c \<in> search_pool dot db query topK - set (Search_rank dot db query topK)"
    show "length (Search_rank dot db query topK) = topK \<and> (\<forall>x\<in>set (Search_rank dot db query topK). f32_le (vrScore c) (vrScore x))"
    proof (cases "c \<in> set (records @ best)")
      case True
      then have "c \<in> set ?all" by (simp add: goSort.sorter_set)
      then have cd: "c \<in> set (drop topK ?all)" using c unfolding out by (metis DiffD2 Un_iff append_take_drop_id set_append)
      then have "topK < length ?all" by (metis drop_all empty_iff empty_set not_le)
      then show ?thesis unfolding out using cut cd by auto
    next
      case False
      then have "c \<in> {pending_record dot ?q p | p. p \<in> set (dbPending db) \<and> piID p \<notin> vrID ` set records} - set best"
        using c by (auto simp: search_pool_def Let_def rc)
      then have full: "length best = topK" and dom: "\<forall>x\<in>set best. f32_le (vrScore c) (vrScore x)" using bo by (auto simp: best_of_def)
      have lt: "length (take topK ?all) = topK" using len full by simp
      have "f32_le (vrScore c) (vrScore x)" if x: "x \<in> set (take topK ?all)" for x
      proof (cases "x \<in> set best")
        case False
        have "\<not> set best \<subseteq> set (take topK ?all)"
        proof
          assume "set best \<subseteq> set (take topK ?all)"
          then have "insert x (set best) \<subseteq> set (take topK ?all)" using x by simp
          then have "card (insert x (set best)) \<le> card (set (take topK ?all))" by (rule card_mono [rotated]) simp
          moreover have "card (set best) = topK" using d full by (simp add: distinct_map distinct_card)
          ultimately show False using False card_length [of "take topK ?all"] lt by simp
        qed
        then obtain b where b: "b \<in> set best" "b \<notin> set (take topK ?all)" by blast
        then have "b \<in> set ?all" by (simp add: goSort.sorter_set)
        then have "b \<in> set (drop topK ?all)" using b(2) by (metis Un_iff append_take_drop_id set_append)
        then show ?thesis using cut [OF x] dom b(1) f32_le_trans by blast
      qed (use dom in blast)
      then show ?thesis unfolding out using lt by blast
    qed
  qed
qed

end
