(* ===== verification/Levara_Api.thy ===== *)
theory Levara_Api
  imports Levara_Search
begin

text \<open>
  The client's view of the engine: every operation of \<open>db.go\<close> against the map \<open>lv_abs\<close>
  from record ids to vectors and metadata, on every branch, and what a crash after an
  acknowledged operation leaves.
\<close>

section \<open>Insert\<close>

text \<open>The record is in the map as soon as the log took it: also when only the flush failed.\<close>

definition applied :: "lv_error option \<Rightarrow> bool" where
  "applied r \<longleftrightarrow> (case r of None \<Rightarrow> True | Some (LvFlush _) \<Rightarrow> True | Some _ \<Rightarrow> False)"

lemma applied_simps [simp]:
  "applied None" "applied (Some (LvFlush e))" "\<not> applied (Some LvMarshal)" "\<not> applied (Some LvDim)"
  "\<not> applied (Some (LvRecord e))" "\<not> applied (Some LvDisk)" "\<not> applied (Some (LvArena a))" "\<not> applied (Some (LvWal e))"
  "\<not> applied (Some LvNotFound)"
  by (simp_all add: applied_def)

lemma Insert_check_ok:
  assumes "Insert_check db i v b = None"
  shows "length v = dbDim db" "i \<noteq> []" "length b \<le> mib"
  using assms by (auto simp: Insert_check_def validateWALRecord_def mib_def split: if_splits option.splits)

lemma Insert_locked_error:
  "Insert_locked wio i v b loc db = (Some e, db') \<Longrightarrow> \<not> applied (Some e)"
  by (auto simp: Insert_locked_def Let_def split: sum.splits prod.splits option.splits)

lemma FlushAsync_frame:
  assumes "FlushAsync fio db = (r, db')"
  obtains w where "db' = db\<lparr>dbWal := w\<rparr>"
  using assms that [of "dbWal db"] that by (cases "walClosed (dbWal db)") (auto simp: FlushAsync_def split: prod.splits)

lemma FlushAsync_wal:
  "FlushAsync fio db = (r, db') \<Longrightarrow> \<not> walClosed (dbWal db) \<Longrightarrow> dbWal db' = snd (WAL_flushSync fio (dbWal db))"
  by (auto simp: FlushAsync_def split: prod.splits)

lemma FlushAsync_room: "FlushAsync fio db = (r, db') \<Longrightarrow> lv_room db' = lv_room db"
  by (auto simp: FlushAsync_def lv_room_def split: prod.splits if_splits)

text \<open>The three outcomes of an insert: refused before the lock, refused under it, or logged and then flushed.\<close>

lemma Insert_cases:
  assumes "Insert marshal dio wio fio db i v data = (r, db')"
  obtains (early) e where "r = Some e" "\<not> applied r" "db' = db"
  | (disk) ds' b where "r = Some LvDisk" "DiskStore_Write dio (dbDisk db) b = (Inl DiskWriteError, ds')" "db' = db\<lparr>dbDisk := ds'\<rparr>"
  | (locked) b loc ds' e where "insert_bytes marshal data = Some b" "Insert_check db i v b = None"
      "DiskStore_Write dio (dbDisk db) b = (Inr loc, ds')"
      "Insert_locked wio i v b loc (db\<lparr>dbDisk := ds'\<rparr>) = (Some e, db')" "r = Some e" "\<not> applied r"
  | (flushed) b loc ds' db1 f where "insert_bytes marshal data = Some b" "Insert_check db i v b = None"
      "DiskStore_Write dio (dbDisk db) b = (Inr loc, ds')"
      "Insert_locked wio i v b loc (db\<lparr>dbDisk := ds'\<rparr>) = (None, db1)" "FlushAsync fio db1 = (f, db')" "r = map_option LvFlush f" "applied r"
proof (cases "insert_bytes marshal data")
  case None
  then show thesis using assms early by (auto simp: Insert_def)
next
  case b: (Some b)
  show thesis
  proof (cases "Insert_check db i v b")
    case (Some e)
    then have "\<not> applied (Some e)" by (auto simp: Insert_check_def split: if_splits option.splits)
    then show thesis using assms early [of e] b Some by (simp add: Insert_def)
  next
    case chk: None
    show thesis
    proof (cases "DiskStore_Write dio (dbDisk db) b")
      case w: (Pair x ds')
      show thesis
      proof (cases x)
        case (Inl e)
        then have "e = DiskWriteError" using w by (auto simp: DiskStore_Write_def Let_def split: disk_io.splits)
        then show thesis using assms disk b chk w Inl by (auto simp: Insert_def)
      next
        case (Inr loc)
        note w = w [unfolded Inr]
        show thesis
        proof (cases "Insert_locked wio i v b loc (db\<lparr>dbDisk := ds'\<rparr>)")
          case l: (Pair y db1)
          show thesis
          proof (cases y)
            case (Some e)
            then show thesis using assms b chk w l locked [OF b chk w] Insert_locked_error by (auto simp: Insert_def)
          next
            case None
            then show thesis using assms b chk w l flushed [OF b chk w]
              by (cases "FlushAsync fio db1") (auto simp: Insert_def split: option.splits)
          qed
        qed
      qed
    qed
  qed
qed

lemma Insert_whole: "Insert marshal dio wio fio db i v data = (None, db') \<Longrightarrow> whole_write dio"
  by (erule Insert_cases) (auto simp: DiskStore_Write_def Let_def split: disk_io.splits)

text \<open>Room for one more record: a free 32-bit slot number and a 63-bit file offset.\<close>

definition lv_space :: "Levara \<Rightarrow> bool" where
  "lv_space db \<longleftrightarrow> Suc (arTotalVectors (dbArena db)) < 2 ^ 32 \<and> dsPos (dbDisk db) + mib < 2 ^ 63"

lemma Insert_meta:
  assumes inv: "lv_inv pub recs db" and sp: "lv_space db" and chk: "Insert_check db i v b = None"
    and w: "DiskStore_Write dio (dbDisk db) b = (Inr loc, ds')"
  shows "lv_inv pub recs (db\<lparr>dbDisk := ds'\<rparr>)" "lv_abs (db\<lparr>dbDisk := ds'\<rparr>) = lv_abs db" "lv_room (db\<lparr>dbDisk := ds'\<rparr>)"
    "loc_ok ds' loc" "disk_bytes ds' loc = b"
proof -
  have d: "disk_inv (dbDisk db)" and mem: "lv_mem pub db" using inv by (auto simp: lv_inv_def lv_mem_def lv_static_def)
  have p: "dsPos (dbDisk db) < 2 ^ 63" using sp by (simp add: lv_space_def)
  note l = disk_write_loc [OF d Insert_check_ok(3) [OF chk] p w]
  show "loc_ok ds' loc" "disk_bytes ds' loc = b" by (fact l)+
  show "lv_inv pub recs (db\<lparr>dbDisk := ds'\<rparr>)" by (rule lv_inv_disk [OF inv w l(1)])
  show "lv_abs (db\<lparr>dbDisk := ds'\<rparr>) = lv_abs db" by (rule lv_mem_disk(2) [OF mem w l(1)])
  have "dsPos ds' \<le> dsPos (dbDisk db) + mib"
    using w Insert_check_ok(3) [OF chk] by (auto simp: DiskStore_Write_def Let_def split: disk_io.splits)
  then show "lv_room (db\<lparr>dbDisk := ds'\<rparr>)" using sp by (simp add: lv_room_def lv_space_def)
qed

lemma Insert_refines:
  assumes inv: "lv_inv pub recs db" and sp: "lv_space db" and ww: "whole_write dio"
    and run: "Insert marshal dio wio fio db i v data = (r, db')"
  shows "\<exists>recs'. lv_inv pub recs' db' \<and> prefix recs recs'"
    "applied r \<Longrightarrow> \<exists>b. insert_bytes marshal data = Some b \<and> lv_abs db' = (lv_abs db)(i \<mapsto> (arena_normalize v, b))"
    "\<not> applied r \<Longrightarrow> lv_abs db' = lv_abs db"
proof -
  have "(\<exists>recs'. lv_inv pub recs' db' \<and> prefix recs recs') \<and>
    (applied r \<longrightarrow> (\<exists>b. insert_bytes marshal data = Some b \<and> lv_abs db' = (lv_abs db)(i \<mapsto> (arena_normalize v, b)))) \<and>
    (\<not> applied r \<longrightarrow> lv_abs db' = lv_abs db)"
    using run
  proof (cases rule: Insert_cases)
    case (early e)
    then show ?thesis using inv by auto
  next
    case (disk ds' b)
    have mem: "lv_mem pub db" and "disk_inv (dbDisk db)" using inv by (auto simp: lv_inv_def lv_mem_def lv_static_def)
    then have d: "disk_inv ds'" using whole_write_inv [OF ww _ disk(2)] by blast
    show ?thesis using lv_inv_disk [OF inv disk(2) d] lv_mem_disk(2) [OF mem disk(2) d] disk(1,3) by auto
  next
    case (locked b loc ds' e)
    note m = Insert_meta [OF inv sp locked(2,3)]
    note l = Insert_locked_inv [OF m(1,3) Insert_check_ok(2) [OF locked(2)] _ locked(4)]
    show ?thesis using l m(2,4,5) locked(5,6) by auto
  next
    case (flushed b loc ds' db1 f)
    note m = Insert_meta [OF inv sp flushed(2,3)]
    note l = Insert_locked_inv [OF m(1,3) Insert_check_ok(2) [OF flushed(2)] _ flushed(4)]
    have i1: "lv_inv pub (recs @ [insert_record i (arena_normalize v) b loc]) db1"
      "lv_abs db1 = (lv_abs db)(i \<mapsto> (arena_normalize v, b))" using l(1,2) m(2,4,5) by simp_all
    show ?thesis using FlushAsync_inv [OF i1(1) flushed(5)] i1(2) flushed(1,7) by auto
  qed
  then show "\<exists>recs'. lv_inv pub recs' db' \<and> prefix recs recs'"
    "applied r \<Longrightarrow> \<exists>b. insert_bytes marshal data = Some b \<and> lv_abs db' = (lv_abs db)(i \<mapsto> (arena_normalize v, b))"
    "\<not> applied r \<Longrightarrow> lv_abs db' = lv_abs db" by blast+
qed

text \<open>An insert that passes its checks is acknowledged when the file system does its part.\<close>

lemma VectorArena_Add_finite:
  assumes "length v = arDim a" "\<forall>x\<in>set v. f32_finite x"
  shows "\<exists>idx a'. VectorArena_Add a v = Inr (idx, arena_normalize v, a')"
  using assms arena_mag2_None_iff [of "FFin False 0 0" v] by (auto simp: VectorArena_Add_def arena_normalize_def Let_def split: option.splits prod.splits)

lemma validateWALRecord_insert:
  assumes "validateWALRecord OpInsert i v b noLocation = None" "length v' = length v" "\<forall>x\<in>set v'. f32_finite x" "0 \<le> flOffset loc"
  shows "validateWALRecord OpInsert i v' b loc = None"
  using assms by (auto simp: validateWALRecord_def f32_finite_def split: if_splits)

lemma Insert_succeeds:
  assumes inv: "lv_inv pub recs db" and b: "insert_bytes marshal data = Some b" and chk: "Insert_check db i v b = None"
    and fin: "\<forall>x\<in>set (arena_normalize v). f32_finite x"
    and wal: "\<not> walErr (dbWal db)" "\<not> walClosed (dbWal db)" "\<not> walFileClosed (dbWal db)"
  shows "\<exists>db'. Insert marshal DiskOk WriteOk FlushOk db i v data = (None, db')"
proof -
  have st: "arDim (dbArena db) = dbDim db" using inv by (simp add: lv_inv_def lv_mem_def lv_static_def)
  have val: "validateWALRecord OpInsert i v b noLocation = None" and len: "length v = dbDim db"
    using chk by (auto simp: Insert_check_def split: if_splits option.splits)
  have "\<forall>x\<in>set v. f32_finite x" using val by (auto simp: validateWALRecord_def f32_finite_def split: if_splits)
  then obtain idx a' where add: "VectorArena_Add (dbArena db) v = Inr (idx, arena_normalize v, a')"
    using VectorArena_Add_finite [of v "dbArena db"] len st by auto
  let ?loc = "\<lparr>flOffset = int (dsPos (dbDisk db)), flLength = int32_of (length b)\<rparr>"
  have "validateWALRecord OpInsert i (arena_normalize v) b ?loc = None"
    using validateWALRecord_insert [OF val _ fin] by simp
  then show ?thesis
    using b chk add wal
    by (simp add: Insert_def DiskStore_Write_def Insert_locked_def WAL_WriteEntryNoFlush_def WAL_writeEntryLocked_def
        writeWALEntryTo_def Let_def FlushAsync_def WAL_flushSync_def store_maps_def replaceExistingLocked_def
        removePendingByID_def split: option.split)
qed

section \<open>Delete\<close>

lemma Delete_refines:
  assumes inv: "lv_inv pub recs db" and run: "Delete wio fio db i = (r, db')"
  shows "\<exists>recs'. lv_inv pub recs' db' \<and> prefix recs recs'"
    "lv_abs db' = (if applied r then (lv_abs db)(i := None) else lv_abs db)"
    "lv_abs db i = None \<Longrightarrow> r = Some LvNotFound \<and> db' = db"
proof -
  obtain e db1 where del: "deleteLocked wio db i = (e, db1)" by fastforce
  note d = deleteLocked_inv [OF inv del]
  have ne: "e \<noteq> None \<Longrightarrow> \<not> applied e"
    using del by (auto simp: deleteLocked_def split: option.splits prod.splits)
  have "(\<exists>recs'. lv_inv pub recs' db' \<and> prefix recs recs') \<and> lv_abs db' = (if applied r then (lv_abs db)(i := None) else lv_abs db)"
  proof (cases e)
    case (Some x)
    then show ?thesis using run del d ne by (auto simp: Delete_def)
  next
    case None
    obtain f db2 where fl: "FlushAsync fio db1 = (f, db2)" by fastforce
    have "lv_inv pub (recs @ [delete_record i]) db1" using d None by simp
    note g = FlushAsync_inv [OF this fl]
    have "db' = db2" "applied r" using run del None fl by (auto simp: Delete_def split: option.splits)
    then show ?thesis using g d None by auto
  qed
  then show "\<exists>recs'. lv_inv pub recs' db' \<and> prefix recs recs'"
    "lv_abs db' = (if applied r then (lv_abs db)(i := None) else lv_abs db)" by blast+
  show "lv_abs db i = None \<Longrightarrow> r = Some LvNotFound \<and> db' = db"
    using run by (auto simp: Delete_def deleteLocked_def lv_abs_def split: option.splits)
qed

lemma Delete_succeeds:
  assumes inv: "lv_inv pub recs db" and i: "lv_abs db i \<noteq> None" "length i \<le> mib"
    and wal: "\<not> walErr (dbWal db)" "\<not> walClosed (dbWal db)" "\<not> walFileClosed (dbWal db)"
  shows "\<exists>db'. Delete WriteOk FlushOk db i = (None, db')"
proof -
  obtain idx where idx: "dbIndex db i = Some idx" using i(1) by (auto simp: lv_abs_def split: option.splits)
  then have "i \<noteq> []" using inv by (auto simp: lv_inv_def lv_mem_def lv_index_def)
  then have "validateWALRecord OpDelete i [] [] noLocation = None"
    using i(2) by (simp add: validateWALRecord_def OpInsert_def OpDelete_def noLocation_def mib_def)
  then show ?thesis
    using idx wal
    by (simp add: Delete_def deleteLocked_def WAL_WriteEntryNoFlush_def WAL_writeEntryLocked_def writeWALEntryTo_def
        removePendingByID_def FlushAsync_def WAL_flushSync_def Let_def)
qed

section \<open>Get\<close>

lemma Get_refines:
  assumes "lv_inv pub recs db"
  shows "Get db i = (case lv_abs db i of None \<Rightarrow> None | Some (v, b) \<Rightarrow> Some (Some v, if b = [] then None else Some b))"
proof (cases "dbIndex db i")
  case (Some idx)
  have mem: "lv_index db" and ar: "arena_inv (dbArena db)" using assms by (auto simp: lv_inv_def lv_mem_def lv_static_def)
  obtain loc where "idx < arTotalVectors (dbArena db)" "dbMetaLocs db idx = Some loc" "loc_ok (dbDisk db) loc"
    using mem Some unfolding lv_index_def by blast
  then show ?thesis
    using Some VectorArena_Get_refines [OF ar, of idx] disk_read_holds [OF loc_ok_holds, of "dbDisk db" loc]
    by (simp add: Get_def lv_abs_def Let_def)
qed (simp add: Get_def lv_abs_def)

section \<open>Crashes after an acknowledgement\<close>

text \<open>What every crash file of a log that is synced and published reopens to.\<close>

lemma crash_synced:
  assumes inv: "lv_inv pub recs db" and sync: "walSynced (dbWal db) = length (walLog (dbWal db))" and pub: "walPrev (dbWal db) = []"
    and n: "Suc (length recs) < 2 ^ 32" and io: "\<forall>j. dio j = DiskOk" and f: "f \<in> WAL_crash_files (dbWal db)"
  shows "\<exists>db'. NewLevara dot levels dio True durable (dbDim db) cfg f metaFile = Inr db' \<and> lv_inv None recs db' \<and>
    (\<forall>i. rel_option stored_as (lv_abs db' i) (lv_abs db i))"
proof -
  from f pub obtain k where k: "f = take k (walLog (dbWal db))" "walSynced (dbWal db) \<le> k"
    by (auto simp: WAL_crash_files_def)
  from crash_recovery [OF inv k(2) n io] obtain recs' db' where
    db': "NewLevara dot levels dio True durable (dbDim db) cfg f metaFile = Inr db'" "prefix recs' recs" "lv_inv None recs' db'"
      "\<forall>i. lv_abs db' i = map_option (\<lambda>(v, m). (arena_normalize v, m)) (log_map recs' i)"
      "\<forall>early later. recs = early @ later \<longrightarrow> length (wal_log early) \<le> walSynced (dbWal db) \<longrightarrow> prefix early recs'"
    unfolding k(1) by blast
  have "length (wal_log recs) \<le> length (walLog (dbWal db))"
    using inv by (auto simp: lv_inv_def wal_inv_def wal_holds_def)
  then have "prefix recs recs'" using db'(5) sync by simp
  then have eq: "recs' = recs" using db'(2) by (simp add: prefix_order.eq_iff)
  have lg: "rel_option stored_as (lv_abs db i) (log_map recs i)" for i using inv by (simp add: lv_inv_def lv_logged_def)
  have "rel_option stored_as (lv_abs db' i) (lv_abs db i)" for i
    using lg [of i] db'(4) unfolding eq
    by (cases "lv_abs db i"; cases "log_map recs i") (auto simp: stored_as_def)
  then show ?thesis using db'(1) db'(3) [unfolded eq] by (intro exI [of _ db'] conjI allI)
qed

lemma crash_file_whole: "walSynced wal = length (walLog wal) \<Longrightarrow> walLog wal \<in> WAL_crash_files wal"
  unfolding WAL_crash_files_def by (rule CollectI, intro exI [of _ "length (walLog wal)"] exI [of _ "walLog wal"]) auto

lemma FlushAsync_ack:
  assumes "lv_inv pub recs db" "FlushAsync fio db = (None, db')" "walPrev (dbWal db) = []"
  shows "walSynced (dbWal db') = length (walLog (dbWal db'))" "walPrev (dbWal db') = []"
proof -
  obtain wal' where w: "WAL_flushSync fio (dbWal db) = (None, wal')" "dbWal db' = wal'"
    using assms(2) by (auto simp: FlushAsync_def split: prod.splits if_splits)
  have "wal_inv (dbDim db) recs (dbWal db)" using assms(1) by (simp add: lv_inv_def)
  from flushSync_inv [OF this w(1)] show "walSynced (dbWal db') = length (walLog (dbWal db'))" "walPrev (dbWal db') = []"
    using assms(3) w(2) by simp_all
qed

lemma Insert_ack:
  assumes inv: "lv_inv pub recs db" and sp: "lv_space db" and prev: "walPrev (dbWal db) = []"
    and run: "Insert marshal dio wio fio db i v data = (None, db')"
  shows "\<exists>rec. lv_inv pub (recs @ [rec]) db'" "dbDim db' = dbDim db"
    "walSynced (dbWal db') = length (walLog (dbWal db'))" "walPrev (dbWal db') = []"
proof -
  from run have "(\<exists>rec. lv_inv pub (recs @ [rec]) db') \<and> dbDim db' = dbDim db \<and>
    walSynced (dbWal db') = length (walLog (dbWal db')) \<and> walPrev (dbWal db') = []"
  proof (cases rule: Insert_cases)
    case (flushed b loc ds' db1 f)
    have f: "f = None" using flushed(6) by simp
    note m = Insert_meta [OF inv sp flushed(2,3)]
    note l = Insert_locked_inv [OF m(1,3) Insert_check_ok(2) [OF flushed(2)] _ flushed(4)]
    have i1: "lv_inv pub (recs @ [insert_record i (arena_normalize v) b loc]) db1" using l(1) m(4,5) by simp
    have w1: "walPrev (dbWal db1) = []" "dbDim db1 = dbDim db"
      using flushed(4) prev
      by (auto simp: Insert_locked_def Let_def WAL_WriteEntryNoFlush_def WAL_writeEntryLocked_def store_maps_def
          replaceExistingLocked_def removePendingByID_def split: sum.splits prod.splits option.splits if_splits write_io.splits)
    have "dbDim db' = dbDim db1" using flushed(5) by (auto simp: FlushAsync_def split: prod.splits if_splits)
    then show ?thesis
      using FlushAsync_inv [OF i1 flushed(5)] FlushAsync_ack [OF i1 flushed(5) [unfolded f] w1(1)] w1(2) by auto
  qed auto
  then show "\<exists>rec. lv_inv pub (recs @ [rec]) db'" "dbDim db' = dbDim db"
    "walSynced (dbWal db') = length (walLog (dbWal db'))" "walPrev (dbWal db') = []" by blast+
qed

lemma Delete_ack:
  assumes inv: "lv_inv pub recs db" and prev: "walPrev (dbWal db) = []" and run: "Delete wio fio db i = (None, db')"
  shows "lv_inv pub (recs @ [delete_record i]) db'" "dbDim db' = dbDim db"
    "walSynced (dbWal db') = length (walLog (dbWal db'))" "walPrev (dbWal db') = []"
proof -
  from run obtain db1 where del: "deleteLocked wio db i = (None, db1)" and fl: "FlushAsync fio db1 = (None, db')"
    by (auto simp: Delete_def split: prod.splits option.splits)
  have i1: "lv_inv pub (recs @ [delete_record i]) db1" using deleteLocked_inv(1) [OF inv del] by simp
  have w1: "walPrev (dbWal db1) = []" "dbDim db1 = dbDim db"
    using del prev
    by (auto simp: deleteLocked_def WAL_WriteEntryNoFlush_def WAL_writeEntryLocked_def removePendingByID_def
        split: sum.splits prod.splits option.splits if_splits write_io.splits)
  show "lv_inv pub (recs @ [delete_record i]) db'" using FlushAsync_inv(1) [OF i1 fl] .
  show "walSynced (dbWal db') = length (walLog (dbWal db'))" "walPrev (dbWal db') = []" using FlushAsync_ack [OF i1 fl w1(1)] by auto
  show "dbDim db' = dbDim db" using fl w1(2) by (auto simp: FlushAsync_def split: prod.splits if_splits)
qed

section \<open>Search\<close>

text \<open>What a hit says of the record it names: its score and its metadata, \<open>{}\<close> when there is none.\<close>

definition search_hit :: "dot_fn \<Rightarrow> Levara \<Rightarrow> vec \<Rightarrow> VectroRecord \<Rightarrow> bool" where
  "search_hit dot db query r \<longleftrightarrow>
     (\<exists>v m q. lv_abs db (vrID r) = Some (v, m) \<and> q \<in> {normalizeVec query, normalizeVec (normalizeVec query)} \<and>
        vrScore r = f32_sub f32_one (dist dot q v) \<and> vrData r = (if m = [] then ''{}'' else m))"

lemma enrich_ids [simp]: "vrID (enrich db r) = vrID r" "vrScore (enrich db r) = vrScore r"
  by (simp_all add: enrich_def split: option.split sum.split)

lemma enrich_data:
  assumes "lv_mem pub db" "lv_abs db (vrID r) = Some (v, m)" "vrData r = ''{}''"
  shows "vrData (enrich db r) = (if m = [] then ''{}'' else m)"
proof -
  obtain idx where idx: "dbIndex db (vrID r) = Some idx" "m = disk_bytes (dbDisk db) (the (dbMetaLocs db idx))"
    using assms(2) by (auto simp: lv_abs_def split: option.splits)
  obtain loc where "dbMetaLocs db idx = Some loc" "loc_ok (dbDisk db) loc"
    using assms(1) idx(1) unfolding lv_mem_def lv_index_def by blast
  then show ?thesis
    using idx assms(3) disk_read_holds [OF loc_ok_holds, of "dbDisk db" loc] by (simp add: enrich_def)
qed

lemma Search_eq:
  "0 < topK \<Longrightarrow> length query = dbDim db \<Longrightarrow> Search dot db query topK = map (enrich db) (Search_rank dot db query (nat topK))"
  by (simp add: Search_def)

lemma Search_refines:
  assumes mem: "lv_mem pub db"
  shows "length (Search dot db query topK) \<le> nat topK" "distinct (map vrID (Search dot db query topK))"
    "\<forall>r\<in>set (Search dot db query topK). search_hit dot db query r"
proof -
  have "length (Search dot db query topK) \<le> nat topK \<and> distinct (map vrID (Search dot db query topK)) \<and>
    (\<forall>r\<in>set (Search dot db query topK). search_hit dot db query r)"
  proof (cases "length query \<noteq> dbDim db \<or> topK \<le> 0")
    case True
    then show ?thesis by (simp add: Search_def)
  next
    case False
    then have eq: "Search dot db query topK = map (enrich db) (Search_rank dot db query (nat topK))" and k: "0 < nat topK"
      by (simp_all add: Search_eq)
    note ids = Search_rank_ids [OF mem k, of dot query]
    have "search_hit dot db query (enrich db x)" if x: "x \<in> set (Search_rank dot db query (nat topK))" for x
    proof -
      have "x \<in> search_pool dot db query (nat topK)" using ids(3) x by blast
      from search_pool_records [OF mem this] show ?thesis
        unfolding search_hit_def using enrich_data [OF mem] by fastforce
    qed
    then show ?thesis using ids unfolding eq by (auto simp: comp_def)
  qed
  then show "length (Search dot db query topK) \<le> nat topK" "distinct (map vrID (Search dot db query topK))"
    "\<forall>r\<in>set (Search dot db query topK). search_hit dot db query r" by blast+
qed

text \<open>While items wait for the indexer, the answer is sorted and no item of the queue or of the graph's answer beats it.\<close>

lemma Search_best:
  assumes mem: "lv_mem pub db" and k: "0 < topK" and q: "length query = dbDim db" and pend: "dbPending db \<noteq> []"
    and num: "\<forall>r\<in>search_pool dot db query (nat topK). \<not> f32_isNaN (vrScore r)"
  shows "sorted_wrt (\<lambda>x y. f32_ge (vrScore x) (vrScore y)) (Search dot db query topK)"
    "\<forall>c\<in>search_pool dot db query (nat topK). vrID c \<notin> vrID ` set (Search dot db query topK) \<longrightarrow>
       length (Search dot db query topK) = nat topK \<and> (\<forall>x\<in>set (Search dot db query topK). f32_le (vrScore c) (vrScore x))"
proof -
  have k': "0 < nat topK" using k by simp
  note b = Search_rank_best [OF mem k' pend num]
  show "sorted_wrt (\<lambda>x y. f32_ge (vrScore x) (vrScore y)) (Search dot db query topK)"
    using b(1) by (simp add: Search_eq [OF k q] sorted_wrt_map)
  show "\<forall>c\<in>search_pool dot db query (nat topK). vrID c \<notin> vrID ` set (Search dot db query topK) \<longrightarrow>
       length (Search dot db query topK) = nat topK \<and> (\<forall>x\<in>set (Search dot db query topK). f32_le (vrScore c) (vrScore x))"
  proof (intro ballI impI)
    fix c assume c: "c \<in> search_pool dot db query (nat topK)" "vrID c \<notin> vrID ` set (Search dot db query topK)"
    have "c \<notin> set (Search_rank dot db query (nat topK))" using c(2) by (auto simp: Search_eq [OF k q] image_comp comp_def)
    then show "length (Search dot db query topK) = nat topK \<and> (\<forall>x\<in>set (Search dot db query topK). f32_le (vrScore c) (vrScore x))"
      using b(2) c(1) by (auto simp: Search_eq [OF k q])
  qed
qed

end
