(* ===== verification/Levara_Batch.thy ===== *)
theory Levara_Batch
  imports Levara_Api
begin

text \<open>
  The batch operations. \<open>BatchInsert\<close> under the lock is the same as one locked insert after
  another (its private queue \<open>toIndex\<close> is an optimisation), every item is either applied or
  reported under its position, and the contents are the applied items in order.
\<close>

section \<open>The reference: one locked insert after another\<close>

type_synonym disk_item = "nat \<times> string \<times> vec \<times> bytes \<times> FileLocation"

fun seq_insert ::
  "(nat \<Rightarrow> write_io) \<Rightarrow> disk_item list \<Rightarrow> Levara \<Rightarrow> (nat \<times> string) list \<times> batch_errors \<times> Levara" where
  "seq_insert wio [] db = ([], [], db)"
| "seq_insert wio ((k, i, v, b, loc) # ds) db =
     (case Insert_locked (wio k) i v b loc db of
        (Some e, db1) \<Rightarrow> (case seq_insert wio ds db1 of (done, errs, db2) \<Rightarrow> (done, (k, i, e) # errs, db2))
      | (None, db1) \<Rightarrow> (case seq_insert wio ds db1 of (done, errs, db2) \<Rightarrow> ((k, i) # done, errs, db2)))"

abbreviation queued :: "Levara \<Rightarrow> pendingItem list \<Rightarrow> Levara" where
  "queued db ps \<equiv> db\<lparr>dbPending := dbPending db @ ps\<rparr>"

definition item_ok :: "Levara \<Rightarrow> disk_item \<Rightarrow> bool" where
  "item_ok db x \<longleftrightarrow> (case x of (k, i, v, b, loc) \<Rightarrow> i \<noteq> [] \<and> loc_ok (dbDisk db) loc \<and> disk_bytes (dbDisk db) loc = b)"

lemma Insert_locked_total:
  assumes "lv_static db" "lv_room db" "Insert_locked wio i v b loc db = (r, db')"
  shows "arTotalVectors (dbArena db') \<le> Suc (arTotalVectors (dbArena db))" "dbDisk db' = dbDisk db" "dbDim db' = dbDim db"
proof -
  have "arTotalVectors (dbArena db') \<le> Suc (arTotalVectors (dbArena db)) \<and> dbDisk db' = dbDisk db \<and> dbDim db' = dbDim db"
    using assms(3) arena_add_facts(1,2) [OF assms(1,2)]
    by (auto simp: Insert_locked_def lv_put_def [symmetric] lv_put_frame Let_def split: sum.splits prod.splits option.splits)
  then show "arTotalVectors (dbArena db') \<le> Suc (arTotalVectors (dbArena db))" "dbDisk db' = dbDisk db" "dbDim db' = dbDim db"
    by blast+
qed

text \<open>One step of the loop on the engine and the private queue, and one locked insert on the engine with both queues.\<close>

lemma queued_put:
  assumes g: "lv_graph pub (dbPending db @ ps) db"
  shows "queued (lv_put a w i idx loc db) (removePendingItemsByID ps i @ [p]) =
    (let db1 = lv_put a w i idx loc (queued db ps) in db1\<lparr>dbPending := dbPending db1 @ [p]\<rparr>)"
proof -
  have q: "\<forall>x\<in>set (dbPending db @ ps). dbIndex db (piID x) = Some (piIdx x)" using g unfolding lv_graph_def by blast
  have "dbPending (lv_put a w i idx loc (queued db ps)) = removePendingItemsByID (dbPending db @ ps) i"
    using q removeByID_noop [of "dbPending db @ ps" db i] by (simp add: lv_put_frame split: option.split)
  moreover have "dbPending (lv_put a w i idx loc db) = removePendingItemsByID (dbPending db) i"
    by (rule lv_put_pending [OF g])
  moreover have "lv_put a w i idx loc (queued db ps) = (lv_put a w i idx loc db)\<lparr>dbPending := dbPending (lv_put a w i idx loc (queued db ps))\<rparr>"
    by (simp add: lv_put_def store_maps_def replaceExistingLocked_def removePendingByID_def split: option.split)
  ultimately show ?thesis by (simp add: Let_def removePendingItemsByID_def)
qed

lemma batch_commit_seq:
  assumes "lv_mem pub (queued db ps)" "arTotalVectors (dbArena db) + length ds < 2 ^ 32" "dsPos (dbDisk db) < 2 ^ 63"
    and "\<forall>x\<in>set ds. item_ok db x" "batch_commit wio ds ps db = (done, errs, ps', db')"
  shows "seq_insert wio ds (queued db ps) = (done, errs, queued db' ps')"
  using assms
proof (induction ds arbitrary: db ps "done" errs)
  case (Cons d ds)
  obtain k i v b loc where d: "d = (k, i, v, b, loc)" using prod_cases5 by blast
  let ?db = "queued db ps"
  have room: "lv_room ?db" using Cons.prems(2,3) by (simp add: lv_room_def)
  have st: "lv_static ?db" and g: "lv_graph pub (dbPending db @ ps) db" using Cons.prems(1) by (auto simp: lv_mem_def lv_graph_def)
  have it: "i \<noteq> []" "loc_ok (dbDisk ?db) loc" using Cons.prems(4) d by (auto simp: item_ok_def)
  obtain r db1 where ins: "Insert_locked (wio k) i v b loc ?db = (r, db1)" by fastforce
  note t = Insert_locked_total [OF st room ins]
  have mem1: "lv_mem pub db1" using Insert_locked_mem(1) [OF Cons.prems(1) room it ins] .
  have IH: "seq_insert wio ds db1 = (done', errs', queued db' ps')"
    if "queued dbx psx = db1" "batch_commit wio ds psx dbx = (done', errs', ps', db')" for dbx psx done' errs'
  proof (rule Cons.IH [of dbx psx done' errs', unfolded that(1)])
    have eq: "dbArena dbx = dbArena db1" "dbDisk dbx = dbDisk db1" using that(1) by auto
    show "lv_mem pub db1" by (fact mem1)
    show "arTotalVectors (dbArena dbx) + length ds < 2 ^ 32" using t(1) Cons.prems(2) eq by simp
    show "dsPos (dbDisk dbx) < 2 ^ 63" using t(2) Cons.prems(3) eq by simp
    show "\<forall>x\<in>set ds. item_ok dbx x" using Cons.prems(4) t(2) eq by (auto simp: item_ok_def)
    show "batch_commit wio ds psx dbx = (done', errs', ps', db')" by (fact that(2))
  qed
  show ?case
  proof (cases "VectorArena_Add (dbArena db) v")
    case (Inl e)
    then have r: "r = Some (LvArena e)" "db1 = ?db" using ins by (simp_all add: Insert_locked_def)
    show ?thesis using Cons.prems(5) IH [of db ps] ins Inl r by (auto simp: d split: prod.splits)
  next
    case (Inr x)
    obtain idx v' a' where x: "x = (idx, v', a')" using prod_cases3 by blast
    obtain e w where wr: "WAL_WriteEntryNoFlush (wio k) OpInsert i v' b loc (dbWal db) = (e, w)" by fastforce
    show ?thesis
    proof (cases e)
      case (Some e')
      then have r: "r = Some (LvWal e')" "db1 = queued (db\<lparr>dbArena := a', dbWal := w\<rparr>) ps"
        using ins Inr x wr by (auto simp: Insert_locked_def)
      show ?thesis using Cons.prems(5) IH [of "db\<lparr>dbArena := a', dbWal := w\<rparr>" ps] ins Inr x wr Some r by (auto simp: d split: prod.splits)
    next
      case None
      let ?p = "\<lparr>piVector = v', piID = i, piIdx = idx\<rparr>"
      let ?dbx = "lv_put a' w i idx loc db" and ?psx = "removePendingItemsByID ps i @ [\<lparr>piVector = v', piID = i, piIdx = idx\<rparr>]"
      have r: "r = None" "db1 = queued ?dbx ?psx"
        using ins Inr x wr None queued_put [OF g, of a' w i idx loc ?p] by (auto simp: Insert_locked_def lv_put_def Let_def)
      show ?thesis
        using Cons.prems(5) IH [of ?dbx ?psx] ins Inr x wr None r by (auto simp: d lv_put_def [symmetric] split: prod.splits)
    qed
  qed
qed simp

section \<open>What the locked phase does\<close>

fun put_item :: "(string \<rightharpoonup> (vec \<times> bytes)) \<Rightarrow> disk_item \<Rightarrow> string \<rightharpoonup> (vec \<times> bytes)" where
  "put_item m (k, i, v, b, loc) = m(i \<mapsto> (arena_normalize v, b))"

text \<open>The positions of the items that are not reported, in order.\<close>

definition unreported :: "batch_errors \<Rightarrow> nat list \<Rightarrow> nat list" where
  "unreported errs ks = filter (\<lambda>k. k \<notin> fst ` set errs) ks"

definition refusals :: "batch_errors \<Rightarrow> nat list \<Rightarrow> bool" where
  "refusals errs ks \<longleftrightarrow> fst ` set errs \<subseteq> set ks \<and> (\<forall>(k, i, e)\<in>set errs. \<not> applied (Some e))"

lemma unreported_simps [simp]:
  "unreported [] ks = ks" "unreported errs [] = []"
  "k \<notin> set ks \<Longrightarrow> unreported ((k, i, e) # errs) (k # ks) = unreported errs ks"
  by (auto simp: unreported_def filter_id_conv intro!: filter_cong)

lemma unreported_skip: "fst ` set errs \<subseteq> set ks \<Longrightarrow> k \<notin> set ks \<Longrightarrow> unreported errs (k # ks) = k # unreported errs ks"
  by (auto simp: unreported_def)

lemma unreported_append: "unreported errs' (unreported errs ks) = unreported (errs @ errs') ks"
  by (auto simp: unreported_def intro!: filter_cong)

lemma seq_insert_inv:
  assumes "lv_inv pub recs db" "arTotalVectors (dbArena db) + length ds < 2 ^ 32" "dsPos (dbDisk db) < 2 ^ 63"
    and "\<forall>x\<in>set ds. item_ok db x" "distinct (map fst ds)" "seq_insert wio ds db = (done, errs, db')"
  shows "\<exists>recs'. lv_inv pub recs' db' \<and> prefix recs recs' \<and> length recs' \<le> length recs + length ds \<and>
    map fst done = unreported errs (map fst ds) \<and> refusals errs (map fst ds) \<and>
    lv_abs db' = foldl put_item (lv_abs db) (filter (\<lambda>d. fst d \<in> fst ` set done) ds)"
  using assms
proof (induction ds arbitrary: db recs "done" errs)
  case (Cons d ds)
  obtain k i v b loc where d: "d = (k, i, v, b, loc)" using prod_cases5 by blast
  have room: "lv_room db" using Cons.prems(2,3) by (simp add: lv_room_def)
  have st: "lv_static db" using Cons.prems(1) by (simp add: lv_inv_def lv_mem_def)
  have it: "i \<noteq> []" "loc_ok (dbDisk db) loc" "disk_bytes (dbDisk db) loc = b" using Cons.prems(4) d by (auto simp: item_ok_def)
  obtain r db1 where ins: "Insert_locked (wio k) i v b loc db = (r, db1)" by fastforce
  obtain done' errs' where rest: "seq_insert wio ds db1 = (done', errs', db')"
    using Cons.prems(6) ins by (auto simp: d split: prod.splits option.splits)
  note t = Insert_locked_total [OF st room ins]
  note l = Insert_locked_inv [OF Cons.prems(1) room it(1,2) ins it(3)]
  have pre: "arTotalVectors (dbArena db1) + length ds < 2 ^ 32" "dsPos (dbDisk db1) < 2 ^ 63" "\<forall>x\<in>set ds. item_ok db1 x"
    using t Cons.prems(2-4) by (auto simp: item_ok_def)
  have dk: "distinct (map fst ds)" "k \<notin> fst ` set ds" using Cons.prems(5) d by simp_all
  obtain recs' where r': "lv_inv pub recs' db'" "prefix (if r = None then recs @ [insert_record i (arena_normalize v) b loc] else recs) recs'"
    "length recs' \<le> length recs + length (d # ds)"
    "map fst done' = unreported errs' (map fst ds)" "refusals errs' (map fst ds)"
    "lv_abs db' = foldl put_item (lv_abs db1) (filter (\<lambda>d. fst d \<in> fst ` set done') ds)"
  proof -
    obtain recs' where r': "lv_inv pub recs' db'" "prefix (if r = None then recs @ [insert_record i (arena_normalize v) b loc] else recs) recs'"
      "length recs' \<le> length (if r = None then recs @ [insert_record i (arena_normalize v) b loc] else recs) + length ds"
      "map fst done' = unreported errs' (map fst ds)" "refusals errs' (map fst ds)"
      "lv_abs db' = foldl put_item (lv_abs db1) (filter (\<lambda>d. fst d \<in> fst ` set done') ds)"
      using Cons.IH [OF l(1) pre dk(1) rest] by blast
    have "length recs' \<le> length recs + length (d # ds)" using r'(3) by (simp split: if_splits)
    then show thesis using that [OF r'(1,2) _ r'(4-6)] by blast
  qed
  have "set (map fst done') \<subseteq> set (map fst ds)" unfolding r'(4) unreported_def by auto
  then have dn: "fst ` set done' \<subseteq> fst ` set ds" by simp
  then have k: "k \<notin> fst ` set done'" using dk(2) by blast
  have ke: "fst ` set errs' \<subseteq> set (map fst ds)" using r'(5) by (simp add: refusals_def)
  show ?case
  proof (cases r)
    case None
    have de: "done = (k, i) # done'" "errs = errs'" using Cons.prems(6) ins rest None by (auto simp: d)
    have flt: "filter (\<lambda>x. fst x \<in> insert k (fst ` set done')) ds = filter (\<lambda>x. fst x \<in> fst ` set done') ds"
      using dk(2) by (intro filter_cong) auto
    have "lv_abs db' = foldl put_item (lv_abs db) (filter (\<lambda>x. fst x \<in> fst ` set done) (d # ds))"
      using r'(6) l(2) None flt by (simp add: de d)
    moreover have "map fst done = unreported errs (map fst (d # ds))"
      using unreported_skip [OF ke, of k] dk(2) r'(4) by (simp add: de d)
    moreover have "refusals errs (map fst (d # ds))" using r'(5) by (auto simp: refusals_def de)
    moreover have "prefix recs recs'" using r'(2) None by (auto dest: append_prefixD)
    ultimately show ?thesis using r'(1,3) by (intro exI [of _ recs']) simp
  next
    case (Some e)
    have de: "done = done'" "errs = (k, i, e) # errs'" using Cons.prems(6) ins rest Some by (auto simp: d)
    have na: "\<not> applied (Some e)" using Insert_locked_error ins Some by blast
    have "lv_abs db' = foldl put_item (lv_abs db) (filter (\<lambda>x. fst x \<in> fst ` set done) (d # ds))"
      using r'(6) l(2) Some k by (simp add: de d)
    moreover have "map fst done = unreported errs (map fst (d # ds))" using dk(2) r'(4) by (simp add: de d)
    moreover have "refusals errs (map fst (d # ds))" using r'(5) na by (auto simp: refusals_def de d)
    ultimately show ?thesis using r'(1-3) Some by (intro exI [of _ recs']) simp
  qed
qed (auto simp: refusals_def)

section \<open>The phases before the lock\<close>

text \<open>What \<open>BatchInsert\<close> writes for the item at position \<open>k\<close>.\<close>

definition prepared_as :: "('v \<Rightarrow> bytes option) \<Rightarrow> Levara \<Rightarrow> 'v BatchItem list \<Rightarrow> nat \<Rightarrow> nat \<times> string \<times> vec \<times> bytes \<Rightarrow> bool" where
  "prepared_as marshal db items off x \<longleftrightarrow>
     (case x of (k, i, v, b) \<Rightarrow> off \<le> k \<and> k < off + length items \<and> i = bID (items ! (k - off)) \<and> v = bVector (items ! (k - off)) \<and>
        marshal (bData (items ! (k - off))) = Some b \<and> Insert_check db i v b = None)"

lemma prepared_as_Cons: "prepared_as marshal db items (Suc off) x \<Longrightarrow> prepared_as marshal db (it # items) off x"
  by (auto simp: prepared_as_def nth_Cons split: prod.splits nat.splits) (metis Suc_diff_Suc Suc_le_lessD nat.inject)+

lemma batch_prepare_ok:
  assumes "batch_prepare marshal db off items = (prepped, errs)"
  shows "map fst prepped = unreported errs [off..<off + length items] \<and> refusals errs [off..<off + length items] \<and>
    (\<forall>x\<in>set prepped. prepared_as marshal db items off x)"
  using assms
proof (induction items arbitrary: off prepped errs)
  case (Cons it items)
  obtain ps es where rest: "batch_prepare marshal db (Suc off) items = (ps, es)" by fastforce
  define ks where "ks = [Suc off..<Suc off + length items]"
  have IH: "map fst ps = unreported es ks \<and> refusals es ks \<and> (\<forall>x\<in>set ps. prepared_as marshal db items (Suc off) x)"
    unfolding ks_def by (rule Cons.IH [OF rest])
  have up: "[off..<off + length (it # items)] = off # ks" unfolding ks_def using upt_conv_Cons [of off "off + length (it # items)"] by (simp del: upt_Suc)
  have off: "off \<notin> set ks" by (simp add: ks_def del: upt_Suc)
  have sub: "fst ` set es \<subseteq> set ks" using IH by (simp add: refusals_def)
  have more: "\<forall>x\<in>set ps. prepared_as marshal db (it # items) off x" using IH prepared_as_Cons by blast
  have err: ?case if "errs = (off, bID it, e) # es" "prepped = ps" "\<not> applied (Some e)" for e
    using that IH more off unfolding up by (auto simp: refusals_def)
  show ?case
  proof (cases "marshal (bData it)")
    case None
    then show ?thesis using Cons.prems rest err [of LvMarshal] by simp
  next
    case (Some b)
    show ?thesis
    proof (cases "Insert_check db (bID it) (bVector it) b")
      case chk: None
      then have p: "prepped = (off, bID it, bVector it, b) # ps" "errs = es" using Cons.prems rest Some by auto
      have "prepared_as marshal db (it # items) off (off, bID it, bVector it, b)" using Some chk by (simp add: prepared_as_def)
      then show ?thesis using IH more unreported_skip [OF sub off] unfolding up p by (auto simp: refusals_def)
    next
      case (Some e)
      then have "\<not> applied (Some e)" by (auto simp: Insert_check_def split: if_splits option.splits)
      then show ?thesis using Cons.prems rest err [of e] Some \<open>marshal (bData it) = Some b\<close> by simp
    qed
  qed
qed (simp add: refusals_def)

lemma batch_disk_ok:
  assumes "lv_inv pub recs db" "\<forall>k. whole_write (dio k)" "dsPos (dbDisk db) + length ps * mib < 2 ^ 63"
    and "\<forall>(k, i, v, b)\<in>set ps. i \<noteq> [] \<and> length b \<le> mib" "distinct (map fst ps)"
    and "batch_disk dio (dbDisk db) ps = (ds, errs, disk')"
  shows "lv_inv pub recs (db\<lparr>dbDisk := disk'\<rparr>) \<and> lv_abs (db\<lparr>dbDisk := disk'\<rparr>) = lv_abs db \<and> dsPos disk' < 2 ^ 63 \<and>
    (\<forall>loc. loc_ok (dbDisk db) loc \<longrightarrow> loc_ok disk' loc \<and> disk_bytes disk' loc = disk_bytes (dbDisk db) loc) \<and>
    map fst ds = unreported errs (map fst ps) \<and> refusals errs (map fst ps) \<and>
    (\<forall>x\<in>set ds. item_ok (db\<lparr>dbDisk := disk'\<rparr>) x) \<and> (\<forall>(k, i, v, b, loc)\<in>set ds. (k, i, v, b) \<in> set ps)"
  using assms
proof (induction ps arbitrary: db ds errs)
  case (Cons p ps)
  obtain k i v b where p: "p = (k, i, v, b)" using prod_cases4 by blast
  obtain w disk1 where w: "DiskStore_Write (dio k) (dbDisk db) b = (w, disk1)" by fastforce
  obtain ds1 es1 where rest: "batch_disk dio disk1 ps = (ds1, es1, disk')"
    using Cons.prems(6) w by (auto simp: p split: sum.splits prod.splits)
  have mem: "lv_mem pub db" and d0: "disk_inv (dbDisk db)" using Cons.prems(1) by (auto simp: lv_inv_def lv_mem_def lv_static_def)
  have d1: "disk_inv disk1" using whole_write_inv [OF _ d0 w] Cons.prems(2) by blast
  let ?db1 = "db\<lparr>dbDisk := disk1\<rparr>"
  have inv1: "lv_inv pub recs ?db1" and abs1: "lv_abs ?db1 = lv_abs db"
    using lv_inv_disk [OF Cons.prems(1) w d1] lv_mem_disk(2) [OF mem w d1] by auto
  have b: "length b \<le> mib" "i \<noteq> []" using Cons.prems(4) p by auto
  have pos: "dsPos disk1 \<le> dsPos (dbDisk db) + mib" using w b by (auto simp: DiskStore_Write_def Let_def split: disk_io.splits)
  have posp: "dsPos (dbDisk ?db1) + length ps * mib < 2 ^ 63" "dsPos (dbDisk db) < 2 ^ 63" using pos Cons.prems(3) by auto
  have IH: "lv_inv pub recs (?db1\<lparr>dbDisk := disk'\<rparr>) \<and> lv_abs (?db1\<lparr>dbDisk := disk'\<rparr>) = lv_abs ?db1 \<and> dsPos disk' < 2 ^ 63 \<and>
    (\<forall>loc. loc_ok (dbDisk ?db1) loc \<longrightarrow> loc_ok disk' loc \<and> disk_bytes disk' loc = disk_bytes (dbDisk ?db1) loc) \<and>
    map fst ds1 = unreported es1 (map fst ps) \<and> refusals es1 (map fst ps) \<and>
    (\<forall>x\<in>set ds1. item_ok (?db1\<lparr>dbDisk := disk'\<rparr>) x) \<and> (\<forall>(k, i, v, b, loc)\<in>set ds1. (k, i, v, b) \<in> set ps)"
    by (rule Cons.IH [OF inv1 Cons.prems(2) posp(1)]) (use Cons.prems(4,5) rest in auto)
  have keep: "\<forall>loc. loc_ok (dbDisk db) loc \<longrightarrow> loc_ok disk' loc \<and> disk_bytes disk' loc = disk_bytes (dbDisk db) loc"
    using IH disk_write_bytes [OF _ w] by auto
  have sub: "fst ` set es1 \<subseteq> set (map fst ps)" using IH by (simp add: refusals_def)
  have kp: "k \<notin> set (map fst ps)" using Cons.prems(5) p by simp
  show ?case
  proof (cases w)
    case (Inl e)
    then have de: "ds = ds1" "errs = (k, i, LvDisk) # es1" using Cons.prems(6) w rest by (auto simp: p)
    show ?thesis unfolding de using IH keep abs1 kp by (auto simp: p refusals_def)
  next
    case (Inr loc)
    then have de: "ds = (k, i, v, b, loc) # ds1" "errs = es1" using Cons.prems(6) w rest by (auto simp: p)
    have l: "loc_ok disk1 loc" "disk_bytes disk1 loc = b" using disk_write_loc [OF d0 b(1) posp(2)] w Inr by auto
    have "item_ok (db\<lparr>dbDisk := disk'\<rparr>) (k, i, v, b, loc)" using IH l b(2) by (auto simp: item_ok_def)
    then show ?thesis unfolding de using IH keep abs1 unreported_skip [OF sub kp] by (auto simp: p refusals_def)
  qed
qed (auto simp: refusals_def)

section \<open>BatchInsert\<close>

definition batch_put ::
  "('v \<Rightarrow> bytes option) \<Rightarrow> 'v BatchItem list \<Rightarrow> (string \<rightharpoonup> (vec \<times> bytes)) \<Rightarrow> nat \<Rightarrow> string \<rightharpoonup> (vec \<times> bytes)" where
  "batch_put marshal items m k = m(bID (items ! k) \<mapsto> (arena_normalize (bVector (items ! k)), the (marshal (bData (items ! k)))))"

text \<open>The positions whose every report, if any, is that of the flush.\<close>

definition applied_at :: "batch_errors \<Rightarrow> nat \<Rightarrow> nat list" where
  "applied_at errs n = filter (\<lambda>k. \<forall>(j, i, e)\<in>set errs. j = k \<longrightarrow> applied (Some e)) [0..<n]"

lemma applied_at_eq:
  assumes "\<forall>(k, i, e)\<in>set E. \<not> applied (Some e)" "\<forall>(k, i, e)\<in>set G. applied (Some e)"
  shows "applied_at (E @ G) n = unreported E [0..<n]"
  unfolding applied_at_def unreported_def
proof (intro filter_cong refl)
  fix k
  show "(\<forall>(j, i, e)\<in>set (E @ G). j = k \<longrightarrow> applied (Some e)) = (k \<notin> fst ` set E)"
  proof
    assume a: "\<forall>(j, i, e)\<in>set (E @ G). j = k \<longrightarrow> applied (Some e)"
    show "k \<notin> fst ` set E"
    proof
      assume "k \<in> fst ` set E"
      then obtain i e where x: "(k, i, e) \<in> set E" by auto
      from bspec [OF assms(1) x] bspec [OF a, of "(k, i, e)"] x show False by simp
    qed
  next
    assume k: "k \<notin> fst ` set E"
    show "\<forall>(j, i, e)\<in>set (E @ G). j = k \<longrightarrow> applied (Some e)"
    proof (intro ballI, clarify)
      fix i e assume "(k, i, e) \<in> set (E @ G)"
      then have "(k, i, e) \<in> set G" using k by (auto simp: rev_image_eqI)
      from bspec [OF assms(2) this] show "applied (Some e)" by simp
    qed
  qed
qed

lemma foldl_put_items:
  assumes "\<forall>(k, i, v, b, loc)\<in>set ds. prepared_as marshal db items 0 (k, i, v, b)"
  shows "foldl put_item m ds = foldl (batch_put marshal items) m (map fst ds)"
  using assms by (induction ds arbitrary: m) (auto simp: prepared_as_def batch_put_def)

lemma BatchInsert_parts:
  assumes "BatchInsert marshal dio wio fio db items = (errs, db')"
  obtains prepped e0 ds e1 disk' toIndex dn e2 db1 f where
    "batch_prepare marshal db 0 items = (prepped, e0)" "batch_disk dio (dbDisk db) prepped = (ds, e1, disk')"
    "batch_commit wio ds [] (db\<lparr>dbDisk := disk'\<rparr>) = (dn, e2, toIndex, db1)"
    "FlushAsync fio (queued db1 toIndex) = (f, db')"
    "errs = e0 @ e1 @ e2 @ (case f of None \<Rightarrow> [] | Some e \<Rightarrow> map (\<lambda>(k, i). (k, i, LvFlush e)) dn)"
  using assms by (auto simp: BatchInsert_def BatchInsert_locked_def split: prod.splits option.splits)

lemma BatchInsert_refines:
  assumes inv: "lv_inv pub recs db" and ww: "\<forall>k. whole_write (dio k)"
    and slots: "arTotalVectors (dbArena db) + length items < 2 ^ 32" and space: "dsPos (dbDisk db) + length items * mib < 2 ^ 63"
    and run: "BatchInsert marshal dio wio fio db items = (errs, db')"
  shows "\<exists>recs'. lv_inv pub recs' db' \<and> prefix recs recs' \<and> length recs' \<le> length recs + length items \<and>
    lv_abs db' = foldl (batch_put marshal items) (lv_abs db) (applied_at errs (length items))"
  using run
proof (cases rule: BatchInsert_parts)
  case (1 prepped e0 ds e1 disk' toIndex dn e2 db1 f)
  let ?n = "length items" and ?db = "db\<lparr>dbDisk := disk'\<rparr>"
  have prep: "map fst prepped = unreported e0 [0..<?n]" "refusals e0 [0..<?n]" "\<forall>x\<in>set prepped. prepared_as marshal db items 0 x"
    using batch_prepare_ok [OF 1(1)] by simp_all
  have lp: "length prepped \<le> ?n"
    using arg_cong [OF prep(1), of length] length_filter_le [of _ "[0..<?n]"] by (simp add: unreported_def)
  have ok: "\<forall>(k, i, v, b)\<in>set prepped. i \<noteq> [] \<and> length b \<le> mib"
    using prep(3) Insert_check_ok(2,3) by (fastforce simp: prepared_as_def)
  have dp: "distinct (map fst prepped)" unfolding prep(1) by (simp add: unreported_def)
  have "length prepped * mib \<le> ?n * mib" using lp by simp
  then have space': "dsPos (dbDisk db) + length prepped * mib < 2 ^ 63" using space by linarith
  note disk = batch_disk_ok [OF inv ww space' ok dp 1(2)]
  have dsk: "map fst ds = unreported e1 (map fst prepped)" "refusals e1 (map fst prepped)" "\<forall>x\<in>set ds. item_ok ?db x"
    "\<forall>(k, i, v, b, loc)\<in>set ds. (k, i, v, b) \<in> set prepped" "lv_abs ?db = lv_abs db" "dsPos disk' < 2 ^ 63"
    and inv1: "lv_inv pub recs ?db" using disk by blast+
  have dd: "distinct (map fst ds)" unfolding dsk(1) using dp by (simp add: unreported_def)
  have "length ds \<le> length prepped"
    using arg_cong [OF dsk(1), of length] length_filter_le [of _ "map fst prepped"] by (simp add: unreported_def)
  then have slots': "arTotalVectors (dbArena ?db) + length ds < 2 ^ 32" and ld: "length ds \<le> ?n" using slots lp by simp_all
  have "seq_insert wio ds (queued ?db []) = (dn, e2, queued db1 toIndex)"
  proof (rule batch_commit_seq [OF _ slots' _ dsk(3) 1(3)])
    show "lv_mem pub (queued ?db [])" using inv1 by (simp add: lv_inv_def)
    show "dsPos (dbDisk ?db) < 2 ^ 63" using dsk(6) by simp
  qed
  then have seq: "seq_insert wio ds ?db = (dn, e2, queued db1 toIndex)" by simp
  obtain recs' where r': "lv_inv pub recs' (queued db1 toIndex)" "prefix recs recs'" "length recs' \<le> length recs + length ds"
    "map fst dn = unreported e2 (map fst ds)" "refusals e2 (map fst ds)"
    "lv_abs (queued db1 toIndex) = foldl put_item (lv_abs ?db) (filter (\<lambda>d. fst d \<in> fst ` set dn) ds)"
    using seq_insert_inv [OF inv1 slots' _ dsk(3) dd seq] dsk(6) by auto
  have keys: "map fst dn = unreported (e0 @ e1 @ e2) [0..<?n]"
    unfolding r'(4) dsk(1) prep(1) unreported_append by simp
  have na: "\<forall>(k, i, e)\<in>set (e0 @ e1 @ e2). \<not> applied (Some e)" using prep(2) dsk(2) r'(5) by (auto simp: refusals_def)
  have "\<forall>(k, i, e)\<in>set (case f of None \<Rightarrow> [] | Some e \<Rightarrow> map (\<lambda>(k, i). (k, i, LvFlush e)) dn). applied (Some e)"
    by (auto split: option.split)
  from applied_at_eq [OF na this, of ?n] have at: "applied_at errs ?n = map fst dn" unfolding keys 1(5) by simp
  have flt: "map fst (filter (\<lambda>d. fst d \<in> fst ` set dn) ds) = map fst dn"
  proof -
    have "fst ` set dn = set (unreported e2 (map fst ds))" using r'(4) by (metis list.set_map)
    then have "map fst (filter (\<lambda>d. fst d \<in> fst ` set dn) ds) = filter (\<lambda>k. k \<in> set (unreported e2 (map fst ds))) (map fst ds)"
      by (simp add: filter_map comp_def)
    also have "\<dots> = unreported e2 (map fst ds)" unfolding unreported_def by (intro filter_cong) auto
    finally show ?thesis using r'(4) by simp
  qed
  have "\<forall>(k, i, v, b, loc)\<in>set (filter (\<lambda>d. fst d \<in> fst ` set dn) ds). prepared_as marshal db items 0 (k, i, v, b)"
    using dsk(4) prep(3) by fastforce
  from foldl_put_items [OF this] have "lv_abs (queued db1 toIndex) = foldl (batch_put marshal items) (lv_abs db) (applied_at errs ?n)"
    unfolding r'(6) at flt dsk(5) .
  moreover note fl = FlushAsync_inv [OF r'(1) 1(4)]
  ultimately show ?thesis using r'(2,3) ld fl(1,2) by (intro exI [of _ recs']) auto
qed

section \<open>BatchDelete\<close>

lemma deleteLocked_error: "deleteLocked wio db i = (Some e, db') \<Longrightarrow> \<not> applied (Some e)"
  by (auto simp: deleteLocked_def split: option.splits prod.splits)

lemma batch_delete_inv:
  assumes "lv_inv pub recs db" "batch_delete wio off is db = (errs, del, db')"
  shows "\<exists>recs'. lv_inv pub recs' db' \<and> prefix recs recs' \<and> length recs' \<le> length recs + length is \<and>
    map fst del = unreported errs [off..<off + length is] \<and> refusals errs [off..<off + length is] \<and>
    lv_abs db' = lv_abs db |` (- {is ! (k - off) | k. k \<in> fst ` set del})"
  using assms
proof (induction "is" arbitrary: off recs db errs del)
  case (Cons i "is")
  obtain r db1 where d1: "deleteLocked (wio off) db i = (r, db1)" by fastforce
  obtain es ds where rest: "batch_delete wio (Suc off) is db1 = (es, ds, db')"
    using Cons.prems(2) d1 by (auto split: prod.splits option.splits)
  note l = deleteLocked_inv [OF Cons.prems(1) d1]
  define ks where "ks = [Suc off..<Suc off + length is]"
  obtain recs' where r': "lv_inv pub recs' db'" "prefix (if r = None then recs @ [delete_record i] else recs) recs'"
    "length recs' \<le> length (if r = None then recs @ [delete_record i] else recs) + length is"
    "map fst ds = unreported es ks" "refusals es ks" "lv_abs db' = lv_abs db1 |` (- {is ! (k - Suc off) | k. k \<in> fst ` set ds})"
    using Cons.IH [OF l(1) rest] unfolding ks_def by blast
  have up: "[off..<off + length (i # is)] = off # ks"
    unfolding ks_def using upt_conv_Cons [of off "off + length (i # is)"] by (simp del: upt_Suc)
  have off: "off \<notin> set ks" by (simp add: ks_def del: upt_Suc)
  have sub: "fst ` set es \<subseteq> set ks" using r'(5) by (simp add: refusals_def)
  have "set (map fst ds) \<subseteq> set ks" unfolding r'(4) unreported_def by auto
  then have big: "Suc off \<le> k" if "k \<in> fst ` set ds" for k using that by (auto simp: ks_def simp del: upt_Suc)
  have shift: "{(i # is) ! (k - off) | k. k \<in> fst ` set ds} = {is ! (k - Suc off) | k. k \<in> fst ` set ds}"
  proof -
    have "(i # is) ! (k - off) = is ! (k - Suc off)" if "k \<in> fst ` set ds" for k
      using big [OF that] by (simp add: nth_Cons split: nat.split) (metis Suc_diff_le diff_Suc_Suc nat.inject)
    then show ?thesis by (intro Collect_cong) metis
  qed
  show ?case
  proof (cases r)
    case (Some e)
    have de: "errs = (off, i, e) # es" "del = ds" using Cons.prems(2) d1 rest Some by auto
    have "\<not> applied (Some e)" using deleteLocked_error d1 Some by blast
    then have "refusals errs (off # ks)" using r'(5) by (auto simp: refusals_def de)
    moreover have "lv_abs db' = lv_abs db |` (- {(i # is) ! (k - off) | k. k \<in> fst ` set del})"
      unfolding de(2) shift using r'(6) l(2) Some by simp
    ultimately show ?thesis unfolding up using r'(1-4) off Some by (intro exI [of _ recs']) (simp add: de)
  next
    case None
    have de: "errs = es" "del = (off, i) # ds" using Cons.prems(2) d1 rest None by auto
    have "{(i # is) ! (k - off) | k. k \<in> fst ` set del} = insert i {(i # is) ! (k - off) | k. k \<in> fst ` set ds}"
      by (auto simp: de intro: exI [of _ off])
    then have "lv_abs db' = lv_abs db |` (- {(i # is) ! (k - off) | k. k \<in> fst ` set del})"
      unfolding shift using r'(6) l(2) None by (auto simp: restrict_map_def fun_eq_iff)
    moreover have "prefix recs recs'" using r'(2) None by (auto dest: append_prefixD)
    moreover have "refusals errs (off # ks)" using r'(5) by (auto simp: refusals_def de)
    ultimately show ?thesis unfolding up using r'(1,3,4) None unreported_skip [OF sub off] by (intro exI [of _ recs']) (simp add: de)
  qed
qed (auto simp: refusals_def restrict_map_def)

lemma BatchDelete_refines:
  assumes inv: "lv_inv pub recs db" and run: "BatchDelete wio fio db is = (errs, db')"
  shows "\<exists>recs'. lv_inv pub recs' db' \<and> prefix recs recs' \<and> length recs' \<le> length recs + length is \<and>
    lv_abs db' = lv_abs db |` (- (\<lambda>k. is ! k) ` set (applied_at errs (length is)))"
proof -
  obtain es del db1 where d: "batch_delete wio 0 is db = (es, del, db1)" using prod_cases3 by blast
  obtain recs' where r': "lv_inv pub recs' db1" "prefix recs recs'" "length recs' \<le> length recs + length is"
    "map fst del = unreported es [0..<length is]" "refusals es [0..<length is]" "lv_abs db1 = lv_abs db |` (- {is ! k | k. k \<in> fst ` set del})"
    using batch_delete_inv [OF inv d] by auto
  obtain f where f: "lv_inv pub recs' db' \<and> lv_abs db' = lv_abs db1" "errs = es @ f" "\<forall>(k, i, e)\<in>set f. applied (Some e)"
  proof (cases "del = []")
    case True
    then have "db' = db1" "errs = es @ []" using run d by (simp_all add: BatchDelete_def)
    then show thesis using that [of "[]"] r'(1) by simp
  next
    case False
    obtain x db2 where fl: "FlushAsync fio db1 = (x, db2)" by fastforce
    note g = FlushAsync_inv [OF r'(1) fl]
    have "db' = db2" "errs = es @ (case x of None \<Rightarrow> [] | Some e \<Rightarrow> map (\<lambda>(k, i). (k, i, LvFlush e)) del)"
      using run d False fl by (auto simp: BatchDelete_def split: option.splits)
    moreover have "\<forall>(k, i, e)\<in>set (case x of None \<Rightarrow> [] | Some e \<Rightarrow> map (\<lambda>(k, i). (k, i, LvFlush e)) del). applied (Some e)"
      by (auto split: option.split)
    ultimately show thesis using that g(1,2) by blast
  qed
  have "\<forall>(k, i, e)\<in>set es. \<not> applied (Some e)" using r'(5) by (simp add: refusals_def)
  from applied_at_eq [OF this f(3), of "length is"] have at: "applied_at errs (length is) = map fst del" unfolding f(2) r'(4) .
  have "(\<lambda>k. is ! k) ` set (applied_at errs (length is)) = {is ! k | k. k \<in> fst ` set del}" unfolding at by auto
  then show ?thesis using f(1) r'(2,3,6) by (intro exI [of _ recs']) simp
qed

end
