(* ===== verification/Levara_Restore.thy ===== *)
theory Levara_Restore
  imports Levara_Batch
begin

text \<open>
  \<open>RestoreSnapshot\<close> and \<open>Clear\<close>. The snapshot is staged in a fresh arena and graph and a new
  log, which then replaces the old one: either the contents become exactly the snapshot and
  the log stands for it, or nothing but unreferenced metadata bytes has changed.
\<close>

section \<open>Metadata that only grows\<close>

definition disk_ext :: "DiskStore \<Rightarrow> DiskStore \<Rightarrow> bool" where
  "disk_ext ds ds' \<longleftrightarrow> disk_inv ds' \<and> (\<forall>loc. loc_ok ds loc \<longrightarrow> loc_ok ds' loc \<and> disk_bytes ds' loc = disk_bytes ds loc)"

lemma disk_ext_refl: "disk_inv ds \<Longrightarrow> disk_ext ds ds"
  by (simp add: disk_ext_def)

lemma disk_ext_trans: "disk_ext a b \<Longrightarrow> disk_ext b c \<Longrightarrow> disk_ext a c"
  by (simp add: disk_ext_def)

lemma disk_ext_write: "disk_inv ds \<Longrightarrow> whole_write io \<Longrightarrow> DiskStore_Write io ds data = (r, ds') \<Longrightarrow> disk_ext ds ds'"
  using whole_write_inv disk_write_bytes by (auto simp: disk_ext_def)

lemma lv_inv_disk_ext:
  assumes inv: "lv_inv pub recs db" and ext: "disk_ext (dbDisk db) ds'"
  shows "lv_inv pub recs (db\<lparr>dbDisk := ds'\<rparr>)" "lv_abs (db\<lparr>dbDisk := ds'\<rparr>) = lv_abs db"
proof -
  let ?db = "db\<lparr>dbDisk := ds'\<rparr>"
  have mem: "lv_mem pub db" using inv by (simp add: lv_inv_def)
  have L: "\<exists>loc. dbMetaLocs db k = Some loc \<and> loc_ok (dbDisk db) loc" if "dbIndex db j = Some k" for j k
    using mem that unfolding lv_mem_def lv_index_def by blast
  show abs: "lv_abs ?db = lv_abs db"
  proof
    fix i show "lv_abs ?db i = lv_abs db i"
    proof (cases "dbIndex db i")
      case (Some k)
      then obtain loc where "dbMetaLocs db k = Some loc" "loc_ok (dbDisk db) loc" using L by blast
      then show ?thesis using ext Some by (simp add: lv_abs_def disk_ext_def)
    qed (simp add: lv_abs_def)
  qed
  have "lv_static ?db" using mem ext by (simp add: lv_mem_def lv_static_def disk_ext_def)
  moreover have "lv_index ?db"
  proof -
    have ix: "lv_index db" using mem by (simp add: lv_mem_def)
    have "\<exists>loc. dbMetaLocs db k = Some loc \<and> loc_ok ds' loc" if "dbIndex db j = Some k" for j k
      using L [OF that] ext by (auto simp: disk_ext_def)
    then show ?thesis using ix by (simp add: lv_index_def)
  qed
  moreover have "lv_graph pub (dbPending ?db) ?db" using mem by (simp add: lv_mem_def lv_graph_def)
  ultimately show "lv_inv pub recs ?db" using inv abs by (simp add: lv_inv_def lv_mem_def lv_logged_def)
qed

section \<open>The reverse index\<close>

lemma lv_index_rev_cong:
  assumes ix: "lv_index db" and eq: "\<And>k. (if k < length R then R ! k else []) = (if k < length (dbRevIndex db) then dbRevIndex db ! k else [])"
  shows "lv_index (db\<lparr>dbRevIndex := R\<rparr>)"
proof -
  have I: "\<And>i idx. dbIndex db i = Some idx \<Longrightarrow> i \<noteq> [] \<and> idx < arTotalVectors (dbArena db) \<and> idx < length (dbRevIndex db) \<and>
        dbRevIndex db ! idx = i \<and> (\<exists>loc. dbMetaLocs db idx = Some loc \<and> loc_ok (dbDisk db) loc)"
    and R: "\<And>idx. idx < length (dbRevIndex db) \<Longrightarrow> dbRevIndex db ! idx \<noteq> [] \<Longrightarrow> dbIndex db (dbRevIndex db ! idx) = Some idx"
    and M: "\<And>idx. dbMetaLocs db idx \<noteq> None \<Longrightarrow> \<exists>i. dbIndex db i = Some idx"
    using ix unfolding lv_index_def by blast+
  have "idx < length R \<and> R ! idx = i" if "dbIndex db i = Some idx" for i idx
    using I [OF that] eq [of idx] by (simp split: if_splits)
  moreover have "dbIndex db (R ! idx) = Some idx" if "idx < length R" "R ! idx \<noteq> []" for idx
    using R [of idx] eq [of idx] that by (simp split: if_splits)
  ultimately show ?thesis using I M unfolding lv_index_def by simp
qed

lemma lv_mem_rev:
  assumes "lv_mem pub db" "\<And>k. (if k < length R then R ! k else []) = (if k < length (dbRevIndex db) then dbRevIndex db ! k else [])"
  shows "lv_mem pub (db\<lparr>dbRevIndex := R\<rparr>)" "lv_abs (db\<lparr>dbRevIndex := R\<rparr>) = lv_abs db"
  using assms lv_index_rev_cong [of db R]
  by (auto simp: lv_mem_def lv_static_def lv_graph_def lv_abs_def fun_eq_iff split: option.split)

section \<open>Staging\<close>

text \<open>One staged record is an insert during replay, but for the length of the reverse index.\<close>

lemma restore_record_cases:
  assumes run: "restore_record dot level dio r (db, out) = x" and new: "dbIndex db (snID r) = None"
  obtains (fail) e ds' where "x = Inl (e, ds')" "ds' = dbDisk db \<or> (\<exists>y. DiskStore_Write dio (dbDisk db) (snData r) = (y, ds'))" "e \<noteq> LvPublished"
  | (ok) loc ds' db1 frame where "DiskStore_Write dio (dbDisk db) (snData r) = (Inr loc, ds')"
      "insertInMemory dot level (db\<lparr>dbDisk := ds'\<rparr>) (snID r) (snVector r) loc = Inr db1"
      "writeWALEntryTo OpInsert (snID r) (arena_normalize (snVector r)) (snData r) loc = Inr frame"
      "x = Inr (db1\<lparr>dbRevIndex := dbRevIndex db @ [snID r]\<rparr>, out @ frame)"
proof (cases "VectorArena_Add (dbArena db) (snVector r)")
  case (Inl e)
  then show thesis using run fail [of "LvArena e" "dbDisk db"] by (simp add: restore_record_def)
next
  case (Inr y)
  obtain idx v a' where y: "y = (idx, v, a')" using prod_cases3 by blast
  have v: "v = arena_normalize (snVector r)"
    using Inr y by (auto simp: VectorArena_Add_def arena_normalize_def Let_def split: if_splits option.splits prod.splits)
  obtain w ds' where w: "DiskStore_Write dio (dbDisk db) (snData r) = (w, ds')" by fastforce
  show thesis
  proof (cases w)
    case l: (Inl e)
    then show thesis using run Inr y w fail [of LvDisk ds'] by (simp add: restore_record_def)
  next
    case w': (Inr loc)
    show thesis
    proof (cases "writeWALEntryTo OpInsert (snID r) v (snData r) loc")
      case f: (Inl e)
      show thesis by (rule fail [of "LvRecord e" ds']) (use run Inr y w w' f in \<open>auto simp: restore_record_def\<close>)
    next
      case f: (Inr frame)
      let ?db = "db\<lparr>dbDisk := ds'\<rparr>"
      let ?m = "store_maps (snID r) idx loc (replaceExistingLocked (?db\<lparr>dbArena := a'\<rparr>) (snID r))"
      have "insertInMemory dot level ?db (snID r) (snVector r) loc =
          Inr (?m\<lparr>dbHnsw := HNSW_Add dot (lv_vec ?m) level (dbHnsw ?m) v (snID r) idx\<rparr>)"
        using Inr y by (simp add: insertInMemory_def Let_def)
      moreover have "x = Inr ((?m\<lparr>dbHnsw := HNSW_Add dot (lv_vec ?m) level (dbHnsw ?m) v (snID r) idx\<rparr>)\<lparr>dbRevIndex := dbRevIndex db @ [snID r]\<rparr>, out @ frame)"
        using Inr y w w' f new unfolding run [symmetric] by (simp add: restore_record_def Let_def store_maps_def replaceExistingLocked_def)
      ultimately show thesis using ok w w' f v by blast
    qed
  qed
qed

definition snapshot_map :: "SnapshotRecord list \<Rightarrow> string \<rightharpoonup> (vec \<times> bytes)" where
  "snapshot_map rs = foldl (\<lambda>m r. m(snID r \<mapsto> (arena_normalize (snVector r), snData r))) Map.empty rs"

lemma snapshot_map_snoc: "snapshot_map (rs @ [r]) = (snapshot_map rs)(snID r \<mapsto> (arena_normalize (snVector r), snData r))"
  by (simp add: snapshot_map_def)

lemma dom_snapshot_map: "dom (snapshot_map rs) = snID ` set rs"
proof (induction rs rule: rev_induct)
  case (snoc r rs)
  then show ?case unfolding snapshot_map_snoc dom_fun_upd by simp
qed (simp add: snapshot_map_def)

definition staged :: "Levara \<Rightarrow> SnapshotRecord list \<Rightarrow> Levara \<times> bytes \<Rightarrow> bool" where
  "staged db0 rs st \<longleftrightarrow>
     (case st of (db, out) \<Rightarrow>
        lv_mem None db \<and> dbPending db = [] \<and> lv_abs db = snapshot_map rs \<and>
        length (dbRevIndex db) = length rs \<and> arTotalVectors (dbArena db) = length rs \<and>
        disk_ext (dbDisk db0) (dbDisk db) \<and> dsPos (dbDisk db) \<le> dsPos (dbDisk db0) + length rs * mib \<and> dbDim db = dbDim db0 \<and>
        (\<exists>recs. out = wal_log recs \<and> (\<forall>rec\<in>set recs. wal_fits (dbDim db0) rec) \<and> log_map recs = snapshot_map rs \<and> length recs = length rs))"

definition snapshot_ok :: "nat \<Rightarrow> SnapshotRecord \<Rightarrow> bool" where
  "snapshot_ok dm r \<longleftrightarrow> length (snVector r) = dm \<and> snID r \<noteq> [] \<and> length (snData r) \<le> mib"

lemma restore_check_ok:
  assumes "restore_check dm seen rs = None"
  shows "distinct (map snID rs) \<and> snID ` set rs \<inter> set seen = {} \<and> (\<forall>r\<in>set rs. snapshot_ok dm r)"
  using assms
proof (induction rs arbitrary: seen)
  case (Cons r rs)
  then have "restore_check dm (snID r # seen) rs = None" "snID r \<notin> set seen" "snapshot_ok dm r"
    by (auto simp: snapshot_ok_def validateWALRecord_def split: if_splits option.splits)
  from Cons.IH [OF this(1)] this(2,3) show ?case by auto
qed simp

lemma restore_check_error: "restore_check dm seen rs = Some e \<Longrightarrow> e \<noteq> LvPublished"
  by (induction dm seen rs rule: restore_check.induct) (auto split: if_splits option.splits)

lemma restore_record_staged:
  assumes st: "staged db0 rs (db, out)" and ok: "snapshot_ok (dbDim db0) r" and new: "snID r \<notin> snID ` set rs" and ww: "whole_write dio"
    and slots: "Suc (length rs) < 2 ^ 32" and space: "dsPos (dbDisk db0) + Suc (length rs) * mib < 2 ^ 63"
  shows "case restore_record dot level dio r (db, out) of
      Inl (e, ds') \<Rightarrow> disk_ext (dbDisk db0) ds' \<and> e \<noteq> LvPublished | Inr st' \<Rightarrow> staged db0 (rs @ [r]) st'"
proof -
  have mem: "lv_mem None db" "dbPending db = []" "lv_abs db = snapshot_map rs" "length (dbRevIndex db) = length rs"
    "arTotalVectors (dbArena db) = length rs" "dbDim db = dbDim db0"
    and ext: "disk_ext (dbDisk db0) (dbDisk db)" and pos: "dsPos (dbDisk db) \<le> dsPos (dbDisk db0) + length rs * mib"
    using st by (simp_all add: staged_def)
  obtain recs where recs: "out = wal_log recs" "\<forall>rec\<in>set recs. wal_fits (dbDim db0) rec" "log_map recs = snapshot_map rs" "length recs = length rs"
    using st by (auto simp: staged_def)
  have dinv: "disk_inv (dbDisk db)" using ext by (simp add: disk_ext_def)
  have none: "dbIndex db (snID r) = None"
  proof -
    have "snID r \<notin> dom (lv_abs db)" using new by (simp add: mem(3) dom_snapshot_map)
    then show ?thesis by (cases "dbIndex db (snID r)") (auto simp: lv_abs_def)
  qed
  show ?thesis
  proof (cases rule: restore_record_cases [OF refl none, of dot level dio out])
    case (1 e ds')
    then show ?thesis using disk_ext_trans [OF ext] disk_ext_write [OF dinv ww] ext by auto
  next
    case (2 loc ds' db1 frame)
    have sz: "length (snData r) \<le> mib" "snID r \<noteq> []" "length (snVector r) = dbDim db0" using ok by (simp_all add: snapshot_ok_def)
    have p63: "dsPos (dbDisk db) < 2 ^ 63" using pos space by simp
    note wl = disk_write_loc [OF dinv sz(1) p63 2(1)]
    have ext': "disk_ext (dbDisk db0) ds'" using disk_ext_trans [OF ext disk_ext_write [OF dinv ww 2(1)]] .
    have pos': "dsPos ds' \<le> dsPos (dbDisk db0) + Suc (length rs) * mib"
      using 2(1) pos sz(1) by (auto simp: DiskStore_Write_def Let_def split: disk_io.splits)
    let ?db = "db\<lparr>dbDisk := ds'\<rparr>"
    note md = lv_mem_disk [OF mem(1) 2(1) wl(1)]
    have room: "lv_room ?db" using mem(5) slots pos' space by (simp add: lv_room_def)
    have loc: "loc_ok (dbDisk ?db) loc" and pd: "dbPending ?db = []" using wl(2) mem(2) by simp_all
    note im = insertInMemory_mem [OF md(1) room sz(2) loc pd 2(2)]
    let ?R = "dbRevIndex db @ [snID r]"
    have rev: "(if k < length ?R then ?R ! k else []) = (if k < length (dbRevIndex db1) then dbRevIndex db1 ! k else [])" for k
    proof -
      have "dbRevIndex db1 = (grow_rev (length rs) (dbRevIndex db))[length rs := snID r]"
        using 2(2) none VectorArena_Add_refines(1) [of "dbArena db" "snVector r"] mem(1,5) slots
        by (auto simp: insertInMemory_def Let_def store_maps_def replaceExistingLocked_def lv_mem_def lv_static_def split: sum.splits)
      then show ?thesis using mem(4) length_grow_rev [where idx = "length rs" and r = "dbRevIndex db"]
        by (auto simp: nth_list_update nth_grow_rev nth_append)
    qed
    note lr = lv_mem_rev [OF im(1) rev]
    let ?rec = "insert_record (snID r) (arena_normalize (snVector r)) (snData r) loc"
    have val: "validateWALRecord OpInsert (snID r) (arena_normalize (snVector r)) (snData r) loc = None" "frame = frame_of ?rec"
      using 2(3) by (auto simp: writeWALEntryTo_def frame_of_def insert_record_def split: option.splits)
    then have fits: "wal_fits (dbDim db0) ?rec"
      using wl(2) sz(3) by (auto simp: wal_fits_def wal_valid_def insert_record_def loc_ok_def mib_def)
    have "lv_abs (db1\<lparr>dbRevIndex := ?R\<rparr>) = snapshot_map (rs @ [r])"
      using lr(2) im(2) md(2) mem(3) wl(3) by (simp add: snapshot_map_snoc)
    moreover have "\<exists>recs'. out @ frame = wal_log recs' \<and> (\<forall>rec\<in>set recs'. wal_fits (dbDim db0) rec) \<and>
        log_map recs' = snapshot_map (rs @ [r]) \<and> length recs' = length (rs @ [r])"
      using recs fits val(2) by (intro exI [of _ "recs @ [?rec]"]) (simp add: log_map_snoc snapshot_map_snoc)
    ultimately have "staged db0 (rs @ [r]) (db1\<lparr>dbRevIndex := ?R\<rparr>, out @ frame)"
      using lr(1) im(3-6) ext' pos' mem(4-6) by (simp add: staged_def)
    then show ?thesis using 2(4) by simp
  qed
qed

lemma restore_records_staged:
  assumes "staged db0 done st" "\<forall>r\<in>set rs. snapshot_ok (dbDim db0) r" "distinct (map snID (done @ rs))" "\<forall>k. whole_write (dio k)"
    and "length done + length rs < 2 ^ 32" "dsPos (dbDisk db0) + (length done + length rs) * mib < 2 ^ 63"
  shows "case restore_records dot levels dio k rs st of
      Inl (e, ds') \<Rightarrow> disk_ext (dbDisk db0) ds' \<and> e \<noteq> LvPublished | Inr st' \<Rightarrow> staged db0 (done @ rs) st'"
  using assms
proof (induction rs arbitrary: k "done" st)
  case (Cons r rs)
  obtain db out where st: "st = (db, out)" by fastforce
  have new: "snID r \<notin> snID ` set done" using Cons.prems(3) by auto
  have slots: "Suc (length done) < 2 ^ 32" using Cons.prems(5) by simp
  have "Suc (length done) * mib \<le> (length done + length (r # rs)) * mib" by (intro mult_le_mono1) simp
  then have space: "dsPos (dbDisk db0) + Suc (length done) * mib < 2 ^ 63" using Cons.prems(6) by linarith
  note one = restore_record_staged [OF Cons.prems(1) [unfolded st] _ new _ slots space, where dot = dot and level = "levels k" and dio = "dio k"]
  show ?case
  proof (cases "restore_record dot (levels k) (dio k) r st")
    case (Inl x)
    then show ?thesis using one Cons.prems(2,4) st by simp
  next
    case (Inr st')
    then have "staged db0 (done @ [r]) st'" using one Cons.prems(2,4) st by simp
    from Cons.IH [OF this, of "Suc k"] show ?thesis using Inr Cons.prems by (auto split: sum.splits)
  qed
qed simp

section \<open>RestoreSnapshot\<close>

definition published :: "lv_error option \<Rightarrow> bool" where
  "published r \<longleftrightarrow> r = None \<or> r = Some LvPublished"

lemma fresh_state_mem:
  assumes "lv_static db"
  shows "lv_mem None (fresh_state db)" "lv_abs (fresh_state db) = Map.empty"
proof -
  have "arena_inv (NewVectorArena (dbDim db))" using arena_inv_new assms by (simp add: lv_static_def)
  then show "lv_mem None (fresh_state db)"
    using assms hnsw_inv_new [of 0 "dbHnswCfg db"]
    by (simp add: lv_mem_def lv_static_def lv_index_def lv_graph_def fresh_state_def NewVectorArena_def) (simp add: NewHNSWIndex_def)
  show "lv_abs (fresh_state db) = Map.empty" by (simp add: lv_abs_def fresh_state_def fun_eq_iff)
qed

lemma staged_fresh: "lv_static db \<Longrightarrow> staged db [] (fresh_state db, [])"
  using fresh_state_mem [of db]
  by (auto simp: staged_def fresh_state_def NewVectorArena_def disk_ext_def lv_static_def snapshot_map_def wal_log_def)

text \<open>A published snapshot: the engine on the staged state and the new log.\<close>

lemma staged_published:
  assumes st: "staged db0 rs (db1, out)" and rep: "WAL_replaceFile True out (dbWal db0) = (None, wal')"
    and w: "w = wal' \<or> w = WAL_dirSync wal'"
  shows "\<exists>recs. lv_inv None recs (db1\<lparr>dbWal := w\<rparr>) \<and> log_map recs = lv_abs (db1\<lparr>dbWal := w\<rparr>) \<and> length recs = length rs"
    "lv_abs (db1\<lparr>dbWal := w\<rparr>) = snapshot_map rs" "walSynced w = length (walLog w)"
proof -
  obtain recs where recs: "out = wal_log recs" "\<forall>rec\<in>set recs. wal_fits (dbDim db0) rec" "log_map recs = snapshot_map rs" "length recs = length rs"
    and m: "lv_mem None db1" "lv_abs db1 = snapshot_map rs" "dbDim db1 = dbDim db0"
    using st by (auto simp: staged_def)
  note r = replaceFile_inv [OF recs(2) rep [unfolded recs(1)]]
  have wi: "wal_inv (dbDim db0) recs w" "walSynced w = length (walLog w)"
    using r w by (auto simp: WAL_dirSync_def wal_inv_def)
  then show "walSynced w = length (walLog w)" by blast
  show abs: "lv_abs (db1\<lparr>dbWal := w\<rparr>) = snapshot_map rs" using m(2) by (simp add: lv_mem_wal)
  have "lv_logged (db1\<lparr>dbWal := w\<rparr>) recs" unfolding lv_logged_def abs recs(3) by (simp add: option.rel_refl)
  then have "lv_inv None recs (db1\<lparr>dbWal := w\<rparr>)" using m wi(1) by (simp add: lv_inv_def lv_mem_wal)
  then show "\<exists>recs. lv_inv None recs (db1\<lparr>dbWal := w\<rparr>) \<and> log_map recs = lv_abs (db1\<lparr>dbWal := w\<rparr>) \<and> length recs = length rs"
    using abs recs(3,4) by metis
qed

lemma RestoreSnapshot_refines:
  assumes inv: "lv_inv pub recs db" and ww: "\<forall>k. whole_write (dio k)"
    and slots: "length records < 2 ^ 32" and space: "dsPos (dbDisk db) + length records * mib < 2 ^ 63"
    and run: "RestoreSnapshot dot levels dio pio db records = (r, db')"
  shows "published r \<Longrightarrow> \<exists>recs'. lv_inv None recs' db' \<and> log_map recs' = lv_abs db' \<and> length recs' = length records"
    "published r \<Longrightarrow> lv_abs db' = snapshot_map records \<and> walSynced (dbWal db') = length (walLog (dbWal db'))"
    "\<not> published r \<Longrightarrow> lv_inv pub recs db' \<and> lv_abs db' = lv_abs db"
    "r = None \<Longrightarrow> walPrev (dbWal db') = []" "published r \<Longrightarrow> dbDim db' = dbDim db"
proof -
  have st: "lv_static db" using inv by (simp add: lv_inv_def lv_mem_def)
  have "(if published r then (\<exists>recs'. lv_inv None recs' db' \<and> log_map recs' = lv_abs db' \<and> length recs' = length records) \<and>
      lv_abs db' = snapshot_map records \<and> walSynced (dbWal db') = length (walLog (dbWal db')) \<and> dbDim db' = dbDim db
     else lv_inv pub recs db' \<and> lv_abs db' = lv_abs db) \<and> (r = None \<longrightarrow> walPrev (dbWal db') = [])"
  proof (cases "restore_check (dbDim db) [] records")
    case (Some e)
    then have "e \<noteq> LvPublished" by (rule restore_check_error)
    then show ?thesis using run Some inv by (auto simp: RestoreSnapshot_def published_def)
  next
    case None
    note ck = restore_check_ok [OF None]
    show ?thesis
    proof (cases "pioCreate pio")
      case False
      then show ?thesis using run None inv by (auto simp: RestoreSnapshot_def published_def)
    next
      case True
      have stg: "case restore_records dot levels dio 0 records (fresh_state db, []) of
          Inl (e, ds') \<Rightarrow> disk_ext (dbDisk db) ds' \<and> e \<noteq> LvPublished | Inr st' \<Rightarrow> staged db ([] @ records) st'"
        by (rule restore_records_staged [OF staged_fresh [OF st]]) (use ck ww slots space in simp_all)
      show ?thesis
      proof (cases "restore_records dot levels dio 0 records (fresh_state db, [])")
        case (Inl x)
        obtain e ds' where x: "x = (e, ds')" by fastforce
        then show ?thesis using run None True Inl stg lv_inv_disk_ext [OF inv]
          by (auto simp: RestoreSnapshot_def published_def)
      next
        case (Inr x)
        obtain db1 out where x: "x = (db1, out)" by fastforce
        have sg: "staged db records (db1, out)" using stg Inr x by simp
        have ext: "disk_ext (dbDisk db) (dbDisk db1)" and dim: "dbDim db1 = dbDim db" using sg by (simp_all add: staged_def)
        note fl = lv_inv_disk_ext [OF inv ext]
        show ?thesis
        proof (cases "pioFlush pio \<and> pioSync pio \<and> pioRename pio \<and> \<not> walClosed (dbWal db)")
          case False
          then have "\<not> published r \<and> db' = db\<lparr>dbDisk := dbDisk db1\<rparr>"
            using run None True Inr x by (auto simp: RestoreSnapshot_def published_def WAL_replaceFile_def Let_def split: if_splits)
          then show ?thesis using fl by (auto simp: published_def)
        next
          case t: True
          obtain wal' where rep: "WAL_replaceFile True out (dbWal db) = (None, wal')" using t by (simp add: WAL_replaceFile_def)
          have res: "published r \<and> db' = db1\<lparr>dbWal := if pioDir pio then WAL_dirSync wal' else wal'\<rparr> \<and> (r = None \<longrightarrow> pioDir pio)"
            using run None True Inr x t rep by (auto simp: RestoreSnapshot_def published_def Let_def split: if_splits)
          note sp = staged_published [OF sg rep, of "if pioDir pio then WAL_dirSync wal' else wal'"]
          have "r = None \<longrightarrow> walPrev (dbWal db') = []" using res by (auto simp: WAL_dirSync_def)
          moreover have "dbDim db' = dbDim db" using res dim by simp
          ultimately show ?thesis using sp res by auto
        qed
      qed
    qed
  qed
  then show "published r \<Longrightarrow> \<exists>recs'. lv_inv None recs' db' \<and> log_map recs' = lv_abs db' \<and> length recs' = length records"
    "published r \<Longrightarrow> lv_abs db' = snapshot_map records \<and> walSynced (dbWal db') = length (walLog (dbWal db'))"
    "\<not> published r \<Longrightarrow> lv_inv pub recs db' \<and> lv_abs db' = lv_abs db"
    "r = None \<Longrightarrow> walPrev (dbWal db') = []" "published r \<Longrightarrow> dbDim db' = dbDim db"
    by (cases "published r"; simp; blast)+
qed

end
