(* ===== verification/Group_Commit.thy ===== *)
theory Group_Commit
  imports WAL
begin

text \<open>
  The group commit of \<open>internal/store/wal.go\<close> as a step relation: callers of
  \<open>FlushAsync\<close> (its test of the closed flag, its send, its return), the \<open>fsyncLoop\<close>
  goroutine (receive, timer, drain), writers, \<open>replaceFile\<close> and \<open>Close\<close>, interleaved.

  A request carries two ghost numbers: the epoch of the log file and the length of the
  log when its caller called \<open>FlushAsync\<close>.
\<close>

section \<open>State and steps\<close>

record flushRequest =
  fqCaller :: nat
  fqEpoch :: nat
  fqMark :: nat

record GroupCommit =
  gcWal :: WAL
  gcChecked :: "flushRequest list"
  gcQueue :: "flushRequest list"
  gcPending :: "flushRequest list"
  gcDone :: "(flushRequest \<times> wal_error option) list"
  gcDraining :: bool
  gcLoopDone :: bool
  gcEpoch :: nat
  gcNext :: nat

definition maxPending :: nat where "maxPending = 16"
definition flushChCap :: nat where "flushChCap = 64"

definition gc_init :: "WAL \<Rightarrow> GroupCommit" where
  "gc_init wal = \<lparr>gcWal = wal, gcChecked = [], gcQueue = [], gcPending = [], gcDone = [],
     gcDraining = False, gcLoopDone = False, gcEpoch = 0, gcNext = 0\<rparr>"

text \<open>One \<open>fsync\<close> for the whole batch, its result to every request.\<close>

definition doGroupFlush :: "flush_io \<Rightarrow> flushRequest list \<Rightarrow> GroupCommit \<Rightarrow> GroupCommit" where
  "doGroupFlush io reqs g =
     (if reqs = [] then g
      else case WAL_flushSync io (gcWal g) of
        (err, wal') \<Rightarrow> g\<lparr>gcWal := wal', gcDone := gcDone g @ map (\<lambda>r. (r, err)) reqs\<rparr>)"

definition fsyncLoop_recv :: "flush_io \<Rightarrow> flushRequest \<Rightarrow> GroupCommit \<Rightarrow> GroupCommit" where
  "fsyncLoop_recv io req g =
     (let pending = gcPending g @ [req] in
      if maxPending \<le> length pending
      then (doGroupFlush io pending g)\<lparr>gcPending := []\<rparr>
      else g\<lparr>gcPending := pending\<rparr>)"

definition fsyncLoop_timer :: "flush_io \<Rightarrow> GroupCommit \<Rightarrow> GroupCommit" where
  "fsyncLoop_timer io g =
     (if gcPending g \<noteq> [] then (doGroupFlush io (gcPending g) g)\<lparr>gcPending := []\<rparr> else g)"

text \<open>The end of the drain: the channel is empty, the loop flushes and exits.\<close>

definition fsyncLoop_exit :: "flush_io \<Rightarrow> GroupCommit \<Rightarrow> GroupCommit" where
  "fsyncLoop_exit io g = (doGroupFlush io (gcPending g) g)\<lparr>gcPending := [], gcLoopDone := True\<rparr>"

definition FlushAsync_call :: "GroupCommit \<Rightarrow> GroupCommit" where
  "FlushAsync_call g =
     (let r = \<lparr>fqCaller = gcNext g, fqEpoch = gcEpoch g, fqMark = length (walLog (gcWal g))\<rparr> in
      if walClosed (gcWal g) then g\<lparr>gcDone := gcDone g @ [(r, Some WalClosed)], gcNext := gcNext g + 1\<rparr>
      else g\<lparr>gcChecked := gcChecked g @ [r], gcNext := gcNext g + 1\<rparr>)"

inductive gc_step :: "GroupCommit \<Rightarrow> GroupCommit \<Rightarrow> bool" where
  wr: "gc_step g (g\<lparr>gcWal := snd (WAL_WriteEntryNoFlush io opc rid v m loc (gcWal g))\<rparr>)"
| replace: "WAL_replaceFile True file (gcWal g) = (None, wal') \<Longrightarrow>
    gc_step g (g\<lparr>gcWal := wal', gcEpoch := gcEpoch g + 1\<rparr>)"
| call: "gc_step g (FlushAsync_call g)"
| send: "gcChecked g = xs @ r # ys \<Longrightarrow> length (gcQueue g) < flushChCap \<Longrightarrow>
    gc_step g (g\<lparr>gcChecked := xs @ ys, gcQueue := gcQueue g @ [r]\<rparr>)"
| reject: "gcChecked g = xs @ r # ys \<Longrightarrow> gcLoopDone g \<Longrightarrow>
    gc_step g (g\<lparr>gcChecked := xs @ ys, gcDone := gcDone g @ [(r, Some WalClosed)]\<rparr>)"
| recv: "gcQueue g = r # q \<Longrightarrow> \<not> gcDraining g \<Longrightarrow>
    gc_step g (fsyncLoop_recv io r (g\<lparr>gcQueue := q\<rparr>))"
| timer: "\<not> gcDraining g \<Longrightarrow> gc_step g (fsyncLoop_timer io g)"
| close: "gc_step g (g\<lparr>gcWal := (gcWal g)\<lparr>walClosed := True\<rparr>\<rparr>)"
| drain: "walClosed (gcWal g) \<Longrightarrow> gc_step g (g\<lparr>gcDraining := True\<rparr>)"
| drain_recv: "gcQueue g = r # q \<Longrightarrow> gcDraining g \<Longrightarrow> \<not> gcLoopDone g \<Longrightarrow>
    gc_step g (g\<lparr>gcQueue := q, gcPending := gcPending g @ [r]\<rparr>)"
| exit: "gcQueue g = [] \<Longrightarrow> gcDraining g \<Longrightarrow> \<not> gcLoopDone g \<Longrightarrow> gc_step g (fsyncLoop_exit io g)"
| close_file: "walClosed (gcWal g) \<Longrightarrow> gcLoopDone g \<Longrightarrow>
    gc_step g (g\<lparr>gcWal := snd (WAL_Close io (gcWal g))\<rparr>)"

inductive_cases gc_stepE: "gc_step g g'"

definition gc_steps :: "GroupCommit \<Rightarrow> GroupCommit \<Rightarrow> bool" where
  "gc_steps = gc_step\<^sup>*\<^sup>*"

section \<open>The invariant\<close>

text \<open>A request is covered when its file was replaced since by a synced one, or the synced prefix reaches its mark.\<close>

definition fq_durable :: "GroupCommit \<Rightarrow> flushRequest \<Rightarrow> bool" where
  "fq_durable g r \<longleftrightarrow> fqEpoch r < gcEpoch g \<or> fqEpoch r = gcEpoch g \<and> fqMark r \<le> walSynced (gcWal g)"

definition fq_written :: "GroupCommit \<Rightarrow> flushRequest \<Rightarrow> bool" where
  "fq_written g r \<longleftrightarrow> fqEpoch r < gcEpoch g \<or> fqEpoch r = gcEpoch g \<and> fqMark r \<le> length (walLog (gcWal g))"

definition gc_waiting :: "GroupCommit \<Rightarrow> flushRequest list" where
  "gc_waiting g = gcChecked g @ gcQueue g @ gcPending g"

definition gc_callers :: "GroupCommit \<Rightarrow> nat multiset" where
  "gc_callers g = image_mset fqCaller (mset (gc_waiting g)) + image_mset (fqCaller \<circ> fst) (mset (gcDone g))"

definition gc_core :: "GroupCommit \<Rightarrow> bool" where
  "gc_core g \<longleftrightarrow>
     walSynced (gcWal g) \<le> length (walLog (gcWal g)) \<and>
     (\<forall>r\<in>set (gc_waiting g). fq_written g r) \<and>
     (\<forall>(r, e)\<in>set (gcDone g). e = None \<longrightarrow> fq_durable g r) \<and>
     gc_callers g = mset [0..<gcNext g]"

definition gc_flags :: "GroupCommit \<Rightarrow> bool" where
  "gc_flags g \<longleftrightarrow>
     (\<not> gcDraining g \<longrightarrow> length (gcPending g) < maxPending) \<and>
     (gcLoopDone g \<longrightarrow> gcDraining g \<and> gcPending g = []) \<and>
     (gcDraining g \<longrightarrow> walClosed (gcWal g))"

definition gc_inv :: "GroupCommit \<Rightarrow> bool" where
  "gc_inv g \<longleftrightarrow> gc_core g \<and> gc_flags g"

lemmas gc_core_simps = gc_core_def gc_waiting_def fq_written_def fq_durable_def

text \<open>What a step on the log object may do to what is already written and synced.\<close>

definition wal_le :: "WAL \<Rightarrow> WAL \<Rightarrow> bool" where
  "wal_le w w' \<longleftrightarrow> length (walLog w) \<le> length (walLog w') \<and> walSynced w \<le> walSynced w' \<and>
     (walClosed w \<longrightarrow> walClosed w') \<and> (walSynced w \<le> length (walLog w) \<longrightarrow> walSynced w' \<le> length (walLog w'))"

lemma wal_le_write: "wal_le w (snd (WAL_WriteEntryNoFlush io opc rid v m loc w))"
  by (auto simp: wal_le_def WAL_WriteEntryNoFlush_def WAL_writeEntryLocked_def split: sum.split write_io.split)

lemma wal_le_flush: "WAL_flushSync io w = (e, w') \<Longrightarrow> wal_le w w' \<or> length (walLog w) < walSynced w"
  by (auto simp: wal_le_def WAL_flushSync_def Let_def split: if_splits flush_io.splits)

lemma flush_covers: "WAL_flushSync io w = (None, w') \<Longrightarrow> walSynced w' = length (walLog w')"
  by (auto simp: WAL_flushSync_def Let_def split: if_splits flush_io.splits)

lemma flush_log: "WAL_flushSync io w = (e, w') \<Longrightarrow> walLog w' = walLog w \<and> walClosed w' = walClosed w"
  by (auto simp: WAL_flushSync_def Let_def split: if_splits flush_io.splits)

lemma wal_le_close: "walSynced w \<le> length (walLog w) \<Longrightarrow> wal_le w (snd (WAL_Close io w))"
  by (auto simp: wal_le_def WAL_Close_def Let_def split: flush_io.split)

lemma gc_core_wal:
  assumes "gc_core g" "wal_le (gcWal g) w"
  shows "gc_core (g\<lparr>gcWal := w\<rparr>)"
  using assms by (auto simp: gc_core_simps wal_le_def gc_callers_def)

lemma gc_core_flush:
  assumes inv: "gc_core g" and p: "gcPending g = reqs"
  shows "gc_core ((doGroupFlush io reqs g)\<lparr>gcPending := []\<rparr>)"
proof (cases "reqs = []")
  case True
  then have "(doGroupFlush io reqs g)\<lparr>gcPending := []\<rparr> = g" using p by (simp add: doGroupFlush_def)
  with inv show ?thesis by simp
next
  case False
  obtain e w where fl: "WAL_flushSync io (gcWal g) = (e, w)" by (cases "WAL_flushSync io (gcWal g)")
  have le: "wal_le (gcWal g) w" using wal_le_flush [OF fl] inv by (auto simp: gc_core_def)
  have g1: "gc_core (g\<lparr>gcWal := w\<rparr>)" by (rule gc_core_wal [OF inv le])
  have cov: "fq_durable (g\<lparr>gcWal := w\<rparr>) r" if "e = None" "r \<in> set reqs" for r
    using that flush_covers [of io "gcWal g" w] fl g1 p by (auto simp: gc_core_simps)
  have eq: "(doGroupFlush io reqs g)\<lparr>gcPending := []\<rparr> =
      g\<lparr>gcWal := w, gcDone := gcDone g @ map (\<lambda>r. (r, e)) reqs, gcPending := []\<rparr>"
    using False fl by (simp add: doGroupFlush_def)
  have "gc_callers (g\<lparr>gcWal := w, gcDone := gcDone g @ map (\<lambda>r. (r, e)) reqs, gcPending := []\<rparr>) = gc_callers g"
    using p by (simp add: gc_callers_def gc_waiting_def image_mset.compositionality comp_def ac_simps)
  moreover have "gc_callers (g\<lparr>gcWal := w\<rparr>) = gc_callers g" by (simp add: gc_callers_def gc_waiting_def)
  ultimately show ?thesis
    unfolding eq using g1 cov p by (auto simp: gc_core_simps)
qed

lemma gc_core_moved:
  assumes "gc_core g" "mset (gc_waiting g') = mset (gc_waiting g)" "gcDone g' = gcDone g" "gcWal g' = gcWal g"
    "gcEpoch g' = gcEpoch g" "gcNext g' = gcNext g"
  shows "gc_core g'"
proof -
  have "set (gc_waiting g') = set (gc_waiting g)" using assms(2) by (metis set_mset_mset)
  then show ?thesis
    using assms by (simp add: gc_core_def gc_callers_def fq_written_def fq_durable_def)
qed

lemma doGroupFlush_flags:
  "gcPending (doGroupFlush io reqs g) = gcPending g" "gcQueue (doGroupFlush io reqs g) = gcQueue g"
  "gcDraining (doGroupFlush io reqs g) = gcDraining g" "gcLoopDone (doGroupFlush io reqs g) = gcLoopDone g"
  "walClosed (gcWal (doGroupFlush io reqs g)) = walClosed (gcWal g)"
  by (auto simp: doGroupFlush_def split: prod.split dest: flush_log)

lemma gc_inv_recv:
  assumes inv: "gc_inv g" and q: "gcQueue g = r # q" and nd: "\<not> gcDraining g"
  shows "gc_inv (fsyncLoop_recv io r (g\<lparr>gcQueue := q\<rparr>))"
proof -
  let ?g = "g\<lparr>gcQueue := q, gcPending := gcPending g @ [r]\<rparr>"
  have core: "gc_core ?g"
    by (rule gc_core_moved [of g]) (use inv q in \<open>simp_all add: gc_inv_def gc_waiting_def\<close>)
  have fl: "gc_flags g" using inv by (simp add: gc_inv_def)
  show ?thesis
  proof (cases "maxPending \<le> length (gcPending g @ [r])")
    case True
    have "fsyncLoop_recv io r (g\<lparr>gcQueue := q\<rparr>) = (doGroupFlush io (gcPending g @ [r]) ?g)\<lparr>gcPending := []\<rparr>"
    proof -
      obtain e w where "WAL_flushSync io (gcWal g) = (e, w)" by (cases "WAL_flushSync io (gcWal g)")
      then show ?thesis using True by (simp add: fsyncLoop_recv_def doGroupFlush_def)
    qed
    then show ?thesis
      using gc_core_flush [OF core, of "gcPending g @ [r]" io] fl nd
      by (simp add: gc_inv_def gc_flags_def doGroupFlush_flags maxPending_def)
  next
    case False
    then show ?thesis using core fl nd by (simp add: gc_inv_def gc_flags_def fsyncLoop_recv_def)
  qed
qed

lemma gc_inv_call: "gc_inv g \<Longrightarrow> gc_inv (FlushAsync_call g)"
  by (auto simp: gc_inv_def gc_core_simps gc_flags_def FlushAsync_call_def Let_def gc_callers_def atLeast0_lessThan_Suc)

lemma gc_inv_replace:
  assumes "gc_inv g" "WAL_replaceFile True file (gcWal g) = (None, wal')"
  shows "gc_inv (g\<lparr>gcWal := wal', gcEpoch := gcEpoch g + 1\<rparr>)"
proof -
  have "walSynced wal' = length (walLog wal')" "walClosed wal' = walClosed (gcWal g)"
    using assms(2) by (auto simp: WAL_replaceFile_def split: if_splits)
  moreover have "fq_written (g\<lparr>gcWal := wal', gcEpoch := gcEpoch g + 1\<rparr>) r" if "fq_written g r" for r
    using that by (auto simp: fq_written_def)
  moreover have "fq_durable (g\<lparr>gcWal := wal', gcEpoch := gcEpoch g + 1\<rparr>) r" if "fq_durable g r" for r
    using that by (auto simp: fq_durable_def)
  ultimately show ?thesis
    using assms(1) by (fastforce simp: gc_inv_def gc_core_def gc_waiting_def gc_flags_def gc_callers_def)
qed

lemma gc_inv_reject:
  assumes "gc_inv g" "gcChecked g = xs @ r # ys"
  shows "gc_inv (g\<lparr>gcChecked := xs @ ys, gcDone := gcDone g @ [(r, Some WalClosed)]\<rparr>)" (is "gc_inv ?g")
proof -
  have "gc_callers ?g = gc_callers g" using assms(2) by (simp add: gc_callers_def gc_waiting_def)
  moreover have "\<forall>r. fq_written ?g r = fq_written g r" "\<forall>r. fq_durable ?g r = fq_durable g r"
    by (simp_all add: fq_written_def fq_durable_def)
  ultimately show ?thesis
    using assms by (simp add: gc_inv_def gc_core_def gc_waiting_def gc_flags_def)
qed

lemma gc_inv_step:
  assumes "gc_step g g'" "gc_inv g"
  shows "gc_inv g'"
  using assms
proof (induction rule: gc_step.induct)
  case (wr g io opc rid v m loc)
  let ?w = "snd (WAL_WriteEntryNoFlush io opc rid v m loc (gcWal g))"
  have "wal_le (gcWal g) ?w" by (rule wal_le_write)
  then show ?case
    using gc_core_wal [of g ?w] wr by (auto simp: gc_inv_def gc_flags_def wal_le_def)
next
  case (send g xs r ys)
  have "gc_core (g\<lparr>gcChecked := xs @ ys, gcQueue := gcQueue g @ [r]\<rparr>)"
    by (rule gc_core_moved [of g]) (use send in \<open>simp_all add: gc_inv_def gc_waiting_def\<close>)
  then show ?case using send by (simp add: gc_inv_def gc_flags_def)
next
  case (timer g io)
  then show ?case
    using gc_core_flush [of g "gcPending g" io]
    by (auto simp: fsyncLoop_timer_def gc_inv_def gc_flags_def doGroupFlush_flags maxPending_def)
next
  case (close g)
  then show ?case
    using gc_core_wal [of g "(gcWal g)\<lparr>walClosed := True\<rparr>"] by (auto simp: gc_inv_def gc_flags_def wal_le_def)
next
  case (drain g)
  then show ?case
    using gc_core_moved [of g "g\<lparr>gcDraining := True\<rparr>"] by (auto simp: gc_inv_def gc_flags_def gc_waiting_def)
next
  case (drain_recv g r q)
  have "gc_core (g\<lparr>gcQueue := q, gcPending := gcPending g @ [r]\<rparr>)"
    by (rule gc_core_moved [of g]) (use drain_recv in \<open>simp_all add: gc_inv_def gc_waiting_def\<close>)
  then show ?case using drain_recv by (simp add: gc_inv_def gc_flags_def)
next
  case (exit g io)
  have "gc_core ((doGroupFlush io (gcPending g) g)\<lparr>gcPending := []\<rparr>)"
    using exit by (intro gc_core_flush) (simp_all add: gc_inv_def)
  then have "gc_core (fsyncLoop_exit io g)"
    by (rule gc_core_moved) (simp_all add: fsyncLoop_exit_def gc_waiting_def)
  then show ?case using exit by (simp add: gc_inv_def gc_flags_def fsyncLoop_exit_def doGroupFlush_flags)
next
  case (close_file g io)
  let ?w = "snd (WAL_Close io (gcWal g))"
  have "wal_le (gcWal g) ?w" using close_file by (intro wal_le_close) (simp add: gc_inv_def gc_core_def)
  then show ?case
    using gc_core_wal [of g ?w] close_file by (auto simp: gc_inv_def gc_flags_def wal_le_def)
qed (blast intro: gc_inv_call gc_inv_recv gc_inv_replace gc_inv_reject)+

lemma gc_inv_init: "walSynced wal \<le> length (walLog wal) \<Longrightarrow> gc_inv (gc_init wal)"
  by (simp add: gc_inv_def gc_core_simps gc_flags_def gc_callers_def gc_init_def maxPending_def)

lemma gc_inv_steps: "gc_steps g g' \<Longrightarrow> gc_inv g \<Longrightarrow> gc_inv g'"
  unfolding gc_steps_def by (induction rule: rtranclp_induct) (auto intro: gc_inv_step)

section \<open>Guarantees\<close>

lemma gc_acked_durable:
  assumes "walSynced wal \<le> length (walLog wal)" "gc_steps (gc_init wal) g" "(r, None) \<in> set (gcDone g)"
  shows "fq_durable g r"
  using gc_inv_steps [OF assms(2) gc_inv_init [OF assms(1)]] assms(3) by (auto simp: gc_inv_def gc_core_def)

text \<open>A caller is answered at most once, and no two callers share an answer.\<close>

lemma gc_answered_once:
  assumes "walSynced wal \<le> length (walLog wal)" "gc_steps (gc_init wal) g"
  shows "distinct (map fqCaller (gc_waiting g @ map fst (gcDone g)))"
    "set (map fqCaller (gc_waiting g @ map fst (gcDone g))) = {0..<gcNext g}"
proof -
  have "gc_callers g = mset [0..<gcNext g]"
    using gc_inv_steps [OF assms(2) gc_inv_init [OF assms(1)]] by (simp add: gc_inv_def gc_core_def)
  then have m: "mset (map fqCaller (gc_waiting g @ map fst (gcDone g))) = mset [0..<gcNext g]"
    by (simp add: gc_callers_def comp_def image_mset.compositionality)
  show "distinct (map fqCaller (gc_waiting g @ map fst (gcDone g)))"
    using m mset_eq_imp_distinct_iff distinct_upt by blast
  show "set (map fqCaller (gc_waiting g @ map fst (gcDone g))) = {0..<gcNext g}"
    using mset_eq_setD [OF m] by simp
qed

text \<open>Once the loop has exited nothing receives from the channel.\<close>

lemma gc_stuck_step:
  assumes "gc_step g g'" "gc_inv g" "gcLoopDone g" "r \<in> set (gcQueue g)"
  shows "gcLoopDone g' \<and> r \<in> set (gcQueue g')"
proof -
  have "gcDraining g" using assms(2,3) by (simp add: gc_inv_def gc_flags_def)
  with assms(1,3,4) show ?thesis
    by (elim gc_stepE) (auto simp: FlushAsync_call_def Let_def)
qed

lemma gc_stuck_steps:
  assumes "gc_steps g g'" "gc_inv g" "gcLoopDone g" "r \<in> set (gcQueue g)"
  shows "gcLoopDone g' \<and> r \<in> set (gcQueue g')"
proof -
  have "gcLoopDone g' \<and> r \<in> set (gcQueue g') \<and> gc_inv g'"
    using assms unfolding gc_steps_def
    by (induction rule: rtranclp_induct) (auto dest: gc_stuck_step intro: gc_inv_step)
  then show ?thesis by simp
qed

lemma gc_queued_unanswered:
  assumes "gc_inv g" "r \<in> set (gcQueue g)"
  shows "(r, e) \<notin> set (gcDone g)"
proof
  assume "(r, e) \<in> set (gcDone g)"
  then have "fqCaller r \<in> set (map fqCaller (map fst (gcDone g)))" by force
  moreover have "fqCaller r \<in> set (map fqCaller (gc_waiting g))" using assms(2) by (simp add: gc_waiting_def)
  moreover have "mset (map fqCaller (gc_waiting g) @ map fqCaller (map fst (gcDone g))) = mset [0..<gcNext g]"
    using assms(1) by (simp add: gc_inv_def gc_core_def gc_callers_def comp_def image_mset.compositionality)
  then have "distinct (map fqCaller (gc_waiting g) @ map fqCaller (map fst (gcDone g)))"
    using mset_eq_imp_distinct_iff distinct_upt by blast
  ultimately show False by auto
qed

text \<open>The run that loses a caller: it passes the test of the closed flag, the loop exits, then it sends.\<close>

definition gc_lost_request :: flushRequest where
  "gc_lost_request = \<lparr>fqCaller = 0, fqEpoch = 0, fqMark = 0\<rparr>"

definition gc_lost :: GroupCommit where
  "gc_lost = (gc_init (OpenWal [] 0))\<lparr>gcWal := (OpenWal [] 0)\<lparr>walClosed := True\<rparr>,
     gcQueue := [gc_lost_request], gcNext := 1, gcDraining := True, gcLoopDone := True\<rparr>"

lemma gc_lost_reached: "gc_steps (gc_init (OpenWal [] 0)) gc_lost"
proof -
  let ?w = "OpenWal [] 0"
  let ?c = "?w\<lparr>walClosed := True\<rparr>"
  let ?g1 = "(gc_init ?w)\<lparr>gcChecked := [gc_lost_request], gcNext := 1\<rparr>"
  let ?g2 = "?g1\<lparr>gcWal := ?c\<rparr>" and ?g3 = "?g1\<lparr>gcWal := ?c, gcDraining := True\<rparr>"
  let ?g4 = "?g1\<lparr>gcWal := ?c, gcDraining := True, gcLoopDone := True\<rparr>"
  have "gc_step (gc_init ?w) ?g1"
    using gc_step.call [of "gc_init ?w"]
    by (simp add: FlushAsync_call_def gc_init_def OpenWal_def gc_lost_request_def)
  moreover have "gc_step ?g1 ?g2" using gc_step.close [of ?g1] by (simp add: gc_init_def)
  moreover have "gc_step ?g2 ?g3" using gc_step.drain [of ?g2] by (simp add: gc_init_def)
  moreover have "gc_step ?g3 ?g4"
    using gc_step.exit [of ?g3 FlushOk] by (simp add: gc_init_def fsyncLoop_exit_def doGroupFlush_def)
  moreover have "gc_step ?g4 gc_lost"
    using gc_step.send [of ?g4 "[]" gc_lost_request "[]"] by (simp add: gc_init_def gc_lost_def flushChCap_def)
  ultimately show ?thesis
    unfolding gc_steps_def by (meson converse_rtranclp_into_rtranclp rtranclp.rtrancl_refl)
qed

end
