(* ===== verification/Demo.thy ===== *)
theory Demo
  imports Levara_Api Group_Commit
begin

text \<open>
  A small engine at which the properties are applied: dimension 1, an empty log, then one
  record \<open>a\<close> with the vector \<open>1.0\<close> and the metadata \<open>{}\<close>, waiting for the indexer.
\<close>

definition demo_db0 :: Levara where
  "demo_db0 = empty_db 1 DefaultHNSWConfig (OpenWal [] 0) []"

definition demo_vec :: vec where
  "demo_vec = [0x3F800000]"

definition demo_insert :: "Levara \<Rightarrow> lv_error option \<times> Levara" where
  "demo_insert db = Insert (\<lambda>_ :: unit insert_data. None) DiskOk WriteOk FlushOk db ''a'' demo_vec (DRaw ''{}'')"

definition demo_db1 :: Levara where
  "demo_db1 = snd (demo_insert demo_db0)"

lemma demo_normalize [simp]: "arena_normalize demo_vec = demo_vec"
  unfolding demo_vec_def by code_simp

lemma demo_finite: "\<forall>x\<in>set demo_vec. f32_finite x"
  unfolding demo_vec_def by code_simp

lemma demo_db0_inv: "lv_inv None [] demo_db0"
proof -
  have "lv_mem None demo_db0" unfolding demo_db0_def by (rule empty_db_mem) simp_all
  moreover have "wal_inv (dbDim demo_db0) [] (dbWal demo_db0)"
    using wal_inv_OpenWal [of "[]" 1 0] by (simp add: demo_db0_def empty_db_def wal_log_def)
  moreover have "lv_logged demo_db0 []" by (simp add: lv_logged_def lv_abs_def demo_db0_def empty_db_def)
  ultimately show ?thesis by (simp add: lv_inv_def)
qed

lemma demo_db0_fields:
  "\<not> walErr (dbWal demo_db0)" "\<not> walClosed (dbWal demo_db0)" "\<not> walFileClosed (dbWal demo_db0)" "walPrev (dbWal demo_db0) = []"
  "dbDim demo_db0 = 1" "lv_abs demo_db0 = Map.empty" "lv_space demo_db0" "dbPending demo_db0 = []" "dbIndex demo_db0 = Map.empty"
  "dbHnsw demo_db0 = NewHNSWIndex DefaultHNSWConfig"
  by (simp_all add: demo_db0_def empty_db_def OpenWal_def lv_abs_def lv_space_def NewVectorArena_def DiskStore_Truncate_def mib_def)

lemma demo_check: "dbDim db = 1 \<Longrightarrow> Insert_check db ''a'' demo_vec ''{}'' = None"
  using demo_finite
  by (simp add: Insert_check_def validateWALRecord_def demo_vec_def OpInsert_def OpDelete_def mib_def noLocation_def f32_finite_def)

lemma demo_insert_ok: "demo_insert demo_db0 = (None, demo_db1)"
proof -
  have "\<exists>db'. demo_insert demo_db0 = (None, db')"
    unfolding demo_insert_def
    using demo_db0_fields demo_check [of demo_db0] demo_finite
    by (intro Insert_succeeds [OF demo_db0_inv, of _ _ "''{}''"]) (simp_all add: insert_bytes_def)
  then show ?thesis by (auto simp: demo_db1_def)
qed

lemma demo_db1_inv: "\<exists>rec. lv_inv None [rec] demo_db1"
  and demo_db1_wal: "walSynced (dbWal demo_db1) = length (walLog (dbWal demo_db1))" "walPrev (dbWal demo_db1) = []"
  and demo_db1_dim: "dbDim demo_db1 = 1"
  using Insert_ack [OF demo_db0_inv demo_db0_fields(7,4) demo_insert_ok [unfolded demo_insert_def]] demo_db0_fields(5) by simp_all

lemma demo_db1_abs: "lv_abs demo_db1 = [''a'' \<mapsto> (demo_vec, ''{}'')]"
  using Insert_refines(2) [OF demo_db0_inv demo_db0_fields(7) _ demo_insert_ok [unfolded demo_insert_def]] demo_db0_fields(6)
  by (simp add: insert_bytes_def)

lemma demo_db1_pending: "dbPending demo_db1 = [\<lparr>piVector = demo_vec, piID = ''a'', piIdx = 0\<rparr>]"
  "dbHnsw demo_db1 = NewHNSWIndex DefaultHNSWConfig" "arTotalVectors (dbArena demo_db1) = 1"
proof -
  from demo_insert_ok [unfolded demo_insert_def] have "dbPending demo_db1 = [\<lparr>piVector = demo_vec, piID = ''a'', piIdx = 0\<rparr>] \<and>
    dbHnsw demo_db1 = NewHNSWIndex DefaultHNSWConfig \<and> arTotalVectors (dbArena demo_db1) = 1"
  proof (cases rule: Insert_cases)
    case (flushed b loc ds' db1 f)
    have a: "arTotalVectors (dbArena demo_db0) = 0" "arena_inv (dbArena demo_db0)"
      using demo_db0_inv by (simp_all add: demo_db0_def empty_db_def NewVectorArena_def lv_inv_def lv_mem_def lv_static_def)
    obtain idx v' a' where add: "VectorArena_Add (dbArena demo_db0) demo_vec = Inr (idx, v', a')"
      using flushed(4) by (auto simp: Insert_locked_def split: sum.splits)
    note r = VectorArena_Add_refines [OF a(2) _ add]
    have "dbPending db1 = [\<lparr>piVector = demo_vec, piID = ''a'', piIdx = 0\<rparr>] \<and> dbHnsw db1 = dbHnsw demo_db0 \<and> arTotalVectors (dbArena db1) = 1"
      using flushed(4) add r a(1) demo_db0_fields(8,9) length_arena_vecs [of a'] length_arena_vecs [of "dbArena demo_db0"]
      by (auto simp: Insert_locked_def Let_def store_maps_def replaceExistingLocked_def split: prod.splits option.splits)
    moreover obtain w where w: "demo_db1 = db1\<lparr>dbWal := w\<rparr>" using FlushAsync_frame [OF flushed(5)] .
    ultimately show ?thesis using demo_db0_fields(10) unfolding w by simp
  qed auto
  then show "dbPending demo_db1 = [\<lparr>piVector = demo_vec, piID = ''a'', piIdx = 0\<rparr>]"
    "dbHnsw demo_db1 = NewHNSWIndex DefaultHNSWConfig" "arTotalVectors (dbArena demo_db1) = 1" by blast+
qed

lemma demo_db1_open: "\<not> walErr (dbWal demo_db1)" "\<not> walClosed (dbWal demo_db1)" "\<not> walFileClosed (dbWal demo_db1)"
proof -
  from demo_insert_ok [unfolded demo_insert_def]
  have "\<not> walErr (dbWal demo_db1) \<and> \<not> walClosed (dbWal demo_db1) \<and> \<not> walFileClosed (dbWal demo_db1)"
  proof (cases rule: Insert_cases)
    case (flushed b loc ds' db1 f)
    have "\<not> walErr (dbWal db1) \<and> \<not> walClosed (dbWal db1) \<and> \<not> walFileClosed (dbWal db1)"
      using flushed(4) demo_db0_fields(1-3)
      by (auto simp: Insert_locked_def Let_def WAL_WriteEntryNoFlush_def WAL_writeEntryLocked_def store_maps_def
          replaceExistingLocked_def removePendingByID_def split: sum.splits prod.splits option.splits if_splits)
    moreover have "dbWal demo_db1 = snd (WAL_flushSync FlushOk (dbWal db1))"
      using FlushAsync_wal [OF flushed(5)] calculation by blast
    ultimately show ?thesis by (auto simp: WAL_flushSync_def Let_def split: if_splits)
  qed auto
  then show "\<not> walErr (dbWal demo_db1)" "\<not> walClosed (dbWal demo_db1)" "\<not> walFileClosed (dbWal demo_db1)" by blast+
qed

lemma demo_delete_ok: "\<exists>db2. Delete WriteOk FlushOk demo_db1 ''a'' = (None, db2)"
proof -
  obtain rec where "lv_inv None [rec] demo_db1" using demo_db1_inv by blast
  then show ?thesis by (rule Delete_succeeds) (simp_all add: demo_db1_abs demo_db1_open mib_def)
qed

text \<open>The record after the indexer published and unlinked it.\<close>

definition demo_item :: pendingItem where
  "demo_item = \<lparr>piVector = demo_vec, piID = ''a'', piIdx = 0\<rparr>"

definition demo_indexed :: LvState where
  "demo_indexed = \<lparr>lsDb = indexer_unlink demo_item (indexer_add distScalar 0 demo_item demo_db1), lsFlight = [], lsIx = IxIdle\<rparr>"

lemma demo_indexed_run: "lv_run (ls_start demo_db1) demo_indexed"
proof -
  let ?s0 = "ls_start demo_db1"
  let ?s1 = "?s0\<lparr>lsIx := IxTaken demo_item True\<rparr>"
  let ?s2 = "?s1\<lparr>lsDb := indexer_add distScalar 0 demo_item demo_db1, lsIx := IxPublished demo_item True\<rparr>"
  have "lv_step ?s0 ?s1"
    by (rule take_item) (simp_all add: ls_start_def indexer_take_def demo_db1_pending demo_item_def)
  moreover have "lv_step ?s1 ?s2" using publish [of ?s1 demo_item True distScalar 0] by (simp add: ls_start_def)
  moreover have "lv_step ?s2 demo_indexed" using unlink [of ?s2 demo_item True] by (simp add: ls_start_def demo_indexed_def)
  ultimately show ?thesis unfolding lv_run_def by (meson converse_rtranclp_into_rtranclp rtranclp.rtrancl_refl)
qed

definition demo_dot :: dot_fn where
  "demo_dot = (\<lambda>_ _. f32_one)"

lemma demo_indexed_wal: "dbWal (lsDb demo_indexed) = dbWal demo_db1"
  by (simp add: demo_indexed_def indexer_unlink_def indexer_add_def)

lemma demo_db1_short: "length (walLog (dbWal demo_db1)) < 2 ^ 36"
proof -
  obtain rec where rec: "lv_inv None [rec] demo_db1" using demo_db1_inv by blast
  then have w: "wal_holds 1 [rec] (walLog (dbWal demo_db1)) False"
    using demo_db1_open(1) demo_db1_dim by (simp add: lv_inv_def wal_inv_def)
  then have fits: "wal_fits 1 rec" and log: "walLog (dbWal demo_db1) = frame_of rec"
    by (simp_all add: wal_holds_noerr wal_log_def)
  from fits have "length (wID rec) \<le> mib" "length (wMeta rec) \<le> mib" "length (wVec rec) \<le> 65536"
    by (auto simp: wal_fits_def wal_valid_def validateWALRecord_def OpInsert_def OpDelete_def split: if_splits)
  then show ?thesis by (simp add: log length_frame_of length_body_of mib_def)
qed

lemma demo_pool: "\<forall>r\<in>search_pool demo_dot demo_db1 demo_vec k. \<not> f32_isNaN (vrScore r)"
proof -
  have "HNSW_Search demo_dot g (NewHNSWIndex DefaultHNSWConfig) q k = []" for g q
    by (simp add: HNSW_Search_def NewHNSWIndex_def)
  moreover have "\<not> f32_isNaN (f32_sub f32_one (f32_sub f32_one f32_one))" by code_simp
  ultimately show ?thesis
    by (auto simp: search_pool_def demo_db1_pending pending_record_def dist_def demo_dot_def)
qed

lemma demo_search: "\<exists>r. Search demo_dot demo_db1 demo_vec 3 = [r]"
proof -
  have "HNSW_Search demo_dot g (NewHNSWIndex DefaultHNSWConfig) q k = []" for g q k
    by (simp add: HNSW_Search_def NewHNSWIndex_def)
  then show ?thesis
    by (simp add: Search_def demo_db1_dim demo_vec_def Search_rank_def demo_db1_pending offer_def sortSlice_def)
qed

definition demo_pio :: publish_io where
  "demo_pio = \<lparr>pioCreate = True, pioFlush = True, pioSync = True, pioRename = True, pioDir = True, pioStat = True\<rparr>"

lemma demo_order: "map_order (dbIndex demo_db1) [''a'']"
proof -
  have "dom (dbIndex demo_db1) = dom (lv_abs demo_db1)" by (auto simp: lv_abs_def split: option.splits)
  then show ?thesis by (simp add: map_order_def demo_db1_abs)
qed

definition demo_items :: "unit BatchItem list" where
  "demo_items = [\<lparr>bID = ''b'', bVector = demo_vec, bData = ()\<rparr>]"

section \<open>A graph of two nodes\<close>

definition demo_dot1 :: dot_fn where
  "demo_dot1 v w = (case v of [] \<Rightarrow> 0 | x # _ \<Rightarrow> (case w of [] \<Rightarrow> 0 | y # _ \<Rightarrow> f32_mul x y))"

definition demo_arena :: vec_fn where
  "demo_arena i = (if i = 0 then Some [0x3F800000] else if i = 1 then Some [0xBF800000] else None)"

definition demo_one_node :: HNSWIndex where
  "demo_one_node = HNSW_Add demo_dot1 demo_arena 0 (NewHNSWIndex DefaultHNSWConfig) [0x3F800000] ''a'' 0"

definition demo_graph :: HNSWIndex where
  "demo_graph = HNSW_Add demo_dot1 demo_arena 0 demo_one_node [0xBF800000] ''b'' 1"

lemma demo_vec_ok: "vec_ok 2 demo_arena"
  by (auto simp: vec_ok_def demo_arena_def)

lemma demo_one_node_inv: "hnsw_inv 2 demo_one_node"
  unfolding demo_one_node_def
  by (rule HNSW_Add_inv [OF hnsw_inv_new demo_vec_ok]) (simp_all add: nodeByOffset_def NewHNSWIndex_def)

lemma demo_offset_free: "nodeByOffset demo_one_node 1 = None"
  by code_simp

lemma demo_graph_inv: "hnsw_inv 2 demo_graph"
  unfolding demo_graph_def
  by (rule HNSW_Add_inv [OF demo_one_node_inv demo_vec_ok demo_offset_free]) simp_all

lemma demo_graph_objs: "length (hObjs demo_graph) = 2"
  by code_simp

lemma demo_graph_numeric: "numeric demo_dot1 demo_arena demo_graph [0x3F800000] {..<2}"
proof -
  have "\<not> f32_isNaN (dist demo_dot1 [0x3F800000] [0x3F800000])" "\<not> f32_isNaN (dist demo_dot1 [0x3F800000] [0xBF800000])" by code_simp+
  then show ?thesis by (auto simp: numeric_def demo_arena_def)
qed

section \<open>A flushed request\<close>

definition demo_request :: flushRequest where
  "demo_request = \<lparr>fqCaller = 0, fqEpoch = 0, fqMark = 0\<rparr>"

definition demo_flushed :: GroupCommit where
  "demo_flushed = (gc_init (OpenWal [] 0))\<lparr>gcWal := (OpenWal [] 0)\<lparr>walSyncCount := 1\<rparr>, gcDone := [(demo_request, None)], gcNext := 1\<rparr>"

lemma demo_flushed_run: "gc_steps (gc_init (OpenWal [] 0)) demo_flushed"
proof -
  let ?g0 = "gc_init (OpenWal [] 0)"
  let ?g1 = "?g0\<lparr>gcChecked := [demo_request], gcNext := 1\<rparr>"
  let ?g2 = "?g0\<lparr>gcQueue := [demo_request], gcNext := 1\<rparr>"
  let ?g3 = "?g0\<lparr>gcPending := [demo_request], gcNext := 1\<rparr>"
  have "gc_step ?g0 ?g1"
    using gc_step.call [of ?g0] by (simp add: FlushAsync_call_def gc_init_def OpenWal_def demo_request_def)
  moreover have "gc_step ?g1 ?g2"
    using gc_step.send [of ?g1 "[]" demo_request "[]"] by (simp add: gc_init_def flushChCap_def)
  moreover have "gc_step ?g2 ?g3"
    using gc_step.recv [of ?g2 demo_request "[]" FlushOk] by (simp add: gc_init_def fsyncLoop_recv_def maxPending_def)
  moreover have "gc_step ?g3 demo_flushed"
    using gc_step.timer [of ?g3 FlushOk]
    by (simp add: gc_init_def fsyncLoop_timer_def doGroupFlush_def WAL_flushSync_def OpenWal_def demo_flushed_def)
  ultimately show ?thesis
    unfolding gc_steps_def by (meson converse_rtranclp_into_rtranclp rtranclp.rtrancl_refl)
qed

end
