(* ===== verification/Levara_Stale.thy ===== *)
theory Levara_Stale
  imports Levara_Restore Demo
begin

text \<open>
  The engine's steps with \<open>RestoreSnapshot\<close>. It replaces arena, graph and queue while the
  indexer may hold an item it captured before: the item is then stale, its publication goes
  to the old graph, and its unlinking looks for the same id and slot in the new queue.
\<close>

fun make_stale :: "indexer_phase \<Rightarrow> indexer_phase" where
  "make_stale IxIdle = IxIdle"
| "make_stale (IxTaken p _) = IxTaken p False"
| "make_stale (IxPublished p _) = IxPublished p False"

inductive lv_rstep :: "LvState \<Rightarrow> LvState \<Rightarrow> bool" where
  base: "lv_step s s' \<Longrightarrow> lv_rstep s s'"
| restore: "RestoreSnapshot dot levels dio pio (lsDb s) records = (r, db') \<Longrightarrow>
    lv_rstep s (s\<lparr>lsDb := db', lsIx := if published r then make_stale (lsIx s) else lsIx s\<rparr>)"

definition lv_rrun :: "LvState \<Rightarrow> LvState \<Rightarrow> bool" where
  "lv_rrun = lv_rstep\<^sup>*\<^sup>*"

text \<open>The first insert into an empty engine takes slot 0 and waits for the indexer.\<close>

lemma first_insert:
  assumes inv: "lv_inv None recs db" and e: "arTotalVectors (dbArena db) = 0" "dbIndex db = Map.empty" "dbPending db = []"
    and ins: "Insert_locked wio i v b loc db = (None, db')"
  shows "dbPending db' = [\<lparr>piVector = arena_normalize v, piID = i, piIdx = 0\<rparr>]" "dbHnsw db' = dbHnsw db" "dbIndex db' = [i \<mapsto> 0]"
proof -
  have a: "arena_inv (dbArena db)" using inv by (simp add: lv_inv_def lv_mem_def lv_static_def)
  obtain idx v' a' where add: "VectorArena_Add (dbArena db) v = Inr (idx, v', a')"
    using ins by (auto simp: Insert_locked_def split: sum.splits)
  note r = VectorArena_Add_refines [OF a _ add]
  have "dbPending db' = [\<lparr>piVector = arena_normalize v, piID = i, piIdx = 0\<rparr>] \<and> dbHnsw db' = dbHnsw db \<and> dbIndex db' = [i \<mapsto> 0]"
    using ins add r(1,2) e
    by (auto simp: Insert_locked_def Let_def store_maps_def replaceExistingLocked_def split: prod.splits option.splits)
  then show "dbPending db' = [\<lparr>piVector = arena_normalize v, piID = i, piIdx = 0\<rparr>]" "dbHnsw db' = dbHnsw db" "dbIndex db' = [i \<mapsto> 0]"
    by blast+
qed

text \<open>The empty snapshot restored over the record that the indexer has captured.\<close>

definition demo_restored :: Levara where
  "demo_restored = snd (RestoreSnapshot demo_dot (\<lambda>_. 0) (\<lambda>_. DiskOk) demo_pio demo_db1 [])"

lemma demo_restore_eq:
  "RestoreSnapshot demo_dot (\<lambda>_. 0) (\<lambda>_. DiskOk) demo_pio demo_db1 [] = (None, demo_restored)"
  by (simp add: demo_restored_def RestoreSnapshot_def demo_pio_def WAL_replaceFile_def demo_db1_open Let_def)

lemma demo_restored_fields:
  "arTotalVectors (dbArena demo_restored) = 0" "dbIndex demo_restored = Map.empty" "dbPending demo_restored = []"
  "dbHnsw demo_restored = NewHNSWIndex (dbHnswCfg demo_db1)" "dbDim demo_restored = 1" "dbDisk demo_restored = dbDisk demo_db1"
  "\<not> walErr (dbWal demo_restored)" "\<not> walClosed (dbWal demo_restored)" "\<not> walFileClosed (dbWal demo_restored)"
  using demo_db1_open demo_db1_dim
  by (simp_all add: demo_restored_def RestoreSnapshot_def demo_pio_def WAL_replaceFile_def WAL_dirSync_def fresh_state_def
      NewVectorArena_def Let_def)

lemma demo_disk_pos: "dsPos (dbDisk demo_db1) = 2"
proof -
  from demo_insert_ok [unfolded demo_insert_def] show ?thesis
  proof (cases rule: Insert_cases)
    case (flushed b loc ds' db1 f)
    have b: "b = ''{}''" using flushed(1) by (simp add: insert_bytes_def)
    have "dsPos ds' = 2" using flushed(3) by (auto simp: b DiskStore_Write_def Let_def demo_db0_def empty_db_def DiskStore_Truncate_def)
    moreover have "dbDisk db1 = ds'"
      using flushed(4) by (auto simp: Insert_locked_def lv_put_def [symmetric] lv_put_frame Let_def split: sum.splits prod.splits option.splits)
    moreover obtain w where w: "demo_db1 = db1\<lparr>dbWal := w\<rparr>" using FlushAsync_frame [OF flushed(5)] .
    ultimately show ?thesis unfolding w by simp
  qed auto
qed

lemma demo_restored_inv: "lv_inv None [] demo_restored"
proof -
  obtain rec where "lv_inv None [rec] demo_db1" using demo_db1_inv by blast
  from RestoreSnapshot_refines(1) [OF this _ _ _ demo_restore_eq] show ?thesis
    by (simp add: published_def demo_disk_pos)
qed

text \<open>
  The record is inserted again, acknowledged, and unlinked by the stale item: it is stored and
  durable, but neither the graph nor the queue has it.
\<close>

lemma stale_unlink:
  "\<exists>db2 db3. Insert (\<lambda>_ :: unit insert_data. None) DiskOk WriteOk FlushOk db2 ''a'' demo_vec (DRaw ''{}'') = (None, db3) \<and>
     db2 = demo_restored \<and>
     lv_rrun (ls_start demo_db1) \<lparr>lsDb = indexer_unlink demo_item db3, lsFlight = [], lsIx = IxIdle\<rparr> \<and>
     lv_abs (indexer_unlink demo_item db3) ''a'' = Some (demo_vec, ''{}'') \<and> dbPending (indexer_unlink demo_item db3) = [] \<and>
     dbHnsw (indexer_unlink demo_item db3) = NewHNSWIndex (dbHnswCfg demo_db1)"
proof -
  have fin: "\<forall>x\<in>set (arena_normalize demo_vec). f32_finite x" using demo_finite by simp
  have "\<exists>db3. Insert (\<lambda>_ :: unit insert_data. None) DiskOk WriteOk FlushOk demo_restored ''a'' demo_vec (DRaw ''{}'') = (None, db3)"
    by (rule Insert_succeeds [OF demo_restored_inv _ demo_check fin])
      (simp_all add: demo_restored_fields insert_bytes_def)
  then obtain db3 where ins: "Insert (\<lambda>_ :: unit insert_data. None) DiskOk WriteOk FlushOk demo_restored ''a'' demo_vec (DRaw ''{}'') = (None, db3)" ..
  from ins show ?thesis
  proof (cases rule: Insert_cases)
    case (flushed b loc ds' db1 f)
    have b: "b = ''{}''" using flushed(1) by (simp add: insert_bytes_def)
    have sp: "lv_space demo_restored" by (simp add: lv_space_def demo_restored_fields demo_disk_pos mib_def)
    note m = Insert_meta [OF demo_restored_inv sp flushed(2,3)]
    note fi = first_insert [OF m(1) _ _ _ flushed(4)]
    have db1: "dbPending db1 = [demo_item]" "dbHnsw db1 = NewHNSWIndex (dbHnswCfg demo_db1)"
      using fi demo_restored_fields by (simp_all add: demo_item_def)
    obtain w where w: "db3 = db1\<lparr>dbWal := w\<rparr>" using FlushAsync_frame [OF flushed(5)] .
    have abs: "lv_abs db3 ''a'' = Some (demo_vec, ''{}'')"
      using Insert_refines(2) [OF demo_restored_inv sp _ ins] by (auto simp: insert_bytes_def)
    let ?s0 = "ls_start demo_db1"
    let ?s1 = "?s0\<lparr>lsIx := IxTaken demo_item True\<rparr>"
    let ?s2 = "\<lparr>lsDb = demo_restored, lsFlight = [], lsIx = IxTaken demo_item False\<rparr>"
    let ?s3 = "\<lparr>lsDb = demo_restored\<lparr>dbDisk := ds'\<rparr>, lsFlight = [(''a'', demo_vec, b, loc)], lsIx = IxTaken demo_item False\<rparr>"
    let ?s4 = "\<lparr>lsDb = db1, lsFlight = [], lsIx = IxTaken demo_item False\<rparr>"
    let ?s5 = "\<lparr>lsDb = db3, lsFlight = [], lsIx = IxTaken demo_item False\<rparr>"
    let ?s6 = "\<lparr>lsDb = db3, lsFlight = [], lsIx = IxPublished demo_item False\<rparr>"
    let ?s7 = "\<lparr>lsDb = indexer_unlink demo_item db3, lsFlight = [], lsIx = IxIdle\<rparr>"
    have "lv_rstep ?s0 ?s1"
      by (intro lv_rstep.base take_item) (simp_all add: ls_start_def indexer_take_def demo_db1_pending demo_item_def)
    moreover have "lv_rstep ?s1 ?s2"
      using lv_rstep.restore [of demo_dot "\<lambda>_. 0" "\<lambda>_. DiskOk" demo_pio ?s1 "[]" None demo_restored] demo_restore_eq
      by (simp add: ls_start_def published_def)
    moreover have "lv_rstep ?s2 ?s3"
      using lv_rstep.base [OF meta_ok [of ?s2 "''a''" demo_vec b DiskOk loc ds']] flushed(2,3) demo_restored_fields(6) demo_disk_pos by simp
    moreover have "lv_rstep ?s3 ?s4"
    proof -
      have "dsPos ds' < 2 ^ 63" using m(3) by (simp add: lv_room_def)
      then show ?thesis
        using lv_rstep.base [OF commit [of ?s3 "[]" "''a''" demo_vec b loc "[]" WriteOk None db1]] flushed(4) demo_restored_fields(1) by simp
    qed
    moreover have "lv_rstep ?s4 ?s5" using lv_rstep.base [OF flush [of FlushOk ?s4 f db3]] flushed(5) by simp
    moreover have "lv_rstep ?s5 ?s6" using lv_rstep.base [OF publish [of ?s5 demo_item False]] by simp
    moreover have "lv_rstep ?s6 ?s7" using lv_rstep.base [OF unlink [of ?s6 demo_item False]] by simp
    ultimately have "lv_rrun ?s0 ?s7"
      unfolding lv_rrun_def by (meson converse_rtranclp_into_rtranclp rtranclp.rtrancl_refl)
    moreover have "lv_abs (indexer_unlink demo_item db3) = lv_abs db3" by (simp add: indexer_unlink_def)
    moreover have "dbPending (indexer_unlink demo_item db3) = []" "dbHnsw (indexer_unlink demo_item db3) = NewHNSWIndex (dbHnswCfg demo_db1)"
      using db1 unfolding w by (simp_all add: indexer_unlink_def)
    ultimately show ?thesis using ins abs by (intro exI [of _ demo_restored] exI [of _ db3]) simp
  qed auto
qed

lemma empty_graph_invisible:
  assumes "dbPending db = []" "dbHnsw db = NewHNSWIndex cfg"
  shows "\<not> visible db i" "Search dot db query topK = []"
  using assms by (simp_all add: visible_def NewHNSWIndex_def Search_def Search_rank_def HNSW_Search_def Let_def)

end
