(* ===== verification/Shard.thy ===== *)
theory Shard
  imports Levara_Batch
begin

text \<open>
  \<open>internal/store/shard.go\<close>: the sharded cluster. A shard is any implementation of the
  interface \<open>ShardHandler\<close>, so the state of a shard is a type parameter and its methods are
  arguments of the cluster's operations; a method also takes the position of the shard, because
  the system calls of every shard have outcomes of their own. The locale \<open>shard_handler\<close> is the
  contract of the interface, the cluster's lemmas are proved in it once, and it is
  interpreted on the storage engine.

  A reference to a shard is its position in \<open>c.shards\<close>. A panic (division by zero for a cluster
  without shards, an impossible capacity, a negative slice bound) is \<open>None\<close>. The goroutines of
  one call work on different shards, so only the order in which their results arrive matters: it is
  the argument \<open>order\<close>.
\<close>

unbundle bit_operations_syntax

section \<open>Routing\<close>

record 's Cluster =
  clShards :: "'s list"
  clNumShards :: nat

definition NewCluster :: "'s list \<Rightarrow> 's Cluster" where
  "NewCluster shards = \<lparr>clShards = shards, clNumShards = length shards\<rparr>"

definition NumShards :: "'s Cluster \<Rightarrow> nat" where
  "NumShards c = clNumShards c"

text \<open>\<open>hash/fnv\<close>, 32-bit FNV-1a.\<close>

definition fnv32a :: "string \<Rightarrow> 32 word" where
  "fnv32a s = foldl (\<lambda>h b. (h XOR of_nat (of_char b)) * 16777619) 2166136261 s"

definition shardIndex :: "'s Cluster \<Rightarrow> string \<Rightarrow> nat option" where
  "shardIndex c i =
     (if clNumShards c = 0 then None
      else let idx = uint (fnv32a i) mod int (clNumShards c) in Some (nat (if idx < 0 then - idx else idx)))"

definition getShard :: "'s Cluster \<Rightarrow> string \<Rightarrow> nat option" where
  "getShard c i = (case shardIndex c i of None \<Rightarrow> None | Some k \<Rightarrow> if k < length (clShards c) then Some k else None)"

section \<open>Operations\<close>

definition on_shard :: "'s Cluster \<Rightarrow> nat \<Rightarrow> (nat \<Rightarrow> 's \<Rightarrow> 'r \<times> 's) \<Rightarrow> 'r \<times> 's Cluster" where
  "on_shard c k call = (case call k (clShards c ! k) of (r, s') \<Rightarrow> (r, c\<lparr>clShards := (clShards c)[k := s']\<rparr>))"

definition Cluster_Insert ::
  "(nat \<Rightarrow> 's \<Rightarrow> string \<Rightarrow> vec \<Rightarrow> 'd \<Rightarrow> 'r \<times> 's) \<Rightarrow> 's Cluster \<Rightarrow> string \<Rightarrow> vec \<Rightarrow> 'd \<Rightarrow> ('r \<times> 's Cluster) option" where
  "Cluster_Insert ins c i vector data =
     (case getShard c i of
        None \<Rightarrow> None
      | Some target \<Rightarrow> Some (on_shard c target (\<lambda>k s. ins k s i vector data)))"

definition Cluster_Delete ::
  "(nat \<Rightarrow> 's \<Rightarrow> string \<Rightarrow> 'r \<times> 's) \<Rightarrow> 's Cluster \<Rightarrow> string \<Rightarrow> ('r \<times> 's Cluster) option" where
  "Cluster_Delete del c i =
     (case getShard c i of
        None \<Rightarrow> None
      | Some target \<Rightarrow> Some (on_shard c target (\<lambda>k s. del k s i)))"

text \<open>The items of a batch, grouped by shard in their order.\<close>

fun group_items :: "'s Cluster \<Rightarrow> ('a \<Rightarrow> string) \<Rightarrow> 'a list list \<Rightarrow> 'a list \<Rightarrow> 'a list list option" where
  "group_items c key groups [] = Some groups"
| "group_items c key groups (item # items) =
     (case shardIndex c (key item) of
        None \<Rightarrow> None
      | Some idx \<Rightarrow> group_items c key (groups[idx := groups ! idx @ [item]]) items)"

text \<open>One call per shard that has a group; the others keep their state.\<close>

definition run_groups ::
  "(nat \<Rightarrow> 's \<Rightarrow> 'a list \<Rightarrow> 'e list \<times> 's) \<Rightarrow> 's list \<Rightarrow> 'a list list \<Rightarrow> ('e list \<times> 's) list" where
  "run_groups call shards groups =
     map (\<lambda>k. if groups ! k = [] then ([], shards ! k) else call k (shards ! k) (groups ! k)) [0..<length groups]"

definition Cluster_BatchInsert ::
  "(nat \<Rightarrow> 's \<Rightarrow> 'v BatchItem list \<Rightarrow> 'e list \<times> 's) \<Rightarrow> nat list \<Rightarrow> 's Cluster \<Rightarrow> 'v BatchItem list \<Rightarrow>
   ('e list \<times> 's Cluster) option" where
  "Cluster_BatchInsert bins order c items =
     (case group_items c bID (replicate (clNumShards c) []) items of
        None \<Rightarrow> None
      | Some groups \<Rightarrow>
          let rs = run_groups bins (clShards c) groups
          in Some (concat (map (\<lambda>k. fst (rs ! k)) order), c\<lparr>clShards := map snd rs\<rparr>))"

definition Cluster_BatchDelete ::
  "(nat \<Rightarrow> 's \<Rightarrow> string list \<Rightarrow> 'e list \<times> 's) \<Rightarrow> 's Cluster \<Rightarrow> string list \<Rightarrow> ('e list \<times> 's Cluster) option" where
  "Cluster_BatchDelete bdel c ids =
     (case group_items c (\<lambda>i. i) (replicate (clNumShards c) []) ids of
        None \<Rightarrow> None
      | Some groups \<Rightarrow>
          let rs = run_groups bdel (clShards c) groups
          in Some (concat (map fst rs), c\<lparr>clShards := map snd rs\<rparr>))"

text \<open>Go's 64-bit \<open>int\<close> arithmetic; \<open>make\<close> panics on a capacity that is negative or above \<open>limit\<close>.\<close>

definition wrap64 :: "int \<Rightarrow> int" where
  "wrap64 z = (z + 2 ^ 63) mod 2 ^ 64 - 2 ^ 63"

definition Cluster_Search ::
  "(nat \<Rightarrow> 's \<Rightarrow> vec \<Rightarrow> int \<Rightarrow> VectroRecord list) \<Rightarrow> int \<Rightarrow> nat list \<Rightarrow> 's Cluster \<Rightarrow> vec \<Rightarrow> int \<Rightarrow> VectroRecord list option" where
  "Cluster_Search search limit order c query topK =
     (let cap = wrap64 (topK * int (clNumShards c)) in
      if cap < 0 \<or> limit < cap then None
      else
        let allMatches = concat (map (\<lambda>k. search k (clShards c ! k) query topK) order);
            sorted = sortSlice (\<lambda>x y. f32_gt (vrScore x) (vrScore y)) allMatches
        in if topK < int (length sorted) then (if topK < 0 then None else Some (take (nat topK) sorted))
           else Some sorted)"

section \<open>The cluster as one map\<close>

definition cluster_abs :: "('s \<Rightarrow> string \<rightharpoonup> 'r) \<Rightarrow> 's Cluster \<Rightarrow> string \<rightharpoonup> 'r" where
  "cluster_abs contents c i = (case getShard c i of None \<Rightarrow> None | Some k \<Rightarrow> contents (clShards c ! k) i)"

text \<open>Every shard is consistent and holds only the ids that are routed to it.\<close>

definition cluster_inv :: "('s \<Rightarrow> bool) \<Rightarrow> ('s \<Rightarrow> string \<rightharpoonup> 'r) \<Rightarrow> 's Cluster \<Rightarrow> bool" where
  "cluster_inv ok contents c \<longleftrightarrow>
     clNumShards c = length (clShards c) \<and> 0 < clNumShards c \<and>
     (\<forall>k<length (clShards c). ok (clShards c ! k) \<and> (\<forall>i\<in>dom (contents (clShards c ! k)). shardIndex c i = Some k))"

text \<open>The arrival of the results of a batch: every shard that was called, once, in any order.\<close>

definition arrivals :: "'a list list \<Rightarrow> nat list \<Rightarrow> bool" where
  "arrivals groups order \<longleftrightarrow> distinct order \<and> set order = {k. k < length groups \<and> groups ! k \<noteq> []}"

definition shard_group :: "'s Cluster \<Rightarrow> ('a \<Rightarrow> string) \<Rightarrow> 'a list \<Rightarrow> nat \<Rightarrow> 'a list" where
  "shard_group c key items k = filter (\<lambda>x. shardIndex c (key x) = Some k) items"

text \<open>What the shards of a cluster answer, each for itself.\<close>

definition shard_pool ::
  "(nat \<Rightarrow> 's \<Rightarrow> vec \<Rightarrow> int \<Rightarrow> VectroRecord list) \<Rightarrow> 's Cluster \<Rightarrow> vec \<Rightarrow> int \<Rightarrow> (nat \<times> VectroRecord) set" where
  "shard_pool search c q topK = {(k, r). k < length (clShards c) \<and> r \<in> set (search k (clShards c ! k) q topK)}"

text \<open>The updates of a map by a list of items, one after the other.\<close>

fun upd_all :: "('a \<Rightarrow> 'k) \<Rightarrow> ('a \<Rightarrow> 'r) \<Rightarrow> ('k \<rightharpoonup> 'r) \<Rightarrow> 'a list \<Rightarrow> 'k \<rightharpoonup> 'r" where
  "upd_all key val m [] = m"
| "upd_all key val m (x # xs) = upd_all key val (m(key x \<mapsto> val x)) xs"

section \<open>Lemmas on routing\<close>

lemma shardIndex_less: "shardIndex c i = Some k \<Longrightarrow> k < clNumShards c"
proof -
  assume k: "shardIndex c i = Some k"
  then have n: "0 < int (clNumShards c)" by (auto simp: shardIndex_def split: if_splits)
  then have b: "0 \<le> uint (fnv32a i) mod int (clNumShards c)" "uint (fnv32a i) mod int (clNumShards c) < int (clNumShards c)"
    by simp_all
  have "k = nat (uint (fnv32a i) mod int (clNumShards c))" using k n b(1) by (simp add: shardIndex_def Let_def)
  then show ?thesis using b by linarith
qed

lemma shardIndex_None: "shardIndex c i = None \<longleftrightarrow> clNumShards c = 0"
  unfolding shardIndex_def Let_def by (rule if_split [THEN iffD2]) blast

lemma shardIndex_total: "0 < clNumShards c \<Longrightarrow> \<exists>k. shardIndex c i = Some k \<and> k < clNumShards c"
  using shardIndex_less [of c i] by (cases "shardIndex c i") (simp_all add: shardIndex_None)

lemma shardIndex_shards [simp]: "shardIndex (c\<lparr>clShards := ss\<rparr>) i = shardIndex c i"
  by (simp add: shardIndex_def)

lemma shardIndex_NewCluster: "shardIndex (NewCluster ss) i = shardIndex (NewCluster ss') i" if "length ss = length ss'"
  using that by (simp add: shardIndex_def NewCluster_def)

lemma cluster_inv_getShard:
  assumes "cluster_inv ok contents c"
  obtains k where "getShard c i = Some k" "shardIndex c i = Some k" "k < length (clShards c)"
proof -
  have "0 < clNumShards c" "clNumShards c = length (clShards c)" using assms by (auto simp: cluster_inv_def)
  then obtain k where "shardIndex c i = Some k" "k < length (clShards c)" using shardIndex_total [of c i] by auto
  then show thesis using that by (simp add: getShard_def)
qed

lemma cluster_inv_route:
  "cluster_inv ok contents c \<Longrightarrow> k < length (clShards c) \<Longrightarrow> contents (clShards c ! k) i = Some x \<Longrightarrow> shardIndex c i = Some k"
  unfolding cluster_inv_def by blast

lemma cluster_abs_at:
  "shardIndex c i = Some k \<Longrightarrow> k < length (clShards c) \<Longrightarrow> cluster_abs contents c i = contents (clShards c ! k) i"
  by (simp add: cluster_abs_def getShard_def)

lemma length_run_groups [simp]: "length (run_groups call ss groups) = length groups"
  by (simp add: run_groups_def)

lemma nth_run_groups:
  "k < length groups \<Longrightarrow>
    run_groups call ss groups ! k = (if groups ! k = [] then ([], ss ! k) else call k (ss ! k) (groups ! k))"
  by (simp add: run_groups_def)

lemma group_items_filter:
  assumes "0 < clNumShards c" "length groups = clNumShards c"
  shows "\<exists>groups'. group_items c key groups items = Some groups' \<and> length groups' = length groups \<and>
    (\<forall>k<length groups. groups' ! k = groups ! k @ shard_group c key items k)"
  using assms(2)
proof (induction items arbitrary: groups)
  case (Cons x xs)
  obtain idx where idx: "shardIndex c (key x) = Some idx" "idx < length groups"
    using shardIndex_total [OF assms(1), of "key x"] Cons.prems by auto
  have len: "length (groups[idx := groups ! idx @ [x]]) = clNumShards c" using Cons.prems by simp
  show ?case using Cons.IH [OF len] idx by (auto simp: shard_group_def nth_list_update)
qed (auto simp: shard_group_def)

lemma shard_group_set: "x \<in> set (shard_group c key items k) \<longleftrightarrow> x \<in> set items \<and> shardIndex c (key x) = Some k"
  by (auto simp: shard_group_def)

lemma subseq_positions: "subseq (map ((!) xs) (filter P [0..<length xs])) xs"
  using subseq_map [OF subseq_filter_left [of P "[0..<length xs]"], of "(!) xs"] by (simp add: map_nth)

lemma shard_group_Cons:
  "shardIndex c (key x) = Some k0 \<Longrightarrow>
    shard_group c key (x # xs) k = (if k = k0 then x # shard_group c key xs k else shard_group c key xs k)"
  by (auto simp: shard_group_def)

text \<open>Choices made in every group are one choice among the items.\<close>

lemma subseq_merge_groups:
  assumes "0 < clNumShards c" "\<forall>k<clNumShards c. subseq (t k) (shard_group c key items k)"
  shows "\<exists>taken. subseq taken items \<and> (\<forall>k<clNumShards c. shard_group c key taken k = t k)"
  using assms(2)
proof (induction items arbitrary: t)
  case Nil
  then have "\<forall>k<clNumShards c. t k = []" using list_emb_Nil2 by (fastforce simp: shard_group_def)
  then show ?case by (intro exI [of _ "[]"]) (simp add: shard_group_def)
next
  case (Cons x xs)
  obtain k0 where k0: "shardIndex c (key x) = Some k0" "k0 < clNumShards c" using shardIndex_total [OF assms(1)] by blast
  have t0: "subseq (t k0) (x # shard_group c key xs k0)" using Cons.prems k0 by (auto simp: shard_group_Cons)
  have other: "subseq (t k) (shard_group c key xs k)" if "k < clNumShards c" "k \<noteq> k0" for k
    using Cons.prems that k0 by (auto simp: shard_group_Cons)
  show ?case
  proof (cases "subseq (t k0) (shard_group c key xs k0)")
    case True
    then have "\<forall>k<clNumShards c. subseq (t k) (shard_group c key xs k)" using other by blast
    from Cons.IH [OF this] show ?thesis by (blast intro: list_emb_Cons)
  next
    case False
    then obtain t' where t': "t k0 = x # t'" "subseq t' (shard_group c key xs k0)"
      using t0 by (cases "t k0") (auto split: if_splits)
    have "\<forall>k<clNumShards c. subseq ((t(k0 := t')) k) (shard_group c key xs k)" using other t'(2) by auto
    from Cons.IH [OF this] obtain taken where
      "subseq taken xs" "\<forall>k<clNumShards c. shard_group c key taken k = (t(k0 := t')) k" by blast
    then show ?thesis using t'(1) k0 by (intro exI [of _ "x # taken"]) (auto simp: shard_group_Cons)
  qed
qed

lemma length_shard_groups:
  assumes "0 < clNumShards c"
  shows "length items = (\<Sum>k<clNumShards c. length (shard_group c key items k))"
proof (induction items)
  case (Cons x xs)
  obtain k0 where k0: "shardIndex c (key x) = Some k0" "k0 < clNumShards c" using shardIndex_total [OF assms] by blast
  have "(\<Sum>k<clNumShards c. length (shard_group c key (x # xs) k)) =
      (\<Sum>k<clNumShards c. (if k = k0 then 1 else 0) + length (shard_group c key xs k))"
    using shard_group_Cons [where key = key, OF k0(1)] by (intro sum.cong) simp_all
  also have "\<dots> = 1 + length xs" using k0(2) Cons.IH by (simp add: sum.distrib)
  finally show ?case by simp
qed (simp add: shard_group_def)

lemma upd_all_local: "m i = m' i \<Longrightarrow> upd_all key val m xs i = upd_all key val m' xs i"
proof (induction xs arbitrary: m m')
  case (Cons x xs)
  have "(m(key x \<mapsto> val x)) i = (m'(key x \<mapsto> val x)) i" using Cons.prems by (simp only: fun_upd_apply)
  then show ?case unfolding upd_all.simps by (rule Cons.IH)
qed simp

lemma upd_all_other: "i \<notin> key ` set xs \<Longrightarrow> upd_all key val m xs i = m i"
proof (induction xs arbitrary: m)
  case (Cons x xs)
  then have "i \<noteq> key x" "i \<notin> key ` set xs" by auto
  then have "upd_all key val (m(key x \<mapsto> val x)) xs i = (m(key x \<mapsto> val x)) i" by (intro Cons.IH)
  also have "\<dots> = m i" using \<open>i \<noteq> key x\<close> by (simp only: fun_upd_apply if_False)
  finally show ?case by (simp only: upd_all.simps)
qed simp

lemma upd_all_filter: "P i \<Longrightarrow> upd_all key val m (filter (\<lambda>x. P (key x)) xs) i = upd_all key val m xs i"
proof (induction xs arbitrary: m)
  case (Cons x xs)
  show ?case
  proof (cases "P (key x)")
    case True
    then show ?thesis by (simp only: filter.simps if_True upd_all.simps Cons.IH [OF Cons.prems])
  next
    case False
    then have "m i = (m(key x \<mapsto> val x)) i" using Cons.prems by auto
    then have "upd_all key val m xs i = upd_all key val (m(key x \<mapsto> val x)) xs i" by (rule upd_all_local)
    then show ?thesis using False by (simp only: filter.simps if_False upd_all.simps Cons.IH [OF Cons.prems])
  qed
qed simp

lemma concat_map_filter: "\<forall>x\<in>set xs. \<not> P x \<longrightarrow> f x = [] \<Longrightarrow> concat (map f (filter P xs)) = concat (map f xs)"
  by (induction xs) auto

lemma sum_length_concat:
  fixes n :: nat
  assumes "distinct order" "set order = {k. k < n \<and> Q k}" "\<forall>k<n. \<not> Q k \<longrightarrow> f k = []"
  shows "length (concat (map f order)) = (\<Sum>k<n. length (f k))"
proof -
  have "length (concat (map f order)) = (\<Sum>k\<in>set order. length (f k))"
    using assms(1) by (simp add: length_concat sum_list_distinct_conv_sum_set)
  also have "\<dots> = (\<Sum>k<n. length (f k))" using assms(2,3) by (intro sum.mono_neutral_left) auto
  finally show ?thesis .
qed

lemma wrap64_id: "- (2 ^ 63) \<le> z \<Longrightarrow> z < 2 ^ 63 \<Longrightarrow> wrap64 z = z"
  unfolding wrap64_def by (subst mod_pos_pos_trivial) simp_all

section \<open>The contract of a shard\<close>

text \<open>
  \<open>ready k n s\<close> says that the shard at position \<open>k\<close> has room for \<open>n\<close> more records, \<open>took\<close> that a single
  operation took effect, and \<open>took_at\<close> which positions of a batch did, from the errors reported.
\<close>

locale shard_handler =
  fixes ok :: "'s \<Rightarrow> bool" and contents :: "'s \<Rightarrow> string \<rightharpoonup> 'r" and ready :: "nat \<Rightarrow> nat \<Rightarrow> 's \<Rightarrow> bool"
    and ins :: "nat \<Rightarrow> 's \<Rightarrow> string \<Rightarrow> vec \<Rightarrow> 'd \<Rightarrow> 'e option \<times> 's" and item :: "vec \<Rightarrow> 'd \<Rightarrow> 'r"
    and del :: "nat \<Rightarrow> 's \<Rightarrow> string \<Rightarrow> 'e option \<times> 's" and took :: "'e option \<Rightarrow> bool"
    and bins :: "nat \<Rightarrow> 's \<Rightarrow> 'v BatchItem list \<Rightarrow> 'f list \<times> 's" and bitem :: "'v BatchItem \<Rightarrow> 'r"
    and bdel :: "nat \<Rightarrow> 's \<Rightarrow> string list \<Rightarrow> 'f list \<times> 's" and took_at :: "'f list \<Rightarrow> nat \<Rightarrow> nat list"
    and search :: "nat \<Rightarrow> 's \<Rightarrow> vec \<Rightarrow> int \<Rightarrow> VectroRecord list" and hit :: "'s \<Rightarrow> vec \<Rightarrow> VectroRecord \<Rightarrow> bool"
  assumes ins_law: "ok s \<Longrightarrow> ready k 1 s \<Longrightarrow> ins k s i v d = (r, s') \<Longrightarrow>
      ok s' \<and> contents s' = (if took r then (contents s)(i \<mapsto> item v d) else contents s)"
    and del_law: "ok s \<Longrightarrow> del k s i = (r, s') \<Longrightarrow>
      ok s' \<and> contents s' = (if took r then (contents s)(i := None) else contents s)"
    and bins_law: "ok s \<Longrightarrow> ready k (length items) s \<Longrightarrow> bins k s items = (errs, s') \<Longrightarrow>
      ok s' \<and> contents s' = upd_all bID bitem (contents s) (map ((!) items) (took_at errs (length items)))"
    and bdel_law: "ok s \<Longrightarrow> bdel k s ids = (ferrs, s') \<Longrightarrow>
      ok s' \<and> contents s' = contents s |` (- ((!) ids ` set (took_at ferrs (length ids))))"
    and took_at_filter: "\<exists>P. took_at errs n = filter P [0..<n]"
    and took_at_reported: "n \<le> length (took_at errs n) + length errs"
    and search_law: "ok s \<Longrightarrow> length (search k s q topK) \<le> nat topK \<and> distinct (map vrID (search k s q topK)) \<and>
      (\<forall>r\<in>set (search k s q topK). hit s q r \<and> contents s (vrID r) \<noteq> None)"
begin

abbreviation cinv :: "'s Cluster \<Rightarrow> bool" where
  "cinv \<equiv> cluster_inv ok contents"

abbreviation cabs :: "'s Cluster \<Rightarrow> string \<rightharpoonup> 'r" where
  "cabs \<equiv> cluster_abs contents"

text \<open>An operation on the shard of its id is that operation on the whole map.\<close>

lemma on_shard_point:
  assumes c: "cinv c" and k: "shardIndex c i = Some k" "k < length (clShards c)"
    and run: "on_shard c k call = (r, c')" and call: "call k (clShards c ! k) = (r, s')" "ok s'"
    and upd: "contents s' = (contents (clShards c ! k))(i := y) \<or> contents s' = contents (clShards c ! k) \<and> y = contents (clShards c ! k) i"
  shows "cinv c'" "cabs c' = (cabs c)(i := y)"
proof -
  have c': "c' = c\<lparr>clShards := (clShards c)[k := s']\<rparr>" using run call by (simp add: on_shard_def)
  have at: "contents s' j = (if j = i then y else contents (clShards c ! k) j)" for j using upd by auto
  show "cinv c'"
    unfolding cluster_inv_def c'
  proof (intro conjI allI impI ballI)
    fix j z assume "j < length (clShards (c\<lparr>clShards := (clShards c)[k := s']\<rparr>))"
      and z: "z \<in> dom (contents (clShards (c\<lparr>clShards := (clShards c)[k := s']\<rparr>) ! j))"
    then have j: "j < length (clShards c)" by simp
    show "shardIndex (c\<lparr>clShards := (clShards c)[k := s']\<rparr>) z = Some j"
    proof (cases "j = k \<and> z = i")
      case True
      then show ?thesis using k by simp
    next
      case False
      then have "z \<in> dom (contents (clShards c ! j))" using z j at by (cases "j = k") (auto simp: dom_def)
      then show ?thesis using c j by (auto simp: cluster_inv_def)
    qed
  qed (use c k(2) call(2) in \<open>auto simp: cluster_inv_def nth_list_update\<close>)
  show "cabs c' = (cabs c)(i := y)"
  proof
    fix j
    obtain m where m: "shardIndex c j = Some m" "m < length (clShards c)" using cluster_inv_getShard [OF c] by metis
    then have "cabs c' j = contents ((clShards c)[k := s'] ! m) j" unfolding c' by (simp add: cluster_abs_at)
    also have "\<dots> = ((cabs c)(i := y)) j"
      using m k at by (cases "m = k") (auto simp: cluster_abs_at)
    finally show "cabs c' j = ((cabs c)(i := y)) j" .
  qed
qed

lemma Cluster_Insert_refines:
  assumes c: "cinv c" and rdy: "\<forall>k<length (clShards c). ready k 1 (clShards c ! k)"
  shows "\<exists>r c'. Cluster_Insert ins c i v d = Some (r, c') \<and> cinv c' \<and>
    cabs c' = (if took r then (cabs c)(i \<mapsto> item v d) else cabs c)"
proof -
  obtain k where k: "getShard c i = Some k" "shardIndex c i = Some k" "k < length (clShards c)"
    using cluster_inv_getShard [OF c] by metis
  obtain r s' where call: "ins k (clShards c ! k) i v d = (r, s')" by fastforce
  have s: "ok (clShards c ! k)" "ready k 1 (clShards c ! k)" using c k(3) rdy by (auto simp: cluster_inv_def)
  note law = ins_law [OF s call]
  obtain c' where run: "on_shard c k (\<lambda>k s. ins k s i v d) = (r, c')" using call by (simp add: on_shard_def)
  have y: "contents s' = (contents (clShards c ! k))(i := (if took r then Some (item v d) else cabs c i)) \<or>
    contents s' = contents (clShards c ! k) \<and> (if took r then Some (item v d) else cabs c i) = contents (clShards c ! k) i"
    using law k by (auto simp: cluster_abs_at)
  note p = on_shard_point [OF c k(2,3) run _ _ y] 
  have "cinv c'" "cabs c' = (cabs c)(i := (if took r then Some (item v d) else cabs c i))"
    using p call law by blast+
  then show ?thesis using run k(1) by (intro exI [of _ r] exI [of _ c']) (auto simp: Cluster_Insert_def)
qed

lemma Cluster_Delete_refines:
  assumes c: "cinv c"
  shows "\<exists>r c'. Cluster_Delete del c i = Some (r, c') \<and> cinv c' \<and> cabs c' = (if took r then (cabs c)(i := None) else cabs c)"
proof -
  obtain k where k: "getShard c i = Some k" "shardIndex c i = Some k" "k < length (clShards c)"
    using cluster_inv_getShard [OF c] by metis
  obtain r s' where call: "del k (clShards c ! k) i = (r, s')" by fastforce
  have s: "ok (clShards c ! k)" using c k(3) by (auto simp: cluster_inv_def)
  note law = del_law [OF s call]
  obtain c' where run: "on_shard c k (\<lambda>k s. del k s i) = (r, c')" using call by (simp add: on_shard_def)
  have y: "contents s' = (contents (clShards c ! k))(i := (if took r then None else cabs c i)) \<or>
    contents s' = contents (clShards c ! k) \<and> (if took r then None else cabs c i) = contents (clShards c ! k) i"
    using law k by (auto simp: cluster_abs_at)
  note p = on_shard_point [OF c k(2,3) run _ _ y]
  have "cinv c'" "cabs c' = (cabs c)(i := (if took r then None else cabs c i))" using p call law by blast+
  then show ?thesis using run k(1) by (intro exI [of _ r] exI [of _ c']) (auto simp: Cluster_Delete_def)
qed

lemma took_subseq: "subseq (map ((!) xs) (took_at errs (length xs))) xs"
  using took_at_filter [of errs "length xs"] subseq_positions by metis

text \<open>A batch changes each shard only at ids that are routed to it.\<close>

lemma run_groups_point:
  assumes c: "cinv c" and len: "length rs = length (clShards c)"
    and step: "\<And>k. k < length (clShards c) \<Longrightarrow> ok (snd (rs ! k)) \<and>
      (\<forall>i. shardIndex c i \<noteq> Some k \<longrightarrow> contents (snd (rs ! k)) i = contents (clShards c ! k) i)"
  shows "cinv (c\<lparr>clShards := map snd rs\<rparr>)"
    "shardIndex c i = Some k \<Longrightarrow> cabs (c\<lparr>clShards := map snd rs\<rparr>) i = contents (snd (rs ! k)) i"
proof -
  have n: "clNumShards c = length (clShards c)" "0 < clNumShards c" using c by (auto simp: cluster_inv_def)
  have route: "shardIndex c j = Some k" if "k < length (clShards c)" "contents (snd (rs ! k)) j = Some y" for j k y
  proof (rule ccontr)
    assume no: "shardIndex c j \<noteq> Some k"
    then have "contents (clShards c ! k) j = Some y" using step [OF that(1)] that(2) by simp
    then show False using cluster_inv_route [OF c that(1)] no by blast
  qed
  show "cinv (c\<lparr>clShards := map snd rs\<rparr>)"
    unfolding cluster_inv_def
  proof (intro conjI allI impI ballI)
    fix k assume "k < length (clShards (c\<lparr>clShards := map snd rs\<rparr>))"
    then have k: "k < length (clShards c)" "clShards (c\<lparr>clShards := map snd rs\<rparr>) ! k = snd (rs ! k)" using len by simp_all
    show "ok (clShards (c\<lparr>clShards := map snd rs\<rparr>) ! k)" using step [OF k(1)] k(2) by simp
    fix j assume "j \<in> dom (contents (clShards (c\<lparr>clShards := map snd rs\<rparr>) ! k))"
    then show "shardIndex (c\<lparr>clShards := map snd rs\<rparr>) j = Some k" using route [OF k(1)] k(2) by auto
  qed (use n len in simp_all)
  show "cabs (c\<lparr>clShards := map snd rs\<rparr>) i = contents (snd (rs ! k)) i" if k: "shardIndex c i = Some k"
    using shardIndex_less [OF k] n(1) k len by (simp add: cluster_abs_at)
qed

lemma groups_of:
  assumes "cinv c"
  obtains groups where "group_items c key (replicate (clNumShards c) []) items = Some groups"
    "length groups = length (clShards c)" "\<And>k. k < length (clShards c) \<Longrightarrow> groups ! k = shard_group c key items k"
proof -
  have n: "clNumShards c = length (clShards c)" "0 < clNumShards c" using assms by (auto simp: cluster_inv_def)
  obtain groups where g: "group_items c key (replicate (clNumShards c) []) items = Some groups"
    "length groups = clNumShards c" "\<forall>k<clNumShards c. groups ! k = replicate (clNumShards c) [] ! k @ shard_group c key items k"
    using group_items_filter [OF n(2), of "replicate (clNumShards c) []" key items] by auto
  show thesis by (rule that [OF g(1)]) (use g(2,3) n(1) in simp_all)
qed

text \<open>The part of every group that took effect is, together, a part of the batch that took effect.\<close>

lemma groups_taken:
  fixes items :: "'x list"
  assumes c: "cinv c"
    and errs: "\<And>k. k < length (clShards c) \<Longrightarrow> shard_group c key items k = [] \<Longrightarrow> es k = []"
    and order: "distinct order" "set order = {k. k < length (clShards c) \<and> shard_group c key items k \<noteq> []}"
  shows "\<exists>taken. subseq taken items \<and> length items \<le> length taken + length (concat (map es order)) \<and>
    (\<forall>k<length (clShards c). shard_group c key taken k =
      map ((!) (shard_group c key items k)) (took_at (es k) (length (shard_group c key items k))))"
proof -
  let ?t = "\<lambda>k. map ((!) (shard_group c key items k)) (took_at (es k) (length (shard_group c key items k)))"
  have n: "clNumShards c = length (clShards c)" "0 < clNumShards c" using c by (auto simp: cluster_inv_def)
  obtain taken where t: "subseq taken items" "\<forall>k<clNumShards c. shard_group c key taken k = ?t k"
    using subseq_merge_groups [OF n(2), of ?t key items] took_subseq by blast
  have "length items = (\<Sum>k<clNumShards c. length (shard_group c key items k))" by (rule length_shard_groups [OF n(2)])
  also have "\<dots> \<le> (\<Sum>k<clNumShards c. length (?t k) + length (es k))" using took_at_reported by (intro sum_mono) simp
  also have "\<dots> = (\<Sum>k<clNumShards c. length (shard_group c key taken k)) + (\<Sum>k<clNumShards c. length (es k))"
    using t(2) by (simp add: sum.distrib)
  also have "(\<Sum>k<clNumShards c. length (es k)) = length (concat (map es order))"
    using errs order n(1) by (intro sum_length_concat [symmetric]) auto
  also have "(\<Sum>k<clNumShards c. length (shard_group c key taken k)) = length taken"
    by (rule length_shard_groups [OF n(2), symmetric])
  finally show ?thesis using t n(1) by (intro exI [of _ taken]) simp
qed

text \<open>
  One batch call per shard, for any effect \<open>upd\<close> that is local to the ids of the items: a batch of updates or of
  removals.
\<close>

lemma batch_refines:
  fixes call :: "nat \<Rightarrow> 's \<Rightarrow> 'x list \<Rightarrow> 'f list \<times> 's" and upd :: "(string \<rightharpoonup> 'r) \<Rightarrow> 'x list \<Rightarrow> string \<rightharpoonup> 'r"
  assumes c: "cinv c" and g: "length groups = length (clShards c)" "\<And>k. k < length (clShards c) \<Longrightarrow> groups ! k = shard_group c key items k"
    and rs: "rs = run_groups call (clShards c) groups" and order: "arrivals groups order"
    and law: "\<And>k errs s'. k < length (clShards c) \<Longrightarrow> groups ! k \<noteq> [] \<Longrightarrow> call k (clShards c ! k) (groups ! k) = (errs, s') \<Longrightarrow>
      ok s' \<and> contents s' = upd (contents (clShards c ! k)) (map ((!) (groups ! k)) (took_at errs (length (groups ! k))))"
    and nil: "\<And>m. upd m [] = m" and local: "\<And>m m' xs i. m i = m' i \<Longrightarrow> upd m xs i = upd m' xs i"
    and other: "\<And>m xs i. i \<notin> key ` set xs \<Longrightarrow> upd m xs i = m i"
    and filtered: "\<And>m xs i P. P i \<Longrightarrow> upd m (filter (\<lambda>x. P (key x)) xs) i = upd m xs i"
  shows "cinv (c\<lparr>clShards := map snd rs\<rparr>)"
    "\<exists>taken. subseq taken items \<and> length items \<le> length taken + length (concat (map (\<lambda>k. fst (rs ! k)) order)) \<and>
      cabs (c\<lparr>clShards := map snd rs\<rparr>) = upd (cabs c) taken"
proof -
  let ?g = "shard_group c key items"
  have rs_nth: "rs ! k = (if ?g k = [] then ([], clShards c ! k) else call k (clShards c ! k) (?g k))"
    if "k < length (clShards c)" for k
    using that g by (simp add: rs nth_run_groups)
  have ord: "distinct order" "set order = {k. k < length (clShards c) \<and> ?g k \<noteq> []}"
    using order g by (simp_all add: arrivals_def cong: conj_cong)
  have es: "fst (rs ! k) = []" if "k < length (clShards c)" "?g k = []" for k using rs_nth [OF that(1)] that(2) by simp
  obtain taken where t: "subseq taken items" "length items \<le> length taken + length (concat (map (\<lambda>k. fst (rs ! k)) order))"
    "\<forall>k<length (clShards c). shard_group c key taken k = map ((!) (?g k)) (took_at (fst (rs ! k)) (length (?g k)))"
    using groups_taken [where es = "\<lambda>k. fst (rs ! k)", OF c es ord] by blast
  have eff: "ok (snd (rs ! k)) \<and> contents (snd (rs ! k)) = upd (contents (clShards c ! k)) (shard_group c key taken k)"
    if k: "k < length (clShards c)" for k
  proof (cases "?g k = []")
    case True
    then have "shard_group c key taken k = []" using t(3) k took_at_filter [of _ 0] by auto
    then show ?thesis using True rs_nth [OF k] c k nil by (simp add: cluster_inv_def)
  next
    case False
    then have "call k (clShards c ! k) (groups ! k) = (fst (rs ! k), snd (rs ! k))" "groups ! k \<noteq> []"
      using rs_nth [OF k] g(2) [OF k] by simp_all
    from law [OF k this(2,1)] show ?thesis using t(3) k g(2) [OF k] by simp
  qed
  have step: "ok (snd (rs ! k)) \<and> (\<forall>i. shardIndex c i \<noteq> Some k \<longrightarrow> contents (snd (rs ! k)) i = contents (clShards c ! k) i)"
    if k: "k < length (clShards c)" for k
    using eff [OF k] by (auto simp: shard_group_set intro!: other)
  have len: "length rs = length (clShards c)" using g(1) by (simp add: rs)
  note pt = run_groups_point [OF c len step]
  show "cinv (c\<lparr>clShards := map snd rs\<rparr>)" by (rule pt(1))
  have "cabs (c\<lparr>clShards := map snd rs\<rparr>) i = upd (cabs c) taken i" for i
  proof -
    obtain k where k: "shardIndex c i = Some k" "k < length (clShards c)" using cluster_inv_getShard [OF c] by metis
    have "cabs (c\<lparr>clShards := map snd rs\<rparr>) i = upd (contents (clShards c ! k)) (shard_group c key taken k) i"
      using pt(2) [OF _ k(1)] eff [OF k(2)] by simp
    also have "\<dots> = upd (contents (clShards c ! k)) taken i"
      unfolding shard_group_def by (rule filtered [where P = "\<lambda>j. shardIndex c j = Some k"]) (rule k(1))
    also have "\<dots> = upd (cabs c) taken i" using k by (intro local) (simp add: cluster_abs_at)
    finally show ?thesis .
  qed
  then show "\<exists>taken. subseq taken items \<and> length items \<le> length taken + length (concat (map (\<lambda>k. fst (rs ! k)) order)) \<and>
      cabs (c\<lparr>clShards := map snd rs\<rparr>) = upd (cabs c) taken" using t(1,2) by blast
qed

lemma Cluster_BatchInsert_refines:
  assumes c: "cinv c"
    and rdy: "\<forall>k<length (clShards c). ready k (length (shard_group c bID items k)) (clShards c ! k)"
    and order: "arrivals (map (shard_group c bID items) [0..<length (clShards c)]) order"
  shows "\<exists>errs c' taken. Cluster_BatchInsert bins order c items = Some (errs, c') \<and> cinv c' \<and>
    subseq taken items \<and> length items \<le> length taken + length errs \<and> cabs c' = upd_all bID bitem (cabs c) taken"
proof -
  obtain groups where g: "group_items c bID (replicate (clNumShards c) []) items = Some groups"
    "length groups = length (clShards c)" "\<And>k. k < length (clShards c) \<Longrightarrow> groups ! k = shard_group c bID items k"
    using groups_of [OF c] by metis
  define rs where "rs = run_groups bins (clShards c) groups"
  have gs: "groups = map (shard_group c bID items) [0..<length (clShards c)]" by (rule nth_equalityI) (use g in auto)
  have law: "ok s' \<and> contents s' = upd_all bID bitem (contents (clShards c ! k)) (map ((!) (groups ! k)) (took_at errs (length (groups ! k))))"
    if k: "k < length (clShards c)" "bins k (clShards c ! k) (groups ! k) = (errs, s')" for k errs s'
  proof (rule bins_law [OF _ _ k(2)])
    show "ok (clShards c ! k)" "ready k (length (groups ! k)) (clShards c ! k)" using c k(1) rdy g(3) by (auto simp: cluster_inv_def)
  qed
  note b = batch_refines [where upd = "upd_all bID bitem", OF c g(2,3) rs_def order [folded gs] law
      upd_all.simps(1) upd_all_local upd_all_other upd_all_filter]
  have "Cluster_BatchInsert bins order c items = Some (concat (map (\<lambda>k. fst (rs ! k)) order), c\<lparr>clShards := map snd rs\<rparr>)"
    using g(1) by (simp add: Cluster_BatchInsert_def Let_def rs_def)
  then show ?thesis using b by blast
qed

lemma Cluster_BatchDelete_refines:
  assumes c: "cinv c"
  shows "\<exists>errs c' taken. Cluster_BatchDelete bdel c ids = Some (errs, c') \<and> cinv c' \<and>
    subseq taken ids \<and> length ids \<le> length taken + length errs \<and> cabs c' = cabs c |` (- set taken)"
proof -
  obtain groups where g: "group_items c (\<lambda>i. i) (replicate (clNumShards c) []) ids = Some groups"
    "length groups = length (clShards c)" "\<And>k. k < length (clShards c) \<Longrightarrow> groups ! k = shard_group c (\<lambda>i. i) ids k"
    using groups_of [OF c] by metis
  define rs where "rs = run_groups bdel (clShards c) groups"
  let ?order = "filter (\<lambda>k. groups ! k \<noteq> []) [0..<length groups]"
  have order: "arrivals groups ?order" by (auto simp: arrivals_def)
  have law: "ok s' \<and> contents s' = contents (clShards c ! k) |` (- set (map ((!) (groups ! k)) (took_at errs (length (groups ! k)))))"
    if k: "k < length (clShards c)" "bdel k (clShards c ! k) (groups ! k) = (errs, s')" for k errs s'
    using bdel_law [OF _ k(2)] c k(1) by (auto simp: cluster_inv_def)
  have upd: "(m |` (- set [])) = m" "m i = m' i \<Longrightarrow> (m |` (- set xs)) i = (m' |` (- set xs)) i"
    "i \<notin> (\<lambda>i. i) ` set xs \<Longrightarrow> (m |` (- set xs)) i = m i"
    "P i \<Longrightarrow> (m |` (- set (filter (\<lambda>x. P x) xs))) i = (m |` (- set xs)) i" for m m' :: "string \<rightharpoonup> 'r" and xs i P
    by (auto simp: restrict_map_def)
  note b = batch_refines [where upd = "\<lambda>m xs. m |` (- set xs)", OF c g(2,3) rs_def order law upd]
  have "fst (rs ! k) = []" if "k < length groups" "groups ! k = []" for k using that by (simp add: rs_def nth_run_groups)
  then have "concat (map (\<lambda>k. fst (rs ! k)) ?order) = concat (map (\<lambda>k. fst (rs ! k)) [0..<length groups])"
    by (intro concat_map_filter) simp
  also have "map (\<lambda>k. fst (rs ! k)) [0..<length groups] = map fst rs" by (rule nth_equalityI) (simp_all add: rs_def)
  finally have "Cluster_BatchDelete bdel c ids = Some (concat (map (\<lambda>k. fst (rs ! k)) ?order), c\<lparr>clShards := map snd rs\<rparr>)"
    using g(1) by (simp add: Cluster_BatchDelete_def Let_def rs_def)
  then show ?thesis using b by blast
qed

text \<open>The merged answer; \<open>order\<close> is the order in which the shards' answers arrive.\<close>

lemma shard_hit:
  assumes c: "cinv c" and k: "k < length (clShards c)" and r: "r \<in> set (search k (clShards c ! k) q topK)"
  shows "shardIndex c (vrID r) = Some k" "hit (clShards c ! k) q r" "cabs c (vrID r) \<noteq> None"
proof -
  have "ok (clShards c ! k)" using c k by (simp add: cluster_inv_def)
  then have h: "hit (clShards c ! k) q r" "contents (clShards c ! k) (vrID r) \<noteq> None" using search_law r by blast+
  then show "shardIndex c (vrID r) = Some k" using cluster_inv_route [OF c k] by blast
  then show "cabs c (vrID r) \<noteq> None" using h(2) k by (simp add: cluster_abs_at)
  show "hit (clShards c ! k) q r" by (rule h(1))
qed

lemma merged_distinct:
  assumes c: "cinv c" and ord: "distinct ks" "set ks \<subseteq> {..<length (clShards c)}"
  shows "distinct (map vrID (concat (map (\<lambda>k. search k (clShards c ! k) q topK) ks)))"
  using ord
proof (induction ks)
  case (Cons k ks)
  have k: "k < length (clShards c)" using Cons.prems(2) by simp
  have "distinct (map vrID (search k (clShards c ! k) q topK))"
    using search_law c k by (simp add: cluster_inv_def)
  moreover have "vrID r \<noteq> vrID r'" if r: "r \<in> set (search k (clShards c ! k) q topK)"
    and r': "j \<in> set ks" "r' \<in> set (search j (clShards c ! j) q topK)" for r r' j
  proof -
    have "j < length (clShards c)" "j \<noteq> k" using Cons.prems r'(1) by auto
    then show ?thesis using shard_hit(1) [OF c k r] shard_hit(1) [OF c _ r'(2)] by auto
  qed
  ultimately show ?case using Cons by fastforce
qed simp

lemma Cluster_Search_refines:
  assumes c: "cinv c" and ord: "distinct order" "set order = {..<length (clShards c)}"
    and k: "0 \<le> topK" "topK * int (length (clShards c)) \<le> limit" "topK * int (length (clShards c)) < 2 ^ 63"
  shows "\<exists>rs. Cluster_Search search limit order c q topK = Some rs \<and> length rs \<le> nat topK \<and> distinct (map vrID rs) \<and>
    (\<forall>r\<in>set rs. \<exists>k. (k, r) \<in> shard_pool search c q topK \<and> hit (clShards c ! k) q r \<and> cabs c (vrID r) \<noteq> None) \<and>
    ((\<forall>(k, r)\<in>shard_pool search c q topK. \<not> f32_isNaN (vrScore r)) \<longrightarrow>
      sorted_wrt (\<lambda>x y. f32_ge (vrScore x) (vrScore y)) rs \<and>
      (\<forall>(k, r)\<in>shard_pool search c q topK. r \<notin> set rs \<longrightarrow> length rs = nat topK \<and> (\<forall>x\<in>set rs. f32_le (vrScore r) (vrScore x))))"
proof -
  let ?pool = "shard_pool search c q topK"
  let ?gt = "\<lambda>x y. f32_gt (vrScore x) (vrScore y)"
  define al where "al = concat (map (\<lambda>k. search k (clShards c ! k) q topK) order)"
  define rs where "rs = take (nat topK) (sortSlice ?gt al)"
  have pool: "r \<in> set al \<longleftrightarrow> (\<exists>k. (k, r) \<in> ?pool)" for r using ord(2) by (auto simp: al_def shard_pool_def)
  have n: "clNumShards c = length (clShards c)" using c by (simp add: cluster_inv_def)
  have "wrap64 (topK * int (clNumShards c)) = topK * int (clNumShards c)"
    using k by (intro wrap64_id) (simp_all add: n order_trans [of _ 0])
  then have run: "Cluster_Search search limit order c q topK = Some rs"
    using k n by (auto simp: Cluster_Search_def Let_def rs_def al_def not_less mult_less_0_iff)
  have sub: "set rs \<subseteq> set al" unfolding rs_def using set_take_subset goSort.sorter_set by fastforce
  have dist: "distinct (map vrID rs)"
    using merged_distinct [OF c ord(1)] ord(2) unfolding rs_def take_map [symmetric]
    by (intro distinct_take) (simp add: goSort.sorter_distinct_map al_def)
  have hits: "\<exists>k. (k, r) \<in> ?pool \<and> hit (clShards c ! k) q r \<and> cabs c (vrID r) \<noteq> None" if "r \<in> set rs" for r
    using that sub pool shard_hit(2,3) [OF c] unfolding shard_pool_def by blast
  have best: "sorted_wrt (\<lambda>x y. f32_ge (vrScore x) (vrScore y)) rs \<and>
      (\<forall>r\<in>set al. r \<notin> set rs \<longrightarrow> length rs = nat topK \<and> (\<forall>x\<in>set rs. f32_le (vrScore r) (vrScore x)))"
    if num: "\<forall>r\<in>set al. \<not> f32_isNaN (vrScore r)"
  proof
    have swo: "swo_on (set al) ?gt" using num by (intro swo_on_f32_gt) auto
    have tot: "\<not> ?gt y x \<Longrightarrow> f32_ge (vrScore x) (vrScore y) \<and> f32_le (vrScore y) (vrScore x)" if "x \<in> set al" "y \<in> set al" for x y
      using num that by (auto simp: fltcmp)
    have "sorted_wrt (\<lambda>x y. \<not> ?gt y x) rs" unfolding rs_def by (rule goSort.take_sorter_sorted [OF swo])
    then show "sorted_wrt (\<lambda>x y. f32_ge (vrScore x) (vrScore y)) rs"
      by (rule sorted_wrt_mono_rel [rotated]) (use tot sub in blast)
    show "\<forall>r\<in>set al. r \<notin> set rs \<longrightarrow> length rs = nat topK \<and> (\<forall>x\<in>set rs. f32_le (vrScore r) (vrScore x))"
    proof (intro ballI impI)
      fix r assume r: "r \<in> set al" "r \<notin> set rs"
      have "set (take (nat topK) (sortSlice ?gt al)) \<union> set (drop (nat topK) (sortSlice ?gt al)) = set al"
        by (metis append_take_drop_id goSort.sorter_set set_append)
      then have d: "r \<in> set (drop (nat topK) (sortSlice ?gt al))" using r by (auto simp: rs_def)
      then have "nat topK < length (sortSlice ?gt al)" by (metis drop_all empty_iff list.set(1) not_le)
      moreover have "f32_le (vrScore r) (vrScore x)" if "x \<in> set rs" for x
        using goSort.take_sorter_best [OF swo _ d] tot r(1) that sub by (auto simp: rs_def)
      ultimately show "length rs = nat topK \<and> (\<forall>x\<in>set rs. f32_le (vrScore r) (vrScore x))" by (simp add: rs_def)
    qed
  qed
  have "length rs \<le> nat topK" by (simp add: rs_def)
  moreover have "sorted_wrt (\<lambda>x y. f32_ge (vrScore x) (vrScore y)) rs \<and>
      (\<forall>(k, r)\<in>?pool. r \<notin> set rs \<longrightarrow> length rs = nat topK \<and> (\<forall>x\<in>set rs. f32_le (vrScore r) (vrScore x)))"
    if num: "\<forall>(k, r)\<in>?pool. \<not> f32_isNaN (vrScore r)"
  proof -
    have "\<forall>r\<in>set al. \<not> f32_isNaN (vrScore r)" using num pool by fast
    from best [OF this] show ?thesis using pool by fast
  qed
  ultimately show ?thesis using run dist hits by blast
qed

end
section \<open>The storage engine is a shard\<close>

definition lv_ok :: "Levara \<Rightarrow> bool" where
  "lv_ok db \<longleftrightarrow> (\<exists>pub recs. lv_inv pub recs db)"

definition lv_ready :: "(nat \<Rightarrow> nat \<Rightarrow> disk_io) \<Rightarrow> nat \<Rightarrow> nat \<Rightarrow> Levara \<Rightarrow> bool" where
  "lv_ready dio k n db \<longleftrightarrow>
     (\<forall>j. whole_write (dio k j)) \<and> arTotalVectors (dbArena db) + n < 2 ^ 32 \<and> dsPos (dbDisk db) + n * mib < 2 ^ 63"

definition lv_ins ::
  "('v insert_data \<Rightarrow> bytes option) \<Rightarrow> (nat \<Rightarrow> nat \<Rightarrow> disk_io) \<Rightarrow> (nat \<Rightarrow> nat \<Rightarrow> write_io) \<Rightarrow> (nat \<Rightarrow> flush_io) \<Rightarrow>
   nat \<Rightarrow> Levara \<Rightarrow> string \<Rightarrow> vec \<Rightarrow> 'v insert_data \<Rightarrow> lv_error option \<times> Levara" where
  "lv_ins marshal dio wio fio k db i v d = Insert marshal (dio k 0) (wio k 0) (fio k) db i v d"

definition lv_item :: "('v insert_data \<Rightarrow> bytes option) \<Rightarrow> vec \<Rightarrow> 'v insert_data \<Rightarrow> vec \<times> bytes" where
  "lv_item marshal v d = (arena_normalize v, the (insert_bytes marshal d))"

definition lv_bitem :: "('v \<Rightarrow> bytes option) \<Rightarrow> 'v BatchItem \<Rightarrow> vec \<times> bytes" where
  "lv_bitem marshal x = (arena_normalize (bVector x), the (marshal (bData x)))"

lemma foldl_batch_put:
  "foldl (batch_put marshal items) m ks = upd_all bID (lv_bitem marshal) m (map ((!) items) ks)"
  by (induction ks arbitrary: m) (simp_all only: foldl.simps list.map upd_all.simps batch_put_def lv_bitem_def)

lemma applied_at_reported: "n \<le> length (applied_at errs n) + length errs"
proof -
  let ?P = "\<lambda>k. \<forall>(j, i, e)\<in>set errs. j = k \<longrightarrow> applied (Some e)"
  have "length (filter (\<lambda>k. \<not> ?P k) [0..<n]) = card (set (filter (\<lambda>k. \<not> ?P k) [0..<n]))"
    by (rule distinct_card [symmetric]) simp
  also have "\<dots> \<le> card (fst ` set errs)" by (rule card_mono) (auto simp: rev_image_eqI)
  also have "\<dots> \<le> length errs" by (rule order_trans [OF card_image_le card_length]) simp
  finally have "length (filter (\<lambda>k. \<not> ?P k) [0..<n]) \<le> length errs" .
  moreover have "length (filter ?P [0..<n]) + length (filter (\<lambda>k. \<not> ?P k) [0..<n]) = n"
    using sum_length_filter_compl [of ?P "[0..<n]"] by simp
  ultimately show ?thesis unfolding applied_at_def by linarith
qed

interpretation lv_shard: shard_handler
  lv_ok lv_abs "lv_ready dio" "lv_ins marshal dio wio fio" "lv_item marshal"
  "\<lambda>k db i. Delete (wio k 0) (fio k) db i" applied
  "\<lambda>k db items. BatchInsert bmarshal (dio k) (wio k) (fio k) db items" "lv_bitem bmarshal"
  "\<lambda>k db ids. BatchDelete (wio k) (fio k) db ids" applied_at
  "\<lambda>k db q topK. Search dot db q topK" "search_hit dot"
  for dio wio fio marshal bmarshal dot
proof
  fix db db' k i v d r
  assume ok: "lv_ok db"
  then obtain pub recs where inv: "lv_inv pub recs db" by (auto simp: lv_ok_def)
  show "lv_ok db' \<and> lv_abs db' = (if applied r then (lv_abs db)(i \<mapsto> lv_item marshal v d) else lv_abs db)"
    if "lv_ready dio k 1 db" "lv_ins marshal dio wio fio k db i v d = (r, db')"
  proof -
    have sp: "lv_space db" "whole_write (dio k 0)" using that(1) by (auto simp: lv_ready_def lv_space_def)
    note R = Insert_refines [OF inv sp that(2) [unfolded lv_ins_def]]
    show ?thesis using R by (auto simp: lv_ok_def lv_item_def)
  qed
  show "lv_ok db' \<and> lv_abs db' = (if applied r then (lv_abs db)(i := None) else lv_abs db)"
    if "Delete (wio k 0) (fio k) db i = (r, db')"
    using Delete_refines(1,2) [OF inv that] by (auto simp: lv_ok_def)
next
  fix db k errs db' items
  assume "lv_ok db" and rdy: "lv_ready dio k (length items) db"
    and run: "BatchInsert bmarshal (dio k) (wio k) (fio k) db items = (errs, db')"
  then obtain pub recs where inv: "lv_inv pub recs db" by (auto simp: lv_ok_def)
  have "\<forall>j. whole_write (dio k j)" "arTotalVectors (dbArena db) + length items < 2 ^ 32" "dsPos (dbDisk db) + length items * mib < 2 ^ 63"
    using rdy by (simp_all add: lv_ready_def)
  from BatchInsert_refines [OF inv this run]
  show "lv_ok db' \<and> lv_abs db' = upd_all bID (lv_bitem bmarshal) (lv_abs db) (map ((!) items) (applied_at errs (length items)))"
    unfolding lv_ok_def foldl_batch_put by blast
next
  fix db k errs db' and ids :: "string list"
  assume "lv_ok db" and run: "BatchDelete (wio k) (fio k) db ids = (errs, db')"
  then obtain pub recs where inv: "lv_inv pub recs db" by (auto simp: lv_ok_def)
  from BatchDelete_refines [OF inv run]
  show "lv_ok db' \<and> lv_abs db' = lv_abs db |` (- (!) ids ` set (applied_at errs (length ids)))" unfolding lv_ok_def by blast
next
  show "\<exists>P. applied_at errs n = filter P [0..<n]" for errs n unfolding applied_at_def by blast
  show "n \<le> length (applied_at errs n) + length errs" for errs n by (rule applied_at_reported)
next
  fix db k q topK
  assume "lv_ok db"
  then obtain pub where "lv_mem pub db" by (auto simp: lv_ok_def lv_inv_def)
  from Search_refines [OF this, of dot q topK]
  show "length (Search dot db q topK) \<le> nat topK \<and> distinct (map vrID (Search dot db q topK)) \<and>
    (\<forall>r\<in>set (Search dot db q topK). search_hit dot db q r \<and> lv_abs db (vrID r) \<noteq> None)"
    by (auto simp: search_hit_def)
qed

end
