(* ===== verification/Replication.thy ===== *)
theory Replication
  imports Shard Levara_Restore "HOL-Library.AList"
begin

text \<open>
  \<open>internal/cluster/replication.go\<close> and \<open>direct.go\<close>: the replication stream between a primary and its replicas.

  The server and its node share one database and one mutex, so an operation of the node takes
  both and returns both. A Go channel is an entry of \<open>rsChans\<close>: its buffer and whether it is
  closed; a reference to it is its position. Sending on a closed channel or closing it twice panics,
  which is \<open>None\<close>. The map of listeners is an association list, and \<open>order\<close> is the order in which a loop visits it.
  Log lines and HTTP headers are not modelled; \<open>json\<close> is an argument wherever a value crosses the wire.
\<close>

section \<open>Entries\<close>

record WALEntry =
  eOp :: nat
  eID :: string
  eVector :: vec
  eMetadata :: bytes
  eSeq :: "64 word"

definition WALEntryFromInsert :: "('v insert_data \<Rightarrow> bytes option) \<Rightarrow> string \<Rightarrow> vec \<Rightarrow> 'v insert_data \<Rightarrow> WALEntry" where
  "WALEntryFromInsert marshal i vector metadata =
     (let meta = (case metadata of
            DRaw v \<Rightarrow> v
          | DString v \<Rightarrow>
              if 0 < length v \<and> (v ! 0 = CHR ''{'' \<or> v ! 0 = CHR ''['') then v
              else (case marshal metadata of None \<Rightarrow> [] | Some data \<Rightarrow> data)
          | DValue _ \<Rightarrow> (case marshal metadata of None \<Rightarrow> [] | Some data \<Rightarrow> data))
      in \<lparr>eOp = OpInsert, eID = i, eVector = vector, eMetadata = meta, eSeq = 0\<rparr>)"

definition WALEntryFromDelete :: "string \<Rightarrow> WALEntry" where
  "WALEntryFromDelete i = \<lparr>eOp = OpDelete, eID = i, eVector = [], eMetadata = [], eSeq = 0\<rparr>"

section \<open>The replication server\<close>

record Chan =
  chBuf :: "WALEntry list"
  chClosed :: bool

record ReplicationServer =
  rsListeners :: "(string \<times> nat) list"
  rsChans :: "Chan list"
  rsSeq :: "64 word"
  rsNodeID :: string
  rsRole :: string
  rsPrimaryAddr :: string

definition NewReplicationServer :: "string \<Rightarrow> ReplicationServer" where
  "NewReplicationServer nodeID =
     \<lparr>rsListeners = [], rsChans = [], rsSeq = 0, rsNodeID = nodeID, rsRole = ''primary'', rsPrimaryAddr = []\<rparr>"

definition Role :: "ReplicationServer \<Rightarrow> string" where
  "Role rs = rsRole rs"

definition SetRole :: "string \<Rightarrow> ReplicationServer \<Rightarrow> ReplicationServer" where
  "SetRole role rs = rs\<lparr>rsRole := role\<rparr>"

definition PrimaryAddr :: "ReplicationServer \<Rightarrow> string" where
  "PrimaryAddr rs = rsPrimaryAddr rs"

definition SetPrimaryAddr :: "string \<Rightarrow> ReplicationServer \<Rightarrow> ReplicationServer" where
  "SetPrimaryAddr addr rs = rs\<lparr>rsPrimaryAddr := addr\<rparr>"

text \<open>\<open>close(ch)\<close>\<close>

definition close_chan :: "nat \<Rightarrow> ReplicationServer \<Rightarrow> ReplicationServer option" where
  "close_chan ch rs =
     (if length (rsChans rs) \<le> ch \<or> chClosed (rsChans rs ! ch) then None
      else Some (rs\<lparr>rsChans := (rsChans rs)[ch := (rsChans rs ! ch)\<lparr>chClosed := True\<rparr>]\<rparr>))"

definition drop_listener :: "string \<Rightarrow> ReplicationServer \<Rightarrow> ReplicationServer" where
  "drop_listener rid rs = rs\<lparr>rsListeners := AList.delete rid (rsListeners rs)\<rparr>"

definition chan_cap :: nat where
  "chan_cap = 10000"

fun broadcast_each :: "WALEntry \<Rightarrow> string list \<Rightarrow> ReplicationServer \<Rightarrow> ReplicationServer option" where
  "broadcast_each entry [] rs = Some rs"
| "broadcast_each entry (rid # rids) rs =
     (case map_of (rsListeners rs) rid of
        None \<Rightarrow> broadcast_each entry rids rs
      | Some ch \<Rightarrow>
          if length (rsChans rs) \<le> ch \<or> chClosed (rsChans rs ! ch) then None
          else if length (chBuf (rsChans rs ! ch)) < chan_cap then
            broadcast_each entry rids
              (rs\<lparr>rsChans := (rsChans rs)[ch := (rsChans rs ! ch)\<lparr>chBuf := chBuf (rsChans rs ! ch) @ [entry]\<rparr>]\<rparr>)
          else case close_chan ch rs of
            None \<Rightarrow> None
          | Some rs' \<Rightarrow> broadcast_each entry rids (drop_listener rid rs'))"

definition broadcastLocked :: "string list \<Rightarrow> WALEntry \<Rightarrow> ReplicationServer \<Rightarrow> ReplicationServer option" where
  "broadcastLocked order entry rs =
     (let n = rsSeq rs + 1 in broadcast_each (entry\<lparr>eSeq := n\<rparr>) order (rs\<lparr>rsSeq := n\<rparr>))"

definition Broadcast :: "string list \<Rightarrow> WALEntry \<Rightarrow> ReplicationServer \<Rightarrow> ReplicationServer option" where
  "Broadcast order entry rs = broadcastLocked order entry rs"

fun invalidate_each :: "string list \<Rightarrow> ReplicationServer \<Rightarrow> ReplicationServer option" where
  "invalidate_each [] rs = Some rs"
| "invalidate_each (rid # rids) rs =
     (case map_of (rsListeners rs) rid of
        None \<Rightarrow> invalidate_each rids rs
      | Some ch \<Rightarrow>
          (case close_chan ch rs of
             None \<Rightarrow> None
           | Some rs' \<Rightarrow> invalidate_each rids (drop_listener rid rs')))"

definition invalidateLocked :: "string list \<Rightarrow> ReplicationServer \<Rightarrow> ReplicationServer option" where
  "invalidateLocked order rs = invalidate_each order rs"

definition addReplicaLocked :: "string \<Rightarrow> ReplicationServer \<Rightarrow> (nat \<times> ReplicationServer) option" where
  "addReplicaLocked replicaID rs =
     (case (case map_of (rsListeners rs) replicaID of None \<Rightarrow> Some rs | Some old \<Rightarrow> close_chan old rs) of
        None \<Rightarrow> None
      | Some rs' \<Rightarrow>
          Some (length (rsChans rs'),
            rs'\<lparr>rsChans := rsChans rs' @ [\<lparr>chBuf = [], chClosed = False\<rparr>],
                rsListeners := AList.update replicaID (length (rsChans rs')) (rsListeners rs')\<rparr>))"

definition AddReplica :: "string \<Rightarrow> ReplicationServer \<Rightarrow> (nat \<times> ReplicationServer) option" where
  "AddReplica replicaID rs = addReplicaLocked replicaID rs"

definition RemoveReplica :: "string \<Rightarrow> ReplicationServer \<Rightarrow> ReplicationServer option" where
  "RemoveReplica replicaID rs =
     (case map_of (rsListeners rs) replicaID of
        None \<Rightarrow> Some rs
      | Some ch \<Rightarrow> (case close_chan ch rs of None \<Rightarrow> None | Some rs' \<Rightarrow> Some (drop_listener replicaID rs')))"

definition ReplicaCount :: "ReplicationServer \<Rightarrow> nat" where
  "ReplicaCount rs = length (rsListeners rs)"

section \<open>The stream handler\<close>

record replicationSnapshot =
  smVersion :: int
  smKind :: string
  smSeq :: "64 word option"
  smRecords :: "SnapshotRecord list option"

datatype stream_error = StreamNoID | StreamNoFlusher | StreamSource

text \<open>Admission: the snapshot and the listener are taken under one lock.\<close>

definition stream_admit ::
  "bool \<Rightarrow> string list \<Rightarrow> string \<Rightarrow> Levara \<Rightarrow> ReplicationServer \<Rightarrow>
   (stream_error + (replicationSnapshot \<times> nat \<times> ReplicationServer)) option" where
  "stream_admit flusher order replicaID db rs =
     (if replicaID = [] then Some (Inl StreamNoID)
      else if \<not> flusher then Some (Inl StreamNoFlusher)
      else case AllRecordsChecked order db of
        Inl _ \<Rightarrow> Some (Inl StreamSource)
      | Inr records \<Rightarrow>
          (case addReplicaLocked replicaID rs of
             None \<Rightarrow> None
           | Some (ch, rs') \<Rightarrow>
               Some (Inr (\<lparr>smVersion = 1, smKind = ''snapshot'', smSeq = Some (rsSeq rs'), smRecords = Some records\<rparr>, ch, rs'))))"

text \<open>One turn of the loop: \<open>None\<close> blocks, \<open>Some None\<close> returns because the channel is closed and empty.\<close>

definition stream_recv :: "nat \<Rightarrow> ReplicationServer \<Rightarrow> (WALEntry option \<times> ReplicationServer) option" where
  "stream_recv ch rs =
     (case chBuf (rsChans rs ! ch) of
        e # es \<Rightarrow> Some (Some e, rs\<lparr>rsChans := (rsChans rs)[ch := (rsChans rs ! ch)\<lparr>chBuf := es\<rparr>]\<rparr>)
      | [] \<Rightarrow> if chClosed (rsChans rs ! ch) then Some (None, rs) else None)"

text \<open>The deferred function.\<close>

definition stream_cleanup :: "string \<Rightarrow> nat \<Rightarrow> ReplicationServer \<Rightarrow> ReplicationServer option" where
  "stream_cleanup replicaID ch rs =
     (if map_of (rsListeners rs) replicaID = Some ch
      then (case close_chan ch rs of None \<Rightarrow> None | Some rs' \<Rightarrow> Some (drop_listener replicaID rs'))
      else Some rs)"

definition HandleSnapshot :: "string list \<Rightarrow> Levara \<Rightarrow> stream_error + SnapshotRecord list" where
  "HandleSnapshot order db = (case AllRecordsChecked order db of Inl _ \<Rightarrow> Inl StreamSource | Inr records \<Rightarrow> Inr records)"

record cluster_state =
  csNodeID :: string
  csRole :: string
  csPrimaryAddr :: string
  csReplicas :: "string list"
  csReplicaCount :: nat
  csWalSeq :: "64 word"

definition HandleClusterState :: "ReplicationServer \<Rightarrow> cluster_state" where
  "HandleClusterState rs =
     (let replicas = map fst (rsListeners rs) in
      \<lparr>csNodeID = rsNodeID rs, csRole = Role rs, csPrimaryAddr = PrimaryAddr rs, csReplicas = replicas,
       csReplicaCount = length replicas, csWalSeq = rsSeq rs\<rparr>)"

section \<open>The node of a standalone shard\<close>

record DirectNode =
  dnDB :: Levara
  dnRepl :: "ReplicationServer option"

datatype node_error = NBatch nat string lv_error | NPlain lv_error

text \<open>The effect of one write on the server: a failed one invalidates the listeners, one that worked is sent to them.\<close>

definition repl_after :: "string list \<Rightarrow> bool \<Rightarrow> WALEntry \<Rightarrow> ReplicationServer \<Rightarrow> ReplicationServer option" where
  "repl_after order failed entry rs =
     (if failed then invalidateLocked order rs
      else if rsListeners rs \<noteq> [] then broadcastLocked order entry rs else Some rs)"

text \<open>
  \<open>Insert\<close>. \<open>VectorArena.Add\<close> normalizes the caller's slice in place, so the entry that is sent has the normalized
  vector.
\<close>

definition DirectNode_Insert ::
  "('v insert_data \<Rightarrow> bytes option) \<Rightarrow> disk_io \<Rightarrow> write_io \<Rightarrow> flush_io \<Rightarrow> string list \<Rightarrow> DirectNode \<Rightarrow>
   string \<Rightarrow> vec \<Rightarrow> 'v insert_data \<Rightarrow> (lv_error option \<times> DirectNode) option" where
  "DirectNode_Insert marshal dio wio fio order dn i vector data =
     (case Insert marshal dio wio fio (dnDB dn) i vector data of (r, db') \<Rightarrow>
        case dnRepl dn of
          None \<Rightarrow> Some (r, dn\<lparr>dnDB := db'\<rparr>)
        | Some rs \<Rightarrow>
            (case repl_after order (r \<noteq> None) (WALEntryFromInsert marshal i (arena_normalize vector) data) rs of
               None \<Rightarrow> None
             | Some rs' \<Rightarrow> Some (r, \<lparr>dnDB = db', dnRepl = Some rs'\<rparr>)))"

text \<open>The loop of \<open>BatchInsert\<close> while a replica listens.\<close>

fun direct_inserts ::
  "('v \<Rightarrow> bytes option) \<Rightarrow> (nat \<Rightarrow> disk_io) \<Rightarrow> (nat \<Rightarrow> write_io) \<Rightarrow> (nat \<Rightarrow> flush_io) \<Rightarrow> (nat \<Rightarrow> string list) \<Rightarrow> nat \<Rightarrow>
   'v BatchItem list \<Rightarrow> Levara \<Rightarrow> ReplicationServer \<Rightarrow> (node_error list \<times> Levara \<times> ReplicationServer) option" where
  "direct_inserts marshal dio wio fio order k [] db rs = Some ([], db, rs)"
| "direct_inserts marshal dio wio fio order k (r # records) db rs =
     (case marshal (bData r) of
        None \<Rightarrow>
          (case direct_inserts marshal dio wio fio order (k + 1) records db rs of
             None \<Rightarrow> None | Some (errs, st) \<Rightarrow> Some (NPlain LvMarshal # errs, st))
      | Some metadata \<Rightarrow>
          (case Insert (\<lambda>_ :: unit insert_data. None) (dio k) (wio k) (fio k) db (bID r) (bVector r) (DRaw metadata) of
             (Some e, db') \<Rightarrow>
               (case invalidateLocked (order k) rs of
                  None \<Rightarrow> None
                | Some rs' \<Rightarrow>
                    (case direct_inserts marshal dio wio fio order (k + 1) records db' rs' of
                       None \<Rightarrow> None | Some (errs, st) \<Rightarrow> Some (NPlain e # errs, st)))
           | (None, db') \<Rightarrow>
               (case (if rsListeners rs \<noteq> []
                      then broadcastLocked (order k)
                             (WALEntryFromInsert (\<lambda>_ :: unit insert_data. None) (bID r) (arena_normalize (bVector r)) (DRaw metadata)) rs
                      else Some rs) of
                  None \<Rightarrow> None
                | Some rs' \<Rightarrow> direct_inserts marshal dio wio fio order (k + 1) records db' rs')))"

definition native_errors :: "batch_errors \<Rightarrow> node_error list" where
  "native_errors errs = map (\<lambda>(k, i, e). NBatch k i e) errs"

definition DirectNode_BatchInsert ::
  "('v \<Rightarrow> bytes option) \<Rightarrow> (nat \<Rightarrow> disk_io) \<Rightarrow> (nat \<Rightarrow> write_io) \<Rightarrow> (nat \<Rightarrow> flush_io) \<Rightarrow> (nat \<Rightarrow> string list) \<Rightarrow> DirectNode \<Rightarrow>
   'v BatchItem list \<Rightarrow> (node_error list \<times> DirectNode) option" where
  "DirectNode_BatchInsert marshal dio wio fio order dn records =
     (case dnRepl dn of
        None \<Rightarrow> (case BatchInsert marshal dio wio (fio 0) (dnDB dn) records of (errs, db') \<Rightarrow> Some (native_errors errs, dn\<lparr>dnDB := db'\<rparr>))
      | Some rs \<Rightarrow>
          if rsListeners rs = []
          then (case BatchInsert marshal dio wio (fio 0) (dnDB dn) records of (errs, db') \<Rightarrow> Some (native_errors errs, dn\<lparr>dnDB := db'\<rparr>))
          else (case direct_inserts marshal dio wio fio order 0 records (dnDB dn) rs of
                  None \<Rightarrow> None
                | Some (errs, db', rs') \<Rightarrow> Some (errs, \<lparr>dnDB = db', dnRepl = Some rs'\<rparr>)))"

definition DirectNode_Search :: "dot_fn \<Rightarrow> DirectNode \<Rightarrow> vec \<Rightarrow> int \<Rightarrow> VectroRecord list" where
  "DirectNode_Search dot dn query topK = Search dot (dnDB dn) query topK"

text \<open>A delete that fails invalidates the listeners only if the record existed.\<close>

definition DirectNode_Delete ::
  "write_io \<Rightarrow> flush_io \<Rightarrow> string list \<Rightarrow> DirectNode \<Rightarrow> string \<Rightarrow> (lv_error option \<times> DirectNode) option" where
  "DirectNode_Delete wio fio order dn i =
     (let existed = Get (dnDB dn) i \<noteq> None in
      case Delete wio fio (dnDB dn) i of (r, db') \<Rightarrow>
        case dnRepl dn of
          None \<Rightarrow> Some (r, dn\<lparr>dnDB := db'\<rparr>)
        | Some rs \<Rightarrow>
            (case (if r \<noteq> None \<and> \<not> existed then Some rs else repl_after order (r \<noteq> None) (WALEntryFromDelete i) rs) of
               None \<Rightarrow> None
             | Some rs' \<Rightarrow> Some (r, \<lparr>dnDB = db', dnRepl = Some rs'\<rparr>)))"

fun direct_deletes ::
  "(nat \<Rightarrow> write_io) \<Rightarrow> (nat \<Rightarrow> flush_io) \<Rightarrow> (nat \<Rightarrow> string list) \<Rightarrow> nat \<Rightarrow> string list \<Rightarrow> Levara \<Rightarrow> ReplicationServer \<Rightarrow>
   (node_error list \<times> Levara \<times> ReplicationServer) option" where
  "direct_deletes wio fio order k [] db rs = Some ([], db, rs)"
| "direct_deletes wio fio order k (i # ids) db rs =
     (let existed = Get db i \<noteq> None in
      case Delete (wio k) (fio k) db i of
        (Some e, db') \<Rightarrow>
          (case (if existed then invalidateLocked (order k) rs else Some rs) of
             None \<Rightarrow> None
           | Some rs' \<Rightarrow>
               (case direct_deletes wio fio order (k + 1) ids db' rs' of
                  None \<Rightarrow> None | Some (errs, st) \<Rightarrow> Some (NPlain e # errs, st)))
      | (None, db') \<Rightarrow>
          (case (if rsListeners rs \<noteq> [] then broadcastLocked (order k) (WALEntryFromDelete i) rs else Some rs) of
             None \<Rightarrow> None
           | Some rs' \<Rightarrow> direct_deletes wio fio order (k + 1) ids db' rs'))"

definition DirectNode_BatchDelete ::
  "(nat \<Rightarrow> write_io) \<Rightarrow> (nat \<Rightarrow> flush_io) \<Rightarrow> (nat \<Rightarrow> string list) \<Rightarrow> DirectNode \<Rightarrow> string list \<Rightarrow>
   (node_error list \<times> DirectNode) option" where
  "DirectNode_BatchDelete wio fio order dn ids =
     (case dnRepl dn of
        None \<Rightarrow> (case BatchDelete wio (fio 0) (dnDB dn) ids of (errs, db') \<Rightarrow> Some (native_errors errs, dn\<lparr>dnDB := db'\<rparr>))
      | Some rs \<Rightarrow>
          if rsListeners rs = []
          then (case BatchDelete wio (fio 0) (dnDB dn) ids of (errs, db') \<Rightarrow> Some (native_errors errs, dn\<lparr>dnDB := db'\<rparr>))
          else (case direct_deletes wio fio order 0 ids (dnDB dn) rs of
                  None \<Rightarrow> None
                | Some (errs, db', rs') \<Rightarrow> Some (errs, \<lparr>dnDB = db', dnRepl = Some rs'\<rparr>)))"

section \<open>The replica\<close>

datatype replica_error =
    RcStatus | RcDecode | RcUnsupported | RcCancelled | RcRestore lv_error | RcSequence | RcOperation nat | RcApply lv_error

text \<open>\<open>openStream\<close> after the request: the status, what the decoder reads, whether the context is cancelled.\<close>

definition openStream ::
  "dot_fn \<Rightarrow> (nat \<Rightarrow> nat) \<Rightarrow> (nat \<Rightarrow> disk_io) \<Rightarrow> publish_io \<Rightarrow> bool \<Rightarrow> replicationSnapshot option \<Rightarrow> bool \<Rightarrow> Levara \<Rightarrow>
   (replica_error + 64 word) \<times> Levara" where
  "openStream dot levels dio pio statusOk decoded cancelled db =
     (if \<not> statusOk then (Inl RcStatus, db)
      else case decoded of
        None \<Rightarrow> (Inl RcDecode, db)
      | Some snapshot \<Rightarrow>
          if smVersion snapshot \<noteq> 1 \<or> smKind snapshot \<noteq> ''snapshot'' \<or> smRecords snapshot = None \<or> smSeq snapshot = None
          then (Inl RcUnsupported, db)
          else if cancelled then (Inl RcCancelled, db)
          else case RestoreSnapshot dot levels dio pio db (the (smRecords snapshot)) of
            (Some e, db') \<Rightarrow> (Inl (RcRestore e), db')
          | (None, db') \<Rightarrow> (Inr (the (smSeq snapshot)), db'))"

text \<open>One entry of \<open>readStream\<close>.\<close>

definition readStream_entry ::
  "disk_io \<Rightarrow> write_io \<Rightarrow> flush_io \<Rightarrow> 64 word \<Rightarrow> WALEntry \<Rightarrow> Levara \<Rightarrow> (replica_error + 64 word) \<times> Levara" where
  "readStream_entry dio wio fio n entry db =
     (if n = -1 \<or> eSeq entry \<noteq> n + 1 \<or> eID entry = [] then (Inl RcSequence, db)
      else if eOp entry = OpInsert then
        (case Insert (\<lambda>_ :: unit insert_data. None) dio wio fio db (eID entry) (eVector entry) (DRaw (eMetadata entry)) of
           (Some e, db') \<Rightarrow> (Inl (RcApply e), db') | (None, db') \<Rightarrow> (Inr (eSeq entry), db'))
      else if eOp entry = OpDelete then
        (case Delete wio fio db (eID entry) of
           (Some e, db') \<Rightarrow> (Inl (RcApply e), db') | (None, db') \<Rightarrow> (Inr (eSeq entry), db'))
      else (Inl (RcOperation (eOp entry)), db))"

text \<open>\<open>readStream\<close> on what the decoder reads; \<open>None\<close> is a decoding error, the end of the list a cancelled context.\<close>

fun readStream ::
  "(nat \<Rightarrow> disk_io) \<Rightarrow> (nat \<Rightarrow> write_io) \<Rightarrow> (nat \<Rightarrow> flush_io) \<Rightarrow> nat \<Rightarrow> 64 word \<Rightarrow> WALEntry option list \<Rightarrow> Levara \<Rightarrow>
   replica_error \<times> Levara" where
  "readStream dio wio fio k n [] db = (RcCancelled, db)"
| "readStream dio wio fio k n (None # es) db = (RcDecode, db)"
| "readStream dio wio fio k n (Some entry # es) db =
     (case readStream_entry (dio k) (wio k) (fio k) n entry db of
        (Inl e, db') \<Rightarrow> (e, db')
      | (Inr n', db') \<Rightarrow> readStream dio wio fio (k + 1) n' es db')"

text \<open>The delay of \<open>streamLoop\<close> before the next connection, in nanoseconds.\<close>

definition second :: int where
  "second = 1000000000"

definition next_backoff :: "bool \<Rightarrow> int \<Rightarrow> int" where
  "next_backoff failed backoff =
     (if failed then
        (if backoff < 30 * second then (let b = backoff * 2 in if 30 * second < b then 30 * second else b) else backoff)
      else second)"

end
