(* ===== verification/Replication_Server.thy ===== *)
theory Replication_Server
  imports Replication
begin

text \<open>
  The server's channels. Invariant: every listener has a channel of its own that is open and not over-full, so no
  send and no close ever panics; a broadcast reaches every listener with room, in sequence, and cuts off the others.
\<close>

definition rs_inv :: "ReplicationServer \<Rightarrow> bool" where
  "rs_inv rs \<longleftrightarrow>
     distinct (map fst (rsListeners rs)) \<and> distinct (map snd (rsListeners rs)) \<and>
     (\<forall>(rid, ch)\<in>set (rsListeners rs). ch < length (rsChans rs) \<and> \<not> chClosed (rsChans rs ! ch) \<and>
        length (chBuf (rsChans rs ! ch)) \<le> chan_cap)"

text \<open>\<open>order\<close> visits every listener once.\<close>

definition visits :: "ReplicationServer \<Rightarrow> string list \<Rightarrow> bool" where
  "visits rs order \<longleftrightarrow> distinct order \<and> set order = fst ` set (rsListeners rs)"

definition live :: "ReplicationServer \<Rightarrow> string \<Rightarrow> nat \<Rightarrow> bool" where
  "live rs rid ch \<longleftrightarrow> map_of (rsListeners rs) rid = Some ch"

lemma rs_inv_new: "rs_inv (NewReplicationServer nodeID)"
  by (simp add: rs_inv_def NewReplicationServer_def)

lemma live_iff: "rs_inv rs \<Longrightarrow> live rs rid ch \<longleftrightarrow> (rid, ch) \<in> set (rsListeners rs)"
  by (simp add: live_def rs_inv_def map_of_eq_Some_iff)

lemma live_chan:
  "rs_inv rs \<Longrightarrow> live rs rid ch \<Longrightarrow> ch < length (rsChans rs) \<and> \<not> chClosed (rsChans rs ! ch) \<and> length (chBuf (rsChans rs ! ch)) \<le> chan_cap"
  using live_iff [of rs rid ch] unfolding rs_inv_def by blast

lemma live_inj:
  assumes "rs_inv rs" "live rs rid ch" "live rs rid' ch"
  shows "rid = rid'"
proof -
  have "(rid, ch) \<in> set (rsListeners rs)" "(rid', ch) \<in> set (rsListeners rs)" using assms live_iff by blast+
  moreover have "inj_on snd (set (rsListeners rs))" using assms(1) by (simp add: rs_inv_def distinct_map)
  ultimately have "(rid, ch) = (rid', ch)" by (intro inj_onD [of snd "set (rsListeners rs)"]) simp_all
  then show ?thesis by simp
qed

section \<open>Removing a listener\<close>

definition shut :: "string \<Rightarrow> nat \<Rightarrow> ReplicationServer \<Rightarrow> ReplicationServer" where
  "shut rid ch rs =
     rs\<lparr>rsChans := (rsChans rs)[ch := (rsChans rs ! ch)\<lparr>chClosed := True\<rparr>], rsListeners := AList.delete rid (rsListeners rs)\<rparr>"

lemma close_drop: "rs_inv rs \<Longrightarrow> live rs rid ch \<Longrightarrow> \<exists>rs'. close_chan ch rs = Some rs' \<and> drop_listener rid rs' = shut rid ch rs"
  using live_chan [of rs rid ch] by (simp add: close_chan_def drop_listener_def shut_def)

lemma shut_live: "live (shut rid ch rs) rid' ch' \<longleftrightarrow> rid' \<noteq> rid \<and> live rs rid' ch'"
  by (auto simp: live_def shut_def AList.delete_conv')

lemma shut_frame [simp]: "rsSeq (shut rid ch rs) = rsSeq rs" "length (rsChans (shut rid ch rs)) = length (rsChans rs)"
  by (simp_all add: shut_def)

lemma shut_chan: "c \<noteq> ch \<Longrightarrow> rsChans (shut rid ch rs) ! c = rsChans rs ! c"
  by (simp add: shut_def)

lemma shut_buf: "chBuf (rsChans (shut rid ch rs) ! c) = chBuf (rsChans rs ! c)"
  by (cases "ch < length (rsChans rs)") (auto simp: shut_def nth_list_update list_update_beyond not_less)

lemma shut_inv:
  assumes "rs_inv rs" "live rs rid ch"
  shows "rs_inv (shut rid ch rs)"
proof -
  have sub: "set (AList.delete rid (rsListeners rs)) \<subseteq> set (rsListeners rs)" by (auto simp: AList.delete_eq)
  have d: "distinct (map fst (AList.delete rid (rsListeners rs)))" "distinct (map snd (AList.delete rid (rsListeners rs)))"
    using assms(1) by (auto simp: rs_inv_def AList.delete_eq distinct_map intro: inj_on_subset)
  have "c < length (rsChans (shut rid ch rs)) \<and> \<not> chClosed (rsChans (shut rid ch rs) ! c) \<and>
      length (chBuf (rsChans (shut rid ch rs) ! c)) \<le> chan_cap"
    if "(r, c) \<in> set (AList.delete rid (rsListeners rs))" for r c
  proof -
    have "r \<noteq> rid" "live rs r c" using that sub assms(1) by (auto simp: live_iff AList.delete_eq)
    then have "c \<noteq> ch" using live_inj [OF assms(1)] assms(2) by blast
    then show ?thesis using live_chan [OF assms(1) \<open>live rs r c\<close>] by (simp add: shut_chan)
  qed
  then show ?thesis using d unfolding rs_inv_def by (auto simp: shut_def)
qed

section \<open>Broadcast and invalidation\<close>

definition push :: "nat \<Rightarrow> WALEntry \<Rightarrow> ReplicationServer \<Rightarrow> ReplicationServer" where
  "push ch e rs = rs\<lparr>rsChans := (rsChans rs)[ch := (rsChans rs ! ch)\<lparr>chBuf := chBuf (rsChans rs ! ch) @ [e]\<rparr>]\<rparr>"

lemma push_live [simp]: "live (push ch e rs) rid' ch' = live rs rid' ch'"
  by (simp add: live_def push_def)

lemma push_frame [simp]: "rsSeq (push ch e rs) = rsSeq rs" "length (rsChans (push ch e rs)) = length (rsChans rs)"
  by (simp_all add: push_def)

lemma push_chan: "c \<noteq> ch \<Longrightarrow> rsChans (push ch e rs) ! c = rsChans rs ! c"
  by (simp add: push_def)

lemma push_inv:
  assumes "rs_inv rs" "live rs rid ch" "length (chBuf (rsChans rs ! ch)) < chan_cap"
  shows "rs_inv (push ch e rs)"
proof -
  have "ch < length (rsChans rs)" using live_chan [OF assms(1,2)] by simp
  then show ?thesis using assms(1,3) by (auto simp: rs_inv_def push_def nth_list_update split: if_splits)
qed

text \<open>What a broadcast does to one channel, and that it does it once.\<close>

definition sent :: "WALEntry \<Rightarrow> string set \<Rightarrow> ReplicationServer \<Rightarrow> ReplicationServer \<Rightarrow> bool" where
  "sent e S rs rs' \<longleftrightarrow> rs_inv rs' \<and> rsSeq rs' = rsSeq rs \<and> length (rsChans rs') = length (rsChans rs) \<and>
    (\<forall>rid ch. live rs' rid ch \<longleftrightarrow> live rs rid ch \<and> (rid \<in> S \<longrightarrow> length (chBuf (rsChans rs ! ch)) < chan_cap)) \<and>
    (\<forall>rid ch. live rs' rid ch \<longrightarrow> chBuf (rsChans rs' ! ch) = chBuf (rsChans rs ! ch) @ (if rid \<in> S then [e] else [])) \<and>
    (\<forall>ch. (\<forall>rid. \<not> live rs' rid ch) \<longrightarrow> chBuf (rsChans rs' ! ch) = chBuf (rsChans rs ! ch))"

lemma sentD:
  assumes "sent e S rs rs'"
  shows "live rs' rid ch \<longleftrightarrow> live rs rid ch \<and> (rid \<in> S \<longrightarrow> length (chBuf (rsChans rs ! ch)) < chan_cap)"
    "live rs' rid ch \<Longrightarrow> chBuf (rsChans rs' ! ch) = chBuf (rsChans rs ! ch) @ (if rid \<in> S then [e] else [])"
    "\<forall>rid. \<not> live rs' rid ch \<Longrightarrow> chBuf (rsChans rs' ! ch) = chBuf (rsChans rs ! ch)"
  using assms unfolding sent_def by blast+

lemma sent_refl: "rs_inv rs \<Longrightarrow> sent e {} rs rs"
  by (simp add: sent_def)

lemma sent_skip:
  assumes "sent e S rs rs'" "\<And>ch. \<not> live rs r ch"
  shows "sent e (insert r S) rs rs'"
proof -
  have "\<not> live rs' r ch" for ch using assms unfolding sent_def by blast
  then show ?thesis using assms unfolding sent_def by auto
qed

lemma sent_push:
  assumes inv: "rs_inv rs" and lv: "live rs r ch0" and room: "length (chBuf (rsChans rs ! ch0)) < chan_cap"
    and s: "sent e S (push ch0 e rs) rs'" and r: "r \<notin> S"
  shows "sent e (insert r S) rs rs'"
proof -
  have ch0: "ch0 < length (rsChans rs)" using live_chan [OF inv lv] by simp
  have buf: "chBuf (rsChans (push ch0 e rs) ! ch) = chBuf (rsChans rs ! ch) @ (if ch = ch0 then [e] else [])" for ch
    using ch0 by (simp add: push_def)
  have own: "ch = ch0 \<longleftrightarrow> rid = r" if "live rs rid ch" for rid ch
    using that lv live_inj [OF inv] by (auto simp: live_def)
  have l: "live rs' rid ch \<longleftrightarrow> live rs rid ch \<and> (rid \<in> S \<longrightarrow> length (chBuf (rsChans (push ch0 e rs) ! ch)) < chan_cap)" for rid ch
    using s unfolding sent_def by simp
  have l': "live rs' rid ch \<longleftrightarrow> live rs rid ch \<and> (rid \<in> insert r S \<longrightarrow> length (chBuf (rsChans rs ! ch)) < chan_cap)" for rid ch
    using l [of rid ch] own [of rid ch] room r by (cases "rid = r") (auto simp: buf)
  have b: "chBuf (rsChans rs' ! ch) = chBuf (rsChans rs ! ch) @ (if rid \<in> insert r S then [e] else [])" if "live rs' rid ch" for rid ch
    using sentD(2) [OF s that] that own [of rid ch] l [of rid ch] r by (simp add: buf)
  have "live rs' r ch0" using l' lv room by simp
  then have "chBuf (rsChans rs' ! ch) = chBuf (rsChans rs ! ch)" if "\<forall>rid. \<not> live rs' rid ch" for ch
    using s that unfolding sent_def by (cases "ch = ch0") (auto simp: buf)
  then show ?thesis using s l' b unfolding sent_def by simp
qed

lemma sent_shut:
  assumes lv: "live rs r ch0" and full: "\<not> length (chBuf (rsChans rs ! ch0)) < chan_cap" and s: "sent e S (shut r ch0 rs) rs'"
  shows "sent e (insert r S) rs rs'"
proof -
  have l: "live rs' rid ch \<longleftrightarrow> rid \<noteq> r \<and> live rs rid ch \<and> (rid \<in> S \<longrightarrow> length (chBuf (rsChans rs ! ch)) < chan_cap)" for rid ch
    using s unfolding sent_def by (auto simp: shut_live shut_buf)
  have own: "ch = ch0" if "live rs r ch" for ch using that lv by (simp add: live_def)
  have l': "live rs' rid ch \<longleftrightarrow> live rs rid ch \<and> (rid \<in> insert r S \<longrightarrow> length (chBuf (rsChans rs ! ch)) < chan_cap)" for rid ch
    using l [of rid ch] own [of ch] full by (cases "rid = r") auto
  have "chBuf (rsChans rs' ! ch) = chBuf (rsChans rs ! ch) @ (if rid \<in> insert r S then [e] else [])" if "live rs' rid ch" for rid ch
    using s that l [of rid ch] unfolding sent_def shut_buf by auto
  moreover have "chBuf (rsChans rs' ! ch) = chBuf (rsChans rs ! ch)" if "\<forall>rid. \<not> live rs' rid ch" for ch
    using s that unfolding sent_def shut_buf by blast
  ultimately show ?thesis using s l' unfolding sent_def shut_frame by blast
qed

lemma broadcast_each_ok:
  assumes "rs_inv rs" "distinct order"
  shows "\<exists>rs'. broadcast_each e order rs = Some rs' \<and> sent e (set order) rs rs'"
  using assms
proof (induction order arbitrary: rs)
  case (Cons r order)
  have d: "distinct order" "r \<notin> set order" using Cons.prems(2) by simp_all
  show ?case
  proof (cases "map_of (rsListeners rs) r")
    case None
    then have "\<not> live rs r ch" for ch by (simp add: live_def)
    then show ?thesis using Cons.IH [OF Cons.prems(1) d(1)] None sent_skip by fastforce
  next
    case (Some ch0)
    then have lv: "live rs r ch0" by (simp add: live_def)
    note ch0 = live_chan [OF Cons.prems(1) lv]
    show ?thesis
    proof (cases "length (chBuf (rsChans rs ! ch0)) < chan_cap")
      case True
      have run: "broadcast_each e (r # order) rs = broadcast_each e order (push ch0 e rs)"
        using Some ch0 True by (simp add: push_def)
      show ?thesis
        unfolding run list.set(2)
        using Cons.IH [OF push_inv [OF Cons.prems(1) lv True] d(1)] sent_push [OF Cons.prems(1) lv True _ d(2)] by blast
    next
      case False
      obtain rs1 where cl: "close_chan ch0 rs = Some rs1" "drop_listener r rs1 = shut r ch0 rs"
        using close_drop [OF Cons.prems(1) lv] by blast
      then have run: "broadcast_each e (r # order) rs = broadcast_each e order (shut r ch0 rs)" using Some ch0 False by simp
      show ?thesis
        unfolding run list.set(2) using Cons.IH [OF shut_inv [OF Cons.prems(1) lv] d(1)] sent_shut [OF lv False] by blast
    qed
  qed
qed (simp add: sent_refl)

lemma invalidate_each_ok:
  assumes "rs_inv rs" "distinct order"
  shows "\<exists>rs'. invalidate_each order rs = Some rs' \<and> rs_inv rs' \<and> rsSeq rs' = rsSeq rs \<and>
    length (rsChans rs') = length (rsChans rs) \<and> (\<forall>rid ch. live rs' rid ch \<longleftrightarrow> live rs rid ch \<and> rid \<notin> set order) \<and>
    (\<forall>ch. chBuf (rsChans rs' ! ch) = chBuf (rsChans rs ! ch))"
  using assms
proof (induction order arbitrary: rs)
  case (Cons r order)
  show ?case
  proof (cases "map_of (rsListeners rs) r")
    case None
    then have no: "\<not> live rs r ch" for ch by (simp add: live_def)
    obtain rs' where rs': "invalidate_each order rs = Some rs'" "rs_inv rs'" "rsSeq rs' = rsSeq rs"
      "length (rsChans rs') = length (rsChans rs)" "\<forall>rid ch. live rs' rid ch \<longleftrightarrow> live rs rid ch \<and> rid \<notin> set order"
      "\<forall>ch. chBuf (rsChans rs' ! ch) = chBuf (rsChans rs ! ch)" using Cons.IH [OF Cons.prems(1)] Cons.prems(2) by auto
    then have "live rs' rid ch \<longleftrightarrow> live rs rid ch \<and> rid \<notin> set (r # order)" for rid ch using no by auto
    then show ?thesis using None rs' by (intro exI [of _ rs']) simp
  next
    case (Some ch0)
    then have lv: "live rs r ch0" by (simp add: live_def)
    obtain rs1 where cl: "close_chan ch0 rs = Some rs1" "drop_listener r rs1 = shut r ch0 rs"
      using close_drop [OF Cons.prems(1) lv] by blast
    obtain rs' where rs': "invalidate_each order (shut r ch0 rs) = Some rs'" "rs_inv rs'" "rsSeq rs' = rsSeq rs"
      "length (rsChans rs') = length (rsChans rs)" "\<forall>rid ch. live rs' rid ch \<longleftrightarrow> live (shut r ch0 rs) rid ch \<and> rid \<notin> set order"
      "\<forall>ch. chBuf (rsChans rs' ! ch) = chBuf (rsChans rs ! ch)"
      using Cons.IH [OF shut_inv [OF Cons.prems(1) lv]] Cons.prems(2) by (auto simp: shut_buf)
    have "live rs' rid ch \<longleftrightarrow> live rs rid ch \<and> rid \<notin> set (r # order)" for rid ch using rs'(5) by (auto simp: shut_live)
    then show ?thesis using Some cl rs' by (intro exI [of _ rs']) simp
  qed
qed simp

lemma broadcastLocked_ok:
  assumes "rs_inv rs" "visits rs order"
  shows "\<exists>rs'. broadcastLocked order e rs = Some rs' \<and> rs_inv rs' \<and> rsSeq rs' = rsSeq rs + 1 \<and>
    length (rsChans rs') = length (rsChans rs) \<and>
    (\<forall>rid ch. live rs' rid ch \<longleftrightarrow> live rs rid ch \<and> length (chBuf (rsChans rs ! ch)) < chan_cap) \<and>
    (\<forall>ch. chBuf (rsChans rs' ! ch) =
       chBuf (rsChans rs ! ch) @ (if \<exists>rid. live rs' rid ch then [e\<lparr>eSeq := rsSeq rs + 1\<rparr>] else []))"
proof -
  let ?rs = "rs\<lparr>rsSeq := rsSeq rs + 1\<rparr>" and ?e = "e\<lparr>eSeq := rsSeq rs + 1\<rparr>"
  have inv: "rs_inv ?rs" using assms(1) by (simp add: rs_inv_def)
  have same: "live ?rs rid ch = live rs rid ch" for rid ch by (simp add: live_def)
  have all: "live rs rid ch \<Longrightarrow> rid \<in> set order" for rid ch
    using assms by (auto simp: visits_def live_iff rev_image_eqI)
  obtain rs' where run: "broadcast_each ?e order ?rs = Some rs'" and s: "sent ?e (set order) ?rs rs'"
    using broadcast_each_ok [OF inv, of order ?e] assms(2) by (auto simp: visits_def)
  have l: "live rs' rid ch \<longleftrightarrow> live rs rid ch \<and> length (chBuf (rsChans rs ! ch)) < chan_cap" for rid ch
    using sentD(1) [OF s, of rid ch] all [of rid ch] by (auto simp: same)
  have "chBuf (rsChans rs' ! ch) = chBuf (rsChans rs ! ch) @ (if \<exists>rid. live rs' rid ch then [?e] else [])" for ch
  proof (cases "\<exists>rid. live rs' rid ch")
    case True
    then obtain rid where rid: "live rs' rid ch" by blast
    then have "rid \<in> set order" using l all by blast
    then show ?thesis using sentD(2) [OF s rid] True by simp
  qed (use sentD(3) [OF s] in simp)
  moreover have "rs_inv rs'" "rsSeq rs' = rsSeq rs + 1" "length (rsChans rs') = length (rsChans rs)" using s by (simp_all add: sent_def)
  moreover have "broadcastLocked order e rs = Some rs'" using run by (simp add: broadcastLocked_def Let_def)
  ultimately show ?thesis using l by blast
qed

lemma invalidateLocked_ok:
  assumes "rs_inv rs" "visits rs order"
  shows "\<exists>rs'. invalidateLocked order rs = Some rs' \<and> rs_inv rs' \<and> rsSeq rs' = rsSeq rs \<and>
    length (rsChans rs') = length (rsChans rs) \<and> (\<forall>rid ch. \<not> live rs' rid ch) \<and>
    (\<forall>ch. chBuf (rsChans rs' ! ch) = chBuf (rsChans rs ! ch))"
proof -
  have all: "live rs rid ch \<Longrightarrow> rid \<in> set order" for rid ch
    using assms by (auto simp: visits_def live_iff rev_image_eqI)
  from invalidate_each_ok [OF assms(1), of order] assms(2) all show ?thesis
    by (auto simp: visits_def invalidateLocked_def)
qed

section \<open>Admission and clean-up\<close>

lemma addReplicaLocked_ok:
  assumes inv: "rs_inv rs"
  shows "\<exists>rs'. addReplicaLocked rid rs = Some (length (rsChans rs), rs') \<and> rs_inv rs' \<and> rsSeq rs' = rsSeq rs \<and>
    length (rsChans rs') = Suc (length (rsChans rs)) \<and> chBuf (rsChans rs' ! length (rsChans rs)) = [] \<and>
    (\<forall>r c. live rs' r c \<longleftrightarrow> (if r = rid then c = length (rsChans rs) else live rs r c)) \<and>
    (\<forall>c<length (rsChans rs). chBuf (rsChans rs' ! c) = chBuf (rsChans rs ! c))"
proof -
  let ?n = "length (rsChans rs)" and ?L = "AList.update rid (length (rsChans rs)) (rsListeners rs)"
  obtain rs1 where rs1: "(case map_of (rsListeners rs) rid of None \<Rightarrow> Some rs | Some old \<Rightarrow> close_chan old rs) = Some rs1"
    "rsListeners rs1 = rsListeners rs" "rsSeq rs1 = rsSeq rs" "length (rsChans rs1) = ?n"
    "\<forall>c. chBuf (rsChans rs1 ! c) = chBuf (rsChans rs ! c)" "\<forall>r c. live rs r c \<longrightarrow> r \<noteq> rid \<longrightarrow> \<not> chClosed (rsChans rs1 ! c)"
  proof (cases "map_of (rsListeners rs) rid")
    case None
    then show thesis using that [of rs] live_chan [OF inv] by auto
  next
    case (Some old)
    then have lv: "live rs rid old" by (simp add: live_def)
    have "\<not> chClosed (rsChans (shut rid old rs) ! c)" if "live rs r c" "r \<noteq> rid" for r c
      using live_chan [OF shut_inv [OF inv lv], of r c] that by (simp add: shut_live)
    then show thesis
      using that [of "rs\<lparr>rsChans := rsChans (shut rid old rs)\<rparr>"] Some live_chan [OF inv lv] shut_buf [of rid old rs]
      by (simp add: close_chan_def shut_def)
  qed
  define rs' where "rs' = rs1\<lparr>rsChans := rsChans rs1 @ [\<lparr>chBuf = [], chClosed = False\<rparr>], rsListeners := ?L\<rparr>"
  have run: "addReplicaLocked rid rs = Some (?n, rs')" using rs1(1,2,4) by (simp add: addReplicaLocked_def rs'_def)
  have l: "live rs' r c \<longleftrightarrow> (if r = rid then c = ?n else live rs r c)" for r c
    by (auto simp: live_def rs'_def AList.update_conv')
  have fst: "distinct (map fst ?L)" using inv by (intro AList.distinct_update) (simp add: rs_inv_def)
  have mem: "(r, c) \<in> set ?L \<longleftrightarrow> live rs' r c" for r c using map_of_eq_Some_iff [OF fst] by (simp add: live_def rs'_def)
  have chan: "c < ?n" if "live rs r c" for r c using live_chan [OF inv that] by simp
  have "inj_on snd (set ?L)"
  proof (rule inj_onI)
    fix x y assume xy: "x \<in> set ?L" "y \<in> set ?L" "snd x = snd y"
    have "(fst x, snd x) \<in> set ?L" "(fst y, snd y) \<in> set ?L" using xy(1,2) by simp_all
    then have "live rs' (fst x) (snd x)" "live rs' (fst y) (snd x)" unfolding mem xy(3) .
    then have "fst x = fst y" using l chan live_inj [OF inv] by (auto split: if_splits)
    then show "x = y" using xy(3) by (simp add: prod_eq_iff)
  qed
  then have "distinct (map snd ?L)" using fst by (simp add: distinct_map)
  moreover have "c < length (rsChans rs') \<and> \<not> chClosed (rsChans rs' ! c) \<and> length (chBuf (rsChans rs' ! c)) \<le> chan_cap" if "(r, c) \<in> set ?L" for r c
    using that [unfolded mem l] live_chan [OF inv, of r c] rs1(4-6) by (auto simp: rs'_def nth_append split: if_splits)
  ultimately have "rs_inv rs'" using fst unfolding rs_inv_def by (auto simp: rs'_def)
  then show ?thesis using run l rs1(3-5) by (intro exI [of _ rs']) (simp add: rs'_def nth_append)
qed

lemma stream_cleanup_ok:
  assumes "rs_inv rs"
  shows "\<exists>rs'. stream_cleanup rid ch rs = Some rs' \<and> rs_inv rs' \<and> rsSeq rs' = rsSeq rs \<and>
    length (rsChans rs') = length (rsChans rs) \<and> (\<forall>r c. live rs' r c \<longleftrightarrow> live rs r c \<and> (r, c) \<noteq> (rid, ch)) \<and>
    (\<forall>c. chBuf (rsChans rs' ! c) = chBuf (rsChans rs ! c))"
proof (cases "live rs rid ch")
  case True
  obtain rs1 where "close_chan ch rs = Some rs1" "drop_listener rid rs1 = shut rid ch rs" using close_drop [OF assms True] by blast
  then have "stream_cleanup rid ch rs = Some (shut rid ch rs)" using True by (simp add: stream_cleanup_def live_def)
  moreover have "live (shut rid ch rs) r c \<longleftrightarrow> live rs r c \<and> (r, c) \<noteq> (rid, ch)" for r c
    using True unfolding shut_live by (auto simp: live_def)
  ultimately show ?thesis using shut_inv [OF assms True] by (intro exI [of _ "shut rid ch rs"]) (simp add: shut_buf)
next
  case False
  then show ?thesis using assms by (auto simp: stream_cleanup_def live_def intro!: exI [of _ rs])
qed

lemma RemoveReplica_ok:
  assumes "rs_inv rs"
  shows "\<exists>rs'. RemoveReplica rid rs = Some rs' \<and> rs_inv rs' \<and> rsSeq rs' = rsSeq rs \<and> (\<forall>r c. live rs' r c \<longleftrightarrow> live rs r c \<and> r \<noteq> rid)"
proof (cases "map_of (rsListeners rs) rid")
  case None
  then show ?thesis using assms by (auto simp: RemoveReplica_def live_def intro!: exI [of _ rs])
next
  case (Some ch)
  then have lv: "live rs rid ch" by (simp add: live_def)
  obtain rs1 where "close_chan ch rs = Some rs1" "drop_listener rid rs1 = shut rid ch rs" using close_drop [OF assms lv] by blast
  then have "RemoveReplica rid rs = Some (shut rid ch rs)" using Some by (simp add: RemoveReplica_def)
  then show ?thesis using shut_inv [OF assms lv] by (intro exI [of _ "shut rid ch rs"]) (auto simp: shut_live)
qed

lemma stream_recv_ok:
  assumes "rs_inv rs" "stream_recv ch rs = Some (Some e, rs')" "ch < length (rsChans rs)"
  shows "rs_inv rs'" "rsSeq rs' = rsSeq rs" "length (rsChans rs') = length (rsChans rs)" "live rs' r c = live rs r c"
    "chBuf (rsChans rs ! ch) = e # chBuf (rsChans rs' ! ch)" "c \<noteq> ch \<Longrightarrow> rsChans rs' ! c = rsChans rs ! c"
proof -
  obtain es where es: "chBuf (rsChans rs ! ch) = e # es"
    "rs' = rs\<lparr>rsChans := (rsChans rs)[ch := (rsChans rs ! ch)\<lparr>chBuf := es\<rparr>]\<rparr>"
    using assms(2) by (auto simp: stream_recv_def split: list.splits if_splits)
  then show "rsSeq rs' = rsSeq rs" "length (rsChans rs') = length (rsChans rs)" "live rs' r c = live rs r c"
    "chBuf (rsChans rs ! ch) = e # chBuf (rsChans rs' ! ch)" "c \<noteq> ch \<Longrightarrow> rsChans rs' ! c = rsChans rs ! c"
    using assms(3) by (simp_all add: live_def)
  show "rs_inv rs'" using assms(1,3) es by (fastforce simp: rs_inv_def nth_list_update split: if_splits)
qed

end
