(* ===== verification/Replication_Steps.thy ===== *)
theory Replication_Steps
  imports Replication_Server
begin

text \<open>
  A primary and a replica, interleaved at the granularity of one record: writes on the primary, the handler that
  moves entries from its channel to the connection, the client that restores the snapshot and applies the
  entries, other replicas that come and go, and failures on both sides. A batch that is written while a replica
  listens is a sequence of such writes.

  \<open>wireE\<close> and \<open>wireS\<close> are \<open>encoding/json\<close> on both ends of the connection: what the decoder reads of an
  encoded value, or nothing when encoding fails. A \<open>json.RawMessage\<close> is compacted by the encoder, which is \<open>canon\<close>.
\<close>

section \<open>Contents that travel\<close>

definition replica_image :: "(bytes \<Rightarrow> bytes) \<Rightarrow> (string \<rightharpoonup> (vec \<times> bytes)) \<Rightarrow> string \<rightharpoonup> (vec \<times> bytes)" where
  "replica_image canon m = (\<lambda>i. map_option (\<lambda>(v, b). (arena_normalize v, canon b)) (m i))"

definition entry_step :: "(string \<rightharpoonup> (vec \<times> bytes)) \<Rightarrow> WALEntry \<Rightarrow> string \<rightharpoonup> (vec \<times> bytes)" where
  "entry_step m e =
     (if eOp e = OpInsert then m(eID e \<mapsto> (arena_normalize (eVector e), eMetadata e))
      else if eOp e = OpDelete then m(eID e := None) else m)"

definition entries :: "(string \<rightharpoonup> (vec \<times> bytes)) \<Rightarrow> WALEntry list \<Rightarrow> string \<rightharpoonup> (vec \<times> bytes)" where
  "entries m es = foldl entry_step m es"

definition canon_entry :: "(bytes \<Rightarrow> bytes) \<Rightarrow> WALEntry \<Rightarrow> WALEntry" where
  "canon_entry canon e = e\<lparr>eMetadata := canon (eMetadata e)\<rparr>"

definition canon_record :: "(bytes \<Rightarrow> bytes) \<Rightarrow> SnapshotRecord \<Rightarrow> SnapshotRecord" where
  "canon_record canon r = r\<lparr>snData := canon (snData r)\<rparr>"

text \<open>
  What the code relies on: an id that is valid UTF-8 and metadata that is valid JSON come through, the metadata
  compacted and an empty one, which is omitted, empty.
\<close>

record json_wire =
  okID :: "string \<Rightarrow> bool"
  okMeta :: "bytes \<Rightarrow> bool"
  canon :: "bytes \<Rightarrow> bytes"
  wireE :: "WALEntry \<Rightarrow> WALEntry option"
  wireS :: "replicationSnapshot \<Rightarrow> replicationSnapshot option"

definition entry_ok :: "json_wire \<Rightarrow> WALEntry \<Rightarrow> bool" where
  "entry_ok w e \<longleftrightarrow> okID w (eID e) \<and> (eMetadata e = [] \<or> okMeta w (eMetadata e))"

definition json_laws :: "json_wire \<Rightarrow> bool" where
  "json_laws w \<longleftrightarrow> canon w [] = [] \<and>
     (\<forall>e e'. entry_ok w e \<longrightarrow> wireE w e = Some e' \<longrightarrow> e' = canon_entry (canon w) e) \<and>
     (\<forall>s rs s'. smRecords s = Some rs \<longrightarrow> (\<forall>r\<in>set rs. okID w (snID r) \<and> okMeta w (snData r)) \<longrightarrow> wireS w s = Some s' \<longrightarrow>
        s' = s\<lparr>smRecords := Some (map (canon_record (canon w)) rs)\<rparr>)"

definition contents_ok :: "json_wire \<Rightarrow> (string \<rightharpoonup> (vec \<times> bytes)) \<Rightarrow> bool" where
  "contents_ok w m \<longleftrightarrow> (\<forall>i v b. m i = Some (v, b) \<longrightarrow> okID w i \<and> okMeta w b)"

section \<open>Steps\<close>

record Session =
  seRid :: string
  seChan :: nat
  seSnap :: "replicationSnapshot option"
  seWire :: "WALEntry list"
  seSeq :: "64 word"

text \<open>\<open>rpPast\<close> is history: every contents that the primary has had.\<close>

record ReplState =
  rpDB :: Levara
  rpRS :: ReplicationServer
  rpReplica :: Levara
  rpSession :: "Session option"
  rpPast :: "(string \<rightharpoonup> (vec \<times> bytes)) set"

abbreviation rp_primary :: "Levara \<Rightarrow> ReplicationServer \<Rightarrow> ReplState \<Rightarrow> ReplState" where
  "rp_primary db rs s \<equiv> s\<lparr>rpDB := db, rpRS := rs, rpPast := insert (lv_abs db) (rpPast s)\<rparr>"

abbreviation node_of :: "ReplState \<Rightarrow> DirectNode" where
  "node_of s \<equiv> \<lparr>dnDB = rpDB s, dnRepl = Some (rpRS s)\<rparr>"

inductive repl_step :: "json_wire \<Rightarrow> ReplState \<Rightarrow> ReplState \<Rightarrow> bool" for w :: json_wire where
  insert: "lv_space (rpDB s) \<Longrightarrow> whole_write dio \<Longrightarrow> visits (rpRS s) order \<Longrightarrow> okID w i \<Longrightarrow>
    (\<forall>b. insert_bytes marshal data = Some b \<longrightarrow> okMeta w b) \<Longrightarrow>
    DirectNode_Insert marshal dio wio fio order (node_of s) i v (data :: unit insert_data) = Some (r, \<lparr>dnDB = db', dnRepl = Some rs'\<rparr>) \<Longrightarrow>
    repl_step w s (rp_primary db' rs' s)"
| delete: "visits (rpRS s) order \<Longrightarrow>
    DirectNode_Delete wio fio order (node_of s) i = Some (r, \<lparr>dnDB = db', dnRepl = Some rs'\<rparr>) \<Longrightarrow>
    repl_step w s (rp_primary db' rs' s)"
| alone: "rsListeners (rpRS s) = [] \<Longrightarrow> lv_ok db' \<Longrightarrow> contents_ok w (lv_abs db') \<Longrightarrow>
    repl_step w s (rp_primary db' (rpRS s) s)"
| primary: "lv_ok db' \<Longrightarrow> lv_abs db' = lv_abs (rpDB s) \<Longrightarrow> repl_step w s (s\<lparr>rpDB := db'\<rparr>)"
| replica: "lv_ok db' \<Longrightarrow> lv_abs db' = lv_abs (rpReplica s) \<Longrightarrow> repl_step w s (s\<lparr>rpReplica := db'\<rparr>)"
| admit: "map_order (dbIndex (rpDB s)) order \<Longrightarrow>
    stream_admit True order rid (rpDB s) (rpRS s) = Some (Inr (snap, ch, rs')) \<Longrightarrow> wireS w snap = Some snap' \<Longrightarrow>
    repl_step w s (s\<lparr>rpRS := rs', rpSession := Some \<lparr>seRid = rid, seChan = ch, seSnap = Some snap', seWire = [], seSeq = 0\<rparr>\<rparr>)"
| other_add: "AddReplica rid (rpRS s) = Some (ch, rs') \<Longrightarrow> repl_step w s (s\<lparr>rpRS := rs'\<rparr>)"
| other_recv: "stream_recv ch (rpRS s) = Some (Some e, rs') \<Longrightarrow> ch < length (rsChans (rpRS s)) \<Longrightarrow>
    (\<forall>se. rpSession s = Some se \<longrightarrow> seChan se \<noteq> ch) \<Longrightarrow> repl_step w s (s\<lparr>rpRS := rs'\<rparr>)"
| cleanup: "stream_cleanup rid ch (rpRS s) = Some rs' \<Longrightarrow> repl_step w s (s\<lparr>rpRS := rs'\<rparr>)"
| recv: "rpSession s = Some se \<Longrightarrow> stream_recv (seChan se) (rpRS s) = Some (Some e, rs') \<Longrightarrow> wireE w e = Some e' \<Longrightarrow>
    repl_step w s (s\<lparr>rpRS := rs', rpSession := Some (se\<lparr>seWire := seWire se @ [e']\<rparr>)\<rparr>)"
| opened: "rpSession s = Some se \<Longrightarrow> seSnap se = Some snap \<Longrightarrow> (\<forall>k. whole_write (dio k)) \<Longrightarrow>
    length (the (smRecords snap)) < 2 ^ 32 \<Longrightarrow> dsPos (dbDisk (rpReplica s)) + length (the (smRecords snap)) * mib < 2 ^ 63 \<Longrightarrow>
    openStream dot levels dio pio True (Some snap) cancelled (rpReplica s) = (r, db') \<Longrightarrow>
    repl_step w s (s\<lparr>rpReplica := db', rpSession := (case r of Inl _ \<Rightarrow> None | Inr n \<Rightarrow> Some (se\<lparr>seSnap := None, seSeq := n\<rparr>))\<rparr>)"
| applied: "rpSession s = Some se \<Longrightarrow> seSnap se = None \<Longrightarrow> seWire se = e # es \<Longrightarrow> whole_write dio \<Longrightarrow> lv_space (rpReplica s) \<Longrightarrow>
    readStream_entry dio wio fio (seSeq se) e (rpReplica s) = (r, db') \<Longrightarrow>
    repl_step w s (s\<lparr>rpReplica := db', rpSession := (case r of Inl _ \<Rightarrow> None | Inr n \<Rightarrow> Some (se\<lparr>seWire := es, seSeq := n\<rparr>))\<rparr>)"
| disconnect: "repl_step w s (s\<lparr>rpSession := None\<rparr>)"

definition repl_run :: "json_wire \<Rightarrow> ReplState \<Rightarrow> ReplState \<Rightarrow> bool" where
  "repl_run w = (repl_step w)\<^sup>*\<^sup>*"

section \<open>The invariant\<close>

definition se_base :: "ReplState \<Rightarrow> Session \<Rightarrow> string \<rightharpoonup> (vec \<times> bytes)" where
  "se_base s se = (case seSnap se of None \<Rightarrow> lv_abs (rpReplica s) | Some snap \<Rightarrow> snapshot_map (the (smRecords snap)))"

definition se_next :: "Session \<Rightarrow> 64 word" where
  "se_next se = (case seSnap se of None \<Rightarrow> seSeq se | Some snap \<Rightarrow> the (smSeq snap))"

definition se_queue :: "json_wire \<Rightarrow> ReplState \<Rightarrow> Session \<Rightarrow> WALEntry list" where
  "se_queue w s se = seWire se @ map (canon_entry (canon w)) (chBuf (rsChans (rpRS s) ! seChan se))"

definition on_history :: "json_wire \<Rightarrow> ReplState \<Rightarrow> Session \<Rightarrow> bool" where
  "on_history w s se \<longleftrightarrow>
     (\<forall>k\<le>length (se_queue w s se). entries (se_base s se) (take k (se_queue w s se)) \<in> replica_image (canon w) ` rpPast s) \<and>
     (\<forall>k<length (se_queue w s se). eSeq (se_queue w s se ! k) = se_next se + of_nat (Suc k) \<and> eID (se_queue w s se ! k) \<noteq> [] \<and>
        eOp (se_queue w s se ! k) \<in> {OpInsert, OpDelete})"

definition up_to_date :: "json_wire \<Rightarrow> ReplState \<Rightarrow> Session \<Rightarrow> bool" where
  "up_to_date w s se \<longleftrightarrow>
     entries (se_base s se) (se_queue w s se) = replica_image (canon w) (lv_abs (rpDB s)) \<and>
     se_next se + of_nat (length (se_queue w s se)) = rsSeq (rpRS s)"

definition session_inv :: "json_wire \<Rightarrow> ReplState \<Rightarrow> Session \<Rightarrow> bool" where
  "session_inv w s se \<longleftrightarrow>
     seChan se < length (rsChans (rpRS s)) \<and> on_history w s se \<and>
     (\<forall>e\<in>set (chBuf (rsChans (rpRS s) ! seChan se)). entry_ok w e) \<and>
     (\<forall>snap. seSnap se = Some snap \<longrightarrow> smVersion snap = 1 \<and> smKind snap = ''snapshot'' \<and> smSeq snap \<noteq> None \<and> smRecords snap \<noteq> None) \<and>
     (\<forall>rid. live (rpRS s) rid (seChan se) \<longrightarrow> up_to_date w s se)"

definition repl_inv :: "json_wire \<Rightarrow> (string \<rightharpoonup> (vec \<times> bytes)) \<Rightarrow> ReplState \<Rightarrow> bool" where
  "repl_inv w m0 s \<longleftrightarrow>
     lv_ok (rpDB s) \<and> lv_ok (rpReplica s) \<and> rs_inv (rpRS s) \<and> contents_ok w (lv_abs (rpDB s)) \<and> lv_abs (rpDB s) \<in> rpPast s \<and>
     lv_abs (rpReplica s) \<in> insert m0 (replica_image (canon w) ` rpPast s) \<and>
     (\<forall>se. rpSession s = Some se \<longrightarrow> session_inv w s se)"

section \<open>Contents and entries\<close>

lemma replica_image_upd:
  "replica_image c (m(i \<mapsto> (v, b))) = (replica_image c m)(i \<mapsto> (arena_normalize v, c b))"
  "replica_image c (m(i := None)) = (replica_image c m)(i := None)"
  by (auto simp: replica_image_def)

lemma entries_snoc: "entries m (es @ [e]) = entry_step (entries m es) e"
  by (simp add: entries_def)

lemma canon_entry_fields [simp]:
  "eSeq (canon_entry c e) = eSeq e" "eID (canon_entry c e) = eID e" "eOp (canon_entry c e) = eOp e"
  by (simp_all add: canon_entry_def)

lemma entry_from_insert:
  assumes "insert_bytes marshal data = Some b"
  shows "WALEntryFromInsert marshal i v data = \<lparr>eOp = OpInsert, eID = i, eVector = v, eMetadata = b, eSeq = 0\<rparr>"
  using assms by (auto simp: WALEntryFromInsert_def insert_bytes_def Let_def split: insert_data.splits if_splits)

lemma Op_distinct [simp]: "OpDelete \<noteq> OpInsert" "OpInsert \<noteq> OpDelete"
  by (simp_all add: OpInsert_def OpDelete_def)

section \<open>What a write on the primary does\<close>

text \<open>Nothing, or no listener is left, or one entry is broadcast that turns the old image into the new one.\<close>

definition cut_off :: "ReplicationServer \<Rightarrow> ReplicationServer \<Rightarrow> bool" where
  "cut_off rs rs' \<longleftrightarrow> (\<forall>rid ch. \<not> live rs' rid ch) \<and> (\<forall>ch. chBuf (rsChans rs' ! ch) = chBuf (rsChans rs ! ch))"

definition announced :: "json_wire \<Rightarrow> (string \<rightharpoonup> (vec \<times> bytes)) \<Rightarrow> (string \<rightharpoonup> (vec \<times> bytes)) \<Rightarrow> ReplicationServer \<Rightarrow> ReplicationServer \<Rightarrow> bool" where
  "announced w m m' rs rs' \<longleftrightarrow> (\<exists>e. entry_ok w e \<and> eID e \<noteq> [] \<and> eOp e \<in> {OpInsert, OpDelete} \<and> eSeq e = rsSeq rs + 1 \<and>
     entry_step (replica_image (canon w) m) (canon_entry (canon w) e) = replica_image (canon w) m' \<and> rsSeq rs' = rsSeq rs + 1 \<and>
     (\<forall>rid ch. live rs' rid ch \<longrightarrow> live rs rid ch) \<and>
     (\<forall>ch. chBuf (rsChans rs' ! ch) = chBuf (rsChans rs ! ch) @ (if \<exists>rid. live rs' rid ch then [e] else [])))"

definition write_effect ::
  "json_wire \<Rightarrow> (string \<rightharpoonup> (vec \<times> bytes)) \<Rightarrow> (string \<rightharpoonup> (vec \<times> bytes)) \<Rightarrow> ReplicationServer \<Rightarrow> ReplicationServer \<Rightarrow> bool" where
  "write_effect w m m' rs rs' \<longleftrightarrow> rs_inv rs' \<and> length (rsChans rs') = length (rsChans rs) \<and>
     (m' = m \<and> rs' = rs \<or> cut_off rs rs' \<or> announced w m m' rs rs')"

lemma no_listeners: "rsListeners rs = [] \<Longrightarrow> \<not> live rs rid ch"
  by (simp add: live_def)

lemma repl_after_effect:
  assumes inv: "rs_inv rs" and ord: "visits rs order" and run: "repl_after order failed e rs = Some rs'"
    and e: "\<not> failed \<Longrightarrow> entry_ok w e \<and> eID e \<noteq> [] \<and> eOp e \<in> {OpInsert, OpDelete} \<and>
      entry_step (replica_image (canon w) m) (canon_entry (canon w) e) = replica_image (canon w) m'"
  shows "write_effect w m m' rs rs'"
proof (cases failed)
  case True
  then show ?thesis
    using run invalidateLocked_ok [OF inv ord] by (auto simp: repl_after_def write_effect_def cut_off_def)
next
  case ok: False
  show ?thesis
  proof (cases "rsListeners rs = []")
    case True
    then have "cut_off rs rs" using no_listeners by (simp add: cut_off_def)
    then show ?thesis using run ok True inv by (auto simp: repl_after_def write_effect_def)
  next
    case False
    then have "broadcastLocked order e rs = Some rs'" using run ok by (simp add: repl_after_def)
    then have b: "rs_inv rs'" "rsSeq rs' = rsSeq rs + 1" "length (rsChans rs') = length (rsChans rs)"
      "\<forall>rid ch. live rs' rid ch \<longleftrightarrow> live rs rid ch \<and> length (chBuf (rsChans rs ! ch)) < chan_cap"
      "\<forall>ch. chBuf (rsChans rs' ! ch) = chBuf (rsChans rs ! ch) @ (if \<exists>rid. live rs' rid ch then [e\<lparr>eSeq := rsSeq rs + 1\<rparr>] else [])"
      using broadcastLocked_ok [OF inv ord, of e] by auto
    have "entry_ok w (e\<lparr>eSeq := q\<rparr>) = entry_ok w e" for q by (simp add: entry_ok_def)
    moreover have "entry_step x (canon_entry (canon w) (e\<lparr>eSeq := q\<rparr>)) = entry_step x (canon_entry (canon w) e)" for x q
      by (simp add: entry_step_def canon_entry_def)
    ultimately have "announced w m m' rs rs'"
      unfolding announced_def using e [OF ok] b(2,4,5) by (intro exI [of _ "e\<lparr>eSeq := rsSeq rs + 1\<rparr>"]) simp
    then show ?thesis using b(1,3) by (simp add: write_effect_def)
  qed
qed

lemma Insert_effect:
  assumes ok: "lv_ok db" "lv_space db" "whole_write dio" and rs: "rs_inv rs" "visits rs order" and i: "okID w i"
    and b: "\<forall>b. insert_bytes marshal data = Some b \<longrightarrow> okMeta w b" and c: "contents_ok w (lv_abs db)"
    and run: "DirectNode_Insert marshal dio wio fio order \<lparr>dnDB = db, dnRepl = Some rs\<rparr> i v data = Some (r, \<lparr>dnDB = db', dnRepl = Some rs'\<rparr>)"
  shows "lv_ok db' \<and> contents_ok w (lv_abs db') \<and> write_effect w (lv_abs db) (lv_abs db') rs rs'"
proof -
  obtain pub recs where inv: "lv_inv pub recs db" using ok(1) by (auto simp: lv_ok_def)
  have ins: "Insert marshal dio wio fio db i v data = (r, db')"
    and ra: "repl_after order (r \<noteq> None) (WALEntryFromInsert marshal i (arena_normalize v) data) rs = Some rs'"
    using run by (auto simp: DirectNode_Insert_def split: prod.splits option.splits)
  note R = Insert_refines [OF inv ok(2,3) ins]
  have ok': "lv_ok db'" using R(1) by (auto simp: lv_ok_def)
  have c': "contents_ok w (lv_abs db')"
    using R(2,3) c i b by (cases "applied r") (auto simp: contents_ok_def split: if_splits)
  have "write_effect w (lv_abs db) (lv_abs db') rs rs'"
  proof (rule repl_after_effect [OF rs ra])
    assume "\<not> r \<noteq> None"
    then have r: "r = None" by simp
    obtain bs where bs: "insert_bytes marshal data = Some bs" "lv_abs db' = (lv_abs db)(i \<mapsto> (arena_normalize v, bs))"
      using R(2) r by auto
    have "dbIndex db' i \<noteq> None" using bs(2) by (auto simp: lv_abs_def split: option.splits dest!: fun_cong [where x = i])
    then have ne: "i \<noteq> []" using R(1) unfolding lv_inv_def lv_mem_def lv_index_def by blast
    show "entry_ok w (WALEntryFromInsert marshal i (arena_normalize v) data) \<and>
        eID (WALEntryFromInsert marshal i (arena_normalize v) data) \<noteq> [] \<and>
        eOp (WALEntryFromInsert marshal i (arena_normalize v) data) \<in> {OpInsert, OpDelete} \<and>
        entry_step (replica_image (canon w) (lv_abs db)) (canon_entry (canon w) (WALEntryFromInsert marshal i (arena_normalize v) data)) =
        replica_image (canon w) (lv_abs db')"
      using i b bs ne
      by (simp add: entry_from_insert [OF bs(1)] entry_ok_def entry_step_def canon_entry_def replica_image_upd)
  qed
  then show ?thesis using ok' c' by simp
qed

lemma Delete_effect:
  assumes w: "json_laws w" and ok: "lv_ok db" and rs: "rs_inv rs" "visits rs order" and c: "contents_ok w (lv_abs db)"
    and run: "DirectNode_Delete wio fio order \<lparr>dnDB = db, dnRepl = Some rs\<rparr> i = Some (r, \<lparr>dnDB = db', dnRepl = Some rs'\<rparr>)"
  shows "lv_ok db' \<and> contents_ok w (lv_abs db') \<and> write_effect w (lv_abs db) (lv_abs db') rs rs'"
proof -
  obtain pub recs where inv: "lv_inv pub recs db" using ok by (auto simp: lv_ok_def)
  let ?gone = "r \<noteq> None \<and> \<not> Get db i \<noteq> None"
  have del: "Delete wio fio db i = (r, db')"
    and ra: "(if ?gone then Some rs else repl_after order (r \<noteq> None) (WALEntryFromDelete i) rs) = Some rs'"
    using run by (auto simp: DirectNode_Delete_def Let_def split: prod.splits option.splits)
  note R = Delete_refines [OF inv del]
  have ok': "lv_ok db'" using R(1) by (auto simp: lv_ok_def)
  have c': "contents_ok w (lv_abs db')" using R(2) c by (auto simp: contents_ok_def split: if_splits)
  have "write_effect w (lv_abs db) (lv_abs db') rs rs'"
  proof (cases ?gone)
    case True
    then have "lv_abs db i = None" using Get_refines [OF inv, of i] by (auto split: option.splits)
    then show ?thesis using R(3) ra True rs(1) by (simp add: write_effect_def)
  next
    case False
    then have ra': "repl_after order (r \<noteq> None) (WALEntryFromDelete i) rs = Some rs'" using ra by auto
    show ?thesis
    proof (rule repl_after_effect [OF rs ra'])
      assume "\<not> r \<noteq> None"
      then have r: "r = None" by simp
      then have st: "lv_abs db i \<noteq> None" using R(3) by (metis option.distinct(1))
      then obtain v b where "lv_abs db i = Some (v, b)" by (cases "lv_abs db i") auto
      then have "okID w i" using c by (auto simp: contents_ok_def)
      moreover have "i \<noteq> []" using st inv unfolding lv_inv_def lv_mem_def lv_index_def by (auto simp: lv_abs_def split: option.splits)
      ultimately show "entry_ok w (WALEntryFromDelete i) \<and> eID (WALEntryFromDelete i) \<noteq> [] \<and>
          eOp (WALEntryFromDelete i) \<in> {OpInsert, OpDelete} \<and>
          entry_step (replica_image (canon w) (lv_abs db)) (canon_entry (canon w) (WALEntryFromDelete i)) = replica_image (canon w) (lv_abs db')"
        using R(2) r by (simp add: WALEntryFromDelete_def entry_ok_def entry_step_def canon_entry_def replica_image_upd)
    qed
  qed
  then show ?thesis using ok' c' by simp
qed

section \<open>The session\<close>

lemma on_history_past:
  assumes "on_history w s se" "rpPast s \<subseteq> rpPast s'" "se_base s' se' = se_base s se" "se_queue w s' se' = se_queue w s se" "se_next se' = se_next se"
  shows "on_history w s' se'"
  using assms(1,2) unfolding on_history_def assms(3-5) by blast

lemma write_session:
  assumes s: "session_inv w s se" and past: "lv_abs db' \<in> P" "rpPast s \<subseteq> P"
    and eff: "write_effect w (lv_abs (rpDB s)) (lv_abs db') (rpRS s) rs'"
  defines "s' \<equiv> s\<lparr>rpDB := db', rpRS := rs', rpPast := P\<rparr>"
  shows "session_inv w s' se"
proof -
  have base: "se_base s' se = se_base s se" by (cases "seSnap se") (simp_all add: se_base_def s'_def)
  have len: "length (rsChans rs') = length (rsChans (rpRS s))" using eff by (simp add: write_effect_def)
  let ?ch = "seChan se" and ?q = "se_queue w s se"
  from eff consider (same) "lv_abs db' = lv_abs (rpDB s)" "rs' = rpRS s" | (cut) "cut_off (rpRS s) rs'"
    | (sent) "announced w (lv_abs (rpDB s)) (lv_abs db') (rpRS s) rs'"
    by (auto simp: write_effect_def)
  then show ?thesis
  proof cases
    case same
    have q: "se_queue w s' se = ?q" by (simp add: se_queue_def s'_def same)
    have "on_history w s' se" by (rule on_history_past [OF _ _ base q]) (use s past in \<open>auto simp: session_inv_def s'_def\<close>)
    then show ?thesis using s base q same by (auto simp: session_inv_def up_to_date_def s'_def)
  next
    case cut
    then have buf: "chBuf (rsChans rs' ! ?ch) = chBuf (rsChans (rpRS s) ! ?ch)" and no: "\<And>rid. \<not> live rs' rid ?ch"
      by (simp_all add: cut_off_def)
    have q: "se_queue w s' se = ?q" by (simp add: se_queue_def s'_def buf)
    have "on_history w s' se" by (rule on_history_past [OF _ _ base q]) (use s past in \<open>auto simp: session_inv_def s'_def\<close>)
    then show ?thesis using s no buf len by (auto simp: session_inv_def s'_def)
  next
    case sent
    then obtain e where e: "entry_ok w e" "eID e \<noteq> []" "eOp e \<in> {OpInsert, OpDelete}" "eSeq e = rsSeq (rpRS s) + 1"
      "entry_step (replica_image (canon w) (lv_abs (rpDB s))) (canon_entry (canon w) e) = replica_image (canon w) (lv_abs db')"
      "rsSeq rs' = rsSeq (rpRS s) + 1" "\<forall>rid ch. live rs' rid ch \<longrightarrow> live (rpRS s) rid ch"
      "\<forall>ch. chBuf (rsChans rs' ! ch) = chBuf (rsChans (rpRS s) ! ch) @ (if \<exists>rid. live rs' rid ch then [e] else [])"
      unfolding announced_def by blast
    show ?thesis
    proof (cases "\<exists>rid. live rs' rid ?ch")
      case False
      then have buf: "chBuf (rsChans rs' ! ?ch) = chBuf (rsChans (rpRS s) ! ?ch)" using e(8) by simp
      have q: "se_queue w s' se = ?q" by (simp add: se_queue_def s'_def buf)
      have "on_history w s' se" by (rule on_history_past [OF _ _ base q]) (use s past in \<open>auto simp: session_inv_def s'_def\<close>)
      then show ?thesis using s False buf len by (auto simp: session_inv_def s'_def)
    next
      case True
      let ?e = "canon_entry (canon w) e"
      have buf: "chBuf (rsChans rs' ! ?ch) = chBuf (rsChans (rpRS s) ! ?ch) @ [e]" using e(8) True by simp
      have q: "se_queue w s' se = ?q @ [?e]" by (simp add: se_queue_def s'_def buf)
      have up: "up_to_date w s se" using s True e(7) unfolding session_inv_def by blast
      have new: "entries (se_base s se) (?q @ [?e]) = replica_image (canon w) (lv_abs db')"
        using up e(5) by (simp add: entries_snoc up_to_date_def)
      have nxt: "eSeq ?e = se_next se + of_nat (Suc (length ?q))" using up e(4) by (simp add: up_to_date_def add_ac)
      have h: "on_history w s se" using s by (simp add: session_inv_def)
      have "entries (se_base s se) (take k (?q @ [?e])) \<in> replica_image (canon w) ` P" if "k \<le> Suc (length ?q)" for k
      proof (cases "k \<le> length ?q")
        case True
        then show ?thesis using h past(2) unfolding on_history_def by (auto dest!: spec [of _ k])
      next
        case False
        then have "k = Suc (length ?q)" using that by simp
        then show ?thesis using new past(1) by simp
      qed
      moreover have "eSeq ((?q @ [?e]) ! k) = se_next se + of_nat (Suc k) \<and> eID ((?q @ [?e]) ! k) \<noteq> [] \<and>
          eOp ((?q @ [?e]) ! k) \<in> {OpInsert, OpDelete}" if "k < Suc (length ?q)" for k
      proof (cases "k < length ?q")
        case True
        then show ?thesis using h unfolding on_history_def by (simp add: nth_append)
      next
        case False
        then have "k = length ?q" using that by simp
        then show ?thesis using nxt e(2,3) by simp
      qed
      ultimately have "on_history w s' se" unfolding on_history_def base q by (simp add: s'_def)
      moreover have "up_to_date w s' se"
        using up new e(6) unfolding up_to_date_def base q by (simp add: s'_def add_ac)
      ultimately show ?thesis using s e(1) len buf by (auto simp: session_inv_def s'_def)
    qed
  qed
qed

text \<open>A step of the server that keeps this channel's buffer and adds no listener to it.\<close>

lemma server_session:
  assumes s: "session_inv w s se" and len: "length (rsChans (rpRS s)) \<le> length (rsChans rs')"
    and buf: "chBuf (rsChans rs' ! seChan se) = chBuf (rsChans (rpRS s) ! seChan se)"
    and lv: "\<And>rid. live rs' rid (seChan se) \<Longrightarrow> live (rpRS s) rid (seChan se) \<and> rsSeq rs' = rsSeq (rpRS s)"
  shows "session_inv w (s\<lparr>rpRS := rs'\<rparr>) se"
proof -
  let ?s = "s\<lparr>rpRS := rs'\<rparr>"
  have base: "se_base ?s se = se_base s se" by (cases "seSnap se") (simp_all add: se_base_def)
  have q: "se_queue w ?s se = se_queue w s se" by (simp add: se_queue_def buf)
  have "on_history w ?s se" by (rule on_history_past [OF _ _ base q]) (use s in \<open>auto simp: session_inv_def\<close>)
  moreover have "up_to_date w ?s se" if "live rs' rid (seChan se)" for rid
  proof -
    have "up_to_date w s se" using s lv [OF that] unfolding session_inv_def by blast
    then show ?thesis using lv [OF that] unfolding up_to_date_def base q by simp
  qed
  ultimately show ?thesis using s len buf unfolding session_inv_def by auto
qed

text \<open>The handler moves the first entry of the channel to the wire.\<close>

lemma recv_session:
  assumes w: "json_laws w" and s: "session_inv w s se" and inv: "rs_inv (rpRS s)"
    and run: "stream_recv (seChan se) (rpRS s) = Some (Some e, rs')" and e: "wireE w e = Some e'"
  shows "session_inv w (s\<lparr>rpRS := rs', rpSession := x\<rparr>) (se\<lparr>seWire := seWire se @ [e']\<rparr>)"
proof -
  let ?s = "s\<lparr>rpRS := rs', rpSession := x\<rparr>" and ?se = "se\<lparr>seWire := seWire se @ [e']\<rparr>"
  have ch: "seChan se < length (rsChans (rpRS s))" using s by (simp add: session_inv_def)
  note r = stream_recv_ok [OF inv run ch]
  have "entry_ok w e" using s r(5) by (auto simp: session_inv_def)
  then have e': "e' = canon_entry (canon w) e" using w e unfolding json_laws_def by blast
  have base: "se_base ?s ?se = se_base s se" by (cases "seSnap se") (simp_all add: se_base_def)
  have nxt: "se_next ?se = se_next se" by (cases "seSnap se") (simp_all add: se_next_def)
  have q: "se_queue w ?s ?se = se_queue w s se" using r(5) by (simp add: se_queue_def e')
  have "on_history w ?s ?se" by (rule on_history_past [OF _ _ base q nxt]) (use s in \<open>auto simp: session_inv_def\<close>)
  moreover have "up_to_date w ?s ?se" if "live rs' rid (seChan se)" for rid
  proof -
    have "up_to_date w s se" using s that r(4) unfolding session_inv_def by blast
    then show ?thesis using r(2) unfolding up_to_date_def base q nxt by simp
  qed
  moreover have "set (chBuf (rsChans rs' ! seChan se)) \<subseteq> set (chBuf (rsChans (rpRS s) ! seChan se))" using r(5) by auto
  ultimately show ?thesis using s r(3) unfolding session_inv_def by auto
qed

lemma snapshot_image_aux:
  assumes "distinct (map snID rs)" "\<forall>r\<in>set rs. m (snID r) = Some (snVector r, snData r)"
  shows "snapshot_map (map (canon_record c) rs) i = (if i \<in> snID ` set rs then replica_image c m i else None)"
  using assms
proof (induction rs rule: rev_induct)
  case (snoc r rs)
  then have "m (snID r) = Some (snVector r, snData r)" "snID r \<notin> snID ` set rs" by auto
  then show ?case using snoc by (auto simp: snapshot_map_snoc canon_record_def replica_image_def)
qed (simp add: snapshot_map_def)

lemma snapshot_image:
  assumes "lv_ok db" "map_order (dbIndex db) order" "AllRecordsChecked order db = Inr rs"
  shows "snapshot_map (map (canon_record c) rs) = replica_image c (lv_abs db)"
    "\<forall>r\<in>set rs. lv_abs db (snID r) = Some (snVector r, snData r)"
proof -
  obtain pub where mem: "lv_mem pub db" using assms(1) by (auto simp: lv_ok_def lv_inv_def)
  have ord: "distinct order" "set order = dom (dbIndex db)" using assms(2) by (auto simp: map_order_def)
  have r: "map snID rs = order" "\<forall>r\<in>set rs. snapshot_matches db r"
    using allRecordsLocked_ok [OF mem, of order] assms(3) ord(2) by (auto simp: AllRecordsChecked_def)
  then show m: "\<forall>r\<in>set rs. lv_abs db (snID r) = Some (snVector r, snData r)" by (simp add: snapshot_matches_def)
  have ids: "snID ` set rs = dom (dbIndex db)" using r(1) ord(2) by (metis list.set_map)
  have "snapshot_map (map (canon_record c) rs) i = replica_image c (lv_abs db) i" for i
    using snapshot_image_aux [OF _ m, of c i] r(1) ord(1) ids by (auto simp: replica_image_def lv_abs_def dom_def)
  then show "snapshot_map (map (canon_record c) rs) = replica_image c (lv_abs db)" by blast
qed

lemma admit_session:
  assumes w: "json_laws w" and inv: "repl_inv w m0 s" and ord: "map_order (dbIndex (rpDB s)) order"
    and run: "stream_admit True order rid (rpDB s) (rpRS s) = Some (Inr (snap, ch, rs'))" and sn: "wireS w snap = Some snap'"
  shows "rs_inv rs'"
    "session_inv w (s\<lparr>rpRS := rs', rpSession := x\<rparr>) \<lparr>seRid = rid, seChan = ch, seSnap = Some snap', seWire = [], seSeq = 0\<rparr>"
proof -
  let ?s = "s\<lparr>rpRS := rs', rpSession := x\<rparr>" and ?se = "\<lparr>seRid = rid, seChan = ch, seSnap = Some snap', seWire = [], seSeq = 0\<rparr>"
  have ok: "lv_ok (rpDB s)" "rs_inv (rpRS s)" "contents_ok w (lv_abs (rpDB s))" "lv_abs (rpDB s) \<in> rpPast s"
    using inv by (simp_all add: repl_inv_def)
  obtain rs where rs: "AllRecordsChecked order (rpDB s) = Inr rs" "addReplicaLocked rid (rpRS s) = Some (ch, rs')"
    "snap = \<lparr>smVersion = 1, smKind = ''snapshot'', smSeq = Some (rsSeq rs'), smRecords = Some rs\<rparr>"
    using run by (auto simp: stream_admit_def split: if_splits sum.splits option.splits)
  note im = snapshot_image [OF ok(1) ord rs(1)]
  have "\<forall>r\<in>set rs. okID w (snID r) \<and> okMeta w (snData r)" using im(2) ok(3) by (auto simp: contents_ok_def)
  then have snap': "snap' = snap\<lparr>smRecords := Some (map (canon_record (canon w)) rs)\<rparr>"
    using w sn rs(3) unfolding json_laws_def by (metis replicationSnapshot.select_convs(4))
  have a: "ch = length (rsChans (rpRS s))" "rs_inv rs'" "rsSeq rs' = rsSeq (rpRS s)" "length (rsChans rs') = Suc ch" "chBuf (rsChans rs' ! ch) = []"
    using addReplicaLocked_ok [OF ok(2), of rid] rs(2) by auto
  show "rs_inv rs'" by (rule a(2))
  have q: "se_queue w ?s ?se = []" by (simp add: se_queue_def a(5))
  have base: "se_base ?s ?se = replica_image (canon w) (lv_abs (rpDB s))" using im(1) by (simp add: se_base_def snap')
  have nxt: "se_next ?se = rsSeq rs'" by (simp add: se_next_def snap' rs(3))
  have "on_history w ?s ?se" unfolding on_history_def q base using ok(4) by (simp add: entries_def)
  moreover have "up_to_date w ?s ?se" unfolding up_to_date_def q base nxt by (simp add: entries_def)
  ultimately show "session_inv w ?s ?se" using a(4,5) unfolding session_inv_def by (simp add: snap' rs(3))
qed

section \<open>The client\<close>

lemma openStream_effect:
  assumes ok: "lv_ok db" and ww: "\<forall>k. whole_write (dio k)"
    and sp: "length (the (smRecords snap)) < 2 ^ 32" "dsPos (dbDisk db) + length (the (smRecords snap)) * mib < 2 ^ 63"
    and run: "openStream dot levels dio pio True (Some snap) cancelled db = (r, db')"
  shows "lv_ok db'" "lv_abs db' \<in> {lv_abs db, snapshot_map (the (smRecords snap))}"
    "r = Inr n \<Longrightarrow> lv_abs db' = snapshot_map (the (smRecords snap)) \<and> smSeq snap = Some n"
proof -
  obtain pub recs where inv: "lv_inv pub recs db" using ok by (auto simp: lv_ok_def)
  obtain x db1 where rst: "RestoreSnapshot dot levels dio pio db (the (smRecords snap)) = (x, db1)" by fastforce
  note R = RestoreSnapshot_refines [OF inv ww sp rst]
  have db1: "lv_ok db1" "lv_abs db1 \<in> {lv_abs db, snapshot_map (the (smRecords snap))}"
    "x = None \<longrightarrow> lv_abs db1 = snapshot_map (the (smRecords snap))"
    using R(1-3) unfolding lv_ok_def by (cases "published x"; auto simp: published_def)+
  from run rst have "db' = db \<and> (\<nexists>n. r = Inr n) \<or> db' = db1 \<and> (\<forall>n. r = Inr n \<longrightarrow> x = None \<and> smSeq snap = Some n)"
    by (auto simp: openStream_def split: if_splits option.splits)
  then show "lv_ok db'" "lv_abs db' \<in> {lv_abs db, snapshot_map (the (smRecords snap))}"
    "r = Inr n \<Longrightarrow> lv_abs db' = snapshot_map (the (smRecords snap)) \<and> smSeq snap = Some n"
    using ok db1 by auto
qed

lemma readStream_entry_effect:
  assumes ok: "lv_ok db" "whole_write dio" "lv_space db" and op: "eOp e \<in> {OpInsert, OpDelete}"
    and run: "readStream_entry dio wio fio n e db = (r, db')"
  shows "lv_ok db'" "lv_abs db' \<in> {lv_abs db, entry_step (lv_abs db) e}"
    "r = Inr n' \<Longrightarrow> lv_abs db' = entry_step (lv_abs db) e \<and> n' = eSeq e"
proof -
  obtain pub recs where inv: "lv_inv pub recs db" using ok(1) by (auto simp: lv_ok_def)
  have "lv_ok db' \<and> lv_abs db' \<in> {lv_abs db, entry_step (lv_abs db) e} \<and>
    (\<forall>n'. r = Inr n' \<longrightarrow> lv_abs db' = entry_step (lv_abs db) e \<and> n' = eSeq e)"
  proof (cases "n = -1 \<or> eSeq e \<noteq> n + 1 \<or> eID e = []")
    case True
    then show ?thesis using run ok(1) by (auto simp: readStream_entry_def)
  next
    case go: False
    show ?thesis
    proof (cases "eOp e = OpInsert")
      case True
      obtain x db1 where ins: "Insert (\<lambda>_ :: unit insert_data. None) dio wio fio db (eID e) (eVector e) (DRaw (eMetadata e)) = (x, db1)"
        by fastforce
      have eq: "db' = db1" "r = (case x of None \<Rightarrow> Inr (eSeq e) | Some y \<Rightarrow> Inl (RcApply y))"
        using run go True ins by (auto simp: readStream_entry_def split: option.splits)
      note R = Insert_refines [OF inv ok(3,2) ins]
      have step: "entry_step (lv_abs db) e = (lv_abs db)(eID e \<mapsto> (arena_normalize (eVector e), eMetadata e))"
        by (simp add: entry_step_def True)
      have "lv_abs db1 = (if applied x then entry_step (lv_abs db) e else lv_abs db)"
        using R(2,3) unfolding step by (auto simp: insert_bytes_def)
      moreover have "lv_ok db1" using R(1) by (auto simp: lv_ok_def)
      ultimately show ?thesis using eq by (auto split: option.splits)
    next
      case False
      then have del: "eOp e = OpDelete" using op by simp
      obtain x db1 where d: "Delete wio fio db (eID e) = (x, db1)" by fastforce
      have eq: "db' = db1" "r = (case x of None \<Rightarrow> Inr (eSeq e) | Some y \<Rightarrow> Inl (RcApply y))"
        using run go del d by (auto simp: readStream_entry_def split: option.splits)
      note R = Delete_refines [OF inv d]
      have "lv_abs db1 = (if applied x then entry_step (lv_abs db) e else lv_abs db)"
        using R(2) by (simp add: entry_step_def del)
      moreover have "lv_ok db1" using R(1) by (auto simp: lv_ok_def)
      ultimately show ?thesis using eq by (auto split: option.splits)
    qed
  qed
  then show "lv_ok db'" "lv_abs db' \<in> {lv_abs db, entry_step (lv_abs db) e}"
    "r = Inr n' \<Longrightarrow> lv_abs db' = entry_step (lv_abs db) e \<and> n' = eSeq e" by blast+
qed

text \<open>The head of the queue is the next state of the history.\<close>

lemma on_history_head:
  assumes h: "on_history w s se" and sn: "seSnap se = None" and wr: "seWire se = e # es"
    and s': "rpRS s' = rpRS s" "rpPast s' = rpPast s" "lv_abs (rpReplica s') = entry_step (lv_abs (rpReplica s)) e"
    and se': "se' = se\<lparr>seWire := es, seSeq := eSeq e\<rparr>"
  shows "entry_step (lv_abs (rpReplica s)) e \<in> replica_image (canon w) ` rpPast s" "eSeq e = seSeq se + 1" "eOp e \<in> {OpInsert, OpDelete}"
    "on_history w s' se'" "se_queue w s se = e # se_queue w s' se'" "se_next se' = se_next se + 1"
proof -
  have q: "se_queue w s se = e # se_queue w s' se'" by (simp add: se_queue_def wr s' se')
  then show "se_queue w s se = e # se_queue w s' se'" .
  have b: "se_base s se = lv_abs (rpReplica s)" "se_base s' se' = entry_step (lv_abs (rpReplica s)) e"
    by (simp_all add: se_base_def sn s' se')
  have H: "\<forall>k\<le>Suc (length (se_queue w s' se')). entries (lv_abs (rpReplica s)) (take k (e # se_queue w s' se')) \<in> replica_image (canon w) ` rpPast s"
    "\<forall>k<Suc (length (se_queue w s' se')). eSeq ((e # se_queue w s' se') ! k) = seSeq se + of_nat (Suc k) \<and>
       eID ((e # se_queue w s' se') ! k) \<noteq> [] \<and> eOp ((e # se_queue w s' se') ! k) \<in> {OpInsert, OpDelete}"
    using h unfolding on_history_def q b by (simp_all add: se_next_def sn)
  show i: "entry_step (lv_abs (rpReplica s)) e \<in> replica_image (canon w) ` rpPast s" using H(1) [rule_format, of 1] by (simp add: entries_def)
  show e1: "eSeq e = seSeq se + 1" "eOp e \<in> {OpInsert, OpDelete}" using H(2) [rule_format, of 0] by simp_all
  show nxt: "se_next se' = se_next se + 1" by (simp add: se_next_def sn se' e1(1))
  show "on_history w s' se'"
    unfolding on_history_def s' b
  proof (intro conjI allI impI)
    fix k assume "k \<le> length (se_queue w s' se')"
    then show "entries (entry_step (lv_abs (rpReplica s)) e) (take k (se_queue w s' se')) \<in> replica_image (canon w) ` rpPast s"
      using H(1) [rule_format, of "Suc k"] by (simp add: entries_def)
  next
    fix k assume k: "k < length (se_queue w s' se')"
    from H(2) [rule_format, of "Suc k"] k
    show "eSeq (se_queue w s' se' ! k) = se_next se' + of_nat (Suc k)" "eID (se_queue w s' se' ! k) \<noteq> []"
      "eOp (se_queue w s' se' ! k) \<in> {OpInsert, OpDelete}" by (simp_all add: se_next_def sn se' e1(1))
  qed
qed

lemma replica_image_mono: "P \<subseteq> P' \<Longrightarrow> m \<in> insert m0 (replica_image c ` P) \<Longrightarrow> m \<in> insert m0 (replica_image c ` P')"
  by blast

lemma repl_inv_write:
  assumes inv: "repl_inv w m0 s" and ok: "lv_ok db'" "contents_ok w (lv_abs db')"
    and eff: "write_effect w (lv_abs (rpDB s)) (lv_abs db') (rpRS s) rs'"
  shows "repl_inv w m0 (rp_primary db' rs' s)"
proof -
  have "session_inv w (rp_primary db' rs' s) se" if "rpSession s = Some se" for se
    using write_session [OF _ _ _ eff, of se "insert (lv_abs db') (rpPast s)"] inv that unfolding repl_inv_def by auto
  moreover have "lv_abs (rpReplica s) \<in> insert m0 (replica_image (canon w) ` insert (lv_abs db') (rpPast s))"
    by (rule replica_image_mono [of "rpPast s"]) (use inv in \<open>auto simp: repl_inv_def\<close>)
  moreover have "rs_inv rs'" using eff by (simp add: write_effect_def)
  ultimately show ?thesis using inv ok unfolding repl_inv_def by simp
qed

lemma repl_inv_server:
  assumes inv: "repl_inv w m0 s" and rs: "rs_inv rs'"
    and se: "\<And>se. rpSession s = Some se \<Longrightarrow> session_inv w (s\<lparr>rpRS := rs'\<rparr>) se"
  shows "repl_inv w m0 (s\<lparr>rpRS := rs'\<rparr>)"
  using assms unfolding repl_inv_def by simp

lemma session_inv_same:
  assumes "session_inv w s se" "rpRS s' = rpRS s" "rpPast s' = rpPast s" "lv_abs (rpReplica s') = lv_abs (rpReplica s)" "lv_abs (rpDB s') = lv_abs (rpDB s)"
  shows "session_inv w s' se"
proof -
  have "se_base s' se = se_base s se" by (cases "seSnap se") (simp_all add: se_base_def assms)
  moreover have "se_queue w s' se = se_queue w s se" by (simp add: se_queue_def assms)
  ultimately show ?thesis using assms unfolding session_inv_def on_history_def up_to_date_def by simp
qed

lemma repl_inv_opened:
  assumes inv: "repl_inv w m0 s" and se: "rpSession s = Some se" "seSnap se = Some snap" and ww: "\<forall>k. whole_write (dio k)"
    and sp: "length (the (smRecords snap)) < 2 ^ 32" "dsPos (dbDisk (rpReplica s)) + length (the (smRecords snap)) * mib < 2 ^ 63"
    and run: "openStream dot levels dio pio True (Some snap) cancelled (rpReplica s) = (r, db')"
  shows "repl_inv w m0 (s\<lparr>rpReplica := db', rpSession := (case r of Inl _ \<Rightarrow> None | Inr n \<Rightarrow> Some (se\<lparr>seSnap := None, seSeq := n\<rparr>))\<rparr>)"
proof -
  have s: "session_inv w s se" and R: "lv_ok (rpReplica s)" "lv_abs (rpReplica s) \<in> insert m0 (replica_image (canon w) ` rpPast s)"
    using inv se by (auto simp: repl_inv_def)
  note o = openStream_effect [OF R(1) ww sp run]
  have h: "on_history w s se" using s by (simp add: session_inv_def)
  have "snapshot_map (the (smRecords snap)) \<in> replica_image (canon w) ` rpPast s"
    using h unfolding on_history_def by (auto simp: se_base_def se(2) entries_def dest!: spec [of _ 0])
  then have m: "lv_abs db' \<in> insert m0 (replica_image (canon w) ` rpPast s)" using o(2) R(2) by auto
  have "session_inv w (s\<lparr>rpReplica := db', rpSession := x\<rparr>) (se\<lparr>seSnap := None, seSeq := n\<rparr>)" if "r = Inr n" for n x
  proof -
    let ?s = "s\<lparr>rpReplica := db', rpSession := x\<rparr>" and ?se = "se\<lparr>seSnap := None, seSeq := n\<rparr>"
    have b: "se_base ?s ?se = se_base s se" using o(3) [OF that] by (simp add: se_base_def se(2))
    have q: "se_queue w ?s ?se = se_queue w s se" by (simp add: se_queue_def)
    have nx: "se_next ?se = se_next se" using o(3) [OF that] by (simp add: se_next_def se(2))
    show ?thesis using s unfolding session_inv_def on_history_def up_to_date_def b q nx by simp
  qed
  then show ?thesis using inv o(1) m unfolding repl_inv_def by (auto split: sum.splits)
qed

lemma repl_inv_applied:
  assumes inv: "repl_inv w m0 s" and se: "rpSession s = Some se" "seSnap se = None" "seWire se = e # es"
    and io: "whole_write dio" "lv_space (rpReplica s)"
    and run: "readStream_entry dio wio fio (seSeq se) e (rpReplica s) = (r, db')"
  shows "repl_inv w m0 (s\<lparr>rpReplica := db', rpSession := (case r of Inl _ \<Rightarrow> None | Inr n \<Rightarrow> Some (se\<lparr>seWire := es, seSeq := n\<rparr>))\<rparr>)"
proof -
  have s: "session_inv w s se" and R: "lv_ok (rpReplica s)" "lv_abs (rpReplica s) \<in> insert m0 (replica_image (canon w) ` rpPast s)"
    using inv se by (auto simp: repl_inv_def)
  have h: "on_history w s se" using s by (simp add: session_inv_def)
  let ?s = "\<lambda>x. s\<lparr>rpReplica := db', rpSession := x\<rparr>" and ?se = "se\<lparr>seWire := es, seSeq := eSeq e\<rparr>"
  obtain rest where q: "se_queue w s se = e # rest" by (simp add: se_queue_def se(3))
  note hq = h [unfolded on_history_def q]
  have op: "eOp e \<in> {OpInsert, OpDelete}" using hq [THEN conjunct2, rule_format, of 0] by simp
  have next_st: "entry_step (lv_abs (rpReplica s)) e \<in> replica_image (canon w) ` rpPast s"
    using hq [THEN conjunct1, rule_format, of 1] by (simp add: se_base_def se(2) entries_def)
  note o = readStream_entry_effect [OF R(1) io op run]
  have "session_inv w (?s x) (se\<lparr>seWire := es, seSeq := n\<rparr>)" if r: "r = Inr n" for n x
  proof -
    have n: "n = eSeq e" "lv_abs (rpReplica (?s x)) = entry_step (lv_abs (rpReplica s)) e" using o(3) [OF r] by simp_all
    note H = on_history_head [OF h se(2,3) _ _ n(2) refl, simplified]
    have b: "se_base s se = lv_abs (rpReplica s)" "se_base (?s x) ?se = entry_step (lv_abs (rpReplica s)) e"
      using n(2) by (simp_all add: se_base_def se(2))
    have "up_to_date w (?s x) ?se" if "live (rpRS s) rid (seChan se)" for rid
    proof -
      have "up_to_date w s se" using s that unfolding session_inv_def by blast
      then show ?thesis unfolding up_to_date_def b H(5) H(6) by (simp add: entries_def add_ac)
    qed
    then show ?thesis using s H(4) unfolding session_inv_def n(1) by (simp add: se(2))
  qed
  moreover have "lv_abs db' \<in> insert m0 (replica_image (canon w) ` rpPast s)" using o(2) next_st R(2) by auto
  ultimately show ?thesis using inv o(1) unfolding repl_inv_def by (auto split: sum.splits)
qed

lemma repl_inv_step:
  assumes w: "json_laws w" and step: "repl_step w s s'" and inv: "repl_inv w m0 s"
  shows "repl_inv w m0 s'"
  using step
proof cases
  have I: "lv_ok (rpDB s)" "rs_inv (rpRS s)" "contents_ok w (lv_abs (rpDB s))" "lv_abs (rpDB s) \<in> rpPast s"
    and se: "\<And>se. rpSession s = Some se \<Longrightarrow> session_inv w s se" and R: "lv_ok (rpReplica s)"
    using inv by (auto simp: repl_inv_def)
  {
    case (insert dio order i marshal data wio fio v r db' rs')
    then show ?thesis using Insert_effect [OF I(1) insert(2,3) I(2) insert(4,5,6) I(3) insert(7)] repl_inv_write [OF inv] by blast
  next
    case (delete order wio fio i r db' rs')
    then show ?thesis using Delete_effect [OF w I(1,2) delete(2) I(3) delete(3)] repl_inv_write [OF inv] by blast
  next
    case (alone db')
    have "write_effect w (lv_abs (rpDB s)) (lv_abs db') (rpRS s) (rpRS s)"
      using I(2) alone(2) no_listeners by (simp add: write_effect_def cut_off_def)
    then show ?thesis using repl_inv_write [OF inv alone(3,4)] alone(1) by blast
  next
    case (primary db')
    then show ?thesis using inv session_inv_same [of w s _ "s\<lparr>rpDB := db'\<rparr>"] unfolding repl_inv_def by auto
  next
    case (replica db')
    then show ?thesis using inv session_inv_same [of w s _ "s\<lparr>rpReplica := db'\<rparr>"] unfolding repl_inv_def by auto
  next
    case (admit order rid snap ch rs' snap')
    then show ?thesis using admit_session [OF w inv admit(2-4)] inv unfolding repl_inv_def by simp
  next
    case (other_add rid ch rs')
    then obtain rs'': "rs_inv rs'" "length (rsChans rs') = Suc (length (rsChans (rpRS s)))" "rsSeq rs' = rsSeq (rpRS s)"
      "\<forall>r c. live rs' r c \<longleftrightarrow> (if r = rid then c = length (rsChans (rpRS s)) else live (rpRS s) r c)"
      "\<forall>c<length (rsChans (rpRS s)). chBuf (rsChans rs' ! c) = chBuf (rsChans (rpRS s) ! c)"
      using addReplicaLocked_ok [OF I(2), of rid] by (auto simp: AddReplica_def)
    show ?thesis
      unfolding other_add(1)
    proof (rule repl_inv_server [OF inv rs''(1) server_session [OF se]])
      fix se' assume s': "rpSession s = Some se'"
      then have ch: "seChan se' < length (rsChans (rpRS s))" using se by (auto simp: session_inv_def)
      show "chBuf (rsChans rs' ! seChan se') = chBuf (rsChans (rpRS s) ! seChan se')" using rs''(5) ch by simp
      show "live (rpRS s) r (seChan se') \<and> rsSeq rs' = rsSeq (rpRS s)" if "live rs' r (seChan se')" for r
        using that rs''(3,4) ch by (auto split: if_splits)
    qed (use rs''(2) in simp_all)
  next
    case (other_recv ch e rs')
    note r = stream_recv_ok [OF I(2) other_recv(2,3)]
    show ?thesis
      unfolding other_recv(1)
      by (rule repl_inv_server [OF inv r(1) server_session [OF se]]) (use r other_recv(4) in auto)
  next
    case (cleanup rid ch rs')
    then have c: "rs_inv rs'" "rsSeq rs' = rsSeq (rpRS s)" "length (rsChans rs') = length (rsChans (rpRS s))"
      "\<forall>r c. live rs' r c \<longleftrightarrow> live (rpRS s) r c \<and> (r, c) \<noteq> (rid, ch)" "\<forall>c. chBuf (rsChans rs' ! c) = chBuf (rsChans (rpRS s) ! c)"
      using stream_cleanup_ok [OF I(2), of rid ch] by auto
    show ?thesis
      unfolding cleanup(1) by (rule repl_inv_server [OF inv c(1) server_session [OF se]]) (use c in auto)
  next
    case (recv se' e rs' e')
    have ch: "seChan se' < length (rsChans (rpRS s))" using se [OF recv(2)] by (simp add: session_inv_def)
    then show ?thesis
      using recv_session [OF w se [OF recv(2)] I(2) recv(3,4)] stream_recv_ok(1) [OF I(2) recv(3) ch] inv
      unfolding recv(1) repl_inv_def by simp
  next
    case (opened se' snap dio dot levels pio cancelled r db')
    then show ?thesis using repl_inv_opened [OF inv opened(2-7)] by simp
  next
    case (applied se' e es dio wio fio r db')
    then show ?thesis using repl_inv_applied [OF inv applied(2-7)] by simp
  next
    case disconnect
    then show ?thesis using inv unfolding repl_inv_def by simp
  }
qed

lemma repl_inv_run: "repl_run w s s' \<Longrightarrow> json_laws w \<Longrightarrow> repl_inv w m0 s \<Longrightarrow> repl_inv w m0 s'"
  unfolding repl_run_def by (induction rule: rtranclp_induct) (auto intro: repl_inv_step)

text \<open>A primary and a replica before anything is connected.\<close>

definition repl_start :: "Levara \<Rightarrow> Levara \<Rightarrow> string \<Rightarrow> ReplState" where
  "repl_start db replica nodeID =
     \<lparr>rpDB = db, rpRS = NewReplicationServer nodeID, rpReplica = replica, rpSession = None, rpPast = {lv_abs db}\<rparr>"

lemma repl_inv_start:
  "lv_ok db \<Longrightarrow> lv_ok replica \<Longrightarrow> contents_ok w (lv_abs db) \<Longrightarrow> repl_inv w (lv_abs replica) (repl_start db replica nodeID)"
  by (simp add: repl_inv_def repl_start_def rs_inv_new)

end
