(* ===== verification/Raft.thy ===== *)
theory Raft
  imports Shard Levara_Restore
begin

text \<open>
  \<open>internal/cluster/fsm.go\<close> and \<open>node.go\<close>: a shard replicated by Raft. The consensus library and
  \<open>encoding/json\<close> are arguments: \<open>marshal\<close> encodes a value, \<open>encode\<close> a command, \<open>decode\<close> reads a command back,
  and \<open>apply\<close> is what the library answers for a proposed entry: its own error or what the state machine returned
  for the committed entry. Opening the transport and the stores of the library is not modelled.
\<close>

section \<open>Commands\<close>

record BatchRecord =
  brId :: string
  brVector :: vec
  brData :: bytes

record Command =
  cmdOp :: string
  cmdId :: string
  cmdVector :: vec
  cmdData :: bytes
  cmdRecords :: "BatchRecord list"
  cmdIDs :: "string list"

definition command :: "string \<Rightarrow> Command" where
  "command opname = \<lparr>cmdOp = opname, cmdId = [], cmdVector = [], cmdData = [], cmdRecords = [], cmdIDs = []\<rparr>"

section \<open>The state machine\<close>

datatype fsm_error = FsmDecode | FsmUnknown string | FsmStore lv_error

text \<open>The dynamic type of the answer: no value, one error, or a slice of errors.\<close>

datatype response = RNil | RErr fsm_error | RErrs "(nat \<times> string \<times> lv_error) list"

record apply_io =
  aioDisk :: "nat \<Rightarrow> disk_io"
  aioWrite :: "nat \<Rightarrow> write_io"
  aioFlush :: flush_io

definition error_response :: "lv_error option \<Rightarrow> response" where
  "error_response r = (case r of None \<Rightarrow> RNil | Some e \<Rightarrow> RErr (FsmStore e))"

definition errors_response :: "batch_errors \<Rightarrow> response" where
  "errors_response errs = (if 0 < length errs then RErrs errs else RNil)"

definition FSM_Apply ::
  "(bytes \<Rightarrow> Command option) \<Rightarrow> (bytes \<Rightarrow> bytes option) \<Rightarrow> apply_io \<Rightarrow> Levara \<Rightarrow> bytes \<Rightarrow> response \<times> Levara" where
  "FSM_Apply decode compactJSON io db data =
     (case decode data of
        None \<Rightarrow> (RErr FsmDecode, db)
      | Some cmd \<Rightarrow>
          if cmdOp cmd = ''insert'' then
            (case Insert (\<lambda>_ :: unit insert_data. None) (aioDisk io 0) (aioWrite io 0) (aioFlush io) db (cmdId cmd) (cmdVector cmd) (DRaw (cmdData cmd)) of
               (r, db') \<Rightarrow> (error_response r, db'))
          else if cmdOp cmd = ''batch_insert'' then
            (let items = map (\<lambda>rec. \<lparr>bID = brId rec, bVector = brVector rec, bData = brData rec\<rparr>) (cmdRecords cmd) in
             case BatchInsert compactJSON (aioDisk io) (aioWrite io) (aioFlush io) db items of (errs, db') \<Rightarrow> (errors_response errs, db'))
          else if cmdOp cmd = ''delete'' then
            (case Delete (aioWrite io 0) (aioFlush io) db (cmdId cmd) of (r, db') \<Rightarrow> (error_response r, db'))
          else if cmdOp cmd = ''batch_delete'' then
            (case BatchDelete (aioWrite io) (aioFlush io) db (cmdIDs cmd) of (errs, db') \<Rightarrow> (errors_response errs, db'))
          else (RErr (FsmUnknown (cmdOp cmd)), db))"

datatype snapshot_error = SnSource lv_error | SnMarshal | SnRead | SnUnmarshal | SnNotArray | SnRestore lv_error | SnWrite | SnClose

definition FSM_Snapshot ::
  "(SnapshotRecord list \<Rightarrow> bytes option) \<Rightarrow> string list \<Rightarrow> Levara \<Rightarrow> snapshot_error + bytes" where
  "FSM_Snapshot marshal order db =
     (case AllRecordsChecked order db of
        Inl e \<Rightarrow> Inl (SnSource e)
      | Inr records \<Rightarrow> (case marshal records of None \<Rightarrow> Inl SnMarshal | Some data \<Rightarrow> Inr data))"

text \<open>\<open>unmarshal\<close> returns \<open>Some None\<close> for the JSON value \<open>null\<close>, which leaves the slice nil.\<close>

definition FSM_Restore ::
  "(bytes \<Rightarrow> SnapshotRecord list option option) \<Rightarrow> dot_fn \<Rightarrow> (nat \<Rightarrow> nat) \<Rightarrow> (nat \<Rightarrow> disk_io) \<Rightarrow> publish_io \<Rightarrow> Levara \<Rightarrow> bytes option \<Rightarrow>
   snapshot_error option \<times> Levara" where
  "FSM_Restore unmarshal dot levels dio pio db content =
     (case content of
        None \<Rightarrow> (Some SnRead, db)
      | Some data \<Rightarrow>
          (case unmarshal data of
             None \<Rightarrow> (Some SnUnmarshal, db)
           | Some None \<Rightarrow> (Some SnNotArray, db)
           | Some (Some records) \<Rightarrow>
               (case RestoreSnapshot dot levels dio pio db records of
                  (None, db') \<Rightarrow> (None, db') | (Some e, db') \<Rightarrow> (Some (SnRestore e), db'))))"

text \<open>The sink's \<open>Write\<close>, \<open>Cancel\<close> and \<open>Close\<close>: what it holds and whether it was cancelled or closed.\<close>

record snapshot_sink =
  skData :: bytes
  skCancelled :: bool
  skClosed :: bool

definition LevaraSnapshot_Persist :: "bool \<Rightarrow> bool \<Rightarrow> bytes \<Rightarrow> snapshot_sink \<Rightarrow> snapshot_error option \<times> snapshot_sink" where
  "LevaraSnapshot_Persist writeOk closeOk data sink =
     (if \<not> writeOk then (Some SnWrite, sink\<lparr>skCancelled := True\<rparr>)
      else if \<not> closeOk then (Some SnClose, sink\<lparr>skData := skData sink @ data\<rparr>)
      else (None, sink\<lparr>skData := skData sink @ data, skClosed := True\<rparr>))"

section \<open>The node\<close>

datatype raft_error = RaNotLeader | RaMarshal | RaEncode | RaLibrary | RaFSM fsm_error | RaItem nat string lv_error

datatype raft_answer = AnError | AnResponse response

text \<open>The metadata of a record: raw bytes as they are, everything else, strings too, encoded.\<close>

definition raft_bytes :: "('v insert_data \<Rightarrow> bytes option) \<Rightarrow> 'v insert_data \<Rightarrow> bytes option" where
  "raft_bytes marshal data = (case data of DRaw v \<Rightarrow> Some v | _ \<Rightarrow> marshal data)"

definition single_answer :: "raft_answer \<Rightarrow> raft_error option" where
  "single_answer a =
     (case a of
        AnError \<Rightarrow> Some RaLibrary
      | AnResponse (RErr e) \<Rightarrow> Some (RaFSM e)
      | AnResponse _ \<Rightarrow> None)"

definition RaftNode_Insert ::
  "('v insert_data \<Rightarrow> bytes option) \<Rightarrow> (Command \<Rightarrow> bytes option) \<Rightarrow> bool \<Rightarrow> (bytes \<Rightarrow> raft_answer) \<Rightarrow>
   string \<Rightarrow> vec \<Rightarrow> 'v insert_data \<Rightarrow> raft_error option" where
  "RaftNode_Insert marshal encode leader apply i vector data =
     (if \<not> leader then Some RaNotLeader
      else case raft_bytes marshal data of
        None \<Rightarrow> Some RaMarshal
      | Some raw \<Rightarrow>
          (case encode ((command ''insert'')\<lparr>cmdId := i, cmdVector := vector, cmdData := raw\<rparr>) of
             None \<Rightarrow> Some RaEncode
           | Some b \<Rightarrow> single_answer (apply b)))"

fun raft_records :: "('v insert_data \<Rightarrow> bytes option) \<Rightarrow> 'v insert_data BatchItem list \<Rightarrow> BatchRecord list option" where
  "raft_records marshal [] = Some []"
| "raft_records marshal (item # items) =
     (case raft_bytes marshal (bData item) of
        None \<Rightarrow> None
      | Some raw \<Rightarrow>
          (case raft_records marshal items of
             None \<Rightarrow> None
           | Some recs \<Rightarrow> Some (\<lparr>brId = bID item, brVector = bVector item, brData = raw\<rparr> # recs)))"

definition batchInsertRaft ::
  "(Command \<Rightarrow> bytes option) \<Rightarrow> bool \<Rightarrow> (bytes \<Rightarrow> raft_answer) \<Rightarrow> BatchRecord list \<Rightarrow> raft_error list" where
  "batchInsertRaft encode leader apply records =
     (if \<not> leader then [RaNotLeader]
      else case encode ((command ''batch_insert'')\<lparr>cmdRecords := records\<rparr>) of
        None \<Rightarrow> [RaEncode]
      | Some b \<Rightarrow>
          (case apply b of
             AnError \<Rightarrow> [RaLibrary]
           | AnResponse RNil \<Rightarrow> []
           | AnResponse (RErrs errs) \<Rightarrow> map (\<lambda>(k, i, e). RaItem k i e) errs
           | AnResponse (RErr e) \<Rightarrow> [RaFSM e]))"

definition RaftNode_BatchInsert ::
  "('v insert_data \<Rightarrow> bytes option) \<Rightarrow> (Command \<Rightarrow> bytes option) \<Rightarrow> bool \<Rightarrow> (bytes \<Rightarrow> raft_answer) \<Rightarrow>
   'v insert_data BatchItem list \<Rightarrow> raft_error list" where
  "RaftNode_BatchInsert marshal encode leader apply items =
     (case raft_records marshal items of
        None \<Rightarrow> [RaMarshal]
      | Some records \<Rightarrow> batchInsertRaft encode leader apply records)"

definition RaftNode_Search :: "dot_fn \<Rightarrow> Levara \<Rightarrow> vec \<Rightarrow> int \<Rightarrow> VectroRecord list" where
  "RaftNode_Search dot db query topK = Search dot db query topK"

definition RaftNode_Delete ::
  "(Command \<Rightarrow> bytes option) \<Rightarrow> bool \<Rightarrow> (bytes \<Rightarrow> raft_answer) \<Rightarrow> string \<Rightarrow> raft_error option" where
  "RaftNode_Delete encode leader apply i =
     (if \<not> leader then Some RaNotLeader
      else case encode ((command ''delete'')\<lparr>cmdId := i\<rparr>) of
        None \<Rightarrow> Some RaEncode
      | Some b \<Rightarrow> single_answer (apply b))"

definition RaftNode_BatchDelete ::
  "(Command \<Rightarrow> bytes option) \<Rightarrow> bool \<Rightarrow> (bytes \<Rightarrow> raft_answer) \<Rightarrow> string list \<Rightarrow> raft_error list" where
  "RaftNode_BatchDelete encode leader apply ids =
     (if length ids = 0 then []
      else if \<not> leader then replicate (length ids) RaNotLeader
      else case encode ((command ''batch_delete'')\<lparr>cmdIDs := ids\<rparr>) of
        None \<Rightarrow> replicate (length ids) RaEncode
      | Some b \<Rightarrow>
          (case apply b of
             AnError \<Rightarrow> replicate (length ids) RaLibrary
           | AnResponse (RErrs errs) \<Rightarrow> map (\<lambda>(k, i, e). RaItem k i e) errs
           | AnResponse (RErr e) \<Rightarrow> replicate (length ids) (RaFSM e)
           | AnResponse RNil \<Rightarrow> []))"

section \<open>Nodes whose file system does its part\<close>

definition healthy :: "Levara \<Rightarrow> bool" where
  "healthy db \<longleftrightarrow> lv_ok db \<and> \<not> walErr (dbWal db) \<and> \<not> walClosed (dbWal db) \<and> \<not> walFileClosed (dbWal db)"

definition good_io :: apply_io where
  "good_io = \<lparr>aioDisk = (\<lambda>_. DiskOk), aioWrite = (\<lambda>_. WriteOk), aioFlush = FlushOk\<rparr>"

definition room_for :: "nat \<Rightarrow> Levara \<Rightarrow> bool" where
  "room_for n db \<longleftrightarrow> arTotalVectors (dbArena db) + n < 2 ^ 32 \<and> dsPos (dbDisk db) + n * mib < 2 ^ 63"

text \<open>The same contents and dimension: what the nodes of a shard have to agree on.\<close>

definition agree :: "Levara \<Rightarrow> Levara \<Rightarrow> bool" where
  "agree db1 db2 \<longleftrightarrow> lv_abs db1 = lv_abs db2 \<and> dbDim db1 = dbDim db2"

definition command_size :: "Command \<Rightarrow> nat" where
  "command_size cmd = max 1 (length (cmdRecords cmd))"

abbreviation wal_open :: "WAL \<Rightarrow> bool" where
  "wal_open wal \<equiv> \<not> walErr wal \<and> \<not> walClosed wal \<and> \<not> walFileClosed wal"

lemma VectorArena_Add_dim: "VectorArena_Add a v = Inr (idx, v', a') \<Longrightarrow> arDim a' = arDim a"
  by (auto simp: VectorArena_Add_def arena_store_def arena_grow_def Let_def split: if_splits option.splits prod.splits)

lemma Insert_check_agree: "dbDim db1 = dbDim db2 \<Longrightarrow> Insert_check db1 i v b = Insert_check db2 i v b"
  by (simp add: Insert_check_def)

text \<open>The verdict on a checked record: only a vector that overflows when it is normalized is refused.\<close>

definition overflow_error :: "vec \<Rightarrow> lv_error option" where
  "overflow_error v = (if list_all f32_finite (arena_normalize v) then None else Some (LvWal WalNonFinite))"

lemma checked_write:
  assumes "length v = arDim a" "validateWALRecord OpInsert i v b noLocation = None" "0 \<le> flOffset loc" "wal_open wal"
  obtains idx a' where "VectorArena_Add a v = Inr (idx, arena_normalize v, a')" "arDim a' = arDim a"
    "\<exists>wal'. WAL_WriteEntryNoFlush WriteOk OpInsert i (arena_normalize v) b loc wal =
      (if list_all f32_finite (arena_normalize v) then None else Some WalNonFinite, wal') \<and> wal_open wal'"
proof -
  have "\<forall>x\<in>set v. f32_finite x" using assms(2) by (auto simp: validateWALRecord_def f32_finite_def split: if_splits)
  then obtain idx a' where add: "VectorArena_Add a v = Inr (idx, arena_normalize v, a')"
    using VectorArena_Add_finite [OF assms(1)] by auto
  have "validateWALRecord OpInsert i (arena_normalize v) b loc =
      (if list_all f32_finite (arena_normalize v) then None else Some WalNonFinite)"
    using assms(2,3) by (auto simp: validateWALRecord_def f32_finite_def list_all_iff split: if_splits)
  then have "\<exists>wal'. WAL_WriteEntryNoFlush WriteOk OpInsert i (arena_normalize v) b loc wal =
      (if list_all f32_finite (arena_normalize v) then None else Some WalNonFinite, wal') \<and> wal_open wal'"
    using assms(4) by (auto simp: WAL_WriteEntryNoFlush_def WAL_writeEntryLocked_def writeWALEntryTo_def)
  then show thesis using that [OF add VectorArena_Add_dim [OF add]] by blast
qed

lemma maps_frame [simp]:
  "dbWal (store_maps i idx loc (replaceExistingLocked db j)) = dbWal db"
  "dbArena (store_maps i idx loc (replaceExistingLocked db j)) = dbArena db"
  "dbDim (store_maps i idx loc (replaceExistingLocked db j)) = dbDim db"
  by (simp_all add: store_maps_def replaceExistingLocked_def removePendingByID_def split: option.split)

lemma FlushAsync_good:
  assumes "wal_open (dbWal db)"
  shows "\<exists>db'. FlushAsync FlushOk db = (None, db') \<and> wal_open (dbWal db') \<and> dbDim db' = dbDim db"
  using assms by (simp add: FlushAsync_def WAL_flushSync_def Let_def)

definition insert_verdict :: "Levara \<Rightarrow> string \<Rightarrow> vec \<Rightarrow> bytes \<Rightarrow> lv_error option" where
  "insert_verdict db i v b = (case Insert_check db i v b of Some e \<Rightarrow> Some e | None \<Rightarrow> overflow_error v)"

lemma Insert_good:
  assumes h: "healthy db" and run: "Insert (\<lambda>_ :: unit insert_data. None) DiskOk WriteOk FlushOk db i v (DRaw b) = (r, db')"
  shows "r = insert_verdict db i v b" "wal_open (dbWal db')" "dbDim db' = dbDim db"
proof -
  have st: "arDim (dbArena db) = dbDim db" using h by (auto simp: healthy_def lv_ok_def lv_inv_def lv_mem_def lv_static_def)
  have op: "wal_open (dbWal db)" using h by (simp add: healthy_def)
  have "r = insert_verdict db i v b \<and> wal_open (dbWal db') \<and> dbDim db' = dbDim db"
  proof (cases "Insert_check db i v b")
    case (Some e)
    then have "r = Some e" "db' = db" using run by (simp_all add: Insert_def insert_bytes_def)
    then show ?thesis using Some op by (simp add: insert_verdict_def)
  next
    case None
    then have val: "validateWALRecord OpInsert i v b noLocation = None" and len: "length v = arDim (dbArena db)"
      using st by (auto simp: Insert_check_def split: if_splits option.splits)
    let ?loc = "\<lparr>flOffset = int (dsPos (dbDisk db)), flLength = int32_of (length b)\<rparr>"
    have "0 \<le> flOffset ?loc" by simp
    from checked_write [OF len val this op] obtain idx a' wal' where
      w: "VectorArena_Add (dbArena db) v = Inr (idx, arena_normalize v, a')"
      "WAL_WriteEntryNoFlush WriteOk OpInsert i (arena_normalize v) b ?loc (dbWal db) =
        (if list_all f32_finite (arena_normalize v) then None else Some WalNonFinite, wal')" "wal_open wal'" by blast
    obtain ds' where d: "DiskStore_Write DiskOk (dbDisk db) b = (Inr ?loc, ds')" by (simp add: DiskStore_Write_def Let_def)
    show ?thesis
    proof (cases "list_all f32_finite (arena_normalize v)")
      case True
      let ?db1 = "store_maps i idx ?loc (replaceExistingLocked (db\<lparr>dbDisk := ds', dbArena := a', dbWal := wal'\<rparr>) i)"
      obtain db2 where f: "FlushAsync FlushOk (?db1\<lparr>dbPending := dbPending ?db1 @ [\<lparr>piVector = arena_normalize v, piID = i, piIdx = idx\<rparr>]\<rparr>) = (None, db2)"
        "wal_open (dbWal db2)" "dbDim db2 = dbDim db"
        using FlushAsync_good [of "?db1\<lparr>dbPending := dbPending ?db1 @ [\<lparr>piVector = arena_normalize v, piID = i, piIdx = idx\<rparr>]\<rparr>"] w(3) by auto
      have "Insert_locked WriteOk i v b ?loc (db\<lparr>dbDisk := ds'\<rparr>) =
          (None, ?db1\<lparr>dbPending := dbPending ?db1 @ [\<lparr>piVector = arena_normalize v, piID = i, piIdx = idx\<rparr>]\<rparr>)"
        using w True by (simp add: Insert_locked_def Let_def)
      then show ?thesis using run None d f True by (simp add: Insert_def insert_bytes_def insert_verdict_def overflow_error_def)
    next
      case False
      then have "Insert_locked WriteOk i v b ?loc (db\<lparr>dbDisk := ds'\<rparr>) = (Some (LvWal WalNonFinite), db\<lparr>dbDisk := ds', dbArena := a', dbWal := wal'\<rparr>)"
        using w by (simp add: Insert_locked_def)
      then show ?thesis using run None d w(3) False by (auto simp: Insert_def insert_bytes_def insert_verdict_def overflow_error_def)
    qed
  qed
  then show "r = insert_verdict db i v b" "wal_open (dbWal db')" "dbDim db' = dbDim db" by blast+
qed

section \<open>Batches\<close>

abbreviation strip_loc :: "nat \<times> string \<times> vec \<times> bytes \<times> FileLocation \<Rightarrow> nat \<times> string \<times> vec \<times> bytes" where
  "strip_loc \<equiv> \<lambda>(k, i, v, b, loc). (k, i, v, b)"

fun overflow_errors :: "(nat \<times> string \<times> vec \<times> bytes) list \<Rightarrow> batch_errors" where
  "overflow_errors [] = []"
| "overflow_errors ((k, i, v, b) # ps) =
     (case overflow_error v of None \<Rightarrow> overflow_errors ps | Some e \<Rightarrow> (k, i, e) # overflow_errors ps)"

lemma batch_prepare_agree: "dbDim db1 = dbDim db2 \<Longrightarrow> batch_prepare m db1 k items = batch_prepare m db2 k items"
proof (induction items arbitrary: k)
  case (Cons it items)
  have "Insert_check db1 (bID it) (bVector it) b = Insert_check db2 (bID it) (bVector it) b" for b
    by (rule Insert_check_agree) (rule Cons.prems)
  then show ?case using Cons by (simp cong: option.case_cong)
qed simp

lemma batch_prepare_checked:
  "batch_prepare m db k items = (ps, errs) \<Longrightarrow> \<forall>(k, i, v, b)\<in>set ps. Insert_check db i v b = None"
proof (induction items arbitrary: k ps errs)
  case (Cons it items)
  obtain ps1 errs1 where r: "batch_prepare m db (Suc k) items = (ps1, errs1)" by fastforce
  note IH = Cons.IH [OF r]
  have "ps = ps1 \<or> (\<exists>b. ps = (k, bID it, bVector it, b) # ps1 \<and> Insert_check db (bID it) (bVector it) b = None)"
    using Cons.prems r by (auto split: option.splits)
  then show ?case using IH by auto
qed simp

lemma batch_disk_good:
  "batch_disk (\<lambda>_. DiskOk) ds ps = (xs, errs, ds') \<Longrightarrow>
    errs = [] \<and> map strip_loc xs = ps \<and> (\<forall>(k, i, v, b, loc)\<in>set xs. 0 \<le> flOffset loc)"
proof (induction ps arbitrary: ds xs errs)
  case (Cons p ps)
  obtain k i v b where p: "p = (k, i, v, b)" by (cases p)
  obtain ds1 where w: "DiskStore_Write DiskOk ds b = (Inr \<lparr>flOffset = int (dsPos ds), flLength = int32_of (length b)\<rparr>, ds1)"
    by (simp add: DiskStore_Write_def Let_def)
  obtain xs1 e1 where r: "batch_disk (\<lambda>_. DiskOk) ds1 ps = (xs1, e1, ds')" "xs = (k, i, v, b, \<lparr>flOffset = int (dsPos ds), flLength = int32_of (length b)\<rparr>) # xs1" "errs = e1"
    using Cons.prems w by (auto simp: p split: prod.splits)
  show ?case using Cons.IH [OF r(1)] r(2,3) by (simp add: p)
qed simp

lemma batch_commit_good:
  assumes "\<forall>(k, i, v, b, loc)\<in>set xs. length v = arDim (dbArena db) \<and> validateWALRecord OpInsert i v b noLocation = None \<and> 0 \<le> flOffset loc"
    and "wal_open (dbWal db)" and "batch_commit (\<lambda>_. WriteOk) xs q db = (dn, errs, q', db')"
  shows "errs = overflow_errors (map strip_loc xs) \<and> wal_open (dbWal db') \<and> dbDim db' = dbDim db"
  using assms
proof (induction xs arbitrary: q db dn errs)
  case (Cons x xs)
  obtain k i v b loc where x: "x = (k, i, v, b, loc)" by (cases x)
  have h: "length v = arDim (dbArena db)" "validateWALRecord OpInsert i v b noLocation = None" "0 \<le> flOffset loc"
    using Cons.prems(1) by (simp_all add: x)
  from checked_write [OF h Cons.prems(2)] obtain idx a' wal' where
    w: "VectorArena_Add (dbArena db) v = Inr (idx, arena_normalize v, a')" "arDim a' = arDim (dbArena db)"
    "WAL_WriteEntryNoFlush WriteOk OpInsert i (arena_normalize v) b loc (dbWal db) =
        (if list_all f32_finite (arena_normalize v) then None else Some WalNonFinite, wal')" "wal_open wal'" by blast
  show ?case
  proof (cases "list_all f32_finite (arena_normalize v)")
    case True
    let ?db1 = "store_maps i idx loc (replaceExistingLocked (db\<lparr>dbArena := a', dbWal := wal'\<rparr>) i)"
    obtain q1 dn1 where r: "batch_commit (\<lambda>_. WriteOk) xs q1 ?db1 = (dn1, errs, q', db')"
      using Cons.prems(3) w True by (auto simp: x split: prod.splits)
    have "\<forall>(k, i, v, b, loc)\<in>set xs. length v = arDim (dbArena ?db1) \<and> validateWALRecord OpInsert i v b noLocation = None \<and> 0 \<le> flOffset loc"
      using Cons.prems(1) w(2) by simp
    from Cons.IH [OF this _ r] show ?thesis using w(4) True by (simp add: x overflow_error_def)
  next
    case False
    let ?db1 = "db\<lparr>dbArena := a', dbWal := wal'\<rparr>"
    obtain errs1 dn1 where r: "batch_commit (\<lambda>_. WriteOk) xs q ?db1 = (dn1, errs1, q', db')" "errs = (k, i, LvWal WalNonFinite) # errs1"
      using Cons.prems(3) w False by (auto simp: x split: prod.splits)
    have "\<forall>(k, i, v, b, loc)\<in>set xs. length v = arDim (dbArena ?db1) \<and> validateWALRecord OpInsert i v b noLocation = None \<and> 0 \<le> flOffset loc"
      using Cons.prems(1) w(2) by simp
    from Cons.IH [OF this _ r(1)] show ?thesis using w(4) False r(2) by (simp add: x overflow_error_def)
  qed
qed simp

definition batch_verdict :: "('v \<Rightarrow> bytes option) \<Rightarrow> Levara \<Rightarrow> 'v BatchItem list \<Rightarrow> batch_errors" where
  "batch_verdict m db items = (case batch_prepare m db 0 items of (ps, errs) \<Rightarrow> errs @ overflow_errors ps)"

lemma BatchInsert_good:
  assumes h: "healthy db" and run: "BatchInsert m (\<lambda>_. DiskOk) (\<lambda>_. WriteOk) FlushOk db items = (errs, db')"
  shows "errs = batch_verdict m db items" "wal_open (dbWal db')" "dbDim db' = dbDim db"
proof -
  have st: "arDim (dbArena db) = dbDim db" using h by (auto simp: healthy_def lv_ok_def lv_inv_def lv_mem_def lv_static_def)
  have op: "wal_open (dbWal db)" using h by (simp add: healthy_def)
  have "errs = batch_verdict m db items \<and> wal_open (dbWal db') \<and> dbDim db' = dbDim db"
    using run
  proof (cases rule: BatchInsert_parts)
    case (1 ps e0 xs e1 disk' q dn e2 db1 f)
    note d = batch_disk_good [OF 1(2)]
    have chk: "length v = arDim (dbArena db) \<and> validateWALRecord OpInsert i v b noLocation = None \<and> 0 \<le> flOffset loc"
      if "(k, i, v, b, loc) \<in> set xs" for k i v b loc
    proof -
      have "strip_loc (k, i, v, b, loc) \<in> set (map strip_loc xs)" unfolding set_map using that by (rule imageI)
      then have "(k, i, v, b) \<in> set ps" using d by simp
      then have "Insert_check db i v b = None" using batch_prepare_checked [OF 1(1)] by blast
      then have "length v = dbDim db \<and> validateWALRecord OpInsert i v b noLocation = None"
        by (auto simp: Insert_check_def split: if_splits option.splits)
      moreover have "0 \<le> flOffset loc" using d that by blast
      ultimately show ?thesis using st by simp
    qed
    have "\<forall>(k, i, v, b, loc)\<in>set xs. length v = arDim (dbArena (db\<lparr>dbDisk := disk'\<rparr>)) \<and>
        validateWALRecord OpInsert i v b noLocation = None \<and> 0 \<le> flOffset loc" using chk by fastforce
    note c = batch_commit_good [OF this _ 1(3)]
    have c': "e2 = overflow_errors ps" "wal_open (dbWal db1)" "dbDim db1 = dbDim db" using c op d by simp_all
    obtain db2 where "FlushAsync FlushOk (queued db1 q) = (None, db2)" "wal_open (dbWal db2)" "dbDim db2 = dbDim db"
      using FlushAsync_good [of "queued db1 q"] c'(2,3) by auto
    then show ?thesis using 1(1,4,5) d c'(1) by (simp add: batch_verdict_def)
  qed
  then show "errs = batch_verdict m db items" "wal_open (dbWal db')" "dbDim db' = dbDim db" by blast+
qed

section \<open>Deletes\<close>

lemma lv_abs_dom: "lv_abs db i = None \<longleftrightarrow> dbIndex db i = None"
  by (simp add: lv_abs_def split: option.split)

lemma agree_index: "agree db1 db2 \<Longrightarrow> dbIndex db1 i = None \<longleftrightarrow> dbIndex db2 i = None"
  by (metis agree_def lv_abs_dom)

definition delete_verdict :: "Levara \<Rightarrow> string \<Rightarrow> lv_error option" where
  "delete_verdict db i =
     (if dbIndex db i = None then Some LvNotFound
      else case validateWALRecord OpDelete i [] [] noLocation of Some e \<Rightarrow> Some (LvWal e) | None \<Rightarrow> None)"

lemma deleteLocked_good:
  assumes "wal_open (dbWal db)" "deleteLocked WriteOk db i = (r, db')"
  shows "r = delete_verdict db i" "wal_open (dbWal db')" "dbDim db' = dbDim db"
proof -
  have "r = delete_verdict db i \<and> wal_open (dbWal db') \<and> dbDim db' = dbDim db"
  proof (cases "dbIndex db i")
    case None
    then show ?thesis using assms by (simp add: deleteLocked_def delete_verdict_def)
  next
    case (Some idx)
    show ?thesis
    proof (cases "validateWALRecord OpDelete i [] [] noLocation")
      case None
      then show ?thesis
        using assms Some
        by (auto simp: deleteLocked_def delete_verdict_def WAL_WriteEntryNoFlush_def WAL_writeEntryLocked_def writeWALEntryTo_def removePendingByID_def)
    next
      case e: (Some e)
      then show ?thesis
        using assms Some by (simp add: deleteLocked_def delete_verdict_def WAL_WriteEntryNoFlush_def WAL_writeEntryLocked_def writeWALEntryTo_def)
    qed
  qed
  then show "r = delete_verdict db i" "wal_open (dbWal db')" "dbDim db' = dbDim db" by blast+
qed

lemma Delete_good:
  assumes "wal_open (dbWal db)" "Delete WriteOk FlushOk db i = (r, db')"
  shows "r = delete_verdict db i" "wal_open (dbWal db')" "dbDim db' = dbDim db"
proof -
  obtain x db1 where d: "deleteLocked WriteOk db i = (x, db1)" by fastforce
  note g = deleteLocked_good [OF assms(1) d]
  obtain db2 where f: "FlushAsync FlushOk db1 = (None, db2)" "wal_open (dbWal db2)" "dbDim db2 = dbDim db1"
    using FlushAsync_good [OF g(2)] by blast
  have "r = delete_verdict db i \<and> wal_open (dbWal db') \<and> dbDim db' = dbDim db"
  proof (cases x)
    case None
    then show ?thesis using assms(2) d f g by (simp add: Delete_def)
  next
    case (Some e)
    then have "r = x" "db' = db1" using assms(2) d by (simp_all add: Delete_def)
    then show ?thesis using g by simp
  qed
  then show "r = delete_verdict db i" "wal_open (dbWal db')" "dbDim db' = dbDim db" by blast+
qed

lemma batch_delete_agree:
  assumes "agree db1 db2" "healthy db1" "healthy db2"
    and "batch_delete (\<lambda>_. WriteOk) k ids db1 = (e1, d1, db1')" "batch_delete (\<lambda>_. WriteOk) k ids db2 = (e2, d2, db2')"
  shows "e1 = e2 \<and> d1 = d2 \<and> agree db1' db2' \<and> healthy db1' \<and> healthy db2'"
  using assms
proof (induction ids arbitrary: k db1 db2 e1 e2 d1 d2 db1' db2')
  case (Cons i ids)
  obtain r1 c1 where a: "deleteLocked WriteOk db1 i = (r1, c1)" by fastforce
  obtain r2 c2 where b: "deleteLocked WriteOk db2 i = (r2, c2)" by fastforce
  obtain pub1 recs1 pub2 recs2 where inv: "lv_inv pub1 recs1 db1" "lv_inv pub2 recs2 db2"
    using Cons.prems(2,3) by (auto simp: healthy_def lv_ok_def)
  have op: "wal_open (dbWal db1)" "wal_open (dbWal db2)" using Cons.prems(2,3) by (simp_all add: healthy_def)
  note g1 = deleteLocked_good [OF op(1) a] and g2 = deleteLocked_good [OF op(2) b]
  note l1 = deleteLocked_inv [OF inv(1) a] and l2 = deleteLocked_inv [OF inv(2) b]
  have r: "r1 = r2" using g1(1) g2(1) agree_index [OF Cons.prems(1), of i] by (simp add: delete_verdict_def)
  have h: "healthy c1" "healthy c2" using g1(2) g2(2) l1(1) l2(1) by (auto simp: healthy_def lv_ok_def)
  have ag: "agree c1 c2" using l1(2) l2(2) g1(3) g2(3) r Cons.prems(1) by (auto simp: agree_def)
  obtain x1 y1 z1 where ra: "batch_delete (\<lambda>_. WriteOk) (k + 1) ids c1 = (x1, y1, z1)" using prod_cases3 by blast
  obtain x2 y2 z2 where rb: "batch_delete (\<lambda>_. WriteOk) (k + 1) ids c2 = (x2, y2, z2)" using prod_cases3 by blast
  from Cons.IH [OF ag h ra rb] show ?case using Cons.prems(4,5) a b ra rb r by (auto split: option.splits)
qed simp

lemma BatchDelete_agree:
  assumes "agree db1 db2" "healthy db1" "healthy db2"
    and r1: "BatchDelete (\<lambda>_. WriteOk) FlushOk db1 ids = (e1, db1')" and r2: "BatchDelete (\<lambda>_. WriteOk) FlushOk db2 ids = (e2, db2')"
  shows "e1 = e2 \<and> agree db1' db2' \<and> healthy db1' \<and> healthy db2'"
proof -
  obtain x1 y1 z1 where a: "batch_delete (\<lambda>_. WriteOk) 0 ids db1 = (x1, y1, z1)" using prod_cases3 by blast
  obtain x2 y2 z2 where b: "batch_delete (\<lambda>_. WriteOk) 0 ids db2 = (x2, y2, z2)" using prod_cases3 by blast
  have g: "x1 = x2" "y1 = y2" "agree z1 z2" "healthy z1" "healthy z2" using batch_delete_agree [OF assms(1-3) a b] by blast+
  have fl: "\<exists>c. FlushAsync FlushOk z = (None, c) \<and> healthy c \<and> lv_abs c = lv_abs z \<and> dbDim c = dbDim z" if hz: "healthy z" for z
  proof -
    obtain pub recs where inv: "lv_inv pub recs z" using hz by (auto simp: healthy_def lv_ok_def)
    obtain c where c: "FlushAsync FlushOk z = (None, c)" "wal_open (dbWal c)" "dbDim c = dbDim z"
      using FlushAsync_good [of z] hz by (auto simp: healthy_def)
    then show ?thesis using FlushAsync_inv [OF inv c(1)] by (auto simp: healthy_def lv_ok_def)
  qed
  obtain c1 c2 where c: "FlushAsync FlushOk z1 = (None, c1)" "healthy c1" "lv_abs c1 = lv_abs z1" "dbDim c1 = dbDim z1"
    "FlushAsync FlushOk z2 = (None, c2)" "healthy c2" "lv_abs c2 = lv_abs z2" "dbDim c2 = dbDim z2"
    using fl [OF g(4)] fl [OF g(5)] by blast
  show ?thesis
  proof (cases "y1 = []")
    case True
    then show ?thesis using r1 r2 a b g by (simp add: BatchDelete_def)
  next
    case False
    then show ?thesis using r1 r2 a b g c by (simp add: BatchDelete_def agree_def)
  qed
qed

section \<open>Agreement\<close>

lemma Insert_agree:
  assumes ag: "agree db1 db2" "healthy db1" "healthy db2" and room: "room_for 1 db1" "room_for 1 db2"
    and r1: "Insert (\<lambda>_ :: unit insert_data. None) DiskOk WriteOk FlushOk db1 i v (DRaw b) = (x1, db1')"
    and r2: "Insert (\<lambda>_ :: unit insert_data. None) DiskOk WriteOk FlushOk db2 i v (DRaw b) = (x2, db2')"
  shows "x1 = x2 \<and> agree db1' db2' \<and> healthy db1' \<and> healthy db2'"
proof -
  obtain pub1 recs1 pub2 recs2 where inv: "lv_inv pub1 recs1 db1" "lv_inv pub2 recs2 db2"
    using ag(2,3) by (auto simp: healthy_def lv_ok_def)
  have sp: "lv_space db1" "lv_space db2" using room by (simp_all add: room_for_def lv_space_def)
  note g1 = Insert_good [OF ag(2) r1] and g2 = Insert_good [OF ag(3) r2]
  note R1 = Insert_refines [OF inv(1) sp(1) _ r1] and R2 = Insert_refines [OF inv(2) sp(2) _ r2]
  have x: "x1 = x2" using g1(1) g2(1) ag(1) Insert_check_agree [of db1 db2] by (simp add: insert_verdict_def agree_def)
  have h: "healthy db1'" "healthy db2'" using g1(2) g2(2) R1(1) R2(1) by (auto simp: healthy_def lv_ok_def)
  have "lv_abs db1' = lv_abs db2'"
    using R1(2,3) R2(2,3) x ag(1) by (cases "applied x1") (auto simp: agree_def)
  then show ?thesis using x h g1(3) g2(3) ag(1) by (simp add: agree_def)
qed

lemma BatchInsert_agree:
  assumes ag: "agree db1 db2" "healthy db1" "healthy db2" and room: "room_for (length items) db1" "room_for (length items) db2"
    and r1: "BatchInsert m (\<lambda>_. DiskOk) (\<lambda>_. WriteOk) FlushOk db1 items = (x1, db1')"
    and r2: "BatchInsert m (\<lambda>_. DiskOk) (\<lambda>_. WriteOk) FlushOk db2 items = (x2, db2')"
  shows "x1 = x2 \<and> agree db1' db2' \<and> healthy db1' \<and> healthy db2'"
proof -
  obtain pub1 recs1 pub2 recs2 where inv: "lv_inv pub1 recs1 db1" "lv_inv pub2 recs2 db2"
    using ag(2,3) by (auto simp: healthy_def lv_ok_def)
  note g1 = BatchInsert_good [OF ag(2) r1] and g2 = BatchInsert_good [OF ag(3) r2]
  have "batch_prepare m db1 0 items = batch_prepare m db2 0 items" using ag(1) by (intro batch_prepare_agree) (simp add: agree_def)
  then have x: "x1 = x2" using g1(1) g2(1) by (simp add: batch_verdict_def)
  have ww: "\<forall>k. whole_write ((\<lambda>_. DiskOk) k)" by simp
  have b1: "\<exists>recs'. lv_inv pub1 recs' db1' \<and> lv_abs db1' = foldl (batch_put m items) (lv_abs db1) (applied_at x1 (length items))"
    using BatchInsert_refines [OF inv(1) ww _ _ r1] room(1) by (auto simp: room_for_def)
  have b2: "\<exists>recs'. lv_inv pub2 recs' db2' \<and> lv_abs db2' = foldl (batch_put m items) (lv_abs db2) (applied_at x2 (length items))"
    using BatchInsert_refines [OF inv(2) ww _ _ r2] room(2) by (auto simp: room_for_def)
  have "healthy db1'" "healthy db2'" using g1(2) g2(2) b1 b2 by (auto simp: healthy_def lv_ok_def)
  moreover have "lv_abs db1' = lv_abs db2'" using b1 b2 x ag(1) by (auto simp: agree_def)
  ultimately show ?thesis using x g1(3) g2(3) ag(1) by (simp add: agree_def)
qed

lemma Delete_agree:
  assumes ag: "agree db1 db2" "healthy db1" "healthy db2"
    and r1: "Delete WriteOk FlushOk db1 i = (x1, db1')" and r2: "Delete WriteOk FlushOk db2 i = (x2, db2')"
  shows "x1 = x2 \<and> agree db1' db2' \<and> healthy db1' \<and> healthy db2'"
proof -
  obtain pub1 recs1 pub2 recs2 where inv: "lv_inv pub1 recs1 db1" "lv_inv pub2 recs2 db2"
    using ag(2,3) by (auto simp: healthy_def lv_ok_def)
  have op: "wal_open (dbWal db1)" "wal_open (dbWal db2)" using ag(2,3) by (simp_all add: healthy_def)
  note g1 = Delete_good [OF op(1) r1] and g2 = Delete_good [OF op(2) r2]
  note R1 = Delete_refines [OF inv(1) r1] and R2 = Delete_refines [OF inv(2) r2]
  have x: "x1 = x2" using g1(1) g2(1) agree_index [OF ag(1), of i] by (simp add: delete_verdict_def)
  have "healthy db1'" "healthy db2'" using g1(2) g2(2) R1(1) R2(1) by (auto simp: healthy_def lv_ok_def)
  then show ?thesis using x R1(2) R2(2) g1(3) g2(3) ag(1) by (simp add: agree_def)
qed

text \<open>One committed entry on two nodes.\<close>

lemma FSM_Apply_agree:
  assumes ag: "agree db1 db2" "healthy db1" "healthy db2"
    and room: "\<And>cmd. decode x = Some cmd \<Longrightarrow> room_for (command_size cmd) db1 \<and> room_for (command_size cmd) db2"
    and r1: "FSM_Apply decode compactJSON good_io db1 x = (a1, db1')" and r2: "FSM_Apply decode compactJSON good_io db2 x = (a2, db2')"
  shows "a1 = a2 \<and> agree db1' db2' \<and> healthy db1' \<and> healthy db2'"
proof (cases "decode x")
  case None
  then show ?thesis using r1 r2 ag by (simp add: FSM_Apply_def)
next
  case (Some cmd)
  have small: "room_for 1 db" "room_for (length (cmdRecords cmd)) db" if r: "room_for (command_size cmd) db" for db
  proof -
    have "n \<le> command_size cmd \<Longrightarrow> room_for n db" for n
      using r mult_le_mono1 [of n "command_size cmd" mib] unfolding room_for_def by linarith
    then show "room_for 1 db" "room_for (length (cmdRecords cmd)) db" by (simp_all add: command_size_def)
  qed
  note rm = small [OF conjunct1 [OF room [OF Some]]] small [OF conjunct2 [OF room [OF Some]]]
  let ?items = "map (\<lambda>rec. \<lparr>bID = brId rec, bVector = brVector rec, bData = brData rec\<rparr>) (cmdRecords cmd)"
  consider (i) "cmdOp cmd = ''insert''" | (b) "cmdOp cmd = ''batch_insert''" | (d) "cmdOp cmd = ''delete''"
    | (bd) "cmdOp cmd = ''batch_delete''" | (u) "cmdOp cmd \<notin> {''insert'', ''batch_insert'', ''delete'', ''batch_delete''}" by blast
  then show ?thesis
  proof cases
    case i
    let ?ins = "\<lambda>db. Insert (\<lambda>_ :: unit insert_data. None) DiskOk WriteOk FlushOk db (cmdId cmd) (cmdVector cmd) (DRaw (cmdData cmd))"
    obtain y1 where o1: "?ins db1 = (y1, db1')" "a1 = error_response y1"
      using r1 Some i by (auto simp: FSM_Apply_def good_io_def split: prod.splits)
    obtain y2 where o2: "?ins db2 = (y2, db2')" "a2 = error_response y2"
      using r2 Some i by (auto simp: FSM_Apply_def good_io_def split: prod.splits)
    show ?thesis using Insert_agree [OF ag rm(1,3) o1(1) o2(1)] o1(2) o2(2) by simp
  next
    case b
    have n: "length ?items = length (cmdRecords cmd)" by simp
    obtain y1 where o1: "BatchInsert compactJSON (\<lambda>_. DiskOk) (\<lambda>_. WriteOk) FlushOk db1 ?items = (y1, db1')" "a1 = errors_response y1"
      using r1 Some b by (auto simp: FSM_Apply_def good_io_def Let_def split: prod.splits)
    obtain y2 where o2: "BatchInsert compactJSON (\<lambda>_. DiskOk) (\<lambda>_. WriteOk) FlushOk db2 ?items = (y2, db2')" "a2 = errors_response y2"
      using r2 Some b by (auto simp: FSM_Apply_def good_io_def Let_def split: prod.splits)
    show ?thesis using BatchInsert_agree [OF ag rm(2,4) [folded n] o1(1) o2(1)] o1(2) o2(2) by simp
  next
    case d
    obtain y1 where o1: "Delete WriteOk FlushOk db1 (cmdId cmd) = (y1, db1')" "a1 = error_response y1"
      using r1 Some d by (auto simp: FSM_Apply_def good_io_def Let_def split: prod.splits)
    obtain y2 where o2: "Delete WriteOk FlushOk db2 (cmdId cmd) = (y2, db2')" "a2 = error_response y2"
      using r2 Some d by (auto simp: FSM_Apply_def good_io_def Let_def split: prod.splits)
    show ?thesis using Delete_agree [OF ag o1(1) o2(1)] o1(2) o2(2) by simp
  next
    case bd
    obtain y1 where o1: "BatchDelete (\<lambda>_. WriteOk) FlushOk db1 (cmdIDs cmd) = (y1, db1')" "a1 = errors_response y1"
      using r1 Some bd by (auto simp: FSM_Apply_def good_io_def Let_def split: prod.splits)
    obtain y2 where o2: "BatchDelete (\<lambda>_. WriteOk) FlushOk db2 (cmdIDs cmd) = (y2, db2')" "a2 = errors_response y2"
      using r2 Some bd by (auto simp: FSM_Apply_def good_io_def Let_def split: prod.splits)
    show ?thesis using BatchDelete_agree [OF ag o1(1) o2(1)] o1(2) o2(2) by simp
  next
    case u
    then show ?thesis using r1 r2 Some ag by (simp add: FSM_Apply_def)
  qed
qed

text \<open>A node that applies a committed log, with room for every entry, and the answers it gives.\<close>

inductive fsm_run :: "(bytes \<Rightarrow> Command option) \<Rightarrow> (bytes \<Rightarrow> bytes option) \<Rightarrow> Levara \<Rightarrow> bytes list \<Rightarrow> response list \<Rightarrow> Levara \<Rightarrow> bool"
  for decode compactJSON where
  fsm_done: "fsm_run decode compactJSON db [] [] db"
| fsm_apply: "(\<forall>cmd. decode x = Some cmd \<longrightarrow> room_for (command_size cmd) db) \<Longrightarrow>
    FSM_Apply decode compactJSON good_io db x = (a, db1) \<Longrightarrow> fsm_run decode compactJSON db1 xs as db' \<Longrightarrow>
    fsm_run decode compactJSON db (x # xs) (a # as) db'"

inductive_cases fsm_run_Nil: "fsm_run decode compactJSON db [] as db'"
inductive_cases fsm_run_Cons: "fsm_run decode compactJSON db (x # xs) as db'"

lemma fsm_run_agree:
  assumes "fsm_run decode compactJSON db1 xs as1 db1'" "fsm_run decode compactJSON db2 xs as2 db2'"
    and "agree db1 db2" "healthy db1" "healthy db2"
  shows "as1 = as2 \<and> agree db1' db2' \<and> healthy db1' \<and> healthy db2'"
  using assms
proof (induction arbitrary: db2 as2 rule: fsm_run.induct)
  case (fsm_done db)
  then show ?case by (auto elim: fsm_run_Nil)
next
  case (fsm_apply x db a c1 xs as db')
  from fsm_apply.prems(1) obtain a2 c2 as2' where s: "\<forall>cmd. decode x = Some cmd \<longrightarrow> room_for (command_size cmd) db2"
    "FSM_Apply decode compactJSON good_io db2 x = (a2, c2)" "fsm_run decode compactJSON c2 xs as2' db2'" "as2 = a2 # as2'"
    by (auto elim: fsm_run_Cons)
  have "a = a2 \<and> agree c1 c2 \<and> healthy c1 \<and> healthy c2"
    by (rule FSM_Apply_agree [OF fsm_apply.prems(2-4) _ fsm_apply.hyps(2) s(2)]) (use fsm_apply.hyps(1) s(1) in blast)
  then show ?case using fsm_apply.IH [OF s(3)] s(4) by blast
qed

end
