(* ===== verification/Node_Batch.thy ===== *)
theory Node_Batch
  imports Replication_Steps Raft
begin

text \<open>
  Batches of a node as sequences of its single writes, and the snapshot of a state machine restored on another node.
\<close>

section \<open>Batches\<close>

text \<open>The single inserts of a batch, each with its encoded metadata; a record that cannot be encoded is reported and skipped.\<close>

fun direct_seq ::
  "('v \<Rightarrow> bytes option) \<Rightarrow> (nat \<Rightarrow> disk_io) \<Rightarrow> (nat \<Rightarrow> write_io) \<Rightarrow> (nat \<Rightarrow> flush_io) \<Rightarrow> (nat \<Rightarrow> string list) \<Rightarrow> nat \<Rightarrow>
   'v BatchItem list \<Rightarrow> DirectNode \<Rightarrow> (node_error list \<times> DirectNode) option" where
  "direct_seq marshal dio wio fio order k [] dn = Some ([], dn)"
| "direct_seq marshal dio wio fio order k (r # records) dn =
     (case (case marshal (bData r) of
              None \<Rightarrow> Some (Some LvMarshal, dn)
            | Some b \<Rightarrow> DirectNode_Insert (\<lambda>_ :: unit insert_data. None) (dio k) (wio k) (fio k) (order k) dn (bID r) (bVector r) (DRaw b)) of
        None \<Rightarrow> None
      | Some (e, dn') \<Rightarrow>
          (case direct_seq marshal dio wio fio order (k + 1) records dn' of
             None \<Rightarrow> None
           | Some (errs, dn'') \<Rightarrow> Some (case e of None \<Rightarrow> errs | Some e \<Rightarrow> NPlain e # errs, dn'')))"

fun delete_seq ::
  "(nat \<Rightarrow> write_io) \<Rightarrow> (nat \<Rightarrow> flush_io) \<Rightarrow> (nat \<Rightarrow> string list) \<Rightarrow> nat \<Rightarrow> string list \<Rightarrow> DirectNode \<Rightarrow> (node_error list \<times> DirectNode) option" where
  "delete_seq wio fio order k [] dn = Some ([], dn)"
| "delete_seq wio fio order k (i # ids) dn =
     (case DirectNode_Delete (wio k) (fio k) (order k) dn i of
        None \<Rightarrow> None
      | Some (e, dn') \<Rightarrow>
          (case delete_seq wio fio order (k + 1) ids dn' of
             None \<Rightarrow> None
           | Some (errs, dn'') \<Rightarrow> Some (case e of None \<Rightarrow> errs | Some e \<Rightarrow> NPlain e # errs, dn'')))"

definition pack :: "node_error list \<times> Levara \<times> ReplicationServer \<Rightarrow> node_error list \<times> DirectNode" where
  "pack x = (case x of (errs, db, rs) \<Rightarrow> (errs, \<lparr>dnDB = db, dnRepl = Some rs\<rparr>))"

lemma direct_inserts_seq:
  "direct_seq marshal dio wio fio order k records \<lparr>dnDB = db, dnRepl = Some rs\<rparr> =
   map_option pack (direct_inserts marshal dio wio fio order k records db rs)"
proof (induction records arbitrary: k db rs)
  case (Cons r records)
  show ?case
  proof (cases "marshal (bData r)")
    case None
    then show ?thesis using Cons.IH by (simp add: pack_def split: option.split)
  next
    case (Some b)
    obtain x db' where ins: "Insert (\<lambda>_ :: unit insert_data. None) (dio k) (wio k) (fio k) db (bID r) (bVector r) (DRaw b) = (x, db')" by fastforce
    show ?thesis
      using Some ins Cons.IH
      by (cases x) (simp_all add: pack_def DirectNode_Insert_def repl_after_def split: option.split)
  qed
qed (simp add: pack_def)

lemma direct_deletes_seq:
  "delete_seq wio fio order k ids \<lparr>dnDB = db, dnRepl = Some rs\<rparr> =
   map_option pack (direct_deletes wio fio order k ids db rs)"
proof (induction ids arbitrary: k db rs)
  case (Cons i ids)
  obtain x db' where del: "Delete (wio k) (fio k) db i = (x, db')" by fastforce
  show ?case
    using del Cons.IH
    by (cases x; cases "Get db i") (simp_all add: pack_def DirectNode_Delete_def repl_after_def Let_def split: option.split)
qed (simp add: pack_def)

lemma DirectNode_BatchInsert_seq:
  assumes "dnRepl dn = Some rs" "rsListeners rs \<noteq> []"
  shows "DirectNode_BatchInsert marshal dio wio fio order dn records = direct_seq marshal dio wio fio order 0 records dn"
proof -
  have dn: "dn = \<lparr>dnDB = dnDB dn, dnRepl = Some rs\<rparr>" using assms(1) by simp
  have "DirectNode_BatchInsert marshal dio wio fio order dn records =
    map_option pack (direct_inserts marshal dio wio fio order 0 records (dnDB dn) rs)"
    using assms by (simp add: DirectNode_BatchInsert_def pack_def split: option.split)
  then show ?thesis using direct_inserts_seq dn by metis
qed

lemma DirectNode_BatchDelete_seq:
  assumes "dnRepl dn = Some rs" "rsListeners rs \<noteq> []"
  shows "DirectNode_BatchDelete wio fio order dn ids = delete_seq wio fio order 0 ids dn"
proof -
  have dn: "dn = \<lparr>dnDB = dnDB dn, dnRepl = Some rs\<rparr>" using assms(1) by simp
  have "DirectNode_BatchDelete wio fio order dn ids =
    map_option pack (direct_deletes wio fio order 0 ids (dnDB dn) rs)"
    using assms by (simp add: DirectNode_BatchDelete_def pack_def split: option.split)
  then show ?thesis using direct_deletes_seq dn by metis
qed

section \<open>No operation of a reachable server panics\<close>

lemma repl_after_total: "rs_inv rs \<Longrightarrow> visits rs order \<Longrightarrow> repl_after order failed e rs \<noteq> None"
  using broadcastLocked_ok [of rs order e] invalidateLocked_ok [of rs order] by (auto simp: repl_after_def)

lemma node_total:
  assumes "rs_inv rs" "visits rs order"
  shows "DirectNode_Insert marshal dio wio fio order \<lparr>dnDB = db, dnRepl = Some rs\<rparr> i v data \<noteq> None"
    "DirectNode_Delete wio fio order \<lparr>dnDB = db, dnRepl = Some rs\<rparr> i \<noteq> None"
proof -
  note tot = repl_after_total [OF assms]
  obtain x db' where "Insert marshal dio wio fio db i v data = (x, db')" by fastforce
  then show "DirectNode_Insert marshal dio wio fio order \<lparr>dnDB = db, dnRepl = Some rs\<rparr> i v data \<noteq> None"
    using tot [of "x \<noteq> None" "WALEntryFromInsert marshal i (arena_normalize v) data"] by (auto simp: DirectNode_Insert_def)
  obtain x db' where "Delete wio fio db i = (x, db')" by fastforce
  then show "DirectNode_Delete wio fio order \<lparr>dnDB = db, dnRepl = Some rs\<rparr> i \<noteq> None"
    using tot [of "x \<noteq> None" "WALEntryFromDelete i"] by (auto simp: DirectNode_Delete_def Let_def)
qed

lemma server_total:
  assumes "rs_inv rs"
  shows "AddReplica rid rs \<noteq> None" "RemoveReplica rid rs \<noteq> None" "stream_cleanup rid ch rs \<noteq> None"
  using addReplicaLocked_ok [OF assms, of rid] RemoveReplica_ok [OF assms, of rid] stream_cleanup_ok [OF assms, of rid ch]
  by (auto simp: AddReplica_def)

section \<open>A state machine restored from the snapshot of another\<close>

text \<open>What the encoder and the decoder do with records that have valid ids and metadata, \<open>norm_json\<close> compacting the latter.\<close>

definition snapshot_law ::
  "(string \<Rightarrow> bool) \<Rightarrow> (bytes \<Rightarrow> bool) \<Rightarrow> (bytes \<Rightarrow> bytes) \<Rightarrow> (SnapshotRecord list \<Rightarrow> bytes option) \<Rightarrow>
   (bytes \<Rightarrow> SnapshotRecord list option option) \<Rightarrow> bool" where
  "snapshot_law validID validMeta norm_json marshal unmarshal \<longleftrightarrow>
     (\<forall>rs data. (\<forall>r\<in>set rs. validID (snID r) \<and> validMeta (snData r)) \<longrightarrow> marshal rs = Some data \<longrightarrow>
        unmarshal data = Some (Some (map (canon_record norm_json) rs)))"

lemma FSM_snapshot_restore:
  assumes db: "lv_ok db" "map_order (dbIndex db) order" and node: "lv_inv pub recs node"
    and law: "snapshot_law validID validMeta norm_json marshal unmarshal"
    and valid: "\<forall>i v b. lv_abs db i = Some (v, b) \<longrightarrow> validID i \<and> validMeta b"
    and snap: "FSM_Snapshot marshal order db = Inr data"
    and io: "\<forall>k. whole_write (dio k)" "length order < 2 ^ 32" "dsPos (dbDisk node) + length order * mib < 2 ^ 63"
    and run: "FSM_Restore unmarshal dot levels dio pio node (Some data) = (r, node')"
  shows "r = None \<Longrightarrow> lv_abs node' = replica_image norm_json (lv_abs db) \<and> lv_ok node'"
    "r \<noteq> None \<Longrightarrow> r \<noteq> Some (SnRestore LvPublished) \<Longrightarrow> lv_abs node' = lv_abs node \<and> lv_ok node'"
    "r = Some (SnRestore LvPublished) \<Longrightarrow> lv_abs node' = replica_image norm_json (lv_abs db) \<and> lv_ok node'"
proof -
  obtain rs where rs: "AllRecordsChecked order db = Inr rs" "marshal rs = Some data"
    using snap by (auto simp: FSM_Snapshot_def split: sum.splits option.splits)
  note im = snapshot_image [OF db rs(1)]
  have "\<forall>r\<in>set rs. validID (snID r) \<and> validMeta (snData r)" using im(2) valid by blast
  then have un: "unmarshal data = Some (Some (map (canon_record norm_json) rs))" using law rs(2) unfolding snapshot_law_def by blast
  obtain pub0 where mem: "lv_mem pub0 db" using db(1) by (auto simp: lv_ok_def lv_inv_def)
  have "map snID rs = order" using allRecordsLocked_ok [OF mem, of order] rs(1) db(2) by (auto simp: AllRecordsChecked_def map_order_def)
  then have len: "length (map (canon_record norm_json) rs) = length order" by auto
  obtain x node1 where rst: "RestoreSnapshot dot levels dio pio node (map (canon_record norm_json) rs) = (x, node1)" by fastforce
  have r: "r = map_option SnRestore x" "node' = node1"
    using run un rst by (auto simp: FSM_Restore_def split: option.splits)
  note R = RestoreSnapshot_refines [OF node io(1) io(2) [folded len] io(3) [folded len] rst]
  show "r = None \<Longrightarrow> lv_abs node' = replica_image norm_json (lv_abs db) \<and> lv_ok node'"
    "r = Some (SnRestore LvPublished) \<Longrightarrow> lv_abs node' = replica_image norm_json (lv_abs db) \<and> lv_ok node'"
    "r \<noteq> None \<Longrightarrow> r \<noteq> Some (SnRestore LvPublished) \<Longrightarrow> lv_abs node' = lv_abs node \<and> lv_ok node'"
    using R(1-3) im(1) r by (auto simp: published_def lv_ok_def)
qed

end
