(* ===== verification/Contract.thy ===== *)
theory Contract
  imports Prelude "HOL-Library.Sublist"
begin

text \<open>
  \<open>pkg/embcontract/contract.go\<close>: the contract that names the vector space of a collection, its fingerprint,
  and how the fingerprint is stamped onto the metadata of a record and read back.

  Arguments: \<open>env\<close> is \<open>os.Getenv\<close>, \<open>lower\<close> the Unicode lower-casing of \<open>strings.ToLower\<close>, \<open>sha256\<close> the hash,
  \<open>parse\<close> and \<open>render\<close> are \<open>json.Unmarshal\<close> into and \<open>json.Marshal\<close> from a \<open>map[string]any\<close>. A nil map is \<open>None\<close>;
  writing into one panics, which is the outer \<open>None\<close> of a result.
\<close>

section \<open>White space and decimals\<close>

text \<open>The UTF-8 encodings of the characters that \<open>unicode.IsSpace\<close> accepts.\<close>

definition space_codes :: "string list" where
  "space_codes = map (map char_of) ([[9], [10], [11], [12], [13], [32], [0xC2, 0x85], [0xC2, 0xA0], [0xE1, 0x9A, 0x80],
      [0xE2, 0x80, 0xA8], [0xE2, 0x80, 0xA9], [0xE2, 0x80, 0xAF], [0xE2, 0x81, 0x9F], [0xE3, 0x80, 0x80]]
      @ map (\<lambda>k. [0xE2, 0x80, k]) [0x80..<0x8B :: nat])"

function strip_codes :: "string list \<Rightarrow> string \<Rightarrow> string" where
  "strip_codes codes s =
     (case find (\<lambda>c. c \<noteq> [] \<and> take (length c) s = c) codes of
        None \<Rightarrow> s
      | Some c \<Rightarrow> strip_codes codes (drop (length c) s))"
  by pat_completeness auto
termination
proof (relation "measure (length \<circ> snd)")
  fix codes s c
  assume "find (\<lambda>c. c \<noteq> [] \<and> take (length c) s = c) codes = Some (c :: string)"
  then have "c \<noteq> []" "take (length c) s = c" by (auto simp: find_Some_iff)
  then have "s \<noteq> []" by auto
  then show "((codes, drop (length c) s), codes, s) \<in> measure (length \<circ> snd)" using \<open>c \<noteq> []\<close> by simp
qed simp

declare strip_codes.simps [simp del]

definition TrimSpace :: "string \<Rightarrow> string" where
  "TrimSpace s = rev (strip_codes (map rev space_codes) (rev (strip_codes space_codes s)))"

fun digits :: "nat \<Rightarrow> string" where
  "digits n = (if n < 10 then [char_of (48 + n)] else digits (n div 10) @ [char_of (48 + n mod 10)])"

definition decimal :: "int \<Rightarrow> string" where
  "decimal z = (if z < 0 then CHR ''-'' # digits (nat (- z)) else digits (nat z))"

fun hex_digit :: "nat \<Rightarrow> char" where
  "hex_digit n = (if n < 10 then char_of (48 + n) else char_of (87 + n))"

definition hex_string :: "bytes \<Rightarrow> string" where
  "hex_string bs = concat (map (\<lambda>b. [hex_digit (of_char b div 16), hex_digit (of_char b mod 16)]) bs)"

section \<open>Contracts\<close>

record Contract =
  coEncoder :: string
  coTokenizer :: string
  coPooling :: string
  coNormalization :: string
  coDim :: int
  coMetric :: string

fun firstNonEmpty :: "string list \<Rightarrow> string" where
  "firstNonEmpty [] = []"
| "firstNonEmpty (v # vals) = (let s = TrimSpace v in if s \<noteq> [] then s else firstNonEmpty vals)"

definition FromEnv :: "(string \<Rightarrow> string) \<Rightarrow> string \<Rightarrow> int \<Rightarrow> string \<Rightarrow> Contract" where
  "FromEnv env model dm metric =
     \<lparr>coEncoder = firstNonEmpty [model, env ''EMBEDDING_ENCODER'', env ''EMBEDDING_MODEL''],
      coTokenizer = firstNonEmpty [env ''EMBEDDING_TOKENIZER'', env ''EMBEDDING_TOKENIZER_NAME''],
      coPooling = firstNonEmpty [env ''EMBEDDING_POOLING'', ''mean''],
      coNormalization = firstNonEmpty [env ''EMBEDDING_NORMALIZATION'', ''l2''],
      coDim = dm,
      coMetric = firstNonEmpty [metric, env ''EMBEDDING_METRIC'', ''cosine'']\<rparr>"

definition Normalized :: "(string \<Rightarrow> string) \<Rightarrow> Contract \<Rightarrow> Contract" where
  "Normalized lower c =
     (let pooling = lower (TrimSpace (coPooling c));
          normalization = lower (TrimSpace (coNormalization c));
          metric = lower (TrimSpace (coMetric c))
      in c\<lparr>coEncoder := TrimSpace (coEncoder c), coTokenizer := TrimSpace (coTokenizer c),
           coPooling := if pooling = [] then ''mean'' else pooling,
           coNormalization := if normalization = [] then ''l2'' else normalization,
           coMetric := if metric = [] then ''cosine'' else metric\<rparr>)"

definition payload :: "Contract \<Rightarrow> string" where
  "payload c =
     ''encoder='' @ coEncoder c @ ''\<newline>tokenizer='' @ coTokenizer c @ ''\<newline>pooling='' @ coPooling c @
     ''\<newline>normalization='' @ coNormalization c @ ''\<newline>dim='' @ decimal (coDim c) @ ''\<newline>metric='' @ coMetric c @ ''\<newline>''"

definition Fingerprint :: "(string \<Rightarrow> string) \<Rightarrow> (bytes \<Rightarrow> bytes) \<Rightarrow> Contract \<Rightarrow> string" where
  "Fingerprint lower sha256 c = ''emb:'' @ take 24 (hex_string (sha256 (payload (Normalized lower c))))"

definition Contract_Empty :: "(string \<Rightarrow> string) \<Rightarrow> Contract \<Rightarrow> bool" where
  "Contract_Empty lower c \<longleftrightarrow> coEncoder (Normalized lower c) = []"

section \<open>Metadata\<close>

definition MetadataVersionKey :: string where
  "MetadataVersionKey = ''embedding_version''"

definition MetadataContractKey :: string where
  "MetadataContractKey = ''embedding_contract''"

text \<open>A value of a \<open>map[string]any\<close> is a string, a contract, or any other value, named by its JSON text.\<close>

datatype jval = JString string | JContract Contract | JOther bytes

datatype metadata =
    MNil
  | MMap "(string \<rightharpoonup> jval) option"
  | MStrings "(string \<rightharpoonup> string) option"
  | MRaw bytes
  | MBytes bytes
  | MString string
  | MOther bytes

definition stringField :: "(string \<rightharpoonup> jval) \<Rightarrow> string \<Rightarrow> string" where
  "stringField m key = TrimSpace (case m key of Some (JString v) \<Rightarrow> v | _ \<Rightarrow> [])"

definition nil_map :: "('k \<rightharpoonup> 'v) option \<Rightarrow> 'k \<rightharpoonup> 'v" where
  "nil_map m = (case m of None \<Rightarrow> Map.empty | Some f \<Rightarrow> f)"

text \<open>\<open>copyMap\<close> returns a fresh map with the same entries, also for a nil map.\<close>

definition copyMap :: "(string \<rightharpoonup> jval) option \<Rightarrow> string \<rightharpoonup> jval" where
  "copyMap m = nil_map m"

type_synonym json_parse = "bytes \<Rightarrow> (string \<rightharpoonup> jval) option option"
type_synonym json_render = "(string \<rightharpoonup> jval) \<Rightarrow> bytes option"

definition versionFromJSON :: "json_parse \<Rightarrow> bytes \<Rightarrow> string" where
  "versionFromJSON parse raw =
     (if length raw = 0 then []
      else case parse raw of None \<Rightarrow> [] | Some m \<Rightarrow> stringField (nil_map m) MetadataVersionKey)"

definition VersionFromMetadata :: "json_parse \<Rightarrow> metadata \<Rightarrow> string" where
  "VersionFromMetadata parse meta =
     (case meta of
        MNil \<Rightarrow> []
      | MMap v \<Rightarrow> stringField (nil_map v) MetadataVersionKey
      | MStrings v \<Rightarrow> TrimSpace (case nil_map v MetadataVersionKey of None \<Rightarrow> [] | Some s \<Rightarrow> s)
      | MRaw v \<Rightarrow> versionFromJSON parse v
      | MBytes v \<Rightarrow> versionFromJSON parse v
      | MString v \<Rightarrow> versionFromJSON parse v
      | MOther _ \<Rightarrow> [])"

text \<open>
  The JSON value \<open>null\<close> decodes without an error and leaves the map nil, and the assignment that follows panics.
\<close>

definition stampJSONBytes ::
  "(string \<Rightarrow> string) \<Rightarrow> (bytes \<Rightarrow> bytes) \<Rightarrow> json_parse \<Rightarrow> json_render \<Rightarrow> bytes \<Rightarrow> Contract \<Rightarrow> metadata option" where
  "stampJSONBytes lower sha256 parse render raw c =
     (case parse raw of
        None \<Rightarrow> Some (MBytes raw)
      | Some None \<Rightarrow> None
      | Some (Some m) \<Rightarrow>
          (case render (m(MetadataVersionKey \<mapsto> JString (Fingerprint lower sha256 c), MetadataContractKey \<mapsto> JContract (Normalized lower c))) of
             None \<Rightarrow> Some (MBytes raw)
           | Some out \<Rightarrow> Some (MRaw out)))"

definition StampMetadata ::
  "(string \<Rightarrow> string) \<Rightarrow> (bytes \<Rightarrow> bytes) \<Rightarrow> json_parse \<Rightarrow> json_render \<Rightarrow> metadata \<Rightarrow> Contract \<Rightarrow> metadata option" where
  "StampMetadata lower sha256 parse render meta c =
     (let fp = Fingerprint lower sha256 c in
      case meta of
        MNil \<Rightarrow> Some (MMap (Some [MetadataVersionKey \<mapsto> JString fp, MetadataContractKey \<mapsto> JContract (Normalized lower c)]))
      | MMap v \<Rightarrow> Some (MMap (Some ((copyMap v)(MetadataVersionKey \<mapsto> JString fp, MetadataContractKey \<mapsto> JContract (Normalized lower c)))))
      | MStrings v \<Rightarrow> Some (MStrings (Some ((nil_map v)(MetadataVersionKey \<mapsto> fp))))
      | MRaw v \<Rightarrow> stampJSONBytes lower sha256 parse render v c
      | MBytes v \<Rightarrow> stampJSONBytes lower sha256 parse render v c
      | MString v \<Rightarrow> stampJSONBytes lower sha256 parse render v c
      | MOther _ \<Rightarrow> Some meta)"

section \<open>Trimming\<close>

definition starts_clean :: "string list \<Rightarrow> string \<Rightarrow> bool" where
  "starts_clean codes s \<longleftrightarrow> (\<forall>c\<in>set codes. c \<noteq> [] \<longrightarrow> take (length c) s \<noteq> c)"

lemma strip_codes_clean: "starts_clean codes s \<Longrightarrow> strip_codes codes s = s"
proof -
  assume "starts_clean codes s"
  then have "find (\<lambda>c. c \<noteq> [] \<and> take (length c) s = c) codes = None" by (auto simp: starts_clean_def find_None_iff)
  then show ?thesis by (simp add: strip_codes.simps)
qed

lemma starts_clean_strip: "starts_clean codes (strip_codes codes s)"
proof (induction codes s rule: strip_codes.induct)
  case (1 codes s)
  show ?case
  proof (cases "find (\<lambda>c. c \<noteq> [] \<and> take (length c) s = c) codes")
    case None
    then have "strip_codes codes s = s" by (simp add: strip_codes.simps)
    then show ?thesis using None by (auto simp: starts_clean_def find_None_iff)
  next
    case (Some c)
    then show ?thesis using "1.IH" by (simp add: strip_codes.simps [of codes s])
  qed
qed

lemma strip_codes_suffix: "suffix (strip_codes codes s) s"
proof (induction codes s rule: strip_codes.induct)
  case (1 codes s)
  show ?case
  proof (cases "find (\<lambda>c. c \<noteq> [] \<and> take (length c) s = c) codes")
    case None
    then show ?thesis by (simp add: strip_codes.simps)
  next
    case (Some c)
    then have "suffix (strip_codes codes s) (drop (length c) s)" using "1.IH" by (simp add: strip_codes.simps [of codes s])
    then show ?thesis using suffix_drop suffix_order.trans by blast
  qed
qed

lemma starts_clean_prefix: "prefix t s \<Longrightarrow> starts_clean codes s \<Longrightarrow> starts_clean codes t"
  unfolding starts_clean_def
proof (intro ballI impI notI)
  fix c assume a: "prefix t s" "\<forall>c\<in>set codes. c \<noteq> [] \<longrightarrow> take (length c) s \<noteq> c" "c \<in> set codes" "c \<noteq> []" "take (length c) t = c"
  then have "length c \<le> length t" by (metis length_take min.cobounded1 min.commute)
  then have "take (length c) s = take (length c) t" using a(1) by (auto simp: prefix_def)
  then show False using a by auto
qed

text \<open>A string that starts and ends with something else than white space.\<close>

definition trimmed :: "string \<Rightarrow> bool" where
  "trimmed s \<longleftrightarrow> starts_clean space_codes s \<and> starts_clean (map rev space_codes) (rev s)"

lemma TrimSpace_trimmed: "trimmed (TrimSpace s)"
proof -
  let ?l = "strip_codes space_codes s" and ?r = "strip_codes (map rev space_codes) (rev (strip_codes space_codes s))"
  have "prefix (rev ?r) ?l" using strip_codes_suffix [of "map rev space_codes" "rev ?l"] by (simp add: suffix_to_prefix)
  then have "starts_clean space_codes (rev ?r)" using starts_clean_prefix starts_clean_strip by blast
  then show ?thesis using starts_clean_strip by (simp add: trimmed_def TrimSpace_def)
qed

lemma TrimSpace_id: "trimmed s \<Longrightarrow> TrimSpace s = s"
  by (simp add: TrimSpace_def trimmed_def strip_codes_clean)

lemma TrimSpace_Nil [simp]: "TrimSpace [] = []"
  by (rule TrimSpace_id) (simp add: trimmed_def starts_clean_def)

lemma TrimSpace_idem [simp]: "TrimSpace (TrimSpace s) = TrimSpace s"
  by (rule TrimSpace_id [OF TrimSpace_trimmed])

text \<open>Printable ASCII at both ends is enough.\<close>

definition solid :: "char \<Rightarrow> bool" where
  "solid c \<longleftrightarrow> 32 < (of_char c :: nat) \<and> (of_char c :: nat) < 127"

lemma space_codes_ends: "\<forall>c\<in>set space_codes. c \<noteq> [] \<and> \<not> solid (hd c) \<and> \<not> solid (last c)"
  by code_simp

lemma solid_trimmed:
  assumes "s = [] \<or> solid (hd s) \<and> solid (last s)"
  shows "trimmed s"
proof -
  have hd: "take (length c) t \<noteq> c" if "t = [] \<or> solid (hd t)" "c \<noteq> []" "\<not> solid (hd c)" for c t :: string
  proof
    assume "take (length c) t = c"
    then show False using that by (cases t; cases c) auto
  qed
  have "starts_clean space_codes s" using assms hd space_codes_ends unfolding starts_clean_def by blast
  moreover have "take (length (rev c)) (rev s) \<noteq> rev c" if c: "c \<in> set space_codes" for c
  proof (rule hd)
    show "rev s = [] \<or> solid (hd (rev s))" using assms by (auto simp: hd_rev)
    show "rev c \<noteq> []" "\<not> solid (hd (rev c))" using space_codes_ends c by (auto simp: hd_rev)
  qed
  then have "starts_clean (map rev space_codes) (rev s)" by (auto simp: starts_clean_def)
  ultimately show ?thesis by (simp add: trimmed_def)
qed

section \<open>Decimals and fingerprints\<close>

fun undigits :: "string \<Rightarrow> nat" where
  "undigits [] = 0"
| "undigits (c # cs) = (of_char c - 48) + 10 * undigits cs"

declare digits.simps [simp del]

lemma digits_small: "n < 10 \<Longrightarrow> digits n = [char_of (48 + n)]"
  by (subst digits.simps) simp

lemma digits_large: "\<not> n < 10 \<Longrightarrow> digits n = digits (n div 10) @ [char_of (48 + n mod 10)]"
  by (subst digits.simps) simp

lemma undigits_digits: "undigits (rev (digits n)) = n"
proof (induction n rule: digits.induct)
  case (1 n)
  show ?case
  proof (cases "n < 10")
    case True
    then show ?thesis by (simp add: digits_small)
  next
    case False
    have "(48 + n mod 10) mod 256 = 48 + n mod 10" using mod_less_divisor [of 10 n] by simp
    then have "undigits (rev (digits n)) = n mod 10 + 10 * (n div 10)" using 1 [OF False] by (simp add: digits_large [OF False])
    then show ?thesis by simp
  qed
qed

lemma digits_inj: "digits m = digits n \<Longrightarrow> m = n"
  by (metis undigits_digits)

lemma digits_chars: "\<forall>c\<in>set (digits n). 48 \<le> (of_char c :: nat) \<and> (of_char c :: nat) < 58"
proof (induction n rule: digits.induct)
  case (1 n)
  show ?case
  proof (cases "n < 10")
    case True
    then show ?thesis by (simp add: digits_small)
  next
    case False
    have "(48 + n mod 10) mod 256 = 48 + n mod 10" "n mod 10 < 10" using mod_less_divisor [of 10 n] by simp_all
    then show ?thesis using 1 [OF False] by (simp add: digits_large [OF False])
  qed
qed

lemma digits_nonempty: "digits n \<noteq> []"
  by (subst digits.simps) simp

lemma hd_digits: "hd (digits n) \<noteq> CHR ''-''"
  using digits_chars [of n] hd_in_set [OF digits_nonempty [of n]] by fastforce

lemma decimal_inj: "decimal y = decimal z \<Longrightarrow> y = z"
proof -
  assume eq: "decimal y = decimal z"
  have neg: "decimal x = CHR ''-'' # digits (nat (- x))" if "x < 0" for x using that by (simp add: decimal_def)
  have pos: "decimal x = digits (nat x)" if "0 \<le> x" for x using that by (simp add: decimal_def)
  consider "y < 0" "z < 0" | "0 \<le> y" "0 \<le> z" | "y < 0" "0 \<le> z" | "0 \<le> y" "z < 0" by linarith
  then show "y = z"
  proof cases
    case 1
    then have "digits (nat (- y)) = digits (nat (- z))" using eq neg by simp
    then have "nat (- y) = nat (- z)" by (rule digits_inj)
    then show ?thesis using 1 by linarith
  next
    case 2
    then have "digits (nat y) = digits (nat z)" using eq pos by simp
    then have "nat y = nat z" by (rule digits_inj)
    then show ?thesis using 2 by linarith
  next
    case 3
    then have "digits (nat z) = CHR ''-'' # digits (nat (- y))" using eq neg pos by simp
    then show ?thesis using hd_digits [of "nat z"] by simp
  next
    case 4
    then have "digits (nat y) = CHR ''-'' # digits (nat (- z))" using eq neg pos by simp
    then show ?thesis using hd_digits [of "nat y"] by simp
  qed
qed

lemma hex_digit_solid: "n < 16 \<Longrightarrow> solid (hex_digit n)"
  by (auto simp: solid_def)

lemma hex_string_solid: "list_all solid (hex_string bs)"
proof -
  have "solid (hex_digit (of_char b div 16))" "solid (hex_digit (of_char b mod 16))" for b :: char
  proof -
    have "of_char b div 16 < (16 :: nat)"
      by (intro less_mult_imp_div_less) (use nat_of_char_less_256 [of b] in simp)
    then show "solid (hex_digit (of_char b div 16))" "solid (hex_digit (of_char b mod 16))" by (simp_all only: hex_digit_solid mod_less_divisor zero_less_numeral)
  qed
  then show ?thesis by (simp add: hex_string_def list_all_iff del: hex_digit.simps)
qed

lemma Fingerprint_trimmed: "trimmed (Fingerprint lower sha256 c)"
proof -
  have "list_all solid ''emb:''" by code_simp
  then have "list_all solid (Fingerprint lower sha256 c)"
    using hex_string_solid by (auto simp: Fingerprint_def list_all_iff dest: in_set_takeD)
  moreover have "Fingerprint lower sha256 c \<noteq> []" by (simp add: Fingerprint_def)
  ultimately show ?thesis by (intro solid_trimmed) (simp add: list_all_iff)
qed

text \<open>Text that is valid UTF-8, by the table of well-formed byte sequences; \<open>encoding/json\<close> keeps such a string as it is.\<close>

definition tail_byte :: "nat \<Rightarrow> bool" where
  "tail_byte b \<longleftrightarrow> 128 \<le> b \<and> b \<le> 191"

fun utf8_bytes :: "nat list \<Rightarrow> bool" where
  "utf8_bytes [] \<longleftrightarrow> True"
| "utf8_bytes (a # s) \<longleftrightarrow>
     (if a < 128 then utf8_bytes s
      else if 194 \<le> a \<and> a \<le> 223 then (case s of b # s' \<Rightarrow> tail_byte b \<and> utf8_bytes s' | _ \<Rightarrow> False)
      else if 224 \<le> a \<and> a \<le> 239 then
        (case s of b # c # s' \<Rightarrow> (if a = 224 then 160 else 128) \<le> b \<and> b \<le> (if a = 237 then 159 else 191) \<and> tail_byte c \<and> utf8_bytes s'
         | _ \<Rightarrow> False)
      else if 240 \<le> a \<and> a \<le> 244 then
        (case s of b # c # d # s' \<Rightarrow>
           (if a = 240 then 144 else 128) \<le> b \<and> b \<le> (if a = 244 then 143 else 191) \<and> tail_byte c \<and> tail_byte d \<and> utf8_bytes s'
         | _ \<Rightarrow> False)
      else False)"

definition utf8_ok :: "string \<Rightarrow> bool" where
  "utf8_ok s \<longleftrightarrow> utf8_bytes (map of_char s)"

lemma utf8_ok_Nil [simp]: "utf8_ok []"
  by (simp add: utf8_ok_def)

lemma utf8_ok_ascii: "list_all (\<lambda>c. (of_char c :: nat) < 128) s \<Longrightarrow> utf8_ok s"
  unfolding utf8_ok_def by (induction s) auto

lemma Fingerprint_utf8: "utf8_ok (Fingerprint lower sha256 c)"
proof (rule utf8_ok_ascii)
  have "list_all solid ''emb:''" by code_simp
  then have "list_all solid (Fingerprint lower sha256 c)"
    using hex_string_solid by (auto simp: Fingerprint_def list_all_iff dest: in_set_takeD)
  then show "list_all (\<lambda>c. (of_char c :: nat) < 128) (Fingerprint lower sha256 c)" by (auto simp: list_all_iff solid_def)
qed

lemma Fingerprint_nonempty [simp]: "Fingerprint lower sha256 c \<noteq> []" "[] \<noteq> Fingerprint lower sha256 c"
  by (simp_all add: Fingerprint_def)

text \<open>Lower-casing, as far as the code relies on it: idempotent, no new white space at the ends, ASCII without capitals unchanged.\<close>

definition lower_laws :: "(string \<Rightarrow> string) \<Rightarrow> bool" where
  "lower_laws lower \<longleftrightarrow> (\<forall>s. lower (lower s) = lower s) \<and> (\<forall>s. trimmed s \<longrightarrow> trimmed (lower s)) \<and>
     (\<forall>s. list_all (\<lambda>c. (of_char c :: nat) < 65 \<or> 90 < (of_char c :: nat) \<and> (of_char c :: nat) < 128) s \<longrightarrow> lower s = s)"

lemma lower_field:
  assumes "lower_laws lower" "lower (TrimSpace d) = d" "x = (if lower (TrimSpace s) = [] then d else lower (TrimSpace s))" "d \<noteq> []"
  shows "(if lower (TrimSpace x) = [] then d else lower (TrimSpace x)) = x"
proof (cases "lower (TrimSpace s) = []")
  case True
  then show ?thesis using assms by simp
next
  case False
  have "trimmed (lower (TrimSpace s))" using assms(1) TrimSpace_trimmed by (simp add: lower_laws_def)
  then have "lower (TrimSpace (lower (TrimSpace s))) = lower (TrimSpace s)" using assms(1) by (simp add: TrimSpace_id lower_laws_def)
  then show ?thesis using False assms(3) by simp
qed

lemma default_words:
  assumes "lower_laws lower"
  shows "lower (TrimSpace ''mean'') = ''mean''" "lower (TrimSpace ''l2'') = ''l2''" "lower (TrimSpace ''cosine'') = ''cosine''"
proof -
  have t: "TrimSpace ''mean'' = ''mean''" "TrimSpace ''l2'' = ''l2''" "TrimSpace ''cosine'' = ''cosine''"
    by (rule TrimSpace_id, rule solid_trimmed, code_simp)+
  show "lower (TrimSpace ''mean'') = ''mean''" "lower (TrimSpace ''l2'') = ''l2''" "lower (TrimSpace ''cosine'') = ''cosine''"
    using assms unfolding t lower_laws_def by (simp_all add: list_all_iff)
qed

lemma Normalized_idem:
  assumes "lower_laws lower"
  shows "Normalized lower (Normalized lower c) = Normalized lower c"
proof -
  note d = default_words [OF assms]
  let ?n = "Normalized lower c"
  have f: "coEncoder ?n = TrimSpace (coEncoder c)" "coTokenizer ?n = TrimSpace (coTokenizer c)" "coDim ?n = coDim c"
    "coPooling ?n = (if lower (TrimSpace (coPooling c)) = [] then ''mean'' else lower (TrimSpace (coPooling c)))"
    "coNormalization ?n = (if lower (TrimSpace (coNormalization c)) = [] then ''l2'' else lower (TrimSpace (coNormalization c)))"
    "coMetric ?n = (if lower (TrimSpace (coMetric c)) = [] then ''cosine'' else lower (TrimSpace (coMetric c)))"
    by (simp_all add: Normalized_def Let_def)
  have eqs: "(if lower (TrimSpace (coPooling ?n)) = [] then ''mean'' else lower (TrimSpace (coPooling ?n))) = coPooling ?n"
    "(if lower (TrimSpace (coNormalization ?n)) = [] then ''l2'' else lower (TrimSpace (coNormalization ?n))) = coNormalization ?n"
    "(if lower (TrimSpace (coMetric ?n)) = [] then ''cosine'' else lower (TrimSpace (coMetric ?n))) = coMetric ?n"
    by (rule lower_field [OF assms d(1) f(4)], simp, rule lower_field [OF assms d(2) f(5)], simp,
        rule lower_field [OF assms d(3) f(6)], simp)
  have "TrimSpace (coEncoder ?n) = coEncoder ?n" "TrimSpace (coTokenizer ?n) = coTokenizer ?n" using f(1,2) by simp_all
  then show ?thesis using eqs by (subst Normalized_def) (simp add: Let_def)
qed

section \<open>The fingerprint separates contracts\<close>

definition one_line :: "string \<Rightarrow> bool" where
  "one_line s \<longleftrightarrow> CHR ''\<newline>'' \<notin> set s"

lemma split_line:
  assumes "a @ CHR ''\<newline>'' # x = b @ CHR ''\<newline>'' # y" "one_line a" "one_line b"
  shows "a = b \<and> x = y"
proof -
  have tw: "takeWhile (\<lambda>c. c \<noteq> CHR ''\<newline>'') (s @ CHR ''\<newline>'' # r) = s" if "one_line s" for s r
    using that by (induction s) (auto simp: one_line_def)
  then have "a = b" using assms by metis
  then show ?thesis using assms(1) by simp
qed

lemma decimal_one_line: "one_line (decimal z)"
  using digits_chars [of "nat z"] digits_chars [of "nat (- z)"] by (fastforce simp: one_line_def decimal_def)

definition one_line_fields :: "Contract \<Rightarrow> bool" where
  "one_line_fields c \<longleftrightarrow> one_line (coEncoder c) \<and> one_line (coTokenizer c) \<and> one_line (coPooling c) \<and>
     one_line (coNormalization c) \<and> one_line (coMetric c)"

lemma payload_inj:
  assumes "payload c = payload c'" "one_line_fields c" "one_line_fields c'"
  shows "c = c'"
proof -
  have fields: "one_line (coEncoder x)" "one_line (coTokenizer x)" "one_line (coPooling x)" "one_line (coNormalization x)"
    "one_line (coMetric x)" if "one_line_fields x" for x using that by (simp_all add: one_line_fields_def)
  note f = fields [OF assms(2)] fields [OF assms(3)]
  have e: "coEncoder c = coEncoder c' \<and> ''tokenizer='' @ coTokenizer c @ ''\<newline>pooling='' @ coPooling c @ ''\<newline>normalization='' @
      coNormalization c @ ''\<newline>dim='' @ decimal (coDim c) @ ''\<newline>metric='' @ coMetric c @ ''\<newline>'' =
    ''tokenizer='' @ coTokenizer c' @ ''\<newline>pooling='' @ coPooling c' @ ''\<newline>normalization='' @
      coNormalization c' @ ''\<newline>dim='' @ decimal (coDim c') @ ''\<newline>metric='' @ coMetric c' @ ''\<newline>''"
    by (rule split_line) (use assms(1) f in \<open>simp_all add: payload_def\<close>)
  have t: "coTokenizer c = coTokenizer c' \<and> ''pooling='' @ coPooling c @ ''\<newline>normalization='' @
      coNormalization c @ ''\<newline>dim='' @ decimal (coDim c) @ ''\<newline>metric='' @ coMetric c @ ''\<newline>'' =
    ''pooling='' @ coPooling c' @ ''\<newline>normalization='' @
      coNormalization c' @ ''\<newline>dim='' @ decimal (coDim c') @ ''\<newline>metric='' @ coMetric c' @ ''\<newline>''"
    by (rule split_line) (use e f in simp_all)
  have p: "coPooling c = coPooling c' \<and> ''normalization='' @
      coNormalization c @ ''\<newline>dim='' @ decimal (coDim c) @ ''\<newline>metric='' @ coMetric c @ ''\<newline>'' =
    ''normalization='' @ coNormalization c' @ ''\<newline>dim='' @ decimal (coDim c') @ ''\<newline>metric='' @ coMetric c' @ ''\<newline>''"
    by (rule split_line) (use t f in simp_all)
  have n: "coNormalization c = coNormalization c' \<and> ''dim='' @ decimal (coDim c) @ ''\<newline>metric='' @ coMetric c @ ''\<newline>'' =
    ''dim='' @ decimal (coDim c') @ ''\<newline>metric='' @ coMetric c' @ ''\<newline>''"
    by (rule split_line) (use p f in simp_all)
  have d: "decimal (coDim c) = decimal (coDim c') \<and> ''metric='' @ coMetric c @ ''\<newline>'' = ''metric='' @ coMetric c' @ ''\<newline>''"
    by (rule split_line) (use n decimal_one_line in simp_all)
  show ?thesis using e t p n d decimal_inj by (intro Contract.equality) simp_all
qed

section \<open>Stamping\<close>

text \<open>
  What \<open>encoding/json\<close> does with a map that it decoded itself and that was stamped: it encodes it, and the version comes back
  from the text, if it is valid UTF-8 (other bytes become the replacement character).
\<close>

definition json_version_law :: "json_parse \<Rightarrow> json_render \<Rightarrow> bool" where
  "json_version_law parse render \<longleftrightarrow>
     (\<forall>raw m s c. parse raw = Some (Some m) \<longrightarrow> utf8_ok s \<longrightarrow>
        (\<exists>b m'. render (m(MetadataVersionKey \<mapsto> JString s, MetadataContractKey \<mapsto> JContract c)) = Some b \<and> b \<noteq> [] \<and>
           parse b = Some (Some m') \<and> m' MetadataVersionKey = Some (JString s)))"

lemma keys_distinct [simp]: "MetadataContractKey \<noteq> MetadataVersionKey" "MetadataVersionKey \<noteq> MetadataContractKey"
  by (simp_all add: MetadataContractKey_def MetadataVersionKey_def)

text \<open>Metadata that can carry a stamp: everything but JSON that is not an object and values of other types.\<close>

fun stampable :: "json_parse \<Rightarrow> metadata \<Rightarrow> bool" where
  "stampable parse (MOther _) \<longleftrightarrow> False"
| "stampable parse (MRaw b) \<longleftrightarrow> (\<exists>m. parse b = Some (Some m))"
| "stampable parse (MBytes b) \<longleftrightarrow> (\<exists>m. parse b = Some (Some m))"
| "stampable parse (MString b) \<longleftrightarrow> (\<exists>m. parse b = Some (Some m))"
| "stampable parse _ \<longleftrightarrow> True"

text \<open>
  A value of another type in a map has a text of its own. \<open>plain_version\<close>: the version entry is not such a value with the text of a
  JSON string (which the decoder would read as a version and the code does not). \<open>reads_back\<close>: the decoder accepts the texts of
  these values inside an object, so none is nested too deep and no number is too large.
\<close>

definition plain_version :: "(string \<rightharpoonup> jval) \<Rightarrow> bool" where
  "plain_version m \<longleftrightarrow> (case m MetadataVersionKey of Some (JOther t) \<Rightarrow> take 1 t \<noteq> [CHR 0x22] | _ \<Rightarrow> True)"

definition reads_back :: "json_parse \<Rightarrow> (string \<rightharpoonup> jval) \<Rightarrow> bool" where
  "reads_back parse m \<longleftrightarrow>
     (\<forall>k t. m k = Some (JOther t) \<longrightarrow> (\<exists>x. parse (''{'' @ [CHR 0x22] @ ''x'' @ [CHR 0x22] @ '':'' @ t @ ''}'') = Some (Some x)))"

fun readable :: "json_parse \<Rightarrow> metadata \<Rightarrow> bool" where
  "readable parse (MMap m) \<longleftrightarrow> reads_back parse (nil_map m)"
| "readable parse _ \<longleftrightarrow> True"

lemma reads_back_stamp: "reads_back parse m \<Longrightarrow> reads_back parse (m(k \<mapsto> JString s, k' \<mapsto> JContract c))"
  by (simp add: reads_back_def)

lemma plain_version_string: "m MetadataVersionKey = Some (JString s) \<Longrightarrow> plain_version m"
  by (simp add: plain_version_def)

lemma stampJSONBytes_version:
  assumes "json_version_law parse render" "parse b = Some (Some m)"
  shows "\<exists>out. stampJSONBytes lower sha256 parse render b c = Some (MRaw out) \<and>
    VersionFromMetadata parse (MRaw out) = Fingerprint lower sha256 c"
proof -
  obtain out m' where "render (m(MetadataVersionKey \<mapsto> JString (Fingerprint lower sha256 c), MetadataContractKey \<mapsto> JContract (Normalized lower c))) = Some out"
    "out \<noteq> []" "parse out = Some (Some m')" "m' MetadataVersionKey = Some (JString (Fingerprint lower sha256 c))"
    using assms Fingerprint_utf8 unfolding json_version_law_def by meson
  then show ?thesis
    using assms(2)
    by (simp add: stampJSONBytes_def VersionFromMetadata_def versionFromJSON_def nil_map_def stringField_def TrimSpace_id Fingerprint_trimmed)
qed

text \<open>The stamp: what can carry one gets it, as a map of the same kind or as the text of a JSON object.\<close>

lemma stamp_version:
  assumes law: "json_version_law parse render" and st: "stampable parse meta"
  shows "\<exists>meta'. StampMetadata lower sha256 parse render meta c = Some meta' \<and> VersionFromMetadata parse meta' = Fingerprint lower sha256 c \<and>
    (readable parse meta \<longrightarrow> readable parse meta') \<and>
    (case meta' of MRaw _ \<Rightarrow> True | MStrings _ \<Rightarrow> True | MMap m \<Rightarrow> plain_version (nil_map m) | _ \<Rightarrow> False)"
proof -
  have raw: ?thesis if "StampMetadata lower sha256 parse render meta c = stampJSONBytes lower sha256 parse render b c" "parse b = Some (Some m)" for b m
    using stampJSONBytes_version [OF law that(2), of lower sha256 c] that(1) by auto
  have "reads_back parse Map.empty" by (simp add: reads_back_def)
  then show ?thesis
    using st raw reads_back_stamp plain_version_string
    by (cases meta)
       (auto simp: StampMetadata_def Let_def VersionFromMetadata_def copyMap_def nil_map_def stringField_def TrimSpace_id Fingerprint_trimmed)
qed

text \<open>The JSON value \<open>null\<close> makes the stamp panic.\<close>

lemma stamp_null_panics: "parse b = Some None \<Longrightarrow> StampMetadata lower sha256 parse render (MRaw b) c = None"
  by (simp add: StampMetadata_def stampJSONBytes_def Let_def)

end
