(* ===== verification/Demo_Cluster.thy ===== *)
theory Demo_Cluster
  imports Levara_Stale Node_Batch Contract
begin

text \<open>
  Concrete clusters, replicas and state machines for the witnesses.
\<close>

section \<open>Two shards\<close>

lemma demo_db0_ok: "lv_ok demo_db0"
  using demo_db0_inv by (auto simp: lv_ok_def)

lemma demo_db1_ok: "lv_ok demo_db1"
  using demo_db1_inv by (auto simp: lv_ok_def)

definition demo_cluster :: "Levara Cluster" where
  "demo_cluster = NewCluster [demo_db0, demo_db0]"

lemma demo_cluster_fields: "clShards demo_cluster = [demo_db0, demo_db0]" "clNumShards demo_cluster = 2"
  by (simp_all add: demo_cluster_def NewCluster_def)

lemma demo_cluster_nth: "k < length (clShards demo_cluster) \<Longrightarrow> clShards demo_cluster ! k = demo_db0"
  by (cases k) (auto simp: demo_cluster_fields)

lemma demo_cluster_inv: "cluster_inv lv_ok lv_abs demo_cluster"
  using demo_db0_ok demo_db0_fields(6) demo_cluster_nth by (simp add: cluster_inv_def demo_cluster_fields(2)) (simp add: demo_cluster_fields)

lemma demo_ready: "n \<le> 1000 \<Longrightarrow> lv_ready (\<lambda>_ _. DiskOk) k n demo_db0"
  by (simp add: lv_ready_def demo_db0_def empty_db_def NewVectorArena_def DiskStore_Truncate_def mib_def)

lemma demo_cluster_ready: "n \<le> 1000 \<Longrightarrow> \<forall>k<length (clShards demo_cluster). lv_ready (\<lambda>_ _. DiskOk) k n (clShards demo_cluster ! k)"
  using demo_ready demo_cluster_nth by simp

section \<open>A wire\<close>

text \<open>Compact JSON without invalid strings is transmitted as it is.\<close>

definition demo_wire :: json_wire where
  "demo_wire = \<lparr>okID = (\<lambda>_. True), okMeta = (\<lambda>_. True), canon = (\<lambda>b. b), wireE = Some, wireS = Some\<rparr>"

lemma demo_wire_fields [simp]: "canon demo_wire = (\<lambda>b. b)" "wireE demo_wire = Some" "wireS demo_wire = Some"
  by (simp_all add: demo_wire_def)

lemma canon_record_id [simp]: "canon_record (\<lambda>b. b) = (\<lambda>r. r)"
  by (simp add: canon_record_def fun_eq_iff)

lemma demo_wire_laws: "json_laws demo_wire"
  by (simp add: json_laws_def canon_entry_def)

lemma demo_contents_ok: "contents_ok demo_wire m"
  by (simp add: contents_ok_def demo_wire_def)

section \<open>A primary and a replica\<close>

text \<open>A replica that connects to a primary with one record: the snapshot arrives on the wire.\<close>

definition demo_record :: SnapshotRecord where
  "demo_record = \<lparr>snID = ''a'', snVector = demo_vec, snData = ''{}''\<rparr>"

lemma demo_allrecords:
  "AllRecordsChecked [''a''] demo_db1 = Inr [demo_record]"
proof -
  obtain pub recs where "lv_inv pub recs demo_db1" using demo_db1_ok by (auto simp: lv_ok_def)
  then have "lv_mem pub demo_db1" by (simp add: lv_inv_def)
  moreover have "set [''a''] \<subseteq> dom (dbIndex demo_db1)" using demo_order by (simp add: map_order_def)
  ultimately obtain rs where rs: "allRecordsLocked [''a''] demo_db1 = Inr rs" "map snID rs = [''a'']" "\<forall>r\<in>set rs. snapshot_matches demo_db1 r"
    using allRecordsLocked_ok by (metis (no_types))
  then obtain r where "rs = [r]" "snID r = ''a''" "snapshot_matches demo_db1 r" by (cases rs) auto
  moreover from this have "r = demo_record"
    using demo_db1_abs by (cases r) (simp add: snapshot_matches_def demo_record_def)
  ultimately show ?thesis using rs(1) by (simp add: AllRecordsChecked_def)
qed

definition demo_start :: ReplState where
  "demo_start = repl_start demo_db1 demo_db0 ''p''"

lemma demo_restore_record: "\<exists>db1 out. restore_record demo_dot 0 DiskOk demo_record (fresh_state demo_db0, []) = Inr (db1, out)"
proof -
  have "length demo_vec = arDim (dbArena (fresh_state demo_db0))"
    by (simp add: fresh_state_def NewVectorArena_def demo_db0_fields demo_vec_def)
  from VectorArena_Add_finite [OF this demo_finite] obtain idx a' where
    "VectorArena_Add (dbArena (fresh_state demo_db0)) demo_vec = Inr (idx, demo_vec, a')" by auto
  moreover have "validateWALRecord OpInsert ''a'' demo_vec ''{}'' \<lparr>flOffset = int n, flLength = 2\<rparr> = None" for n
    using demo_finite by (simp add: validateWALRecord_def OpInsert_def OpDelete_def mib_def f32_finite_def demo_vec_def)
  ultimately show ?thesis
    by (simp add: restore_record_def demo_record_def DiskStore_Write_def writeWALEntryTo_def Let_def int32_of_def)
qed

lemma demo_replica_restores: "\<exists>db'. RestoreSnapshot demo_dot (\<lambda>_. 0) (\<lambda>_. DiskOk) demo_pio demo_db0 [demo_record] = (None, db')"
proof -
  have "restore_check (dbDim demo_db0) [] [demo_record] = None"
    using demo_check [of demo_db0] by (simp add: demo_record_def demo_vec_def demo_db0_fields Insert_check_def split: option.splits if_splits)
  then show ?thesis
    using demo_restore_record by (auto simp: RestoreSnapshot_def demo_pio_def WAL_replaceFile_def demo_db0_fields Let_def)
qed

text \<open>The session of the replica after the snapshot has been restored.\<close>

definition demo_session :: "replicationSnapshot option \<Rightarrow> Session" where
  "demo_session snap = \<lparr>seRid = ''r'', seChan = 0, seSnap = snap, seWire = [], seSeq = 0\<rparr>"

definition demo_server :: ReplicationServer where
  "demo_server = (NewReplicationServer ''p'')\<lparr>rsChans := [\<lparr>chBuf = [], chClosed = False\<rparr>], rsListeners := [(''r'', 0)]\<rparr>"

definition demo_snapshot :: replicationSnapshot where
  "demo_snapshot = \<lparr>smVersion = 1, smKind = ''snapshot'', smSeq = Some 0, smRecords = Some [demo_record]\<rparr>"

definition demo_restored_replica :: Levara where
  "demo_restored_replica = snd (RestoreSnapshot demo_dot (\<lambda>_. 0) (\<lambda>_. DiskOk) demo_pio demo_db0 [demo_record])"

definition demo_followed :: ReplState where
  "demo_followed = demo_start\<lparr>rpRS := demo_server, rpReplica := demo_restored_replica, rpSession := Some (demo_session None)\<rparr>"

lemma demo_followed_run: "repl_run demo_wire demo_start demo_followed"
proof -
  let ?s1 = "demo_start\<lparr>rpRS := demo_server, rpSession := Some (demo_session (Some demo_snapshot))\<rparr>"
  have "stream_admit True [''a''] ''r'' (rpDB demo_start) (rpRS demo_start) = Some (Inr (demo_snapshot, 0, demo_server))"
    using demo_allrecords
    by (simp add: stream_admit_def demo_start_def repl_start_def addReplicaLocked_def NewReplicationServer_def demo_snapshot_def demo_server_def)
  moreover have "map_order (dbIndex (rpDB demo_start)) [''a'']" using demo_order by (simp add: demo_start_def repl_start_def)
  ultimately have 1: "repl_step demo_wire demo_start ?s1"
    unfolding demo_session_def by (intro repl_step.admit) simp_all
  have rst: "RestoreSnapshot demo_dot (\<lambda>_. 0) (\<lambda>_. DiskOk) demo_pio demo_db0 [demo_record] = (None, demo_restored_replica)"
    using demo_replica_restores by (auto simp: demo_restored_replica_def)
  have "openStream demo_dot (\<lambda>_. 0) (\<lambda>_. DiskOk) demo_pio True (Some demo_snapshot) False (rpReplica ?s1) = (Inr 0, demo_restored_replica)"
    using rst by (simp add: openStream_def demo_snapshot_def demo_start_def repl_start_def)
  then have "repl_step demo_wire ?s1 (?s1\<lparr>rpReplica := demo_restored_replica, rpSession := (case Inr 0 of Inl (_ :: replica_error) \<Rightarrow> None
      | Inr n \<Rightarrow> Some ((demo_session (Some demo_snapshot))\<lparr>seSnap := None, seSeq := n\<rparr>))\<rparr>)"
    by (intro repl_step.opened) (auto simp: demo_session_def demo_snapshot_def demo_start_def repl_start_def demo_db0_def empty_db_def
        DiskStore_Truncate_def mib_def)
  then have 2: "repl_step demo_wire ?s1 demo_followed" by (simp add: demo_followed_def demo_session_def)
  show ?thesis unfolding repl_run_def using 1 2 by (meson r_into_rtranclp rtranclp.rtrancl_into_rtrancl)
qed

section \<open>Two nodes of a consensus group\<close>

definition demo_command :: Command where
  "demo_command = (command ''insert'')\<lparr>cmdId := ''a'', cmdVector := demo_vec, cmdData := ''{}''\<rparr>"

lemma demo_agree: "agree demo_db0 demo_restored"
  by (simp add: agree_def demo_db0_fields demo_restored_fields lv_abs_def fun_eq_iff)

lemma demo_healthy: "healthy demo_db0" "healthy demo_restored"
  using demo_db0_inv demo_restored_inv by (auto simp: healthy_def lv_ok_def demo_db0_fields demo_restored_fields)

lemma demo_rooms: "room_for 1 demo_db0" "room_for 1 demo_restored"
  by (simp_all add: room_for_def demo_restored_fields demo_disk_pos demo_db0_def empty_db_def NewVectorArena_def DiskStore_Truncate_def mib_def)

lemma demo_fsm_run:
  assumes "room_for 1 db"
  shows "\<exists>as db'. fsm_run (\<lambda>_. Some demo_command) Some db [''x''] as db'"
proof -
  obtain a db1 where "FSM_Apply (\<lambda>_. Some demo_command) Some good_io db ''x'' = (a, db1)" by fastforce
  then show ?thesis
    using assms by (intro exI) (rule fsm_apply [OF _ _ fsm_done], simp_all add: demo_command_def command_def command_size_def)
qed

lemmas demo_fsm_runs = demo_fsm_run [OF demo_rooms(1)] demo_fsm_run [OF demo_rooms(2)]

section \<open>A contract\<close>

definition demo_contract :: Contract where
  "demo_contract = \<lparr>coEncoder = '' m '', coTokenizer = [], coPooling = [], coNormalization = ''l2'', coDim = 1, coMetric = ''dot''\<rparr>"

lemma demo_lower: "lower_laws (\<lambda>s. s)"
  by (simp add: lower_laws_def)

text \<open>An encoding that keeps only the version.\<close>

definition demo_render :: json_render where
  "demo_render m = Some (case m MetadataVersionKey of Some (JString s) \<Rightarrow> CHR ''x'' # s | _ \<Rightarrow> ''y'')"

definition demo_parse :: json_parse where
  "demo_parse b = (case b of [] \<Rightarrow> None | c # s \<Rightarrow> Some (Some (if c = CHR ''x'' then [MetadataVersionKey \<mapsto> JString s] else Map.empty)))"

lemma demo_json_law: "json_version_law demo_parse demo_render"
  by (auto simp: json_version_law_def demo_render_def demo_parse_def)

end
