(* ===== verification/Collection_Names.thy ===== *)
theory Collection_Names
  imports Prelude
begin

text \<open>
  The names of collections (\<open>validateCollectionName\<close> and \<open>safeCollectionDir\<close> of
  \<open>internal/store/collections.go\<close>) over the part of \<open>path/filepath\<close> they use, on a system whose separator is the slash.
\<close>

section \<open>Paths\<close>

fun split_path :: "string \<Rightarrow> string list" where
  "split_path [] = [[]]"
| "split_path (c # cs) =
     (if c = CHR ''/'' then [] # split_path cs
      else case split_path cs of [] \<Rightarrow> [[c]] | w # ws \<Rightarrow> (c # w) # ws)"

fun join_path :: "string list \<Rightarrow> string" where
  "join_path [] = []"
| "join_path [w] = w"
| "join_path (w # ws) = w @ CHR ''/'' # join_path ws"

fun clean_parts :: "bool \<Rightarrow> string list \<Rightarrow> string list \<Rightarrow> string list" where
  "clean_parts rooted acc [] = rev acc"
| "clean_parts rooted acc (w # ws) =
     (if w = [] \<or> w = ''.'' then clean_parts rooted acc ws
      else if w = ''..'' then
        (if acc \<noteq> [] \<and> hd acc \<noteq> ''..'' then clean_parts rooted (tl acc) ws
         else if rooted then clean_parts rooted acc ws else clean_parts rooted (w # acc) ws)
      else clean_parts rooted (w # acc) ws)"

definition IsAbs :: "string \<Rightarrow> bool" where
  "IsAbs p \<longleftrightarrow> p \<noteq> [] \<and> hd p = CHR ''/''"

definition Clean :: "string \<Rightarrow> string" where
  "Clean p =
     (let ws = clean_parts (IsAbs p) [] (split_path p) in
      if IsAbs p then CHR ''/'' # join_path ws else if ws = [] then ''.'' else join_path ws)"

text \<open>\<open>Join\<close> ignores empty elements.\<close>

definition Join :: "string \<Rightarrow> string \<Rightarrow> string" where
  "Join a b = (let es = filter (\<lambda>e. e \<noteq> []) [a, b] in if es = [] then [] else Clean (join_path es))"

definition Abs :: "string option \<Rightarrow> string \<Rightarrow> string option" where
  "Abs cwd p = (if IsAbs p then Some (Clean p) else case cwd of None \<Rightarrow> None | Some d \<Rightarrow> Some (Join d p))"

fun common_prefix :: "string list \<Rightarrow> string list \<Rightarrow> nat" where
  "common_prefix (x # xs) (y # ys) = (if x = y then Suc (common_prefix xs ys) else 0)"
| "common_prefix _ _ = 0"

text \<open>\<open>Rel\<close> of two absolute paths.\<close>

definition Rel :: "string \<Rightarrow> string \<Rightarrow> string" where
  "Rel base targ =
     (let b = clean_parts True [] (split_path base); t = clean_parts True [] (split_path targ); k = common_prefix b t;
          ws = replicate (length b - k) ''..'' @ drop k t
      in if ws = [] then ''.'' else join_path ws)"

section \<open>Names\<close>

datatype name_error = NameEmpty | NameInvalid | NameRoot | NamePath | NameEscapes

definition validateCollectionName :: "string \<Rightarrow> name_error option" where
  "validateCollectionName name =
     (if name = [] then Some NameEmpty
      else if name = ''.'' \<or> name = ''..'' \<or> IsAbs name \<or> (\<exists>c\<in>set name. c \<in> {CHR ''/'', CHR 0x5C, CHR 0x00}) then Some NameInvalid
      else None)"

definition safeCollectionDir :: "string option \<Rightarrow> string \<Rightarrow> string \<Rightarrow> name_error + string" where
  "safeCollectionDir cwd basePath name =
     (case validateCollectionName name of
        Some e \<Rightarrow> Inl e
      | None \<Rightarrow>
          (case Abs cwd basePath of
             None \<Rightarrow> Inl NameRoot
           | Some root \<Rightarrow>
               (case Abs cwd (Join root name) of
                  None \<Rightarrow> Inl NamePath
                | Some target \<Rightarrow>
                    let rel = Rel root target in
                    if rel = ''..'' \<or> take 3 rel = ''../'' then Inl NameEscapes else Inr target)))"

section \<open>Clean components\<close>

definition part :: "string \<Rightarrow> bool" where
  "part w \<longleftrightarrow> w \<noteq> [] \<and> w \<noteq> ''.'' \<and> w \<noteq> ''..'' \<and> CHR ''/'' \<notin> set w"

lemma split_path_nonempty [simp]: "split_path p \<noteq> []"
  by (cases p) (auto split: list.splits)

lemma split_path_slash: "split_path (a @ CHR ''/'' # b) = split_path a @ split_path b"
  by (induction a) (auto split: list.splits)

lemma split_path_part: "CHR ''/'' \<notin> set w \<Longrightarrow> split_path w = [w]"
  by (induction w) auto

lemma split_path_noslash: "w \<in> set (split_path p) \<Longrightarrow> CHR ''/'' \<notin> set w"
  by (induction p arbitrary: w) (auto split: list.splits if_splits)

lemma split_join: "\<forall>w\<in>set ws. CHR ''/'' \<notin> set w \<Longrightarrow> ws \<noteq> [] \<Longrightarrow> split_path (join_path ws) = ws"
  by (induction ws rule: join_path.induct) (auto simp: split_path_slash split_path_part)

lemma clean_parts_part:
  assumes "list_all part acc" "\<forall>w\<in>set ws. CHR ''/'' \<notin> set w"
  shows "list_all part (clean_parts True acc ws)"
  using assms
proof (induction ws arbitrary: acc)
  case (Cons w ws)
  then have "list_all part (tl acc)" by (cases acc) auto
  then show ?case using Cons part_def [of w] by auto
qed (simp add: list_all_rev)

lemma clean_parts_id: "list_all part ws \<Longrightarrow> clean_parts rooted acc ws = rev acc @ ws"
  by (induction ws arbitrary: acc) (auto simp: part_def)

lemma clean_parts_empty [simp]: "clean_parts rooted acc ([] # ws) = clean_parts rooted acc ws"
  by simp

text \<open>An absolute clean path and its components.\<close>

definition abs_path :: "string list \<Rightarrow> string" where
  "abs_path ws = CHR ''/'' # join_path ws"

lemma split_abs: "list_all part ws \<Longrightarrow> split_path (abs_path ws) = [] # (if ws = [] then [[]] else ws)"
  using split_join [of ws] by (auto simp: abs_path_def list_all_iff part_def)

lemma clean_split_abs: "list_all part ws \<Longrightarrow> clean_parts True [] (split_path (abs_path ws)) = ws"
  by (simp add: split_abs clean_parts_id)

lemma IsAbs_abs [simp]: "IsAbs (abs_path ws)"
  by (simp add: IsAbs_def abs_path_def)

lemma Clean_abs: "IsAbs p \<Longrightarrow> \<exists>ws. Clean p = abs_path ws \<and> list_all part ws"
  using clean_parts_part [of "[]" "split_path p"] split_path_noslash [of _ p] by (auto simp: Clean_def abs_path_def Let_def)

lemma Clean_abs_path: "list_all part ws \<Longrightarrow> Clean (abs_path ws) = abs_path ws"
  using clean_split_abs [of ws] by (simp add: Clean_def abs_path_def Let_def) (simp add: IsAbs_def)

lemma Join_abs:
  assumes "list_all part ws" "part name"
  shows "Join (abs_path ws) name = abs_path (ws @ [name])"
proof -
  have ne: "name \<noteq> []" "CHR ''/'' \<notin> set name" using assms(2) by (simp_all add: part_def)
  have "Join (abs_path ws) name = Clean (abs_path ws @ CHR ''/'' # name)"
    using ne by (simp add: Join_def abs_path_def)
  also have "\<dots> = CHR ''/'' # join_path (clean_parts True [] (split_path (abs_path ws @ CHR ''/'' # name)))"
    by (simp add: Clean_def IsAbs_def abs_path_def)
  also have "split_path (abs_path ws @ CHR ''/'' # name) = [] # (if ws = [] then [[]] else ws) @ [name]"
    using split_abs [OF assms(1)] ne(2) by (simp add: split_path_slash split_path_part)
  also have "clean_parts True [] ([] # (if ws = [] then [[]] else ws) @ [name]) = ws @ [name]"
    using clean_parts_id [of "ws @ [name]" True "[]"] assms by auto
  finally show ?thesis by (simp add: abs_path_def)
qed

lemma valid_part: "validateCollectionName name = None \<longleftrightarrow> part name \<and> CHR 0x5C \<notin> set name \<and> CHR 0x00 \<notin> set name"
  by (cases name) (auto simp: validateCollectionName_def part_def IsAbs_def)

text \<open>The directory of a valid name is a direct child of the root, and the check on the relative path never fires.\<close>

lemma Abs_absolute: "Abs cwd p = Some r \<Longrightarrow> (\<And>d. cwd = Some d \<Longrightarrow> IsAbs d) \<Longrightarrow> \<exists>ws. r = abs_path ws \<and> list_all part ws"
proof -
  assume a: "Abs cwd p = Some r" and d: "\<And>d. cwd = Some d \<Longrightarrow> IsAbs d"
  show ?thesis
  proof (cases "IsAbs p")
    case True
    then show ?thesis using a Clean_abs by (auto simp: Abs_def)
  next
    case False
    then obtain w where w: "cwd = Some w" "r = Join w p" using a by (auto simp: Abs_def split: option.splits)
    then have "IsAbs w" using d by blast
    then have "IsAbs (join_path (filter (\<lambda>e. e \<noteq> []) [w, p]))" "w \<noteq> []" by (auto simp: IsAbs_def)
    then show ?thesis using w(2) Clean_abs by (auto simp: Join_def)
  qed
qed

lemma safe_dir:
  assumes "validateCollectionName name = None" "Abs cwd basePath = Some (abs_path ws)" "list_all part ws"
  shows "safeCollectionDir cwd basePath name = Inr (abs_path (ws @ [name]))"
proof -
  have p: "part name" using assms(1) by (simp add: valid_part)
  have al: "list_all part (ws @ [name])" using assms(3) p by simp
  have k: "common_prefix ws (ws @ [name]) = length ws" by (induction ws) auto
  have rel: "Rel (abs_path ws) (abs_path (ws @ [name])) = name"
    using clean_split_abs [OF assms(3)] clean_split_abs [OF al] k by (simp add: Rel_def)
  have "take 3 name \<noteq> ''../''" using p by (metis in_set_takeD list.set_intros part_def set_subset_Cons subset_code(1))
  then show ?thesis
    using assms(1,2) Join_abs [OF assms(3) p] Clean_abs_path [OF al] rel p
    by (simp add: safeCollectionDir_def Abs_def part_def)
qed

end
