(* ===== verification/Collections.thy ===== *)
theory Collections
  imports Collection_Names Contract Levara_Restore "HOL-Library.List_Lexorder" "HOL-Library.Char_ord"
begin

text \<open>
  \<open>internal/store/collections.go\<close>: one engine per named collection, with its embedding contract.

  A collection is a pointer to an engine, so the manager has a heap of engines (\<open>mgDbs\<close>) and its map holds
  positions in it; the code compares such pointers to notice that a collection was replaced. A directory of the collections
  root holds a log, a metadata file and the description; the first two are those of the engine while it is open.
  An operation that takes the lock several times is a composition of one definition per critical section. What the
  operating system answers is \<open>cm_io\<close>; the parts of the standard library that are parameters are \<open>cm_env\<close>.
  A panic is \<open>None\<close>. Progress messages are not modelled.
\<close>

section \<open>State\<close>

record CollectionMeta =
  mtName :: string
  mtModel :: string
  mtDim :: int
  mtMetric :: string
  mtVersion :: string
  mtContract :: "Contract option"
  mtDomain :: string
  mtArchivedFrom :: string
  mtArchiveReason :: string
  mtRetention :: string
  mtCount :: nat
  mtCreated :: string
  mtUpdated :: string

record CollectionDir =
  cdWal :: bytes
  cdBin :: bytes
  cdMeta :: "CollectionMeta option"

record CollectionManager =
  mgDbs :: "Levara list"
  mgCollections :: "string \<rightharpoonup> nat"
  mgMetas :: "string \<rightharpoonup> CollectionMeta"
  mgDim :: nat
  mgBase :: string
  mgCfg :: HNSWConfig
  mgModel :: string
  mgContract :: Contract
  mgHook :: bool
  mgHooked :: "(string \<times> string \<times> metadata) list"
  mgDirs :: "string \<rightharpoonup> CollectionDir"

record cm_env =
  evLower :: "string \<Rightarrow> string"
  evSha :: "bytes \<Rightarrow> bytes"
  evParse :: json_parse
  evRender :: json_render
  evJson :: "metadata \<Rightarrow> bytes option"
  evGetenv :: "string \<Rightarrow> string"
  evDot :: dot_fn

record cm_io =
  ioCwd :: "string option"
  ioMkdir :: bool
  ioLevels :: "nat \<Rightarrow> nat"
  ioReplay :: "nat \<Rightarrow> disk_io"
  ioTrunc :: bool
  ioDurable :: nat
  ioSave :: bool
  ioNow :: string
  ioClose :: flush_io
  ioRename :: bool
  ioBack :: bool
  ioReopen :: "nat \<Rightarrow> disk_io"
  ioRemove :: bool
  ioLeft :: "CollectionDir option"
  ioDisk :: "nat \<Rightarrow> disk_io"
  ioWal :: "nat \<Rightarrow> write_io"
  ioFlush :: flush_io

datatype cm_error =
    CmName name_error | CmDir | CmOpen lv_error | CmNotFound | CmSame | CmTaken | CmOnDisk | CmClose lv_error | CmRename
  | CmReopen lv_error | CmRemove | CmSave | CmDim | CmContract | CmChanged | CmStore lv_error

abbreviation fingerprint :: "cm_env \<Rightarrow> Contract \<Rightarrow> string" where
  "fingerprint ev \<equiv> Fingerprint (evLower ev) (evSha ev)"

abbreviation version_of :: "cm_env \<Rightarrow> metadata \<Rightarrow> string" where
  "version_of ev \<equiv> VersionFromMetadata (evParse ev)"

definition new_dir :: CollectionDir where
  "new_dir = \<lparr>cdWal = [], cdBin = [], cdMeta = None\<rparr>"

definition store_db :: "nat \<Rightarrow> Levara \<Rightarrow> CollectionManager \<Rightarrow> CollectionManager" where
  "store_db h db cm = cm\<lparr>mgDbs := (mgDbs cm)[h := db]\<rparr>"

text \<open>The description is stamped with the time before it is written, whether the write works or not.\<close>

definition saveCollectionMeta :: "cm_io \<Rightarrow> string \<Rightarrow> CollectionMeta \<Rightarrow> CollectionManager \<Rightarrow> cm_error option \<times> CollectionManager" where
  "saveCollectionMeta io name meta cm =
     (let meta' = meta\<lparr>mtUpdated := ioNow io\<rparr>; cm' = cm\<lparr>mgMetas := (mgMetas cm)(name \<mapsto> meta')\<rparr> in
      if \<not> ioSave io then (Some CmSave, cm')
      else (None, cm'\<lparr>mgDirs := (mgDirs cm')(name \<mapsto> (case mgDirs cm' name of None \<Rightarrow> new_dir | Some d \<Rightarrow> d)\<lparr>cdMeta := Some meta'\<rparr>)\<rparr>))"

section \<open>Configuration\<close>

definition SetDefaultModel :: "string \<Rightarrow> CollectionManager \<Rightarrow> CollectionManager" where
  "SetDefaultModel model cm = cm\<lparr>mgModel := model\<rparr>"

definition SetDefaultEmbeddingContract :: "cm_env \<Rightarrow> Contract \<Rightarrow> CollectionManager \<Rightarrow> CollectionManager" where
  "SetDefaultEmbeddingContract ev contract cm = cm\<lparr>mgContract := Normalized (evLower ev) contract\<rparr>"

definition SetAfterInsertHook :: "bool \<Rightarrow> CollectionManager \<Rightarrow> CollectionManager" where
  "SetAfterInsertHook hook cm = cm\<lparr>mgHook := hook\<rparr>"

definition afterInsert :: "string \<Rightarrow> string \<Rightarrow> metadata \<Rightarrow> CollectionManager \<Rightarrow> CollectionManager" where
  "afterInsert collection i meta cm = (if mgHook cm then cm\<lparr>mgHooked := mgHooked cm @ [(collection, i, meta)]\<rparr> else cm)"

section \<open>Contracts\<close>

definition resolveEmbeddingContractLocked :: "cm_env \<Rightarrow> CollectionManager \<Rightarrow> string \<Rightarrow> int \<Rightarrow> string \<Rightarrow> Contract" where
  "resolveEmbeddingContractLocked ev cm model dm metric0 =
     (let metric = (if metric0 = [] then ''cosine'' else metric0); contract = mgContract cm in
      Normalized (evLower ev)
        (if Contract_Empty (evLower ev) contract \<or> coEncoder contract \<noteq> model \<or> coDim contract \<noteq> dm \<or> coMetric contract \<noteq> evLower ev metric
         then FromEnv (evGetenv ev) model dm metric else contract))"

definition ensureCollectionContract :: "cm_env \<Rightarrow> CollectionMeta \<Rightarrow> CollectionMeta" where
  "ensureCollectionContract ev meta0 =
     (let meta = (if mtMetric meta0 = [] then meta0\<lparr>mtMetric := ''cosine''\<rparr> else meta0);
          contract = Normalized (evLower ev) (FromEnv (evGetenv ev) (mtModel meta) (mtDim meta) (mtMetric meta)) in
      if Contract_Empty (evLower ev) contract then meta
      else
        let ct = (case mtContract meta of None \<Rightarrow> contract | Some c \<Rightarrow> c);
            meta1 = meta\<lparr>mtContract := Some ct\<rparr>
        in if mtVersion meta1 = [] then meta1\<lparr>mtVersion := fingerprint ev ct\<rparr> else meta1)"

definition validateEmbeddingContract :: "cm_env \<Rightarrow> CollectionMeta option \<Rightarrow> metadata \<Rightarrow> cm_error option" where
  "validateEmbeddingContract ev meta recordMeta =
     (case meta of
        None \<Rightarrow> None
      | Some m \<Rightarrow>
          if mtVersion m = [] then None
          else let incoming = version_of ev recordMeta in
            if incoming = [] \<or> incoming = mtVersion m then None else Some CmContract)"

definition stampEmbeddingMetadata :: "cm_env \<Rightarrow> CollectionMeta option \<Rightarrow> metadata \<Rightarrow> metadata option" where
  "stampEmbeddingMetadata ev meta recordMeta =
     (case meta of
        None \<Rightarrow> Some recordMeta
      | Some m \<Rightarrow>
          (if mtVersion m = [] then Some recordMeta
           else case mtContract m of
             None \<Rightarrow> Some recordMeta
           | Some c \<Rightarrow>
               if version_of ev recordMeta \<noteq> [] then Some recordMeta
               else StampMetadata (evLower ev) (evSha ev) (evParse ev) (evRender ev) recordMeta c))"

definition defaultMetaForVectorLocked :: "cm_env \<Rightarrow> CollectionManager \<Rightarrow> string \<Rightarrow> nat \<Rightarrow> CollectionMeta option" where
  "defaultMetaForVectorLocked ev cm collection dm =
     (let contract0 = (if Contract_Empty (evLower ev) (mgContract cm) then FromEnv (evGetenv ev) (mgModel cm) (int dm) ''cosine'' else mgContract cm);
          contract = Normalized (evLower ev) (contract0\<lparr>coDim := int dm\<rparr>) in
      if Contract_Empty (evLower ev) contract then None
      else Some \<lparr>mtName = collection, mtModel = coEncoder contract, mtDim = int dm, mtMetric = coMetric contract,
                 mtVersion = fingerprint ev contract, mtContract = Some contract, mtDomain = [], mtArchivedFrom = [],
                 mtArchiveReason = [], mtRetention = [], mtCount = 0, mtCreated = [], mtUpdated = []\<rparr>)"

section \<open>Creation and removal\<close>

definition CreateWithDim ::
  "cm_env \<Rightarrow> cm_io \<Rightarrow> CollectionManager \<Rightarrow> string \<Rightarrow> int \<Rightarrow> string \<Rightarrow> string \<Rightarrow> cm_error option \<times> CollectionManager" where
  "CreateWithDim ev io cm name dm0 embeddingModel metric0 =
     (case safeCollectionDir (ioCwd io) (mgBase cm) name of
        Inl e \<Rightarrow> (Some (CmName e), cm)
      | Inr _ \<Rightarrow>
          if mgCollections cm name \<noteq> None then (None, cm)
          else
            let dm = (if dm0 \<le> 0 then mgDim cm else nat dm0) in
            if \<not> ioMkdir io then (Some CmDir, cm)
            else
              let dir = (case mgDirs cm name of None \<Rightarrow> new_dir | Some d \<Rightarrow> d);
                  cm1 = cm\<lparr>mgDirs := (mgDirs cm)(name \<mapsto> dir)\<rparr>
              in case NewLevara (evDot ev) (ioLevels io) (ioReplay io) (ioTrunc io) (ioDurable io) dm (mgCfg cm) (cdWal dir) (cdBin dir) of
                   Inl e \<Rightarrow> (Some (CmOpen e), cm1)
                 | Inr db \<Rightarrow>
                     let cm2 = cm1\<lparr>mgDbs := mgDbs cm1 @ [db], mgCollections := (mgCollections cm1)(name \<mapsto> length (mgDbs cm1))\<rparr>;
                         metric = (if metric0 = [] then ''cosine'' else metric0);
                         contract = resolveEmbeddingContractLocked ev cm2 embeddingModel (int dm) metric;
                         meta = \<lparr>mtName = name, mtModel = embeddingModel, mtDim = int dm, mtMetric = metric, mtVersion = [],
                                 mtContract = None, mtDomain = [], mtArchivedFrom = [], mtArchiveReason = [], mtRetention = [],
                                 mtCount = 0, mtCreated = ioNow io, mtUpdated = []\<rparr>;
                         meta' = (if Contract_Empty (evLower ev) contract then meta
                                  else meta\<lparr>mtVersion := fingerprint ev contract, mtContract := Some contract\<rparr>)
                     in (None, snd (saveCollectionMeta io name meta' cm2)))"

definition CreateWithMeta ::
  "cm_env \<Rightarrow> cm_io \<Rightarrow> CollectionManager \<Rightarrow> string \<Rightarrow> string \<Rightarrow> string \<Rightarrow> cm_error option \<times> CollectionManager" where
  "CreateWithMeta ev io cm name embeddingModel metric = CreateWithDim ev io cm name (int (mgDim cm)) embeddingModel metric"

definition CM_Create :: "cm_env \<Rightarrow> cm_io \<Rightarrow> CollectionManager \<Rightarrow> string \<Rightarrow> cm_error option \<times> CollectionManager" where
  "CM_Create ev io cm name = CreateWithMeta ev io cm name (mgModel cm) []"

text \<open>The error of closing the engine is ignored; a removal that fails leaves what is left of the directory.\<close>

definition CM_Drop :: "cm_io \<Rightarrow> CollectionManager \<Rightarrow> string \<Rightarrow> cm_error option \<times> CollectionManager" where
  "CM_Drop io cm name =
     (case safeCollectionDir (ioCwd io) (mgBase cm) name of
        Inl e \<Rightarrow> (Some (CmName e), cm)
      | Inr _ \<Rightarrow>
          (case mgCollections cm name of
             None \<Rightarrow> (Some CmNotFound, cm)
           | Some h \<Rightarrow>
               let cm1 = store_db h (snd (Close (ioClose io) (mgDbs cm ! h))) cm;
                   cm2 = cm1\<lparr>mgCollections := (mgCollections cm1)(name := None), mgMetas := (mgMetas cm1)(name := None)\<rparr>
               in if ioRemove io then (None, cm2\<lparr>mgDirs := (mgDirs cm2)(name := None)\<rparr>)
                  else (Some CmRemove, cm2\<lparr>mgDirs := (mgDirs cm2)(name := ioLeft io)\<rparr>)))"

text \<open>The files that an engine leaves behind when it is closed.\<close>

definition closed_dir :: "Levara \<Rightarrow> CollectionDir option \<Rightarrow> CollectionDir" where
  "closed_dir db d =
     \<lparr>cdWal = walLog (dbWal db), cdBin = dsFile (dbDisk db), cdMeta = (case d of None \<Rightarrow> None | Some d \<Rightarrow> cdMeta d)\<rparr>"

definition reopen :: "cm_env \<Rightarrow> cm_io \<Rightarrow> (nat \<Rightarrow> disk_io) \<Rightarrow> CollectionManager \<Rightarrow> nat \<Rightarrow> CollectionDir \<Rightarrow> lv_error + Levara" where
  "reopen ev io dio cm dm dir = NewLevara (evDot ev) (ioLevels io) dio (ioTrunc io) (ioDurable io) dm (mgCfg cm) (cdWal dir) (cdBin dir)"

definition CM_Rename :: "cm_env \<Rightarrow> cm_io \<Rightarrow> CollectionManager \<Rightarrow> string \<Rightarrow> string \<Rightarrow> cm_error option \<times> CollectionManager" where
  "CM_Rename ev io cm oldName newName =
     (if oldName = newName then (Some CmSame, cm)
      else case safeCollectionDir (ioCwd io) (mgBase cm) oldName of
        Inl e \<Rightarrow> (Some (CmName e), cm)
      | Inr _ \<Rightarrow>
     (case safeCollectionDir (ioCwd io) (mgBase cm) newName of
        Inl e \<Rightarrow> (Some (CmName e), cm)
      | Inr _ \<Rightarrow>
     (case mgCollections cm oldName of
        None \<Rightarrow> (Some CmNotFound, cm)
      | Some h \<Rightarrow>
          if mgCollections cm newName \<noteq> None then (Some CmTaken, cm)
          else if mgDirs cm newName \<noteq> None then (Some CmOnDisk, cm)
          else case Close (ioClose io) (mgDbs cm ! h) of
            (Some e, db') \<Rightarrow> (Some (CmClose e), store_db h db' cm)
          | (None, db') \<Rightarrow>
              let dir = closed_dir db' (mgDirs cm oldName);
                  cm1 = (store_db h db' cm)\<lparr>mgCollections := (mgCollections cm)(oldName := None), mgDirs := (mgDirs cm)(oldName \<mapsto> dir)\<rparr>
              in if \<not> ioRename io then
                   (Some CmRename,
                    (case reopen ev io (ioReplay io) cm1 (dbDim db') dir of
                       Inl _ \<Rightarrow> cm1
                     | Inr db \<Rightarrow> cm1\<lparr>mgDbs := mgDbs cm1 @ [db], mgCollections := (mgCollections cm1)(oldName \<mapsto> length (mgDbs cm1))\<rparr>))
                 else
                   let cm2 = cm1\<lparr>mgDirs := (mgDirs cm1)(oldName := None, newName \<mapsto> dir)\<rparr> in
                   (case reopen ev io (ioReopen io) cm2 (dbDim db') dir of
                      Inl e \<Rightarrow>
                        (Some (CmReopen e), if ioBack io then cm2\<lparr>mgDirs := (mgDirs cm2)(newName := None, oldName \<mapsto> dir)\<rparr> else cm2)
                    | Inr db \<Rightarrow>
                        let cm3 = cm2\<lparr>mgDbs := mgDbs cm2 @ [db], mgCollections := (mgCollections cm2)(newName \<mapsto> length (mgDbs cm2))\<rparr>;
                            cm4 = (case mgMetas cm3 oldName of
                                     None \<Rightarrow> cm3
                                   | Some m \<Rightarrow> snd (saveCollectionMeta io newName (m\<lparr>mtName := newName\<rparr>) cm3))
                        in (None, cm4\<lparr>mgMetas := (mgMetas cm4)(oldName := None)\<rparr>)))))"

section \<open>Queries\<close>

text \<open>\<open>order\<close> is the order in which a loop visits a map; strings compare by their bytes.\<close>

definition CM_List :: "string list \<Rightarrow> CollectionManager \<Rightarrow> string list" where
  "CM_List order cm = sort (filter (\<lambda>name. mgCollections cm name \<noteq> None) order)"

definition ListByDomain :: "cm_env \<Rightarrow> string list \<Rightarrow> CollectionManager \<Rightarrow> string \<Rightarrow> string list" where
  "ListByDomain ev order cm domain0 =
     (if domain0 = [] then CM_List order cm
      else
        let domain = evLower ev domain0 in
        sort (filter (\<lambda>name. mgCollections cm name \<noteq> None \<and>
          (case mgMetas cm name of None \<Rightarrow> False | Some m \<Rightarrow> evLower ev (mtDomain m) = domain)) order))"

definition CM_Has :: "CollectionManager \<Rightarrow> string \<Rightarrow> bool" where
  "CM_Has cm name \<longleftrightarrow> mgCollections cm name \<noteq> None"

definition CM_Get :: "CollectionManager \<Rightarrow> string \<Rightarrow> cm_error + nat" where
  "CM_Get cm name = (case mgCollections cm name of None \<Rightarrow> Inl CmNotFound | Some h \<Rightarrow> Inr h)"

definition CM_Dim :: "CollectionManager \<Rightarrow> string \<Rightarrow> int" where
  "CM_Dim cm name = (case mgMetas cm name of Some meta \<Rightarrow> if 0 < mtDim meta then mtDim meta else int (mgDim cm) | None \<Rightarrow> int (mgDim cm))"

definition DefaultDim :: "CollectionManager \<Rightarrow> nat" where
  "DefaultDim cm = mgDim cm"

definition CM_Count :: "CollectionManager \<Rightarrow> nat" where
  "CM_Count cm = card (dom (mgCollections cm))"

definition CM_Search :: "cm_env \<Rightarrow> CollectionManager \<Rightarrow> string \<Rightarrow> vec \<Rightarrow> int \<Rightarrow> cm_error + VectroRecord list" where
  "CM_Search ev cm collection query topK =
     (case CM_Get cm collection of
        Inl e \<Rightarrow> Inl e
      | Inr h \<Rightarrow> if length query \<noteq> dbDim (mgDbs cm ! h) then Inl CmDim else Inr (Search (evDot ev) (mgDbs cm ! h) query topK))"

definition HasRecord :: "CollectionManager \<Rightarrow> string \<Rightarrow> string \<Rightarrow> bool" where
  "HasRecord cm collection i = (case CM_Get cm collection of Inl _ \<Rightarrow> False | Inr h \<Rightarrow> Get (mgDbs cm ! h) i \<noteq> None)"

definition GetMeta :: "CollectionManager \<Rightarrow> string \<Rightarrow> CollectionMeta option" where
  "GetMeta cm name = mgMetas cm name"

definition CM_AllRecords ::
  "string list \<Rightarrow> CollectionManager \<Rightarrow> string \<Rightarrow> cm_error + (string \<times> vec option \<times> bytes option) list" where
  "CM_AllRecords order cm collection =
     (case CM_Get cm collection of
        Inl e \<Rightarrow> Inl e
      | Inr h \<Rightarrow> Inr (map (\<lambda>i. case Get (mgDbs cm ! h) i of None \<Rightarrow> (i, None, None) | Some (v, m) \<Rightarrow> (i, v, m)) (AllIDs order (mgDbs cm ! h))))"

section \<open>Writing\<close>

definition getOrCreate :: "cm_env \<Rightarrow> cm_io \<Rightarrow> CollectionManager \<Rightarrow> string \<Rightarrow> (cm_error + nat) \<times> CollectionManager" where
  "getOrCreate ev io cm name =
     (case mgCollections cm name of
        Some h \<Rightarrow> (Inr h, cm)
      | None \<Rightarrow> (case CM_Create ev io cm name of (Some e, cm') \<Rightarrow> (Inl e, cm') | (None, cm') \<Rightarrow> (CM_Get cm' name, cm')))"

definition GetOrCreateWithDim ::
  "cm_env \<Rightarrow> cm_io \<Rightarrow> CollectionManager \<Rightarrow> string \<Rightarrow> int \<Rightarrow> string \<Rightarrow> (cm_error + nat) \<times> CollectionManager" where
  "GetOrCreateWithDim ev io cm name dm model =
     (case mgCollections cm name of
        Some h \<Rightarrow> (Inr h, cm)
      | None \<Rightarrow> (case CreateWithDim ev io cm name dm model ''cosine'' of (Some e, cm') \<Rightarrow> (Inl e, cm') | (None, cm') \<Rightarrow> (CM_Get cm' name, cm')))"

definition wrong_dim :: "CollectionMeta option \<Rightarrow> vec \<Rightarrow> bool" where
  "wrong_dim m v \<longleftrightarrow> (case m of None \<Rightarrow> False | Some m \<Rightarrow> 0 < mtDim m \<and> int (length v) \<noteq> mtDim m)"

text \<open>The metadata as the engine receives it, and what \<open>json.Marshal\<close> makes of it.\<close>

definition data_of :: "metadata \<Rightarrow> metadata insert_data" where
  "data_of meta = (case meta of MRaw b \<Rightarrow> DRaw b | MBytes b \<Rightarrow> DRaw b | MString s \<Rightarrow> DString s | _ \<Rightarrow> DValue meta)"

definition json_data :: "cm_env \<Rightarrow> metadata insert_data \<Rightarrow> bytes option" where
  "json_data ev d = evJson ev (case d of DRaw b \<Rightarrow> MRaw b | DString s \<Rightarrow> MString s | DValue m \<Rightarrow> m)"

text \<open>The first critical section of \<open>InsertDeferredHook\<close>: the checks against the description, and the stamp.\<close>

definition insert_screen :: "cm_env \<Rightarrow> CollectionManager \<Rightarrow> string \<Rightarrow> vec \<Rightarrow> metadata \<Rightarrow> (cm_error + metadata) option" where
  "insert_screen ev cm collection v meta =
     (let m = (case mgMetas cm collection of None \<Rightarrow> defaultMetaForVectorLocked ev cm collection (length v) | Some m \<Rightarrow> Some m) in
      if wrong_dim m v then Some (Inl CmDim)
      else case validateEmbeddingContract ev m meta of
        Some e \<Rightarrow> Some (Inl e)
      | None \<Rightarrow> (case stampEmbeddingMetadata ev m meta of None \<Rightarrow> None | Some meta' \<Rightarrow> Some (Inr meta')))"

text \<open>The last one: the collection and its contract must still be those of the checks, and stay so during the write.\<close>

definition insert_commit ::
  "cm_env \<Rightarrow> cm_io \<Rightarrow> string \<Rightarrow> nat \<Rightarrow> string \<Rightarrow> vec \<Rightarrow> metadata \<Rightarrow> CollectionManager \<Rightarrow> cm_error option \<times> CollectionManager" where
  "insert_commit ev io collection h i v meta cm =
     (if mgCollections cm collection \<noteq> Some h then (Some CmChanged, cm)
      else
        let current = mgMetas cm collection in
        if version_of ev meta \<noteq> [] \<and> (case current of None \<Rightarrow> True | Some m \<Rightarrow> mtVersion m = []) then (Some CmContract, cm)
        else case validateEmbeddingContract ev current meta of
          Some e \<Rightarrow> (Some e, cm)
        | None \<Rightarrow>
            (case Insert (json_data ev) (ioDisk io 0) (ioWal io 0) (ioFlush io) (mgDbs cm ! h) i v (data_of meta) of
               (Some e, db') \<Rightarrow> (Some (CmStore e), store_db h db' cm)
             | (None, db') \<Rightarrow> (None, store_db h db' cm)))"

definition refreshRecordCount :: "string \<Rightarrow> nat \<Rightarrow> CollectionManager \<Rightarrow> CollectionManager" where
  "refreshRecordCount collection h cm =
     (case mgMetas cm collection of
        None \<Rightarrow> cm
      | Some m \<Rightarrow>
          if mgCollections cm collection = Some h
          then cm\<lparr>mgMetas := (mgMetas cm)(collection \<mapsto> m\<lparr>mtCount := Count (mgDbs cm ! h)\<rparr>)\<rparr> else cm)"

text \<open>It returns the callback, here its arguments.\<close>

definition InsertDeferredHook ::
  "cm_env \<Rightarrow> cm_io \<Rightarrow> CollectionManager \<Rightarrow> string \<Rightarrow> string \<Rightarrow> vec \<Rightarrow> metadata \<Rightarrow>
   ((cm_error + (string \<times> string \<times> metadata)) \<times> CollectionManager) option" where
  "InsertDeferredHook ev io cm collection i v meta0 =
     (case insert_screen ev cm collection v meta0 of
        None \<Rightarrow> None
      | Some (Inl e) \<Rightarrow> Some (Inl e, cm)
      | Some (Inr meta) \<Rightarrow>
          (case getOrCreate ev io cm collection of
             (Inl e, cm1) \<Rightarrow> Some (Inl e, cm1)
           | (Inr h, cm1) \<Rightarrow>
               (case insert_commit ev io collection h i v meta cm1 of
                  (Some e, cm2) \<Rightarrow> Some (Inl e, cm2)
                | (None, cm2) \<Rightarrow> Some (Inr (collection, i, meta), refreshRecordCount collection h cm2))))"

definition CM_Insert ::
  "cm_env \<Rightarrow> cm_io \<Rightarrow> CollectionManager \<Rightarrow> string \<Rightarrow> string \<Rightarrow> vec \<Rightarrow> metadata \<Rightarrow> (cm_error option \<times> CollectionManager) option" where
  "CM_Insert ev io cm collection i v meta =
     (case InsertDeferredHook ev io cm collection i v meta of
        None \<Rightarrow> None
      | Some (Inl e, cm') \<Rightarrow> Some (Some e, cm')
      | Some (Inr (c, j, m), cm') \<Rightarrow> Some (None, afterInsert c j m cm'))"

subsection \<open>Batches\<close>

type_synonym cm_batch_error = "nat \<times> string \<times> cm_error"

text \<open>The records that pass the checks, stamped and with their positions, and the errors of the others.\<close>

fun batch_screen_items ::
  "cm_env \<Rightarrow> CollectionMeta option \<Rightarrow> nat \<Rightarrow> metadata BatchItem list \<Rightarrow> ((nat \<times> metadata BatchItem) list \<times> cm_batch_error list) option" where
  "batch_screen_items ev m i [] = Some ([], [])"
| "batch_screen_items ev m i (r # records) =
     (if wrong_dim m (bVector r) then
        (case batch_screen_items ev m (i + 1) records of None \<Rightarrow> None | Some (ps, errs) \<Rightarrow> Some (ps, (i, bID r, CmDim) # errs))
      else case validateEmbeddingContract ev m (bData r) of
        Some e \<Rightarrow> (case batch_screen_items ev m (i + 1) records of None \<Rightarrow> None | Some (ps, errs) \<Rightarrow> Some (ps, (i, bID r, e) # errs))
      | None \<Rightarrow>
          (case stampEmbeddingMetadata ev m (bData r) of
             None \<Rightarrow> None
           | Some meta \<Rightarrow>
               (case batch_screen_items ev m (i + 1) records of
                  None \<Rightarrow> None | Some (ps, errs) \<Rightarrow> Some ((i, r\<lparr>bData := meta\<rparr>) # ps, errs))))"

definition batch_screen ::
  "cm_env \<Rightarrow> CollectionManager \<Rightarrow> string \<Rightarrow> metadata BatchItem list \<Rightarrow> ((nat \<times> metadata BatchItem) list \<times> cm_batch_error list) option" where
  "batch_screen ev cm collection records =
     (let m = (case mgMetas cm collection of
                 Some m \<Rightarrow> Some m
               | None \<Rightarrow> if 0 < length records then defaultMetaForVectorLocked ev cm collection (length (bVector (records ! 0))) else None)
      in batch_screen_items ev m 0 records)"

definition batchErrorsForAll :: "metadata BatchItem list \<Rightarrow> cm_error \<Rightarrow> cm_batch_error list" where
  "batchErrorsForAll records e = map (\<lambda>(i, r). (i, bID r, e)) (enumerate 0 records)"

text \<open>An error of the engine names a position among the records that were passed on.\<close>

definition original_error :: "metadata BatchItem list \<Rightarrow> nat list \<Rightarrow> nat \<times> string \<times> lv_error \<Rightarrow> cm_batch_error" where
  "original_error records originalIndexes x =
     (case x of (k, i, e) \<Rightarrow>
        if k < length originalIndexes then (originalIndexes ! k, bID (records ! (originalIndexes ! k)), CmStore e) else (k, i, CmStore e))"

definition hook_unfailed :: "string \<Rightarrow> cm_batch_error list \<Rightarrow> metadata BatchItem list \<Rightarrow> CollectionManager \<Rightarrow> CollectionManager" where
  "hook_unfailed collection errs records cm =
     foldl (\<lambda>cm (i, r). if i \<in> fst ` set errs then cm else afterInsert collection (bID r) (bData r) cm) cm (enumerate 0 records)"

text \<open>The rest of \<open>BatchInsert\<close>, after the lock of the checks has been released.\<close>

definition batch_write ::
  "cm_env \<Rightarrow> cm_io \<Rightarrow> CollectionManager \<Rightarrow> string \<Rightarrow> metadata BatchItem list \<Rightarrow> (nat \<times> metadata BatchItem) list \<Rightarrow> cm_batch_error list \<Rightarrow>
   cm_batch_error list \<times> CollectionManager" where
  "batch_write ev io cm collection records prepared errs0 =
     (if length prepared = 0 then (errs0, cm)
      else case getOrCreate ev io cm collection of
        (Inl e, cm1) \<Rightarrow> (batchErrorsForAll records e, cm1)
      | (Inr h, cm1) \<Rightarrow>
          (case BatchInsert (evJson ev) (ioDisk io) (ioWal io) (ioFlush io) (mgDbs cm1 ! h) (map snd prepared) of
             (es, db') \<Rightarrow>
               let errs = sort_key fst (errs0 @ map (original_error records (map fst prepared)) es)
               in (errs, hook_unfailed collection errs records (refreshRecordCount collection h (store_db h db' cm1)))))"

definition CM_BatchInsert ::
  "cm_env \<Rightarrow> cm_io \<Rightarrow> CollectionManager \<Rightarrow> string \<Rightarrow> metadata BatchItem list \<Rightarrow> (cm_batch_error list \<times> CollectionManager) option" where
  "CM_BatchInsert ev io cm collection records =
     (case batch_screen ev cm collection records of
        None \<Rightarrow> None
      | Some (prepared, errs) \<Rightarrow> Some (batch_write ev io cm collection records prepared errs))"

subsection \<open>Deletion\<close>

definition CM_Delete :: "cm_io \<Rightarrow> CollectionManager \<Rightarrow> string \<Rightarrow> string \<Rightarrow> cm_error option \<times> CollectionManager" where
  "CM_Delete io cm collection i =
     (case CM_Get cm collection of
        Inl e \<Rightarrow> (Some e, cm)
      | Inr h \<Rightarrow>
          (case Delete (ioWal io 0) (ioFlush io) (mgDbs cm ! h) i of
             (Some e, db') \<Rightarrow> (Some (CmStore e), store_db h db' cm)
           | (None, db') \<Rightarrow> (None, refreshRecordCount collection h (store_db h db' cm))))"

definition CM_BatchDelete :: "cm_io \<Rightarrow> CollectionManager \<Rightarrow> string \<Rightarrow> string list \<Rightarrow> cm_batch_error list \<times> CollectionManager" where
  "CM_BatchDelete io cm collection ids =
     (case CM_Get cm collection of
        Inl e \<Rightarrow> (map (\<lambda>(k, i). (k, i, e)) (enumerate 0 ids), cm)
      | Inr h \<Rightarrow>
          (case BatchDelete (ioWal io) (ioFlush io) (mgDbs cm ! h) ids of
             (errs, db') \<Rightarrow> (map (\<lambda>(k, i, e). (k, i, CmStore e)) errs, refreshRecordCount collection h (store_db h db' cm))))"

section \<open>Descriptions\<close>

fun list_meta :: "string list \<Rightarrow> CollectionManager \<Rightarrow> CollectionMeta list \<times> CollectionManager" where
  "list_meta [] cm = ([], cm)"
| "list_meta (name # names) cm =
     (case mgMetas cm name of
        None \<Rightarrow> list_meta names cm
      | Some m \<Rightarrow>
          let m' = (case mgCollections cm (mtName m) of None \<Rightarrow> m | Some h \<Rightarrow> m\<lparr>mtCount := Count (mgDbs cm ! h)\<rparr>) in
          case list_meta names (cm\<lparr>mgMetas := (mgMetas cm)(name \<mapsto> m')\<rparr>) of (ms, cm') \<Rightarrow> (m' # ms, cm'))"

definition ListWithMeta :: "string list \<Rightarrow> CollectionManager \<Rightarrow> CollectionMeta list \<times> CollectionManager" where
  "ListWithMeta order cm = (case list_meta order cm of (ms, cm') \<Rightarrow> (sortSlice (\<lambda>a b. mtName a < mtName b) ms, cm'))"

text \<open>The last steps of the operations that change a description in place.\<close>

definition publish_meta :: "cm_io \<Rightarrow> string \<Rightarrow> CollectionMeta \<Rightarrow> CollectionManager \<Rightarrow> cm_error option \<times> CollectionManager" where
  "publish_meta io name meta cm =
     (case safeCollectionDir (ioCwd io) (mgBase cm) name of
        Inl e \<Rightarrow> (Some (CmName e), cm\<lparr>mgMetas := (mgMetas cm)(name \<mapsto> meta)\<rparr>)
      | Inr _ \<Rightarrow> saveCollectionMeta io name meta cm)"

definition SetDomain :: "cm_io \<Rightarrow> CollectionManager \<Rightarrow> string \<Rightarrow> string \<Rightarrow> CollectionManager" where
  "SetDomain io cm name domain =
     (case mgMetas cm name of None \<Rightarrow> cm | Some m \<Rightarrow> snd (publish_meta io name (m\<lparr>mtDomain := domain\<rparr>) cm))"

definition UpdateMeta ::
  "cm_env \<Rightarrow> cm_io \<Rightarrow> CollectionManager \<Rightarrow> string \<Rightarrow> string \<Rightarrow> string \<Rightarrow> string \<Rightarrow> cm_error option \<times> CollectionManager" where
  "UpdateMeta ev io cm name model metric vers =
     (case mgMetas cm name of
        None \<Rightarrow> (Some CmNotFound, cm)
      | Some meta \<Rightarrow>
          let m1 = (if model \<noteq> [] then meta\<lparr>mtModel := model\<rparr> else meta);
              m2 = (if metric \<noteq> [] then m1\<lparr>mtMetric := metric\<rparr> else m1);
              m3 = (if vers \<noteq> [] then m2\<lparr>mtVersion := vers\<rparr> else m2)
          in publish_meta io name (ensureCollectionContract ev m3) cm)"

definition UpdateEmbeddingContract ::
  "cm_env \<Rightarrow> cm_io \<Rightarrow> CollectionManager \<Rightarrow> string \<Rightarrow> Contract \<Rightarrow> cm_error option \<times> CollectionManager" where
  "UpdateEmbeddingContract ev io cm name contract0 =
     (case mgMetas cm name of
        None \<Rightarrow> (Some CmNotFound, cm)
      | Some meta \<Rightarrow>
          let contract = Normalized (evLower ev) contract0 in
          publish_meta io name
            (meta\<lparr>mtModel := coEncoder contract, mtDim := coDim contract, mtMetric := coMetric contract,
                  mtVersion := fingerprint ev contract, mtContract := Some contract\<rparr>) cm)"

text \<open>\<open>retention\<close> is the formatted time, or nothing for the zero time.\<close>

definition MarkArchive ::
  "cm_io \<Rightarrow> CollectionManager \<Rightarrow> string \<Rightarrow> string \<Rightarrow> string \<Rightarrow> string option \<Rightarrow> cm_error option \<times> CollectionManager" where
  "MarkArchive io cm name archivedFrom reason retention =
     (case mgMetas cm name of
        None \<Rightarrow> (Some CmNotFound, cm)
      | Some meta \<Rightarrow>
          let m1 = meta\<lparr>mtArchivedFrom := archivedFrom, mtArchiveReason := reason\<rparr>;
              m2 = (case retention of None \<Rightarrow> m1 | Some t \<Rightarrow> m1\<lparr>mtRetention := t\<rparr>)
          in publish_meta io name m2 cm)"

section \<open>All collections\<close>

fun close_each :: "(string \<Rightarrow> flush_io) \<Rightarrow> string list \<Rightarrow> CollectionManager \<Rightarrow> (string \<times> lv_error) list \<times> CollectionManager" where
  "close_each fio [] cm = ([], cm)"
| "close_each fio (name # names) cm =
     (case mgCollections cm name of
        None \<Rightarrow> close_each fio names cm
      | Some h \<Rightarrow>
          (case Close (fio name) (mgDbs cm ! h) of
             (r, db') \<Rightarrow>
               (case close_each fio names (store_db h db' cm) of
                  (errs, cm') \<Rightarrow> (case r of None \<Rightarrow> errs | Some e \<Rightarrow> (name, e) # errs, cm'))))"

text \<open>The first error is reported.\<close>

definition CM_Close :: "(string \<Rightarrow> flush_io) \<Rightarrow> string list \<Rightarrow> CollectionManager \<Rightarrow> (string \<times> lv_error) option \<times> CollectionManager" where
  "CM_Close fio order cm = (case close_each fio order cm of (errs, cm') \<Rightarrow> (case errs of [] \<Rightarrow> None | e # _ \<Rightarrow> Some e, cm'))"

fun checkpoint_grown ::
  "(string \<Rightarrow> string list) \<Rightarrow> (string \<Rightarrow> publish_io) \<Rightarrow> (string \<Rightarrow> int option) \<Rightarrow> int \<Rightarrow> string list \<Rightarrow> CollectionManager \<Rightarrow>
   nat \<times> (string \<times> lv_error) list \<times> CollectionManager" where
  "checkpoint_grown ids pio stat threshold [] cm = (0, [], cm)"
| "checkpoint_grown ids pio stat threshold (name # names) cm =
     (case mgCollections cm name of
        None \<Rightarrow> checkpoint_grown ids pio stat threshold names cm
      | Some h \<Rightarrow>
          (case checkpointIfWALGrewBy (ids name) (pio name) (stat name) threshold (mgDbs cm ! h) of
             (r, db') \<Rightarrow>
               (case checkpoint_grown ids pio stat threshold names (store_db h db' cm) of
                  (n, errs, cm') \<Rightarrow>
                    (case r of Inl e \<Rightarrow> (n, (name, e) # errs, cm') | Inr grew \<Rightarrow> (if grew then n + 1 else n, errs, cm')))))"

definition CheckpointIfWALExceeds ::
  "(string \<Rightarrow> string list) \<Rightarrow> (string \<Rightarrow> publish_io) \<Rightarrow> (string \<Rightarrow> int option) \<Rightarrow> int \<Rightarrow> string list \<Rightarrow> CollectionManager \<Rightarrow>
   nat \<times> (string \<times> lv_error) list \<times> CollectionManager" where
  "CheckpointIfWALExceeds ids pio stat threshold order cm = checkpoint_grown ids pio stat threshold order cm"

fun checkpoint_each ::
  "(string \<Rightarrow> string list) \<Rightarrow> (string \<Rightarrow> publish_io) \<Rightarrow> string list \<Rightarrow> CollectionManager \<Rightarrow> (string \<times> lv_error) list \<times> CollectionManager" where
  "checkpoint_each ids pio [] cm = ([], cm)"
| "checkpoint_each ids pio (name # names) cm =
     (case mgCollections cm name of
        None \<Rightarrow> checkpoint_each ids pio names cm
      | Some h \<Rightarrow>
          (case Checkpoint (ids name) (pio name) (mgDbs cm ! h) of
             (r, db') \<Rightarrow>
               (case checkpoint_each ids pio names (store_db h db' cm) of
                  (errs, cm') \<Rightarrow> (case r of None \<Rightarrow> errs | Some e \<Rightarrow> (name, e) # errs, cm'))))"

definition CM_Checkpoint ::
  "(string \<Rightarrow> string list) \<Rightarrow> (string \<Rightarrow> publish_io) \<Rightarrow> string list \<Rightarrow> CollectionManager \<Rightarrow> (string \<times> lv_error) list \<times> CollectionManager" where
  "CM_Checkpoint ids pio order cm = checkpoint_each ids pio order cm"

section \<open>Startup\<close>

text \<open>One directory of the collections root; a collection that does not open is left out.\<close>

definition load_collection :: "cm_env \<Rightarrow> cm_io \<Rightarrow> CollectionManager \<Rightarrow> string \<Rightarrow> CollectionManager" where
  "load_collection ev io cm name =
     (case mgDirs cm name of
        None \<Rightarrow> cm
      | Some dir \<Rightarrow>
          let colDim = (case cdMeta dir of Some m \<Rightarrow> if 0 < mtDim m then nat (mtDim m) else mgDim cm | None \<Rightarrow> mgDim cm) in
          case reopen ev io (ioReplay io) cm colDim dir of
            Inl _ \<Rightarrow> cm
          | Inr db \<Rightarrow>
              let cm1 = cm\<lparr>mgDbs := mgDbs cm @ [db], mgCollections := (mgCollections cm)(name \<mapsto> length (mgDbs cm))\<rparr> in
              case cdMeta dir of
                None \<Rightarrow>
                  snd (saveCollectionMeta io name
                    \<lparr>mtName = name, mtModel = [], mtDim = int colDim, mtMetric = ''cosine'', mtVersion = [], mtContract = None,
                     mtDomain = [], mtArchivedFrom = [], mtArchiveReason = [], mtRetention = [], mtCount = Count db,
                     mtCreated = ioNow io, mtUpdated = []\<rparr> cm1)
              | Some m \<Rightarrow>
                  cm1\<lparr>mgMetas := (mgMetas cm1)(name \<mapsto> (ensureCollectionContract ev m)\<lparr>mtCount := Count db\<rparr>)\<rparr>)"

text \<open>\<open>entries\<close> are the names of the directories that are listed, or nothing if that fails.\<close>

definition NewCollectionManager ::
  "cm_env \<Rightarrow> cm_io \<Rightarrow> nat \<Rightarrow> string \<Rightarrow> HNSWConfig \<Rightarrow> (string \<rightharpoonup> CollectionDir) \<Rightarrow> string list option \<Rightarrow> cm_error + CollectionManager" where
  "NewCollectionManager ev io dm basePath cfg dirs entries =
     (if \<not> ioMkdir io then Inl CmDir
      else case entries of
        None \<Rightarrow> Inl CmDir
      | Some names \<Rightarrow>
          Inr (foldl (load_collection ev io)
            \<lparr>mgDbs = [], mgCollections = Map.empty, mgMetas = Map.empty, mgDim = dm, mgBase = Join basePath ''collections'',
             mgCfg = cfg, mgModel = [], mgContract = \<lparr>coEncoder = [], coTokenizer = [], coPooling = [], coNormalization = [], coDim = 0, coMetric = []\<rparr>,
             mgHook = False, mgHooked = [], mgDirs = dirs\<rparr> names))"

end
