(* ===== verification/Collection_Inv.thy ===== *)
theory Collection_Inv
  imports Collections Shard
begin

text \<open>
  The manager as a map from names to contents: every write changes the collection it names, in the way the engine's
  refinement says, and no other; and what the embedding contract guarantees about the metadata that is stored.
\<close>

section \<open>The manager as a map of maps\<close>

definition cm_inv :: "CollectionManager \<Rightarrow> bool" where
  "cm_inv cm \<longleftrightarrow>
     (\<forall>name h. mgCollections cm name = Some h \<longrightarrow> h < length (mgDbs cm) \<and> lv_ok (mgDbs cm ! h)) \<and>
     (\<forall>name name' h. mgCollections cm name = Some h \<longrightarrow> mgCollections cm name' = Some h \<longrightarrow> name = name')"

definition cm_abs :: "CollectionManager \<Rightarrow> string \<rightharpoonup> (string \<rightharpoonup> (vec \<times> bytes))" where
  "cm_abs cm name = (case mgCollections cm name of None \<Rightarrow> None | Some h \<Rightarrow> Some (lv_abs (mgDbs cm ! h)))"

definition took :: "cm_error option \<Rightarrow> bool" where
  "took r \<longleftrightarrow> (case r of None \<Rightarrow> True | Some (CmStore e) \<Rightarrow> applied (Some e) | Some _ \<Rightarrow> False)"

text \<open>Room in an engine for \<open>n\<close> more records, with a file system that writes whole records.\<close>

definition cm_ready :: "cm_io \<Rightarrow> nat \<Rightarrow> Levara \<Rightarrow> bool" where
  "cm_ready io n db \<longleftrightarrow> (\<forall>k. whole_write (ioDisk io k)) \<and> arTotalVectors (dbArena db) + n < 2 ^ 32 \<and> dsPos (dbDisk db) + n * mib < 2 ^ 63"

lemma cm_inv_db: "cm_inv cm \<Longrightarrow> mgCollections cm name = Some h \<Longrightarrow> h < length (mgDbs cm) \<and> lv_ok (mgDbs cm ! h)"
  by (simp add: cm_inv_def)

lemma store_db_inv:
  assumes "cm_inv cm" "mgCollections cm name = Some h" "lv_ok db'"
  shows "cm_inv (store_db h db' cm)" "cm_abs (store_db h db' cm) = (cm_abs cm)(name \<mapsto> lv_abs db')"
proof -
  have h: "h < length (mgDbs cm)" using assms(1,2) by (simp add: cm_inv_def)
  show "cm_inv (store_db h db' cm)"
    using assms h by (auto simp: cm_inv_def store_db_def nth_list_update)
  show "cm_abs (store_db h db' cm) = (cm_abs cm)(name \<mapsto> lv_abs db')"
  proof
    fix x show "cm_abs (store_db h db' cm) x = ((cm_abs cm)(name \<mapsto> lv_abs db')) x"
    proof (cases "mgCollections cm x")
      case (Some k)
      then have "k = h \<longleftrightarrow> x = name" using assms(1,2) by (auto simp: cm_inv_def)
      then show ?thesis using Some h by (auto simp: cm_abs_def store_db_def nth_list_update)
    qed (use assms(2) in \<open>auto simp: cm_abs_def store_db_def\<close>)
  qed
qed

lemma cm_frame [simp]:
  "mgCollections (store_db h db cm) = mgCollections cm" "mgMetas (store_db h db cm) = mgMetas cm"
  "mgCollections (refreshRecordCount c h cm) = mgCollections cm" "mgDbs (refreshRecordCount c h cm) = mgDbs cm"
  "mgCollections (afterInsert c i m cm) = mgCollections cm" "mgDbs (afterInsert c i m cm) = mgDbs cm" "mgMetas (afterInsert c i m cm) = mgMetas cm"
  by (simp_all add: store_db_def refreshRecordCount_def afterInsert_def split: option.split)

lemma cm_same:
  "mgCollections cm' = mgCollections cm \<Longrightarrow> mgDbs cm' = mgDbs cm \<Longrightarrow> cm_inv cm' = cm_inv cm \<and> cm_abs cm' = cm_abs cm"
proof (intro impI conjI)
  assume same: "mgCollections cm' = mgCollections cm" "mgDbs cm' = mgDbs cm"
  show "cm_inv cm' = cm_inv cm" by (simp add: cm_inv_def same)
  show "cm_abs cm' = cm_abs cm"
  proof
    fix x show "cm_abs cm' x = cm_abs cm x" by (cases "mgCollections cm x") (simp_all add: cm_abs_def same)
  qed
qed

lemma refresh_count:
  assumes "mgCollections cm c = Some h" "mgMetas cm c = Some m"
  shows "\<exists>m'. mgMetas (refreshRecordCount c h cm) c = Some m' \<and> mtCount m' = card (dom (lv_abs (mgDbs cm ! h)))"
proof -
  have "dom (dbIndex db) = dom (lv_abs db)" for db by (auto simp: lv_abs_def split: option.splits)
  then show ?thesis using assms by (simp add: refreshRecordCount_def Count_def)
qed

lemma refresh_other: "c' \<noteq> c \<Longrightarrow> mgMetas (refreshRecordCount c h cm) c' = mgMetas cm c'"
  by (simp add: refreshRecordCount_def split: option.split)

section \<open>One record\<close>

lemma insert_commit_refines:
  assumes inv: "cm_inv cm" and rdy: "\<And>h. mgCollections cm c = Some h \<Longrightarrow> cm_ready io 1 (mgDbs cm ! h)"
    and run: "insert_commit ev io c h i v meta cm = (r, cm')"
  shows "cm_inv cm'" "mgCollections cm' = mgCollections cm" "mgMetas cm' = mgMetas cm"
    "if took r then \<exists>m b. cm_abs cm c = Some m \<and> insert_bytes (json_data ev) (data_of meta) = Some b \<and>
        cm_abs cm' = (cm_abs cm)(c \<mapsto> m(i \<mapsto> (arena_normalize v, b))) \<and> mgCollections cm c = Some h \<and>
        (version_of ev meta = [] \<or> (\<exists>d. mgMetas cm c = Some d \<and> mtVersion d = version_of ev meta))
      else cm_abs cm' = cm_abs cm"
proof -
  have "cm_inv cm' \<and> mgCollections cm' = mgCollections cm \<and> mgMetas cm' = mgMetas cm \<and>
    (if took r then \<exists>m b. cm_abs cm c = Some m \<and> insert_bytes (json_data ev) (data_of meta) = Some b \<and>
        cm_abs cm' = (cm_abs cm)(c \<mapsto> m(i \<mapsto> (arena_normalize v, b))) \<and> mgCollections cm c = Some h \<and>
        (version_of ev meta = [] \<or> (\<exists>d. mgMetas cm c = Some d \<and> mtVersion d = version_of ev meta))
      else cm_abs cm' = cm_abs cm)"
  proof (cases "mgCollections cm c = Some h \<and>
      \<not> (version_of ev meta \<noteq> [] \<and> (case mgMetas cm c of None \<Rightarrow> True | Some m \<Rightarrow> mtVersion m = [])) \<and>
      validateEmbeddingContract ev (mgMetas cm c) meta = None")
    case False
    then have "cm' = cm" "\<not> took r"
      using run by (auto simp: insert_commit_def took_def Let_def validateEmbeddingContract_def split: if_splits option.splits)
    then show ?thesis using inv by simp
  next
    case True
    then have c: "mgCollections cm c = Some h" by simp
    obtain x db' where ins: "Insert (json_data ev) (ioDisk io 0) (ioWal io 0) (ioFlush io) (mgDbs cm ! h) i v (data_of meta) = (x, db')" by fastforce
    have r: "r = map_option CmStore x" "cm' = store_db h db' cm"
      using run True ins by (auto simp: insert_commit_def Let_def split: option.splits)
    obtain pub recs where lv: "lv_inv pub recs (mgDbs cm ! h)" using cm_inv_db [OF inv c] by (auto simp: lv_ok_def)
    have sp: "lv_space (mgDbs cm ! h)" "whole_write (ioDisk io 0)" using rdy [OF c] by (simp_all add: cm_ready_def lv_space_def)
    note R = Insert_refines [OF lv sp ins]
    have ok: "lv_ok db'" using R(1) by (auto simp: lv_ok_def)
    note st = store_db_inv [OF inv c ok]
    have t: "took r = applied x" using r(1) by (cases x) (simp_all add: took_def)
    have ver: "version_of ev meta = [] \<or> (\<exists>d. mgMetas cm c = Some d \<and> mtVersion d = version_of ev meta)"
      using True by (auto simp: validateEmbeddingContract_def Let_def split: option.splits if_splits)
    have abs: "cm_abs cm c = Some (lv_abs (mgDbs cm ! h))" using c by (simp add: cm_abs_def)
    show ?thesis
    proof (cases "applied x")
      case True
      then show ?thesis using R(2) r(2) st t ver c abs by auto
    next
      case False
      then have "cm_abs cm' = cm_abs cm" using R(3) r(2) st(2) abs by (simp add: fun_upd_idem)
      then show ?thesis using False t r(2) st(1) by simp
    qed
  qed
  then show "cm_inv cm'" "mgCollections cm' = mgCollections cm" "mgMetas cm' = mgMetas cm"
    "if took r then \<exists>m b. cm_abs cm c = Some m \<and> insert_bytes (json_data ev) (data_of meta) = Some b \<and>
        cm_abs cm' = (cm_abs cm)(c \<mapsto> m(i \<mapsto> (arena_normalize v, b))) \<and> mgCollections cm c = Some h \<and>
        (version_of ev meta = [] \<or> (\<exists>d. mgMetas cm c = Some d \<and> mtVersion d = version_of ev meta))
      else cm_abs cm' = cm_abs cm"
    by blast+
qed

text \<open>An insert into a collection that exists.\<close>

lemma CM_Insert_refines:
  assumes inv: "cm_inv cm" and c: "mgCollections cm c = Some h" and rdy: "cm_ready io 1 (mgDbs cm ! h)"
    and run: "CM_Insert ev io cm c i v meta0 = Some (r, cm')"
  shows "cm_inv cm'" "mgCollections cm' = mgCollections cm" "\<forall>c'. c' \<noteq> c \<longrightarrow> mgMetas cm' c' = mgMetas cm c'"
    "if took r then \<exists>meta b. insert_screen ev cm c v meta0 = Some (Inr meta) \<and> insert_bytes (json_data ev) (data_of meta) = Some b \<and>
        cm_abs cm' = (cm_abs cm)(c \<mapsto> (lv_abs (mgDbs cm ! h))(i \<mapsto> (arena_normalize v, b))) \<and>
        (version_of ev meta = [] \<or> (\<exists>d. mgMetas cm c = Some d \<and> mtVersion d = version_of ev meta))
      else cm_abs cm' = cm_abs cm"
    "r = None \<Longrightarrow> mgMetas cm c = Some d \<Longrightarrow> \<exists>d'. mgMetas cm' c = Some d' \<and> mtCount d' = card (dom (the (cm_abs cm' c)))"
proof -
  from run consider (early) e where "insert_screen ev cm c v meta0 = Some (Inl e)" "cm' = cm" "r = Some e"
    | (commit) meta x cm1 where "insert_screen ev cm c v meta0 = Some (Inr meta)" "insert_commit ev io c h i v meta cm = (x, cm1)" "r = x"
      "cm' = (case x of None \<Rightarrow> afterInsert c i meta (refreshRecordCount c h cm1) | Some _ \<Rightarrow> cm1)"
    using c by (auto simp: CM_Insert_def InsertDeferredHook_def getOrCreate_def split: option.splits sum.splits prod.splits)
  then have "cm_inv cm' \<and> mgCollections cm' = mgCollections cm \<and> (\<forall>c'. c' \<noteq> c \<longrightarrow> mgMetas cm' c' = mgMetas cm c') \<and>
    (if took r then \<exists>meta b. insert_screen ev cm c v meta0 = Some (Inr meta) \<and> insert_bytes (json_data ev) (data_of meta) = Some b \<and>
        cm_abs cm' = (cm_abs cm)(c \<mapsto> (lv_abs (mgDbs cm ! h))(i \<mapsto> (arena_normalize v, b))) \<and>
        (version_of ev meta = [] \<or> (\<exists>d. mgMetas cm c = Some d \<and> mtVersion d = version_of ev meta))
      else cm_abs cm' = cm_abs cm) \<and>
    (r = None \<longrightarrow> (\<forall>d. mgMetas cm c = Some d \<longrightarrow> (\<exists>d'. mgMetas cm' c = Some d' \<and> mtCount d' = card (dom (the (cm_abs cm' c))))))"
  proof cases
    case early
    have "\<not> took (Some e)"
      using early(1) by (auto simp: insert_screen_def validateEmbeddingContract_def took_def Let_def split: if_splits option.splits)
    then show ?thesis using early inv by simp
  next
    case commit
    have rdy': "\<And>h'. mgCollections cm c = Some h' \<Longrightarrow> cm_ready io 1 (mgDbs cm ! h')" using c rdy by simp
    note I = insert_commit_refines [OF inv rdy' commit(2)]
    have same: "mgCollections cm' = mgCollections cm1" "mgDbs cm' = mgDbs cm1" using commit(4) by (cases x; simp)+
    have ab: "cm_abs cm c = Some (lv_abs (mgDbs cm ! h))" using c by (simp add: cm_abs_def)
    have metas: "\<forall>c'. c' \<noteq> c \<longrightarrow> mgMetas cm' c' = mgMetas cm c'"
      using commit(4) I(3) by (cases x) (simp_all add: refresh_other)
    have cnt: "\<exists>d'. mgMetas cm' c = Some d' \<and> mtCount d' = card (dom (the (cm_abs cm' c)))" if "r = None" "mgMetas cm c = Some d" for d
      using refresh_count [of cm1 c h d] that commit(3,4) I(2,3) c by (auto simp: cm_abs_def)
    show ?thesis using I cm_same [OF same] same metas cnt commit(1,3) ab by auto
  qed
  then show "cm_inv cm'" "mgCollections cm' = mgCollections cm" "\<forall>c'. c' \<noteq> c \<longrightarrow> mgMetas cm' c' = mgMetas cm c'"
    "if took r then \<exists>meta b. insert_screen ev cm c v meta0 = Some (Inr meta) \<and> insert_bytes (json_data ev) (data_of meta) = Some b \<and>
        cm_abs cm' = (cm_abs cm)(c \<mapsto> (lv_abs (mgDbs cm ! h))(i \<mapsto> (arena_normalize v, b))) \<and>
        (version_of ev meta = [] \<or> (\<exists>d. mgMetas cm c = Some d \<and> mtVersion d = version_of ev meta))
      else cm_abs cm' = cm_abs cm"
    "r = None \<Longrightarrow> mgMetas cm c = Some d \<Longrightarrow> \<exists>d'. mgMetas cm' c = Some d' \<and> mtCount d' = card (dom (the (cm_abs cm' c)))"
    by blast+
qed

lemma CM_Delete_refines:
  assumes inv: "cm_inv cm" and run: "CM_Delete io cm c i = (r, cm')"
  shows "cm_inv cm' \<and> mgCollections cm' = mgCollections cm \<and>
    cm_abs cm' = (if took r then (cm_abs cm)(c := map_option (\<lambda>m. m(i := None)) (cm_abs cm c)) else cm_abs cm) \<and>
    (r = None \<longrightarrow> (\<forall>d. mgMetas cm c = Some d \<longrightarrow> (\<exists>d'. mgMetas cm' c = Some d' \<and> mtCount d' = card (dom (the (cm_abs cm' c))))))"
proof (cases "mgCollections cm c")
  case None
  then have "r = Some CmNotFound" "cm' = cm" using run by (simp_all add: CM_Delete_def CM_Get_def)
  then show ?thesis using inv by (simp add: took_def)
next
  case (Some h)
  obtain x db' where del: "Delete (ioWal io 0) (ioFlush io) (mgDbs cm ! h) i = (x, db')" by fastforce
  have r: "r = map_option CmStore x" "cm' = (case x of None \<Rightarrow> refreshRecordCount c h (store_db h db' cm) | Some _ \<Rightarrow> store_db h db' cm)"
    using run Some del by (auto simp: CM_Delete_def CM_Get_def split: option.splits)
  obtain pub recs where lv: "lv_inv pub recs (mgDbs cm ! h)" using cm_inv_db [OF inv Some] by (auto simp: lv_ok_def)
  note R = Delete_refines [OF lv del]
  have ok: "lv_ok db'" using R(1) by (auto simp: lv_ok_def)
  note st = store_db_inv [OF inv Some ok]
  have same: "mgCollections cm' = mgCollections (store_db h db' cm)" "mgDbs cm' = mgDbs (store_db h db' cm)" using r(2) by (cases x; simp)+
  have ab: "cm_abs cm c = Some (lv_abs (mgDbs cm ! h))" using Some by (simp add: cm_abs_def)
  have t: "took r = applied x" using r(1) by (cases x) (simp_all add: took_def)
  have a': "cm_abs cm' = (cm_abs cm)(c \<mapsto> lv_abs db')" using cm_same [OF same] st(2) by simp
  have eq: "cm_abs cm' = (if took r then (cm_abs cm)(c := map_option (\<lambda>m. m(i := None)) (cm_abs cm c)) else cm_abs cm)"
    using a' R(2) t ab by (simp add: fun_upd_idem)
  have cnt: "\<exists>d'. mgMetas cm' c = Some d' \<and> mtCount d' = card (dom (the (cm_abs cm' c)))" if "r = None" "mgMetas cm c = Some d" for d
  proof -
    have "x = None" using that r(1) by simp
    then have "cm' = refreshRecordCount c h (store_db h db' cm)" using r(2) by simp
    moreover have "mgDbs (store_db h db' cm) ! h = db'" using cm_inv_db [OF inv Some] by (simp add: store_db_def)
    ultimately show ?thesis using refresh_count [of "store_db h db' cm" c h d] that(2) Some a' by auto
  qed
  show ?thesis using eq cnt cm_same [OF same] st(1) same by simp
qed

section \<open>The contract of what is stored\<close>

text \<open>
  What \<open>json.Marshal\<close> does with metadata. Bytes and strings become a JSON string, which has no version, and so has the text of
  nil; a \<open>RawMessage\<close> keeps its version, and so does a map of strings when it is valid UTF-8. A map of any values keeps it too
  when the decoder reads its other values back; otherwise the text may have no version. Nothing is said of values of other types.
\<close>

definition json_keeps :: "cm_env \<Rightarrow> bool" where
  "json_keeps ev \<longleftrightarrow> (\<forall>meta b. evJson ev meta = Some b \<longrightarrow>
     (case meta of
        MOther _ \<Rightarrow> True
      | MRaw _ \<Rightarrow> version_of ev (MRaw b) = version_of ev meta
      | MStrings _ \<Rightarrow> utf8_ok (version_of ev meta) \<longrightarrow> version_of ev (MRaw b) = version_of ev meta
      | MMap m \<Rightarrow> plain_version (nil_map m) \<longrightarrow> utf8_ok (version_of ev meta) \<longrightarrow>
          version_of ev (MRaw b) \<in> {[], version_of ev meta} \<and>
          (reads_back (evParse ev) (nil_map m) \<longrightarrow> version_of ev (MRaw b) = version_of ev meta)
      | _ \<Rightarrow> version_of ev (MRaw b) = []))"

text \<open>Metadata whose version the code does not read, whatever the text of it says.\<close>

fun unread :: "metadata \<Rightarrow> bool" where
  "unread (MOther _) \<longleftrightarrow> True"
| "unread (MMap m) \<longleftrightarrow> \<not> plain_version (nil_map m)"
| "unread _ \<longleftrightarrow> False"

lemma json_keepsD:
  assumes "json_keeps ev"
  shows "evJson ev MNil = Some b \<Longrightarrow> version_of ev (MRaw b) = []"
    "evJson ev (MBytes x) = Some b \<Longrightarrow> version_of ev (MRaw b) = []"
    "evJson ev (MString t) = Some b \<Longrightarrow> version_of ev (MRaw b) = []"
    "evJson ev (MRaw x) = Some b \<Longrightarrow> version_of ev (MRaw b) = version_of ev (MRaw x)"
    "evJson ev (MStrings f) = Some b \<Longrightarrow> utf8_ok (version_of ev (MStrings f)) \<Longrightarrow> version_of ev (MRaw b) = version_of ev (MStrings f)"
    "evJson ev (MMap m) = Some b \<Longrightarrow> plain_version (nil_map m) \<Longrightarrow> utf8_ok (version_of ev (MMap m)) \<Longrightarrow>
       version_of ev (MRaw b) \<in> {[], version_of ev (MMap m)}"
    "evJson ev (MMap m) = Some b \<Longrightarrow> plain_version (nil_map m) \<Longrightarrow> utf8_ok (version_of ev (MMap m)) \<Longrightarrow>
       reads_back (evParse ev) (nil_map m) \<Longrightarrow> version_of ev (MRaw b) = version_of ev (MMap m)"
  using assms unfolding json_keeps_def by fastforce+

lemma version_of_bytes [simp]:
  "version_of ev (MBytes b) = version_of ev (MRaw b)" "version_of ev (MString b) = version_of ev (MRaw b)" "version_of ev MNil = []"
  "version_of ev (MOther b) = []"
  by (simp_all add: VersionFromMetadata_def)

text \<open>What \<open>Insert\<close> stores: no version or that of the metadata; exactly that, when it is not a string and reads back.\<close>

lemma stored_bytes:
  "insert_bytes (json_data ev) (data_of meta) = Some b \<Longrightarrow>
   (case meta of MRaw x \<Rightarrow> b = x | MBytes x \<Rightarrow> b = x | MString x \<Rightarrow> b = x \<or> evJson ev meta = Some b | _ \<Rightarrow> evJson ev meta = Some b)"
  by (cases meta) (auto simp: data_of_def insert_bytes_def json_data_def split: if_splits)

lemma stored_version:
  assumes law: "json_keeps ev" and u: "utf8_ok (version_of ev meta)" and b: "insert_bytes (json_data ev) (data_of meta) = Some b"
  shows "\<not> unread meta \<Longrightarrow> version_of ev (MRaw b) \<in> {[], version_of ev meta}"
    "\<not> unread meta \<Longrightarrow> readable (evParse ev) meta \<Longrightarrow> \<forall>s. meta \<noteq> MString s \<Longrightarrow> version_of ev (MRaw b) = version_of ev meta"
    "unread meta \<Longrightarrow> evJson ev meta = Some b"
proof -
  note S = stored_bytes [OF b] and K = json_keepsD [OF law]
  show "\<not> unread meta \<Longrightarrow> version_of ev (MRaw b) \<in> {[], version_of ev meta}"
  proof (cases meta)
    case (MMap m)
    then show "\<not> unread meta \<Longrightarrow> ?thesis" using S u K(6) [where b = b and m = m] by simp
  next
    case (MStrings f)
    then show ?thesis using S u K(5) [where b = b and f = f] by simp
  next
    case (MString x)
    then show ?thesis using S K(3) [where b = b and t = x] by auto
  qed (use S K(1) [where b = b] in simp_all)
  show "\<not> unread meta \<Longrightarrow> readable (evParse ev) meta \<Longrightarrow> \<forall>s. meta \<noteq> MString s \<Longrightarrow> version_of ev (MRaw b) = version_of ev meta"
  proof (cases meta)
    case (MMap m)
    then show "\<not> unread meta \<Longrightarrow> readable (evParse ev) meta \<Longrightarrow> ?thesis" using S u K(7) [where b = b and m = m] by simp
  next
    case (MStrings f)
    then show ?thesis using S u K(5) [where b = b and f = f] by simp
  qed (use S K(1) [where b = b] in simp_all)
  show "unread meta \<Longrightarrow> evJson ev meta = Some b" using S by (cases meta) simp_all
qed

lemma stamp_read:
  "StampMetadata lower sha256 parse render meta c = Some meta' \<Longrightarrow> unread meta' \<Longrightarrow> meta' = meta \<and> unread meta"
  by (cases meta) (auto simp: StampMetadata_def stampJSONBytes_def Let_def nil_map_def plain_version_def split: option.splits)

lemma screen_read: "insert_screen ev cm c v meta0 = Some (Inr meta) \<Longrightarrow> unread meta \<Longrightarrow> meta = meta0 \<and> unread meta0"
  using stamp_read
  by (auto simp: insert_screen_def stampEmbeddingMetadata_def Let_def split: if_splits option.splits)

text \<open>The stamp of a collection that has a version and a contract, on metadata that can carry it.\<close>

lemma screen_stamp:
  assumes law: "json_version_law (evParse ev) (evRender ev)" and d: "mgMetas cm c = Some d" "mtVersion d \<noteq> []" "mtContract d = Some ct"
    and meta0: "stampable (evParse ev) meta0" "readable (evParse ev) meta0" "\<forall>s. meta0 = MString s \<longrightarrow> version_of ev meta0 = []"
    and scr: "insert_screen ev cm c v meta0 = Some (Inr meta)"
  shows "version_of ev meta \<noteq> []" "\<not> unread meta" "readable (evParse ev) meta" "\<forall>s. meta \<noteq> MString s"
proof -
  have st: "stampEmbeddingMetadata ev (Some d) meta0 = Some meta"
    using scr d(1) by (auto simp: insert_screen_def Let_def split: if_splits option.splits)
  have "version_of ev meta \<noteq> [] \<and> \<not> unread meta \<and> readable (evParse ev) meta \<and> (\<forall>s. meta \<noteq> MString s)"
  proof (cases "version_of ev meta0 = []")
    case True
    then have "StampMetadata (evLower ev) (evSha ev) (evParse ev) (evRender ev) meta0 ct = Some meta"
      using st d by (simp add: stampEmbeddingMetadata_def)
    then show ?thesis using stamp_version [OF law meta0(1), of "evLower ev" "evSha ev" ct] meta0(2) by (cases meta) auto
  next
    case False
    then have m: "meta = meta0" using st d by (simp add: stampEmbeddingMetadata_def)
    have "\<not> unread meta0"
    proof (cases meta0)
      case (MMap f)
      then show ?thesis
        using False by (auto simp: VersionFromMetadata_def stringField_def plain_version_def split: option.splits jval.splits)
    qed (use meta0(1) in simp_all)
    then show ?thesis using False m meta0(2,3) by auto
  qed
  then show "version_of ev meta \<noteq> []" "\<not> unread meta" "readable (evParse ev) meta" "\<forall>s. meta \<noteq> MString s" by blast+
qed

lemma CM_Insert_fenced:
  assumes law: "json_keeps ev" "json_version_law (evParse ev) (evRender ev)"
    and inv: "cm_inv cm" and c: "mgCollections cm c = Some h" and rdy: "cm_ready io 1 (mgDbs cm ! h)"
    and desc: "\<forall>d. mgMetas cm c = Some d \<longrightarrow> utf8_ok (mtVersion d)" and run: "CM_Insert ev io cm c i v meta0 = Some (r, cm')" and r: "took r"
  shows "\<exists>m b. cm_abs cm' c = Some m \<and> m i = Some (arena_normalize v, b) \<and>
    (version_of ev (MRaw b) = [] \<or> (\<exists>d. mgMetas cm c = Some d \<and> mtVersion d = version_of ev (MRaw b)) \<or>
     unread meta0 \<and> evJson ev meta0 = Some b) \<and>
    (\<forall>d. mgMetas cm c = Some d \<and> mtVersion d \<noteq> [] \<and> mtContract d \<noteq> None \<and>
       stampable (evParse ev) meta0 \<and> readable (evParse ev) meta0 \<and> (\<forall>s. meta0 = MString s \<longrightarrow> version_of ev meta0 = []) \<longrightarrow>
       version_of ev (MRaw b) = mtVersion d)"
proof -
  obtain meta b where S: "insert_screen ev cm c v meta0 = Some (Inr meta)" "insert_bytes (json_data ev) (data_of meta) = Some b"
    "cm_abs cm' = (cm_abs cm)(c \<mapsto> (lv_abs (mgDbs cm ! h))(i \<mapsto> (arena_normalize v, b)))"
    "version_of ev meta = [] \<or> (\<exists>d. mgMetas cm c = Some d \<and> mtVersion d = version_of ev meta)"
    using CM_Insert_refines(4) [OF inv c rdy run] r by auto
  have u: "utf8_ok (version_of ev meta)" using S(4) desc by auto
  note V = stored_version [OF law(1) u S(2)]
  have one: "version_of ev (MRaw b) = [] \<or> (\<exists>d. mgMetas cm c = Some d \<and> mtVersion d = version_of ev (MRaw b)) \<or>
    unread meta0 \<and> evJson ev meta0 = Some b"
    using V(1,3) S(4) screen_read [OF S(1)] by (cases "unread meta") auto
  have two: "version_of ev (MRaw b) = mtVersion d"
    if t: "mgMetas cm c = Some d" "mtVersion d \<noteq> []" "mtContract d \<noteq> None"
      "stampable (evParse ev) meta0" "readable (evParse ev) meta0" "\<forall>s. meta0 = MString s \<longrightarrow> version_of ev meta0 = []" for d
  proof -
    obtain ct where ct: "mtContract d = Some ct" using t(3) by blast
    note T = screen_stamp [OF law(2) t(1,2) ct t(4-6) S(1)]
    show ?thesis using V(2) [OF T(2-4)] T(1) S(4) t(1) by auto
  qed
  show ?thesis using S(3) one two by (intro exI [of _ "(lv_abs (mgDbs cm ! h))(i \<mapsto> (arena_normalize v, b))"] exI [of _ b]) auto
qed

section \<open>Batches\<close>

lemma batch_disk_range:
  "batch_disk dio disk ps = (ds, errs, disk') \<Longrightarrow> fst ` set ds \<subseteq> fst ` set ps \<and> fst ` set errs \<subseteq> fst ` set ps"
proof (induction ps arbitrary: disk ds errs disk')
  case (Cons p ps)
  obtain k i v b where p: "p = (k, i, v, b)" using prod_cases4 by blast
  obtain w disk1 where w: "DiskStore_Write (dio k) disk b = (w, disk1)" by fastforce
  obtain ds1 errs1 disk2 where rest: "batch_disk dio disk1 ps = (ds1, errs1, disk2)" using prod_cases3 by blast
  have "ds = ds1 \<and> errs = (k, i, LvDisk) # errs1 \<or> (\<exists>loc. ds = (k, i, v, b, loc) # ds1 \<and> errs = errs1)"
    using Cons.prems w rest by (cases w) (auto simp: p)
  then show ?case using Cons.IH [OF rest] p by (elim disjE exE conjE) (simp_all add: subset_insertI2)
qed simp

lemma batch_commit_range:
  "batch_commit wio ds q db = (dn, errs, q', db') \<Longrightarrow> fst ` set dn \<subseteq> fst ` set ds \<and> fst ` set errs \<subseteq> fst ` set ds"
proof (induction ds arbitrary: q db dn errs)
  case (Cons d ds)
  obtain k i v b loc where d: "d = (k, i, v, b, loc)" using prod_cases5 by blast
  have "\<exists>q1 db1 dn1 errs1. batch_commit wio ds q1 db1 = (dn1, errs1, q', db') \<and>
    (dn = dn1 \<and> (\<exists>e. errs = (k, i, e) # errs1) \<or> dn = (k, i) # dn1 \<and> errs = errs1)"
  proof (cases "VectorArena_Add (dbArena db) v")
    case (Inl e)
    obtain dn1 errs1 q1 db1 where "batch_commit wio ds q db = (dn1, errs1, q1, db1)" using prod_cases4 by blast
    then show ?thesis using Cons.prems Inl by (intro exI [of _ q] exI [of _ db] exI [of _ dn1] exI [of _ errs1]) (auto simp: d)
  next
    case (Inr x)
    obtain idx v' a' where x: "x = (idx, v', a')" using prod_cases3 by blast
    obtain w wal' where w: "WAL_WriteEntryNoFlush (wio k) OpInsert i v' b loc (dbWal db) = (w, wal')" by fastforce
    let ?q = "removePendingItemsByID q i @ [\<lparr>piVector = v', piID = i, piIdx = idx\<rparr>]"
    let ?db = "store_maps i idx loc (replaceExistingLocked (db\<lparr>dbArena := a', dbWal := wal'\<rparr>) i)"
    obtain dn1 errs1 q1 db1 where r1: "batch_commit wio ds q (db\<lparr>dbArena := a', dbWal := wal'\<rparr>) = (dn1, errs1, q1, db1)"
      using prod_cases4 by blast
    obtain dn2 errs2 q2 db2 where r2: "batch_commit wio ds ?q ?db = (dn2, errs2, q2, db2)" using prod_cases4 by blast
    show ?thesis
    proof (cases w)
      case None
      then show ?thesis using Cons.prems Inr x w r2
        by (intro exI [of _ ?q] exI [of _ ?db] exI [of _ dn2] exI [of _ errs2]) (auto simp: d)
    next
      case (Some e)
      then show ?thesis using Cons.prems Inr x w r1
        by (intro exI [of _ q] exI [of _ "db\<lparr>dbArena := a', dbWal := wal'\<rparr>"] exI [of _ dn1] exI [of _ errs1]) (auto simp: d)
    qed
  qed
  then obtain q1 db1 dn1 errs1 where rest: "batch_commit wio ds q1 db1 = (dn1, errs1, q', db')"
    and out: "dn = dn1 \<and> (\<exists>e. errs = (k, i, e) # errs1) \<or> dn = (k, i) # dn1 \<and> errs = errs1" by blast
  show ?case using Cons.IH [OF rest] out d by (elim disjE exE conjE) (simp_all add: subset_insertI2)
qed simp

lemma BatchInsert_range: "BatchInsert marshal dio wio fio db items = (errs, db') \<Longrightarrow> (k, i, e) \<in> set errs \<Longrightarrow> k < length items"
proof (erule BatchInsert_parts)
  fix prepped e0 ds e1 disk' toIndex dn e2 db1 f
  assume p: "batch_prepare marshal db 0 items = (prepped, e0)" "batch_disk dio (dbDisk db) prepped = (ds, e1, disk')"
    "batch_commit wio ds [] (db\<lparr>dbDisk := disk'\<rparr>) = (dn, e2, toIndex, db1)"
    "errs = e0 @ e1 @ e2 @ (case f of None \<Rightarrow> [] | Some e \<Rightarrow> map (\<lambda>(k, i). (k, i, LvFlush e)) dn)" and k: "(k, i, e) \<in> set errs"
  have "set (map fst prepped) \<subseteq> {0..<length items}" using batch_prepare_ok [OF p(1)] by (auto simp: unreported_def)
  then have a: "fst ` set prepped \<subseteq> {0..<length items}" "fst ` set e0 \<subseteq> {0..<length items}"
    using batch_prepare_ok [OF p(1)] unfolding set_map by (simp_all add: refusals_def)
  have b: "fst ` set ds \<subseteq> {0..<length items}" "fst ` set e1 \<subseteq> {0..<length items}" using batch_disk_range [OF p(2)] a by (blast dest: subset_trans)+
  have c: "fst ` set dn \<subseteq> {0..<length items}" "fst ` set e2 \<subseteq> {0..<length items}" using batch_commit_range [OF p(3)] b by (blast dest: subset_trans)+
  have "fst ` set errs \<subseteq> {0..<length items}"
    unfolding p(4) using a(2) b(2) c by (cases f) (simp_all add: image_Un image_image case_prod_unfold)
  then show "k < length items" using k by force
qed

lemma batch_prepare_unmarshalled:
  "batch_prepare marshal db off items = (ps, errs) \<Longrightarrow> j < length items \<Longrightarrow> marshal (bData (items ! j)) = None \<Longrightarrow>
    \<exists>i. (off + j, i, LvMarshal) \<in> set errs"
proof (induction items arbitrary: off j ps errs)
  case (Cons it items)
  obtain ps1 errs1 where rest: "batch_prepare marshal db (Suc off) items = (ps1, errs1)" by fastforce
  have sub: "set errs1 \<subseteq> set errs" using Cons.prems(1) rest by (auto split: option.splits)
  show ?case
  proof (cases j)
    case 0
    then show ?thesis using Cons.prems rest by auto
  next
    case (Suc j')
    then obtain i where "(Suc off + j', i, LvMarshal) \<in> set errs1" using Cons.IH [OF rest, of j'] Cons.prems(2,3) by auto
    then show ?thesis using sub Suc by auto
  qed
qed simp

lemma BatchInsert_unmarshalled:
  "BatchInsert marshal dio wio fio db items = (errs, db') \<Longrightarrow> marshal (bData (items ! j)) = None \<Longrightarrow> j < length items \<Longrightarrow>
    \<exists>i. (j, i, LvMarshal) \<in> set errs"
proof (erule BatchInsert_parts)
  fix prepped e0 ds e1 disk' toIndex dn e2 db1 f
  assume p: "batch_prepare marshal db 0 items = (prepped, e0)" "marshal (bData (items ! j)) = None" "j < length items"
    and errs: "errs = e0 @ e1 @ e2 @ (case f of None \<Rightarrow> [] | Some e \<Rightarrow> map (\<lambda>(k, i). (k, i, LvFlush e)) dn)"
  from batch_prepare_unmarshalled [OF p(1,3,2)] obtain i where "(j, i, LvMarshal) \<in> set e0" by auto
  then show "\<exists>i. (j, i, LvMarshal) \<in> set errs" using errs by auto
qed

text \<open>What the checks let through: the records that pass, stamped, at their positions; every other position has one error.\<close>

definition screened :: "cm_env \<Rightarrow> CollectionMeta option \<Rightarrow> nat \<Rightarrow> metadata BatchItem list \<Rightarrow> nat \<times> metadata BatchItem \<Rightarrow> bool" where
  "screened ev m off records x \<longleftrightarrow>
     (case x of (k, r) \<Rightarrow> off \<le> k \<and> k < off + length records \<and>
        bID r = bID (records ! (k - off)) \<and> bVector r = bVector (records ! (k - off)) \<and>
        \<not> wrong_dim m (bVector r) \<and> validateEmbeddingContract ev m (bData (records ! (k - off))) = None \<and>
        stampEmbeddingMetadata ev m (bData (records ! (k - off))) = Some (bData r))"

lemma screened_Cons: "screened ev m (Suc off) records x \<Longrightarrow> screened ev m off (r # records) x"
  by (auto simp: screened_def nth_Cons' split: prod.splits)

definition positions :: "nat \<Rightarrow> nat \<Rightarrow> (nat \<times> 'a) list \<Rightarrow> (nat \<times> 'b) list \<Rightarrow> bool" where
  "positions off n ps errs \<longleftrightarrow> sorted_wrt (<) (map fst ps) \<and> sorted_wrt (<) (map fst errs) \<and>
     fst ` set ps \<union> fst ` set errs = {off..<off + n} \<and> fst ` set ps \<inter> fst ` set errs = {}"

lemma positions_Cons:
  assumes "positions (Suc off) n ps errs"
  shows "positions off (Suc n) ((off, x) # ps) errs" "positions off (Suc n) ps ((off, y) # errs)"
proof -
  have up: "{off..<off + Suc n} = insert off {Suc off..<Suc off + n}" by auto
  have P: "sorted_wrt (<) (map fst ps)" "sorted_wrt (<) (map fst errs)" "fst ` set ps \<inter> fst ` set errs = {}"
    and eq: "fst ` set ps \<union> fst ` set errs = {Suc off..<Suc off + n}" using assms by (simp_all add: positions_def)
  have "\<forall>k\<in>fst ` set ps \<union> fst ` set errs. off < k" unfolding eq by simp
  then have above: "\<forall>k\<in>fst ` set ps. off < k" "\<forall>k\<in>fst ` set errs. off < k" by blast+
  then have "off \<notin> fst ` set ps" "off \<notin> fst ` set errs" by blast+
  then show "positions off (Suc n) ((off, x) # ps) errs" "positions off (Suc n) ps ((off, y) # errs)"
    using P above unfolding positions_def up eq [symmetric] by simp_all
qed

lemma batch_screen_items_ok:
  assumes "batch_screen_items ev m off records = Some (ps, errs)"
  shows "(\<forall>x\<in>set ps. screened ev m off records x) \<and> positions off (length records) ps errs \<and>
    (\<forall>(k, i, e)\<in>set errs. off \<le> k \<and> k < off + length records \<and> i = bID (records ! (k - off)) \<and> \<not> took (Some e))"
  using assms
proof (induction records arbitrary: off ps errs)
  case (Cons r records)
  have ext: "(\<forall>(k, i, e)\<in>set errs1. Suc off \<le> k \<and> k < Suc off + length records \<and> i = bID (records ! (k - Suc off)) \<and> \<not> took (Some e)) \<Longrightarrow>
      (\<forall>(k, i, e)\<in>set errs1. off \<le> k \<and> k < off + length (r # records) \<and> i = bID ((r # records) ! (k - off)) \<and> \<not> took (Some e))" for errs1
    by (fastforce simp: nth_Cons')
  have fail: ?case if rest: "batch_screen_items ev m (Suc off) records = Some (ps, errs1)" and e: "errs = (off, bID r, e) # errs1" "\<not> took (Some e)" for errs1 e
  proof -
    note IH = Cons.IH [OF rest]
    have "positions off (length (r # records)) ps errs" using IH by (simp add: e(1) positions_Cons(2))
    moreover have "\<forall>x\<in>set ps. screened ev m off (r # records) x" using IH screened_Cons by blast
    ultimately show ?thesis using ext [OF conjunct2 [OF conjunct2 [OF IH]]] e by simp
  qed
  consider (dim) "wrong_dim m (bVector r)" | (con) e where "\<not> wrong_dim m (bVector r)" "validateEmbeddingContract ev m (bData r) = Some e"
    | (ok) meta where "\<not> wrong_dim m (bVector r)" "validateEmbeddingContract ev m (bData r) = None" "stampEmbeddingMetadata ev m (bData r) = Some meta"
    using Cons.prems by (auto split: option.splits if_splits)
  then show ?case
  proof cases
    case dim
    then obtain errs1 where rest: "batch_screen_items ev m (Suc off) records = Some (ps, errs1)" "errs = (off, bID r, CmDim) # errs1"
      using Cons.prems by (auto split: option.splits)
    show ?thesis by (rule fail [OF rest]) (simp add: took_def)
  next
    case con
    from con(2) have "\<not> took (Some e)" by (auto simp: validateEmbeddingContract_def took_def Let_def split: option.splits if_splits)
    moreover obtain errs1 where "batch_screen_items ev m (Suc off) records = Some (ps, errs1)" "errs = (off, bID r, e) # errs1"
      using Cons.prems con by (auto split: option.splits)
    ultimately show ?thesis using fail by blast
  next
    case ok
    obtain ps1 where rest: "batch_screen_items ev m (Suc off) records = Some (ps1, errs)" and ps: "ps = (off, r\<lparr>bData := meta\<rparr>) # ps1"
      using Cons.prems ok by (auto split: option.splits)
    note IH = Cons.IH [OF rest]
    have "screened ev m off (r # records) (off, r\<lparr>bData := meta\<rparr>)" using ok by (simp add: screened_def)
    moreover have "\<forall>x\<in>set ps1. screened ev m off (r # records) x" using IH screened_Cons by blast
    moreover have "positions off (length (r # records)) ps errs" using IH by (simp add: ps positions_Cons(1))
    ultimately show ?thesis using ext [OF conjunct2 [OF conjunct2 [OF IH]]] ps by simp
  qed
qed (simp add: positions_def)

lemma hook_unfailed_frame [simp]:
  "mgCollections (hook_unfailed c errs records cm) = mgCollections cm" "mgDbs (hook_unfailed c errs records cm) = mgDbs cm"
  "mgMetas (hook_unfailed c errs records cm) = mgMetas cm"
proof -
  have "mgCollections (foldl (\<lambda>cm (i, r). if i \<in> fst ` set errs then cm else afterInsert c (bID r) (bData r) cm) cm xs) = mgCollections cm \<and>
    mgDbs (foldl (\<lambda>cm (i, r). if i \<in> fst ` set errs then cm else afterInsert c (bID r) (bData r) cm) cm xs) = mgDbs cm \<and>
    mgMetas (foldl (\<lambda>cm (i, r). if i \<in> fst ` set errs then cm else afterInsert c (bID r) (bData r) cm) cm xs) = mgMetas cm" for xs
    by (induction xs arbitrary: cm) auto
  then show "mgCollections (hook_unfailed c errs records cm) = mgCollections cm" "mgDbs (hook_unfailed c errs records cm) = mgDbs cm"
    "mgMetas (hook_unfailed c errs records cm) = mgMetas cm" unfolding hook_unfailed_def by blast+
qed

text \<open>The effect of a batch: the stamped records at \<open>taken\<close>, in order, and an error for every position that is not among them.\<close>

definition batch_value :: "cm_env \<Rightarrow> nat \<times> metadata BatchItem \<Rightarrow> vec \<times> bytes" where
  "batch_value ev x = (arena_normalize (bVector (snd x)), the (evJson ev (bData (snd x))))"

definition batch_effect ::
  "cm_env \<Rightarrow> CollectionMeta option \<Rightarrow> metadata BatchItem list \<Rightarrow> cm_batch_error list \<Rightarrow> (nat \<times> metadata BatchItem) list \<Rightarrow>
   (string \<rightharpoonup> (vec \<times> bytes)) \<Rightarrow> (string \<rightharpoonup> (vec \<times> bytes)) \<Rightarrow> bool" where
  "batch_effect ev m records errs taken old new \<longleftrightarrow>
     sorted_wrt (<) (map fst taken) \<and> (\<forall>x\<in>set taken. screened ev m 0 records x \<and> evJson ev (bData (snd x)) \<noteq> None) \<and>
     fst ` set taken \<union> fst ` set errs = {0..<length records} \<and>
     (\<forall>(k, i, e)\<in>set errs. k < length records \<and> i = bID (records ! k) \<and> (k \<in> fst ` set taken \<longrightarrow> took (Some e))) \<and>
     sorted (map fst errs) \<and> new = upd_all (bID \<circ> snd) (batch_value ev) old taken"

lemma applied_at_sorted: "sorted_wrt (<) (applied_at errs n)" "set (applied_at errs n) \<subseteq> {..<n}"
  by (auto simp: applied_at_def intro: sorted_wrt_filter)

lemma sorted_nths: "sorted_wrt (<) ks \<Longrightarrow> set ks \<subseteq> {..<length xs} \<Longrightarrow> sorted_wrt (<) (map f xs) \<Longrightarrow> sorted_wrt (<) (map f (map ((!) xs) ks))"
proof -
  assume ks: "sorted_wrt (<) ks" "set ks \<subseteq> {..<length xs}" and xs: "sorted_wrt (<) (map f xs)"
  have "f (xs ! i) < f (xs ! j)" if "i < j" "j < length xs" for i j using sorted_wrt_nth_less [OF xs, of i j] that by simp
  with ks show ?thesis by (induction ks) auto
qed

lemma upd_all_map: "upd_all key val m (map f xs) = upd_all (key \<circ> f) (val \<circ> f) m xs"
  by (induction xs arbitrary: m) simp_all

lemma CM_BatchInsert_refines:
  assumes inv: "cm_inv cm" and c: "mgCollections cm c = Some h" and d: "mgMetas cm c = Some d" and rdy: "cm_ready io (length records) (mgDbs cm ! h)"
    and run: "CM_BatchInsert ev io cm c records = Some (errs, cm')"
  shows "cm_inv cm' \<and> mgCollections cm' = mgCollections cm \<and> (\<forall>c'. c' \<noteq> c \<longrightarrow> mgMetas cm' c' = mgMetas cm c') \<and>
    (\<exists>taken new. batch_effect ev (Some d) records errs taken (lv_abs (mgDbs cm ! h)) new \<and> cm_abs cm' = (cm_abs cm)(c \<mapsto> new))"
proof -
  obtain ps errs0 where scr: "batch_screen_items ev (Some d) 0 records = Some (ps, errs0)"
    and run': "batch_write ev io cm c records ps errs0 = (errs, cm')"
    using run d by (auto simp: CM_BatchInsert_def batch_screen_def split: option.splits)
  note sc = batch_screen_items_ok [OF scr]
  have ab: "cm_abs cm c = Some (lv_abs (mgDbs cm ! h))" using c by (simp add: cm_abs_def)
  show ?thesis
  proof (cases "ps = []")
    case True
    then have e: "errs = errs0" "cm' = cm" using run' by (simp_all add: batch_write_def)
    have "sorted (map fst errs0)" using sc by (simp add: positions_def strict_sorted_imp_sorted)
    then have "batch_effect ev (Some d) records errs [] (lv_abs (mgDbs cm ! h)) (lv_abs (mgDbs cm ! h))"
      using sc True unfolding e by (fastforce simp: batch_effect_def positions_def)
    then show ?thesis using e inv ab by (metis fun_upd_idem)
  next
    case False
    obtain es db' where bi: "BatchInsert (evJson ev) (ioDisk io) (ioWal io) (ioFlush io) (mgDbs cm ! h) (map snd ps) = (es, db')" by fastforce
    let ?all = "errs0 @ map (original_error records (map fst ps)) es"
    have out: "errs = sort_key fst ?all" "mgCollections cm' = mgCollections cm" "mgDbs cm' = mgDbs (store_db h db' cm)"
      "\<forall>c'. c' \<noteq> c \<longrightarrow> mgMetas cm' c' = mgMetas cm c'"
      using run' False c bi by (auto simp: batch_write_def getOrCreate_def Let_def refresh_other)
    have len: "length ps \<le> length records"
    proof -
      have "distinct (map fst ps)" using sc by (simp add: positions_def strict_sorted_iff)
      then have "length ps = card (fst ` set ps)" using distinct_card by fastforce
      also have "\<dots> \<le> card {0..<length records}" by (rule card_mono) (use sc in \<open>auto simp: positions_def\<close>)
      finally show ?thesis by simp
    qed
    have mono: "length ps * mib \<le> length records * mib" using len by simp
    obtain pub recs where lv: "lv_inv pub recs (mgDbs cm ! h)" using cm_inv_db [OF inv c] by (auto simp: lv_ok_def)
    have room: "\<forall>k. whole_write (ioDisk io k)" "arTotalVectors (dbArena (mgDbs cm ! h)) + length (map snd ps) < 2 ^ 32"
      "dsPos (dbDisk (mgDbs cm ! h)) + length (map snd ps) * mib < 2 ^ 63"
      using rdy len mono unfolding cm_ready_def length_map by (blast, linarith, linarith)
    from BatchInsert_refines [OF lv room bi] obtain recs' where R: "lv_inv pub recs' db'"
      "lv_abs db' = foldl (batch_put (evJson ev) (map snd ps)) (lv_abs (mgDbs cm ! h)) (applied_at es (length ps))" by auto
    have ok: "lv_ok db'" using R(1) by (auto simp: lv_ok_def)
    note st = store_db_inv [OF inv c ok]
    have same: "mgCollections cm' = mgCollections (store_db h db' cm)" using out(2) by simp
    have inv': "cm_inv cm'" and abs': "cm_abs cm' = (cm_abs cm)(c \<mapsto> lv_abs db')" using cm_same [OF same out(3)] st by simp_all
    let ?ks = "applied_at es (length ps)"
    let ?taken = "map ((!) ps) ?ks"
    note ks = applied_at_sorted [of es "length ps"]
    have srt: "sorted_wrt (<) (map fst ps)" using sc by (simp add: positions_def)
    have tsub: "set ?taken \<subseteq> set ps" using ks(2) by auto
    have inj: "fst (ps ! j) = fst (ps ! j') \<Longrightarrow> j < length ps \<Longrightarrow> j' < length ps \<Longrightarrow> j = j'" for j j'
      using srt by (metis nth_map length_map distinct_conv_nth strict_sorted_iff)
    have pk: "fst (ps ! j) < length records" if "j < length ps" for j
    proof -
      have "screened ev (Some d) 0 records (ps ! j)" using conjunct1 [OF sc] nth_mem [OF that] by blast
      then show ?thesis by (cases "ps ! j") (simp add: screened_def)
    qed
    have oe: "original_error records (map fst ps) (j, i, e) = (fst (ps ! j), bID (records ! fst (ps ! j)), CmStore e)" if "j < length ps" for j i e
      using that by (simp add: original_error_def)
    have rng: "j < length ps" if "(j, i, e) \<in> set es" for j i e using BatchInsert_range [OF bi that] by simp
    have new: "lv_abs db' = upd_all (bID \<circ> snd) (batch_value ev) (lv_abs (mgDbs cm ! h)) ?taken"
    proof -
      have "map ((!) (map snd ps)) ?ks = map snd ?taken" using ks(2) by auto
      then have "lv_abs db' = upd_all bID (lv_bitem (evJson ev)) (lv_abs (mgDbs cm ! h)) (map snd ?taken)"
        using R(2) foldl_batch_put [of "evJson ev" "map snd ps"] by (simp only:)
      moreover have "lv_bitem (evJson ev) \<circ> snd = batch_value ev" by (simp add: fun_eq_iff lv_bitem_def batch_value_def)
      ultimately show ?thesis using upd_all_map [of bID "lv_bitem (evJson ev)" _ snd ?taken] by (simp only:)
    qed
    have "batch_effect ev (Some d) records errs ?taken (lv_abs (mgDbs cm ! h)) (lv_abs db')"
      unfolding batch_effect_def
    proof (intro conjI)
      show "sorted_wrt (<) (map fst ?taken)" by (rule sorted_nths [OF ks srt])
      show "\<forall>x\<in>set ?taken. screened ev (Some d) 0 records x \<and> evJson ev (bData (snd x)) \<noteq> None"
      proof
        fix x assume "x \<in> set ?taken"
        then obtain j where j: "j \<in> set ?ks" "x = ps ! j" "j < length ps" using ks(2) by auto
        have "evJson ev (bData (snd x)) \<noteq> None"
        proof
          assume "evJson ev (bData (snd x)) = None"
          then have "evJson ev (bData (map snd ps ! j)) = None" "j < length (map snd ps)" using j(2,3) by simp_all
          from BatchInsert_unmarshalled [OF bi this] obtain i where "(j, i, LvMarshal) \<in> set es" by blast
          then show False using j(1) by (auto simp: applied_at_def)
        qed
        then show "screened ev (Some d) 0 records x \<and> evJson ev (bData (snd x)) \<noteq> None" using sc tsub \<open>x \<in> set ?taken\<close> by blast
      qed
      show "sorted (map fst errs)" unfolding out(1) by simp
      show "lv_abs db' = upd_all (bID \<circ> snd) (batch_value ev) (lv_abs (mgDbs cm ! h)) ?taken" by (rule new)
      show "\<forall>(k, i, e)\<in>set errs. k < length records \<and> i = bID (records ! k) \<and> (k \<in> fst ` set ?taken \<longrightarrow> took (Some e))"
      proof (intro ballI)
        fix x assume "x \<in> set errs"
        then have "x \<in> set ?all" unfolding out(1) by simp
        then consider (scr) "x \<in> set errs0" | (eng) j i e where "(j, i, e) \<in> set es" "x = original_error records (map fst ps) (j, i, e)" by auto
        then show "case x of (k, i, e) \<Rightarrow> k < length records \<and> i = bID (records ! k) \<and> (k \<in> fst ` set ?taken \<longrightarrow> took (Some e))"
        proof cases
          case scr
          then have "fst x \<notin> fst ` set ps" using sc by (auto simp: positions_def)
          then have nt: "fst x \<notin> fst ` set ?taken" using tsub by blast
          obtain k i e where x: "x = (k, i, e)" by (cases x)
          have "k < length records \<and> i = bID (records ! k)" using conjunct2 [OF conjunct2 [OF sc]] scr unfolding x by fastforce
          then show ?thesis using nt by (simp add: x)
        next
          case eng
          have j: "j < length ps" using rng eng(1) .
          have "took (Some (CmStore e))" if t: "fst (ps ! j) \<in> fst ` set ?taken"
          proof -
            obtain j' where j': "j' \<in> set ?ks" "fst (ps ! j) = fst (ps ! j')" using t by auto
            then have "j = j'" using inj j ks(2) by blast
            then show ?thesis using j'(1) eng(1) by (auto simp: applied_at_def took_def)
          qed
          then show ?thesis using eng(2) oe [OF j] pk [OF j] by simp
        qed
      qed
      show "fst ` set ?taken \<union> fst ` set errs = {0..<length records}"
      proof
        have un: "fst ` set ps \<union> fst ` set errs0 = {0..<length records}" using sc by (simp add: positions_def)
        show "fst ` set ?taken \<union> fst ` set errs \<subseteq> {0..<length records}"
        proof
          fix k assume "k \<in> fst ` set ?taken \<union> fst ` set errs"
          then show "k \<in> {0..<length records}"
          proof
            assume "k \<in> fst ` set ?taken"
            then have "k \<in> fst ` set ps" using tsub by blast
            then show ?thesis using un by blast
          next
            assume "k \<in> fst ` set errs"
            then consider "k \<in> fst ` set errs0" | x where "x \<in> set es" "k = fst (original_error records (map fst ps) x)"
              unfolding out(1) by auto
            then show ?thesis
            proof cases
              case 1
              then show ?thesis using un by blast
            next
              case 2
              obtain j i e where x: "x = (j, i, e)" by (cases x)
              have "j < length ps" using rng 2(1) unfolding x .
              then show ?thesis using 2(2) oe pk unfolding x by simp
            qed
          qed
        qed
        have un: "fst ` set ps \<union> fst ` set errs0 = {0..<length records}" using sc by (simp add: positions_def)
        show "{0..<length records} \<subseteq> fst ` set ?taken \<union> fst ` set errs"
        proof
          fix k assume "k \<in> {0..<length records}"
          then consider "k \<in> fst ` set errs0" | j where "j < length ps" "k = fst (ps ! j)"
            unfolding un [symmetric] by (auto simp: in_set_conv_nth)
          then show "k \<in> fst ` set ?taken \<union> fst ` set errs"
          proof cases
            case 1
            then show ?thesis unfolding out(1) by auto
          next
            case 2
            show ?thesis
            proof (cases "j \<in> set ?ks")
              case True
              then show ?thesis using 2 by auto
            next
              case False
              then obtain i e where "(j, i, e) \<in> set es" using 2(1) by (auto simp: applied_at_def)
              then have "(k, bID (records ! k), CmStore e) \<in> set errs" unfolding out(1) using oe [OF 2(1), of i e] 2(2) by (auto intro: rev_image_eqI)
              then show ?thesis by force
            qed
          qed
        qed
      qed
    qed
    then show ?thesis using inv' out(2,4) abs' by blast
  qed
qed

end
