(* ===== verification/Collection_Life.thy ===== *)
theory Collection_Life
  imports Collection_Inv
begin

text \<open>
  What happens to the contents of a collection that is created, renamed or dropped, and the hole that a batch leaves in the
  fence of the embedding contract.
\<close>

section \<open>Creation\<close>

lemma NewLevara_empty:
  assumes "1 \<le> dm" "dm \<le> 65536" "\<forall>k. dio k = DiskOk"
  shows "\<exists>db. NewLevara dot levels dio True durable dm cfg [] metaFile = Inr db \<and> lv_ok db \<and> lv_abs db = Map.empty"
proof -
  have "WAL_prepareRecovery (int dm) (take 0 (wal_log [])) = Inr (wal_log (complete_frames 0 []))"
    by (rule prepareRecovery_prefix) (use assms in simp_all)
  then have "WAL_prepareRecovery (int dm) [] = Inr (wal_log [])" by (simp add: wal_log_def)
  from NewLevara_log [OF this _ assms(1,2) _ assms(3), of dot levels durable cfg metaFile] obtain db where
    "NewLevara dot levels dio True durable dm cfg [] metaFile = Inr db" "lv_inv None [] db" "\<forall>i. lv_abs db i = None" by auto
  then show ?thesis by (auto simp: lv_ok_def fun_eq_iff)
qed

lemma save_frame [simp]:
  "mgCollections (snd (saveCollectionMeta io name meta cm)) = mgCollections cm" "mgDbs (snd (saveCollectionMeta io name meta cm)) = mgDbs cm"
  "mgMetas (snd (saveCollectionMeta io name meta cm)) = (mgMetas cm)(name \<mapsto> meta\<lparr>mtUpdated := ioNow io\<rparr>)"
  by (simp_all add: saveCollectionMeta_def Let_def)

lemma add_db_inv:
  assumes inv: "cm_inv cm" and ok: "lv_ok db" and cm': "mgDbs cm' = mgDbs cm @ [db]" "mgCollections cm' = (mgCollections cm)(name \<mapsto> length (mgDbs cm))"
  shows "cm_inv cm'" "cm_abs cm' = (cm_abs cm)(name \<mapsto> lv_abs db)"
proof -
  have lt: "h < length (mgDbs cm)" if "mgCollections cm x = Some h" for x h using inv that by (simp add: cm_inv_def)
  have nth: "mgDbs cm' ! h = mgDbs cm ! h" if "h < length (mgDbs cm)" for h using that by (simp add: cm' nth_append)
  show "cm_inv cm'"
    unfolding cm_inv_def
  proof (intro conjI allI impI)
    fix x h assume x: "mgCollections cm' x = Some h"
    show "h < length (mgDbs cm')" using x lt [of x h] by (simp add: cm' split: if_splits)
    show "lv_ok (mgDbs cm' ! h)"
    proof (cases "x = name")
      case True
      then have "h = length (mgDbs cm)" using x by (simp add: cm')
      then show ?thesis using ok by (simp add: cm' nth_append)
    next
      case False
      then have "mgCollections cm x = Some h" using x by (simp add: cm')
      from cm_inv_db [OF inv this] show ?thesis using nth by simp
    qed
  next
    fix x y h assume x: "mgCollections cm' x = Some h" and y: "mgCollections cm' y = Some h"
    show "x = y"
    proof (cases "x = name \<or> y = name")
      case True
      then show ?thesis using x y lt [of x h] lt [of y h] by (auto simp: cm' split: if_splits)
    next
      case False
      then show ?thesis using x y inv unfolding cm_inv_def cm'(2) by (metis fun_upd_other)
    qed
  qed
  show "cm_abs cm' = (cm_abs cm)(name \<mapsto> lv_abs db)"
  proof
    fix x show "cm_abs cm' x = ((cm_abs cm)(name \<mapsto> lv_abs db)) x"
    proof (cases "x = name")
      case True
      then show ?thesis by (simp add: cm_abs_def cm')
    next
      case False
      then show ?thesis using lt [of x] nth by (cases "mgCollections cm x") (simp_all add: cm_abs_def cm'(2))
    qed
  qed
qed

lemma drop_name_inv:
  assumes inv: "cm_inv cm" and cm': "mgDbs cm' = mgDbs cm" "mgCollections cm' = (mgCollections cm)(name := None)"
  shows "cm_inv cm'" "cm_abs cm' = (cm_abs cm)(name := None)"
proof -
  show "cm_inv cm'" using inv unfolding cm_inv_def cm' by (auto split: if_splits)
  show "cm_abs cm' = (cm_abs cm)(name := None)"
  proof
    fix x show "cm_abs cm' x = ((cm_abs cm)(name := None)) x" by (cases "mgCollections cm x") (simp_all add: cm_abs_def cm')
  qed
qed

lemma CreateWithDim_refines:
  assumes inv: "cm_inv cm" and fresh: "mgDirs cm name = None" and io: "ioTrunc io" "\<forall>k. ioReplay io k = DiskOk"
    and dm: "dm = (if dm0 \<le> 0 then mgDim cm else nat dm0)" "1 \<le> dm" "dm \<le> 65536"
    and run: "CreateWithDim ev io cm name dm0 model metric = (r, cm')"
  shows "cm_inv cm' \<and>
    (if r = None \<and> mgCollections cm name = None
     then cm_abs cm' = (cm_abs cm)(name \<mapsto> Map.empty) \<and> (\<exists>d. mgMetas cm' name = Some d \<and> mtName d = name \<and> mtDim d = int dm \<and> mtCount d = 0)
     else cm_abs cm' = cm_abs cm) \<and> (\<forall>x. x \<noteq> name \<longrightarrow> mgMetas cm' x = mgMetas cm x)"
proof -
  consider (bad) e where "safeCollectionDir (ioCwd io) (mgBase cm) name = Inl e"
    | (known) p where "safeCollectionDir (ioCwd io) (mgBase cm) name = Inr p" "mgCollections cm name \<noteq> None"
    | (nodir) p where "safeCollectionDir (ioCwd io) (mgBase cm) name = Inr p" "mgCollections cm name = None" "\<not> ioMkdir io"
    | (new) p where "safeCollectionDir (ioCwd io) (mgBase cm) name = Inr p" "mgCollections cm name = None" "ioMkdir io"
    by (cases "safeCollectionDir (ioCwd io) (mgBase cm) name") blast+
  then show ?thesis
  proof cases
    case bad
    then have "cm' = cm" "r = Some (CmName e)" using run by (auto simp: CreateWithDim_def)
    then show ?thesis using inv by simp
  next
    case known
    then have "cm' = cm" using run by (simp add: CreateWithDim_def)
    then show ?thesis using inv known(2) by auto
  next
    case nodir
    then have "cm' = cm" "r = Some CmDir" using run by (auto simp: CreateWithDim_def Let_def)
    then show ?thesis using inv by simp
  next
    case new
    obtain db where db: "NewLevara (evDot ev) (ioLevels io) (ioReplay io) True (ioDurable io) dm (mgCfg cm) [] [] = Inr db" "lv_ok db" "lv_abs db = Map.empty"
      using NewLevara_empty [OF dm(2,3) io(2)] by blast
    have r: "r = None" and "mgDbs cm' = mgDbs cm @ [db]" "mgCollections cm' = (mgCollections cm)(name \<mapsto> length (mgDbs cm))"
      and metas: "\<exists>d. mgMetas cm' = (mgMetas cm)(name \<mapsto> d) \<and> mtName d = name \<and> mtDim d = int dm \<and> mtCount d = 0"
      using run new db(1) fresh io(1) by (auto simp: CreateWithDim_def Let_def dm(1) [symmetric] new_dir_def)
    note add = add_db_inv [OF inv db(2) this(2,3)]
    show ?thesis using add metas new(2) r db(3) by auto
  qed
qed

section \<open>Removal\<close>

lemma Close_ok:
  assumes "lv_inv pub recs db" "Close fio db = (r, db')"
  shows "lv_inv pub recs db'" "lv_abs db' = lv_abs db" "dbDim db' = dbDim db"
    "r = None \<Longrightarrow> walSynced (dbWal db') = length (walLog (dbWal db'))"
proof -
  obtain wal' where db': "db' = db\<lparr>dbWal := wal'\<rparr>" and w: "WAL_Close fio (dbWal db) = (map_option (\<lambda>_. WalIOError) r, wal')"
    using assms(2) by (auto simp: Close_def WAL_Close_def Let_def split: if_splits flush_io.splits)
  show abs: "lv_abs db' = lv_abs db" by (simp only: db' lv_mem_wal)
  have "wal_inv (dbDim db) recs wal'"
    using w assms(1)
    by (auto simp: lv_inv_def WAL_Close_def Let_def wal_inv_def dest: wal_holds_err split: if_splits flush_io.splits)
  moreover have "lv_mem pub db'" using assms(1) lv_mem_wal by (simp add: db' lv_inv_def)
  ultimately show "lv_inv pub recs db'" using assms(1) abs by (simp add: lv_inv_def lv_logged_def) (simp add: db')
  show "dbDim db' = dbDim db" by (simp add: db')
  show "r = None \<Longrightarrow> walSynced (dbWal db') = length (walLog (dbWal db'))"
    using w by (auto simp: db' WAL_Close_def Let_def split: if_splits flush_io.splits)
qed

text \<open>The log of an engine that is closed without an error, opened again, gives the same contents.\<close>

lemma reopen_whole:
  assumes inv: "lv_inv pub recs db" and sync: "walSynced (dbWal db) = length (walLog (dbWal db))" and n: "Suc (length recs) < 2 ^ 32" and io: "\<forall>j. dio j = DiskOk"
  shows "\<exists>db'. NewLevara dot levels dio True durable (dbDim db) cfg (walLog (dbWal db)) metaFile = Inr db' \<and> lv_ok db' \<and>
    (\<forall>i. rel_option stored_as (lv_abs db' i) (lv_abs db i))"
proof -
  let ?db = "db\<lparr>dbWal := (dbWal db)\<lparr>walPrev := []\<rparr>\<rparr>"
  have "lv_inv pub recs ?db"
    using inv lv_mem_wal(1,2) [where db = db] by (simp add: lv_inv_def lv_logged_def wal_inv_def)
  moreover have "walLog (dbWal ?db) \<in> WAL_crash_files (dbWal ?db)" by (rule crash_file_whole) (simp add: sync)
  ultimately obtain db' where "NewLevara dot levels dio True durable (dbDim ?db) cfg (walLog (dbWal ?db)) metaFile = Inr db'" "lv_inv None recs db'"
    "\<forall>i. rel_option stored_as (lv_abs db' i) (lv_abs ?db i)"
    using crash_synced [of pub recs ?db dio] n io sync by fastforce
  then show ?thesis using lv_mem_wal(2) [where db = db] by (auto simp: lv_ok_def)
qed

section \<open>Renaming\<close>

text \<open>An opening that works did not need a write that fails, so a healthy disk gives the same engine.\<close>

lemma replay_entry_healthy: "replay_entry dot level io rec db = Inr db' \<Longrightarrow> replay_entry dot level DiskOk rec db = Inr db'"
  by (cases io) (auto simp: replay_entry_def DiskStore_Write_def Let_def split: if_splits)

lemma replay_log_healthy: "replay_log dot levels dio k recs db = Inr db' \<Longrightarrow> replay_log dot levels (\<lambda>_. DiskOk) k recs db = Inr db'"
  by (induction recs arbitrary: db k) (auto split: sum.splits dest: replay_entry_healthy)

lemma NewLevara_healthy:
  assumes "NewLevara dot levels dio tr durable dm cfg walFile metaFile = Inr db"
  shows "tr" "NewLevara dot levels (\<lambda>_. DiskOk) True durable dm cfg walFile metaFile = Inr db"
proof -
  from assms show "tr" by (auto simp: NewLevara_def split: sum.splits if_splits)
  from assms show "NewLevara dot levels (\<lambda>_. DiskOk) True durable dm cfg walFile metaFile = Inr db"
    by (auto simp: NewLevara_def Let_def split: sum.splits if_splits) (auto dest: replay_log_healthy)
qed

text \<open>
  A directory that has the contents \<open>m\<close>: on a disk that works it opens with them, whatever the file of the metadata holds, which
  a failed opening may have truncated.
\<close>

definition dir_holds :: "cm_env \<Rightarrow> CollectionManager \<Rightarrow> nat \<Rightarrow> CollectionDir \<Rightarrow> (string \<rightharpoonup> vec \<times> bytes) \<Rightarrow> bool" where
  "dir_holds ev cm dm dir m \<longleftrightarrow>
     (\<forall>io dio bin. ioTrunc io \<longrightarrow> (\<forall>k. dio k = DiskOk) \<longrightarrow>
        (\<exists>db. reopen ev io dio cm dm (dir\<lparr>cdBin := bin\<rparr>) = Inr db \<and> lv_ok db \<and> (\<forall>i. rel_option stored_as (lv_abs db i) (m i))))"

definition holds_as :: "(string \<rightharpoonup> vec \<times> bytes) option \<Rightarrow> (string \<rightharpoonup> vec \<times> bytes) \<Rightarrow> bool" where
  "holds_as c m \<longleftrightarrow> (\<exists>m'. c = Some m' \<and> (\<forall>i. rel_option stored_as (m' i) (m i)))"

text \<open>The engine that replaces the closed one: on a disk that works there is one, and any that opens has its contents.\<close>

lemma close_reopen:
  assumes "lv_inv pub recs db" "Suc (length recs) < 2 ^ 32" "Close fio db = (None, db')"
  shows "dir_holds ev cm (dbDim db') (closed_dir db' d) (lv_abs db)"
    "reopen ev io dio cm (dbDim db') (closed_dir db' d) = Inr db2 \<Longrightarrow> lv_ok db2 \<and> (\<forall>i. rel_option stored_as (lv_abs db2 i) (lv_abs db i))"
    "reopen ev io dio cm (dbDim db') (closed_dir db' d) = Inl e \<Longrightarrow> \<not> (ioTrunc io \<and> (\<forall>k. dio k = DiskOk))"
proof -
  note C = Close_ok [OF assms(1,3)]
  show holds: "dir_holds ev cm (dbDim db') (closed_dir db' d) (lv_abs db)" for cm
    using reopen_whole [OF C(1) C(4) [OF refl] assms(2)] C(2) by (simp add: dir_holds_def reopen_def closed_dir_def)
  have self: "closed_dir db' d = (closed_dir db' d)\<lparr>cdBin := dsFile (dbDisk db')\<rparr>" by (simp add: closed_dir_def)
  have open_ok: "\<exists>db2. reopen ev io dio cm (dbDim db') (closed_dir db' d) = Inr db2 \<and> lv_ok db2 \<and> (\<forall>i. rel_option stored_as (lv_abs db2 i) (lv_abs db i))"
    if "ioTrunc io" "\<forall>k. dio k = DiskOk" for io dio
    using holds that self unfolding dir_holds_def by metis
  show "lv_ok db2 \<and> (\<forall>i. rel_option stored_as (lv_abs db2 i) (lv_abs db i))" if r: "reopen ev io dio cm (dbDim db') (closed_dir db' d) = Inr db2"
  proof -
    note H = NewLevara_healthy [OF r [unfolded reopen_def]]
    then have "reopen ev io (\<lambda>_. DiskOk) cm (dbDim db') (closed_dir db' d) = Inr db2" by (simp add: reopen_def)
    then show ?thesis using open_ok [of io "\<lambda>_. DiskOk"] H(1) by auto
  qed
  show "\<not> (ioTrunc io \<and> (\<forall>k. dio k = DiskOk))" if "reopen ev io dio cm (dbDim db') (closed_dir db' d) = Inl e"
    using open_ok [of io dio] that by auto
qed

text \<open>
  What each result of a rename leaves. A collection that is not open any more is stranded: its directory still has the contents.
\<close>

definition rename_left :: "cm_env \<Rightarrow> cm_io \<Rightarrow> CollectionManager \<Rightarrow> CollectionManager \<Rightarrow> Levara \<Rightarrow> string \<Rightarrow> string \<Rightarrow> cm_error option \<Rightarrow> bool" where
  "rename_left ev io cm cm' db old new r \<longleftrightarrow>
     (case r of
        None \<Rightarrow>
          holds_as (cm_abs cm' new) (lv_abs db) \<and> cm_abs cm' old = None \<and>
          mgMetas cm' = (case mgMetas cm old of None \<Rightarrow> mgMetas cm
            | Some d \<Rightarrow> (mgMetas cm)(new \<mapsto> d\<lparr>mtName := new, mtUpdated := ioNow io\<rparr>))(old := None)
      | Some e \<Rightarrow>
          mgMetas cm' = mgMetas cm \<and> (new \<noteq> old \<longrightarrow> cm_abs cm' new = cm_abs cm new) \<and>
          (let stranded = (\<lambda>from. cm_abs cm' old = None \<and> (\<exists>dir. mgDirs cm' from = Some dir \<and> dir_holds ev cm' (dbDim db) dir (lv_abs db))) in
           case e of
             CmReopen _ \<Rightarrow> \<not> (ioTrunc io \<and> (\<forall>k. ioReopen io k = DiskOk)) \<and> stranded (if ioBack io then old else new)
           | CmRename \<Rightarrow> holds_as (cm_abs cm' old) (lv_abs db) \<or> \<not> (ioTrunc io \<and> (\<forall>k. ioReplay io k = DiskOk)) \<and> stranded old
           | _ \<Rightarrow> holds_as (cm_abs cm' old) (lv_abs db)))"

lemma holds_as_refl [simp]: "holds_as (Some m) m"
  by (simp add: holds_as_def option.rel_refl)

lemma CM_Rename_refines:
  assumes inv: "cm_inv cm" and c: "mgCollections cm old = Some h" and lv: "lv_inv pub recs (mgDbs cm ! h)" "Suc (length recs) < 2 ^ 32"
    and run: "CM_Rename ev io cm old new = (r, cm')"
  shows "cm_inv cm' \<and> (\<forall>c. c \<noteq> old \<longrightarrow> c \<noteq> new \<longrightarrow> cm_abs cm' c = cm_abs cm c \<and> mgMetas cm' c = mgMetas cm c) \<and>
    rename_left ev io cm cm' (mgDbs cm ! h) old new r"
proof -
  let ?db = "mgDbs cm ! h"
  have abs_c: "cm_abs cm old = Some (lv_abs ?db)" by (simp add: cm_abs_def c)
  have same: ?thesis if "cm_inv cm'" "cm_abs cm' = cm_abs cm" "mgMetas cm' = mgMetas cm" "r = Some e" "e \<noteq> CmRename" "\<forall>x. e \<noteq> CmReopen x" for e
    using that abs_c by (cases e) (simp_all add: rename_left_def)
  obtain x db' where cl: "Close (ioClose io) ?db = (x, db')" by fastforce
  note C = Close_ok [OF lv(1) cl]
  have ok: "lv_ok db'" using C(1) by (auto simp: lv_ok_def)
  note st = store_db_inv [OF inv c ok]
  let ?dir = "closed_dir db' (mgDirs cm old)"
  let ?drop = "\<lambda>dirs. (store_db h db' cm)\<lparr>mgCollections := (mgCollections cm)(old := None), mgDirs := dirs\<rparr>"
  have drop: "cm_inv (?drop dirs)" "cm_abs (?drop dirs) = (cm_abs cm)(old := None)" for dirs
    using drop_name_inv [OF st(1), of "?drop dirs" old] st(2) by simp_all
  consider (early) e where "cm' = cm" "r = Some e" "e \<noteq> CmRename" "\<forall>x. e \<noteq> CmReopen x"
    | (close) e where "x = Some e" "cm' = store_db h db' cm" "r = Some (CmClose e)"
    | (go) "x = None" "old \<noteq> new" "mgCollections cm new = None" "\<exists>p q. safeCollectionDir (ioCwd io) (mgBase cm) old = Inr p \<and> safeCollectionDir (ioCwd io) (mgBase cm) new = Inr q"
        "mgDirs cm new = None"
    using run c cl by (cases x) (auto simp: CM_Rename_def split: if_splits sum.splits)
  then show ?thesis
  proof cases
    case early
    then show ?thesis using same inv by simp
  next
    case close
    have "cm_abs cm' = cm_abs cm" using st(2) C(2) abs_c close(2) by (simp add: fun_upd_idem)
    then show ?thesis using same [of "CmClose e" for e] st(1) unfolding close(2,3) by simp
  next
    case go
    note R = close_reopen [OF lv cl [unfolded go(1)]]
    have new: "cm_abs cm new = None" using go(3) by (simp add: cm_abs_def)
    show ?thesis
    proof (cases "ioRename io")
      case False
      let ?cm1 = "?drop ((mgDirs cm)(old \<mapsto> ?dir))"
      show ?thesis
      proof (cases "reopen ev io (ioReplay io) ?cm1 (dbDim db') ?dir")
        case (Inl e)
        have cm': "cm' = ?cm1" "r = Some CmRename" using run go c cl False Inl by (auto simp: CM_Rename_def Let_def)
        have dh: "dir_holds ev cm' (dbDim ?db) ?dir (lv_abs ?db)" using R(1) C(3) by simp
        show ?thesis
          using drop [of "(mgDirs cm)(old \<mapsto> ?dir)"] R(3) [OF Inl] go(2) new dh
          by (simp add: cm' rename_left_def Let_def)
      next
        case (Inr db2)
        have cm': "cm' = ?cm1\<lparr>mgDbs := mgDbs ?cm1 @ [db2], mgCollections := (mgCollections ?cm1)(old \<mapsto> length (mgDbs ?cm1))\<rparr>" "r = Some CmRename"
          using run go c cl False Inr by (auto simp: CM_Rename_def Let_def)
        have db2: "lv_ok db2" "holds_as (Some (lv_abs db2)) (lv_abs ?db)" using R(2) [OF Inr] by (simp_all add: holds_as_def)
        have add: "cm_inv cm'" "cm_abs cm' = (cm_abs ?cm1)(old \<mapsto> lv_abs db2)"
          using add_db_inv [OF drop(1) db2(1), of cm' "(mgDirs cm)(old \<mapsto> ?dir)" old] by (simp_all add: cm'(1))
        have metas: "mgMetas cm' = mgMetas cm" by (simp add: cm'(1))
        show ?thesis using add drop(2) db2(2) new go(2) metas by (simp add: rename_left_def cm'(2) Let_def)
      qed
    next
      case True
      let ?cm2 = "?drop ((mgDirs cm)(old := None, new \<mapsto> ?dir))"
      show ?thesis
      proof (cases "reopen ev io (ioReopen io) ?cm2 (dbDim db') ?dir")
        case (Inl e)
        let ?dirs = "if ioBack io then (mgDirs cm)(old \<mapsto> ?dir, new := None) else (mgDirs cm)(old := None, new \<mapsto> ?dir)"
        have cm': "cm' = ?drop ?dirs" "r = Some (CmReopen e)"
          using run go c cl True Inl by (auto simp: CM_Rename_def Let_def fun_upd_twist)
        have dh: "dir_holds ev cm' (dbDim ?db) ?dir (lv_abs ?db)" using R(1) C(3) by simp
        show ?thesis
          using drop [of ?dirs] R(3) [OF Inl] go(2) new dh
          by (cases "ioBack io") (simp_all add: cm' rename_left_def Let_def)
      next
        case (Inr db2)
        have db2: "lv_ok db2" "holds_as (Some (lv_abs db2)) (lv_abs ?db)" using R(2) [OF Inr] by (simp_all add: holds_as_def)
        have out: "r = None \<and> mgDbs cm' = mgDbs ?cm2 @ [db2] \<and> mgCollections cm' = (mgCollections ?cm2)(new \<mapsto> length (mgDbs ?cm2)) \<and>
          mgMetas cm' = (case mgMetas cm old of None \<Rightarrow> mgMetas cm
            | Some m \<Rightarrow> (mgMetas cm)(new \<mapsto> m\<lparr>mtName := new, mtUpdated := ioNow io\<rparr>))(old := None)"
          using run go c cl True Inr by (cases "mgMetas cm old") (auto simp: CM_Rename_def Let_def)
        have r: "r = None" and fields: "mgDbs cm' = mgDbs ?cm2 @ [db2]" "mgCollections cm' = (mgCollections ?cm2)(new \<mapsto> length (mgDbs ?cm2))"
          and metas: "mgMetas cm' = (case mgMetas cm old of None \<Rightarrow> mgMetas cm
            | Some m \<Rightarrow> (mgMetas cm)(new \<mapsto> m\<lparr>mtName := new, mtUpdated := ioNow io\<rparr>))(old := None)"
          using out by simp_all
        note add = add_db_inv [OF drop(1) db2(1) fields]
        show ?thesis
          using add drop(2) db2(2) go(2) by (cases "mgMetas cm old") (simp_all add: rename_left_def r metas)
      qed
    qed
  qed
qed

section \<open>Batches and the fence\<close>

text \<open>A batch of one record without errors stores the record, stamped.\<close>

lemma batch_effect_single:
  assumes "batch_effect ev m [rec] [] taken old new"
  shows "\<exists>meta b. stampEmbeddingMetadata ev m (bData rec) = Some meta \<and> evJson ev meta = Some b \<and>
    new = old(bID rec \<mapsto> (arena_normalize (bVector rec), b))"
proof -
  have E: "sorted_wrt (<) (map fst taken)" "fst ` set taken = {0}" "\<forall>x\<in>set taken. screened ev m 0 [rec] x \<and> evJson ev (bData (snd x)) \<noteq> None"
    and new: "new = upd_all (bID \<circ> snd) (batch_value ev) old taken"
    using assms by (simp_all add: batch_effect_def)
  have "length taken = card (fst ` set taken)"
    using E(1) distinct_card [of "map fst taken"] by (simp add: strict_sorted_iff)
  then obtain x where "taken = [x]" using E(2) by (auto simp: length_Suc_conv)
  then show ?thesis using E(2,3) new by (cases x) (auto simp: screened_def batch_value_def)
qed

lemma batch_unfenced:
  assumes json: "json_version_law (evParse ev) (evRender ev)" "json_keeps ev"
    and inv: "cm_inv cm" and c: "mgCollections cm c = Some h" and rdy: "cm_ready io 1 (mgDbs cm ! h)"
    and d: "mgMetas cm c = Some d" "mtVersion d \<noteq> []" "mtContract d = Some ct" "fingerprint ev ct \<noteq> mtVersion d" "\<not> wrong_dim (Some d) v"
    and meta: "stampable (evParse ev) meta" "readable (evParse ev) meta" "version_of ev meta = []"
    and run: "CM_BatchInsert ev io cm c [\<lparr>bID = i, bVector = v, bData = meta\<rparr>] = Some ([], cm')"
  shows "CM_Insert ev io cm c i v meta = Some (Some CmContract, cm)"
    "\<exists>m b. cm_abs cm' c = Some m \<and> m i = Some (arena_normalize v, b) \<and> version_of ev (MRaw b) = fingerprint ev ct"
proof -
  obtain meta' where st: "StampMetadata (evLower ev) (evSha ev) (evParse ev) (evRender ev) meta ct = Some meta'" "version_of ev meta' = fingerprint ev ct"
    and kind: "readable (evParse ev) meta'" "case meta' of MRaw _ \<Rightarrow> True | MStrings _ \<Rightarrow> True | MMap m \<Rightarrow> plain_version (nil_map m) | _ \<Rightarrow> False"
    using stamp_version [OF json(1) meta(1)] meta(2) by blast
  have se: "stampEmbeddingMetadata ev (Some d) meta = Some meta'" using d(2,3) meta(3) st(1) by (simp add: stampEmbeddingMetadata_def)
  have "insert_screen ev cm c v meta = Some (Inr meta')"
    using d(1,2,5) meta(3) se by (simp add: insert_screen_def validateEmbeddingContract_def Let_def)
  moreover have "insert_commit ev io c h i v meta' cm = (Some CmContract, cm)"
    using c d(1,2,4) st(2) by (simp add: insert_commit_def validateEmbeddingContract_def Let_def)
  ultimately show "CM_Insert ev io cm c i v meta = Some (Some CmContract, cm)"
    using c by (simp add: CM_Insert_def InsertDeferredHook_def getOrCreate_def)
  have "cm_ready io (length [\<lparr>bID = i, bVector = v, bData = meta\<rparr>]) (mgDbs cm ! h)" using rdy by simp
  from CM_BatchInsert_refines [OF inv c d(1) this run] obtain taken new where
    B: "batch_effect ev (Some d) [\<lparr>bID = i, bVector = v, bData = meta\<rparr>] [] taken (lv_abs (mgDbs cm ! h)) new" "cm_abs cm' = (cm_abs cm)(c \<mapsto> new)" by blast
  from batch_effect_single [OF B(1)] se obtain b where b: "evJson ev meta' = Some b" "new i = Some (arena_normalize v, b)" by auto
  have "utf8_ok (version_of ev meta')" using st(2) Fingerprint_utf8 by simp
  then have "version_of ev (MRaw b) = version_of ev meta'"
    using kind b(1) json_keepsD [OF json(2), where b = b] by (cases meta') simp_all
  then show "\<exists>m b. cm_abs cm' c = Some m \<and> m i = Some (arena_normalize v, b) \<and> version_of ev (MRaw b) = fingerprint ev ct"
    using B(2) b(2) st(2) by auto
qed

end
