(* ===== verification/Demo_Collections.thy ===== *)
theory Demo_Collections
  imports Demo_Cluster Collection_Life
begin

text \<open>
  A manager with one collection, for the witnesses: \<open>c\<close> holds the empty engine, and its description names the concrete
  contract under a version of choice.
\<close>

section \<open>The environment\<close>

definition demo_json :: "metadata \<Rightarrow> bytes option" where
  "demo_json meta =
     (case meta of
        MRaw b \<Rightarrow> Some b
      | MMap m \<Rightarrow> demo_render (nil_map m)
      | MStrings m \<Rightarrow> demo_render (\<lambda>k. map_option JString (nil_map m k))
      | _ \<Rightarrow> Some ''y'')"

definition demo_ev :: cm_env where
  "demo_ev =
     \<lparr>evLower = (\<lambda>s. s), evSha = (\<lambda>b. b), evParse = demo_parse, evRender = demo_render, evJson = demo_json, evGetenv = (\<lambda>_. []),
      evDot = demo_dot\<rparr>"

definition demo_io :: cm_io where
  "demo_io =
     \<lparr>ioCwd = Some ''/'', ioMkdir = True, ioLevels = (\<lambda>_. 0), ioReplay = (\<lambda>_. DiskOk), ioTrunc = True, ioDurable = 0, ioSave = True,
      ioNow = ''now'', ioClose = FlushOk, ioRename = True, ioBack = True, ioReopen = (\<lambda>_. DiskOk), ioRemove = True, ioLeft = None,
      ioDisk = (\<lambda>_. DiskOk), ioWal = (\<lambda>_. WriteOk), ioFlush = FlushOk\<rparr>"

abbreviation demo_fp :: string where
  "demo_fp \<equiv> Fingerprint (\<lambda>s. s) (\<lambda>b. b) demo_contract"

definition demo_meta :: "string \<Rightarrow> CollectionMeta" where
  "demo_meta vers =
     \<lparr>mtName = ''c'', mtModel = ''m'', mtDim = 1, mtMetric = ''cosine'', mtVersion = vers, mtContract = Some demo_contract, mtDomain = [],
      mtArchivedFrom = [], mtArchiveReason = [], mtRetention = [], mtCount = 0, mtCreated = [], mtUpdated = []\<rparr>"

definition demo_cm :: "string \<Rightarrow> CollectionManager" where
  "demo_cm vers =
     \<lparr>mgDbs = [demo_db0], mgCollections = [''c'' \<mapsto> 0], mgMetas = [''c'' \<mapsto> demo_meta vers], mgDim = 1, mgBase = ''/data'',
      mgCfg = DefaultHNSWConfig, mgModel = ''m'', mgContract = demo_contract, mgHook = False, mgHooked = [], mgDirs = [''c'' \<mapsto> new_dir]\<rparr>"

lemma demo_json_keeps: "json_keeps demo_ev"
  by (auto simp: json_keeps_def demo_ev_def demo_json_def demo_render_def demo_parse_def VersionFromMetadata_def versionFromJSON_def
      stringField_def nil_map_def split: metadata.splits option.splits jval.splits)

lemma demo_ev_json: "json_version_law (evParse demo_ev) (evRender demo_ev)"
  using demo_json_law by (simp add: demo_ev_def)

section \<open>The manager\<close>

lemma demo_cm_inv: "cm_inv (demo_cm vers)"
  using demo_db0_inv by (auto simp: cm_inv_def demo_cm_def lv_ok_def split: if_splits)

lemma demo_cm_fields:
  "mgCollections (demo_cm vers) ''c'' = Some 0" "mgDbs (demo_cm vers) ! 0 = demo_db0" "mgMetas (demo_cm vers) ''c'' = Some (demo_meta vers)"
  "cm_abs (demo_cm vers) = [''c'' \<mapsto> Map.empty]"
  using demo_db0_fields(6) by (auto simp: demo_cm_def cm_abs_def fun_eq_iff)

lemma demo_cm_ready: "cm_ready demo_io 1 demo_db0"
  using demo_rooms(1) by (simp add: cm_ready_def room_for_def demo_io_def)

definition demo_stamped :: metadata where
  "demo_stamped = MRaw (CHR ''x'' # demo_fp)"

lemma demo_unversioned: "version_of demo_ev (MRaw ''y'') = []"
  by (simp add: VersionFromMetadata_def versionFromJSON_def demo_ev_def demo_parse_def stringField_def nil_map_def)

lemma demo_stampable: "stampable (evParse demo_ev) (MRaw ''y'')" "readable (evParse demo_ev) (MRaw ''y'')"
  by (simp_all add: demo_ev_def demo_parse_def)

lemma demo_stamp: "StampMetadata (evLower demo_ev) (evSha demo_ev) (evParse demo_ev) (evRender demo_ev) (MRaw ''y'') demo_contract = Some demo_stamped"
  by (simp add: StampMetadata_def stampJSONBytes_def demo_ev_def demo_parse_def demo_render_def demo_stamped_def)

lemma demo_stamped_version: "version_of demo_ev demo_stamped = demo_fp"
  by (simp add: VersionFromMetadata_def versionFromJSON_def demo_ev_def demo_parse_def stringField_def nil_map_def demo_stamped_def
      TrimSpace_id Fingerprint_trimmed)

lemma demo_check_stamped: "Insert_check demo_db0 ''a'' demo_vec (CHR ''x'' # demo_fp) = None"
proof -
  have "length demo_fp \<le> 28" by (simp add: Fingerprint_def)
  then show ?thesis
    using demo_finite demo_db0_fields(5)
    by (simp add: Insert_check_def validateWALRecord_def demo_vec_def OpInsert_def OpDelete_def mib_def noLocation_def f32_finite_def)
qed

lemma demo_dims: "\<not> wrong_dim (Some (demo_meta vers)) demo_vec"
  by (simp add: wrong_dim_def demo_meta_def demo_vec_def)

section \<open>Runs\<close>

lemma demo_cm_screen:
  assumes "vers \<noteq> []"
  shows "insert_screen demo_ev (demo_cm vers) ''c'' demo_vec (MRaw ''y'') = Some (Inr demo_stamped)"
  using assms demo_cm_fields(3) demo_dims demo_unversioned demo_stamp
  by (simp add: insert_screen_def validateEmbeddingContract_def stampEmbeddingMetadata_def demo_meta_def Let_def)

lemma demo_cm_insert: "\<exists>cm'. CM_Insert demo_ev demo_io (demo_cm demo_fp) ''c'' ''a'' demo_vec (MRaw ''y'') = Some (None, cm')"
proof -
  have "\<exists>db'. Insert (json_data demo_ev) DiskOk WriteOk FlushOk demo_db0 ''a'' demo_vec (DRaw (CHR ''x'' # demo_fp)) = (None, db')"
    using demo_db0_fields demo_check_stamped demo_finite
    by (intro Insert_succeeds [OF demo_db0_inv, of _ _ "CHR ''x'' # demo_fp"]) (simp_all add: insert_bytes_def)
  then obtain db' where ins: "Insert (json_data demo_ev) DiskOk WriteOk FlushOk demo_db0 ''a'' demo_vec (data_of demo_stamped) = (None, db')"
    by (auto simp: data_of_def demo_stamped_def)
  have "insert_commit demo_ev demo_io ''c'' 0 ''a'' demo_vec demo_stamped (demo_cm demo_fp) = (None, store_db 0 db' (demo_cm demo_fp))"
    using ins demo_cm_fields(1-3) demo_stamped_version
    by (simp add: insert_commit_def validateEmbeddingContract_def demo_meta_def demo_io_def Let_def)
  then show ?thesis
    using demo_cm_screen [of demo_fp] demo_cm_fields(1) by (simp add: CM_Insert_def InsertDeferredHook_def getOrCreate_def)
qed

definition demo_rec :: "metadata BatchItem" where
  "demo_rec = \<lparr>bID = ''a'', bVector = demo_vec, bData = MRaw ''y''\<rparr>"

lemma demo_cm_batch: 
  assumes "vers \<noteq> []"
  shows "\<exists>cm'. CM_BatchInsert demo_ev demo_io (demo_cm vers) ''c'' [demo_rec] = Some ([], cm')"
proof -
  have scr: "batch_screen demo_ev (demo_cm vers) ''c'' [demo_rec] = Some ([(0, demo_rec\<lparr>bData := demo_stamped\<rparr>)], [])"
    using assms demo_cm_fields(3) demo_dims demo_unversioned demo_stamp
    by (simp add: batch_screen_def validateEmbeddingContract_def stampEmbeddingMetadata_def demo_meta_def demo_rec_def Let_def)
  obtain es db' where bi: "BatchInsert (evJson demo_ev) (\<lambda>_. DiskOk) (\<lambda>_. WriteOk) FlushOk demo_db0 [demo_rec\<lparr>bData := demo_stamped\<rparr>] = (es, db')" by fastforce
  have "es = []"
    using BatchInsert_good(1) [OF demo_healthy(1) bi] demo_check_stamped demo_finite
    by (simp add: batch_verdict_def demo_rec_def demo_ev_def demo_json_def demo_stamped_def overflow_error_def list_all_iff)
  then show ?thesis
    using scr bi demo_cm_fields(1,2)
    by (simp add: CM_BatchInsert_def batch_write_def getOrCreate_def demo_io_def Let_def)
qed

lemma demo_cm_rename: "\<exists>cm'. CM_Rename demo_ev demo_io (demo_cm demo_fp) ''c'' ''d'' = (None, cm')"
proof -
  have names: "safeCollectionDir (Some ''/'') ''/data'' ''c'' = Inr ''/data/c''" "safeCollectionDir (Some ''/'') ''/data'' ''d'' = Inr ''/data/d''"
    by code_simp+
  obtain db' where cl: "Close FlushOk demo_db0 = (None, db')"
    using demo_db0_fields(1,3) by (simp add: Close_def WAL_Close_def Let_def)
  have "\<exists>db2. reopen demo_ev demo_io (\<lambda>_. DiskOk) cm (dbDim db') (closed_dir db' d) = Inr db2" for cm d
    using close_reopen(3) [OF demo_db0_inv _ cl, where ev = demo_ev and io = demo_io and dio = "\<lambda>_. DiskOk" and cm = cm and d = d]
    by (cases "reopen demo_ev demo_io (\<lambda>_. DiskOk) cm (dbDim db') (closed_dir db' d)") (auto simp: demo_io_def)
  then obtain f where opened: "reopen demo_ev demo_io (\<lambda>_. DiskOk) cm (dbDim db') (closed_dir db' d) = Inr (f cm d)" for cm d by metis
  have io: "ioClose demo_io = FlushOk" "ioRename demo_io" "ioReopen demo_io = (\<lambda>_. DiskOk)" "ioCwd demo_io = Some ''/''"
    by (simp_all add: demo_io_def)
  have cm: "mgCollections (demo_cm demo_fp) ''c'' = Some 0" "mgCollections (demo_cm demo_fp) ''d'' = None" "mgDirs (demo_cm demo_fp) ''d'' = None"
    "mgBase (demo_cm demo_fp) = ''/data''" "mgDbs (demo_cm demo_fp) ! 0 = demo_db0"
    by (simp_all add: demo_cm_def)
  show ?thesis unfolding CM_Rename_def using names cl by (simp add: io cm opened Let_def)
qed

end
