(* ===== verification/Embed_Breaker.thy ===== *)
theory Embed_Breaker
  imports Prelude
begin

text \<open>
  \<open>pkg/embed/breaker.go\<close>: the circuit breaker in front of the embedding service, and its use by concurrent requests.

  Times are nanoseconds, and the zero time is \<open>None\<close>; every operation takes the time it reads. The generation, a \<open>uint64\<close>
  that counts the openings, is a natural number: it does not wrap in the life of a process.
\<close>

section \<open>The breaker\<close>

record Breaker =
  bkFailures :: int
  bkProbing :: bool
  bkGeneration :: nat
  bkOpenUntil :: "int option"
  bkThreshold :: int
  bkCooldown :: int

datatype breaker_error = BreakerOpenError "int option"

definition NewBreaker :: "int \<Rightarrow> int \<Rightarrow> Breaker" where
  "NewBreaker threshold cooldown =
     \<lparr>bkFailures = 0, bkProbing = False, bkGeneration = 0, bkOpenUntil = None,
      bkThreshold = (if threshold < 1 then 3 else threshold), bkCooldown = (if cooldown \<le> 0 then 30 * 10 ^ 9 else cooldown)\<rparr>"

definition checkLocked :: "int \<Rightarrow> Breaker \<Rightarrow> breaker_error option" where
  "checkLocked now b =
     (if bkProbing b \<or> (case bkOpenUntil b of None \<Rightarrow> False | Some t \<Rightarrow> now < t) then Some (BreakerOpenError (bkOpenUntil b)) else None)"

definition breaker_acquire :: "int \<Rightarrow> Breaker \<Rightarrow> (breaker_error + nat \<times> bool) \<times> Breaker" where
  "breaker_acquire now b =
     (case checkLocked now b of
        Some e \<Rightarrow> (Inl e, b)
      | None \<Rightarrow>
          let probe = (bkOpenUntil b \<noteq> None) in
          (Inr (bkGeneration b, probe), if probe then b\<lparr>bkProbing := True\<rparr> else b))"

definition Breaker_Allow :: "int \<Rightarrow> Breaker \<Rightarrow> breaker_error option \<times> Breaker" where
  "Breaker_Allow now b = (case breaker_acquire now b of (Inl e, b') \<Rightarrow> (Some e, b') | (Inr _, b') \<Rightarrow> (None, b'))"

definition breaker_check :: "int \<Rightarrow> Breaker \<Rightarrow> breaker_error option" where
  "breaker_check now b = checkLocked now b"

definition breaker_abort :: "nat \<Rightarrow> Breaker \<Rightarrow> Breaker" where
  "breaker_abort generation b = (if generation = bkGeneration b then b\<lparr>bkProbing := False\<rparr> else b)"

definition recordSuccessLocked :: "Breaker \<Rightarrow> Breaker" where
  "recordSuccessLocked b = b\<lparr>bkProbing := False, bkFailures := 0, bkOpenUntil := None\<rparr>"

definition recordFailureLocked :: "int \<Rightarrow> Breaker \<Rightarrow> Breaker" where
  "recordFailureLocked now b =
     (let b1 = b\<lparr>bkProbing := False, bkFailures := bkFailures b + 1\<rparr> in
      if bkThreshold b1 \<le> bkFailures b1
      then b1\<lparr>bkGeneration := bkGeneration b1 + 1, bkOpenUntil := Some (now + bkCooldown b1)\<rparr> else b1)"

definition breaker_complete :: "int \<Rightarrow> nat \<Rightarrow> bool \<Rightarrow> Breaker \<Rightarrow> Breaker" where
  "breaker_complete now generation failed b =
     (if generation \<noteq> bkGeneration b then b else if failed then recordFailureLocked now b else recordSuccessLocked b)"

definition RecordSuccess :: "Breaker \<Rightarrow> Breaker" where
  "RecordSuccess b = recordSuccessLocked b"

definition RecordFailure :: "int \<Rightarrow> Breaker \<Rightarrow> Breaker" where
  "RecordFailure now b = recordFailureLocked now b"

definition Breaker_State :: "int \<Rightarrow> Breaker \<Rightarrow> string" where
  "Breaker_State now b =
     (case bkOpenUntil b of None \<Rightarrow> ''closed'' | Some t \<Rightarrow> if t < now then ''half-open'' else ''open'')"

section \<open>Requests\<close>

text \<open>
  The requests of all clients that share a breaker. A request that was admitted holds its generation and whether it is the probe; it
  ends by an observation, by releasing its probe, or silently when it is not a probe. A failure can also be recorded from outside.
\<close>

record BreakerRun =
  brBreaker :: Breaker
  brRequests :: "(nat \<times> bool) list"

inductive breaker_step :: "BreakerRun \<Rightarrow> BreakerRun \<Rightarrow> bool" where
  admit: "breaker_acquire now (brBreaker s) = (Inr req, b') \<Longrightarrow> breaker_step s (s\<lparr>brBreaker := b', brRequests := req # brRequests s\<rparr>)"
| reject: "breaker_acquire now (brBreaker s) = (Inl e, b') \<Longrightarrow> breaker_step s (s\<lparr>brBreaker := b'\<rparr>)"
| observed: "(g, probe) \<in> set (brRequests s) \<Longrightarrow>
    breaker_step s (s\<lparr>brBreaker := breaker_complete now g failed (brBreaker s), brRequests := remove1 (g, probe) (brRequests s)\<rparr>)"
| aborted: "(g, True) \<in> set (brRequests s) \<Longrightarrow>
    breaker_step s (s\<lparr>brBreaker := breaker_abort g (brBreaker s), brRequests := remove1 (g, True) (brRequests s)\<rparr>)"
| silent: "(g, False) \<in> set (brRequests s) \<Longrightarrow> breaker_step s (s\<lparr>brRequests := remove1 (g, False) (brRequests s)\<rparr>)"

definition breaker_start :: "int \<Rightarrow> int \<Rightarrow> BreakerRun" where
  "breaker_start threshold cooldown = \<lparr>brBreaker = NewBreaker threshold cooldown, brRequests = []\<rparr>"

definition breaker_run :: "BreakerRun \<Rightarrow> BreakerRun \<Rightarrow> bool" where
  "breaker_run = breaker_step\<^sup>*\<^sup>*"

section \<open>One probe at a time\<close>

text \<open>
  Only the current generation has a probe, and then no other request of it is in flight; an open breaker has seen its threshold.
\<close>

definition breaker_inv :: "BreakerRun \<Rightarrow> bool" where
  "breaker_inv s \<longleftrightarrow>
     (let b = brBreaker s; reqs = brRequests s in
      (\<forall>(g, probe)\<in>set reqs. g \<le> bkGeneration b \<and> (probe \<longrightarrow> g = bkGeneration b)) \<and>
      count_list reqs (bkGeneration b, True) = (if bkProbing b then 1 else 0) \<and>
      (bkProbing b \<longrightarrow> bkOpenUntil b \<noteq> None) \<and>
      (bkOpenUntil b \<noteq> None \<longrightarrow> (bkGeneration b, False) \<notin> set reqs \<and> bkThreshold b \<le> bkFailures b) \<and>
      (bkOpenUntil b = None \<longrightarrow> bkFailures b < bkThreshold b) \<and> 0 \<le> bkFailures b \<and> 0 < bkThreshold b)"

lemma breaker_start_inv: "breaker_inv (breaker_start threshold cooldown)"
  by (simp add: breaker_inv_def breaker_start_def NewBreaker_def)

lemma count_remove1: "count_list (remove1 x xs) y = (if x = y then count_list xs y - 1 else count_list xs y)"
  by (induction xs) (auto simp: count_list_0_iff)

lemma breaker_remove:
  assumes "breaker_inv s" "(g, probe) \<in> set (brRequests s)"
  shows "\<forall>(g', p)\<in>set (remove1 (g, probe) (brRequests s)). g' \<le> bkGeneration (brBreaker s) \<and> (p \<longrightarrow> g' = bkGeneration (brBreaker s))"
    "g = bkGeneration (brBreaker s) \<Longrightarrow> count_list (remove1 (g, probe) (brRequests s)) (g, True) = 0 \<or> \<not> probe"
    "g = bkGeneration (brBreaker s) \<Longrightarrow> probe = bkProbing (brBreaker s)"
    "g \<noteq> bkGeneration (brBreaker s) \<Longrightarrow> \<not> probe"
proof -
  have I: "\<forall>(g', p)\<in>set (brRequests s). g' \<le> bkGeneration (brBreaker s) \<and> (p \<longrightarrow> g' = bkGeneration (brBreaker s))"
    "count_list (brRequests s) (bkGeneration (brBreaker s), True) = (if bkProbing (brBreaker s) then 1 else 0)"
    "bkProbing (brBreaker s) \<Longrightarrow> (bkGeneration (brBreaker s), False) \<notin> set (brRequests s)"
    using assms(1) by (auto simp: breaker_inv_def Let_def)
  show "\<forall>(g', p)\<in>set (remove1 (g, probe) (brRequests s)). g' \<le> bkGeneration (brBreaker s) \<and> (p \<longrightarrow> g' = bkGeneration (brBreaker s))"
    using I(1) set_remove1_subset [of "(g, probe)" "brRequests s"] by blast
  show "g \<noteq> bkGeneration (brBreaker s) \<Longrightarrow> \<not> probe" using I(1) assms(2) by auto
  assume g: "g = bkGeneration (brBreaker s)"
  show "count_list (remove1 (g, probe) (brRequests s)) (g, True) = 0 \<or> \<not> probe" using I(2) by (simp add: g count_remove1)
  show "probe = bkProbing (brBreaker s)"
    using I(2,3) assms(2) g by (cases probe) (auto simp: count_list_0_iff split: if_splits)
qed

text \<open>What an observation leaves: no probe of the current generation, and none but older requests once the breaker opens.\<close>

lemma breaker_step_inv:
  assumes "breaker_step s s'" "breaker_inv s"
  shows "breaker_inv s'"
  using assms
proof (cases rule: breaker_step.cases)
  case (admit now req b')
  let ?b = "brBreaker s"
  have out: "\<not> bkProbing ?b" "req = (bkGeneration ?b, bkOpenUntil ?b \<noteq> None)"
    "b' = (if bkOpenUntil ?b \<noteq> None then ?b\<lparr>bkProbing := True\<rparr> else ?b)"
    using admit(2) by (auto simp: breaker_acquire_def checkLocked_def Let_def split: option.splits if_splits)
  show ?thesis
  proof (cases "bkOpenUntil ?b = None")
    case True
    then show ?thesis using assms(2) out admit(1) by (simp add: breaker_inv_def Let_def)
  next
    case False
    then have "b' = ?b\<lparr>bkProbing := True\<rparr>" "req = (bkGeneration ?b, True)" using out by simp_all
    then show ?thesis using False assms(2) out(1) admit(1) by (simp add: breaker_inv_def Let_def)
  qed
next
  case (reject now e b')
  then show ?thesis
    using assms(2) by (auto simp: breaker_acquire_def Let_def split: option.splits)
next
  case (observed g probe now failed)
  note R = breaker_remove [OF assms(2) observed(2)]
  let ?b = "brBreaker s" and ?rest = "remove1 (g, probe) (brRequests s)"
  show ?thesis
  proof (cases "g = bkGeneration ?b")
    case False
    then show ?thesis
      using observed assms(2) R by (auto simp: breaker_inv_def Let_def breaker_complete_def count_remove1 dest: notin_set_remove1)
  next
    case True
    have none: "count_list ?rest (bkGeneration ?b, True) = 0"
      using R(2,3) True assms(2) by (cases probe) (auto simp: breaker_inv_def Let_def count_remove1)
    have older: "\<forall>(g', p)\<in>set ?rest. g' \<le> bkGeneration ?b \<and> \<not> p"
    proof (clarify)
      fix g' p assume x: "(g', p) \<in> set ?rest"
      then have le: "g' \<le> bkGeneration ?b" "p \<longrightarrow> g' = bkGeneration ?b" using R(1) by auto
      moreover have "(bkGeneration ?b, True) \<notin> set ?rest" using none by (rule iffD1 [OF count_list_0_iff])
      ultimately show "g' \<le> bkGeneration ?b \<and> \<not> p" using x by (cases p) auto
    qed
    have fails: "0 \<le> bkFailures ?b" "bkOpenUntil ?b \<noteq> None \<Longrightarrow> bkThreshold ?b \<le> bkFailures ?b" "0 < bkThreshold ?b"
      using assms(2) by (auto simp: breaker_inv_def Let_def)
    have le: "\<forall>(g', p)\<in>set ?rest. g' \<le> n \<and> (p \<longrightarrow> g' = n)" if "bkGeneration ?b \<le> n" for n
      using older that by (auto dest: le_trans)
    have absent: "(bkGeneration ?b, True) \<notin> set ?rest" "(Suc (bkGeneration ?b), p) \<notin> set ?rest" for p
      using none older by (auto simp: count_list_0_iff)
    show ?thesis
    proof (cases "failed \<and> bkThreshold ?b \<le> bkFailures ?b + 1")
      case opens: True
      have "count_list ?rest (Suc (bkGeneration ?b), True) = 0" using absent(2) by (rule iffD2 [OF count_list_0_iff])
      then show ?thesis
        using observed(1) True opens le [of "Suc (bkGeneration ?b)"] absent(2) fails(1,3)
        by (simp add: breaker_inv_def Let_def breaker_complete_def recordFailureLocked_def)
    next
      case stays: False
      then have "failed \<Longrightarrow> bkOpenUntil ?b = None" using fails(2) by force
      then show ?thesis
        using observed(1) True stays le [of "bkGeneration ?b"] none fails(1,3)
        by (cases failed) (simp_all add: breaker_inv_def Let_def breaker_complete_def recordFailureLocked_def recordSuccessLocked_def)
    qed
  qed
next
  case (aborted g)
  note R = breaker_remove [OF assms(2) aborted(2)]
  then have g: "g = bkGeneration (brBreaker s)" "bkProbing (brBreaker s)" by auto
  have "count_list (remove1 (g, True) (brRequests s)) (g, True) = 0" using R(2) g by simp
  then show ?thesis
    using aborted assms(2) R(1) g
    by (auto simp: breaker_inv_def Let_def breaker_abort_def dest: notin_set_remove1)
next
  case (silent g)
  then show ?thesis using assms(2) by (auto simp: breaker_inv_def Let_def count_remove1 dest: notin_set_remove1)
qed

lemma breaker_run_inv: "breaker_run s s' \<Longrightarrow> breaker_inv s \<Longrightarrow> breaker_inv s'"
  unfolding breaker_run_def by (induction rule: rtranclp_induct) (auto intro: breaker_step_inv)

lemma single_probe:
  assumes "breaker_inv s"
  shows "length (filter snd (brRequests s)) = (if bkProbing (brBreaker s) then 1 else 0)"
proof -
  have "filter snd (brRequests s) = filter (\<lambda>r. (bkGeneration (brBreaker s), True) = r) (brRequests s)"
    using assms by (intro filter_cong) (auto simp: breaker_inv_def Let_def)
  then show ?thesis using assms by (simp add: breaker_inv_def Let_def count_list_eq_length_filter)
qed

text \<open>What a request meets: it is refused while a probe is out or the cooldown lasts, and admitted otherwise.\<close>

lemma breaker_admits:
  "fst (breaker_acquire now b) = (if bkProbing b \<or> (\<exists>t. bkOpenUntil b = Some t \<and> now < t) then Inl (BreakerOpenError (bkOpenUntil b))
     else Inr (bkGeneration b, bkOpenUntil b \<noteq> None))"
  by (auto simp: breaker_acquire_def checkLocked_def Let_def split: option.splits)

text \<open>It opens after as many failures in a row as its threshold says, and not before.\<close>

lemma breaker_failures:
  assumes "bkOpenUntil b = None" "bkFailures b = 0" "0 < bkThreshold b"
  shows "bkOpenUntil ((RecordFailure now ^^ n) b) = (if int n < bkThreshold b then None else Some (now + bkCooldown b))"
proof -
  let ?b = "(RecordFailure now ^^ n) b"
  have "bkFailures ?b = int n \<and> bkThreshold ?b = bkThreshold b \<and> bkCooldown ?b = bkCooldown b \<and>
    bkOpenUntil ?b = (if int n < bkThreshold b then None else Some (now + bkCooldown b))"
    using assms by (induction n) (auto simp: RecordFailure_def recordFailureLocked_def Let_def)
  then show ?thesis by simp
qed

end
