(* ===== verification/Embed_Gate.thy ===== *)
theory Embed_Gate
  imports Prelude
begin

text \<open>
  \<open>pkg/embed/priority.go\<close>: the admission gate for the embedding service. A condition variable wakes its waiters only when somebody
  broadcasts, so a waiter is parked or awake, and the cancellation of its context alone does not wake it.
\<close>

section \<open>The gate\<close>

record PriorityGate =
  pgInflight :: int
  pgMax :: int
  pgBgWaiting :: int
  pgFgWaiting :: int
  pgClosed :: bool

definition NewPriorityGate :: "int \<Rightarrow> PriorityGate" where
  "NewPriorityGate mx = \<lparr>pgInflight = 0, pgMax = (if mx < 1 then 1 else mx), pgBgWaiting = 0, pgFgWaiting = 0, pgClosed = False\<rparr>"

datatype gate_verdict = GateAdmitted | GateCanceled | GateCtx | GateWait

definition startWaiting :: "bool \<Rightarrow> PriorityGate \<Rightarrow> PriorityGate" where
  "startWaiting background g =
     (if background then g\<lparr>pgBgWaiting := pgBgWaiting g + 1\<rparr> else g\<lparr>pgFgWaiting := pgFgWaiting g + 1\<rparr>)"

definition doneWaiting :: "bool \<Rightarrow> PriorityGate \<Rightarrow> PriorityGate" where
  "doneWaiting background g =
     (if background then g\<lparr>pgBgWaiting := pgBgWaiting g - 1\<rparr> else g\<lparr>pgFgWaiting := pgFgWaiting g - 1\<rparr>)"

text \<open>One turn of the loop of \<open>acquire\<close>; \<open>cancelled\<close> is whether the context has an error.\<close>

definition gate_turn :: "bool \<Rightarrow> bool \<Rightarrow> PriorityGate \<Rightarrow> gate_verdict \<times> PriorityGate" where
  "gate_turn background cancelled g =
     (if pgClosed g then (GateCanceled, doneWaiting background g)
      else if cancelled then (GateCtx, doneWaiting background g)
      else if pgInflight g < pgMax g \<and> (\<not> background \<or> pgFgWaiting g = 0)
      then (GateAdmitted, doneWaiting background (g\<lparr>pgInflight := pgInflight g + 1\<rparr>))
      else (GateWait, g))"

definition gate_release :: "PriorityGate \<Rightarrow> PriorityGate" where
  "gate_release g = g\<lparr>pgInflight := pgInflight g - 1\<rparr>"

definition waitingForeground :: "PriorityGate \<Rightarrow> int" where
  "waitingForeground g = pgFgWaiting g"

definition Gate_Close :: "PriorityGate \<Rightarrow> PriorityGate" where
  "Gate_Close g = g\<lparr>pgClosed := True\<rparr>"

section \<open>Concurrent requests\<close>

text \<open>
  A waiter is whether it is a background request and whether its context has been cancelled. A parked waiter runs again only after a
  broadcast; \<open>release\<close> and \<open>Close\<close> broadcast.
\<close>

type_synonym waiter = "bool \<times> bool"

record GateRun =
  grGate :: PriorityGate
  grParked :: "waiter list"
  grAwake :: "waiter list"

datatype gate_event = GArrive | GWake | GCancel | GRelease | GClose

inductive gate_step :: "gate_event \<Rightarrow> GateRun \<Rightarrow> GateRun \<Rightarrow> bool" where
  arrive: "gate_turn bg c (startWaiting bg (grGate s)) = (v, g') \<Longrightarrow>
    gate_step GArrive s (s\<lparr>grGate := g', grParked := (if v = GateWait then (bg, c) # grParked s else grParked s)\<rparr>)"
| wake: "(bg, c) \<in> set (grAwake s) \<Longrightarrow> gate_turn bg c (grGate s) = (v, g') \<Longrightarrow>
    gate_step GWake s (s\<lparr>grGate := g', grAwake := remove1 (bg, c) (grAwake s),
      grParked := (if v = GateWait then (bg, c) # grParked s else grParked s)\<rparr>)"
| cancel_parked: "(bg, False) \<in> set (grParked s) \<Longrightarrow>
    gate_step GCancel s (s\<lparr>grParked := (bg, True) # remove1 (bg, False) (grParked s)\<rparr>)"
| cancel_awake: "(bg, False) \<in> set (grAwake s) \<Longrightarrow>
    gate_step GCancel s (s\<lparr>grAwake := (bg, True) # remove1 (bg, False) (grAwake s)\<rparr>)"
| release: "0 < pgInflight (grGate s) \<Longrightarrow>
    gate_step GRelease s (s\<lparr>grGate := gate_release (grGate s), grParked := [], grAwake := grParked s @ grAwake s\<rparr>)"
| close: "gate_step GClose s (s\<lparr>grGate := Gate_Close (grGate s), grParked := [], grAwake := grParked s @ grAwake s\<rparr>)"

definition gate_start :: "int \<Rightarrow> GateRun" where
  "gate_start mx = \<lparr>grGate = NewPriorityGate mx, grParked = [], grAwake = []\<rparr>"

inductive gate_run :: "gate_event list \<Rightarrow> GateRun \<Rightarrow> GateRun \<Rightarrow> bool" where
  gate_done: "gate_run [] s s"
| gate_more: "gate_run es s s1 \<Longrightarrow> gate_step e s1 s' \<Longrightarrow> gate_run (es @ [e]) s s'"

section \<open>The bound and the counters\<close>

lemma waiting_counts [simp]:
  "pgInflight (startWaiting bg g) = pgInflight g" "pgMax (startWaiting bg g) = pgMax g" "pgClosed (startWaiting bg g) = pgClosed g"
  "pgBgWaiting (startWaiting bg g) = pgBgWaiting g + (if bg then 1 else 0)" "pgFgWaiting (startWaiting bg g) = pgFgWaiting g + (if bg then 0 else 1)"
  "pgInflight (doneWaiting bg g) = pgInflight g" "pgMax (doneWaiting bg g) = pgMax g" "pgClosed (doneWaiting bg g) = pgClosed g"
  "pgBgWaiting (doneWaiting bg g) = pgBgWaiting g - (if bg then 1 else 0)" "pgFgWaiting (doneWaiting bg g) = pgFgWaiting g - (if bg then 0 else 1)"
  by (simp_all add: startWaiting_def doneWaiting_def)

definition waiting :: "bool \<Rightarrow> GateRun \<Rightarrow> int" where
  "waiting bg s = int (length (filter (\<lambda>w. fst w = bg) (grParked s @ grAwake s)))"

definition gate_inv :: "GateRun \<Rightarrow> bool" where
  "gate_inv s \<longleftrightarrow>
     (let g = grGate s in
      0 \<le> pgInflight g \<and> pgInflight g \<le> pgMax g \<and> 1 \<le> pgMax g \<and> pgBgWaiting g = waiting True s \<and> pgFgWaiting g = waiting False s)"

lemma gate_start_inv: "gate_inv (gate_start mx)"
  by (simp add: gate_inv_def gate_start_def NewPriorityGate_def waiting_def)

lemma filter_remove1_int:
  "x \<in> set xs \<Longrightarrow> int (length (filter P (remove1 x xs))) = int (length (filter P xs)) - (if P x then 1 else 0)"
  by (induction xs) (auto split: if_splits)

lemmas remove_counts = filter_remove1_int [of _ _ fst] filter_remove1_int [of _ _ "\<lambda>w. \<not> fst w"]

lemma gate_turn_cases:
  assumes "gate_turn bg c g = (v, g')"
  obtains (stays) "v = GateWait" "g' = g" "\<not> pgClosed g" "\<not> c" "pgMax g \<le> pgInflight g \<or> bg \<and> pgFgWaiting g \<noteq> 0"
  | (admitted) "v = GateAdmitted" "g' = doneWaiting bg (g\<lparr>pgInflight := pgInflight g + 1\<rparr>)" "\<not> pgClosed g" "pgInflight g < pgMax g"
      "\<not> bg \<or> pgFgWaiting g = 0"
  | (leaves) "v \<noteq> GateWait" "g' = doneWaiting bg g" "pgClosed g \<or> c"
  using assms by (auto simp: gate_turn_def split: if_splits)

lemma waiting_fields: "grParked s' = grParked s \<Longrightarrow> grAwake s' = grAwake s \<Longrightarrow> waiting bg s' = waiting bg s"
  by (simp add: waiting_def)

lemma gate_step_inv:
  assumes "gate_step e s s'" "gate_inv s"
  shows "gate_inv s'"
  using assms
proof (cases rule: gate_step.cases)
  case (arrive bg c v g')
  from arrive(3) show ?thesis
    by (cases rule: gate_turn_cases)
      (use assms(2) arrive(2) in \<open>auto simp: gate_inv_def Let_def waiting_def\<close>)
next
  case (wake bg c v g')
  note rm = remove_counts [OF wake(3)]
  from wake(4) show ?thesis
    by (cases rule: gate_turn_cases)
      (use assms(2) wake(2) rm in \<open>auto simp: gate_inv_def Let_def waiting_def\<close>)
next
  case (cancel_parked bg)
  then show ?thesis using assms(2) remove_counts [OF cancel_parked(3)] by (cases bg) (auto simp: gate_inv_def Let_def waiting_def)
next
  case (cancel_awake bg)
  then show ?thesis using assms(2) remove_counts [OF cancel_awake(3)] by (cases bg) (auto simp: gate_inv_def Let_def waiting_def)
next
  case release
  then show ?thesis using assms(2) by (simp add: gate_inv_def Let_def waiting_def gate_release_def)
next
  case close
  then show ?thesis using assms(2) by (simp add: gate_inv_def Let_def waiting_def Gate_Close_def)
qed

lemma gate_run_inv: "gate_run es s s' \<Longrightarrow> gate_inv s \<Longrightarrow> gate_inv s'"
  by (induction rule: gate_run.induct) (auto intro: gate_step_inv)

lemma gate_step_max: "gate_step e s s' \<Longrightarrow> pgMax (grGate s') = pgMax (grGate s)"
  by (erule gate_step.cases) (auto simp: gate_release_def Gate_Close_def elim!: gate_turn_cases)

lemma gate_run_max: "gate_run es s s' \<Longrightarrow> pgMax (grGate s') = pgMax (grGate s)"
  by (induction rule: gate_run.induct) (simp_all add: gate_step_max)

section \<open>Progress without cancellations\<close>

text \<open>
  A parked foreground request found every slot taken, and since then none was released. A parked background request found the same, or
  a foreground request that is still to run.
\<close>

definition gate_live :: "GateRun \<Rightarrow> bool" where
  "gate_live s \<longleftrightarrow>
     (let g = grGate s in
      \<not> pgClosed g \<and> (\<forall>w\<in>set (grParked s @ grAwake s). \<not> snd w) \<and>
      ((False, False) \<in> set (grParked s) \<longrightarrow> pgInflight g = pgMax g) \<and>
      (grParked s \<noteq> [] \<longrightarrow> 0 < pgInflight g \<or> (False, False) \<in> set (grAwake s)))"

lemma gate_start_live: "gate_live (gate_start mx)"
  by (simp add: gate_live_def gate_start_def NewPriorityGate_def)

lemma foreground_waits: "gate_inv s \<Longrightarrow> pgFgWaiting (grGate s) \<noteq> 0 \<Longrightarrow> \<exists>c. (False, c) \<in> set (grParked s) \<union> set (grAwake s)"
proof -
  assume "gate_inv s" "pgFgWaiting (grGate s) \<noteq> 0"
  then have "filter (\<lambda>w. fst w = False) (grParked s @ grAwake s) \<noteq> []" by (auto simp: gate_inv_def Let_def waiting_def)
  then show ?thesis by (auto simp: filter_empty_conv)
qed

lemma gate_step_live:
  assumes "gate_step e s s'" "e \<noteq> GCancel" "e \<noteq> GClose" "gate_inv s" "gate_live s"
  shows "gate_live s'"
proof -
  let ?g = "grGate s"
  have open_gate: "\<not> pgClosed ?g" and calm: "\<forall>w\<in>set (grParked s @ grAwake s). \<not> snd w"
    and fg: "(False, False) \<in> set (grParked s) \<longrightarrow> pgInflight ?g = pgMax ?g"
    and some: "grParked s \<noteq> [] \<longrightarrow> 0 < pgInflight ?g \<or> (False, False) \<in> set (grAwake s)"
    using assms(5) by (simp_all add: gate_live_def Let_def)
  have bound: "0 \<le> pgInflight ?g" "pgInflight ?g \<le> pgMax ?g" "1 \<le> pgMax ?g" using assms(4) by (simp_all add: gate_inv_def Let_def)
  have held: "0 < pgInflight ?g \<or> (False, False) \<in> set (grAwake s)" if waits: "pgFgWaiting ?g \<noteq> 0"
  proof -
    obtain c where c: "(False, c) \<in> set (grParked s) \<union> set (grAwake s)" using foreground_waits [OF assms(4) waits] by blast
    then have "\<not> c" using calm by force
    then show ?thesis using c fg bound by auto
  qed
  show ?thesis
    using assms(1)
  proof (cases rule: gate_step.cases)
    case (arrive bg c v g')
    from arrive(3) show ?thesis
    proof (cases rule: gate_turn_cases)
      case stays
      have "0 < pgInflight ?g \<or> (False, False) \<in> set (grAwake s)" using stays(5) bound held by (cases bg) auto
      then show ?thesis using arrive(2) stays open_gate calm fg bound by (auto simp: gate_live_def Let_def)
    next
      case admitted
      then show ?thesis using arrive(2) open_gate calm fg bound by (auto simp: gate_live_def Let_def)
    next
      case leaves
      then show ?thesis using arrive(2) open_gate calm fg some by (auto simp: gate_live_def Let_def)
    qed
  next
    case (wake bg c v g')
    have rest: "\<forall>w\<in>set (remove1 (bg, c) (grAwake s)). \<not> snd w" using calm by (auto dest: notin_set_remove1)
    have c: "\<not> c" using wake(3) calm by force
    from wake(4) show ?thesis
    proof (cases rule: gate_turn_cases)
      case stays
      have "0 < pgInflight ?g \<or> (False, False) \<in> set (remove1 (bg, c) (grAwake s))" using stays(5) bound held by (cases bg) auto
      then show ?thesis using wake(2) stays open_gate calm fg bound rest by (auto simp: gate_live_def Let_def)
    next
      case admitted
      then show ?thesis using wake(2) open_gate calm fg bound rest by (auto simp: gate_live_def Let_def)
    next
      case leaves
      then show ?thesis using open_gate c by simp
    qed
  next
    case release
    then show ?thesis using open_gate calm by (auto simp: gate_live_def Let_def gate_release_def)
  qed (use assms(2,3) in simp_all)
qed

lemma gate_run_live:
  "gate_run es s s' \<Longrightarrow> GCancel \<notin> set es \<Longrightarrow> GClose \<notin> set es \<Longrightarrow> gate_inv s \<Longrightarrow> gate_live s \<Longrightarrow> gate_live s'"
  by (induction rule: gate_run.induct) (auto intro: gate_step_live gate_run_inv)

section \<open>A lost wakeup\<close>

text \<open>
  A foreground and a background request wait for a slot, and the foreground one is cancelled. The release wakes both; the background
  request runs first, sees the foreground request still counted and parks again; the foreground request then leaves without a broadcast.
\<close>

definition gate_busy :: "int \<Rightarrow> int \<Rightarrow> waiter list \<Rightarrow> waiter list \<Rightarrow> GateRun" where
  "gate_busy mx n parked awake =
     \<lparr>grGate = (NewPriorityGate mx)\<lparr>pgInflight := n, pgBgWaiting := int (length (filter fst (parked @ awake))),
        pgFgWaiting := int (length (filter (\<lambda>w. \<not> fst w) (parked @ awake)))\<rparr>, grParked = parked, grAwake = awake\<rparr>"

lemma gate_fill: "1 \<le> mx \<Longrightarrow> int n \<le> mx \<Longrightarrow> \<exists>es. gate_run es (gate_start mx) (gate_busy mx (int n) [] [])"
proof (induction n)
  case 0
  have "gate_busy mx (int 0) [] [] = gate_start mx" by (simp add: gate_busy_def gate_start_def NewPriorityGate_def)
  then show ?case using gate_done [of "gate_start mx"] by metis
next
  case (Suc n)
  then obtain es where run: "gate_run es (gate_start mx) (gate_busy mx (int n) [] [])" by auto
  let ?s = "gate_busy mx (int n) [] []"
  have "gate_turn False False (startWaiting False (grGate ?s)) = (GateAdmitted, grGate (gate_busy mx (int (Suc n)) [] []))"
    using Suc.prems by (simp add: gate_turn_def startWaiting_def doneWaiting_def gate_busy_def NewPriorityGate_def)
  from arrive [OF this] have "gate_step GArrive ?s (gate_busy mx (int (Suc n)) [] [])" by (simp add: gate_busy_def)
  from gate_more [OF run this] show ?case by blast
qed

lemma gate_drain:
  "gate_run es s (gate_busy mx (int n) parked awake) \<Longrightarrow> 0 < n \<Longrightarrow> \<exists>es'. gate_run es' s (gate_busy mx 0 [] (parked @ awake))"
proof (induction n arbitrary: es parked awake)
  case (Suc n)
  let ?s = "gate_busy mx (int (Suc n)) parked awake"
  have "gate_step GRelease ?s (gate_busy mx (int n) [] (parked @ awake))"
    using release [of ?s] by (simp add: gate_busy_def gate_release_def NewPriorityGate_def)
  note run = gate_more [OF Suc.prems(1) this]
  show ?case
  proof (cases n)
    case 0
    then show ?thesis using run by auto
  next
    case (Suc n')
    then show ?thesis using Suc.IH [OF run] by simp
  qed
qed simp

definition gate_stuck :: "int \<Rightarrow> GateRun" where
  "gate_stuck mx = gate_busy mx 0 [(True, False)] []"

lemma gate_stuck_reachable:
  assumes "1 \<le> mx"
  shows "\<exists>es. gate_run es (gate_start mx) (gate_stuck mx)"
proof -
  let ?F = "(False, False)" and ?B = "(True, False)" and ?C = "(False, True)"
  obtain es where 0: "gate_run es (gate_start mx) (gate_busy mx mx [] [])" using gate_fill [of mx "nat mx"] assms by auto
  have "gate_turn False False (startWaiting False (grGate (gate_busy mx mx [] []))) = (GateWait, grGate (gate_busy mx mx [?F] []))"
    using assms by (simp add: gate_turn_def startWaiting_def gate_busy_def NewPriorityGate_def)
  from arrive [OF this] have "gate_step GArrive (gate_busy mx mx [] []) (gate_busy mx mx [?F] [])" by (simp add: gate_busy_def)
  note 1 = gate_more [OF 0 this]
  have "gate_turn True False (startWaiting True (grGate (gate_busy mx mx [?F] []))) = (GateWait, grGate (gate_busy mx mx [?B, ?F] []))"
    using assms by (simp add: gate_turn_def startWaiting_def gate_busy_def NewPriorityGate_def)
  from arrive [OF this] have "gate_step GArrive (gate_busy mx mx [?F] []) (gate_busy mx mx [?B, ?F] [])" by (simp add: gate_busy_def)
  note 2 = gate_more [OF 1 this]
  have "gate_step GCancel (gate_busy mx mx [?B, ?F] []) (gate_busy mx mx [?C, ?B] [])"
    using cancel_parked [of False "gate_busy mx mx [?B, ?F] []"] by (simp add: gate_busy_def)
  note 3 = gate_more [OF 2 this]
  obtain es' where 4: "gate_run es' (gate_start mx) (gate_busy mx 0 [] [?C, ?B])"
    using gate_drain [of _ _ mx "nat mx"] 3 assms by fastforce
  have "gate_turn True False (grGate (gate_busy mx 0 [] [?C, ?B])) = (GateWait, grGate (gate_busy mx 0 [?B] [?C]))"
    by (simp add: gate_turn_def gate_busy_def NewPriorityGate_def)
  from wake [OF _ this] have "gate_step GWake (gate_busy mx 0 [] [?C, ?B]) (gate_busy mx 0 [?B] [?C])" by (simp add: gate_busy_def)
  note 5 = gate_more [OF 4 this]
  have "gate_turn False True (grGate (gate_busy mx 0 [?B] [?C])) = (GateCtx, grGate (gate_busy mx 0 [?B] []))"
    by (simp add: gate_turn_def gate_busy_def NewPriorityGate_def doneWaiting_def)
  from wake [OF _ this] have "gate_step GWake (gate_busy mx 0 [?B] [?C]) (gate_stuck mx)" by (simp add: gate_busy_def gate_stuck_def)
  from gate_more [OF 5 this] show ?thesis by blast
qed

text \<open>From there only a new request, the closing of the gate, or another cancellation, which wakes nobody, can happen.\<close>

lemma gate_stuck_steps: "gate_step e (gate_stuck mx) s' \<Longrightarrow> e \<in> {GArrive, GClose} \<or> e = GCancel \<and> grParked s' = [(True, True)] \<and> grAwake s' = []"
  by (erule gate_step.cases) (auto simp: gate_stuck_def gate_busy_def)

end
