(* ===== verification/Embed_Client.thy ===== *)
theory Embed_Client
  imports Embed_Breaker Embed_Gate Contract Float_Bits
begin

text \<open>
  \<open>pkg/embed/cache.go\<close> and \<open>client.go\<close>: the cache of vectors and the client of the embedding service.

  Arguments: \<open>sha256\<close>, \<open>enc\<close> and \<open>keys\<close> (\<open>encoding/json\<close> of a cache entry, empty when it fails, and of the parts of a cache key), the
  times at which the breaker is asked, the verdict of the gate, and for each batch what its guard, request and response were.
  The calls of one request to the cache and the breaker are taken in its order; those of other requests are the steps of \<open>Embed_Breaker\<close>.
\<close>

section \<open>The cache\<close>

record EmbedCache =
  ecItems :: "string \<rightharpoonup> vec"
  ecOrder :: "string list"
  ecMax :: int
  ecHits :: int
  ecMisses :: int
  ecFile :: "bytes option"

definition NewCache :: "int \<Rightarrow> EmbedCache" where
  "NewCache mx =
     \<lparr>ecItems = Map.empty, ecOrder = [], ecMax = (if mx \<le> 0 then 50000 else mx), ecHits = 0, ecMisses = 0, ecFile = None\<rparr>"

text \<open>\<open>entries\<close> are the lines of the file that can be read, decoded; a line that does not decode is \<open>None\<close>.\<close>

definition load_entry :: "EmbedCache \<Rightarrow> (string \<times> vec) option \<Rightarrow> EmbedCache" where
  "load_entry c e =
     (case e of None \<Rightarrow> c
      | Some (k, v) \<Rightarrow> if v = [] then c else c\<lparr>ecItems := (ecItems c)(k \<mapsto> v), ecOrder := ecOrder c @ [k]\<rparr>)"

definition NewPersistentCache :: "int \<Rightarrow> (string \<times> vec) option list \<Rightarrow> bytes option \<Rightarrow> bool \<times> EmbedCache" where
  "NewPersistentCache mx entries opened =
     (let c = foldl load_entry (NewCache mx) entries in
      case opened of None \<Rightarrow> (False, c) | Some file \<Rightarrow> (True, c\<lparr>ecFile := Some file\<rparr>))"

definition TextKey :: "(bytes \<Rightarrow> bytes) \<Rightarrow> string \<Rightarrow> string" where
  "TextKey sha256 text = hex_string (take 16 (sha256 text))"

definition Cache_Get :: "(bytes \<Rightarrow> bytes) \<Rightarrow> string \<Rightarrow> EmbedCache \<Rightarrow> vec option \<times> EmbedCache" where
  "Cache_Get sha256 text c =
     (case ecItems c (TextKey sha256 text) of
        Some v \<Rightarrow> (Some v, c\<lparr>ecHits := ecHits c + 1\<rparr>)
      | None \<Rightarrow> (None, c\<lparr>ecMisses := ecMisses c + 1\<rparr>))"

fun cache_evict :: "int \<Rightarrow> (string \<rightharpoonup> vec) \<Rightarrow> string list \<Rightarrow> (string \<rightharpoonup> vec) \<times> string list" where
  "cache_evict mx items [] = (items, [])"
| "cache_evict mx items (k # ks) =
     (if mx \<le> int (card (dom items)) then cache_evict mx (items(k := None)) ks else (items, k # ks))"

text \<open>\<open>wr\<close> is what of the two writes reaches the file; their errors are ignored.\<close>

definition Cache_Put ::
  "(bytes \<Rightarrow> bytes) \<Rightarrow> (string \<Rightarrow> vec \<Rightarrow> bytes) \<Rightarrow> nat \<times> nat \<Rightarrow> string \<Rightarrow> vec \<Rightarrow> EmbedCache \<Rightarrow> EmbedCache" where
  "Cache_Put sha256 enc wr text v c =
     (let key = TextKey sha256 text;
          c1 = (if ecItems c key = None
                then case cache_evict (ecMax c) (ecItems c) (ecOrder c) of (items, order) \<Rightarrow> c\<lparr>ecItems := items, ecOrder := order @ [key]\<rparr>
                else c);
          c2 = c1\<lparr>ecItems := (ecItems c1)(key \<mapsto> v)\<rparr>
      in case ecFile c2 of
           None \<Rightarrow> c2
         | Some file \<Rightarrow> c2\<lparr>ecFile := Some (file @ take (fst wr) (enc key v) @ take (snd wr) ''\<newline>'')\<rparr>)"

fun GetMulti_from :: "(bytes \<Rightarrow> bytes) \<Rightarrow> nat \<Rightarrow> string list \<Rightarrow> EmbedCache \<Rightarrow> vec option list \<times> nat list \<times> EmbedCache" where
  "GetMulti_from sha256 i [] c = ([], [], c)"
| "GetMulti_from sha256 i (t # ts) c =
     (case Cache_Get sha256 t c of
        (r, c1) \<Rightarrow> (case GetMulti_from sha256 (i + 1) ts c1 of
          (vs, misses, c2) \<Rightarrow> (r # vs, if r = None then i # misses else misses, c2)))"

definition Cache_GetMulti :: "(bytes \<Rightarrow> bytes) \<Rightarrow> string list \<Rightarrow> EmbedCache \<Rightarrow> vec option list \<times> nat list \<times> EmbedCache" where
  "Cache_GetMulti sha256 texts c = GetMulti_from sha256 0 texts c"

text \<open>A nil vector, or none at its position, is skipped.\<close>

fun Cache_PutMulti ::
  "(bytes \<Rightarrow> bytes) \<Rightarrow> (string \<Rightarrow> vec \<Rightarrow> bytes) \<Rightarrow> nat \<times> nat \<Rightarrow> string list \<Rightarrow> vec option list \<Rightarrow> EmbedCache \<Rightarrow> EmbedCache" where
  "Cache_PutMulti sha256 enc wr [] vecs c = c"
| "Cache_PutMulti sha256 enc wr (t # ts) [] c = c"
| "Cache_PutMulti sha256 enc wr (t # ts) (v # vs) c =
     Cache_PutMulti sha256 enc wr ts vs (case v of None \<Rightarrow> c | Some v \<Rightarrow> Cache_Put sha256 enc wr t v c)"

definition Cache_Stats :: "EmbedCache \<Rightarrow> nat \<times> int \<times> int" where
  "Cache_Stats c = (card (dom (ecItems c)), ecHits c, ecMisses c)"

section \<open>The size of the cache\<close>

text \<open>Every cached key is in the order, so eviction can always make room.\<close>

definition cache_inv :: "EmbedCache \<Rightarrow> bool" where
  "cache_inv c \<longleftrightarrow> 0 < ecMax c \<and> finite (dom (ecItems c)) \<and> dom (ecItems c) \<subseteq> set (ecOrder c)"

lemma NewPersistentCache_inv: "cache_inv (snd (NewPersistentCache mx entries opened))"
proof -
  have "cache_inv c \<Longrightarrow> cache_inv (load_entry c e)" for c e
    by (auto simp: load_entry_def cache_inv_def split: option.split)
  then have "cache_inv c \<Longrightarrow> cache_inv (foldl load_entry c entries)" for c by (induction entries arbitrary: c) auto
  moreover have "cache_inv (NewCache mx)" by (simp add: cache_inv_def NewCache_def)
  ultimately have "cache_inv (foldl load_entry (NewCache mx) entries)" by blast
  then show ?thesis by (simp add: NewPersistentCache_def Let_def cache_inv_def split: option.split)
qed

lemma cache_evict_room:
  assumes "cache_evict mx items order = (items', order')" "finite (dom items)" "dom items \<subseteq> set order" "0 < mx"
  shows "int (card (dom items')) < mx \<and> finite (dom items') \<and> dom items' \<subseteq> set order' \<and> items' \<subseteq>\<^sub>m items \<and> suffix order' order"
  using assms(1-3)
proof (induction order arbitrary: items)
  case Nil
  then show ?case using assms(4) by auto
next
  case (Cons k ks)
  show ?case
  proof (cases "mx \<le> int (card (dom items))")
    case True
    then have ev: "cache_evict mx (items(k := None)) ks = (items', order')" using Cons.prems(1) by simp
    have le: "items(k := None) \<subseteq>\<^sub>m items" by (simp add: map_le_def)
    have d: "dom (items(k := None)) = dom items - {k}" by auto
    have "finite (dom (items(k := None)))" "dom (items(k := None)) \<subseteq> set ks" unfolding d using Cons.prems(2,3) by auto
    from Cons.IH [OF ev this] show ?thesis using le by (blast intro: map_le_trans suffix_ConsI)
  next
    case False
    then show ?thesis using Cons.prems by auto
  qed
qed

lemma Cache_Get_inv: "cache_inv (snd (Cache_Get sha256 text c)) = cache_inv c" "ecItems (snd (Cache_Get sha256 text c)) = ecItems c"
  "ecMax (snd (Cache_Get sha256 text c)) = ecMax c" "ecOrder (snd (Cache_Get sha256 text c)) = ecOrder c"
  by (simp_all add: Cache_Get_def cache_inv_def split: option.split)

lemma Cache_Put_inv:
  assumes "cache_inv c"
  shows "cache_inv (Cache_Put sha256 enc wr text v c)"
    "ecItems (Cache_Put sha256 enc wr text v c) (TextKey sha256 text) = Some v"
    "k \<noteq> TextKey sha256 text \<Longrightarrow> ecItems (Cache_Put sha256 enc wr text v c) k \<in> {None, ecItems c k}"
    "int (card (dom (ecItems (Cache_Put sha256 enc wr text v c)))) \<le> (if ecItems c (TextKey sha256 text) = None then ecMax c else int (card (dom (ecItems c))))"
    "ecMax (Cache_Put sha256 enc wr text v c) = ecMax c"
proof -
  let ?key = "TextKey sha256 text" and ?c = "Cache_Put sha256 enc wr text v c"
  have "cache_inv ?c \<and> ecItems ?c ?key = Some v \<and> (k \<noteq> ?key \<longrightarrow> ecItems ?c k \<in> {None, ecItems c k}) \<and>
    int (card (dom (ecItems ?c))) \<le> (if ecItems c ?key = None then ecMax c else int (card (dom (ecItems c)))) \<and> ecMax ?c = ecMax c"
  proof (cases "ecItems c ?key")
    case None
    obtain items order where ev: "cache_evict (ecMax c) (ecItems c) (ecOrder c) = (items, order)" by fastforce
    note R = cache_evict_room [OF ev]
    have items: "ecItems ?c = items(?key \<mapsto> v)" "ecOrder ?c = order @ [?key]" "ecMax ?c = ecMax c"
      using None ev by (simp_all add: Cache_Put_def Let_def split: option.split)
    have "items k \<in> {None, ecItems c k}" using R assms by (auto simp: cache_inv_def map_le_def dom_def)
    then show ?thesis using R assms None items by (auto simp: cache_inv_def card_insert_if)
  next
    case (Some w)
    have items: "ecItems ?c = (ecItems c)(?key \<mapsto> v)" "ecOrder ?c = ecOrder c" "ecMax ?c = ecMax c"
      using Some by (simp_all add: Cache_Put_def Let_def split: option.split)
    have "insert ?key (dom (ecItems c)) = dom (ecItems c)" using Some by auto
    then show ?thesis using assms Some items by (auto simp: cache_inv_def)
  qed
  then show "cache_inv ?c" "ecItems ?c ?key = Some v" "k \<noteq> ?key \<Longrightarrow> ecItems ?c k \<in> {None, ecItems c k}"
    "int (card (dom (ecItems ?c))) \<le> (if ecItems c ?key = None then ecMax c else int (card (dom (ecItems c))))" "ecMax ?c = ecMax c"
    by blast+
qed

section \<open>The client\<close>

record Client =
  clUrl :: string
  clModel :: string
  clQueryAlias :: bool
  clQuery :: bool
  clBatchSize :: nat
  clConcurrency :: int
  clGuard :: bool
  clGate :: "PriorityGate option"
  clBackground :: bool

definition NewClient :: "string \<Rightarrow> string \<Rightarrow> int \<Rightarrow> int \<Rightarrow> Client \<times> Breaker" where
  "NewClient url model batchSize concurrency =
     (\<lparr>clUrl = url, clModel = model, clQueryAlias = False, clQuery = False, clBatchSize = (if batchSize < 1 then 16 else nat batchSize),
       clConcurrency = (if concurrency < 1 then 1 else concurrency), clGuard = False, clGate = None, clBackground = False\<rparr>,
      NewBreaker 3 (30 * 10 ^ 9))"

definition WithGuard :: "bool \<Rightarrow> Client \<Rightarrow> Client" where
  "WithGuard guard c = c\<lparr>clGuard := guard\<rparr>"

definition WithModel :: "string \<Rightarrow> Client \<Rightarrow> Client" where
  "WithModel model c = c\<lparr>clModel := model\<rparr>"

definition WithQueryAlias :: "Client \<Rightarrow> Client" where
  "WithQueryAlias c = c\<lparr>clQueryAlias := True\<rparr>"

definition AsQuery :: "Client \<Rightarrow> Client" where
  "AsQuery c = c\<lparr>clQuery := True\<rparr>"

definition WithConcurrency :: "int \<Rightarrow> Client \<Rightarrow> Client" where
  "WithConcurrency n c = c\<lparr>clConcurrency := (if n < 1 then 1 else n)\<rparr>"

definition WithPriorityGate :: "PriorityGate \<Rightarrow> Client \<Rightarrow> Client" where
  "WithPriorityGate g c = c\<lparr>clGate := Some g, clBackground := False\<rparr>"

definition WithBackground :: "Client \<Rightarrow> Client" where
  "WithBackground c = c\<lparr>clBackground := True\<rparr>"

definition BackgroundConcurrency :: "Client option \<Rightarrow> int" where
  "BackgroundConcurrency c =
     (case c of None \<Rightarrow> 0 | Some c \<Rightarrow>
       (case clGate c of None \<Rightarrow> 0 | Some g \<Rightarrow> if clConcurrency c < pgMax g then clConcurrency c else pgMax g))"

definition wireModel :: "Client \<Rightarrow> string" where
  "wireModel c = (if clQuery c \<and> clQueryAlias c then clModel c @ '':query'' else clModel c)"

definition cacheKey :: "(string list \<Rightarrow> string) \<Rightarrow> Client \<Rightarrow> string \<Rightarrow> string" where
  "cacheKey keys c text =
     keys [''embed-v2'', clUrl c, clModel c, wireModel c, if clQuery c then ''query'' else ''document'', text]"

text \<open>
  The reply to one request: \<open>HttpError\<close> and \<open>HttpBody\<close> (a body that cannot be read or decoded) say whether the error is that of the
  context. A decoded body has the data of the OpenAI format and the vectors of the Ollama format.
\<close>

datatype http_reply = HttpError bool | HttpStatus int | HttpBody bool | HttpVectors "(int \<times> vec) list" "vec list"

record batch_io =
  biGuard :: bool
  biMarshal :: bool
  biRequest :: bool
  biReply :: http_reply
  biCtxErr :: bool

datatype embed_error =
    EmbedGuard | EmbedMarshal | EmbedRequest | EmbedHttp bool | EmbedStatus int | EmbedBody bool | EmbedIndex int nat
  | EmbedCount nat nat | EmbedDim nat | EmbedBreaker breaker_error | EmbedGate gate_verdict | EmbedBatch nat nat embed_error | EmbedEmpty

definition ctx_error :: "embed_error \<Rightarrow> bool" where
  "ctx_error e = (case e of EmbedHttp b \<Rightarrow> b | EmbedBody b \<Rightarrow> b | _ \<Rightarrow> False)"

fun check_index :: "nat \<Rightarrow> (int \<times> vec) list \<Rightarrow> embed_error + vec list" where
  "check_index i [] = Inr []"
| "check_index i ((j, v) # ds) =
     (if j \<noteq> int i then Inl (EmbedIndex j i)
      else case check_index (i + 1) ds of Inl e \<Rightarrow> Inl e | Inr vs \<Rightarrow> Inr (v # vs))"

fun check_dims :: "nat \<Rightarrow> nat \<Rightarrow> vec list \<Rightarrow> embed_error option" where
  "check_dims d i [] = None"
| "check_dims d i (v # vs) = (if length v = 0 \<or> length v \<noteq> d then Some (EmbedDim i) else check_dims d (i + 1) vs)"

definition reply_vectors :: "(int \<times> vec) list \<Rightarrow> vec list \<Rightarrow> embed_error + vec list" where
  "reply_vectors data embeddings =
     (if data = [] \<and> embeddings \<noteq> [] then Inr embeddings else check_index 0 (sortSlice (\<lambda>x y. fst x < fst y) data))"

text \<open>The result of one batch, and whether its error is the provider's (\<open>errProviderFailure\<close>).\<close>

definition embedBatch :: "Client \<Rightarrow> batch_io \<Rightarrow> nat \<Rightarrow> (embed_error \<times> bool) + vec list" where
  "embedBatch c io n =
     (let attempted = (\<lambda>e. Inl (e, \<not> biCtxErr io \<or> \<not> ctx_error e)) in
      if clGuard c \<and> \<not> biGuard io then Inl (EmbedGuard, False)
      else if \<not> biMarshal io then Inl (EmbedMarshal, False)
      else if \<not> biRequest io then Inl (EmbedRequest, False)
      else case biReply io of
        HttpError b \<Rightarrow> attempted (EmbedHttp b)
      | HttpStatus st \<Rightarrow> attempted (EmbedStatus st)
      | HttpBody b \<Rightarrow> attempted (EmbedBody b)
      | HttpVectors data embeddings \<Rightarrow>
          (case reply_vectors data embeddings of
             Inl e \<Rightarrow> attempted e
           | Inr vecs \<Rightarrow>
               if length vecs \<noteq> n then attempted (EmbedCount (length vecs) n)
               else (case check_dims (length (vecs ! 0)) 0 vecs of Some e \<Rightarrow> attempted e | None \<Rightarrow> Inr vecs)))"

text \<open>The batches of a request, each with its offset, and their results.\<close>

function batches :: "nat \<Rightarrow> nat \<Rightarrow> 'a list \<Rightarrow> (nat \<times> 'a list) list" where
  "batches bs start xs = (if xs = [] \<or> bs = 0 then [] else (start, take bs xs) # batches bs (start + bs) (drop bs xs))"
  by auto
termination by (relation "measure (\<lambda>(bs, start, xs). length xs)") auto

declare batches.simps [simp del]

definition run_batches :: "Client \<Rightarrow> (nat \<Rightarrow> batch_io) \<Rightarrow> string list \<Rightarrow> (nat \<times> nat \<times> ((embed_error \<times> bool) + vec list)) list" where
  "run_batches c io texts =
     map (\<lambda>(start, ts). (start, start + length ts, embedBatch c (io start) (length ts))) (batches (clBatchSize c) 0 texts)"

definition batch_failures :: "(nat \<times> nat \<times> ((embed_error \<times> bool) + vec list)) list \<Rightarrow> (embed_error \<times> bool) list" where
  "batch_failures rs = concat (map (\<lambda>(start, stop, r). case r of Inl (e, f) \<Rightarrow> [(EmbedBatch start stop e, f)] | Inr _ \<Rightarrow> []) rs)"

definition batch_vectors :: "(nat \<times> nat \<times> ((embed_error \<times> bool) + vec list)) list \<Rightarrow> vec list" where
  "batch_vectors rs = concat (map (\<lambda>(start, stop, r). case r of Inl _ \<Rightarrow> [] | Inr vs \<Rightarrow> vs) rs)"

record embed_io =
  eiCheck :: int
  eiGate :: gate_verdict
  eiAcquire :: int
  eiComplete :: int
  eiBatch :: "nat \<Rightarrow> batch_io"
  eiFirst :: nat
  eiWrite :: "nat \<times> nat"

text \<open>The shared state of the copies of a client.\<close>

record EmbedState =
  esBreaker :: "Breaker option"
  esCache :: "EmbedCache option"

fun place :: "'a option list \<Rightarrow> 'a list \<Rightarrow> 'a option list" where
  "place [] vs = []"
| "place (Some x # xs) vs = Some x # place xs vs"
| "place (None # xs) [] = None # place xs []"
| "place (None # xs) (v # vs) = Some v # place xs vs"

definition WithCache :: "EmbedCache \<Rightarrow> EmbedState \<Rightarrow> EmbedState" where
  "WithCache cache s = s\<lparr>esCache := Some cache\<rparr>"

text \<open>The lookup in the cache: the vectors that are there, and the texts that are not.\<close>

definition embed_lookup :: "(bytes \<Rightarrow> bytes) \<Rightarrow> (string list \<Rightarrow> string) \<Rightarrow> Client \<Rightarrow> string list \<Rightarrow> EmbedState \<Rightarrow> vec option list \<times> EmbedState" where
  "embed_lookup sha256 keys c texts s =
     (case esCache s of
        None \<Rightarrow> (map (\<lambda>_. None) texts, s)
      | Some cache \<Rightarrow> (case Cache_GetMulti sha256 (map (cacheKey keys c) texts) cache of
          (vs, _, cache') \<Rightarrow> (vs, s\<lparr>esCache := Some cache'\<rparr>)))"

definition embed_misses :: "vec option list \<Rightarrow> string list \<Rightarrow> string list" where
  "embed_misses found texts = map snd (filter (\<lambda>(v, _). v = None) (zip found texts))"

definition EmbedTexts ::
  "(bytes \<Rightarrow> bytes) \<Rightarrow> (string \<Rightarrow> vec \<Rightarrow> bytes) \<Rightarrow> (string list \<Rightarrow> string) \<Rightarrow> Client \<Rightarrow> embed_io \<Rightarrow> string list \<Rightarrow> EmbedState \<Rightarrow>
   (embed_error + vec option list) \<times> EmbedState" where
  "EmbedTexts sha256 enc keys c io texts s =
     (if texts = [] then (Inr [], s)
      else case (case esBreaker s of None \<Rightarrow> None | Some b \<Rightarrow> breaker_check (eiCheck io) b) of
        Some e \<Rightarrow> (Inl (EmbedBreaker e), s)
      | None \<Rightarrow>
     (if clGate c \<noteq> None \<and> eiGate io \<noteq> GateAdmitted then (Inl (EmbedGate (eiGate io)), s)
      else case (case esBreaker s of
                   None \<Rightarrow> (Inr (0, False), None)
                 | Some b \<Rightarrow> (case breaker_acquire (eiAcquire io) b of (r, b') \<Rightarrow> (r, Some b'))) of
        (Inl e, _) \<Rightarrow> (Inl (EmbedBreaker e), s)
      | (Inr (generation, probe), b') \<Rightarrow>
     (case embed_lookup sha256 keys c texts (s\<lparr>esBreaker := b'\<rparr>) of
        (found, s1) \<Rightarrow>
          let misses = embed_misses found texts;
              aborted = (if probe then s1\<lparr>esBreaker := map_option (breaker_abort generation) (esBreaker s1)\<rparr> else s1);
              completed = (\<lambda>failed. s1\<lparr>esBreaker := map_option (breaker_complete (eiComplete io) generation failed) (esBreaker s1)\<rparr>)
          in if esCache s \<noteq> None \<and> misses = [] then (Inr found, aborted)
             else
               let rs = run_batches c (eiBatch io) misses; failures = batch_failures rs in
               if failures \<noteq> [] then
                 (Inl (fst (failures ! (eiFirst io mod length failures))), if list_ex snd failures then completed True else aborted)
               else
                 let vecs = batch_vectors rs; s2 = completed False in
                 (Inr (place found vecs),
                  s2\<lparr>esCache := map_option (Cache_PutMulti sha256 enc (eiWrite io) (map (cacheKey keys c) misses) (map Some vecs)) (esCache s2)\<rparr>))))"

definition EmbedSingle ::
  "(bytes \<Rightarrow> bytes) \<Rightarrow> (string \<Rightarrow> vec \<Rightarrow> bytes) \<Rightarrow> (string list \<Rightarrow> string) \<Rightarrow> Client \<Rightarrow> embed_io \<Rightarrow> string \<Rightarrow> EmbedState \<Rightarrow>
   (embed_error + vec option) \<times> EmbedState" where
  "EmbedSingle sha256 enc keys c io text s =
     (case EmbedTexts sha256 enc keys c io [text] s of
        (Inl e, s') \<Rightarrow> (Inl e, s')
      | (Inr vecs, s') \<Rightarrow> (if vecs = [] then Inl EmbedEmpty else Inr (vecs ! 0), s'))"

section \<open>Every text gets its own vector\<close>

lemma check_index_ok: "check_index i ds = Inr vs \<Longrightarrow> length vs = length ds \<and> (\<forall>j<length vs. (int (i + j), vs ! j) \<in> set ds)"
proof (induction ds arbitrary: i vs)
  case (Cons d ds)
  obtain j v where d: "d = (j, v)" by (cases d)
  then obtain ws where ws: "j = int i" "check_index (Suc i) ds = Inr ws" "vs = v # ws"
    using Cons.prems by (auto split: if_splits sum.splits)
  have "(int (i + k), (v # ws) ! k) \<in> set (d # ds)" if "k < length (v # ws)" for k
    using that Cons.IH [OF ws(2)] d ws(1) by (cases k) auto
  then show ?case using Cons.IH [OF ws(2)] ws(3) by simp
qed simp

lemma check_dims_ok: "check_dims d i vs = None \<Longrightarrow> v \<in> set vs \<Longrightarrow> v \<noteq> [] \<and> length v = d"
  by (induction vs arbitrary: i) (auto split: if_splits)

definition answers :: "http_reply \<Rightarrow> nat \<Rightarrow> vec list \<Rightarrow> bool" where
  "answers reply n vs \<longleftrightarrow>
     length vs = n \<and> (\<forall>v\<in>set vs. v \<noteq> [] \<and> length v = length (vs ! 0)) \<and>
     (\<exists>data embeddings. reply = HttpVectors data embeddings \<and>
        (vs = embeddings \<and> data = [] \<or> length data = n \<and> (\<forall>j<n. (int j, vs ! j) \<in> set data)))"

lemma embedBatch_answers:
  assumes "embedBatch c io n = Inr vs"
  shows "answers (biReply io) n vs"
proof -
  obtain data embs where r: "biReply io = HttpVectors data embs" "reply_vectors data embs = Inr vs" "length vs = n"
    "check_dims (length (vs ! 0)) 0 vs = None"
    using assms by (auto simp: embedBatch_def Let_def split: if_splits http_reply.splits sum.splits option.splits)
  have "vs = embs \<and> data = [] \<or> length data = n \<and> (\<forall>j<n. (int j, vs ! j) \<in> set data)"
  proof (cases "data = [] \<and> embs \<noteq> []")
    case True
    then show ?thesis using r(2) by (simp add: reply_vectors_def)
  next
    case False
    then have "check_index 0 (sortSlice (\<lambda>x y. fst x < fst y) data) = Inr vs" using r(2) by (simp add: reply_vectors_def split: if_splits)
    from check_index_ok [OF this] show ?thesis using r(3) by (auto simp: goSort.sorter_set goSort.sorter_length)
  qed
  then show ?thesis using r check_dims_ok [OF r(4)] unfolding answers_def by blast
qed

text \<open>The vectors of a request that did not fail: the one at position \<open>j\<close> is that of \<open>j mod bs\<close> in the batch it is in.\<close>

lemma run_batches_vectors:
  assumes "0 < bs" "rs = map (\<lambda>(start, ts). (start, start + length ts, embedBatch c (io start) (length ts))) (batches bs start xs)"
    "batch_failures rs = []"
  shows "length (batch_vectors rs) = length xs \<and>
    (\<forall>j<length xs. \<exists>vs n. answers (biReply (io (start + bs * (j div bs)))) n vs \<and> j mod bs < n \<and> batch_vectors rs ! j = vs ! (j mod bs))"
  using assms
proof (induction bs start xs arbitrary: rs rule: batches.induct)
  case (1 bs start xs)
  show ?case
  proof (cases "xs = []")
    case True
    then show ?thesis using "1.prems" by (simp add: batches.simps batch_vectors_def)
  next
    case False
    let ?rest = "map (\<lambda>(start, ts). (start, start + length ts, embedBatch c (io start) (length ts))) (batches bs (start + bs) (drop bs xs))"
    let ?n = "length (take bs xs)"
    have rs: "rs = (start, start + ?n, embedBatch c (io start) ?n) # ?rest"
      using "1.prems"(1,2) False by (simp add: batches.simps [of bs start xs])
    then obtain vs where vs: "embedBatch c (io start) ?n = Inr vs" and rest: "batch_failures ?rest = []"
      using "1.prems"(3) by (auto simp: batch_failures_def split: sum.splits)
    have cond: "\<not> (xs = [] \<or> bs = 0)" using False "1.prems"(1) by simp
    note IH = "1.IH" [OF cond "1.prems"(1) refl rest]
    have ans: "answers (biReply (io start)) ?n vs" by (rule embedBatch_answers [OF vs])
    then have len: "length vs = ?n" by (simp add: answers_def)
    have vectors: "batch_vectors rs = vs @ batch_vectors ?rest" using vs by (simp add: rs batch_vectors_def)
    have "\<exists>ws n. answers (biReply (io (start + bs * (j div bs)))) n ws \<and> j mod bs < n \<and> batch_vectors rs ! j = ws ! (j mod bs)"
      if j: "j < length xs" for j
    proof (cases "j < bs")
      case True
      then have "answers (biReply (io (start + bs * (j div bs)))) ?n vs" "j mod bs < ?n" "batch_vectors rs ! j = vs ! (j mod bs)"
        using ans j len by (simp_all add: vectors nth_append)
      then show ?thesis by blast
    next
      case False
      define j' where "j' = j - bs"
      have jj: "j = bs + j'" using False by (simp add: j'_def)
      have j': "j' < length (drop bs xs)" using j jj by simp
      have dm: "j div bs = Suc (j' div bs)" "j mod bs = j' mod bs" using "1.prems"(1) by (simp_all add: jj)
      have "length vs = bs" using len j False by simp
      then have "batch_vectors rs ! j = batch_vectors ?rest ! j'" by (simp add: vectors jj nth_append)
      moreover obtain ws n where "answers (biReply (io (start + bs + bs * (j' div bs)))) n ws" "j' mod bs < n" "batch_vectors ?rest ! j' = ws ! (j' mod bs)"
        using IH j' by blast
      ultimately show ?thesis unfolding dm by (metis add.assoc mult_Suc_right)
    qed
    then show ?thesis using IH len by (simp add: vectors)
  qed
qed

subsection \<open>The result of a request\<close>

lemma GetMulti_from_eq:
  "GetMulti_from sha256 i ts c = (vs, misses, c') \<Longrightarrow> vs = map (\<lambda>t. ecItems c (TextKey sha256 t)) ts \<and> ecItems c' = ecItems c \<and>
    ecMax c' = ecMax c \<and> cache_inv c' = cache_inv c"
proof (induction ts arbitrary: i c vs misses)
  case (Cons t ts)
  obtain r c1 where g: "Cache_Get sha256 t c = (r, c1)" by fastforce
  obtain vs1 m1 where rest: "GetMulti_from sha256 (i + 1) ts c1 = (vs1, m1, c')" "vs = r # vs1"
    using Cons.prems g by (auto split: prod.splits)
  have "r = ecItems c (TextKey sha256 t)" using g by (auto simp: Cache_Get_def split: option.splits)
  then show ?case
    using Cons.IH [OF rest(1)] rest(2) Cache_Get_inv [of sha256 t c] g by simp
qed simp

lemma embed_lookup_eq:
  assumes "embed_lookup sha256 keys c texts s = (found, s1)"
  shows "found = map (\<lambda>t. case esCache s of None \<Rightarrow> None | Some cache \<Rightarrow> ecItems cache (TextKey sha256 (cacheKey keys c t))) texts"
    "esBreaker s1 = esBreaker s" "rel_option (\<lambda>a b. ecItems a = ecItems b \<and> ecMax a = ecMax b \<and> cache_inv a = cache_inv b) (esCache s1) (esCache s)"
  using assms
  by (auto simp: embed_lookup_def Cache_GetMulti_def comp_def dest!: GetMulti_from_eq split: option.splits prod.splits)

lemma place_nth:
  "length vs = length (filter (\<lambda>x. x = None) xs) \<Longrightarrow> i < length xs \<Longrightarrow>
    place xs vs ! i = (case xs ! i of Some x \<Rightarrow> Some x | None \<Rightarrow> Some (vs ! length (filter (\<lambda>x. x = None) (take i xs))))"
  by (induction xs vs arbitrary: i rule: place.induct) (auto simp: nth_Cons' take_Cons' split: option.splits)

lemma place_length: "length (place xs vs) = length xs"
  by (induction xs vs rule: place.induct) auto

lemma embed_misses_length: "length found = length texts \<Longrightarrow> length (embed_misses found texts) = length (filter (\<lambda>x. x = None) found)"
  by (induction found texts rule: list_induct2) (auto simp: embed_misses_def)

definition cached :: "(bytes \<Rightarrow> bytes) \<Rightarrow> (string list \<Rightarrow> string) \<Rightarrow> Client \<Rightarrow> EmbedState \<Rightarrow> string \<Rightarrow> vec option" where
  "cached sha256 keys c s t = (case esCache s of None \<Rightarrow> None | Some cache \<Rightarrow> ecItems cache (TextKey sha256 (cacheKey keys c t)))"

lemma EmbedTexts_vectors:
  assumes "EmbedTexts sha256 enc keys c io texts s = (Inr vecs, s')" "0 < clBatchSize c"
  shows "length vecs = length texts \<and>
    (\<forall>i<length texts.
       case cached sha256 keys c s (texts ! i) of
         Some v \<Rightarrow> vecs ! i = Some v
       | None \<Rightarrow>
           (let j = length (filter (\<lambda>t. cached sha256 keys c s t = None) (take i texts)); bs = clBatchSize c in
            \<exists>vs n. answers (biReply (eiBatch io (bs * (j div bs)))) n vs \<and> j mod bs < n \<and> vecs ! i = Some (vs ! (j mod bs))))"
proof (cases "texts = []")
  case True
  then show ?thesis using assms(1) by (simp add: EmbedTexts_def)
next
  case False
  obtain b' found s1 where lk: "embed_lookup sha256 keys c texts (s\<lparr>esBreaker := b'\<rparr>) = (found, s1)"
    and out: "esCache s \<noteq> None \<and> embed_misses found texts = [] \<and> vecs = found \<or>
      (let rs = run_batches c (eiBatch io) (embed_misses found texts) in batch_failures rs = [] \<and> vecs = place found (batch_vectors rs))"
    using assms(1) False by (auto simp: EmbedTexts_def Let_def split: option.splits if_splits sum.splits prod.splits)
  have found: "found = map (cached sha256 keys c s) texts" using embed_lookup_eq(1) [OF lk] by (simp add: cached_def)
  then have len: "length found = length texts" by simp
  note ml = embed_misses_length [OF len]
  show ?thesis
  proof (cases "embed_misses found texts = [] \<and> vecs = found")
    case True
    then have "\<forall>x\<in>set found. x \<noteq> None" using ml by (simp add: filter_empty_conv)
    then show ?thesis using True found by (auto simp: all_set_conv_all_nth split: option.splits)
  next
    case False
    define rs where "rs = run_batches c (eiBatch io) (embed_misses found texts)"
    have rs: "batch_failures rs = []" "vecs = place found (batch_vectors rs)" using out False by (auto simp: rs_def Let_def)
    note B = run_batches_vectors [OF assms(2) rs_def [unfolded run_batches_def] rs(1)]
    have lv: "length (batch_vectors rs) = length (filter (\<lambda>x. x = None) found)" using B ml by simp
    show ?thesis
    proof (intro conjI allI impI)
      show "length vecs = length texts" using rs(2) len by (simp add: place_length)
      fix i assume i: "i < length texts"
      have count: "length (filter (\<lambda>x. x = None) (take i found)) = length (filter (\<lambda>t. cached sha256 keys c s t = None) (take i texts))"
        by (simp add: found take_map filter_map comp_def)
      have at: "vecs ! i = (case cached sha256 keys c s (texts ! i) of Some x \<Rightarrow> Some x
          | None \<Rightarrow> Some (batch_vectors rs ! length (filter (\<lambda>t. cached sha256 keys c s t = None) (take i texts))))"
        unfolding rs(2) using place_nth [OF lv, of i, unfolded count] i
        by (cases "cached sha256 keys c s (texts ! i)") (simp_all add: found)
      show "case cached sha256 keys c s (texts ! i) of Some v \<Rightarrow> vecs ! i = Some v
        | None \<Rightarrow> (let j = length (filter (\<lambda>t. cached sha256 keys c s t = None) (take i texts)); bs = clBatchSize c in
            \<exists>vs n. answers (biReply (eiBatch io (bs * (j div bs)))) n vs \<and> j mod bs < n \<and> vecs ! i = Some (vs ! (j mod bs)))"
      proof (cases "cached sha256 keys c s (texts ! i)")
        case None
        let ?p = "\<lambda>t. cached sha256 keys c s t = None"
        let ?j = "length (filter ?p (take i texts))"
        have "filter ?p texts = filter ?p (take i texts) @ texts ! i # filter ?p (drop (Suc i) texts)"
          using None i by (metis (mono_tags) filter.simps(2) filter_append id_take_nth_drop)
        then have "?j < length (filter ?p texts)" by simp
        then have "?j < length (embed_misses found texts)" unfolding ml by (simp add: found filter_map comp_def)
        then show ?thesis using B at None by (simp add: Let_def)
      qed (use at in simp)
    qed
  qed
qed

text \<open>A request that fails caches nothing, and one that succeeds keeps the cache within its bound.\<close>

lemma Cache_PutMulti_inv: "cache_inv c \<Longrightarrow> cache_inv (Cache_PutMulti sha256 enc wr ts vs c)"
  by (induction sha256 enc wr ts vs c rule: Cache_PutMulti.induct) (auto simp: Cache_Put_inv(1) split: option.split)

lemma Cache_PutMulti_bound:
  assumes "cache_inv c" "int (card (dom (ecItems c))) \<le> ecMax c"
  shows "int (card (dom (ecItems (Cache_PutMulti sha256 enc wr ts vs c)))) \<le> ecMax c"
  using assms
proof (induction sha256 enc wr ts vs c rule: Cache_PutMulti.induct)
  case (3 sha256 enc wr t ts v vs c)
  show ?case
  proof (cases v)
    case None
    then show ?thesis using 3 by simp
  next
    case (Some w)
    let ?c = "Cache_Put sha256 enc wr t w c"
    have "int (card (dom (ecItems ?c))) \<le> ecMax ?c"
      using Cache_Put_inv(4,5) [OF "3.prems"(1), of sha256 enc wr t w] "3.prems"(2) by (auto split: if_splits)
    then show ?thesis using "3.IH" Cache_Put_inv(1,5) [OF "3.prems"(1), of sha256 enc wr t w] Some by simp
  qed
qed auto

end
