(* ===== verification/Chunker.thy ===== *)
theory Chunker
  imports Contract
begin

text \<open>
  \<open>pkg/chunker\<close>: splitting a document into chunks, by windows (\<open>sliding.go\<close>), paragraphs (\<open>paragraph.go\<close>), sentences
  (\<open>sentence.go\<close>), rows (\<open>row.go\<close>) and in two levels (\<open>parent_child.go\<close>).

  A text is the list of its runes (it is valid UTF-8); its length in bytes, which some functions use, is \<open>byte_len\<close>. The ids of
  chunks are the argument \<open>uuid\<close>: \<open>uuid5\<close> of a name, and \<open>fresh\<close>, the random id of the k-th chunk of a nameless document.
\<close>

section \<open>Runes\<close>

type_synonym rune = nat

definition IsSpace :: "rune \<Rightarrow> bool" where
  "IsSpace r \<longleftrightarrow> 9 \<le> r \<and> r \<le> 13 \<or> r \<in> {0x20, 0x85, 0xA0, 0x1680, 0x2028, 0x2029, 0x202F, 0x205F, 0x3000} \<or> 0x2000 \<le> r \<and> r \<le> 0x200A"

definition trim_space :: "rune list \<Rightarrow> rune list" where
  "trim_space t = rev (dropWhile IsSpace (rev (dropWhile IsSpace t)))"

definition rune_bytes :: "rune \<Rightarrow> nat" where
  "rune_bytes r = (if r < 0x80 then 1 else if r < 0x800 then 2 else if r < 0x10000 then 3 else 4)"

definition byte_len :: "rune list \<Rightarrow> nat" where
  "byte_len t = sum_list (map rune_bytes t)"

fun crlf_to_lf :: "rune list \<Rightarrow> rune list" where
  "crlf_to_lf (a # b # t) = (if a = 13 \<and> b = 10 then 10 # crlf_to_lf t else a # crlf_to_lf (b # t))"
| "crlf_to_lf t = t"

fun cons_head :: "'a \<Rightarrow> 'a list list \<Rightarrow> 'a list list" where
  "cons_head c [] = [[c]]"
| "cons_head c (w # ws) = (c # w) # ws"

fun split_blank :: "rune list \<Rightarrow> rune list list" where
  "split_blank (a # b # t) = (if a = 10 \<and> b = 10 then [] # split_blank t else cons_head a (split_blank (b # t)))"
| "split_blank t = [t]"

fun split_lines :: "rune list \<Rightarrow> rune list list" where
  "split_lines [] = [[]]"
| "split_lines (c # t) = (if c = 10 then [] # split_lines t else cons_head c (split_lines t))"

fun join_with :: "rune list \<Rightarrow> rune list list \<Rightarrow> rune list" where
  "join_with sep [] = []"
| "join_with sep [w] = w"
| "join_with sep (w # ws) = w @ sep @ join_with sep ws"

text \<open>\<open>strconv.Atoi\<close> on a 64-bit machine.\<close>

definition rune_digit :: "rune \<Rightarrow> bool" where
  "rune_digit r \<longleftrightarrow> 48 \<le> r \<and> r \<le> 57"

definition digits_value :: "rune list \<Rightarrow> int" where
  "digits_value ds = foldl (\<lambda>n d. n * 10 + (int d - 48)) 0 ds"

definition Atoi :: "rune list \<Rightarrow> int option" where
  "Atoi t =
     (let neg = (t \<noteq> [] \<and> hd t = 45); ds = (if t \<noteq> [] \<and> (hd t = 43 \<or> hd t = 45) then tl t else t);
          n = (if neg then - digits_value ds else digits_value ds) in
      if ds = [] \<or> \<not> list_all rune_digit ds \<or> n < - (2 ^ 63) \<or> 2 ^ 63 \<le> n then None else Some n)"

section \<open>Chunks\<close>

record Chunk =
  chID :: string
  chText :: "rune list"
  chChapter :: int
  chIndex :: nat
  chCut :: string
  chParent :: string

definition DefaultMinChunkChars :: nat where "DefaultMinChunkChars = 80"
definition DefaultMaxChunkChars :: nat where "DefaultMaxChunkChars = 600"

type_synonym uuids = "(string \<Rightarrow> string) \<times> (nat \<Rightarrow> string)"

definition chunkID :: "uuids \<Rightarrow> string \<Rightarrow> nat \<Rightarrow> string" where
  "chunkID uuid documentID k = (if documentID = [] then snd uuid k else fst uuid (documentID @ ''-'' @ decimal (int k)))"

definition mk_chunk :: "uuids \<Rightarrow> string \<Rightarrow> string \<Rightarrow> int \<Rightarrow> nat \<Rightarrow> rune list \<Rightarrow> Chunk" where
  "mk_chunk uuid documentID ctype chapter k t =
     \<lparr>chID = chunkID uuid documentID k, chText = t, chChapter = chapter, chIndex = k, chCut = ctype, chParent = []\<rparr>"

section \<open>Sliding windows\<close>

definition isSentenceEnd :: "rune \<Rightarrow> bool" where
  "isSentenceEnd r \<longleftrightarrow> r = 46 \<or> r = 33 \<or> r = 63"

definition rune_dist :: "nat \<Rightarrow> nat \<Rightarrow> nat" where
  "rune_dist i j = nat \<bar>int i - int j\<bar>"

text \<open>The candidate nearest to the target, the first of several, within the tolerance.\<close>

fun nearest :: "nat \<Rightarrow> nat option \<times> nat \<Rightarrow> nat list \<Rightarrow> nat option" where
  "nearest target (best, d) [] = best"
| "nearest target (best, d) (i # is) =
     (if rune_dist i target < d then nearest target (Some i, rune_dist i target) is else nearest target (best, d) is)"

definition snapBoundary :: "rune list \<Rightarrow> nat \<Rightarrow> nat \<Rightarrow> nat \<Rightarrow> nat" where
  "snapBoundary runes chunkStart targetEnd windowChars =
     (let tolerance = windowChars div 5;
          searchStart = max (targetEnd - tolerance) (chunkStart + 1);
          searchEnd = min (targetEnd + tolerance) (length runes);
          sentences = filter (\<lambda>i. isSentenceEnd (runes ! i) \<and> (length runes \<le> i + 1 \<or> IsSpace (runes ! (i + 1)))) [searchStart..<searchEnd - 1];
          spaces = filter (\<lambda>i. IsSpace (runes ! i)) [searchStart..<searchEnd]
      in case nearest targetEnd (None, tolerance + 1) (map Suc sentences) of
           Some e \<Rightarrow> e
         | None \<Rightarrow> (case nearest targetEnd (None, tolerance + 1) spaces of Some e \<Rightarrow> e | None \<Rightarrow> targetEnd))"

definition window_end :: "bool \<Rightarrow> nat \<Rightarrow> rune list \<Rightarrow> nat \<Rightarrow> nat" where
  "window_end snapToSentence windowChars runes pos =
     (let e = min (pos + windowChars) (length runes) in
      if snapToSentence \<and> e < length runes then snapBoundary runes pos e windowChars else e)"

definition next_pos :: "nat \<Rightarrow> nat \<Rightarrow> nat \<Rightarrow> nat" where
  "next_pos overlapChars pos e = (if e - overlapChars \<le> pos then pos + 1 else e - overlapChars)"

function sliding_loop :: "(nat \<Rightarrow> rune list \<Rightarrow> Chunk) \<Rightarrow> bool \<Rightarrow> nat \<Rightarrow> nat \<Rightarrow> rune list \<Rightarrow> nat \<Rightarrow> Chunk list \<Rightarrow> Chunk list" where
  "sliding_loop mk snap w overlap runes pos chunks =
     (if length runes \<le> pos then chunks
      else
        let e = window_end snap w runes pos; t = take (e - pos) (drop pos runes) in
        if length t < DefaultMinChunkChars then (if chunks = [] then [mk 0 t] else chunks)
        else
          let chunks' = chunks @ [mk (length chunks) t] in
          if length runes \<le> e then chunks' else sliding_loop mk snap w overlap runes (next_pos overlap pos e) chunks')"
  by auto
termination by (relation "measure (\<lambda>(mk, snap, w, overlap, runes, pos, chunks). length runes - pos)") (auto simp: next_pos_def Let_def)

declare sliding_loop.simps [simp del]

definition ChunkBySlidingOpts :: "uuids \<Rightarrow> rune list \<Rightarrow> int \<Rightarrow> int \<Rightarrow> bool \<Rightarrow> string \<Rightarrow> Chunk list" where
  "ChunkBySlidingOpts uuid text0 windowChars0 overlapChars0 snapToSentence documentID =
     (let runes = trim_space (crlf_to_lf text0) in
      if runes = [] then []
      else
        let windowChars = (if windowChars0 \<le> 0 then DefaultMaxChunkChars else nat windowChars0);
            overlap1 = (if overlapChars0 < 0 then 0 else nat overlapChars0);
            overlapChars = (if windowChars \<le> overlap1 then windowChars div 2 else overlap1)
        in sliding_loop (mk_chunk uuid documentID ''sliding'' 0) snapToSentence windowChars overlapChars runes 0 [])"

definition ChunkBySliding :: "uuids \<Rightarrow> rune list \<Rightarrow> int \<Rightarrow> int \<Rightarrow> string \<Rightarrow> Chunk list" where
  "ChunkBySliding uuid text0 windowChars overlapChars documentID = ChunkBySlidingOpts uuid text0 windowChars overlapChars True documentID"

section \<open>Paragraphs\<close>

text \<open>The chapter that a line names, or the one before: the word is Cyrillic, followed by a space and a number.\<close>

definition chapter_word :: "rune list" where
  "chapter_word = [0x413, 0x43B, 0x430, 0x432, 0x430, 0x20]"

definition next_chapter :: "(rune list \<Rightarrow> nat) \<Rightarrow> int \<Rightarrow> rune list \<Rightarrow> int" where
  "next_chapter len chapter t =
     (if take 6 t = chapter_word \<and> len t < 20 then (case Atoi (trim_space (drop 6 t)) of Some n \<Rightarrow> n | None \<Rightarrow> chapter) else chapter)"

record merge_state =
  msChunks :: "Chunk list"
  msParts :: "rune list list"
  msLen :: int
  msChapter :: int

definition flush_parts :: "uuids \<Rightarrow> string \<Rightarrow> int \<Rightarrow> merge_state \<Rightarrow> Chunk list" where
  "flush_parts uuid documentID minChunkChars s =
     (if minChunkChars \<le> msLen s \<and> msParts s \<noteq> []
      then msChunks s @ [mk_chunk uuid documentID [] (msChapter s) (length (msChunks s)) (join_with [10, 10] (msParts s))]
      else msChunks s)"

definition merge_paragraph :: "uuids \<Rightarrow> string \<Rightarrow> int \<Rightarrow> int \<Rightarrow> rune list \<Rightarrow> merge_state \<Rightarrow> merge_state" where
  "merge_paragraph uuid documentID minChunkChars maxChunkChars para0 s0 =
     (let para = trim_space para0 in
      if para = [] then s0
      else
        let s = s0\<lparr>msChapter := next_chapter length (msChapter s0) para\<rparr>; n = int (length para) in
        if msLen s + n < maxChunkChars
        then s\<lparr>msParts := msParts s @ [para], msLen := (if 0 < msLen s then msLen s + 2 else msLen s) + n\<rparr>
        else s\<lparr>msChunks := flush_parts uuid documentID minChunkChars s, msParts := [para], msLen := n\<rparr>)"

definition ChunkByParagraphMerged :: "uuids \<Rightarrow> rune list \<Rightarrow> int \<Rightarrow> int \<Rightarrow> string \<Rightarrow> Chunk list" where
  "ChunkByParagraphMerged uuid text0 minChunkChars maxChunkChars documentID =
     flush_parts uuid documentID minChunkChars
       (fold (merge_paragraph uuid documentID minChunkChars maxChunkChars) (split_blank (crlf_to_lf text0))
         \<lparr>msChunks = [], msParts = [], msLen = 0, msChapter = 0\<rparr>)"

definition simple_paragraph :: "uuids \<Rightarrow> string \<Rightarrow> int \<Rightarrow> rune list \<Rightarrow> Chunk list \<times> int \<Rightarrow> Chunk list \<times> int" where
  "simple_paragraph uuid documentID minChunkChars para0 s =
     (let para = trim_space para0 in
      if para = [] then s
      else
        let chapter = next_chapter length (snd s) para in
        (if minChunkChars \<le> int (length para)
         then fst s @ [mk_chunk uuid documentID ''paragraph'' chapter (length (fst s)) para] else fst s, chapter))"

definition ChunkByParagraphSimple :: "uuids \<Rightarrow> rune list \<Rightarrow> int \<Rightarrow> string \<Rightarrow> Chunk list" where
  "ChunkByParagraphSimple uuid text0 minChunkChars documentID =
     fst (fold (simple_paragraph uuid documentID minChunkChars) (split_blank (crlf_to_lf text0)) ([], 0))"

section \<open>Sentences\<close>

text \<open>
  The regular expression: a full stop, exclamation or question mark and then white space (\<open>\s\<close>, which is ASCII). A sentence ends after the mark,
  and the white space is dropped.
\<close>

definition regexp_space :: "rune \<Rightarrow> bool" where
  "regexp_space r \<longleftrightarrow> r \<in> {9, 10, 12, 13, 32}"

function sentences_from :: "rune list \<Rightarrow> rune list list" where
  "sentences_from [] = []"
| "sentences_from (c # t) =
     (if isSentenceEnd c \<and> t \<noteq> [] \<and> regexp_space (hd t) then [c] # sentences_from (dropWhile regexp_space t)
      else cons_head c (sentences_from t))"
  by pat_completeness auto
termination by (relation "measure length") (auto simp: le_imp_less_Suc length_dropWhile_le)

definition splitBySentence :: "rune list \<Rightarrow> rune list list" where
  "splitBySentence t = (if t = [] then [[]] else sentences_from t)"

definition flush_buffer :: "uuids \<Rightarrow> string \<Rightarrow> int \<Rightarrow> int \<Rightarrow> rune list \<Rightarrow> Chunk list \<Rightarrow> Chunk list" where
  "flush_buffer uuid documentID minChunkChars chapter buffer chunks =
     (if minChunkChars \<le> int (byte_len buffer)
      then chunks @ [mk_chunk uuid documentID ''sentence'' chapter (length chunks) buffer] else chunks)"

definition merge_sentence ::
  "uuids \<Rightarrow> string \<Rightarrow> int \<Rightarrow> int \<Rightarrow> rune list \<Rightarrow> Chunk list \<times> rune list \<times> int \<Rightarrow> Chunk list \<times> rune list \<times> int" where
  "merge_sentence uuid documentID minChunkChars maxChunkChars sent0 s =
     (case s of (chunks, buffer, chapter0) \<Rightarrow>
        let sent = trim_space sent0 in
        if sent = [] then s
        else
          let chapter = next_chapter byte_len chapter0 sent in
          if int (byte_len buffer + byte_len sent) < maxChunkChars
          then (chunks, if buffer \<noteq> [] then buffer @ 32 # sent else sent, chapter)
          else (flush_buffer uuid documentID minChunkChars chapter buffer chunks, sent, chapter))"

definition ChunkBySentence :: "uuids \<Rightarrow> rune list \<Rightarrow> int \<Rightarrow> int \<Rightarrow> string \<Rightarrow> Chunk list" where
  "ChunkBySentence uuid text0 minChunkChars maxChunkChars documentID =
     (case fold (merge_sentence uuid documentID minChunkChars maxChunkChars) (splitBySentence text0) ([], [], 0) of
        (chunks, buffer, chapter) \<Rightarrow> flush_buffer uuid documentID minChunkChars chapter buffer chunks)"

section \<open>Rows\<close>

function row_batches :: "nat \<Rightarrow> 'a list \<Rightarrow> 'a list list" where
  "row_batches n rows = (if rows = [] \<or> n = 0 then [] else take n rows # row_batches n (drop n rows))"
  by auto
termination by (relation "measure (\<lambda>(n, rows). length rows)") auto

declare row_batches.simps [simp del]

definition row_chunk :: "uuids \<Rightarrow> string \<Rightarrow> rune list \<Rightarrow> rune list list \<Rightarrow> Chunk list \<Rightarrow> Chunk list" where
  "row_chunk uuid documentID header batch chunks =
     (let t = trim_space (header @ 10 # join_with [10] batch) in
      if t = [] \<or> t = header then chunks else chunks @ [mk_chunk uuid documentID ''row'' 0 (length chunks) t])"

definition ChunkByRow :: "uuids \<Rightarrow> rune list \<Rightarrow> int \<Rightarrow> string \<Rightarrow> Chunk list" where
  "ChunkByRow uuid text0 rowsPerChunk0 documentID =
     (let rowsPerChunk = (if rowsPerChunk0 \<le> 0 then 20 else nat rowsPerChunk0); ls = split_lines (crlf_to_lf text0) in
      fold (row_chunk uuid documentID (hd ls)) (row_batches rowsPerChunk (tl ls)) [])"

section \<open>Parents and children\<close>

definition childChunkID :: "uuids \<Rightarrow> string \<Rightarrow> nat \<Rightarrow> string" where
  "childChunkID uuid parentID k = fst uuid (parentID @ ''-child-'' @ decimal (int k))"

definition parent_children :: "uuids \<Rightarrow> int \<Rightarrow> Chunk \<Rightarrow> nat \<Rightarrow> Chunk list" where
  "parent_children uuid childMaxChars parent offset =
     (let cs0 = ChunkBySentence uuid (chText parent) 30 childMaxChars (chID parent);
          cs = (if cs0 = [] \<and> chText parent \<noteq> []
                then [\<lparr>chID = childChunkID uuid (chID parent) 0, chText = chText parent, chChapter = 0, chIndex = 0, chCut = ''sentence'', chParent = []\<rparr>]
                else cs0)
      in map (\<lambda>(i, c). c\<lparr>chParent := chID parent, chID := childChunkID uuid (chID parent) i, chIndex := offset + i\<rparr>) (enumerate 0 cs))"

definition ChunkParentChild :: "uuids \<Rightarrow> rune list \<Rightarrow> int \<Rightarrow> int \<Rightarrow> string \<Rightarrow> Chunk list \<times> Chunk list" where
  "ChunkParentChild uuid text0 parentMaxChars0 childMaxChars0 documentID =
     (let parentMaxChars = (if parentMaxChars0 \<le> 0 then 2000 else parentMaxChars0);
          childMaxChars = (if childMaxChars0 \<le> 0 then 256 else childMaxChars0);
          parents = ChunkByParagraphMerged uuid text0 (int DefaultMinChunkChars) parentMaxChars documentID
      in (parents, fold (\<lambda>parent children. children @ parent_children uuid childMaxChars parent (length children)) parents []))"

end
