(* ===== verification/Chunker_Facts.thy ===== *)
theory Chunker_Facts
  imports Chunker
begin

text \<open>
  What the chunkers promise: windows that follow each other without a gap, the sizes of windows and merged paragraphs, and the texts
  that small windows lose.
\<close>

section \<open>Windows\<close>

lemma nearest_Some:
  "nearest target (b, d) is = Some e \<Longrightarrow> b = Some e \<or> e \<in> set is \<and> rune_dist e target < d"
proof (induction "is" arbitrary: b d)
  case (Cons i "is")
  show ?case
  proof (cases "rune_dist i target < d")
    case True
    then show ?thesis using Cons.IH [of "Some i" "rune_dist i target"] Cons.prems by auto
  next
    case False
    then show ?thesis using Cons.IH [of b d] Cons.prems by auto
  qed
qed simp

lemma nearest_None: "nearest target (None, d) is = Some e \<Longrightarrow> e \<in> set is \<and> rune_dist e target < d"
  using nearest_Some by fastforce

lemma snapBoundary_bounds:
  assumes "chunkStart < targetEnd" "targetEnd \<le> length runes"
  shows "chunkStart < snapBoundary runes chunkStart targetEnd w" "snapBoundary runes chunkStart targetEnd w \<le> length runes"
    "snapBoundary runes chunkStart targetEnd w \<le> targetEnd + w div 5" "targetEnd \<le> snapBoundary runes chunkStart targetEnd w + w div 5"
proof -
  let ?e = "snapBoundary runes chunkStart targetEnd w" and ?tol = "w div 5"
  let ?S = "max (targetEnd - ?tol) (chunkStart + 1)" and ?E = "min (targetEnd + ?tol) (length runes)"
  have near: "rune_dist x targetEnd < ?tol + 1 \<Longrightarrow> x \<le> targetEnd + ?tol \<and> targetEnd \<le> x + ?tol" for x
    by (simp add: rune_dist_def) linarith
  have "chunkStart < ?e \<and> ?e \<le> length runes \<and> ?e \<le> targetEnd + ?tol \<and> targetEnd \<le> ?e + ?tol"
  proof (cases "nearest targetEnd (None, ?tol + 1) (map Suc (filter (\<lambda>i. isSentenceEnd (runes ! i) \<and> (length runes \<le> i + 1 \<or> IsSpace (runes ! (i + 1)))) [?S..<?E - 1]))")
    case (Some x)
    then have "?e = x" by (simp add: snapBoundary_def Let_def)
    moreover have "chunkStart < x \<and> x \<le> length runes" using nearest_None [OF Some] by auto
    ultimately show ?thesis using near nearest_None [OF Some] by blast
  next
    case none: None
    show ?thesis
    proof (cases "nearest targetEnd (None, ?tol + 1) (filter (\<lambda>i. IsSpace (runes ! i)) [?S..<?E])")
      case (Some x)
      then have "?e = x" using none by (simp add: snapBoundary_def Let_def)
      moreover have "chunkStart < x \<and> x \<le> length runes" using nearest_None [OF Some] by auto
      ultimately show ?thesis using near nearest_None [OF Some] by blast
    next
      case None
      then have "?e = targetEnd" using none by (simp add: snapBoundary_def Let_def)
      then show ?thesis using assms by simp
    qed
  qed
  then show "chunkStart < ?e" "?e \<le> length runes" "?e \<le> targetEnd + ?tol" "targetEnd \<le> ?e + ?tol" by blast+
qed

lemma window_end_bounds:
  assumes "pos < length runes" "0 < w"
  shows "pos < window_end snap w runes pos" "window_end snap w runes pos \<le> length runes"
    "window_end snap w runes pos \<le> pos + w + w div 5"
    "window_end snap w runes pos = length runes \<or> pos + w \<le> window_end snap w runes pos + w div 5"
proof -
  let ?t = "min (pos + w) (length runes)"
  have "pos < ?t" "?t \<le> length runes" using assms by simp_all
  note S = snapBoundary_bounds [OF this, of w]
  show "pos < window_end snap w runes pos" "window_end snap w runes pos \<le> length runes"
    using S(1,2) assms by (simp_all add: window_end_def Let_def)
  show "window_end snap w runes pos \<le> pos + w + w div 5" "window_end snap w runes pos = length runes \<or> pos + w \<le> window_end snap w runes pos + w div 5"
    using S(3,4) assms by (auto simp: window_end_def Let_def min_def split: if_splits)
qed

lemma next_pos_bounds: "pos < e \<Longrightarrow> pos < next_pos overlap pos e \<and> next_pos overlap pos e \<le> e"
  by (auto simp: next_pos_def)

definition slice :: "'a list \<Rightarrow> nat \<times> nat \<Rightarrow> 'a list" where
  "slice xs ab = take (snd ab - fst ab) (drop (fst ab) xs)"

text \<open>Windows that start at \<open>pos\<close>, each beginning inside the one before it.\<close>

fun window_chain :: "nat \<Rightarrow> nat \<Rightarrow> nat \<Rightarrow> (nat \<times> nat) list \<Rightarrow> bool" where
  "window_chain n w pos [] \<longleftrightarrow> True"
| "window_chain n w pos ((a, b) # ss) \<longleftrightarrow>
     a = pos \<and> a < b \<and> b \<le> n \<and> b \<le> a + w + w div 5 \<and> (\<exists>c. a < c \<and> c \<le> b \<and> window_chain n w c ss)"

definition chunks_of :: "(nat \<Rightarrow> rune list \<Rightarrow> Chunk) \<Rightarrow> rune list \<Rightarrow> nat \<Rightarrow> (nat \<times> nat) list \<Rightarrow> Chunk list" where
  "chunks_of mk runes k ss = map (\<lambda>(i, ab). mk i (slice runes ab)) (enumerate k ss)"

text \<open>Where the windows end: everything but fewer than \<open>DefaultMinChunkChars\<close> runes is in one of them, if they are not small.\<close>

definition covered_to :: "nat \<Rightarrow> nat \<Rightarrow> nat \<Rightarrow> (nat \<times> nat) list \<Rightarrow> bool" where
  "covered_to n w pos ss \<longleftrightarrow> (100 \<le> w \<longrightarrow> n < (if ss = [] then pos else snd (last ss)) + DefaultMinChunkChars)"

lemma sliding_loop_windows:
  assumes "0 < w" "pos < length runes"
  shows "\<exists>ss. sliding_loop mk snap w overlap runes pos chunks = chunks @ chunks_of mk runes (length chunks) ss \<and>
    window_chain (length runes) w pos ss \<and> (chunks = [] \<longrightarrow> ss \<noteq> []) \<and>
    (\<forall>(a, b)\<in>set ss. a + DefaultMinChunkChars \<le> b \<or> chunks = [] \<and> length ss = 1) \<and> covered_to (length runes) w pos ss"
  using assms
proof (induction mk snap w overlap runes pos chunks rule: sliding_loop.induct)
  case (1 mk snap w overlap runes pos chunks)
  let ?n = "length runes"
  define e where "e = window_end snap w runes pos"
  note B = window_end_bounds [OF "1.prems"(2,1), of snap, folded e_def]
  let ?t = "take (e - pos) (drop pos runes)"
  have lt: "length ?t = e - pos" using B(2) by simp
  have tail: "?n \<le> e" if "e - pos < DefaultMinChunkChars" "100 \<le> w"
    using B(4) that by (simp add: DefaultMinChunkChars_def) linarith
  have run: "sliding_loop mk snap w overlap runes pos chunks =
      (if e - pos < DefaultMinChunkChars then (if chunks = [] then [mk 0 ?t] else chunks)
       else if ?n \<le> e then chunks @ [mk (length chunks) ?t]
       else sliding_loop mk snap w overlap runes (next_pos overlap pos e) (chunks @ [mk (length chunks) ?t]))"
    using "1.prems"(2) lt by (simp add: sliding_loop.simps [of mk snap w overlap runes pos] e_def [symmetric] Let_def)
  consider (first) "e - pos < DefaultMinChunkChars" "chunks = []" | (dropped) "e - pos < DefaultMinChunkChars" "chunks \<noteq> []"
    | (final) "DefaultMinChunkChars \<le> e - pos" "?n \<le> e" | (more) "DefaultMinChunkChars \<le> e - pos" "e < ?n"
    by linarith
  then show ?case
  proof cases
    case first
    then show ?thesis
      using run B tail by (intro exI [of _ "[(pos, e)]"]) (auto simp: chunks_of_def slice_def covered_to_def DefaultMinChunkChars_def)
  next
    case dropped
    then show ?thesis
      using run tail B(1) by (intro exI [of _ "[]"]) (auto simp: chunks_of_def covered_to_def)
  next
    case final
    then show ?thesis
      using run B by (intro exI [of _ "[(pos, e)]"]) (auto simp: chunks_of_def slice_def covered_to_def DefaultMinChunkChars_def)
  next
    case more
    note np = next_pos_bounds [OF B(1), of overlap]
    have lt': "\<not> length ?t < DefaultMinChunkChars" using more(1) lt by simp
    have "next_pos overlap pos e < ?n" using np more(2) by simp
    from "1.IH" [OF _ e_def refl _ refl _ "1.prems"(1) this] obtain ss where
      ss: "sliding_loop mk snap w overlap runes (next_pos overlap pos e) (chunks @ [mk (length chunks) ?t]) =
        (chunks @ [mk (length chunks) ?t]) @ chunks_of mk runes (Suc (length chunks)) ss"
      "window_chain ?n w (next_pos overlap pos e) ss" "\<forall>(a, b)\<in>set ss. a + DefaultMinChunkChars \<le> b"
      "covered_to ?n w (next_pos overlap pos e) ss"
      using "1.prems"(2) lt' more(2) by auto
    show ?thesis
      using run more ss B np
      by (intro exI [of _ "(pos, e) # ss"]) (auto simp: chunks_of_def slice_def covered_to_def DefaultMinChunkChars_def)
  qed
qed

definition clamp_window :: "int \<Rightarrow> nat" where
  "clamp_window w = (if w \<le> 0 then DefaultMaxChunkChars else nat w)"

lemma ChunkBySliding_windows:
  assumes "runes = trim_space (crlf_to_lf text0)" "w = clamp_window windowChars" "runes \<noteq> []"
  shows "\<exists>ss. ChunkBySlidingOpts uuid text0 windowChars overlapChars snap documentID =
      chunks_of (mk_chunk uuid documentID ''sliding'' 0) runes 0 ss \<and>
    ss \<noteq> [] \<and> window_chain (length runes) w 0 ss \<and> (\<forall>(a, b)\<in>set ss. a + DefaultMinChunkChars \<le> b \<or> length ss = 1) \<and>
    covered_to (length runes) w 0 ss"
proof -
  have w: "0 < w" using assms(2) by (simp add: clamp_window_def DefaultMaxChunkChars_def)
  have n: "0 < length runes" using assms(3) by simp
  let ?ov = "if w \<le> (if overlapChars < 0 then 0 else nat overlapChars) then w div 2 else (if overlapChars < 0 then 0 else nat overlapChars)"
  have run: "ChunkBySlidingOpts uuid text0 windowChars overlapChars snap documentID =
      sliding_loop (mk_chunk uuid documentID ''sliding'' 0) snap w ?ov runes 0 []"
    using assms by (simp add: ChunkBySlidingOpts_def clamp_window_def Let_def)
  let ?mk = "mk_chunk uuid documentID ''sliding'' 0"
  obtain ss where "sliding_loop ?mk snap w ?ov runes 0 [] = [] @ chunks_of ?mk runes (length ([] :: Chunk list)) ss"
    "window_chain (length runes) w 0 ss" "([] :: Chunk list) = [] \<longrightarrow> ss \<noteq> []"
    "\<forall>(a, b)\<in>set ss. a + DefaultMinChunkChars \<le> b \<or> ([] :: Chunk list) = [] \<and> length ss = 1" "covered_to (length runes) w 0 ss"
    using sliding_loop_windows [OF w n, of ?mk snap ?ov "[]"] by blast
  then show ?thesis unfolding run by (intro exI [of _ ss]) simp
qed

text \<open>A window below the minimum, with its tolerance, gives one chunk, and the rest of the text is in none.\<close>

lemma sliding_small:
  assumes "0 < windowChars" "nat windowChars + nat windowChars div 5 < DefaultMinChunkChars" "trim_space (crlf_to_lf text0) \<noteq> []"
  shows "\<exists>c. ChunkBySlidingOpts uuid text0 windowChars overlapChars snap documentID = [c] \<and>
    length (chText c) \<le> nat windowChars + nat windowChars div 5"
proof -
  let ?runes = "trim_space (crlf_to_lf text0)" and ?w = "nat windowChars"
  have "clamp_window windowChars = ?w" using assms(1) by (simp add: clamp_window_def)
  from ChunkBySliding_windows [OF refl this [symmetric] assms(3)] obtain ss where
    ss: "ChunkBySlidingOpts uuid text0 windowChars overlapChars snap documentID = chunks_of (mk_chunk uuid documentID ''sliding'' 0) ?runes 0 ss"
    "ss \<noteq> []" "window_chain (length ?runes) ?w 0 ss" "\<forall>(a, b)\<in>set ss. a + DefaultMinChunkChars \<le> b \<or> length ss = 1" by blast
  obtain a b rest where s: "ss = (a, b) # rest" using ss(2) by (cases ss) auto
  have b: "b \<le> a + ?w + ?w div 5" using ss(3) by (simp add: s)
  then have "rest = []" using ss(4) assms(2) by (auto simp: s)
  then show ?thesis using ss(1) b by (simp add: s chunks_of_def slice_def mk_chunk_def)
qed

section \<open>Merged paragraphs\<close>

lemma join_with_snoc: "ws \<noteq> [] \<Longrightarrow> join_with sep (ws @ [w]) = join_with sep ws @ sep @ w"
  by (induction sep ws rule: join_with.induct) auto

lemma join_with_empty: "ws \<noteq> [] \<Longrightarrow> \<forall>w\<in>set ws. w \<noteq> [] \<Longrightarrow> join_with sep ws \<noteq> []"
  by (induction sep ws rule: join_with.induct) auto

text \<open>A chunk is long enough, and no longer than the maximum and one rune, unless it is a single paragraph.\<close>

definition good_chunk :: "int \<Rightarrow> int \<Rightarrow> rune list list \<Rightarrow> rune list \<Rightarrow> bool" where
  "good_chunk mn mx paras t \<longleftrightarrow> mn \<le> int (length t) \<and> (int (length t) \<le> mx + 1 \<or> t \<in> trim_space ` set paras)"

definition merge_inv :: "int \<Rightarrow> int \<Rightarrow> rune list list \<Rightarrow> merge_state \<Rightarrow> bool" where
  "merge_inv mn mx paras s \<longleftrightarrow>
     (\<forall>c\<in>set (msChunks s). good_chunk mn mx paras (chText c)) \<and> map chIndex (msChunks s) = [0..<length (msChunks s)] \<and>
     (\<forall>w\<in>set (msParts s). w \<noteq> []) \<and> msLen s = int (length (join_with [10, 10] (msParts s))) \<and>
     (msLen s \<le> mx + 1 \<or> join_with [10, 10] (msParts s) \<in> trim_space ` set paras)"

lemma merge_inv_chapter: "merge_inv mn mx paras (s\<lparr>msChapter := x\<rparr>) = merge_inv mn mx paras s"
  by (cases s) (simp add: merge_inv_def)

lemma flush_parts_good:
  assumes "merge_inv mn mx paras s"
  shows "(\<forall>c\<in>set (flush_parts uuid doc mn s). good_chunk mn mx paras (chText c)) \<and>
    map chIndex (flush_parts uuid doc mn s) = [0..<length (flush_parts uuid doc mn s)]"
  using assms by (auto simp: flush_parts_def merge_inv_def mk_chunk_def good_chunk_def)

lemma merge_paragraph_inv:
  assumes inv: "merge_inv mn mx paras s" and p: "para \<in> set paras" and mx: "0 \<le> mx"
  shows "merge_inv mn mx paras (merge_paragraph uuid doc mn mx para s)"
proof -
  let ?p = "trim_space para" and ?j = "join_with [10, 10] (msParts s)"
  consider (empty) "?p = []" | (fits) "?p \<noteq> []" "msLen s + int (length ?p) < mx" | (full) "?p \<noteq> []" "\<not> msLen s + int (length ?p) < mx" by blast
  then show ?thesis
  proof cases
    case empty
    then show ?thesis using inv by (simp add: merge_paragraph_def)
  next
    case fits
    show ?thesis
    proof (cases "msParts s = []")
      case True
      then have "msLen s = 0" using inv by (simp add: merge_inv_def)
      then show ?thesis using inv fits True by (auto simp: merge_paragraph_def merge_inv_def Let_def)
    next
      case False
      have "?j \<noteq> []" using inv False join_with_empty [OF False, of "[10, 10]"] by (simp add: merge_inv_def)
      then have "0 < msLen s" using inv by (simp add: merge_inv_def)
      moreover have "join_with [10, 10] (msParts s @ [?p]) = ?j @ [10, 10] @ ?p" by (rule join_with_snoc [OF False])
      ultimately show ?thesis using inv fits by (auto simp: merge_paragraph_def merge_inv_def Let_def)
    qed
  next
    case full
    let ?s = "s\<lparr>msChapter := next_chapter length (msChapter s) ?p\<rparr>"
    have "merge_inv mn mx paras ?s" using inv by (simp only: merge_inv_chapter)
    note F = flush_parts_good [OF this, of uuid doc]
    have "merge_paragraph uuid doc mn mx para s = ?s\<lparr>msChunks := flush_parts uuid doc mn ?s, msParts := [?p], msLen := int (length ?p)\<rparr>"
      using full by (simp add: merge_paragraph_def Let_def)
    then show ?thesis using F full(1) p by (auto simp: merge_inv_def)
  qed
qed

lemma ChunkByParagraphMerged_good:
  assumes "0 \<le> mx"
  shows "(\<forall>c\<in>set (ChunkByParagraphMerged uuid text0 mn mx doc). good_chunk mn mx (split_blank (crlf_to_lf text0)) (chText c)) \<and>
    map chIndex (ChunkByParagraphMerged uuid text0 mn mx doc) = [0..<length (ChunkByParagraphMerged uuid text0 mn mx doc)]"
proof -
  let ?paras = "split_blank (crlf_to_lf text0)"
  have "merge_inv mn mx ?paras (fold (merge_paragraph uuid doc mn mx) ps s)" if "set ps \<subseteq> set ?paras" "merge_inv mn mx ?paras s" for ps s
    using that by (induction ps arbitrary: s) (auto intro: merge_paragraph_inv [OF _ _ assms])
  moreover have "merge_inv mn mx ?paras \<lparr>msChunks = [], msParts = [], msLen = 0, msChapter = 0\<rparr>" using assms by (simp add: merge_inv_def)
  ultimately show ?thesis unfolding ChunkByParagraphMerged_def by (intro flush_parts_good) blast
qed

end
