(* ===== verification/Heapify.thy ===== *)
theory Heapify
  imports Heap
begin

text \<open>
  \<open>container/heap\<close>: \<open>Init\<close> makes a heap of a slice by sifting down from the last parent to the root, and \<open>Fix\<close> at the root sifts
  down once (its \<open>up\<close> does nothing there). \<open>lt\<close> is the \<open>Less\<close> of the element type.
\<close>

definition heap_init :: "('a \<Rightarrow> 'a \<Rightarrow> bool) \<Rightarrow> 'a list \<Rightarrow> 'a list" where
  "heap_init lt h = fold (\<lambda>i h. heap_down lt (\<lambda>x c. \<not> lt c x) h i (length h)) (rev [0..<length h div 2]) h"

definition heap_fix_root :: "('a \<Rightarrow> 'a \<Rightarrow> bool) \<Rightarrow> 'a list \<Rightarrow> 'a list" where
  "heap_fix_root lt h = heap_down lt (\<lambda>x c. \<not> lt c x) h 0 (length h)"

section \<open>Heaps from a position on\<close>

definition heap_from :: "('a \<Rightarrow> 'a \<Rightarrow> bool) \<Rightarrow> ('a \<Rightarrow> bool) \<Rightarrow> 'a list \<Rightarrow> nat \<Rightarrow> bool" where
  "heap_from le ok h b \<longleftrightarrow> (\<forall>x\<in>set h. ok x) \<and> (\<forall>k. 0 < k \<longrightarrow> k < length h \<longrightarrow> b \<le> parent k \<longrightarrow> le (h ! parent k) (h ! k))"

definition heap_from_but :: "('a \<Rightarrow> 'a \<Rightarrow> bool) \<Rightarrow> ('a \<Rightarrow> bool) \<Rightarrow> 'a list \<Rightarrow> nat \<Rightarrow> nat \<Rightarrow> bool" where
  "heap_from_but le ok h b i \<longleftrightarrow> (\<forall>x\<in>set h. ok x) \<and>
     (\<forall>k. 0 < k \<longrightarrow> k < length h \<longrightarrow> b \<le> parent k \<longrightarrow> parent k \<noteq> i \<longrightarrow> le (h ! parent k) (h ! k)) \<and>
     (\<forall>k. 0 < i \<longrightarrow> b \<le> parent i \<longrightarrow> 0 < k \<longrightarrow> k < length h \<longrightarrow> parent k = i \<longrightarrow> le (h ! parent i) (h ! k))"

lemma heap_from_0: "heap_from le ok h 0 = is_heap le ok h"
  by (simp add: heap_from_def is_heap_def)

context heap_order
begin

lemma swap_down_from:
  assumes h: "heap_from_but le ok h b i" and b: "b \<le> i" and j: "parent j = i" "0 < j" "j < length h"
    and down: "le (h ! j) (h ! i)"
    and least: "\<And>k. 0 < k \<Longrightarrow> k < length h \<Longrightarrow> parent k = i \<Longrightarrow> le (h ! j) (h ! k)"
  shows "heap_from_but le ok (swap h i j) b j"
proof -
  have i: "i < j" using j parent_less by blast
  have nth: "swap h i j ! k = (if k = j then h ! i else if k = i then h ! j else h ! k)" for k
    using i j by (simp add: nth_swap)
  from h have ok: "\<forall>x\<in>set h. ok x"
    and ord: "\<And>k. 0 < k \<Longrightarrow> k < length h \<Longrightarrow> b \<le> parent k \<Longrightarrow> parent k \<noteq> i \<Longrightarrow> le (h ! parent k) (h ! k)"
    and gp: "\<And>k. 0 < i \<Longrightarrow> b \<le> parent i \<Longrightarrow> 0 < k \<Longrightarrow> k < length h \<Longrightarrow> parent k = i \<Longrightarrow> le (h ! parent i) (h ! k)"
    unfolding heap_from_but_def by blast+
  have 1: "le (swap h i j ! parent k) (swap h i j ! k)"
    if k: "0 < k" "k < length h" "b \<le> parent k" "parent k \<noteq> j" for k
  proof (cases "k = i")
    case True
    then have "parent i < i" using k(1) parent_less by simp
    then show ?thesis using True k gp [of j] j i by (auto simp: nth)
  next
    case False
    then show ?thesis using k j i down least [of k] ord [of k] by (auto simp: nth)
  qed
  have 2: "le (swap h i j ! parent j) (swap h i j ! k)"
    if k: "0 < k" "k < length h" "parent k = j" for k
  proof -
    have "j < k" using k(1,3) parent_less by blast
    then show ?thesis using k j i b ord [of k] by (auto simp: nth)
  qed
  show ?thesis
    unfolding heap_from_but_def using ok 1 2 i j by (auto simp: set_swap_list)
qed

text \<open>The child that \<open>down\<close> compares with is the least one.\<close>

lemma chosen_child:
  assumes ok: "\<forall>x\<in>set h. ok x" and n: "2 * i + 1 < length h"
  defines "j \<equiv> if 2 * i + 2 < length h \<and> lt (h ! (2 * i + 2)) (h ! (2 * i + 1)) then 2 * i + 2 else 2 * i + 1"
  shows "parent j = i" "0 < j" "j < length h" "i < j" "0 < k \<Longrightarrow> k < length h \<Longrightarrow> parent k = i \<Longrightarrow> le (h ! j) (h ! k)"
proof -
  show "parent j = i" "0 < j" "j < length h" "i < j" using n by (auto simp: j_def parent_def)
  assume k: "0 < k" "k < length h" "parent k = i"
  then have "k = 2 * i + 1 \<or> k = 2 * i + 2" by (simp add: parent_eq_iff)
  then show "le (h ! j) (h ! k)"
    using k n ok lt_iff [of "h ! (2 * i + 2)" "h ! (2 * i + 1)"] le_total [of "h ! (2 * i + 2)" "h ! (2 * i + 1)"]
    by (auto simp: j_def le_refl)
qed

lemma heap_down_from:
  "heap_from_but le ok h b i \<Longrightarrow> b \<le> i \<Longrightarrow> i < length h \<Longrightarrow> heap_from le ok (heap_down lt (\<lambda>x c. \<not> lt c x) h i (length h)) b"
proof (induction "length h - i" arbitrary: h i rule: less_induct)
  case less
  let ?n = "length h"
  define j where "j = (if 2 * i + 2 < ?n \<and> lt (h ! (2 * i + 2)) (h ! (2 * i + 1)) then 2 * i + 2 else 2 * i + 1)"
  have eq: "heap_down lt (\<lambda>x c. \<not> lt c x) h i ?n =
      (if ?n \<le> 2 * i + 1 then h else if \<not> lt (h ! j) (h ! i) then h else heap_down lt (\<lambda>x c. \<not> lt c x) (swap h i j) j ?n)"
    by (simp add: heap_down.simps [of lt "\<lambda>x c. \<not> lt c x" h i] j_def Let_def)
  have hd: "\<forall>x\<in>set h. ok x" "\<And>k. 0 < k \<Longrightarrow> k < ?n \<Longrightarrow> b \<le> parent k \<Longrightarrow> parent k \<noteq> i \<Longrightarrow> le (h ! parent k) (h ! k)"
    using less.prems(1) unfolding heap_from_but_def by blast+
  show ?case
  proof (cases "?n \<le> 2 * i + 1")
    case True
    then have "heap_from le ok h b" unfolding heap_from_def using hd by (auto simp: parent_eq_iff)
    then show ?thesis using True eq by simp
  next
    case False
    then have n: "2 * i + 1 < ?n" by simp
    note c = chosen_child [OF hd(1) n, folded j_def]
    have oks: "ok (h ! i)" "ok (h ! j)" using c(3) less.prems(3) hd(1) by simp_all
    show ?thesis
    proof (cases "lt (h ! j) (h ! i)")
      case True
      then have down: "le (h ! j) (h ! i)" using oks lt_iff le_total by blast
      have but: "heap_from_but le ok (swap h i j) b j"
        by (rule swap_down_from [OF less.prems(1,2) c(1,2,3) down]) (rule c(5))
      have "heap_from le ok (heap_down lt (\<lambda>x c. \<not> lt c x) (swap h i j) j (length (swap h i j))) b"
        by (rule less.hyps [OF _ but]) (use c less.prems in simp_all)
      with True False eq show ?thesis by simp
    next
      case stuck: False
      have "le (h ! i) (h ! j)" using stuck oks lt_iff by blast
      then have "heap_from le ok h b" unfolding heap_from_def using hd c(5) le_trans by blast
      with stuck False eq show ?thesis by simp
    qed
  qed
qed

lemma heap_init_is_heap:
  assumes "\<forall>x\<in>set h. ok x"
  shows "is_heap le ok (heap_init lt h) \<and> mset (heap_init lt h) = mset h"
proof -
  let ?step = "\<lambda>i h. heap_down lt (\<lambda>x c. \<not> lt c x) h i (length h)"
  have "heap_from le ok (fold ?step (rev [0..<b]) g) 0 \<and> mset (fold ?step (rev [0..<b]) g) = mset g"
    if "heap_from le ok g b" "2 * b \<le> length g" for b g
    using that
  proof (induction b arbitrary: g)
    case (Suc b)
    have len: "b < length g" using Suc.prems(2) by simp
    have "heap_from_but le ok g b b"
      using Suc.prems(1) parent_less [of b] unfolding heap_from_def heap_from_but_def by (auto simp: Suc_le_eq)
    note D = heap_down_from [OF this _ len]
    have m: "mset (?step b g) = mset g" using len by (simp add: mset_heap_down)
    show ?case using Suc.IH [of "?step b g"] D m Suc.prems(2) by simp
  qed simp
  moreover have "heap_from le ok h (length h div 2)"
    using assms unfolding heap_from_def by (auto simp: parent_def)
  ultimately show ?thesis unfolding heap_init_def heap_from_0 [symmetric] by simp
qed

lemma heap_fix_root_is_heap:
  assumes "is_heap le ok h" "ok x" "h \<noteq> []"
  shows "is_heap le ok (heap_fix_root lt (h[0 := x]))" "mset (heap_fix_root lt (h[0 := x])) = mset (h[0 := x])"
proof -
  have "heap_from_but le ok (h[0 := x]) 0 0"
    using assms set_update_subset_insert [of h 0 x] unfolding heap_from_but_def is_heap_def
    by (auto simp: nth_list_update parent_def)
  from heap_down_from [OF this] show "is_heap le ok (heap_fix_root lt (h[0 := x]))"
    using assms(3) by (simp add: heap_fix_root_def heap_from_0)
  show "mset (heap_fix_root lt (h[0 := x])) = mset (h[0 := x])"
    using assms(3) by (simp add: heap_fix_root_def mset_heap_down)
qed

end

end
