(* ===== verification/Bm25.thy ===== *)
theory Bm25
  imports Heapify Chunker
begin

text \<open>
  \<open>pkg/bm25\<close>: the inverted index for keyword search (\<open>index.go\<close>) and the fusion of its results with those of a vector search
  (\<open>hybrid.go\<close>).

  Scores are \<open>float64\<close>, one rounding per operation. Texts are lists of runes. Arguments: \<open>bmLower\<close> is \<open>strings.ToLower\<close>, \<open>bmAlnum\<close>
  whether a rune is a letter or a digit of Unicode, \<open>bmLog\<close> is \<open>math.Log\<close>; the order in which a loop visits a map is an argument of
  the functions whose result depends on it. The callback of a change is the list \<open>ixLog\<close>. A nil dereference is \<open>None\<close>.
\<close>

section \<open>Numbers\<close>

definition f64_of_int :: "int \<Rightarrow> flt" where
  "f64_of_int n = round_flt binary64 (n < 0) \<bar>n\<bar> 0"

abbreviation f64_add :: "flt \<Rightarrow> flt \<Rightarrow> flt" where "f64_add \<equiv> flt_add binary64"
abbreviation f64_sub :: "flt \<Rightarrow> flt \<Rightarrow> flt" where "f64_sub \<equiv> flt_sub binary64"
abbreviation f64_mul :: "flt \<Rightarrow> flt \<Rightarrow> flt" where "f64_mul \<equiv> flt_mul binary64"
abbreviation f64_div :: "flt \<Rightarrow> flt \<Rightarrow> flt" where "f64_div \<equiv> flt_div binary64"

definition f64_zero :: flt where "f64_zero = FFin False 0 0"
definition f64_half :: flt where "f64_half = FFin False 1 (-1)"

text \<open>The constants 1.2 and 0.75 as the compiler rounds them.\<close>

definition defaultK1 :: flt where "defaultK1 = FFin False 0x13333333333333 (-52)"
definition defaultB :: flt where "defaultB = FFin False 3 (-2)"

section \<open>The index\<close>

type_synonym token = "rune list"

record Document =
  dcID :: string
  dcText :: "rune list"
  dcMetadata :: string
  dcTokens :: "token list"

record Change =
  cgOp :: string
  cgID :: string
  cgText :: "rune list"
  cgMetadata :: string

record Index =
  ixDocs :: "string \<rightharpoonup> Document"
  ixInverted :: "token \<rightharpoonup> (string \<rightharpoonup> nat)"
  ixDocLen :: "string \<rightharpoonup> nat"
  ixTotal :: int
  ixAvgDL :: flt
  ixK1 :: flt
  ixB :: flt
  ixHook :: bool
  ixLog :: "Change list"
  ixMaxDocs :: int
  ixCapped :: bool

record bm_env =
  bmLower :: "rune list \<Rightarrow> rune list"
  bmAlnum :: "rune \<Rightarrow> bool"
  bmLog :: "flt \<Rightarrow> flt"

definition NewIndexWithParams :: "int \<Rightarrow> flt \<Rightarrow> flt \<Rightarrow> Index" where
  "NewIndexWithParams maxDocs k1 b =
     \<lparr>ixDocs = Map.empty, ixInverted = Map.empty, ixDocLen = Map.empty, ixTotal = 0, ixAvgDL = f64_zero,
      ixK1 = (if flt_lt f64_zero k1 \<or> k1 = FNaN then k1 else defaultK1),
      ixB = (if flt_lt b f64_zero \<or> flt_lt flt_one b then defaultB else b),
      ixHook = False, ixLog = [], ixMaxDocs = maxDocs, ixCapped = False\<rparr>"

definition NewIndex :: "int \<Rightarrow> Index" where
  "NewIndex maxDocs = NewIndexWithParams maxDocs defaultK1 defaultB"

definition SetMaxDocs :: "int \<Rightarrow> Index \<Rightarrow> Index" where
  "SetMaxDocs mx ix = ix\<lparr>ixMaxDocs := mx\<rparr>"

definition SetOnChange :: "bool \<Rightarrow> Index \<Rightarrow> Index" where
  "SetOnChange hook ix = ix\<lparr>ixHook := hook\<rparr>"

definition notify :: "Change \<Rightarrow> Index \<Rightarrow> Index" where
  "notify c ix = (if ixHook ix then ix\<lparr>ixLog := ixLog ix @ [c]\<rparr> else ix)"

fun fields_func :: "(rune \<Rightarrow> bool) \<Rightarrow> rune list \<Rightarrow> rune list \<Rightarrow> rune list list" where
  "fields_func sep w [] = (if w = [] then [] else [w])"
| "fields_func sep w (c # t) =
     (if sep c then (if w = [] then fields_func sep [] t else w # fields_func sep [] t) else fields_func sep (w @ [c]) t)"

definition tokenize :: "bm_env \<Rightarrow> rune list \<Rightarrow> token list" where
  "tokenize ev t = filter (\<lambda>w. 2 \<le> byte_len w) (fields_func (\<lambda>r. \<not> bmAlnum ev r) [] (bmLower ev t))"

text \<open>The loops over the counts of the tokens, in the order in which the tokens first occur.\<close>

definition remove_posting :: "string \<Rightarrow> token \<Rightarrow> (token \<rightharpoonup> (string \<rightharpoonup> nat)) \<Rightarrow> token \<rightharpoonup> (string \<rightharpoonup> nat)" where
  "remove_posting i term tbl =
     (case tbl term of None \<Rightarrow> tbl
      | Some postings \<Rightarrow> let p = postings(i := None) in tbl(term := if p = Map.empty then None else Some p))"

definition removeTokens :: "string \<Rightarrow> token list \<Rightarrow> Index \<Rightarrow> Index" where
  "removeTokens i tokens ix = ix\<lparr>ixInverted := fold (remove_posting i) (remdups tokens) (ixInverted ix)\<rparr>"

definition add_posting :: "string \<Rightarrow> token list \<Rightarrow> token \<Rightarrow> (token \<rightharpoonup> (string \<rightharpoonup> nat)) \<Rightarrow> token \<rightharpoonup> (string \<rightharpoonup> nat)" where
  "add_posting i tokens term tbl =
     tbl(term \<mapsto> (case tbl term of None \<Rightarrow> Map.empty | Some p \<Rightarrow> p)(i \<mapsto> count_list tokens term))"

definition recalcAvgDL :: "Index \<Rightarrow> Index" where
  "recalcAvgDL ix =
     ix\<lparr>ixAvgDL := (if ixDocLen ix = Map.empty then f64_zero
        else f64_div (f64_of_int (ixTotal ix)) (f64_of_int (int (card (dom (ixDocLen ix))))))\<rparr>"

definition doc_len :: "Index \<Rightarrow> string \<Rightarrow> int" where
  "doc_len ix i = (case ixDocLen ix i of None \<Rightarrow> 0 | Some n \<Rightarrow> int n)"

definition Index_Add :: "bm_env \<Rightarrow> string \<Rightarrow> rune list \<Rightarrow> string \<Rightarrow> Index \<Rightarrow> Index" where
  "Index_Add ev i t metadata ix =
     (if 0 < ixMaxDocs ix \<and> ixMaxDocs ix \<le> int (card (dom (ixDocs ix))) \<and> ixDocs ix i = None then ix\<lparr>ixCapped := True\<rparr>
      else
        let tokens = tokenize ev t;
            ix1 = (case ixDocs ix i of None \<Rightarrow> ix | Some old \<Rightarrow> removeTokens i (dcTokens old) ix);
            doc = \<lparr>dcID = i, dcText = t, dcMetadata = metadata, dcTokens = tokens\<rparr>;
            ix2 = ix1\<lparr>ixDocs := (ixDocs ix1)(i \<mapsto> doc), ixTotal := ixTotal ix1 + (int (length tokens) - doc_len ix1 i),
                      ixDocLen := (ixDocLen ix1)(i \<mapsto> length tokens)\<rparr>;
            ix3 = ix2\<lparr>ixInverted := fold (add_posting i tokens) (remdups tokens) (ixInverted ix2)\<rparr>
        in notify \<lparr>cgOp = ''put'', cgID = i, cgText = t, cgMetadata = metadata\<rparr> (recalcAvgDL ix3))"

definition Index_AddBatch :: "bm_env \<Rightarrow> Document list \<Rightarrow> Index \<Rightarrow> Index" where
  "Index_AddBatch ev docs ix = fold (\<lambda>d. Index_Add ev (dcID d) (dcText d) (dcMetadata d)) docs ix"

definition Index_Remove :: "string \<Rightarrow> Index \<Rightarrow> Index" where
  "Index_Remove i ix =
     (case ixDocs ix i of
        None \<Rightarrow> ix
      | Some doc \<Rightarrow>
          let ix1 = removeTokens i (dcTokens doc) ix;
              ix2 = ix1\<lparr>ixDocs := (ixDocs ix1)(i := None), ixTotal := ixTotal ix1 - doc_len ix1 i, ixDocLen := (ixDocLen ix1)(i := None)\<rparr>
          in notify \<lparr>cgOp = ''delete'', cgID = i, cgText = [], cgMetadata = []\<rparr> (recalcAvgDL ix2))"

definition Index_Clear :: "Index \<Rightarrow> Index" where
  "Index_Clear ix =
     notify \<lparr>cgOp = ''clear'', cgID = [], cgText = [], cgMetadata = []\<rparr>
       (ix\<lparr>ixDocs := Map.empty, ixInverted := Map.empty, ixDocLen := Map.empty, ixAvgDL := f64_zero, ixTotal := 0\<rparr>)"

definition Index_Size :: "Index \<Rightarrow> nat" where
  "Index_Size ix = card (dom (ixDocs ix))"

definition Index_Len :: "Index \<Rightarrow> nat" where
  "Index_Len ix = card (dom (ixDocs ix))"

definition Index_Documents :: "string list \<Rightarrow> Index \<Rightarrow> (string \<times> rune list \<times> string) list" where
  "Index_Documents order ix =
     concat (map (\<lambda>i. case ixDocs ix i of None \<Rightarrow> [] | Some d \<Rightarrow> [(dcID d, dcText d, dcMetadata d)]) order)"

section \<open>Search\<close>

record bm_result =
  rsID :: string
  rsScore :: flt
  rsMetadata :: string

definition bm_idf :: "bm_env \<Rightarrow> flt \<Rightarrow> nat \<Rightarrow> flt" where
  "bm_idf ev N m =
     (let n = f64_of_int (int m) in
      bmLog ev (f64_add (f64_div (f64_add (f64_sub N n) f64_half) (f64_add n f64_half)) flt_one))"

definition bm_tf :: "Index \<Rightarrow> string \<Rightarrow> nat \<Rightarrow> flt" where
  "bm_tf ix i freq =
     (let dl = f64_of_int (doc_len ix i); f = f64_of_int (int freq); k1 = ixK1 ix; b = ixB ix in
      f64_div (f64_mul f (f64_add k1 flt_one))
        (f64_add f (f64_mul k1 (f64_add (f64_sub flt_one b) (f64_div (f64_mul b dl) (ixAvgDL ix))))))"

definition score_term :: "bm_env \<Rightarrow> Index \<Rightarrow> flt \<Rightarrow> token \<Rightarrow> (string \<rightharpoonup> flt) \<Rightarrow> string \<rightharpoonup> flt" where
  "score_term ev ix N term scores =
     (case ixInverted ix term of
        None \<Rightarrow> scores
      | Some postings \<Rightarrow>
          let idf = bm_idf ev N (card (dom postings)) in
          (\<lambda>i. case postings i of
                 None \<Rightarrow> scores i
               | Some freq \<Rightarrow> Some (f64_add (case scores i of None \<Rightarrow> f64_zero | Some s \<Rightarrow> s) (f64_mul idf (bm_tf ix i freq)))))"

definition bm_scores :: "bm_env \<Rightarrow> Index \<Rightarrow> token list \<Rightarrow> string \<rightharpoonup> flt" where
  "bm_scores ev ix queryTokens = fold (score_term ev ix (f64_of_int (int (card (dom (ixDocs ix)))))) queryTokens Map.empty"

definition result_less :: "bm_result \<Rightarrow> bm_result \<Rightarrow> bool" where
  "result_less x y \<longleftrightarrow> flt_lt (rsScore x) (rsScore y)"

text \<open>The selection of the best \<open>topK\<close>: the first fill the slice, which then becomes a heap with the least score at the root.\<close>

definition select_result :: "nat \<Rightarrow> bm_result \<Rightarrow> bm_result list \<Rightarrow> bm_result list" where
  "select_result topK r results =
     (if length results < topK then
        (if length results + 1 = topK then heap_init result_less (results @ [r]) else results @ [r])
      else if flt_lt (rsScore (results ! 0)) (rsScore r) then heap_fix_root result_less (results[0 := r])
      else results)"

definition sort_results :: "bm_result list \<Rightarrow> bm_result list" where
  "sort_results rs = sortSlice (\<lambda>x y. flt_lt (rsScore y) (rsScore x)) rs"

definition fill_metadata :: "Index \<Rightarrow> bm_result list \<Rightarrow> bm_result list option" where
  "fill_metadata ix rs =
     (if list_all (\<lambda>r. ixDocs ix (rsID r) \<noteq> None) rs
      then Some (map (\<lambda>r. r\<lparr>rsMetadata := dcMetadata (the (ixDocs ix (rsID r)))\<rparr>) rs) else None)"

text \<open>\<open>order\<close> is the order in which the map of scores is visited.\<close>

definition Index_Search :: "bm_env \<Rightarrow> string list \<Rightarrow> Index \<Rightarrow> rune list \<Rightarrow> int \<Rightarrow> bm_result list option" where
  "Index_Search ev order ix query topK0 =
     (let queryTokens = tokenize ev query; topK = (if topK0 \<le> 0 then 10 else nat topK0) in
      if queryTokens = [] \<or> ixDocs ix = Map.empty then Some []
      else
        let scores = bm_scores ev ix queryTokens;
            all = map (\<lambda>i. \<lparr>rsID = i, rsScore = the (scores i), rsMetadata = []\<rparr>) order
        in if length all \<le> topK then map_option sort_results (fill_metadata ix all)
           else fill_metadata ix (sort_results (fold (select_result topK) all [])))"

end
