(* ===== verification/Bm25_Facts.thy ===== *)
theory Bm25_Facts
  imports Bm25
begin

text \<open>
  The index is a function of its documents: postings, lengths, total and average after any sequence of operations are those one would
  compute from the documents alone (\<open>index_inv\<close>). The selection of the best \<open>topK\<close> with a bounded heap keeps, of every multiset of
  results without NaN, a greatest part (\<open>select_results_best\<close>).
\<close>

section \<open>What the documents determine\<close>

definition postings_of :: "(string \<rightharpoonup> Document) \<Rightarrow> token \<Rightarrow> string \<rightharpoonup> nat" where
  "postings_of docs w = (\<lambda>i. case docs i of None \<Rightarrow> None
     | Some d \<Rightarrow> if w \<in> set (dcTokens d) then Some (count_list (dcTokens d) w) else None)"

definition inverted_of :: "(string \<rightharpoonup> Document) \<Rightarrow> token \<rightharpoonup> (string \<rightharpoonup> nat)" where
  "inverted_of docs = (\<lambda>w. if postings_of docs w = Map.empty then None else Some (postings_of docs w))"

definition lengths_of :: "(string \<rightharpoonup> Document) \<Rightarrow> string \<rightharpoonup> nat" where
  "lengths_of docs = (\<lambda>i. map_option (length \<circ> dcTokens) (docs i))"

definition total_of :: "(string \<rightharpoonup> Document) \<Rightarrow> int" where
  "total_of docs = (\<Sum>i\<in>dom docs. int (length (dcTokens (the (docs i)))))"

definition average_of :: "(string \<rightharpoonup> Document) \<Rightarrow> flt" where
  "average_of docs = (if docs = Map.empty then f64_zero else f64_div (f64_of_int (total_of docs)) (f64_of_int (int (card (dom docs)))))"

definition docs_ok :: "bm_env \<Rightarrow> (string \<rightharpoonup> Document) \<Rightarrow> bool" where
  "docs_ok ev docs \<longleftrightarrow> finite (dom docs) \<and> (\<forall>i d. docs i = Some d \<longrightarrow> dcID d = i \<and> dcTokens d = tokenize ev (dcText d))"

definition index_inv :: "bm_env \<Rightarrow> Index \<Rightarrow> bool" where
  "index_inv ev ix \<longleftrightarrow> docs_ok ev (ixDocs ix) \<and> ixInverted ix = inverted_of (ixDocs ix) \<and> ixDocLen ix = lengths_of (ixDocs ix) \<and>
     ixTotal ix = total_of (ixDocs ix) \<and> ixAvgDL ix = average_of (ixDocs ix)"

lemma postings_of_upd:
  "postings_of (docs(i \<mapsto> d)) w =
     (if w \<in> set (dcTokens d) then (postings_of docs w)(i \<mapsto> count_list (dcTokens d) w)
      else (postings_of docs w)(i := None))"
  by (auto simp: postings_of_def fun_eq_iff)

lemma postings_of_del: "postings_of (docs(i := None)) w = (postings_of docs w)(i := None)"
  by (auto simp: postings_of_def fun_eq_iff)

lemma lengths_of_upd: "lengths_of (docs(i \<mapsto> d)) = (lengths_of docs)(i \<mapsto> length (dcTokens d))"
  by (auto simp: lengths_of_def fun_eq_iff)

lemma lengths_of_del: "lengths_of (docs(i := None)) = (lengths_of docs)(i := None)"
  by (auto simp: lengths_of_def fun_eq_iff)

lemma dom_lengths_of: "dom (lengths_of docs) = dom docs"
  by (auto simp: lengths_of_def)

lemma lengths_of_empty_iff: "lengths_of docs = Map.empty \<longleftrightarrow> docs = Map.empty"
  by (simp add: lengths_of_def fun_eq_iff)

lemma total_of_del:
  assumes "finite (dom docs)"
  shows "total_of (docs(i := None)) = total_of docs - (case docs i of None \<Rightarrow> 0 | Some d \<Rightarrow> int (length (dcTokens d)))"
proof -
  have "total_of (docs(i := None)) = (\<Sum>j\<in>dom docs - {i}. int (length (dcTokens (the (docs j)))))"
    unfolding total_of_def by (rule sum.cong) (auto split: if_splits)
  then show ?thesis using assms by (cases "docs i") (simp_all add: total_of_def sum_diff1 domI domIff)
qed

lemma total_of_upd:
  assumes "finite (dom docs)"
  shows "total_of (docs(i \<mapsto> d)) =
    total_of docs + (int (length (dcTokens d)) - (case docs i of None \<Rightarrow> 0 | Some old \<Rightarrow> int (length (dcTokens old))))"
proof -
  have "total_of (docs(i \<mapsto> d)) = int (length (dcTokens d)) + (\<Sum>j\<in>dom docs - {i}. int (length (dcTokens (the ((docs(i \<mapsto> d)) j)))))"
    using assms unfolding total_of_def by (simp add: sum.insert_remove)
  also have "(\<Sum>j\<in>dom docs - {i}. int (length (dcTokens (the ((docs(i \<mapsto> d)) j))))) = total_of (docs(i := None))"
    unfolding total_of_def by (rule sum.cong) (auto split: if_splits)
  finally show ?thesis unfolding total_of_del [OF assms] by linarith
qed

section \<open>The loops over the postings\<close>

lemma fold_remove_posting:
  "distinct ts \<Longrightarrow> fold (remove_posting i) ts tbl w = (if w \<in> set ts then remove_posting i w tbl w else tbl w)"
proof (induction ts arbitrary: tbl)
  case (Cons t ts)
  have other: "u \<noteq> t \<Longrightarrow> remove_posting i t tbl u = tbl u" for u
    by (cases "tbl t") (simp_all add: remove_posting_def Let_def)
  have only: "remove_posting i u (remove_posting i t tbl) u = remove_posting i u tbl u" if "u \<noteq> t" for u
    using other [OF that] by (cases "tbl u") (simp_all add: remove_posting_def Let_def)
  have "w = t \<or> w \<noteq> t" by blast
  then show ?case
    using Cons.IH [of "remove_posting i t tbl"] Cons.prems other [of w] only [of w] by (elim disjE) simp_all
qed simp

lemma fold_add_posting:
  "distinct ts \<Longrightarrow> fold (add_posting i tokens) ts tbl w =
     (if w \<in> set ts then Some ((case tbl w of None \<Rightarrow> Map.empty | Some p \<Rightarrow> p)(i \<mapsto> count_list tokens w)) else tbl w)"
proof (induction ts arbitrary: tbl)
  case (Cons t ts)
  show ?case using Cons.IH [of "add_posting i tokens t tbl"] Cons.prems by (auto simp: add_posting_def)
qed simp

lemma removeTokens_inverted:
  assumes "ixInverted ix = inverted_of docs" "docs i = Some d"
  shows "ixInverted (removeTokens i (dcTokens d) ix) = inverted_of (docs(i := None))"
proof
  fix w
  have "postings_of docs w i = None" if "w \<notin> set (dcTokens d)"
    using that assms(2) by (simp add: postings_of_def)
  then have same: "(postings_of docs w)(i := None) = postings_of docs w" if "w \<notin> set (dcTokens d)"
    using that by (simp add: fun_upd_idem)
  show "ixInverted (removeTokens i (dcTokens d) ix) w = inverted_of (docs(i := None)) w"
    using assms same
    by (simp add: removeTokens_def fold_remove_posting inverted_of_def postings_of_del remove_posting_def Let_def)
qed

lemma add_tokens_inverted:
  assumes "docs i = None"
  shows "fold (add_posting i (dcTokens d)) (remdups (dcTokens d)) (inverted_of docs) = inverted_of (docs(i \<mapsto> d))"
proof
  fix w
  have none: "postings_of docs w i = None" using assms by (simp add: postings_of_def)
  have "(case inverted_of docs w of None \<Rightarrow> Map.empty | Some p \<Rightarrow> p) = postings_of docs w"
    by (simp add: inverted_of_def)
  moreover have "(postings_of docs w)(i := None) = postings_of docs w" using none by (simp add: fun_upd_idem)
  ultimately show "fold (add_posting i (dcTokens d)) (remdups (dcTokens d)) (inverted_of docs) w = inverted_of (docs(i \<mapsto> d)) w"
    by (simp add: fold_add_posting) (simp add: inverted_of_def postings_of_upd)
qed

lemma removeTokens_fields [simp]:
  "ixDocs (removeTokens i ts ix) = ixDocs ix" "ixDocLen (removeTokens i ts ix) = ixDocLen ix"
  "ixTotal (removeTokens i ts ix) = ixTotal ix"
  by (simp_all add: removeTokens_def)

lemma notify_fields [simp]:
  "ixDocs (notify c ix) = ixDocs ix" "ixDocLen (notify c ix) = ixDocLen ix" "ixTotal (notify c ix) = ixTotal ix"
  "ixInverted (notify c ix) = ixInverted ix" "ixAvgDL (notify c ix) = ixAvgDL ix"
  by (simp_all add: notify_def)

lemma recalcAvgDL_fields [simp]:
  "ixDocs (recalcAvgDL ix) = ixDocs ix" "ixDocLen (recalcAvgDL ix) = ixDocLen ix" "ixTotal (recalcAvgDL ix) = ixTotal ix"
  "ixInverted (recalcAvgDL ix) = ixInverted ix"
  by (simp_all add: recalcAvgDL_def)

lemma recalc_inv:
  assumes "docs_ok ev (ixDocs ix)" "ixInverted ix = inverted_of (ixDocs ix)" "ixDocLen ix = lengths_of (ixDocs ix)"
    "ixTotal ix = total_of (ixDocs ix)"
  shows "index_inv ev (notify c (recalcAvgDL ix))"
  using assms unfolding index_inv_def
  by (simp add: recalcAvgDL_def average_of_def lengths_of_empty_iff dom_lengths_of)

section \<open>The operations keep the invariant\<close>

lemma NewIndex_inv: "index_inv ev (NewIndexWithParams mx k1 b)"
  by (simp add: index_inv_def NewIndexWithParams_def docs_ok_def inverted_of_def postings_of_def lengths_of_def total_of_def average_of_def)

lemma doc_len_lengths_of:
  "ixDocLen ix = lengths_of docs \<Longrightarrow> doc_len ix i = (case docs i of None \<Rightarrow> 0 | Some d \<Rightarrow> int (length (dcTokens d)))"
  by (cases "docs i") (simp_all add: doc_len_def lengths_of_def)

lemma Index_Add_inv:
  assumes I: "index_inv ev ix"
  shows "index_inv ev (Index_Add ev i t md ix)"
proof (cases "0 < ixMaxDocs ix \<and> ixMaxDocs ix \<le> int (card (dom (ixDocs ix))) \<and> ixDocs ix i = None")
  case True
  then show ?thesis using I by (simp add: Index_Add_def index_inv_def)
next
  case False
  define d where "d = \<lparr>dcID = i, dcText = t, dcMetadata = md, dcTokens = tokenize ev t\<rparr>"
  define ix1 where "ix1 = (case ixDocs ix i of None \<Rightarrow> ix | Some old \<Rightarrow> removeTokens i (dcTokens old) ix)"
  define ix3 where "ix3 = ix1\<lparr>ixDocs := (ixDocs ix1)(i \<mapsto> d), ixTotal := ixTotal ix1 + (int (length (dcTokens d)) - doc_len ix1 i),
      ixDocLen := (ixDocLen ix1)(i \<mapsto> length (dcTokens d)),
      ixInverted := fold (add_posting i (dcTokens d)) (remdups (dcTokens d)) (ixInverted ix1)\<rparr>"
  have eq: "Index_Add ev i t md ix = notify \<lparr>cgOp = ''put'', cgID = i, cgText = t, cgMetadata = md\<rparr> (recalcAvgDL ix3)"
    unfolding Index_Add_def if_not_P [OF False] by (simp add: ix3_def ix1_def d_def Let_def)
  have same: "ixDocs ix1 = ixDocs ix" "ixTotal ix1 = total_of (ixDocs ix)" "ixDocLen ix1 = lengths_of (ixDocs ix)"
    using I by (simp_all add: ix1_def index_inv_def split: option.splits)
  have inverted: "ixInverted ix1 = inverted_of ((ixDocs ix)(i := None))"
  proof (cases "ixDocs ix i")
    case None
    then have "(ixDocs ix)(i := None) = ixDocs ix" by (simp add: fun_upd_idem)
    then show ?thesis using None I by (simp add: ix1_def index_inv_def)
  next
    case (Some old)
    then show ?thesis using I removeTokens_inverted [of ix "ixDocs ix" i old] by (simp add: ix1_def index_inv_def)
  qed
  have fin: "finite (dom (ixDocs ix))" using I by (simp add: index_inv_def docs_ok_def)
  show ?thesis
    unfolding eq
  proof (rule recalc_inv)
    show "docs_ok ev (ixDocs ix3)" using I same by (auto simp: ix3_def d_def index_inv_def docs_ok_def)
    show "ixInverted ix3 = inverted_of (ixDocs ix3)"
      using add_tokens_inverted [of "(ixDocs ix)(i := None)" i d] inverted same by (simp add: ix3_def)
    show "ixDocLen ix3 = lengths_of (ixDocs ix3)" using same by (simp add: ix3_def lengths_of_upd)
    show "ixTotal ix3 = total_of (ixDocs ix3)"
      using total_of_upd [OF fin, of i d] same doc_len_lengths_of [OF same(3), of i] by (simp add: ix3_def)
  qed
qed

lemma Index_Remove_inv:
  assumes I: "index_inv ev ix"
  shows "index_inv ev (Index_Remove i ix)"
proof (cases "ixDocs ix i")
  case None
  then show ?thesis using I by (simp add: Index_Remove_def)
next
  case (Some d)
  define ix1 where "ix1 = removeTokens i (dcTokens d) ix"
  have fin: "finite (dom (ixDocs ix))" and len: "ixDocLen ix1 = lengths_of (ixDocs ix)" and docs: "ixDocs ix1 = ixDocs ix"
    using I by (simp_all add: index_inv_def docs_ok_def ix1_def)
  have "index_inv ev (notify \<lparr>cgOp = ''delete'', cgID = i, cgText = [], cgMetadata = []\<rparr>
      (recalcAvgDL (ix1\<lparr>ixDocs := (ixDocs ix1)(i := None), ixTotal := ixTotal ix1 - doc_len ix1 i, ixDocLen := (ixDocLen ix1)(i := None)\<rparr>)))"
  proof (rule recalc_inv, goal_cases)
    case 1
    show ?case using I docs by (auto simp: index_inv_def docs_ok_def split: if_splits)
  next
    case 2
    show ?case using removeTokens_inverted [of ix "ixDocs ix" i d] I Some by (simp add: ix1_def index_inv_def)
  next
    case 3
    show ?case using len docs by (simp add: lengths_of_del)
  next
    case 4
    have "doc_len ix1 i = int (length (dcTokens d))" using doc_len_lengths_of [OF len, of i] Some by simp
    then show ?case using total_of_del [OF fin, of i] Some docs I by (simp add: index_inv_def ix1_def)
  qed
  then show ?thesis using Some by (simp add: Index_Remove_def ix1_def Let_def)
qed

lemma Index_Clear_inv: "index_inv ev (Index_Clear ix)"
  by (simp add: index_inv_def Index_Clear_def docs_ok_def inverted_of_def postings_of_def lengths_of_def total_of_def average_of_def)

end
