(* ===== verification/Bm25_Search.thy ===== *)
theory Bm25_Search
  imports Bm25_Facts
begin

text \<open>
  The order of \<open>float64\<close> without NaN, the selection of the best \<open>topK\<close> with a bounded heap, and what \<open>Index.Search\<close> returns.
\<close>

section \<open>The order of float64\<close>

fun flt_class :: "flt \<Rightarrow> int" where
  "flt_class (FInf s) = (if s then - 1 else 1)"
| "flt_class _ = 0"

fun flt_val :: "flt \<Rightarrow> real" where
  "flt_val (FFin s m e) = real_of_int (signed s m) * 2 powr real_of_int e"
| "flt_val _ = 0"

lemma flt_scale: "e1 \<ge> e \<Longrightarrow> real_of_int (k * 2 ^ nat (e1 - e)) * 2 powr real_of_int e = real_of_int k * 2 powr real_of_int e1"
proof -
  assume e: "e1 \<ge> e"
  have "(2::real) ^ nat (e1 - e) = 2 powr real_of_int (e1 - e)" using powr_realpow [of 2 "nat (e1 - e)"] e by simp
  moreover have "(2::real) powr real_of_int (e1 - e) * 2 powr real_of_int e = 2 powr real_of_int e1"
    by (simp flip: powr_add)
  ultimately show ?thesis by (simp add: mult.assoc)
qed

lemma flt_lt_iff:
  "flt_lt x y \<longleftrightarrow> x \<noteq> FNaN \<and> y \<noteq> FNaN \<and> (flt_class x < flt_class y \<or> flt_class x = flt_class y \<and> flt_val x < flt_val y)"
proof (cases x; cases y)
  fix s1 m1 e1 s2 m2 e2
  assume xy: "x = FFin s1 m1 e1" "y = FFin s2 m2 e2"
  define e where "e = min e1 e2"
  define a b where "a = signed s1 m1 * 2 ^ nat (e1 - e)" and "b = signed s2 m2 * 2 ^ nat (e2 - e)"
  have "flt_val x = real_of_int a * 2 powr real_of_int e" "flt_val y = real_of_int b * 2 powr real_of_int e"
    unfolding a_def b_def xy flt_val.simps by (rule flt_scale [symmetric], simp add: e_def)+
  then have "flt_val x < flt_val y \<longleftrightarrow> a < b" by simp
  then show ?thesis by (simp add: xy a_def b_def e_def)
qed (auto simp: signed_def)

definition flt_le :: "flt \<Rightarrow> flt \<Rightarrow> bool" where
  "flt_le x y \<longleftrightarrow> x \<noteq> FNaN \<and> y \<noteq> FNaN \<and> \<not> flt_lt y x"

lemma flt_le_iff:
  "flt_le x y \<longleftrightarrow> x \<noteq> FNaN \<and> y \<noteq> FNaN \<and> (flt_class x < flt_class y \<or> flt_class x = flt_class y \<and> flt_val x \<le> flt_val y)"
  by (auto simp: flt_le_def flt_lt_iff)

lemma flt_le_trans: "flt_le x y \<Longrightarrow> flt_le y z \<Longrightarrow> flt_le x z"
  by (auto simp: flt_le_iff)

lemma swo_on_flt:
  assumes "\<And>x. x \<in> S \<Longrightarrow> key x \<noteq> FNaN"
  shows "swo_on S (\<lambda>x y. flt_lt (key y) (key x))"
  using assms unfolding swo_on_def by (auto simp: flt_lt_iff)

definition result_le :: "bm_result \<Rightarrow> bm_result \<Rightarrow> bool" where
  "result_le x y \<longleftrightarrow> flt_le (rsScore x) (rsScore y)"

definition result_ok :: "bm_result \<Rightarrow> bool" where
  "result_ok r \<longleftrightarrow> rsScore r \<noteq> FNaN"

interpretation resultHeap: heap_order result_le result_less "\<lambda>x y. result_le y x" result_ok
  by unfold_locales (auto simp: result_le_def result_less_def result_ok_def flt_le_iff flt_lt_iff)

section \<open>Selecting with a bounded heap\<close>

definition best_of :: "nat \<Rightarrow> bm_result list \<Rightarrow> bm_result list \<Rightarrow> bool" where
  "best_of k all rs \<longleftrightarrow> length rs = min k (length all) \<and>
     (\<exists>rest. mset all = mset rs + mset rest \<and> (\<forall>r\<in>set rest. \<forall>s\<in>set rs. result_le r s))"

definition selecting :: "nat \<Rightarrow> bm_result list \<Rightarrow> bm_result list \<Rightarrow> bool" where
  "selecting k all rs \<longleftrightarrow> best_of k all rs \<and> (length rs = k \<longrightarrow> is_heap result_le result_ok rs) \<and> (length all < k \<longrightarrow> rs = all)"

lemma select_result_selecting:
  assumes S: "selecting k all rs" and k: "1 \<le> k" and r: "result_ok r" and ok: "\<forall>x\<in>set all. result_ok x"
  shows "selecting k (all @ [r]) (select_result k r rs)"
proof (cases "length rs < k")
  case True
  then have rs: "rs = all" and len: "length all < k"
    using S unfolding selecting_def best_of_def by auto
  show ?thesis
  proof (cases "length rs + 1 = k")
    case full: True
    have H: "is_heap result_le result_ok (heap_init result_less (rs @ [r]))" "mset (heap_init result_less (rs @ [r])) = mset (rs @ [r])"
      using resultHeap.heap_init_is_heap [of "rs @ [r]"] ok r rs by auto
    then have "length (heap_init result_less (rs @ [r])) = k" using full by (metis length_append_singleton size_mset Suc_eq_plus1)
    then have "best_of k (all @ [r]) (heap_init result_less (rs @ [r]))"
      unfolding best_of_def using H(2) full rs by (auto intro!: exI [of _ "[]"])
    then show ?thesis using True full H rs by (simp add: selecting_def select_result_def)
  next
    case False
    then show ?thesis using True rs by (auto simp: selecting_def select_result_def best_of_def intro!: exI [of _ "[]"])
  qed
next
  case False
  then have len: "length rs = k" "k \<le> length all" and heap: "is_heap result_le result_ok rs"
    using S unfolding selecting_def best_of_def by auto
  obtain rest where rest: "mset all = mset rs + mset rest" "\<And>x s. x \<in> set rest \<Longrightarrow> s \<in> set rs \<Longrightarrow> result_le x s"
    using S unfolding selecting_def best_of_def by blast
  obtain h t where rs: "rs = h # t" using len k by (cases rs) auto
  have least: "s \<in> set rs \<Longrightarrow> result_le h s" for s
    using resultHeap.heap_least [OF heap] rs by (metis in_set_conv_nth nth_Cons_0)
  have hok: "result_ok h" using heap rs by (simp add: is_heap_def)
  show ?thesis
  proof (cases "flt_lt (rsScore h) (rsScore r)")
    case True
    let ?rs = "heap_fix_root result_less (rs[0 := r])"
    have H: "is_heap result_le result_ok ?rs" "mset ?rs = mset (r # t)"
      using resultHeap.heap_fix_root_is_heap [OF heap r] rs by simp_all
    have hr: "result_le h r" using True by (auto simp: result_le_def flt_le_iff flt_lt_iff)
    have set: "set ?rs = insert r (set t)" using H(2) by (metis list.simps(15) set_mset_mset)
    have L: "length ?rs = k" using H(2) len rs by (metis length_Cons size_mset)
    have "mset (all @ [r]) = mset ?rs + mset (h # rest)" using H(2) rest(1) rs by simp
    moreover have "result_le x s" if x: "x \<in> set (h # rest)" and s: "s \<in> set ?rs" for x s
    proof -
      have "result_le h s" using s set hr least rs by auto
      then show ?thesis using x rest(2) [of x h] rs resultHeap.le_trans by auto
    qed
    ultimately have "best_of k (all @ [r]) ?rs" unfolding best_of_def using L len by (intro conjI exI [of _ "h # rest"]) simp_all
    moreover have "select_result k r rs = ?rs" using False True rs by (simp add: select_result_def)
    ultimately show ?thesis using H(1) len by (simp add: selecting_def)
  next
    case no: False
    have "result_le r h" using no r hok by (simp add: result_le_def flt_le_def result_ok_def)
    then have "result_le x s" if "x \<in> set (r # rest)" "s \<in> set rs" for x s
      using that rest(2) least resultHeap.le_trans by auto
    then have "best_of k (all @ [r]) rs"
      unfolding best_of_def using rest(1) len by (intro conjI exI [of _ "r # rest"]) simp_all
    moreover have "select_result k r rs = rs" using False no rs by (simp add: select_result_def)
    ultimately show ?thesis using heap len by (simp add: selecting_def)
  qed
qed

lemma select_results_best:
  assumes k: "1 \<le> k"
  shows "\<forall>x\<in>set all. result_ok x \<Longrightarrow> selecting k all (fold (select_result k) all [])"
proof (induction all rule: rev_induct)
  case Nil
  then show ?case using k by (simp add: selecting_def best_of_def is_heap_def)
next
  case (snoc r all)
  then show ?case using select_result_selecting [OF _ k] by simp
qed

lemma sort_results_best:
  assumes "best_of k all rs" "\<forall>x\<in>set all. result_ok x"
  shows "best_of k all (sort_results rs) \<and> sorted_wrt (\<lambda>x y. \<not> flt_lt (rsScore x) (rsScore y)) (sort_results rs)"
proof
  note m = goSort.sorter_mset [of "\<lambda>x y. flt_lt (rsScore y) (rsScore x)" rs, folded sort_results_def]
  have "set (sort_results rs) = set rs" "length (sort_results rs) = length rs" using m by (metis set_mset_mset, metis size_mset)
  then show "best_of k all (sort_results rs)" using assms(1) m by (simp add: best_of_def)
  have "set rs \<subseteq> set all" using assms(1) unfolding best_of_def
    by (metis mset_subset_eqD mset_subset_eq_add_left set_mset_mset subsetI)
  then have "swo_on (set rs) (\<lambda>x y. flt_lt (rsScore y) (rsScore x))"
    using assms(2) by (intro swo_on_flt) (auto simp: result_ok_def)
  then show "sorted_wrt (\<lambda>x y. \<not> flt_lt (rsScore x) (rsScore y)) (sort_results rs)"
    unfolding sort_results_def by (rule goSort.sorter_sorted)
qed

section \<open>What a search returns\<close>

lemma bm_scores_dom:
  assumes "index_inv ev ix"
  shows "dom (bm_scores ev ix ts) \<subseteq> dom (ixDocs ix)"
proof -
  have "dom (fold (score_term ev ix N) ts sc) \<subseteq> dom (ixDocs ix)" if "dom sc \<subseteq> dom (ixDocs ix)" for sc N
    using that
  proof (induction ts arbitrary: sc)
    case (Cons t ts)
    have "dom (score_term ev ix N t sc) \<subseteq> dom (ixDocs ix)"
    proof (cases "ixInverted ix t")
      case (Some p)
      then have "p = postings_of (ixDocs ix) t" using assms by (simp add: index_inv_def inverted_of_def split: if_splits)
      then have "dom p \<subseteq> dom (ixDocs ix)" by (auto simp: postings_of_def split: option.splits)
      moreover have "dom (score_term ev ix N t sc) = dom p \<union> dom sc"
        using Some by (auto simp: score_term_def Let_def split: option.splits)
      ultimately show ?thesis using Cons.prems by simp
    qed (use Cons.prems in \<open>simp add: score_term_def\<close>)
    then show ?case using Cons.IH by simp
  qed simp
  then show ?thesis unfolding bm_scores_def by simp
qed

definition scored :: "string list \<Rightarrow> (string \<rightharpoonup> flt) \<Rightarrow> bm_result list" where
  "scored order scores = map (\<lambda>i. \<lparr>rsID = i, rsScore = the (scores i), rsMetadata = []\<rparr>) order"

definition with_metadata :: "Index \<Rightarrow> bm_result \<Rightarrow> bm_result" where
  "with_metadata ix r = r\<lparr>rsMetadata := dcMetadata (the (ixDocs ix (rsID r)))\<rparr>"

lemma with_metadata_fields [simp]: "rsID (with_metadata ix r) = rsID r" "rsScore (with_metadata ix r) = rsScore r"
  "rsMetadata (with_metadata ix r) = dcMetadata (the (ixDocs ix (rsID r)))"
  by (simp_all add: with_metadata_def)

lemma fill_metadata_Some:
  "\<forall>r\<in>set rs. rsID r \<in> dom (ixDocs ix) \<Longrightarrow> fill_metadata ix rs = Some (map (with_metadata ix) rs)"
  by (auto simp: fill_metadata_def list_all_iff with_metadata_def)

lemma insertSlice_map:
  "(\<And>x y. lt (f x) (f y) = lt x y) \<Longrightarrow> insertSlice lt (f x) (map f ys) = map f (insertSlice lt x ys)"
  by (induction ys) simp_all

lemma sort_results_map: "sort_results (map (with_metadata ix) rs) = map (with_metadata ix) (sort_results rs)"
proof -
  have "foldl (\<lambda>acc x. insertSlice (\<lambda>x y. flt_lt (rsScore y) (rsScore x)) x acc) (map (with_metadata ix) acc) (map (with_metadata ix) rs) =
    map (with_metadata ix) (foldl (\<lambda>acc x. insertSlice (\<lambda>x y. flt_lt (rsScore y) (rsScore x)) x acc) acc rs)" for acc
    by (induction rs arbitrary: acc) (simp_all add: insertSlice_map)
  from this [of "[]"] show ?thesis by (simp add: sort_results_def sortSlice_def)
qed

lemma Index_Search_best:
  fixes q :: "rune list" and ev ix
  defines "sc \<equiv> bm_scores ev ix (tokenize ev q)"
  assumes I: "index_inv ev ix" and order: "set order = dom sc" and fin: "\<And>i. sc i \<noteq> Some FNaN"
  shows "\<exists>rs. Index_Search ev order ix q k = Some (map (with_metadata ix) rs) \<and>
    best_of (if k \<le> 0 then 10 else nat k) (scored order sc) rs \<and> sorted_wrt (\<lambda>x y. \<not> flt_lt (rsScore x) (rsScore y)) rs"
proof (cases "tokenize ev q = [] \<or> ixDocs ix = Map.empty")
  case True
  then have "sc = Map.empty" using bm_scores_dom [OF I, of "tokenize ev q"] by (auto simp: sc_def bm_scores_def)
  then have "order = []" using order by simp
  then show ?thesis using True by (intro exI [of _ "[]"]) (simp add: Index_Search_def best_of_def scored_def)
next
  case False
  let ?k = "if k \<le> 0 then 10 else nat k" and ?all = "scored order sc"
  have dom: "\<forall>r\<in>set ?all. rsID r \<in> dom (ixDocs ix)" using order bm_scores_dom [OF I, of "tokenize ev q", folded sc_def] by (simp add: scored_def subset_iff)
  have ok: "\<forall>r\<in>set ?all. result_ok r" using order fin by (force simp: scored_def result_ok_def)
  have eq: "Index_Search ev order ix q k = (if length ?all \<le> ?k then map_option sort_results (fill_metadata ix ?all)
      else fill_metadata ix (sort_results (fold (select_result ?k) ?all [])))"
    using False by (simp add: Index_Search_def scored_def sc_def Let_def)
  show ?thesis
  proof (cases "length ?all \<le> ?k")
    case True
    then have "best_of ?k ?all ?all" by (auto simp: best_of_def intro!: exI [of _ "[]"])
    note B = sort_results_best [OF this ok]
    have "Index_Search ev order ix q k = Some (map (with_metadata ix) (sort_results ?all))"
      using True eq fill_metadata_Some [OF dom] by (simp add: sort_results_map)
    then show ?thesis using B by blast
  next
    case more: False
    let ?rs = "fold (select_result ?k) ?all []"
    have "best_of ?k ?all ?rs" using select_results_best [OF _ ok, of ?k] by (auto simp: selecting_def)
    note B = sort_results_best [OF this ok]
    have "set (sort_results ?rs) \<subseteq> set ?all" using B unfolding best_of_def
      by (metis mset_subset_eqD mset_subset_eq_add_left set_mset_mset subsetI)
    then have "\<forall>r\<in>set (sort_results ?rs). rsID r \<in> dom (ixDocs ix)" using dom by blast
    from fill_metadata_Some [OF this] show ?thesis using more eq B by auto
  qed
qed

text \<open>The same, said of the result itself.\<close>

lemma best_of_members:
  assumes "best_of k (scored order sc) rs" "set order = dom sc" "distinct order"
  shows "distinct (map rsID rs) \<and> (\<forall>r\<in>set rs. sc (rsID r) = Some (rsScore r)) \<and>
    (\<forall>i s. sc i = Some s \<longrightarrow> i \<notin> rsID ` set rs \<longrightarrow> (\<forall>r\<in>set rs. \<not> flt_lt (rsScore r) s))"
proof -
  obtain rest where rest: "mset (scored order sc) = mset (rs @ rest)" "\<And>x r. x \<in> set rest \<Longrightarrow> r \<in> set rs \<Longrightarrow> result_le x r"
    using assms(1) unfolding best_of_def by auto
  have ids: "map rsID (scored order sc) = order" by (simp add: scored_def comp_def)
  have "mset order = mset (map rsID (rs @ rest))" using rest(1) ids by (metis mset_map)
  then have d: "distinct (map rsID (rs @ rest))" using assms(3) by (metis mset_eq_imp_distinct_iff)
  have set: "set (rs @ rest) = set (scored order sc)" using rest(1) by (metis set_mset_mset)
  then have val: "sc (rsID r) = Some (rsScore r)" if "r \<in> set (rs @ rest)" for r
    using that assms(2) by (force simp: scored_def)
  have "\<not> flt_lt (rsScore r) s" if i: "sc i = Some s" "i \<notin> rsID ` set rs" and r: "r \<in> set rs" for i s r
  proof -
    have "i \<in> set order" using i(1) assms(2) by blast
    then obtain x where x: "x \<in> set (scored order sc)" "rsID x = i" "rsScore x = s" using i(1) by (force simp: scored_def)
    then have "x \<in> set rest" using set i(2) by auto
    then show ?thesis using rest(2) [OF _ r] x by (auto simp: result_le_def flt_le_def)
  qed
  then show ?thesis using d val by auto
qed

end
