(* ===== verification/Bm25_Hybrid.thy ===== *)
theory Bm25_Hybrid
  imports Bm25_Search
begin

text \<open>
  \<open>pkg/bm25/hybrid.go\<close>: reciprocal rank fusion of vector results and keyword results. The order in which the map of fused entries is
  visited is the argument \<open>order\<close>; the last criterion of the comparison is the id, so the result does not depend on it
  (\<open>HybridSearch_order\<close>).
\<close>

record VectorResult =
  vcID :: string
  vcScore :: float32
  vcMetadata :: string

record HybridResult =
  hyID :: string
  hyVectorScore :: float32
  hyBM25Score :: flt
  hyFusedScore :: flt
  hyVectorRank :: nat
  hyBM25Rank :: nat
  hyMetadata :: string

definition fused_new :: "string \<Rightarrow> string \<Rightarrow> HybridResult" where
  "fused_new i md = \<lparr>hyID = i, hyVectorScore = 0, hyBM25Score = f64_zero, hyFusedScore = f64_zero, hyVectorRank = 0, hyBM25Rank = 0,
     hyMetadata = md\<rparr>"

definition rrf_share :: "flt \<Rightarrow> nat \<Rightarrow> flt" where
  "rrf_share weight rank = f64_div weight (f64_add (f64_of_int 60) (f64_of_int (int rank + 1)))"

definition fuse_vector :: "flt \<Rightarrow> nat \<times> VectorResult \<Rightarrow> (string \<rightharpoonup> HybridResult) \<Rightarrow> string \<rightharpoonup> HybridResult" where
  "fuse_vector weight rv fused =
     (let (rank, vr) = rv;
          e = (case fused (vcID vr) of None \<Rightarrow> fused_new (vcID vr) (vcMetadata vr) | Some e \<Rightarrow> e)
      in fused(vcID vr \<mapsto> e\<lparr>hyVectorScore := vcScore vr, hyFusedScore := f64_add (hyFusedScore e) (rrf_share weight rank),
                            hyVectorRank := rank + 1\<rparr>))"

definition fuse_bm25 :: "flt \<Rightarrow> nat \<times> bm_result \<Rightarrow> (string \<rightharpoonup> HybridResult) \<Rightarrow> string \<rightharpoonup> HybridResult" where
  "fuse_bm25 weight rb fused =
     (let (rank, br) = rb;
          e = (case fused (rsID br) of None \<Rightarrow> fused_new (rsID br) (rsMetadata br) | Some e \<Rightarrow> e)
      in fused(rsID br \<mapsto> e\<lparr>hyBM25Score := rsScore br, hyFusedScore := f64_add (hyFusedScore e) (rrf_share weight rank),
                            hyBM25Rank := rank + 1\<rparr>))"

definition fuse :: "flt \<Rightarrow> flt \<Rightarrow> VectorResult list \<Rightarrow> bm_result list \<Rightarrow> string \<rightharpoonup> HybridResult" where
  "fuse vectorWeight bm25Weight vectorResults bm25Results =
     fold (fuse_bm25 bm25Weight) (List.enumerate 0 bm25Results)
       (fold (fuse_vector vectorWeight) (List.enumerate 0 vectorResults) Map.empty)"

text \<open>Go compares strings by their bytes. Two floats differ when they are not equal numbers, so a NaN differs from everything.\<close>

fun string_lt :: "string \<Rightarrow> string \<Rightarrow> bool" where
  "string_lt [] b = (b \<noteq> [])"
| "string_lt (x # a) [] = False"
| "string_lt (x # a) (y # b) = (of_char x < (of_char y :: nat) \<or> (x = y \<and> string_lt a b))"

definition flt_ne :: "flt \<Rightarrow> flt \<Rightarrow> bool" where
  "flt_ne x y \<longleftrightarrow> x = FNaN \<or> y = FNaN \<or> flt_lt x y \<or> flt_lt y x"

definition hybrid_before :: "HybridResult \<Rightarrow> HybridResult \<Rightarrow> bool" where
  "hybrid_before a b \<longleftrightarrow>
     (if flt_ne (hyFusedScore a) (hyFusedScore b) then flt_lt (hyFusedScore b) (hyFusedScore a)
      else if flt_ne (hyBM25Score a) (hyBM25Score b) then flt_lt (hyBM25Score b) (hyBM25Score a)
      else if hyBM25Rank a \<noteq> hyBM25Rank b then
        (if hyBM25Rank a = 0 then False else if hyBM25Rank b = 0 then True else hyBM25Rank a < hyBM25Rank b)
      else if hyVectorRank a \<noteq> hyVectorRank b then
        (if hyVectorRank a = 0 then False else if hyVectorRank b = 0 then True else hyVectorRank a < hyVectorRank b)
      else string_lt (hyID a) (hyID b))"

definition HybridSearch :: "string list \<Rightarrow> VectorResult list \<Rightarrow> bm_result list \<Rightarrow> int \<Rightarrow> flt \<Rightarrow> flt \<Rightarrow> HybridResult list" where
  "HybridSearch order vectorResults bm25Results topK0 vectorWeight0 bm25Weight0 =
     (let topK = (if topK0 \<le> 0 then 10 else nat topK0);
          vectorWeight = (if flt_lt f64_zero vectorWeight0 \<or> vectorWeight0 = FNaN then vectorWeight0 else flt_one);
          bm25Weight = (if flt_lt f64_zero bm25Weight0 \<or> bm25Weight0 = FNaN then bm25Weight0 else flt_one);
          fused = fuse vectorWeight bm25Weight vectorResults bm25Results
      in take topK (sortSlice hybrid_before (map (\<lambda>i. the (fused i)) order)))"

section \<open>What is fused\<close>

lemma fold_fuse_vector_dom:
  "dom (fold (fuse_vector w) (List.enumerate n vs) f) = dom f \<union> vcID ` set vs"
  by (induction vs arbitrary: n f) (auto simp: fuse_vector_def Let_def)

lemma fold_fuse_bm25_dom:
  "dom (fold (fuse_bm25 w) (List.enumerate n rs) f) = dom f \<union> rsID ` set rs"
  by (induction rs arbitrary: n f) (auto simp: fuse_bm25_def Let_def)

lemma fuse_dom: "dom (fuse vw bw vs rs) = vcID ` set vs \<union> rsID ` set rs"
  by (simp add: fuse_def fold_fuse_vector_dom fold_fuse_bm25_dom)

definition ids_ok :: "(string \<rightharpoonup> HybridResult) \<Rightarrow> bool" where
  "ids_ok f \<longleftrightarrow> (\<forall>i e. f i = Some e \<longrightarrow> hyID e = i)"

lemma fuse_ids: "ids_ok (fuse vw bw vs rs)"
proof -
  have v: "ids_ok f \<Longrightarrow> ids_ok (fuse_vector w x f)" for f w x
    by (auto simp: ids_ok_def fuse_vector_def fused_new_def Let_def split: prod.split option.splits)
  have b: "ids_ok f \<Longrightarrow> ids_ok (fuse_bm25 w x f)" for f w x
    by (auto simp: ids_ok_def fuse_bm25_def fused_new_def Let_def split: prod.split option.splits)
  have "ids_ok f \<Longrightarrow> ids_ok (fold (fuse_vector w) xs f)" for f w xs by (induction xs arbitrary: f) (simp_all add: v)
  moreover have "ids_ok f \<Longrightarrow> ids_ok (fold (fuse_bm25 w) xs f)" for f w xs by (induction xs arbitrary: f) (simp_all add: b)
  moreover have "ids_ok Map.empty" by (simp add: ids_ok_def)
  ultimately show ?thesis unfolding fuse_def by blast
qed

section \<open>The comparison is a strict total order\<close>

lemma string_lt_irrefl: "\<not> string_lt a a"
  by (induction a) auto

lemma string_lt_trans: "string_lt a b \<Longrightarrow> string_lt b c \<Longrightarrow> string_lt a c"
proof (induction a b arbitrary: c rule: string_lt.induct)
  case (3 x a y b)
  then show ?case by (cases c) (auto dest: less_trans)
qed (auto elim: string_lt.elims)

lemma string_lt_total: "a \<noteq> b \<Longrightarrow> string_lt a b \<or> string_lt b a"
proof (induction a b rule: string_lt.induct)
  case (3 x a y b)
  have "x = y \<or> of_char x < (of_char y :: nat) \<or> of_char y < (of_char x :: nat)"
    using of_char_eq_iff [of x y, where 'a = nat] by linarith
  then show ?case using 3 by auto
qed (auto simp: neq_Nil_conv)

text \<open>The criteria as one key, compared lexicographically: rank 0 (absent) comes last.\<close>

definition rank_lt :: "nat \<Rightarrow> nat \<Rightarrow> bool" where
  "rank_lt m n \<longleftrightarrow> m \<noteq> n \<and> (if m = 0 then False else if n = 0 then True else m < n)"

definition hybrid_ok :: "HybridResult \<Rightarrow> bool" where
  "hybrid_ok a \<longleftrightarrow> hyFusedScore a \<noteq> FNaN \<and> hyBM25Score a \<noteq> FNaN"

definition flt_key :: "flt \<Rightarrow> int \<times> real" where
  "flt_key x = (flt_class x, flt_val x)"

definition key_lt :: "int \<times> real \<Rightarrow> int \<times> real \<Rightarrow> bool" where
  "key_lt p q \<longleftrightarrow> fst p < fst q \<or> fst p = fst q \<and> snd p < snd q"

lemma flt_lt_key: "x \<noteq> FNaN \<Longrightarrow> y \<noteq> FNaN \<Longrightarrow> flt_lt x y \<longleftrightarrow> key_lt (flt_key x) (flt_key y)"
  by (simp add: flt_lt_iff key_lt_def flt_key_def)

lemma flt_ne_key: "x \<noteq> FNaN \<Longrightarrow> y \<noteq> FNaN \<Longrightarrow> flt_ne x y \<longleftrightarrow> flt_key x \<noteq> flt_key y"
  by (auto simp: flt_ne_def flt_lt_iff flt_key_def)

text \<open>One criterion after the other.\<close>

definition lex_by :: "('a \<Rightarrow> 'k) \<Rightarrow> ('k \<Rightarrow> 'k \<Rightarrow> bool) \<Rightarrow> ('a \<Rightarrow> 'a \<Rightarrow> bool) \<Rightarrow> 'a \<Rightarrow> 'a \<Rightarrow> bool" where
  "lex_by key lt rest a b \<longleftrightarrow> lt (key a) (key b) \<or> key a = key b \<and> rest a b"

definition strict :: "('k \<Rightarrow> 'k \<Rightarrow> bool) \<Rightarrow> bool" where
  "strict lt \<longleftrightarrow> (\<forall>x. \<not> lt x x) \<and> (\<forall>x y z. lt x y \<longrightarrow> lt y z \<longrightarrow> lt x z) \<and> (\<forall>x y. x \<noteq> y \<longrightarrow> lt x y \<or> lt y x)"

definition strict_up_to :: "('a \<Rightarrow> 'i) \<Rightarrow> ('a \<Rightarrow> 'a \<Rightarrow> bool) \<Rightarrow> bool" where
  "strict_up_to i lt \<longleftrightarrow> (\<forall>x. \<not> lt x x) \<and> (\<forall>x y z. lt x y \<longrightarrow> lt y z \<longrightarrow> lt x z) \<and> (\<forall>x y. i x \<noteq> i y \<longrightarrow> lt x y \<or> lt y x)"

lemma lex_by_strict: "strict lt \<Longrightarrow> strict_up_to i rest \<Longrightarrow> strict_up_to i (lex_by key lt rest)"
  unfolding strict_up_to_def
proof (intro conjI allI impI)
  assume lt: "strict lt" and rest: "(\<forall>x. \<not> rest x x) \<and> (\<forall>x y z. rest x y \<longrightarrow> rest y z \<longrightarrow> rest x z) \<and>
    (\<forall>x y. i x \<noteq> i y \<longrightarrow> rest x y \<or> rest y x)"
  have irr: "\<not> lt k k" and tr: "lt k l \<Longrightarrow> lt l m \<Longrightarrow> lt k m" and tot: "k \<noteq> l \<Longrightarrow> lt k l \<or> lt l k" for k l m
    using lt unfolding strict_def by blast+
  show "\<not> lex_by key lt rest x x" for x using irr rest by (simp add: lex_by_def)
  show "lex_by key lt rest x z" if xyz: "lex_by key lt rest x y" "lex_by key lt rest y z" for x y z
  proof -
    consider "lt (key x) (key y)" "lt (key y) (key z)" | "lt (key x) (key y)" "key y = key z" | "key x = key y" "lt (key y) (key z)" |
      "key x = key y" "key y = key z" "rest x y" "rest y z"
      using xyz unfolding lex_by_def by blast
    then show ?thesis
    proof cases
      case 1
      then show ?thesis using tr [of "key x" "key y" "key z"] by (simp add: lex_by_def)
    next
      case 4
      have "rest x z" using rest 4(3,4) by blast
      then show ?thesis using 4 by (simp add: lex_by_def)
    qed (simp_all add: lex_by_def)
  qed
  show "lex_by key lt rest x y \<or> lex_by key lt rest y x" if "i x \<noteq> i y" for x y
  proof -
    have "rest x y \<or> rest y x" using rest that by blast
    then show ?thesis using tot [of "key x" "key y"] unfolding lex_by_def
      by (cases "key x = key y") auto
  qed
qed

lemma strict_swap: "strict lt \<Longrightarrow> strict (\<lambda>x y. lt y x)"
  unfolding strict_def by metis

lemma if_lex_by:
  "strict lt \<Longrightarrow> (ne \<longleftrightarrow> key a \<noteq> key b) \<Longrightarrow> (key a \<noteq> key b \<Longrightarrow> d \<longleftrightarrow> lt (key a) (key b)) \<Longrightarrow> r \<longleftrightarrow> rest a b \<Longrightarrow>
     (if ne then d else r) \<longleftrightarrow> lex_by key lt rest a b"
  by (cases "key a = key b") (auto simp: strict_def lex_by_def)

lemma key_lt_strict: "strict key_lt"
  unfolding strict_def key_lt_def by (auto simp: prod_eq_iff)

lemmas key_gt_strict = strict_swap [OF key_lt_strict]

lemma rank_lt_strict: "strict rank_lt"
  unfolding strict_def rank_lt_def by (auto split: if_splits)

lemma string_lt_strict: "strict_up_to hyID (\<lambda>a b. string_lt (hyID a) (hyID b))"
  unfolding strict_up_to_def using string_lt_irrefl string_lt_trans string_lt_total by metis

definition hybrid_order :: "HybridResult \<Rightarrow> HybridResult \<Rightarrow> bool" where
  "hybrid_order =
     lex_by (\<lambda>a. flt_key (hyFusedScore a)) (\<lambda>x y. key_lt y x)
       (lex_by (\<lambda>a. flt_key (hyBM25Score a)) (\<lambda>x y. key_lt y x)
         (lex_by hyBM25Rank rank_lt (lex_by hyVectorRank rank_lt (\<lambda>a b. string_lt (hyID a) (hyID b)))))"

lemma hybrid_order_strict: "strict_up_to hyID hybrid_order"
  unfolding hybrid_order_def
  by (intro lex_by_strict key_gt_strict rank_lt_strict string_lt_strict)

lemma hybrid_before_order:
  assumes "hybrid_ok a" "hybrid_ok b"
  shows "hybrid_before a b \<longleftrightarrow> hybrid_order a b"
  unfolding hybrid_before_def hybrid_order_def
  by (intro if_lex_by key_gt_strict rank_lt_strict)
    (use assms in \<open>simp_all add: hybrid_ok_def flt_ne_key flt_lt_key rank_lt_def\<close>)

section \<open>The result does not depend on the order of the map\<close>

lemma sortSlice_unique:
  assumes swo: "swo_on (set xs) lt" and total: "\<And>x y. x \<in> set xs \<Longrightarrow> y \<in> set xs \<Longrightarrow> x \<noteq> y \<Longrightarrow> lt x y \<or> lt y x"
    and same: "mset xs = mset ys"
  shows "sortSlice lt xs = sortSlice lt ys"
proof -
  have set: "set ys = set xs" using same by (metis set_mset_mset)
  have "sorted_wrt (\<lambda>x y. \<not> lt y x) (sortSlice lt xs)" "sorted_wrt (\<lambda>x y. \<not> lt y x) (sortSlice lt ys)"
    using goSort.sorter_sorted [of xs lt] goSort.sorter_sorted [of ys lt] swo set by simp_all
  moreover have "mset (sortSlice lt xs) = mset (sortSlice lt ys)" using same by (simp add: goSort.sorter_mset)
  moreover have "as = bs" if "sorted_wrt (\<lambda>x y. \<not> lt y x) as" "sorted_wrt (\<lambda>x y. \<not> lt y x) bs" "mset as = mset bs" "set as \<subseteq> set xs" for as bs
    using that
  proof (induction as arbitrary: bs)
    case (Cons a as)
    then obtain b bs' where bs: "bs = b # bs'" by (cases bs) auto
    have sets: "insert a (set as) = insert b (set bs')" using Cons.prems(3) bs by (metis list.simps(15) set_mset_mset)
    have "a = b"
    proof (rule ccontr)
      assume ne: "a \<noteq> b"
      then have "a \<in> set bs'" "b \<in> set as" using sets by auto
      then have "\<not> lt a b" "\<not> lt b a" using Cons.prems(1,2) bs by auto
      moreover have "a \<in> set xs" "b \<in> set xs" using Cons.prems(4) \<open>b \<in> set as\<close> by auto
      ultimately show False using total ne by blast
    qed
    then show ?case using Cons bs by simp
  qed simp
  ultimately show ?thesis by (simp add: goSort.sorter_set)
qed

text \<open>The scores that are fused are not NaN.\<close>

definition fused_ok :: "(string \<rightharpoonup> HybridResult) \<Rightarrow> bool" where
  "fused_ok f \<longleftrightarrow> (\<forall>i e. f i = Some e \<longrightarrow> hybrid_ok e)"

lemma sort_fused_order:
  assumes f: "ids_ok f" "fused_ok f" and o1: "distinct o1" "set o1 = dom f" and o2: "distinct o2" "set o2 = dom f"
  shows "sortSlice hybrid_before (map (\<lambda>i. the (f i)) o1) = sortSlice hybrid_before (map (\<lambda>i. the (f i)) o2)"
proof (rule sortSlice_unique)
  have mem: "hybrid_ok x \<and> hyID x \<in> dom f \<and> f (hyID x) = Some x" if "x \<in> set (map (\<lambda>i. the (f i)) o1)" for x
    using that f o1(2) by (auto simp: ids_ok_def fused_ok_def)
  have inj: "x = y" if "x \<in> set (map (\<lambda>i. the (f i)) o1)" "y \<in> set (map (\<lambda>i. the (f i)) o1)" "hyID x = hyID y" for x y
    using mem [OF that(1), THEN conjunct2, THEN conjunct2] mem [OF that(2), THEN conjunct2, THEN conjunct2] that(3)
    by (metis option.inject)
  have irrefl: "\<not> hybrid_order x x" and trans: "hybrid_order x y \<Longrightarrow> hybrid_order y z \<Longrightarrow> hybrid_order x z"
    and total: "hyID x \<noteq> hyID y \<Longrightarrow> hybrid_order x y \<or> hybrid_order y x" for x y z
    using hybrid_order_strict unfolding strict_up_to_def by blast+
  show "swo_on (set (map (\<lambda>i. the (f i)) o1)) hybrid_before"
    unfolding swo_on_def
  proof (intro conjI ballI impI)
    fix x y z
    assume m: "x \<in> set (map (\<lambda>i. the (f i)) o1)" "y \<in> set (map (\<lambda>i. the (f i)) o1)" "z \<in> set (map (\<lambda>i. the (f i)) o1)"
    note ok = mem [OF m(1), THEN conjunct1] mem [OF m(2), THEN conjunct1] mem [OF m(3), THEN conjunct1]
    show "hybrid_before x z" if "hybrid_before x y" "hybrid_before y z"
      using that trans [of x y z]
      unfolding hybrid_before_order [OF ok(1,2)] hybrid_before_order [OF ok(2,3)] hybrid_before_order [OF ok(1,3)] by simp
    show "\<not> hybrid_before x z" if no: "\<not> hybrid_before x y" "\<not> hybrid_before y z"
    proof
      assume xz: "hybrid_before x z"
      show False
      proof (cases "hyID x = hyID y \<or> hyID y = hyID z")
        case True
        then have "x = y \<or> y = z" using inj [OF m(1,2)] inj [OF m(2,3)] by blast
        then show False using no xz by blast
      next
        case False
        then have wrong: "hybrid_order z y" "hybrid_order y x"
          using total [of x y] total [of y z] no
          unfolding hybrid_before_order [OF ok(1,2)] hybrid_before_order [OF ok(2,3)] by simp_all
        have "hybrid_order x z" using xz hybrid_before_order [OF ok(1,3)] by simp
        from trans [OF this trans [OF wrong]] irrefl show False by blast
      qed
    qed
  next
    fix x
    assume "x \<in> set (map (\<lambda>i. the (f i)) o1)"
    then show "\<not> hybrid_before x x" using mem irrefl by (simp add: hybrid_before_order)
  qed
  show "hybrid_before x y \<or> hybrid_before y x"
    if "x \<in> set (map (\<lambda>i. the (f i)) o1)" "y \<in> set (map (\<lambda>i. the (f i)) o1)" "x \<noteq> y" for x y
  proof -
    note m = mem [OF that(1), THEN conjunct1] mem [OF that(2), THEN conjunct1]
    have "hyID x \<noteq> hyID y" using inj [OF that(1,2)] that(3) by blast
    then show ?thesis using total m by (simp add: hybrid_before_order)
  qed
  have "mset o1 = mset o2" using set_eq_iff_mset_eq_distinct [OF o1(1) o2(1)] o1(2) o2(2) by simp
  then show "mset (map (\<lambda>i. the (f i)) o1) = mset (map (\<lambda>i. the (f i)) o2)" by simp
qed

section \<open>The fused scores are numbers\<close>

definition flt_nonneg :: "flt \<Rightarrow> bool" where
  "flt_nonneg x \<longleftrightarrow> (case x of FNaN \<Rightarrow> False | FInf s \<Rightarrow> \<not> s | FFin s m e \<Rightarrow> \<not> s \<and> 0 \<le> m)"

lemma rne_nonneg: "0 \<le> m \<Longrightarrow> 0 \<le> rne m k"
proof -
  assume "0 \<le> m"
  then have "0 \<le> m div 2 ^ k" by (simp add: pos_imp_zdiv_nonneg_iff)
  then show ?thesis using \<open>0 \<le> m\<close> by (simp add: rne_def Let_def)
qed

lemma round_flt_nonneg: "0 \<le> m \<Longrightarrow> flt_nonneg (round_flt (Fmt p a b) False m e)"
  by (auto simp: flt_nonneg_def Let_def rne_nonneg)

lemma f64_add_nonneg: "flt_nonneg x \<Longrightarrow> flt_nonneg y \<Longrightarrow> flt_nonneg (f64_add x y)"
proof (cases x; cases y)
  fix s1 m1 e1 s2 m2 e2
  assume x: "x = FFin s1 m1 e1" and y: "y = FFin s2 m2 e2" and nn: "flt_nonneg x" "flt_nonneg y"
  define t where "t = m1 * 2 ^ nat (e1 - min e1 e2) + m2 * 2 ^ nat (e2 - min e1 e2)"
  have s: "\<not> s1" "\<not> s2" "0 \<le> m1" "0 \<le> m2" using nn x y by (simp_all add: flt_nonneg_def)
  then have t: "0 \<le> t" by (simp add: t_def)
  have "f64_add x y = (if t = 0 then FFin False 0 0 else round_flt binary64 False t (min e1 e2))"
    using s t by (simp add: x y signed_def flip: t_def)
  moreover have "flt_nonneg (FFin False 0 0)" by (simp add: flt_nonneg_def)
  ultimately show ?thesis using t by (simp add: binary64_def round_flt_nonneg del: round_flt.simps)
qed (simp_all add: flt_nonneg_def)

definition weight_ok :: "flt \<Rightarrow> bool" where
  "weight_ok w \<longleftrightarrow> (\<exists>m e. w = FFin False m e \<and> 0 < m)"

lemma f64_div_weight:
  assumes "weight_ok w" "flt_nonneg y"
  shows "flt_nonneg (f64_div w y)"
proof -
  obtain m e where w: "w = FFin False m e" "0 < m" using assms(1) by (auto simp: weight_ok_def)
  show ?thesis
  proof (cases y)
    case (FFin s m2 e2)
    then have "\<not> s" "0 \<le> m2" using assms(2) by (simp_all add: flt_nonneg_def)
    moreover have "0 \<le> m * 2 ^ nat k div m2" if "0 \<le> m2" for k
      using w(2) that by (cases "m2 = 0") (simp_all add: pos_imp_zdiv_nonneg_iff)
    ultimately show ?thesis
      unfolding w(1) FFin binary64_def flt_div.simps Let_def
      by (cases "m2 = 0") (use w(2) in \<open>simp_all add: flt_nonneg_def [of "FInf False"] round_flt_nonneg del: round_flt.simps\<close>)
  qed (use assms(2) w in \<open>simp_all add: flt_nonneg_def binary64_def\<close>)
qed

lemma f64_of_int_nonneg: "0 \<le> n \<Longrightarrow> flt_nonneg (f64_of_int n)"
  by (simp add: f64_of_int_def binary64_def round_flt_nonneg del: round_flt.simps)

lemma rrf_share_nonneg: "weight_ok w \<Longrightarrow> flt_nonneg (rrf_share w rank)"
  unfolding rrf_share_def by (intro f64_div_weight f64_add_nonneg f64_of_int_nonneg) simp_all

definition entry_ok :: "HybridResult \<Rightarrow> bool" where
  "entry_ok e \<longleftrightarrow> flt_nonneg (hyFusedScore e) \<and> hyBM25Score e \<noteq> FNaN"

lemma fused_new_ok: "entry_ok (fused_new i md)"
  by (simp add: entry_ok_def fused_new_def flt_nonneg_def f64_zero_def)

lemma fuse_fused_ok:
  assumes w: "weight_ok vw" "weight_ok bw" and rs: "\<forall>r\<in>set rs. rsScore r \<noteq> FNaN"
  shows "fused_ok (fuse vw bw vs rs)"
proof -
  let ?ok = "\<lambda>f. \<forall>i e. f i = Some e \<longrightarrow> entry_ok e"
  have v: "?ok (fuse_vector vw x f)" if "?ok f" for f x
    using that fused_new_ok f64_add_nonneg rrf_share_nonneg [OF w(1)]
    by (auto simp: fuse_vector_def Let_def entry_ok_def fused_new_def flt_nonneg_def [of f64_zero] f64_zero_def split: prod.split option.splits)
  have b: "?ok (fuse_bm25 bw x f)" if "?ok f" "rsScore (snd x) \<noteq> FNaN" for f x
    using that fused_new_ok f64_add_nonneg rrf_share_nonneg [OF w(2)]
    by (auto simp: fuse_bm25_def Let_def entry_ok_def fused_new_def flt_nonneg_def [of f64_zero] f64_zero_def split: prod.split option.splits)
  have V: "?ok f \<Longrightarrow> ?ok (fold (fuse_vector vw) xs f)" for f xs
    by (induction xs arbitrary: f) (simp, metis fold_simps(2) v)
  have B: "?ok f \<Longrightarrow> \<forall>x\<in>set xs. rsScore (snd x) \<noteq> FNaN \<Longrightarrow> ?ok (fold (fuse_bm25 bw) xs f)" for f xs
    by (induction xs arbitrary: f) (simp, metis fold_simps(2) b list.set_intros)
  have E: "\<forall>x\<in>set (List.enumerate 0 rs). rsScore (snd x) \<noteq> FNaN"
    using rs by (auto simp: in_set_enumerate_eq)
  have "?ok Map.empty" by simp
  from B [OF V [OF this] E] have "?ok (fuse vw bw vs rs)" unfolding fuse_def .
  moreover have "hybrid_ok e" if "entry_ok e" for e
    using that by (auto simp: entry_ok_def hybrid_ok_def flt_nonneg_def)
  ultimately show ?thesis unfolding fused_ok_def by blast
qed

text \<open>A finite number: what a caller passes as a weight.\<close>

definition finite_flt :: "flt \<Rightarrow> bool" where
  "finite_flt w \<longleftrightarrow> (case w of FFin s m e \<Rightarrow> 0 \<le> m | _ \<Rightarrow> False)"

lemma default_weight:
  assumes "finite_flt w"
  shows "weight_ok (if flt_lt f64_zero w \<or> w = FNaN then w else flt_one)"
  using assms by (cases w) (auto simp: finite_flt_def weight_ok_def f64_zero_def flt_one_def signed_def zero_less_mult_iff)

text \<open>Whatever order the map is visited in, the result is the same, it holds each id once, and at most \<open>topK\<close> of them.\<close>

lemma HybridSearch_order:
  assumes "distinct o1" "set o1 = vcID ` set vs \<union> rsID ` set rs" "distinct o2" "set o2 = set o1"
    and "finite_flt vw" "finite_flt bw" "\<forall>r\<in>set rs. rsScore r \<noteq> FNaN"
  shows "HybridSearch o1 vs rs k vw bw = HybridSearch o2 vs rs k vw bw"
proof -
  let ?f = "fuse (if flt_lt f64_zero vw \<or> vw = FNaN then vw else flt_one) (if flt_lt f64_zero bw \<or> bw = FNaN then bw else flt_one) vs rs"
  have "fused_ok ?f" by (rule fuse_fused_ok) (use assms default_weight in blast)+
  then have "sortSlice hybrid_before (map (\<lambda>i. the (?f i)) o1) = sortSlice hybrid_before (map (\<lambda>i. the (?f i)) o2)"
    by (rule sort_fused_order [OF fuse_ids]) (use assms(1-4) in \<open>simp_all only: fuse_dom\<close>)
  then show ?thesis by (simp only: HybridSearch_def Let_def)
qed

lemma HybridSearch_ids:
  assumes "distinct order" "set order = vcID ` set vs \<union> rsID ` set rs"
  shows "distinct (map hyID (HybridSearch order vs rs k vw bw)) \<and> hyID ` set (HybridSearch order vs rs k vw bw) \<subseteq> set order \<and>
    length (HybridSearch order vs rs k vw bw) = min (if k \<le> 0 then 10 else nat k) (length order)"
proof -
  let ?f = "fuse (if flt_lt f64_zero vw \<or> vw = FNaN then vw else flt_one) (if flt_lt f64_zero bw \<or> bw = FNaN then bw else flt_one) vs rs"
  let ?xs = "map (\<lambda>i. the (?f i)) order"
  have "hyID (the (?f i)) = i" if "i \<in> set order" for i
    using fuse_ids [of _ _ vs rs] that assms(2) fuse_dom [of _ _ vs rs] unfolding ids_ok_def by (metis domD option.sel)
  then have ids: "map hyID ?xs = order" by (simp add: map_idI)
  have d: "distinct (map hyID (sortSlice hybrid_before ?xs))" using assms(1) ids goSort.sorter_distinct_map by metis
  have s: "hyID ` set (sortSlice hybrid_before ?xs) = set order" using ids by (metis goSort.sorter_set list.set_map)
  define k' where "k' = (if k \<le> 0 then 10 else nat k)"
  define ys where "ys = sortSlice hybrid_before ?xs"
  have "HybridSearch order vs rs k vw bw = take k' ys" by (simp add: HybridSearch_def k'_def ys_def Let_def)
  moreover have "distinct (map hyID (take k' ys))" using d by (simp add: ys_def take_map [symmetric])
  moreover have "hyID ` set (take k' ys) \<subseteq> set order" using s set_take_subset [of k' ys] unfolding ys_def [symmetric] by blast
  moreover have "length (take k' ys) = min k' (length order)"
    using goSort.sorter_length [of hybrid_before ?xs] by (simp add: ys_def min.commute)
  ultimately show ?thesis unfolding k'_def by simp
qed

end
