(* ===== verification/Bm25_Store.thy ===== *)
theory Bm25_Store
  imports Bm25_Facts
begin

text \<open>
  \<open>pkg/bm25/disk_store.go\<close>, \<open>validate.go\<close> and \<open>persist.go\<close>: one file per collection that is rewritten by snapshots and extended by one
  line for every change of an attached index, and its loading (tolerant and strict); the older index that appends its additions to a file.

  Arguments: \<open>marshal\<close> and \<open>unmarshal\<close> are \<open>json.Marshal\<close> and \<open>json.Unmarshal\<close> on \<open>diskDoc\<close>. A directory maps collection names to the
  contents of their files (the file name is the base64 form of the name). \<open>mx\<close> is \<open>bm25SnapshotMaxDocs\<close>.
\<close>

section \<open>Lines\<close>

definition newline :: char where "newline = CHR 0x0A"
definition scanner_max :: nat where "scanner_max = 10485760"

fun scanner_split :: "bytes \<Rightarrow> bytes \<Rightarrow> bytes list" where
  "scanner_split w [] = (if w = [] then [] else [w])"
| "scanner_split w (c # t) = (if c = newline then w # scanner_split [] t else scanner_split (w @ [c]) t)"

definition dropCR :: "bytes \<Rightarrow> bytes" where
  "dropCR l = (if l \<noteq> [] \<and> last l = CHR 0x0D then butlast l else l)"

text \<open>\<open>bufio.Scanner\<close>: the lines up to the first that does not fit the buffer, and whether there was such a line.\<close>

definition scan_lines :: "bytes \<Rightarrow> bytes list \<times> bool" where
  "scan_lines file =
     (let ls = scanner_split [] file in (map dropCR (takeWhile (\<lambda>l. length l < scanner_max) ls), \<not> list_all (\<lambda>l. length l < scanner_max) ls))"

section \<open>Entries\<close>

record diskDoc =
  dkOp :: string
  dkID :: string
  dkText :: "rune list"
  dkMetadata :: string

definition disk_of_change :: "Change \<Rightarrow> diskDoc" where
  "disk_of_change c = \<lparr>dkOp = cgOp c, dkID = cgID c, dkText = cgText c, dkMetadata = cgMetadata c\<rparr>"

definition disk_of_doc :: "string \<times> rune list \<times> string \<Rightarrow> diskDoc" where
  "disk_of_doc d = \<lparr>dkOp = ''put'', dkID = fst d, dkText = fst (snd d), dkMetadata = snd (snd d)\<rparr>"

definition apply_entry :: "bm_env \<Rightarrow> diskDoc \<Rightarrow> Index \<Rightarrow> Index" where
  "apply_entry ev d ix =
     (if dkOp d = [] \<or> dkOp d = ''put'' then Index_Add ev (dkID d) (dkText d) (dkMetadata d) ix
      else if dkOp d = ''delete'' then Index_Remove (dkID d) ix
      else if dkOp d = ''clear'' then Index_Clear ix
      else ix)"

definition load_line :: "bm_env \<Rightarrow> (bytes \<Rightarrow> diskDoc option) \<Rightarrow> bytes \<Rightarrow> Index \<Rightarrow> Index" where
  "load_line ev unmarshal line ix = (case unmarshal line of None \<Rightarrow> ix | Some d \<Rightarrow> apply_entry ev d ix)"

definition LoadSnapshot :: "bm_env \<Rightarrow> (bytes \<Rightarrow> diskDoc option) \<Rightarrow> int \<Rightarrow> bytes option \<Rightarrow> Index \<times> bool" where
  "LoadSnapshot ev unmarshal mx file =
     (case file of None \<Rightarrow> (NewIndex mx, False)
      | Some bs \<Rightarrow> (fold (load_line ev unmarshal) (fst (scan_lines bs)) (NewIndex mx), snd (scan_lines bs)))"

text \<open>\<open>short\<close>: how many bytes a write that fails (or a crash) leaves in the file.\<close>

definition AppendChange :: "(diskDoc \<Rightarrow> bytes) \<Rightarrow> nat option \<Rightarrow> Change \<Rightarrow> bytes option \<Rightarrow> bytes option" where
  "AppendChange marshal short c file =
     (let old = (case file of None \<Rightarrow> [] | Some bs \<Rightarrow> bs); line = marshal (disk_of_change c) @ [newline] in
      Some (old @ (case short of None \<Rightarrow> line | Some k \<Rightarrow> take k line)))"

definition writeSnapshotDocuments :: "(diskDoc \<Rightarrow> bytes) \<Rightarrow> (string \<times> rune list \<times> string) list \<Rightarrow> bytes" where
  "writeSnapshotDocuments marshal docs = concat (map (\<lambda>d. marshal (disk_of_doc d) @ [newline]) docs)"

text \<open>The calls of \<open>saveSnapshot\<close> in order; \<open>fault\<close> is the first that fails (\<open>SWrite k\<close>: the write of the documents, after \<open>k\<close> bytes).\<close>

datatype snap_call = SMkdir | SOpen | SWrite nat | SFlush nat | SSync | SClose | SRename | SOpenDir | SSyncDir

record snap_files =
  sfMain :: "bytes option"
  sfTmp :: "bytes option"

definition saveSnapshot :: "(diskDoc \<Rightarrow> bytes) \<Rightarrow> snap_call option \<Rightarrow> string list \<Rightarrow> Index \<Rightarrow> snap_files \<Rightarrow> snap_files \<times> bool" where
  "saveSnapshot marshal fault order ix fs =
     (let bs = writeSnapshotDocuments marshal (Index_Documents order ix);
          written = fs\<lparr>sfTmp := Some bs\<rparr>; published = \<lparr>sfMain = Some bs, sfTmp = None\<rparr>
      in case fault of
           Some SMkdir \<Rightarrow> (fs, False)
         | Some SOpen \<Rightarrow> (fs, False)
         | Some (SWrite k) \<Rightarrow> (fs\<lparr>sfTmp := Some (take k bs)\<rparr>, False)
         | Some (SFlush k) \<Rightarrow> (fs\<lparr>sfTmp := Some (take k bs)\<rparr>, False)
         | Some SSync \<Rightarrow> (written, False)
         | Some SClose \<Rightarrow> (written, False)
         | Some SRename \<Rightarrow> (written, False)
         | Some SOpenDir \<Rightarrow> (published, False)
         | Some SSyncDir \<Rightarrow> (published, False)
         | None \<Rightarrow> (published, True))"

definition countSnapshotDocs :: "bytes \<Rightarrow> nat" where
  "countSnapshotDocs bs = count_list bs newline + (if bs \<noteq> [] \<and> last bs \<noteq> newline then 1 else 0)"

text \<open>One collection of \<open>LoadAll\<close> and of \<open>SaveAll\<close>.\<close>

definition Attach :: "Index \<Rightarrow> Index" where
  "Attach ix = SetOnChange True ix"

definition load_index :: "bm_env \<Rightarrow> (bytes \<Rightarrow> diskDoc option) \<Rightarrow> int \<Rightarrow> bytes \<Rightarrow> Index option" where
  "load_index ev unmarshal mx bs =
     (if mx \<le> int (countSnapshotDocs bs) then None
      else case LoadSnapshot ev unmarshal mx (Some bs) of (ix, err) \<Rightarrow> if err then None else Some (Attach ix))"

definition LoadAll :: "bm_env \<Rightarrow> (bytes \<Rightarrow> diskDoc option) \<Rightarrow> int \<Rightarrow> (string \<rightharpoonup> bytes) \<Rightarrow> string \<rightharpoonup> Index" where
  "LoadAll ev unmarshal mx dir = (\<lambda>c. Option.bind (dir c) (load_index ev unmarshal mx))"

definition save_index ::
  "(diskDoc \<Rightarrow> bytes) \<Rightarrow> int \<Rightarrow> snap_call option \<Rightarrow> string list \<Rightarrow> Index \<Rightarrow> snap_files \<Rightarrow> snap_files \<times> bool" where
  "save_index marshal mx fault order ix fs =
     (if mx \<le> int (Index_Len ix) then (fs, True) else saveSnapshot marshal fault order ix fs)"

text \<open>The strict load; \<open>None\<close> is any of its errors. \<open>cancelled n\<close>: the context has ended after \<open>n\<close> lines.\<close>

fun strict_lines :: "bm_env \<Rightarrow> (bytes \<Rightarrow> diskDoc option) \<Rightarrow> (nat \<Rightarrow> bool) \<Rightarrow> int \<Rightarrow> nat \<Rightarrow> bytes list \<Rightarrow> Index \<Rightarrow> Index option" where
  "strict_lines ev unmarshal cancelled maxDocuments n [] ix = Some ix"
| "strict_lines ev unmarshal cancelled maxDocuments n (l # ls) ix =
     (if cancelled n then None
      else case unmarshal l of
          None \<Rightarrow> None
        | Some d \<Rightarrow>
            if dkOp d \<notin> {[], ''put'', ''delete'', ''clear''} then None
            else if dkOp d \<noteq> ''clear'' \<and> dkID d = [] then None
            else if maxDocuments < int (n + 1) then None
            else strict_lines ev unmarshal cancelled maxDocuments (n + 1) ls (apply_entry ev d ix))"

definition LoadSnapshotStrict ::
  "bm_env \<Rightarrow> (bytes \<Rightarrow> diskDoc option) \<Rightarrow> (nat \<Rightarrow> bool) \<Rightarrow> int \<Rightarrow> int \<Rightarrow> int \<Rightarrow> bytes \<Rightarrow> Index option" where
  "LoadSnapshotStrict ev unmarshal cancelled mx maxBytes maxDocuments bs =
     (if maxBytes < 0 \<or> maxDocuments < 1 \<or> maxBytes < int (length bs) then None
      else case scan_lines bs of (ls, err) \<Rightarrow>
        if err then None
        else Option.bind (strict_lines ev unmarshal cancelled maxDocuments 0 ls (NewIndex mx))
               (\<lambda>ix. if cancelled (length ls) then None else Some ix))"

text \<open>Removing the files of a collection; each removal can fail, and a file that is not there is no failure.\<close>

definition Snapshot_Remove :: "bool \<Rightarrow> bool \<Rightarrow> string \<Rightarrow> snap_files \<Rightarrow> bool \<times> snap_files" where
  "Snapshot_Remove ok1 ok2 collection fs =
     (if collection = [] then (True, fs)
      else if sfMain fs \<noteq> None \<and> \<not> ok1 then (False, fs)
      else let fs1 = fs\<lparr>sfMain := None\<rparr> in
        if sfTmp fs1 \<noteq> None \<and> \<not> ok2 then (False, fs1) else (True, fs1\<lparr>sfTmp := None\<rparr>))"

section \<open>The index of \<open>persist.go\<close>\<close>

text \<open>The embedded index and the file; \<open>None\<close> when the file is closed. \<open>short\<close>: what of the write reaches the file.\<close>

record PersistentIndex =
  pxIndex :: Index
  pxFile :: "bytes option"

definition persistent_line :: "bm_env \<Rightarrow> (bytes \<Rightarrow> diskDoc option) \<Rightarrow> bytes \<Rightarrow> Index \<Rightarrow> Index" where
  "persistent_line ev unmarshal line ix =
     (case unmarshal line of None \<Rightarrow> ix | Some d \<Rightarrow> Index_Add ev (dkID d) (dkText d) (dkMetadata d) ix)"

definition NewPersistent :: "bm_env \<Rightarrow> (bytes \<Rightarrow> diskDoc option) \<Rightarrow> int \<Rightarrow> bytes \<Rightarrow> PersistentIndex" where
  "NewPersistent ev unmarshal mx bs =
     \<lparr>pxIndex = fold (persistent_line ev unmarshal) (fst (scan_lines bs)) (NewIndex mx), pxFile = Some bs\<rparr>"

definition Persistent_Add ::
  "bm_env \<Rightarrow> (diskDoc \<Rightarrow> bytes) \<Rightarrow> nat option \<Rightarrow> string \<Rightarrow> rune list \<Rightarrow> string \<Rightarrow> PersistentIndex \<Rightarrow> PersistentIndex" where
  "Persistent_Add ev marshal short i t md p =
     (let line = marshal \<lparr>dkOp = [], dkID = i, dkText = t, dkMetadata = md\<rparr> @ [newline] in
      p\<lparr>pxIndex := Index_Add ev i t md (pxIndex p),
        pxFile := map_option (\<lambda>bs. bs @ (case short of None \<Rightarrow> line | Some k \<Rightarrow> take k line)) (pxFile p)\<rparr>)"

text \<open>\<open>Remove\<close> is the one of the embedded index: it does not reach the file.\<close>

definition Persistent_Remove :: "string \<Rightarrow> PersistentIndex \<Rightarrow> PersistentIndex" where
  "Persistent_Remove i p = p\<lparr>pxIndex := Index_Remove i (pxIndex p)\<rparr>"

section \<open>Lines that are written are the lines that are read\<close>

definition line_ok :: "bytes \<Rightarrow> bool" where
  "line_ok l \<longleftrightarrow> newline \<notin> set l \<and> l \<noteq> [] \<and> last l \<noteq> CHR 0x0D \<and> length l < scanner_max"

lemma scanner_split_line: "newline \<notin> set l \<Longrightarrow> scanner_split w (l @ newline # rest) = (w @ l) # scanner_split [] rest"
  by (induction l arbitrary: w) auto

definition file_of :: "bytes list \<Rightarrow> bytes" where
  "file_of ls = concat (map (\<lambda>l. l @ [newline]) ls)"

lemma scanner_split_file: "\<forall>l\<in>set ls. line_ok l \<Longrightarrow> scanner_split [] (file_of ls) = ls"
  by (induction ls) (simp_all add: file_of_def scanner_split_line line_ok_def)

lemma scan_lines_file:
  assumes "\<forall>l\<in>set ls. line_ok l"
  shows "scan_lines (file_of ls) = (ls, False)"
proof -
  have "takeWhile (\<lambda>l. length l < scanner_max) ls = ls" using assms by (simp add: line_ok_def takeWhile_eq_all_conv)
  moreover have "map dropCR ls = ls" using assms by (intro map_idI) (simp add: dropCR_def line_ok_def)
  moreover have "list_all (\<lambda>l. length l < scanner_max) ls" using assms by (simp add: list_all_iff line_ok_def)
  ultimately show ?thesis unfolding scan_lines_def scanner_split_file [OF assms] Let_def by (simp only: simp_thms)
qed

lemma countSnapshotDocs_file: "\<forall>l\<in>set ls. line_ok l \<Longrightarrow> countSnapshotDocs (file_of ls) = length ls"
proof -
  assume ok: "\<forall>l\<in>set ls. line_ok l"
  then have "count_list (file_of ls) newline = length ls"
    by (induction ls) (auto simp: file_of_def line_ok_def count_notin)
  moreover have "file_of ls \<noteq> [] \<Longrightarrow> last (file_of ls) = newline"
    by (cases ls rule: rev_cases) (simp_all add: file_of_def)
  ultimately show ?thesis by (auto simp: countSnapshotDocs_def)
qed

section \<open>What the operations do to the documents and to the file\<close>

lemma Index_Add_effect:
  "ixDocs (Index_Add ev i t md ix) =
     (if 0 < ixMaxDocs ix \<and> ixMaxDocs ix \<le> int (card (dom (ixDocs ix))) \<and> ixDocs ix i = None then ixDocs ix
      else (ixDocs ix)(i \<mapsto> \<lparr>dcID = i, dcText = t, dcMetadata = md, dcTokens = tokenize ev t\<rparr>))"
  "ixLog (Index_Add ev i t md ix) =
     (if 0 < ixMaxDocs ix \<and> ixMaxDocs ix \<le> int (card (dom (ixDocs ix))) \<and> ixDocs ix i = None \<or> \<not> ixHook ix then ixLog ix
      else ixLog ix @ [\<lparr>cgOp = ''put'', cgID = i, cgText = t, cgMetadata = md\<rparr>])"
  "ixMaxDocs (Index_Add ev i t md ix) = ixMaxDocs ix" "ixHook (Index_Add ev i t md ix) = ixHook ix"
  by (auto simp: Index_Add_def Let_def notify_def recalcAvgDL_def removeTokens_def split: option.splits)

lemma Index_Remove_effect:
  "ixDocs (Index_Remove i ix) = (ixDocs ix)(i := None)"
  "ixLog (Index_Remove i ix) =
     (if ixDocs ix i = None \<or> \<not> ixHook ix then ixLog ix else ixLog ix @ [\<lparr>cgOp = ''delete'', cgID = i, cgText = [], cgMetadata = []\<rparr>])"
  "ixMaxDocs (Index_Remove i ix) = ixMaxDocs ix" "ixHook (Index_Remove i ix) = ixHook ix"
  by (auto simp: Index_Remove_def Let_def notify_def recalcAvgDL_def removeTokens_def fun_eq_iff split: option.splits)

lemma Index_Clear_effect:
  "ixDocs (Index_Clear ix) = Map.empty"
  "ixLog (Index_Clear ix) = (if ixHook ix then ixLog ix @ [\<lparr>cgOp = ''clear'', cgID = [], cgText = [], cgMetadata = []\<rparr>] else ixLog ix)"
  "ixMaxDocs (Index_Clear ix) = ixMaxDocs ix" "ixHook (Index_Clear ix) = ixHook ix"
  by (simp_all add: Index_Clear_def notify_def)

lemmas index_effects = Index_Add_effect Index_Remove_effect Index_Clear_effect

datatype ix_op = OpAdd string "rune list" string | OpRemove string | OpClear

fun run_op :: "bm_env \<Rightarrow> ix_op \<Rightarrow> Index \<Rightarrow> Index" where
  "run_op ev (OpAdd i t md) ix = Index_Add ev i t md ix"
| "run_op ev (OpRemove i) ix = Index_Remove i ix"
| "run_op ev OpClear ix = Index_Clear ix"

fun op_entry :: "ix_op \<Rightarrow> diskDoc" where
  "op_entry (OpAdd i t md) = \<lparr>dkOp = ''put'', dkID = i, dkText = t, dkMetadata = md\<rparr>"
| "op_entry (OpRemove i) = \<lparr>dkOp = ''delete'', dkID = i, dkText = [], dkMetadata = []\<rparr>"
| "op_entry OpClear = \<lparr>dkOp = ''clear'', dkID = [], dkText = [], dkMetadata = []\<rparr>"

lemma run_op_inv: "index_inv ev ix \<Longrightarrow> index_inv ev (run_op ev op ix)"
  by (cases op) (simp_all add: Index_Add_inv Index_Remove_inv Index_Clear_inv)

lemma apply_op_entry: "apply_entry ev (op_entry op) ix = run_op ev op ix"
  by (cases op) (simp_all add: apply_entry_def)

lemma apply_entry_inv: "index_inv ev ix \<Longrightarrow> index_inv ev (apply_entry ev d ix)"
  by (simp add: apply_entry_def Index_Add_inv Index_Remove_inv Index_Clear_inv)

lemma apply_entry_max: "ixMaxDocs (apply_entry ev d ix) = ixMaxDocs ix"
  by (simp add: apply_entry_def index_effects)

text \<open>An operation logs nothing or the one entry that repeats it; when it logs nothing it leaves the documents alone.\<close>

lemma run_op_log:
  assumes "ixHook ix"
  shows "ixDocs (run_op ev op ix) = ixDocs ix \<and> ixLog (run_op ev op ix) = ixLog ix \<or>
    (\<exists>c. ixLog (run_op ev op ix) = ixLog ix @ [c] \<and> disk_of_change c = op_entry op)"
  using assms by (cases op) (auto simp: index_effects disk_of_change_def fun_upd_idem)

lemma run_op_docs:
  "ixDocs ix = ixDocs ix' \<Longrightarrow> ixMaxDocs ix = ixMaxDocs ix' \<Longrightarrow> ixDocs (run_op ev op ix) = ixDocs (run_op ev op ix')"
  by (cases op) (simp_all add: index_effects)

section \<open>The file holds the index\<close>

definition json_ok :: "(diskDoc \<Rightarrow> bytes) \<Rightarrow> (bytes \<Rightarrow> diskDoc option) \<Rightarrow> diskDoc \<Rightarrow> bool" where
  "json_ok marshal unmarshal d \<longleftrightarrow> unmarshal (marshal d) = Some d \<and> line_ok (marshal d)"

definition bytes_of :: "bytes option \<Rightarrow> bytes" where
  "bytes_of file = (case file of None \<Rightarrow> [] | Some bs \<Rightarrow> bs)"

definition stored :: "bm_env \<Rightarrow> (bytes \<Rightarrow> diskDoc option) \<Rightarrow> int \<Rightarrow> bytes option \<Rightarrow> Index \<Rightarrow> bool" where
  "stored ev unmarshal mx file ix \<longleftrightarrow>
     (\<exists>ls. bytes_of file = file_of ls \<and> (\<forall>l\<in>set ls. line_ok l) \<and> ixDocs (fold (load_line ev unmarshal) ls (NewIndex mx)) = ixDocs ix)"

lemma fold_load_inv: "index_inv ev (fold (load_line ev unmarshal) ls (NewIndex mx)) \<and> ixMaxDocs (fold (load_line ev unmarshal) ls (NewIndex mx)) = mx"
  by (induction ls rule: rev_induct)
    (simp_all add: load_line_def apply_entry_inv apply_entry_max NewIndex_def NewIndex_inv split: option.splits,
      simp add: NewIndexWithParams_def)

lemma stored_load:
  assumes "stored ev unmarshal mx file ix" "index_inv ev ix"
  shows "snd (LoadSnapshot ev unmarshal mx file) = False \<and> index_inv ev (fst (LoadSnapshot ev unmarshal mx file)) \<and>
    ixDocs (fst (LoadSnapshot ev unmarshal mx file)) = ixDocs ix"
proof -
  obtain ls where ls: "bytes_of file = file_of ls" "\<forall>l\<in>set ls. line_ok l"
    "ixDocs (fold (load_line ev unmarshal) ls (NewIndex mx)) = ixDocs ix" using assms(1) unfolding stored_def by blast
  have "LoadSnapshot ev unmarshal mx file = (fold (load_line ev unmarshal) ls (NewIndex mx), False)"
  proof (cases "file")
    case None
    then have "ls = []" using ls(1) by (cases ls) (simp_all add: bytes_of_def file_of_def)
    then show ?thesis using None by (simp add: LoadSnapshot_def)
  next
    case (Some bs)
    then show ?thesis using ls(1) scan_lines_file [OF ls(2)] by (simp add: LoadSnapshot_def bytes_of_def)
  qed
  then show ?thesis using ls(3) fold_load_inv by simp
qed

text \<open>An attached index: every change it reports is appended.\<close>

definition attached_op ::
  "(diskDoc \<Rightarrow> bytes) \<Rightarrow> bm_env \<Rightarrow> ix_op \<Rightarrow> Index \<times> bytes option \<Rightarrow> Index \<times> bytes option" where
  "attached_op marshal ev op s =
     (let ix' = run_op ev op (fst s) in
      (ix', fold (AppendChange marshal None) (drop (length (ixLog (fst s))) (ixLog ix')) (snd s)))"

lemma attached_op_stored:
  assumes S: "stored ev unmarshal (ixMaxDocs ix) file ix" and hook: "ixHook ix"
    and json: "json_ok marshal unmarshal (op_entry op)"
  shows "stored ev unmarshal (ixMaxDocs ix) (snd (attached_op marshal ev op (ix, file))) (run_op ev op ix)"
proof -
  obtain ls where ls: "bytes_of file = file_of ls" "\<forall>l\<in>set ls. line_ok l"
    "ixDocs (fold (load_line ev unmarshal) ls (NewIndex (ixMaxDocs ix))) = ixDocs ix" using S unfolding stored_def by blast
  from run_op_log [OF hook, of ev op] show ?thesis
  proof (elim disjE exE conjE)
    assume "ixDocs (run_op ev op ix) = ixDocs ix" "ixLog (run_op ev op ix) = ixLog ix"
    then show ?thesis using S by (simp add: attached_op_def stored_def)
  next
    fix c
    assume c: "ixLog (run_op ev op ix) = ixLog ix @ [c]" "disk_of_change c = op_entry op"
    let ?l = "marshal (op_entry op)"
    have "snd (attached_op marshal ev op (ix, file)) = Some (bytes_of file @ ?l @ [newline])"
      using c by (simp add: attached_op_def AppendChange_def bytes_of_def split: option.splits)
    then have "bytes_of (snd (attached_op marshal ev op (ix, file))) = file_of (ls @ [?l])"
      using ls(1) by (simp add: bytes_of_def [of "Some _"] file_of_def)
    moreover have "\<forall>l\<in>set (ls @ [?l]). line_ok l" using ls(2) json by (simp add: json_ok_def)
    moreover have "ixDocs (fold (load_line ev unmarshal) (ls @ [?l]) (NewIndex (ixMaxDocs ix))) = ixDocs (run_op ev op ix)"
    proof -
      let ?ix = "fold (load_line ev unmarshal) ls (NewIndex (ixMaxDocs ix))"
      have "fold (load_line ev unmarshal) (ls @ [?l]) (NewIndex (ixMaxDocs ix)) = run_op ev op ?ix"
        using json by (simp add: load_line_def json_ok_def apply_op_entry)
      moreover have "ixDocs (run_op ev op ?ix) = ixDocs (run_op ev op ix)"
        by (rule run_op_docs [OF ls(3)]) (simp add: fold_load_inv)
      ultimately show ?thesis by simp
    qed
    ultimately show ?thesis unfolding stored_def by blast
  qed
qed

section \<open>Snapshots\<close>

definition doc_entry :: "Document \<Rightarrow> diskDoc" where
  "doc_entry d = \<lparr>dkOp = ''put'', dkID = dcID d, dkText = dcText d, dkMetadata = dcMetadata d\<rparr>"

definition docs_json :: "(diskDoc \<Rightarrow> bytes) \<Rightarrow> (bytes \<Rightarrow> diskDoc option) \<Rightarrow> Index \<Rightarrow> bool" where
  "docs_json marshal unmarshal ix \<longleftrightarrow> (\<forall>i d. ixDocs ix i = Some d \<longrightarrow> json_ok marshal unmarshal (doc_entry d))"

definition docs_bounded :: "Index \<Rightarrow> bool" where
  "docs_bounded ix \<longleftrightarrow> 0 < ixMaxDocs ix \<longrightarrow> int (card (dom (ixDocs ix))) \<le> ixMaxDocs ix"

text \<open>What a snapshot of the documents writes, and what loading it adds up to.\<close>

lemma writeSnapshotDocuments_file:
  "set order \<subseteq> dom (ixDocs ix) \<Longrightarrow>
     writeSnapshotDocuments marshal (Index_Documents order ix) = file_of (map (\<lambda>i. marshal (doc_entry (the (ixDocs ix i)))) order)"
proof (induction order)
  case (Cons i order)
  then obtain d where d: "ixDocs ix i = Some d" by auto
  have "Index_Documents (i # order) ix = (dcID d, dcText d, dcMetadata d) # Index_Documents order ix"
    using d by (simp add: Index_Documents_def)
  then show ?case using Cons d by (simp add: writeSnapshotDocuments_def file_of_def disk_of_doc_def doc_entry_def)
qed (simp add: writeSnapshotDocuments_def Index_Documents_def file_of_def)

lemma load_snapshot_docs:
  assumes I: "index_inv ev ix" and J: "docs_json marshal unmarshal ix" and B: "docs_bounded ix"
  shows "distinct order \<Longrightarrow> set order \<subseteq> dom (ixDocs ix) \<Longrightarrow>
    ixDocs (fold (load_line ev unmarshal) (map (\<lambda>i. marshal (doc_entry (the (ixDocs ix i)))) order) (NewIndex (ixMaxDocs ix))) =
      ixDocs ix |` set order"
proof (induction order rule: rev_induct)
  case Nil
  then show ?case by (simp add: NewIndex_def NewIndexWithParams_def)
next
  case (snoc i order)
  let ?ls = "map (\<lambda>i. marshal (doc_entry (the (ixDocs ix i)))) order"
  let ?jx = "fold (load_line ev unmarshal) ?ls (NewIndex (ixMaxDocs ix))"
  obtain d where d: "ixDocs ix i = Some d" using snoc.prems by auto
  have IH: "ixDocs ?jx = ixDocs ix |` set order" using snoc by simp
  have max: "ixMaxDocs ?jx = ixMaxDocs ix" by (simp add: fold_load_inv)
  have dd: "dcID d = i" "dcTokens d = tokenize ev (dcText d)" using I d by (simp_all add: index_inv_def docs_ok_def)
  have "load_line ev unmarshal (marshal (doc_entry d)) ?jx = Index_Add ev i (dcText d) (dcMetadata d) ?jx"
  proof -
    have "unmarshal (marshal (doc_entry d)) = Some (doc_entry d)" using J d unfolding docs_json_def json_ok_def by blast
    then have "load_line ev unmarshal (marshal (doc_entry d)) ?jx = apply_entry ev (doc_entry d) ?jx"
      by (simp only: load_line_def option.case)
    then show ?thesis using dd by (simp add: apply_entry_def doc_entry_def)
  qed
  moreover have "0 < ixMaxDocs ix \<Longrightarrow> int (card (dom (ixDocs ?jx))) < ixMaxDocs ix"
  proof -
    assume "0 < ixMaxDocs ix"
    then have "int (card (dom (ixDocs ix))) \<le> ixMaxDocs ix" using B by (simp add: docs_bounded_def)
    moreover have "dom (ixDocs ?jx) \<subset> dom (ixDocs ix)" using IH d snoc.prems(1) by auto
    then have "card (dom (ixDocs ?jx)) < card (dom (ixDocs ix))" using I by (intro psubset_card_mono) (simp_all add: index_inv_def docs_ok_def)
    ultimately show ?thesis by linarith
  qed
  ultimately have "ixDocs (load_line ev unmarshal (marshal (doc_entry d)) ?jx) =
      (ixDocs ?jx)(i \<mapsto> \<lparr>dcID = i, dcText = dcText d, dcMetadata = dcMetadata d, dcTokens = tokenize ev (dcText d)\<rparr>)"
    using max by (auto simp: Index_Add_effect)
  also have "\<lparr>dcID = i, dcText = dcText d, dcMetadata = dcMetadata d, dcTokens = tokenize ev (dcText d)\<rparr> = d"
    using dd by (cases d) simp
  also have "(ixDocs ?jx)(i \<mapsto> d) = ixDocs ix |` set (order @ [i])"
    using IH d by (auto simp: restrict_map_def fun_eq_iff)
  finally show ?case using d by simp
qed

lemma snapshot_stored:
  assumes "index_inv ev ix" "docs_json marshal unmarshal ix" "docs_bounded ix" "distinct order" "set order = dom (ixDocs ix)"
  shows "stored ev unmarshal (ixMaxDocs ix) (Some (writeSnapshotDocuments marshal (Index_Documents order ix))) ix"
  unfolding stored_def
proof (intro exI conjI)
  show "bytes_of (Some (writeSnapshotDocuments marshal (Index_Documents order ix))) =
      file_of (map (\<lambda>i. marshal (doc_entry (the (ixDocs ix i)))) order)"
    using assms(5) by (simp add: bytes_of_def writeSnapshotDocuments_file)
  show "\<forall>l\<in>set (map (\<lambda>i. marshal (doc_entry (the (ixDocs ix i)))) order). line_ok l"
    using assms(2,5) by (auto simp: docs_json_def json_ok_def)
  show "ixDocs (fold (load_line ev unmarshal) (map (\<lambda>i. marshal (doc_entry (the (ixDocs ix i)))) order) (NewIndex (ixMaxDocs ix))) = ixDocs ix"
    using load_snapshot_docs [OF assms(1-4)] assms(5) by (simp add: restrict_map_def fun_eq_iff domIff)
qed

text \<open>Whichever call of a snapshot fails, the file of the collection still holds the index.\<close>

lemma saveSnapshot_main:
  "sfMain (fst (saveSnapshot marshal fault order ix fs)) \<in> {sfMain fs, Some (writeSnapshotDocuments marshal (Index_Documents order ix))}"
  "snd (saveSnapshot marshal fault order ix fs) \<Longrightarrow>
     fst (saveSnapshot marshal fault order ix fs) = \<lparr>sfMain = Some (writeSnapshotDocuments marshal (Index_Documents order ix)), sfTmp = None\<rparr>"
  by (simp_all add: saveSnapshot_def Let_def split: option.splits snap_call.splits)

lemma saveSnapshot_stored:
  assumes "stored ev unmarshal (ixMaxDocs ix) (sfMain fs) ix"
    and "index_inv ev ix" "docs_json marshal unmarshal ix" "docs_bounded ix" "distinct order" "set order = dom (ixDocs ix)"
  shows "stored ev unmarshal (ixMaxDocs ix) (sfMain (fst (saveSnapshot marshal fault order ix fs))) ix"
  using saveSnapshot_main(1) [of marshal fault order ix fs] snapshot_stored [OF assms(2-6)] assms(1) by auto

section \<open>Attached indexes over time\<close>

datatype ix_step = StepOp ix_op | StepSave "snap_call option" "string list"

fun keyword_step :: "(diskDoc \<Rightarrow> bytes) \<Rightarrow> bm_env \<Rightarrow> int \<Rightarrow> ix_step \<Rightarrow> Index \<times> snap_files \<Rightarrow> Index \<times> snap_files" where
  "keyword_step marshal ev mx (StepOp op) (ix, fs) =
     (let (ix', f) = attached_op marshal ev op (ix, sfMain fs) in (ix', fs\<lparr>sfMain := f\<rparr>))"
| "keyword_step marshal ev mx (StepSave fault order) (ix, fs) = (ix, fst (save_index marshal mx fault order ix fs))"

fun step_ok :: "(diskDoc \<Rightarrow> bytes) \<Rightarrow> (bytes \<Rightarrow> diskDoc option) \<Rightarrow> ix_step \<Rightarrow> Index \<Rightarrow> bool" where
  "step_ok marshal unmarshal (StepOp op) ix = json_ok marshal unmarshal (op_entry op)"
| "step_ok marshal unmarshal (StepSave fault order) ix = (distinct order \<and> set order = dom (ixDocs ix))"

fun steps_ok :: "(diskDoc \<Rightarrow> bytes) \<Rightarrow> (bytes \<Rightarrow> diskDoc option) \<Rightarrow> bm_env \<Rightarrow> int \<Rightarrow> ix_step list \<Rightarrow> Index \<times> snap_files \<Rightarrow> bool" where
  "steps_ok marshal unmarshal ev mx [] s = True"
| "steps_ok marshal unmarshal ev mx (a # as) s =
     (step_ok marshal unmarshal a (fst s) \<and> steps_ok marshal unmarshal ev mx as (keyword_step marshal ev mx a s))"

definition keyword_inv ::
  "(diskDoc \<Rightarrow> bytes) \<Rightarrow> (bytes \<Rightarrow> diskDoc option) \<Rightarrow> bm_env \<Rightarrow> int \<Rightarrow> Index \<times> snap_files \<Rightarrow> bool" where
  "keyword_inv marshal unmarshal ev mx s \<longleftrightarrow>
     (case s of (ix, fs) \<Rightarrow> stored ev unmarshal mx (sfMain fs) ix \<and> index_inv ev ix \<and> ixMaxDocs ix = mx \<and> ixHook ix \<and>
        docs_json marshal unmarshal ix \<and> docs_bounded ix)"

lemma run_op_bounded:
  assumes "index_inv ev ix" "docs_bounded ix"
  shows "docs_bounded (run_op ev op ix)"
proof -
  have fin: "finite (dom (ixDocs ix))" using assms(1) by (simp add: index_inv_def docs_ok_def)
  show ?thesis
  proof (cases op)
    case (OpAdd i t md)
    then show ?thesis using assms(2) fin by (auto simp: docs_bounded_def index_effects card_insert_if)
  next
    case (OpRemove i)
    have "card (dom (ixDocs ix) - {i}) \<le> card (dom (ixDocs ix))" using fin by (intro card_mono) auto
    then show ?thesis using OpRemove assms(2) by (auto simp: docs_bounded_def index_effects)
  qed (simp add: docs_bounded_def index_effects)
qed

lemma run_op_keeps:
  assumes "json_ok marshal unmarshal (op_entry op)" "docs_json marshal unmarshal ix"
  shows "docs_json marshal unmarshal (run_op ev op ix)"
    "ixMaxDocs (run_op ev op ix) = ixMaxDocs ix" "ixHook (run_op ev op ix) = ixHook ix"
proof -
  show "docs_json marshal unmarshal (run_op ev op ix)"
    using assms by (cases op) (auto simp: docs_json_def index_effects doc_entry_def)
  show "ixMaxDocs (run_op ev op ix) = ixMaxDocs ix" "ixHook (run_op ev op ix) = ixHook ix"
    by (cases op; simp add: index_effects)+
qed

lemma keyword_step_inv:
  assumes I: "keyword_inv marshal unmarshal ev mx s" and ok: "step_ok marshal unmarshal a (fst s)"
  shows "keyword_inv marshal unmarshal ev mx (keyword_step marshal ev mx a s)"
proof (cases s)
  case s: (Pair ix fs)
  have inv: "stored ev unmarshal mx (sfMain fs) ix" "index_inv ev ix" "ixMaxDocs ix = mx" "ixHook ix" "docs_json marshal unmarshal ix" "docs_bounded ix"
    using I by (simp_all add: keyword_inv_def s)
  show ?thesis
  proof (cases a)
    case (StepOp op)
    then have json: "json_ok marshal unmarshal (op_entry op)" using ok by simp
    have "keyword_step marshal ev mx a s = (run_op ev op ix, fs\<lparr>sfMain := snd (attached_op marshal ev op (ix, sfMain fs))\<rparr>)"
      by (simp add: s StepOp attached_op_def Let_def)
    moreover have "stored ev unmarshal mx (snd (attached_op marshal ev op (ix, sfMain fs))) (run_op ev op ix)"
      using attached_op_stored [of ev unmarshal ix "sfMain fs" marshal op] inv json by simp
    ultimately show ?thesis
      using run_op_keeps [OF json inv(5)] run_op_bounded [OF inv(2,6)] run_op_inv [OF inv(2)] inv(3,4) by (simp add: keyword_inv_def)
  next
    case (StepSave fault order)
    then have order: "distinct order" "set order = dom (ixDocs ix)" using ok s by simp_all
    have "stored ev unmarshal mx (sfMain (fst (saveSnapshot marshal fault order ix fs))) ix"
      using saveSnapshot_stored [of ev unmarshal ix fs marshal order fault] inv order by simp
    then show ?thesis using inv by (simp add: s StepSave keyword_inv_def save_index_def)
  qed
qed

lemma keyword_run_inv:
  "keyword_inv marshal unmarshal ev mx s \<Longrightarrow> steps_ok marshal unmarshal ev mx as s \<Longrightarrow>
     keyword_inv marshal unmarshal ev mx (fold (keyword_step marshal ev mx) as s)"
  by (induction as arbitrary: s) (simp_all add: keyword_step_inv)

lemma keyword_start_inv: "keyword_inv marshal unmarshal ev mx (Attach (NewIndex mx), \<lparr>sfMain = None, sfTmp = None\<rparr>)"
  using NewIndex_inv [of ev mx defaultK1 defaultB]
  by (auto simp: keyword_inv_def Attach_def SetOnChange_def NewIndex_def NewIndexWithParams_def docs_json_def docs_bounded_def
      stored_def bytes_of_def file_of_def index_inv_def docs_ok_def)

text \<open>So a restart at any time finds the documents of the index, and with them the postings, the lengths and the average.\<close>

lemma keyword_restart:
  assumes "steps_ok marshal unmarshal ev mx as (Attach (NewIndex mx), \<lparr>sfMain = None, sfTmp = None\<rparr>)"
    and "fold (keyword_step marshal ev mx) as (Attach (NewIndex mx), \<lparr>sfMain = None, sfTmp = None\<rparr>) = (ix, fs)"
    and "LoadSnapshot ev unmarshal mx (sfMain fs) = (jx, err)"
  shows "\<not> err \<and> ixDocs jx = ixDocs ix \<and> ixInverted jx = ixInverted ix \<and> ixDocLen jx = ixDocLen ix \<and> ixTotal jx = ixTotal ix \<and>
    ixAvgDL jx = ixAvgDL ix"
proof -
  have "stored ev unmarshal mx (sfMain fs) ix" "index_inv ev ix"
    using keyword_run_inv [OF keyword_start_inv assms(1)] assms(2) by (simp_all add: keyword_inv_def)
  from stored_load [OF this] show ?thesis using assms(3) \<open>index_inv ev ix\<close> by (simp add: index_inv_def)
qed

section \<open>Torn appends\<close>

text \<open>A write that is cut short leaves a fragment without newline. It reads as nothing, but the next entry is appended to the same line.\<close>

lemma scanner_split_fragment: "newline \<notin> set f \<Longrightarrow> f \<noteq> [] \<Longrightarrow> \<forall>l\<in>set ls. line_ok l \<Longrightarrow> scanner_split [] (file_of ls @ f) = ls @ [f]"
proof (induction ls)
  case Nil
  have "scanner_split w f = [w @ f]" if "newline \<notin> set f" "w @ f \<noteq> []" for w f
    using that by (induction f arbitrary: w) auto
  then show ?case using Nil by (simp add: file_of_def)
next
  case (Cons l ls)
  then show ?case by (simp add: file_of_def scanner_split_line line_ok_def)
qed

lemma torn_append_loses_next:
  fixes ls :: "bytes list" and k :: nat
  assumes ls: "\<forall>l\<in>set ls. line_ok l" and m: "line_ok (marshal (disk_of_change c1))" "line_ok (marshal (disk_of_change c2))"
    and k: "0 < k" "k < length (marshal (disk_of_change c1))"
    and size: "k + length (marshal (disk_of_change c2)) < scanner_max"
    and glued: "unmarshal (take k (marshal (disk_of_change c1)) @ marshal (disk_of_change c2)) = None"
  shows "LoadSnapshot ev unmarshal mx (AppendChange marshal None c2 (AppendChange marshal (Some k) c1 (Some (file_of ls)))) =
    LoadSnapshot ev unmarshal mx (Some (file_of ls))"
proof -
  let ?t = "take k (marshal (disk_of_change c1))" and ?m = "marshal (disk_of_change c2)"
  have "AppendChange marshal None c2 (AppendChange marshal (Some k) c1 (Some (file_of ls))) = Some (file_of (ls @ [?t @ ?m]))"
    using k by (simp add: AppendChange_def file_of_def)
  moreover have "line_ok (?t @ ?m)" using m size k by (auto simp: line_ok_def dest: in_set_takeD)
  then have "\<forall>l\<in>set (ls @ [?t @ ?m]). line_ok l" using ls by simp
  ultimately show ?thesis
    using scan_lines_file [OF ls] scan_lines_file [of "ls @ [?t @ ?m]"] glued by (simp add: LoadSnapshot_def load_line_def)
qed

section \<open>The strict load\<close>

text \<open>When the strict load accepts a file, it has built what the tolerant load builds.\<close>

lemma strict_lines_agree:
  "strict_lines ev unmarshal cancelled maxDocuments n ls ix = Some ix' \<Longrightarrow> fold (load_line ev unmarshal) ls ix = ix'"
proof (induction ls arbitrary: n ix)
  case (Cons l ls)
  show ?case
  proof (cases "unmarshal l")
    case (Some d)
    then show ?thesis using Cons by (auto simp: load_line_def split: if_splits)
  qed (use Cons.prems in \<open>simp split: if_splits\<close>)
qed simp

lemma strict_agrees:
  assumes "LoadSnapshotStrict ev unmarshal cancelled mx maxBytes maxDocuments bs = Some ix"
  shows "LoadSnapshot ev unmarshal mx (Some bs) = (ix, False) \<and> int (length bs) \<le> maxBytes"
  using assms strict_lines_agree
  by (auto simp: LoadSnapshotStrict_def LoadSnapshot_def bind_eq_Some_conv split: prod.splits if_splits)

section \<open>Lines are counted, not documents\<close>

text \<open>An index with one document that is written again and again has a file that the next start skips.\<close>

lemma attached_same_add:
  fixes i :: string and t :: "rune list" and md :: string
  defines "d \<equiv> op_entry (OpAdd i t md)"
  assumes mx: "0 < mx"
  shows "sfMain (snd (fold (keyword_step marshal ev mx) (replicate n (StepOp (OpAdd i t md))) (Attach (NewIndex mx), \<lparr>sfMain = Some [], sfTmp = None\<rparr>)))
      = Some (file_of (replicate n (marshal d))) \<and>
    (let ix = fst (fold (keyword_step marshal ev mx) (replicate n (StepOp (OpAdd i t md))) (Attach (NewIndex mx), \<lparr>sfMain = Some [], sfTmp = None\<rparr>))
     in dom (ixDocs ix) \<subseteq> {i} \<and> ixMaxDocs ix = mx \<and> ixHook ix)"
proof (induction n)
  case 0
  then show ?case by (simp add: file_of_def Attach_def SetOnChange_def NewIndex_def NewIndexWithParams_def)
next
  case (Suc n)
  let ?s = "fold (keyword_step marshal ev mx) (replicate n (StepOp (OpAdd i t md))) (Attach (NewIndex mx), \<lparr>sfMain = Some [], sfTmp = None\<rparr>)"
  obtain ix fs where s: "?s = (ix, fs)" by (cases ?s)
  have IH: "sfMain fs = Some (file_of (replicate n (marshal d)))" "dom (ixDocs ix) \<subseteq> {i}" "ixMaxDocs ix = mx" "ixHook ix"
    using Suc s by (simp_all add: Let_def)
  have open_: "\<not> (mx \<le> int (card (dom (ixDocs ix))) \<and> ixDocs ix i = None)"
  proof (cases "ixDocs ix i")
    case None
    then have "dom (ixDocs ix) = {}" using IH(2) by auto
    then show ?thesis using mx by simp
  qed simp
  have log: "ixLog (Index_Add ev i t md ix) = ixLog ix @ [\<lparr>cgOp = ''put'', cgID = i, cgText = t, cgMetadata = md\<rparr>]"
    using open_ IH(3,4) by (simp add: Index_Add_effect)
  have "replicate (Suc n) (StepOp (OpAdd i t md)) = replicate n (StepOp (OpAdd i t md)) @ [StepOp (OpAdd i t md)]"
    by (simp add: replicate_append_same)
  then have "fold (keyword_step marshal ev mx) (replicate (Suc n) (StepOp (OpAdd i t md))) (Attach (NewIndex mx), \<lparr>sfMain = Some [], sfTmp = None\<rparr>)
      = (Index_Add ev i t md ix, fs\<lparr>sfMain := Some (file_of (replicate n (marshal d)) @ marshal d @ [newline])\<rparr>)"
    using s IH(1) log by (simp add: attached_op_def AppendChange_def disk_of_change_def d_def Let_def del: replicate.simps)
  moreover have "file_of (replicate n (marshal d)) @ marshal d @ [newline] = file_of (replicate (Suc n) (marshal d))"
    unfolding replicate_Suc replicate_append_same [symmetric] by (simp add: file_of_def)
  moreover have "dom (ixDocs (Index_Add ev i t md ix)) \<subseteq> {i}" using IH(2) by (auto simp: Index_Add_effect split: if_splits)
  ultimately show ?case using IH by (simp add: Index_Add_effect Let_def)
qed

lemma load_index_lines:
  assumes "line_ok l" "mx \<le> int n"
  shows "load_index ev unmarshal mx (file_of (replicate n l)) = None"
  using assms countSnapshotDocs_file [of "replicate n l"] by (simp add: load_index_def)

section \<open>A removal that does not last\<close>

lemma persistent_removed_returns:
  assumes "unmarshal (marshal \<lparr>dkOp = [], dkID = i, dkText = t, dkMetadata = md\<rparr>) = Some \<lparr>dkOp = [], dkID = i, dkText = t, dkMetadata = md\<rparr>"
    and "line_ok (marshal \<lparr>dkOp = [], dkID = i, dkText = t, dkMetadata = md\<rparr>)" "0 < mx"
    and "p = Persistent_Remove i (Persistent_Add ev marshal None i t md (NewPersistent ev unmarshal mx []))"
  shows "ixDocs (pxIndex p) i = None \<and> (\<exists>bs. pxFile p = Some bs \<and> i \<in> dom (ixDocs (pxIndex (NewPersistent ev unmarshal mx bs))))"
proof -
  let ?d = "\<lparr>dkOp = [], dkID = i, dkText = t, dkMetadata = md\<rparr>"
  have written: "pxFile p = Some (file_of [marshal ?d])"
    using assms(4) by (simp add: Persistent_Remove_def Persistent_Add_def NewPersistent_def file_of_def)
  have "scan_lines (file_of [marshal ?d]) = ([marshal ?d], False)" using assms(2) by (intro scan_lines_file) simp
  then have "i \<in> dom (ixDocs (pxIndex (NewPersistent ev unmarshal mx (file_of [marshal ?d]))))"
    using assms(1,3) by (simp add: NewPersistent_def persistent_line_def Index_Add_effect NewIndex_def NewIndexWithParams_def)
  moreover have "ixDocs (pxIndex p) i = None" using assms(4) by (simp add: Persistent_Remove_def Index_Remove_effect)
  ultimately show ?thesis using written by blast
qed

end
