(* ===== verification/Bm25_Registry.thy ===== *)
theory Bm25_Registry
  imports Bm25_Hybrid Bm25_Store
begin

text \<open>
  \<open>pkg/bm25/registry.go\<close>: the registry of keyword indexes. An index is a pointer (type \<open>'i\<close>), which may be nil in the map; the registry
  itself may be nil too.
\<close>

type_synonym 'i registry = "(string \<rightharpoonup> 'i option) option"

definition NewIndexRegistry :: "'i registry" where
  "NewIndexRegistry = Some Map.empty"

definition NewIndexRegistryFrom :: "(string \<rightharpoonup> 'i option) option \<Rightarrow> 'i registry" where
  "NewIndexRegistryFrom indexes = (case indexes of None \<Rightarrow> NewIndexRegistry | Some m \<Rightarrow> Some m)"

definition Registry_Get :: "'i registry \<Rightarrow> string \<Rightarrow> 'i option" where
  "Registry_Get r collection = (case r of None \<Rightarrow> None | Some m \<Rightarrow> (case m collection of None \<Rightarrow> None | Some p \<Rightarrow> p))"

text \<open>\<open>fresh\<close> is the index that \<open>NewIndex\<close> allocates and \<open>onCreate\<close> attaches.\<close>

definition GetOrCreate :: "'i \<Rightarrow> 'i registry \<Rightarrow> string \<Rightarrow> 'i option \<times> 'i registry" where
  "GetOrCreate fresh r collection =
     (case r of None \<Rightarrow> (None, r)
      | Some m \<Rightarrow>
          if collection = [] then (None, r)
          else case m collection of
              Some (Some i) \<Rightarrow> (Some i, r)
            | _ \<Rightarrow> (Some fresh, Some (m(collection \<mapsto> Some fresh))))"

definition Registry_Insert :: "'i registry \<Rightarrow> string \<Rightarrow> 'i option \<Rightarrow> 'i registry" where
  "Registry_Insert r collection idx =
     (case r of None \<Rightarrow> r | Some m \<Rightarrow> if collection = [] \<or> idx = None then r else Some (m(collection \<mapsto> idx)))"

definition Registry_Delete :: "'i registry \<Rightarrow> string \<Rightarrow> 'i option \<times> 'i registry" where
  "Registry_Delete r collection =
     (case r of None \<Rightarrow> (None, r) | Some m \<Rightarrow> (Registry_Get r collection, Some (m(collection := None))))"

definition Registry_Len :: "'i registry \<Rightarrow> nat" where
  "Registry_Len r = (case r of None \<Rightarrow> 0 | Some m \<Rightarrow> card (dom m))"

definition Registry_Snapshot :: "'i registry \<Rightarrow> (string \<rightharpoonup> 'i option) option" where
  "Registry_Snapshot r = r"

text \<open>The inner loop of the insertion sort moves the element at \<open>j\<close> to the left.\<close>

function sift_name :: "string list \<Rightarrow> nat \<Rightarrow> string list" where
  "sift_name out j =
     (if 0 < j \<and> string_lt (out ! j) (out ! (j - 1)) then sift_name (swap out j (j - 1)) (j - 1) else out)"
  by pat_completeness auto
termination
  by (relation "measure snd") auto

declare sift_name.simps [simp del]

definition Registry_Names :: "string list \<Rightarrow> 'i registry \<Rightarrow> string list" where
  "Registry_Names order r =
     (case r of None \<Rightarrow> [] | Some m \<Rightarrow> fold (\<lambda>i out. sift_name out i) [1..<length order] order)"

section \<open>The names are sorted\<close>

function place_name :: "string \<Rightarrow> string list \<Rightarrow> string list" where
  "place_name x xs = (if xs = [] then [x] else if string_lt x (last xs) then place_name x (butlast xs) @ [last xs] else xs @ [x])"
  by pat_completeness auto
termination
  by (relation "measure (length \<circ> snd)") auto

declare place_name.simps [simp del]

lemma sift_name_place: "sift_name (xs @ x # ys) (length xs) = place_name x xs @ ys"
proof (induction xs arbitrary: ys rule: rev_induct)
  case Nil
  then show ?case by (simp add: sift_name.simps place_name.simps)
next
  case (snoc y xs)
  let ?out = "(xs @ [y]) @ x # ys"
  have nth: "?out ! length (xs @ [y]) = x" "?out ! (length (xs @ [y]) - 1) = y" by (simp_all add: nth_append)
  have sw: "swap ?out (length (xs @ [y])) (length (xs @ [y]) - 1) = xs @ x # y # ys"
    unfolding swap_def nth by (simp add: list_update_append)
  have "sift_name ?out (length (xs @ [y])) = (if string_lt x y then sift_name (xs @ x # y # ys) (length xs) else ?out)"
    unfolding sift_name.simps [of ?out "length (xs @ [y])"] nth sw by simp
  then show ?case using snoc [of "y # ys"] by (simp add: place_name.simps [of x "xs @ [y]"])
qed

lemma set_place_name: "set (place_name x xs) = insert x (set xs)"
  by (induction xs rule: rev_induct) (auto simp: place_name.simps)

lemma mset_place_name: "mset (place_name x xs) = add_mset x (mset xs)"
  by (induction xs rule: rev_induct) (auto simp: place_name.simps)

abbreviation names_sorted :: "string list \<Rightarrow> bool" where
  "names_sorted \<equiv> sorted_wrt (\<lambda>a b. \<not> string_lt b a)"

lemma place_name_sorted: "names_sorted xs \<Longrightarrow> names_sorted (place_name x xs)"
proof (induction xs rule: rev_induct)
  case (snoc y xs)
  show ?case
  proof (cases "string_lt x y")
    case True
    then have "\<not> string_lt y x" using string_lt_trans string_lt_irrefl by blast
    then show ?thesis using snoc True by (auto simp: place_name.simps [of x "xs @ [y]"] sorted_wrt_append set_place_name)
  next
    case False
    have "\<not> string_lt x z" if z: "z \<in> set xs" for z
    proof
      assume xz: "string_lt x z"
      have "\<not> string_lt y z" using snoc.prems z by (simp add: sorted_wrt_append)
      then have "z = y \<or> string_lt z y" using string_lt_total by blast
      then show False using xz False string_lt_trans by blast
    qed
    then show ?thesis using snoc.prems False by (auto simp: place_name.simps [of x "xs @ [y]"] sorted_wrt_append)
  qed
qed (simp add: place_name.simps)

lemma sift_prefix:
  "n \<le> length out \<Longrightarrow> names_sorted (take n (fold (\<lambda>i out. sift_name out i) [1..<n] out)) \<and>
     drop n (fold (\<lambda>i out. sift_name out i) [1..<n] out) = drop n out \<and> mset (fold (\<lambda>i out. sift_name out i) [1..<n] out) = mset out"
proof (induction n)
  case (Suc n)
  show ?case
  proof (cases n)
    case 0
    then show ?thesis using Suc.prems by (cases out) simp_all
  next
    case (Suc m)
    define g where "g = fold (\<lambda>i out. sift_name out i) [1..<n] out"
    have IH: "names_sorted (take n g)" "drop n g = drop n out" "mset g = mset out" using Suc.IH Suc.prems by (simp_all add: g_def)
    have len: "length g = length out" using IH(3) by (rule mset_eq_length)
    have g: "g = take n g @ out ! n # drop (Suc n) out"
      using Suc.prems IH(2) by (metis Cons_nth_drop_Suc Suc_le_lessD append_take_drop_id)
    have "length (take n g) = n" using Suc.prems len by simp
    then have "sift_name g n = place_name (out ! n) (take n g) @ drop (Suc n) out"
      using sift_name_place [of "take n g" "out ! n" "drop (Suc n) out"] g by simp
    moreover have "fold (\<lambda>i out. sift_name out i) [1..<Suc n] out = sift_name g n"
      using Suc by (simp add: g_def)
    moreover have "length (place_name (out ! n) (take n g)) = Suc n"
      using mset_place_name [of "out ! n" "take n g"] \<open>length (take n g) = n\<close> by (metis size_add_mset size_mset)
    moreover have "mset (place_name (out ! n) (take n g) @ drop (Suc n) out) = mset out"
      using g IH(3) by (metis mset_append mset_place_name mset.simps(2) union_mset_add_mset_left union_mset_add_mset_right)
    ultimately show ?thesis using place_name_sorted [OF IH(1)] by simp
  qed
qed simp

lemma Registry_Names_sorted:
  assumes "distinct order" "set order = dom m"
  shows "names_sorted (Registry_Names order (Some m)) \<and> distinct (Registry_Names order (Some m)) \<and> set (Registry_Names order (Some m)) = dom m"
proof -
  note P = sift_prefix [of "length order" order]
  then have "mset (Registry_Names order (Some m)) = mset order" by (simp add: Registry_Names_def)
  moreover have "length (fold (\<lambda>i out. sift_name out i) [1..<length order] order) = length order" using P by (metis le_refl mset_eq_length)
  then have "names_sorted (Registry_Names order (Some m))" using P by (simp add: Registry_Names_def)
  ultimately show ?thesis using assms by (metis mset_eq_imp_distinct_iff set_mset_mset)
qed

lemma GetOrCreate_Get:
  assumes "GetOrCreate fresh r collection = (Some i, r')"
  shows "Registry_Get r' collection = Some i \<and> (Registry_Get r collection \<noteq> None \<longrightarrow> r' = r) \<and>
    (c \<noteq> collection \<longrightarrow> Registry_Get r' c = Registry_Get r c)"
  using assms by (auto simp: GetOrCreate_def Registry_Get_def split: option.splits if_splits)

end
