(* ===== verification/Demo_Search.thy ===== *)
theory Demo_Search
  imports Demo_Collections Embed_Client Chunker_Facts Bm25_Registry
begin

text \<open>Concrete breakers, gates, clients, texts and keyword indexes at which the properties of the search path are applied.\<close>

section \<open>The breaker and the gate\<close>

text \<open>A threshold of one: a request fails, the cooldown of five passes, and the next request is the probe.\<close>

definition demo_probe :: BreakerRun where
  "demo_probe =
     \<lparr>brBreaker = \<lparr>bkFailures = 1, bkProbing = True, bkGeneration = 1, bkOpenUntil = Some 5, bkThreshold = 1, bkCooldown = 5\<rparr>,
      brRequests = [(1, True)]\<rparr>"

lemma demo_probe_run: "breaker_run (breaker_start 1 5) demo_probe"
proof -
  let ?b = "\<lparr>bkFailures = 0, bkProbing = False, bkGeneration = 0, bkOpenUntil = None, bkThreshold = 1, bkCooldown = 5\<rparr>"
  let ?o = "\<lparr>bkFailures = 1, bkProbing = False, bkGeneration = 1, bkOpenUntil = Some 5, bkThreshold = 1, bkCooldown = 5\<rparr>"
  have 0: "breaker_start 1 5 = \<lparr>brBreaker = ?b, brRequests = []\<rparr>" by (simp add: breaker_start_def NewBreaker_def)
  have 1: "breaker_step (breaker_start 1 5) \<lparr>brBreaker = ?b, brRequests = [(0, False)]\<rparr>"
    using breaker_step.admit [of 0 "breaker_start 1 5" "(0, False)" ?b]
    by (simp add: 0 breaker_acquire_def checkLocked_def Let_def)
  have 2: "breaker_step \<lparr>brBreaker = ?b, brRequests = [(0, False)]\<rparr> \<lparr>brBreaker = ?o, brRequests = []\<rparr>"
    using breaker_step.observed [of 0 False "\<lparr>brBreaker = ?b, brRequests = [(0, False)]\<rparr>" 0 True]
    by (simp add: breaker_complete_def recordFailureLocked_def Let_def)
  have 3: "breaker_step \<lparr>brBreaker = ?o, brRequests = []\<rparr> demo_probe"
    using breaker_step.admit [of 7 "\<lparr>brBreaker = ?o, brRequests = []\<rparr>" "(1, True)" "?o\<lparr>bkProbing := True\<rparr>"]
    by (simp add: breaker_acquire_def checkLocked_def Let_def demo_probe_def)
  show ?thesis unfolding breaker_run_def using 1 2 3 by (meson rtranclp.rtrancl_refl rtranclp.rtrancl_into_rtrancl)
qed

lemma demo_gate_run: "gate_run [GArrive, GArrive] (gate_start 1) (gate_busy 1 1 [(True, False)] [])"
proof -
  have 0: "gate_busy 1 0 [] [] = gate_start 1" by (simp add: gate_busy_def gate_start_def NewPriorityGate_def)
  have "gate_turn False False (startWaiting False (grGate (gate_start 1))) = (GateAdmitted, grGate (gate_busy 1 1 [] []))"
    by (simp add: gate_turn_def startWaiting_def doneWaiting_def gate_busy_def gate_start_def NewPriorityGate_def)
  from gate_step.arrive [OF this] have 1: "gate_step GArrive (gate_start 1) (gate_busy 1 1 [] [])"
    by (simp add: gate_busy_def gate_start_def)
  have "gate_turn True False (startWaiting True (grGate (gate_busy 1 1 [] []))) = (GateWait, grGate (gate_busy 1 1 [(True, False)] []))"
    by (simp add: gate_turn_def startWaiting_def gate_busy_def NewPriorityGate_def)
  from gate_step.arrive [OF this] have 2: "gate_step GArrive (gate_busy 1 1 [] []) (gate_busy 1 1 [(True, False)] [])"
    by (simp add: gate_busy_def)
  show ?thesis using gate_more [OF gate_more [OF gate_done 1] 2] by simp
qed

section \<open>A client\<close>

text \<open>Of two texts the first is in the cache; the provider answers for the second.\<close>

definition demo_client :: Client where
  "demo_client = fst (NewClient [] [] 2 1)"

definition demo_state :: EmbedState where
  "demo_state = \<lparr>esBreaker = None, esCache = Some ((NewCache 2)\<lparr>ecItems := [TextKey (\<lambda>b. b) ''a'' \<mapsto> [0]], ecOrder := [TextKey (\<lambda>b. b) ''a'']\<rparr>)\<rparr>"

definition demo_embed_io :: embed_io where
  "demo_embed_io =
     \<lparr>eiCheck = 0, eiGate = GateAdmitted, eiAcquire = 0, eiComplete = 0,
      eiBatch = (\<lambda>_. \<lparr>biGuard = True, biMarshal = True, biRequest = True, biReply = HttpVectors [(0, [f32_one])] [], biCtxErr = False\<rparr>),
      eiFirst = 0, eiWrite = (0, 0)\<rparr>"

lemma demo_embed:
  "fst (EmbedTexts (\<lambda>b. b) (\<lambda>_ _. []) last demo_client demo_embed_io [''a'', ''b''] demo_state) = Inr [Some [0], Some [f32_one]]"
  "0 < clBatchSize demo_client" "cached (\<lambda>b. b) last demo_client demo_state ''b'' = None"
proof -
  have k: "TextKey (\<lambda>b. b) ''b'' \<noteq> TextKey (\<lambda>b. b) ''a''" by code_simp
  show "fst (EmbedTexts (\<lambda>b. b) (\<lambda>_ _. []) last demo_client demo_embed_io [''a'', ''b''] demo_state) = Inr [Some [0], Some [f32_one]]"
    using k by (simp add: EmbedTexts_def demo_client_def NewClient_def demo_state_def demo_embed_io_def embed_lookup_def Cache_GetMulti_def
        Cache_Get_def cacheKey_def NewCache_def embed_misses_def run_batches_def batches.simps batch_failures_def batch_vectors_def
        embedBatch_def reply_vectors_def sortSlice_def Let_def)
  show "0 < clBatchSize demo_client" by (simp add: demo_client_def NewClient_def)
  show "cached (\<lambda>b. b) last demo_client demo_state ''b'' = None"
    using k by (simp add: cached_def demo_state_def cacheKey_def demo_client_def NewClient_def)
qed

section \<open>Ids of chunks\<close>

definition demo_uuid :: uuids where
  "demo_uuid = (\<lambda>s. s, \<lambda>_. [])"

section \<open>A keyword index\<close>

definition demo_bm :: bm_env where
  "demo_bm = \<lparr>bmLower = (\<lambda>t. t), bmAlnum = (\<lambda>r. 97 \<le> r), bmLog = (\<lambda>x. x)\<rparr>"

definition demo_ix :: Index where
  "demo_ix = Index_Add demo_bm ''d'' [97, 98] ''m'' (NewIndex 10)"

lemma demo_tokenize: "tokenize demo_bm [97, 98] = [[97, 98]]"
  by (simp add: tokenize_def demo_bm_def byte_len_def rune_bytes_def)

lemma demo_ix_inv: "index_inv demo_bm demo_ix"
  unfolding demo_ix_def NewIndex_def by (intro Index_Add_inv NewIndex_inv)

lemma demo_scores:
  "dom (bm_scores demo_bm demo_ix [[97, 98]]) = {''d''}" "bm_scores demo_bm demo_ix [[97, 98]] i \<noteq> Some FNaN"
proof -
  have fields: "ixInverted demo_ix [97, 98] = Some [''d'' \<mapsto> 1]" "ixDocLen demo_ix = [''d'' \<mapsto> 1]" "dom (ixDocs demo_ix) = {''d''}"
    "ixK1 demo_ix = defaultK1" "ixB demo_ix = defaultB" "ixAvgDL demo_ix = f64_div (f64_of_int 1) (f64_of_int 1)"
    by (simp_all add: demo_ix_def Index_Add_def NewIndex_def NewIndexWithParams_def demo_tokenize Let_def notify_def recalcAvgDL_def add_posting_def
        doc_len_def f64_zero_def defaultK1_def defaultB_def flt_one_def signed_def)
  let ?s = "f64_add f64_zero (f64_mul (bm_idf demo_bm (f64_of_int 1) 1) (bm_tf demo_ix ''d'' 1))"
  have "bm_scores demo_bm demo_ix [[97, 98]] = [''d'' \<mapsto> ?s]"
    by (auto simp: bm_scores_def score_term_def fields Let_def fun_eq_iff)
  moreover have "?s \<noteq> FNaN"
    unfolding bm_tf_def bm_idf_def demo_bm_def doc_len_def fields Let_def by (simp, code_simp)
  ultimately show "dom (bm_scores demo_bm demo_ix [[97, 98]]) = {''d''}" "bm_scores demo_bm demo_ix [[97, 98]] i \<noteq> Some FNaN"
    by simp_all
qed

end
