(* ===== verification/Sql_Tables.thy ===== *)
theory Sql_Tables
  imports Prelude "HOL-Library.AList"
begin

text \<open>
  The relational tables that the access layer reads and writes through \<open>database/sql\<close>. A table is the list of its rows under their
  primary key; the four statement forms of the source are \<open>map_of\<close> (\<open>SELECT .. WHERE key\<close>), \<open>update_where\<close>, \<open>delete_where\<close> and
  \<open>AList.update\<close> (\<open>INSERT .. ON CONFLICT DO UPDATE\<close>), with \<open>affected\<close> for \<open>RowsAffected\<close>. A statement can fail: \<open>ask\<close> and \<open>exec\<close> take
  the set of the statements that fail as an argument. The last section is the interface of an optimistic revision column.
\<close>

section \<open>Statements\<close>

type_synonym ('k, 'r) table = "('k \<times> 'r) list"

definition update_where :: "('k \<Rightarrow> 'r \<Rightarrow> bool) \<Rightarrow> ('r \<Rightarrow> 'r) \<Rightarrow> ('k, 'r) table \<Rightarrow> ('k, 'r) table" where
  "update_where P f t = map (\<lambda>(k, r). (k, if P k r then f r else r)) t"

definition delete_where :: "('k \<Rightarrow> 'r \<Rightarrow> bool) \<Rightarrow> ('k, 'r) table \<Rightarrow> ('k, 'r) table" where
  "delete_where P t = filter (\<lambda>(k, r). \<not> P k r) t"

definition affected :: "('k \<Rightarrow> 'r \<Rightarrow> bool) \<Rightarrow> ('k, 'r) table \<Rightarrow> nat" where
  "affected P t = length (filter (\<lambda>(k, r). P k r) t)"

text \<open>The largest value of a \<open>BIGINT\<close> column; a statement that would exceed it fails.\<close>

definition max_bigint :: int where
  "max_bigint = 2 ^ 63 - 1"

definition keyed :: "('k, 'r) table \<Rightarrow> bool" where
  "keyed t \<longleftrightarrow> distinct (map fst t)"

named_theorems sql \<open>what the statements do to a lookup and to the primary key\<close>

lemma update_where_lookup [sql]:
  "map_of (update_where P f t) k = map_option (\<lambda>r. if P k r then f r else r) (map_of t k)"
  by (induction t) (auto simp: update_where_def)

lemma delete_where_lookup [sql]:
  "keyed t \<Longrightarrow> map_of (delete_where P t) k = (case map_of t k of None \<Rightarrow> None | Some r \<Rightarrow> if P k r then None else Some r)"
  by (induction t) (force simp: delete_where_def keyed_def map_of_eq_None_iff split: option.splits)+

lemma keyed_update_where [sql, simp]: "keyed (update_where P f t) = keyed t"
proof -
  have "map fst (update_where P f t) = map fst t"
    by (induction t) (auto simp: update_where_def)
  then show ?thesis by (simp add: keyed_def)
qed

lemma keyed_delete_where [sql, simp]: "keyed t \<Longrightarrow> keyed (delete_where P t)"
  by (induction t) (auto simp: keyed_def delete_where_def)

lemma keyed_upsert [sql, simp]: "keyed t \<Longrightarrow> keyed (AList.update k r t)"
  by (simp add: keyed_def distinct_update)

lemma keyed_Nil [simp]: "keyed []"
  by (simp add: keyed_def)

lemma affected_key:
  "keyed t \<Longrightarrow> affected (\<lambda>k r. k = x \<and> Q r) t = (case map_of t x of None \<Rightarrow> 0 | Some r \<Rightarrow> if Q r then 1 else 0)"
proof (induction t)
  case Nil
  then show ?case by (simp add: affected_def)
next
  case (Cons p t)
  obtain k r where p: "p = (k, r)" by (cases p)
  have "affected (\<lambda>k r. k = x \<and> Q r) t = 0" if "x \<notin> set (map fst t)"
    using that by (force simp: affected_def filter_empty_conv)
  with Cons p show ?case
    by (auto simp: affected_def keyed_def map_of_eq_None_iff split: option.splits)
qed

lemma affected_key_only: "keyed t \<Longrightarrow> affected (\<lambda>k r. k = x) t = (case map_of t x of None \<Rightarrow> 0 | Some r \<Rightarrow> 1)"
  using affected_key [of t x "\<lambda>_. True"] by simp

lemma affected_zero: "affected P t = 0 \<longleftrightarrow> (\<forall>(k, r)\<in>set t. \<not> P k r)"
  by (auto simp: affected_def filter_empty_conv)

lemma keyed_lookup: "keyed t \<Longrightarrow> (k, r) \<in> set t \<longleftrightarrow> map_of t k = Some r"
  by (simp add: keyed_def)

lemma lookup_mem: "map_of t k = Some r \<Longrightarrow> (k, r) \<in> set t"
  by (rule map_of_SomeD)

section \<open>Statements that fail\<close>

text \<open>\<open>if err != nil { return .., err }\<close>: the first error ends the function.\<close>

definition andThen :: "'e + 'a \<Rightarrow> ('a \<Rightarrow> 'e + 'b) \<Rightarrow> 'e + 'b" where
  "andThen m f = (case m of Inl e \<Rightarrow> Inl e | Inr x \<Rightarrow> f x)"

definition require :: "bool \<Rightarrow> 'e \<Rightarrow> 'e + unit" where
  "require b e = (if b then Inr () else Inl e)"

lemma andThen_simps [simp]: "andThen (Inl e) f = Inl e" "andThen (Inr x) f = f x"
  by (simp_all add: andThen_def)

lemma andThen_Inr: "andThen m f = Inr y \<longleftrightarrow> (\<exists>x. m = Inr x \<and> f x = Inr y)"
  by (cases m) auto

lemma andThen_Inl: "andThen m f = Inl e \<longleftrightarrow> m = Inl e \<or> (\<exists>x. m = Inr x \<and> f x = Inl e)"
  by (cases m) auto

lemma require_Inr [simp]: "require b e = Inr u \<longleftrightarrow> b"
  by (simp add: require_def)

lemma require_Inl [simp]: "require b e = Inl e' \<longleftrightarrow> \<not> b \<and> e' = e"
  by (auto simp: require_def)

section \<open>An optimistic revision column\<close>

text \<open>
  A row carries a revision. An update names the revision it was computed from and is refused when the row has moved on; whatever else
  happens to the store, the revision of the row never goes back. Two updates computed from one revision then cannot both take effect.
\<close>

locale revisioned =
  fixes revision :: "'s \<Rightarrow> int option"
    and moves :: "'s \<Rightarrow> 's \<Rightarrow> bool"
    and store_at :: "'o \<Rightarrow> int \<Rightarrow> 's \<Rightarrow> 's option"
  assumes moves_mono: "moves s s' \<Longrightarrow> revision s = Some r \<Longrightarrow> \<exists>r'. revision s' = Some r' \<and> r \<le> r'"
    and store_at_expected: "store_at x r s = Some s' \<Longrightarrow> revision s = Some r"
    and store_at_bumps: "store_at x r s = Some s' \<Longrightarrow> \<exists>r'. revision s' = Some r' \<and> r < r'"
begin

lemma runs_mono: "moves\<^sup>*\<^sup>* s s' \<Longrightarrow> revision s = Some r \<Longrightarrow> \<exists>r'. revision s' = Some r' \<and> r \<le> r'"
proof (induction rule: rtranclp_induct)
  case base
  then show ?case by simp
next
  case (step s1 s2)
  from step.IH [OF step.prems] obtain r1 where "revision s1 = Some r1" "r \<le> r1" by blast
  with moves_mono [OF step.hyps(2)] show ?case by force
qed

lemma revision_spent_once:
  assumes first: "store_at x r s = Some s1" and run: "moves\<^sup>*\<^sup>* s1 s2"
  shows "store_at y r s2 = None"
proof (cases "store_at y r s2")
  case (Some s3)
  from store_at_bumps [OF first] obtain r1 where r1: "revision s1 = Some r1" "r < r1" by blast
  from runs_mono [OF run r1(1)] obtain r2 where "revision s2 = Some r2" "r1 \<le> r2" by blast
  with store_at_expected [OF Some] r1(2) show ?thesis by simp
qed simp

end

end
