(* ===== verification/Access.thy ===== *)
theory Access
  imports Sql_Tables
begin

text \<open>
  The authorization decisions of \<open>pkg/access\<close>: the tables they read, the dataset and workspace decisions of policy.go, actor.go, tenant.go
  and artifact.go, and the document decision of document_policy.go. A decision reads one state of the database; \<open>None\<close> is the policy
  without a database. The argument \<open>flt\<close> is the set of the queries that fail, \<open>uni\<close> is what \<open>strings.ToLower\<close> does to a string that is not
  ASCII (the tables of Unicode).
\<close>

section \<open>Strings\<close>

definition lower_ascii :: "char \<Rightarrow> char" where
  "lower_ascii c = (if 65 \<le> (of_char c :: nat) \<and> (of_char c :: nat) \<le> 90 then char_of ((of_char c :: nat) + 32) else c)"

definition ToLower :: "(string \<Rightarrow> string) \<Rightarrow> string \<Rightarrow> string" where
  "ToLower uni s = (if list_all (\<lambda>c. (of_char c :: nat) < 128) s then map lower_ascii s else uni s)"

fun strings_Contains :: "string \<Rightarrow> string \<Rightarrow> bool" where
  "strings_Contains [] sub = (sub = [])"
| "strings_Contains (c # s) sub = (take (length sub) (c # s) = sub \<or> strings_Contains s sub)"

section \<open>The tables\<close>

record user_row =
  usActive :: bool
  usSuper :: bool
  usEmail :: string

record dataset_row =
  dsName :: string
  dsOwner :: "string option"

record share_row =
  shID :: string
  shRole :: string

record data_row =
  daName :: string
  daRevision :: int
  daHash :: string
  daRaw :: string
  daOriginal :: string

record document_row =
  drTenant :: string
  drMode :: string
  drACLRevision :: int
  drContentRevision :: int
  drTombstoned :: bool
  drHold :: bool

record group_row =
  grTenant :: string
  grName :: string
  grRevision :: int

record publication_row =
  puContentRevision :: int
  puGeneration :: string
  puSources :: string
  puAdmin :: bool
  puVerified :: bool
  puSourceRevision :: int
  puHash :: string

record status_row =
  stSourceRevision :: int
  stHash :: string
  stAttempt :: string
  stState :: string
  stJSON :: string

text \<open>A document is one inclusion of a datum in a dataset.\<close>

type_synonym doc_ref = "string \<times> string"

record access_db =
  tbUsers :: "(string, user_row) table"
  tbTenants :: "(string, string) table"
  tbMembers :: "(string \<times> string, unit) table"
  tbDatasets :: "(string, dataset_row) table"
  tbShares :: "(string \<times> string, share_row) table"
  tbData :: "(string, data_row) table"
  tbLinks :: "(doc_ref, unit) table"
  tbResources :: "(doc_ref, document_row) table"
  tbGrants :: "(doc_ref \<times> string \<times> string, string) table"
  tbGroups :: "(string, group_row) table"
  tbGroupMembers :: "(string \<times> string, string) table"
  tbScimGroups :: "(string, unit) table"
  tbPublications :: "(doc_ref \<times> string, publication_row) table"
  tbArtifacts :: "(string, string \<times> bool) table"
  tbStatuses :: "(doc_ref \<times> string, status_row) table"
  tbCounter :: "int option"
  tbEpochs :: "(string, int \<times> int) table"
  tbKeys :: "(string, string \<times> string \<times> bool) table"
  tbSessions :: "(string, string \<times> int \<times> bool) table"

section \<open>Statements that can fail\<close>

datatype access_error =
    ErrSql
  | ErrUnknownKind string
  | ErrInactiveIdentity
  | ErrRevokedCredential
  | ErrProvisioningNoDB
  | ErrUserNotFound
  | ErrDocumentNotFound
  | ErrDocumentForbidden
  | ErrDocumentInvalid
  | ErrDocumentVersionConflict
  | ErrDocumentSharedMetadata
  | ErrSourceCounter
  | ErrGroupNotFound
  | ErrGroupForbidden
  | ErrGroupInvalid
  | ErrGroupVersionConflict

datatype statement =
    SelActive string | SelSuper string | SelIdentity string | SelMember string string | SelTenantDataset string string
  | SelDatasetIDs | SelOwner string | SelShare string string | SelVisible string | SelEmail string | SelTenantOf string
  | SelTenantOwner string | SelResource doc_ref | SelDocOwner doc_ref | SelGrants doc_ref string | SelLocation string
  | SelGroup string | SelGroupMembers string | SelScimGroup string | SelCredential string | SelKey string string
  | SelSource doc_ref | SelLineage doc_ref | SelAliases string | SelLegacy string | SelLinkCount string | SelHeld
  | SelReread doc_ref | Begin | Commit | Lock string | Exec string string string

type_synonym faults = "statement \<Rightarrow> bool"

definition ask :: "faults \<Rightarrow> statement \<Rightarrow> 'a \<Rightarrow> access_error + 'a" where
  "ask flt q v = (if flt q then Inl ErrSql else Inr v)"

lemma ask_Inr [simp]: "ask flt q v = Inr x \<longleftrightarrow> \<not> flt q \<and> x = v"
  by (auto simp: ask_def)

lemma ask_Inl [simp]: "ask flt q v = Inl e \<longleftrightarrow> flt q \<and> e = ErrSql"
  by (auto simp: ask_def)

section \<open>Actions, roles and permissions\<close>

definition normalizeAction :: "(string \<Rightarrow> string) \<Rightarrow> string \<Rightarrow> string" where
  "normalizeAction uni action =
     (if ToLower uni action \<in> {''write'', ''delete'', ''share''} then ''write'' else ''read'')"

definition APIKeyAllows :: "(string \<Rightarrow> string) \<Rightarrow> string \<Rightarrow> string \<Rightarrow> bool" where
  "APIKeyAllows uni perms0 action =
     (if perms0 = '''' then True
      else (let perms = ToLower uni perms0 in
        if normalizeAction uni action = ''read''
        then strings_Contains perms ''read'' \<or> strings_Contains perms ''write'' \<or> strings_Contains perms ''admin''
        else strings_Contains perms ''write'' \<or> strings_Contains perms ''admin''))"

definition RoleAllows :: "(string \<Rightarrow> string) \<Rightarrow> string \<Rightarrow> string \<Rightarrow> bool" where
  "RoleAllows uni role action =
     (let r = ToLower uni role in
      if r = ''admin'' then True
      else if r = ''editor'' then normalizeAction uni action = ''read'' \<or> normalizeAction uni action = ''write''
      else if r = ''viewer'' then normalizeAction uni action = ''read''
      else False)"

definition ValidRole :: "(string \<Rightarrow> string) \<Rightarrow> string \<Rightarrow> bool" where
  "ValidRole uni role \<longleftrightarrow> ToLower uni role \<in> {''admin'', ''editor'', ''viewer''}"

definition PermissionTypes :: "string list" where
  "PermissionTypes = [''read'', ''write'', ''delete'', ''share'']"

definition ValidPermissionType :: "string \<Rightarrow> bool" where
  "ValidPermissionType pt \<longleftrightarrow> pt \<in> {''read'', ''write'', ''delete'', ''share''}"

section \<open>Directories of workspaces\<close>

text \<open>The width of the rune that \<open>range\<close> decodes at the head of a string; a byte that starts no valid encoding is a rune of its own.\<close>

definition continuation :: "nat \<Rightarrow> bool" where
  "continuation b \<longleftrightarrow> 128 \<le> b \<and> b \<le> 191"

definition rune_width :: "nat list \<Rightarrow> nat" where
  "rune_width bs =
     (case bs of
        b0 # b1 # rest \<Rightarrow>
          (if 194 \<le> b0 \<and> b0 \<le> 223 then (if continuation b1 then 2 else 1)
           else if 224 \<le> b0 \<and> b0 \<le> 239 then
             (case rest of
                b2 # _ \<Rightarrow> if (if b0 = 224 then 160 else 128) \<le> b1 \<and> b1 \<le> (if b0 = 237 then 159 else 191) \<and> continuation b2
                         then 3 else 1
              | [] \<Rightarrow> 1)
           else if 240 \<le> b0 \<and> b0 \<le> 244 then
             (case rest of
                b2 # b3 # _ \<Rightarrow> if (if b0 = 240 then 144 else 128) \<le> b1 \<and> b1 \<le> (if b0 = 244 then 143 else 191)
                                 \<and> continuation b2 \<and> continuation b3
                               then 4 else 1
              | _ \<Rightarrow> 1)
           else 1)
      | _ \<Rightarrow> 1)"

definition alnum_ascii :: "char \<Rightarrow> bool" where
  "alnum_ascii c \<longleftrightarrow>
     (let n = (of_char c :: nat) in (97 \<le> n \<and> n \<le> 122) \<or> (65 \<le> n \<and> n \<le> 90) \<or> (48 \<le> n \<and> n \<le> 57))"

function safe_runes :: "string \<Rightarrow> string" where
  "safe_runes [] = []"
| "safe_runes (c # s) = (if alnum_ascii c then c else CHR ''_'') # safe_runes (drop (rune_width (map of_char (c # s)) - 1) s)"
  by pat_completeness auto
termination by (relation "measure length") auto

definition trim_underscores :: "string \<Rightarrow> string" where
  "trim_underscores s = rev (dropWhile (\<lambda>c. c = CHR ''_'') (rev (dropWhile (\<lambda>c. c = CHR ''_'') s)))"

definition SafeID :: "string \<Rightarrow> string" where
  "SafeID s = (if s = '''' then ''default''
     else (let out = trim_underscores (safe_runes s) in if out = '''' then ''default'' else out))"

end
