(* ===== verification/Access_Policy.thy ===== *)
theory Access_Policy
  imports Access
begin

text \<open>
  The dataset and workspace decisions: policy.go, actor.go, tenant.go, and the directory checks of artifact.go. Every function takes the
  database of the policy (\<open>None\<close> for a nil handle) and answers with an error or a value. Go returns the half-filled decision
  beside the error; the model drops it.
\<close>

section \<open>Identities\<close>

record Actor =
  acUserID :: string
  acAPIKeyPermissions :: string
  acTenantID :: string
  acAuthMethod :: string
  acSuperuser :: bool

record Decision =
  dcAllowed :: bool
  dcRole :: string
  dcReason :: string
  dcDevMode :: bool
  dcAuthenticated :: bool
  dcAPIKeyAllowed :: bool

definition IsActive :: "faults \<Rightarrow> access_db option \<Rightarrow> string \<Rightarrow> access_error + bool" where
  "IsActive flt p u =
     (case p of None \<Rightarrow> Inr False
      | Some db \<Rightarrow> if u = '''' then Inr False
          else ask flt (SelActive u) (case map_of (tbUsers db) u of None \<Rightarrow> False | Some r \<Rightarrow> usActive r))"

definition IsSuperuser :: "faults \<Rightarrow> access_db option \<Rightarrow> string \<Rightarrow> access_error + bool" where
  "IsSuperuser flt p u =
     (case p of None \<Rightarrow> Inr False
      | Some db \<Rightarrow> if u = '''' then Inr False
          else ask flt (SelSuper u) (case map_of (tbUsers db) u of None \<Rightarrow> False | Some r \<Rightarrow> usSuper r))"

definition IsTenantMember :: "faults \<Rightarrow> access_db option \<Rightarrow> string \<Rightarrow> string \<Rightarrow> access_error + bool" where
  "IsTenantMember flt p u t =
     (case p of None \<Rightarrow> Inr False
      | Some db \<Rightarrow> if u = '''' \<or> t = '''' then Inr False
          else ask flt (SelMember u t) (map_of (tbMembers db) (u, t) \<noteq> None))"

definition DefaultTenantForUser :: "faults \<Rightarrow> access_db option \<Rightarrow> string \<Rightarrow> access_error + string" where
  "DefaultTenantForUser flt p u =
     (case p of None \<Rightarrow> Inr ''''
      | Some db \<Rightarrow> if u = '''' then Inr ''''
          else ask flt (SelTenantOf u)
                 (case filter (\<lambda>t. fst t = u) (map fst (tbMembers db)) of [] \<Rightarrow> '''' | t # _ \<Rightarrow> snd t))"

definition CanManageTenant :: "faults \<Rightarrow> access_db option \<Rightarrow> string \<Rightarrow> string \<Rightarrow> access_error + bool" where
  "CanManageTenant flt p u t =
     (case p of None \<Rightarrow> Inr False
      | Some db \<Rightarrow> if u = '''' \<or> t = '''' then Inr False
          else andThen (IsSuperuser flt p u) (\<lambda>superuser.
            if superuser then Inr True
            else ask flt (SelTenantOwner t) (map_of (tbTenants db) t = Some u)))"

definition ResolveUserID :: "faults \<Rightarrow> access_db option \<Rightarrow> string \<Rightarrow> string \<Rightarrow> access_error + string" where
  "ResolveUserID flt p explicitUserID email =
     (if explicitUserID \<noteq> '''' then Inr explicitUserID
      else (case p of None \<Rightarrow> Inr ''''
        | Some db \<Rightarrow> if email = '''' then Inr ''''
            else ask flt (SelEmail email)
                   (case filter (\<lambda>(_, r). usEmail r = email) (tbUsers db) of [] \<Rightarrow> '''' | (u, _) # _ \<Rightarrow> u)))"

section \<open>Datasets\<close>

text \<open>\<open>COALESCE(owner_id, '')\<close>; \<open>None\<close> when there is no such dataset.\<close>

definition owner_of :: "access_db \<Rightarrow> string \<Rightarrow> string option" where
  "owner_of db d = map_option (\<lambda>r. case dsOwner r of None \<Rightarrow> '''' | Some u \<Rightarrow> u) (map_of (tbDatasets db) d)"

definition share_of :: "access_db \<Rightarrow> string \<Rightarrow> string \<Rightarrow> string option" where
  "share_of db d u = map_option shRole (map_of (tbShares db) (d, u))"

definition undecided :: "(string \<Rightarrow> string) \<Rightarrow> string \<Rightarrow> string \<Rightarrow> string \<Rightarrow> Decision" where
  "undecided uni user perms action =
     \<lparr>dcAllowed = False, dcRole = '''', dcReason = '''', dcDevMode = False, dcAuthenticated = user \<noteq> '''',
      dcAPIKeyAllowed = APIKeyAllows uni perms action\<rparr>"

definition deny :: "string \<Rightarrow> Decision \<Rightarrow> Decision" where
  "deny why d = d\<lparr>dcReason := why\<rparr>"

definition grant :: "string \<Rightarrow> string \<Rightarrow> Decision \<Rightarrow> Decision" where
  "grant role why d = d\<lparr>dcAllowed := True, dcRole := role, dcReason := why\<rparr>"

text \<open>The last part of both decisions: the share of the user on the dataset.\<close>

definition share_decision ::
  "(string \<Rightarrow> string) \<Rightarrow> faults \<Rightarrow> access_db \<Rightarrow> string \<Rightarrow> string \<Rightarrow> string \<Rightarrow> Decision \<Rightarrow> access_error + Decision" where
  "share_decision uni flt db ds u action d0 =
     andThen (ask flt (SelShare ds u) (share_of db ds u)) (\<lambda>share.
       case share of
         None \<Rightarrow> Inr (deny ''denied'' d0)
       | Some role \<Rightarrow>
           let r = ToLower uni role; ok = RoleAllows uni role action in
           Inr (d0\<lparr>dcAllowed := ok, dcRole := r, dcReason := (if ok then ''shared_'' @ r else ''role_insufficient'')\<rparr>))"

definition AuthorizeDataset ::
  "(string \<Rightarrow> string) \<Rightarrow> faults \<Rightarrow> access_db option \<Rightarrow> Actor \<Rightarrow> string \<Rightarrow> string \<Rightarrow> access_error + Decision" where
  "AuthorizeDataset uni flt p actor datasetID action0 =
     (let action = normalizeAction uni action0; u = acUserID actor;
          d = undecided uni u (acAPIKeyPermissions actor) action in
      if datasetID = '''' then Inr (deny ''denied'' d)
      else if \<not> dcAPIKeyAllowed d then Inr (deny ''api_key_permissions_denied'' d)
      else (case p of
        None \<Rightarrow> Inr ((grant ''admin'' ''dev_mode'' d)\<lparr>dcDevMode := True\<rparr>)
      | Some db \<Rightarrow>
        if u = '''' then Inr ((grant ''admin'' ''dev_mode'' d)\<lparr>dcDevMode := True\<rparr>)
        else andThen (IsActive flt p u) (\<lambda>active.
          if \<not> active then Inr (deny ''user_inactive'' d)
          else andThen (IsSuperuser flt p u) (\<lambda>superuser.
            if superuser then Inr (grant ''admin'' ''superuser'' d)
            else andThen (ask flt (SelOwner datasetID) (owner_of db datasetID)) (\<lambda>row.
              case row of
                None \<Rightarrow> Inr (deny ''denied'' d)
              | Some owner \<Rightarrow>
                  if owner = u then Inr (grant ''admin'' ''owner'' d)
                  else if owner = '''' then
                    Inr (d\<lparr>dcRole := ''viewer'', dcAllowed := (action = ''read''),
                           dcReason := (if action = ''read'' then ''public'' else ''public_read_only'')\<rparr>)
                  else share_decision uni flt db datasetID u action d)))))"

section \<open>Workspaces\<close>

text \<open>\<open>SELECT id FROM datasets LIMIT 10001\<close>: the first rows of the table in whatever order it is scanned.\<close>

definition WorkspaceProjectUnambiguous :: "faults \<Rightarrow> access_db option \<Rightarrow> string \<Rightarrow> access_error + bool" where
  "WorkspaceProjectUnambiguous flt p projectID =
     (case p of None \<Rightarrow> Inl ErrDocumentInvalid
      | Some db \<Rightarrow> if projectID = '''' then Inl ErrDocumentInvalid
          else andThen (ask flt SelDatasetIDs (take 10001 (map fst (tbDatasets db)))) (\<lambda>ids.
            Inr (length ids \<le> 10000 \<and>
                 \<not> list_ex (\<lambda>i. i \<noteq> projectID \<and> SafeID i = SafeID projectID) ids)))"

definition ResolveWorkspaceDirectory :: "faults \<Rightarrow> access_db option \<Rightarrow> string \<Rightarrow> access_error + string" where
  "ResolveWorkspaceDirectory flt p directory =
     (case p of None \<Rightarrow> Inl ErrDocumentInvalid
      | Some db \<Rightarrow> andThen (ask flt SelDatasetIDs (take 10001 (map fst (tbDatasets db)))) (\<lambda>ids.
          case filter (\<lambda>i. SafeID i = directory) ids of
            [project] \<Rightarrow> Inr (if length ids > 10000 then '''' else project)
          | _ \<Rightarrow> Inr ''''))"

definition AuthorizeWorkspace ::
  "(string \<Rightarrow> string) \<Rightarrow> faults \<Rightarrow> access_db option \<Rightarrow> Actor \<Rightarrow> string \<Rightarrow> string \<Rightarrow> access_error + Decision" where
  "AuthorizeWorkspace uni flt p req projectID action0 =
     (let action = normalizeAction uni action0; u = acUserID req; t = acTenantID req;
          d = undecided uni u (acAPIKeyPermissions req) action in
      if projectID = '''' then Inr (d\<lparr>dcAllowed := True, dcReason := ''project_id_not_required''\<rparr>)
      else if \<not> dcAPIKeyAllowed d then Inr (deny ''api_key_permissions_denied'' d)
      else (case p of
        None \<Rightarrow> Inr ((grant ''admin'' ''dev_mode'' d)\<lparr>dcDevMode := True\<rparr>)
      | Some db \<Rightarrow>
        if u = '''' then Inr ((grant ''admin'' ''dev_mode'' d)\<lparr>dcDevMode := True\<rparr>)
        else andThen (IsActive flt p u) (\<lambda>active.
          if \<not> active then Inr (deny ''user_inactive'' d)
          else andThen (WorkspaceProjectUnambiguous flt p projectID) (\<lambda>unambiguous.
            if \<not> unambiguous then Inr (deny ''workspace_project_directory_ambiguous'' d)
            else andThen
              (if t = '''' then Inr True
               else andThen (IsTenantMember flt p u t) (\<lambda>member.
                 if \<not> member then Inr False
                 else ask flt (SelTenantDataset projectID t)
                   (case map_of (tbDatasets db) projectID of
                      None \<Rightarrow> False
                    | Some r \<Rightarrow> (case dsOwner r of None \<Rightarrow> False | Some x \<Rightarrow> map_of (tbMembers db) (x, t) \<noteq> None))))
              (\<lambda>in_scope.
                if \<not> in_scope then Inr (deny ''tenant_scope_denied'' d)
                else andThen (IsSuperuser flt p u) (\<lambda>superuser.
                  if superuser then Inr (grant ''admin'' ''superuser'' d)
                  else andThen (ask flt (SelOwner projectID) (owner_of db projectID)) (\<lambda>row.
                    case row of
                      None \<Rightarrow> Inr (deny ''denied'' d)
                    | Some owner \<Rightarrow>
                        if owner = '''' \<or> owner = u then Inr (grant ''admin'' ''owner'' d)
                        else share_decision uni flt db projectID u action d)))))))"

datatype resource_kind = ResourceWorkspace | ResourceDataset | ResourceOther string

definition Authorize ::
  "(string \<Rightarrow> string) \<Rightarrow> faults \<Rightarrow> access_db option \<Rightarrow> Actor \<Rightarrow> resource_kind \<Rightarrow> string \<Rightarrow> string \<Rightarrow> access_error + Decision" where
  "Authorize uni flt p actor kind resID action =
     (case kind of
        ResourceWorkspace \<Rightarrow> AuthorizeWorkspace uni flt p actor resID action
      | ResourceDataset \<Rightarrow> AuthorizeDataset uni flt p actor resID action
      | ResourceOther k \<Rightarrow> Inl (ErrUnknownKind k))"

definition AuthorizeWorkspaceDirectory ::
  "(string \<Rightarrow> string) \<Rightarrow> faults \<Rightarrow> access_db option \<Rightarrow> Actor \<Rightarrow> string \<Rightarrow> access_error + bool" where
  "AuthorizeWorkspaceDirectory uni flt p actor directory =
     andThen (ResolveWorkspaceDirectory flt p directory) (\<lambda>project.
       if project = '''' then Inr False
       else andThen (AuthorizeDataset uni flt p actor project ''read'') (\<lambda>d. Inr (dcAllowed d)))"

section \<open>Lists of datasets\<close>

text \<open>
  The join of datasets and shares. \<open>orderBy\<close> is \<open>ORDER BY id\<close>, whose collation is the database's.
\<close>

definition visible_rows :: "access_db \<Rightarrow> string \<Rightarrow> string list" where
  "visible_rows db u =
     remdups (map fst (filter (\<lambda>(d, r). dsOwner r = Some u \<or> dsOwner r = Some '''' \<or> dsOwner r = None
                                        \<or> map_of (tbShares db) (d, u) \<noteq> None) (tbDatasets db)))"

text \<open>\<open>None\<close> is Go's nil slice: no filter at all.\<close>

definition AllowedDatasetIDs :: "faults \<Rightarrow> access_db option \<Rightarrow> string \<Rightarrow> string list option" where
  "AllowedDatasetIDs flt p u =
     (case p of None \<Rightarrow> None
      | Some db \<Rightarrow>
        if u = '''' then None
        else if IsActive flt p u \<noteq> Inr True then Some []
        else if IsSuperuser flt p u = Inr True then None
        else if flt (SelVisible u) then Some []
        else Some (visible_rows db u))"

definition VisibleDatasetIDs ::
  "(string list \<Rightarrow> string list) \<Rightarrow> faults \<Rightarrow> access_db option \<Rightarrow> string \<Rightarrow> access_error + string list" where
  "VisibleDatasetIDs orderBy flt p u =
     (case p of None \<Rightarrow> Inr []
      | Some db \<Rightarrow>
        andThen (if u = '''' then Inr True
                 else andThen (IsActive flt p u) (\<lambda>active.
                   if \<not> active then Inl ErrInactiveIdentity else IsSuperuser flt p u))
          (\<lambda>showAll.
             if showAll then ask flt SelDatasetIDs (orderBy (map fst (tbDatasets db)))
             else ask flt (SelVisible u) (orderBy (visible_rows db u))))"

section \<open>Single checks\<close>

text \<open>
  These three throw away the error of \<open>QueryRow(..).Scan(..)\<close> and go on with the zero value. \<open>Scan\<close> of a NULL into a string is such an
  error.
\<close>

definition scanned_owner :: "faults \<Rightarrow> access_db \<Rightarrow> string \<Rightarrow> string" where
  "scanned_owner flt db d =
     (if flt (SelOwner d) then ''''
      else (case map_of (tbDatasets db) d of None \<Rightarrow> '''' | Some r \<Rightarrow> (case dsOwner r of None \<Rightarrow> '''' | Some u \<Rightarrow> u)))"

definition CanAccessDataset :: "faults \<Rightarrow> access_db option \<Rightarrow> string \<Rightarrow> string \<Rightarrow> bool" where
  "CanAccessDataset flt p d u =
     (case p of None \<Rightarrow> True
      | Some db \<Rightarrow>
        if u = '''' then True
        else if IsActive flt p u \<noteq> Inr True then False
        else (let owner = scanned_owner flt db d in
          if owner = '''' \<or> owner = u then True
          else (if flt (SelShare d u) then ''''
                else (case map_of (tbShares db) (d, u) of None \<Rightarrow> '''' | Some s \<Rightarrow> shID s)) \<noteq> ''''))"

definition CanUseDatasetForUpload :: "faults \<Rightarrow> access_db option \<Rightarrow> string \<Rightarrow> string \<Rightarrow> access_error + bool" where
  "CanUseDatasetForUpload flt p d u =
     (case p of None \<Rightarrow> Inr True
      | Some db \<Rightarrow>
        if d = '''' \<or> u = '''' then Inr True
        else andThen (IsActive flt p u) (\<lambda>active.
          if \<not> active then Inr False
          else andThen (ask flt (SelOwner d) (owner_of db d)) (\<lambda>row.
            case row of
              None \<Rightarrow> Inr True
            | Some owner \<Rightarrow>
                if owner = u then Inr True
                else if owner = '''' then Inr False
                else andThen (ask flt (SelShare d u) (share_of db d u)) (\<lambda>share.
                  Inr (share = Some ''editor'' \<or> share = Some ''admin'')))))"

definition CanManageDatasetShares :: "faults \<Rightarrow> access_db option \<Rightarrow> string \<Rightarrow> string \<Rightarrow> bool" where
  "CanManageDatasetShares flt p d u =
     (case p of None \<Rightarrow> False
      | Some db \<Rightarrow>
        if IsActive flt p u \<noteq> Inr True then False
        else if scanned_owner flt db d = u then True
        else \<not> flt (SelShare d u) \<and> share_of db d u = Some ''admin'')"

definition CanGrantDatasetShare :: "faults \<Rightarrow> access_db option \<Rightarrow> string \<Rightarrow> string \<Rightarrow> bool" where
  "CanGrantDatasetShare flt p d u = CanManageDatasetShares flt p d u"

definition CanRevokeDatasetShare :: "faults \<Rightarrow> access_db option \<Rightarrow> string \<Rightarrow> string \<Rightarrow> bool" where
  "CanRevokeDatasetShare flt p d u = CanManageDatasetShares flt p d u"

end
