(* ===== verification/Access_Document.thy ===== *)
theory Access_Document
  imports Access_Policy
begin

text \<open>
  The document decision of document_policy.go and the checks built on it (artifact.go, the alias check of document_metadata.go). A document
  that is registered is decided by its own row, its grants and, in mode \<open>inherit\<close>, by the shares of its dataset; one that is not is decided
  as its dataset.
\<close>

section \<open>Lookups\<close>

definition documentResource :: "faults \<Rightarrow> access_db \<Rightarrow> doc_ref \<Rightarrow> access_error + document_row" where
  "documentResource flt db ref =
     andThen (ask flt (SelResource ref) (map_of (tbResources db) ref)) (\<lambda>row.
       case row of None \<Rightarrow> Inl ErrDocumentNotFound | Some r \<Rightarrow> Inr r)"

definition GetDocumentResource :: "faults \<Rightarrow> access_db option \<Rightarrow> doc_ref \<Rightarrow> access_error + document_row" where
  "GetDocumentResource flt p ref = (case p of None \<Rightarrow> Inl ErrDocumentNotFound | Some db \<Rightarrow> documentResource flt db ref)"

text \<open>Whether the user is active and whether he is a superuser.\<close>

definition documentIdentity :: "faults \<Rightarrow> access_db \<Rightarrow> string \<Rightarrow> access_error + bool \<times> bool" where
  "documentIdentity flt db u =
     (if u = '''' then Inr (False, False)
      else ask flt (SelIdentity u)
             (case map_of (tbUsers db) u of None \<Rightarrow> (False, False) | Some r \<Rightarrow> (usActive r, usSuper r)))"

definition documentMember :: "faults \<Rightarrow> access_db \<Rightarrow> string \<Rightarrow> string \<Rightarrow> access_error + bool" where
  "documentMember flt db u t = ask flt (SelMember u t) (map_of (tbMembers db) (u, t) \<noteq> None)"

definition documentOwner :: "faults \<Rightarrow> access_db \<Rightarrow> doc_ref \<Rightarrow> access_error + string" where
  "documentOwner flt db ref =
     andThen (ask flt (SelDocOwner ref)
               (if map_of (tbLinks db) ref = None then None else owner_of db (fst ref))) (\<lambda>row.
       case row of None \<Rightarrow> Inl ErrDocumentNotFound | Some u \<Rightarrow> Inr u)"

section \<open>Roles on a document\<close>

definition documentRoleAllows :: "string \<Rightarrow> string \<Rightarrow> bool" where
  "documentRoleAllows role action =
     (if action = ''read'' then role = ''viewer'' \<or> role = ''editor'' \<or> role = ''admin''
      else if action = ''write'' then role = ''editor'' \<or> role = ''admin''
      else if action = ''share'' \<or> action = ''delete'' then role = ''admin''
      else False)"

definition role_rank :: "string \<Rightarrow> nat" where
  "role_rank r = (if r = ''viewer'' then 1 else if r = ''editor'' then 2 else if r = ''admin'' then 3 else 0)"

definition documentMaxRole :: "(string \<Rightarrow> string) \<Rightarrow> string \<Rightarrow> string \<Rightarrow> string" where
  "documentMaxRole uni a b0 = (let b = ToLower uni b0 in if role_rank a < role_rank b then b else a)"

text \<open>The roles granted on a document to a user or to a group of the tenant he is a member of.\<close>

definition grants_of :: "access_db \<Rightarrow> doc_ref \<Rightarrow> string \<Rightarrow> string \<Rightarrow> string list" where
  "grants_of db ref u tenant =
     map snd (filter (\<lambda>((dr, kind, i), role). dr = ref \<and>
       ((kind = ''user'' \<and> i = u) \<or>
        (kind = ''group'' \<and> (case map_of (tbGroups db) i of None \<Rightarrow> False | Some g \<Rightarrow>
            grTenant g = tenant \<and> map_of (tbGroupMembers db) (i, u) = Some tenant)))) (tbGrants db))"

definition inherited_role ::
  "(string \<Rightarrow> string) \<Rightarrow> faults \<Rightarrow> access_db \<Rightarrow> document_row \<Rightarrow> doc_ref \<Rightarrow> string \<Rightarrow> string \<Rightarrow> access_error + string" where
  "inherited_role uni flt db r ref owner u =
     (if drMode r = ''inherit'' then
        andThen (ask flt (SelShare (fst ref) u) (share_of db (fst ref) u)) (\<lambda>share.
          Inr (documentMaxRole uni (if owner = '''' then ''viewer'' else '''')
                 (case share of None \<Rightarrow> '''' | Some role \<Rightarrow> role)))
      else Inr '''')"

section \<open>The decision\<close>

definition authorizeRegisteredDocument ::
  "(string \<Rightarrow> string) \<Rightarrow> faults \<Rightarrow> access_db \<Rightarrow> Actor \<Rightarrow> doc_ref \<Rightarrow> document_row \<Rightarrow> string \<Rightarrow> access_error + Decision" where
  "authorizeRegisteredDocument uni flt db actor ref r action =
     (let u = acUserID actor; d = undecided uni u (acAPIKeyPermissions actor) action in
      if \<not> dcAPIKeyAllowed d then Inr (deny ''api_key_permissions_denied'' d)
      else andThen (documentIdentity flt db u) (\<lambda>(active, admin).
        if \<not> active then Inr (deny ''user_inactive_or_missing'' d)
        else if drTombstoned r then Inr (deny ''document_tombstoned'' d)
        else (case documentOwner flt db ref of
            Inl e \<Rightarrow> if e = ErrDocumentNotFound then Inr (deny ''document_not_found'' d) else Inl e
          | Inr owner \<Rightarrow>
              if drHold r \<and> (action = ''write'' \<or> action = ''delete'') then Inr (deny ''document_hold'' d)
              else if admin then Inr (grant ''admin'' ''superuser'' d)
              else if acTenantID actor \<noteq> drTenant r then Inr (deny ''tenant_mismatch'' d)
              else andThen (documentMember flt db u (drTenant r)) (\<lambda>member.
                if \<not> member then Inr (deny ''tenant_membership_required'' d)
                else if owner = u then Inr (grant ''admin'' ''owner'' d)
                else andThen (inherited_role uni flt db r ref owner u) (\<lambda>role0.
                  andThen (ask flt (SelGrants ref u) (grants_of db ref u (drTenant r))) (\<lambda>granted.
                    let role = foldl (documentMaxRole uni) role0 granted; ok = documentRoleAllows role action in
                    Inr (d\<lparr>dcRole := role, dcAllowed := ok,
                           dcReason := (if ok then ''document_'' @ role else ''document_denied'')\<rparr>)))))))"

definition AuthorizeDocument ::
  "(string \<Rightarrow> string) \<Rightarrow> faults \<Rightarrow> access_db option \<Rightarrow> Actor \<Rightarrow> doc_ref \<Rightarrow> string \<Rightarrow> access_error + Decision" where
  "AuthorizeDocument uni flt p actor ref action =
     (if fst ref = '''' \<or> snd ref = '''' \<or> \<not> ValidPermissionType action then Inl ErrDocumentInvalid
      else (case p of
        None \<Rightarrow> AuthorizeDataset uni flt p actor (fst ref) action
      | Some db \<Rightarrow>
        (case documentResource flt db ref of
           Inr r \<Rightarrow> authorizeRegisteredDocument uni flt db actor ref r action
         | Inl e \<Rightarrow>
             if e \<noteq> ErrDocumentNotFound then Inl e
             else (case documentOwner flt db ref of
                 Inl e' \<Rightarrow> if e' = ErrDocumentNotFound
                          then Inr \<lparr>dcAllowed = False, dcRole = '''', dcReason = ''document_not_found'', dcDevMode = False,
                                    dcAuthenticated = False, dcAPIKeyAllowed = False\<rparr>
                          else Inl e'
               | Inr _ \<Rightarrow> AuthorizeDataset uni flt p actor (fst ref) action))))"

section \<open>Checks over all the inclusions of a datum\<close>

text \<open>The first inclusion that may be read opens the location.\<close>

fun any_readable ::
  "(string \<Rightarrow> string) \<Rightarrow> faults \<Rightarrow> access_db \<Rightarrow> Actor \<Rightarrow> doc_ref list \<Rightarrow> access_error + bool" where
  "any_readable uni flt db actor [] = Inr False"
| "any_readable uni flt db actor (ref # refs) =
     andThen (AuthorizeDocument uni flt (Some db) actor ref ''read'') (\<lambda>d.
       if dcAllowed d then Inr True else any_readable uni flt db actor refs)"

definition refs_at :: "access_db \<Rightarrow> string \<Rightarrow> doc_ref list" where
  "refs_at db location =
     filter (\<lambda>ref. case map_of (tbData db) (snd ref) of None \<Rightarrow> False
                   | Some r \<Rightarrow> daRaw r = location \<or> daOriginal r = location) (map fst (tbLinks db))"

definition AuthorizeArtifactLocation ::
  "(string \<Rightarrow> string) \<Rightarrow> faults \<Rightarrow> access_db \<Rightarrow> Actor \<Rightarrow> string \<Rightarrow> access_error + bool" where
  "AuthorizeArtifactLocation uni flt db actor location =
     andThen (ask flt (SelLocation location) (take 257 (refs_at db location))) (\<lambda>refs.
       if length refs > 256 then Inl ErrDocumentInvalid else any_readable uni flt db actor refs)"

text \<open>Every inclusion, registered or not, must be writable before the metadata they share changes.\<close>

fun all_registered_writable ::
  "(string \<Rightarrow> string) \<Rightarrow> faults \<Rightarrow> access_db \<Rightarrow> Actor \<Rightarrow> (doc_ref \<times> document_row) list \<Rightarrow> access_error + unit" where
  "all_registered_writable uni flt db actor [] = Inr ()"
| "all_registered_writable uni flt db actor ((ref, r) # rs) =
     (if drACLRevision r \<le> 0 \<or> drContentRevision r \<le> 0 then Inl ErrDocumentVersionConflict
      else andThen (authorizeRegisteredDocument uni flt db actor ref r ''write'') (\<lambda>d.
        if \<not> dcAllowed d then Inl ErrDocumentForbidden else all_registered_writable uni flt db actor rs))"

fun all_legacy_writable ::
  "(string \<Rightarrow> string) \<Rightarrow> faults \<Rightarrow> access_db \<Rightarrow> Actor \<Rightarrow> doc_ref list \<Rightarrow> access_error + unit" where
  "all_legacy_writable uni flt db actor [] = Inr ()"
| "all_legacy_writable uni flt db actor (ref # refs) =
     andThen (AuthorizeDocument uni flt (Some db) actor ref ''write'') (\<lambda>d.
       if \<not> dcAllowed d then Inl ErrDocumentForbidden else all_legacy_writable uni flt db actor refs)"

text \<open>The answer is whether a registered inclusion exists.\<close>

definition AuthorizeMetadataAliases ::
  "(string \<Rightarrow> string) \<Rightarrow> faults \<Rightarrow> access_db \<Rightarrow> Actor \<Rightarrow> string \<Rightarrow> access_error + bool" where
  "AuthorizeMetadataAliases uni flt db actor dataID =
     (if dataID = '''' then Inl ErrDocumentInvalid
      else andThen (ask flt (SelAliases dataID) (filter (\<lambda>(ref, _). snd ref = dataID) (tbResources db))) (\<lambda>aliases.
        andThen (all_registered_writable uni flt db actor aliases) (\<lambda>_.
          andThen (ask flt (SelLegacy dataID)
                    (filter (\<lambda>ref. snd ref = dataID \<and> map_of (tbResources db) ref = None) (map fst (tbLinks db)))) (\<lambda>legacy.
            andThen (all_legacy_writable uni flt db actor legacy) (\<lambda>_. Inr (aliases \<noteq> []))))))"

end
