(* ===== verification/Access_Facts.thy ===== *)
theory Access_Facts
  imports Access_Document
begin

text \<open>
  What the decisions come to: a user has one standing on a dataset (\<open>standing\<close>) and one rank on a registered document (\<open>document_rank\<close>),
  the decisions are the comparison of these with the action, and every check of the package refuses a user who is missing or inactive.
\<close>

section \<open>Identities\<close>

definition active_user :: "access_db \<Rightarrow> string \<Rightarrow> bool" where
  "active_user db u \<longleftrightarrow> (\<exists>r. map_of (tbUsers db) u = Some r \<and> usActive r)"

definition super_user :: "access_db \<Rightarrow> string \<Rightarrow> bool" where
  "super_user db u \<longleftrightarrow> (\<exists>r. map_of (tbUsers db) u = Some r \<and> usSuper r)"

lemma IsActive_ask: "u \<noteq> '''' \<Longrightarrow> IsActive flt (Some db) u = ask flt (SelActive u) (active_user db u)"
  by (auto simp: IsActive_def active_user_def split: option.splits)

lemma IsSuperuser_ask: "u \<noteq> '''' \<Longrightarrow> IsSuperuser flt (Some db) u = ask flt (SelSuper u) (super_user db u)"
  by (auto simp: IsSuperuser_def super_user_def split: option.splits)

lemma IsActive_anonymous [simp]: "IsActive flt (Some db) '''' = Inr False"
  by (simp add: IsActive_def)

lemma documentIdentity_ask:
  "u \<noteq> '''' \<Longrightarrow> documentIdentity flt db u = ask flt (SelIdentity u) (active_user db u, super_user db u)"
  by (auto simp: documentIdentity_def active_user_def super_user_def split: option.splits)

section \<open>Actions\<close>

lemma ToLower_actions [simp]:
  "ToLower uni ''read'' = ''read''" "ToLower uni ''write'' = ''write''" "ToLower uni ''delete'' = ''delete''"
  "ToLower uni ''share'' = ''share''" "ToLower uni ''viewer'' = ''viewer''" "ToLower uni ''editor'' = ''editor''"
  "ToLower uni ''admin'' = ''admin''" "ToLower uni '''' = ''''"
  by (simp_all add: ToLower_def lower_ascii_def)

lemma normalizeAction_cases: "normalizeAction uni a = ''read'' \<or> normalizeAction uni a = ''write''"
  by (simp add: normalizeAction_def)

lemma normalizeAction_idem [simp]: "normalizeAction uni (normalizeAction uni a) = normalizeAction uni a"
  by (simp add: normalizeAction_def)

lemma APIKeyAllows_normalized [simp]: "APIKeyAllows uni perms (normalizeAction uni a) = APIKeyAllows uni perms a"
  by (simp add: APIKeyAllows_def)

lemma RoleAllows_normalized [simp]: "RoleAllows uni role (normalizeAction uni a) = RoleAllows uni role a"
  by (simp add: RoleAllows_def)

lemma RoleAllows_viewer: "RoleAllows uni ''viewer'' a \<longleftrightarrow> normalizeAction uni a = ''read''"
  by (simp add: RoleAllows_def)

lemma RoleAllows_viewer_read [simp]: "RoleAllows uni ''viewer'' ''read''"
  by (simp add: RoleAllows_def normalizeAction_def)

lemma RoleAllows_admin [simp]: "RoleAllows uni ''admin'' a"
  by (simp add: RoleAllows_def)

lemma ValidRole_constants [simp]: "ValidRole uni ''viewer''" "ValidRole uni ''editor''" "ValidRole uni ''admin''"
  by (simp_all add: ValidRole_def)

lemma RoleAllows_read: "RoleAllows uni role ''read'' \<longleftrightarrow> ValidRole uni role"
  by (auto simp: RoleAllows_def ValidRole_def normalizeAction_def Let_def)

text \<open>A key that may write may read, and so may a role.\<close>

lemma APIKeyAllows_read: "APIKeyAllows uni perms a \<Longrightarrow> APIKeyAllows uni perms ''read''"
  by (auto simp: APIKeyAllows_def normalizeAction_def Let_def split: if_splits)

lemma RoleAllows_implies_read: "RoleAllows uni role a \<Longrightarrow> RoleAllows uni role ''read''"
  by (auto simp: RoleAllows_def normalizeAction_def Let_def split: if_splits)

section \<open>Datasets\<close>

text \<open>The role a user has on a dataset.\<close>

definition standing :: "access_db \<Rightarrow> string \<Rightarrow> string \<Rightarrow> string option" where
  "standing db u d =
     (if \<not> active_user db u then None
      else if super_user db u then Some ''admin''
      else (case owner_of db d of
              None \<Rightarrow> None
            | Some owner \<Rightarrow> if owner = u then Some ''admin'' else if owner = '''' then Some ''viewer'' else share_of db d u))"

definition may_use :: "(string \<Rightarrow> string) \<Rightarrow> access_db \<Rightarrow> Actor \<Rightarrow> string \<Rightarrow> string \<Rightarrow> bool" where
  "may_use uni db actor d action \<longleftrightarrow>
     d \<noteq> '''' \<and> APIKeyAllows uni (acAPIKeyPermissions actor) action \<and>
     (\<exists>role. standing db (acUserID actor) d = Some role \<and> RoleAllows uni role action)"

lemma decision_simps [simp]:
  "dcAllowed (undecided uni u perms a) = False"
  "dcAPIKeyAllowed (undecided uni u perms a) = APIKeyAllows uni perms a"
  "dcAllowed (deny why d) = dcAllowed d" "dcAllowed (grant role why d) = True"
  "dcRole (grant role why d) = role" "dcReason (deny why d) = why" "dcReason (grant role why d) = why"
  by (simp_all add: undecided_def deny_def grant_def)

lemma share_decision_allows:
  assumes "share_decision uni flt db d u action d0 = Inr dec" and "\<not> dcAllowed d0"
  shows "dcAllowed dec \<longleftrightarrow> (\<exists>role. share_of db d u = Some role \<and> RoleAllows uni role action)"
  using assms by (auto simp: share_decision_def andThen_Inr Let_def split: option.splits)

lemma dataset_decision_sound:
  assumes u: "acUserID actor \<noteq> ''''" and dec: "AuthorizeDataset uni flt (Some db) actor d action = Inr dec"
  shows "dcAllowed dec \<longleftrightarrow> may_use uni db actor d action"
proof -
  define b where "b = normalizeAction uni action"
  have role: "RoleAllows uni role action \<longleftrightarrow> RoleAllows uni role b"
    and key: "APIKeyAllows uni perms action \<longleftrightarrow> APIKeyAllows uni perms b"
    and viewer: "RoleAllows uni ''viewer'' b \<longleftrightarrow> b = ''read''" for role perms
    by (simp_all add: b_def RoleAllows_viewer)
  from dec u show ?thesis
    unfolding may_use_def role key AuthorizeDataset_def Let_def b_def [symmetric]
    by (auto simp: standing_def andThen_Inr IsActive_ask IsSuperuser_ask viewer
        dest!: share_decision_allows split: if_splits option.splits)
qed

lemma dataset_decision_total:
  assumes "\<And>q. \<not> flt q"
  shows "\<exists>dec. AuthorizeDataset uni flt p actor d action = Inr dec"
  using assms
  by (auto simp: AuthorizeDataset_def Let_def ask_def IsActive_def IsSuperuser_def share_decision_def
      split: option.splits)

lemma dataset_decision_errors:
  "AuthorizeDataset uni flt p actor d action = Inl e \<Longrightarrow> e = ErrSql"
  by (auto simp: AuthorizeDataset_def Let_def andThen_Inl IsActive_def IsSuperuser_def share_decision_def
      split: option.splits if_splits)

section \<open>Lists of datasets\<close>

lemma visible_rows_mem:
  assumes "keyed (tbDatasets db)"
  shows "d \<in> set (visible_rows db u) \<longleftrightarrow>
           (\<exists>owner. owner_of db d = Some owner \<and> (owner = u \<or> owner = '''' \<or> share_of db d u \<noteq> None))"
proof -
  have "d \<in> set (visible_rows db u) \<longleftrightarrow>
          (\<exists>r. (d, r) \<in> set (tbDatasets db) \<and> (dsOwner r = Some u \<or> dsOwner r = Some '''' \<or> dsOwner r = None
                                                 \<or> map_of (tbShares db) (d, u) \<noteq> None))"
    by (auto simp: visible_rows_def image_iff Bex_def)
  then show ?thesis
    unfolding keyed_lookup [OF assms]
    by (cases "map_of (tbDatasets db) d") (auto simp: owner_of_def share_of_def split: option.split)
qed

lemma visible_rows_standing:
  assumes "keyed (tbDatasets db)" and "active_user db u" and "\<not> super_user db u"
  shows "d \<in> set (visible_rows db u) \<longleftrightarrow> standing db u d \<noteq> None"
  unfolding visible_rows_mem [OF assms(1)] using assms(2,3)
  by (auto simp: standing_def share_of_def split: option.splits)

section \<open>Inactive users\<close>

lemma dataset_inactive:
  assumes "acUserID actor \<noteq> ''''" and "\<not> active_user db (acUserID actor)"
    and "AuthorizeDataset uni flt (Some db) actor d action = Inr dec"
  shows "\<not> dcAllowed dec"
  using dataset_decision_sound [OF assms(1,3)] assms(2) by (simp add: may_use_def standing_def)

lemma workspace_inactive:
  assumes "acUserID actor \<noteq> ''''" and "\<not> active_user db (acUserID actor)"
    and "AuthorizeWorkspace uni flt (Some db) actor project action = Inr dec"
  shows "dcAllowed dec \<longleftrightarrow> project = ''''"
  using assms by (auto simp: AuthorizeWorkspace_def Let_def andThen_Inr IsActive_ask split: if_splits)

lemma registered_inactive:
  assumes "\<not> active_user db (acUserID actor)"
    and "authorizeRegisteredDocument uni flt db actor ref r action = Inr dec"
  shows "\<not> dcAllowed dec"
proof (cases "acUserID actor = ''''")
  case True
  with assms show ?thesis
    by (auto simp: authorizeRegisteredDocument_def Let_def documentIdentity_def split: if_splits)
next
  case False
  with assms show ?thesis
    by (auto simp: authorizeRegisteredDocument_def Let_def andThen_Inr documentIdentity_ask split: if_splits)
qed

lemma document_inactive:
  assumes "acUserID actor \<noteq> ''''" and "\<not> active_user db (acUserID actor)"
    and "AuthorizeDocument uni flt (Some db) actor ref action = Inr dec"
  shows "\<not> dcAllowed dec"
  using assms
  by (auto simp: AuthorizeDocument_def split: if_splits sum.splits dest: registered_inactive dataset_inactive)

lemma lists_inactive:
  assumes "u \<noteq> ''''" and "\<not> active_user db u"
  shows "AllowedDatasetIDs flt (Some db) u = Some []"
    and "VisibleDatasetIDs orderBy flt (Some db) u \<noteq> Inr ids"
    and "\<not> CanAccessDataset flt (Some db) d u"
    and "CanUseDatasetForUpload flt (Some db) d u = Inr True \<longleftrightarrow> d = ''''"
    and "\<not> CanManageDatasetShares flt (Some db) d u"
  using assms
  by (auto simp: AllowedDatasetIDs_def VisibleDatasetIDs_def CanAccessDataset_def CanUseDatasetForUpload_def
      CanManageDatasetShares_def IsActive_ask ask_def andThen_def split: if_splits)

section \<open>Documents\<close>

definition needed_rank :: "string \<Rightarrow> nat" where
  "needed_rank action = (if action = ''read'' then 1 else if action = ''write'' then 2 else 3)"

lemma documentRoleAllows_rank:
  "ValidPermissionType action \<Longrightarrow> documentRoleAllows role action \<longleftrightarrow> needed_rank action \<le> role_rank role"
  by (auto simp: documentRoleAllows_def needed_rank_def role_rank_def ValidPermissionType_def)

lemma documentMaxRole_rank: "role_rank (documentMaxRole uni a b) = max (role_rank a) (role_rank (ToLower uni b))"
  by (simp add: documentMaxRole_def Let_def max_def)

lemma fold_max_rank:
  "role_rank (foldl (documentMaxRole uni) a bs) = Max (insert (role_rank a) ((\<lambda>b. role_rank (ToLower uni b)) ` set bs))"
proof (induction bs arbitrary: a)
  case (Cons b bs)
  have "Max (insert (max x y) S) = Max (insert x (insert y S))" if "finite S" for x y :: nat and S
    using that by (cases "S = {}") (auto simp: max.assoc)
  with Cons show ?case by (simp add: documentMaxRole_rank insert_commute)
qed simp

text \<open>The ranks that count for a user on a document that is not his: the share of the dataset and the public dataset when the document
inherits, and the grants.\<close>

definition document_rank :: "(string \<Rightarrow> string) \<Rightarrow> access_db \<Rightarrow> doc_ref \<Rightarrow> document_row \<Rightarrow> string \<Rightarrow> string \<Rightarrow> nat" where
  "document_rank uni db ref r owner u =
     Max ({0}
       \<union> (if drMode r = ''inherit'' \<and> owner = '''' then {1} else {})
       \<union> (if drMode r = ''inherit'' then (\<lambda>s. role_rank (ToLower uni s)) ` set_option (share_of db (fst ref) u) else {})
       \<union> (\<lambda>s. role_rank (ToLower uni s)) ` set (grants_of db ref u (drTenant r)))"

definition document_open :: "access_db \<Rightarrow> doc_ref \<Rightarrow> document_row \<Rightarrow> string \<Rightarrow> bool" where
  "document_open db ref r action \<longleftrightarrow>
     \<not> drTombstoned r \<and> map_of (tbLinks db) ref \<noteq> None \<and> owner_of db (fst ref) \<noteq> None
     \<and> \<not> (drHold r \<and> (action = ''write'' \<or> action = ''delete''))"

definition may_use_document ::
  "(string \<Rightarrow> string) \<Rightarrow> access_db \<Rightarrow> Actor \<Rightarrow> doc_ref \<Rightarrow> document_row \<Rightarrow> string \<Rightarrow> bool" where
  "may_use_document uni db actor ref r action \<longleftrightarrow>
     APIKeyAllows uni (acAPIKeyPermissions actor) action \<and> acUserID actor \<noteq> '''' \<and> active_user db (acUserID actor)
     \<and> document_open db ref r action
     \<and> (super_user db (acUserID actor)
        \<or> (acTenantID actor = drTenant r \<and> map_of (tbMembers db) (acUserID actor, drTenant r) \<noteq> None
           \<and> (owner_of db (fst ref) = Some (acUserID actor)
              \<or> needed_rank action \<le> document_rank uni db ref r (the (owner_of db (fst ref))) (acUserID actor))))"

lemma inherited_role_rank:
  assumes "inherited_role uni flt db r ref owner u = Inr role"
  shows "role_rank role =
    Max ({0} \<union> (if drMode r = ''inherit'' \<and> owner = '''' then {1} else {})
       \<union> (if drMode r = ''inherit'' then (\<lambda>s. role_rank (ToLower uni s)) ` set_option (share_of db (fst ref) u) else {}))"
proof -
  have blank: "role_rank '''' = 0" and viewer: "role_rank ''viewer'' = 1" by (simp_all add: role_rank_def)
  from assms show ?thesis
    by (auto simp: inherited_role_def andThen_Inr documentMaxRole_rank blank viewer max_def split: option.splits if_splits)
qed

lemma document_rank_fold:
  assumes "inherited_role uni flt db r ref owner u = Inr role"
  shows "role_rank (foldl (documentMaxRole uni) role (grants_of db ref u (drTenant r))) = document_rank uni db ref r owner u"
proof -
  define A where "A = {0::nat} \<union> (if drMode r = ''inherit'' \<and> owner = '''' then {1} else {})
       \<union> (if drMode r = ''inherit'' then (\<lambda>s. role_rank (ToLower uni s)) ` set_option (share_of db (fst ref) u) else {})"
  define B where "B = (\<lambda>s. role_rank (ToLower uni s)) ` set (grants_of db ref u (drTenant r))"
  have "finite A" "A \<noteq> {}" "finite B" by (auto simp: A_def B_def)
  then have "Max (insert (Max A) B) = Max (A \<union> B)"
    by (cases "B = {}") (simp_all add: Max_Un)
  then show ?thesis
    unfolding fold_max_rank inherited_role_rank [OF assms] document_rank_def A_def [symmetric] B_def [symmetric] .
qed

lemma documentOwner_Inr:
  "documentOwner flt db ref = Inr owner \<longleftrightarrow>
     \<not> flt (SelDocOwner ref) \<and> map_of (tbLinks db) ref \<noteq> None \<and> owner_of db (fst ref) = Some owner"
  by (auto simp: documentOwner_def andThen_Inr split: option.splits if_splits)

lemma documentOwner_NotFound:
  "documentOwner flt db ref = Inl ErrDocumentNotFound \<longleftrightarrow>
     \<not> flt (SelDocOwner ref) \<and> (map_of (tbLinks db) ref = None \<or> owner_of db (fst ref) = None)"
  by (auto simp: documentOwner_def andThen_Inl split: option.splits if_splits)

lemma document_decision_sound:
  assumes action: "ValidPermissionType action"
    and dec: "authorizeRegisteredDocument uni flt db actor ref r action = Inr dec"
  shows "dcAllowed dec \<longleftrightarrow> may_use_document uni db actor ref r action"
proof (cases "APIKeyAllows uni (acAPIKeyPermissions actor) action \<and> acUserID actor \<noteq> ''''")
  case False
  with dec show ?thesis
    by (auto simp: authorizeRegisteredDocument_def Let_def may_use_document_def documentIdentity_def split: if_splits)
next
  case True
  note key = True
  show ?thesis
  proof (cases "active_user db (acUserID actor) \<and> \<not> drTombstoned r")
    case False
    with dec key show ?thesis
      by (auto simp: authorizeRegisteredDocument_def Let_def andThen_Inr documentIdentity_ask may_use_document_def document_open_def
          split: if_splits)
  next
    case True
    show ?thesis
    proof (cases "documentOwner flt db ref")
      case (Inl e)
      with dec key True have "e = ErrDocumentNotFound" "\<not> dcAllowed dec"
        by (auto simp: authorizeRegisteredDocument_def Let_def andThen_Inr documentIdentity_ask split: if_splits)
      with Inl show ?thesis
        by (auto simp: may_use_document_def document_open_def documentOwner_NotFound)
    next
      case (Inr owner)
      with dec key True action show ?thesis
        by (auto simp: authorizeRegisteredDocument_def Let_def andThen_Inr documentIdentity_ask may_use_document_def
            document_open_def documentOwner_Inr documentMember_def documentRoleAllows_rank document_rank_fold split: if_splits)
    qed
  qed
qed

section \<open>The alias check\<close>

lemma all_registered_writableD:
  "all_registered_writable uni flt db actor rs = Inr () \<Longrightarrow> (ref, r) \<in> set rs \<Longrightarrow> may_use_document uni db actor ref r ''write''"
proof (induction rs)
  case (Cons x rs)
  obtain ref' r' where x: "x = (ref', r')" by (cases x)
  from Cons.prems x obtain d where d: "authorizeRegisteredDocument uni flt db actor ref' r' ''write'' = Inr d" "dcAllowed d"
    and rest: "all_registered_writable uni flt db actor rs = Inr ()"
    by (auto simp: andThen_Inr split: if_splits)
  from document_decision_sound [OF _ d(1)] d(2) have "may_use_document uni db actor ref' r' ''write''"
    by (simp add: ValidPermissionType_def)
  with Cons.IH [OF rest] Cons.prems(2) x show ?case by auto
qed simp

lemma all_legacy_writableD:
  "all_legacy_writable uni flt db actor refs = Inr () \<Longrightarrow> ref \<in> set refs \<Longrightarrow>
     \<exists>d. AuthorizeDocument uni flt (Some db) actor ref ''write'' = Inr d \<and> dcAllowed d"
  by (induction refs) (auto simp: andThen_Inr split: if_splits)

lemma legacy_document_sound:
  assumes "AuthorizeDocument uni flt (Some db) actor ref action = Inr dec" and "map_of (tbResources db) ref = None"
    and "acUserID actor \<noteq> ''''" and "dcAllowed dec"
  shows "may_use uni db actor (fst ref) action"
  using assms dataset_decision_sound [OF assms(3)]
  by (auto simp: AuthorizeDocument_def documentResource_def andThen_def ask_def split: if_splits sum.splits)

section \<open>Where the checks differ\<close>

text \<open>\<open>CanAccessDataset\<close> takes a failed query and a missing dataset for a public one.\<close>

lemma can_access_fails_open:
  assumes "active_user db u" and "u \<noteq> ''''" and "\<not> flt (SelActive u)" and "flt (SelOwner d) \<or> owner_of db d = None"
  shows "CanAccessDataset flt (Some db) d u"
  using assms by (auto simp: CanAccessDataset_def IsActive_ask ask_def scanned_owner_def owner_of_def split: option.splits)

text \<open>\<open>CanManageTenant\<close> does not ask whether the user is active.\<close>

lemma inactive_superuser_manages_tenants:
  assumes "super_user db u" and "u \<noteq> ''''" and "t \<noteq> ''''" and "\<not> flt (SelSuper u)"
  shows "CanManageTenant flt (Some db) u t = Inr True"
  using assms by (simp add: CanManageTenant_def IsSuperuser_ask ask_def)

text \<open>An ownerless project: its workspace makes every active user an administrator, its dataset a viewer.\<close>

lemma ownerless_workspace_admin:
  assumes "AuthorizeWorkspace uni flt (Some db) actor d action = Inr dec" and "acUserID actor \<noteq> ''''" and "d \<noteq> ''''"
    and "APIKeyAllows uni (acAPIKeyPermissions actor) action" and "acTenantID actor = ''''" and "active_user db (acUserID actor)"
    and "owner_of db d = Some ''''" and "WorkspaceProjectUnambiguous flt (Some db) d = Inr True"
  shows "dcAllowed dec \<and> dcRole dec = ''admin''"
  using assms
  by (auto simp: AuthorizeWorkspace_def Let_def ask_def IsActive_ask IsSuperuser_ask split: if_split_asm)

text \<open>A share whose role is a valid one in other letters: the decision honors it, the checks for upload and sharing do not.\<close>

lemma mixed_case_share:
  assumes "acUserID actor \<noteq> ''''" and "active_user db (acUserID actor)" and "\<not> super_user db (acUserID actor)" and "d \<noteq> ''''"
    and "APIKeyAllows uni (acAPIKeyPermissions actor) ''write''" and "\<forall>q. \<not> flt q"
    and "owner_of db d = Some owner" and "owner \<noteq> acUserID actor" and "owner \<noteq> ''''"
    and "share_of db d (acUserID actor) = Some role" and "ToLower uni role = ''admin''" and "role \<noteq> ''admin''" and "role \<noteq> ''editor''"
  shows "(\<exists>dec. AuthorizeDataset uni flt (Some db) actor d ''share'' = Inr dec \<and> dcAllowed dec \<and> dcRole dec = ''admin'')
    \<and> CanUseDatasetForUpload flt (Some db) d (acUserID actor) = Inr False
    \<and> \<not> CanManageDatasetShares flt (Some db) d (acUserID actor)"
proof -
  have norm: "normalizeAction uni ''share'' = ''write''" "normalizeAction uni ''write'' = ''write''"
    by (simp_all add: normalizeAction_def)
  have key: "APIKeyAllows uni (acAPIKeyPermissions actor) ''share''"
    using assms(5) unfolding APIKeyAllows_def norm .
  have scan: "scanned_owner flt db d = owner"
    using assms(6,7,9) by (auto simp: scanned_owner_def owner_of_def split: option.splits)
  have "\<exists>dec. AuthorizeDataset uni flt (Some db) actor d ''share'' = Inr dec \<and> dcAllowed dec \<and> dcRole dec = ''admin''"
    using assms key APIKeyAllows_normalized [of uni "acAPIKeyPermissions actor" "''share''"]
    by (simp add: AuthorizeDataset_def Let_def norm IsActive_ask IsSuperuser_ask ask_def share_decision_def RoleAllows_def)
  then show ?thesis
    using assms scan
    by (auto simp: CanUseDatasetForUpload_def CanManageDatasetShares_def IsActive_ask ask_def)
qed

end
