(* ===== verification/Identity.thy ===== *)
theory Identity
  imports Access_Facts
begin

text \<open>
  Credentials and their revocation: credential_epoch.go, browser_session.go, \<open>RecheckCredential\<close> of read_fence.go, the write fence of
  document_metadata.go and the provisioner of provisioning.go. A user row carries an epoch and a watermark; every deactivation bumps the
  epoch, moves the watermark up to the present and revokes the keys. Times are Unix seconds and arguments.
\<close>

section \<open>Epochs\<close>

text \<open>\<open>COALESCE(e.epoch,0), COALESCE(e.revoked_before,0)\<close> of the left join.\<close>

definition credential_of :: "access_db \<Rightarrow> string \<Rightarrow> int \<times> int" where
  "credential_of db u = (case map_of (tbEpochs db) u of None \<Rightarrow> (0, 0) | Some e \<Rightarrow> e)"

definition currentCredentialState :: "faults \<Rightarrow> access_db option \<Rightarrow> string \<Rightarrow> access_error + int \<times> int" where
  "currentCredentialState flt p u =
     (case p of None \<Rightarrow> Inl ErrProvisioningNoDB
      | Some db \<Rightarrow> if u = '''' then Inl ErrInactiveIdentity
          else andThen (ask flt (SelCredential u) (active_user db u)) (\<lambda>live.
            if live then Inr (credential_of db u) else Inl ErrInactiveIdentity))"

definition CurrentCredentialEpoch :: "faults \<Rightarrow> access_db option \<Rightarrow> string \<Rightarrow> access_error + int" where
  "CurrentCredentialEpoch flt p u = andThen (currentCredentialState flt p u) (\<lambda>(epoch, _). Inr epoch)"

definition ExternalCredentialEpoch :: "faults \<Rightarrow> access_db option \<Rightarrow> string \<Rightarrow> int \<Rightarrow> access_error + int" where
  "ExternalCredentialEpoch flt p u issuedAt =
     andThen (currentCredentialState flt p u) (\<lambda>(epoch, revokedBefore).
       if revokedBefore > 0 \<and> issuedAt \<le> revokedBefore then Inl ErrRevokedCredential else Inr epoch)"

definition ValidateExternalCredential :: "faults \<Rightarrow> access_db option \<Rightarrow> string \<Rightarrow> int \<Rightarrow> access_error + unit" where
  "ValidateExternalCredential flt p u issuedAt = andThen (ExternalCredentialEpoch flt p u issuedAt) (\<lambda>_. Inr ())"

definition ValidateCredential :: "faults \<Rightarrow> access_db option \<Rightarrow> string \<Rightarrow> int \<Rightarrow> access_error + unit" where
  "ValidateCredential flt p u epoch =
     andThen (CurrentCredentialEpoch flt p u) (\<lambda>current.
       if epoch < 0 \<or> current \<noteq> epoch then Inl ErrRevokedCredential else Inr ())"

section \<open>Browser sessions\<close>

definition live_session :: "access_db \<Rightarrow> string \<Rightarrow> string \<Rightarrow> int \<Rightarrow> bool" where
  "live_session db u sid now =
     (case map_of (tbSessions db) sid of None \<Rightarrow> False | Some (owner, expires, revoked) \<Rightarrow> owner = u \<and> \<not> revoked \<and> expires > now)"

text \<open>The answer is the tenant selected for the user and the superuser flag, both read in the same statement.\<close>

definition validateSessionCredentialState ::
  "faults \<Rightarrow> access_db \<Rightarrow> string \<Rightarrow> int \<Rightarrow> string \<Rightarrow> int \<Rightarrow> access_error + string \<times> bool" where
  "validateSessionCredentialState flt db u epoch sid now =
     (if u = '''' then Inl ErrInactiveIdentity
      else if epoch < 0 then Inl ErrRevokedCredential
      else andThen (ask flt (SelCredential u)
             (if active_user db u
              then Some (fst (credential_of db u) = epoch \<and> (sid = '''' \<or> live_session db u sid now),
                         (case filter (\<lambda>t. fst t = u) (map fst (tbMembers db)) of [] \<Rightarrow> '''' | t # _ \<Rightarrow> snd t), super_user db u)
              else None)) (\<lambda>row.
        case row of
          None \<Rightarrow> Inl ErrInactiveIdentity
        | Some (valid, tenant, superuser) \<Rightarrow> if valid then Inr (tenant, superuser) else Inl ErrRevokedCredential))"

definition ValidateSessionCredentialAuthorization ::
  "faults \<Rightarrow> access_db option \<Rightarrow> string \<Rightarrow> int \<Rightarrow> string \<Rightarrow> int \<Rightarrow> access_error + string \<times> bool" where
  "ValidateSessionCredentialAuthorization flt p u epoch sid now =
     (case p of None \<Rightarrow> Inl ErrProvisioningNoDB | Some db \<Rightarrow> validateSessionCredentialState flt db u epoch sid now)"

definition ValidateSessionCredentialTenant ::
  "faults \<Rightarrow> access_db option \<Rightarrow> string \<Rightarrow> int \<Rightarrow> string \<Rightarrow> int \<Rightarrow> access_error + string" where
  "ValidateSessionCredentialTenant flt p u epoch sid now =
     andThen (ValidateSessionCredentialAuthorization flt p u epoch sid now) (\<lambda>(tenant, _). Inr tenant)"

definition ValidateSessionCredential ::
  "faults \<Rightarrow> access_db option \<Rightarrow> string \<Rightarrow> int \<Rightarrow> string \<Rightarrow> int \<Rightarrow> access_error + unit" where
  "ValidateSessionCredential flt p u epoch sid now =
     andThen (ValidateSessionCredentialAuthorization flt p u epoch sid now) (\<lambda>_. Inr ())"

definition ValidateBrowserSession :: "faults \<Rightarrow> access_db option \<Rightarrow> string \<Rightarrow> string \<Rightarrow> int \<Rightarrow> access_error + unit" where
  "ValidateBrowserSession flt p u sid now =
     (if sid = '''' then Inr ()
      else (case p of None \<Rightarrow> Inl ErrProvisioningNoDB
        | Some db \<Rightarrow> andThen (ask flt (SelCredential u) (live_session db u sid now)) (\<lambda>live.
            if live then Inr () else Inl ErrRevokedCredential)))"

text \<open>\<open>sid\<close> is the identifier drawn at random; the insertion fails when the table has it already.\<close>

definition CreateBrowserSession ::
  "faults \<Rightarrow> access_db option \<Rightarrow> string \<Rightarrow> string \<Rightarrow> int \<Rightarrow> access_error + string \<times> access_db" where
  "CreateBrowserSession flt p sid u expires =
     (case p of None \<Rightarrow> Inl ErrProvisioningNoDB
      | Some db \<Rightarrow>
        if flt (Exec ''auth_sessions'' sid u) \<or> map_of (tbSessions db) sid \<noteq> None then Inl ErrSql
        else Inr (sid, db\<lparr>tbSessions := tbSessions db @ [(sid, u, expires, False)]\<rparr>))"

definition RevokeBrowserSession :: "faults \<Rightarrow> access_db option \<Rightarrow> string \<Rightarrow> string \<Rightarrow> access_error + access_db" where
  "RevokeBrowserSession flt p u sid =
     (case p of None \<Rightarrow> Inl ErrProvisioningNoDB
      | Some db \<Rightarrow> ask flt (Exec ''auth_sessions'' sid u)
          (db\<lparr>tbSessions := update_where (\<lambda>k (owner, _). k = sid \<and> owner = u)
                             (\<lambda>(owner, expires, _). (owner, expires, True)) (tbSessions db)\<rparr>))"

section \<open>Rechecking a credential under a fence\<close>

record Credential =
  crKind :: string
  crKeyID :: string
  crSessionID :: string
  crEpoch :: int
  crIssuedAt :: int
  crExpiresAt :: int

text \<open>\<open>t0\<close>, \<open>t1\<close>, \<open>t2\<close> are the readings of the clock, in their order.\<close>

definition RecheckCredential ::
  "faults \<Rightarrow> access_db \<Rightarrow> string \<Rightarrow> Credential \<Rightarrow> string \<Rightarrow> int \<times> int \<times> int \<Rightarrow> access_error + unit" where
  "RecheckCredential flt db u c permissions clock =
     (case clock of (t0, t1, t2) \<Rightarrow>
      if crKind c = ''jwt'' then
        (if crExpiresAt c \<le> t0 then Inl ErrRevokedCredential
         else if (case validateSessionCredentialState flt db u (crEpoch c) (crSessionID c) t1 of Inl _ \<Rightarrow> True | Inr _ \<Rightarrow> False)
                 \<or> crExpiresAt c \<le> t2 then Inl ErrRevokedCredential
         else Inr ())
      else if flt (SelCredential u) \<or> \<not> active_user db u then Inl ErrRevokedCredential
      else if crKind c = ''api_key'' then
        (if flt (SelKey (crKeyID c) u) then Inl ErrRevokedCredential
         else (case map_of (tbKeys db) (crKeyID c) of
             None \<Rightarrow> Inl ErrRevokedCredential
           | Some (owner, live, revoked) \<Rightarrow>
               if owner \<noteq> u \<or> revoked \<or> live \<noteq> permissions then Inl ErrRevokedCredential else Inr ()))
      else if crKind c = ''external'' then
        (let watermark = snd (credential_of db u) in
         if crExpiresAt c \<le> t0 \<or> (watermark > 0 \<and> crIssuedAt c \<le> watermark) then Inl ErrRevokedCredential else Inr ())
      else Inl ErrRevokedCredential)"

record MetadataActor =
  maActor :: Actor
  maCredential :: Credential
  maTrustedLocal :: bool

text \<open>The checks that open the write fence; the caller then works in the transaction.\<close>

definition BeginMetadataWrite ::
  "(string \<Rightarrow> string) \<Rightarrow> faults \<Rightarrow> access_db option \<Rightarrow> MetadataActor \<Rightarrow> bool \<Rightarrow> int \<times> int \<times> int \<Rightarrow> access_error + access_db" where
  "BeginMetadataWrite uni flt p m has_deadline clock =
     (let a = maActor m in
      case p of None \<Rightarrow> Inl ErrDocumentInvalid
      | Some db \<Rightarrow>
        if \<not> has_deadline then Inl ErrDocumentInvalid
        else if flt Begin \<or> flt (Lock ''metadata'') then Inl ErrSql
        else if \<not> APIKeyAllows uni (acAPIKeyPermissions a) ''write'' then Inl ErrDocumentForbidden
        else andThen (if maTrustedLocal m then Inr ()
                      else if acUserID a = '''' then Inl ErrRevokedCredential
                      else RecheckCredential flt db (acUserID a) (maCredential m) (acAPIKeyPermissions a) clock) (\<lambda>_.
          if acTenantID a = '''' then Inr db
          else andThen (IsTenantMember flt p (acUserID a) (acTenantID a)) (\<lambda>member.
            if member then Inr db else Inl ErrDocumentForbidden)))"

definition WithMetadataWrite ::
  "(string \<Rightarrow> string) \<Rightarrow> faults \<Rightarrow> access_db option \<Rightarrow> MetadataActor \<Rightarrow> bool \<Rightarrow> int \<times> int \<times> int \<Rightarrow> int \<times> int \<times> int \<Rightarrow>
   (access_db \<Rightarrow> access_error + access_db) \<Rightarrow> access_error + access_db" where
  "WithMetadataWrite uni flt p m has_deadline clock clock' mutate =
     andThen (BeginMetadataWrite uni flt p m has_deadline clock) (\<lambda>db.
       andThen (mutate db) (\<lambda>db'.
         andThen (if maTrustedLocal m then Inr ()
                  else RecheckCredential flt db' (acUserID (maActor m)) (maCredential m)
                         (acAPIKeyPermissions (maActor m)) clock') (\<lambda>_.
           ask flt Commit db')))"

section \<open>Provisioning\<close>

definition revokeUserCredentials :: "faults \<Rightarrow> access_db \<Rightarrow> string \<Rightarrow> int \<Rightarrow> access_error + access_db" where
  "revokeUserCredentials flt db u now =
     (if (case map_of (tbEpochs db) u of None \<Rightarrow> False | Some (epoch, _) \<Rightarrow> epoch \<ge> max_bigint) then Inl ErrSql
      else
        let epochs = (case map_of (tbEpochs db) u of
                        None \<Rightarrow> tbEpochs db @ [(u, 1, now)]
                      | Some (epoch, revoked) \<Rightarrow>
                          AList.update u (epoch + 1, if revoked > now then revoked else now) (tbEpochs db));
            db1 = db\<lparr>tbEpochs := epochs\<rparr> in
        andThen (ask flt (Exec ''credential_epochs'' u '''') db1) (\<lambda>db1.
          ask flt (Exec ''api_keys'' u '''')
            (db1\<lparr>tbKeys := update_where (\<lambda>k (owner, _). owner = u) (\<lambda>(owner, perms, _). (owner, perms, True)) (tbKeys db1)\<rparr>)))"

definition DeactivateUser :: "faults \<Rightarrow> access_db option \<Rightarrow> string \<Rightarrow> int \<Rightarrow> access_error + access_db" where
  "DeactivateUser flt p u now =
     (case p of None \<Rightarrow> Inl ErrProvisioningNoDB
      | Some db \<Rightarrow>
        if u = '''' then Inl ErrUserNotFound
        else if flt Begin then Inl ErrSql
        else andThen (ask flt (Exec ''users'' u '''') ()) (\<lambda>_.
          if affected (\<lambda>k _. k = u) (tbUsers db) = 0 then Inl ErrUserNotFound
          else andThen (revokeUserCredentials flt
                  (db\<lparr>tbUsers := update_where (\<lambda>k _. k = u) (\<lambda>r. r\<lparr>usActive := False\<rparr>) (tbUsers db)\<rparr>) u now)
            (\<lambda>db'. ask flt Commit db')))"

text \<open>
  The memberships are read before the transaction starts (\<open>read\<close>) and reconciled in it (\<open>db\<close>). An insertion fails when the row exists or
  the tenant does not; a deleted membership takes the group memberships of the user in that tenant with it.
\<close>

definition SyncTenantMembership ::
  "faults \<Rightarrow> access_db option \<Rightarrow> access_db \<Rightarrow> string \<Rightarrow> string list \<Rightarrow> access_error + access_db" where
  "SyncTenantMembership flt p read_db u tenantIDs =
     (case p of None \<Rightarrow> Inl ErrProvisioningNoDB
      | Some db \<Rightarrow>
        if u = '''' then Inl ErrUserNotFound
        else (let desired = remdups (filter (\<lambda>t. t \<noteq> '''') tenantIDs);
                  current = map snd (filter (\<lambda>k. fst k = u) (map fst (tbMembers read_db)));
                  added = filter (\<lambda>t. t \<notin> set current) desired;
                  removed = filter (\<lambda>t. t \<notin> set desired) current in
          if flt (SelTenantOf u) \<or> flt Begin then Inl ErrSql
          else if list_ex (\<lambda>t. flt (Exec ''user_tenant'' u t) \<or> map_of (tbMembers db) (u, t) \<noteq> None
                              \<or> map_of (tbTenants db) t = None) added
               \<or> list_ex (\<lambda>t. flt (Exec ''user_tenant'' u t)) removed then Inl ErrSql
          else ask flt Commit
            (db\<lparr>tbMembers := delete_where (\<lambda>(x, t) _. x = u \<and> t \<in> set removed) (tbMembers db @ map (\<lambda>t. ((u, t), ())) added),
                tbGroupMembers := delete_where (\<lambda>(_, x) t. x = u \<and> t \<in> set removed) (tbGroupMembers db)\<rparr>)))"

text \<open>
  Two transactions: the state after the first stays when the second one fails. \<open>between\<close> is what other transactions do in between; the
  answer is the error, if any, and the database.
\<close>

definition ProvisionUser ::
  "faults \<Rightarrow> access_db option \<Rightarrow> (access_db \<Rightarrow> access_db \<times> access_db) \<Rightarrow> string \<Rightarrow> bool \<Rightarrow> bool \<Rightarrow> string list option \<Rightarrow> int \<Rightarrow>
   access_error option \<times> access_db option" where
  "ProvisionUser flt p between u active superuser tenantIDs now =
     (case p of None \<Rightarrow> (Some ErrProvisioningNoDB, p)
      | Some db \<Rightarrow>
        if u = '''' then (Some ErrUserNotFound, p)
        else (case andThen (ask flt Begin ()) (\<lambda>_. andThen (ask flt (Exec ''users'' u '''') ()) (\<lambda>_.
                 if affected (\<lambda>k _. k = u) (tbUsers db) = 0 then Inl ErrUserNotFound
                 else (let db1 = db\<lparr>tbUsers := update_where (\<lambda>k _. k = u)
                                    (\<lambda>r. r\<lparr>usActive := active, usSuper := superuser\<rparr>) (tbUsers db)\<rparr> in
                   andThen (if active then Inr db1 else revokeUserCredentials flt db1 u now) (\<lambda>db2. ask flt Commit db2)))) of
            Inl e \<Rightarrow> (Some e, p)
          | Inr db2 \<Rightarrow>
              (case tenantIDs of
                 None \<Rightarrow> (None, Some db2)
               | Some ts \<Rightarrow>
                   (case between db2 of (read_db, db3) \<Rightarrow>
                      (case SyncTenantMembership flt (Some db3) read_db u ts of
                         Inl e \<Rightarrow> (Some e, Some db3)
                       | Inr db4 \<Rightarrow> (None, Some db4))))))"

section \<open>Every history of the credentials\<close>

text \<open>
  What may happen to a database: the operations above by anyone, the issue of a key under a fresh identifier, the revocation of one
  (auth.go), and any change of the rows that are no credentials, reactivation of a user included.
\<close>

inductive identity_step :: "access_db \<Rightarrow> access_db \<Rightarrow> bool" where
  deactivate: "DeactivateUser flt (Some db) u now = Inr db' \<Longrightarrow> identity_step db db'"
| provision: "ProvisionUser flt (Some db) (\<lambda>d. (d, d)) u active superuser tenants now = (e, Some db') \<Longrightarrow> identity_step db db'"
| memberships: "SyncTenantMembership flt (Some db) read_db u ts = Inr db' \<Longrightarrow> identity_step db db'"
| session: "CreateBrowserSession flt (Some db) sid u expires = Inr (sid', db') \<Longrightarrow> identity_step db db'"
| end_session: "RevokeBrowserSession flt (Some db) u sid = Inr db' \<Longrightarrow> identity_step db db'"
| issue_key: "map_of (tbKeys db) k = None \<Longrightarrow> identity_step db (db\<lparr>tbKeys := tbKeys db @ [(k, u, perms, False)]\<rparr>)"
| revoke_key: "identity_step db (db\<lparr>tbKeys := update_where (\<lambda>k (owner, _). k = x \<and> owner = u)
                                     (\<lambda>(owner, perms, _). (owner, perms, True)) (tbKeys db)\<rparr>)"
| others: "tbEpochs db' = tbEpochs db \<Longrightarrow> tbKeys db' = tbKeys db \<Longrightarrow> tbSessions db' = tbSessions db \<Longrightarrow> identity_step db db'"

inductive_cases identity_stepE: "identity_step db db'"

text \<open>What revocation leaves behind, and what no step takes back.\<close>

definition revoked_since :: "access_db \<Rightarrow> string \<Rightarrow> int \<Rightarrow> int \<Rightarrow> string set \<Rightarrow> bool" where
  "revoked_since db u epoch now ks \<longleftrightarrow>
     (\<exists>e w. map_of (tbEpochs db) u = Some (e, w) \<and> epoch < e \<and> now \<le> w) \<and>
     (\<forall>k\<in>ks. \<exists>owner perms. map_of (tbKeys db) k = Some (owner, perms, True))"

lemma revokeUserCredentials_effect:
  assumes "revokeUserCredentials flt db u now = Inr db'"
  shows "map_of (tbEpochs db') =
           (map_of (tbEpochs db))(u \<mapsto> (fst (credential_of db u) + 1,
              if snd (credential_of db u) > now \<and> map_of (tbEpochs db) u \<noteq> None then snd (credential_of db u) else now))"
    and "map_of (tbKeys db') k = map_option (\<lambda>(owner, perms, r). (owner, perms, r \<or> owner = u)) (map_of (tbKeys db) k)"
proof -
  show "map_of (tbEpochs db') =
           (map_of (tbEpochs db))(u \<mapsto> (fst (credential_of db u) + 1,
              if snd (credential_of db u) > now \<and> map_of (tbEpochs db) u \<noteq> None then snd (credential_of db u) else now))"
    using assms
    by (cases "map_of (tbEpochs db) u")
       (auto simp: revokeUserCredentials_def Let_def andThen_Inr credential_of_def update_conv' map_add_def fun_eq_iff
         split: option.splits if_splits)
  show "map_of (tbKeys db') k = map_option (\<lambda>(owner, perms, r). (owner, perms, r \<or> owner = u)) (map_of (tbKeys db) k)"
    using assms
    by (cases "map_of (tbKeys db) k")
       (auto simp: revokeUserCredentials_def Let_def andThen_Inr sql split: option.splits if_splits)
qed

lemma revoke_revokes:
  assumes "revokeUserCredentials flt db u now = Inr db'" and "revoked_since db x epoch t ks"
  shows "revoked_since db' x epoch t ks"
proof -
  from assms(2) obtain e w where e: "map_of (tbEpochs db) x = Some (e, w)" "epoch < e" "t \<le> w"
    and ks: "\<And>k. k \<in> ks \<Longrightarrow> \<exists>owner perms. map_of (tbKeys db) k = Some (owner, perms, True)"
    unfolding revoked_since_def by blast
  have "\<exists>e w. map_of (tbEpochs db') x = Some (e, w) \<and> epoch < e \<and> t \<le> w"
    using e by (auto simp: revokeUserCredentials_effect(1) [OF assms(1)] credential_of_def)
  moreover have "\<exists>owner perms. map_of (tbKeys db') k = Some (owner, perms, True)" if "k \<in> ks" for k
    using ks [OF that] by (auto simp: revokeUserCredentials_effect(2) [OF assms(1)])
  ultimately show ?thesis by (simp add: revoked_since_def)
qed

end
