(* ===== verification/Identity_Facts.thy ===== *)
theory Identity_Facts
  imports Identity
begin

text \<open>
  A deactivation is final for the credentials that exist at that moment: no later step of the system, not even the reactivation of the
  user, makes one of them valid again.
\<close>

section \<open>Deactivation\<close>

lemma DeactivateUser_effect:
  assumes "DeactivateUser flt (Some db) u now = Inr db'"
  obtains db1 where "revokeUserCredentials flt db1 u now = Inr db'"
    and "tbEpochs db1 = tbEpochs db" and "tbKeys db1 = tbKeys db" and "\<not> active_user db1 u"
proof -
  let ?db1 = "db\<lparr>tbUsers := update_where (\<lambda>k _. k = u) (\<lambda>r. r\<lparr>usActive := False\<rparr>) (tbUsers db)\<rparr>"
  from assms have "revokeUserCredentials flt ?db1 u now = Inr db'"
    by (auto simp: DeactivateUser_def andThen_Inr split: if_splits)
  moreover have "\<not> active_user ?db1 u"
    by (auto simp: active_user_def sql)
  ultimately show thesis by (intro that) auto
qed

lemma revoke_keeps_users:
  "revokeUserCredentials flt db u now = Inr db' \<Longrightarrow> tbUsers db' = tbUsers db"
  by (auto simp: revokeUserCredentials_def Let_def andThen_Inr split: option.splits if_splits)

lemma revoke_starts:
  assumes "revokeUserCredentials flt db u now = Inr db'"
    and "\<And>k. k \<in> ks \<Longrightarrow> \<exists>perms r. map_of (tbKeys db) k = Some (u, perms, r)"
    and "epoch \<le> fst (credential_of db u)"
  shows "revoked_since db' u epoch now ks"
  unfolding revoked_since_def
proof (intro conjI ballI)
  show "\<exists>e w. map_of (tbEpochs db') u = Some (e, w) \<and> epoch < e \<and> now \<le> w"
    using assms(3) by (auto simp: revokeUserCredentials_effect(1) [OF assms(1)])
  fix k assume "k \<in> ks"
  from assms(2) [OF this] show "\<exists>owner perms. map_of (tbKeys db') k = Some (owner, perms, True)"
    by (auto simp: revokeUserCredentials_effect(2) [OF assms(1)])
qed

section \<open>Every step keeps a revocation\<close>

lemma revoked_since_same:
  "revoked_since db x epoch t ks \<Longrightarrow> tbEpochs db' = tbEpochs db \<Longrightarrow> tbKeys db' = tbKeys db \<Longrightarrow> revoked_since db' x epoch t ks"
  by (simp add: revoked_since_def)

lemma revoked_since_keys:
  assumes "revoked_since db x epoch t ks" and "tbEpochs db' = tbEpochs db"
    and "\<And>k owner perms. map_of (tbKeys db) k = Some (owner, perms, True) \<Longrightarrow> map_of (tbKeys db') k = Some (owner, perms, True)"
  shows "revoked_since db' x epoch t ks"
  using assms unfolding revoked_since_def by metis

lemma sync_keeps:
  assumes "SyncTenantMembership flt (Some db) read_db u ts = Inr db'"
  shows "tbEpochs db' = tbEpochs db" and "tbKeys db' = tbKeys db"
  using assms by (auto simp: SyncTenantMembership_def Let_def split: if_splits)

lemma provision_cases:
  assumes "ProvisionUser flt (Some db) (\<lambda>d. (d, d)) u active superuser tenants now = (e, Some db')"
  obtains "db' = db"
  | db1 db2 where "tbEpochs db1 = tbEpochs db" and "tbKeys db1 = tbKeys db"
      and "db2 = db1 \<or> revokeUserCredentials flt db1 u now = Inr db2"
      and "tbEpochs db' = tbEpochs db2" and "tbKeys db' = tbKeys db2"
proof -
  let ?db1 = "db\<lparr>tbUsers := update_where (\<lambda>k _. k = u) (\<lambda>r. r\<lparr>usActive := active, usSuper := superuser\<rparr>) (tbUsers db)\<rparr>"
  have "db' = db \<or> (\<exists>db2. (db2 = ?db1 \<or> revokeUserCredentials flt ?db1 u now = Inr db2)
          \<and> (db' = db2 \<or> (\<exists>ts. SyncTenantMembership flt (Some db2) db2 u ts = Inr db')))"
    using assms
    by (auto simp: ProvisionUser_def andThen_Inr Let_def split: if_splits sum.splits option.splits)
  then show thesis
  proof (elim disjE exE conjE)
    assume "db' = db"
    then show thesis by (rule that(1))
  next
    fix db2
    assume "db2 = ?db1" "db' = db2"
    then show thesis by (intro that(2) [of ?db1 db2]) auto
  next
    fix db2 ts
    assume "db2 = ?db1" "SyncTenantMembership flt (Some db2) db2 u ts = Inr db'"
    then show thesis by (intro that(2) [of ?db1 db2]) (auto dest: sync_keeps)
  next
    fix db2
    assume "revokeUserCredentials flt ?db1 u now = Inr db2" "db' = db2"
    then show thesis by (intro that(2) [of ?db1 db2]) auto
  next
    fix db2 ts
    assume "revokeUserCredentials flt ?db1 u now = Inr db2" "SyncTenantMembership flt (Some db2) db2 u ts = Inr db'"
    then show thesis by (intro that(2) [of ?db1 db2]) (auto dest: sync_keeps)
  qed
qed

lemma step_keeps_revocation:
  assumes "identity_step db db'" and rev: "revoked_since db x epoch t ks"
  shows "revoked_since db' x epoch t ks"
  using assms(1)
proof cases
  case (deactivate flt u now)
  from DeactivateUser_effect [OF deactivate] obtain db1 where
    "revokeUserCredentials flt db1 u now = Inr db'" "tbEpochs db1 = tbEpochs db" "tbKeys db1 = tbKeys db" by metis
  with rev show ?thesis by (blast intro: revoke_revokes revoked_since_same)
next
  case (provision flt u active superuser tenants now e)
  then show ?thesis
  proof (cases rule: provision_cases)
    case (2 db1 db2)
    from rev 2(1,2) have "revoked_since db1 x epoch t ks" by (rule revoked_since_same)
    with 2(3) have "revoked_since db2 x epoch t ks" by (auto intro: revoke_revokes)
    from this 2(4,5) show ?thesis by (rule revoked_since_same)
  qed (use rev in simp)
next
  case (memberships flt read_db u ts)
  from rev sync_keeps [OF this] show ?thesis by (rule revoked_since_same)
next
  case (session flt sid u expires sid')
  then have "tbEpochs db' = tbEpochs db" "tbKeys db' = tbKeys db" by (auto simp: CreateBrowserSession_def split: if_splits)
  from rev this show ?thesis by (rule revoked_since_same)
next
  case (end_session flt u sid)
  then have "tbEpochs db' = tbEpochs db" "tbKeys db' = tbKeys db" by (auto simp: RevokeBrowserSession_def)
  from rev this show ?thesis by (rule revoked_since_same)
next
  case (issue_key k u perms)
  have "map_of (tbKeys db') k' = Some (owner, perms', True)" if "map_of (tbKeys db) k' = Some (owner, perms', True)" for k' owner perms'
    unfolding issue_key(1) using that issue_key(2) by (cases "k' = k") simp_all
  moreover have "tbEpochs db' = tbEpochs db" by (simp add: issue_key(1))
  ultimately show ?thesis using rev by (blast intro: revoked_since_keys)
next
  case (revoke_key x u)
  have "map_of (tbKeys db') k' = Some (owner, perms', True)" if "map_of (tbKeys db) k' = Some (owner, perms', True)" for k' owner perms'
    unfolding revoke_key using that by (simp add: sql)
  moreover have "tbEpochs db' = tbEpochs db" by (simp add: revoke_key)
  ultimately show ?thesis using rev by (blast intro: revoked_since_keys)
next
  case others
  from rev others(1,2) show ?thesis by (rule revoked_since_same)
qed

lemma run_keeps_revocation:
  "identity_step\<^sup>*\<^sup>* db db' \<Longrightarrow> revoked_since db x epoch t ks \<Longrightarrow> revoked_since db' x epoch t ks"
  by (induction rule: rtranclp_induct) (auto intro: step_keeps_revocation)

section \<open>A revoked credential is refused\<close>

text \<open>A credential of the user that exists when he is deactivated at \<open>now\<close>.\<close>

definition issued_before :: "access_db \<Rightarrow> string \<Rightarrow> int \<Rightarrow> Credential \<Rightarrow> bool" where
  "issued_before db u now c \<longleftrightarrow>
     (crKind c = ''jwt'' \<longrightarrow> crEpoch c \<le> fst (credential_of db u)) \<and>
     (crKind c = ''external'' \<longrightarrow> crIssuedAt c \<le> now) \<and>
     (crKind c = ''api_key'' \<longrightarrow> (\<exists>perms r. map_of (tbKeys db) (crKeyID c) = Some (u, perms, r)))"

lemma revoked_session_refused:
  assumes "revoked_since db u epoch t ks" and "claim \<le> epoch"
  shows "validateSessionCredentialState flt db u claim sid now \<noteq> Inr x"
  using assms by (auto simp: validateSessionCredentialState_def revoked_since_def credential_of_def andThen_Inr split: option.splits if_splits)

lemma revoked_recheck_refused:
  assumes "issued_before db0 u t c" and "0 < t"
    and rev: "revoked_since db u (fst (credential_of db0 u)) t (if crKind c = ''api_key'' then {crKeyID c} else {})"
  shows "RecheckCredential flt db u c perms clock = Inl ErrRevokedCredential"
proof (cases "crKind c = ''jwt''")
  case True
  with assms have "\<exists>e. validateSessionCredentialState flt db u (crEpoch c) (crSessionID c) t1 = Inl e" for t1
    by (cases "validateSessionCredentialState flt db u (crEpoch c) (crSessionID c) t1")
       (auto dest: revoked_session_refused simp: issued_before_def)
  then show ?thesis
    using True by (auto simp: RecheckCredential_def split: prod.splits sum.splits) (metis Inl_Inr_False)
next
  case False
  with assms show ?thesis
    by (auto simp: RecheckCredential_def issued_before_def revoked_since_def credential_of_def Let_def split: prod.splits option.splits)
qed

lemma fence_refused:
  assumes "\<not> maTrustedLocal m" and "\<And>perms clock. RecheckCredential flt db (acUserID (maActor m)) (maCredential m) perms clock = Inl ErrRevokedCredential"
  shows "\<exists>e. WithMetadataWrite uni flt (Some db) m dl clock clock' mutate = Inl e"
  using assms by (auto simp: WithMetadataWrite_def BeginMetadataWrite_def Let_def)

end
