(* ===== verification/Doc_Policy.thy ===== *)
theory Doc_Policy
  imports Identity
begin

text \<open>
  The operations that change documents and their grants: document_policy.go, \<open>AdvanceSourceVersion\<close> of read_fence.go and prune.go. An
  operation is one transaction: it answers with an error, and then nothing has changed, or with the new database. \<open>COMMIT\<close> failing counts
  as rolled back. A \<open>BIGINT\<close> that would leave its range is an error of the statement.
\<close>

definition documentModeValid :: "string \<Rightarrow> bool" where
  "documentModeValid mode \<longleftrightarrow> mode = ''inherit'' \<or> mode = ''restricted''"

section \<open>Statements on registrations\<close>

text \<open>The updates of one registration that the operations use.\<close>

definition set_row :: "faults \<Rightarrow> string \<Rightarrow> doc_ref \<Rightarrow> (document_row \<Rightarrow> document_row) \<Rightarrow> access_db \<Rightarrow> access_error + access_db" where
  "set_row flt what ref f db =
     ask flt (Exec what (fst ref) (snd ref)) (db\<lparr>tbResources := update_where (\<lambda>k _. k = ref) f (tbResources db)\<rparr>)"

definition bump_content_row :: "document_row \<Rightarrow> document_row" where
  "bump_content_row r = r\<lparr>drContentRevision := drContentRevision r + 1\<rparr>"

definition tombstone_row :: "document_row \<Rightarrow> document_row" where
  "tombstone_row r = r\<lparr>drTombstoned := True, drContentRevision := drContentRevision r + 1\<rparr>"

definition content_fits :: "access_db \<Rightarrow> doc_ref \<Rightarrow> bool" where
  "content_fits db ref = (case map_of (tbResources db) ref of None \<Rightarrow> True | Some r \<Rightarrow> drContentRevision r < max_bigint)"

definition advance_content :: "faults \<Rightarrow> doc_ref \<Rightarrow> access_db \<Rightarrow> access_error + access_db" where
  "advance_content flt ref db =
     (if content_fits db ref then set_row flt ''content_revision'' ref bump_content_row db else Inl ErrSql)"

definition tombstone_content :: "faults \<Rightarrow> doc_ref \<Rightarrow> access_db \<Rightarrow> access_error + access_db" where
  "tombstone_content flt ref db =
     (if content_fits db ref then set_row flt ''tombstoned'' ref tombstone_row db else Inl ErrSql)"

section \<open>A change under the revision of the registration\<close>

definition cas_guard :: "doc_ref \<Rightarrow> int \<Rightarrow> int \<Rightarrow> doc_ref \<Rightarrow> document_row \<Rightarrow> bool" where
  "cas_guard ref acl content k r \<longleftrightarrow>
     k = ref \<and> (drACLRevision r = acl \<and> drContentRevision r = content \<and> \<not> drTombstoned r)"

definition bump_acl :: "document_row \<Rightarrow> document_row" where
  "bump_acl r = r\<lparr>drACLRevision := drACLRevision r + 1\<rparr>"

definition mutateDocumentTx ::
  "(string \<Rightarrow> string) \<Rightarrow> faults \<Rightarrow> access_db \<Rightarrow> Actor \<Rightarrow> doc_ref \<Rightarrow> int \<Rightarrow> int \<Rightarrow> string \<Rightarrow>
   (document_row \<Rightarrow> access_db \<Rightarrow> access_error + access_db) \<Rightarrow> access_error + document_row \<times> access_db" where
  "mutateDocumentTx uni flt db actor ref aclRevision contentRevision action mutate =
     andThen (documentResource flt db ref) (\<lambda>r.
     andThen (authorizeRegisteredDocument uni flt db actor ref r action) (\<lambda>d.
       if \<not> dcAllowed d then Inl ErrDocumentForbidden
       else if drACLRevision r \<noteq> aclRevision \<or> (contentRevision > 0 \<and> drContentRevision r \<noteq> contentRevision)
       then Inl ErrDocumentVersionConflict
       else if aclRevision \<ge> max_bigint then Inl ErrSql
       else (let P = cas_guard ref aclRevision (drContentRevision r) in
         andThen (ask flt (Exec ''acl_revision'' (fst ref) (snd ref)) ()) (\<lambda>_.
           if affected P (tbResources db) \<noteq> 1 then Inl ErrDocumentVersionConflict
           else andThen (mutate r (db\<lparr>tbResources := update_where P bump_acl (tbResources db)\<rparr>)) (\<lambda>db'.
             andThen (ask flt (SelReread ref) (map_of (tbResources db') ref)) (\<lambda>row.
               case row of None \<Rightarrow> Inl ErrDocumentNotFound | Some r' \<Rightarrow> Inr (r', db')))))))"

definition mutateDocument ::
  "(string \<Rightarrow> string) \<Rightarrow> faults \<Rightarrow> access_db option \<Rightarrow> Actor \<Rightarrow> doc_ref \<Rightarrow> int \<Rightarrow> int \<Rightarrow> string \<Rightarrow>
   (document_row \<Rightarrow> access_db \<Rightarrow> access_error + access_db) \<Rightarrow> access_error + document_row \<times> access_db" where
  "mutateDocument uni flt p actor ref aclRevision contentRevision action mutate =
     (case p of None \<Rightarrow> Inl ErrDocumentInvalid
      | Some db \<Rightarrow>
        if aclRevision \<le> 0 then Inl ErrDocumentInvalid
        else andThen (ask flt Begin ()) (\<lambda>_.
          andThen (mutateDocumentTx uni flt db actor ref aclRevision contentRevision action mutate) (\<lambda>result.
            ask flt Commit result)))"

section \<open>Grants\<close>

definition validateDocumentPrincipal ::
  "faults \<Rightarrow> access_db \<Rightarrow> string \<times> string \<Rightarrow> string \<Rightarrow> access_error + unit" where
  "validateDocumentPrincipal flt db prin tenantID =
     (case prin of (kind, i) \<Rightarrow>
      if i = '''' then Inl ErrDocumentInvalid
      else if kind = ''user'' then
        andThen (documentIdentity flt db i) (\<lambda>(active, _).
          andThen (documentMember flt db i tenantID) (\<lambda>member.
            require (active \<and> member) ErrDocumentForbidden))
      else if kind = ''group'' then
        andThen (ask flt (SelGroup i) (map_option grTenant (map_of (tbGroups db) i))) (\<lambda>tenant.
          require (tenant = Some tenantID) ErrDocumentForbidden)
      else Inl ErrDocumentInvalid)"

definition GrantDocument ::
  "(string \<Rightarrow> string) \<Rightarrow> faults \<Rightarrow> access_db option \<Rightarrow> Actor \<Rightarrow> doc_ref \<Rightarrow> int \<Rightarrow> string \<times> string \<Rightarrow> string \<Rightarrow>
   access_error + document_row \<times> access_db" where
  "GrantDocument uni flt p actor ref expected prin role0 =
     (let role = ToLower uni role0 in
      if \<not> ValidRole uni role then Inl ErrDocumentInvalid
      else mutateDocument uni flt p actor ref expected 0 ''share'' (\<lambda>r db.
        andThen (validateDocumentPrincipal flt db prin (drTenant r)) (\<lambda>_.
          if role \<notin> {''viewer'', ''editor'', ''admin''} then Inl ErrSql
          else ask flt (Exec ''document_grants'' (fst ref) (snd ref))
                 (db\<lparr>tbGrants := AList.update (ref, prin) role (tbGrants db)\<rparr>))))"

definition RevokeDocument ::
  "(string \<Rightarrow> string) \<Rightarrow> faults \<Rightarrow> access_db option \<Rightarrow> Actor \<Rightarrow> doc_ref \<Rightarrow> int \<Rightarrow> string \<times> string \<Rightarrow>
   access_error + document_row \<times> access_db" where
  "RevokeDocument uni flt p actor ref expected prin =
     (if snd prin = '''' \<or> (fst prin \<noteq> ''user'' \<and> fst prin \<noteq> ''group'') then Inl ErrDocumentInvalid
      else mutateDocument uni flt p actor ref expected 0 ''share'' (\<lambda>_ db.
        ask flt (Exec ''document_grants'' (fst ref) (snd ref))
          (db\<lparr>tbGrants := delete_where (\<lambda>k _. k = (ref, prin)) (tbGrants db)\<rparr>)))"

section \<open>Mode, hold, content and tombstone\<close>

definition SetDocumentMode ::
  "(string \<Rightarrow> string) \<Rightarrow> faults \<Rightarrow> access_db option \<Rightarrow> Actor \<Rightarrow> doc_ref \<Rightarrow> int \<Rightarrow> string \<Rightarrow> access_error + document_row \<times> access_db" where
  "SetDocumentMode uni flt p actor ref expected mode =
     (if \<not> documentModeValid mode then Inl ErrDocumentInvalid
      else mutateDocument uni flt p actor ref expected 0 ''share''
             (\<lambda>_. set_row flt ''mode'' ref (\<lambda>r. r\<lparr>drMode := mode\<rparr>)))"

definition SetDocumentHold ::
  "(string \<Rightarrow> string) \<Rightarrow> faults \<Rightarrow> access_db option \<Rightarrow> Actor \<Rightarrow> doc_ref \<Rightarrow> int \<Rightarrow> bool \<Rightarrow> access_error + document_row \<times> access_db" where
  "SetDocumentHold uni flt p actor ref expected hold =
     mutateDocument uni flt p actor ref expected 0 ''share'' (\<lambda>_. set_row flt ''hold'' ref (\<lambda>r. r\<lparr>drHold := hold\<rparr>))"

definition TombstoneDocument ::
  "(string \<Rightarrow> string) \<Rightarrow> faults \<Rightarrow> access_db option \<Rightarrow> Actor \<Rightarrow> doc_ref \<Rightarrow> int \<Rightarrow> int \<Rightarrow> access_error + document_row \<times> access_db" where
  "TombstoneDocument uni flt p actor ref expectedACL expectedContent =
     (if expectedContent \<le> 0 then Inl ErrDocumentInvalid
      else mutateDocument uni flt p actor ref expectedACL expectedContent ''delete'' (\<lambda>_. tombstone_content flt ref))"

definition AdvanceDocumentContent ::
  "(string \<Rightarrow> string) \<Rightarrow> faults \<Rightarrow> access_db option \<Rightarrow> Actor \<Rightarrow> doc_ref \<Rightarrow> int \<Rightarrow> int \<Rightarrow> access_error + document_row \<times> access_db" where
  "AdvanceDocumentContent uni flt p actor ref expectedACL expectedContent =
     (if expectedContent \<le> 0 then Inl ErrDocumentInvalid
      else mutateDocument uni flt p actor ref expectedACL expectedContent ''write'' (\<lambda>_. advance_content flt ref))"

section \<open>Registration\<close>

definition lockDocumentDataset :: "faults \<Rightarrow> access_db \<Rightarrow> string \<Rightarrow> access_error + unit" where
  "lockDocumentDataset flt db d =
     andThen (ask flt (Lock d) ()) (\<lambda>_. require (affected (\<lambda>k _. k = d) (tbDatasets db) = 1) ErrDocumentNotFound)"

definition lockDocumentData :: "faults \<Rightarrow> access_db \<Rightarrow> string \<Rightarrow> access_error + unit" where
  "lockDocumentData flt db i =
     andThen (ask flt (Lock i) ()) (\<lambda>_. require (affected (\<lambda>k _. k = i) (tbData db) = 1) ErrDocumentNotFound)"

definition new_registration :: "string \<Rightarrow> string \<Rightarrow> document_row" where
  "new_registration tenantID mode =
     \<lparr>drTenant = tenantID, drMode = mode, drACLRevision = 1, drContentRevision = 1, drTombstoned = False, drHold = False\<rparr>"

definition RegisterDocument ::
  "(string \<Rightarrow> string) \<Rightarrow> faults \<Rightarrow> access_db option \<Rightarrow> Actor \<Rightarrow> doc_ref \<Rightarrow> string \<Rightarrow> string \<Rightarrow> access_error + document_row \<times> access_db" where
  "RegisterDocument uni flt p actor ref tenantID mode =
     (case p of None \<Rightarrow> Inl ErrDocumentInvalid
      | Some db \<Rightarrow>
        if fst ref = '''' \<or> snd ref = '''' \<or> tenantID = '''' \<or> \<not> documentModeValid mode then Inl ErrDocumentInvalid
        else andThen (ask flt Begin ()) (\<lambda>_. andThen (lockDocumentDataset flt db (fst ref)) (\<lambda>_.
          if \<not> APIKeyAllows uni (acAPIKeyPermissions actor) ''share'' then Inl ErrDocumentForbidden
          else andThen (documentIdentity flt db (acUserID actor)) (\<lambda>(active, admin).
            if \<not> active then Inl ErrDocumentForbidden
            else andThen (documentOwner flt db ref) (\<lambda>owner.
              andThen (if admin then Inr ()
                       else andThen (documentMember flt db (acUserID actor) tenantID) (\<lambda>member.
                         require (member \<and> acTenantID actor = tenantID \<and> owner = acUserID actor) ErrDocumentForbidden)) (\<lambda>_.
                andThen (lockDocumentData flt db (snd ref)) (\<lambda>_.
                  if flt (Exec ''document_resources'' (fst ref) (snd ref))
                    \<or> (map_of (tbResources db) ref = None \<and> map_of (tbTenants db) tenantID = None) then Inl ErrSql
                  else (let db' = (case map_of (tbResources db) ref of
                                     Some _ \<Rightarrow> db
                                   | None \<Rightarrow> db\<lparr>tbResources := tbResources db @ [(ref, new_registration tenantID mode)]\<rparr>) in
                    andThen (documentResource flt db' ref) (\<lambda>r.
                      if drTenant r \<noteq> tenantID \<or> drMode r \<noteq> mode \<or> drTombstoned r then Inl ErrDocumentVersionConflict
                      else ask flt Commit (r, db'))))))))))"

section \<open>Sources\<close>

definition retire_artifacts :: "(string \<Rightarrow> bool) \<Rightarrow> access_db \<Rightarrow> access_db" where
  "retire_artifacts P db = db\<lparr>tbArtifacts := update_where (\<lambda>_ (d, active). active \<and> P d) (\<lambda>(d, _). (d, False)) (tbArtifacts db)\<rparr>"

definition AdvanceSourceVersion :: "faults \<Rightarrow> access_db \<Rightarrow> string \<Rightarrow> access_error + int \<times> access_db" where
  "AdvanceSourceVersion flt db dataID =
     (if dataID = '''' then Inl ErrDocumentInvalid
      else andThen (ask flt (Exec ''source_revision_counter'' '''' '''') (tbCounter db)) (\<lambda>counter.
        case counter of
          None \<Rightarrow> Inl ErrSourceCounter
        | Some v \<Rightarrow>
            if \<not> (v \<ge> 1 \<and> v < max_bigint) then Inl ErrSourceCounter
            else andThen (ask flt (Exec ''source_revision'' dataID '''') ()) (\<lambda>_.
              if affected (\<lambda>k _. k = dataID) (tbData db) \<noteq> 1 then Inl ErrDocumentNotFound
              else if flt (Exec ''document_index_publications'' dataID '''') \<or> flt (Exec ''artifacts'' dataID '''') then Inl ErrSql
              else Inr (v + 1,
                retire_artifacts (\<lambda>d. d = dataID)
                  (db\<lparr>tbCounter := Some (v + 1),
                      tbData := update_where (\<lambda>k _. k = dataID) (\<lambda>r. r\<lparr>daRevision := v + 1\<rparr>) (tbData db),
                      tbPublications := delete_where (\<lambda>(ref, _) _. snd ref = dataID) (tbPublications db)\<rparr>)))))"

definition renameDocumentSourceTx :: "faults \<Rightarrow> access_db \<Rightarrow> string \<Rightarrow> string \<Rightarrow> access_error + access_db" where
  "renameDocumentSourceTx flt db dataID name =
     andThen (ask flt (Exec ''data'' dataID name) ()) (\<lambda>_.
       if affected (\<lambda>k r. k = dataID \<and> daName r \<noteq> name) (tbData db) = 0 then Inr db
       else andThen (AdvanceSourceVersion flt
              (db\<lparr>tbData := update_where (\<lambda>k r. k = dataID \<and> daName r \<noteq> name) (\<lambda>r. r\<lparr>daName := name\<rparr>) (tbData db)\<rparr>) dataID)
            (\<lambda>(_, db'). Inr db'))"

definition link_count :: "access_db \<Rightarrow> string \<Rightarrow> nat" where
  "link_count db dataID = affected (\<lambda>k _. snd k = dataID) (tbLinks db)"

definition RenameDocument ::
  "(string \<Rightarrow> string) \<Rightarrow> faults \<Rightarrow> access_db option \<Rightarrow> Actor \<Rightarrow> doc_ref \<Rightarrow> int \<Rightarrow> int \<Rightarrow> string \<Rightarrow>
   access_error + document_row \<times> access_db" where
  "RenameDocument uni flt p actor ref expectedACL expectedContent name =
     (case p of None \<Rightarrow> Inl ErrDocumentInvalid
      | Some db \<Rightarrow>
        if expectedACL \<le> 0 \<or> expectedContent \<le> 0 \<or> name = '''' then Inl ErrDocumentInvalid
        else andThen (ask flt Begin ()) (\<lambda>_. andThen (lockDocumentDataset flt db (fst ref)) (\<lambda>_.
          andThen (lockDocumentData flt db (snd ref)) (\<lambda>_.
            andThen (mutateDocumentTx uni flt db actor ref expectedACL expectedContent ''write'' (\<lambda>_ db1.
                andThen (ask flt (SelLinkCount (snd ref)) (link_count db1 (snd ref))) (\<lambda>n.
                  if n \<noteq> 1 then Inl ErrDocumentSharedMetadata
                  else andThen (renameDocumentSourceTx flt db1 (snd ref) name) (advance_content flt ref)))) (\<lambda>result.
              ask flt Commit result)))))"

text \<open>\<open>p\<close> is the database when the dataset is authorized, \<open>db\<close> when the transaction begins.\<close>

definition RenameLegacyDocument ::
  "(string \<Rightarrow> string) \<Rightarrow> faults \<Rightarrow> access_db option \<Rightarrow> access_db \<Rightarrow> Actor \<Rightarrow> doc_ref \<Rightarrow> string \<Rightarrow> access_error + access_db" where
  "RenameLegacyDocument uni flt p db actor ref name =
     (if p = None \<or> name = '''' then Inl ErrDocumentInvalid
      else andThen (AuthorizeDataset uni flt p actor (fst ref) ''write'') (\<lambda>d.
        if \<not> dcAllowed d then Inl ErrDocumentForbidden
        else andThen (ask flt Begin ()) (\<lambda>_. andThen (lockDocumentDataset flt db (fst ref)) (\<lambda>_.
          andThen (lockDocumentData flt db (snd ref)) (\<lambda>_. andThen (documentOwner flt db ref) (\<lambda>_.
            andThen (ask flt (SelAliases (snd ref)) (affected (\<lambda>k _. snd k = snd ref) (tbResources db))) (\<lambda>n.
              if n \<noteq> 0 then Inl ErrDocumentSharedMetadata
              else andThen (renameDocumentSourceTx flt db (snd ref) name) (\<lambda>db'. ask flt Commit db'))))))))"

section \<open>Deletion\<close>

text \<open>The foreign keys on \<open>dataset_data\<close> take the publications and the pipeline statuses of a removed link with it.\<close>

definition drop_links :: "(doc_ref \<Rightarrow> bool) \<Rightarrow> access_db \<Rightarrow> access_db" where
  "drop_links P db =
     db\<lparr>tbLinks := delete_where (\<lambda>k _. P k) (tbLinks db),
        tbPublications := delete_where (\<lambda>(ref, _) _. P ref) (tbPublications db),
        tbStatuses := delete_where (\<lambda>(ref, _) _. P ref) (tbStatuses db)\<rparr>"

definition unlinkDocumentTx :: "faults \<Rightarrow> access_db \<Rightarrow> doc_ref \<Rightarrow> access_error + access_db" where
  "unlinkDocumentTx flt db ref =
     andThen (ask flt (Exec ''dataset_data'' (fst ref) (snd ref)) ()) (\<lambda>_.
       if affected (\<lambda>k _. k = ref) (tbLinks db) \<noteq> 1 then Inl ErrDocumentNotFound
       else if flt (Exec ''artifacts'' (snd ref) '''') \<or> flt (Exec ''data'' (snd ref) '''') then Inl ErrSql
       else (let db1 = drop_links (\<lambda>k. k = ref) db in
         if link_count db1 (snd ref) = 0
         then Inr (let db2 = retire_artifacts (\<lambda>d. d = snd ref) db1 in
                   db2\<lparr>tbData := delete_where (\<lambda>k _. k = snd ref) (tbData db2)\<rparr>)
         else Inr db1))"

text \<open>\<open>p\<close> is the database of the preflight, \<open>db\<close> the one in which the transaction begins.\<close>

definition DeleteDocumentAssociation ::
  "(string \<Rightarrow> string) \<Rightarrow> faults \<Rightarrow> access_db option \<Rightarrow> access_db \<Rightarrow> Actor \<Rightarrow> doc_ref \<Rightarrow> int \<Rightarrow> int \<Rightarrow> access_error + access_db" where
  "DeleteDocumentAssociation uni flt p db actor ref expectedACL expectedContent =
     (case p of None \<Rightarrow> Inl ErrDocumentNotFound
      | Some db0 \<Rightarrow>
        andThen (case GetDocumentResource flt p ref of
                   Inr _ \<Rightarrow> Inr True
                 | Inl e \<Rightarrow>
                     if e \<noteq> ErrDocumentNotFound then Inl e
                     else andThen (AuthorizeDataset uni flt p actor (fst ref) ''write'') (\<lambda>d.
                       if \<not> dcAllowed d then Inl ErrDocumentForbidden else Inr False)) (\<lambda>was_registered.
          andThen (ask flt Begin ()) (\<lambda>_. andThen (lockDocumentDataset flt db (fst ref)) (\<lambda>_.
            andThen (ask flt (SelReread ref) (map_of (tbResources db) ref)) (\<lambda>row.
              andThen (case row of
                  None \<Rightarrow> if was_registered then Inl ErrDocumentVersionConflict else unlinkDocumentTx flt db ref
                | Some _ \<Rightarrow>
                    if expectedACL \<le> 0 \<or> expectedContent \<le> 0 then Inl ErrDocumentInvalid
                    else andThen (mutateDocumentTx uni flt db actor ref expectedACL expectedContent ''delete'' (\<lambda>_ db1.
                           andThen (tombstone_content flt ref db1) (\<lambda>db2. unlinkDocumentTx flt db2 ref))) (\<lambda>(_, db3). Inr db3))
                (\<lambda>db'. ask flt Commit db'))))))"

fun tombstone_documents ::
  "(string \<Rightarrow> string) \<Rightarrow> faults \<Rightarrow> Actor \<Rightarrow> string \<Rightarrow> string list \<Rightarrow> access_db \<Rightarrow> access_error + access_db" where
  "tombstone_documents uni flt actor d [] db = Inr db"
| "tombstone_documents uni flt actor d (i # ids) db =
     andThen (documentResource flt db (d, i)) (\<lambda>r.
       if drHold r then Inl ErrDocumentForbidden
       else if drTombstoned r then tombstone_documents uni flt actor d ids db
       else andThen (mutateDocumentTx uni flt db actor (d, i) (drACLRevision r) (drContentRevision r) ''delete''
              (\<lambda>_. tombstone_content flt (d, i))) (\<lambda>(_, db'). tombstone_documents uni flt actor d ids db'))"

definition DeleteDatasetWithDocuments ::
  "(string list \<Rightarrow> string list) \<Rightarrow> (string \<Rightarrow> string) \<Rightarrow> faults \<Rightarrow> access_db option \<Rightarrow> access_db \<Rightarrow> Actor \<Rightarrow> string \<Rightarrow>
   access_error + access_db" where
  "DeleteDatasetWithDocuments orderBy uni flt p db actor d =
     (if p = None then Inl ErrDocumentNotFound
      else andThen (AuthorizeDataset uni flt p actor d ''write'') (\<lambda>dec.
        if \<not> dcAllowed dec then Inl ErrDocumentForbidden
        else andThen (ask flt Begin ()) (\<lambda>_. andThen (lockDocumentDataset flt db d) (\<lambda>_.
          andThen (ask flt (SelAliases d) (orderBy (map snd (filter (\<lambda>k. fst k = d) (map fst (tbResources db)))))) (\<lambda>ids.
            andThen (tombstone_documents uni flt actor d ids db) (\<lambda>db1.
              if flt (Exec ''datasets'' d '''') \<or> flt (Exec ''artifacts'' d '''') then Inl ErrSql
              else (let db2 = drop_links (\<lambda>k. fst k = d)
                          (db1\<lparr>tbDatasets := delete_where (\<lambda>k _. k = d) (tbDatasets db1),
                               tbShares := delete_where (\<lambda>k _. fst k = d) (tbShares db1)\<rparr>) in
                ask flt Commit (retire_artifacts (\<lambda>i. link_count db2 i = 0) db2))))))))"

section \<open>Pruning\<close>

definition blank :: "string \<Rightarrow> bool" where
  "blank s = list_all (\<lambda>c. c \<in> {CHR '' '', CHR 0x09, CHR 0x0A, CHR 0x0B, CHR 0x0C, CHR 0x0D}) s"

definition prune_row :: "access_db \<Rightarrow> doc_ref \<Rightarrow> document_row \<Rightarrow> document_row" where
  "prune_row db ref r =
     (if \<not> drTombstoned r \<or> list_ex (\<lambda>g. fst g = ref) (map fst (tbGrants db))
      then r\<lparr>drContentRevision := (if drTombstoned r then drContentRevision r else drContentRevision r + 1),
             drACLRevision := drACLRevision r + 1, drTombstoned := True\<rparr>
      else r)"

definition PruneData ::
  "(string \<Rightarrow> string) \<Rightarrow> faults \<Rightarrow> access_db option \<Rightarrow> MetadataActor \<Rightarrow> bool \<Rightarrow> int \<times> int \<times> int \<Rightarrow> int \<times> int \<times> int \<Rightarrow>
   access_error + access_db" where
  "PruneData uni flt p m includeGraph clock clock' =
     (let a = maActor m in
      if p = None then Inl ErrDocumentInvalid
      else if acTenantID a \<noteq> '''' \<or> \<not> APIKeyAllows uni (acAPIKeyPermissions a) ''delete''
              \<or> crKind (maCredential m) = ''api_key'' \<and> blank (acAPIKeyPermissions a) then Inl ErrDocumentForbidden
      else andThen (BeginMetadataWrite uni flt p m True clock) (\<lambda>db.
        andThen (if \<not> maTrustedLocal m \<or> acUserID a \<noteq> ''''
                 then andThen (documentIdentity flt db (acUserID a)) (\<lambda>(active, admin).
                        require (active \<and> admin) ErrDocumentForbidden)
                 else Inr ()) (\<lambda>_.
          andThen (ask flt SelHeld (list_ex (\<lambda>(_, r). drHold r) (tbResources db))) (\<lambda>held.
            if held then Inl ErrDocumentForbidden
            else if list_ex (\<lambda>(ref, r). drACLRevision (prune_row db ref r) > max_bigint
                                        \<or> drContentRevision (prune_row db ref r) > max_bigint) (tbResources db)
                    \<or> flt (Exec ''prune'' '''' '''') \<or> (includeGraph \<and> flt (Exec ''graph'' '''' '''')) then Inl ErrSql
            else (let db1 = db\<lparr>tbResources := map (\<lambda>(ref, r). (ref, prune_row db ref r)) (tbResources db)\<rparr>;
                      db2 = retire_artifacts (\<lambda>_. True) db1;
                      db3 = db2\<lparr>tbGrants := [], tbShares := [], tbLinks := [], tbPublications := [], tbStatuses := [], tbData := [], tbDatasets := []\<rparr> in
              andThen (if maTrustedLocal m then Inr ()
                       else RecheckCredential flt db3 (acUserID a) (maCredential m) (acAPIKeyPermissions a) clock') (\<lambda>_.
                ask flt Commit db3))))))"

text \<open>What the deletion of a directory group does to documents (scim_groups.go).\<close>

definition forget_group :: "string \<Rightarrow> access_db \<Rightarrow> access_db" where
  "forget_group g db =
     db\<lparr>tbResources := update_where (\<lambda>ref _. list_ex (\<lambda>(dr, prin). dr = ref \<and> prin = (''group'', g)) (map fst (tbGrants db)))
                         bump_acl (tbResources db),
        tbGrants := delete_where (\<lambda>(_, prin) _. prin = (''group'', g)) (tbGrants db),
        tbGroups := delete_where (\<lambda>k _. k = g) (tbGroups db),
        tbGroupMembers := delete_where (\<lambda>k _. fst k = g) (tbGroupMembers db)\<rparr>"

end
