(* ===== verification/Doc_Facts.thy ===== *)
theory Doc_Facts
  imports Doc_Policy
begin

text \<open>
  The life of a registration. \<open>row_moves\<close> is what one operation may do to a registered document: revisions only grow, a tombstone stays,
  and a held document keeps its content and its source. Every operation of the package is such a move, and so is every history.
\<close>

section \<open>Well-formed databases and moves\<close>

definition row_ok :: "access_db \<Rightarrow> doc_ref \<Rightarrow> document_row \<Rightarrow> bool" where
  "row_ok db ref r \<longleftrightarrow>
     0 < drACLRevision r \<and> 0 < drContentRevision r \<and> \<not> (drTombstoned r \<and> drHold r)
     \<and> (drTombstoned r \<or> map_of (tbLinks db) ref \<noteq> None)"

definition doc_ok :: "access_db \<Rightarrow> bool" where
  "doc_ok db \<longleftrightarrow> keyed (tbResources db) \<and> keyed (tbLinks db)
     \<and> (\<forall>ref r. map_of (tbResources db) ref = Some r \<longrightarrow> row_ok db ref r)"

definition row_moves :: "bool \<Rightarrow> access_db \<Rightarrow> access_db \<Rightarrow> doc_ref \<Rightarrow> bool" where
  "row_moves free db db' ref \<longleftrightarrow>
     (\<forall>r. map_of (tbResources db) ref = Some r \<longrightarrow>
       (\<exists>r'. map_of (tbResources db') ref = Some r' \<and> drTenant r' = drTenant r
          \<and> drACLRevision r \<le> drACLRevision r' \<and> drContentRevision r \<le> drContentRevision r'
          \<and> (drTombstoned r \<longrightarrow> drTombstoned r' \<and> drContentRevision r' = drContentRevision r)
          \<and> (drContentRevision r' = drContentRevision r \<longrightarrow> drTombstoned r' = drTombstoned r)
          \<and> (drHold r \<and> \<not> free \<longrightarrow> drHold r' \<and> drContentRevision r' = drContentRevision r
               \<and> map_of (tbLinks db') ref = map_of (tbLinks db) ref)))"

definition doc_move :: "doc_ref set \<Rightarrow> access_db \<Rightarrow> access_db \<Rightarrow> bool" where
  "doc_move U db db' \<longleftrightarrow> (doc_ok db \<longrightarrow> doc_ok db' \<and> (\<forall>ref. row_moves (ref \<in> U) db db' ref))"

lemma doc_okD:
  assumes "doc_ok db"
  shows "keyed (tbResources db)" and "keyed (tbLinks db)" and "map_of (tbResources db) ref = Some r \<Longrightarrow> row_ok db ref r"
  using assms unfolding doc_ok_def by blast+

lemma doc_okI:
  assumes "keyed (tbResources db)" and "keyed (tbLinks db)" and "\<And>ref r. map_of (tbResources db) ref = Some r \<Longrightarrow> row_ok db ref r"
  shows "doc_ok db"
  using assms unfolding doc_ok_def by blast

lemma row_moves_refl: "row_moves free db db ref"
  by (simp add: row_moves_def)

lemma row_moves_trans:
  assumes "row_moves free db db1 ref" and "row_moves free db1 db2 ref"
  shows "row_moves free db db2 ref"
  unfolding row_moves_def
proof (intro allI impI)
  fix r assume "map_of (tbResources db) ref = Some r"
  with assms(1) obtain r1 where r1: "map_of (tbResources db1) ref = Some r1"
    and s1: "drTenant r1 = drTenant r" "drACLRevision r \<le> drACLRevision r1" "drContentRevision r \<le> drContentRevision r1"
      "drTombstoned r \<longrightarrow> drTombstoned r1 \<and> drContentRevision r1 = drContentRevision r"
      "drContentRevision r1 = drContentRevision r \<longrightarrow> drTombstoned r1 = drTombstoned r"
      "drHold r \<and> \<not> free \<longrightarrow> drHold r1 \<and> drContentRevision r1 = drContentRevision r \<and> map_of (tbLinks db1) ref = map_of (tbLinks db) ref"
    unfolding row_moves_def by blast
  from assms(2) r1 obtain r2 where r2: "map_of (tbResources db2) ref = Some r2"
    and s2: "drTenant r2 = drTenant r1" "drACLRevision r1 \<le> drACLRevision r2" "drContentRevision r1 \<le> drContentRevision r2"
      "drTombstoned r1 \<longrightarrow> drTombstoned r2 \<and> drContentRevision r2 = drContentRevision r1"
      "drContentRevision r2 = drContentRevision r1 \<longrightarrow> drTombstoned r2 = drTombstoned r1"
      "drHold r1 \<and> \<not> free \<longrightarrow> drHold r2 \<and> drContentRevision r2 = drContentRevision r1 \<and> map_of (tbLinks db2) ref = map_of (tbLinks db1) ref"
    unfolding row_moves_def by blast
  have "drContentRevision r2 = drContentRevision r \<longrightarrow> drTombstoned r2 = drTombstoned r"
    using s1(3,5) s2(3,5) by linarith
  moreover have "drTombstoned r \<longrightarrow> drTombstoned r2 \<and> drContentRevision r2 = drContentRevision r"
    using s1(4) s2(4) by simp
  moreover have "drHold r \<and> \<not> free \<longrightarrow> drHold r2 \<and> drContentRevision r2 = drContentRevision r
      \<and> map_of (tbLinks db2) ref = map_of (tbLinks db) ref"
    using s1(6) s2(6) by simp
  ultimately show "\<exists>r'. map_of (tbResources db2) ref = Some r' \<and> drTenant r' = drTenant r
          \<and> drACLRevision r \<le> drACLRevision r' \<and> drContentRevision r \<le> drContentRevision r'
          \<and> (drTombstoned r \<longrightarrow> drTombstoned r' \<and> drContentRevision r' = drContentRevision r)
          \<and> (drContentRevision r' = drContentRevision r \<longrightarrow> drTombstoned r' = drTombstoned r)
          \<and> (drHold r \<and> \<not> free \<longrightarrow> drHold r' \<and> drContentRevision r' = drContentRevision r
               \<and> map_of (tbLinks db2) ref = map_of (tbLinks db) ref)"
    using r2 s1(1-3) s2(1-3) by auto
qed

lemma row_moves_weaken: "row_moves False db db' ref \<Longrightarrow> row_moves free db db' ref"
  unfolding row_moves_def by blast

lemma doc_move_refl: "doc_move U db db"
  by (simp add: doc_move_def row_moves_refl)

lemma doc_move_trans: "doc_move U db db1 \<Longrightarrow> doc_move U db1 db2 \<Longrightarrow> doc_move U db db2"
  unfolding doc_move_def by (blast intro: row_moves_trans)

text \<open>A change of other tables: registrations stay as they are, and no link of a live registration goes away.\<close>

lemma doc_move_frame:
  assumes "tbResources db' = tbResources db" and "keyed (tbLinks db) \<Longrightarrow> keyed (tbLinks db')"
    and "\<And>ref r. doc_ok db \<Longrightarrow> map_of (tbResources db) ref = Some r \<Longrightarrow> \<not> drTombstoned r \<Longrightarrow> map_of (tbLinks db) ref \<noteq> None
           \<Longrightarrow> map_of (tbLinks db') ref \<noteq> None"
  shows "doc_move U db db'"
proof -
  have linked: "map_of (tbLinks db) ref \<noteq> None \<and> map_of (tbLinks db') ref \<noteq> None"
    if "doc_ok db" "map_of (tbResources db) ref = Some r" "\<not> drTombstoned r" for ref r
    using doc_okD(3) [OF that(1,2)] assms(3) [OF that] that(3) by (auto simp: row_ok_def)
  have "map_of (tbLinks db') ref = map_of (tbLinks db) ref" if "doc_ok db" "map_of (tbResources db) ref = Some r" "drHold r" for ref r
  proof -
    from doc_okD(3) [OF that(1,2)] that(3) have "\<not> drTombstoned r" by (auto simp: row_ok_def)
    with linked [OF that(1,2)] show ?thesis by auto
  qed
  moreover have "doc_ok db'" if ok: "doc_ok db"
  proof (rule doc_okI)
    show "keyed (tbResources db')" "keyed (tbLinks db')"
      using doc_okD(1,2) [OF ok] assms(1,2) by simp_all
    fix ref r assume "map_of (tbResources db') ref = Some r"
    then have r: "map_of (tbResources db) ref = Some r" by (simp add: assms(1))
    from doc_okD(3) [OF ok r] linked [OF ok r] show "row_ok db' ref r" by (auto simp: row_ok_def)
  qed
  ultimately show ?thesis
    by (auto simp: doc_move_def row_moves_def assms(1))
qed

section \<open>A change under the revision\<close>

lemma mutateTxE:
  assumes "mutateDocumentTx uni flt db actor ref acl content action mutate = Inr (r', db')" and "ValidPermissionType action"
  obtains r where "map_of (tbResources db) ref = Some r" and "may_use_document uni db actor ref r action"
    and "drACLRevision r = acl" and "content > 0 \<Longrightarrow> drContentRevision r = content" and "\<not> drTombstoned r"
    and "mutate r (db\<lparr>tbResources := update_where (cas_guard ref acl (drContentRevision r)) bump_acl (tbResources db)\<rparr>) = Inr db'"
    and "map_of (tbResources db') ref = Some r'"
proof -
  from assms(1) obtain r d where r: "map_of (tbResources db) ref = Some r"
    and d: "authorizeRegisteredDocument uni flt db actor ref r action = Inr d" "dcAllowed d"
    and rest: "drACLRevision r = acl" "content > 0 \<longrightarrow> drContentRevision r = content"
      "mutate r (db\<lparr>tbResources := update_where (cas_guard ref acl (drContentRevision r)) bump_acl (tbResources db)\<rparr>) = Inr db'"
      "map_of (tbResources db') ref = Some r'"
    by (auto simp: mutateDocumentTx_def documentResource_def andThen_Inr Let_def split: option.splits if_splits)
  from document_decision_sound [OF assms(2) d(1)] d(2) have may: "may_use_document uni db actor ref r action" by simp
  then have "\<not> drTombstoned r" by (simp add: may_use_document_def document_open_def)
  with r may rest show thesis by (intro that) auto
qed

lemma mutateDocument_Tx:
  "mutateDocument uni flt (Some db) actor ref acl content action mutate = Inr x \<Longrightarrow>
     0 < acl \<and> mutateDocumentTx uni flt db actor ref acl content action mutate = Inr x"
  by (auto simp: mutateDocument_def andThen_Inr split: if_splits)

text \<open>What the continuation of a change does to the registrations and to the links.\<close>

definition row_update :: "doc_ref \<Rightarrow> (document_row \<Rightarrow> document_row) \<Rightarrow> (document_row \<Rightarrow> access_db \<Rightarrow> access_error + access_db) \<Rightarrow> bool" where
  "row_update ref f mutate \<longleftrightarrow>
     (\<forall>r db db'. mutate r db = Inr db' \<longrightarrow>
        map_of (tbResources db') = (map_of (tbResources db))(ref := map_option f (map_of (tbResources db) ref))
        \<and> (keyed (tbResources db) \<longrightarrow> keyed (tbResources db'))
        \<and> (keyed (tbLinks db) \<longrightarrow> keyed (tbLinks db')
            \<and> (\<forall>k. k \<noteq> ref \<longrightarrow> map_of (tbLinks db') k = map_of (tbLinks db) k)
            \<and> (map_of (tbLinks db') ref = map_of (tbLinks db) ref \<or> (\<forall>r. drTombstoned (f r)))))"

text \<open>A share changes neither content nor tombstone; a write or a deletion advances the content.\<close>

definition legal_update :: "string \<Rightarrow> bool \<Rightarrow> (document_row \<Rightarrow> document_row) \<Rightarrow> bool" where
  "legal_update action free f \<longleftrightarrow>
     (\<forall>r. drTenant (f r) = drTenant r \<and> drACLRevision (f r) = drACLRevision r
        \<and> (if action = ''share''
           then drContentRevision (f r) = drContentRevision r \<and> drTombstoned (f r) = drTombstoned r \<and> (drHold (f r) = drHold r \<or> free)
           else drContentRevision (f r) = drContentRevision r + 1 \<and> drHold (f r) = drHold r \<and> (drTombstoned r \<longrightarrow> drTombstoned (f r))))"

lemma bump_acl_fields:
  "drTenant (bump_acl r) = drTenant r" "drACLRevision (bump_acl r) = drACLRevision r + 1"
  "drContentRevision (bump_acl r) = drContentRevision r" "drTombstoned (bump_acl r) = drTombstoned r"
  "drHold (bump_acl r) = drHold r" "drMode (bump_acl r) = drMode r"
  by (simp_all add: bump_acl_def)

lemma mutateTx_row:
  assumes tx: "mutateDocumentTx uni flt db actor ref acl content action mutate = Inr (r', db')"
    and action: "action \<in> {''write'', ''delete'', ''share''}" and upd: "row_update ref f mutate"
  obtains r where "map_of (tbResources db) ref = Some r" and "may_use_document uni db actor ref r action"
    and "drACLRevision r = acl" and "content > 0 \<Longrightarrow> drContentRevision r = content"
    and "map_of (tbResources db') = (map_of (tbResources db))(ref \<mapsto> f (bump_acl r))"
    and "keyed (tbResources db) \<Longrightarrow> keyed (tbResources db')"
    and "keyed (tbLinks db) \<Longrightarrow> keyed (tbLinks db')"
    and "\<And>k. keyed (tbLinks db) \<Longrightarrow> k \<noteq> ref \<Longrightarrow> map_of (tbLinks db') k = map_of (tbLinks db) k"
    and "keyed (tbLinks db) \<Longrightarrow> map_of (tbLinks db') ref = map_of (tbLinks db) ref \<or> (\<forall>r. drTombstoned (f r))"
proof -
  have valid: "ValidPermissionType action" using action by (auto simp: ValidPermissionType_def)
  from mutateTxE [OF tx valid] obtain r where r: "map_of (tbResources db) ref = Some r"
    "may_use_document uni db actor ref r action" "drACLRevision r = acl" "content > 0 \<Longrightarrow> drContentRevision r = content"
    "\<not> drTombstoned r"
    and m: "mutate r (db\<lparr>tbResources := update_where (cas_guard ref acl (drContentRevision r)) bump_acl (tbResources db)\<rparr>) = Inr db'"
    by blast
  let ?db1 = "db\<lparr>tbResources := update_where (cas_guard ref acl (drContentRevision r)) bump_acl (tbResources db)\<rparr>"
  have bumped: "map_of (update_where (cas_guard ref acl (drContentRevision r)) bump_acl (tbResources db)) = (map_of (tbResources db))(ref \<mapsto> bump_acl r)"
    using r by (auto simp: sql cas_guard_def fun_eq_iff map_option.compositionality comp_def option.map_ident split: option.splits)
  from upd m have eff: "map_of (tbResources db') = (map_of (tbResources ?db1))(ref := map_option f (map_of (tbResources ?db1) ref))"
    "keyed (tbResources ?db1) \<Longrightarrow> keyed (tbResources db')" "keyed (tbLinks ?db1) \<Longrightarrow> keyed (tbLinks db')"
    "\<And>k. keyed (tbLinks ?db1) \<Longrightarrow> k \<noteq> ref \<Longrightarrow> map_of (tbLinks db') k = map_of (tbLinks ?db1) k"
    "keyed (tbLinks ?db1) \<Longrightarrow> map_of (tbLinks db') ref = map_of (tbLinks ?db1) ref \<or> (\<forall>r. drTombstoned (f r))"
    unfolding row_update_def by blast+
  show thesis
    by (rule that [OF r(1-4)]) (use eff in \<open>simp_all add: bumped\<close>)
qed

lemma mutateTx_result:
  assumes "mutateDocumentTx uni flt db actor ref acl content action mutate = Inr (r', db')"
    and "action \<in> {''write'', ''delete'', ''share''}" and "row_update ref f mutate"
  shows "\<exists>r. map_of (tbResources db) ref = Some r \<and> map_of (tbResources db') = (map_of (tbResources db))(ref \<mapsto> f (bump_acl r))"
  by (rule mutateTx_row [OF assms]) (intro exI conjI, assumption+)

lemma mutateTx_move:
  assumes tx: "mutateDocumentTx uni flt db actor ref acl content action mutate = Inr (r', db')"
    and action: "action \<in> {''write'', ''delete'', ''share''}" and upd: "row_update ref f mutate"
    and legal: "legal_update action (ref \<in> U) f"
  shows "doc_move U db db'"
  unfolding doc_move_def
proof (intro impI conjI allI)
  assume ok: "doc_ok db"
  from mutateTx_row [OF tx action upd] obtain r where r: "map_of (tbResources db) ref = Some r"
    and may: "may_use_document uni db actor ref r action"
    and res: "map_of (tbResources db') = (map_of (tbResources db))(ref \<mapsto> f (bump_acl r))"
    and keys: "keyed (tbResources db')" "keyed (tbLinks db')"
    and links: "\<And>k. k \<noteq> ref \<Longrightarrow> map_of (tbLinks db') k = map_of (tbLinks db) k"
    and link: "map_of (tbLinks db') ref = map_of (tbLinks db) ref \<or> (\<forall>r. drTombstoned (f r))"
    using ok unfolding doc_ok_def by metis
  from may have open_now: "\<not> drTombstoned r" "drHold r \<longrightarrow> action = ''share''"
    using action by (auto simp: may_use_document_def document_open_def)
  from ok r have rok: "row_ok db ref r" by (rule doc_okD)
  define r1 where "r1 = f (bump_acl r)"
  from spec [OF legal [unfolded legal_update_def], of "bump_acl r"] have f: "drTenant r1 = drTenant r" "drACLRevision r1 = drACLRevision r + 1"
    "action = ''share'' \<Longrightarrow> drContentRevision r1 = drContentRevision r \<and> drTombstoned r1 = drTombstoned r \<and> (drHold r1 = drHold r \<or> ref \<in> U)"
    "action \<noteq> ''share'' \<Longrightarrow> drContentRevision r1 = drContentRevision r + 1 \<and> drHold r1 = drHold r"
    unfolding r1_def by (simp_all add: bump_acl_fields)
  have same_link: "map_of (tbLinks db') ref = map_of (tbLinks db) ref \<or> drTombstoned r1"
    using link by (auto simp: r1_def)
  have row1: "row_ok db' ref r1"
    using rok f open_now same_link by (cases "action = ''share''") (auto simp: row_ok_def)
  show "doc_ok db'"
  proof (rule doc_okI [OF keys])
    fix k x assume x: "map_of (tbResources db') k = Some x"
    show "row_ok db' k x"
    proof (cases "k = ref")
      case True
      with x row1 show ?thesis by (simp add: res r1_def)
    next
      case False
      with x have "row_ok db k x" by (intro doc_okD(3) [OF ok]) (simp add: res)
      with links [OF False] show ?thesis by (simp add: row_ok_def)
    qed
  qed
  fix k
  show "row_moves (k \<in> U) db db' k"
  proof (cases "k = ref")
    case True
    then show ?thesis
      using f open_now same_link r by (cases "action = ''share''") (auto simp: row_moves_def res r1_def [symmetric])
  next
    case False
    then show ?thesis by (simp add: row_moves_def res links)
  qed
qed

end
