(* ===== verification/Doc_Steps.thy ===== *)
theory Doc_Steps
  imports Doc_Facts
begin

text \<open>
  Every operation of the package on documents is a move (\<open>doc_move\<close>), and the relation \<open>doc_step\<close> of all that can happen to the tables is
  a sequence of moves. A step is labelled by the registration whose hold it sets, if it sets one.
\<close>

section \<open>The continuations\<close>

lemma set_row_effect:
  assumes "set_row flt what ref f db = Inr db'"
  shows "map_of (tbResources db') = (map_of (tbResources db))(ref := map_option f (map_of (tbResources db) ref))"
    and "tbLinks db' = tbLinks db" and "keyed (tbResources db') = keyed (tbResources db)" and "tbGrants db' = tbGrants db"
proof -
  from assms have db': "db' = db\<lparr>tbResources := update_where (\<lambda>k _. k = ref) f (tbResources db)\<rparr>" by (simp add: set_row_def)
  show "map_of (tbResources db') = (map_of (tbResources db))(ref := map_option f (map_of (tbResources db) ref))"
  proof
    fix k
    show "map_of (tbResources db') k = ((map_of (tbResources db))(ref := map_option f (map_of (tbResources db) ref))) k"
      by (cases "k = ref") (simp_all add: db' sql option.map_ident)
  qed
  show "tbLinks db' = tbLinks db" "keyed (tbResources db') = keyed (tbResources db)" "tbGrants db' = tbGrants db"
    by (simp_all add: db')
qed

lemma row_update_set: "row_update ref f (\<lambda>_. set_row flt what ref f)"
  by (simp add: row_update_def set_row_effect)

lemma row_update_tables:
  assumes "\<And>r db db'. mutate r db = Inr db' \<Longrightarrow> tbResources db' = tbResources db \<and> tbLinks db' = tbLinks db"
  shows "row_update ref id mutate"
  unfolding row_update_def by (auto dest!: assms simp: fun_eq_iff option.map_id)

lemma row_update_advance: "row_update ref bump_content_row (\<lambda>_. advance_content flt ref)"
  by (auto simp: row_update_def advance_content_def set_row_effect split: if_splits)

lemma row_update_tombstone: "row_update ref tombstone_row (\<lambda>_. tombstone_content flt ref)"
  by (auto simp: row_update_def tombstone_content_def set_row_effect split: if_splits)

lemma legal_updates:
  "legal_update ''share'' free id" "legal_update ''share'' free (\<lambda>r. r\<lparr>drMode := mode\<rparr>)"
  "legal_update ''share'' True (\<lambda>r. r\<lparr>drHold := h\<rparr>)"
  "legal_update ''write'' free bump_content_row" "legal_update ''delete'' free tombstone_row"
  by (simp_all add: legal_update_def bump_content_row_def tombstone_row_def)

section \<open>The operations\<close>

text \<open>An operation through \<open>mutateDocument\<close>.\<close>

lemma mutateDocument_move:
  assumes "mutateDocument uni flt (Some db) actor ref acl content action mutate = Inr (r', db')"
    and "action \<in> {''write'', ''delete'', ''share''}" and "row_update ref f mutate" and "legal_update action (ref \<in> U) f"
  shows "doc_move U db db'"
  using mutateTx_move [OF conjunct2 [OF mutateDocument_Tx [OF assms(1)]] assms(2-4)] .

lemma GrantDocument_move:
  assumes "GrantDocument uni flt (Some db) actor ref expected prin role = Inr (r', db')"
  shows "doc_move U db db'"
proof -
  from assms obtain role' where
    "mutateDocument uni flt (Some db) actor ref expected 0 ''share'' (\<lambda>r db.
        andThen (validateDocumentPrincipal flt db prin (drTenant r)) (\<lambda>_.
          if role' \<notin> {''viewer'', ''editor'', ''admin''} then Inl ErrSql
          else ask flt (Exec ''document_grants'' (fst ref) (snd ref))
                 (db\<lparr>tbGrants := AList.update (ref, prin) role' (tbGrants db)\<rparr>))) = Inr (r', db')"
    by (auto simp: GrantDocument_def Let_def split: if_splits)
  then show ?thesis
    by (rule mutateDocument_move [where f = id]) (auto simp: andThen_Inr legal_updates intro!: row_update_tables split: if_splits)
qed

lemma RevokeDocument_move:
  assumes "RevokeDocument uni flt (Some db) actor ref expected prin = Inr (r', db')"
  shows "doc_move U db db'"
proof -
  from assms have
    "mutateDocument uni flt (Some db) actor ref expected 0 ''share'' (\<lambda>_ db.
        ask flt (Exec ''document_grants'' (fst ref) (snd ref))
          (db\<lparr>tbGrants := delete_where (\<lambda>k _. k = (ref, prin)) (tbGrants db)\<rparr>)) = Inr (r', db')"
    by (auto simp: RevokeDocument_def split: if_splits)
  then show ?thesis
    by (rule mutateDocument_move [where f = id]) (auto simp: legal_updates intro!: row_update_tables)
qed

lemma SetDocumentMode_move:
  "SetDocumentMode uni flt (Some db) actor ref expected mode = Inr (r', db') \<Longrightarrow> doc_move U db db'"
  by (auto simp: SetDocumentMode_def legal_updates intro!: mutateDocument_move row_update_set split: if_splits)

lemma SetDocumentHold_move:
  "SetDocumentHold uni flt (Some db) actor ref expected h = Inr (r', db') \<Longrightarrow> doc_move {ref} db db'"
  by (auto simp: SetDocumentHold_def legal_updates intro!: mutateDocument_move row_update_set)

lemma TombstoneDocument_move:
  "TombstoneDocument uni flt (Some db) actor ref acl content = Inr (r', db') \<Longrightarrow> doc_move U db db'"
  by (auto simp: TombstoneDocument_def legal_updates intro!: mutateDocument_move row_update_tombstone split: if_splits)

lemma AdvanceDocumentContent_move:
  "AdvanceDocumentContent uni flt (Some db) actor ref acl content = Inr (r', db') \<Longrightarrow> doc_move U db db'"
  by (auto simp: AdvanceDocumentContent_def legal_updates intro!: mutateDocument_move row_update_advance split: if_splits)

section \<open>Registration and renaming\<close>

lemma RegisterDocument_move:
  assumes "RegisterDocument uni flt (Some db) actor ref tenantID mode = Inr (r', db')"
  shows "doc_move U db db'"
proof -
  from assms have link: "map_of (tbLinks db) ref \<noteq> None"
    and cases: "db' = db \<or> (map_of (tbResources db) ref = None
                   \<and> db' = db\<lparr>tbResources := tbResources db @ [(ref, new_registration tenantID mode)]\<rparr>)"
    by (auto simp: RegisterDocument_def andThen_Inr Let_def documentOwner_Inr split: if_splits option.splits)
  from cases show ?thesis
  proof (elim disjE conjE)
    assume "db' = db"
    then show ?thesis by (simp add: doc_move_refl)
  next
    assume fresh: "map_of (tbResources db) ref = None"
      and db': "db' = db\<lparr>tbResources := tbResources db @ [(ref, new_registration tenantID mode)]\<rparr>"
    have res: "map_of (tbResources db') = (map_of (tbResources db))(ref \<mapsto> new_registration tenantID mode)"
      using fresh by (auto simp: db' map_add_def fun_eq_iff split: option.splits)
    have "doc_ok db'" if ok: "doc_ok db"
    proof (rule doc_okI)
      show "keyed (tbResources db')"
        using doc_okD(1) [OF ok] fresh by (auto simp: db' keyed_def map_of_eq_None_iff)
      show "keyed (tbLinks db')"
        using doc_okD(2) [OF ok] by (simp add: db')
      fix k x assume x: "map_of (tbResources db') k = Some x"
      show "row_ok db' k x"
      proof (cases "k = ref")
        case True
        with x have "x = new_registration tenantID mode" by (simp add: res)
        with True link show ?thesis by (simp add: row_ok_def new_registration_def db')
      next
        case False
        with x have "row_ok db k x" by (intro doc_okD(3) [OF ok]) (simp add: res)
        then show ?thesis by (simp add: row_ok_def db')
      qed
    qed
    moreover have "row_moves free db db' k" for free k
      using fresh by (auto simp: row_moves_def res db')
    ultimately show ?thesis by (simp add: doc_move_def)
  qed
qed

lemma AdvanceSourceVersion_frame:
  assumes "AdvanceSourceVersion flt db dataID = Inr (v, db')"
  shows "tbResources db' = tbResources db" and "tbLinks db' = tbLinks db" and "tbGrants db' = tbGrants db"
  using assms by (auto simp: AdvanceSourceVersion_def andThen_Inr retire_artifacts_def Let_def split: option.splits if_splits)

lemma renameDocumentSourceTx_frame:
  assumes "renameDocumentSourceTx flt db dataID name = Inr db'"
  shows "tbResources db' = tbResources db" and "tbLinks db' = tbLinks db" and "tbGrants db' = tbGrants db"
  using assms by (auto simp: renameDocumentSourceTx_def andThen_Inr dest: AdvanceSourceVersion_frame split: if_splits)

lemma row_update_rename:
  "row_update ref bump_content_row (\<lambda>_ db1.
     andThen (ask flt (SelLinkCount (snd ref)) (link_count db1 (snd ref))) (\<lambda>n.
       if n \<noteq> 1 then Inl ErrDocumentSharedMetadata
       else andThen (renameDocumentSourceTx flt db1 (snd ref) name) (advance_content flt ref)))"
  unfolding row_update_def
proof (intro allI impI)
  fix r :: document_row and db db'
  assume "andThen (ask flt (SelLinkCount (snd ref)) (link_count db (snd ref))) (\<lambda>n.
       if n \<noteq> 1 then Inl ErrDocumentSharedMetadata
       else andThen (renameDocumentSourceTx flt db (snd ref) name) (advance_content flt ref)) = Inr db'"
  then obtain db2 where db2: "renameDocumentSourceTx flt db (snd ref) name = Inr db2"
    and adv: "set_row flt ''content_revision'' ref bump_content_row db2 = Inr db'"
    by (auto simp: andThen_Inr advance_content_def split: if_splits)
  show "map_of (tbResources db') = (map_of (tbResources db))(ref := map_option bump_content_row (map_of (tbResources db) ref))
        \<and> (keyed (tbResources db) \<longrightarrow> keyed (tbResources db'))
        \<and> (keyed (tbLinks db) \<longrightarrow> keyed (tbLinks db')
            \<and> (\<forall>k. k \<noteq> ref \<longrightarrow> map_of (tbLinks db') k = map_of (tbLinks db) k)
            \<and> (map_of (tbLinks db') ref = map_of (tbLinks db) ref \<or> (\<forall>r. drTombstoned (bump_content_row r))))"
    by (simp add: set_row_effect [OF adv] renameDocumentSourceTx_frame [OF db2])
qed

lemma RenameDocument_move:
  assumes "RenameDocument uni flt (Some db) actor ref acl content name = Inr (r', db')"
  shows "doc_move U db db'"
proof -
  from assms have "mutateDocumentTx uni flt db actor ref acl content ''write'' (\<lambda>_ db1.
     andThen (ask flt (SelLinkCount (snd ref)) (link_count db1 (snd ref))) (\<lambda>n.
       if n \<noteq> 1 then Inl ErrDocumentSharedMetadata
       else andThen (renameDocumentSourceTx flt db1 (snd ref) name) (advance_content flt ref))) = Inr (r', db')"
    by (auto simp: RenameDocument_def andThen_Inr split: if_splits)
  then show ?thesis
    by (rule mutateTx_move [OF _ _ row_update_rename]) (simp_all add: legal_updates)
qed

lemma RenameLegacyDocument_frame:
  assumes "RenameLegacyDocument uni flt p db actor ref name = Inr db'"
  shows "tbResources db' = tbResources db" and "tbLinks db' = tbLinks db" and "tbGrants db' = tbGrants db"
  using assms by (auto simp: RenameLegacyDocument_def andThen_Inr dest: renameDocumentSourceTx_frame split: if_splits)

lemma RenameLegacyDocument_move:
  "RenameLegacyDocument uni flt p db actor ref name = Inr db' \<Longrightarrow> doc_move U db db'"
  by (rule doc_move_frame) (simp_all add: RenameLegacyDocument_frame)

section \<open>Deletion\<close>

lemma unlink_effect:
  assumes "unlinkDocumentTx flt db ref = Inr db'"
  shows "tbResources db' = tbResources db" and "tbGrants db' = tbGrants db"
    and "tbLinks db' = delete_where (\<lambda>k _. k = ref) (tbLinks db)"
  using assms by (auto simp: unlinkDocumentTx_def andThen_Inr Let_def drop_links_def retire_artifacts_def split: if_splits)

lemma row_update_delete:
  "row_update ref tombstone_row (\<lambda>_ db1. andThen (tombstone_content flt ref db1) (\<lambda>db2. unlinkDocumentTx flt db2 ref))"
  unfolding row_update_def
proof (intro allI impI)
  fix r :: document_row and db db'
  assume "andThen (tombstone_content flt ref db) (\<lambda>db2. unlinkDocumentTx flt db2 ref) = Inr db'"
  then obtain db2 where db2: "set_row flt ''tombstoned'' ref tombstone_row db = Inr db2" and un: "unlinkDocumentTx flt db2 ref = Inr db'"
    by (auto simp: andThen_Inr tombstone_content_def split: if_splits)
  note s = set_row_effect [OF db2] and u = unlink_effect [OF un]
  show "map_of (tbResources db') = (map_of (tbResources db))(ref := map_option tombstone_row (map_of (tbResources db) ref))
        \<and> (keyed (tbResources db) \<longrightarrow> keyed (tbResources db'))
        \<and> (keyed (tbLinks db) \<longrightarrow> keyed (tbLinks db')
            \<and> (\<forall>k. k \<noteq> ref \<longrightarrow> map_of (tbLinks db') k = map_of (tbLinks db) k)
            \<and> (map_of (tbLinks db') ref = map_of (tbLinks db) ref \<or> (\<forall>r. drTombstoned (tombstone_row r))))"
    by (simp add: s u delete_where_lookup tombstone_row_def split: option.split)
qed

lemma DeleteDocumentAssociation_cases:
  assumes "DeleteDocumentAssociation uni flt p db actor ref acl content = Inr db'"
  obtains "map_of (tbResources db) ref = None" and "unlinkDocumentTx flt db ref = Inr db'"
  | r' where "map_of (tbResources db) ref \<noteq> None" and "0 < acl" and "0 < content"
      and "mutateDocumentTx uni flt db actor ref acl content ''delete'' (\<lambda>_ db1.
             andThen (tombstone_content flt ref db1) (\<lambda>db2. unlinkDocumentTx flt db2 ref)) = Inr (r', db')"
  using assms
  by (auto simp: DeleteDocumentAssociation_def andThen_Inr split: option.splits if_splits)

lemma DeleteDocumentAssociation_move:
  assumes "DeleteDocumentAssociation uni flt p db actor ref acl content = Inr db'"
  shows "doc_move U db db'"
  using assms
proof (cases rule: DeleteDocumentAssociation_cases)
  case 1
  show ?thesis
  proof (rule doc_move_frame)
    show "tbResources db' = tbResources db" by (rule unlink_effect(1) [OF 1(2)])
    show "keyed (tbLinks db')" if "keyed (tbLinks db)" using that by (simp add: unlink_effect(3) [OF 1(2)])
    fix k r assume k: "map_of (tbResources db) k = Some r" "map_of (tbLinks db) k \<noteq> None"
    with 1(1) have "k \<noteq> ref" by auto
    with k(2) have "(k, ()) \<in> set (tbLinks db')"
      by (auto simp: unlink_effect(3) [OF 1(2)] delete_where_def dest: map_of_SomeD)
    then show "map_of (tbLinks db') k \<noteq> None" by (metis map_of_eq_None_iff fst_conv image_eqI)
  qed
next
  case (2 r')
  show ?thesis
    by (rule mutateTx_move [OF 2(4) _ row_update_delete]) (simp_all add: legal_updates)
qed

lemma tombstone_documents_move:
  "tombstone_documents uni flt actor d ids db = Inr db' \<Longrightarrow> doc_move {} db db'"
proof (induction ids arbitrary: db)
  case Nil
  then show ?case by (simp add: doc_move_refl)
next
  case (Cons i ids)
  from Cons.prems obtain r where r: "documentResource flt db (d, i) = Inr r" "\<not> drHold r"
    and rest: "(drTombstoned r \<and> tombstone_documents uni flt actor d ids db = Inr db') \<or>
       (\<exists>r' db1. mutateDocumentTx uni flt db actor (d, i) (drACLRevision r) (drContentRevision r) ''delete''
                   (\<lambda>_. tombstone_content flt (d, i)) = Inr (r', db1)
                 \<and> tombstone_documents uni flt actor d ids db1 = Inr db')"
    by (auto simp: andThen_Inr split: if_splits)
  from rest show ?case
  proof (elim disjE exE conjE)
    assume "tombstone_documents uni flt actor d ids db = Inr db'"
    then show ?thesis by (rule Cons.IH)
  next
    fix r' db1
    assume "mutateDocumentTx uni flt db actor (d, i) (drACLRevision r) (drContentRevision r) ''delete''
                   (\<lambda>_. tombstone_content flt (d, i)) = Inr (r', db1)"
    then have "doc_move {} db db1"
      by (rule mutateTx_move [OF _ _ row_update_tombstone]) (simp_all add: legal_updates)
    moreover assume "tombstone_documents uni flt actor d ids db1 = Inr db'"
    then have "doc_move {} db1 db'" by (rule Cons.IH)
    ultimately show ?thesis by (rule doc_move_trans)
  qed
qed

text \<open>What the loop leaves: no row comes or goes, the links are untouched and every listed document is a tombstone without a hold.\<close>

lemma tombstone_documents_frame:
  assumes "tombstone_documents uni flt actor d ids db = Inr db'"
  shows "tbLinks db' = tbLinks db" and "dom (map_of (tbResources db')) = dom (map_of (tbResources db))"
  using assms
proof (induction ids arbitrary: db)
  case (Cons i ids)
  have step: "tbLinks db1 = tbLinks db0 \<and> dom (map_of (tbResources db1)) = dom (map_of (tbResources db0))"
    if tx: "mutateDocumentTx uni flt db0 actor (d, i) a c ''delete'' (\<lambda>_. tombstone_content flt (d, i)) = Inr (r', db1)" for db0 db1 a c r'
  proof -
    have valid: "ValidPermissionType ''delete''" by (simp add: ValidPermissionType_def)
    from mutateTxE [OF tx valid] obtain r where r: "map_of (tbResources db0) (d, i) = Some r"
      and m: "tombstone_content flt (d, i)
                (db0\<lparr>tbResources := update_where (cas_guard (d, i) a (drContentRevision r)) bump_acl (tbResources db0)\<rparr>) = Inr db1"
      by blast
    from m have "set_row flt ''tombstoned'' (d, i) tombstone_row
                (db0\<lparr>tbResources := update_where (cas_guard (d, i) a (drContentRevision r)) bump_acl (tbResources db0)\<rparr>) = Inr db1"
      by (simp add: tombstone_content_def split: if_splits)
    from set_row_effect(1,2) [OF this] show ?thesis
      by (auto simp: sql dom_def split: if_splits)
  qed
  {
    case 1
    from 1(1) show ?case using Cons.IH step by (fastforce simp: andThen_Inr split: if_splits)
  next
    case 2
    from 2(1) show ?case using Cons.IH step by (fastforce simp: andThen_Inr split: if_splits)
  }
qed simp_all

lemma tombstone_documents_all:
  assumes "doc_ok db" and "tombstone_documents uni flt actor d ids db = Inr db'" and "i \<in> set ids"
  shows "\<exists>r. map_of (tbResources db') (d, i) = Some r \<and> drTombstoned r"
  using assms
proof (induction ids arbitrary: db)
  case (Cons j ids)
  have stays: "\<exists>r. map_of (tbResources db') (d, i) = Some r \<and> drTombstoned r"
    if "doc_ok db1" "tombstone_documents uni flt actor d ids db1 = Inr db'" "map_of (tbResources db1) (d, i) = Some r" "drTombstoned r"
    for db1 r
    using tombstone_documents_move [OF that(2)] that(1,3,4) unfolding doc_move_def row_moves_def by blast
  from Cons.prems(2) obtain r where r: "documentResource flt db (d, j) = Inr r"
    and rest: "(drTombstoned r \<and> tombstone_documents uni flt actor d ids db = Inr db') \<or>
       (\<exists>r' db1. mutateDocumentTx uni flt db actor (d, j) (drACLRevision r) (drContentRevision r) ''delete''
                   (\<lambda>_. tombstone_content flt (d, j)) = Inr (r', db1)
                 \<and> tombstone_documents uni flt actor d ids db1 = Inr db')"
    by (auto simp: andThen_Inr split: if_splits)
  from r have row: "map_of (tbResources db) (d, j) = Some r"
    by (auto simp: documentResource_def andThen_Inr split: option.splits)
  from rest show ?case
  proof (elim disjE exE conjE)
    assume gone: "drTombstoned r" and loop: "tombstone_documents uni flt actor d ids db = Inr db'"
    show ?thesis
    proof (cases "i = j")
      case True
      show ?thesis by (rule stays [OF Cons.prems(1) loop row [folded True] gone])
    next
      case False
      with Cons.prems(3) have "i \<in> set ids" by simp
      then show ?thesis by (rule Cons.IH [OF Cons.prems(1) loop])
    qed
  next
    fix r' db1
    assume tx: "mutateDocumentTx uni flt db actor (d, j) (drACLRevision r) (drContentRevision r) ''delete''
                   (\<lambda>_. tombstone_content flt (d, j)) = Inr (r', db1)"
      and loop: "tombstone_documents uni flt actor d ids db1 = Inr db'"
    have "doc_move {} db db1"
      by (rule mutateTx_move [OF tx _ row_update_tombstone]) (simp_all add: legal_updates)
    with Cons.prems(1) have ok1: "doc_ok db1" by (simp add: doc_move_def)
    have act: "''delete'' \<in> {''write'', ''delete'', ''share''}" by simp
    from mutateTx_result [OF tx act row_update_tombstone] obtain r0 where
      "map_of (tbResources db1) = (map_of (tbResources db))((d, j) \<mapsto> tombstone_row (bump_acl r0))" by blast
    then have gone: "map_of (tbResources db1) (d, j) = Some (tombstone_row (bump_acl r0))" by simp
    show ?thesis
    proof (cases "i = j")
      case True
      show ?thesis by (rule stays [OF ok1 loop gone [folded True]]) (simp add: tombstone_row_def)
    next
      case False
      with Cons.prems(3) have "i \<in> set ids" by simp
      then show ?thesis by (rule Cons.IH [OF ok1 loop])
    qed
  qed
qed simp

lemma DeleteDataset_cases:
  assumes "DeleteDatasetWithDocuments orderBy uni flt p db actor d = Inr db'"
  obtains db1 where "tombstone_documents uni flt actor d
      (orderBy (map snd (filter (\<lambda>k. fst k = d) (map fst (tbResources db))))) db = Inr db1"
    and "tbResources db' = tbResources db1" and "tbLinks db' = delete_where (\<lambda>k _. fst k = d) (tbLinks db1)"
    and "tbGrants db' = tbGrants db1"
  using assms
  by (auto simp: DeleteDatasetWithDocuments_def andThen_Inr Let_def drop_links_def retire_artifacts_def split: if_splits)

lemma DeleteDataset_move:
  assumes "DeleteDatasetWithDocuments orderBy uni flt p db actor d = Inr db'" and order: "\<And>xs. set (orderBy xs) = set xs"
  shows "doc_move {} db db'"
proof (cases "doc_ok db")
  case ok: True
  from DeleteDataset_cases [OF assms(1)] obtain db1 where
    loop: "tombstone_documents uni flt actor d (orderBy (map snd (filter (\<lambda>k. fst k = d) (map fst (tbResources db))))) db = Inr db1"
    and res: "tbResources db' = tbResources db1" and links: "tbLinks db' = delete_where (\<lambda>k _. fst k = d) (tbLinks db1)" by blast
  have "doc_move {} db1 db'"
  proof (rule doc_move_frame [OF res])
    show "keyed (tbLinks db')" if "keyed (tbLinks db1)" using that by (simp add: links)
    fix k r assume k: "map_of (tbResources db1) k = Some r" "\<not> drTombstoned r" "map_of (tbLinks db1) k \<noteq> None"
    have "fst k \<noteq> d"
    proof
      assume d: "fst k = d"
      from k(1) have "k \<in> dom (map_of (tbResources db1))" by (rule domI)
      then have "k \<in> dom (map_of (tbResources db))" by (simp only: tombstone_documents_frame(2) [OF loop])
      then have "k \<in> set (map fst (tbResources db))" by (simp add: dom_map_of_conv_image_fst)
      with d have "snd k \<in> set (orderBy (map snd (filter (\<lambda>k. fst k = d) (map fst (tbResources db)))))"
        unfolding order by (auto intro!: image_eqI)
      from tombstone_documents_all [OF ok loop this] d k(1,2) show False by (metis option.inject prod.collapse)
    qed
    with k(3) have "(k, ()) \<in> set (tbLinks db')"
      by (auto simp: links delete_where_def dest: map_of_SomeD)
    then show "map_of (tbLinks db') k \<noteq> None" by (metis map_of_eq_None_iff fst_conv image_eqI)
  qed
  with tombstone_documents_move [OF loop] show ?thesis by (rule doc_move_trans)
next
  case False
  then show ?thesis by (simp add: doc_move_def)
qed

section \<open>Pruning, groups and ingestion\<close>

lemma map_of_prune: "map_of (map (\<lambda>(ref, r). (ref, g ref r)) t) k = map_option (g k) (map_of t k)"
  by (induction t) auto

lemma prune_row_tombstoned: "drTombstoned (prune_row db ref r)" "drTenant (prune_row db ref r) = drTenant r"
  "drHold (prune_row db ref r) = drHold r" "drACLRevision r \<le> drACLRevision (prune_row db ref r)"
  "drContentRevision (prune_row db ref r) = (if drTombstoned r then drContentRevision r else drContentRevision r + 1)"
  by (simp_all add: prune_row_def)

lemma PruneData_effect:
  assumes "PruneData uni flt (Some db) m includeGraph clock clock' = Inr db'"
  shows "map_of (tbResources db') ref = map_option (prune_row db ref) (map_of (tbResources db) ref)"
    and "keyed (tbResources db) \<Longrightarrow> keyed (tbResources db')" and "tbLinks db' = []" and "tbGrants db' = []"
    and "map_of (tbResources db) ref = Some r \<Longrightarrow> \<not> drHold r"
proof -
  from assms have held: "\<not> list_ex (\<lambda>(_, r). drHold r) (tbResources db)"
    and db': "tbResources db' = map (\<lambda>(ref, r). (ref, prune_row db ref r)) (tbResources db)" "tbLinks db' = []" "tbGrants db' = []"
    by (auto simp: PruneData_def BeginMetadataWrite_def Let_def andThen_Inr retire_artifacts_def split: if_splits)
  show "map_of (tbResources db') ref = map_option (prune_row db ref) (map_of (tbResources db) ref)"
    by (simp add: db' map_of_prune)
  show "tbLinks db' = []" "tbGrants db' = []" by (simp_all add: db')
  have "map fst (tbResources db') = map fst (tbResources db)"
    unfolding db' by (induction "tbResources db") auto
  then show "keyed (tbResources db) \<Longrightarrow> keyed (tbResources db')" by (simp add: keyed_def)
  show "map_of (tbResources db) ref = Some r \<Longrightarrow> \<not> drHold r"
    using held by (auto simp: list_ex_iff dest!: map_of_SomeD)
qed

lemma PruneData_move:
  assumes "PruneData uni flt (Some db) m includeGraph clock clock' = Inr db'"
  shows "doc_move U db db'"
  unfolding doc_move_def
proof (intro impI conjI allI)
  note eff = PruneData_effect [OF assms]
  assume ok: "doc_ok db"
  show "doc_ok db'"
  proof (rule doc_okI)
    show "keyed (tbResources db')" by (rule eff(2) [OF doc_okD(1) [OF ok]])
    show "keyed (tbLinks db')" by (simp add: eff(3))
    fix ref r' assume "map_of (tbResources db') ref = Some r'"
    then obtain r where r: "map_of (tbResources db) ref = Some r" and r': "r' = prune_row db ref r"
      by (auto simp: eff(1))
    from doc_okD(3) [OF ok r] eff(5) [OF r] show "row_ok db' ref r'"
      by (auto simp: row_ok_def r' prune_row_tombstoned intro: order_less_le_trans [OF _ prune_row_tombstoned(4)])
  qed
  fix ref show "row_moves (ref \<in> U) db db' ref"
    using eff(5) by (auto simp: row_moves_def eff(1) prune_row_tombstoned)
qed

text \<open>A map over the rows that changes revisions only, where the links stay.\<close>

lemma doc_move_rows:
  assumes res: "\<And>ref. map_of (tbResources db') ref = map_option (g ref) (map_of (tbResources db) ref)"
    and keys: "keyed (tbResources db) \<Longrightarrow> keyed (tbResources db')" and links: "tbLinks db' = tbLinks db"
    and rows: "\<And>ref r. map_of (tbResources db) ref = Some r \<Longrightarrow>
      drTenant (g ref r) = drTenant r \<and> drTombstoned (g ref r) = drTombstoned r \<and> drHold (g ref r) = drHold r
      \<and> drACLRevision r \<le> drACLRevision (g ref r)
      \<and> (drContentRevision (g ref r) = drContentRevision r
          \<or> drContentRevision r < drContentRevision (g ref r) \<and> \<not> drTombstoned r \<and> \<not> drHold r)"
  shows "doc_move U db db'"
  unfolding doc_move_def
proof (intro impI conjI allI)
  assume ok: "doc_ok db"
  show "doc_ok db'"
  proof (rule doc_okI)
    show "keyed (tbResources db')" by (rule keys [OF doc_okD(1) [OF ok]])
    show "keyed (tbLinks db')" using doc_okD(2) [OF ok] by (simp add: links)
    fix ref r' assume "map_of (tbResources db') ref = Some r'"
    then obtain r where r: "map_of (tbResources db) ref = Some r" and r': "r' = g ref r" by (auto simp: res)
    from doc_okD(3) [OF ok r] rows [OF r] show "row_ok db' ref r'" by (auto simp: row_ok_def r' links)
  qed
  fix ref show "row_moves (ref \<in> U) db db' ref"
    unfolding row_moves_def
  proof (intro allI impI)
    fix r assume r: "map_of (tbResources db) ref = Some r"
    from rows [OF r] show "\<exists>r'. map_of (tbResources db') ref = Some r' \<and> drTenant r' = drTenant r
          \<and> drACLRevision r \<le> drACLRevision r' \<and> drContentRevision r \<le> drContentRevision r'
          \<and> (drTombstoned r \<longrightarrow> drTombstoned r' \<and> drContentRevision r' = drContentRevision r)
          \<and> (drContentRevision r' = drContentRevision r \<longrightarrow> drTombstoned r' = drTombstoned r)
          \<and> (drHold r \<and> ref \<notin> U \<longrightarrow> drHold r' \<and> drContentRevision r' = drContentRevision r
               \<and> map_of (tbLinks db') ref = map_of (tbLinks db) ref)"
      by (auto simp: res r links)
  qed
qed

lemma forget_group_move: "doc_move U db (forget_group g db)"
  by (rule doc_move_rows [where g = "\<lambda>ref r. if list_ex (\<lambda>(dr, prin). dr = ref \<and> prin = (''group'', g)) (map fst (tbGrants db))
                                            then bump_acl r else r"])
     (simp_all add: forget_group_def sql bump_acl_fields)

text \<open>
  The end of an ingestion that replaces a source (metadata.go): under the write fence, after the check of all the inclusions, the source
  gets a new version and every registration of it a new content revision.
\<close>

definition replace_source :: "(string \<Rightarrow> string) \<Rightarrow> faults \<Rightarrow> access_db \<Rightarrow> Actor \<Rightarrow> string \<Rightarrow> access_error + access_db" where
  "replace_source uni flt db actor dataID =
     andThen (AuthorizeMetadataAliases uni flt db actor dataID) (\<lambda>_.
       andThen (AdvanceSourceVersion flt db dataID) (\<lambda>(_, db1).
         if \<not> list_all (\<lambda>ref. snd ref = dataID \<longrightarrow> content_fits db1 ref) (map fst (tbResources db1)) then Inl ErrSql
         else ask flt (Exec ''content_revision'' dataID '''')
                (db1\<lparr>tbResources := update_where (\<lambda>k _. snd k = dataID) bump_content_row (tbResources db1)\<rparr>)))"

lemma replace_source_move:
  assumes "replace_source uni flt db actor dataID = Inr db'"
  shows "doc_move U db db'"
proof -
  from assms obtain b v db1 where aliases: "AuthorizeMetadataAliases uni flt db actor dataID = Inr b"
    and adv: "AdvanceSourceVersion flt db dataID = Inr (v, db1)"
    and db': "db' = db1\<lparr>tbResources := update_where (\<lambda>k _. snd k = dataID) bump_content_row (tbResources db1)\<rparr>"
    by (auto simp: replace_source_def andThen_Inr split: if_splits)
  note f = AdvanceSourceVersion_frame [OF adv]
  from aliases have all: "all_registered_writable uni flt db actor (filter (\<lambda>(ref, _). snd ref = dataID) (tbResources db)) = Inr ()"
    by (auto simp: AuthorizeMetadataAliases_def andThen_Inr split: if_splits)
  have free: "\<not> drTombstoned r \<and> \<not> drHold r" if r: "map_of (tbResources db) ref = Some r" and "snd ref = dataID" for ref r
  proof -
    from r that(2) have "(ref, r) \<in> set (filter (\<lambda>(ref, _). snd ref = dataID) (tbResources db))" by (auto dest: map_of_SomeD)
    from all_registered_writableD [OF all this] show ?thesis by (auto simp: may_use_document_def document_open_def)
  qed
  show ?thesis
    by (rule doc_move_rows [where g = "\<lambda>ref r. if snd ref = dataID then bump_content_row r else r"])
       (auto simp: db' f sql bump_content_row_def dest: free)
qed

end
