(* ===== verification/Doc_History.thy ===== *)
theory Doc_History
  imports Doc_Steps
begin

text \<open>
  Histories. \<open>doc_step\<close> is everything that can happen to the tables: each operation by any actor with any failing statements, the deletion
  of a directory group, an ingestion, and any other change that leaves the registrations alone, adds no grant and removes no link.
\<close>

section \<open>Steps\<close>

inductive doc_step :: "access_db \<Rightarrow> doc_ref option \<Rightarrow> access_db \<Rightarrow> bool" where
  register: "RegisterDocument uni flt (Some db) actor ref tenantID mode = Inr (r, db') \<Longrightarrow> doc_step db None db'"
| share: "GrantDocument uni flt (Some db) actor ref expected prin role = Inr (r, db') \<Longrightarrow> doc_step db None db'"
| revoke: "RevokeDocument uni flt (Some db) actor ref expected prin = Inr (r, db') \<Longrightarrow> doc_step db None db'"
| mode: "SetDocumentMode uni flt (Some db) actor ref expected mode = Inr (r, db') \<Longrightarrow> doc_step db None db'"
| hold: "SetDocumentHold uni flt (Some db) actor ref expected h = Inr (r, db') \<Longrightarrow> doc_step db (Some ref) db'"
| tombstone: "TombstoneDocument uni flt (Some db) actor ref acl content = Inr (r, db') \<Longrightarrow> doc_step db None db'"
| advance: "AdvanceDocumentContent uni flt (Some db) actor ref acl content = Inr (r, db') \<Longrightarrow> doc_step db None db'"
| rename: "RenameDocument uni flt (Some db) actor ref acl content name = Inr (r, db') \<Longrightarrow> doc_step db None db'"
| rename_legacy: "RenameLegacyDocument uni flt p db actor ref name = Inr db' \<Longrightarrow> doc_step db None db'"
| delete_document: "DeleteDocumentAssociation uni flt p db actor ref acl content = Inr db' \<Longrightarrow> doc_step db None db'"
| delete_dataset: "DeleteDatasetWithDocuments orderBy uni flt p db actor d = Inr db' \<Longrightarrow> \<forall>xs. set (orderBy xs) = set xs
                     \<Longrightarrow> doc_step db None db'"
| prune: "PruneData uni flt (Some db) m includeGraph clock clock' = Inr db' \<Longrightarrow> doc_step db None db'"
| drop_group: "doc_step db None (forget_group g db)"
| ingest: "replace_source uni flt db actor dataID = Inr db' \<Longrightarrow> doc_step db None db'"
| others: "tbResources db' = tbResources db \<Longrightarrow> keyed (tbLinks db) \<longrightarrow> keyed (tbLinks db')
            \<Longrightarrow> \<forall>ref. map_of (tbLinks db) ref \<noteq> None \<longrightarrow> map_of (tbLinks db') ref \<noteq> None
            \<Longrightarrow> set (tbGrants db') \<subseteq> set (tbGrants db) \<Longrightarrow> doc_step db None db'"

lemma step_move: "doc_step db l db' \<Longrightarrow> doc_move (set_option l) db db'"
proof (induction rule: doc_step.induct)
  case (others db' db)
  show ?case
    by (rule doc_move_frame) (use others in auto)
next
  case (hold uni flt db actor ref expected h r db')
  then show ?case by (auto dest: SetDocumentHold_move)
next
  case (delete_dataset orderBy uni flt p db actor d db')
  then show ?case by (auto dest: DeleteDataset_move)
qed (auto intro: RegisterDocument_move GrantDocument_move RevokeDocument_move SetDocumentMode_move TombstoneDocument_move
      AdvanceDocumentContent_move RenameDocument_move RenameLegacyDocument_move DeleteDocumentAssociation_move PruneData_move
      forget_group_move replace_source_move)

text \<open>A step that does not set the hold of one of the given documents.\<close>

definition doc_next :: "doc_ref set \<Rightarrow> access_db \<Rightarrow> access_db \<Rightarrow> bool" where
  "doc_next fixed db db' \<longleftrightarrow> (\<exists>l. doc_step db l db' \<and> set_option l \<inter> fixed = {})"

lemma next_moves:
  assumes "doc_next fixed db db'" and "doc_ok db"
  shows "doc_ok db'" and "ref \<in> fixed \<Longrightarrow> row_moves False db db' ref" and "row_moves True db db' ref"
proof -
  from assms obtain l where m: "doc_move (set_option l) db db'" and l: "set_option l \<inter> fixed = {}"
    by (auto simp: doc_next_def dest: step_move)
  from m assms(2) have ok: "doc_ok db'" and rows: "row_moves (ref \<in> set_option l) db db' ref" for ref
    unfolding doc_move_def by blast+
  show "doc_ok db'" by (rule ok)
  show "row_moves False db db' ref" if "ref \<in> fixed"
  proof -
    from l that have "ref \<notin> set_option l" by auto
    with rows [of ref] show ?thesis by simp
  qed
  show "row_moves True db db' ref"
    using rows [of ref] row_moves_weaken by (cases "ref \<in> set_option l") auto
qed

lemma run_moves:
  assumes "(doc_next fixed)\<^sup>*\<^sup>* db db'" and "doc_ok db"
  shows "doc_ok db' \<and> row_moves True db db' ref \<and> (ref \<in> fixed \<longrightarrow> row_moves False db db' ref)"
  using assms
proof (induction rule: rtranclp_induct)
  case base
  then show ?case by (simp add: row_moves_refl)
next
  case (step db1 db2)
  then have ok: "doc_ok db1" and r: "row_moves True db db1 ref" "ref \<in> fixed \<longrightarrow> row_moves False db db1 ref" by auto
  note n = next_moves [OF step.hyps(2) ok]
  show ?case
    using n(1) row_moves_trans [OF r(1) n(3)] r(2) n(2) row_moves_trans by blast
qed

section \<open>Tombstones and holds\<close>

lemma tombstone_stays:
  assumes "(doc_next {})\<^sup>*\<^sup>* db db'" and "doc_ok db" and "map_of (tbResources db) ref = Some r" and "drTombstoned r"
  shows "\<exists>r'. map_of (tbResources db') ref = Some r' \<and> drTombstoned r' \<and> \<not> drHold r' \<and> drContentRevision r' = drContentRevision r"
proof -
  from run_moves [OF assms(1,2), of ref] assms(3,4) obtain r' where
    r': "map_of (tbResources db') ref = Some r'" "drTombstoned r'" "drContentRevision r' = drContentRevision r" and "doc_ok db'"
    unfolding row_moves_def by blast
  with doc_okD(3) [OF \<open>doc_ok db'\<close> r'(1)] show ?thesis by (auto simp: row_ok_def)
qed

lemma registered_decision:
  assumes "map_of (tbResources db) ref = Some r" and "AuthorizeDocument uni flt (Some db) actor ref action = Inr dec"
  shows "authorizeRegisteredDocument uni flt db actor ref r action = Inr dec" and "ValidPermissionType action"
  using assms
  by (auto simp: AuthorizeDocument_def documentResource_def andThen_def ask_def split: if_splits sum.splits)

lemma registered_sound:
  assumes "map_of (tbResources db) ref = Some r" and "AuthorizeDocument uni flt (Some db) actor ref action = Inr dec"
  shows "dcAllowed dec \<longleftrightarrow> may_use_document uni db actor ref r action"
  by (rule document_decision_sound [OF registered_decision(2) [OF assms] registered_decision(1) [OF assms]])

lemma hold_stays:
  assumes "(doc_next {ref})\<^sup>*\<^sup>* db db'" and "doc_ok db" and "map_of (tbResources db) ref = Some r" and "drHold r"
  shows "\<exists>r'. map_of (tbResources db') ref = Some r' \<and> drHold r' \<and> \<not> drTombstoned r' \<and> drContentRevision r' = drContentRevision r
            \<and> map_of (tbLinks db') ref \<noteq> None"
proof -
  from run_moves [OF assms(1,2), of ref] assms(3,4) obtain r' where
    r': "map_of (tbResources db') ref = Some r'" "drHold r'" "drContentRevision r' = drContentRevision r" and ok: "doc_ok db'"
    unfolding row_moves_def by blast
  with doc_okD(3) [OF ok r'(1)] show ?thesis by (auto simp: row_ok_def)
qed

section \<open>The revision of a registration\<close>

text \<open>The operations that name the revision they were computed from.\<close>

datatype doc_op =
    OpGrant "string \<times> string" string | OpRevoke "string \<times> string" | OpMode string | OpHold bool
  | OpTombstone int | OpAdvance int | OpRename int string

fun run_doc_op :: "doc_ref \<Rightarrow> (string \<Rightarrow> string) \<times> faults \<times> Actor \<times> doc_op \<Rightarrow> int \<Rightarrow> access_db \<Rightarrow> access_error + document_row \<times> access_db" where
  "run_doc_op ref (uni, flt, a, OpGrant prin role) n db = GrantDocument uni flt (Some db) a ref n prin role"
| "run_doc_op ref (uni, flt, a, OpRevoke prin) n db = RevokeDocument uni flt (Some db) a ref n prin"
| "run_doc_op ref (uni, flt, a, OpMode mode) n db = SetDocumentMode uni flt (Some db) a ref n mode"
| "run_doc_op ref (uni, flt, a, OpHold h) n db = SetDocumentHold uni flt (Some db) a ref n h"
| "run_doc_op ref (uni, flt, a, OpTombstone c) n db = TombstoneDocument uni flt (Some db) a ref n c"
| "run_doc_op ref (uni, flt, a, OpAdvance c) n db = AdvanceDocumentContent uni flt (Some db) a ref n c"
| "run_doc_op ref (uni, flt, a, OpRename c name) n db = RenameDocument uni flt (Some db) a ref n c name"

definition store_op ::
  "doc_ref \<Rightarrow> (string \<Rightarrow> string) \<times> faults \<times> Actor \<times> doc_op \<Rightarrow> int \<Rightarrow> access_db \<Rightarrow> access_db option" where
  "store_op ref x n db = (case run_doc_op ref x n db of Inl _ \<Rightarrow> None | Inr (_, db') \<Rightarrow> Some db')"

definition acl_of :: "doc_ref \<Rightarrow> access_db \<Rightarrow> int option" where
  "acl_of ref db = map_option drACLRevision (map_of (tbResources db) ref)"

lemma mutateTx_acl:
  assumes tx: "mutateDocumentTx uni flt db actor ref acl content action mutate = Inr (r', db')"
    and action: "action \<in> {''write'', ''delete'', ''share''}" and upd: "row_update ref f mutate"
    and legal: "legal_update action free f"
  shows "acl_of ref db = Some acl \<and> acl_of ref db' = Some (acl + 1)"
proof -
  have valid: "ValidPermissionType action" using action by (auto simp: ValidPermissionType_def)
  from mutateTxE [OF tx valid] obtain r where r: "map_of (tbResources db) ref = Some r" "drACLRevision r = acl" by metis
  with mutateTx_result [OF tx action upd] have "map_of (tbResources db') ref = Some (f (bump_acl r))" by auto
  moreover have "drACLRevision (f (bump_acl r)) = acl + 1"
    using legal r(2) by (simp add: legal_update_def bump_acl_fields)
  ultimately show ?thesis using r by (simp add: acl_of_def)
qed

lemma run_doc_op_acl:
  assumes "run_doc_op ref x acl db = Inr (r', db')"
  shows "acl_of ref db = Some acl \<and> acl_of ref db' = Some (acl + 1)"
proof -
  have doc: "acl_of ref db = Some acl \<and> acl_of ref db' = Some (acl + 1)"
    if "mutateDocument uni flt (Some db) actor ref acl content action mutate = Inr (r', db')"
      "action \<in> {''write'', ''delete'', ''share''}" "row_update ref f mutate" "legal_update action True f"
    for uni flt actor content action mutate f
    using mutateTx_acl [OF conjunct2 [OF mutateDocument_Tx [OF that(1)]] that(2-4)] .
  obtain uni flt a op where x: "x = (uni, flt, a, op)" by (cases x)
  show ?thesis
  proof (cases op)
    case (OpGrant prin role)
    with assms x obtain role' where
      "mutateDocument uni flt (Some db) a ref acl 0 ''share'' (\<lambda>r db.
        andThen (validateDocumentPrincipal flt db prin (drTenant r)) (\<lambda>_.
          if role' \<notin> {''viewer'', ''editor'', ''admin''} then Inl ErrSql
          else ask flt (Exec ''document_grants'' (fst ref) (snd ref))
                 (db\<lparr>tbGrants := AList.update (ref, prin) role' (tbGrants db)\<rparr>))) = Inr (r', db')"
      by (auto simp: GrantDocument_def Let_def split: if_splits)
    then show ?thesis
      by (rule doc [where f = id]) (auto simp: andThen_Inr legal_updates intro!: row_update_tables split: if_splits)
  next
    case (OpRevoke prin)
    with assms x have "mutateDocument uni flt (Some db) a ref acl 0 ''share'' (\<lambda>_ db.
        ask flt (Exec ''document_grants'' (fst ref) (snd ref))
          (db\<lparr>tbGrants := delete_where (\<lambda>k _. k = (ref, prin)) (tbGrants db)\<rparr>)) = Inr (r', db')"
      by (auto simp: RevokeDocument_def split: if_splits)
    then show ?thesis
      by (rule doc [where f = id]) (auto simp: legal_updates intro!: row_update_tables)
  next
    case (OpMode mode)
    with assms x have "mutateDocument uni flt (Some db) a ref acl 0 ''share'' (\<lambda>_. set_row flt ''mode'' ref (\<lambda>r. r\<lparr>drMode := mode\<rparr>)) = Inr (r', db')"
      by (auto simp: SetDocumentMode_def split: if_splits)
    then show ?thesis by (rule doc [OF _ _ row_update_set]) (simp_all add: legal_updates)
  next
    case (OpHold h)
    with assms x have "mutateDocument uni flt (Some db) a ref acl 0 ''share'' (\<lambda>_. set_row flt ''hold'' ref (\<lambda>r. r\<lparr>drHold := h\<rparr>)) = Inr (r', db')"
      by (simp add: SetDocumentHold_def)
    then show ?thesis by (rule doc [OF _ _ row_update_set]) (simp_all add: legal_updates)
  next
    case (OpTombstone c)
    with assms x have "mutateDocument uni flt (Some db) a ref acl c ''delete'' (\<lambda>_. tombstone_content flt ref) = Inr (r', db')"
      by (auto simp: TombstoneDocument_def split: if_splits)
    then show ?thesis by (rule doc [OF _ _ row_update_tombstone]) (simp_all add: legal_updates)
  next
    case (OpAdvance c)
    with assms x have "mutateDocument uni flt (Some db) a ref acl c ''write'' (\<lambda>_. advance_content flt ref) = Inr (r', db')"
      by (auto simp: AdvanceDocumentContent_def split: if_splits)
    then show ?thesis by (rule doc [OF _ _ row_update_advance]) (simp_all add: legal_updates)
  next
    case (OpRename c name)
    with assms x have "mutateDocumentTx uni flt db a ref acl c ''write'' (\<lambda>_ db1.
     andThen (ask flt (SelLinkCount (snd ref)) (link_count db1 (snd ref))) (\<lambda>n.
       if n \<noteq> 1 then Inl ErrDocumentSharedMetadata
       else andThen (renameDocumentSourceTx flt db1 (snd ref) name) (advance_content flt ref))) = Inr (r', db')"
      by (auto simp: RenameDocument_def andThen_Inr split: if_splits)
    then show ?thesis by (rule mutateTx_acl [OF _ _ row_update_rename]) (simp_all add: legal_updates)
  qed
qed

interpretation registration: revisioned "acl_of ref" "\<lambda>db db'. doc_ok db \<and> doc_next {} db db'" "store_op ref"
  for ref :: doc_ref
proof unfold_locales
  fix db db' :: access_db and n
  assume "doc_ok db \<and> doc_next {} db db'" "acl_of ref db = Some n"
  then show "\<exists>r'. acl_of ref db' = Some r' \<and> n \<le> r'"
    using next_moves(3) [of "{}" db db' ref] unfolding acl_of_def row_moves_def by fastforce
next
  fix x n and db db' :: access_db
  assume "store_op ref x n db = Some db'"
  then obtain r' where "run_doc_op ref x n db = Inr (r', db')"
    by (auto simp: store_op_def split: sum.splits)
  from run_doc_op_acl [OF this] show "acl_of ref db = Some n" and "\<exists>r'. acl_of ref db' = Some r' \<and> n < r'" by auto
qed

section \<open>Where grants come from\<close>

text \<open>A principal that can be given a role on a document of a tenant: an active member, or a group of the tenant.\<close>

definition principal_of :: "access_db \<Rightarrow> string \<Rightarrow> string \<times> string \<Rightarrow> bool" where
  "principal_of db tenant prin \<longleftrightarrow>
     (fst prin = ''user'' \<and> active_user db (snd prin) \<and> map_of (tbMembers db) (snd prin, tenant) \<noteq> None)
     \<or> (fst prin = ''group'' \<and> map_option grTenant (map_of (tbGroups db) (snd prin)) = Some tenant)"

lemma validatePrincipal_sound:
  "validateDocumentPrincipal flt db prin tenant = Inr u \<Longrightarrow> principal_of db tenant prin"
  by (auto simp: validateDocumentPrincipal_def andThen_Inr documentIdentity_ask documentMember_def principal_of_def
      split: prod.splits if_splits)

lemma mutateDocument_grants:
  assumes "mutateDocument uni flt (Some db) actor ref acl content action mutate = Inr (r', db')"
    and "ValidPermissionType action"
    and "\<And>r db db'. mutate r db = Inr db' \<Longrightarrow> set (tbGrants db') \<subseteq> set (tbGrants db)"
  shows "set (tbGrants db') \<subseteq> set (tbGrants db)"
proof -
  from mutateTxE [OF conjunct2 [OF mutateDocument_Tx [OF assms(1)]] assms(2)] obtain r where
    "mutate r (db\<lparr>tbResources := update_where (cas_guard ref acl (drContentRevision r)) bump_acl (tbResources db)\<rparr>) = Inr db'"
    by metis
  from assms(3) [OF this] show ?thesis by simp
qed

lemma set_row_grants: "set_row flt what ref f db = Inr db' \<Longrightarrow> set (tbGrants db') \<subseteq> set (tbGrants db)"
  by (simp add: set_row_effect)

lemma content_grants:
  "advance_content flt ref db = Inr db' \<Longrightarrow> set (tbGrants db') \<subseteq> set (tbGrants db)"
  "tombstone_content flt ref db = Inr db' \<Longrightarrow> set (tbGrants db') \<subseteq> set (tbGrants db)"
  by (auto simp: advance_content_def tombstone_content_def set_row_effect split: if_splits)

lemma delete_where_sub: "set (delete_where P t) \<subseteq> set t"
  by (auto simp: delete_where_def)

lemma upsert_set: "set (AList.update k v t) \<subseteq> insert (k, v) (set t)"
  by (induction t) auto

lemma GrantDocument_grants:
  assumes "GrantDocument uni flt (Some db) actor ref n prin role0 = Inr (x, db')"
  shows "\<exists>r. map_of (tbResources db) ref = Some r \<and> may_use_document uni db actor ref r ''share''
           \<and> principal_of db (drTenant r) prin \<and> ToLower uni role0 \<in> {''viewer'', ''editor'', ''admin''}
           \<and> set (tbGrants db') \<subseteq> insert ((ref, prin), ToLower uni role0) (set (tbGrants db))"
proof -
  have valid: "ValidPermissionType ''share''" by (simp add: ValidPermissionType_def)
  define G where "G role r db = andThen (validateDocumentPrincipal flt db prin (drTenant r)) (\<lambda>_.
          if role \<notin> {''viewer'', ''editor'', ''admin''} then Inl ErrSql
          else ask flt (Exec ''document_grants'' (fst ref) (snd ref))
                 (db\<lparr>tbGrants := AList.update (ref, prin) role (tbGrants db)\<rparr>))" for role and r :: document_row and db
  let ?role = "ToLower uni role0"
  from assms have "mutateDocument uni flt (Some db) actor ref n 0 ''share'' (G ?role) = Inr (x, db')"
    unfolding G_def [abs_def] by (auto simp: GrantDocument_def Let_def split: if_splits)
  from mutateTxE [OF conjunct2 [OF mutateDocument_Tx [OF this]] valid] obtain r where r: "map_of (tbResources db) ref = Some r"
    and may: "may_use_document uni db actor ref r ''share''"
    and m: "G ?role r (db\<lparr>tbResources := update_where (cas_guard ref n (drContentRevision r)) bump_acl (tbResources db)\<rparr>) = Inr db'"
    by metis
  let ?db1 = "db\<lparr>tbResources := update_where (cas_guard ref n (drContentRevision r)) bump_acl (tbResources db)\<rparr>"
  from m have valid1: "validateDocumentPrincipal flt ?db1 prin (drTenant r) = Inr ()" and role: "?role \<in> {''viewer'', ''editor'', ''admin''}"
    and grants: "tbGrants db' = AList.update (ref, prin) ?role (tbGrants db)"
    by (auto simp: G_def andThen_Inr split: if_splits)
  from validatePrincipal_sound [OF valid1] have "principal_of db (drTenant r) prin"
    by (simp add: principal_of_def active_user_def)
  moreover have "set (tbGrants db') \<subseteq> insert ((ref, prin), ?role) (set (tbGrants db))"
    unfolding grants by (rule upsert_set)
  ultimately show ?thesis using r may role by blast
qed

section \<open>Steps and grants\<close>

lemma RevokeDocument_grants:
  assumes "RevokeDocument uni flt (Some db) actor ref expected prin = Inr (r', db')"
  shows "set (tbGrants db') \<subseteq> set (tbGrants db)"
proof -
  have valid: "ValidPermissionType ''share''" by (simp add: ValidPermissionType_def)
  from assms have "mutateDocument uni flt (Some db) actor ref expected 0 ''share'' (\<lambda>_ db.
        ask flt (Exec ''document_grants'' (fst ref) (snd ref))
          (db\<lparr>tbGrants := delete_where (\<lambda>k _. k = (ref, prin)) (tbGrants db)\<rparr>)) = Inr (r', db')"
    by (auto simp: RevokeDocument_def split: if_splits)
  then show ?thesis
    by (rule mutateDocument_grants [OF _ valid]) (auto simp: delete_where_def)
qed

lemma mutateTx_grants:
  assumes tx: "mutateDocumentTx uni flt db actor ref acl content action mutate = Inr (r', db')" and valid: "ValidPermissionType action"
    and sub: "\<And>r db db'. mutate r db = Inr db' \<Longrightarrow> set (tbGrants db') \<subseteq> set (tbGrants db)"
  shows "set (tbGrants db') \<subseteq> set (tbGrants db)"
proof -
  from mutateTxE [OF tx valid] obtain r where
    "mutate r (db\<lparr>tbResources := update_where (cas_guard ref acl (drContentRevision r)) bump_acl (tbResources db)\<rparr>) = Inr db'"
    by metis
  from sub [OF this] show ?thesis by simp
qed

lemma delete_grants:
  "andThen (tombstone_content flt ref db) (\<lambda>db2. unlinkDocumentTx flt db2 ref) = Inr db' \<Longrightarrow> tbGrants db' = tbGrants db"
  by (auto simp: andThen_Inr tombstone_content_def set_row_effect unlink_effect split: if_splits)

lemma tombstone_documents_grants:
  "tombstone_documents uni flt actor d ids db = Inr db' \<Longrightarrow> set (tbGrants db') \<subseteq> set (tbGrants db)"
proof (induction ids arbitrary: db)
  case (Cons i ids)
  have "set (tbGrants db1) \<subseteq> set (tbGrants db)"
    if "mutateDocumentTx uni flt db actor (d, i) a c ''delete'' (\<lambda>_. tombstone_content flt (d, i)) = Inr (r', db1)" for a c r' db1
    by (rule mutateTx_grants [OF that]) (auto simp: ValidPermissionType_def dest: content_grants)
  with Cons show ?case by (fastforce simp: andThen_Inr split: if_splits)
qed simp

lemma SetDocument_grants:
  assumes "SetDocumentMode uni flt (Some db) actor ref n mode = Inr (x, db') \<or> SetDocumentHold uni flt (Some db) actor ref n h = Inr (x, db')"
  shows "set (tbGrants db') \<subseteq> set (tbGrants db)"
  using assms
  by (auto simp: SetDocumentMode_def SetDocumentHold_def ValidPermissionType_def set_row_effect
      dest!: mutateDocument_grants split: if_splits)

lemma ContentDocument_grants:
  assumes "TombstoneDocument uni flt (Some db) actor ref n c = Inr (x, db') \<or> AdvanceDocumentContent uni flt (Some db) actor ref n c = Inr (x, db')"
  shows "set (tbGrants db') \<subseteq> set (tbGrants db)"
proof -
  have "ValidPermissionType ''delete''" "ValidPermissionType ''write''" by (simp_all add: ValidPermissionType_def)
  with assms show ?thesis
    by (auto simp: TombstoneDocument_def AdvanceDocumentContent_def split: if_splits
        dest: mutateDocument_grants [OF _ _ content_grants(1)] mutateDocument_grants [OF _ _ content_grants(2)])
qed

lemma RenameDocument_grants:
  assumes "RenameDocument uni flt (Some db) actor ref acl content name = Inr (r', db')"
  shows "set (tbGrants db') \<subseteq> set (tbGrants db)"
proof -
  from assms have "mutateDocumentTx uni flt db actor ref acl content ''write'' (\<lambda>_ db1.
     andThen (ask flt (SelLinkCount (snd ref)) (link_count db1 (snd ref))) (\<lambda>n.
       if n \<noteq> 1 then Inl ErrDocumentSharedMetadata
       else andThen (renameDocumentSourceTx flt db1 (snd ref) name) (advance_content flt ref))) = Inr (r', db')"
    by (auto simp: RenameDocument_def andThen_Inr split: if_splits)
  then show ?thesis
  proof (rule mutateTx_grants)
    show "ValidPermissionType ''write''" by (simp add: ValidPermissionType_def)
    fix r :: document_row and db1 db2
    assume "andThen (ask flt (SelLinkCount (snd ref)) (link_count db1 (snd ref))) (\<lambda>n.
       if n \<noteq> 1 then Inl ErrDocumentSharedMetadata
       else andThen (renameDocumentSourceTx flt db1 (snd ref) name) (advance_content flt ref)) = Inr db2"
    then obtain db3 where "renameDocumentSourceTx flt db1 (snd ref) name = Inr db3" "advance_content flt ref db3 = Inr db2"
      by (auto simp: andThen_Inr split: if_splits)
    with content_grants(1) show "set (tbGrants db2) \<subseteq> set (tbGrants db1)" by (fastforce simp: renameDocumentSourceTx_frame)
  qed
qed

lemma other_grants:
  shows "RegisterDocument uni flt (Some db) actor ref tenantID mode = Inr (r, db') \<Longrightarrow> tbGrants db' = tbGrants db"
    and "replace_source uni flt db actor dataID = Inr db' \<Longrightarrow> tbGrants db' = tbGrants db"
    and "set (tbGrants (forget_group g db)) \<subseteq> set (tbGrants db)"
  by (auto simp: RegisterDocument_def replace_source_def forget_group_def delete_where_def andThen_Inr Let_def AdvanceSourceVersion_frame
      split: if_splits option.splits)

lemma DeleteDocument_grants:
  assumes "DeleteDocumentAssociation uni flt p db actor ref acl content = Inr db'"
  shows "set (tbGrants db') \<subseteq> set (tbGrants db)"
  using assms
proof (cases rule: DeleteDocumentAssociation_cases)
  case 1
  then show ?thesis by (simp add: unlink_effect)
next
  case (2 r')
  show ?thesis
    by (rule mutateTx_grants [OF 2(4)]) (auto simp: ValidPermissionType_def delete_grants)
qed

lemma DeleteDataset_grants:
  assumes "DeleteDatasetWithDocuments orderBy uni flt p db actor d = Inr db'"
  shows "set (tbGrants db') \<subseteq> set (tbGrants db)"
  using DeleteDataset_cases [OF assms] tombstone_documents_grants by metis

text \<open>The one way in which a grant appears: a call of \<open>GrantDocument\<close> by someone who may share the document.\<close>

definition granted_by ::
  "(string \<Rightarrow> string) \<Rightarrow> faults \<Rightarrow> Actor \<Rightarrow> access_db \<Rightarrow> access_db \<Rightarrow> doc_ref \<Rightarrow> string \<times> string \<Rightarrow> string \<Rightarrow> bool" where
  "granted_by uni flt actor db db' ref prin role \<longleftrightarrow>
     (\<exists>expected role0 row r. GrantDocument uni flt (Some db) actor ref expected prin role0 = Inr (row, db') \<and> role = ToLower uni role0 \<and>
        ((ref, prin), role) \<notin> set (tbGrants db) \<and> ((ref, prin), role) \<in> set (tbGrants db') \<and>
        map_of (tbResources db) ref = Some r \<and> may_use_document uni db actor ref r ''share'' \<and>
        principal_of db (drTenant r) prin \<and> role \<in> {''viewer'', ''editor'', ''admin''})"

lemma step_grants:
  assumes "doc_step db l db'" and "((ref, prin), role) \<in> set (tbGrants db')" and "((ref, prin), role) \<notin> set (tbGrants db)"
  shows "\<exists>uni flt actor. granted_by uni flt actor db db' ref prin role"
  using assms
proof (induction rule: doc_step.induct)
  case (share uni flt db actor ref' expected prin' role' r db')
  from GrantDocument_grants [OF share.hyps] share.prems have "ref' = ref" "prin' = prin" "role = ToLower uni role'" by auto
  with GrantDocument_grants [OF share.hyps] share.hyps share.prems have "granted_by uni flt actor db db' ref prin role"
    unfolding granted_by_def by blast
  then show ?case by blast
next
  case (revoke uni flt db actor ref expected prin r db')
  then show ?case by (blast dest: RevokeDocument_grants)
next
  case (mode uni flt db actor ref expected mode r db')
  then show ?case by (blast dest: SetDocument_grants [OF disjI1])
next
  case (hold uni flt db actor ref expected h r db')
  then show ?case by (blast dest: SetDocument_grants [OF disjI2])
next
  case (tombstone uni flt db actor ref acl content r db')
  then show ?case by (blast dest: ContentDocument_grants [OF disjI1])
next
  case (advance uni flt db actor ref acl content r db')
  then show ?case by (blast dest: ContentDocument_grants [OF disjI2])
next
  case (rename uni flt db actor ref acl content name r db')
  then show ?case by (blast dest: RenameDocument_grants)
next
  case (delete_document uni flt p db actor ref acl content db')
  then show ?case by (blast dest: DeleteDocument_grants)
next
  case (delete_dataset orderBy uni flt p db actor d db')
  then show ?case by (blast dest: DeleteDataset_grants)
next
  case (drop_group db g)
  then show ?case using other_grants(3) by blast
next
  case (prune uni flt db m includeGraph clock clock' db')
  then show ?case by (simp add: PruneData_effect(4))
qed (auto simp: other_grants RenameLegacyDocument_frame)

section \<open>Histories\<close>

lemma run_ok: "(doc_next fixed)\<^sup>*\<^sup>* db db' \<Longrightarrow> doc_ok db \<Longrightarrow> doc_ok db'"
  using run_moves by blast

lemma run_doc_op_step:
  assumes "run_doc_op ref x n db = Inr (r, db')"
  shows "doc_next {} db db'"
proof -
  obtain uni flt a op where x: "x = (uni, flt, a, op)" by (cases x)
  from assms have "\<exists>l. doc_step db l db'"
    by (cases op) (auto simp: x intro: doc_step.intros)
  then show ?thesis by (auto simp: doc_next_def)
qed

lemma run_with_ok:
  assumes "(doc_next {})\<^sup>*\<^sup>* db db'" and "doc_ok db"
  shows "(\<lambda>a b. doc_ok a \<and> doc_next {} a b)\<^sup>*\<^sup>* db db'"
  using assms
proof (induction rule: rtranclp_induct)
  case (step db1 db2)
  then have "doc_ok db1 \<and> doc_next {} db1 db2" using run_ok by blast
  with step show ?case by (simp add: rtranclp.rtrancl_into_rtrancl)
qed simp

lemma grants_history:
  assumes "(doc_next {})\<^sup>*\<^sup>* db db'" and "((ref, prin), role) \<in> set (tbGrants db')" and "((ref, prin), role) \<notin> set (tbGrants db)"
  shows "\<exists>uni flt actor db1 db2. (doc_next {})\<^sup>*\<^sup>* db db1 \<and> granted_by uni flt actor db1 db2 ref prin role \<and> (doc_next {})\<^sup>*\<^sup>* db2 db'"
  using assms
proof (induction rule: rtranclp_induct)
  case (step db1 db2)
  show ?case
  proof (cases "((ref, prin), role) \<in> set (tbGrants db1)")
    case True
    from step.IH [OF this step.prems(2)] step.hyps(2) show ?thesis
      by (meson rtranclp.rtrancl_into_rtrancl)
  next
    case False
    from step.hyps(2) obtain l where "doc_step db1 l db2" by (auto simp: doc_next_def)
    from step_grants [OF this step.prems(1) False] step.hyps(1) show ?thesis by blast
  qed
qed simp

section \<open>Deleting and sharing metadata\<close>

text \<open>A document that is registered when the transaction begins is never deleted by the rights on its dataset, whatever the preflight saw.\<close>

lemma delete_registered:
  assumes "DeleteDocumentAssociation uni flt p db actor ref acl content = Inr db'" and "map_of (tbResources db) ref = Some r"
  shows "may_use_document uni db actor ref r ''delete'' \<and> drACLRevision r = acl \<and> drContentRevision r = content"
  using assms(1)
proof (cases rule: DeleteDocumentAssociation_cases)
  case 1
  with assms(2) show ?thesis by simp
next
  case (2 r')
  have "ValidPermissionType ''delete''" by (simp add: ValidPermissionType_def)
  from mutateTxE [OF 2(4) this] assms(2) 2(3) show ?thesis by (metis option.inject)
qed

text \<open>Metadata shared by inclusions changes only for someone who may write every one of them.\<close>

lemma aliases_guarded:
  assumes "AuthorizeMetadataAliases uni flt db actor i = Inr b" and "acUserID actor \<noteq> ''''" and "snd ref = i"
  shows "map_of (tbResources db) ref = Some r \<Longrightarrow> may_use_document uni db actor ref r ''write''"
    and "map_of (tbResources db) ref = None \<Longrightarrow> map_of (tbLinks db) ref \<noteq> None \<Longrightarrow> may_use uni db actor (fst ref) ''write''"
proof -
  from assms(1) have reg: "all_registered_writable uni flt db actor (filter (\<lambda>(ref, _). snd ref = i) (tbResources db)) = Inr ()"
    and leg: "all_legacy_writable uni flt db actor
        (filter (\<lambda>ref. snd ref = i \<and> map_of (tbResources db) ref = None) (map fst (tbLinks db))) = Inr ()"
    by (auto simp: AuthorizeMetadataAliases_def andThen_Inr split: if_splits)
  show "may_use_document uni db actor ref r ''write''" if "map_of (tbResources db) ref = Some r"
    using that assms(3) by (intro all_registered_writableD [OF reg]) (auto dest: map_of_SomeD)
  show "may_use uni db actor (fst ref) ''write''" if none: "map_of (tbResources db) ref = None" and link: "map_of (tbLinks db) ref \<noteq> None"
  proof -
    from link have "ref \<in> set (map fst (tbLinks db))" by (auto simp: map_of_eq_None_iff)
    with none assms(3) have "ref \<in> set (filter (\<lambda>ref. snd ref = i \<and> map_of (tbResources db) ref = None) (map fst (tbLinks db)))" by simp
    from all_legacy_writableD [OF leg this] show ?thesis
      using legacy_document_sound [OF _ none assms(2)] by blast
  qed
qed

end
