(* ===== verification/Doc_Publish.thy ===== *)
theory Doc_Publish
  imports Doc_History
begin

text \<open>
  Publication of an index built from a document (read_fence.go): the exact source it was built from is read before the work, and the
  publication is committed only if that source is still the current one. A reader finds a publication only while the source and the
  content revision it names are current. \<open>elements\<close> is the number of elements of a JSON array (\<open>None\<close> for any other text), \<open>completed\<close>
  whether a status decodes with \<open>COMPLETED\<close>.
\<close>

section \<open>Sources\<close>

definition hex_code :: "char \<Rightarrow> bool" where
  "hex_code c \<longleftrightarrow> (let n = (of_char c :: nat) in (48 \<le> n \<and> n \<le> 57) \<or> (97 \<le> n \<and> n \<le> 102) \<or> (65 \<le> n \<and> n \<le> 70))"

definition sourceSHA256 :: "(string \<Rightarrow> string) \<Rightarrow> string \<Rightarrow> string option" where
  "sourceSHA256 uni hash = (if length hash \<noteq> 64 \<or> \<not> list_all hex_code hash then None else Some (ToLower uni hash))"

definition sql_LOWER :: "string \<Rightarrow> string" where
  "sql_LOWER s = map lower_ascii s"

text \<open>The source behind an actual link.\<close>

definition linked_source :: "access_db \<Rightarrow> doc_ref \<Rightarrow> data_row option" where
  "linked_source db ref = (if map_of (tbLinks db) ref = None then None else map_of (tbData db) (snd ref))"

definition SourceVersion :: "(string \<Rightarrow> string) \<Rightarrow> faults \<Rightarrow> access_db option \<Rightarrow> doc_ref \<Rightarrow> access_error + int \<times> string" where
  "SourceVersion uni flt p ref =
     (case p of None \<Rightarrow> Inl ErrDocumentInvalid
      | Some db \<Rightarrow> andThen (ask flt (SelSource ref) (linked_source db ref)) (\<lambda>row.
          case row of
            None \<Rightarrow> Inl ErrDocumentNotFound
          | Some r \<Rightarrow>
              (case sourceSHA256 uni (daHash r) of
                 None \<Rightarrow> Inl ErrDocumentVersionConflict
               | Some canonical \<Rightarrow> if daRevision r \<le> 0 then Inl ErrDocumentVersionConflict else Inr (daRevision r, canonical))))"

definition HasRegisteredDocuments :: "faults \<Rightarrow> access_db \<Rightarrow> string \<Rightarrow> access_error + bool" where
  "HasRegisteredDocuments flt db d = ask flt (SelAliases d) (affected (\<lambda>k _. fst k = d) (tbResources db) > 0)"

definition ValidateDatasetUploadTarget :: "faults \<Rightarrow> access_db \<Rightarrow> string \<Rightarrow> string \<Rightarrow> access_error + unit" where
  "ValidateDatasetUploadTarget flt db d name =
     (if d = '''' \<or> name = '''' then Inl ErrDocumentInvalid
      else andThen (ask flt (SelOwner d) (map_of (tbDatasets db) d)) (\<lambda>row.
        case row of
          Some r \<Rightarrow> require (dsName r = name) ErrDocumentVersionConflict
        | None \<Rightarrow> andThen (ask flt (SelVisible name) (list_ex (\<lambda>(_, r). dsName r = name) (tbDatasets db))) (\<lambda>reserved.
            require (\<not> reserved) ErrDocumentVersionConflict)))"

definition ValidateSourceReplacement ::
  "(string \<Rightarrow> string \<Rightarrow> bool) \<Rightarrow> faults \<Rightarrow> access_db \<Rightarrow> doc_ref \<Rightarrow> string \<Rightarrow> int \<Rightarrow> string \<Rightarrow> access_error + unit" where
  "ValidateSourceReplacement equalFold flt db ref name revision hash =
     (if fst ref = '''' \<or> snd ref = '''' \<or> name = '''' \<or> revision \<le> 0 \<or> length hash \<noteq> 64 then Inl ErrDocumentInvalid
      else andThen (ask flt (SelSource ref)
             (case (map_of (tbDatasets db) (fst ref), linked_source db ref) of
                (Some ds, Some r) \<Rightarrow> Some (dsName ds, daRevision r, daHash r, link_count db (snd ref))
              | _ \<Rightarrow> None)) (\<lambda>row.
        case row of
          None \<Rightarrow> Inl ErrDocumentNotFound
        | Some (current, version, h, inclusions) \<Rightarrow>
            if current \<noteq> name \<or> version \<noteq> revision \<or> \<not> equalFold h hash then Inl ErrDocumentVersionConflict
            else if inclusions \<noteq> 1 then Inl ErrDocumentSharedMetadata
            else Inr ()))"

section \<open>Reading a publication\<close>

record DocumentPublicationLineage =
  liSources :: string
  liAdmin :: bool
  liSourceRevision :: int
  liHash :: string
  liAttempt :: string
  liStatus :: string

definition lineage_row :: "access_db \<Rightarrow> doc_ref \<Rightarrow> int \<Rightarrow> string \<Rightarrow> string \<Rightarrow> publication_row option" where
  "lineage_row db ref revision collection generation =
     (case (map_of (tbPublications db) (ref, collection), linked_source db ref) of
        (Some pu, Some d) \<Rightarrow>
          if puContentRevision pu = revision \<and> puGeneration pu = generation \<and> puVerified pu
             \<and> puSourceRevision pu > 0 \<and> puSourceRevision pu = daRevision d \<and> puHash pu = sql_LOWER (daHash d)
             \<and> (case map_of (tbResources db) ref of
                  None \<Rightarrow> puContentRevision pu = 0
                | Some r \<Rightarrow> puContentRevision pu > 0 \<and> drContentRevision r = puContentRevision pu \<and> \<not> drTombstoned r)
          then Some pu else None
      | _ \<Rightarrow> None)"

definition DocumentIndexLineage ::
  "(string \<Rightarrow> string) \<Rightarrow> faults \<Rightarrow> access_db option \<Rightarrow> doc_ref \<Rightarrow> int \<Rightarrow> string \<Rightarrow> string \<Rightarrow>
   access_error + DocumentPublicationLineage option" where
  "DocumentIndexLineage uni flt p ref revision collection generation =
     (case p of None \<Rightarrow> Inl ErrDocumentInvalid
      | Some db \<Rightarrow>
        if revision < 0 \<or> collection = '''' \<or> generation = '''' then Inr None
        else andThen (ask flt (SelLineage ref) (lineage_row db ref revision collection generation)) (\<lambda>row.
          case row of
            None \<Rightarrow> Inr None
          | Some pu \<Rightarrow>
              if sourceSHA256 uni (puHash pu) \<noteq> Some (puHash pu) then Inr None
              else Inr (Some \<lparr>liSources = puSources pu, liAdmin = puAdmin pu, liSourceRevision = puSourceRevision pu,
                              liHash = puHash pu, liAttempt = '''', liStatus = ''''\<rparr>)))"

definition DocumentIndexPublished ::
  "(string \<Rightarrow> string) \<Rightarrow> faults \<Rightarrow> access_db option \<Rightarrow> doc_ref \<Rightarrow> int \<Rightarrow> string \<Rightarrow> string \<Rightarrow> access_error + bool" where
  "DocumentIndexPublished uni flt p ref revision collection generation =
     andThen (DocumentIndexLineage uni flt p ref revision collection generation) (\<lambda>l. Inr (l \<noteq> None))"

section \<open>Committing a publication\<close>

text \<open>The status of the attempt turns into \<open>COMPLETED\<close> with the publication.\<close>

definition finish_attempt ::
  "(string \<Rightarrow> bool) \<Rightarrow> faults \<Rightarrow> access_db \<Rightarrow> doc_ref \<Rightarrow> string \<Rightarrow> DocumentPublicationLineage \<Rightarrow> access_error + access_db" where
  "finish_attempt completed flt db ref collection l =
     (if liAttempt l = '''' then Inr db
      else if length (liStatus l) > 16 * 1024 \<or> \<not> completed (liStatus l) then Inl ErrDocumentInvalid
      else (let P = (\<lambda>k s. k = (ref, collection) \<and> (stSourceRevision s = liSourceRevision l \<and> sql_LOWER (stHash s) = liHash l
                              \<and> stAttempt s = liAttempt l)) in
        andThen (ask flt (Exec ''document_pipeline_statuses'' (fst ref) (snd ref)) ()) (\<lambda>_.
          if affected P (tbStatuses db) \<noteq> 1 then Inl ErrDocumentVersionConflict
          else Inr (db\<lparr>tbStatuses := update_where P (\<lambda>s. s\<lparr>stState := ''COMPLETED'', stJSON := liStatus l\<rparr>) (tbStatuses db)\<rparr>))))"

definition CommitDocumentIndexVersioned ::
  "(string \<Rightarrow> nat option) \<Rightarrow> (string \<Rightarrow> bool) \<Rightarrow> (string \<Rightarrow> string) \<Rightarrow> faults \<Rightarrow> access_db option \<Rightarrow> Actor \<Rightarrow> doc_ref \<Rightarrow> int \<Rightarrow>
   string \<Rightarrow> string \<Rightarrow> DocumentPublicationLineage \<Rightarrow> access_error + access_db" where
  "CommitDocumentIndexVersioned elements completed uni flt p actor ref revision collection generation l0 =
     (case (p, sourceSHA256 uni (liHash l0)) of
        (Some db, Some hash) \<Rightarrow>
          if collection = '''' \<or> generation = '''' \<or> revision < 0 \<or> liSourceRevision l0 \<le> 0 then Inl ErrDocumentInvalid
          else (let l = l0\<lparr>liHash := hash\<rparr> in
            if length (liSources l) > 131072 \<or> (case elements (liSources l) of None \<Rightarrow> True | Some n \<Rightarrow> n > 256) then Inl ErrDocumentInvalid
            else andThen (if liAdmin l
                 then andThen (IsSuperuser flt p (acUserID actor)) (\<lambda>ok.
                        require (ok \<and> acTenantID actor = '''') ErrDocumentForbidden)
                 else Inr ()) (\<lambda>_.
              andThen (case GetDocumentResource flt p ref of
                  Inr r \<Rightarrow> require (revision \<noteq> 0 \<and> drContentRevision r = revision) ErrDocumentVersionConflict
                | Inl e \<Rightarrow> if revision = 0 \<and> e = ErrDocumentNotFound then Inr () else Inl e) (\<lambda>_.
                andThen (AuthorizeDocument uni flt p actor ref ''write'') (\<lambda>d.
                  if \<not> dcAllowed d then Inl ErrDocumentForbidden
                  else andThen (SourceVersion uni flt p ref) (\<lambda>(current, currentHash).
                    if current \<noteq> liSourceRevision l \<or> currentHash \<noteq> liHash l then Inl ErrDocumentVersionConflict
                    else andThen (finish_attempt completed flt db ref collection l) (\<lambda>db1.
                      andThen (ask flt (Exec ''document_index_publications'' (fst ref) (snd ref))
                        (db1\<lparr>tbPublications := AList.update (ref, collection)
                           \<lparr>puContentRevision = revision, puGeneration = generation, puSources = liSources l, puAdmin = liAdmin l,
                            puVerified = True, puSourceRevision = liSourceRevision l, puHash = liHash l\<rparr> (tbPublications db1)\<rparr>)) (\<lambda>db2.
                        ask flt Commit db2)))))))
      | _ \<Rightarrow> Inl ErrDocumentInvalid)"

definition CommitDocumentIndexWithLineage ::
  "(string \<Rightarrow> nat option) \<Rightarrow> (string \<Rightarrow> bool) \<Rightarrow> (string \<Rightarrow> string) \<Rightarrow> faults \<Rightarrow> access_db option \<Rightarrow> Actor \<Rightarrow> doc_ref \<Rightarrow> int \<Rightarrow>
   string \<Rightarrow> string \<Rightarrow> DocumentPublicationLineage \<Rightarrow> access_error + access_db" where
  "CommitDocumentIndexWithLineage elements completed uni flt p actor ref revision collection generation l =
     (if p = None then Inl ErrDocumentInvalid
      else andThen (if revision > 0 \<and> liSourceRevision l = 0 \<and> liHash l = ''''
               then andThen (SourceVersion uni flt p ref) (\<lambda>(v, h). Inr (l\<lparr>liSourceRevision := v, liHash := h\<rparr>))
               else Inr l) (\<lambda>l'.
        CommitDocumentIndexVersioned elements completed uni flt p actor ref revision collection generation l'))"

definition CommitDocumentIndex ::
  "(string \<Rightarrow> nat option) \<Rightarrow> (string \<Rightarrow> bool) \<Rightarrow> (string \<Rightarrow> string) \<Rightarrow> faults \<Rightarrow> access_db option \<Rightarrow> Actor \<Rightarrow> doc_ref \<Rightarrow> int \<Rightarrow>
   string \<Rightarrow> string \<Rightarrow> access_error + access_db" where
  "CommitDocumentIndex elements completed uni flt p actor ref revision collection generation =
     CommitDocumentIndexWithLineage elements completed uni flt p actor ref revision collection generation
       \<lparr>liSources = ''[]'', liAdmin = False, liSourceRevision = 0, liHash = '''', liAttempt = '''', liStatus = ''''\<rparr>"

section \<open>What is published is what was current\<close>

lemma sourceSHA256_lower: "sourceSHA256 uni h = Some c \<Longrightarrow> c = sql_LOWER h \<and> sourceSHA256 uni c = Some c"
proof -
  assume h: "sourceSHA256 uni h = Some c"
  then have len: "length h = 64" and hex: "list_all hex_code h" and c: "c = ToLower uni h"
    by (auto simp: sourceSHA256_def split: if_splits)
  have small: "(of_char x :: nat) < 128" if "hex_code x" for x
    using that by (auto simp: hex_code_def Let_def)
  have asc: "list_all (\<lambda>x. (of_char x :: nat) < 128) h"
    using hex small by (auto simp: list_all_iff)
  then have c': "c = map lower_ascii h" by (simp add: c ToLower_def)
  have low: "hex_code (lower_ascii x) \<and> lower_ascii (lower_ascii x) = lower_ascii x" if "hex_code x" for x
    using that by (auto simp: hex_code_def lower_ascii_def Let_def split: if_splits)
  have "list_all hex_code c" "map lower_ascii c = c"
    using hex low by (auto simp: c' list_all_iff)
  moreover from this(1) have "list_all (\<lambda>x. (of_char x :: nat) < 128) c"
    using small by (auto simp: list_all_iff)
  ultimately have "sourceSHA256 uni c = Some c"
    using len by (simp add: sourceSHA256_def ToLower_def c')
  then show ?thesis by (simp add: sql_LOWER_def c')
qed

lemma finish_attempt_frame:
  assumes "finish_attempt completed flt db ref collection l = Inr db'"
  shows "tbResources db' = tbResources db" "tbLinks db' = tbLinks db" "tbData db' = tbData db" "tbPublications db' = tbPublications db"
  using assms by (auto simp: finish_attempt_def Let_def andThen_Inr split: if_splits)

lemma commit_effect:
  assumes "CommitDocumentIndexVersioned elements completed uni flt (Some db) actor ref revision collection generation l0 = Inr db'"
  obtains hash d dec where "sourceSHA256 uni (liHash l0) = Some hash" and "collection \<noteq> ''''" and "generation \<noteq> ''''" and "0 \<le> revision"
    and "0 < liSourceRevision l0"
    and "AuthorizeDocument uni flt (Some db) actor ref ''write'' = Inr dec" and "dcAllowed dec"
    and "case map_of (tbResources db) ref of None \<Rightarrow> revision = 0 | Some r \<Rightarrow> revision \<noteq> 0 \<and> drContentRevision r = revision"
    and "linked_source db ref = Some d" and "daRevision d = liSourceRevision l0" and "sourceSHA256 uni (daHash d) = Some hash"
    and "tbResources db' = tbResources db" and "tbLinks db' = tbLinks db" and "tbData db' = tbData db"
    and "map_of (tbPublications db') (ref, collection) =
           Some \<lparr>puContentRevision = revision, puGeneration = generation, puSources = liSources l0, puAdmin = liAdmin l0,
                 puVerified = True, puSourceRevision = liSourceRevision l0, puHash = hash\<rparr>"
proof -
  obtain hash where hash: "sourceSHA256 uni (liHash l0) = Some hash"
    using assms by (auto simp: CommitDocumentIndexVersioned_def split: option.splits)
  from assms obtain dec d db1 where facts: "collection \<noteq> ''''" "generation \<noteq> ''''" "0 \<le> revision" "0 < liSourceRevision l0"
    "AuthorizeDocument uni flt (Some db) actor ref ''write'' = Inr dec" "dcAllowed dec"
    and res: "andThen (case GetDocumentResource flt (Some db) ref of
                  Inr r \<Rightarrow> require (revision \<noteq> 0 \<and> drContentRevision r = revision) ErrDocumentVersionConflict
                | Inl e \<Rightarrow> if revision = 0 \<and> e = ErrDocumentNotFound then Inr () else Inl e) Inr = Inr ()"
    and src: "SourceVersion uni flt (Some db) ref = Inr (liSourceRevision l0, hash)"
    and fin: "finish_attempt completed flt db ref collection (l0\<lparr>liHash := hash\<rparr>) = Inr db1"
    and db': "db' = db1\<lparr>tbPublications := AList.update (ref, collection)
                           \<lparr>puContentRevision = revision, puGeneration = generation, puSources = liSources l0, puAdmin = liAdmin l0,
                            puVerified = True, puSourceRevision = liSourceRevision l0, puHash = hash\<rparr> (tbPublications db1)\<rparr>"
    by (auto simp: CommitDocumentIndexVersioned_def hash Let_def andThen_Inr split: if_splits prod.splits)
  note f = finish_attempt_frame [OF fin]
  have "case map_of (tbResources db) ref of None \<Rightarrow> revision = 0 | Some r \<Rightarrow> revision \<noteq> 0 \<and> drContentRevision r = revision"
    using res
    by (auto simp: GetDocumentResource_def documentResource_def andThen_def ask_def require_def split: option.splits if_splits)
  moreover from src obtain d where "linked_source db ref = Some d" "daRevision d = liSourceRevision l0" "sourceSHA256 uni (daHash d) = Some hash"
    by (auto simp: SourceVersion_def andThen_Inr split: option.splits if_splits)
  ultimately show thesis
    using facts hash by (intro that) (simp_all add: db' f update_conv')
qed

text \<open>A committed publication is found under the revision and the generation it was committed with.\<close>

lemma commit_then_lineage:
  assumes commit: "CommitDocumentIndexVersioned elements completed uni flt (Some db) actor ref revision collection generation l0 = Inr db'"
    and db: "\<And>r. map_of (tbResources db) ref = Some r \<Longrightarrow> \<not> drTombstoned r" and ok: "\<not> flt' (SelLineage ref)"
  shows "\<exists>hash. sourceSHA256 uni (liHash l0) = Some hash \<and>
           DocumentIndexLineage uni flt' (Some db') ref revision collection generation =
             Inr (Some (l0\<lparr>liHash := hash, liAttempt := '''', liStatus := ''''\<rparr>))"
proof -
  from commit_effect [OF commit] obtain hash d where hash: "sourceSHA256 uni (liHash l0) = Some hash"
    and names: "collection \<noteq> ''''" "generation \<noteq> ''''" "0 \<le> revision" "0 < liSourceRevision l0"
    and row: "case map_of (tbResources db) ref of None \<Rightarrow> revision = 0 | Some r \<Rightarrow> revision \<noteq> 0 \<and> drContentRevision r = revision"
    and src: "linked_source db ref = Some d" "daRevision d = liSourceRevision l0" "sourceSHA256 uni (daHash d) = Some hash"
    and same: "tbResources db' = tbResources db" "tbLinks db' = tbLinks db" "tbData db' = tbData db"
    and pub: "map_of (tbPublications db') (ref, collection) =
           Some \<lparr>puContentRevision = revision, puGeneration = generation, puSources = liSources l0, puAdmin = liAdmin l0,
                 puVerified = True, puSourceRevision = liSourceRevision l0, puHash = hash\<rparr>"
    by metis
  have "linked_source db' ref = Some d" using src(1) by (simp only: linked_source_def same)
  moreover have "hash = sql_LOWER (daHash d)" "sourceSHA256 uni hash = Some hash"
    using sourceSHA256_lower [OF src(3)] by auto
  ultimately have "lineage_row db' ref revision collection generation = map_of (tbPublications db') (ref, collection)"
    using row names src(2) db by (auto simp: lineage_row_def pub same split: option.splits)
  then show ?thesis
    using hash names ok \<open>sourceSHA256 uni hash = Some hash\<close>
    by (simp add: DocumentIndexLineage_def pub ask_def)
qed

end
