(* ===== verification/Access_Groups.thy ===== *)
theory Access_Groups
  imports Doc_History
begin

text \<open>
  The groups of a tenant (groups.go): created by name, their members replaced as a whole under the revision of the group. A group that a
  directory manages is read-only here.
\<close>

record AccessGroup =
  agID :: string
  agTenantID :: string
  agName :: string
  agRevision :: int
  agMembers :: "string list"

section \<open>Operations\<close>

definition groupManager :: "(string \<Rightarrow> string) \<Rightarrow> faults \<Rightarrow> access_db \<Rightarrow> Actor \<Rightarrow> string \<Rightarrow> access_error + unit" where
  "groupManager uni flt db actor tenantID =
     (if \<not> APIKeyAllows uni (acAPIKeyPermissions actor) ''share'' then Inl ErrGroupForbidden
      else andThen (documentIdentity flt db (acUserID actor)) (\<lambda>(active, admin).
        if \<not> active then Inl ErrGroupForbidden
        else andThen (ask flt (SelTenantOwner tenantID) (map_of (tbTenants db) tenantID)) (\<lambda>row.
          case row of
            None \<Rightarrow> Inl ErrGroupNotFound
          | Some owner \<Rightarrow>
              if admin then Inr ()
              else andThen (documentMember flt db (acUserID actor) tenantID) (\<lambda>member.
                require (acTenantID actor = tenantID \<and> member \<and> owner = acUserID actor) ErrGroupForbidden))))"

definition accessGroup :: "faults \<Rightarrow> access_db \<Rightarrow> string \<Rightarrow> access_error + AccessGroup" where
  "accessGroup flt db groupID =
     andThen (ask flt (SelGroup groupID) (map_of (tbGroups db) groupID)) (\<lambda>row.
       case row of
         None \<Rightarrow> Inl ErrGroupNotFound
       | Some g \<Rightarrow> Inr \<lparr>agID = groupID, agTenantID = grTenant g, agName = grName g, agRevision = grRevision g, agMembers = []\<rparr>)"

text \<open>\<open>orderBy\<close> is \<open>ORDER BY user_id\<close>.\<close>

definition groupMembers :: "(string list \<Rightarrow> string list) \<Rightarrow> faults \<Rightarrow> access_db \<Rightarrow> AccessGroup \<Rightarrow> access_error + AccessGroup" where
  "groupMembers orderBy flt db g =
     ask flt (SelGroupMembers (agID g))
       (g\<lparr>agMembers := agMembers g @ orderBy (map snd (filter (\<lambda>k. fst k = agID g) (map fst (tbGroupMembers db))))\<rparr>)"

definition GetGroup ::
  "(string list \<Rightarrow> string list) \<Rightarrow> (string \<Rightarrow> string) \<Rightarrow> faults \<Rightarrow> access_db option \<Rightarrow> Actor \<Rightarrow> string \<Rightarrow> access_error + AccessGroup" where
  "GetGroup orderBy uni flt p actor groupID =
     (case p of None \<Rightarrow> Inl ErrGroupNotFound
      | Some db \<Rightarrow> andThen (accessGroup flt db groupID) (\<lambda>g.
          if \<not> APIKeyAllows uni (acAPIKeyPermissions actor) ''read'' then Inl ErrGroupForbidden
          else andThen (groupManager uni flt db (actor\<lparr>acAPIKeyPermissions := ''''\<rparr>) (agTenantID g)) (\<lambda>_.
            groupMembers orderBy flt db g)))"

definition localGroupMutable :: "faults \<Rightarrow> access_db \<Rightarrow> string \<Rightarrow> access_error + unit" where
  "localGroupMutable flt db groupID =
     andThen (ask flt (SelScimGroup groupID) (affected (\<lambda>k _. k = groupID) (tbScimGroups db))) (\<lambda>n. require (n = 0) ErrGroupForbidden)"

text \<open>\<open>name\<close> is the trimmed name and \<open>uuid\<close> the fresh identifier. A group of the tenant with this name is returned as it is.\<close>

definition CreateGroup ::
  "(string list \<Rightarrow> string list) \<Rightarrow> (string \<Rightarrow> string) \<Rightarrow> faults \<Rightarrow> access_db option \<Rightarrow> string \<Rightarrow> Actor \<Rightarrow> string \<Rightarrow> string \<Rightarrow>
   access_error + AccessGroup \<times> access_db" where
  "CreateGroup orderBy uni flt p uuid actor tenantID name =
     (case p of None \<Rightarrow> Inl ErrGroupInvalid
      | Some db \<Rightarrow>
        if tenantID = '''' \<or> name = '''' then Inl ErrGroupInvalid
        else andThen (ask flt Begin ()) (\<lambda>_. andThen (groupManager uni flt db actor tenantID) (\<lambda>_.
          let same = filter (\<lambda>(_, g). grTenant g = tenantID \<and> grName g = name) (tbGroups db) in
          if flt (Exec ''access_groups'' tenantID name) \<or> map_of (tbGroups db) uuid \<noteq> None \<or> map_of (tbUsers db) uuid \<noteq> None
          then Inl ErrSql
          else (case (case same of
                   (i, _) # _ \<Rightarrow> (i, db)
                 | [] \<Rightarrow> (uuid, db\<lparr>tbGroups := tbGroups db @ [(uuid, \<lparr>grTenant = tenantID, grName = name, grRevision = 1\<rparr>)]\<rparr>)) of
            (groupID, db1) \<Rightarrow>
              andThen (accessGroup flt db1 groupID) (\<lambda>g.
                andThen (localGroupMutable flt db1 groupID) (\<lambda>_.
                  andThen (groupMembers orderBy flt db1 g) (\<lambda>g'. ask flt Commit (g', db1))))))))"

fun all_principals ::
  "faults \<Rightarrow> access_db \<Rightarrow> string \<Rightarrow> string list \<Rightarrow> access_error + unit" where
  "all_principals flt db tenantID [] = Inr ()"
| "all_principals flt db tenantID (u # us) =
     andThen (validateDocumentPrincipal flt db (''user'', u) tenantID) (\<lambda>_. all_principals flt db tenantID us)"

text \<open>\<open>sorted\<close> is \<open>sort.Strings\<close>, applied to the distinct identifiers. \<open>TrimSpace(id) == ""\<close> refuses blank ones.\<close>

definition ReplaceGroupMembers ::
  "(string list \<Rightarrow> string list) \<Rightarrow> (string \<Rightarrow> string) \<Rightarrow> faults \<Rightarrow> access_db option \<Rightarrow> Actor \<Rightarrow> string \<Rightarrow> int \<Rightarrow> string list \<Rightarrow>
   access_error + AccessGroup \<times> access_db" where
  "ReplaceGroupMembers sortStrings uni flt p actor groupID expected userIDs =
     (case p of None \<Rightarrow> Inl ErrGroupInvalid
      | Some db \<Rightarrow>
        if groupID = '''' \<or> expected \<le> 0 \<or> list_ex blank userIDs then Inl ErrGroupInvalid
        else (let members = remdups userIDs in
          andThen (ask flt Begin ()) (\<lambda>_. andThen (accessGroup flt db groupID) (\<lambda>g.
            andThen (groupManager uni flt db actor (agTenantID g)) (\<lambda>_.
              let P = (\<lambda>k r. k = groupID \<and> grRevision r = expected) in
              if flt (Exec ''access_groups'' groupID '''') \<or> expected \<ge> max_bigint then Inl ErrSql
              else if affected P (tbGroups db) \<noteq> 1 then Inl ErrGroupVersionConflict
              else (let db1 = db\<lparr>tbGroups := update_where P (\<lambda>r. r\<lparr>grRevision := grRevision r + 1\<rparr>) (tbGroups db)\<rparr> in
                andThen (localGroupMutable flt db1 groupID) (\<lambda>_.
                  andThen (all_principals flt db1 (agTenantID g) members) (\<lambda>_.
                    if flt (Exec ''access_group_members'' groupID '''') then Inl ErrSql
                    else ask flt Commit
                      (g\<lparr>agMembers := sortStrings members, agRevision := expected + 1\<rparr>,
                       db1\<lparr>tbGroupMembers := delete_where (\<lambda>k _. fst k = groupID) (tbGroupMembers db1)
                             @ map (\<lambda>u. ((groupID, u), agTenantID g)) (sortStrings members)\<rparr>))))))))) "

section \<open>Members are members of the tenant\<close>

lemma all_principals_sound:
  "all_principals flt db tenantID us = Inr () \<Longrightarrow> u \<in> set us \<Longrightarrow> active_user db u \<and> map_of (tbMembers db) (u, tenantID) \<noteq> None"
  by (induction us) (auto simp: andThen_Inr principal_of_def dest: validatePrincipal_sound)

definition may_manage_groups :: "access_db \<Rightarrow> Actor \<Rightarrow> string \<Rightarrow> bool" where
  "may_manage_groups db actor tenantID \<longleftrightarrow>
     acUserID actor \<noteq> '''' \<and> active_user db (acUserID actor)
     \<and> (super_user db (acUserID actor)
        \<or> (acTenantID actor = tenantID \<and> map_of (tbMembers db) (acUserID actor, tenantID) \<noteq> None
           \<and> map_of (tbTenants db) tenantID = Some (acUserID actor)))"

lemma groupManager_sound:
  assumes "groupManager uni flt db actor tenantID = Inr ()"
  shows "may_manage_groups db actor tenantID"
proof -
  have "acUserID actor \<noteq> ''''"
    using assms by (auto simp: groupManager_def documentIdentity_def split: if_splits)
  with assms show ?thesis
    by (auto simp: groupManager_def may_manage_groups_def andThen_Inr documentIdentity_ask documentMember_def
        split: if_splits option.splits)
qed

text \<open>After a replacement the members of the group are exactly the given users, all of them active members of the tenant.\<close>

lemma replace_members_effect:
  assumes run: "ReplaceGroupMembers sortStrings uni flt (Some db) actor groupID expected userIDs = Inr (g, db')"
    and sort: "\<And>xs. set (sortStrings xs) = set xs" and keys: "keyed (tbGroupMembers db)" "keyed (tbGroups db)"
  shows "\<exists>r. map_of (tbGroups db) groupID = Some r \<and> grRevision r = expected \<and> may_manage_groups db actor (grTenant r)
           \<and> map_of (tbGroups db') = (map_of (tbGroups db))(groupID \<mapsto> r\<lparr>grRevision := expected + 1\<rparr>)
           \<and> (\<forall>u. map_of (tbGroupMembers db') (groupID, u) = (if u \<in> set userIDs then Some (grTenant r) else None))
           \<and> (\<forall>k u. k \<noteq> groupID \<longrightarrow> map_of (tbGroupMembers db') (k, u) = map_of (tbGroupMembers db) (k, u))
           \<and> (\<forall>u\<in>set userIDs. active_user db u \<and> map_of (tbMembers db) (u, grTenant r) \<noteq> None)"
proof -
  let ?P = "\<lambda>k r. k = groupID \<and> grRevision r = expected"
  from run obtain r where r: "map_of (tbGroups db) groupID = Some r"
    and manager: "groupManager uni flt db actor (grTenant r) = Inr ()"
    and hit: "affected ?P (tbGroups db) = 1"
    and users: "all_principals flt (db\<lparr>tbGroups := update_where ?P (\<lambda>r. r\<lparr>grRevision := grRevision r + 1\<rparr>) (tbGroups db)\<rparr>)
                  (grTenant r) (remdups userIDs) = Inr ()"
    and groups: "tbGroups db' = update_where ?P (\<lambda>r. r\<lparr>grRevision := grRevision r + 1\<rparr>) (tbGroups db)"
    and members: "tbGroupMembers db' = delete_where (\<lambda>k _. fst k = groupID) (tbGroupMembers db)
                    @ map (\<lambda>u. ((groupID, u), grTenant r)) (sortStrings (remdups userIDs))"
    by (auto simp: ReplaceGroupMembers_def accessGroup_def andThen_Inr Let_def split: if_splits option.splits)
  have "\<not> (\<forall>(k, r)\<in>set (tbGroups db). \<not> ?P k r)"
    using hit affected_zero [of ?P "tbGroups db"] by simp
  then have rev: "grRevision r = expected"
    using r keyed_lookup [OF keys(2)] by auto
  have "map_of (tbGroups db') = (map_of (tbGroups db))(groupID \<mapsto> r\<lparr>grRevision := expected + 1\<rparr>)"
  proof
    fix k show "map_of (tbGroups db') k = ((map_of (tbGroups db))(groupID \<mapsto> r\<lparr>grRevision := expected + 1\<rparr>)) k"
      by (cases "k = groupID") (simp_all add: groups sql r rev option.map_ident)
  qed
  moreover have "map_of (tbGroupMembers db') (k, u) =
      (if k = groupID then if u \<in> set userIDs then Some (grTenant r) else None else map_of (tbGroupMembers db) (k, u))" for k u
  proof -
    have "map_of (map (\<lambda>u. ((groupID, u), grTenant r)) us) (k, u) = (if k = groupID \<and> u \<in> set us then Some (grTenant r) else None)" for us
      by (induction us) auto
    then show ?thesis
      using sort by (auto simp: members map_add_def delete_where_lookup [OF keys(1)] split: option.split)
  qed
  moreover have "active_user db u \<and> map_of (tbMembers db) (u, grTenant r) \<noteq> None" if "u \<in> set userIDs" for u
    using all_principals_sound [OF users, of u] that by (simp add: active_user_def)
  ultimately show ?thesis
    using r rev groupManager_sound [OF manager] by auto
qed

section \<open>The revision of a group\<close>

text \<open>Anything may happen to a database except that the revision of a group goes back or the group disappears.\<close>

definition group_revision :: "string \<Rightarrow> access_db \<Rightarrow> int option" where
  "group_revision i db = map_option grRevision (map_of (tbGroups db) i)"

definition group_next :: "string \<Rightarrow> access_db \<Rightarrow> access_db \<Rightarrow> bool" where
  "group_next i db db' \<longleftrightarrow>
     (\<exists>sortStrings uni flt actor n us g. ReplaceGroupMembers sortStrings uni flt (Some db) actor i n us = Inr (g, db'))
     \<or> tbGroups db' = tbGroups db
     \<or> (\<exists>orderBy uni flt uuid actor tenantID name g. CreateGroup orderBy uni flt (Some db) uuid actor tenantID name = Inr (g, db'))"

definition store_members ::
  "string \<Rightarrow> (string list \<Rightarrow> string list) \<times> (string \<Rightarrow> string) \<times> faults \<times> Actor \<times> string list \<Rightarrow> int \<Rightarrow> access_db \<Rightarrow> access_db option" where
  "store_members i x n db =
     (case x of (sortStrings, uni, flt, actor, us) \<Rightarrow>
        (case ReplaceGroupMembers sortStrings uni flt (Some db) actor i n us of Inl _ \<Rightarrow> None | Inr (_, db') \<Rightarrow> Some db'))"

lemma replace_revision:
  assumes "ReplaceGroupMembers sortStrings uni flt (Some db) actor i n us = Inr (g, db')" and "keyed (tbGroups db)"
  shows "group_revision i db = Some n \<and> group_revision i db' = Some (n + 1) \<and> keyed (tbGroups db')"
proof -
  let ?P = "\<lambda>k r. k = i \<and> grRevision r = n"
  from assms(1) have hit: "affected ?P (tbGroups db) = 1"
    and groups: "tbGroups db' = update_where ?P (\<lambda>r. r\<lparr>grRevision := grRevision r + 1\<rparr>) (tbGroups db)"
    by (auto simp: ReplaceGroupMembers_def accessGroup_def andThen_Inr Let_def split: if_splits option.splits)
  from hit have "group_revision i db = Some n"
    by (auto simp: affected_key [OF assms(2)] group_revision_def split: option.splits if_splits)
  with assms(2) show ?thesis by (auto simp: group_revision_def groups sql)
qed

lemma create_keeps:
  assumes "CreateGroup orderBy uni flt (Some db) uuid actor tenantID name = Inr (g, db')" and "keyed (tbGroups db)"
    and "map_of (tbGroups db) i = Some r"
  shows "map_of (tbGroups db') i = Some r \<and> keyed (tbGroups db')"
  using assms
  by (auto simp: CreateGroup_def andThen_Inr Let_def map_add_def keyed_def map_of_eq_None_iff split: if_splits list.splits prod.splits)

interpretation group_store: revisioned "group_revision i" "\<lambda>db db'. keyed (tbGroups db) \<and> group_next i db db'"
  "\<lambda>x n db. if keyed (tbGroups db) then store_members i x n db else None"
  for i :: string
proof unfold_locales
  fix db db' :: access_db and n
  assume "keyed (tbGroups db) \<and> group_next i db db'" and n: "group_revision i db = Some n"
  then have keys: "keyed (tbGroups db)" and nx: "group_next i db db'" by auto
  from n obtain r where r: "map_of (tbGroups db) i = Some r" "grRevision r = n" by (auto simp: group_revision_def)
  from nx show "\<exists>r'. group_revision i db' = Some r' \<and> n \<le> r'"
    unfolding group_next_def
  proof (elim disjE exE)
    fix sortStrings uni flt actor m us g
    assume "ReplaceGroupMembers sortStrings uni flt (Some db) actor i m us = Inr (g, db')"
    from replace_revision [OF this keys] n show ?thesis by auto
  next
    assume "tbGroups db' = tbGroups db"
    with r show ?thesis by (simp add: group_revision_def)
  next
    fix orderBy uni flt uuid actor tenantID name g
    assume "CreateGroup orderBy uni flt (Some db) uuid actor tenantID name = Inr (g, db')"
    from create_keeps [OF this keys r(1)] r(2) show ?thesis by (simp add: group_revision_def)
  qed
next
  fix x n and db db' :: access_db
  assume *: "(if keyed (tbGroups db) then store_members i x n db else None) = Some db'"
  then obtain sortStrings uni flt actor us g where
    run: "ReplaceGroupMembers sortStrings uni flt (Some db) actor i n us = Inr (g, db')" and keys: "keyed (tbGroups db)"
    by (auto simp: store_members_def split: if_splits prod.splits sum.splits)
  from replace_revision [OF run keys] show "group_revision i db = Some n" and "\<exists>r'. group_revision i db' = Some r' \<and> n < r'"
    by auto
qed

end
