(* ===== verification/Demo_Access.thy ===== *)
theory Demo_Access
  imports Identity_Facts Doc_Publish Access_Groups
begin

text \<open>A small database of users, datasets and documents, and steps on it, at which the properties of the access layer are applied.\<close>

definition demo_actor :: "string \<Rightarrow> Actor" where
  "demo_actor u = \<lparr>acUserID = u, acAPIKeyPermissions = '''', acTenantID = ''t'', acAuthMethod = ''jwt'', acSuperuser = False\<rparr>"

definition demo_ref :: doc_ref where
  "demo_ref = (''d'', ''x'')"

definition demo_user :: "bool \<Rightarrow> bool \<Rightarrow> user_row" where
  "demo_user active super = \<lparr>usActive = active, usSuper = super, usEmail = ''''\<rparr>"

definition demo_tables :: access_db where
  "demo_tables =
     \<lparr>tbUsers = [(''ann'', demo_user True False), (''bob'', demo_user True False), (''eve'', demo_user False True)],
      tbTenants = [(''t'', ''ann'')], tbMembers = [((''ann'', ''t''), ()), ((''bob'', ''t''), ())],
      tbDatasets = [(''d'', \<lparr>dsName = ''docs'', dsOwner = Some ''ann''\<rparr>), (''p'', \<lparr>dsName = ''open'', dsOwner = None\<rparr>)],
      tbShares = [((''d'', ''bob''), \<lparr>shID = ''s'', shRole = ''viewer''\<rparr>)],
      tbData = [(''x'', \<lparr>daName = ''plan'', daRevision = 1, daHash = '''', daRaw = '''', daOriginal = ''''\<rparr>)],
      tbLinks = [(demo_ref, ())],
      tbResources = [(demo_ref, new_registration ''t'' ''restricted'')],
      tbGrants = [], tbGroups = [], tbGroupMembers = [], tbScimGroups = [], tbPublications = [], tbArtifacts = [], tbStatuses = [],
      tbCounter = Some 1, tbEpochs = [], tbKeys = [], tbSessions = []\<rparr>"

definition no_faults :: faults where
  "no_faults q = False"

definition after :: "access_error + 'a \<times> access_db \<Rightarrow> access_db" where
  "after r = (case r of Inl _ \<Rightarrow> demo_tables | Inr (_, db) \<Rightarrow> db)"

definition demo_held :: access_db where
  "demo_held = after (SetDocumentHold id no_faults (Some demo_tables) (demo_actor ''ann'') demo_ref 1 True)"

definition demo_shared :: access_db where
  "demo_shared = after (GrantDocument id no_faults (Some demo_held) (demo_actor ''ann'') demo_ref 2 (''user'', ''bob'') ''Editor'')"

definition demo_granted :: access_db where
  "demo_granted = after (GrantDocument id no_faults (Some demo_tables) (demo_actor ''ann'') demo_ref 1 (''user'', ''bob'') ''viewer'')"

definition demo_gone :: access_db where
  "demo_gone = after (TombstoneDocument id no_faults (Some demo_tables) (demo_actor ''ann'') demo_ref 1 1)"

definition demo_dropped :: access_db where
  "demo_dropped = forget_group ''g'' demo_gone"

definition succeeds :: "access_error + document_row \<times> access_db \<Rightarrow> access_db \<Rightarrow> bool" where
  "succeeds r db \<longleftrightarrow> (\<exists>x. r = Inr (x, db))"

lemma after_Inr: "(case r of Inl _ \<Rightarrow> False | Inr _ \<Rightarrow> True) \<Longrightarrow> \<exists>x. r = Inr (x, after r)"
  by (cases r) (auto simp: after_def)

lemma demo_held_run: "\<exists>x. SetDocumentHold id no_faults (Some demo_tables) (demo_actor ''ann'') demo_ref 1 True = Inr (x, demo_held)"
  unfolding demo_held_def by (rule after_Inr) code_simp

lemma demo_shared_run:
  "\<exists>x. GrantDocument id no_faults (Some demo_held) (demo_actor ''ann'') demo_ref 2 (''user'', ''bob'') ''Editor'' = Inr (x, demo_shared)"
  unfolding demo_shared_def by (rule after_Inr) code_simp

lemma demo_granted_run:
  "\<exists>x. GrantDocument id no_faults (Some demo_tables) (demo_actor ''ann'') demo_ref 1 (''user'', ''bob'') ''viewer'' = Inr (x, demo_granted)"
  unfolding demo_granted_def by (rule after_Inr) code_simp

lemma demo_gone_run: "\<exists>x. TombstoneDocument id no_faults (Some demo_tables) (demo_actor ''ann'') demo_ref 1 1 = Inr (x, demo_gone)"
  unfolding demo_gone_def by (rule after_Inr) code_simp

lemma demo_tables_ok: "doc_ok demo_tables"
  by (rule doc_okI) (auto simp: demo_tables_def keyed_def row_ok_def new_registration_def split: if_splits)

lemma demo_next:
  shows "doc_next {} demo_tables demo_granted" and "doc_next {} demo_tables demo_gone" and "doc_next {} demo_tables demo_held"
    and "doc_next fixed demo_held demo_shared" and "doc_next fixed demo_gone demo_dropped"
  using demo_held_run demo_shared_run demo_granted_run demo_gone_run
  by (auto simp: doc_next_def demo_dropped_def intro: doc_step.intros)

lemma demo_run:
  shows "(doc_next {})\<^sup>*\<^sup>* demo_tables demo_granted" and "(doc_next fixed)\<^sup>*\<^sup>* demo_held demo_shared"
    and "(doc_next fixed)\<^sup>*\<^sup>* demo_gone demo_dropped"
  by (rule r_into_rtranclp, rule demo_next)+

lemma demo_held_ok: "doc_ok demo_held" and demo_gone_ok: "doc_ok demo_gone"
  using demo_next(2,3) demo_tables_ok by (auto dest: next_moves(1))

lemma demo_held_row: "\<exists>r. map_of (tbResources demo_held) demo_ref = Some r \<and> drHold r \<and> drContentRevision r = 1"
proof -
  have "map_option (\<lambda>r. (drHold r, drContentRevision r)) (map_of (tbResources demo_held) demo_ref) = Some (True, 1)"
    by code_simp
  then show ?thesis by auto
qed

lemma demo_gone_row: "\<exists>r. map_of (tbResources demo_gone) demo_ref = Some r \<and> drTombstoned r \<and> drContentRevision r = 2"
proof -
  have "map_option (\<lambda>r. (drTombstoned r, drContentRevision r)) (map_of (tbResources demo_gone) demo_ref) = Some (True, 2)"
    by code_simp
  then show ?thesis by auto
qed

section \<open>Credentials\<close>

definition demo_token :: Credential where
  "demo_token = \<lparr>crKind = ''jwt'', crKeyID = '''', crSessionID = '''', crEpoch = 0, crIssuedAt = 50, crExpiresAt = 1000\<rparr>"

definition demo_revoked :: access_db where
  "demo_revoked = (case DeactivateUser no_faults (Some demo_tables) ''bob'' 100 of Inl _ \<Rightarrow> demo_tables | Inr db \<Rightarrow> db)"

definition demo_back :: access_db where
  "demo_back = (case ProvisionUser no_faults (Some demo_revoked) (\<lambda>d. (d, d)) ''bob'' True False None 200 of
                  (_, Some db) \<Rightarrow> db | _ \<Rightarrow> demo_tables)"

lemma demo_revoked_run: "DeactivateUser no_faults (Some demo_tables) ''bob'' 100 = Inr demo_revoked"
  by code_simp

lemma demo_back_step: "identity_step demo_revoked demo_back"
proof -
  have "ProvisionUser no_faults (Some demo_revoked) (\<lambda>d. (d, d)) ''bob'' True False None 200 = (None, Some demo_back)"
    by code_simp
  then show ?thesis by (rule identity_step.provision)
qed

lemma demo_back_run: "identity_step\<^sup>*\<^sup>* demo_revoked demo_back"
  by (rule r_into_rtranclp, rule demo_back_step)

lemma demo_token_old: "issued_before demo_tables ''bob'' 100 demo_token"
  by (simp add: issued_before_def demo_token_def credential_of_def demo_tables_def)

end
