(* ===== verification/Spec2Isabelle.thy ===== *)
theory Spec2Isabelle
  imports Demo_Search Demo_Access
begin

text \<open>
  Levara is a vector database in Go. This development models its storage core and what is built directly on it: the engine
  that keeps one set of records (\<open>internal/store\<close>), the clusters, replicas and consensus groups made of engines
  (\<open>internal/cluster\<close>), the collections by which clients name engines (\<open>internal/store/collections.go\<close> with
  \<open>pkg/embcontract\<close>), the path of a document into it and of a query through it: chunking (\<open>pkg/chunker\<close>), the embedding client
  (\<open>pkg/embed\<close>) and the keyword index that is searched beside the vectors (\<open>pkg/bm25\<close>), and the decisions on who may see and change
  what (\<open>pkg/access\<close>).

  The program. A record is an id, a vector of \<open>float32\<close> and JSON metadata. An engine (\<open>Levara\<close>, \<open>db.go\<close>) appends the metadata to a
  file (\<open>disk.go\<close>), the normalized vector to pages in memory (\<open>arena.go\<close>) and the whole record to a write-ahead log (\<open>wal.go\<close>),
  updates its index and queues the record; a background goroutine moves queued records into a graph (\<open>hnsw.go\<close>, over the heaps of
  \<open>heap.go\<close>). Callers wait for one \<open>fsync\<close> per group of writes. A search ranks the graph's answer together with the queue. On
  startup the log is repaired and replayed (\<open>wal_validate.go\<close>, \<open>wal.go\<close>, \<open>db.go\<close>); a checkpoint replaces it by one that holds only
  what is stored. A cluster (\<open>shard.go\<close>) routes records by hash to shards, which are engines or nodes; a node is either a primary
  that streams its log to replicas (\<open>direct.go\<close>, \<open>replication.go\<close>) or a member of a Raft group (\<open>node.go\<close>, \<open>fsm.go\<close>). The
  collection manager opens one engine per collection and keeps its embedding contract: it stamps the metadata of a record with
  the version of the vector space that it belongs to, and refuses another version. A document is cut into chunks, each chunk is embedded by a service behind a circuit breaker and an admission gate,
  stored in a collection and added to its keyword index; a query is answered by both indexes, whose rankings are fused. Every request
  is decided over SQL tables: datasets have owners and shares; a document (one inclusion of a source in a dataset) may be registered, and
  then it has a tenant, a mode, grants to users and groups, a hold, a tombstone and two revisions under which it is changed; users
  carry credentials that a deactivation revokes.

  The theories, from the bottom up.

  \<^item> \<open>Prelude\<close>: bytes, little-endian numbers, Go's integer conversions, \<open>sort.Slice\<close>, maps and their iteration order.
    \<open>Float_Bits\<close>: \<open>float32\<close> as bit patterns, with exact arithmetic and one rounding per operation.
  \<^item> \<open>Heap\<close>: the four heaps, one locale \<open>heap_order\<close> interpreted four times.
  \<^item> \<open>Arena\<close>, \<open>Disk\<close>: the vector pages refine a list, the metadata file returns what was written.
  \<^item> \<open>WAL_Format\<close>, \<open>WAL_Recovery\<close>, \<open>WAL\<close>, \<open>Group_Commit\<close>: the frame format, replay, the strict walk and the repair of a torn
    tail; the log object with what a crash can leave of it; the group commit as a step relation.
  \<^item> \<open>HNSW\<close>, \<open>HNSW_Search\<close>, \<open>HNSW_Graph\<close>: the graph, what its searches return, and its invariant under insertion.
  \<^item> \<open>Levara\<close>: the engine, one definition per phase and per operation of \<open>db.go\<close>. \<open>Levara_Inv\<close>, \<open>Levara_Ops\<close>,
    \<open>Levara_Recovery\<close>, \<open>Levara_Api\<close>, \<open>Levara_Search\<close>, \<open>Levara_Batch\<close>, \<open>Levara_Restore\<close>: the invariant \<open>lv_inv pub recs db\<close> (memory is
    consistent, the log holds the records \<open>recs\<close>, their replay is the contents), the contents \<open>lv_abs\<close> as a map from ids to vectors
    and metadata, and each operation as an operation on that map. \<open>Levara_Steps\<close>, \<open>Levara_Stale\<close>: callers, indexer, checkpoints and
    restores interleaved, a phase (one hold of a lock) at a time.
  \<^item> \<open>Shard\<close>: the cluster over any implementation of the interface \<open>ShardHandler\<close>; the locale \<open>shard_handler\<close> is the contract of
    the interface and is interpreted on the engine.
  \<^item> \<open>Replication\<close>, \<open>Replication_Server\<close>, \<open>Replication_Steps\<close>, \<open>Node_Batch\<close>: server, node and replica, and the interleaving of a
    primary, its stream and a replica. \<open>Raft\<close>: the state machine and the node of a consensus group.
  \<^item> \<open>Contract\<close>: contracts, fingerprints and stamps. \<open>Collection_Names\<close>, \<open>Collections\<close>, \<open>Collection_Inv\<close>, \<open>Collection_Life\<close>: the
    collection manager, as a map from names to contents.
  \<^item> \<open>Embed_Breaker\<close>, \<open>Embed_Gate\<close>: the circuit breaker (\<open>breaker.go\<close>) and the admission gate (\<open>priority.go\<close>), each with the step relation of
    its concurrent requests. \<open>Embed_Client\<close>: the cache of vectors and the client (\<open>cache.go\<close>, \<open>client.go\<close>).
  \<^item> \<open>Chunker\<close>, \<open>Chunker_Facts\<close>: the ways to cut a text, and what of it the chunks cover.
  \<^item> \<open>Heapify\<close>: \<open>container/heap\<close> over the locale \<open>heap_order\<close>. \<open>Bm25\<close>, \<open>Bm25_Facts\<close>, \<open>Bm25_Search\<close>, \<open>Bm25_Hybrid\<close>: the inverted index, what
    it is a function of, its search and the fusion with vector results. \<open>Bm25_Store\<close>, \<open>Bm25_Registry\<close>: its files and the registry.
  \<^item> \<open>Sql_Tables\<close>: tables as keyed lists, statements that can fail, and the locale \<open>revisioned\<close> (a store whose operations name the
    revision they were computed from), interpreted on registrations and on groups. \<open>Access\<close>, \<open>Access_Policy\<close>, \<open>Access_Document\<close>: the tables of
    \<open>internal/http/schema.go\<close> as the record \<open>access_db\<close>, and the dataset, workspace and document decisions (\<open>policy.go\<close>, \<open>actor.go\<close>,
    \<open>tenant.go\<close>, \<open>acl.go\<close>, \<open>artifact.go\<close>, \<open>document_policy.go\<close>, \<open>document_metadata.go\<close>); \<open>Access_Facts\<close> says what they decide.
    \<open>Identity\<close>, \<open>Identity_Facts\<close>: credentials, sessions and provisioning (\<open>credential_epoch.go\<close>, \<open>browser_session.go\<close>, \<open>provisioning.go\<close>,
    \<open>read_fence.go\<close>), with the step relation of all that can happen to them. \<open>Doc_Policy\<close>, \<open>Doc_Facts\<close>, \<open>Doc_Steps\<close>, \<open>Doc_History\<close>: the
    operations on documents (\<open>document_policy.go\<close>, \<open>prune.go\<close>), how each moves a registration, and all their histories. \<open>Doc_Publish\<close>:
    the publication of an index under the version of its source (\<open>read_fence.go\<close>). \<open>Access_Groups\<close>: \<open>groups.go\<close>.
  \<^item> \<open>Demo\<close>, \<open>Demo_Cluster\<close>, \<open>Demo_Collections\<close>, \<open>Demo_Search\<close>, \<open>Demo_Access\<close>: concrete instances at which the properties are applied.

  How the model corresponds to the code. A struct is a record whose fields have a prefix (\<open>dbIndex\<close> is \<open>index\<close> of \<open>Levara\<close>), a function
  keeps its name (with a prefix where several types share it: \<open>CM_Insert\<close> is \<open>Insert\<close> of \<open>CollectionManager\<close>). A pointer is a position
  in an explicit store: graph nodes, channels, the engines of a manager. An operation that takes and releases a lock is composed of
  one definition per critical section, and the step relations interleave these. A panic is \<open>None\<close>. What is not under \<open>src/\<close>, and what the operating
  system decides, is an argument: the outcome of each write, flush, rename and directory sync, and of each HTTP exchange; the dot product (\<open>vek32.Dot\<close>); the random level of a
  graph node; the order in which a loop visits a map or in which goroutines answer; JSON, SHA-256, UUIDs, lower-casing, the classes of Unicode letters and digits, the logarithm and the environment; the Raft library,
  which is the assumption that every member applies the same committed entries in the same order; which SQL statements fail (\<open>flt\<close>), the
  collation of \<open>ORDER BY\<close> (\<open>orderBy\<close>), what \<open>strings.ToLower\<close> does outside ASCII (\<open>uni\<close>) and the clock. A transaction is an operation on
  the tables that answers with an error, and has then changed nothing (a failed \<open>COMMIT\<close> counts as rolled back), or with the new tables; an operation that reads before
  its transaction begins takes both states. A decision reads one state, although outside a fence its queries could see several.

  Bounds and hypotheses. Arena slots are \<open>uint32\<close>, so the theorems assume fewer than \<open>2 ^ 32\<close> vectors; offsets in the metadata file are
  \<open>int64\<close>, so they assume room below \<open>2 ^ 63\<close> (\<open>lv_space\<close>, \<open>room_for\<close>, \<open>cm_ready\<close>). \<open>whole_write\<close> says that a write to the metadata file is complete
  or leaves nothing; without it the file is corrupted (\<open>short_write_corrupts\<close>). A frame has at least 29 bytes, so a log below 64 GiB has fewer
  than \<open>2 ^ 32\<close> records, which is what a crash at any moment assumes. \<open>json_keeps\<close> and \<open>json_version_law\<close> are what \<open>encoding/json\<close> does with the
  version in metadata: they speak of strings that are valid UTF-8 (\<open>utf8_ok\<close>) and of values that the decoder reads back (\<open>reads_back\<close>), and
  say nothing of values of types that the code does not know. \<open>map_order\<close> says that an iteration order lists
  each key once. Orders on scores assume that no score is a NaN, and the graph is only promised to return stored records with their scores, not
  the nearest ones. The loops of the heaps, of the beam search, of the strict walk and of the chunkers are recursive functions with a measure, so every operation
  of the model terminates and none needs fuel. A crash leaves any prefix of the log that is at least as long as what a successful \<open>fsync\<close> covered, and either
  file of a rename whose directory was not synced (\<open>WAL_crash_files\<close>); the metadata file is rebuilt from the log.

  What the sections below show: acknowledged writes survive every crash and interleaving; the engine, its batches, checkpoints and restores are
  operations on a map; clusters, replicas, consensus groups and collections refine the same map; the log format, the group commit and the graph keep their own
  promises; the breaker, the gate, the client, the windows of the chunker and the keyword index keep theirs, and the index comes back from its file; the access
  decisions are what a comparison of roles says, inactive users have nothing (but what a request gets that names nothing), and over every history of the tables tombstones, holds, revisions, grants and revocations
  keep their meaning. Properties of kind error state what the code does where it departs from its intention: they are the findings of the manifest.

  Not modelled: the HTTP, gRPC and MCP servers, the command line tool, the workspace, sync and task subsystems, the rest of the ingestion pipeline
  (fetching, extraction, graph construction), graph search and ranking, object storage and backup, most of which work over SQL, files and
  remote services; of \<open>pkg/access\<close> the listings for display (\<open>ListVisibleDatasets\<close>, \<open>ReadDocumentPolicy\<close>, \<open>ListDocumentRecipients\<close>,
  \<open>ListSharedDocuments\<close>, \<open>GraphDatasetIDs\<close>), the opening of read fences, which only takes locks, and directory provisioning and single sign-on (SCIM, SAML, OpenID Connect), which are protocols over XML, tokens and
  certificates; \<open>rebuild.go\<close>, which sorts the records of a collection by what their metadata says of the graph; the chunking of source code and the
  detection of sections, which follow regular expressions (\<open>code.go\<close>, \<open>section.go\<close>); the sharing of identical searches that run at the same time
  (\<open>singleflight\<close>); the exhaustion of memory by a search with an absurd \<open>topK\<close> in an engine (for clusters it is modelled), before which
  the width of the search could also wrap around; the text of an embedding request, of which only the number of inputs matters here; calls of the breaker's
  \<open>RecordSuccess\<close> and \<open>RecordFailure\<close> by others than its own requests, which only the tests make; timers, log lines, metrics and profiles. Floating point is that of a machine without fused multiply and add, which Go may use on others.
\<close>

section \<open>Durability\<close>





text \<open>
  C3. Crashes at any moment. In any state that interleaved inserts, deletes, flushes, checkpoints and indexer steps reach, the
  bytes of the log are the frames of records (with a cut frame behind them after a write error) whose replay is what the engine
  contains. A crash that keeps at least the synced bytes of the log leaves a file that opens, and the reopened engine holds what
  a prefix of these records stands for; the prefix has every record whose frame was synced. The log is shorter than 64 GiB, which
  bounds the records by what the slots of the arena can number.
\<close>


theorem crash_reachable:
  assumes "lv_inv None recs0 db0" "lv_run (ls_start db0) s" "walSynced (dbWal (lsDb s)) \<le> k"
    and "length (walLog (dbWal (lsDb s))) < 2 ^ 36" "\<forall>j. dio j = DiskOk"
  shows "\<exists>recs recs' db'.
    wal_holds (dbDim (lsDb s)) recs (walLog (dbWal (lsDb s))) (walErr (dbWal (lsDb s))) \<and> lv_logged (lsDb s) recs \<and>
    NewLevara dot levels dio True durable (dbDim (lsDb s)) cfg (take k (walLog (dbWal (lsDb s)))) metaFile = Inr db' \<and>
    prefix recs' recs \<and> (\<forall>i. lv_abs db' i = map_option (\<lambda>(v, m). (arena_normalize v, m)) (log_map recs' i)) \<and>
    (\<forall>early later. recs = early @ later \<longrightarrow> length (wal_log early) \<le> walSynced (dbWal (lsDb s)) \<longrightarrow> prefix early recs')"
proof -
  obtain recs where recs: "lv_inv (ix_pub (lsIx s)) recs (lsDb s)"
    using ls_inv_run [OF assms(2)] ls_inv_start [OF assms(1)] by (auto simp: ls_inv_def)
  then have w: "wal_holds (dbDim (lsDb s)) recs (walLog (dbWal (lsDb s))) (walErr (dbWal (lsDb s)))" and l: "lv_logged (lsDb s) recs"
    by (simp_all add: lv_inv_def wal_inv_def)
  have "Suc (length recs) < 2 ^ 32" using wal_holds_length [OF w] assms(4) by simp
  from crash_recovery [OF recs assms(3) this assms(5)] w l show ?thesis by meson
qed

theorem crash_reachable_witness:
  "\<exists>recs recs' db'.
     wal_holds (dbDim (lsDb demo_indexed)) recs (walLog (dbWal (lsDb demo_indexed))) (walErr (dbWal (lsDb demo_indexed))) \<and>
     lv_logged (lsDb demo_indexed) recs \<and>
     NewLevara distScalar (\<lambda>_. 0) (\<lambda>_. DiskOk) True 0 (dbDim (lsDb demo_indexed)) DefaultHNSWConfig
       (take (walSynced (dbWal (lsDb demo_indexed))) (walLog (dbWal (lsDb demo_indexed)))) [] = Inr db' \<and>
     prefix recs' recs \<and> (\<forall>i. lv_abs db' i = map_option (\<lambda>(v, m). (arena_normalize v, m)) (log_map recs' i)) \<and>
     (\<forall>early later. recs = early @ later \<longrightarrow> length (wal_log early) \<le> walSynced (dbWal (lsDb demo_indexed)) \<longrightarrow> prefix early recs')"
proof -
  obtain rec where "lv_inv None [rec] demo_db1" using demo_db1_inv by blast
  then show ?thesis
    using demo_db1_short demo_indexed_wal by (intro crash_reachable [OF _ demo_indexed_run]) simp_all
qed



section \<open>The engine as a map\<close>

text \<open>
  C5. \<open>Insert\<close> refines the update of a map, on every branch. The engine's invariant is kept and
  the log only grows; when the log took the record (no error, or only the flush failed) the
  contents are the old ones with the id mapped to the normalized vector and the encoded
  metadata; any other error (encoding, dimension, field limits, metadata write, arena, log)
  leaves the contents as they were.
\<close>

theorem insert_refines_update:
  assumes "lv_inv pub recs db" "lv_space db" "whole_write dio"
    and "Insert marshal dio wio fio db i v data = (r, db')"
  shows "\<exists>recs'. lv_inv pub recs' db' \<and> prefix recs recs' \<and>
    (if applied r then \<exists>b. insert_bytes marshal data = Some b \<and> lv_abs db' = (lv_abs db)(i \<mapsto> (arena_normalize v, b))
     else lv_abs db' = lv_abs db)"
  using Insert_refines [OF assms] by auto

theorem insert_refines_update_witness:
  "\<exists>recs'. lv_inv None recs' demo_db1 \<and> prefix [] recs' \<and>
    (if applied None then \<exists>b. insert_bytes (\<lambda>_ :: unit insert_data. None) (DRaw ''{}'') = Some b \<and>
       lv_abs demo_db1 = (lv_abs demo_db0)(''a'' \<mapsto> (arena_normalize demo_vec, b)) else lv_abs demo_db1 = lv_abs demo_db0)"
  by (rule insert_refines_update [OF demo_db0_inv demo_db0_fields(7) _ demo_insert_ok [unfolded demo_insert_def]]) simp

text \<open>
  C6. \<open>Delete\<close> refines the removal from a map: the contents lose exactly the id when the log
  took the record of the delete, stay as they were on every other error, and deleting an id
  that is not stored is the error "not found" and changes nothing at all.
\<close>

theorem delete_refines_removal:
  assumes "lv_inv pub recs db" "Delete wio fio db i = (r, db')"
  shows "(\<exists>recs'. lv_inv pub recs' db' \<and> prefix recs recs') \<and>
    lv_abs db' = (if applied r then (lv_abs db)(i := None) else lv_abs db) \<and>
    (lv_abs db i = None \<longrightarrow> r = Some LvNotFound \<and> db' = db)"
  using Delete_refines [OF assms] by blast

theorem delete_refines_removal_witness:
  "\<exists>r db'. Delete WriteOk FlushOk demo_db1 ''b'' = (r, db') \<and> r = Some LvNotFound \<and> db' = demo_db1"
proof -
  obtain rec where rec: "lv_inv None [rec] demo_db1" using demo_db1_inv by blast
  obtain r db' where run: "Delete WriteOk FlushOk demo_db1 ''b'' = (r, db')" by fastforce
  from delete_refines_removal [OF rec run] run show ?thesis by (auto simp: demo_db1_abs)
qed

text \<open>
  C7. An insert whose metadata encodes, whose fields are within their limits, and whose vector
  has the engine's dimension and stays finite when it is normalized is acknowledged whenever
  the file system does its part and the log is open.
\<close>

theorem insert_acknowledged:
  assumes "lv_inv pub recs db" "insert_bytes marshal data = Some b" "Insert_check db i v b = None"
    and "\<forall>x\<in>set (arena_normalize v). f32_finite x"
    and "\<not> walErr (dbWal db)" "\<not> walClosed (dbWal db)" "\<not> walFileClosed (dbWal db)"
  shows "\<exists>db'. Insert marshal DiskOk WriteOk FlushOk db i v data = (None, db')"
  by (rule Insert_succeeds [OF assms])

theorem insert_acknowledged_witness:
  "\<exists>db'. Insert (\<lambda>_ :: unit insert_data. None) DiskOk WriteOk FlushOk demo_db0 ''a'' demo_vec (DRaw ''{}'') = (None, db')"
  by (rule insert_acknowledged [OF demo_db0_inv, of _ _ "''{}''"])
    (use demo_db0_fields demo_check [of demo_db0] demo_finite in \<open>simp_all add: insert_bytes_def\<close>)

text \<open>
  C8. \<open>Search\<close> is sound: at most \<open>topK\<close> hits with different ids, each hit a stored record (never a
  deleted or overwritten one) with the similarity of its vector to the query as score and
  its metadata as data.
\<close>

theorem search_sound:
  assumes "lv_inv pub recs db"
  shows "length (Search dot db query topK) \<le> nat topK \<and> distinct (map vrID (Search dot db query topK)) \<and>
    (\<forall>r\<in>set (Search dot db query topK). search_hit dot db query r)"
  using assms Search_refines [of pub db dot query topK] by (simp add: lv_inv_def)

theorem search_sound_witness: "\<exists>r. Search demo_dot demo_db1 demo_vec 3 = [r] \<and> search_hit demo_dot demo_db1 demo_vec r"
proof -
  obtain rec where rec: "lv_inv None [rec] demo_db1" using demo_db1_inv by blast
  obtain r where "Search demo_dot demo_db1 demo_vec 3 = [r]" using demo_search by blast
  with search_sound [OF rec, of demo_dot demo_vec 3] show ?thesis by simp
qed

text \<open>
  C9. A checkpoint never changes what is stored; when it succeeds the log is one insert for
  each stored record, is fully synced and is the only file a crash can leave. When it fails
  the log is the old one or the new one, and both replay to the stored records.
\<close>

theorem checkpoint_keeps_contents:
  assumes "lv_inv pub recs db" "map_order (dbIndex db) order" "Checkpoint order pio db = (r, db')"
  shows "lv_abs db' = lv_abs db \<and>
    (\<exists>recs'. lv_inv pub recs' db' \<and> (recs' = recs \<and> r \<noteq> None \<or> log_map recs' = lv_abs db \<and> length recs' = Count db)) \<and>
    (r = None \<longrightarrow> WAL_crash_files (dbWal db') = {walLog (dbWal db')})"
proof -
  note ck = checkpoint_inv [OF assms(1,2) assms(3) [unfolded Checkpoint_def]]
  have "WAL_crash_files (dbWal db') = {walLog (dbWal db')}" if "r = None"
    using ck(7) [OF that] by (auto simp: WAL_crash_files_def intro: exI [of _ "length (walLog (dbWal db'))"])
  then show ?thesis using ck(1,2) by blast
qed

theorem checkpoint_keeps_contents_witness:
  "\<exists>r db'. Checkpoint [''a''] demo_pio demo_db1 = (r, db') \<and> lv_abs db' = lv_abs demo_db1"
proof -
  obtain rec where rec: "lv_inv None [rec] demo_db1" using demo_db1_inv by blast
  obtain r db' where run: "Checkpoint [''a''] demo_pio demo_db1 = (r, db')" by fastforce
  from checkpoint_keeps_contents [OF rec demo_order run] run show ?thesis by blast
qed

section \<open>Batches and snapshots\<close>

text \<open>
  C10. \<open>RestoreSnapshot\<close> is all or nothing. When it publishes (also if only the directory sync
  failed) the contents are exactly the snapshot with normalized vectors and the new, synced log
  stands for them; when it succeeds, every crash file reopens to them. Any earlier error
  leaves contents and log as they were.
\<close>

theorem restore_all_or_nothing:
  assumes "lv_inv pub recs db" "\<forall>k. whole_write (dio k)"
    and "length records < 2 ^ 32 - 1" "dsPos (dbDisk db) + length records * mib < 2 ^ 63"
    and "RestoreSnapshot dot levels dio pio db records = (r, db')"
  shows "if published r
    then lv_abs db' = snapshot_map records \<and> (\<exists>recs'. lv_inv None recs' db' \<and> log_map recs' = lv_abs db') \<and>
      (r = None \<longrightarrow> (\<forall>f\<in>WAL_crash_files (dbWal db'). \<exists>db''.
         NewLevara dot levels (\<lambda>_. DiskOk) True durable (dbDim db) cfg f metaFile = Inr db'' \<and>
         (\<forall>i. rel_option stored_as (lv_abs db'' i) (snapshot_map records i))))
    else lv_inv pub recs db' \<and> lv_abs db' = lv_abs db"
proof -
  have n: "length records < 2 ^ 32" using assms(3) by simp
  note R = RestoreSnapshot_refines [OF assms(1,2) n assms(4,5)]
  have "\<forall>f\<in>WAL_crash_files (dbWal db'). \<exists>db''. NewLevara dot levels (\<lambda>_. DiskOk) True durable (dbDim db) cfg f metaFile = Inr db'' \<and>
      (\<forall>i. rel_option stored_as (lv_abs db'' i) (snapshot_map records i))" if r: "r = None"
  proof
    fix f assume f: "f \<in> WAL_crash_files (dbWal db')"
    have p: "published r" using r by (simp add: published_def)
    obtain recs' where recs': "lv_inv None recs' db'" "length recs' = length records" using R(1) [OF p] by blast
    have "Suc (length recs') < 2 ^ 32" using recs'(2) assms(3) by simp
    from crash_synced [OF recs'(1) _ R(4) [OF r] this _ f, of "\<lambda>_. DiskOk" dot levels durable cfg metaFile] R(2,5) [OF p]
    show "\<exists>db''. NewLevara dot levels (\<lambda>_. DiskOk) True durable (dbDim db) cfg f metaFile = Inr db'' \<and>
      (\<forall>i. rel_option stored_as (lv_abs db'' i) (snapshot_map records i))" by auto
  qed
  then show ?thesis using R(1-3) by auto
qed

theorem restore_all_or_nothing_witness: "lv_abs demo_restored = snapshot_map []"
proof -
  obtain rec where rec: "lv_inv None [rec] demo_db1" using demo_db1_inv by blast
  have "dsPos (dbDisk demo_db1) + length ([] :: SnapshotRecord list) * mib < 2 ^ 63" by (simp add: demo_disk_pos)
  from restore_all_or_nothing [OF rec _ _ this demo_restore_eq, of 0 DefaultHNSWConfig "[]"] show ?thesis by (simp add: published_def)
qed

text \<open>
  C11. A restore can hide a later insert. The indexer captures a record, a snapshot is restored,
  the record is inserted again and acknowledged under the same slot number, and the indexer
  unlinks it from the new queue: the record is stored, but no search, whatever its query
  and size, returns it.
\<close>

theorem stale_item_hides_record:
  "\<exists>s. lv_rrun (ls_start demo_db1) s \<and> lv_abs (lsDb s) ''a'' = Some (demo_vec, ''{}'') \<and> \<not> visible (lsDb s) ''a'' \<and>
     (\<forall>dot query topK. Search dot (lsDb s) query topK = [])"
proof -
  obtain db3 where "lv_rrun (ls_start demo_db1) \<lparr>lsDb = indexer_unlink demo_item db3, lsFlight = [], lsIx = IxIdle\<rparr>"
    "lv_abs (indexer_unlink demo_item db3) ''a'' = Some (demo_vec, ''{}'')"
    and e: "dbPending (indexer_unlink demo_item db3) = []" "dbHnsw (indexer_unlink demo_item db3) = NewHNSWIndex (dbHnswCfg demo_db1)"
    using stale_unlink by blast
  then show ?thesis
    using empty_graph_invisible [OF e]
    by (intro exI [of _ "\<lparr>lsDb = indexer_unlink demo_item db3, lsFlight = [], lsIx = IxIdle\<rparr>"]) simp
qed

section \<open>Clusters\<close>

text \<open>
  C12. A batch on a cluster is a sequence of updates of one map. Whatever order the shards answer in, the items that
  took effect are a subsequence of the batch, applied in its order, and no item is lost silently: there
  are at least as many errors as items that were not applied.
\<close>

theorem cluster_batch_ops:
  assumes "cluster_inv lv_ok lv_abs c"
    and "\<forall>k<length (clShards c). lv_ready dio k (length (shard_group c bID items k)) (clShards c ! k)"
    and "arrivals (map (shard_group c bID items) [0..<length (clShards c)]) order"
  shows "(\<exists>errs c' taken. Cluster_BatchInsert (\<lambda>k db items. BatchInsert marshal (dio k) (wio k) (fio k) db items) order c items = Some (errs, c') \<and>
      cluster_inv lv_ok lv_abs c' \<and> subseq taken items \<and> length items \<le> length taken + length errs \<and>
      cluster_abs lv_abs c' = upd_all bID (\<lambda>x. (arena_normalize (bVector x), the (marshal (bData x)))) (cluster_abs lv_abs c) taken) \<and>
    (\<exists>errs c' taken. Cluster_BatchDelete (\<lambda>k db ids. BatchDelete (wio k) (fio k) db ids) c ids = Some (errs, c') \<and>
      cluster_inv lv_ok lv_abs c' \<and> subseq taken ids \<and> length ids \<le> length taken + length errs \<and>
      cluster_abs lv_abs c' = cluster_abs lv_abs c |` (- set taken))"
  using lv_shard.Cluster_BatchInsert_refines [OF assms, of marshal wio fio] lv_shard.Cluster_BatchDelete_refines [OF assms(1), of wio fio ids]
  unfolding lv_bitem_def by blast

theorem cluster_batch_ops_witness:
  "\<exists>errs c' taken. Cluster_BatchDelete (\<lambda>k db ids. BatchDelete (\<lambda>_. WriteOk) FlushOk db ids) demo_cluster [''a'', ''b''] = Some (errs, c') \<and>
     subseq taken [''a'', ''b''] \<and> 2 \<le> length taken + length errs \<and> cluster_abs lv_abs c' = cluster_abs lv_abs demo_cluster |` (- set taken)"
proof -
  let ?none = "[] :: unit BatchItem list"
  have "shard_group demo_cluster bID ?none k = []" for k by (simp add: shard_group_def)
  then have rdy: "\<forall>k<length (clShards demo_cluster). lv_ready (\<lambda>_ _. DiskOk) k (length (shard_group demo_cluster bID ?none k)) (clShards demo_cluster ! k)"
    and arr: "arrivals (map (shard_group demo_cluster bID ?none) [0..<length (clShards demo_cluster)]) []"
    using demo_cluster_ready [of 0] by (auto simp: arrivals_def)
  from cluster_batch_ops [OF demo_cluster_inv rdy arr, of "\<lambda>_. None" "\<lambda>_ _. WriteOk" "\<lambda>_. FlushOk" "[''a'', ''b'']", THEN conjunct2]
  show ?thesis by (simp only: list.size) (auto simp: numeral_2_eq_2)
qed

text \<open>
  C13. A search of a cluster merges what its shards answer. For a size whose product with the number of shards fits, the
  result has at most that many hits, of distinct ids, each a hit of one shard and stored; if no score is NaN
  the hits are sorted, and an answer of a shard that is left out is no better than any of a full result.
\<close>

theorem cluster_search_merges:
  assumes "cluster_inv lv_ok lv_abs c" "distinct order" "set order = {..<length (clShards c)}"
    and "0 \<le> topK" "topK * int (length (clShards c)) \<le> limit" "topK * int (length (clShards c)) < 2 ^ 63"
  shows "\<exists>rs. Cluster_Search (\<lambda>k db q topK. Search dot db q topK) limit order c q topK = Some rs \<and> length rs \<le> nat topK \<and> distinct (map vrID rs) \<and>
    (\<forall>r\<in>set rs. \<exists>k. (k, r) \<in> shard_pool (\<lambda>k db q topK. Search dot db q topK) c q topK \<and> search_hit dot (clShards c ! k) q r \<and>
       cluster_abs lv_abs c (vrID r) \<noteq> None) \<and>
    ((\<forall>(k, r)\<in>shard_pool (\<lambda>k db q topK. Search dot db q topK) c q topK. \<not> f32_isNaN (vrScore r)) \<longrightarrow>
      sorted_wrt (\<lambda>x y. f32_ge (vrScore x) (vrScore y)) rs \<and>
      (\<forall>(k, r)\<in>shard_pool (\<lambda>k db q topK. Search dot db q topK) c q topK.
         r \<notin> set rs \<longrightarrow> length rs = nat topK \<and> (\<forall>x\<in>set rs. f32_le (vrScore r) (vrScore x))))"
  using assms by (rule lv_shard.Cluster_Search_refines)

theorem cluster_search_merges_witness:
  "\<exists>rs. Cluster_Search (\<lambda>k db q topK. Search demo_dot db q topK) 1000 [1, 0] demo_cluster demo_vec 3 = Some rs \<and> length rs \<le> 3"
proof -
  have "set [1, 0] = {..<length (clShards demo_cluster)}" by (auto simp: demo_cluster_fields)
  from cluster_search_merges [OF demo_cluster_inv _ this, of 3 1000 demo_dot demo_vec]
  obtain rs where "Cluster_Search (\<lambda>k db q topK. Search demo_dot db q topK) 1000 [1, 0] demo_cluster demo_vec 3 = Some rs" "length rs \<le> nat 3"
    by (auto simp: demo_cluster_fields)
  then show ?thesis by simp
qed

section \<open>Replication\<close>

text \<open>
  C14. A replica follows its primary. Through any interleaving of writes on the primary, snapshots, entries,
  overflows, reconnections and failures, the replica has its initial contents or those that the primary had at some
  time, re-normalized and with compacted metadata. When the stream of its live session is drained, it
  has those that the primary has now.
\<close>

theorem replica_follows:
  assumes "json_laws w" "lv_ok db" "lv_ok replica" "contents_ok w (lv_abs db)" "repl_run w (repl_start db replica nodeID) s"
  shows "(lv_abs (rpReplica s) = lv_abs replica \<or> (\<exists>m\<in>rpPast s. lv_abs (rpReplica s) = replica_image (canon w) m)) \<and>
    (\<forall>se rid. rpSession s = Some se \<and> live (rpRS s) rid (seChan se) \<and> seSnap se = None \<and> seWire se = [] \<and>
       chBuf (rsChans (rpRS s) ! seChan se) = [] \<longrightarrow> lv_abs (rpReplica s) = replica_image (canon w) (lv_abs (rpDB s)))"
proof -
  have inv: "repl_inv w (lv_abs replica) s" by (rule repl_inv_run [OF assms(5,1) repl_inv_start [OF assms(2-4)]])
  then have "lv_abs (rpReplica s) \<in> insert (lv_abs replica) (replica_image (canon w) ` rpPast s)" by (simp add: repl_inv_def)
  moreover have "lv_abs (rpReplica s) = replica_image (canon w) (lv_abs (rpDB s))"
    if "rpSession s = Some se" "live (rpRS s) rid (seChan se)" "seSnap se = None" "seWire se = []" "chBuf (rsChans (rpRS s) ! seChan se) = []" for se rid
  proof -
    have "up_to_date w s se" using inv that(1,2) unfolding repl_inv_def session_inv_def by blast
    then show ?thesis using that(3-5) by (simp add: up_to_date_def se_queue_def se_base_def entries_def)
  qed
  ultimately show ?thesis by blast
qed

theorem replica_follows_witness: "lv_abs (rpReplica demo_followed) = [''a'' \<mapsto> (demo_vec, ''{}'')]"
proof -
  have "rpSession demo_followed = Some (demo_session None)" "live (rpRS demo_followed) ''r'' 0" "chBuf (rsChans (rpRS demo_followed) ! 0) = []"
    by (simp_all add: demo_followed_def demo_server_def live_def)
  then show ?thesis
    using replica_follows [OF demo_wire_laws demo_db1_ok demo_db0_ok demo_contents_ok demo_followed_run [unfolded demo_start_def]]
    by (auto simp: demo_session_def demo_followed_def demo_start_def repl_start_def replica_image_def demo_db1_abs fun_eq_iff)
qed

text \<open>
  C15. The server never sends on a closed channel and never closes one twice. In every state that can be reached, each operation on
  the listeners, and each write with its broadcast or invalidation, returns.
\<close>

theorem replication_no_panic:
  assumes "json_laws w" "lv_ok db" "lv_ok replica" "contents_ok w (lv_abs db)" "repl_run w (repl_start db replica nodeID) s"
    and "visits (rpRS s) order"
  shows "AddReplica rid (rpRS s) \<noteq> None \<and> RemoveReplica rid (rpRS s) \<noteq> None \<and> stream_cleanup rid ch (rpRS s) \<noteq> None \<and>
    DirectNode_Insert marshal dio wio fio order (node_of s) i v data \<noteq> None \<and> DirectNode_Delete wio fio order (node_of s) i \<noteq> None"
proof -
  have "repl_inv w (lv_abs replica) s" by (rule repl_inv_run [OF assms(5,1) repl_inv_start [OF assms(2-4)]])
  then have inv: "rs_inv (rpRS s)" by (simp add: repl_inv_def)
  show ?thesis using server_total [OF inv] node_total [OF inv assms(6)] by blast
qed

theorem replication_no_panic_witness:
  "AddReplica ''r'' demo_server \<noteq> None \<and> RemoveReplica ''r'' demo_server \<noteq> None \<and> stream_cleanup ''r'' 0 demo_server \<noteq> None"
proof -
  have rs: "rpRS demo_followed = demo_server" by (simp add: demo_followed_def)
  have v: "visits (rpRS demo_followed) [''r'']" by (simp add: rs visits_def demo_server_def)
  note np = replication_no_panic [OF demo_wire_laws demo_db1_ok demo_db0_ok demo_contents_ok demo_followed_run [unfolded demo_start_def] v, unfolded rs]
  show ?thesis using np by blast
qed

section \<open>Consensus\<close>

text \<open>
  C16. Nodes that apply the same committed log agree. From equal contents and with file systems that do their part, every entry of the
  log gets the same answer on both nodes, errors included, and the contents stay equal, whatever the layout of their files, arenas and graphs.
\<close>

theorem fsm_agreement:
  assumes "fsm_run decode compactJSON db1 xs as1 db1'" "fsm_run decode compactJSON db2 xs as2 db2'"
    and "agree db1 db2" "healthy db1" "healthy db2"
  shows "as1 = as2 \<and> lv_abs db1' = lv_abs db2' \<and> healthy db1' \<and> healthy db2'"
  using fsm_run_agree [OF assms] by (simp add: agree_def)

theorem fsm_agreement_witness:
  "\<exists>as db1' db2'. fsm_run (\<lambda>_. Some demo_command) Some demo_db0 [''x''] as db1' \<and>
     fsm_run (\<lambda>_. Some demo_command) Some demo_restored [''x''] as db2' \<and> lv_abs db1' = lv_abs db2'"
proof -
  obtain as1 db1' as2 db2' where "fsm_run (\<lambda>_. Some demo_command) Some demo_db0 [''x''] as1 db1'"
    "fsm_run (\<lambda>_. Some demo_command) Some demo_restored [''x''] as2 db2'"
    using demo_fsm_runs by blast
  then show ?thesis using fsm_agreement demo_agree demo_healthy by metis
qed

section \<open>Collections\<close>

text \<open>
  C17. The directory of a collection cannot leave the manager's root. A name that the checks accept is one path element, and its
  directory is the root with that element appended, whatever the base path is; so no two names share a directory.
\<close>

theorem collection_names_safe:
  assumes "validateCollectionName name = None" "Abs cwd basePath = Some base" "\<And>d. cwd = Some d \<Longrightarrow> IsAbs d"
  shows "\<exists>ws. base = abs_path ws \<and> list_all part ws \<and> part name \<and> safeCollectionDir cwd basePath name = Inr (abs_path (ws @ [name]))"
proof -
  obtain ws where "base = abs_path ws" "list_all part ws" using Abs_absolute [OF assms(2,3)] by blast
  then show ?thesis using assms(1,2) valid_part safe_dir by blast
qed

theorem collection_names_safe_witness:
  "\<exists>ws. ''/srv/data'' = abs_path ws \<and> list_all part ws \<and> part ''notes'' \<and>
     safeCollectionDir (Some ''/srv'') ''data'' ''notes'' = Inr (abs_path (ws @ [''notes'']))"
proof -
  have "validateCollectionName ''notes'' = None" by code_simp
  moreover have "Abs (Some ''/srv'') ''data'' = Some ''/srv/data''" by code_simp
  ultimately show ?thesis by (rule collection_names_safe) (auto simp: IsAbs_def)
qed

text \<open>
  C18. The fence of the embedding contract. What \<open>Insert\<close> stores in a collection that exists carries no version or the version of the collection's description,
  with one exception: metadata whose version the code does not read (a value of a type that it does not know, or a map whose version
  entry is no string but has the text of one) that is stored as \<open>json.Marshal\<close> gives it. And when the description has a version and
  a contract, metadata that can carry a stamp carries exactly the collection's version: nil, a map of strings, a map whose values the
  decoder reads back, bytes or a string that hold a JSON object (a string without a version, since one that brings its own may be encoded
  as a JSON string). The version of the description is valid UTF-8; \<open>json_keeps\<close> and \<open>json_version_law\<close> are what
  \<open>encoding/json\<close> does.
\<close>

theorem insert_fenced:
  assumes "json_keeps ev" "json_version_law (evParse ev) (evRender ev)"
    and "cm_inv cm" "mgCollections cm c = Some h" "cm_ready io 1 (mgDbs cm ! h)" "\<forall>d. mgMetas cm c = Some d \<longrightarrow> utf8_ok (mtVersion d)"
    and "CM_Insert ev io cm c i v meta0 = Some (r, cm')" "took r"
  shows "\<exists>m b. cm_abs cm' c = Some m \<and> m i = Some (arena_normalize v, b) \<and>
    (version_of ev (MRaw b) = [] \<or> (\<exists>d. mgMetas cm c = Some d \<and> mtVersion d = version_of ev (MRaw b)) \<or>
     unread meta0 \<and> evJson ev meta0 = Some b) \<and>
    (\<forall>d. mgMetas cm c = Some d \<and> mtVersion d \<noteq> [] \<and> mtContract d \<noteq> None \<and>
       stampable (evParse ev) meta0 \<and> readable (evParse ev) meta0 \<and> (\<forall>s. meta0 = MString s \<longrightarrow> version_of ev meta0 = []) \<longrightarrow>
       version_of ev (MRaw b) = mtVersion d)"
  using assms by (rule CM_Insert_fenced)

theorem insert_fenced_witness:
  "\<exists>cm' m b. CM_Insert demo_ev demo_io (demo_cm demo_fp) ''c'' ''a'' demo_vec (MRaw ''y'') = Some (None, cm') \<and>
     cm_abs cm' ''c'' = Some m \<and> m ''a'' = Some (demo_vec, b) \<and> version_of demo_ev (MRaw b) = demo_fp"
proof -
  obtain cm' where run: "CM_Insert demo_ev demo_io (demo_cm demo_fp) ''c'' ''a'' demo_vec (MRaw ''y'') = Some (None, cm')"
    using demo_cm_insert by blast
  have rdy: "cm_ready demo_io 1 (mgDbs (demo_cm demo_fp) ! 0)" using demo_cm_ready demo_cm_fields(2) by simp
  have utf8: "\<forall>d. mgMetas (demo_cm demo_fp) ''c'' = Some d \<longrightarrow> utf8_ok (mtVersion d)"
    using demo_cm_fields(3) Fingerprint_utf8 by (simp add: demo_meta_def)
  from insert_fenced [OF demo_json_keeps demo_ev_json demo_cm_inv demo_cm_fields(1) rdy utf8 run]
  show ?thesis using run demo_cm_fields(3) [of demo_fp] demo_stampable by (auto simp: took_def demo_meta_def)
qed

text \<open>
  C19. \<open>BatchInsert\<close> into a collection is the sequence of its accepted records. There is a list of positions, in order, whose records
  pass the checks and are stored stamped, one after the other; every position is among them or has an error, the errors are
  in the order of the positions and name the id at theirs, and a position with both failed only in the flush. No other collection changes.
\<close>

theorem collection_batch:
  assumes "cm_inv cm" "mgCollections cm c = Some h" "mgMetas cm c = Some d" "cm_ready io (length records) (mgDbs cm ! h)"
    and "CM_BatchInsert ev io cm c records = Some (errs, cm')"
  shows "cm_inv cm' \<and> (\<forall>c'. c' \<noteq> c \<longrightarrow> mgMetas cm' c' = mgMetas cm c') \<and>
    (\<exists>taken new. batch_effect ev (Some d) records errs taken (lv_abs (mgDbs cm ! h)) new \<and> cm_abs cm' = (cm_abs cm)(c \<mapsto> new))"
  using CM_BatchInsert_refines [OF assms] by blast

theorem collection_batch_witness:
  "\<exists>cm' taken new. CM_BatchInsert demo_ev demo_io (demo_cm demo_fp) ''c'' [demo_rec] = Some ([], cm') \<and>
     batch_effect demo_ev (Some (demo_meta demo_fp)) [demo_rec] [] taken Map.empty new \<and> cm_abs cm' = [''c'' \<mapsto> new]"
proof -
  obtain cm' where run: "CM_BatchInsert demo_ev demo_io (demo_cm demo_fp) ''c'' [demo_rec] = Some ([], cm')"
    using demo_cm_batch [of demo_fp] by auto
  have "cm_ready demo_io (length [demo_rec]) (mgDbs (demo_cm demo_fp) ! 0)" using demo_cm_ready demo_cm_fields(2) by simp
  from collection_batch [OF demo_cm_inv demo_cm_fields(1,3) this run]
  show ?thesis using run demo_cm_fields(2,4) demo_db0_fields(6) by auto
qed



text \<open>
  C21. Renaming moves a collection whole, whatever the disk does. When \<open>Rename\<close> succeeds, the new name has the records of the old
  one (a vector may have been normalized once more) and its description under the new name, and the old name is free. When it fails, no
  description and no other collection changes, and the old name keeps its records, unless the disk failed while the directory was
  opened again: then the collection is stranded. It is not open under any name, and its directory, under the old name (or the new one
  if it could not be moved back), still opens with the records on a disk that works. A failed opening under the new name always ends
  so, a failed move of the directory only if opening it under the old name fails too. The log has fewer than \<open>2 ^ 32 - 1\<close> records.
\<close>

theorem rename_keeps_contents:
  assumes "cm_inv cm" "mgCollections cm old = Some h" "lv_inv pub recs (mgDbs cm ! h)" "Suc (length recs) < 2 ^ 32"
    and "CM_Rename ev io cm old new = (r, cm')"
  shows "cm_inv cm' \<and> (\<forall>c. c \<noteq> old \<longrightarrow> c \<noteq> new \<longrightarrow> cm_abs cm' c = cm_abs cm c \<and> mgMetas cm' c = mgMetas cm c) \<and>
    rename_left ev io cm cm' (mgDbs cm ! h) old new r"
  using assms by (rule CM_Rename_refines)

theorem rename_keeps_contents_witness:
  "\<exists>cm'. CM_Rename demo_ev demo_io (demo_cm demo_fp) ''c'' ''d'' = (None, cm') \<and> cm_abs cm' ''c'' = None \<and> cm_abs cm' ''d'' = Some Map.empty"
proof -
  obtain cm' where run: "CM_Rename demo_ev demo_io (demo_cm demo_fp) ''c'' ''d'' = (None, cm')" using demo_cm_rename by blast
  have "lv_inv None [] (mgDbs (demo_cm demo_fp) ! 0)" using demo_db0_inv demo_cm_fields(2) by simp
  from rename_keeps_contents [OF demo_cm_inv demo_cm_fields(1) this _ run]
  obtain m where m: "cm_abs cm' ''d'' = Some m" "\<forall>i. rel_option stored_as (m i) (lv_abs demo_db0 i)" "cm_abs cm' ''c'' = None"
    using demo_cm_fields(2) by (auto simp: rename_left_def holds_as_def)
  then have "m = Map.empty" using demo_db0_fields(6) by (auto simp: fun_eq_iff)
  then show ?thesis using run m(1,3) by auto
qed

section \<open>Access to datasets and documents\<close>

text \<open>
  C22. The dataset decision is one lookup and one comparison. A user has one standing on a dataset (none when he is inactive or the dataset
  is missing, admin as superuser or owner, viewer when it is public, else the role of his share), and whenever AuthorizeDataset answers,
  it allows exactly the actions that his key and this role allow. It answers unless a query fails, and it never allows after a failure.
\<close>

theorem dataset_decision:
  assumes "acUserID actor \<noteq> ''''"
  shows "(\<forall>dec. AuthorizeDataset uni flt (Some db) actor d action = Inr dec \<longrightarrow> (dcAllowed dec \<longleftrightarrow> may_use uni db actor d action))
    \<and> (\<forall>e. AuthorizeDataset uni flt (Some db) actor d action = Inl e \<longrightarrow> e = ErrSql \<and> (\<exists>q. flt q))"
  using dataset_decision_sound [OF assms] dataset_decision_errors [of uni flt "Some db" actor d action]
    dataset_decision_total [of flt uni "Some db" actor d action] by fastforce

theorem dataset_decision_witness:
  "may_use id demo_tables (demo_actor ''bob'') ''d'' ''read'' \<and> \<not> may_use id demo_tables (demo_actor ''bob'') ''d'' ''write''"
proof -
  have "(case AuthorizeDataset id no_faults (Some demo_tables) (demo_actor ''bob'') ''d'' ''read'' of Inl _ \<Rightarrow> False | Inr dec \<Rightarrow> dcAllowed dec)"
    "(case AuthorizeDataset id no_faults (Some demo_tables) (demo_actor ''bob'') ''d'' ''write'' of Inl _ \<Rightarrow> False | Inr dec \<Rightarrow> \<not> dcAllowed dec)"
    by code_simp+
  moreover have "acUserID (demo_actor ''bob'') \<noteq> ''''" by (simp add: demo_actor_def)
  ultimately show ?thesis
    using dataset_decision [where actor = "demo_actor ''bob''" and uni = id and flt = no_faults and db = demo_tables and d = "''d''"]
    by (auto split: sum.splits)
qed

text \<open>
  C23. The lists and the decision agree. For an active user whose key may read, when no query fails and the stored share roles are valid
  ones, AllowedDatasetIDs is no filter exactly for superusers, and a dataset that exists is in AllowedDatasetIDs (or unfiltered) exactly
  if AuthorizeDataset lets him read it; VisibleDatasetIDs, a second query, lists exactly the same datasets.
\<close>

theorem visible_iff_readable:
  assumes "acUserID actor \<noteq> ''''" and "active_user db (acUserID actor)" and "APIKeyAllows uni (acAPIKeyPermissions actor) ''read''"
    and "\<forall>q. \<not> flt q" and "keyed (tbDatasets db)" and "\<forall>(k, s)\<in>set (tbShares db). ValidRole uni (shRole s)"
    and "d \<noteq> ''''" and "owner_of db d = Some owner" and "\<forall>xs. set (orderBy xs) = set xs"
  shows "\<exists>dec ids. AuthorizeDataset uni flt (Some db) actor d ''read'' = Inr dec
    \<and> VisibleDatasetIDs orderBy flt (Some db) (acUserID actor) = Inr ids
    \<and> (dcAllowed dec \<longleftrightarrow> d \<in> set ids)
    \<and> (case AllowedDatasetIDs flt (Some db) (acUserID actor) of
         None \<Rightarrow> super_user db (acUserID actor) \<and> dcAllowed dec
       | Some allowed \<Rightarrow> \<not> super_user db (acUserID actor) \<and> (dcAllowed dec \<longleftrightarrow> d \<in> set allowed))"
proof -
  let ?u = "acUserID actor"
  obtain dec where dec: "AuthorizeDataset uni flt (Some db) actor d ''read'' = Inr dec"
    using dataset_decision_total assms(4) by blast
  have "RoleAllows uni role ''read''" if "standing db ?u d = Some role" for role
    using that assms(6)
    by (auto simp: standing_def share_of_def RoleAllows_read split: if_splits option.splits dest!: map_of_SomeD)
  with dataset_decision_sound [OF assms(1) dec] assms(3,7) have allowed: "dcAllowed dec \<longleftrightarrow> standing db ?u d \<noteq> None"
    by (auto simp: may_use_def)
  have active: "IsActive flt (Some db) ?u = Inr True" and super: "IsSuperuser flt (Some db) ?u = Inr (super_user db ?u)"
    using assms(1,2,4) by (simp_all add: IsActive_ask IsSuperuser_ask)
  have known: "d \<in> set (map fst (tbDatasets db))"
    using assms(8) by (auto simp: owner_of_def dest!: map_of_SomeD intro!: image_eqI)
  show ?thesis
    using dec allowed assms(1,2,4,9) active super known visible_rows_standing [OF assms(5,2), of d]
    by (cases "super_user db ?u") (auto simp: VisibleDatasetIDs_def AllowedDatasetIDs_def ask_def standing_def)
qed

theorem visible_iff_readable_witness:
  "\<exists>dec ids. AuthorizeDataset id no_faults (Some demo_tables) (demo_actor ''bob'') ''d'' ''read'' = Inr dec
    \<and> VisibleDatasetIDs id no_faults (Some demo_tables) (acUserID (demo_actor ''bob'')) = Inr ids
    \<and> (dcAllowed dec \<longleftrightarrow> ''d'' \<in> set ids)
    \<and> (case AllowedDatasetIDs no_faults (Some demo_tables) (acUserID (demo_actor ''bob'')) of
         None \<Rightarrow> super_user demo_tables (acUserID (demo_actor ''bob'')) \<and> dcAllowed dec
       | Some allowed \<Rightarrow> \<not> super_user demo_tables (acUserID (demo_actor ''bob'')) \<and> (dcAllowed dec \<longleftrightarrow> ''d'' \<in> set allowed))"
  by (rule visible_iff_readable [where owner = "''ann''"])
     (simp_all add: demo_actor_def demo_tables_def active_user_def demo_user_def APIKeyAllows_def no_faults_def keyed_def ValidRole_def
       owner_of_def)

text \<open>
  C24. A user who is missing or deactivated has nothing. Whatever the tables hold of ownership, shares, grants, memberships and superuser
  flags, and whatever queries fail, the dataset and document decisions do not allow him anything, the lists are empty or an error, and
  the checks for access and sharing refuse him. A workspace decision and the check for an upload let him through in one case each, and
  then always: the request names no project, the upload names no dataset, which both are answered before the user is looked up.
\<close>

theorem inactive_user_denied:
  assumes "acUserID actor \<noteq> ''''" and "\<not> active_user db (acUserID actor)"
  shows "(\<forall>dec. AuthorizeDataset uni flt (Some db) actor d action = Inr dec \<longrightarrow> \<not> dcAllowed dec)
    \<and> (\<forall>dec. AuthorizeWorkspace uni flt (Some db) actor project action = Inr dec \<longrightarrow> (dcAllowed dec \<longleftrightarrow> project = ''''))
    \<and> (\<forall>dec. AuthorizeDocument uni flt (Some db) actor ref action = Inr dec \<longrightarrow> \<not> dcAllowed dec)
    \<and> AllowedDatasetIDs flt (Some db) (acUserID actor) = Some []
    \<and> (\<forall>ids. VisibleDatasetIDs orderBy flt (Some db) (acUserID actor) \<noteq> Inr ids)
    \<and> \<not> CanAccessDataset flt (Some db) d (acUserID actor)
    \<and> (CanUseDatasetForUpload flt (Some db) d (acUserID actor) = Inr True \<longleftrightarrow> d = '''')
    \<and> \<not> CanManageDatasetShares flt (Some db) d (acUserID actor)"
  by (intro conjI allI impI)
    (erule dataset_inactive [OF assms] | erule workspace_inactive [OF assms] | erule document_inactive [OF assms]
      | rule lists_inactive [OF assms])+

theorem inactive_user_denied_witness:
  "AllowedDatasetIDs no_faults (Some demo_tables) (acUserID (demo_actor ''eve'')) = Some []"
  using inactive_user_denied [of "demo_actor ''eve''" demo_tables id no_faults "''d''" "''read''" "''d''" demo_ref id]
  by (simp add: demo_actor_def demo_tables_def active_user_def demo_user_def)

text \<open>
  C25. The document decision is a comparison of ranks. On a registered document AuthorizeDocument allows an action exactly if the key
  allows it, the user is active, the document is live, linked and not held against the action, and the user is a superuser, or he acts in the
  document's tenant as a member of it and owns the dataset or holds a rank that suffices: the highest among his grants, those of his groups
  in the tenant and, when the document inherits, his share and the public dataset. The order in which grants are read does not matter.
\<close>

theorem document_decision:
  assumes "map_of (tbResources db) ref = Some r" and "AuthorizeDocument uni flt (Some db) actor ref action = Inr dec"
  shows "dcAllowed dec \<longleftrightarrow> may_use_document uni db actor ref r action"
  using assms by (rule registered_sound)

theorem document_decision_witness:
  "may_use_document id demo_granted (demo_actor ''bob'') demo_ref (the (map_of (tbResources demo_granted) demo_ref)) ''read''
   \<and> \<not> may_use_document id demo_granted (demo_actor ''bob'') demo_ref (the (map_of (tbResources demo_granted) demo_ref)) ''write''"
proof -
  have row: "map_of (tbResources demo_granted) demo_ref = Some (the (map_of (tbResources demo_granted) demo_ref))"
  proof -
    have "map_option drTombstoned (map_of (tbResources demo_granted) demo_ref) = Some False" by code_simp
    then show ?thesis by auto
  qed
  have "(case AuthorizeDocument id no_faults (Some demo_granted) (demo_actor ''bob'') demo_ref ''read'' of Inl _ \<Rightarrow> False | Inr dec \<Rightarrow> dcAllowed dec)"
    "(case AuthorizeDocument id no_faults (Some demo_granted) (demo_actor ''bob'') demo_ref ''write'' of Inl _ \<Rightarrow> False | Inr dec \<Rightarrow> \<not> dcAllowed dec)"
    by code_simp+
  with document_decision [OF row] show ?thesis by (auto split: sum.splits)
qed

text \<open>
  C26. A tombstone is final. Once a registered document is a tombstone, no history brings it back: whatever operations follow, by anyone and
  with any failures, deletion of its dataset, a prune and registration again included, its row stays a tombstone at the same content
  revision, and AuthorizeDocument allows nobody anything on it, superusers included; it never falls back to the rights on its dataset.
\<close>

theorem tombstone_final:
  assumes "doc_ok db" and "map_of (tbResources db) ref = Some r" and "drTombstoned r" and "(doc_next {})\<^sup>*\<^sup>* db db'"
  shows "(\<exists>r'. map_of (tbResources db') ref = Some r' \<and> drTombstoned r' \<and> drContentRevision r' = drContentRevision r)
    \<and> (\<forall>uni flt actor action dec. AuthorizeDocument uni flt (Some db') actor ref action = Inr dec \<longrightarrow> \<not> dcAllowed dec)"
proof -
  from tombstone_stays [OF assms(4,1-3)] obtain r' where
    r': "map_of (tbResources db') ref = Some r'" "drTombstoned r'" "drContentRevision r' = drContentRevision r" by blast
  then have "\<not> may_use_document uni db' actor ref r' action" for uni actor action
    by (simp add: may_use_document_def document_open_def)
  with r' registered_sound [OF r'(1)] show ?thesis by blast
qed

theorem tombstone_final_witness:
  "(\<exists>r'. map_of (tbResources demo_dropped) demo_ref = Some r' \<and> drTombstoned r' \<and> drContentRevision r' = 2)
    \<and> (\<exists>dec. AuthorizeDocument id no_faults (Some demo_dropped) (demo_actor ''ann'') demo_ref ''read'' = Inr dec \<and> \<not> dcAllowed dec)"
proof -
  have "(case AuthorizeDocument id no_faults (Some demo_dropped) (demo_actor ''ann'') demo_ref ''read'' of Inl _ \<Rightarrow> False | Inr _ \<Rightarrow> True)"
    by code_simp
  then obtain dec where "AuthorizeDocument id no_faults (Some demo_dropped) (demo_actor ''ann'') demo_ref ''read'' = Inr dec"
    by (auto split: sum.splits)
  then show ?thesis using tombstone_final [OF demo_gone_ok _ _ demo_run(3), of demo_ref] demo_gone_row by fastforce
qed

text \<open>
  C27. A hold freezes a document. While no one lifts the hold of a held document, no history changes its content revision, makes it a
  tombstone or removes its link to the source: not the operations on it, not the deletion of its dataset, not a prune, and not an
  ingestion or a renaming through another inclusion of the same source.
\<close>

theorem hold_freezes:
  assumes "doc_ok db" and "map_of (tbResources db) ref = Some r" and "drHold r" and "(doc_next {ref})\<^sup>*\<^sup>* db db'"
  shows "\<exists>r'. map_of (tbResources db') ref = Some r' \<and> drHold r' \<and> \<not> drTombstoned r' \<and> drContentRevision r' = drContentRevision r
    \<and> map_of (tbLinks db') ref \<noteq> None"
  using assms by (intro hold_stays)

theorem hold_freezes_witness:
  "\<exists>r'. map_of (tbResources demo_shared) demo_ref = Some r' \<and> drHold r' \<and> \<not> drTombstoned r' \<and> drContentRevision r' = 1
    \<and> map_of (tbLinks demo_shared) demo_ref \<noteq> None"
  using hold_freezes [OF demo_held_ok _ _ demo_run(2), of demo_ref] demo_held_row by auto

text \<open>
  C28. An access revision is spent once. When a grant, a revocation, a change of mode or hold, a tombstone, an advance of the content or a
  renaming takes effect under the access revision n of a document, no other one that names n takes effect at any later time, whatever
  happens in between: of two changes computed from the same state one is refused.
\<close>

theorem document_revision_spent_once:
  assumes "doc_ok db" and "run_doc_op ref x n db = Inr (r, db1)" and "(doc_next {})\<^sup>*\<^sup>* db1 db2"
  shows "\<exists>e. run_doc_op ref y n db2 = Inl e"
proof -
  have "doc_ok db1" using next_moves(1) [OF run_doc_op_step [OF assms(2)] assms(1)] .
  then have run: "(\<lambda>a b. doc_ok a \<and> doc_next {} a b)\<^sup>*\<^sup>* db1 db2" using assms(3) by (intro run_with_ok)
  have "store_op ref x n db = Some db1" by (simp add: store_op_def assms(2))
  from registration.revision_spent_once [OF this run, of y] show ?thesis
    by (auto simp: store_op_def split: sum.splits)
qed

theorem document_revision_spent_once_witness:
  "\<exists>e. run_doc_op demo_ref (id, no_faults, demo_actor ''ann'', OpMode ''inherit'') 1 demo_shared = Inl e"
proof -
  from demo_held_run obtain r where "run_doc_op demo_ref (id, no_faults, demo_actor ''ann'', OpHold True) 1 demo_tables = Inr (r, demo_held)"
    by auto
  from document_revision_spent_once [OF demo_tables_ok this demo_run(2)] show ?thesis .
qed

text \<open>
  C29. A grant comes from someone who may share. Every grant that a database has and an earlier one had not was added in between by a call
  of \<open>GrantDocument\<close> for this document, principal and role: before the call it was not there, after it it was, and the actor who
  called it had rights at that moment that let him share the document. It went to an active member or a group of the document's tenant,
  with one of the three roles.
\<close>

theorem grants_need_share:
  assumes "(doc_next {})\<^sup>*\<^sup>* db db'" and "((ref, prin), role) \<in> set (tbGrants db')" and "((ref, prin), role) \<notin> set (tbGrants db)"
  shows "\<exists>uni flt actor db1 db2 expected role0 row r. (doc_next {})\<^sup>*\<^sup>* db db1 \<and> (doc_next {})\<^sup>*\<^sup>* db2 db' \<and>
    GrantDocument uni flt (Some db1) actor ref expected prin role0 = Inr (row, db2) \<and> role = ToLower uni role0 \<and>
    ((ref, prin), role) \<notin> set (tbGrants db1) \<and> ((ref, prin), role) \<in> set (tbGrants db2) \<and>
    map_of (tbResources db1) ref = Some r \<and> may_use_document uni db1 actor ref r ''share'' \<and>
    principal_of db1 (drTenant r) prin \<and> role \<in> {''viewer'', ''editor'', ''admin''}"
  using grants_history [OF assms] unfolding granted_by_def by blast

theorem grants_need_share_witness:
  "\<exists>uni flt actor db1 db2 expected role0 row r. (doc_next {})\<^sup>*\<^sup>* demo_tables db1 \<and> (doc_next {})\<^sup>*\<^sup>* db2 demo_granted \<and>
    GrantDocument uni flt (Some db1) actor demo_ref expected (''user'', ''bob'') role0 = Inr (row, db2) \<and> ''viewer'' = ToLower uni role0 \<and>
    ((demo_ref, ''user'', ''bob''), ''viewer'') \<notin> set (tbGrants db1) \<and> ((demo_ref, ''user'', ''bob''), ''viewer'') \<in> set (tbGrants db2) \<and>
    map_of (tbResources db1) demo_ref = Some r \<and> may_use_document uni db1 actor demo_ref r ''share'' \<and>
    principal_of db1 (drTenant r) (''user'', ''bob'') \<and> ''viewer'' \<in> {''viewer'', ''editor'', ''admin''}"
proof (rule grants_need_share [OF demo_run(1)])
  show "((demo_ref, ''user'', ''bob''), ''viewer'') \<in> set (tbGrants demo_granted)" by code_simp
  show "((demo_ref, ''user'', ''bob''), ''viewer'') \<notin> set (tbGrants demo_tables)" by code_simp
qed

text \<open>
  C30. Deactivation revokes for good. After a user is deactivated, every credential of his that existed at that moment (a session token
  of an epoch up to the current one, an external token issued up to then, an API key) is refused at every later time, whatever the system
  does in between, reactivating the user included.
\<close>

theorem revocation_final:
  assumes "DeactivateUser flt (Some db) u now = Inr db1" and "0 < now" and "issued_before db u now c"
    and "identity_step\<^sup>*\<^sup>* db1 db2"
  shows "RecheckCredential flt' db2 u c perms clock = Inl ErrRevokedCredential"
proof -
  from DeactivateUser_effect [OF assms(1)] obtain db0 where
    revoke: "revokeUserCredentials flt db0 u now = Inr db1" and same: "tbEpochs db0 = tbEpochs db" "tbKeys db0 = tbKeys db" by metis
  have "revoked_since db1 u (fst (credential_of db u)) now (if crKind c = ''api_key'' then {crKeyID c} else {})"
    using assms(3) by (intro revoke_starts [OF revoke]) (auto simp: same issued_before_def credential_of_def split: if_splits)
  from run_keeps_revocation [OF assms(4) this] show ?thesis
    by (rule revoked_recheck_refused [OF assms(3,2)])
qed

theorem revocation_final_witness:
  "RecheckCredential no_faults demo_back ''bob'' demo_token '''' (300, 300, 300) = Inl ErrRevokedCredential"
  by (rule revocation_final [OF demo_revoked_run _ demo_token_old demo_back_run]) simp

section \<open>The write-ahead log\<close>

text \<open>
  C31. A torn log is repaired exactly. Of a log cut at any byte, \<open>prepareRecovery\<close> keeps the
  frames that are complete, no more and no less, and never reports an error.
\<close>

theorem torn_log_repaired:
  assumes "\<forall>rec\<in>set recs. wal_fits dm rec" "1 \<le> dm" "dm \<le> 65536"
  shows "WAL_prepareRecovery (int dm) (take k (wal_log recs)) = Inr (wal_log (complete_frames k recs))"
  by (rule prepareRecovery_prefix [OF assms])

theorem torn_log_repaired_witness:
  "WAL_prepareRecovery (int 1) (take 50 (wal_log [tail_record, tail_record])) = Inr (wal_log (complete_frames 50 [tail_record, tail_record])) \<and>
   complete_frames 50 [tail_record, tail_record] = [tail_record]"
proof -
  have "complete_frames 50 [tail_record, tail_record] = [tail_record]" by code_simp
  then show ?thesis using torn_log_repaired [of "[tail_record, tail_record]" 1 50] by (simp add: wal_fits_tail)
qed

section \<open>Group commit\<close>

text \<open>
  C32. A caller of \<open>FlushAsync\<close> that gets no error has its data on disk: in every reachable state
  of the callers and the \<open>fsync\<close> loop, what the log held at the time of its call is synced, or
  was replaced by a synced file.
\<close>

theorem group_commit_durable:
  assumes "walSynced wal \<le> length (walLog wal)" "gc_steps (gc_init wal) g" "(r, None) \<in> set (gcDone g)"
  shows "fqEpoch r < gcEpoch g \<or> fqEpoch r = gcEpoch g \<and> fqMark r \<le> walSynced (gcWal g)"
  using gc_acked_durable [OF assms] by (simp add: fq_durable_def)

theorem group_commit_durable_witness:
  "fqEpoch demo_request < gcEpoch demo_flushed \<or>
   fqEpoch demo_request = gcEpoch demo_flushed \<and> fqMark demo_request \<le> walSynced (gcWal demo_flushed)"
  by (rule group_commit_durable [OF _ demo_flushed_run]) (simp_all add: OpenWal_def demo_flushed_def)

section \<open>The graph index\<close>

text \<open>
  C33. \<open>Add\<close> keeps the graph well formed (registered offsets, one object per id, links only to
  registered nodes, at most \<open>max_conn\<close> of them per layer, an entry node on the top layer) and
  registers exactly the new node under its id and arena offset, unless a live node already
  has the id, in which case the graph is returned unchanged.
\<close>

theorem hnsw_add_graph:
  assumes "hnsw_inv n h" "vec_ok n getVec" "nodeByOffset h idx = None" "i \<noteq> []" "idx < n"
  shows "hnsw_inv n (HNSW_Add dot getVec level h v i idx) \<and>
    (if hnsw_live h i then HNSW_Add dot getVec level h v i idx = h
     else registered_as h i idx level (HNSW_Add dot getVec level h v i idx))"
  using HNSW_Add_inv [OF assms] HNSW_Add_new(2) [OF assms] HNSW_Add_live by auto

theorem hnsw_add_graph_witness:
  "hnsw_inv 2 (HNSW_Add demo_dot1 demo_arena 0 demo_one_node [0xBF800000] ''b'' 1) \<and>
    (if hnsw_live demo_one_node ''b'' then HNSW_Add demo_dot1 demo_arena 0 demo_one_node [0xBF800000] ''b'' 1 = demo_one_node
     else registered_as demo_one_node ''b'' 1 0 (HNSW_Add demo_dot1 demo_arena 0 demo_one_node [0xBF800000] ''b'' 1))"
  by (rule hnsw_add_graph [OF demo_one_node_inv demo_vec_ok demo_offset_free]) simp_all

section \<open>The embedding client\<close>

text \<open>
  C34. The circuit breaker lets one probe out at a time. In every state that any interleaving of admissions, refusals, outcomes,
  abandoned probes and silent ends of requests reaches, there is one probe among the requests in flight if the breaker is probing
  and none otherwise, no request of the current generation but the probe is in flight while the breaker is open, and the breaker is open
  exactly when the failures in a row have reached its threshold.
\<close>

theorem breaker_single_probe:
  assumes "breaker_run (breaker_start threshold cooldown) s"
  shows "length (filter snd (brRequests s)) = (if bkProbing (brBreaker s) then 1 else 0) \<and>
    (bkProbing (brBreaker s) \<longrightarrow> (bkGeneration (brBreaker s), True) \<in> set (brRequests s)) \<and>
    (bkOpenUntil (brBreaker s) \<noteq> None \<longrightarrow> (bkGeneration (brBreaker s), False) \<notin> set (brRequests s)) \<and>
    (bkOpenUntil (brBreaker s) \<noteq> None \<longleftrightarrow> bkThreshold (brBreaker s) \<le> bkFailures (brBreaker s))"
proof -
  have I: "breaker_inv s" using breaker_run_inv [OF assms breaker_start_inv] .
  let ?b = "brBreaker s" and ?reqs = "brRequests s"
  have c: "count_list ?reqs (bkGeneration ?b, True) = (if bkProbing ?b then 1 else 0)"
    and closed: "bkOpenUntil ?b = None \<Longrightarrow> bkFailures ?b < bkThreshold ?b"
    and opened: "bkOpenUntil ?b \<noteq> None \<Longrightarrow> (bkGeneration ?b, False) \<notin> set ?reqs \<and> bkThreshold ?b \<le> bkFailures ?b"
    using I by (simp_all add: breaker_inv_def Let_def)
  have "bkProbing ?b \<longrightarrow> (bkGeneration ?b, True) \<in> set ?reqs"
    using c count_list_0_iff [of ?reqs "(bkGeneration ?b, True)"] by (cases "bkProbing ?b") auto
  moreover have "bkOpenUntil ?b \<noteq> None \<longleftrightarrow> bkThreshold ?b \<le> bkFailures ?b" using closed opened by (cases "bkOpenUntil ?b") auto
  ultimately show ?thesis using single_probe [OF I] opened by blast
qed

theorem breaker_single_probe_witness:
  "breaker_run (breaker_start 1 5) demo_probe \<and> length (filter snd (brRequests demo_probe)) = 1"
  using breaker_single_probe [OF demo_probe_run] demo_probe_run by (simp add: demo_probe_def)

text \<open>
  C35. The admission gate never admits more requests than its size, whatever arrives, is woken, is cancelled, is released or closes it; and while
  nothing is cancelled and the gate is open, no request is parked unless a slot is taken, so that its release will wake it, or a
  foreground request has been woken and is still to run.
\<close>

theorem gate_bounded_live:
  assumes "gate_run es (gate_start mx) s"
  shows "0 \<le> pgInflight (grGate s) \<and> pgInflight (grGate s) \<le> max 1 mx \<and>
    (GCancel \<notin> set es \<longrightarrow> GClose \<notin> set es \<longrightarrow> grParked s \<noteq> [] \<longrightarrow> 0 < pgInflight (grGate s) \<or> (False, False) \<in> set (grAwake s))"
proof -
  have I: "gate_inv s" using gate_run_inv [OF assms gate_start_inv] .
  moreover have "pgMax (grGate s) = max 1 mx" using gate_run_max [OF assms] by (simp add: gate_start_def NewPriorityGate_def)
  moreover have "gate_live s" if "GCancel \<notin> set es" "GClose \<notin> set es"
    using gate_run_live [OF assms that gate_start_inv gate_start_live] .
  ultimately show ?thesis by (auto simp: gate_inv_def gate_live_def Let_def)
qed

theorem gate_bounded_live_witness:
  "\<exists>s. gate_run [GArrive, GArrive] (gate_start 1) s \<and> grParked s \<noteq> [] \<and> 0 < pgInflight (grGate s)"
proof -
  have "grParked (gate_busy 1 1 [(True, False)] []) \<noteq> []" "grAwake (gate_busy 1 1 [(True, False)] []) = []" by (simp_all add: gate_busy_def)
  then show ?thesis using gate_bounded_live [OF demo_gate_run] demo_gate_run by auto
qed

text \<open>
  C36. Every text gets its own vector. When \<open>EmbedTexts\<close> succeeds there is one vector for each text: the cached one when the cache had the text,
  and otherwise the one that the provider's reply to the batch of the text gives for its position in the batch, the index of the reply having been
  checked, however the replies order their data.
\<close>

theorem embed_texts_vectors:
  assumes "EmbedTexts sha256 enc keys c io texts s = (Inr vecs, s')" "0 < clBatchSize c"
  shows "length vecs = length texts \<and>
    (\<forall>i<length texts.
       case cached sha256 keys c s (texts ! i) of
         Some v \<Rightarrow> vecs ! i = Some v
       | None \<Rightarrow>
           (let j = length (filter (\<lambda>t. cached sha256 keys c s t = None) (take i texts)); bs = clBatchSize c in
            \<exists>vs n. answers (biReply (eiBatch io (bs * (j div bs)))) n vs \<and> j mod bs < n \<and> vecs ! i = Some (vs ! (j mod bs))))"
  by (rule EmbedTexts_vectors [OF assms])

theorem embed_texts_vectors_witness:
  "\<exists>vs n. answers (HttpVectors [(0, [f32_one])] []) n vs \<and> 0 < n \<and> vs ! 0 = [f32_one]"
proof -
  obtain vecs s' where run: "EmbedTexts (\<lambda>b. b) (\<lambda>_ _. []) last demo_client demo_embed_io [''a'', ''b''] demo_state = (Inr vecs, s')"
    "vecs = [Some [0], Some [f32_one]]" using demo_embed(1) by (metis prod.collapse)
  note P = embed_texts_vectors [OF run(1) demo_embed(2), THEN conjunct2, rule_format, of 1]
  have j: "length (filter (\<lambda>t. cached (\<lambda>b. b) last demo_client demo_state t = None) (take 1 [''a'', ''b''])) = 0"
    by (simp add: cached_def demo_state_def cacheKey_def demo_client_def NewClient_def)
  obtain vs n where "answers (HttpVectors [(0, [f32_one])] []) n vs" "0 < n" "Some [f32_one] = Some (vs ! 0)"
    using P run(2) demo_embed(3) unfolding j by (auto simp: demo_embed_io_def)
  then show ?thesis by (intro exI [of _ vs] exI [of _ n]) simp
qed

section \<open>Chunks\<close>

text \<open>
  C37. Chunking by windows ends, for every text and every parameter, and covers the text: the chunks are consecutive slices that each begin inside
  the one before, none longer than the window and a fifth; all but a single one have at least 80 runes; and when the window has at least 100 runes,
  fewer than 80 runes at the end of the text are in no chunk.
\<close>

theorem sliding_windows:
  assumes "runes = trim_space (crlf_to_lf text0)" "runes \<noteq> []" "w = clamp_window windowChars"
  shows "\<exists>ss. ChunkBySlidingOpts uuid text0 windowChars overlapChars snap documentID = chunks_of (mk_chunk uuid documentID ''sliding'' 0) runes 0 ss \<and>
    ss \<noteq> [] \<and> window_chain (length runes) w 0 ss \<and> (\<forall>(a, b)\<in>set ss. a + DefaultMinChunkChars \<le> b \<or> length ss = 1) \<and>
    covered_to (length runes) w 0 ss"
  by (rule ChunkBySliding_windows [OF assms(1,3,2)])

theorem sliding_windows_witness:
  "\<exists>ss. ChunkBySlidingOpts demo_uuid [65, 66] 5 2 True ''d'' = chunks_of (mk_chunk demo_uuid ''d'' ''sliding'' 0) [65, 66] 0 ss \<and>
    window_chain (length [65 :: rune, 66]) 5 0 ss \<and> ss \<noteq> []"
proof -
  have t: "[65, 66] = trim_space (crlf_to_lf [65, 66])" by (simp add: trim_space_def IsSpace_def)
  have w: "5 = clamp_window 5" by (simp add: clamp_window_def)
  show ?thesis using sliding_windows [OF t list.distinct(2) w, of demo_uuid 2 True "''d''"] by blast
qed

section \<open>Keyword search\<close>

text \<open>
  C38. The inverted index is a function of its documents. After any sequence of additions, replacements, removals and clears, the postings, the
  lengths, the number of tokens and the average length are those one would compute from the documents that are there, and there are never more
  documents than the cap.
\<close>

theorem bm25_index_rebuilt:
  "let ix = fold (run_op ev) ops (NewIndexWithParams mx k1 b) in
     docs_ok ev (ixDocs ix) \<and> ixInverted ix = inverted_of (ixDocs ix) \<and> ixDocLen ix = lengths_of (ixDocs ix) \<and>
     ixTotal ix = total_of (ixDocs ix) \<and> ixAvgDL ix = average_of (ixDocs ix) \<and> docs_bounded ix"
proof -
  have "index_inv ev (fold (run_op ev) ops ix) \<and> docs_bounded (fold (run_op ev) ops ix)" if "index_inv ev ix" "docs_bounded ix" for ix
    using that by (induction ops arbitrary: ix) (simp_all add: run_op_inv run_op_bounded)
  moreover have "docs_bounded (NewIndexWithParams mx k1 b)" by (simp add: docs_bounded_def NewIndexWithParams_def)
  ultimately show ?thesis using NewIndex_inv [of ev mx k1 b] unfolding index_inv_def Let_def by blast
qed

text \<open>
  C39. A keyword search returns the best documents. Whatever order the scores are visited in, the search does not fail, its hits are different
  documents with the scores and metadata they have, as many as asked for or as there are matches, in descending order of score, and no document
  that is left out has a higher score than one that is returned. (Scores are assumed not to be NaN.)
\<close>

theorem bm25_search_best:
  assumes "index_inv ev ix" "distinct order" "set order = dom (bm_scores ev ix (tokenize ev q))"
    and "\<And>i. bm_scores ev ix (tokenize ev q) i \<noteq> Some FNaN"
  shows "\<exists>rs. Index_Search ev order ix q k = Some rs \<and> length rs = min (if k \<le> 0 then 10 else nat k) (length order) \<and>
    distinct (map rsID rs) \<and> sorted_wrt (\<lambda>x y. \<not> flt_lt (rsScore x) (rsScore y)) rs \<and>
    (\<forall>r\<in>set rs. bm_scores ev ix (tokenize ev q) (rsID r) = Some (rsScore r) \<and> rsMetadata r = dcMetadata (the (ixDocs ix (rsID r)))) \<and>
    (\<forall>i s. bm_scores ev ix (tokenize ev q) i = Some s \<longrightarrow> i \<notin> rsID ` set rs \<longrightarrow> (\<forall>r\<in>set rs. \<not> flt_lt (rsScore r) s))"
proof -
  let ?sc = "bm_scores ev ix (tokenize ev q)"
  obtain rs where rs: "Index_Search ev order ix q k = Some (map (with_metadata ix) rs)"
    "best_of (if k \<le> 0 then 10 else nat k) (scored order ?sc) rs" "sorted_wrt (\<lambda>x y. \<not> flt_lt (rsScore x) (rsScore y)) rs"
    using Index_Search_best [OF assms(1,3,4)] by blast
  have len: "length rs = min (if k \<le> 0 then 10 else nat k) (length order)" using rs(2) by (simp add: best_of_def scored_def)
  have img: "rsID ` with_metadata ix ` set rs = rsID ` set rs" by (simp add: image_image)
  show ?thesis
    using best_of_members [OF rs(2) assms(3,2)] rs(1,3) len
    by (intro exI [of _ "map (with_metadata ix) rs"]) (simp add: img sorted_wrt_map comp_def)
qed

theorem bm25_search_best_witness:
  "\<exists>rs. Index_Search demo_bm [''d''] demo_ix [97, 98] 3 = Some rs \<and> length rs = 1 \<and> distinct (map rsID rs)"
  using bm25_search_best [OF demo_ix_inv, of "[''d'']" "[97, 98]" 3] demo_scores unfolding demo_tokenize by auto

text \<open>
  C40. The keyword index survives restarts. Through any sequence of changes, each appended to the file of the collection, and of snapshots, any of whose calls
  may fail, loading the file gives the documents, postings, lengths and average of the index in memory. (Every entry encodes to one line below the
  limit of the scanner and decodes to itself.)
\<close>

theorem keyword_restart_exact:
  assumes "steps_ok marshal unmarshal ev mx as (Attach (NewIndex mx), \<lparr>sfMain = None, sfTmp = None\<rparr>)"
    and "fold (keyword_step marshal ev mx) as (Attach (NewIndex mx), \<lparr>sfMain = None, sfTmp = None\<rparr>) = (ix, fs)"
    and "LoadSnapshot ev unmarshal mx (sfMain fs) = (jx, err)"
  shows "\<not> err \<and> ixDocs jx = ixDocs ix \<and> ixInverted jx = ixInverted ix \<and> ixDocLen jx = ixDocLen ix \<and> ixTotal jx = ixTotal ix \<and>
    ixAvgDL jx = ixAvgDL ix"
  by (rule keyword_restart [OF assms])

theorem keyword_restart_exact_witness:
  "\<exists>fs jx. fold (keyword_step (\<lambda>_. ''x'') demo_bm 10) [StepOp (OpAdd ''d'' [97, 98] ''m''), StepSave (Some (SWrite 1)) [''d'']]
        (Attach (NewIndex 10), \<lparr>sfMain = None, sfTmp = None\<rparr>) = (Index_Add demo_bm ''d'' [97, 98] ''m'' (Attach (NewIndex 10)), fs) \<and>
      LoadSnapshot demo_bm (\<lambda>_. Some (op_entry (OpAdd ''d'' [97, 98] ''m''))) 10 (sfMain fs) = (jx, False) \<and> ''d'' \<in> dom (ixDocs jx)"
proof -
  let ?as = "[StepOp (OpAdd ''d'' [97, 98] ''m''), StepSave (Some (SWrite 1)) [''d'']]" and ?s = "(Attach (NewIndex 10), \<lparr>sfMain = None, sfTmp = None\<rparr>)"
  let ?um = "\<lambda>_ :: bytes. Some (op_entry (OpAdd ''d'' [97, 98] ''m''))"
  have docs: "dom (ixDocs (Index_Add demo_bm ''d'' [97, 98] ''m'' (Attach (NewIndex 10)))) = {''d''}"
    by (simp add: Index_Add_effect Attach_def SetOnChange_def NewIndex_def NewIndexWithParams_def)
  have ok: "steps_ok (\<lambda>_. ''x'') ?um demo_bm 10 ?as ?s"
    using docs by (simp add: attached_op_def Let_def json_ok_def line_ok_def newline_def scanner_max_def)
  obtain fs where fs: "fold (keyword_step (\<lambda>_. ''x'') demo_bm 10) ?as ?s = (Index_Add demo_bm ''d'' [97, 98] ''m'' (Attach (NewIndex 10)), fs)"
    by (simp add: attached_op_def Let_def)
  obtain jx err where load: "LoadSnapshot demo_bm ?um 10 (sfMain fs) = (jx, err)" by fastforce
  from keyword_restart_exact [OF ok fs load] show ?thesis using fs load docs by auto
qed

section \<open>Facts about the layers below\<close>

text \<open>
  The array heap is a priority queue. On a heap of numeric scores, \<open>Push\<close> adds its element,
  \<open>Pop\<close> takes out a match of least score, \<open>Replace\<close> exchanges the root for its argument, all
  three leave a heap, and \<open>Pop\<close> fails (the source panics) only on the empty heap.
\<close>

abbreviation min_heap :: "Match list \<Rightarrow> bool" where
  "min_heap \<equiv> is_heap (\<lambda>x y. f32_le (mScore x) (mScore y)) (\<lambda>x. \<not> f32_isNaN (mScore x))"

lemma min_heap_operations:
  assumes "min_heap h" "\<not> f32_isNaN (mScore m)"
  shows "min_heap (MinHeap_Push h m) \<and> mset (MinHeap_Push h m) = add_mset m (mset h) \<and>
    (case MinHeap_Pop h of
       None \<Rightarrow> h = []
     | Some (x, h') \<Rightarrow> min_heap h' \<and> mset h = add_mset x (mset h') \<and> (\<forall>y\<in>set h. f32_le (mScore x) (mScore y))) \<and>
    (case MinHeap_Replace h m of
       None \<Rightarrow> h = []
     | Some h' \<Rightarrow> min_heap h' \<and> add_mset (h ! 0) (mset h') = add_mset m (mset h))"
proof (intro conjI)
  show "min_heap (MinHeap_Push h m)" unfolding MinHeap_Push_def by (rule MinHeap.push_is_heap [OF assms])
  show "mset (MinHeap_Push h m) = add_mset m (mset h)" unfolding MinHeap_Push_def by (rule MinHeap.push_mset)
  show "case MinHeap_Pop h of None \<Rightarrow> h = []
     | Some (x, h') \<Rightarrow> min_heap h' \<and> mset h = add_mset x (mset h') \<and> (\<forall>y\<in>set h. f32_le (mScore x) (mScore y))"
    unfolding MinHeap_Pop_def using MinHeap.pop_correct [OF assms(1)]
    by (auto simp: heap_pop_eq_None_iff split: option.split)
  show "case MinHeap_Replace h m of None \<Rightarrow> h = []
     | Some h' \<Rightarrow> min_heap h' \<and> add_mset (h ! 0) (mset h') = add_mset m (mset h)"
    unfolding MinHeap_Replace_def using MinHeap.replace_correct [OF assms]
    by (auto simp: heap_replace_def split: option.split if_splits)
qed

text \<open>
  A beam at least as wide as the graph misses nothing: the answer has the entry and is
  closed under the links of the layer, so it is every node the layer connects to the entry.
\<close>

lemma wide_beam_complete:
  assumes "hnsw_base n h" "vec_ok n getVec" "length (hObjs h) \<le> ef" "entry < length (hObjs h)"
  shows "entry \<in> srNode ` set (searchLayerTopK dot getVec h q entry layer ef) \<and>
    layer_closed h layer (srNode ` set (searchLayerTopK dot getVec h q entry layer ef))"
  using searchLayerTopK_complete [OF assms] by blast

text \<open>
  The metadata file returns what was written: after a write that succeeds, the location
  reads back as the data (an empty record is the error "invalid location"), and every
  record written before still reads the same.
\<close>

lemma disk_round_trip:
  assumes "disk_inv ds" "length data < 2 ^ 31" "DiskStore_Write io ds data = (Inr loc, ds')" "disk_holds ds old b"
  shows "disk_inv ds' \<and> DiskStore_Read ds' loc = (if data = [] then Inl DiskInvalidLocation else Inr data) \<and>
    DiskStore_Read ds' old = DiskStore_Read ds old"
  using disk_write_ok [OF assms(1-3)] disk_read_holds disk_write_holds [OF assms(4,3)] assms(4) by simp

text \<open>
  The arena is an append-only list of normalized vectors: \<open>Add\<close> returns the next index and
  appends, over page boundaries too, every earlier vector is untouched, and \<open>Get\<close> reads the
  list and reports an index outside it.
\<close>

lemma arena_is_list:
  assumes "arena_inv a" "Suc (arTotalVectors a) < 2 ^ 32" "VectorArena_Add a v = Inr (idx, v', a')"
  shows "idx = length (arena_vecs a) \<and> v' = arena_normalize v \<and> arena_inv a' \<and> arena_vecs a' = arena_vecs a @ [v'] \<and>
    (\<forall>k. VectorArena_Get a' k = (if k < length (arena_vecs a') then Inr (arena_vecs a' ! k) else Inl ArenaOutOfBounds))"
proof -
  note r = VectorArena_Add_refines [OF assms]
  have "VectorArena_Get a' k = (if k < length (arena_vecs a') then Inr (arena_vecs a' ! k) else Inl ArenaOutOfBounds)" for k
    using VectorArena_Get_refines [OF r(3)] by simp
  moreover have "idx = length (arena_vecs a)" using r(1) by simp
  ultimately show ?thesis using r(2-4) by blast
qed

text \<open>
  No request is answered twice and none is dropped: at every moment each caller is exactly
  once among those waiting and those answered.
\<close>

lemma group_commit_once:
  assumes "walSynced wal \<le> length (walLog wal)" "gc_steps (gc_init wal) g"
  shows "distinct (map fqCaller (gc_waiting g @ map fst (gcDone g))) \<and>
    set (map fqCaller (gc_waiting g @ map fst (gcDone g))) = {0..<gcNext g}"
  using gc_answered_once [OF assms] by blast

text \<open>
  \<open>BatchDelete\<close> removes exactly the ids at the positions that have no report other than a
  failed flush, and leaves every other record as it was.
\<close>

lemma batch_delete_applies:
  assumes "lv_inv pub recs db" "BatchDelete wio fio db ids = (errs, db')"
  shows "\<exists>recs'. lv_inv pub recs' db' \<and> prefix recs recs' \<and>
    lv_abs db' = lv_abs db |` (- (\<lambda>k. ids ! k) ` set (applied_at errs (length ids)))"
  using BatchDelete_refines [OF assms] by blast

text \<open>
  While records wait for the indexer, \<open>Search\<close> ranks the graph's answer and the whole queue
  together: the hits are in descending order of score, and a candidate that is left out
  scores no more than every hit, of which there are then \<open>topK\<close>. (No score is a NaN.)
\<close>

lemma search_ranks_pending:
  assumes "lv_inv pub recs db" "0 < topK" "length query = dbDim db" "dbPending db \<noteq> []"
    and "\<forall>r\<in>search_pool dot db query (nat topK). \<not> f32_isNaN (vrScore r)"
  shows "sorted_wrt (\<lambda>x y. f32_ge (vrScore x) (vrScore y)) (Search dot db query topK) \<and>
    (\<forall>c\<in>search_pool dot db query (nat topK). vrID c \<notin> vrID ` set (Search dot db query topK) \<longrightarrow>
       length (Search dot db query topK) = nat topK \<and> (\<forall>x\<in>set (Search dot db query topK). f32_le (vrScore c) (vrScore x)))"
proof -
  have "lv_mem pub db" using assms(1) by (simp add: lv_inv_def)
  from Search_best [OF this assms(2-5)] show ?thesis by blast
qed

text \<open>
  The locked phase of \<open>BatchInsert\<close> is one locked insert after another: from a consistent
  state, its loop with the private queue ends in the same state, with the same items done and
  the same errors, as \<open>Insert\<close>'s locked phase run on each item in turn.
\<close>

lemma batch_is_sequence:
  assumes "lv_mem pub db" "arTotalVectors (dbArena db) + length ds < 2 ^ 32" "dsPos (dbDisk db) < 2 ^ 63" "\<forall>x\<in>set ds. item_ok db x"
  shows "BatchInsert_locked wio ds db = seq_insert wio ds db"
proof -
  obtain dn errs ps db1 where run: "batch_commit wio ds [] db = (dn, errs, ps, db1)" using prod_cases4 by blast
  have "lv_mem pub (queued db [])" using assms(1) by simp
  from batch_commit_seq [OF this assms(2-4) run] run show ?thesis by (simp add: BatchInsert_locked_def)
qed

text \<open>
  The point operations of a cluster are those of one map. \<open>Cluster.Insert\<close> and \<open>Cluster.Delete\<close>
  never fail to find a shard, keep every shard consistent and every record on the shard of its id, and
  change the union of the shards in the one record they are about, exactly when the engine applied them.
\<close>

lemma cluster_point_ops:
  assumes "cluster_inv lv_ok lv_abs c" "\<forall>k<length (clShards c). lv_ready dio k 1 (clShards c ! k)"
  shows "(\<exists>r c'. Cluster_Insert (lv_ins marshal dio wio fio) c i v d = Some (r, c') \<and> cluster_inv lv_ok lv_abs c' \<and>
      cluster_abs lv_abs c' =
        (if applied r then (cluster_abs lv_abs c)(i \<mapsto> (arena_normalize v, the (insert_bytes marshal d))) else cluster_abs lv_abs c)) \<and>
    (\<exists>r c'. Cluster_Delete (\<lambda>k db i. Delete (wio k 0) (fio k) db i) c i = Some (r, c') \<and> cluster_inv lv_ok lv_abs c' \<and>
      cluster_abs lv_abs c' = (if applied r then (cluster_abs lv_abs c)(i := None) else cluster_abs lv_abs c))"
  using lv_shard.Cluster_Insert_refines [OF assms, of marshal wio fio i v d] lv_shard.Cluster_Delete_refines [OF assms(1), of wio fio i]
  unfolding lv_item_def by blast

text \<open>
  While a replica listens, a batch of a standalone shard is the sequence of its single writes, each with its own broadcast: the same
  errors, database, channels and sequence numbers.
\<close>

lemma direct_batch_is_sequence:
  assumes "dnRepl dn = Some rs" "rsListeners rs \<noteq> []"
  shows "DirectNode_BatchInsert marshal dio wio fio order dn records = direct_seq marshal dio wio fio order 0 records dn \<and>
    DirectNode_BatchDelete wio fio order dn ids = delete_seq wio fio order 0 ids dn"
  using DirectNode_BatchInsert_seq [OF assms] DirectNode_BatchDelete_seq [OF assms] by blast

text \<open>
  A snapshot carries a state machine to another node. A restore that succeeds leaves exactly the contents of the node that took the snapshot, with
  vectors re-normalized and metadata compacted; one that fails before it publishes leaves the node as it was.
\<close>

lemma fsm_snapshot_restore:
  assumes "lv_ok db" "map_order (dbIndex db) order" "lv_inv pub recs node"
    and "snapshot_law validID validMeta norm_json marshal unmarshal" "\<forall>i v b. lv_abs db i = Some (v, b) \<longrightarrow> validID i \<and> validMeta b"
    and "FSM_Snapshot marshal order db = Inr data"
    and "\<forall>k. whole_write (dio k)" "length order < 2 ^ 32" "dsPos (dbDisk node) + length order * mib < 2 ^ 63"
    and "FSM_Restore unmarshal dot levels dio pio node (Some data) = (r, node')"
  shows "lv_ok node' \<and> lv_abs node' = (if r = None \<or> r = Some (SnRestore LvPublished) then replica_image norm_json (lv_abs db) else lv_abs node)"
  using FSM_snapshot_restore [OF assms] by auto

text \<open>
  The fingerprint is that of the vector space. Normalizing a contract twice is normalizing it once, so spelling and surrounding white
  space do not change the fingerprint; and two contracts whose trimmed fields hold no line break are hashed as the same
  text only if they are the same once normalized.
\<close>

lemma fingerprint_identifies:
  assumes "lower_laws lower"
  shows "Normalized lower (Normalized lower c) = Normalized lower c \<and> Fingerprint lower sha256 (Normalized lower c) = Fingerprint lower sha256 c \<and>
    (one_line_fields (Normalized lower c) \<and> one_line_fields (Normalized lower c') \<longrightarrow>
      (payload (Normalized lower c) = payload (Normalized lower c') \<longleftrightarrow> Normalized lower c = Normalized lower c'))"
  using Normalized_idem [OF assms, of c] payload_inj [of "Normalized lower c" "Normalized lower c'"] by (auto simp: Fingerprint_def)

text \<open>
  Whatever bytes the log file holds, a log that \<open>prepareRecovery\<close> accepts is a sequence of
  valid frames of the engine's dimension, is a prefix of the file, and replays to exactly
  the records of those frames.
\<close>

lemma accepted_log_valid:
  assumes "WAL_prepareRecovery dm file_bytes = Inr logb"
  shows "\<exists>recs. logb = wal_log recs \<and> prefix logb file_bytes \<and> (\<forall>rec\<in>set recs. wal_fits (nat dm) rec) \<and>
    WAL_RecoverEx logb = recs"
  using prepareRecovery_sound [OF assms] by (simp add: WAL_RecoverEx_def)

text \<open>
  Round trip of the log: the records that valid frames encode are read back in order, with
  operation, id, vector, metadata and location, and whatever follows them is read next.
\<close>

lemma log_round_trip:
  assumes "\<forall>rec\<in>set recs. wal_valid rec"
  shows "WAL_RecoverEx (wal_log recs @ rest) = recs @ WAL_RecoverEx rest"
  using recover_log_append [OF assms] by (simp add: WAL_RecoverEx_def)

text \<open>
  A caller can wait forever. It passes the test of the closed flag, the log is closed, the
  loop drains and exits, and then its request enters the buffered channel: the state is
  reachable, and from it the request stays in the channel and is never answered.
\<close>

lemma flush_request_lost:
  "gc_steps (gc_init (OpenWal [] 0)) gc_lost \<and>
   (\<forall>g. gc_steps gc_lost g \<longrightarrow> gc_lost_request \<in> set (gcQueue g) \<and> (\<forall>e. (gc_lost_request, e) \<notin> set (gcDone g)))"
proof (intro conjI allI impI gc_lost_reached)
  fix g e assume g: "gc_steps gc_lost g"
  have inv: "gc_inv gc_lost"
    using gc_inv_steps [OF gc_lost_reached] gc_inv_init [of "OpenWal [] 0"] by (simp add: OpenWal_def)
  have "gcLoopDone gc_lost" "gc_lost_request \<in> set (gcQueue gc_lost)" by (simp_all add: gc_lost_def)
  from gc_stuck_steps [OF g inv this] show q: "gc_lost_request \<in> set (gcQueue g)" by blast
  show "(gc_lost_request, e) \<notin> set (gcDone g)" by (rule gc_queued_unanswered [OF gc_inv_steps [OF g inv] q])
qed

text \<open>
  The graph search cuts its answer to \<open>k\<close> before it drops the tombstones. In a graph of two
  nodes whose nearer one was deleted, a search for one neighbour returns nothing, although the
  other node is live and a search for two returns it.
\<close>

lemma tombstones_hide_live:
  "hnsw_inv 2 (MarkDeleted demo_graph 0) \<and> hnsw_live (MarkDeleted demo_graph 0) ''b'' \<and>
   HNSW_Search demo_dot1 demo_arena (MarkDeleted demo_graph 0) [0x3F800000] 1 = [] \<and>
   map vrID (HNSW_Search demo_dot1 demo_arena (MarkDeleted demo_graph 0) [0x3F800000] 2) = [''b'']"
proof (intro conjI)
  show "hnsw_inv 2 (MarkDeleted demo_graph 0)" by (rule MarkDeleted_inv [OF demo_graph_inv])
  have "hNodes (MarkDeleted demo_graph 0) ''b'' = Some 1"
    "isDeleted (MarkDeleted demo_graph 0) (nArenaOffset (obj (MarkDeleted demo_graph 0) 1)) = False" by code_simp+
  then show "hnsw_live (MarkDeleted demo_graph 0) ''b''" by (simp add: hnsw_live_def)
  show "HNSW_Search demo_dot1 demo_arena (MarkDeleted demo_graph 0) [0x3F800000] 1 = []" by code_simp
  show "map vrID (HNSW_Search demo_dot1 demo_arena (MarkDeleted demo_graph 0) [0x3F800000] 2) = [''b'']" by code_simp
qed

text \<open>
  \<open>BatchInsert\<close> applies the items in order and reports the others. The contents afterwards are
  the old ones updated, item by item, by exactly the positions that have no report other
  than a failed flush; a later item with the same id wins.
\<close>

lemma batch_insert_applies:
  assumes "lv_inv pub recs db" "\<forall>k. whole_write (dio k)"
    and "arTotalVectors (dbArena db) + length items < 2 ^ 32" "dsPos (dbDisk db) + length items * mib < 2 ^ 63"
    and "BatchInsert marshal dio wio fio db items = (errs, db')"
  shows "\<exists>recs'. lv_inv pub recs' db' \<and> prefix recs recs' \<and>
    lv_abs db' = foldl (batch_put marshal items) (lv_abs db) (applied_at errs (length items))"
  using BatchInsert_refines [OF assms] by blast

text \<open>
  A size out of range makes the search of a cluster panic: one whose product with the number of shards is negative, or
  positive but so large that it wraps to a negative capacity.
\<close>

lemma cluster_topk_panics:
  assumes "- (2 ^ 63) \<le> topK * int (clNumShards c) \<and> topK * int (clNumShards c) < 0 \<or>
    2 ^ 63 \<le> topK * int (clNumShards c) \<and> topK * int (clNumShards c) < 2 ^ 64"
  shows "Cluster_Search search limit order c q topK = None"
proof -
  have "wrap64 z < 0" if "- (2 ^ 63) \<le> z \<and> z < 0 \<or> 2 ^ 63 \<le> z \<and> z < 2 ^ 64" for z
    using that
  proof
    assume "- (2 ^ 63) \<le> z \<and> z < 0"
    then show ?thesis by (simp add: wrap64_def)
  next
    assume z: "2 ^ 63 \<le> z \<and> z < 2 ^ 64"
    have "(z + 2 ^ 63) mod 2 ^ 64 = (z + 2 ^ 63 - 2 ^ 64) mod (2 ^ 64 :: int)" by (rule minus_mod_self2 [symmetric])
    also have "\<dots> = z + 2 ^ 63 - 2 ^ 64" by (rule mod_pos_pos_trivial) (use z in simp_all)
    finally have "wrap64 z = z - 2 ^ 64" by (simp add: wrap64_def)
    then show ?thesis using z by simp
  qed
  then show ?thesis using assms by (simp add: Cluster_Search_def)
qed

text \<open>
  A stamp can be read back. Metadata that is absent, a map, or a JSON object gets the version of the contract, and that is the version
  that is read from the stamped metadata.
\<close>

lemma stamp_then_version:
  assumes "json_version_law parse render" "stampable parse meta"
  shows "\<exists>meta'. StampMetadata lower sha256 parse render meta c = Some meta' \<and> VersionFromMetadata parse meta' = Fingerprint lower sha256 c"
  using stamp_version [OF assms] by blast


text \<open>
  An insert into a collection that exists changes that collection alone. When it takes effect (it returns no error, or the
  record is applied and only the flush failed) the record is stored under its id with its vector normalized and the bytes of its
  stamped metadata; otherwise every collection is as it was. After a success the description has the right number of records.
\<close>

lemma collection_insert:
  assumes "cm_inv cm" "mgCollections cm c = Some h" "cm_ready io 1 (mgDbs cm ! h)" "CM_Insert ev io cm c i v meta0 = Some (r, cm')"
  shows "cm_inv cm' \<and> (\<forall>c'. c' \<noteq> c \<longrightarrow> mgMetas cm' c' = mgMetas cm c') \<and>
    (if took r then \<exists>meta b. insert_screen ev cm c v meta0 = Some (Inr meta) \<and> insert_bytes (json_data ev) (data_of meta) = Some b \<and>
        cm_abs cm' = (cm_abs cm)(c \<mapsto> (lv_abs (mgDbs cm ! h))(i \<mapsto> (arena_normalize v, b)))
     else cm_abs cm' = cm_abs cm) \<and>
    (r = None \<longrightarrow> (\<forall>d. mgMetas cm c = Some d \<longrightarrow> (\<exists>d'. mgMetas cm' c = Some d' \<and> mtCount d' = card (dom (the (cm_abs cm' c))))))"
proof -
  note R = CM_Insert_refines [OF assms]
  show ?thesis using R(1,3) R(4) R(5) by (auto split: if_splits)
qed

text \<open>
  \<open>WalkWALStrict\<close> accepts exactly the logs: it succeeds if and only if the bytes are the
  frames of valid records of the dimension, within the byte limit, on all of which the
  visitor succeeds, and then the visitor saw all of them in order.
\<close>

lemma strict_walk_iff:
  assumes "1 \<le> dm" "dm \<le> 65536" "0 \<le> mx"
  shows "WalkWALStrict (\<lambda>_. False) bs (int dm) mx visit s = Inr s' \<longleftrightarrow>
    (\<exists>recs. bs = wal_log recs \<and> (\<forall>rec\<in>set recs. wal_fits dm rec) \<and> int (length bs) \<le> mx \<and> visit_all visit s recs = Inr s')"
proof -
  have eq: "WalkWALStrict (\<lambda>_. False) bs (int dm) mx visit s = walk_strict (\<lambda>_. False) visit dm mx 0 s bs"
    using assms by (simp add: WalkWALStrict_def)
  show ?thesis
  proof
    assume "WalkWALStrict (\<lambda>_. False) bs (int dm) mx visit s = Inr s'"
    from walk_strict_sound [OF this [unfolded eq] assms] show "\<exists>recs. bs = wal_log recs \<and>
      (\<forall>rec\<in>set recs. wal_fits dm rec) \<and> int (length bs) \<le> mx \<and> visit_all visit s recs = Inr s'" by simp
  next
    assume "\<exists>recs. bs = wal_log recs \<and> (\<forall>rec\<in>set recs. wal_fits dm rec) \<and> int (length bs) \<le> mx \<and> visit_all visit s recs = Inr s'"
    then show "WalkWALStrict (\<lambda>_. False) bs (int dm) mx visit s = Inr s'"
      unfolding eq using walk_strict_log [of _ dm 0 mx visit s] assms by fastforce
  qed
qed

text \<open>
  A short write shifts every later record. When a write is cut after at least one byte the
  file grows but the position does not, and the next record, written without an error,
  reads back as other bytes.
\<close>

lemma short_write_corrupts:
  "\<exists>ds1 loc ds2. DiskStore_Write (DiskShort 1) (NewDiskStore []) ''xy'' = (Inl DiskWriteError, ds1) \<and>
     DiskStore_Write DiskOk ds1 ''{}'' = (Inr loc, ds2) \<and> DiskStore_Read ds2 loc = Inr ''x{''"
  by (simp add: DiskStore_Write_def NewDiskStore_def DiskStore_Read_def Let_def int32_of_def)

text \<open>
  A wakeup of the gate is lost. Whatever the size of the gate, a state can be reached in which no slot is taken, nobody is awake and a background
  request, whose context has not ended, is parked; from there every step is a new arrival, the closing of the gate, or the cancellation of that
  request, which does not wake it either.
\<close>

lemma gate_lost_wakeup:
  assumes "1 \<le> mx"
  shows "\<exists>es s. gate_run es (gate_start mx) s \<and> pgInflight (grGate s) = 0 \<and> grParked s = [(True, False)] \<and> grAwake s = [] \<and>
    (\<forall>e s'. gate_step e s s' \<longrightarrow> e \<in> {GArrive, GClose} \<or> e = GCancel \<and> grParked s' = [(True, True)] \<and> grAwake s' = [])"
proof -
  obtain es where "gate_run es (gate_start mx) (gate_stuck mx)" using gate_stuck_reachable [OF assms] by blast
  moreover have "pgInflight (grGate (gate_stuck mx)) = 0" "grParked (gate_stuck mx) = [(True, False)]" "grAwake (gate_stuck mx) = []"
    by (simp_all add: gate_stuck_def gate_busy_def)
  ultimately show ?thesis using gate_stuck_steps by blast
qed

text \<open>
  The fusion of vector and keyword results is deterministic. The map of fused entries may be visited in any order: the ranking is the same, since the
  comparison orders all entries, with the id as its last criterion. (The weights are finite and no keyword score is a NaN.)
\<close>

lemma hybrid_order_irrelevant:
  assumes "distinct o1" "set o1 = vcID ` set vs \<union> rsID ` set rs" "distinct o2" "set o2 = set o1"
    and "finite_flt vw" "finite_flt bw" "\<forall>r\<in>set rs. rsScore r \<noteq> FNaN"
  shows "HybridSearch o1 vs rs k vw bw = HybridSearch o2 vs rs k vw bw"
  by (rule HybridSearch_order [OF assms])

text \<open>
  An append that is cut short takes the next change with it. After a crash in the middle of \<open>AppendChange\<close>, the entry that is appended next, whole
  and synced, joins the fragment on its line: if the two together are not JSON, loading the file gives what it gave before both.
\<close>

lemma torn_append_loses_change:
  assumes "list_all line_ok ls" "line_ok (marshal (disk_of_change c1))" "line_ok (marshal (disk_of_change c2))"
    and "0 < k" "k < length (marshal (disk_of_change c1))" "k + length (marshal (disk_of_change c2)) < scanner_max"
    and "unmarshal (take k (marshal (disk_of_change c1)) @ marshal (disk_of_change c2)) = None"
  shows "LoadSnapshot ev unmarshal mx (AppendChange marshal None c2 (AppendChange marshal (Some k) c1 (Some (file_of ls)))) =
    LoadSnapshot ev unmarshal mx (Some (file_of ls))"
  by (rule torn_append_loses_next) (use assms in \<open>simp_all add: list_all_iff\<close>)

end
